(* ===== verification/Prelude.thy ===== *)
theory Prelude
  imports Main "HOL-Library.Monad_Syntax" "HOL-Library.Multiset" "HOL-Library.List_Lexorder"
begin

text \<open>
  What every component shares: the 32-bit arithmetic of the release build, decimal printing,
  Rust's three-way comparison, vectors indexed out of range, the ordered map of the standard
  library as a sorted association list, and the collections of rules that the component
  proofs use.

  A Rust panic (a failed \<open>expect\<close>, an index out of range, a missing key) is the value
  \<^term>\<open>None\<close> of the option monad; a returned error is a value of a sum type.
\<close>

named_theorems u32_simps \<open>32-bit arithmetic that does not overflow\<close>
named_theorems query_simps \<open>reads of a state after an update of it\<close>
named_theorems frame_simps \<open>fields an operation leaves unchanged\<close>
named_theorems wf_intros \<open>operations keep the well-formedness of a state\<close>

subsection \<open>Unsigned 32-bit integers\<close>

text \<open>
  A \<open>u32\<close> is a natural number below \<open>2 ^ 32\<close>. The release profile compiles \<open>+\<close>, \<open>-\<close> and
  \<open>*\<close> without overflow checks, so they wrap.
\<close>

type_synonym u32 = nat
type_synonym u64 = nat

definition u32_bound :: nat where
  "u32_bound = 4294967296"

definition u32_max :: u32 where
  "u32_max = 4294967295"

definition u32_add :: "u32 \<Rightarrow> u32 \<Rightarrow> u32" where
  "u32_add a b = (a + b) mod u32_bound"

definition u32_sub :: "u32 \<Rightarrow> u32 \<Rightarrow> u32" where
  "u32_sub a b = (if b \<le> a then a - b else u32_bound + a - b)"

definition u32_mul :: "u32 \<Rightarrow> u32 \<Rightarrow> u32" where
  "u32_mul a b = (a * b) mod u32_bound"

definition saturating_sub :: "nat \<Rightarrow> nat \<Rightarrow> nat" where
  "saturating_sub a b = a - b"

definition u32_saturating_add :: "u32 \<Rightarrow> u32 \<Rightarrow> u32" where
  "u32_saturating_add a b = min (a + b) u32_max"

definition u32_saturating_mul :: "u32 \<Rightarrow> u32 \<Rightarrow> u32" where
  "u32_saturating_mul a b = min (a * b) u32_max"

definition u32_checked_add :: "u32 \<Rightarrow> u32 \<Rightarrow> u32 option" where
  "u32_checked_add a b = (if a + b < u32_bound then Some (a + b) else None)"

definition u32_sum :: "u32 list \<Rightarrow> u32" where
  "u32_sum xs = foldl u32_add 0 xs"

definition u64_bound :: nat where
  "u64_bound = 18446744073709551616"

definition u64_add :: "u64 \<Rightarrow> u64 \<Rightarrow> u64" where
  "u64_add a b = (a + b) mod u64_bound"

definition u64_saturating_add :: "u64 \<Rightarrow> u64 \<Rightarrow> u64" where
  "u64_saturating_add a b = min (a + b) (u64_bound - 1)"

lemma u32_add_exact [u32_simps]: "a + b < u32_bound \<Longrightarrow> u32_add a b = a + b"
  by (simp add: u32_add_def)

lemma u32_sub_exact [u32_simps]: "b \<le> a \<Longrightarrow> u32_sub a b = a - b"
  by (simp add: u32_sub_def)

lemma u32_mul_exact [u32_simps]: "a * b < u32_bound \<Longrightarrow> u32_mul a b = a * b"
  by (simp add: u32_mul_def)

lemma u32_saturating_add_exact [u32_simps]: "a + b < u32_bound \<Longrightarrow> u32_saturating_add a b = a + b"
  by (simp add: u32_saturating_add_def u32_bound_def u32_max_def)

lemma foldl_u32_add: "s < u32_bound \<Longrightarrow> foldl u32_add s xs = (s + sum_list xs) mod u32_bound"
proof (induction xs arbitrary: s)
  case (Cons x xs)
  have "u32_add s x < u32_bound"
    by (simp add: u32_add_def u32_bound_def)
  then have "foldl u32_add (u32_add s x) xs = (u32_add s x + sum_list xs) mod u32_bound"
    by (rule Cons.IH)
  moreover have "(u32_add s x + sum_list xs) mod u32_bound = (s + sum_list (x # xs)) mod u32_bound"
    by (simp add: u32_add_def mod_simps add.assoc)
  ultimately show ?case by simp
qed simp

lemma u32_sum_mod: "u32_sum xs = sum_list xs mod u32_bound"
  by (simp add: u32_sum_def foldl_u32_add u32_bound_def)

lemma u32_sum_exact [u32_simps]: "sum_list xs < u32_bound \<Longrightarrow> u32_sum xs = sum_list xs"
  by (simp add: u32_sum_mod)

subsection \<open>Decimal digits\<close>

definition digit_char :: "nat \<Rightarrow> char" where
  "digit_char d = char_of (48 + d)"

fun show_nat :: "nat \<Rightarrow> string" where
  "show_nat n = (if n < 10 then [digit_char n] else show_nat (n div 10) @ [digit_char (n mod 10)])"

declare show_nat.simps [simp del]

subsection \<open>Three-way comparison\<close>

datatype ordering = Less | Equal | Greater

definition cmp :: "'a::linorder \<Rightarrow> 'a \<Rightarrow> ordering" where
  "cmp a b = (if a < b then Less else if a = b then Equal else Greater)"

definition then_with :: "ordering \<Rightarrow> ordering \<Rightarrow> ordering" where
  "then_with a b = (if a = Equal then b else a)"

lemma cmp_simps [simp]:
  "cmp a b = Less \<longleftrightarrow> a < b" "cmp a b = Equal \<longleftrightarrow> a = b" "cmp a b = Greater \<longleftrightarrow> b < a"
  by (auto simp: cmp_def)

subsection \<open>Vectors read by index, and list searches\<close>

definition vec_get :: "'a list \<Rightarrow> nat \<Rightarrow> 'a option" where
  "vec_get xs i = (if i < length xs then Some (xs ! i) else None)"

definition first_match :: "('a \<Rightarrow> bool) \<Rightarrow> 'a list \<Rightarrow> 'a option" where
  "first_match P xs = List.find P xs"

lemma vec_get_Some [simp]: "vec_get xs i = Some x \<longleftrightarrow> i < length xs \<and> xs ! i = x"
  by (auto simp: vec_get_def)

lemma first_match_SomeD: "first_match P xs = Some x \<Longrightarrow> x \<in> set xs \<and> P x"
  by (auto simp: first_match_def find_Some_iff)

lemma first_match_None_iff [simp]: "first_match P xs = None \<longleftrightarrow> (\<forall>x\<in>set xs. \<not> P x)"
  by (auto simp: first_match_def find_None_iff)

lemma first_match_exists: "\<exists>x\<in>set xs. P x \<Longrightarrow> \<exists>x. first_match P xs = Some x"
  by (metis first_match_None_iff not_None_eq)

lemma first_match_simps [simp]:
  "first_match P [] = None"
  "first_match P (x # xs) = (if P x then Some x else first_match P xs)"
  by (simp_all add: first_match_def)

lemma sum_list_update_nat:
  "i < length (xs::nat list) \<Longrightarrow> sum_list (xs[i := v]) + xs ! i = sum_list xs + v"
  by (induction xs arbitrary: i) (auto split: nat.splits)

lemma sum_list_map_update:
  "i < length xs \<Longrightarrow> sum_list (map f (xs[i := v])) + (f (xs ! i) :: nat) = sum_list (map f xs) + f v"
  using sum_list_update_nat [of i "map f xs" "f v"] by (simp add: map_update)

lemma strict_remdups_adj: "sorted (xs::'a::linorder list) \<Longrightarrow> sorted_wrt (<) (remdups_adj xs)"
proof (induction xs rule: remdups_adj.induct)
  case (3 x y xs)
  show ?case
  proof (cases "x = y")
    case False
    then have "x < y" using 3 by auto
    moreover have "\<forall>z\<in>set (remdups_adj (y # xs)). y \<le> z" using 3 by simp
    ultimately show ?thesis using 3 by fastforce
  qed (use 3 in simp)
qed simp_all

subsection \<open>Loops whose body may panic\<close>

text \<open>
  \<open>iter().any(..)\<close> and \<open>iter().all(..)\<close> with short-circuit evaluation, and a \<open>for\<close> loop over
  the elements of a list that updates a state.
\<close>

fun any_m :: "('a \<Rightarrow> bool option) \<Rightarrow> 'a list \<Rightarrow> bool option" where
  "any_m P [] = Some False"
| "any_m P (x # xs) = do { b \<leftarrow> P x; if b then Some True else any_m P xs }"

fun all_m :: "('a \<Rightarrow> bool option) \<Rightarrow> 'a list \<Rightarrow> bool option" where
  "all_m P [] = Some True"
| "all_m P (x # xs) = do { b \<leftarrow> P x; if b then all_m P xs else Some False }"

fun for_m :: "('a \<Rightarrow> 's \<Rightarrow> 's option) \<Rightarrow> 'a list \<Rightarrow> 's \<Rightarrow> 's option" where
  "for_m f [] s = Some s"
| "for_m f (x # xs) s = do { s' \<leftarrow> f x s; for_m f xs s' }"

fun map_m :: "('a \<Rightarrow> 'b option) \<Rightarrow> 'a list \<Rightarrow> 'b list option" where
  "map_m f [] = Some []"
| "map_m f (x # xs) = do { y \<leftarrow> f x; ys \<leftarrow> map_m f xs; Some (y # ys) }"

lemma any_m_total:
  "(\<And>x. x \<in> set xs \<Longrightarrow> P x = Some (Q x)) \<Longrightarrow> any_m P xs = Some (\<exists>x\<in>set xs. Q x)"
  by (induction xs) auto

lemma all_m_total:
  "(\<And>x. x \<in> set xs \<Longrightarrow> P x = Some (Q x)) \<Longrightarrow> all_m P xs = Some (\<forall>x\<in>set xs. Q x)"
  by (induction xs) auto

lemma map_m_total: "(\<And>x. x \<in> set xs \<Longrightarrow> f x = Some (g x)) \<Longrightarrow> map_m f xs = Some (map g xs)"
  by (induction xs) auto

lemma for_m_append: "for_m f (xs @ ys) s = Option.bind (for_m f xs s) (for_m f ys)"
  by (induction xs arbitrary: s) (auto split: bind_splits)

text \<open>A loop keeps an invariant and does not panic when its body does neither.\<close>

lemma for_m_rule:
  assumes "I s" and "\<And>x s. x \<in> set xs \<Longrightarrow> I s \<Longrightarrow> \<exists>s'. f x s = Some s' \<and> I s'"
  shows "\<exists>s'. for_m f xs s = Some s' \<and> I s'"
  using assms
proof (induction xs arbitrary: s)
  case (Cons x xs)
  from Cons.prems obtain s' where "f x s = Some s'" "I s'" by fastforce
  with Cons.IH [of s'] Cons.prems(2) show ?case by simp
qed simp

lemma for_m_invariant:
  assumes "for_m f xs s = Some t" and "I s"
    and "\<And>x s s'. x \<in> set xs \<Longrightarrow> I s \<Longrightarrow> f x s = Some s' \<Longrightarrow> I s'"
  shows "I t"
  using assms
proof (induction xs arbitrary: s)
  case (Cons x xs)
  from Cons.prems(1) obtain s' where step: "f x s = Some s'" and rest: "for_m f xs s' = Some t"
    by (auto split: bind_splits)
  have "I s'" by (rule Cons.prems(3) [OF _ Cons.prems(2) step]) simp
  then show ?case by (rule Cons.IH [OF rest]) (rule Cons.prems(3), auto)
qed simp

subsection \<open>The ordered map of the standard library\<close>

text \<open>A \<open>BTreeMap\<close> is the list of its entries in increasing key order.\<close>

type_synonym ('k, 'v) btree = "('k \<times> 'v) list"

definition bt_get :: "('k, 'v) btree \<Rightarrow> 'k \<Rightarrow> 'v option" where
  "bt_get m k = map_of m k"

fun bt_insert :: "'k::linorder \<Rightarrow> 'v \<Rightarrow> ('k, 'v) btree \<Rightarrow> ('k, 'v) btree" where
  "bt_insert k v [] = [(k, v)]"
| "bt_insert k v ((k', v') # m) =
     (if k < k' then (k, v) # (k', v') # m
      else if k = k' then (k, v) # m
      else (k', v') # bt_insert k v m)"

definition bt_remove :: "'k \<Rightarrow> ('k, 'v) btree \<Rightarrow> ('k, 'v) btree" where
  "bt_remove k m = filter (\<lambda>e. fst e \<noteq> k) m"

definition bt_sorted :: "('k::linorder, 'v) btree \<Rightarrow> bool" where
  "bt_sorted m \<longleftrightarrow> sorted_wrt (<) (map fst m)"

definition bt_of_list :: "('k::linorder \<times> 'v) list \<Rightarrow> ('k, 'v) btree" where
  "bt_of_list xs = fold (\<lambda>(k, v) m. bt_insert k v m) xs []"

text \<open>
  The interface the components rely on: lookups after an insertion and after a removal, and
  the key order that every operation keeps.
\<close>

locale ordered_map =
  fixes get :: "'m \<Rightarrow> 'k::linorder \<Rightarrow> 'v option"
    and insert_op :: "'k \<Rightarrow> 'v \<Rightarrow> 'm \<Rightarrow> 'm"
    and remove_op :: "'k \<Rightarrow> 'm \<Rightarrow> 'm"
    and entries :: "'m \<Rightarrow> ('k \<times> 'v) list"
    and invar :: "'m \<Rightarrow> bool"
  assumes get_insert: "get (insert_op k v m) k' = (if k' = k then Some v else get m k')"
    and get_remove: "get (remove_op k m) k' = (if k' = k then None else get m k')"
    and invar_insert: "invar m \<Longrightarrow> invar (insert_op k v m)"
    and invar_remove: "invar m \<Longrightarrow> invar (remove_op k m)"
    and get_entries: "get m k = map_of (entries m) k"
    and entries_sorted: "invar m \<Longrightarrow> sorted_wrt (<) (map fst (entries m))"
begin

lemma distinct_keys: "invar m \<Longrightarrow> distinct (map fst (entries m))"
  using entries_sorted strict_sorted_iff by blast

lemma get_iff_entry: "invar m \<Longrightarrow> get m k = Some v \<longleftrightarrow> (k, v) \<in> set (entries m)"
  by (simp add: get_entries distinct_keys)

lemma contains_insert: "get (insert_op k v m) k' \<noteq> None \<longleftrightarrow> k' = k \<or> get m k' \<noteq> None"
  by (simp add: get_insert)

lemma keys_insert:
  "invar m \<Longrightarrow> set (map fst (entries (insert_op k v m))) = insert k (set (map fst (entries m)))"
  by (auto simp: dom_map_of_conv_image_fst [symmetric] get_entries [symmetric] get_insert
      split: if_splits)

lemma insert_keeps_values:
  assumes "invar m" and "(j, w) \<in> set (entries (insert_op k v m))" and "j \<noteq> k"
  shows "(j, w) \<in> set (entries m)"
  using assms by (simp add: get_iff_entry [symmetric] invar_insert get_insert)

end

lemma bt_get_insert: "bt_get (bt_insert k v m) k' = (if k' = k then Some v else bt_get m k')"
  by (induction k v m rule: bt_insert.induct) (auto simp: bt_get_def)

lemma bt_get_remove: "bt_get (bt_remove k m) k' = (if k' = k then None else bt_get m k')"
  by (induction m) (auto simp: bt_get_def bt_remove_def)

lemma set_keys_bt_insert: "set (map fst (bt_insert k v m)) = insert k (set (map fst m))"
  by (induction k v m rule: bt_insert.induct) auto

lemma bt_sorted_insert: "bt_sorted m \<Longrightarrow> bt_sorted (bt_insert k v m)"
proof (induction k v m rule: bt_insert.induct)
  case (2 k v k' v' m)
  then show ?case
    using set_keys_bt_insert [of k v m] by (fastforce simp: bt_sorted_def)
qed (simp add: bt_sorted_def)

lemma bt_sorted_remove: "bt_sorted m \<Longrightarrow> bt_sorted (bt_remove k m)"
  by (induction m) (auto simp: bt_sorted_def bt_remove_def)

interpretation bt: ordered_map bt_get bt_insert bt_remove "\<lambda>m. m" bt_sorted
proof unfold_locales
  fix m :: "('a::linorder, 'b) btree" and k k' :: 'a and v :: 'b
  show "bt_get (bt_insert k v m) k' = (if k' = k then Some v else bt_get m k')"
    by (rule bt_get_insert)
  show "bt_get (bt_remove k m) k' = (if k' = k then None else bt_get m k')"
    by (rule bt_get_remove)
  show "bt_get m k = map_of m k"
    by (rule bt_get_def)
  show "bt_sorted m \<Longrightarrow> bt_sorted (bt_insert k v m)"
    by (rule bt_sorted_insert)
  show "bt_sorted m \<Longrightarrow> bt_sorted (bt_remove k m)"
    by (rule bt_sorted_remove)
  show "bt_sorted m \<Longrightarrow> sorted_wrt (<) (map fst m)"
    by (simp add: bt_sorted_def)
qed

lemma mset_bt_insert: "k \<notin> fst ` set m \<Longrightarrow> mset (bt_insert k v m) = add_mset (k, v) (mset m)"
  by (induction k v m rule: bt_insert.induct) auto

lemma bt_get_None: "bt_get m k = None \<longleftrightarrow> k \<notin> fst ` set m"
  by (simp add: bt_get_def map_of_eq_None_iff)

lemma length_bt_insert: "bt_get m k = None \<Longrightarrow> length (bt_insert k v m) = Suc (length m)"
  using arg_cong [OF mset_bt_insert, of k m "size" v] by (simp add: bt_get_None)

lemma bt_sorted_Nil [simp]: "bt_sorted []"
  by (simp add: bt_sorted_def)

lemma bt_get_Nil [simp]: "bt_get [] k = None"
  by (simp add: bt_get_def)

subsection \<open>Filtered maps\<close>

text \<open>The ordered map under \<open>retain\<close>, and the number of its entries.\<close>

lemma bt_sorted_filter: "bt_sorted m \<Longrightarrow> bt_sorted (filter P m)"
  by (simp add: bt_sorted_def sorted_wrt_map sorted_wrt_filter)

lemma bt_get_filter:
  "bt_sorted m \<Longrightarrow> bt_get (filter P m) k =
     (case bt_get m k of None \<Rightarrow> None | Some v \<Rightarrow> if P (k, v) then Some v else None)"
proof (induction m)
  case (Cons e m)
  have "bt_get m (fst e) = None"
    using Cons.prems by (force simp: bt_sorted_def bt_get_def map_of_eq_None_iff)
  then show ?case using Cons by (cases e) (auto simp: bt_get_def bt_sorted_def split: option.splits)
qed (simp add: bt_get_def)

lemma bt_get_filter_None: "bt_get m k = None \<Longrightarrow> bt_get (filter P m) k = None"
  by (auto simp: bt_get_def map_of_eq_None_iff)

lemma length_bt_insert_present: "bt_get m k \<noteq> None \<Longrightarrow> bt_sorted m \<Longrightarrow> length (bt_insert k v m) = length m"
  by (induction m) (force simp: bt_get_def bt_sorted_def split: if_splits dest!: map_of_SomeD)+

lemma length_bt_insert_le: "length (bt_insert k v m) \<le> Suc (length m)"
  by (induction m) auto

subsection \<open>Decimal numerals name one number\<close>

text \<open>Decimal numerals: their digits, their length, and that they name one number.\<close>

lemma digit_char_code: "d < 10 \<Longrightarrow> (of_char (digit_char d) :: nat) = 48 + d"
  by (simp add: digit_char_def)

lemma show_nat_digits: "c \<in> set (show_nat n) \<Longrightarrow> \<exists>d<10. c = digit_char d"
proof (induction n rule: show_nat.induct)
  case (1 n)
  show ?case
  proof (cases "n < 10")
    case True
    then show ?thesis using "1.prems" by (auto simp: show_nat.simps [of n])
  next
    case False
    then have "c \<in> set (show_nat (n div 10)) \<or> c = digit_char (n mod 10)"
      using "1.prems" by (auto simp: show_nat.simps [of n])
    then show ?thesis using "1.IH" [OF False] by (metis mod_less_divisor zero_less_numeral)
  qed
qed

lemma show_nat_nonempty: "show_nat n \<noteq> []"
  by (simp add: show_nat.simps)

lemma length_show_nat: "n < 10 ^ k \<Longrightarrow> 0 < k \<Longrightarrow> length (show_nat n) \<le> k"
proof (induction k arbitrary: n)
  case (Suc k)
  show ?case
  proof (cases "n < 10")
    case True
    then show ?thesis by (simp add: show_nat.simps [of n])
  next
    case False
    then have "k \<noteq> 0" using Suc.prems(1) by (cases k) auto
    moreover have "n div 10 < 10 ^ k" using Suc.prems(1) by (simp add: less_mult_imp_div_less mult.commute)
    ultimately show ?thesis using Suc.IH [of "n div 10"] False by (simp add: show_nat.simps [of n])
  qed
qed simp

definition read_nat :: "string \<Rightarrow> nat" where
  "read_nat s = foldl (\<lambda>n c. 10 * n + (of_char c - 48)) 0 s"

lemma read_show_nat: "read_nat (show_nat n) = n"
proof (induction n rule: show_nat.induct)
  case (1 n)
  show ?case
  proof (cases "n < 10")
    case True
    then show ?thesis by (simp add: show_nat.simps [of n] read_nat_def digit_char_code)
  next
    case False
    have "read_nat (show_nat n) = 10 * read_nat (show_nat (n div 10)) + n mod 10"
      using False by (simp add: show_nat.simps [of n] read_nat_def digit_char_code)
    then show ?thesis using "1.IH" [OF False] by simp
  qed
qed

lemma show_nat_inject: "show_nat m = show_nat n \<longleftrightarrow> m = n"
  using read_show_nat by metis

end
