(* ===== verification/Deck.thy ===== *)
theory Deck
  imports Prelude
begin

text \<open>
  Cards, ranks and the deck (src/src/game/deck.rs). A rank is compared by its discriminant, so the
  type is an instance of \<^const>\<open>less_eq\<close>'s class. The shuffle belongs to the \<open>rand\<close> crate: it is
  an argument, a function of the generator state and the cards, and what the game relies on is
  that it permutes the cards.
\<close>

subsection \<open>Suits and ranks\<close>

datatype suit = Spades | Hearts | Diamonds | Clubs

datatype rank = Two | Three | Four | Five | Six | Seven | Eight | Nine | Ten
  | Jack | Queen | King | Ace

definition utf8 :: "nat list \<Rightarrow> string" where
  "utf8 bytes = map char_of bytes"

fun suit_symbol :: "suit \<Rightarrow> string" where
  "suit_symbol Spades = utf8 [226, 153, 160, 239, 184, 142]"
| "suit_symbol Hearts = utf8 [226, 153, 165, 239, 184, 142]"
| "suit_symbol Diamonds = utf8 [226, 153, 166, 239, 184, 142]"
| "suit_symbol Clubs = utf8 [226, 153, 163, 239, 184, 142]"

fun suit_is_red :: "suit \<Rightarrow> bool" where
  "suit_is_red Hearts = True"
| "suit_is_red Diamonds = True"
| "suit_is_red _ = False"

fun rank_value :: "rank \<Rightarrow> nat" where
  "rank_value Two = 2"
| "rank_value Three = 3"
| "rank_value Four = 4"
| "rank_value Five = 5"
| "rank_value Six = 6"
| "rank_value Seven = 7"
| "rank_value Eight = 8"
| "rank_value Nine = 9"
| "rank_value Ten = 10"
| "rank_value Jack = 11"
| "rank_value Queen = 12"
| "rank_value King = 13"
| "rank_value Ace = 14"

fun rank_symbol :: "rank \<Rightarrow> string" where
  "rank_symbol Two = ''2''"
| "rank_symbol Three = ''3''"
| "rank_symbol Four = ''4''"
| "rank_symbol Five = ''5''"
| "rank_symbol Six = ''6''"
| "rank_symbol Seven = ''7''"
| "rank_symbol Eight = ''8''"
| "rank_symbol Nine = ''9''"
| "rank_symbol Ten = ''10''"
| "rank_symbol Jack = ''J''"
| "rank_symbol Queen = ''Q''"
| "rank_symbol King = ''K''"
| "rank_symbol Ace = ''A''"

definition rank_ALL :: "rank list" where
  "rank_ALL = [Two, Three, Four, Five, Six, Seven, Eight, Nine, Ten, Jack, Queen, King, Ace]"

lemma rank_value_inj [simp]: "rank_value r = rank_value s \<longleftrightarrow> r = s"
  by (cases r; cases s; simp)

lemma rank_value_bounds: "2 \<le> rank_value r \<and> rank_value r \<le> 14"
  by (cases r) auto

instantiation rank :: linorder
begin

definition less_eq_rank :: "rank \<Rightarrow> rank \<Rightarrow> bool" where
  "less_eq_rank r s \<longleftrightarrow> rank_value r \<le> rank_value s"

definition less_rank :: "rank \<Rightarrow> rank \<Rightarrow> bool" where
  "less_rank r s \<longleftrightarrow> rank_value r < rank_value s"

instance
  by standard (auto simp: less_eq_rank_def less_rank_def)

end

lemma set_rank_ALL [simp]: "set rank_ALL = UNIV"
proof -
  have "r \<in> set rank_ALL" for r
    by (cases r) (simp_all add: rank_ALL_def)
  then show ?thesis by auto
qed

lemma distinct_rank_ALL [simp]: "distinct rank_ALL"
  by (simp add: rank_ALL_def)

subsection \<open>Cards\<close>

record card =
  card_rank :: rank
  card_suit :: suit

definition card_new :: "rank \<Rightarrow> suit \<Rightarrow> card" where
  "card_new r s = \<lparr>card_rank = r, card_suit = s\<rparr>"

definition card_display :: "card \<Rightarrow> string" where
  "card_display c = rank_symbol (card_rank c) @ suit_symbol (card_suit c)"

lemma card_new_sel [simp]: "card_rank (card_new r s) = r" "card_suit (card_new r s) = s"
  by (simp_all add: card_new_def)

lemma card_new_eq [simp]: "card_new r s = card_new r' s' \<longleftrightarrow> r = r' \<and> s = s'"
  by (auto simp: card_new_def)

lemma card_eta [simp]: "card_new (card_rank c) (card_suit c) = c"
  by (simp add: card_new_def)

subsection \<open>The deck\<close>

record deck =
  deck_cards :: "card list"
  deck_index :: nat

definition deck_new :: deck where
  "deck_new =
     \<lparr>deck_cards = concat (map (\<lambda>s. map (\<lambda>r. card_new r s) rank_ALL)
        [Spades, Hearts, Diamonds, Clubs]),
      deck_index = 0\<rparr>"

definition deck_shuffle_with :: "('g \<Rightarrow> card list \<Rightarrow> card list \<times> 'g) \<Rightarrow> 'g \<Rightarrow> deck \<Rightarrow> deck \<times> 'g" where
  "deck_shuffle_with shuffle rng d =
     (let (cards, rng') = shuffle rng (deck_cards d)
      in (d\<lparr>deck_cards := cards, deck_index := 0\<rparr>, rng'))"

definition deck_deal :: "deck \<Rightarrow> card option \<times> deck" where
  "deck_deal d =
     (if deck_index d < length (deck_cards d)
      then (Some (deck_cards d ! deck_index d), d\<lparr>deck_index := deck_index d + 1\<rparr>)
      else (None, d))"

fun deck_deal_n :: "nat \<Rightarrow> deck \<Rightarrow> card list \<times> deck" where
  "deck_deal_n 0 d = ([], d)"
| "deck_deal_n (Suc n) d =
     (case deck_deal d of
        (Some c, d') \<Rightarrow> (let (cs, d'') = deck_deal_n n d' in (c # cs, d''))
      | (None, d') \<Rightarrow> deck_deal_n n d')"

definition deck_from_ordered_cards_for_training :: "card list \<Rightarrow> deck" where
  "deck_from_ordered_cards_for_training cards = \<lparr>deck_cards = cards, deck_index = 0\<rparr>"

record 'g shuffle_source =
  source_rng :: 'g

definition shuffle_source_shuffle ::
  "('g \<Rightarrow> card list \<Rightarrow> card list \<times> 'g) \<Rightarrow> 'g shuffle_source \<Rightarrow> deck \<Rightarrow> deck \<times> 'g shuffle_source"
  where
  "shuffle_source_shuffle shuffle src d =
     (let (d', rng') = deck_shuffle_with shuffle (source_rng src) d
      in (d', src\<lparr>source_rng := rng'\<rparr>))"

subsection \<open>Facts about dealing\<close>

text \<open>What is left to deal; a deal takes cards from its front.\<close>

definition deck_rest :: "deck \<Rightarrow> card list" where
  "deck_rest d = drop (deck_index d) (deck_cards d)"

lemma deck_new_complete: "length (deck_cards deck_new) = 52 \<and> distinct (deck_cards deck_new)"
  by code_simp

lemma deck_new_members: "c \<in> set (deck_cards deck_new)"
proof -
  have "card_new (card_rank c) s \<in> (\<lambda>r. card_new r s) ` set rank_ALL" for s
    by simp
  then have "card_new (card_rank c) (card_suit c) \<in> set (deck_cards deck_new)"
    by (cases "card_suit c") (auto simp: deck_new_def)
  then show ?thesis by simp
qed

lemma deck_deal_cases:
  "deck_deal d = (case deck_rest d of
      [] \<Rightarrow> (None, d) | c # _ \<Rightarrow> (Some c, d\<lparr>deck_index := deck_index d + 1\<rparr>))"
  by (auto simp: deck_deal_def deck_rest_def Cons_nth_drop_Suc [symmetric] split: list.splits)

lemma deck_deal_rest:
  "deck_rest (snd (deck_deal d)) = tl (deck_rest d)"
  "deck_cards (snd (deck_deal d)) = deck_cards d"
  by (auto simp: deck_deal_def deck_rest_def drop_Suc [symmetric] tl_drop)

lemma deck_deal_n_spec:
  "fst (deck_deal_n n d) = take n (deck_rest d) \<and>
   deck_rest (snd (deck_deal_n n d)) = drop n (deck_rest d)"
proof (induction n arbitrary: d)
  case (Suc n)
  show ?case
  proof (cases "deck_rest d")
    case Nil
    with Suc [of d] show ?thesis by (simp add: deck_deal_cases)
  next
    case (Cons c cs)
    define d' where "d' = d\<lparr>deck_index := deck_index d + 1\<rparr>"
    have deal: "deck_deal d = (Some c, d')"
      using Cons by (simp add: deck_deal_cases d'_def)
    have "deck_rest d' = cs"
      using deck_deal_rest(1) [of d] Cons deal by simp
    with Suc [of d'] deal Cons show ?thesis by (simp add: split_beta)
  qed
qed simp

lemma fst_deck_deal_n: "fst (deck_deal_n n d) = take n (deck_rest d)"
  using deck_deal_n_spec by blast

lemma deck_rest_deal_n: "deck_rest (snd (deck_deal_n n d)) = drop n (deck_rest d)"
  using deck_deal_n_spec by blast

lemma shuffle_resets:
  assumes "\<And>g cs. mset (fst (shuffle g cs)) = mset cs"
  shows "mset (deck_rest (fst (deck_shuffle_with shuffle g d))) = mset (deck_cards d)"
  using assms [of g "deck_cards d"] by (simp add: deck_shuffle_with_def deck_rest_def split_beta)

end
