(* ===== verification/Hand_Eval.thy ===== *)
theory Hand_Eval
  imports Deck
begin

text \<open>
  The hand evaluator (src/src/game/hand.rs): a five-card hand is put in one of nine categories with
  its tie-breaking ranks, and the best five of the hole cards and the board are found by trying
  every choice of five. Rust's \<open>HashMap\<close> is iterated in no fixed order; the evaluation takes
  the two iteration sequences as arguments (\<open>_with\<close>), and the entry points pass the entries
  in the order of first insertion. \<open>unwrap\<close> on \<^const>\<open>None\<close> is the panic value.
  Not modelled: \<open>strength\<close>, a floating-point display value.
\<close>

subsection \<open>Categories and evaluations\<close>

datatype hand_rank = HighCard | OnePair | TwoPair | ThreeOfAKind | Straight | Flush | FullHouse
  | FourOfAKind | StraightFlush

fun hand_rank_value :: "hand_rank \<Rightarrow> nat" where
  "hand_rank_value HighCard = 0"
| "hand_rank_value OnePair = 1"
| "hand_rank_value TwoPair = 2"
| "hand_rank_value ThreeOfAKind = 3"
| "hand_rank_value Straight = 4"
| "hand_rank_value Flush = 5"
| "hand_rank_value FullHouse = 6"
| "hand_rank_value FourOfAKind = 7"
| "hand_rank_value StraightFlush = 8"

lemma hand_rank_value_inj [simp]: "hand_rank_value r = hand_rank_value s \<longleftrightarrow> r = s"
  by (cases r; cases s; simp)

instantiation hand_rank :: linorder
begin

definition less_eq_hand_rank :: "hand_rank \<Rightarrow> hand_rank \<Rightarrow> bool" where
  "less_eq_hand_rank r s \<longleftrightarrow> hand_rank_value r \<le> hand_rank_value s"

definition less_hand_rank :: "hand_rank \<Rightarrow> hand_rank \<Rightarrow> bool" where
  "less_hand_rank r s \<longleftrightarrow> hand_rank_value r < hand_rank_value s"

instance
  by standard (auto simp: less_eq_hand_rank_def less_hand_rank_def)

end

record hand_evaluation =
  ev_rank :: hand_rank
  ev_kickers :: "rank list"
  ev_description :: string

fun rank_name :: "rank \<Rightarrow> string" where
  "rank_name Two = ''twos''"
| "rank_name Three = ''threes''"
| "rank_name Four = ''fours''"
| "rank_name Five = ''fives''"
| "rank_name Six = ''sixes''"
| "rank_name Seven = ''sevens''"
| "rank_name Eight = ''eights''"
| "rank_name Nine = ''nines''"
| "rank_name Ten = ''tens''"
| "rank_name Jack = ''jacks''"
| "rank_name Queen = ''queens''"
| "rank_name King = ''kings''"
| "rank_name Ace = ''aces''"

subsection \<open>Counting\<close>

text \<open>\<open>*map.entry(k).or_insert(0) += 1\<close>, over the entries in insertion order.\<close>

fun bump_entry :: "'k \<Rightarrow> ('k \<times> nat) list \<Rightarrow> ('k \<times> nat) list" where
  "bump_entry k [] = [(k, 1)]"
| "bump_entry k ((k', n) # m) = (if k = k' then (k', n + 1) # m else (k', n) # bump_entry k m)"

definition tally :: "'k list \<Rightarrow> ('k \<times> nat) list" where
  "tally ks = foldl (\<lambda>m k. bump_entry k m) [] ks"

definition key_with_count :: "nat \<Rightarrow> ('k \<times> nat) list \<Rightarrow> 'k option" where
  "key_with_count n m = map_option fst (first_match (\<lambda>(k, c). c = n) m)"

definition keys_with_count :: "nat \<Rightarrow> ('k \<times> nat) list \<Rightarrow> 'k list" where
  "keys_with_count n m = map fst (filter (\<lambda>(k, c). c = n) m)"

definition sort_descending :: "'a::linorder list \<Rightarrow> 'a list" where
  "sort_descending xs = rev (sort xs)"

subsection \<open>Straights\<close>

fun windows5 :: "'a list \<Rightarrow> 'a list list" where
  "windows5 (a # b # c # d # e # xs) = [a, b, c, d, e] # windows5 (b # c # d # e # xs)"
| "windows5 _ = []"

definition check_straight :: "rank list \<Rightarrow> rank option" where
  "check_straight sorted_ranks =
     (if length sorted_ranks < 5 then None
      else (let values = map rank_value sorted_ranks in
        if 14 \<in> set values \<and> 2 \<in> set values \<and> 3 \<in> set values \<and> 4 \<in> set values \<and> 5 \<in> set values
        then Some Five
        else map_option (\<lambda>w. w ! 0)
          (first_match (\<lambda>w. int (rank_value (w ! 0)) - int (rank_value (w ! 4)) = 4)
            (windows5 sorted_ranks))))"

subsection \<open>Five cards\<close>

definition max_rank :: "rank list \<Rightarrow> rank option" where
  "max_rank rs = (case rs of [] \<Rightarrow> None | r # rs' \<Rightarrow> Some (foldl max r rs'))"

definition evaluate_five_with ::
  "(rank \<times> nat) list \<Rightarrow> (suit \<times> nat) list \<Rightarrow> card list \<Rightarrow> hand_evaluation option" where
  "evaluate_five_with rank_counts suit_counts cards =
    (let is_flush = list_ex (\<lambda>(s, c). 5 \<le> c) suit_counts;
         ranks = remdups_adj (sort_descending (map card_rank cards));
         straight_high = check_straight ranks;
         quads = key_with_count 4 rank_counts;
         trips = key_with_count 3 rank_counts;
         pair = key_with_count 2 rank_counts;
         pairs = keys_with_count 2 rank_counts
     in if is_flush \<and> straight_high \<noteq> None then
          map_option (\<lambda>high. \<lparr>ev_rank = StraightFlush, ev_kickers = [high],
            ev_description = rank_name high @ '' high straight flush''\<rparr>) straight_high
        else case quads of
          Some r \<Rightarrow> Some \<lparr>ev_rank = FourOfAKind, ev_kickers = r # filter (\<lambda>other. other \<noteq> r) ranks,
            ev_description = ''Four of a kind, '' @ rank_name r\<rparr>
        | None \<Rightarrow>
        (case (trips, pair) of
          (Some t, Some p) \<Rightarrow> Some \<lparr>ev_rank = FullHouse, ev_kickers = [t, p],
            ev_description = ''Full house, '' @ rank_name t @ '' full of '' @ rank_name p\<rparr>
        | _ \<Rightarrow>
        (if is_flush then
          (case vec_get ranks 0 of None \<Rightarrow> None | Some r \<Rightarrow>
            Some \<lparr>ev_rank = Flush, ev_kickers = ranks,
              ev_description = rank_name r @ '' high flush''\<rparr>)
        else case straight_high of
          Some high \<Rightarrow> Some \<lparr>ev_rank = Straight, ev_kickers = [high],
            ev_description = rank_name high @ '' high straight''\<rparr>
        | None \<Rightarrow>
        (case trips of
          Some t \<Rightarrow> Some \<lparr>ev_rank = ThreeOfAKind, ev_kickers = t # filter (\<lambda>r. r \<noteq> t) ranks,
            ev_description = ''Three of a kind, '' @ rank_name t\<rparr>
        | None \<Rightarrow>
        (case sort_descending pairs of
          high # low # rest \<Rightarrow> Some \<lparr>ev_rank = TwoPair,
            ev_kickers = (high # low # rest) @ filter (\<lambda>r. r \<noteq> high \<and> r \<noteq> low) ranks,
            ev_description = ''Two pair, '' @ rank_name high @ '' and '' @ rank_name low\<rparr>
        | [p] \<Rightarrow> Some \<lparr>ev_rank = OnePair, ev_kickers = p # filter (\<lambda>r. r \<noteq> p) ranks,
            ev_description = ''Pair of '' @ rank_name p\<rparr>
        | [] \<Rightarrow> map_option (\<lambda>m. \<lparr>ev_rank = HighCard, ev_kickers = ranks,
            ev_description = rank_name m @ '' high''\<rparr>) (max_rank (map card_rank cards)))))))"

definition evaluate_five :: "card list \<Rightarrow> hand_evaluation option" where
  "evaluate_five cards =
     evaluate_five_with (tally (map card_rank cards)) (tally (map card_suit cards)) cards"

subsection \<open>Fewer than five cards\<close>

text \<open>The loop over the counts: a four of a kind returns at once.\<close>

fun partial_scan ::
  "(rank \<times> nat) list \<Rightarrow> nat \<Rightarrow> bool \<Rightarrow> rank option \<Rightarrow> hand_evaluation + nat \<times> bool \<times> rank option"
  where
  "partial_scan [] pairs trips highest = Inr (pairs, trips, highest)"
| "partial_scan ((r, c) # m) pairs trips highest =
     (if c = 2 then partial_scan m (pairs + 1) trips
        (case highest of None \<Rightarrow> Some r | Some h \<Rightarrow> if h < r then Some r else highest)
      else if c = 3 then partial_scan m pairs True highest
      else if c = 4 then Inl \<lparr>ev_rank = FourOfAKind, ev_kickers = [r],
        ev_description = ''Four of a kind, '' @ rank_name r\<rparr>
      else partial_scan m pairs trips highest)"

definition evaluate_partial_with :: "(rank \<times> nat) list \<Rightarrow> card list \<Rightarrow> hand_evaluation option" where
  "evaluate_partial_with rank_counts cards =
    (if cards = [] then Some \<lparr>ev_rank = HighCard, ev_kickers = [], ev_description = ''No cards''\<rparr>
     else case partial_scan rank_counts 0 False None of
       Inl e \<Rightarrow> Some e
     | Inr (pairs, trips, highest) \<Rightarrow>
       (if trips then
          map_option (\<lambda>t. \<lparr>ev_rank = ThreeOfAKind, ev_kickers = [t],
            ev_description = ''Three of a kind, '' @ rank_name t\<rparr>) (key_with_count 3 rank_counts)
        else if 2 \<le> pairs then
          Some \<lparr>ev_rank = TwoPair, ev_kickers = (case highest of None \<Rightarrow> [] | Some r \<Rightarrow> [r]),
            ev_description = ''Two pair''\<rparr>
        else if pairs = 1 then
          map_option (\<lambda>p. \<lparr>ev_rank = OnePair, ev_kickers = [p],
            ev_description = ''Pair of '' @ rank_name p\<rparr>) highest
        else
          (let ranks = sort_descending (map card_rank cards) in
           map_option (\<lambda>h. \<lparr>ev_rank = HighCard, ev_kickers = ranks,
             ev_description = rank_name h @ '' high''\<rparr>) (vec_get ranks 0))))"

definition evaluate_partial :: "card list \<Rightarrow> hand_evaluation option" where
  "evaluate_partial cards = evaluate_partial_with (tally (map card_rank cards)) cards"

subsection \<open>The best five\<close>

function combinations :: "card list \<Rightarrow> nat \<Rightarrow> card list list" where
  "combinations cards k =
     (if k = 0 then [[]]
      else if length cards < k then []
      else concat (map (\<lambda>i. map (\<lambda>combo. (cards ! i) # combo) (combinations (drop (i + 1) cards) (k - 1)))
        [0..<length cards]))"
  by pat_completeness auto
termination
  by (relation "measure (\<lambda>(cards, k). k)") auto

declare combinations.simps [simp del]

definition compare_hands :: "hand_evaluation \<Rightarrow> hand_evaluation \<Rightarrow> ordering" where
  "compare_hands l r =
     then_with (cmp (ev_rank l) (ev_rank r)) (cmp (ev_kickers l) (ev_kickers r))"

fun best_of :: "card list list \<Rightarrow> (hand_evaluation \<times> card list) option
    \<Rightarrow> (hand_evaluation \<times> card list) option option" where
  "best_of [] best = Some best"
| "best_of (cards # rest) best = do {
     evaluation \<leftarrow> evaluate_five cards;
     let replaces = (case best of None \<Rightarrow> True
       | Some (current, _) \<Rightarrow> compare_hands evaluation current = Greater);
     best_of rest (if replaces then Some (evaluation, cards) else best) }"

definition evaluate_best_five ::
  "card list \<Rightarrow> card list \<Rightarrow> (hand_evaluation \<times> card list) option option" where
  "evaluate_best_five hole_cards board = best_of (combinations (hole_cards @ board) 5) None"

definition evaluate_hand :: "card list \<Rightarrow> card list \<Rightarrow> hand_evaluation option" where
  "evaluate_hand hole_cards board =
     (let all_cards = hole_cards @ board in
      if length all_cards < 5 then evaluate_partial all_cards
      else map_option (\<lambda>best. case best of
          Some (evaluation, _) \<Rightarrow> evaluation
        | None \<Rightarrow> \<lparr>ev_rank = HighCard, ev_kickers = [], ev_description = ''Unknown''\<rparr>)
        (evaluate_best_five hole_cards board))"

end
