(* ===== verification/Seat.thy ===== *)
theory Seat
  imports Prelude
begin

text \<open>
  Seats and table sizes (src/src/game/seat.rs). \<open>SeatId\<close>, \<open>TableSize\<close> and \<open>PlayerId\<close> wrap an
  integer; the first two are built only through their checked constructors, whose range is the
  predicates \<open>valid_seat\<close> and \<open>valid_size\<close>. Every clockwise search of the engine runs over a list
  of seats; the locale \<open>clockwise\<close> states what such a search returns.
\<close>

type_synonym player_id = u64
type_synonym seat_id = nat
type_synonym table_size = nat

definition MIN_TABLE_SEATS :: nat where
  "MIN_TABLE_SEATS = 2"

definition MAX_TABLE_SEATS :: nat where
  "MAX_TABLE_SEATS = 9"

datatype invalid_seat_id = InvalidSeatId nat
datatype invalid_table_size = InvalidTableSize nat

definition seat_id_new :: "nat \<Rightarrow> invalid_seat_id + seat_id" where
  "seat_id_new index = (if index < MAX_TABLE_SEATS then Inr index else Inl (InvalidSeatId index))"

definition invalid_seat_id_display :: "invalid_seat_id \<Rightarrow> string" where
  "invalid_seat_id_display e = (case e of InvalidSeatId v \<Rightarrow>
     ''seat index '' @ show_nat v @ '' is outside the supported range 0..'' @ show_nat MAX_TABLE_SEATS)"

definition table_size_try_from :: "nat \<Rightarrow> invalid_table_size + table_size" where
  "table_size_try_from seats =
     (if MIN_TABLE_SEATS \<le> seats \<and> seats \<le> MAX_TABLE_SEATS then Inr seats
      else Inl (InvalidTableSize seats))"

definition invalid_table_size_display :: "invalid_table_size \<Rightarrow> string" where
  "invalid_table_size_display e = (case e of InvalidTableSize v \<Rightarrow>
     ''table size '' @ show_nat v @ '' is outside the supported range ''
       @ show_nat MIN_TABLE_SEATS @ ''..='' @ show_nat MAX_TABLE_SEATS)"

definition table_contains :: "table_size \<Rightarrow> seat_id \<Rightarrow> bool" where
  "table_contains n s \<longleftrightarrow> s < n"

definition table_size_seats :: "table_size \<Rightarrow> seat_id list" where
  "table_size_seats n = [0..<n]"

definition next_eligible :: "table_size \<Rightarrow> seat_id \<Rightarrow> (seat_id \<Rightarrow> bool) \<Rightarrow> seat_id option" where
  "next_eligible n start eligible =
     (if \<not> table_contains n start then None
      else first_match eligible (map (\<lambda>offset. (start + offset) mod n) [1..<n]))"

text \<open>The values that the checked constructors produce.\<close>

definition valid_seat :: "seat_id \<Rightarrow> bool" where
  "valid_seat s \<longleftrightarrow> s < MAX_TABLE_SEATS"

definition valid_size :: "table_size \<Rightarrow> bool" where
  "valid_size n \<longleftrightarrow> MIN_TABLE_SEATS \<le> n \<and> n \<le> MAX_TABLE_SEATS"

lemma seat_id_new_Inr [simp]: "seat_id_new i = Inr s \<longleftrightarrow> s = i \<and> valid_seat i"
  by (auto simp: seat_id_new_def valid_seat_def)

lemma table_size_try_from_Inr [simp]: "table_size_try_from i = Inr n \<longleftrightarrow> n = i \<and> valid_size i"
  by (auto simp: table_size_try_from_def valid_size_def)

lemma valid_size_pos: "valid_size n \<Longrightarrow> 2 \<le> n \<and> n \<le> 9"
  by (simp add: valid_size_def MIN_TABLE_SEATS_def MAX_TABLE_SEATS_def)

subsection \<open>Clockwise searches\<close>

text \<open>
  A search starts at a seat and looks at the seats \<open>candidates start\<close> in order. The law is that the
  list visits every seat of the ring that it should (all but the start, or all) exactly once.
\<close>

locale clockwise =
  fixes ring_size :: nat
    and candidates :: "seat_id \<Rightarrow> seat_id list"
  assumes candidates_bound: "0 < ring_size \<Longrightarrow> s \<in> set (candidates start) \<Longrightarrow> s < ring_size"
    and candidates_complete: "start < ring_size \<Longrightarrow> s < ring_size \<Longrightarrow> s \<noteq> start \<Longrightarrow> s \<in> set (candidates start)"
    and candidates_distinct: "start < ring_size \<Longrightarrow> distinct (candidates start)"
begin

lemma search_sound:
  "first_match P (candidates start) = Some s \<Longrightarrow> 0 < ring_size \<Longrightarrow> s < ring_size \<and> P s"
  by (drule first_match_SomeD) (auto intro: candidates_bound)

lemma search_finds_other:
  assumes "start < ring_size" "s < ring_size" "s \<noteq> start" "P s"
  shows "\<exists>t. first_match P (candidates start) = Some t \<and> t < ring_size \<and> P t"
proof -
  have "s \<in> set (candidates start)"
    using assms by (simp add: candidates_complete)
  then obtain t where t: "first_match P (candidates start) = Some t"
    using assms(4) first_match_exists [of "candidates start" P] by blast
  moreover have "0 < ring_size" using assms(1) by simp
  ultimately show ?thesis using search_sound [OF t] by simp
qed

lemma search_none_other:
  "first_match P (candidates start) = None \<Longrightarrow> start < ring_size \<Longrightarrow> s < ring_size \<Longrightarrow> s \<noteq> start \<Longrightarrow> \<not> P s"
  using candidates_complete by (auto simp del: set_map)

end

definition ring_from :: "nat \<Rightarrow> nat list \<Rightarrow> seat_id \<Rightarrow> seat_id list" where
  "ring_from n offsets start = map (\<lambda>offset. (start + offset) mod n) offsets"

lemma mod_add_inj:
  assumes "(start + i) mod n = (start + j) mod n" "i \<le> j" "j < i + n" "0 < (n::nat)"
  shows "i = j"
proof -
  have "n dvd (start + j) - (start + i)"
    using assms(1,2) mod_eq_dvd_iff_nat [of "start + i" "start + j" n] by simp
  then have "n dvd j - i" by simp
  moreover have "j - i < n" using assms(3,4) by linarith
  ultimately have "j - i = 0" using nat_dvd_not_less [of "j - i" n] by auto
  then show ?thesis using assms(2) by simp
qed

lemma inj_on_ring: "0 < n \<Longrightarrow> inj_on (\<lambda>i. (start + i) mod n) {a..<a + (n::nat)}"
proof (rule inj_onI)
  fix x y
  assume n: "0 < n" and xy: "x \<in> {a..<a + n}" "y \<in> {a..<a + n}"
    and eq: "(start + x) mod n = (start + y) mod n"
  show "x = y"
  proof (cases "x \<le> y")
    case True
    then show ?thesis using mod_add_inj [OF eq] xy n by auto
  next
    case False
    then show ?thesis using mod_add_inj [OF eq [symmetric]] xy n by auto
  qed
qed

lemma ring_reaches:
  fixes start s n :: nat
  assumes "start < n" "s < n"
  shows "(start + (s + n - start) mod n) mod n = s"
proof -
  have "(start + (s + n - start) mod n) mod n = (start + (s + n - start)) mod n"
    by (rule mod_add_right_eq)
  also have "\<dots> = s" using assms by simp
  finally show ?thesis .
qed

lemma ring_offset_bounds:
  fixes start s n :: nat
  assumes "start < n" "s < n" "s \<noteq> start"
  shows "1 \<le> (s + n - start) mod n \<and> (s + n - start) mod n < n"
proof -
  have "(s + n - start) mod n \<noteq> 0"
  proof
    assume "(s + n - start) mod n = 0"
    then show False using ring_reaches [OF assms(1,2)] assms(1,3) by simp
  qed
  then show ?thesis using assms(1) by simp
qed

lemma ring_members:
  assumes "start < n" "s < n" "s \<noteq> start" "{1..<n} \<subseteq> set offsets"
  shows "s \<in> set (ring_from n offsets start)"
proof -
  have "(s + n - start) mod n \<in> set offsets"
    using ring_offset_bounds [OF assms(1-3)] assms(4) by auto
  then show ?thesis
    unfolding ring_from_def using ring_reaches [OF assms(1,2)] by force
qed

lemma ring_distinct: "0 < n \<Longrightarrow> set offsets \<subseteq> {a..<a + n} \<Longrightarrow> distinct offsets
   \<Longrightarrow> distinct (ring_from n offsets start)"
  unfolding ring_from_def by (simp add: distinct_map inj_on_subset [OF inj_on_ring])

interpretation others: clockwise n "ring_from n [1..<n]" for n
proof
  fix start s
  show "0 < n \<Longrightarrow> s \<in> set (ring_from n [1..<n] start) \<Longrightarrow> s < n"
    by (auto simp: ring_from_def)
  show "start < n \<Longrightarrow> s < n \<Longrightarrow> s \<noteq> start \<Longrightarrow> s \<in> set (ring_from n [1..<n] start)"
    by (rule ring_members) auto
  show "start < n \<Longrightarrow> distinct (ring_from n [1..<n] start)"
    by (rule ring_distinct [where a = 1]) auto
qed

interpretation after: clockwise n "ring_from n [1..<Suc n]" for n
proof
  fix start s
  show "0 < n \<Longrightarrow> s \<in> set (ring_from n [1..<Suc n] start) \<Longrightarrow> s < n"
    by (auto simp: ring_from_def)
  show "start < n \<Longrightarrow> s < n \<Longrightarrow> s \<noteq> start \<Longrightarrow> s \<in> set (ring_from n [1..<Suc n] start)"
    by (rule ring_members) auto
  show "start < n \<Longrightarrow> distinct (ring_from n [1..<Suc n] start)"
    by (rule ring_distinct [where a = 1]) auto
qed

interpretation from_here: clockwise n "ring_from n [0..<n]" for n
proof
  fix start s
  show "0 < n \<Longrightarrow> s \<in> set (ring_from n [0..<n] start) \<Longrightarrow> s < n"
    by (auto simp: ring_from_def)
  show "start < n \<Longrightarrow> s < n \<Longrightarrow> s \<noteq> start \<Longrightarrow> s \<in> set (ring_from n [0..<n] start)"
    by (rule ring_members) auto
  show "start < n \<Longrightarrow> distinct (ring_from n [0..<n] start)"
    by (rule ring_distinct [where a = 0]) auto
qed

lemma ring_includes_start:
  "start < n \<Longrightarrow> start \<in> set (ring_from n [1..<Suc n] start)"
  "start < n \<Longrightarrow> start \<in> set (ring_from n [0..<n] start)"
proof -
  show "start < n \<Longrightarrow> start \<in> set (ring_from n [1..<Suc n] start)"
    unfolding ring_from_def by (rule image_eqI [of _ _ n, THEN rev_iffD2]) auto
  show "start < n \<Longrightarrow> start \<in> set (ring_from n [0..<n] start)"
    unfolding ring_from_def by (rule image_eqI [of _ _ 0, THEN rev_iffD2]) auto
qed

lemma next_eligible_ring:
  "next_eligible n start P =
     (if start < n then first_match P (ring_from n [1..<n] start) else None)"
  by (simp add: next_eligible_def table_contains_def ring_from_def)

end
