(* ===== verification/Table_Seats.thy ===== *)
theory Table_Seats
  imports Seat Deck
begin

text \<open>
  The seat map of a table (src/src/game/table.rs): the state of each seat, occupying and vacating,
  the next seat clockwise for the three kinds of eligibility, and the positions of a hand. A
  method that mutates and may fail returns the error or the new map; \<open>positions\<close> also has
  \<open>expect\<close>s, so its result is an option of that.
\<close>

datatype connection_state = Connected | Disconnected

datatype table_participation = Active | WaitingForBlind | SittingOut | Leaving

datatype blind_obligation = Clear | OwesSmallBlind | OwesBigBlind | OwesBoth

datatype hand_participation = NotDealt | Live | Folded | AllIn

record seat_state =
  ss_player_id :: player_id
  ss_hole_cards :: "card list"
  ss_stack :: u32
  ss_street_bet :: u32
  ss_connection :: connection_state
  ss_table_participation :: table_participation
  ss_blind_obligation :: blind_obligation
  ss_hand_participation :: hand_participation

definition seat_state_active :: "player_id \<Rightarrow> u32 \<Rightarrow> seat_state" where
  "seat_state_active player stack =
     \<lparr>ss_player_id = player, ss_hole_cards = [], ss_stack = stack, ss_street_bet = 0,
      ss_connection = Connected, ss_table_participation = Active,
      ss_blind_obligation = Clear, ss_hand_participation = NotDealt\<rparr>"

definition eligible_for_next_hand :: "seat_state \<Rightarrow> bool" where
  "eligible_for_next_hand st \<longleftrightarrow> 0 < ss_stack st \<and> ss_table_participation st = Active"

definition eligible_to_act :: "seat_state \<Rightarrow> bool" where
  "eligible_to_act st \<longleftrightarrow> 0 < ss_stack st \<and> ss_hand_participation st = Live"

definition seat_eligible_for_pot :: "seat_state \<Rightarrow> bool" where
  "seat_eligible_for_pot st \<longleftrightarrow> ss_hand_participation st = Live \<or> ss_hand_participation st = AllIn"

datatype seat_map_error = SeatOutsideTable seat_id table_size | SeatOccupied seat_id
  | SeatVacant seat_id | DuplicatePlayer player_id

definition seat_map_error_display :: "seat_map_error \<Rightarrow> string" where
  "seat_map_error_display e = (case e of
     SeatOutsideTable s n \<Rightarrow> ''seat '' @ show_nat s @ '' is outside table size '' @ show_nat n
   | SeatOccupied s \<Rightarrow> ''seat '' @ show_nat s @ '' is occupied''
   | SeatVacant s \<Rightarrow> ''seat '' @ show_nat s @ '' is vacant''
   | DuplicatePlayer p \<Rightarrow> ''player '' @ show_nat p @ '' already occupies a seat'')"

record table_seats =
  tb_size :: table_size
  tb_seats :: "seat_state option list"

definition table_seats_new :: "table_size \<Rightarrow> table_seats" where
  "table_seats_new n = \<lparr>tb_size = n, tb_seats = replicate n None\<rparr>"

definition table_index :: "table_seats \<Rightarrow> seat_id \<Rightarrow> seat_map_error + nat" where
  "table_index t s =
     (if length (tb_seats t) \<le> s then Inl (SeatOutsideTable s (tb_size t)) else Inr s)"

definition table_occupy :: "table_seats \<Rightarrow> seat_id \<Rightarrow> seat_state \<Rightarrow> seat_map_error + table_seats" where
  "table_occupy t s state =
    (case table_index t s of
       Inl e \<Rightarrow> Inl e
     | Inr index \<Rightarrow>
       (if tb_seats t ! index \<noteq> None then Inl (SeatOccupied s)
        else if list_ex (\<lambda>o'. case o' of None \<Rightarrow> False
            | Some occupant \<Rightarrow> ss_player_id occupant = ss_player_id state) (tb_seats t)
          then Inl (DuplicatePlayer (ss_player_id state))
        else Inr (t\<lparr>tb_seats := (tb_seats t)[index := Some state]\<rparr>)))"

definition table_seat :: "table_seats \<Rightarrow> seat_id \<Rightarrow> seat_state option" where
  "table_seat t s = (if s < length (tb_seats t) then tb_seats t ! s else None)"

text \<open>\<open>seat_mut\<close> followed by an assignment; \<^const>\<open>None\<close> when there is no such seat.\<close>

definition table_seat_mut ::
  "table_seats \<Rightarrow> seat_id \<Rightarrow> (seat_state \<Rightarrow> seat_state) \<Rightarrow> table_seats option" where
  "table_seat_mut t s f = (case table_seat t s of
       None \<Rightarrow> None
     | Some st \<Rightarrow> Some (t\<lparr>tb_seats := (tb_seats t)[s := Some (f st)]\<rparr>))"

definition table_vacate :: "table_seats \<Rightarrow> seat_id \<Rightarrow> seat_map_error + seat_state \<times> table_seats" where
  "table_vacate t s =
    (case table_index t s of
       Inl e \<Rightarrow> Inl e
     | Inr index \<Rightarrow>
       (case tb_seats t ! index of
          None \<Rightarrow> Inl (SeatVacant s)
        | Some state \<Rightarrow> Inr (state, t\<lparr>tb_seats := (tb_seats t)[index := None]\<rparr>)))"

definition table_occupied :: "table_seats \<Rightarrow> (seat_id \<times> seat_state) list" where
  "table_occupied t =
     List.map_filter (\<lambda>(index, o'). map_option (Pair index) o') (enumerate 0 (tb_seats t))"

definition seat_for_player :: "table_seats \<Rightarrow> player_id \<Rightarrow> seat_id option" where
  "seat_for_player t player =
     map_option fst (first_match (\<lambda>(s, st). ss_player_id st = player) (table_occupied t))"

definition occupied_count :: "table_seats \<Rightarrow> nat" where
  "occupied_count t = length (table_occupied t)"

definition seat_satisfies :: "table_seats \<Rightarrow> (seat_state \<Rightarrow> bool) \<Rightarrow> seat_id \<Rightarrow> bool" where
  "seat_satisfies t P s = (case table_seat t s of None \<Rightarrow> False | Some st \<Rightarrow> P st)"

definition next_for_hand :: "table_seats \<Rightarrow> seat_id \<Rightarrow> seat_id option" where
  "next_for_hand t after = next_eligible (tb_size t) after (seat_satisfies t eligible_for_next_hand)"

definition next_to_act :: "table_seats \<Rightarrow> seat_id \<Rightarrow> seat_id option" where
  "next_to_act t after = next_eligible (tb_size t) after (seat_satisfies t eligible_to_act)"

definition next_for_pot :: "table_seats \<Rightarrow> seat_id \<Rightarrow> seat_id option" where
  "next_for_pot t after = next_eligible (tb_size t) after (seat_satisfies t seat_eligible_for_pot)"

record hand_positions =
  hp_button :: seat_id
  hp_small_blind :: seat_id
  hp_big_blind :: seat_id
  hp_first_preflop :: seat_id
  hp_first_postflop :: seat_id

datatype position_error = IneligibleButton seat_id | TooFewEligiblePlayers nat

definition position_error_display :: "position_error \<Rightarrow> string" where
  "position_error_display e = (case e of
     IneligibleButton s \<Rightarrow> ''button seat '' @ show_nat s @ '' is not hand-eligible''
   | TooFewEligiblePlayers n \<Rightarrow>
       ''at least two hand-eligible players required, found '' @ show_nat n)"

definition table_positions :: "table_seats \<Rightarrow> seat_id \<Rightarrow> (position_error + hand_positions) option" where
  "table_positions t button =
    (if \<not> seat_satisfies t eligible_for_next_hand button then Some (Inl (IneligibleButton button))
     else
      (let eligible_count =
         length (filter (\<lambda>(s, st). eligible_for_next_hand st) (table_occupied t))
       in if eligible_count < 2 then Some (Inl (TooFewEligiblePlayers eligible_count))
       else if eligible_count = 2 then do {
         big_blind \<leftarrow> next_for_hand t button;
         Some (Inr \<lparr>hp_button = button, hp_small_blind = button, hp_big_blind = big_blind,
           hp_first_preflop = button, hp_first_postflop = big_blind\<rparr>) }
       else do {
         small_blind \<leftarrow> next_for_hand t button;
         big_blind \<leftarrow> next_for_hand t small_blind;
         first_preflop \<leftarrow> next_for_hand t big_blind;
         first_postflop \<leftarrow> next_for_hand t button;
         Some (Inr \<lparr>hp_button = button, hp_small_blind = small_blind, hp_big_blind = big_blind,
           hp_first_preflop = first_preflop, hp_first_postflop = first_postflop\<rparr>) }))"

end
