(* ===== verification/Commands.thy ===== *)
theory Commands
  imports Seat
begin

text \<open>
  What a controller may ask for (src/src/game/actions.rs, src/src/game/command.rs): actions with their amounts,
  a command addressed from a seat, and the errors a rejected command carries, with their public
  messages. \<open>format_bb\<close> prints half the chips (the big blind is 2) with at most one decimal,
  exact in the source's floating point.
\<close>

definition BIG_BLIND :: u32 where
  "BIG_BLIND = 2"

definition SMALL_BLIND :: u32 where
  "SMALL_BLIND = 1"

datatype action = ActFold | Check | Call u32 | Bet u32 | Raise u32 | ActAllIn u32

definition format_bb :: "u32 \<Rightarrow> string" where
  "format_bb chips =
     (if chips mod BIG_BLIND = 0 then show_nat (chips div BIG_BLIND) @ ''BB''
      else show_nat (chips div BIG_BLIND) @ ''.5BB'')"

fun action_amount :: "action \<Rightarrow> u32" where
  "action_amount ActFold = 0"
| "action_amount Check = 0"
| "action_amount (Call amt) = amt"
| "action_amount (Bet amt) = amt"
| "action_amount (Raise amt) = amt"
| "action_amount (ActAllIn amt) = amt"

fun is_aggressive :: "action \<Rightarrow> bool" where
  "is_aggressive (Bet _) = True"
| "is_aggressive (Raise _) = True"
| "is_aggressive (ActAllIn _) = True"
| "is_aggressive _ = False"

fun action_description :: "action \<Rightarrow> string" where
  "action_description ActFold = ''folds''"
| "action_description Check = ''checks''"
| "action_description (Call amt) = ''calls '' @ show_nat amt"
| "action_description (Bet amt) = ''bets '' @ show_nat amt"
| "action_description (Raise amt) = ''raises to '' @ show_nat amt"
| "action_description (ActAllIn amt) = ''all-in for '' @ show_nat amt"

definition description_for :: "action \<Rightarrow> string \<Rightarrow> string" where
  "description_for a actor =
    (let is_you = (actor = ''You'') in case a of
       ActFold \<Rightarrow> if is_you then ''fold'' else ''folds''
     | Check \<Rightarrow> if is_you then ''check'' else ''checks''
     | Call amt \<Rightarrow> (if is_you then ''call'' else ''calls'') @ '' '' @ format_bb amt
     | Bet amt \<Rightarrow> (if is_you then ''bet'' else ''bets'') @ '' '' @ format_bb amt
     | Raise amt \<Rightarrow> (if is_you then ''raise'' else ''raises'') @ '' to '' @ format_bb amt
     | ActAllIn amt \<Rightarrow> ''all-in for '' @ format_bb amt)"

record available_actions =
  av_can_fold :: bool
  av_can_check :: bool
  av_can_call :: "u32 option"
  av_min_bet :: "u32 option"
  av_min_raise :: "u32 option"
  av_max_raise :: u32

definition available_actions_new :: "u32 \<Rightarrow> u32 \<Rightarrow> u32 \<Rightarrow> u32 \<Rightarrow> available_actions" where
  "available_actions_new to_call min_raise_to player_stack big_blind =
    (let can_check = (to_call = 0);
         can_call = (if 0 < to_call \<and> to_call < player_stack then Some to_call else None);
         min_bet = (if can_check \<and> 0 < player_stack then Some (min big_blind player_stack) else None);
         min_raise = (if 0 < to_call \<and> min_raise_to < player_stack then Some min_raise_to else None)
     in \<lparr>av_can_fold = (0 < to_call), av_can_check = can_check, av_can_call = can_call,
         av_min_bet = min_bet, av_min_raise = min_raise, av_max_raise = player_stack\<rparr>)"

record seat_command =
  cmd_seat :: seat_id
  cmd_action :: action

definition seat_command_new :: "seat_id \<Rightarrow> action \<Rightarrow> seat_command" where
  "seat_command_new s a = \<lparr>cmd_seat = s, cmd_action = a\<rparr>"

datatype action_error = FoldNotAllowed | CheckNotAllowed | CallNotAllowed
  | InvalidCall u32 u32 \<comment> \<open>expected, actual\<close>
  | BetNotAllowed
  | BetOutOfRange u32 u32 u32 \<comment> \<open>min, max, actual\<close>
  | RaiseNotAllowed | RaiseNotReopened
  | RaiseOutOfRange u32 u32 u32 \<comment> \<open>min, max, actual\<close>
  | InvalidAllIn u32 u32 \<comment> \<open>expected, actual\<close>

datatype command_error = HandNotActive | SeatNotOccupied seat_id | SeatNotEligible seat_id
  | OutOfTurn seat_id seat_id \<comment> \<open>expected, actual\<close>
  | IllegalAction action_error

definition action_error_display :: "action_error \<Rightarrow> string" where
  "action_error_display e = (case e of
     FoldNotAllowed \<Rightarrow> ''fold is only legal when facing a bet''
   | CheckNotAllowed \<Rightarrow> ''check is not legal when facing a bet''
   | CallNotAllowed \<Rightarrow> ''call is not legal in this state''
   | InvalidCall expected actual \<Rightarrow>
       ''call must add '' @ show_nat expected @ '' chips, received '' @ show_nat actual
   | BetNotAllowed \<Rightarrow> ''bet is not legal when facing a bet''
   | BetOutOfRange mn mx actual \<Rightarrow>
       ''bet-to amount must be between '' @ show_nat mn @ '' and '' @ show_nat mx
         @ '', received '' @ show_nat actual
   | RaiseNotAllowed \<Rightarrow> ''raise is not legal without a bet to face''
   | RaiseNotReopened \<Rightarrow> ''raising is not reopened for this seat by the latest wager increase''
   | RaiseOutOfRange mn mx actual \<Rightarrow>
       ''raise-to amount must be between '' @ show_nat mn @ '' and '' @ show_nat mx
         @ '', received '' @ show_nat actual
   | InvalidAllIn expected actual \<Rightarrow>
       ''all-in amount must be the actor''
         @ [CHR 0x27] @ ''s total street commitment '' @ show_nat expected
         @ '', received '' @ show_nat actual)"

definition command_error_display :: "command_error \<Rightarrow> string" where
  "command_error_display e = (case e of
     HandNotActive \<Rightarrow> ''the hand is not accepting actions''
   | SeatNotOccupied s \<Rightarrow> ''seat '' @ show_nat s @ '' is not occupied''
   | SeatNotEligible s \<Rightarrow> ''seat '' @ show_nat s @ '' is not eligible to act''
   | OutOfTurn expected actual \<Rightarrow>
       ''seat '' @ show_nat actual @ '' acted out of turn; seat '' @ show_nat expected
         @ '' is expected''
   | IllegalAction err \<Rightarrow> ''illegal action: '' @ action_error_display err)"

end
