(* ===== verification/Pots.thy ===== *)
theory Pots
  imports Hand_Eval Table_Seats Commands
begin

text \<open>
  Pots and their award (src/src/game/multiway.rs): \<open>build_pots\<close> cuts the hand contributions into
  layers, and \<open>award_pot\<close> is the body of the award loop of \<open>resolve_showdown\<close>, which divides one
  layer among the best hands eligible for it.
\<close>

record pot =
  pot_amount :: u32
  pot_eligible :: "seat_id list"

record contribution =
  ct_seat :: seat_id
  ct_amount :: u32
  ct_eligible :: bool

record returned_excess =
  re_seat :: seat_id
  re_amount :: u32

record pot_build =
  pb_pots :: "pot list"
  pb_returned :: "returned_excess list"

record seat_payout =
  sp_seat :: seat_id
  sp_amount :: u32

record pot_award =
  pa_pot_index :: nat
  pa_amount :: u32
  pa_eligible :: "seat_id list"
  pa_winners :: "seat_id list"
  pa_payouts :: "seat_payout list"

subsection \<open>Layers\<close>

definition pot_levels :: "contribution list \<Rightarrow> u32 list" where
  "pot_levels contributions = remdups_adj (sort (filter (\<lambda>a. 0 < a) (map ct_amount contributions)))"

fun build_layers :: "contribution list \<Rightarrow> u32 \<Rightarrow> u32 list \<Rightarrow> pot_build \<Rightarrow> pot_build" where
  "build_layers contributions previous [] acc = acc"
| "build_layers contributions previous (level # levels) acc =
    (let contributors = filter (\<lambda>entry. level \<le> ct_amount entry) contributions;
         layer = u32_mul (u32_sub level previous) (length contributors)
     in build_layers contributions level levels
       (if length contributors = 1
        then acc\<lparr>pb_returned := pb_returned acc
          @ [\<lparr>re_seat = ct_seat (contributors ! 0), re_amount = layer\<rparr>]\<rparr>
        else if 0 < layer
        then acc\<lparr>pb_pots := pb_pots acc
          @ [\<lparr>pot_amount = layer,
              pot_eligible = map ct_seat (filter ct_eligible contributors)\<rparr>]\<rparr>
        else acc))"

definition build_pots :: "contribution list \<Rightarrow> pot_build" where
  "build_pots contributions =
     build_layers contributions 0 (pot_levels contributions) \<lparr>pb_pots = [], pb_returned = []\<rparr>"

subsection \<open>Awarding one pot\<close>

definition clockwise_award_key :: "table_size \<Rightarrow> seat_id \<Rightarrow> seat_id \<Rightarrow> nat" where
  "clockwise_award_key n button s =
     (let distance = (s + n - button) mod n in if distance = 0 then n else distance)"

text \<open>\<open>Iterator::max_by\<close> keeps the later of two equal elements.\<close>

definition best_hand :: "hand_evaluation list \<Rightarrow> hand_evaluation option" where
  "best_hand hands = (case hands of [] \<Rightarrow> None
     | h # hs \<Rightarrow> Some (foldl (\<lambda>x y. if compare_hands x y = Greater then x else y) h hs))"

definition pot_winners :: "table_size \<Rightarrow> seat_id \<Rightarrow> (seat_id, hand_evaluation) btree
    \<Rightarrow> seat_id list \<Rightarrow> hand_evaluation \<Rightarrow> seat_id list" where
  "pot_winners n button evaluations eligible best =
     sort_key (clockwise_award_key n button)
       (filter (\<lambda>s. case bt_get evaluations s of None \<Rightarrow> False
          | Some hand \<Rightarrow> compare_hands hand best = Equal) eligible)"

definition split_pot :: "u32 \<Rightarrow> seat_id list \<Rightarrow> seat_payout list" where
  "split_pot amount winners =
    (let base = amount div length winners; remainder = amount mod length winners
     in map (\<lambda>(index, s). \<lparr>sp_seat = s,
          sp_amount = u32_add base (if index < remainder then 1 else 0)\<rparr>)
        (enumerate 0 winners))"

definition award_pot :: "table_size \<Rightarrow> seat_id \<Rightarrow> (seat_id, hand_evaluation) btree
    \<Rightarrow> nat \<Rightarrow> pot \<Rightarrow> pot_award option" where
  "award_pot n button evaluations pot_index p = do {
     best \<leftarrow> best_hand (List.map_filter (bt_get evaluations) (pot_eligible p));
     let winners = pot_winners n button evaluations (pot_eligible p) best;
     if winners = [] then None
     else Some \<lparr>pa_pot_index = pot_index, pa_amount = pot_amount p, pa_eligible = pot_eligible p,
       pa_winners = winners, pa_payouts = split_pot (pot_amount p) winners\<rparr> }"

end
