(* ===== verification/Multiway_State.thy ===== *)
theory Multiway_State
  imports Pots
begin

text \<open>
  The state of a multiway hand and its queries (src/src/game/multiway.rs): phases, seats, blinds, the
  legal actions of the acting seat, and the moves of chips from a stack into the pot. A read of
  an unoccupied seat is the source's \<open>expect\<close> panic, \<^const>\<open>None\<close>; a closure that runs over
  \<open>occupied_seats\<close> only is \<open>mw_holds\<close>, whose \<^const>\<open>False\<close> for a vacant seat is never reached.
\<close>

datatype multiway_phase = Preflop | Flop | Turn | River | Showdown | HandComplete

fun phase_name :: "multiway_phase \<Rightarrow> string" where
  "phase_name Preflop = ''Preflop''"
| "phase_name Flop = ''Flop''"
| "phase_name Turn = ''Turn''"
| "phase_name River = ''River''"
| "phase_name Showdown = ''Showdown''"
| "phase_name HandComplete = ''Complete''"

fun accepts_actions :: "multiway_phase \<Rightarrow> bool" where
  "accepts_actions Preflop = True"
| "accepts_actions Flop = True"
| "accepts_actions Turn = True"
| "accepts_actions River = True"
| "accepts_actions _ = False"

record multiway_seat_state =
  ms_hole_cards :: "card list"
  ms_stack :: u32
  ms_street_contribution :: u32
  ms_hand_contribution :: u32
  ms_participation :: hand_participation
  ms_last_action_wager :: "u32 option"

definition multiway_seat_new :: "u32 \<Rightarrow> multiway_seat_state" where
  "multiway_seat_new stack =
     \<lparr>ms_hole_cards = [], ms_stack = stack, ms_street_contribution = 0,
      ms_hand_contribution = 0, ms_participation = Live, ms_last_action_wager = None\<rparr>"

definition can_act :: "multiway_seat_state \<Rightarrow> bool" where
  "can_act st \<longleftrightarrow> 0 < ms_stack st \<and> ms_participation st = Live"

definition eligible_for_pot :: "multiway_seat_state \<Rightarrow> bool" where
  "eligible_for_pot st \<longleftrightarrow> ms_participation st = Live \<or> ms_participation st = AllIn"

record legal_actions =
  la_can_fold :: bool
  la_can_check :: bool
  la_call_amount :: "u32 option"
  la_min_bet_to :: "u32 option"
  la_min_raise_to :: "u32 option"
  la_all_in_to :: u32
  la_raise_reopened :: bool

definition can_all_in :: "legal_actions \<Rightarrow> bool" where
  "can_all_in l \<longleftrightarrow> la_raise_reopened l \<or> (\<not> la_can_check l \<and> la_call_amount l = None)"

record action_record =
  ar_sequence :: u32
  ar_phase :: multiway_phase
  ar_seat :: seat_id
  ar_action :: action
  ar_wager_after :: u32

record forced_post =
  fp_seat :: seat_id
  fp_amount :: u32
  fp_live :: bool

record blind_values =
  bv_small_blind :: u32
  bv_big_blind :: u32
  bv_ante :: u32

definition blind_values_default :: blind_values where
  "blind_values_default = \<lparr>bv_small_blind = SMALL_BLIND, bv_big_blind = BIG_BLIND, bv_ante = 0\<rparr>"

definition blind_values_new :: "u32 \<Rightarrow> u32 \<Rightarrow> u32 \<Rightarrow> blind_values option" where
  "blind_values_new small big ante =
     (if 0 < small \<and> small < big \<and> ante \<le> big
      then Some \<lparr>bv_small_blind = small, bv_big_blind = big, bv_ante = ante\<rparr> else None)"

record revealed_hand =
  rv_seat :: seat_id
  rv_description :: string

record showdown_progress =
  sd_all_in :: bool
  sd_order :: "seat_id list"
  sd_cursor :: nat
  sd_mucked :: "seat_id list"

record multiway_hand =
  mh_phase :: multiway_phase
  mh_table_size :: table_size
  mh_seats :: "multiway_seat_state option list"
  mh_board :: "card list"
  mh_button :: seat_id
  mh_small_blind :: seat_id
  mh_big_blind :: seat_id
  mh_blind_values :: blind_values
  mh_to_act :: "seat_id option"
  mh_current_wager :: u32
  mh_last_full_raise_size :: u32
  mh_action_history :: "action_record list"
  mh_pots :: "pot list"
  mh_returned_excess :: "returned_excess list"
  mh_awards :: "pot_award list"
  mh_revealed_hands :: "revealed_hand list"
  mh_settled_contributions :: "contribution list"
  mh_showdown_progress :: "showdown_progress option"
  mh_mucked_hands :: "seat_id list"
  mh_always_show :: "seat_id set"
  mh_paced_showdown :: bool
  mh_showdown_evaluations :: "(seat_id, hand_evaluation) btree"
  mh_initial_total :: u32
  mh_deck :: deck

subsection \<open>Seats\<close>

definition mw_seat :: "multiway_hand \<Rightarrow> seat_id \<Rightarrow> multiway_seat_state option" where
  "mw_seat h s = (if s < length (mh_seats h) then mh_seats h ! s else None)"

definition mw_set_seat :: "multiway_hand \<Rightarrow> seat_id \<Rightarrow> multiway_seat_state \<Rightarrow> multiway_hand" where
  "mw_set_seat h s st = h\<lparr>mh_seats := (mh_seats h)[s := Some st]\<rparr>"

definition seat_mut ::
  "multiway_hand \<Rightarrow> seat_id \<Rightarrow> (multiway_seat_state \<Rightarrow> multiway_seat_state) \<Rightarrow> multiway_hand option"
  where
  "seat_mut h s f = map_option (\<lambda>st. mw_set_seat h s (f st)) (mw_seat h s)"

definition occupied_seats :: "multiway_hand \<Rightarrow> seat_id list" where
  "occupied_seats h = filter (\<lambda>s. mw_seat h s \<noteq> None) (table_size_seats (mh_table_size h))"

definition mw_holds :: "multiway_hand \<Rightarrow> (multiway_seat_state \<Rightarrow> bool) \<Rightarrow> seat_id \<Rightarrow> bool" where
  "mw_holds h P s = (case mw_seat h s of None \<Rightarrow> False | Some st \<Rightarrow> P st)"

definition occupied_states :: "multiway_hand \<Rightarrow> multiway_seat_state list" where
  "occupied_states h = List.map_filter (mw_seat h) (occupied_seats h)"

definition amount_to_call :: "multiway_hand \<Rightarrow> seat_id \<Rightarrow> u32 option" where
  "amount_to_call h s =
     map_option (\<lambda>st. saturating_sub (mh_current_wager h) (ms_street_contribution st)) (mw_seat h s)"

definition raise_reopened_for :: "multiway_hand \<Rightarrow> seat_id \<Rightarrow> bool option" where
  "raise_reopened_for h s =
     map_option (\<lambda>st. case ms_last_action_wager st of None \<Rightarrow> True
       | Some prior \<Rightarrow> mh_last_full_raise_size h \<le> saturating_sub (mh_current_wager h) prior)
     (mw_seat h s)"

definition legal_actions_for :: "multiway_hand \<Rightarrow> seat_id \<Rightarrow> legal_actions option option" where
  "legal_actions_for h s =
    (if \<not> accepts_actions (mh_phase h) \<or> mh_to_act h \<noteq> Some s then Some None
     else do {
       state \<leftarrow> mw_seat h s;
       if \<not> can_act state then Some None
       else do {
         to_call \<leftarrow> amount_to_call h s;
         let all_in_to = u32_saturating_add (ms_street_contribution state) (ms_stack state);
         let other_live = list_ex (\<lambda>other. other \<noteq> s \<and> mw_holds h can_act other) (occupied_seats h);
         raise_reopened \<leftarrow> raise_reopened_for h s;
         let maximum_non_all_in = saturating_sub all_in_to 1;
         let big = bv_big_blind (mh_blind_values h);
         let min_bet_to = (if mh_current_wager h = 0 \<and> other_live \<and> big \<le> maximum_non_all_in
           then Some big else None);
         let minimum_raise = u32_saturating_add (mh_current_wager h) (mh_last_full_raise_size h);
         let min_raise_to = (if 0 < mh_current_wager h \<and> other_live \<and> raise_reopened
             \<and> minimum_raise \<le> maximum_non_all_in then Some minimum_raise else None);
         Some (Some \<lparr>la_can_fold = (0 < to_call), la_can_check = (to_call = 0),
           la_call_amount = (if 0 < to_call \<and> to_call < ms_stack state then Some to_call else None),
           la_min_bet_to = min_bet_to, la_min_raise_to = min_raise_to,
           la_all_in_to = all_in_to, la_raise_reopened = raise_reopened\<rparr>) } })"

subsection \<open>Validation\<close>

definition validate_with :: "legal_actions \<Rightarrow> u32 \<Rightarrow> u32 \<Rightarrow> action \<Rightarrow> action_error + unit" where
  "validate_with legal current current_wager a =
    (let maximum_non_all_in = saturating_sub (la_all_in_to legal) 1 in
     case a of
       ActFold \<Rightarrow> if la_can_fold legal then Inr () else Inl FoldNotAllowed
     | Check \<Rightarrow> if la_can_check legal then Inr () else Inl CheckNotAllowed
     | Call actual \<Rightarrow>
         (case la_call_amount legal of
            Some expected \<Rightarrow> if expected = actual then Inr () else Inl (InvalidCall expected actual)
          | None \<Rightarrow> Inl CallNotAllowed)
     | Bet actual \<Rightarrow>
         (case la_min_bet_to legal of
            Some minimum \<Rightarrow>
              if minimum \<le> actual \<and> actual \<le> maximum_non_all_in then Inr ()
              else Inl (BetOutOfRange minimum maximum_non_all_in actual)
          | None \<Rightarrow> Inl BetNotAllowed)
     | Raise actual \<Rightarrow>
         (if \<not> la_raise_reopened legal then Inl RaiseNotReopened
          else case la_min_raise_to legal of
            Some minimum \<Rightarrow>
              if minimum \<le> actual \<and> actual \<le> maximum_non_all_in then Inr ()
              else Inl (RaiseOutOfRange minimum maximum_non_all_in actual)
          | None \<Rightarrow> Inl RaiseNotAllowed)
     | ActAllIn actual \<Rightarrow>
         (if current_wager < actual \<and> \<not> la_raise_reopened legal then Inl RaiseNotReopened
          else if actual = la_all_in_to legal \<and> current < actual then Inr ()
          else Inl (InvalidAllIn (la_all_in_to legal) actual)))"

definition validate_action :: "multiway_hand \<Rightarrow> seat_id \<Rightarrow> action \<Rightarrow> (action_error + unit) option" where
  "validate_action h s a = do {
     metadata \<leftarrow> legal_actions_for h s;
     legal \<leftarrow> metadata;
     state \<leftarrow> mw_seat h s;
     Some (validate_with legal (ms_street_contribution state) (mh_current_wager h) a) }"

definition validate_command :: "multiway_hand \<Rightarrow> seat_command \<Rightarrow> (command_error + unit) option" where
  "validate_command h c =
    (if \<not> accepts_actions (mh_phase h) then Some (Inl HandNotActive)
     else case mw_seat h (cmd_seat c) of
       None \<Rightarrow> Some (Inl (SeatNotOccupied (cmd_seat c)))
     | Some state \<Rightarrow>
       (if \<not> can_act state then Some (Inl (SeatNotEligible (cmd_seat c)))
        else case mh_to_act h of
          None \<Rightarrow> Some (Inl HandNotActive)
        | Some expected \<Rightarrow>
          (if cmd_seat c \<noteq> expected then Some (Inl (OutOfTurn expected (cmd_seat c)))
           else map_option (\<lambda>r. case r of Inl e \<Rightarrow> Inl (IllegalAction e) | Inr u \<Rightarrow> Inr u)
             (validate_action h (cmd_seat c) (cmd_action c)))))"

subsection \<open>Moving chips\<close>

definition pay_chips :: "u32 \<Rightarrow> multiway_seat_state \<Rightarrow> multiway_seat_state" where
  "pay_chips requested st =
    (let actual = min requested (ms_stack st);
         st' = st\<lparr>ms_stack := u32_sub (ms_stack st) actual,
           ms_street_contribution := u32_add (ms_street_contribution st) actual,
           ms_hand_contribution := u32_add (ms_hand_contribution st) actual\<rparr>
     in if ms_stack st' = 0 then st'\<lparr>ms_participation := AllIn\<rparr> else st')"

definition commit_chips :: "multiway_hand \<Rightarrow> seat_id \<Rightarrow> u32 \<Rightarrow> multiway_hand option" where
  "commit_chips h s requested = seat_mut h s (pay_chips requested)"

definition pay_dead_chips :: "u32 \<Rightarrow> multiway_seat_state \<Rightarrow> multiway_seat_state" where
  "pay_dead_chips requested st =
    (let actual = min requested (ms_stack st);
         st' = st\<lparr>ms_stack := u32_sub (ms_stack st) actual,
           ms_hand_contribution := u32_add (ms_hand_contribution st) actual\<rparr>
     in if ms_stack st' = 0 then st'\<lparr>ms_participation := AllIn\<rparr> else st')"

definition commit_dead_chips :: "multiway_hand \<Rightarrow> seat_id \<Rightarrow> u32 \<Rightarrow> multiway_hand option" where
  "commit_dead_chips h s requested = seat_mut h s (pay_dead_chips requested)"

definition commit_to :: "multiway_hand \<Rightarrow> seat_id \<Rightarrow> u32 \<Rightarrow> multiway_hand option" where
  "commit_to h s target = do {
     st \<leftarrow> mw_seat h s;
     commit_chips h s (saturating_sub target (ms_street_contribution st)) }"

subsection \<open>Whose turn it is\<close>

definition needs_action :: "multiway_hand \<Rightarrow> seat_id \<Rightarrow> bool" where
  "needs_action h = mw_holds h (\<lambda>st. can_act st \<and>
     (ms_last_action_wager st = None \<or> ms_street_contribution st < mh_current_wager h))"

definition betting_round_complete :: "multiway_hand \<Rightarrow> bool" where
  "betting_round_complete h =
    (case filter (mw_holds h can_act) (occupied_seats h) of
       [] \<Rightarrow> True
     | [only] \<Rightarrow> mw_holds h (\<lambda>st. mh_current_wager h \<le> ms_street_contribution st) only
     | live \<Rightarrow> list_all (\<lambda>s. \<not> needs_action h s) live)"

definition pot_eligible_count :: "multiway_hand \<Rightarrow> nat" where
  "pot_eligible_count h = length (filter (mw_holds h eligible_for_pot) (occupied_seats h))"

definition seat_wrapped :: "table_size \<Rightarrow> seat_id \<Rightarrow> nat \<Rightarrow> seat_id" where
  "seat_wrapped n start offset = (start + offset) mod n"

definition first_needing_from :: "multiway_hand \<Rightarrow> seat_id \<Rightarrow> seat_id option" where
  "first_needing_from h start =
     first_match (needs_action h)
       (map (seat_wrapped (mh_table_size h) start) [0..<mh_table_size h])"

definition next_needing_after :: "multiway_hand \<Rightarrow> seat_id \<Rightarrow> seat_id option" where
  "next_needing_after h after =
     first_match (needs_action h)
       (map (seat_wrapped (mh_table_size h) after) [1..<Suc (mh_table_size h)])"

definition next_live_after :: "multiway_hand \<Rightarrow> seat_id \<Rightarrow> seat_id option" where
  "next_live_after h after =
     first_match (mw_holds h can_act)
       (map (seat_wrapped (mh_table_size h) after) [1..<Suc (mh_table_size h)])"

definition total_chips :: "multiway_hand \<Rightarrow> u32" where
  "total_chips h = u32_add (u32_sum (map ms_stack (occupied_states h)))
     (u32_sum (map ms_hand_contribution (occupied_states h)))"

definition contribution_snapshot :: "multiway_hand \<Rightarrow> contribution list" where
  "contribution_snapshot h = List.map_filter (\<lambda>s. map_option (\<lambda>st.
     \<lparr>ct_seat = s, ct_amount = ms_hand_contribution st, ct_eligible = eligible_for_pot st\<rparr>)
     (mw_seat h s)) (occupied_seats h)"

definition update_occupied ::
  "(multiway_seat_state \<Rightarrow> multiway_seat_state) \<Rightarrow> multiway_hand \<Rightarrow> multiway_hand option" where
  "update_occupied f h = for_m (\<lambda>s h'. seat_mut h' s f) (occupied_seats h) h"

definition clear_contributions :: "multiway_hand \<Rightarrow> multiway_hand option" where
  "clear_contributions h = update_occupied (\<lambda>st. st\<lparr>ms_street_contribution := 0,
     ms_hand_contribution := 0, ms_last_action_wager := None\<rparr>) h"

definition clockwise_occupied :: "table_size \<Rightarrow> multiway_seat_state option list \<Rightarrow> seat_id \<Rightarrow> seat_id list"
  where
  "clockwise_occupied n seats after =
     filter (\<lambda>s. vec_get seats s \<noteq> None \<and> vec_get seats s \<noteq> Some None)
       (map (seat_wrapped n after) [1..<Suc n])"

definition next_occupied :: "table_size \<Rightarrow> multiway_seat_state option list \<Rightarrow> seat_id \<Rightarrow> seat_id option"
  where
  "next_occupied n seats after =
     first_match (\<lambda>s. vec_get seats s \<noteq> None \<and> vec_get seats s \<noteq> Some None)
       (map (seat_wrapped n after) [1..<Suc n])"

end
