(* ===== verification/Showdown.thy ===== *)
theory Showdown
  imports Multiway_State
begin

text \<open>
  The end of a hand (src/src/game/multiway.rs, src/src/game/multiway/showdown.rs): a win by folds, the
  ordered reveal of the hands, the runout of an all-in, the award of the pots. The source's
  \<open>while self.advance_showdown() {}\<close> is \<open>drain_showdown\<close>, a \<^theory_text>\<open>partial_function\<close>: its
  value is \<^const>\<open>None\<close> when a step panics or the loop does not end.
\<close>

definition award_fold :: "multiway_hand \<Rightarrow> multiway_hand option" where
  "award_fold h0 = do {
     let h = h0\<lparr>mh_showdown_progress := None\<rparr>;
     winner \<leftarrow> first_match (mw_holds h eligible_for_pot) (occupied_seats h);
     let amount = u32_sum (map ms_hand_contribution (occupied_states h));
     let h = h\<lparr>mh_settled_contributions := contribution_snapshot h\<rparr>;
     h \<leftarrow> seat_mut h winner (\<lambda>st. st\<lparr>ms_stack := u32_add (ms_stack st) amount\<rparr>);
     let h = h\<lparr>mh_awards := [\<lparr>pa_pot_index = 0, pa_amount = amount, pa_eligible = [winner],
       pa_winners = [winner], pa_payouts = [\<lparr>sp_seat = winner, sp_amount = amount\<rparr>]\<rparr>]\<rparr>;
     h \<leftarrow> clear_contributions h;
     Some (h\<lparr>mh_to_act := None, mh_phase := HandComplete\<rparr>) }"

subsection \<open>Evaluations and the order of showing\<close>

definition evaluate_showdown_once :: "multiway_hand \<Rightarrow> multiway_hand option" where
  "evaluate_showdown_once h =
    (if mh_showdown_evaluations h = [] then do {
       evaluations \<leftarrow> map_m (\<lambda>s. do {
           st \<leftarrow> mw_seat h s;
           e \<leftarrow> evaluate_hand (ms_hole_cards st) (mh_board h);
           Some (s, e) })
         (filter (mw_holds h eligible_for_pot) (occupied_seats h));
       Some (h\<lparr>mh_showdown_evaluations := evaluations\<rparr>) }
     else Some h)"

definition enable_paced_showdown :: "multiway_hand \<Rightarrow> multiway_hand" where
  "enable_paced_showdown h = h\<lparr>mh_paced_showdown := True\<rparr>"

definition set_always_show :: "multiway_hand \<Rightarrow> seat_id \<Rightarrow> bool \<Rightarrow> command_error + multiway_hand" where
  "set_always_show h s v =
    (if s \<notin> set (occupied_seats h) then Inl (SeatNotOccupied s)
     else if \<not> accepts_actions (mh_phase h) \<or> mh_showdown_progress h \<noteq> None then Inl HandNotActive
     else Inr (if v then h\<lparr>mh_always_show := insert s (mh_always_show h)\<rparr>
       else h\<lparr>mh_always_show := mh_always_show h - {s}\<rparr>))"

fun river_wager :: "action_record \<Rightarrow> bool" where
  "river_wager r \<longleftrightarrow> ar_phase r = River \<and>
     (case ar_action r of Bet _ \<Rightarrow> True | Raise _ \<Rightarrow> True | _ \<Rightarrow> False)"

fun position_of :: "'a \<Rightarrow> 'a list \<Rightarrow> nat option" where
  "position_of x [] = None"
| "position_of x (y # ys) = (if x = y then Some 0 else map_option Suc (position_of x ys))"

definition show_order :: "multiway_hand \<Rightarrow> seat_id list" where
  "show_order h =
    (let first = map_option ar_seat (first_match river_wager (rev (mh_action_history h)));
         order = sort_key (clockwise_award_key (mh_table_size h) (mh_button h))
           (filter (mw_holds h eligible_for_pot) (occupied_seats h))
     in case Option.bind first (\<lambda>s. position_of s order) of
          Some index \<Rightarrow> rotate index order
        | None \<Rightarrow> order)"

definition table_cards :: "multiway_hand \<Rightarrow> seat_id \<Rightarrow> multiway_hand" where
  "table_cards h s =
    (if s \<in> set (map rv_seat (mh_revealed_hands h)) then h
     else h\<lparr>mh_revealed_hands := mh_revealed_hands h @
       [\<lparr>rv_seat = s, rv_description =
          (case bt_get (mh_showdown_evaluations h) s of
             None \<Rightarrow> ''All-in - board pending''
           | Some e \<Rightarrow> ev_description e)\<rparr>]\<rparr>)"

definition beaten_by_tabled_hands :: "multiway_hand \<Rightarrow> seat_id \<Rightarrow> bool option" where
  "beaten_by_tabled_hands h s = do {
     evaluation \<leftarrow> bt_get (mh_showdown_evaluations h) s;
     let pots = pb_pots (build_pots (contribution_snapshot h));
     let relevant = filter (\<lambda>p. s \<in> set (pot_eligible p)) pots;
     if relevant = [] then Some False
     else all_m (\<lambda>p. any_m (\<lambda>shown.
         if rv_seat shown \<in> set (pot_eligible p)
         then map_option (\<lambda>e. compare_hands e evaluation = Greater)
           (bt_get (mh_showdown_evaluations h) (rv_seat shown))
         else Some False) (mh_revealed_hands h)) relevant }"

definition reveal_synchronously :: "multiway_hand \<Rightarrow> multiway_hand option" where
  "reveal_synchronously h0 =
    (let all_in = list_ex (mw_holds h0 (\<lambda>st. ms_participation st = AllIn)) (occupied_seats h0)
     in for_m (\<lambda>s h.
         if all_in \<or> s \<in> mh_always_show h then Some (table_cards h s)
         else do {
           beaten \<leftarrow> beaten_by_tabled_hands h s;
           Some (if \<not> beaten then table_cards h s
                 else h\<lparr>mh_mucked_hands := mh_mucked_hands h @ [s]\<rparr>) })
       (show_order h0) h0)"

subsection \<open>Resolving the pots\<close>

definition pay_seat :: "seat_id \<Rightarrow> u32 \<Rightarrow> multiway_hand \<Rightarrow> multiway_hand option" where
  "pay_seat s amount h = seat_mut h s (\<lambda>st. st\<lparr>ms_stack := u32_add (ms_stack st) amount\<rparr>)"

definition settle_pot :: "nat \<times> pot \<Rightarrow> multiway_hand \<Rightarrow> multiway_hand option" where
  "settle_pot = (\<lambda>(pot_index, p) h. do {
     award \<leftarrow> award_pot (mh_table_size h) (mh_button h) (mh_showdown_evaluations h) pot_index p;
     h \<leftarrow> for_m (\<lambda>payout. pay_seat (sp_seat payout) (sp_amount payout)) (pa_payouts award) h;
     Some (h\<lparr>mh_awards := mh_awards h @ [award]\<rparr>) })"

definition describe_revealed ::
  "(seat_id, hand_evaluation) btree \<Rightarrow> revealed_hand \<Rightarrow> revealed_hand" where
  "describe_revealed evaluations shown =
    (case bt_get evaluations (rv_seat shown) of
       None \<Rightarrow> shown
     | Some e \<Rightarrow> shown\<lparr>rv_description := ev_description e\<rparr>)"

definition resolve_showdown :: "multiway_hand \<Rightarrow> multiway_hand option" where
  "resolve_showdown h0 = do {
     let h = h0\<lparr>mh_settled_contributions := contribution_snapshot h0\<rparr>;
     let build = build_pots (mh_settled_contributions h);
     let h = h\<lparr>mh_pots := pb_pots build, mh_returned_excess := pb_returned build\<rparr>;
     h \<leftarrow> for_m (\<lambda>r. pay_seat (re_seat r) (re_amount r)) (mh_returned_excess h) h;
     h \<leftarrow> evaluate_showdown_once h;
     h \<leftarrow> (if mh_revealed_hands h = [] then reveal_synchronously h else Some h);
     let h = h\<lparr>mh_revealed_hands :=
       map (describe_revealed (mh_showdown_evaluations h)) (mh_revealed_hands h)\<rparr>;
     h \<leftarrow> for_m settle_pot (enumerate 0 (mh_pots h)) h;
     h \<leftarrow> clear_contributions h;
     Some (h\<lparr>mh_to_act := None, mh_phase := Showdown\<rparr>) }"

subsection \<open>The paced showdown\<close>

text \<open>
  The reveal loop of \<open>advance_showdown\<close> over the seats that have not been asked yet: it stops
  at the first hand that becomes public.
\<close>

fun showdown_walk :: "seat_id list \<Rightarrow> multiway_hand \<Rightarrow> (bool \<times> multiway_hand) option" where
  "showdown_walk [] h = Some (False, h)"
| "showdown_walk (s # order) h0 = do {
     progress \<leftarrow> mh_showdown_progress h0;
     let h = h0\<lparr>mh_showdown_progress := Some (progress\<lparr>sd_cursor := sd_cursor progress + 1\<rparr>)\<rparr>;
     beaten \<leftarrow> (if s \<in> mh_always_show h then Some False else beaten_by_tabled_hands h s);
     if \<not> beaten then Some (True, table_cards h s)
     else do {
       let h = h\<lparr>mh_mucked_hands := mh_mucked_hands h @ [s]\<rparr>;
       progress \<leftarrow> mh_showdown_progress h;
       showdown_walk order
         (h\<lparr>mh_showdown_progress := Some (progress\<lparr>sd_mucked := mh_mucked_hands h\<rparr>)\<rparr>) } }"

definition deal_to_board :: "nat \<Rightarrow> multiway_hand \<Rightarrow> multiway_hand" where
  "deal_to_board n h =
    (let (cards, deck') = deck_deal_n n (mh_deck h)
     in h\<lparr>mh_board := mh_board h @ cards, mh_deck := deck'\<rparr>)"

definition advance_showdown :: "multiway_hand \<Rightarrow> (bool \<times> multiway_hand) option" where
  "advance_showdown h =
    (case mh_showdown_progress h of
       None \<Rightarrow> Some (False, h)
     | Some progress \<Rightarrow>
       (if pot_eligible_count h = 1 then map_option (Pair True) (award_fold h)
        else if sd_all_in progress \<and> length (mh_board h) < 5 then
          (let count = (if mh_board h = [] then 3 else 1);
               h = deal_to_board count h
           in Some (True, h\<lparr>mh_phase :=
             (if length (mh_board h) = 3 then Flop
              else if length (mh_board h) = 4 then Turn else River)\<rparr>))
        else if length (sd_order progress) < sd_cursor progress then None
        else do {
          (stopped, h) \<leftarrow> showdown_walk (drop (sd_cursor progress) (sd_order progress)) h;
          if stopped then Some (True, h)
          else map_option (Pair True) (resolve_showdown (h\<lparr>mh_showdown_progress := None\<rparr>)) }))"

partial_function (option) drain_showdown :: "multiway_hand \<Rightarrow> multiway_hand option" where
  "drain_showdown h = do {
     r \<leftarrow> advance_showdown h;
     if fst r then drain_showdown (snd r) else Some (snd r) }"

declare drain_showdown.simps [code]

definition begin_showdown :: "bool \<Rightarrow> multiway_hand \<Rightarrow> multiway_hand option" where
  "begin_showdown all_in h0 =
    (if pot_eligible_count h0 = 1 then award_fold h0
     else do {
       let h = h0\<lparr>mh_to_act := None\<rparr>;
       h \<leftarrow> (if \<not> all_in then evaluate_showdown_once h else Some h);
       let order = show_order h;
       let progress = \<lparr>sd_all_in = all_in, sd_order = order, sd_cursor = 0, sd_mucked = []\<rparr>;
       let h =
         (if all_in then (foldl table_cards h order)
            \<lparr>mh_showdown_progress := Some (progress\<lparr>sd_cursor := length order\<rparr>)\<rparr>
          else case order of
            first # _ \<Rightarrow> (table_cards h first)
              \<lparr>mh_showdown_progress := Some (progress\<lparr>sd_cursor := 1\<rparr>)\<rparr>
          | [] \<Rightarrow> h\<lparr>mh_showdown_progress := Some progress\<rparr>);
       if \<not> mh_paced_showdown h then drain_showdown h else Some h })"

end
