(* ===== verification/Hand_Facts.thy ===== *)
theory Hand_Facts
  imports Hand_Eval "HOL-Library.Product_Lexorder" "HOL-Library.Sublist"
begin

text \<open>
  Facts about the evaluator: hands are compared by a total preorder, the evaluation of any cards
  returns, the choices of five are exactly the subsequences of length five, and the one kept is
  maximal among them.
\<close>

subsection \<open>Three-way comparisons\<close>

text \<open>
  The contract of a comparison function that the searches for a maximum rely on, as Rust's
  \<open>Ord\<close> documents it: a total preorder whose two directions agree.
\<close>

locale comparator =
  fixes compare :: "'a \<Rightarrow> 'a \<Rightarrow> ordering"
  assumes refl: "compare x x = Equal"
    and flip: "compare x y = Less \<longleftrightarrow> compare y x = Greater"
    and trans: "compare x y \<noteq> Greater \<Longrightarrow> compare y z \<noteq> Greater \<Longrightarrow> compare x z \<noteq> Greater"
begin

lemma not_greater_total: "compare x y \<noteq> Greater \<or> compare y x \<noteq> Greater"
  by (metis flip ordering.distinct(3))

lemma equal_sym: "compare x y = Equal \<Longrightarrow> compare y x = Equal"
  by (metis flip ordering.exhaust ordering.distinct)

lemma keep_last_maximum:
  "foldl (\<lambda>x y. if compare x y = Greater then x else y) h hs \<in> set (h # hs) \<and>
   (\<forall>x\<in>set (h # hs). compare x (foldl (\<lambda>x y. if compare x y = Greater then x else y) h hs) \<noteq> Greater)"
proof (induction hs arbitrary: h)
  case Nil
  then show ?case by (simp add: refl)
next
  case (Cons a hs)
  define k where "k = (if compare h a = Greater then h else a)"
  define m where "m = foldl (\<lambda>x y. if compare x y = Greater then x else y) k hs"
  have m: "m \<in> set (k # hs)" "\<forall>x\<in>set (k # hs). compare x m \<noteq> Greater"
    using Cons.IH [of k] by (simp_all add: m_def)
  have "compare h k \<noteq> Greater" "compare a k \<noteq> Greater"
    using refl flip by (auto simp: k_def) (metis flip ordering.distinct(3))
  then have "compare h m \<noteq> Greater" "compare a m \<noteq> Greater"
    using m(2) trans by (meson list.set_intros(1))+
  moreover have "m \<in> set (h # a # hs)"
    using m(1) by (auto simp: k_def)
  moreover have "foldl (\<lambda>x y. if compare x y = Greater then x else y) h (a # hs) = m"
    by (simp add: m_def k_def)
  ultimately show ?case
    using m(2) by (simp only:) auto
qed

end

definition ev_key :: "hand_evaluation \<Rightarrow> hand_rank \<times> rank list" where
  "ev_key e = (ev_rank e, ev_kickers e)"

lemma compare_hands_key: "compare_hands l r = cmp (ev_key l) (ev_key r)"
  by (auto simp: compare_hands_def ev_key_def then_with_def cmp_def)

interpretation hands: comparator compare_hands
  by unfold_locales (auto simp: compare_hands_key cmp_def split: if_splits)

lemma compare_hands_not_greater: "compare_hands l r \<noteq> Greater \<longleftrightarrow> ev_key l \<le> ev_key r"
  by (auto simp: compare_hands_key not_less)

lemma compare_hands_equal: "compare_hands l r = Equal \<longleftrightarrow> ev_key l = ev_key r"
  by (simp add: compare_hands_key)

subsection \<open>Tallies\<close>

lemma bump_entry_map: "map_of (bump_entry k m) k' =
    (if k' = k then Some (case map_of m k of None \<Rightarrow> 1 | Some n \<Rightarrow> n + 1) else map_of m k')"
  by (induction k m rule: bump_entry.induct) auto

lemma bump_entry_keys: "set (map fst (bump_entry k m)) = insert k (set (map fst m))"
  by (induction k m rule: bump_entry.induct) auto

lemma bump_entry_distinct: "distinct (map fst m) \<Longrightarrow> distinct (map fst (bump_entry k m))"
proof (induction k m rule: bump_entry.induct)
  case (2 k k' n m)
  then show ?case using bump_entry_keys [of k m] by auto
qed simp

lemma tally_snoc: "tally (ks @ [k]) = bump_entry k (tally ks)"
  by (simp add: tally_def)

lemma tally_facts:
  "distinct (map fst (tally ks)) \<and>
   (\<forall>k. map_of (tally ks) k = (if k \<in> set ks then Some (count_list ks k) else None))"
proof (induction ks rule: rev_induct)
  case Nil
  then show ?case by (simp add: tally_def)
next
  case (snoc k ks)
  then show ?case
    by (auto simp: tally_snoc bump_entry_distinct bump_entry_map count_list_0_iff)
qed

lemma tally_distinct: "distinct (map fst (tally ks))"
  using tally_facts by blast

lemma count_list_pos: "0 < count_list ks k \<longleftrightarrow> k \<in> set ks"
  by (metis count_list_0_iff gr0I less_irrefl)

lemma tally_entry: "(k, c) \<in> set (tally ks) \<longleftrightarrow> 0 < c \<and> count_list ks k = c"
  using tally_facts [of ks] count_list_pos [of ks k]
  by (auto simp: map_of_eq_Some_iff [OF tally_distinct, symmetric] simp del: map_of_eq_Some_iff)

subsection \<open>Evaluations return\<close>

lemma sort_descending_simps [simp]:
  "set (sort_descending xs) = set xs" "length (sort_descending xs) = length xs"
  "sort_descending xs = [] \<longleftrightarrow> xs = []" "mset (sort_descending xs) = mset xs"
proof -
  show len: "length (sort_descending xs) = length xs" for xs :: "'a list"
    by (simp add: sort_descending_def)
  show "sort_descending xs = [] \<longleftrightarrow> xs = []"
    by (metis len length_0_conv)
qed (simp_all add: sort_descending_def)

lemma evaluate_five_with_returns:
  "cards \<noteq> [] \<Longrightarrow> \<exists>e. evaluate_five_with rank_counts suit_counts cards = Some e"
  by (auto simp: evaluate_five_with_def Let_def max_rank_def vec_get_def
      split: option.splits list.splits)

lemma partial_scan_counts:
  assumes "partial_scan m p t h = Inr (p', t', h')"
  shows "(t' \<longrightarrow> t \<or> (\<exists>r. (r, 3) \<in> set m)) \<and> (p < p' \<or> h \<noteq> None \<longrightarrow> h' \<noteq> None) \<and> p \<le> p'"
  using assms
proof (induction m p t h rule: partial_scan.induct)
  case (2 r c m p t h)
  consider "c = 2" | "c = 3" | "c \<noteq> 2" "c \<noteq> 3" "c \<noteq> 4"
    using "2.prems" by (cases "c = 4") auto
  then show ?case
  proof cases
    case 1
    then show ?thesis using 2 by (auto split: option.splits)
  next
    case 2
    then show ?thesis using "2.IH"(2) "2.prems" by auto
  next
    case 3
    then show ?thesis using "2.IH"(3) "2.prems" by auto
  qed
qed simp

lemma key_with_count_exists: "(r, n) \<in> set m \<Longrightarrow> \<exists>k. key_with_count n m = Some k"
  unfolding key_with_count_def using first_match_exists [of m "\<lambda>(k, c). c = n"] by auto

lemma evaluate_partial_with_returns:
  "\<exists>e. evaluate_partial_with m cards = Some e"
proof (cases "cards = []")
  case False
  show ?thesis
  proof (cases "partial_scan m 0 False None")
    case (Inr res)
    obtain p t h where res: "res = (p, t, h)" by (cases res) auto
    note scan = partial_scan_counts [OF Inr [unfolded res]]
    have "\<exists>k. key_with_count 3 m = Some k" if t
      using scan that key_with_count_exists by fastforce
    moreover have "\<exists>r. h = Some r" if "p = 1"
      using scan that by auto
    moreover have "\<exists>r. vec_get (sort_descending (map card_rank cards)) 0 = Some r"
      using False by (simp add: vec_get_def)
    ultimately show ?thesis
      using False Inr res by (auto simp: evaluate_partial_with_def Let_def)
  qed (simp add: evaluate_partial_with_def False)
qed (simp add: evaluate_partial_with_def)

lemma evaluate_five_returns: "cards \<noteq> [] \<Longrightarrow> \<exists>e. evaluate_five cards = Some e"
  by (simp add: evaluate_five_def evaluate_five_with_returns)

subsection \<open>The choices of five\<close>

lemma subseq_Cons_nth:
  "subseq (x # xs) cs \<longleftrightarrow> (\<exists>i<length cs. cs ! i = x \<and> subseq xs (drop (i + 1) cs))"
proof
  assume "subseq (x # xs) cs"
  then obtain us vs where "cs = us @ x # vs" "subseq xs vs"
    by (auto dest!: list_emb_ConsD)
  then show "\<exists>i<length cs. cs ! i = x \<and> subseq xs (drop (i + 1) cs)"
    by (intro exI [of _ "length us"]) simp
next
  assume "\<exists>i<length cs. cs ! i = x \<and> subseq xs (drop (i + 1) cs)"
  then obtain i where i: "i < length cs" "cs ! i = x" "subseq xs (drop (i + 1) cs)" by blast
  then have "subseq (x # xs) (drop i cs)"
    by (simp add: Cons_nth_drop_Suc [symmetric])
  then show "subseq (x # xs) cs"
    by (metis suffix_drop suffix_imp_subseq subseq_order.trans)
qed

lemma set_combinations: "set (combinations cs k) = {xs. subseq xs cs \<and> length xs = k}"
proof (induction k arbitrary: cs)
  case 0
  then show ?case by (auto simp: combinations.simps [of cs 0])
next
  case (Suc k)
  show ?case
  proof (cases "length cs < Suc k")
    case True
    then show ?thesis
      using list_emb_length by (force simp: combinations.simps [of cs "Suc k"])
  next
    case False
    have "xs \<in> set (combinations cs (Suc k)) \<longleftrightarrow> subseq xs cs \<and> length xs = Suc k" for xs
    proof (cases xs)
      case Nil
      then show ?thesis by (auto simp: combinations.simps [of cs "Suc k"])
    next
      case (Cons y ys)
      then show ?thesis
        using False by (auto simp: combinations.simps [of cs "Suc k"] Suc.IH subseq_Cons_nth)
    qed
    then show ?thesis by blast
  qed
qed

text \<open>What \<open>best_of\<close> returns: the first of the maximal candidates.\<close>

definition is_best :: "card list list \<Rightarrow> hand_evaluation \<times> card list \<Rightarrow> bool" where
  "is_best candidates r \<longleftrightarrow> snd r \<in> set candidates \<and> evaluate_five (snd r) = Some (fst r) \<and>
     (\<forall>cs\<in>set candidates. \<forall>e. evaluate_five cs = Some e \<longrightarrow> compare_hands e (fst r) \<noteq> Greater)"

lemma best_of_continues:
  assumes "is_best done_cs b" and "\<forall>cs\<in>set todo. cs \<noteq> []"
  shows "\<exists>r. best_of todo (Some b) = Some (Some r) \<and> is_best (done_cs @ todo) r"
  using assms
proof (induction todo arbitrary: done_cs b)
  case (Cons cs todo)
  obtain e where e: "evaluate_five cs = Some e"
    using Cons.prems(2) evaluate_five_returns by fastforce
  obtain cur ccs where b: "b = (cur, ccs)" by (cases b)
  define b' where "b' = (if compare_hands e cur = Greater then (e, cs) else b)"
  have "is_best (done_cs @ [cs]) b'"
    using Cons.prems(1) e
    by (auto simp: is_best_def b'_def b compare_hands_not_greater not_le)
      (auto simp: compare_hands_key dest: order.strict_trans2 order.trans less_imp_le)
  from Cons.IH [OF this] Cons.prems(2) show ?case
    by (auto simp: e b b'_def split: if_splits)
qed simp

lemma best_of_returns:
  assumes "todo \<noteq> []" and "\<forall>cs\<in>set todo. cs \<noteq> []"
  shows "\<exists>r. best_of todo None = Some (Some r) \<and> is_best todo r"
proof -
  obtain cs rest where todo: "todo = cs # rest"
    using assms(1) by (cases todo) auto
  obtain e where e: "evaluate_five cs = Some e"
    using assms(2) todo evaluate_five_returns by fastforce
  have "is_best [cs] (e, cs)"
    using e by (simp add: is_best_def hands.refl)
  from best_of_continues [OF this, of rest] show ?thesis
    using assms(2) e by (simp add: todo)
qed

lemma evaluate_best_five_returns:
  assumes "5 \<le> length (hole @ board)"
  shows "\<exists>r. evaluate_best_five hole board = Some (Some r) \<and> is_best (combinations (hole @ board) 5) r"
proof -
  have "subseq (take 5 (hole @ board)) (hole @ board)"
    by (intro prefix_imp_subseq take_is_prefix)
  then have "take 5 (hole @ board) \<in> set (combinations (hole @ board) 5)"
    unfolding set_combinations using assms by simp
  then have "combinations (hole @ board) 5 \<noteq> []" by auto
  moreover have "\<forall>cs\<in>set (combinations (hole @ board) 5). cs \<noteq> []"
    by (auto simp: set_combinations)
  ultimately show ?thesis
    unfolding evaluate_best_five_def by (rule best_of_returns)
qed

lemma evaluate_hand_returns: "\<exists>e. evaluate_hand hole board = Some e"
proof (cases "length (hole @ board) < 5")
  case True
  then show ?thesis
    using evaluate_partial_with_returns by (simp add: evaluate_hand_def evaluate_partial_def)
next
  case False
  then show ?thesis
    using evaluate_best_five_returns [of hole board] by (auto simp: evaluate_hand_def)
qed

subsection \<open>The order of the cards\<close>

text \<open>
  The evaluation of five cards depends neither on the order of the cards nor on the order in which
  Rust's hash maps are iterated: the result is that of the model's insertion order for every order.
\<close>

lemma find_unique_mset:
  assumes "mset xs = mset ys" "\<And>x y. x \<in> set xs \<Longrightarrow> y \<in> set xs \<Longrightarrow> P x \<Longrightarrow> P y \<Longrightarrow> x = y"
  shows "first_match P xs = first_match P ys"
proof (cases "first_match P xs")
  case None
  then show ?thesis
    using mset_eq_setD [OF assms(1)] by (metis first_match_None_iff)
next
  case (Some x)
  have sets: "set xs = set ys" by (rule mset_eq_setD [OF assms(1)])
  obtain y where y: "first_match P ys = Some y"
    using first_match_exists [of ys P] first_match_SomeD [OF Some] sets by blast
  then show ?thesis
    using assms(2) [of x y] first_match_SomeD [OF Some] first_match_SomeD [OF y] sets Some by simp
qed

lemma key_with_count_unique:
  assumes "mset m = mset m'" "\<And>k k'. (k, n) \<in> set m \<Longrightarrow> (k', n) \<in> set m \<Longrightarrow> k = k'"
  shows "key_with_count n m = key_with_count n m'"
  unfolding key_with_count_def
  using find_unique_mset [OF assms(1), of "\<lambda>(k, c). c = n"] assms(2) by fastforce

lemma keys_with_count_mset: "mset m = mset m' \<Longrightarrow> mset (keys_with_count n m) = mset (keys_with_count n m')"
  unfolding keys_with_count_def mset_map mset_filter by simp

lemma sort_descending_mset: "mset xs = mset ys \<Longrightarrow> sort_descending xs = sort_descending (ys :: 'a::linorder list)"
  by (metis sort_descending_def properties_for_sort mset_sort sorted_sort)

lemma distinct_pair_counts:
  assumes "k \<noteq> k'"
  shows "count_list ks k + count_list ks k' \<le> length ks"
  using assms by (induction ks) auto

lemma tally_counts_sum: "(k, a) \<in> set (tally ks) \<Longrightarrow> (k', b) \<in> set (tally ks) \<Longrightarrow> k \<noteq> k' \<Longrightarrow> a + b \<le> length ks"
  using distinct_pair_counts [of k k' ks] by (auto simp: tally_entry)

lemma tally_triple_sum:
  assumes "(k, a) \<in> set (tally ks)" "(k', b) \<in> set (tally ks)" "(k'', c) \<in> set (tally ks)" "distinct [k, k', k'']"
  shows "a + b + c \<le> length ks"
proof -
  have "count_list ks k + count_list ks k' + count_list ks k'' \<le> length ks"
    using assms(4) by (induction ks) auto
  then show ?thesis using assms(1-3) by (auto simp: tally_entry)
qed

lemma tally_mset:
  assumes "mset ks = mset ks'"
  shows "mset (tally ks) = mset (tally ks')"
proof -
  have "count_list ks k = count_list ks' k" for k
    using assms by (metis count_mset)
  then have "set (tally ks) = set (tally ks')" by (auto simp: tally_entry)
  moreover have "distinct (tally ks)" "distinct (tally ks')"
    using tally_distinct by (metis distinct_map)+
  ultimately show ?thesis by (simp add: set_eq_iff_mset_eq_distinct)
qed

text \<open>What of a tally of five ranks does not depend on its order.\<close>

lemma five_counts:
  assumes "mset m = mset (tally ks)" "length ks \<le> 5"
  shows "key_with_count 4 m = key_with_count 4 (tally ks)" "key_with_count 3 m = key_with_count 3 (tally ks)"
    and "key_with_count 3 m \<noteq> None \<Longrightarrow> key_with_count 2 m = key_with_count 2 (tally ks)"
    and "sort_descending (keys_with_count 2 m) = sort_descending (keys_with_count 2 (tally (ks :: rank list)))"
proof -
  have sets: "set m = set (tally ks)" by (rule mset_eq_setD [OF assms(1)])
  have one: "k = k'" if "(k, n) \<in> set m" "(k', n) \<in> set m" "3 \<le> n" for k k' n
    using tally_counts_sum [of k n ks k' n] that assms(2) sets by fastforce
  show "key_with_count 4 m = key_with_count 4 (tally ks)" "key_with_count 3 m = key_with_count 3 (tally ks)"
    using one by (auto intro!: key_with_count_unique [OF assms(1)])
  show "key_with_count 2 m = key_with_count 2 (tally ks)" if trips: "key_with_count 3 m \<noteq> None"
  proof (rule key_with_count_unique [OF assms(1)])
    fix k k' assume kk: "(k, 2) \<in> set m" "(k', 2) \<in> set m"
    obtain t where t: "(t, 3) \<in> set m"
      using trips by (auto simp: key_with_count_def dest: first_match_SomeD)
    have "t \<noteq> k" "t \<noteq> k'" using kk t sets by (auto simp: tally_entry)
    then show "k = k'"
      using tally_triple_sum [of t 3 ks k 2 k' 2] kk t sets assms(2) by fastforce
  qed
  show "sort_descending (keys_with_count 2 m) = sort_descending (keys_with_count 2 (tally ks))"
    by (rule sort_descending_mset [OF keys_with_count_mset [OF assms(1)]])
qed

lemma list_ex_mset: "mset m = mset m' \<Longrightarrow> list_ex P m = list_ex P m'"
  by (metis list_ex_iff mset_eq_setD)

lemma max_rank_mset: "mset rs = mset rs' \<Longrightarrow> max_rank rs = max_rank rs'"
proof -
  have max: "max_rank xs = (if xs = [] then None else Some (Max (set xs)))" for xs
  proof (cases xs)
    case (Cons y ys)
    then show ?thesis using Max.set_eq_fold [of y ys] by (simp add: max_rank_def foldl_conv_fold max.commute)
  qed (simp add: max_rank_def)
  assume "mset rs = mset rs'"
  then show ?thesis using mset_eq_setD [of rs rs'] by (auto simp: max)
qed

lemma evaluate_five_order:
  assumes "mset cards' = mset cards" "length cards \<le> 5"
    and "mset rank_counts = mset (tally (map card_rank cards'))"
    and "mset suit_counts = mset (tally (map card_suit cards'))"
  shows "evaluate_five_with rank_counts suit_counts cards' = evaluate_five cards"
proof -
  let ?rs = "map card_rank cards"
  have rc: "mset rank_counts = mset (tally ?rs)"
    using assms(1,3) tally_mset [of "map card_rank cards'" ?rs] by (simp add: mset_map)
  have sc: "mset suit_counts = mset (tally (map card_suit cards))"
    using assms(1,4) tally_mset [of "map card_suit cards'" "map card_suit cards"] by (simp add: mset_map)
  have len: "length ?rs \<le> 5" using assms(2) by simp
  note counts = five_counts [OF rc len]
  have sorted: "sort_descending (map card_rank cards') = sort_descending ?rs"
    using assms(1) by (intro sort_descending_mset) (simp add: mset_map)
  have flush: "list_ex (\<lambda>(s, c). 5 \<le> c) suit_counts = list_ex (\<lambda>(s, c). 5 \<le> c) (tally (map card_suit cards))"
    by (rule list_ex_mset [OF sc])
  have top: "max_rank (map card_rank cards') = max_rank ?rs"
    using assms(1) by (intro max_rank_mset) (simp add: mset_map)
  show ?thesis
  proof (cases "key_with_count 3 rank_counts")
    case None
    moreover from this have "key_with_count 3 (tally ?rs) = None" using counts(2) by simp
    ultimately show ?thesis
      by (simp only: evaluate_five_def evaluate_five_with_def Let_def flush sorted counts(1,4) top prod.case option.case)
  next
    case (Some t)
    then have pair: "key_with_count 2 rank_counts = key_with_count 2 (tally ?rs)" using counts(3) by simp
    show ?thesis
      by (simp only: evaluate_five_def evaluate_five_with_def Let_def flush sorted counts(1,2,4) pair top)
  qed
qed

end
