(* ===== verification/Pots_Facts.thy ===== *)
theory Pots_Facts
  imports Pots Hand_Facts
begin

text \<open>
  Facts about the pots: a view of \<open>build_pots\<close> as a list of layers, the conservation of chips,
  what a seat can win, who is eligible, and the division of one pot.
\<close>

subsection \<open>The layers\<close>

fun layers :: "contribution list \<Rightarrow> u32 \<Rightarrow> u32 list \<Rightarrow> (u32 \<times> contribution list) list" where
  "layers cs previous [] = []"
| "layers cs previous (level # levels) =
    (let members = filter (\<lambda>entry. level \<le> ct_amount entry) cs
     in ((level - previous) * length members, members) # layers cs level levels)"

lemma layers_Cons:
  "layers cs previous (l # ls) =
    ((l - previous) * length (filter (\<lambda>entry. l \<le> ct_amount entry) cs),
     filter (\<lambda>entry. l \<le> ct_amount entry) cs) # layers cs l ls"
  by (simp add: Let_def)

declare layers.simps(2) [simp del]

definition layer_pots :: "(u32 \<times> contribution list) list \<Rightarrow> pot list" where
  "layer_pots ls = map (\<lambda>(a, ms). \<lparr>pot_amount = a, pot_eligible = map ct_seat (filter ct_eligible ms)\<rparr>)
     (filter (\<lambda>(a, ms). length ms \<noteq> 1 \<and> 0 < a) ls)"

definition layer_returns :: "(u32 \<times> contribution list) list \<Rightarrow> returned_excess list" where
  "layer_returns ls = map (\<lambda>(a, ms). \<lparr>re_seat = ct_seat (ms ! 0), re_amount = a\<rparr>)
     (filter (\<lambda>(a, ms). length ms = 1) ls)"

definition ascending :: "u32 \<Rightarrow> u32 list \<Rightarrow> bool" where
  "ascending previous levels \<longleftrightarrow> sorted_wrt (<) (previous # levels)"

lemma ascending_Cons [simp]:
  "ascending previous (l # ls) \<longleftrightarrow> previous < l \<and> ascending l ls"
  by (auto simp: ascending_def)

lemma layer_amount_bound:
  "(level - previous) * length (filter (\<lambda>e. level \<le> ct_amount e) cs) \<le> sum_list (map ct_amount cs)"
proof (induction cs)
  case (Cons c cs)
  show ?case
  proof (cases "level \<le> ct_amount c")
    case True
    then have "level - previous \<le> ct_amount c" by simp
    with Cons True show ?thesis by simp
  qed (use Cons in simp)
qed simp

lemma build_layers_view:
  assumes "ascending previous levels" and "sum_list (map ct_amount cs) < u32_bound"
  shows "build_layers cs previous levels acc =
    \<lparr>pb_pots = pb_pots acc @ layer_pots (layers cs previous levels),
     pb_returned = pb_returned acc @ layer_returns (layers cs previous levels)\<rparr>"
  using assms
proof (induction levels arbitrary: previous acc)
  case Nil
  then show ?case by (simp add: layer_pots_def layer_returns_def)
next
  case (Cons l ls)
  define ms where "ms = filter (\<lambda>e. l \<le> ct_amount e) cs"
  define a where "a = (l - previous) * length ms"
  have exact: "u32_mul (u32_sub l previous) (length ms) = a"
    using Cons.prems layer_amount_bound [of l previous cs]
    by (simp add: u32_mul_exact u32_sub_exact ms_def a_def)
  have head: "layers cs previous (l # ls) = (a, ms) # layers cs l ls"
    by (simp add: a_def ms_def layers_Cons)
  have "ascending l ls" using Cons.prems by simp
  then show ?case
    unfolding head build_layers.simps Let_def ms_def [symmetric] exact
    using Cons.IH Cons.prems(2) by (simp add: layer_pots_def layer_returns_def)
qed

lemma pot_levels_ascending: "ascending 0 (pot_levels cs)"
proof -
  have "sorted_wrt (<) (pot_levels cs)"
    by (simp add: pot_levels_def strict_remdups_adj)
  moreover have "\<forall>l\<in>set (pot_levels cs). 0 < l"
    by (simp add: pot_levels_def)
  ultimately show ?thesis by (simp add: ascending_def)
qed

lemma set_pot_levels: "set (pot_levels cs) = {a \<in> ct_amount ` set cs. 0 < a}"
  by (auto simp: pot_levels_def)

definition pot_layers :: "contribution list \<Rightarrow> (u32 \<times> contribution list) list" where
  "pot_layers cs = layers cs 0 (pot_levels cs)"

lemma build_pots_view:
  "sum_list (map ct_amount cs) < u32_bound \<Longrightarrow>
   build_pots cs = \<lparr>pb_pots = layer_pots (pot_layers cs), pb_returned = layer_returns (pot_layers cs)\<rparr>"
  by (simp add: build_pots_def build_layers_view pot_levels_ascending pot_layers_def)

subsection \<open>Conservation\<close>

definition covers :: "contribution list \<Rightarrow> u32 \<Rightarrow> u32 list \<Rightarrow> bool" where
  "covers cs previous levels \<longleftrightarrow> (\<forall>c\<in>set cs. ct_amount c \<le> previous \<or> ct_amount c \<in> set levels)"

lemma covers_step:
  assumes "covers cs previous (l # ls)" "ascending previous (l # ls)"
  shows "covers cs l ls"
  unfolding covers_def
proof
  fix c
  assume "c \<in> set cs"
  then have "ct_amount c \<le> previous \<or> ct_amount c = l \<or> ct_amount c \<in> set ls"
    using assms(1) by (auto simp: covers_def)
  then show "ct_amount c \<le> l \<or> ct_amount c \<in> set ls"
    using assms(2) by auto
qed

lemma covers_above:
  assumes "covers cs previous (l # ls)" "ascending previous (l # ls)" "c \<in> set cs" "previous < ct_amount c"
  shows "l \<le> ct_amount c"
proof -
  have "ct_amount c \<in> set (l # ls)"
    using assms by (auto simp: covers_def)
  then show ?thesis using assms(2) by (auto simp: ascending_def)
qed

text \<open>The part of each contribution above the previous level, capped at \<open>x\<close>.\<close>

definition capped_rest :: "u32 \<Rightarrow> u32 \<Rightarrow> contribution list \<Rightarrow> nat" where
  "capped_rest previous x cs = sum_list (map (\<lambda>c. min (ct_amount c) x - previous) cs)"

lemma capped_rest_step:
  assumes "previous < l" "l \<le> x" "\<forall>c\<in>set cs. previous < ct_amount c \<longrightarrow> l \<le> ct_amount c"
  shows "(l - previous) * length (filter (\<lambda>e. l \<le> ct_amount e) cs) + capped_rest l x cs
    = capped_rest previous x cs"
  using assms(3)
proof (induction cs)
  case (Cons c cs)
  then have IH: "(l - previous) * length (filter (\<lambda>e. l \<le> ct_amount e) cs) + capped_rest l x cs
      = capped_rest previous x cs" by simp
  show ?case
  proof (cases "l \<le> ct_amount c")
    case True
    then have "(l - previous) + (min (ct_amount c) x - l) = min (ct_amount c) x - previous"
      using assms(1,2) by simp
    with IH True show ?thesis by (simp add: capped_rest_def)
  next
    case False
    then have "ct_amount c \<le> previous" using Cons.prems by fastforce
    with IH False assms(1) show ?thesis by (simp add: capped_rest_def)
  qed
qed (simp add: capped_rest_def)

lemma layers_members_above:
  "ascending previous levels \<Longrightarrow> (a, ms) \<in> set (layers cs previous levels) \<Longrightarrow> m \<in> set ms
    \<Longrightarrow> m \<in> set cs \<and> previous < ct_amount m"
  by (induction levels arbitrary: previous) (fastforce simp: layers_Cons)+

lemma layers_of_member:
  assumes "ascending previous levels" "covers cs previous levels" "e \<in> set cs"
  shows "sum_list (map fst (filter (\<lambda>(a, ms). e \<in> set ms) (layers cs previous levels)))
    = capped_rest previous (ct_amount e) cs"
  using assms(1,2)
proof (induction levels arbitrary: previous)
  case Nil
  then have "map (\<lambda>c. min (ct_amount c) (ct_amount e) - previous) cs = map (\<lambda>c. 0) cs"
    by (auto simp: covers_def min_def)
  then show ?case
    unfolding capped_rest_def by simp
next
  case (Cons l ls)
  have asc: "previous < l" "ascending l ls" using Cons.prems(1) by simp_all
  note tail = Cons.IH [OF asc(2) covers_step [OF Cons.prems(2,1)]]
  define ms where "ms = filter (\<lambda>entry. l \<le> ct_amount entry) cs"
  show ?case
  proof (cases "l \<le> ct_amount e")
    case True
    have above: "\<forall>c\<in>set cs. previous < ct_amount c \<longrightarrow> l \<le> ct_amount c"
      using covers_above [OF Cons.prems(2,1)] by blast
    have "e \<in> set ms" using True assms(3) by (simp add: ms_def)
    then show ?thesis
      using capped_rest_step [OF asc(1) True above] tail
      by (simp add: layers_Cons ms_def [symmetric])
  next
    case False
    then have low: "ct_amount e \<le> previous"
      using covers_above [OF Cons.prems(2,1) assms(3)] by linarith
    then have "filter (\<lambda>(a, ms). e \<in> set ms) (layers cs previous (l # ls)) = []"
      using layers_members_above [OF Cons.prems(1)] by (fastforce simp: filter_empty_conv)
    moreover have "map (\<lambda>c. min (ct_amount c) (ct_amount e) - previous) cs = map (\<lambda>c. 0) cs"
      using low by simp
    ultimately show ?thesis
      by (simp add: capped_rest_def)
  qed
qed

lemma covers_levels: "covers cs 0 (pot_levels cs)"
  by (auto simp: covers_def set_pot_levels)

definition contribution_cap :: "contribution list \<Rightarrow> nat" where
  "contribution_cap cs = Max (insert 0 (ct_amount ` set cs))"

lemma contribution_cap_ge: "c \<in> set cs \<Longrightarrow> ct_amount c \<le> contribution_cap cs"
  by (simp add: contribution_cap_def)

lemma layers_sum:
  assumes "ascending previous levels" "covers cs previous levels"
  shows "sum_list (map fst (layers cs previous levels))
    = capped_rest previous (contribution_cap cs) cs"
  using assms
proof (induction levels arbitrary: previous)
  case Nil
  then have "map (\<lambda>c. min (ct_amount c) (contribution_cap cs) - previous) cs = map (\<lambda>c. 0) cs"
    by (auto simp: covers_def min_def)
  then show ?case
    unfolding capped_rest_def by simp
next
  case (Cons l ls)
  have above: "\<forall>c\<in>set cs. previous < ct_amount c \<longrightarrow> l \<le> ct_amount c"
    using covers_above [OF Cons.prems(2,1)] by blast
  have asc: "previous < l" "ascending l ls" using Cons.prems(1) by simp_all
  note tail = Cons.IH [OF asc(2) covers_step [OF Cons.prems(2,1)]]
  define ms where "ms = filter (\<lambda>entry. l \<le> ct_amount entry) cs"
  show ?case
  proof (cases "l \<le> contribution_cap cs")
    case True
    then show ?thesis
      using capped_rest_step [OF asc(1) True above] tail
      by (simp add: layers_Cons ms_def [symmetric])
  next
    case False
    have none: "ct_amount c < l" if "c \<in> set cs" for c
      using contribution_cap_ge [OF that] False by linarith
    then have "filter (\<lambda>e. l \<le> ct_amount e) cs = []"
      by (auto simp: filter_empty_conv not_le)
    moreover have "capped_rest previous x cs = 0" for x
      using none above by (fastforce simp: capped_rest_def min_def)
    moreover have "capped_rest l x cs = 0" for x
      using none by (fastforce simp: capped_rest_def min_def)
    ultimately show ?thesis
      using tail by (simp add: layers_Cons)
  qed
qed

lemma capped_rest_full: "capped_rest 0 (contribution_cap cs) cs = sum_list (map ct_amount cs)"
proof -
  have "min (ct_amount c) (contribution_cap cs) = ct_amount c" if "c \<in> set cs" for c
    using that by (simp add: contribution_cap_def)
  then show ?thesis
    unfolding capped_rest_def by (intro arg_cong [of _ _ sum_list] map_cong) auto
qed

lemma pot_layers_sum: "sum_list (map fst (pot_layers cs)) = sum_list (map ct_amount cs)"
  by (simp add: pot_layers_def layers_sum pot_levels_ascending covers_levels capped_rest_full)

lemma sum_partition:
  "sum_list (map fst (filter P ls)) + sum_list (map fst (filter (\<lambda>x. \<not> P x) ls))
    = (sum_list (map fst ls) :: nat)"
  by (induction ls) auto

lemma layer_pots_amounts:
  "sum_list (map pot_amount (layer_pots ls))
    = sum_list (map fst (filter (\<lambda>(a, ms). length ms \<noteq> 1) ls))"
  by (induction ls) (auto simp: layer_pots_def)

lemma layer_returns_amounts:
  "sum_list (map re_amount (layer_returns ls))
    = sum_list (map fst (filter (\<lambda>(a, ms). length ms = 1) ls))"
  by (induction ls) (auto simp: layer_returns_def)

lemma build_pots_conserves:
  assumes "sum_list (map ct_amount cs) < u32_bound"
  shows "sum_list (map pot_amount (pb_pots (build_pots cs)))
      + sum_list (map re_amount (pb_returned (build_pots cs))) = sum_list (map ct_amount cs)"
  using sum_partition [of "\<lambda>(a, ms). length ms = 1" "pot_layers cs"]
  by (simp add: build_pots_view [OF assms] layer_pots_amounts layer_returns_amounts
      pot_layers_sum case_prod_unfold)

subsection \<open>What each layer holds\<close>

lemma layers_amount:
  "ascending previous levels \<Longrightarrow> (a, ms) \<in> set (layers cs previous levels) \<Longrightarrow>
    (ms = [] \<or> 0 < a) \<and> set ms \<subseteq> set cs"
  by (induction levels arbitrary: previous) (auto simp: layers_Cons)

text \<open>A contribution at the top level belongs to every layer that has a member at all.\<close>

lemma layers_top_member:
  assumes "ascending previous levels" "(a, ms) \<in> set (layers cs previous levels)"
    and "m \<in> set ms" "e \<in> set cs" "\<forall>c\<in>set cs. ct_amount c \<le> ct_amount e"
  shows "e \<in> set ms"
  using assms(1-3)
proof (induction levels arbitrary: previous)
  case (Cons l ls)
  show ?case
  proof (cases "(a, ms) \<in> set (layers cs l ls)")
    case True
    from Cons.prems(1) have "ascending l ls" by simp
    then show ?thesis using Cons.IH True Cons.prems(3) by blast
  next
    case False
    then have ms: "ms = filter (\<lambda>entry. l \<le> ct_amount entry) cs"
      using Cons.prems(2) by (simp add: layers_Cons)
    then have "l \<le> ct_amount m" "m \<in> set cs"
      using Cons.prems(3) by auto
    then have "l \<le> ct_amount e"
      using assms(5) order.trans by blast
    then show ?thesis using ms assms(4) by simp
  qed
qed simp

lemma layers_distinct:
  "distinct (map ct_seat cs) \<Longrightarrow> (a, ms) \<in> set (layers cs previous levels) \<Longrightarrow> distinct (map ct_seat ms)"
  by (induction levels arbitrary: previous) (auto simp: layers_Cons distinct_map_filter)

lemma build_pots_eligible:
  assumes "sum_list (map ct_amount cs) < u32_bound" "p \<in> set (pb_pots (build_pots cs))"
  shows "0 < pot_amount p" and "set (pot_eligible p) \<subseteq> ct_seat ` {c \<in> set cs. ct_eligible c}"
    and "distinct (map ct_seat cs) \<Longrightarrow> distinct (pot_eligible p)"
    and "e \<in> set cs \<Longrightarrow> ct_eligible e \<Longrightarrow> \<forall>c\<in>set cs. ct_amount c \<le> ct_amount e
      \<Longrightarrow> ct_seat e \<in> set (pot_eligible p)"
proof -
  obtain a ms where l: "(a, ms) \<in> set (pot_layers cs)" "0 < a" "length ms \<noteq> 1"
    and p: "p = \<lparr>pot_amount = a, pot_eligible = map ct_seat (filter ct_eligible ms)\<rparr>"
    using assms(2) by (auto simp: build_pots_view [OF assms(1)] layer_pots_def)
  note asc = pot_levels_ascending [of cs]
  note mem = l(1) [unfolded pot_layers_def]
  show "0 < pot_amount p" using l p by simp
  show "set (pot_eligible p) \<subseteq> ct_seat ` {c \<in> set cs. ct_eligible c}"
    using layers_amount [OF asc mem] by (auto simp: p)
  show "distinct (pot_eligible p)" if "distinct (map ct_seat cs)"
    using layers_distinct [OF that mem] by (simp add: p distinct_map_filter)
  show "ct_seat e \<in> set (pot_eligible p)"
    if "e \<in> set cs" "ct_eligible e" "\<forall>c\<in>set cs. ct_amount c \<le> ct_amount e"
  proof -
    have "ms \<noteq> []"
    proof
      assume "ms = []"
      moreover have "\<forall>(b, ns)\<in>set (layers cs prev levels). ns = [] \<longrightarrow> b = 0" for prev levels
        by (induction levels arbitrary: prev) (auto simp: layers_Cons)
      ultimately show False using mem l(2) by fastforce
    qed
    then obtain m where "m \<in> set ms" by (cases ms) auto
    then have "e \<in> set ms" using layers_top_member [OF asc mem] that by blast
    then show ?thesis using that by (simp add: p)
  qed
qed

lemma build_pots_returned:
  assumes "sum_list (map ct_amount cs) < u32_bound" "r \<in> set (pb_returned (build_pots cs))"
  shows "re_seat r \<in> ct_seat ` set cs"
proof -
  obtain a ms where l: "(a, ms) \<in> set (pot_layers cs)" "length ms = 1" and r: "re_seat r = ct_seat (ms ! 0)"
    using assms(2) by (auto simp: build_pots_view [OF assms(1)] layer_returns_def)
  have "ms ! 0 \<in> set ms" using l(2) by simp
  moreover have "set ms \<subseteq> set cs"
    using layers_amount [OF pot_levels_ascending l(1) [unfolded pot_layers_def]] by blast
  ultimately show ?thesis using r by auto
qed

subsection \<open>Awarding a pot\<close>

lemma sum_list_enumerate_bonus:
  "k \<le> length ws + n \<Longrightarrow> n \<le> k \<Longrightarrow>
    sum_list (map (\<lambda>(i, s). base + (if i < k then 1 else 0)) (enumerate n ws)) = length ws * base + (k - n)"
proof (induction ws arbitrary: n)
  case (Cons w ws)
  show ?case
  proof (cases "n < k")
    case True
    with Cons.IH [of "Suc n"] Cons.prems show ?thesis by simp
  next
    case False
    then have "sum_list (map (\<lambda>(i, s). base + (if i < k then 1 else 0)) (enumerate n (w # ws)))
      = sum_list (map (\<lambda>_. base) (enumerate n (w # ws)))"
      using Cons.prems(2) by (intro arg_cong [of _ _ sum_list] map_cong) (auto simp: in_set_enumerate_eq)
    also have "\<dots> = length (w # ws) * base"
      by (simp only: sum_list_triv length_enumerate) simp
    finally show ?thesis using False by simp
  qed
qed simp

lemma split_pot_share:
  assumes "winners \<noteq> []" "amount < u32_bound"
  shows "split_pot amount winners = map (\<lambda>(i, s). \<lparr>sp_seat = s, sp_amount =
    amount div length winners + (if i < amount mod length winners then 1 else 0)\<rparr>) (enumerate 0 winners)"
proof -
  have "amount div length winners + (if i < amount mod length winners then 1 else 0) \<le> amount"
    if "i < length winners" for i
  proof (cases "i < amount mod length winners")
    case True
    then have "0 < amount mod length winners" by simp
    moreover have "amount div length winners \<le> amount div length winners * length winners"
      using assms(1) by (cases winners) auto
    ultimately have "amount div length winners + 1 \<le> amount"
      using div_mult_mod_eq [of amount "length winners"] by linarith
    with True show ?thesis by simp
  qed simp
  then have exact: "u32_add (amount div length winners) (if i < amount mod length winners then 1 else 0)
      = amount div length winners + (if i < amount mod length winners then 1 else 0)"
    if "i < length winners" for i
    using that assms(2) u32_add_exact order.strict_trans1 by blast
  show ?thesis
    unfolding split_pot_def Let_def
    by (rule map_cong) (auto simp: in_set_enumerate_eq exact simp del: if_split_asm)
qed

lemma split_pot_sum:
  assumes "winners \<noteq> []" "amount < u32_bound"
  shows "sum_list (map sp_amount (split_pot amount winners)) = amount"
proof -
  have "amount mod length winners \<le> length winners"
    using assms(1) by (simp add: less_imp_le)
  then have "sum_list (map sp_amount (split_pot amount winners))
      = length winners * (amount div length winners) + amount mod length winners"
    using sum_list_enumerate_bonus [of "amount mod length winners" winners 0 "amount div length winners"]
    by (simp add: split_pot_share [OF assms] comp_def case_prod_unfold)
  then show ?thesis by simp
qed

lemma split_pot_seats: "map sp_seat (split_pot amount winners) = winners"
  by (simp add: split_pot_def Let_def comp_def case_prod_unfold)

lemma pot_winners_members:
  "set (pot_winners n button evs eligible best) =
    {s \<in> set eligible. \<exists>e. bt_get evs s = Some e \<and> ev_key e = ev_key best}"
  by (auto simp: pot_winners_def compare_hands_equal split: option.splits)

text \<open>
  What an award promises: every winner is eligible, holds a hand that no eligible seat beats,
  and every eligible seat with such a hand wins; the payouts go to the winners in order and add
  up to the pot.
\<close>

definition fair_award :: "(seat_id, hand_evaluation) btree \<Rightarrow> pot \<Rightarrow> pot_award \<Rightarrow> bool" where
  "fair_award evs p a \<longleftrightarrow>
     pa_winners a \<noteq> [] \<and> pa_amount a = pot_amount p \<and> pa_eligible a = pot_eligible p \<and>
     set (pa_winners a) = {s \<in> set (pot_eligible p). \<exists>e. bt_get evs s = Some e \<and>
        (\<forall>t\<in>set (pot_eligible p). \<forall>f. bt_get evs t = Some f \<longrightarrow> compare_hands f e \<noteq> Greater)} \<and>
     map sp_seat (pa_payouts a) = pa_winners a \<and>
     sum_list (map sp_amount (pa_payouts a)) = pot_amount p"

lemma best_hand_returns:
  assumes "hands \<noteq> []"
  shows "\<exists>b. best_hand hands = Some b \<and> b \<in> set hands \<and> (\<forall>e\<in>set hands. ev_key e \<le> ev_key b)"
proof (cases hands)
  case (Cons h hs)
  then show ?thesis
    using hands.keep_last_maximum [of h hs]
    by (simp only: best_hand_def compare_hands_not_greater list.case) blast
qed (use assms in simp)

lemma set_map_filter: "set (List.map_filter f xs) = {y. \<exists>x\<in>set xs. f x = Some y}"
  by (force simp: List.map_filter_def image_def)

lemma award_pot_fair:
  assumes "pot_eligible p \<noteq> []" "\<forall>s\<in>set (pot_eligible p). bt_get evs s \<noteq> None" "pot_amount p < u32_bound"
  shows "\<exists>a. award_pot n button evs i p = Some a \<and> fair_award evs p a \<and> pa_pot_index a = i"
proof -
  define hs where "hs = List.map_filter (bt_get evs) (pot_eligible p)"
  obtain s e where se: "s \<in> set (pot_eligible p)" "bt_get evs s = Some e"
    using assms(1,2) by (cases "pot_eligible p") auto
  then have "e \<in> set hs" by (auto simp: hs_def set_map_filter)
  then obtain b where b: "best_hand hs = Some b" "b \<in> set hs" "\<forall>e\<in>set hs. ev_key e \<le> ev_key b"
    using best_hand_returns [of hs] by force
  obtain t where t: "t \<in> set (pot_eligible p)" "bt_get evs t = Some b"
    using b(2) by (auto simp: hs_def set_map_filter)
  define ws where "ws = pot_winners n button evs (pot_eligible p) b"
  have top: "ev_key f \<le> ev_key b" if "u \<in> set (pot_eligible p)" "bt_get evs u = Some f" for u f
    using b(3) that by (auto simp: hs_def set_map_filter)
  have "t \<in> set ws" using t by (simp add: ws_def pot_winners_members)
  then have ws: "ws \<noteq> []" by auto
  have "set ws = {s \<in> set (pot_eligible p). \<exists>e. bt_get evs s = Some e \<and>
        (\<forall>t\<in>set (pot_eligible p). \<forall>f. bt_get evs t = Some f \<longrightarrow> compare_hands f e \<noteq> Greater)}"
    unfolding ws_def pot_winners_members compare_hands_not_greater
    using top t by (metis (lifting) order.antisym)
  then show ?thesis
    using b(1) ws assms(3)
    by (simp add: award_pot_def hs_def [symmetric] ws_def [symmetric] Let_def fair_award_def
        split_pot_seats split_pot_sum)
qed

end
