(* ===== verification/Multiway_Views.thy ===== *)
theory Multiway_Views
  imports Showdown Pots_Facts
begin

text \<open>
  Views of a hand that the proofs use: a read of a seat after each kind of update, the loops over
  the occupied seats and over the payouts in closed form (\<open>map_seats\<close>), and sums over the seats.
\<close>

subsection \<open>Reads after an update\<close>

lemma mw_seat_frame [simp]:
  "mw_seat (h\<lparr>mh_phase := x0\<rparr>) = mw_seat h"
  "mw_seat (h\<lparr>mh_board := x1\<rparr>) = mw_seat h"
  "mw_seat (h\<lparr>mh_button := x2\<rparr>) = mw_seat h"
  "mw_seat (h\<lparr>mh_small_blind := x3\<rparr>) = mw_seat h"
  "mw_seat (h\<lparr>mh_big_blind := x4\<rparr>) = mw_seat h"
  "mw_seat (h\<lparr>mh_blind_values := x5\<rparr>) = mw_seat h"
  "mw_seat (h\<lparr>mh_to_act := x6\<rparr>) = mw_seat h"
  "mw_seat (h\<lparr>mh_current_wager := x7\<rparr>) = mw_seat h"
  "mw_seat (h\<lparr>mh_last_full_raise_size := x8\<rparr>) = mw_seat h"
  "mw_seat (h\<lparr>mh_action_history := x9\<rparr>) = mw_seat h"
  "mw_seat (h\<lparr>mh_pots := x10\<rparr>) = mw_seat h"
  "mw_seat (h\<lparr>mh_returned_excess := x11\<rparr>) = mw_seat h"
  "mw_seat (h\<lparr>mh_awards := x12\<rparr>) = mw_seat h"
  "mw_seat (h\<lparr>mh_revealed_hands := x13\<rparr>) = mw_seat h"
  "mw_seat (h\<lparr>mh_settled_contributions := x14\<rparr>) = mw_seat h"
  "mw_seat (h\<lparr>mh_showdown_progress := x15\<rparr>) = mw_seat h"
  "mw_seat (h\<lparr>mh_mucked_hands := x16\<rparr>) = mw_seat h"
  "mw_seat (h\<lparr>mh_always_show := x17\<rparr>) = mw_seat h"
  "mw_seat (h\<lparr>mh_paced_showdown := x18\<rparr>) = mw_seat h"
  "mw_seat (h\<lparr>mh_showdown_evaluations := x19\<rparr>) = mw_seat h"
  "mw_seat (h\<lparr>mh_initial_total := x20\<rparr>) = mw_seat h"
  "mw_seat (h\<lparr>mh_deck := x21\<rparr>) = mw_seat h"
  by (simp_all add: fun_eq_iff mw_seat_def)

lemma occupied_seats_frame [simp]:
  "occupied_seats (h\<lparr>mh_phase := x0\<rparr>) = occupied_seats h"
  "occupied_seats (h\<lparr>mh_board := x1\<rparr>) = occupied_seats h"
  "occupied_seats (h\<lparr>mh_button := x2\<rparr>) = occupied_seats h"
  "occupied_seats (h\<lparr>mh_small_blind := x3\<rparr>) = occupied_seats h"
  "occupied_seats (h\<lparr>mh_big_blind := x4\<rparr>) = occupied_seats h"
  "occupied_seats (h\<lparr>mh_blind_values := x5\<rparr>) = occupied_seats h"
  "occupied_seats (h\<lparr>mh_to_act := x6\<rparr>) = occupied_seats h"
  "occupied_seats (h\<lparr>mh_current_wager := x7\<rparr>) = occupied_seats h"
  "occupied_seats (h\<lparr>mh_last_full_raise_size := x8\<rparr>) = occupied_seats h"
  "occupied_seats (h\<lparr>mh_action_history := x9\<rparr>) = occupied_seats h"
  "occupied_seats (h\<lparr>mh_pots := x10\<rparr>) = occupied_seats h"
  "occupied_seats (h\<lparr>mh_returned_excess := x11\<rparr>) = occupied_seats h"
  "occupied_seats (h\<lparr>mh_awards := x12\<rparr>) = occupied_seats h"
  "occupied_seats (h\<lparr>mh_revealed_hands := x13\<rparr>) = occupied_seats h"
  "occupied_seats (h\<lparr>mh_settled_contributions := x14\<rparr>) = occupied_seats h"
  "occupied_seats (h\<lparr>mh_showdown_progress := x15\<rparr>) = occupied_seats h"
  "occupied_seats (h\<lparr>mh_mucked_hands := x16\<rparr>) = occupied_seats h"
  "occupied_seats (h\<lparr>mh_always_show := x17\<rparr>) = occupied_seats h"
  "occupied_seats (h\<lparr>mh_paced_showdown := x18\<rparr>) = occupied_seats h"
  "occupied_seats (h\<lparr>mh_showdown_evaluations := x19\<rparr>) = occupied_seats h"
  "occupied_seats (h\<lparr>mh_initial_total := x20\<rparr>) = occupied_seats h"
  "occupied_seats (h\<lparr>mh_deck := x21\<rparr>) = occupied_seats h"
  by (simp_all add: occupied_seats_def)

lemma mw_holds_frame [simp]:
  "mw_holds (h\<lparr>mh_phase := x0\<rparr>) P = mw_holds h P"
  "mw_holds (h\<lparr>mh_board := x1\<rparr>) P = mw_holds h P"
  "mw_holds (h\<lparr>mh_button := x2\<rparr>) P = mw_holds h P"
  "mw_holds (h\<lparr>mh_small_blind := x3\<rparr>) P = mw_holds h P"
  "mw_holds (h\<lparr>mh_big_blind := x4\<rparr>) P = mw_holds h P"
  "mw_holds (h\<lparr>mh_blind_values := x5\<rparr>) P = mw_holds h P"
  "mw_holds (h\<lparr>mh_to_act := x6\<rparr>) P = mw_holds h P"
  "mw_holds (h\<lparr>mh_current_wager := x7\<rparr>) P = mw_holds h P"
  "mw_holds (h\<lparr>mh_last_full_raise_size := x8\<rparr>) P = mw_holds h P"
  "mw_holds (h\<lparr>mh_action_history := x9\<rparr>) P = mw_holds h P"
  "mw_holds (h\<lparr>mh_pots := x10\<rparr>) P = mw_holds h P"
  "mw_holds (h\<lparr>mh_returned_excess := x11\<rparr>) P = mw_holds h P"
  "mw_holds (h\<lparr>mh_awards := x12\<rparr>) P = mw_holds h P"
  "mw_holds (h\<lparr>mh_revealed_hands := x13\<rparr>) P = mw_holds h P"
  "mw_holds (h\<lparr>mh_settled_contributions := x14\<rparr>) P = mw_holds h P"
  "mw_holds (h\<lparr>mh_showdown_progress := x15\<rparr>) P = mw_holds h P"
  "mw_holds (h\<lparr>mh_mucked_hands := x16\<rparr>) P = mw_holds h P"
  "mw_holds (h\<lparr>mh_always_show := x17\<rparr>) P = mw_holds h P"
  "mw_holds (h\<lparr>mh_paced_showdown := x18\<rparr>) P = mw_holds h P"
  "mw_holds (h\<lparr>mh_showdown_evaluations := x19\<rparr>) P = mw_holds h P"
  "mw_holds (h\<lparr>mh_initial_total := x20\<rparr>) P = mw_holds h P"
  "mw_holds (h\<lparr>mh_deck := x21\<rparr>) P = mw_holds h P"
  by (simp_all add: fun_eq_iff mw_holds_def)

lemma occupied_states_frame [simp]:
  "occupied_states (h\<lparr>mh_phase := x0\<rparr>) = occupied_states h"
  "occupied_states (h\<lparr>mh_board := x1\<rparr>) = occupied_states h"
  "occupied_states (h\<lparr>mh_button := x2\<rparr>) = occupied_states h"
  "occupied_states (h\<lparr>mh_small_blind := x3\<rparr>) = occupied_states h"
  "occupied_states (h\<lparr>mh_big_blind := x4\<rparr>) = occupied_states h"
  "occupied_states (h\<lparr>mh_blind_values := x5\<rparr>) = occupied_states h"
  "occupied_states (h\<lparr>mh_to_act := x6\<rparr>) = occupied_states h"
  "occupied_states (h\<lparr>mh_current_wager := x7\<rparr>) = occupied_states h"
  "occupied_states (h\<lparr>mh_last_full_raise_size := x8\<rparr>) = occupied_states h"
  "occupied_states (h\<lparr>mh_action_history := x9\<rparr>) = occupied_states h"
  "occupied_states (h\<lparr>mh_pots := x10\<rparr>) = occupied_states h"
  "occupied_states (h\<lparr>mh_returned_excess := x11\<rparr>) = occupied_states h"
  "occupied_states (h\<lparr>mh_awards := x12\<rparr>) = occupied_states h"
  "occupied_states (h\<lparr>mh_revealed_hands := x13\<rparr>) = occupied_states h"
  "occupied_states (h\<lparr>mh_settled_contributions := x14\<rparr>) = occupied_states h"
  "occupied_states (h\<lparr>mh_showdown_progress := x15\<rparr>) = occupied_states h"
  "occupied_states (h\<lparr>mh_mucked_hands := x16\<rparr>) = occupied_states h"
  "occupied_states (h\<lparr>mh_always_show := x17\<rparr>) = occupied_states h"
  "occupied_states (h\<lparr>mh_paced_showdown := x18\<rparr>) = occupied_states h"
  "occupied_states (h\<lparr>mh_showdown_evaluations := x19\<rparr>) = occupied_states h"
  "occupied_states (h\<lparr>mh_initial_total := x20\<rparr>) = occupied_states h"
  "occupied_states (h\<lparr>mh_deck := x21\<rparr>) = occupied_states h"
  by (simp_all add: occupied_states_def)

lemma contribution_snapshot_frame [simp]:
  "contribution_snapshot (h\<lparr>mh_phase := x0\<rparr>) = contribution_snapshot h"
  "contribution_snapshot (h\<lparr>mh_board := x1\<rparr>) = contribution_snapshot h"
  "contribution_snapshot (h\<lparr>mh_button := x2\<rparr>) = contribution_snapshot h"
  "contribution_snapshot (h\<lparr>mh_small_blind := x3\<rparr>) = contribution_snapshot h"
  "contribution_snapshot (h\<lparr>mh_big_blind := x4\<rparr>) = contribution_snapshot h"
  "contribution_snapshot (h\<lparr>mh_blind_values := x5\<rparr>) = contribution_snapshot h"
  "contribution_snapshot (h\<lparr>mh_to_act := x6\<rparr>) = contribution_snapshot h"
  "contribution_snapshot (h\<lparr>mh_current_wager := x7\<rparr>) = contribution_snapshot h"
  "contribution_snapshot (h\<lparr>mh_last_full_raise_size := x8\<rparr>) = contribution_snapshot h"
  "contribution_snapshot (h\<lparr>mh_action_history := x9\<rparr>) = contribution_snapshot h"
  "contribution_snapshot (h\<lparr>mh_pots := x10\<rparr>) = contribution_snapshot h"
  "contribution_snapshot (h\<lparr>mh_returned_excess := x11\<rparr>) = contribution_snapshot h"
  "contribution_snapshot (h\<lparr>mh_awards := x12\<rparr>) = contribution_snapshot h"
  "contribution_snapshot (h\<lparr>mh_revealed_hands := x13\<rparr>) = contribution_snapshot h"
  "contribution_snapshot (h\<lparr>mh_settled_contributions := x14\<rparr>) = contribution_snapshot h"
  "contribution_snapshot (h\<lparr>mh_showdown_progress := x15\<rparr>) = contribution_snapshot h"
  "contribution_snapshot (h\<lparr>mh_mucked_hands := x16\<rparr>) = contribution_snapshot h"
  "contribution_snapshot (h\<lparr>mh_always_show := x17\<rparr>) = contribution_snapshot h"
  "contribution_snapshot (h\<lparr>mh_paced_showdown := x18\<rparr>) = contribution_snapshot h"
  "contribution_snapshot (h\<lparr>mh_showdown_evaluations := x19\<rparr>) = contribution_snapshot h"
  "contribution_snapshot (h\<lparr>mh_initial_total := x20\<rparr>) = contribution_snapshot h"
  "contribution_snapshot (h\<lparr>mh_deck := x21\<rparr>) = contribution_snapshot h"
  by (simp_all add: contribution_snapshot_def)

lemma pot_eligible_count_frame [simp]:
  "pot_eligible_count (h\<lparr>mh_phase := x0\<rparr>) = pot_eligible_count h"
  "pot_eligible_count (h\<lparr>mh_board := x1\<rparr>) = pot_eligible_count h"
  "pot_eligible_count (h\<lparr>mh_button := x2\<rparr>) = pot_eligible_count h"
  "pot_eligible_count (h\<lparr>mh_small_blind := x3\<rparr>) = pot_eligible_count h"
  "pot_eligible_count (h\<lparr>mh_big_blind := x4\<rparr>) = pot_eligible_count h"
  "pot_eligible_count (h\<lparr>mh_blind_values := x5\<rparr>) = pot_eligible_count h"
  "pot_eligible_count (h\<lparr>mh_to_act := x6\<rparr>) = pot_eligible_count h"
  "pot_eligible_count (h\<lparr>mh_current_wager := x7\<rparr>) = pot_eligible_count h"
  "pot_eligible_count (h\<lparr>mh_last_full_raise_size := x8\<rparr>) = pot_eligible_count h"
  "pot_eligible_count (h\<lparr>mh_action_history := x9\<rparr>) = pot_eligible_count h"
  "pot_eligible_count (h\<lparr>mh_pots := x10\<rparr>) = pot_eligible_count h"
  "pot_eligible_count (h\<lparr>mh_returned_excess := x11\<rparr>) = pot_eligible_count h"
  "pot_eligible_count (h\<lparr>mh_awards := x12\<rparr>) = pot_eligible_count h"
  "pot_eligible_count (h\<lparr>mh_revealed_hands := x13\<rparr>) = pot_eligible_count h"
  "pot_eligible_count (h\<lparr>mh_settled_contributions := x14\<rparr>) = pot_eligible_count h"
  "pot_eligible_count (h\<lparr>mh_showdown_progress := x15\<rparr>) = pot_eligible_count h"
  "pot_eligible_count (h\<lparr>mh_mucked_hands := x16\<rparr>) = pot_eligible_count h"
  "pot_eligible_count (h\<lparr>mh_always_show := x17\<rparr>) = pot_eligible_count h"
  "pot_eligible_count (h\<lparr>mh_paced_showdown := x18\<rparr>) = pot_eligible_count h"
  "pot_eligible_count (h\<lparr>mh_showdown_evaluations := x19\<rparr>) = pot_eligible_count h"
  "pot_eligible_count (h\<lparr>mh_initial_total := x20\<rparr>) = pot_eligible_count h"
  "pot_eligible_count (h\<lparr>mh_deck := x21\<rparr>) = pot_eligible_count h"
  by (simp_all add: pot_eligible_count_def)


definition mw_shape :: "multiway_hand \<Rightarrow> bool" where
  "mw_shape h \<longleftrightarrow> length (mh_seats h) = mh_table_size h \<and> valid_size (mh_table_size h)"

lemma mw_seat_bound: "mw_seat h s = Some st \<Longrightarrow> s < length (mh_seats h)"
  by (simp add: mw_seat_def split: if_splits)

lemma seat_mut_Some: "mw_seat h s = Some st \<Longrightarrow> seat_mut h s f = Some (mw_set_seat h s (f st))"
  by (simp add: seat_mut_def)

lemma seat_mut_SomeD:
  "seat_mut h s f = Some h' \<Longrightarrow> \<exists>st. mw_seat h s = Some st \<and> h' = mw_set_seat h s (f st)"
  by (auto simp: seat_mut_def)

subsection \<open>All seats at once\<close>

definition map_seats ::
  "(seat_id \<Rightarrow> multiway_seat_state \<Rightarrow> multiway_seat_state) \<Rightarrow> multiway_hand \<Rightarrow> multiway_hand" where
  "map_seats F h = h\<lparr>mh_seats := map (\<lambda>s. map_option (F s) (mh_seats h ! s)) [0..<length (mh_seats h)]\<rparr>"

lemma mw_seat_map_seats [simp]: "mw_seat (map_seats F h) s = map_option (F s) (mw_seat h s)"
  by (simp add: mw_seat_def map_seats_def)

lemma map_seats_length [simp]: "length (mh_seats (map_seats F h)) = length (mh_seats h)"
  by (simp add: map_seats_def)

lemma map_seats_id: "(\<And>s st. mw_seat h s = Some st \<Longrightarrow> F s st = st) \<Longrightarrow> map_seats F h = h"
proof -
  assume id: "\<And>s st. mw_seat h s = Some st \<Longrightarrow> F s st = st"
  have "map_option (F s) (mh_seats h ! s) = mh_seats h ! s" if "s < length (mh_seats h)" for s
    using id [of s] that by (cases "mh_seats h ! s") (auto simp: mw_seat_def)
  then have "map (\<lambda>s. map_option (F s) (mh_seats h ! s)) [0..<length (mh_seats h)] = mh_seats h"
    by (intro nth_equalityI) auto
  then show ?thesis by (simp add: map_seats_def)
qed

lemma map_seats_comp: "map_seats F (map_seats G h) = map_seats (\<lambda>s st. F s (G s st)) h"
  by (simp add: map_seats_def option.map_comp comp_def)

lemma map_seats_cong:
  assumes "\<And>s st. mw_seat h s = Some st \<Longrightarrow> F s st = G s st"
  shows "map_seats F h = map_seats G h"
proof -
  have "map_option (F s) (mh_seats h ! s) = map_option (G s) (mh_seats h ! s)"
    if "s < length (mh_seats h)" for s
    using assms [of s] that by (cases "mh_seats h ! s") (auto simp: mw_seat_def)
  then show ?thesis by (simp add: map_seats_def)
qed

lemma set_seat_as_map:
  assumes "mw_seat h s = Some st"
  shows "mw_set_seat h s (f st) = map_seats (\<lambda>t. if t = s then f else (\<lambda>x. x)) h"
proof -
  have "(mh_seats h)[s := Some (f st)] = map (\<lambda>t. map_option (if t = s then f else (\<lambda>x. x)) (mh_seats h ! t))
      [0..<length (mh_seats h)]"
    using assms by (intro nth_equalityI)
      (auto simp: nth_list_update mw_seat_def option.map_ident split: if_splits)
  then show ?thesis by (simp add: mw_set_seat_def map_seats_def)
qed

lemma seat_mut_as_map:
  "mw_seat h s \<noteq> None \<Longrightarrow> seat_mut h s f = Some (map_seats (\<lambda>t. if t = s then f else (\<lambda>x. x)) h)"
  by (auto simp: seat_mut_def set_seat_as_map)

lemma map_seats_fields [simp]:
  "mh_phase (map_seats F h) = mh_phase h"
  "mh_board (map_seats F h) = mh_board h"
  "mh_button (map_seats F h) = mh_button h"
  "mh_small_blind (map_seats F h) = mh_small_blind h"
  "mh_big_blind (map_seats F h) = mh_big_blind h"
  "mh_blind_values (map_seats F h) = mh_blind_values h"
  "mh_to_act (map_seats F h) = mh_to_act h"
  "mh_current_wager (map_seats F h) = mh_current_wager h"
  "mh_last_full_raise_size (map_seats F h) = mh_last_full_raise_size h"
  "mh_action_history (map_seats F h) = mh_action_history h"
  "mh_pots (map_seats F h) = mh_pots h"
  "mh_returned_excess (map_seats F h) = mh_returned_excess h"
  "mh_awards (map_seats F h) = mh_awards h"
  "mh_revealed_hands (map_seats F h) = mh_revealed_hands h"
  "mh_settled_contributions (map_seats F h) = mh_settled_contributions h"
  "mh_showdown_progress (map_seats F h) = mh_showdown_progress h"
  "mh_mucked_hands (map_seats F h) = mh_mucked_hands h"
  "mh_always_show (map_seats F h) = mh_always_show h"
  "mh_paced_showdown (map_seats F h) = mh_paced_showdown h"
  "mh_showdown_evaluations (map_seats F h) = mh_showdown_evaluations h"
  "mh_initial_total (map_seats F h) = mh_initial_total h"
  "mh_deck (map_seats F h) = mh_deck h"
  "mh_table_size (map_seats F h) = mh_table_size h"
  by (simp_all add: map_seats_def)

lemma map_seats_frame:
  "map_seats F (h\<lparr>mh_phase := x0\<rparr>) = (map_seats F h)\<lparr>mh_phase := x0\<rparr>"
  "map_seats F (h\<lparr>mh_board := x1\<rparr>) = (map_seats F h)\<lparr>mh_board := x1\<rparr>"
  "map_seats F (h\<lparr>mh_button := x2\<rparr>) = (map_seats F h)\<lparr>mh_button := x2\<rparr>"
  "map_seats F (h\<lparr>mh_small_blind := x3\<rparr>) = (map_seats F h)\<lparr>mh_small_blind := x3\<rparr>"
  "map_seats F (h\<lparr>mh_big_blind := x4\<rparr>) = (map_seats F h)\<lparr>mh_big_blind := x4\<rparr>"
  "map_seats F (h\<lparr>mh_blind_values := x5\<rparr>) = (map_seats F h)\<lparr>mh_blind_values := x5\<rparr>"
  "map_seats F (h\<lparr>mh_to_act := x6\<rparr>) = (map_seats F h)\<lparr>mh_to_act := x6\<rparr>"
  "map_seats F (h\<lparr>mh_current_wager := x7\<rparr>) = (map_seats F h)\<lparr>mh_current_wager := x7\<rparr>"
  "map_seats F (h\<lparr>mh_last_full_raise_size := x8\<rparr>) = (map_seats F h)\<lparr>mh_last_full_raise_size := x8\<rparr>"
  "map_seats F (h\<lparr>mh_action_history := x9\<rparr>) = (map_seats F h)\<lparr>mh_action_history := x9\<rparr>"
  "map_seats F (h\<lparr>mh_pots := x10\<rparr>) = (map_seats F h)\<lparr>mh_pots := x10\<rparr>"
  "map_seats F (h\<lparr>mh_returned_excess := x11\<rparr>) = (map_seats F h)\<lparr>mh_returned_excess := x11\<rparr>"
  "map_seats F (h\<lparr>mh_awards := x12\<rparr>) = (map_seats F h)\<lparr>mh_awards := x12\<rparr>"
  "map_seats F (h\<lparr>mh_revealed_hands := x13\<rparr>) = (map_seats F h)\<lparr>mh_revealed_hands := x13\<rparr>"
  "map_seats F (h\<lparr>mh_settled_contributions := x14\<rparr>) = (map_seats F h)\<lparr>mh_settled_contributions := x14\<rparr>"
  "map_seats F (h\<lparr>mh_showdown_progress := x15\<rparr>) = (map_seats F h)\<lparr>mh_showdown_progress := x15\<rparr>"
  "map_seats F (h\<lparr>mh_mucked_hands := x16\<rparr>) = (map_seats F h)\<lparr>mh_mucked_hands := x16\<rparr>"
  "map_seats F (h\<lparr>mh_always_show := x17\<rparr>) = (map_seats F h)\<lparr>mh_always_show := x17\<rparr>"
  "map_seats F (h\<lparr>mh_paced_showdown := x18\<rparr>) = (map_seats F h)\<lparr>mh_paced_showdown := x18\<rparr>"
  "map_seats F (h\<lparr>mh_showdown_evaluations := x19\<rparr>) = (map_seats F h)\<lparr>mh_showdown_evaluations := x19\<rparr>"
  "map_seats F (h\<lparr>mh_initial_total := x20\<rparr>) = (map_seats F h)\<lparr>mh_initial_total := x20\<rparr>"
  "map_seats F (h\<lparr>mh_deck := x21\<rparr>) = (map_seats F h)\<lparr>mh_deck := x21\<rparr>"
  by (simp_all add: map_seats_def)

lemma mw_shape_map_seats [simp]: "mw_shape (map_seats F h) \<longleftrightarrow> mw_shape h"
  by (simp add: mw_shape_def)

lemma mw_shape_frame [simp]:
  "mw_shape (h\<lparr>mh_phase := x0\<rparr>) \<longleftrightarrow> mw_shape h"
  "mw_shape (h\<lparr>mh_board := x1\<rparr>) \<longleftrightarrow> mw_shape h"
  "mw_shape (h\<lparr>mh_button := x2\<rparr>) \<longleftrightarrow> mw_shape h"
  "mw_shape (h\<lparr>mh_small_blind := x3\<rparr>) \<longleftrightarrow> mw_shape h"
  "mw_shape (h\<lparr>mh_big_blind := x4\<rparr>) \<longleftrightarrow> mw_shape h"
  "mw_shape (h\<lparr>mh_blind_values := x5\<rparr>) \<longleftrightarrow> mw_shape h"
  "mw_shape (h\<lparr>mh_to_act := x6\<rparr>) \<longleftrightarrow> mw_shape h"
  "mw_shape (h\<lparr>mh_current_wager := x7\<rparr>) \<longleftrightarrow> mw_shape h"
  "mw_shape (h\<lparr>mh_last_full_raise_size := x8\<rparr>) \<longleftrightarrow> mw_shape h"
  "mw_shape (h\<lparr>mh_action_history := x9\<rparr>) \<longleftrightarrow> mw_shape h"
  "mw_shape (h\<lparr>mh_pots := x10\<rparr>) \<longleftrightarrow> mw_shape h"
  "mw_shape (h\<lparr>mh_returned_excess := x11\<rparr>) \<longleftrightarrow> mw_shape h"
  "mw_shape (h\<lparr>mh_awards := x12\<rparr>) \<longleftrightarrow> mw_shape h"
  "mw_shape (h\<lparr>mh_revealed_hands := x13\<rparr>) \<longleftrightarrow> mw_shape h"
  "mw_shape (h\<lparr>mh_settled_contributions := x14\<rparr>) \<longleftrightarrow> mw_shape h"
  "mw_shape (h\<lparr>mh_showdown_progress := x15\<rparr>) \<longleftrightarrow> mw_shape h"
  "mw_shape (h\<lparr>mh_mucked_hands := x16\<rparr>) \<longleftrightarrow> mw_shape h"
  "mw_shape (h\<lparr>mh_always_show := x17\<rparr>) \<longleftrightarrow> mw_shape h"
  "mw_shape (h\<lparr>mh_paced_showdown := x18\<rparr>) \<longleftrightarrow> mw_shape h"
  "mw_shape (h\<lparr>mh_showdown_evaluations := x19\<rparr>) \<longleftrightarrow> mw_shape h"
  "mw_shape (h\<lparr>mh_initial_total := x20\<rparr>) \<longleftrightarrow> mw_shape h"
  "mw_shape (h\<lparr>mh_deck := x21\<rparr>) \<longleftrightarrow> mw_shape h"
  by (simp_all add: mw_shape_def)

lemma set_seat_shape [simp]: "mw_shape (mw_set_seat h s st) \<longleftrightarrow> mw_shape h"
  by (simp add: mw_shape_def mw_set_seat_def)

lemma occupied_map_seats [simp]: "occupied_seats (map_seats F h) = occupied_seats h"
  by (simp add: occupied_seats_def)

lemma set_occupied_seats: "mw_shape h \<Longrightarrow> set (occupied_seats h) = {s. mw_seat h s \<noteq> None}"
  by (auto simp: occupied_seats_def table_size_seats_def mw_shape_def dest: mw_seat_bound)

lemma occupied_seatsI: "mw_shape h \<Longrightarrow> mw_seat h s = Some st \<Longrightarrow> s \<in> set (occupied_seats h)"
  by (simp add: set_occupied_seats)

lemma occupied_seatsD: "s \<in> set (occupied_seats h) \<Longrightarrow> \<exists>st. mw_seat h s = Some st"
  by (auto simp: occupied_seats_def)

lemma distinct_occupied [simp]: "distinct (occupied_seats h)"
  by (simp add: occupied_seats_def table_size_seats_def)

lemma sorted_occupied [simp]: "sorted_wrt (<) (occupied_seats h)"
  by (simp add: occupied_seats_def table_size_seats_def sorted_wrt_filter)

lemma occupied_states_map: "occupied_states h = map (\<lambda>s. the (mw_seat h s)) (occupied_seats h)"
proof -
  have "filter (\<lambda>s. mw_seat h s \<noteq> None) (occupied_seats h) = occupied_seats h"
    by (simp add: occupied_seats_def)
  then show ?thesis
    by (simp add: occupied_states_def List.map_filter_def)
qed

lemma set_occupied_states: "mw_shape h \<Longrightarrow> set (occupied_states h) = {st. \<exists>s. mw_seat h s = Some st}"
  by (force simp: occupied_states_map set_occupied_seats)

lemma contribution_snapshot_map: "contribution_snapshot h =
    map (\<lambda>s. let st = the (mw_seat h s) in
      \<lparr>ct_seat = s, ct_amount = ms_hand_contribution st, ct_eligible = eligible_for_pot st\<rparr>)
    (occupied_seats h)"
proof -
  have "filter (\<lambda>s. mw_seat h s \<noteq> None) (occupied_seats h) = occupied_seats h"
    by (simp add: occupied_seats_def)
  then show ?thesis
    by (auto simp: contribution_snapshot_def List.map_filter_def Let_def dest!: occupied_seatsD)
qed

lemma mw_holds_Some [simp]: "mw_seat h s = Some st \<Longrightarrow> mw_holds h P s = P st"
  by (simp add: mw_holds_def)

lemma mw_holdsD: "mw_holds h P s \<Longrightarrow> \<exists>st. mw_seat h s = Some st \<and> P st"
  by (auto simp: mw_holds_def split: option.splits)

lemma mw_holds_iff: "mw_holds h P s \<longleftrightarrow> (\<exists>st. mw_seat h s = Some st \<and> P st)"
  by (auto simp: mw_holds_def split: option.splits)

text \<open>The loop of \<open>update_occupied\<close> over distinct seats.\<close>

lemma for_m_seat_mut:
  "distinct ss \<Longrightarrow> \<forall>s\<in>set ss. mw_seat h s \<noteq> None \<Longrightarrow>
   for_m (\<lambda>s h'. seat_mut h' s f) ss h = Some (map_seats (\<lambda>t. if t \<in> set ss then f else (\<lambda>x. x)) h)"
proof (induction ss arbitrary: h)
  case Nil
  then show ?case by (simp add: map_seats_id)
next
  case (Cons s ss)
  then have step: "seat_mut h s f = Some (map_seats (\<lambda>t. if t = s then f else (\<lambda>x. x)) h)"
    by (simp add: seat_mut_as_map)
  have "map_seats (\<lambda>t st. (if t \<in> set ss then f else (\<lambda>x. x)) ((if t = s then f else (\<lambda>x. x)) st)) h
      = map_seats (\<lambda>t. if t \<in> set (s # ss) then f else (\<lambda>x. x)) h"
    using Cons.prems(1) by (intro map_seats_cong) auto
  then show ?case
    using Cons by (simp add: step map_seats_comp)
qed

lemma update_occupied_map:
  assumes "mw_shape h"
  shows "update_occupied f h = Some (map_seats (\<lambda>_. f) h)"
proof -
  have "update_occupied f h
      = Some (map_seats (\<lambda>t. if t \<in> set (occupied_seats h) then f else (\<lambda>x. x)) h)"
    unfolding update_occupied_def by (rule for_m_seat_mut) (auto dest: occupied_seatsD)
  also have "map_seats (\<lambda>t. if t \<in> set (occupied_seats h) then f else (\<lambda>x. x)) h = map_seats (\<lambda>_. f) h"
    using assms by (intro map_seats_cong) (auto simp: occupied_seatsI)
  finally show ?thesis .
qed

subsection \<open>Sums over the seats\<close>

definition seat_total :: "(multiway_seat_state \<Rightarrow> nat) \<Rightarrow> multiway_hand \<Rightarrow> nat" where
  "seat_total g h = sum_list (map g (occupied_states h))"

lemma seat_total_sum: "seat_total g h = (\<Sum>s\<in>set (occupied_seats h). g (the (mw_seat h s)))"
  by (simp add: seat_total_def occupied_states_map sum_list_distinct_conv_sum_set comp_def)

lemma seat_total_frame [simp]:
  "seat_total g (h\<lparr>mh_phase := x0\<rparr>) = seat_total g h"
  "seat_total g (h\<lparr>mh_board := x1\<rparr>) = seat_total g h"
  "seat_total g (h\<lparr>mh_button := x2\<rparr>) = seat_total g h"
  "seat_total g (h\<lparr>mh_small_blind := x3\<rparr>) = seat_total g h"
  "seat_total g (h\<lparr>mh_big_blind := x4\<rparr>) = seat_total g h"
  "seat_total g (h\<lparr>mh_blind_values := x5\<rparr>) = seat_total g h"
  "seat_total g (h\<lparr>mh_to_act := x6\<rparr>) = seat_total g h"
  "seat_total g (h\<lparr>mh_current_wager := x7\<rparr>) = seat_total g h"
  "seat_total g (h\<lparr>mh_last_full_raise_size := x8\<rparr>) = seat_total g h"
  "seat_total g (h\<lparr>mh_action_history := x9\<rparr>) = seat_total g h"
  "seat_total g (h\<lparr>mh_pots := x10\<rparr>) = seat_total g h"
  "seat_total g (h\<lparr>mh_returned_excess := x11\<rparr>) = seat_total g h"
  "seat_total g (h\<lparr>mh_awards := x12\<rparr>) = seat_total g h"
  "seat_total g (h\<lparr>mh_revealed_hands := x13\<rparr>) = seat_total g h"
  "seat_total g (h\<lparr>mh_settled_contributions := x14\<rparr>) = seat_total g h"
  "seat_total g (h\<lparr>mh_showdown_progress := x15\<rparr>) = seat_total g h"
  "seat_total g (h\<lparr>mh_mucked_hands := x16\<rparr>) = seat_total g h"
  "seat_total g (h\<lparr>mh_always_show := x17\<rparr>) = seat_total g h"
  "seat_total g (h\<lparr>mh_paced_showdown := x18\<rparr>) = seat_total g h"
  "seat_total g (h\<lparr>mh_showdown_evaluations := x19\<rparr>) = seat_total g h"
  "seat_total g (h\<lparr>mh_initial_total := x20\<rparr>) = seat_total g h"
  "seat_total g (h\<lparr>mh_deck := x21\<rparr>) = seat_total g h"
  by (simp_all add: seat_total_def)

lemma seat_total_map_seats:
  "seat_total g (map_seats F h) = (\<Sum>s\<in>set (occupied_seats h). g (F s (the (mw_seat h s))))"
  unfolding seat_total_sum occupied_map_seats
  by (intro sum.cong) (auto dest: occupied_seatsD)

lemma seat_total_map_eq:
  "(\<And>s st. mw_seat h s = Some st \<Longrightarrow> g (F s st) = g' st) \<Longrightarrow> seat_total g (map_seats F h) = seat_total g' h"
  unfolding seat_total_map_seats seat_total_sum
  by (intro sum.cong) (auto dest: occupied_seatsD)

lemma seat_total_add: "seat_total g h + seat_total g' h = seat_total (\<lambda>st. g st + g' st) h"
  by (simp add: seat_total_sum sum.distrib)

lemma seat_total_cong:
  "(\<And>s st. mw_seat h s = Some st \<Longrightarrow> g st = g' st) \<Longrightarrow> seat_total g h = seat_total g' h"
  unfolding seat_total_sum by (intro sum.cong) (auto dest: occupied_seatsD)

lemma seat_total_ge: "mw_shape h \<Longrightarrow> mw_seat h s = Some st \<Longrightarrow> g st \<le> seat_total g h"
  unfolding seat_total_sum
  using member_le_sum [of s "set (occupied_seats h)" "\<lambda>s. g (the (mw_seat h s))"]
  by (simp add: occupied_seatsI)

lemma seat_total_set_seat:
  assumes "mw_shape h" "mw_seat h s = Some st"
  shows "seat_total g (mw_set_seat h s st') + g st = seat_total g h + g st'"
proof -
  define F where "F = (\<lambda>t. if t = s then (\<lambda>_. st') else (\<lambda>x. x))"
  have eq: "mw_set_seat h s st' = map_seats F h"
    unfolding F_def using set_seat_as_map [OF assms(2), of "\<lambda>_. st'"] .
  let ?O = "set (occupied_seats h)"
  have s: "s \<in> ?O" using assms by (rule occupied_seatsI)
  have "seat_total g (map_seats F h) = g st' + (\<Sum>t\<in>?O - {s}. g (F t (the (mw_seat h t))))"
    unfolding seat_total_map_seats using s by (simp add: sum.remove [of ?O s] F_def)
  also have "(\<Sum>t\<in>?O - {s}. g (F t (the (mw_seat h t)))) = (\<Sum>t\<in>?O - {s}. g (the (mw_seat h t)))"
    by (intro sum.cong) (auto simp: F_def)
  finally have "seat_total g (map_seats F h) = g st' + (\<Sum>t\<in>?O - {s}. g (the (mw_seat h t)))" .
  moreover have "seat_total g h = g st + (\<Sum>t\<in>?O - {s}. g (the (mw_seat h t)))"
    unfolding seat_total_sum using s assms(2) by (simp add: sum.remove [of ?O s])
  ultimately show ?thesis by (simp add: eq)
qed

lemma snapshot_total: "sum_list (map ct_amount (contribution_snapshot h)) = seat_total ms_hand_contribution h"
  by (simp add: contribution_snapshot_map seat_total_def occupied_states_map comp_def Let_def)

lemma total_chips_exact:
  "seat_total ms_stack h + seat_total ms_hand_contribution h < u32_bound \<Longrightarrow>
   total_chips h = seat_total ms_stack h + seat_total ms_hand_contribution h"
  by (simp add: total_chips_def seat_total_def u32_simps)

subsection \<open>Payments\<close>

definition paid_to :: "(seat_id \<times> u32) list \<Rightarrow> seat_id \<Rightarrow> nat" where
  "paid_to xs s = sum_list (map snd (filter (\<lambda>x. fst x = s) xs))"

definition pay_out :: "(seat_id \<times> u32) list \<Rightarrow> multiway_hand \<Rightarrow> multiway_hand" where
  "pay_out xs = map_seats (\<lambda>s st. st\<lparr>ms_stack := ms_stack st + paid_to xs s\<rparr>)"

lemma sum_paid_to:
  assumes "finite S" "fst ` set xs \<subseteq> S"
  shows "(\<Sum>s\<in>S. paid_to xs s) = sum_list (map snd xs)"
  using assms(2)
proof (induction xs)
  case (Cons x xs)
  have "(\<Sum>s\<in>S. paid_to (x # xs) s) = (\<Sum>s\<in>S. (if s = fst x then snd x else 0) + paid_to xs s)"
    by (intro sum.cong) (auto simp: paid_to_def)
  also have "\<dots> = snd x + (\<Sum>s\<in>S. paid_to xs s)"
    using Cons.prems assms(1) by (simp add: sum.distrib sum.delta')
  finally show ?case using Cons by simp
qed (simp add: paid_to_def)

lemma seat_total_pay_out:
  assumes "fst ` set xs \<subseteq> set (occupied_seats h)"
  shows "seat_total ms_stack (pay_out xs h) = seat_total ms_stack h + sum_list (map snd xs)"
  unfolding pay_out_def seat_total_map_seats
  by (simp add: sum.distrib sum_paid_to assms seat_total_sum)

lemma for_m_pay:
  assumes "\<forall>x\<in>set xs. fst x \<in> set (occupied_seats h)" "mw_shape h"
    and "seat_total ms_stack h + sum_list (map snd xs) < u32_bound"
  shows "for_m (\<lambda>x. pay_seat (fst x) (snd x)) xs h = Some (pay_out xs h)"
  using assms
proof (induction xs arbitrary: h)
  case Nil
  then show ?case by (simp add: pay_out_def paid_to_def map_seats_id)
next
  case (Cons x xs)
  obtain st where st: "mw_seat h (fst x) = Some st"
    using Cons.prems(1) occupied_seatsD by (metis list.set_intros(1))
  have "ms_stack st \<le> seat_total ms_stack h"
    using Cons.prems(2) st by (rule seat_total_ge)
  then have fits: "ms_stack st + snd x < u32_bound"
    using Cons.prems(3) by simp
  define h1 where "h1 = pay_out [x] h"
  have "pay_seat (fst x) (snd x) h
      = Some (map_seats (\<lambda>t. if t = fst x then (\<lambda>st. st\<lparr>ms_stack := u32_add (ms_stack st) (snd x)\<rparr>) else (\<lambda>x. x)) h)"
    unfolding pay_seat_def using st by (simp add: seat_mut_as_map)
  also have "\<dots> = Some h1"
    unfolding h1_def pay_out_def using st fits
    by (intro arg_cong [of _ _ Some] map_seats_cong) (auto simp: paid_to_def u32_simps)
  finally have step: "pay_seat (fst x) (snd x) h = Some h1" .
  have "seat_total ms_stack h1 = seat_total ms_stack h + snd x"
    unfolding h1_def using seat_total_pay_out [of "[x]" h] Cons.prems(1) by simp
  moreover have "occupied_seats h1 = occupied_seats h" "mw_shape h1"
    using Cons.prems(2) by (simp_all add: h1_def pay_out_def)
  ultimately have "for_m (\<lambda>x. pay_seat (fst x) (snd x)) xs h1 = Some (pay_out xs h1)"
    using Cons.IH [of h1] Cons.prems by simp
  moreover have "pay_out xs h1 = pay_out (x # xs) h"
    unfolding h1_def pay_out_def map_seats_comp
    by (intro map_seats_cong) (auto simp: paid_to_def)
  ultimately show ?case by (simp add: step)
qed

end
