(* ===== verification/Showdown_Facts.thy ===== *)
theory Showdown_Facts
  imports Multiway_Views
begin

text \<open>
  The showdown does not panic and pays what it should: the evaluations of the eligible seats, the
  muck rule, the award of every pot, and the settled state, under the condition that some
  eligible seat has contributed as much as anybody (\<open>top_contributor\<close>).
\<close>

subsection \<open>Who is in, and with what\<close>

definition eligible_seats :: "multiway_hand \<Rightarrow> seat_id list" where
  "eligible_seats h = filter (mw_holds h eligible_for_pot) (occupied_seats h)"

lemma pot_eligible_count_length: "pot_eligible_count h = length (eligible_seats h)"
  by (simp add: pot_eligible_count_def eligible_seats_def)

lemma set_eligible_seats:
  "mw_shape h \<Longrightarrow> set (eligible_seats h) = {s. \<exists>st. mw_seat h s = Some st \<and> eligible_for_pot st}"
  by (auto simp: eligible_seats_def set_occupied_seats mw_holds_iff)

lemma distinct_eligible_seats [simp]: "distinct (eligible_seats h)"
  by (simp add: eligible_seats_def)

lemma sorted_eligible_seats [simp]: "sorted_wrt (<) (eligible_seats h)"
  by (simp add: eligible_seats_def sorted_wrt_filter)

lemma eligible_occupied: "s \<in> set (eligible_seats h) \<Longrightarrow> s \<in> set (occupied_seats h)"
  by (simp add: eligible_seats_def)

definition hand_of :: "multiway_hand \<Rightarrow> seat_id \<Rightarrow> hand_evaluation" where
  "hand_of h s = the (evaluate_hand (ms_hole_cards (the (mw_seat h s))) (mh_board h))"

definition seat_evaluations :: "multiway_hand \<Rightarrow> (seat_id, hand_evaluation) btree" where
  "seat_evaluations h = map (\<lambda>s. (s, hand_of h s)) (eligible_seats h)"

definition hand_pots :: "multiway_hand \<Rightarrow> pot list" where
  "hand_pots h = pb_pots (build_pots (contribution_snapshot h))"

definition top_contributor :: "multiway_hand \<Rightarrow> bool" where
  "top_contributor h \<longleftrightarrow> (\<exists>st\<in>set (occupied_states h). eligible_for_pot st \<and>
     (\<forall>st'\<in>set (occupied_states h). ms_hand_contribution st' \<le> ms_hand_contribution st))"

definition chips_bounded :: "multiway_hand \<Rightarrow> bool" where
  "chips_bounded h \<longleftrightarrow> mw_shape h \<and>
     seat_total ms_stack h + seat_total ms_hand_contribution h < u32_bound"

lemma seat_evaluations_get:
  "bt_get (seat_evaluations h) s = (if s \<in> set (eligible_seats h) then Some (hand_of h s) else None)"
  by (simp add: bt_get_def seat_evaluations_def map_of_map_restrict restrict_map_def)

lemma evaluate_showdown_once_evals:
  assumes "mh_showdown_evaluations h = []"
  shows "evaluate_showdown_once h = Some (h\<lparr>mh_showdown_evaluations := seat_evaluations h\<rparr>)"
proof -
  have "(do { st \<leftarrow> mw_seat h s; e \<leftarrow> evaluate_hand (ms_hole_cards st) (mh_board h); Some (s, e) })
      = Some (s, hand_of h s)" if el: "s \<in> set (eligible_seats h)" for s
  proof -
    obtain st where "mw_seat h s = Some st"
      using occupied_seatsD [OF eligible_occupied [OF el]] by blast
    moreover obtain e where "evaluate_hand (ms_hole_cards st) (mh_board h) = Some e"
      using evaluate_hand_returns by blast
    ultimately show ?thesis by (simp add: hand_of_def)
  qed
  then show ?thesis
    by (simp add: evaluate_showdown_once_def assms eligible_seats_def [symmetric]
        map_m_total [of _ _ "\<lambda>s. (s, hand_of h s)"] seat_evaluations_def)
qed

subsection \<open>The pots of a hand\<close>

lemma snapshot_seats: "map ct_seat (contribution_snapshot h) = occupied_seats h"
  by (simp add: contribution_snapshot_map comp_def Let_def)

lemma snapshot_eligible:
  "ct_seat ` {c \<in> set (contribution_snapshot h). ct_eligible c} = set (eligible_seats h)"
  by (force simp: contribution_snapshot_map Let_def eligible_seats_def mw_holds_iff dest: occupied_seatsD)

lemma hand_pots_facts:
  assumes "chips_bounded h" "p \<in> set (hand_pots h)"
  shows "set (pot_eligible p) \<subseteq> set (eligible_seats h)" "distinct (pot_eligible p)"
    and "0 < pot_amount p" and "top_contributor h \<Longrightarrow> pot_eligible p \<noteq> []"
proof -
  have bound: "sum_list (map ct_amount (contribution_snapshot h)) < u32_bound"
    using assms(1) by (simp add: snapshot_total chips_bounded_def)
  note p = assms(2) [unfolded hand_pots_def]
  note facts = build_pots_eligible [OF bound p]
  show "set (pot_eligible p) \<subseteq> set (eligible_seats h)"
    using facts(2) by (simp add: snapshot_eligible)
  show "distinct (pot_eligible p)"
    using facts(3) by (simp add: snapshot_seats)
  show "0 < pot_amount p" by (rule facts(1))
  show "pot_eligible p \<noteq> []" if top: "top_contributor h"
  proof -
    have shape: "mw_shape h" using assms(1) by (simp add: chips_bounded_def)
    obtain s st where s: "mw_seat h s = Some st" "eligible_for_pot st"
      and max: "\<forall>st'\<in>set (occupied_states h). ms_hand_contribution st' \<le> ms_hand_contribution st"
      using top by (auto simp: top_contributor_def set_occupied_states [OF shape])
    define e where "e = \<lparr>ct_seat = s, ct_amount = ms_hand_contribution st, ct_eligible = True\<rparr>"
    have "e \<in> set (contribution_snapshot h)"
      using s occupied_seatsI [OF shape s(1)]
      by (force simp: contribution_snapshot_map Let_def e_def)
    moreover have "\<forall>c\<in>set (contribution_snapshot h). ct_amount c \<le> ct_amount e"
      using max by (auto simp: contribution_snapshot_map e_def Let_def occupied_states_map)
    ultimately have "ct_seat e \<in> set (pot_eligible p)"
      by (intro facts(4)) (simp_all add: e_def)
    then show ?thesis by auto
  qed
qed

lemma hand_pots_conserve:
  assumes "chips_bounded h"
  shows "sum_list (map pot_amount (hand_pots h))
    + sum_list (map re_amount (pb_returned (build_pots (contribution_snapshot h))))
    = seat_total ms_hand_contribution h"
  using build_pots_conserves [of "contribution_snapshot h"] assms
  by (simp add: hand_pots_def snapshot_total chips_bounded_def)

lemma hand_returns_seats:
  assumes "chips_bounded h" "r \<in> set (pb_returned (build_pots (contribution_snapshot h)))"
  shows "re_seat r \<in> set (occupied_seats h)"
proof -
  have "re_seat r \<in> ct_seat ` set (contribution_snapshot h)"
    using assms by (intro build_pots_returned) (simp_all add: snapshot_total chips_bounded_def)
  then show ?thesis by (simp flip: set_map add: snapshot_seats)
qed

subsection \<open>Mucking\<close>

text \<open>
  A seat is beaten when, in every pot it can win, a tabled hand that can win the same pot is
  better than its own.
\<close>

definition is_beaten :: "multiway_hand \<Rightarrow> seat_id \<Rightarrow> bool" where
  "is_beaten h s \<longleftrightarrow> (\<exists>p\<in>set (hand_pots h). s \<in> set (pot_eligible p)) \<and>
     (\<forall>p\<in>set (hand_pots h). s \<in> set (pot_eligible p) \<longrightarrow>
       (\<exists>t\<in>rv_seat ` set (mh_revealed_hands h). t \<in> set (pot_eligible p) \<and>
          compare_hands (hand_of h t) (hand_of h s) = Greater))"

lemma beaten_by_tabled_hands_spec:
  assumes "mh_showdown_evaluations h = seat_evaluations h"
    and "rv_seat ` set (mh_revealed_hands h) \<subseteq> set (eligible_seats h)" "s \<in> set (eligible_seats h)"
  shows "beaten_by_tabled_hands h s = Some (is_beaten h s)"
proof -
  define better where "better = (\<lambda>(p :: pot) (shown :: revealed_hand). rv_seat shown \<in> set (pot_eligible p) \<and>
    compare_hands (hand_of h (rv_seat shown)) (hand_of h s) = Greater)"
  have any: "any_m (\<lambda>shown. if rv_seat shown \<in> set (pot_eligible p)
         then map_option (\<lambda>e. compare_hands e (hand_of h s) = Greater)
           (bt_get (seat_evaluations h) (rv_seat shown))
         else Some False) (mh_revealed_hands h)
      = Some (\<exists>shown\<in>set (mh_revealed_hands h). better p shown)" for p
    using assms(2) by (intro any_m_total) (auto simp: better_def seat_evaluations_get)
  have all: "all_m (\<lambda>p. Some (\<exists>shown\<in>set (mh_revealed_hands h). better p shown)) ps
      = Some (\<forall>p\<in>set ps. \<exists>shown\<in>set (mh_revealed_hands h). better p shown)" for ps
    by (rule all_m_total) simp
  show ?thesis
    unfolding beaten_by_tabled_hands_def assms(1) hand_pots_def [symmetric] Let_def
    using assms(3)
    by (simp add: seat_evaluations_get any all is_beaten_def filter_empty_conv)
      (auto simp: better_def)
qed

text \<open>A mucked hand cannot win: in each of its pots another eligible hand is better.\<close>

definition mucked_lose :: "multiway_hand \<Rightarrow> bool" where
  "mucked_lose h \<longleftrightarrow> (\<forall>s\<in>set (mh_mucked_hands h). \<forall>p\<in>set (hand_pots h). s \<in> set (pot_eligible p) \<longrightarrow>
     (\<exists>t\<in>set (pot_eligible p). compare_hands (hand_of h t) (hand_of h s) = Greater))"

lemma is_beaten_loses: "is_beaten h s \<Longrightarrow> p \<in> set (hand_pots h) \<Longrightarrow> s \<in> set (pot_eligible p) \<Longrightarrow>
    \<exists>t\<in>set (pot_eligible p). compare_hands (hand_of h t) (hand_of h s) = Greater"
  by (auto simp: is_beaten_def)

definition revealed_in :: "multiway_hand \<Rightarrow> bool" where
  "revealed_in h \<longleftrightarrow> rv_seat ` set (mh_revealed_hands h) \<subseteq> set (eligible_seats h)"

lemma hand_views_frame [simp]:
  "eligible_seats (h\<lparr>mh_revealed_hands := r\<rparr>) = eligible_seats h"
  "eligible_seats (h\<lparr>mh_mucked_hands := m\<rparr>) = eligible_seats h"
  "eligible_seats (h\<lparr>mh_showdown_progress := p\<rparr>) = eligible_seats h"
  "eligible_seats (h\<lparr>mh_showdown_evaluations := e\<rparr>) = eligible_seats h"
  "eligible_seats (h\<lparr>mh_settled_contributions := c\<rparr>) = eligible_seats h"
  "eligible_seats (h\<lparr>mh_pots := ps\<rparr>) = eligible_seats h"
  "eligible_seats (h\<lparr>mh_returned_excess := rs\<rparr>) = eligible_seats h"
  "eligible_seats (h\<lparr>mh_awards := aw\<rparr>) = eligible_seats h"
  "eligible_seats (h\<lparr>mh_to_act := ta\<rparr>) = eligible_seats h"
  "eligible_seats (h\<lparr>mh_phase := ph\<rparr>) = eligible_seats h"
  "eligible_seats (h\<lparr>mh_board := bo\<rparr>) = eligible_seats h"
  "eligible_seats (h\<lparr>mh_deck := de\<rparr>) = eligible_seats h"
  "hand_of (h\<lparr>mh_revealed_hands := r\<rparr>) = hand_of h"
  "hand_of (h\<lparr>mh_mucked_hands := m\<rparr>) = hand_of h"
  "hand_of (h\<lparr>mh_showdown_progress := p\<rparr>) = hand_of h"
  "hand_of (h\<lparr>mh_showdown_evaluations := e\<rparr>) = hand_of h"
  "hand_of (h\<lparr>mh_settled_contributions := c\<rparr>) = hand_of h"
  "hand_of (h\<lparr>mh_pots := ps\<rparr>) = hand_of h"
  "hand_of (h\<lparr>mh_returned_excess := rs\<rparr>) = hand_of h"
  "hand_of (h\<lparr>mh_awards := aw\<rparr>) = hand_of h"
  "hand_of (h\<lparr>mh_to_act := ta\<rparr>) = hand_of h"
  "hand_of (h\<lparr>mh_phase := ph\<rparr>) = hand_of h"
  by (simp_all add: eligible_seats_def hand_of_def fun_eq_iff)

lemma hand_views_cong:
  assumes "\<And>s. mw_seat h' s = map_option (\<lambda>st. st\<lparr>ms_stack := f s st\<rparr>) (mw_seat h s)"
    and "occupied_seats h' = occupied_seats h"
  shows "eligible_seats h' = eligible_seats h" "contribution_snapshot h' = contribution_snapshot h"
    and "mh_board h' = mh_board h \<Longrightarrow> s \<in> set (occupied_seats h) \<Longrightarrow> hand_of h' s = hand_of h s"
proof -
  show "eligible_seats h' = eligible_seats h"
    unfolding eligible_seats_def assms(2)
    by (rule filter_cong) (auto simp: mw_holds_def assms(1) eligible_for_pot_def split: option.splits)
  show "contribution_snapshot h' = contribution_snapshot h"
    unfolding contribution_snapshot_map assms(2)
    by (rule map_cong) (auto simp: assms(1) eligible_for_pot_def Let_def dest!: occupied_seatsD)
  show "hand_of h' s = hand_of h s" if "mh_board h' = mh_board h" "s \<in> set (occupied_seats h)"
    using occupied_seatsD [OF that(2)] that(1) by (auto simp: hand_of_def assms(1))
qed

lemma hand_pots_frame [simp]:
  "hand_pots (h\<lparr>mh_revealed_hands := r\<rparr>) = hand_pots h"
  "hand_pots (h\<lparr>mh_mucked_hands := m\<rparr>) = hand_pots h"
  "hand_pots (h\<lparr>mh_showdown_progress := p\<rparr>) = hand_pots h"
  "hand_pots (h\<lparr>mh_showdown_evaluations := e\<rparr>) = hand_pots h"
  by (simp_all add: hand_pots_def)

lemma seat_evaluations_frame [simp]:
  "seat_evaluations (h\<lparr>mh_revealed_hands := r\<rparr>) = seat_evaluations h"
  "seat_evaluations (h\<lparr>mh_mucked_hands := m\<rparr>) = seat_evaluations h"
  "seat_evaluations (h\<lparr>mh_showdown_progress := p\<rparr>) = seat_evaluations h"
  "seat_evaluations (h\<lparr>mh_showdown_evaluations := e\<rparr>) = seat_evaluations h"
  by (simp_all add: seat_evaluations_def)

text \<open>Every reveal or muck changes only the two lists and keeps the condition above.\<close>

definition reveals_of :: "multiway_hand \<Rightarrow> multiway_hand \<Rightarrow> bool" where
  "reveals_of h0 h \<longleftrightarrow>
     h = h0\<lparr>mh_revealed_hands := mh_revealed_hands h, mh_mucked_hands := mh_mucked_hands h\<rparr> \<and>
     revealed_in h \<and> mucked_lose h"

lemma table_cards_reveals:
  assumes "reveals_of h0 h" "s \<in> set (eligible_seats h0)"
  shows "reveals_of h0 (table_cards h s)"
proof -
  obtain r m where h: "h = h0\<lparr>mh_revealed_hands := r, mh_mucked_hands := m\<rparr>"
    using assms(1) unfolding reveals_of_def by blast
  show ?thesis
    using assms by (auto simp: reveals_of_def revealed_in_def mucked_lose_def h table_cards_def)
qed

lemma muck_reveals:
  assumes "reveals_of h0 h" "is_beaten h s"
  shows "reveals_of h0 (h\<lparr>mh_mucked_hands := mh_mucked_hands h @ [s]\<rparr>)"
proof -
  obtain r m where h: "h = h0\<lparr>mh_revealed_hands := r, mh_mucked_hands := m\<rparr>"
    using assms(1) unfolding reveals_of_def by blast
  show ?thesis
    using assms is_beaten_loses [OF assms(2)]
    by (auto simp: reveals_of_def revealed_in_def mucked_lose_def h)
qed

lemma set_show_order: "set (show_order h) = set (eligible_seats h)"
  by (auto simp: show_order_def Let_def eligible_seats_def split: option.splits)

lemma reveals_beaten:
  assumes "mh_showdown_evaluations h0 = seat_evaluations h0" "reveals_of h0 h"
    and "s \<in> set (eligible_seats h0)"
  shows "beaten_by_tabled_hands h s = Some (is_beaten h s)"
proof -
  obtain r m where h: "h = h0\<lparr>mh_revealed_hands := r, mh_mucked_hands := m\<rparr>"
    using assms(2) unfolding reveals_of_def by blast
  show ?thesis
    using assms by (intro beaten_by_tabled_hands_spec) (simp_all add: reveals_of_def revealed_in_def h)
qed

lemma reveal_synchronously_returns:
  assumes "mh_showdown_evaluations h0 = seat_evaluations h0" "revealed_in h0" "mucked_lose h0"
  shows "\<exists>h. reveal_synchronously h0 = Some h \<and> reveals_of h0 h"
  unfolding reveal_synchronously_def Let_def
proof (rule for_m_rule)
  show "reveals_of h0 h0"
    using assms(2,3) by (simp add: reveals_of_def)
next
  fix s h
  assume s: "s \<in> set (show_order h0)" and rev: "reveals_of h0 h"
  have el: "s \<in> set (eligible_seats h0)"
    using s by (simp add: set_show_order)
  have "beaten_by_tabled_hands h s = Some (is_beaten h s)"
    by (rule reveals_beaten [OF assms(1) rev el])
  then show "\<exists>s'. (if list_ex (mw_holds h0 (\<lambda>st. ms_participation st = AllIn)) (occupied_seats h0)
        \<or> s \<in> mh_always_show h then Some (table_cards h s)
      else do {
        beaten \<leftarrow> beaten_by_tabled_hands h s;
        Some (if \<not> beaten then table_cards h s
              else h\<lparr>mh_mucked_hands := mh_mucked_hands h @ [s]\<rparr>) }) = Some s' \<and> reveals_of h0 s'"
    using table_cards_reveals [OF rev el] muck_reveals [OF rev] by auto
qed

subsection \<open>Settling\<close>

definition award_payments :: "pot_award list \<Rightarrow> (seat_id \<times> u32) list" where
  "award_payments as = concat (map (\<lambda>a. map (\<lambda>x. (sp_seat x, sp_amount x)) (pa_payouts a)) as)"

definition return_payments :: "returned_excess list \<Rightarrow> (seat_id \<times> u32) list" where
  "return_payments rs = map (\<lambda>r. (re_seat r, re_amount r)) rs"

lemma for_m_map: "for_m f (map g xs) s = for_m (\<lambda>x. f (g x)) xs s"
  by (induction xs arbitrary: s) (auto split: bind_splits)

lemma paid_to_append: "paid_to (xs @ ys) s = paid_to xs s + paid_to ys s"
  by (simp add: paid_to_def)

lemma pay_out_append: "pay_out ys (pay_out xs h) = pay_out (xs @ ys) h"
  unfolding pay_out_def map_seats_comp
  by (intro map_seats_cong) (simp add: paid_to_append add.assoc)

lemma pay_out_frame [simp]:
  "pay_out xs (h\<lparr>mh_awards := aw\<rparr>) = (pay_out xs h)\<lparr>mh_awards := aw\<rparr>"
  "mh_awards (pay_out xs h) = mh_awards h"
  "occupied_seats (pay_out xs h) = occupied_seats h"
  "mw_shape (pay_out xs h) \<longleftrightarrow> mw_shape h"
  "mh_showdown_evaluations (pay_out xs h) = mh_showdown_evaluations h"
  "mh_revealed_hands (pay_out xs h) = mh_revealed_hands h"
  "mh_mucked_hands (pay_out xs h) = mh_mucked_hands h"
  by (simp_all add: pay_out_def map_seats_frame)

lemma fair_award_payments:
  assumes "fair_award evs p a"
  shows "fst ` set (award_payments [a]) \<subseteq> set (pot_eligible p)"
    and "sum_list (map snd (award_payments [a])) = pot_amount p"
proof -
  have "fst ` set (award_payments [a]) = set (pa_winners a)"
  proof -
    have "map fst (award_payments [a]) = map sp_seat (pa_payouts a)"
      by (simp add: award_payments_def)
    also have "\<dots> = pa_winners a" using assms by (simp add: fair_award_def)
    finally show ?thesis by (metis set_map)
  qed
  then show "fst ` set (award_payments [a]) \<subseteq> set (pot_eligible p)"
    using assms by (auto simp: fair_award_def)
  show "sum_list (map snd (award_payments [a])) = pot_amount p"
    using assms by (simp add: award_payments_def fair_award_def comp_def)
qed

lemma settle_pots:
  assumes "mw_shape h"
    and "\<forall>p\<in>set ps. pot_eligible p \<noteq> [] \<and> (\<forall>s\<in>set (pot_eligible p).
      bt_get (mh_showdown_evaluations h) s \<noteq> None \<and> s \<in> set (occupied_seats h))"
    and "seat_total ms_stack h + sum_list (map pot_amount ps) < u32_bound"
  shows "\<exists>as. for_m settle_pot (enumerate n ps) h
      = Some ((pay_out (award_payments as) h)\<lparr>mh_awards := mh_awards h @ as\<rparr>) \<and>
    list_all2 (fair_award (mh_showdown_evaluations h)) ps as"
  using assms
proof (induction ps arbitrary: n h)
  case Nil
  then show ?case
    by (intro exI [of _ "[]"]) (simp add: award_payments_def pay_out_def paid_to_def map_seats_id)
next
  case (Cons p ps)
  let ?E = "mh_showdown_evaluations h"
  obtain a where a: "award_pot (mh_table_size h) (mh_button h) ?E n p = Some a" and fair: "fair_award ?E p a"
    using award_pot_fair [of p ?E] Cons.prems(2,3) by force
  note pay = fair_award_payments [OF fair]
  have "for_m (\<lambda>x. pay_seat (fst x) (snd x)) (award_payments [a]) h = Some (pay_out (award_payments [a]) h)"
    using pay Cons.prems by (intro for_m_pay) fastforce+
  then have paid: "for_m (\<lambda>x. pay_seat (sp_seat x) (sp_amount x)) (pa_payouts a) h
      = Some (pay_out (award_payments [a]) h)"
    by (simp add: award_payments_def for_m_map)
  define h1 where "h1 = (pay_out (award_payments [a]) h)\<lparr>mh_awards := mh_awards h @ [a]\<rparr>"
  have step: "settle_pot (n, p) h = Some h1"
    by (simp add: settle_pot_def a paid h1_def)
  have "seat_total ms_stack h1 = seat_total ms_stack h + pot_amount p"
    unfolding h1_def using seat_total_pay_out [of "award_payments [a]" h] pay Cons.prems(2) by fastforce
  then obtain as where rest: "for_m settle_pot (enumerate (Suc n) ps) h1
      = Some ((pay_out (award_payments as) h1)\<lparr>mh_awards := mh_awards h1 @ as\<rparr>)"
    and fairs: "list_all2 (fair_award ?E) ps as"
    using Cons.IH [of h1 "Suc n"] Cons.prems by (force simp: h1_def)
  have "(pay_out (award_payments as) h1)\<lparr>mh_awards := mh_awards h1 @ as\<rparr>
      = (pay_out (award_payments (a # as)) h)\<lparr>mh_awards := mh_awards h @ a # as\<rparr>"
    by (simp add: h1_def pay_out_append award_payments_def)
  then show ?case
    using step rest fair fairs by (intro exI [of _ "a # as"]) simp
qed

text \<open>The settled state in terms of the hand that was resolved.\<close>

definition hand_returns :: "multiway_hand \<Rightarrow> returned_excess list" where
  "hand_returns h = pb_returned (build_pots (contribution_snapshot h))"

definition settled_seat :: "nat \<Rightarrow> multiway_seat_state \<Rightarrow> multiway_seat_state" where
  "settled_seat paid st = st\<lparr>ms_stack := ms_stack st + paid, ms_street_contribution := 0,
     ms_hand_contribution := 0, ms_last_action_wager := None\<rparr>"

definition settled_from :: "multiway_hand \<Rightarrow> pot_award list \<Rightarrow> multiway_hand \<Rightarrow> bool" where
  "settled_from h0 as h \<longleftrightarrow>
     mh_phase h = Showdown \<and> mh_to_act h = None \<and>
     mh_settled_contributions h = contribution_snapshot h0 \<and>
     mh_pots h = hand_pots h0 \<and> mh_returned_excess h = hand_returns h0 \<and>
     mh_awards h = mh_awards h0 @ as \<and>
     list_all2 (fair_award (seat_evaluations h0)) (hand_pots h0) as \<and>
     (\<forall>s. mw_seat h s =
        map_option (settled_seat (paid_to (return_payments (hand_returns h0) @ award_payments as) s))
          (mw_seat h0 s)) \<and>
     (\<forall>s\<in>set (mh_mucked_hands h). \<forall>a\<in>set as. s \<notin> set (pa_winners a)) \<and>
     occupied_seats h = occupied_seats h0 \<and>
     mh_table_size h = mh_table_size h0 \<and> length (mh_seats h) = length (mh_seats h0) \<and>
     mh_board h = mh_board h0 \<and> mh_deck h = mh_deck h0 \<and> mh_button h = mh_button h0 \<and>
     mh_initial_total h = mh_initial_total h0 \<and>
     mh_showdown_progress h = mh_showdown_progress h0 \<and> mh_paced_showdown h = mh_paced_showdown h0"

lemma mucked_not_winning:
  assumes "fair_award (seat_evaluations h) p a" "p \<in> set (hand_pots h)" "mucked_lose h"
    and "set (pot_eligible p) \<subseteq> set (eligible_seats h)" "s \<in> set (mh_mucked_hands h)"
  shows "s \<notin> set (pa_winners a)"
proof
  assume win: "s \<in> set (pa_winners a)"
  then have s: "s \<in> set (pot_eligible p)" and "\<exists>e. bt_get (seat_evaluations h) s = Some e \<and>
      (\<forall>t\<in>set (pot_eligible p). \<forall>f. bt_get (seat_evaluations h) t = Some f \<longrightarrow> compare_hands f e \<noteq> Greater)"
    using assms(1) by (simp_all add: fair_award_def)
  moreover obtain t where t: "t \<in> set (pot_eligible p)" "compare_hands (hand_of h t) (hand_of h s) = Greater"
    using assms(2,3,5) s by (auto simp: mucked_lose_def)
  moreover have "bt_get (seat_evaluations h) u = Some (hand_of h u)" if "u \<in> set (pot_eligible p)" for u
    using that assms(4) by (auto simp: seat_evaluations_get)
  ultimately show False by (metis option.inject)
qed

lemma resolve_showdown_returns:
  assumes "chips_bounded h0" "top_contributor h0" "revealed_in h0" "mucked_lose h0"
    and "mh_showdown_evaluations h0 = [] \<or> mh_showdown_evaluations h0 = seat_evaluations h0"
  shows "\<exists>h as. resolve_showdown h0 = Some h \<and> settled_from h0 as h"
proof -
  have shape: "mw_shape h0" using assms(1) by (simp add: chips_bounded_def)
  define rs where "rs = return_payments (hand_returns h0)"
  define h1 where "h1 = h0\<lparr>mh_settled_contributions := contribution_snapshot h0,
    mh_pots := hand_pots h0, mh_returned_excess := hand_returns h0\<rparr>"
  define h2 where "h2 = pay_out rs h1"
  have rs_seats: "fst ` set rs \<subseteq> set (occupied_seats h1)"
    using hand_returns_seats [OF assms(1)]
    by (auto simp: rs_def return_payments_def hand_returns_def h1_def)
  have rs_sum: "sum_list (map snd rs) = sum_list (map re_amount (hand_returns h0))"
    by (simp add: rs_def return_payments_def comp_def)
  have conserve: "sum_list (map pot_amount (hand_pots h0)) + sum_list (map snd rs)
      = seat_total ms_hand_contribution h0"
    using hand_pots_conserve [OF assms(1)] by (simp add: rs_sum hand_returns_def)
  have bound: "seat_total ms_stack h0 + seat_total ms_hand_contribution h0 < u32_bound"
    using assms(1) by (simp add: chips_bounded_def)
  have step1: "for_m (\<lambda>r. pay_seat (re_seat r) (re_amount r)) (hand_returns h0) h1 = Some h2"
  proof -
    have "for_m (\<lambda>x. pay_seat (fst x) (snd x)) rs h1 = Some h2"
      unfolding h2_def using rs_seats conserve bound shape
      by (intro for_m_pay) (auto simp: h1_def)
    then show ?thesis by (simp add: rs_def return_payments_def for_m_map)
  qed
  have seat2: "mw_seat h2 s = map_option (\<lambda>st. st\<lparr>ms_stack := ms_stack st + paid_to rs s\<rparr>) (mw_seat h0 s)" for s
    by (simp add: h2_def h1_def pay_out_def)
  have occ2: "occupied_seats h2 = occupied_seats h0"
    by (simp add: h2_def h1_def)
  have board2: "mh_board h2 = mh_board h0"
    by (simp add: h2_def h1_def pay_out_def)
  note views = hand_views_cong [OF seat2 occ2]
  have evals2: "seat_evaluations h2 = seat_evaluations h0"
    using views(3) [OF board2] by (auto simp: seat_evaluations_def views(1) eligible_occupied)
  have pots2: "hand_pots h2 = hand_pots h0"
    by (simp add: hand_pots_def views(2))
  define h3 where "h3 = h2\<lparr>mh_showdown_evaluations := seat_evaluations h0\<rparr>"
  have step2: "evaluate_showdown_once h2 = Some h3"
  proof (cases "mh_showdown_evaluations h2 = []")
    case True
    then show ?thesis
      using evaluate_showdown_once_evals [OF True] by (simp add: evals2 h3_def)
  next
    case False
    then have "mh_showdown_evaluations h2 = seat_evaluations h0"
      using assms(5) by (auto simp: h2_def h1_def)
    then show ?thesis using False by (simp add: evaluate_showdown_once_def h3_def)
  qed
  have hands3: "hand_of h3 s = hand_of h0 s" if "s \<in> set (eligible_seats h0)" for s
    using views(3) [OF board2 eligible_occupied [OF that]] by (simp add: h3_def)
  have lists3: "mh_revealed_hands h3 = mh_revealed_hands h0" "mh_mucked_hands h3 = mh_mucked_hands h0"
    by (simp_all add: h3_def h2_def h1_def)
  have pot_seats: "set (pot_eligible p) \<subseteq> set (eligible_seats h0)" if "p \<in> set (hand_pots h0)" for p
    by (rule hand_pots_facts(1) [OF assms(1) that])
  have "mucked_lose h3"
    unfolding mucked_lose_def
  proof (intro ballI impI)
    fix s p
    assume "s \<in> set (mh_mucked_hands h3)" "p \<in> set (hand_pots h3)" and s: "s \<in> set (pot_eligible p)"
    then have p: "p \<in> set (hand_pots h0)" and "s \<in> set (mh_mucked_hands h0)"
      by (simp_all add: lists3) (simp add: h3_def pots2)
    then obtain t where "t \<in> set (pot_eligible p)" "compare_hands (hand_of h0 t) (hand_of h0 s) = Greater"
      using assms(4) s by (auto simp: mucked_lose_def)
    then show "\<exists>t\<in>set (pot_eligible p). compare_hands (hand_of h3 t) (hand_of h3 s) = Greater"
      using pot_seats [OF p] s hands3 by (metis subsetD)
  qed
  moreover have "revealed_in h3"
    using assms(3) by (simp add: revealed_in_def lists3) (simp add: h3_def views(1))
  ultimately have rev3: "reveals_of h3 h3" by (simp add: reveals_of_def)
  obtain h4 where step3: "(if mh_revealed_hands h3 = [] then reveal_synchronously h3 else Some h3) = Some h4"
    and rev4: "reveals_of h3 h4"
  proof (cases "mh_revealed_hands h3 = []")
    case True
    then show ?thesis
      using reveal_synchronously_returns [of h3] rev3 that
      by (force simp: reveals_of_def h3_def evals2)
  qed (use rev3 that in simp)
  obtain r m where h4: "h4 = h3\<lparr>mh_revealed_hands := r, mh_mucked_hands := m\<rparr>"
    using rev4 unfolding reveals_of_def by blast
  define h5 where "h5 = h4\<lparr>mh_revealed_hands :=
      map (describe_revealed (mh_showdown_evaluations h4)) (mh_revealed_hands h4)\<rparr>"
  have evals5: "mh_showdown_evaluations h5 = seat_evaluations h0"
    by (simp add: h5_def h4 h3_def)
  have occ5: "occupied_seats h5 = occupied_seats h0"
    by (simp add: h5_def h4 h3_def occ2)
  have shape5: "mw_shape h5"
    using shape by (simp add: h5_def h4 h3_def h2_def h1_def)
  have stack5: "seat_total ms_stack h5 = seat_total ms_stack h0 + sum_list (map snd rs)"
    using seat_total_pay_out [OF rs_seats] by (simp add: h5_def h4 h3_def h2_def) (simp add: h1_def)
  have pots4: "mh_pots h4 = hand_pots h0"
    by (simp add: h4 h3_def h2_def h1_def pay_out_def)
  have eligible5: "\<forall>p\<in>set (hand_pots h0). pot_eligible p \<noteq> [] \<and> (\<forall>s\<in>set (pot_eligible p).
      bt_get (mh_showdown_evaluations h5) s \<noteq> None \<and> s \<in> set (occupied_seats h5))"
    using hand_pots_facts(4) [OF assms(1) _ assms(2)] pot_seats
    by (auto simp: evals5 occ5 seat_evaluations_get eligible_occupied subset_iff)
  obtain as where step4: "for_m settle_pot (enumerate 0 (hand_pots h0)) h5
      = Some ((pay_out (award_payments as) h5)\<lparr>mh_awards := mh_awards h5 @ as\<rparr>)"
    and fair: "list_all2 (fair_award (seat_evaluations h0)) (hand_pots h0) as"
    using settle_pots [OF shape5 eligible5, of 0] stack5 conserve bound evals5 by auto
  define h6 where "h6 = (pay_out (award_payments as) h5)\<lparr>mh_awards := mh_awards h5 @ as\<rparr>"
  define clear where "clear = (\<lambda>st :: multiway_seat_state. st\<lparr>ms_street_contribution := 0,
     ms_hand_contribution := 0, ms_last_action_wager := None\<rparr>)"
  define h7 where "h7 = (map_seats (\<lambda>_. clear) h6)\<lparr>mh_to_act := None, mh_phase := Showdown\<rparr>"
  have step5: "clear_contributions h6 = Some (map_seats (\<lambda>_. clear) h6)"
    unfolding clear_contributions_def clear_def using shape5
    by (intro update_occupied_map) (simp add: h6_def)
  have "resolve_showdown h0 = Some h7"
    by (simp add: resolve_showdown_def Let_def hand_pots_def [symmetric] hand_returns_def [symmetric]
        h1_def [symmetric] step1 step2 step3 h5_def [symmetric] pots4 step4 h6_def [symmetric] step5 h7_def
        del: pay_out_frame)
  moreover have "settled_from h0 as h7"
  proof -
    have "\<forall>s. mw_seat h7 s = map_option (settled_seat (paid_to (rs @ award_payments as) s)) (mw_seat h0 s)"
      by (simp add: h7_def h6_def h5_def h4 h3_def seat2 pay_out_def option.map_comp comp_def clear_def
          settled_seat_def [abs_def] paid_to_append add.assoc)
    moreover have "s \<notin> set (pa_winners a)" if s: "s \<in> set (mh_mucked_hands h7)" and a: "a \<in> set as" for s a
    proof -
      obtain p where p: "p \<in> set (hand_pots h0)" "fair_award (seat_evaluations h0) p a"
        using fair a by (induction rule: list_all2_induct) auto
      have "mucked_lose h4" "mh_mucked_hands h7 = mh_mucked_hands h4"
        using rev4 by (simp_all add: reveals_of_def h7_def h6_def h5_def)
      moreover have "hand_pots h4 = hand_pots h0" "eligible_seats h4 = eligible_seats h0"
        by (simp_all add: h4 h3_def pots2 views(1))
      moreover have "seat_evaluations h4 = seat_evaluations h0"
        by (simp add: h4 h3_def evals2)
      ultimately show ?thesis
        using mucked_not_winning [of h4 p a s] p s pot_seats [OF p(1)] by simp
    qed
    ultimately show ?thesis
      using fair unfolding settled_from_def rs_def [symmetric]
      by (simp add: h7_def h6_def h5_def h4 h3_def h2_def h1_def pay_out_def)
  qed
  ultimately show ?thesis by blast
qed

lemma awards_payments:
  assumes "list_all2 (fair_award evs) ps as"
  shows "fst ` set (award_payments as) \<subseteq> (\<Union>p\<in>set ps. set (pot_eligible p))"
    and "sum_list (map snd (award_payments as)) = sum_list (map pot_amount ps)"
  using assms
proof (induction rule: list_all2_induct)
  case (Cons p ps a as)
  have split: "award_payments (a # as) = award_payments [a] @ award_payments as"
    by (simp add: award_payments_def)
  note one = fair_award_payments [OF Cons(1)]
  {
    case 1
    show ?case using one(1) Cons.IH(1) unfolding split set_append image_Un by auto
  next
    case 2
    show ?case using one(2) Cons.IH(2) unfolding split by simp
  }
qed (simp_all add: award_payments_def)

lemma settled_totals:
  assumes "settled_from h0 as h" "chips_bounded h0"
  shows "seat_total ms_stack h = seat_total ms_stack h0 + seat_total ms_hand_contribution h0"
    and "seat_total ms_hand_contribution h = 0"
proof -
  let ?O = "set (occupied_seats h0)"
  let ?pay = "return_payments (hand_returns h0) @ award_payments as"
  have occ: "occupied_seats h = occupied_seats h0"
    and seats: "\<And>s. mw_seat h s = map_option (settled_seat (paid_to ?pay s)) (mw_seat h0 s)"
    and fair: "list_all2 (fair_award (seat_evaluations h0)) (hand_pots h0) as"
    using assms(1) unfolding settled_from_def by auto
  note per_pot = awards_payments [OF fair]
  have "fst ` set (award_payments as) \<subseteq> ?O"
    using per_pot(1) hand_pots_facts(1) [OF assms(2)] eligible_occupied by blast
  moreover have "fst ` set (return_payments (hand_returns h0)) \<subseteq> ?O"
    using hand_returns_seats [OF assms(2)] by (auto simp: return_payments_def hand_returns_def)
  ultimately have "fst ` set ?pay \<subseteq> ?O" by (simp add: image_Un)
  then have "(\<Sum>s\<in>?O. paid_to ?pay s) = sum_list (map snd ?pay)"
    by (intro sum_paid_to) auto
  also have "\<dots> = seat_total ms_hand_contribution h0"
    using per_pot(2) hand_pots_conserve [OF assms(2)]
    by (simp add: return_payments_def hand_returns_def comp_def)
  finally have paid: "(\<Sum>s\<in>?O. paid_to ?pay s) = seat_total ms_hand_contribution h0" .
  have "seat_total ms_stack h = (\<Sum>s\<in>?O. ms_stack (the (mw_seat h0 s)) + paid_to ?pay s)"
    unfolding seat_total_sum occ
    by (intro sum.cong) (auto simp: seats settled_seat_def dest!: occupied_seatsD)
  then show "seat_total ms_stack h = seat_total ms_stack h0 + seat_total ms_hand_contribution h0"
    by (simp add: sum.distrib paid seat_total_sum)
  show "seat_total ms_hand_contribution h = 0"
    unfolding seat_total_sum occ
    by (intro sum.neutral) (auto simp: seats settled_seat_def dest!: occupied_seatsD)
qed

end
