(* ===== verification/Multiway.thy ===== *)
theory Multiway
  imports Showdown
begin

text \<open>
  Commands and the start of a hand (src/src/game/multiway.rs). \<open>apply_command\<close> has three outcomes:
  \<^const>\<open>None\<close> is a panic, \<^const>\<open>Inl\<close> a rejection that leaves the hand as it was, and
  \<^const>\<open>Inr\<close> the hand after the action, the streets and the showdown it triggers.
\<close>

subsection \<open>Streets\<close>

definition reset_street :: "multiway_hand \<Rightarrow> multiway_hand option" where
  "reset_street h0 = do {
     h \<leftarrow> update_occupied (\<lambda>st. st\<lparr>ms_street_contribution := 0, ms_last_action_wager := None\<rparr>) h0;
     Some (h\<lparr>mh_current_wager := 0,
       mh_last_full_raise_size := bv_big_blind (mh_blind_values h), mh_to_act := None\<rparr>) }"

partial_function (option) advance_street :: "multiway_hand \<Rightarrow> multiway_hand option" where
  "advance_street h0 =
    (if pot_eligible_count h0 = 1 then award_fold h0
     else
      (let betting_locked = (length (filter (mw_holds h0 can_act) (occupied_seats h0)) \<le> 1);
           any_all_in = list_ex (mw_holds h0 (\<lambda>st. ms_participation st = AllIn)) (occupied_seats h0)
       in if mh_phase h0 = River \<or> (betting_locked \<and> any_all_in) then begin_showdown any_all_in h0
       else do {
         h \<leftarrow> reset_street h0;
         (case mh_phase h of
            Showdown \<Rightarrow> Some h
          | HandComplete \<Rightarrow> Some h
          | River \<Rightarrow> resolve_showdown h
          | _ \<Rightarrow>
            (let h = (case mh_phase h of
                 Preflop \<Rightarrow> (deal_to_board 3 h)\<lparr>mh_phase := Flop\<rparr>
               | Flop \<Rightarrow> (deal_to_board 1 h)\<lparr>mh_phase := Turn\<rparr>
               | _ \<Rightarrow> (deal_to_board 1 h)\<lparr>mh_phase := River\<rparr>);
                 first_postflop = (case next_live_after h (mh_button h) of
                   Some s \<Rightarrow> Some s
                 | None \<Rightarrow> first_match (mw_holds h can_act) (occupied_seats h));
                 h = h\<lparr>mh_to_act := Option.bind first_postflop (first_needing_from h)\<rparr>
             in if betting_round_complete h then advance_street h else Some h)) }))"

declare advance_street.simps [code]

definition advance_automatically_if_needed :: "multiway_hand \<Rightarrow> multiway_hand option" where
  "advance_automatically_if_needed h =
     (if accepts_actions (mh_phase h) \<and> betting_round_complete h then advance_street h else Some h)"

subsection \<open>Actions\<close>

definition apply_wager :: "multiway_hand \<Rightarrow> seat_id \<Rightarrow> action \<Rightarrow> multiway_hand option" where
  "apply_wager h s a =
    (let old_wager = mh_current_wager h in
     case a of
       ActFold \<Rightarrow> seat_mut h s (\<lambda>st. st\<lparr>ms_participation := Folded\<rparr>)
     | Check \<Rightarrow> Some h
     | Call amount \<Rightarrow> do {
         st \<leftarrow> mw_seat h s;
         commit_to h s (u32_add (ms_street_contribution st) amount) }
     | Bet target \<Rightarrow> do {
         h \<leftarrow> commit_to h s target;
         Some (h\<lparr>mh_current_wager := target,
           mh_last_full_raise_size := saturating_sub target old_wager\<rparr>) }
     | Raise target \<Rightarrow> do {
         h \<leftarrow> commit_to h s target;
         Some (h\<lparr>mh_current_wager := target,
           mh_last_full_raise_size := saturating_sub target old_wager\<rparr>) }
     | ActAllIn target \<Rightarrow> do {
         h \<leftarrow> commit_to h s target;
         let h = (if old_wager < target then
             (let increase = u32_sub target old_wager;
                  full_raise = (if old_wager = 0 then bv_big_blind (mh_blind_values h) \<le> target
                    else mh_last_full_raise_size h \<le> increase);
                  h = h\<lparr>mh_current_wager := target\<rparr>
              in if full_raise then h\<lparr>mh_last_full_raise_size := increase\<rparr> else h)
           else h);
         seat_mut h s (\<lambda>st. st\<lparr>ms_participation := AllIn\<rparr>) })"

definition record_action ::
  "multiway_phase \<Rightarrow> seat_id \<Rightarrow> action \<Rightarrow> multiway_hand \<Rightarrow> multiway_hand option" where
  "record_action phase s a h = do {
     st \<leftarrow> mw_seat h s;
     let h = (if ms_participation st = Live
       then mw_set_seat h s (st\<lparr>ms_last_action_wager := Some (mh_current_wager h)\<rparr>) else h);
     Some (h\<lparr>mh_action_history := mh_action_history h @
       [\<lparr>ar_sequence = u32_add (length (mh_action_history h) mod u32_bound) 1, ar_phase = phase,
         ar_seat = s, ar_action = a, ar_wager_after = mh_current_wager h\<rparr>]\<rparr>) }"

definition apply_validated_action :: "multiway_hand \<Rightarrow> seat_id \<Rightarrow> action \<Rightarrow> multiway_hand option" where
  "apply_validated_action h0 s a = do {
     h \<leftarrow> apply_wager h0 s a;
     h \<leftarrow> record_action (mh_phase h0) s a h;
     if pot_eligible_count h = 1 then award_fold h
     else if betting_round_complete h then advance_street h
     else Some (h\<lparr>mh_to_act := next_needing_after h s\<rparr>) }"

definition apply_command ::
  "multiway_hand \<Rightarrow> seat_command \<Rightarrow> (command_error + multiway_hand) option" where
  "apply_command h c = do {
     verdict \<leftarrow> validate_command h c;
     case verdict of
       Inl e \<Rightarrow> Some (Inl e)
     | Inr _ \<Rightarrow> map_option Inr (apply_validated_action h (cmd_seat c) (cmd_action c)) }"

subsection \<open>The start of a hand\<close>

datatype config_error = TooFewPlayers nat | ConfigSeatOutsideTable seat_id | DuplicateSeat seat_id
  | EmptyStack seat_id | ButtonNotOccupied seat_id | ChipTotalOverflow | InvalidBlinds

definition config_error_display :: "config_error \<Rightarrow> string" where
  "config_error_display e = (case e of
     TooFewPlayers found \<Rightarrow>
       ''at least two occupied seats are required, found '' @ show_nat found
   | ConfigSeatOutsideTable s \<Rightarrow> ''seat '' @ show_nat s @ '' is outside the configured table''
   | DuplicateSeat s \<Rightarrow> ''seat '' @ show_nat s @ '' is duplicated''
   | EmptyStack s \<Rightarrow> ''seat '' @ show_nat s @ '' has no chips''
   | ButtonNotOccupied s \<Rightarrow> ''button seat '' @ show_nat s @ '' is not occupied''
   | ChipTotalOverflow \<Rightarrow> ''configured chip total exceeds u32''
   | InvalidBlinds \<Rightarrow>
       ''small blind must be positive and below big blind; ante cannot exceed big blind'')"

fun seat_stacks :: "table_size \<Rightarrow> (seat_id \<times> u32) list \<Rightarrow> seat_id set
    \<Rightarrow> multiway_seat_state option list \<Rightarrow> u32
    \<Rightarrow> config_error + multiway_seat_state option list \<times> u32" where
  "seat_stacks n [] seen seats total_so_far = Inr (seats, total_so_far)"
| "seat_stacks n ((s, stack) # rest) seen seats total_so_far =
    (if \<not> table_contains n s then Inl (ConfigSeatOutsideTable s)
     else if s \<in> seen then Inl (DuplicateSeat s)
     else if stack = 0 then Inl (EmptyStack s)
     else case u32_checked_add total_so_far stack of
       None \<Rightarrow> Inl ChipTotalOverflow
     | Some total' \<Rightarrow>
         seat_stacks n rest (insert s seen) (seats[s := Some (multiway_seat_new stack)]) total')"

definition deal_card_to :: "seat_id \<Rightarrow> multiway_seat_state option list \<times> deck
    \<Rightarrow> (multiway_seat_state option list \<times> deck) option" where
  "deal_card_to s = (\<lambda>(seats, d). do {
     entry \<leftarrow> vec_get seats s;
     st \<leftarrow> entry;
     let (dealt, d') = deck_deal d;
     c \<leftarrow> dealt;
     Some (seats[s := Some (st\<lparr>ms_hole_cards := ms_hole_cards st @ [c]\<rparr>)], d') })"

definition blind_positions :: "table_size \<Rightarrow> multiway_seat_state option list \<Rightarrow> seat_id \<Rightarrow> nat
    \<Rightarrow> (seat_id \<times> seat_id \<times> seat_id) option" where
  "blind_positions n seats button players =
    (if players = 2 then do {
       big_blind \<leftarrow> next_occupied n seats button;
       Some (button, big_blind, button) }
     else do {
       small_blind \<leftarrow> next_occupied n seats button;
       big_blind \<leftarrow> next_occupied n seats small_blind;
       first_preflop \<leftarrow> next_occupied n seats big_blind;
       Some (small_blind, big_blind, first_preflop) })"

definition fresh_hand :: "table_size \<Rightarrow> multiway_seat_state option list \<Rightarrow> seat_id \<Rightarrow> seat_id
    \<Rightarrow> seat_id \<Rightarrow> blind_values \<Rightarrow> u32 \<Rightarrow> deck \<Rightarrow> multiway_hand" where
  "fresh_hand n seats button small_blind big_blind blinds chips d =
    \<lparr>mh_phase = Preflop, mh_table_size = n, mh_seats = seats, mh_board = [], mh_button = button,
     mh_small_blind = small_blind, mh_big_blind = big_blind, mh_blind_values = blinds,
     mh_to_act = None, mh_current_wager = 0, mh_last_full_raise_size = bv_big_blind blinds,
     mh_action_history = [], mh_pots = [], mh_returned_excess = [], mh_awards = [],
     mh_revealed_hands = [], mh_settled_contributions = [], mh_showdown_progress = None,
     mh_mucked_hands = [], mh_always_show = {}, mh_paced_showdown = True,
     mh_showdown_evaluations = [], mh_initial_total = chips, mh_deck = d\<rparr>"

fun post_forced :: "forced_post list \<Rightarrow> multiway_hand \<Rightarrow> (config_error + multiway_hand) option" where
  "post_forced [] h = Some (Inr h)"
| "post_forced (post # posts) h =
    (if fp_seat post \<notin> set (occupied_seats h) then Some (Inl (ConfigSeatOutsideTable (fp_seat post)))
     else do {
       h \<leftarrow> (if fp_live post then commit_chips h (fp_seat post) (fp_amount post)
         else commit_dead_chips h (fp_seat post) (fp_amount post));
       post_forced posts h })"

definition post_antes_and_blinds :: "multiway_hand \<Rightarrow> multiway_hand option" where
  "post_antes_and_blinds h0 =
    (let blinds = mh_blind_values h0 in do {
       h \<leftarrow> (if 0 < bv_ante blinds
         then for_m (\<lambda>s h. commit_dead_chips h s (bv_ante blinds)) (occupied_seats h0) h0
         else Some h0);
       h \<leftarrow> commit_chips h (mh_small_blind h0) (bv_small_blind blinds);
       commit_chips h (mh_big_blind h0) (bv_big_blind blinds) })"

definition open_betting :: "seat_id \<Rightarrow> multiway_hand \<Rightarrow> multiway_hand option" where
  "open_betting first_preflop h0 = do {
     let h = h0\<lparr>mh_current_wager := Max (insert 0 (set (map ms_street_contribution (occupied_states h0))))\<rparr>;
     let h = h\<lparr>mh_to_act := first_needing_from h first_preflop\<rparr>;
     h \<leftarrow> advance_automatically_if_needed h;
     Some (h\<lparr>mh_paced_showdown := False\<rparr>) }"

definition with_prepared_deck :: "table_size \<Rightarrow> seat_id \<Rightarrow> (seat_id \<times> u32) list \<Rightarrow> forced_post list
    \<Rightarrow> blind_values \<Rightarrow> deck \<Rightarrow> (config_error + multiway_hand) option" where
  "with_prepared_deck n button stacks forced_posts blinds d =
    (if blind_values_new (bv_small_blind blinds) (bv_big_blind blinds) (bv_ante blinds) = None
     then Some (Inl InvalidBlinds)
     else if length stacks < 2 then Some (Inl (TooFewPlayers (length stacks)))
     else case seat_stacks n stacks {} (replicate n None) 0 of
       Inl e \<Rightarrow> Some (Inl e)
     | Inr (seats, initial_total) \<Rightarrow>
       (if vec_get seats button = None \<or> vec_get seats button = Some None
        then Some (Inl (ButtonNotOccupied button))
        else do {
          let occupied = clockwise_occupied n seats button;
          (seats, d) \<leftarrow> for_m deal_card_to (occupied @ occupied) (seats, d);
          (small_blind, big_blind, first_preflop) \<leftarrow> blind_positions n seats button (length stacks);
          h \<leftarrow> post_antes_and_blinds
            (fresh_hand n seats button small_blind big_blind blinds initial_total d);
          posted \<leftarrow> post_forced forced_posts h;
          case posted of
            Inl e \<Rightarrow> Some (Inl e)
          | Inr h \<Rightarrow> map_option Inr (open_betting first_preflop h) }))"

definition with_shuffle_source :: "('g \<Rightarrow> card list \<Rightarrow> card list \<times> 'g) \<Rightarrow> table_size \<Rightarrow> seat_id
    \<Rightarrow> (seat_id \<times> u32) list \<Rightarrow> forced_post list \<Rightarrow> blind_values \<Rightarrow> 'g shuffle_source
    \<Rightarrow> (config_error + multiway_hand) option" where
  "with_shuffle_source shuffle n button stacks forced_posts blinds src =
     with_prepared_deck n button stacks forced_posts blinds
       (fst (shuffle_source_shuffle shuffle src deck_new))"

definition multiway_new_with_blinds :: "('g \<Rightarrow> card list \<Rightarrow> card list \<times> 'g) \<Rightarrow> 'g \<Rightarrow> table_size
    \<Rightarrow> seat_id \<Rightarrow> (seat_id \<times> u32) list \<Rightarrow> forced_post list \<Rightarrow> blind_values
    \<Rightarrow> (config_error + multiway_hand) option" where
  "multiway_new_with_blinds shuffle production n button stacks forced_posts blinds =
     with_shuffle_source shuffle n button stacks forced_posts blinds \<lparr>source_rng = production\<rparr>"

definition multiway_new_with_forced_posts :: "('g \<Rightarrow> card list \<Rightarrow> card list \<times> 'g) \<Rightarrow> 'g \<Rightarrow> table_size
    \<Rightarrow> seat_id \<Rightarrow> (seat_id \<times> u32) list \<Rightarrow> forced_post list
    \<Rightarrow> (config_error + multiway_hand) option" where
  "multiway_new_with_forced_posts shuffle production n button stacks forced_posts =
     with_shuffle_source shuffle n button stacks forced_posts blind_values_default
       \<lparr>source_rng = production\<rparr>"

definition multiway_new :: "('g \<Rightarrow> card list \<Rightarrow> card list \<times> 'g) \<Rightarrow> 'g \<Rightarrow> table_size
    \<Rightarrow> seat_id \<Rightarrow> (seat_id \<times> u32) list \<Rightarrow> (config_error + multiway_hand) option" where
  "multiway_new shuffle production n button stacks =
     with_shuffle_source shuffle n button stacks [] blind_values_default \<lparr>source_rng = production\<rparr>"

text \<open>
  The seeded constructors start the generator from a seed: \<open>seeded\<close> is the \<open>rand\<close> crate's
  \<open>seed_from_u64\<close>.
\<close>

definition multiway_new_seeded_for_review :: "('g \<Rightarrow> card list \<Rightarrow> card list \<times> 'g) \<Rightarrow> (u64 \<Rightarrow> 'g)
    \<Rightarrow> table_size \<Rightarrow> seat_id \<Rightarrow> (seat_id \<times> u32) list \<Rightarrow> u64
    \<Rightarrow> (config_error + multiway_hand) option" where
  "multiway_new_seeded_for_review shuffle seeded n button stacks seed =
     with_shuffle_source shuffle n button stacks [] blind_values_default \<lparr>source_rng = seeded seed\<rparr>"

definition multiway_new_seeded_with_forced_posts :: "('g \<Rightarrow> card list \<Rightarrow> card list \<times> 'g) \<Rightarrow> (u64 \<Rightarrow> 'g)
    \<Rightarrow> table_size \<Rightarrow> seat_id \<Rightarrow> (seat_id \<times> u32) list \<Rightarrow> forced_post list \<Rightarrow> u64
    \<Rightarrow> (config_error + multiway_hand) option" where
  "multiway_new_seeded_with_forced_posts shuffle seeded n button stacks forced_posts seed =
     with_shuffle_source shuffle n button stacks forced_posts blind_values_default
       \<lparr>source_rng = seeded seed\<rparr>"

definition multiway_new_seeded_with_blinds :: "('g \<Rightarrow> card list \<Rightarrow> card list \<times> 'g) \<Rightarrow> (u64 \<Rightarrow> 'g)
    \<Rightarrow> table_size \<Rightarrow> seat_id \<Rightarrow> (seat_id \<times> u32) list \<Rightarrow> forced_post list \<Rightarrow> blind_values \<Rightarrow> u64
    \<Rightarrow> (config_error + multiway_hand) option" where
  "multiway_new_seeded_with_blinds shuffle seeded n button stacks forced_posts blinds seed =
     with_shuffle_source shuffle n button stacks forced_posts blinds \<lparr>source_rng = seeded seed\<rparr>"

definition multiway_new_with_deck_for_training :: "table_size \<Rightarrow> seat_id \<Rightarrow> (seat_id \<times> u32) list
    \<Rightarrow> forced_post list \<Rightarrow> deck \<Rightarrow> (config_error + multiway_hand) option" where
  "multiway_new_with_deck_for_training n button stacks forced_posts d =
     with_prepared_deck n button stacks forced_posts blind_values_default d"

end
