(* ===== verification/Hand_Invariant.thy ===== *)
theory Hand_Invariant
  imports Showdown_Facts Multiway
begin

text \<open>
  The invariant of a multiway hand. A hand is in one of three situations: betting
  (\<open>betting_ok\<close>), between two reveals of a paced showdown (\<open>showdown_ok\<close>), or settled
  (\<open>done_ok\<close>). The showdown part: every advance of it succeeds, keeps the invariant and comes
  nearer to the settled hand, so the loop that drains it ends.
\<close>

definition hole_cards :: "multiway_hand \<Rightarrow> card list" where
  "hole_cards h = concat (map ms_hole_cards (occupied_states h))"

definition hand_cards :: "multiway_hand \<Rightarrow> card list" where
  "hand_cards h = hole_cards h @ mh_board h @ deck_rest (mh_deck h)"

definition cards_ok :: "multiway_hand \<Rightarrow> bool" where
  "cards_ok h \<longleftrightarrow> distinct (hand_cards h) \<and> 5 \<le> length (mh_board h) + length (deck_rest (mh_deck h))"

definition money_ok :: "multiway_hand \<Rightarrow> bool" where
  "money_ok h \<longleftrightarrow> mw_shape h \<and>
     seat_total ms_stack h + seat_total ms_hand_contribution h = mh_initial_total h \<and>
     mh_initial_total h < u32_bound"

lemma money_bounded: "money_ok h \<Longrightarrow> chips_bounded h"
  by (simp add: money_ok_def chips_bounded_def)

subsection \<open>Betting\<close>

definition prior :: "multiway_seat_state \<Rightarrow> nat" where
  "prior st = ms_hand_contribution st - ms_street_contribution st"

definition seat_wf :: "u32 \<Rightarrow> multiway_seat_state \<Rightarrow> bool" where
  "seat_wf wager st \<longleftrightarrow> ms_street_contribution st \<le> ms_hand_contribution st \<and>
     ms_street_contribution st \<le> wager \<and> (ms_participation st = Live \<longrightarrow> 0 < ms_stack st)"

text \<open>
  The leader: an eligible seat that matches the wager of the street and paid as much as anybody
  before it; a seat that is still live paid the same before the street.
\<close>

definition leads :: "multiway_hand \<Rightarrow> multiway_seat_state \<Rightarrow> bool" where
  "leads h st \<longleftrightarrow> eligible_for_pot st \<and> ms_street_contribution st = mh_current_wager h \<and>
     (\<forall>st'\<in>set (occupied_states h). prior st' \<le> prior st \<and>
        (ms_participation st' = Live \<longrightarrow> prior st' = prior st))"

definition wagers_ok :: "multiway_hand \<Rightarrow> bool" where
  "wagers_ok h \<longleftrightarrow> (\<forall>st\<in>set (occupied_states h). seat_wf (mh_current_wager h) st) \<and>
     (\<exists>st\<in>set (occupied_states h). leads h st)"

fun board_size :: "multiway_phase \<Rightarrow> nat" where
  "board_size Preflop = 0"
| "board_size Flop = 3"
| "board_size Turn = 4"
| "board_size _ = 5"

definition before_showdown :: "multiway_hand \<Rightarrow> bool" where
  "before_showdown h \<longleftrightarrow> mh_showdown_progress h = None \<and> mh_showdown_evaluations h = [] \<and>
     mh_revealed_hands h = [] \<and> mh_mucked_hands h = [] \<and> mh_awards h = []"

definition mid_ok :: "multiway_hand \<Rightarrow> bool" where
  "mid_ok h \<longleftrightarrow> money_ok h \<and> cards_ok h \<and> accepts_actions (mh_phase h) \<and>
     length (mh_board h) = board_size (mh_phase h) \<and> before_showdown h \<and> wagers_ok h \<and>
     0 < bv_big_blind (mh_blind_values h) \<and> 0 < mh_last_full_raise_size h \<and>
     mh_button h < mh_table_size h"

definition betting_ok :: "multiway_hand \<Rightarrow> bool" where
  "betting_ok h \<longleftrightarrow> mid_ok h \<and> 2 \<le> pot_eligible_count h \<and>
     (case mh_to_act h of None \<Rightarrow> False | Some s \<Rightarrow> needs_action h s)"

subsection \<open>Showdown and settled hands\<close>

definition progress_ok :: "multiway_hand \<Rightarrow> showdown_progress \<Rightarrow> bool" where
  "progress_ok h pr \<longleftrightarrow> set (sd_order pr) = set (eligible_seats h) \<and>
     sd_cursor pr \<le> length (sd_order pr) \<and>
     (if sd_all_in pr then mh_showdown_evaluations h = [] \<and> mh_mucked_hands h = [] \<and>
        length (mh_board h) \<in> {0, 3, 4, 5} \<and> sd_cursor pr = length (sd_order pr)
      else mh_showdown_evaluations h = seat_evaluations h \<and> length (mh_board h) = 5)"

definition showdown_ok :: "multiway_hand \<Rightarrow> bool" where
  "showdown_ok h \<longleftrightarrow> money_ok h \<and> cards_ok h \<and> mh_to_act h = None \<and> top_contributor h \<and>
     2 \<le> pot_eligible_count h \<and> mh_awards h = [] \<and> revealed_in h \<and> mucked_lose h \<and>
     (case mh_showdown_progress h of None \<Rightarrow> False | Some pr \<Rightarrow> progress_ok h pr)"

definition done_ok :: "multiway_hand \<Rightarrow> bool" where
  "done_ok h \<longleftrightarrow> money_ok h \<and> cards_ok h \<and> mh_to_act h = None \<and> mh_showdown_progress h = None \<and>
     (mh_phase h = Showdown \<or> mh_phase h = HandComplete) \<and>
     (\<forall>st\<in>set (occupied_states h). ms_hand_contribution st = 0 \<and> ms_street_contribution st = 0) \<and>
     (\<forall>a\<in>set (mh_awards h). \<forall>s\<in>set (pa_winners a). s \<notin> set (mh_mucked_hands h))"

definition hand_ok :: "multiway_hand \<Rightarrow> bool" where
  "hand_ok h \<longleftrightarrow> betting_ok h \<or> showdown_ok h \<or> done_ok h"

text \<open>How far a showdown is from its end.\<close>

definition showdown_left :: "multiway_hand \<Rightarrow> nat" where
  "showdown_left h = (case mh_showdown_progress h of None \<Rightarrow> 0
     | Some pr \<Rightarrow> if sd_all_in pr then 6 - length (mh_board h)
        else Suc (length (sd_order pr) - sd_cursor pr))"

text \<open>What every step of a hand keeps: its chips, its table, its players and its cards.\<close>

definition same_game :: "multiway_hand \<Rightarrow> multiway_hand \<Rightarrow> bool" where
  "same_game h h' \<longleftrightarrow> mh_initial_total h' = mh_initial_total h \<and> hand_cards h' = hand_cards h \<and>
     mh_table_size h' = mh_table_size h \<and> occupied_seats h' = occupied_seats h \<and>
     mh_button h' = mh_button h \<and> mh_paced_showdown h' = mh_paced_showdown h"

subsection \<open>From the resolved to the settled hand\<close>

lemma same_occupied:
  assumes "\<And>s. mw_seat h' s = None \<longleftrightarrow> mw_seat h s = None" "mh_table_size h' = mh_table_size h"
  shows "occupied_seats h' = occupied_seats h"
  using assms by (simp add: occupied_seats_def)

lemma hole_cards_cong:
  assumes "\<And>s. mw_seat h' s = map_option (F s) (mw_seat h s)" "occupied_seats h' = occupied_seats h"
    and "\<And>s st. ms_hole_cards (F s st) = ms_hole_cards st"
  shows "hole_cards h' = hole_cards h"
proof -
  have "map ms_hole_cards (occupied_states h') = map ms_hole_cards (occupied_states h)"
    unfolding occupied_states_map assms(2) map_map comp_def
    by (rule map_cong) (auto simp: assms(1,3) dest!: occupied_seatsD)
  then show ?thesis by (simp add: hole_cards_def)
qed

lemma hole_cards_map_seats:
  "(\<And>s st. ms_hole_cards (F s st) = ms_hole_cards st) \<Longrightarrow> hole_cards (map_seats F h) = hole_cards h"
  by (rule hole_cards_cong [where F = F]) simp_all

lemma settled_done:
  assumes "settled_from h0 as h" "money_ok h0" "cards_ok h0" "mh_awards h0 = []"
    and "mh_showdown_progress h0 = None"
  shows "done_ok h"
proof -
  note settled = assms(1) [unfolded settled_from_def]
  have seats: "\<And>s. mw_seat h s = map_option (settled_seat
        (paid_to (return_payments (hand_returns h0) @ award_payments as) s)) (mw_seat h0 s)"
    and occ: "occupied_seats h = occupied_seats h0"
    using settled by blast+
  have shape: "mw_shape h"
    using settled assms(2) by (simp add: money_ok_def mw_shape_def)
  have "money_ok h"
    using settled_totals [OF assms(1) money_bounded [OF assms(2)]] shape settled assms(2)
    by (simp add: money_ok_def)
  moreover have "hole_cards h = hole_cards h0"
    using seats occ by (rule hole_cards_cong) (simp add: settled_seat_def)
  then have "cards_ok h"
    using settled assms(3) by (simp add: cards_ok_def hand_cards_def)
  moreover have "\<forall>st\<in>set (occupied_states h). ms_hand_contribution st = 0 \<and> ms_street_contribution st = 0"
    by (auto simp: set_occupied_states [OF shape] seats settled_seat_def)
  moreover have "\<forall>a\<in>set (mh_awards h). \<forall>s\<in>set (pa_winners a). s \<notin> set (mh_mucked_hands h)"
    using settled assms(4) by auto
  ultimately show ?thesis
    using settled assms(5) by (simp add: done_ok_def)
qed

lemma settled_same_game:
  assumes "settled_from h0 as h"
  shows "same_game h0 h"
proof -
  note settled = assms [unfolded settled_from_def]
  have seats: "\<And>s. mw_seat h s = map_option (settled_seat
        (paid_to (return_payments (hand_returns h0) @ award_payments as) s)) (mw_seat h0 s)"
    and occ: "occupied_seats h = occupied_seats h0"
    using settled by blast+
  have "hole_cards h = hole_cards h0"
    using seats occ by (rule hole_cards_cong) (simp add: settled_seat_def)
  then show ?thesis
    using settled by (simp add: same_game_def hand_cards_def)
qed

lemma money_frame [simp]:
  "money_ok (h\<lparr>mh_board := b\<rparr>) = money_ok h"
  "money_ok (h\<lparr>mh_deck := d\<rparr>) = money_ok h"
  "money_ok (h\<lparr>mh_phase := ph\<rparr>) = money_ok h"
  "money_ok (h\<lparr>mh_to_act := ta\<rparr>) = money_ok h"
  "money_ok (h\<lparr>mh_showdown_progress := pr\<rparr>) = money_ok h"
  "money_ok (h\<lparr>mh_showdown_evaluations := ev\<rparr>) = money_ok h"
  "money_ok (h\<lparr>mh_revealed_hands := re\<rparr>) = money_ok h"
  "money_ok (h\<lparr>mh_mucked_hands := mu\<rparr>) = money_ok h"
  "money_ok (h\<lparr>mh_current_wager := cw\<rparr>) = money_ok h"
  "money_ok (h\<lparr>mh_last_full_raise_size := lf\<rparr>) = money_ok h"
  "money_ok (h\<lparr>mh_action_history := ah\<rparr>) = money_ok h"
  "money_ok (h\<lparr>mh_awards := aw\<rparr>) = money_ok h"
  "money_ok (h\<lparr>mh_settled_contributions := sc\<rparr>) = money_ok h"
  "money_ok (h\<lparr>mh_paced_showdown := ps\<rparr>) = money_ok h"
  by (simp_all add: money_ok_def)

lemma hand_cards_frame [simp]:
  "hole_cards (h\<lparr>mh_board := b\<rparr>) = hole_cards h"
  "hole_cards (h\<lparr>mh_deck := d\<rparr>) = hole_cards h"
  "hand_cards (h\<lparr>mh_phase := ph\<rparr>) = hand_cards h"
  "hand_cards (h\<lparr>mh_to_act := ta\<rparr>) = hand_cards h"
  "hand_cards (h\<lparr>mh_showdown_progress := pr\<rparr>) = hand_cards h"
  "hand_cards (h\<lparr>mh_showdown_evaluations := ev\<rparr>) = hand_cards h"
  "hand_cards (h\<lparr>mh_revealed_hands := re\<rparr>) = hand_cards h"
  "hand_cards (h\<lparr>mh_mucked_hands := mu\<rparr>) = hand_cards h"
  "hand_cards (h\<lparr>mh_current_wager := cw\<rparr>) = hand_cards h"
  "hand_cards (h\<lparr>mh_last_full_raise_size := lf\<rparr>) = hand_cards h"
  "hand_cards (h\<lparr>mh_action_history := ah\<rparr>) = hand_cards h"
  "hand_cards (h\<lparr>mh_awards := aw\<rparr>) = hand_cards h"
  "hand_cards (h\<lparr>mh_settled_contributions := sc\<rparr>) = hand_cards h"
  "hand_cards (h\<lparr>mh_paced_showdown := ps\<rparr>) = hand_cards h"
  by (simp_all add: hand_cards_def hole_cards_def)

lemma deal_to_board_fields:
  "deal_to_board n h = h\<lparr>mh_board := mh_board h @ take n (deck_rest (mh_deck h)),
     mh_deck := snd (deck_deal_n n (mh_deck h))\<rparr>"
  by (simp add: deal_to_board_def split_beta fst_deck_deal_n)

lemma deal_to_board_cards:
  "hand_cards (deal_to_board n h) = hand_cards h"
  "length (mh_board (deal_to_board n h)) + length (deck_rest (mh_deck (deal_to_board n h)))
    = length (mh_board h) + length (deck_rest (mh_deck h))"
  by (simp_all add: deal_to_board_fields hand_cards_def deck_rest_deal_n hole_cards_def)

lemma deal_to_board_ok: "cards_ok h \<Longrightarrow> cards_ok (deal_to_board n h)"
  using deal_to_board_cards [of n h] by (simp add: cards_ok_def)

lemma deal_to_board_length:
  "cards_ok h \<Longrightarrow> length (mh_board h) + n \<le> 5 \<Longrightarrow>
    length (mh_board (deal_to_board n h)) = length (mh_board h) + n"
  by (simp add: deal_to_board_fields cards_ok_def)

lemma cards_frame [simp]:
  "cards_ok (h\<lparr>mh_phase := ph\<rparr>) = cards_ok h"
  "cards_ok (h\<lparr>mh_to_act := ta\<rparr>) = cards_ok h"
  "cards_ok (h\<lparr>mh_showdown_progress := pr\<rparr>) = cards_ok h"
  "cards_ok (h\<lparr>mh_showdown_evaluations := ev\<rparr>) = cards_ok h"
  "cards_ok (h\<lparr>mh_revealed_hands := re\<rparr>) = cards_ok h"
  "cards_ok (h\<lparr>mh_mucked_hands := mu\<rparr>) = cards_ok h"
  "cards_ok (h\<lparr>mh_current_wager := cw\<rparr>) = cards_ok h"
  "cards_ok (h\<lparr>mh_last_full_raise_size := lf\<rparr>) = cards_ok h"
  "cards_ok (h\<lparr>mh_action_history := ah\<rparr>) = cards_ok h"
  "cards_ok (h\<lparr>mh_awards := aw\<rparr>) = cards_ok h"
  "cards_ok (h\<lparr>mh_settled_contributions := sc\<rparr>) = cards_ok h"
  "cards_ok (h\<lparr>mh_paced_showdown := ps\<rparr>) = cards_ok h"
  by (simp_all add: cards_ok_def)

lemma top_contributor_frame [simp]:
  "top_contributor (h\<lparr>mh_board := b\<rparr>) = top_contributor h"
  "top_contributor (h\<lparr>mh_deck := d\<rparr>) = top_contributor h"
  "top_contributor (h\<lparr>mh_phase := ph\<rparr>) = top_contributor h"
  "top_contributor (h\<lparr>mh_to_act := ta\<rparr>) = top_contributor h"
  "top_contributor (h\<lparr>mh_showdown_progress := pr\<rparr>) = top_contributor h"
  "top_contributor (h\<lparr>mh_showdown_evaluations := ev\<rparr>) = top_contributor h"
  "top_contributor (h\<lparr>mh_revealed_hands := re\<rparr>) = top_contributor h"
  "top_contributor (h\<lparr>mh_mucked_hands := mu\<rparr>) = top_contributor h"
  by (simp_all add: top_contributor_def)

subsection \<open>Advancing a showdown\<close>

lemma showdown_walk_returns:
  assumes "mh_showdown_evaluations h0 = seat_evaluations h0"
    and "reveals_of (h0\<lparr>mh_showdown_progress := Some pr\<rparr>) h" "set ss \<subseteq> set (eligible_seats h0)"
  shows "\<exists>stopped h' pr'. showdown_walk ss h = Some (stopped, h') \<and>
     reveals_of (h0\<lparr>mh_showdown_progress := Some pr'\<rparr>) h' \<and>
     sd_all_in pr' = sd_all_in pr \<and> sd_order pr' = sd_order pr \<and>
     sd_cursor pr' \<le> sd_cursor pr + length ss \<and> (stopped \<longrightarrow> sd_cursor pr < sd_cursor pr')"
  using assms(2,3)
proof (induction ss arbitrary: pr h)
  case Nil
  then show ?case by auto
next
  case (Cons s ss)
  obtain r m where h: "h = h0\<lparr>mh_showdown_progress := Some pr, mh_revealed_hands := r, mh_mucked_hands := m\<rparr>"
    using Cons.prems(1) unfolding reveals_of_def by blast
  define pr1 where "pr1 = pr\<lparr>sd_cursor := sd_cursor pr + 1\<rparr>"
  define h1 where "h1 = h\<lparr>mh_showdown_progress := Some pr1\<rparr>"
  define g where "g = h0\<lparr>mh_showdown_progress := Some pr1\<rparr>"
  have rev1: "reveals_of g h1"
    using Cons.prems(1) by (simp add: reveals_of_def h1_def h g_def revealed_in_def mucked_lose_def)
  have el: "s \<in> set (eligible_seats g)" using Cons.prems(2) by (simp add: g_def)
  have asked: "beaten_by_tabled_hands h1 s = Some (is_beaten h1 s)"
    by (rule reveals_beaten [OF _ rev1 el]) (simp add: g_def assms(1))
  define beaten where "beaten = (if s \<in> mh_always_show h1 then False else is_beaten h1 s)"
  have beaten: "(if s \<in> mh_always_show h1 then Some False else beaten_by_tabled_hands h1 s) = Some beaten"
    by (simp add: asked beaten_def)
  have prog: "mh_showdown_progress h = Some pr" by (simp add: h)
  define h2 where "h2 = h1\<lparr>mh_mucked_hands := mh_mucked_hands h1 @ [s]\<rparr>"
  define pr2 where "pr2 = pr1\<lparr>sd_mucked := mh_mucked_hands h2\<rparr>"
  define h3 where "h3 = h2\<lparr>mh_showdown_progress := Some pr2\<rparr>"
  have prog2: "mh_showdown_progress h2 = Some pr1" by (simp add: h2_def h1_def)
  have walk: "showdown_walk (s # ss) h
      = (if \<not> beaten then Some (True, table_cards h1 s) else showdown_walk ss h3)"
    by (simp only: showdown_walk.simps Let_def prog Option.bind.bind_lunit pr1_def [symmetric] h1_def [symmetric]
        beaten h2_def [symmetric] prog2 pr2_def [symmetric] h3_def [symmetric])
  show ?case
  proof (cases beaten)
    case False
    have "reveals_of (h0\<lparr>mh_showdown_progress := Some pr1\<rparr>) (table_cards h1 s)"
      using table_cards_reveals [OF rev1 el] by (simp add: g_def)
    then show ?thesis
      using walk False
      by (intro exI [of _ True] exI [of _ "table_cards h1 s"] exI [of _ pr1]) (simp add: pr1_def)
  next
    case True
    have "is_beaten h1 s" using True by (simp add: beaten_def split: if_splits)
    then have "reveals_of g h2"
      unfolding h2_def by (rule muck_reveals [OF rev1])
    then have rev3: "reveals_of (h0\<lparr>mh_showdown_progress := Some pr2\<rparr>) h3"
      by (simp add: reveals_of_def h3_def g_def revealed_in_def mucked_lose_def h2_def h1_def h)
    have "set ss \<subseteq> set (eligible_seats h0)" using Cons.prems(2) by simp
    from Cons.IH [OF rev3 this] obtain stopped h' pr' where
      "showdown_walk ss h3 = Some (stopped, h')"
      "reveals_of (h0\<lparr>mh_showdown_progress := Some pr'\<rparr>) h'"
      "sd_all_in pr' = sd_all_in pr2" "sd_order pr' = sd_order pr2"
      "sd_cursor pr' \<le> sd_cursor pr2 + length ss" "stopped \<longrightarrow> sd_cursor pr2 < sd_cursor pr'"
      by blast
    then show ?thesis
      unfolding walk using True
      by (intro exI [of _ stopped] exI [of _ h'] exI [of _ pr']) (auto simp: pr2_def pr1_def)
  qed
qed

lemma reveals_of_simps:
  assumes "reveals_of h0 h"
  shows "eligible_seats h = eligible_seats h0" "hand_pots h = hand_pots h0" "hand_of h = hand_of h0"
    and "seat_evaluations h = seat_evaluations h0" "money_ok h = money_ok h0" "cards_ok h = cards_ok h0"
    and "top_contributor h = top_contributor h0" "pot_eligible_count h = pot_eligible_count h0"
    and "mh_board h = mh_board h0" "mh_awards h = mh_awards h0" "mh_to_act h = mh_to_act h0"
    and "mh_showdown_evaluations h = mh_showdown_evaluations h0" "mh_phase h = mh_phase h0"
    and "mh_showdown_progress h = mh_showdown_progress h0" "hand_cards h = hand_cards h0"
    and "mh_initial_total h = mh_initial_total h0" "mh_paced_showdown h = mh_paced_showdown h0"
    and "mh_table_size h = mh_table_size h0" "mh_button h = mh_button h0"
    and "occupied_seats h = occupied_seats h0"
proof -
  obtain r m where h: "h = h0\<lparr>mh_revealed_hands := r, mh_mucked_hands := m\<rparr>"
    using assms unfolding reveals_of_def by blast
  show "eligible_seats h = eligible_seats h0" "hand_pots h = hand_pots h0" "hand_of h = hand_of h0"
    and "seat_evaluations h = seat_evaluations h0" "money_ok h = money_ok h0" "cards_ok h = cards_ok h0"
    and "top_contributor h = top_contributor h0" "pot_eligible_count h = pot_eligible_count h0"
    and "mh_board h = mh_board h0" "mh_awards h = mh_awards h0" "mh_to_act h = mh_to_act h0"
    and "mh_showdown_evaluations h = mh_showdown_evaluations h0" "mh_phase h = mh_phase h0"
    and "mh_showdown_progress h = mh_showdown_progress h0" "hand_cards h = hand_cards h0"
    and "mh_initial_total h = mh_initial_total h0" "mh_paced_showdown h = mh_paced_showdown h0"
    and "mh_table_size h = mh_table_size h0" "mh_button h = mh_button h0"
    and "occupied_seats h = occupied_seats h0"
    by (simp_all add: h)
qed

text \<open>Resolving a finished showdown.\<close>

lemma resolve_finished:
  assumes "money_ok h" "cards_ok h" "top_contributor h" "mh_awards h = []" "revealed_in h" "mucked_lose h"
    and "mh_showdown_evaluations h = [] \<or> mh_showdown_evaluations h = seat_evaluations h"
    and "mh_showdown_progress h = None"
  shows "\<exists>h'. resolve_showdown h = Some h' \<and> done_ok h' \<and> same_game h h' \<and> mh_phase h' = Showdown"
proof -
  obtain h' as where h': "resolve_showdown h = Some h'" "settled_from h as h'"
    using resolve_showdown_returns [OF money_bounded [OF assms(1)] assms(3,5,6,7)] by blast
  then show ?thesis
    using settled_done [OF h'(2) assms(1,2,4,8)] settled_same_game [OF h'(2)] by (auto simp: settled_from_def)
qed

lemma showdown_okD:
  assumes "showdown_ok h"
  obtains pr where "mh_showdown_progress h = Some pr" "progress_ok h pr"
  using assms by (auto simp: showdown_ok_def split: option.splits)

lemma showdown_deal:
  assumes "showdown_ok h" "mh_showdown_progress h = Some pr" "sd_all_in pr" "length (mh_board h) < 5"
    and "h' = (deal_to_board (if mh_board h = [] then 3 else 1) h)\<lparr>mh_phase := ph\<rparr>"
  shows "showdown_ok h'" "showdown_left h' < showdown_left h"
    and "same_game h h'"
proof -
  define n where "n = (if mh_board h = [] then 3 else 1 :: nat)"
  have pr: "progress_ok h pr" and ok: "cards_ok h" "money_ok h"
    using assms(1,2) by (auto simp: showdown_ok_def)
  have board: "length (mh_board h) \<in> {0, 3, 4}"
    using pr assms(3,4) by (auto simp: progress_ok_def)
  then have len: "length (mh_board (deal_to_board n h)) = length (mh_board h) + n"
    by (intro deal_to_board_length [OF ok(1)]) (auto simp: n_def)
  have h': "h' = (deal_to_board n h)\<lparr>mh_phase := ph\<rparr>"
    using assms(5) by (simp add: n_def)
  have "length (mh_board h') \<in> {3, 4, 5}"
    using board len by (auto simp: h' n_def)
  then have "progress_ok h' pr"
    using pr assms(3) by (auto simp: progress_ok_def h' deal_to_board_fields)
  moreover have "cards_ok h'"
    using deal_to_board_ok [OF ok(1)] by (simp add: h')
  moreover have "mucked_lose h'"
    using pr assms(3) by (simp add: mucked_lose_def progress_ok_def h' deal_to_board_fields)
  ultimately show "showdown_ok h'"
    using assms(1,2)
    by (simp add: showdown_ok_def h' deal_to_board_fields revealed_in_def)
  show "showdown_left h' < showdown_left h"
  proof -
    have "mh_showdown_progress h' = Some pr" using assms(2) by (simp add: h' deal_to_board_fields)
    moreover have "length (mh_board h') = length (mh_board h) + n" using len by (simp add: h')
    moreover have "0 < n" by (simp add: n_def)
    ultimately show ?thesis using assms(2-4) by (simp add: showdown_left_def)
  qed
  have "hand_cards h' = hand_cards h" by (simp add: h' deal_to_board_cards)
  then show "same_game h h'"
    by (simp add: same_game_def) (simp add: h' deal_to_board_fields)
qed

lemma advance_showdown_step:
  assumes "showdown_ok h"
  shows "\<exists>h'. advance_showdown h = Some (True, h') \<and> same_game h h' \<and>
    (showdown_ok h' \<and> showdown_left h' < showdown_left h \<or> done_ok h' \<and> mh_phase h' = Showdown)"
proof -
  obtain pr where prog: "mh_showdown_progress h = Some pr" and pr: "progress_ok h pr"
    using assms by (rule showdown_okD)
  have count: "pot_eligible_count h \<noteq> 1"
    using assms by (simp add: showdown_ok_def)
  have cursor: "\<not> length (sd_order pr) < sd_cursor pr"
    using pr by (simp add: progress_ok_def)
  show ?thesis
  proof (cases "sd_all_in pr \<and> length (mh_board h) < 5")
    case True
    then show ?thesis
      using showdown_deal [OF assms prog _ _ refl] count
      by (simp add: advance_showdown_def prog Let_def split del: if_split)
  next
    case False
    define ss where "ss = drop (sd_cursor pr) (sd_order pr)"
    have ok: "money_ok h" "cards_ok h" "top_contributor h" "mh_awards h = []" "revealed_in h" "mucked_lose h"
      using assms by (simp_all add: showdown_ok_def)
    have "\<exists>stopped h1 pr1. showdown_walk ss h = Some (stopped, h1) \<and>
       reveals_of (h\<lparr>mh_showdown_progress := Some pr1\<rparr>) h1 \<and>
       sd_all_in pr1 = sd_all_in pr \<and> sd_order pr1 = sd_order pr \<and>
       sd_cursor pr1 \<le> length (sd_order pr) \<and> (stopped \<longrightarrow> sd_cursor pr < sd_cursor pr1 \<and> \<not> sd_all_in pr1)"
    proof (cases "sd_all_in pr")
      case True
      then have "ss = []" using pr by (simp add: progress_ok_def ss_def)
      moreover have "reveals_of (h\<lparr>mh_showdown_progress := Some pr\<rparr>) h"
        using ok(5,6) prog by (simp add: reveals_of_def)
      ultimately show ?thesis using pr by (auto simp: progress_ok_def)
    next
      case False
      have "reveals_of (h\<lparr>mh_showdown_progress := Some pr\<rparr>) h"
        using ok(5,6) prog by (simp add: reveals_of_def)
      moreover have "set ss \<subseteq> set (eligible_seats h)"
        using pr set_drop_subset by (fastforce simp: progress_ok_def ss_def)
      moreover have "mh_showdown_evaluations h = seat_evaluations h"
        using pr False by (simp add: progress_ok_def)
      ultimately show ?thesis
        using showdown_walk_returns [of h pr h ss] False cursor by (fastforce simp: ss_def)
    qed
    then obtain stopped h1 pr1 where walk: "showdown_walk ss h = Some (stopped, h1)"
      and rev: "reveals_of (h\<lparr>mh_showdown_progress := Some pr1\<rparr>) h1"
      and pr1: "sd_all_in pr1 = sd_all_in pr" "sd_order pr1 = sd_order pr"
        "sd_cursor pr1 \<le> length (sd_order pr)"
        "stopped \<Longrightarrow> sd_cursor pr < sd_cursor pr1" "stopped \<Longrightarrow> \<not> sd_all_in pr1"
      by auto
    note same = reveals_of_simps [OF rev, simplified]
    have lists: "revealed_in h1" "mucked_lose h1"
      using rev by (simp_all add: reveals_of_def)
    have evals: "mh_showdown_evaluations h = [] \<or> mh_showdown_evaluations h = seat_evaluations h"
      using pr by (auto simp: progress_ok_def split: if_splits)
    have adv: "advance_showdown h = (if stopped then Some (True, h1)
        else map_option (Pair True) (resolve_showdown (h1\<lparr>mh_showdown_progress := None\<rparr>)))"
      using count False cursor walk
      by (simp only: advance_showdown_def prog ss_def option.case if_False Option.bind.bind_lunit prod.case)
    show ?thesis
    proof (cases stopped)
      case True
      have "progress_ok h1 pr1"
        using pr pr1(5) [OF True] pr1(1-3) by (simp add: progress_ok_def same)
      then have "showdown_ok h1"
        using assms lists prog by (simp add: showdown_ok_def same)
      moreover have "showdown_left h1 < showdown_left h"
        using pr1(1-3) pr1(4,5) [OF True] by (simp add: showdown_left_def prog same)
      ultimately show ?thesis
        using adv True same by (simp add: same_game_def)
    next
      case stopped: False
      have "\<exists>h'. resolve_showdown (h1\<lparr>mh_showdown_progress := None\<rparr>) = Some h' \<and> done_ok h' \<and>
          same_game (h1\<lparr>mh_showdown_progress := None\<rparr>) h' \<and> mh_phase h' = Showdown"
        using resolve_finished [of "h1\<lparr>mh_showdown_progress := None\<rparr>"] ok lists evals
        by (simp add: same revealed_in_def mucked_lose_def)
      then show ?thesis
        using adv stopped same by (auto simp: same_game_def)
    qed
  qed
qed

lemma advance_showdown_idle: "mh_showdown_progress h = None \<Longrightarrow> advance_showdown h = Some (False, h)"
  by (simp add: advance_showdown_def)

lemma drain_showdown_ends:
  assumes "showdown_ok h"
  shows "\<exists>h'. drain_showdown h = Some h' \<and> done_ok h' \<and> mh_phase h' = Showdown \<and> same_game h h'"
  using assms
proof (induction "showdown_left h" arbitrary: h rule: less_induct)
  case less
  obtain h1 where step: "advance_showdown h = Some (True, h1)" "same_game h h1"
    and next_state: "showdown_ok h1 \<and> showdown_left h1 < showdown_left h \<or> done_ok h1 \<and> mh_phase h1 = Showdown"
    using advance_showdown_step [OF less.prems] by blast
  have unfold: "drain_showdown h = drain_showdown h1"
    by (simp add: drain_showdown.simps [of h] step)
  from next_state show ?case
  proof
    assume "showdown_ok h1 \<and> showdown_left h1 < showdown_left h"
    then show ?thesis
      using less.hyps [of h1] step(2) unfold by (auto simp: same_game_def)
  next
    assume settled: "done_ok h1 \<and> mh_phase h1 = Showdown"
    then have "drain_showdown h1 = Some h1"
      by (simp add: drain_showdown.simps [of h1] advance_showdown_idle done_ok_def)
    then show ?thesis using settled step(2) unfold by auto
  qed
qed

end
