(* ===== verification/Betting_Facts.thy ===== *)
theory Betting_Facts
  imports Hand_Invariant
begin

text \<open>
  Betting keeps the invariant: what an accepted action does to the acting seat, the completion of
  a street, the deal of the next one, and the transitions into the showdown and into a win by
  folds. None of these steps panics.
\<close>

subsection \<open>Reading the wager condition seat by seat\<close>

lemma mid_shape: "mid_ok h \<Longrightarrow> mw_shape h"
  by (simp add: mid_ok_def money_ok_def)

lemma mid_seat_wf: "mid_ok h \<Longrightarrow> mw_seat h s = Some st \<Longrightarrow> seat_wf (mh_current_wager h) st"
proof -
  assume mid: "mid_ok h" and st: "mw_seat h s = Some st"
  have "st \<in> set (occupied_states h)"
    using st set_occupied_states [OF mid_shape [OF mid]] by blast
  then show ?thesis using mid by (simp add: mid_ok_def wagers_ok_def)
qed

lemma mid_leader:
  assumes "mid_ok h"
  obtains s st where "mw_seat h s = Some st" "leads h st"
  using assms set_occupied_states [OF mid_shape [OF assms]]
  by (auto simp: mid_ok_def wagers_ok_def)

lemma leads_prior:
  assumes "mid_ok h" "leads h ld" "mw_seat h s = Some st"
  shows "prior st \<le> prior ld" "ms_participation st = Live \<Longrightarrow> prior st = prior ld"
  using assms set_occupied_states [OF mid_shape [OF assms(1)]] by (auto simp: leads_def)

lemma wagers_okI:
  assumes "mw_shape h" "\<And>s st. mw_seat h s = Some st \<Longrightarrow> seat_wf (mh_current_wager h) st"
    and "mw_seat h l = Some ld" "eligible_for_pot ld" "ms_street_contribution ld = mh_current_wager h"
    and "\<And>s st. mw_seat h s = Some st \<Longrightarrow> prior st \<le> prior ld \<and>
      (ms_participation st = Live \<longrightarrow> prior st = prior ld)"
  shows "wagers_ok h"
  using assms set_occupied_states [OF assms(1)]
  by (auto simp: wagers_ok_def leads_def intro!: bexI [of _ ld])

lemma seat_bounded:
  assumes "money_ok h" "mw_seat h s = Some st"
  shows "ms_stack st + ms_hand_contribution st < u32_bound"
proof -
  have "ms_stack st + ms_hand_contribution st \<le> seat_total (\<lambda>st. ms_stack st + ms_hand_contribution st) h"
    using assms by (intro seat_total_ge) (simp_all add: money_ok_def)
  then show ?thesis
    using assms(1) by (simp add: money_ok_def seat_total_add [symmetric])
qed

lemma live_can_act: "mid_ok h \<Longrightarrow> mw_seat h s = Some st \<Longrightarrow> can_act st \<longleftrightarrow> ms_participation st = Live"
  using mid_seat_wf by (auto simp: can_act_def seat_wf_def)

lemma mid_top_contributor:
  assumes "mid_ok h"
  shows "top_contributor h"
proof -
  obtain l ld where ld: "mw_seat h l = Some ld" "leads h ld"
    using assms by (rule mid_leader)
  have "ms_hand_contribution st \<le> ms_hand_contribution ld" if "mw_seat h s = Some st" for s st
  proof -
    have "prior st \<le> prior ld" by (rule leads_prior(1) [OF assms ld(2) that])
    moreover have "ms_street_contribution st \<le> ms_street_contribution ld"
      using mid_seat_wf [OF assms that] ld(2) by (simp add: seat_wf_def leads_def)
    moreover have "ms_street_contribution ld \<le> ms_hand_contribution ld"
      "ms_street_contribution st \<le> ms_hand_contribution st"
      using mid_seat_wf [OF assms that] mid_seat_wf [OF assms ld(1)] by (simp_all add: seat_wf_def)
    ultimately show ?thesis unfolding prior_def by arith
  qed
  then show ?thesis
    using ld set_occupied_states [OF mid_shape [OF assms]]
    by (auto simp: top_contributor_def leads_def intro!: bexI [of _ ld])
qed

subsection \<open>The acting seat\<close>

text \<open>
  An action changes one seat, the wager and the size of the last full raise. The conditions on
  the new seat under which the invariant of a street is kept.
\<close>

definition seat_step :: "multiway_hand \<Rightarrow> multiway_seat_state \<Rightarrow> multiway_seat_state \<Rightarrow> u32 \<Rightarrow> bool" where
  "seat_step h st st' wager' \<longleftrightarrow>
     ms_stack st' + ms_hand_contribution st' = ms_stack st + ms_hand_contribution st \<and>
     prior st' = prior st \<and> ms_street_contribution st' \<le> ms_hand_contribution st' \<and>
     ms_hole_cards st' = ms_hole_cards st \<and>
     ms_street_contribution st' \<le> wager' \<and>
     (ms_participation st' = Live \<longrightarrow> 0 < ms_stack st' \<and> ms_participation st = Live) \<and>
     (eligible_for_pot st' \<and> ms_street_contribution st' = wager' \<and> mh_current_wager h \<le> wager' \<and>
        ms_participation st = Live \<or>
      wager' = mh_current_wager h \<and> ms_street_contribution st < wager' \<or>
      wager' = mh_current_wager h \<and> ms_street_contribution st' = ms_street_contribution st \<and>
        (eligible_for_pot st \<longrightarrow> eligible_for_pot st'))"

lemma mw_seat_set_seat:
  "s < length (mh_seats h) \<Longrightarrow> mw_seat (mw_set_seat h s st) t = (if t = s then Some st else mw_seat h t)"
  by (simp add: mw_set_seat_def mw_seat_def)

lemma set_seat_fields [simp]:
  "mh_phase (mw_set_seat h s st) = mh_phase h" "mh_table_size (mw_set_seat h s st) = mh_table_size h"
  "mh_board (mw_set_seat h s st) = mh_board h" "mh_button (mw_set_seat h s st) = mh_button h"
  "mh_blind_values (mw_set_seat h s st) = mh_blind_values h" "mh_to_act (mw_set_seat h s st) = mh_to_act h"
  "mh_current_wager (mw_set_seat h s st) = mh_current_wager h"
  "mh_last_full_raise_size (mw_set_seat h s st) = mh_last_full_raise_size h"
  "mh_action_history (mw_set_seat h s st) = mh_action_history h"
  "mh_awards (mw_set_seat h s st) = mh_awards h" "mh_deck (mw_set_seat h s st) = mh_deck h"
  "mh_revealed_hands (mw_set_seat h s st) = mh_revealed_hands h"
  "mh_mucked_hands (mw_set_seat h s st) = mh_mucked_hands h"
  "mh_showdown_progress (mw_set_seat h s st) = mh_showdown_progress h"
  "mh_showdown_evaluations (mw_set_seat h s st) = mh_showdown_evaluations h"
  "mh_initial_total (mw_set_seat h s st) = mh_initial_total h"
  "mh_paced_showdown (mw_set_seat h s st) = mh_paced_showdown h"
  by (simp_all add: mw_set_seat_def)

lemma occupied_set_seat [simp]:
  "mw_seat h s = Some st0 \<Longrightarrow> occupied_seats (mw_set_seat h s st) = occupied_seats h"
  by (rule same_occupied) (auto simp: mw_seat_set_seat [OF mw_seat_bound])

lemma hand_cards_set_seat:
  assumes "mw_seat h s = Some st0" "ms_hole_cards st = ms_hole_cards st0"
  shows "hand_cards (mw_set_seat h s st) = hand_cards h"
proof -
  have "map ms_hole_cards (occupied_states (mw_set_seat h s st)) = map ms_hole_cards (occupied_states h)"
    using assms by (auto simp: occupied_states_map mw_seat_set_seat [OF mw_seat_bound])
  then show ?thesis by (simp add: hand_cards_def hole_cards_def)
qed

lemma money_set_seat:
  assumes "money_ok h" "mw_seat h s = Some st0"
    and "ms_stack st + ms_hand_contribution st = ms_stack st0 + ms_hand_contribution st0"
  shows "money_ok (mw_set_seat h s st)"
proof -
  have shape: "mw_shape h" using assms(1) by (simp add: money_ok_def)
  show ?thesis
    using assms(1,3) seat_total_set_seat [OF shape assms(2), of ms_stack st]
      seat_total_set_seat [OF shape assms(2), of ms_hand_contribution st]
    by (simp add: money_ok_def)
qed

lemma mid_ok_step:
  assumes "mid_ok h" "mw_seat h s = Some st" "seat_step h st st' wager" "0 < raise_size"
    and h': "h' = (mw_set_seat h s st')\<lparr>mh_current_wager := wager, mh_last_full_raise_size := raise_size\<rparr>"
  shows "mid_ok h'"
proof -
  note sh = mid_shape [OF assms(1)]
  note step = assms(3) [unfolded seat_step_def]
  obtain l ld where ld: "mw_seat h l = Some ld" "leads h ld"
    using assms(1) by (rule mid_leader)
  have read: "mw_seat h' t = (if t = s then Some st' else mw_seat h t)" for t
    using mw_seat_bound [OF assms(2)] by (simp add: h' mw_seat_set_seat)
  have wager: "mh_current_wager h' = wager" by (simp add: h')
  have grows: "mh_current_wager h \<le> wager" using step by auto
  have wf: "seat_wf wager x" if "mw_seat h' t = Some x" for t x
  proof (cases "t = s")
    case True
    then show ?thesis using that step by (auto simp: read seat_wf_def)
  next
    case False
    then have "seat_wf (mh_current_wager h) x"
      using that mid_seat_wf [OF assms(1)] by (simp add: read)
    then show ?thesis using grows by (auto simp: seat_wf_def)
  qed
  have priors: "prior x \<le> prior ld \<and> (ms_participation x = Live \<longrightarrow> prior x = prior ld)"
    if "mw_seat h' t = Some x" for t x
    using that step leads_prior [OF assms(1) ld(2)] assms(2) by (auto simp: read split: if_splits)
  have shape': "mw_shape h'" using sh by (simp add: h')
  have "wagers_ok h'"
  proof -
    consider "eligible_for_pot st'" "ms_street_contribution st' = wager" "ms_participation st = Live"
      | "wager = mh_current_wager h" "l \<noteq> s"
      | "wager = mh_current_wager h" "l = s" "ms_street_contribution st' = ms_street_contribution st"
        "eligible_for_pot st \<longrightarrow> eligible_for_pot st'"
      using step ld assms(2) by (cases "l = s") (auto simp: leads_def)
    then show ?thesis
    proof cases
      case 1
      have "prior st' = prior ld"
        using 1 step leads_prior(2) [OF assms(1) ld(2) assms(2)] by simp
      then show ?thesis
        using wagers_okI [OF shape', of s st'] wf priors 1 by (simp add: wager read)
    next
      case 2
      then show ?thesis
        using wagers_okI [OF shape', of l ld] wf priors ld by (simp add: wager read leads_def)
    next
      case 3
      then have "ld = st" using ld assms(2) by simp
      then show ?thesis
        using wagers_okI [OF shape', of s st'] wf priors 3 ld step by (simp add: wager read leads_def)
    qed
  qed
  moreover have "money_ok h'"
    using money_set_seat [OF _ assms(2)] assms(1) step by (simp add: h' mid_ok_def)
  moreover have "cards_ok h'"
    using hand_cards_set_seat [OF assms(2)] assms(1) step by (simp add: h' mid_ok_def cards_ok_def)
  ultimately show ?thesis
    using assms(1,4) by (simp add: mid_ok_def before_showdown_def) (simp add: h')
qed

subsection \<open>Streets\<close>

lemma live_filter:
  assumes "mid_ok h"
  shows "set (filter (mw_holds h can_act) (occupied_seats h)) =
    {s. \<exists>st. mw_seat h s = Some st \<and> ms_participation st = Live}"
  using set_occupied_seats [OF mid_shape [OF assms]] live_can_act [OF assms]
  by (auto simp: mw_holds_iff)

lemma needs_action_iff:
  "mw_seat h s = Some st \<Longrightarrow> needs_action h s \<longleftrightarrow> can_act st \<and>
     (ms_last_action_wager st = None \<or> ms_street_contribution st < mh_current_wager h)"
  by (simp add: needs_action_def)

lemma betting_round_complete_cases:
  "betting_round_complete h \<longleftrightarrow> (let live = filter (mw_holds h can_act) (occupied_seats h) in
     if length live = 1
     then mw_holds h (\<lambda>st. mh_current_wager h \<le> ms_street_contribution st) (live ! 0)
     else list_all (\<lambda>s. \<not> needs_action h s) live)"
  by (auto simp: betting_round_complete_def Let_def split: list.splits)

lemma turn_frame [simp]:
  "needs_action (h\<lparr>mh_to_act := t\<rparr>) = needs_action h"
  "betting_round_complete (h\<lparr>mh_to_act := t\<rparr>) = betting_round_complete h"
proof -
  show "needs_action (h\<lparr>mh_to_act := t\<rparr>) = needs_action h"
    by (simp add: fun_eq_iff needs_action_def)
  then show "betting_round_complete (h\<lparr>mh_to_act := t\<rparr>) = betting_round_complete h"
    by (simp add: betting_round_complete_cases Let_def)
qed

lemma complete_matches:
  assumes "mid_ok h" "betting_round_complete h" "mw_seat h s = Some st" "ms_participation st = Live"
  shows "ms_street_contribution st = mh_current_wager h"
proof -
  define live where "live = filter (mw_holds h can_act) (occupied_seats h)"
  have s: "s \<in> set live"
    using live_filter [OF assms(1)] assms(3,4) by (auto simp: live_def)
  have can: "can_act st" using live_can_act [OF assms(1,3)] assms(4) by simp
  have "mh_current_wager h \<le> ms_street_contribution st"
  proof (cases "length live = 1")
    case True
    then have "live ! 0 = s" using s by (cases live) auto
    then show ?thesis
      using True assms(2,3) by (simp add: betting_round_complete_cases live_def [symmetric] Let_def)
  next
    case False
    then have "\<not> needs_action h s"
      using s assms(2) by (simp add: betting_round_complete_cases live_def [symmetric] Let_def list_all_iff)
    then show ?thesis using can by (simp add: needs_action_iff [OF assms(3)])
  qed
  then show ?thesis
    using mid_seat_wf [OF assms(1,3)] by (simp add: seat_wf_def)
qed

lemma incomplete_needs:
  assumes "\<not> betting_round_complete h"
  shows "\<exists>s. needs_action h s \<and> s \<in> set (occupied_seats h)"
proof -
  define live where "live = filter (mw_holds h can_act) (occupied_seats h)"
  show ?thesis
  proof (cases "length live = 1")
    case True
    then have only: "live ! 0 \<in> set live" by simp
    then obtain st where st: "mw_seat h (live ! 0) = Some st" "can_act st"
      by (auto simp: live_def mw_holds_iff)
    have "\<not> mh_current_wager h \<le> ms_street_contribution st"
      using assms True st(1) by (simp add: betting_round_complete_cases live_def [symmetric] Let_def)
    then have "needs_action h (live ! 0)"
      using st by (simp add: needs_action_iff)
    then show ?thesis using only by (auto simp: live_def)
  next
    case False
    then show ?thesis
      using assms
      by (auto simp: betting_round_complete_cases live_def [symmetric] Let_def list_all_iff)
        (auto simp: live_def)
  qed
qed

lemma ring_search_total:
  assumes "mw_shape h" "P s" "\<And>s. P s \<Longrightarrow> \<exists>st. mw_seat h s = Some st" "start < mh_table_size h"
  shows "\<exists>t. first_match P (map (seat_wrapped (mh_table_size h) start) [1..<Suc (mh_table_size h)]) = Some t \<and> P t"
    and "\<exists>t. first_match P (map (seat_wrapped (mh_table_size h) start) [0..<mh_table_size h]) = Some t \<and> P t"
proof -
  let ?n = "mh_table_size h"
  obtain st where "mw_seat h s = Some st" using assms(2,3) by blast
  then have s: "s < ?n" using mw_seat_bound assms(1) by (force simp: mw_shape_def)
  have ring: "map (seat_wrapped ?n start) offsets = ring_from ?n offsets start" for offsets
    by (simp add: ring_from_def seat_wrapped_def)
  have found: "\<exists>t. first_match P xs = Some t \<and> P t" if "s \<in> set xs" for xs
  proof -
    have "\<exists>x\<in>set xs. P x" using that assms(2) by (intro bexI)
    then obtain t where "first_match P xs = Some t" using first_match_exists by metis
    then show ?thesis using first_match_SomeD [of P xs t] by simp
  qed
  have "s \<in> set (ring_from ?n [1..<Suc ?n] start)"
    using after.candidates_complete [OF assms(4) s] ring_includes_start(1) [OF assms(4)] by blast
  moreover have "s \<in> set (ring_from ?n [0..<?n] start)"
    using from_here.candidates_complete [OF assms(4) s] ring_includes_start(2) [OF assms(4)] by blast
  ultimately show "\<exists>t. first_match P (map (seat_wrapped ?n start) [1..<Suc ?n]) = Some t \<and> P t"
    and "\<exists>t. first_match P (map (seat_wrapped ?n start) [0..<?n]) = Some t \<and> P t"
    unfolding ring by (simp_all only: found)
qed


text \<open>The next street: contributions of the street go to zero, the hand contributions stay.\<close>

definition fresh_street_seat :: "multiway_seat_state \<Rightarrow> multiway_seat_state" where
  "fresh_street_seat st = st\<lparr>ms_street_contribution := 0, ms_last_action_wager := None\<rparr>"

lemma reset_street_map: "mw_shape h \<Longrightarrow> reset_street h = Some ((map_seats (\<lambda>_. fresh_street_seat) h)
    \<lparr>mh_current_wager := 0, mh_last_full_raise_size := bv_big_blind (mh_blind_values h), mh_to_act := None\<rparr>)"
  unfolding reset_street_def by (simp add: update_occupied_map fresh_street_seat_def [abs_def])

lemma money_map_seats:
  assumes "money_ok h" "\<And>s st. ms_stack (F s st) = ms_stack st"
    "\<And>s st. ms_hand_contribution (F s st) = ms_hand_contribution st"
  shows "money_ok (map_seats F h)"
  using assms seat_total_map_eq [of h ms_stack F ms_stack]
    seat_total_map_eq [of h ms_hand_contribution F ms_hand_contribution]
  by (simp add: money_ok_def)

lemma wagers_ok_fresh:
  assumes "mid_ok h" "betting_round_complete h"
    and seats: "\<And>s. mw_seat h' s = map_option fresh_street_seat (mw_seat h s)"
    and "mw_shape h'" "mh_current_wager h' = 0"
  shows "wagers_ok h'"
proof -
  obtain l ld where ld: "mw_seat h l = Some ld" "leads h ld"
    using assms(1) by (rule mid_leader)
  have hand: "ms_hand_contribution st = prior st + ms_street_contribution st" if "mw_seat h s = Some st" for s st
    using mid_seat_wf [OF assms(1) that] by (simp add: prior_def seat_wf_def)
  have ld_street: "ms_street_contribution ld = mh_current_wager h"
    using ld(2) by (simp add: leads_def)
  show ?thesis
  proof (rule wagers_okI [OF assms(4)])
    show "mw_seat h' l = Some (fresh_street_seat ld)"
      using ld by (simp add: seats)
    show "eligible_for_pot (fresh_street_seat ld)"
      using ld(2) by (simp add: fresh_street_seat_def eligible_for_pot_def leads_def)
    show "ms_street_contribution (fresh_street_seat ld) = mh_current_wager h'"
      by (simp add: fresh_street_seat_def assms(5))
  next
    fix s x
    assume "mw_seat h' s = Some x"
    then obtain st where st: "mw_seat h s = Some st" "x = fresh_street_seat st"
      by (auto simp: seats)
    then show "seat_wf (mh_current_wager h') x"
      using mid_seat_wf [OF assms(1) st(1)] by (simp add: seat_wf_def assms(5) fresh_street_seat_def)
    have "ms_street_contribution st \<le> ms_street_contribution ld"
      using mid_seat_wf [OF assms(1) st(1)] by (simp add: seat_wf_def ld_street)
    moreover have "ms_participation st = Live \<Longrightarrow> ms_street_contribution st = ms_street_contribution ld"
      using complete_matches [OF assms(1,2) st(1)] by (simp add: ld_street)
    ultimately show "prior x \<le> prior (fresh_street_seat ld) \<and>
        (ms_participation x = Live \<longrightarrow> prior x = prior (fresh_street_seat ld))"
      using leads_prior [OF assms(1) ld(2) st(1)] hand [OF st(1)] hand [OF ld(1)]
      by (auto simp: st(2) fresh_street_seat_def prior_def [of "_\<lparr>ms_street_contribution := 0,
          ms_last_action_wager := None\<rparr>"])
  qed
qed

definition next_phase :: "multiway_phase \<Rightarrow> multiway_phase" where
  "next_phase p = (case p of Preflop \<Rightarrow> Flop | Flop \<Rightarrow> Turn | _ \<Rightarrow> River)"

definition street_cards :: "multiway_phase \<Rightarrow> nat" where
  "street_cards p = (if p = Preflop then 3 else 1)"

definition dealt_street :: "multiway_hand \<Rightarrow> multiway_hand" where
  "dealt_street h = (deal_to_board (street_cards (mh_phase h)) ((map_seats (\<lambda>_. fresh_street_seat) h)
    \<lparr>mh_current_wager := 0, mh_last_full_raise_size := bv_big_blind (mh_blind_values h), mh_to_act := None\<rparr>))
    \<lparr>mh_phase := next_phase (mh_phase h)\<rparr>"

lemma mw_seat_deal [simp]: "mw_seat (deal_to_board n h) = mw_seat h"
  by (simp add: deal_to_board_fields)

lemma deal_to_board_same [simp]:
  "mh_table_size (deal_to_board n h) = mh_table_size h" "mh_button (deal_to_board n h) = mh_button h"
  "mh_to_act (deal_to_board n h) = mh_to_act h" "mh_phase (deal_to_board n h) = mh_phase h"
  "mh_current_wager (deal_to_board n h) = mh_current_wager h" "mh_awards (deal_to_board n h) = mh_awards h"
  "mh_last_full_raise_size (deal_to_board n h) = mh_last_full_raise_size h"
  "mh_blind_values (deal_to_board n h) = mh_blind_values h"
  "mh_initial_total (deal_to_board n h) = mh_initial_total h"
  "mh_paced_showdown (deal_to_board n h) = mh_paced_showdown h"
  "mh_showdown_progress (deal_to_board n h) = mh_showdown_progress h"
  "mh_showdown_evaluations (deal_to_board n h) = mh_showdown_evaluations h"
  "mh_revealed_hands (deal_to_board n h) = mh_revealed_hands h"
  "mh_mucked_hands (deal_to_board n h) = mh_mucked_hands h"
  "occupied_seats (deal_to_board n h) = occupied_seats h"
  "money_ok (deal_to_board n h) = money_ok h" "mw_shape (deal_to_board n h) = mw_shape h"
  by (simp_all add: deal_to_board_fields)

lemma dealt_street_cards: "hand_cards (dealt_street h) = hand_cards h"
proof -
  have "hole_cards (map_seats (\<lambda>_. fresh_street_seat) h) = hole_cards h"
    by (rule hole_cards_map_seats) (simp add: fresh_street_seat_def)
  then show ?thesis
    by (simp add: dealt_street_def deal_to_board_cards) (simp add: hand_cards_def)
qed

lemma dealt_street_seat: "mw_seat (dealt_street h) s = map_option fresh_street_seat (mw_seat h s)"
  by (simp add: dealt_street_def)

lemma dealt_street_mid:
  assumes "mid_ok h" "betting_round_complete h" "mh_phase h \<noteq> River"
  shows "mid_ok (dealt_street h)"
proof -
  define g where "g = (map_seats (\<lambda>_. fresh_street_seat) h)\<lparr>mh_current_wager := 0,
    mh_last_full_raise_size := bv_big_blind (mh_blind_values h), mh_to_act := None\<rparr>"
  have d: "dealt_street h = (deal_to_board (street_cards (mh_phase h)) g)\<lparr>mh_phase := next_phase (mh_phase h)\<rparr>"
    by (simp add: dealt_street_def g_def)
  have phase: "mh_phase h = Preflop \<or> mh_phase h = Flop \<or> mh_phase h = Turn"
    using assms(1,3) by (cases "mh_phase h") (auto simp: mid_ok_def)
  have "money_ok g"
    using assms(1) money_map_seats [of h "\<lambda>_. fresh_street_seat"]
    by (simp add: g_def mid_ok_def fresh_street_seat_def)
  moreover have "hand_cards g = hand_cards h" "mh_board g = mh_board h" "mh_deck g = mh_deck h"
    using hole_cards_map_seats [of "\<lambda>_. fresh_street_seat" h]
    by (simp_all add: g_def hand_cards_def hole_cards_def fresh_street_seat_def)
  then have cards: "cards_ok g" and board: "length (mh_board g) = board_size (mh_phase h)"
    using assms(1) by (simp_all add: cards_ok_def mid_ok_def)
  moreover have "length (mh_board (deal_to_board (street_cards (mh_phase h)) g)) = board_size (next_phase (mh_phase h))"
    using deal_to_board_length [OF cards, of "street_cards (mh_phase h)"] phase board
    by (auto simp: next_phase_def street_cards_def)
  moreover have "wagers_ok (dealt_street h)"
    using wagers_ok_fresh [OF assms(1,2) dealt_street_seat] mid_shape [OF assms(1)]
    by (simp add: dealt_street_def)
  ultimately show ?thesis
    using assms(1) phase deal_to_board_ok [OF cards, of "street_cards (mh_phase h)"]
    by (auto simp: mid_ok_def d next_phase_def before_showdown_def) (simp_all add: g_def)
qed

lemma pot_eligible_count_map:
  "mw_shape h \<Longrightarrow> pot_eligible_count h = card {s. \<exists>st. mw_seat h s = Some st \<and> eligible_for_pot st}"
  using distinct_card [OF distinct_eligible_seats, of h]
  by (simp add: pot_eligible_count_length set_eligible_seats)

lemma dealt_street_eligible: "pot_eligible_count (dealt_street h) = pot_eligible_count h"
proof -
  have "occupied_seats (dealt_street h) = occupied_seats h"
    by (simp add: dealt_street_def)
  moreover have "mw_holds (dealt_street h) eligible_for_pot = mw_holds h eligible_for_pot"
    by (auto simp: fun_eq_iff mw_holds_def dealt_street_seat fresh_street_seat_def eligible_for_pot_def
        split: option.splits)
  ultimately show ?thesis by (simp add: pot_eligible_count_def)
qed

text \<open>With two live seats and no showdown, the dealt street waits for a seat.\<close>

lemma not_locked:
  assumes "mid_ok h" "2 \<le> pot_eligible_count h"
    and "\<not> (length (filter (mw_holds h can_act) (occupied_seats h)) \<le> 1 \<and>
      list_ex (mw_holds h (\<lambda>st. ms_participation st = AllIn)) (occupied_seats h))"
  shows "2 \<le> length (filter (mw_holds h can_act) (occupied_seats h))"
proof (rule ccontr)
  let ?live = "filter (mw_holds h can_act) (occupied_seats h)"
  assume few: "\<not> 2 \<le> length ?live"
  then have "\<not> set (eligible_seats h) \<subseteq> set ?live"
    using assms(2) card_mono [of "set ?live" "set (eligible_seats h)"] distinct_card [of "eligible_seats h"]
      distinct_card [of ?live] by (fastforce simp: pot_eligible_count_length)
  then obtain s where s: "s \<in> set (eligible_seats h)" "s \<notin> set ?live" by blast
  then obtain st where "mw_seat h s = Some st" "ms_participation st = AllIn" "s \<in> set (occupied_seats h)"
    using live_filter [OF assms(1)] set_eligible_seats [OF mid_shape [OF assms(1)]] eligible_occupied
    by (auto simp: eligible_for_pot_def)
  then show False
    using few assms(3) by (auto simp: list_ex_iff)
qed

lemma two_members: "2 \<le> length xs \<Longrightarrow> distinct xs \<Longrightarrow> \<exists>x y. x \<in> set xs \<and> y \<in> set xs \<and> x \<noteq> y"
  by (cases xs; cases "tl xs") auto

lemma street_opens:
  assumes "mid_ok g" "2 \<le> length (filter (mw_holds g can_act) (occupied_seats g))"
    and "\<And>s st. mw_seat g s = Some st \<Longrightarrow> ms_last_action_wager st = None"
  shows "\<exists>s t. next_live_after g (mh_button g) = Some s \<and> first_needing_from g s = Some t \<and> needs_action g t"
    and "\<not> betting_round_complete g"
proof -
  have shape: "mw_shape g" by (rule mid_shape [OF assms(1)])
  have needs: "needs_action g s" if "mw_holds g can_act s" for s
    using that assms(3) by (auto simp: mw_holds_iff needs_action_iff)
  define live where "live = filter (mw_holds g can_act) (occupied_seats g)"
  have "hd live \<in> set live" using assms(2) by (intro hd_in_set) (auto simp: live_def)
  then have x: "mw_holds g can_act (hd live)" by (simp add: live_def)
  have button: "mh_button g < mh_table_size g" using assms(1) by (simp add: mid_ok_def)
  have "\<exists>s. next_live_after g (mh_button g) = Some s \<and> mw_holds g can_act s"
    unfolding next_live_after_def
    by (rule ring_search_total(1) [where P = "mw_holds g can_act", OF shape x _ button])
      (auto simp: mw_holds_iff)
  then obtain s where s: "next_live_after g (mh_button g) = Some s" "mw_holds g can_act s" by blast
  then have "s < mh_table_size g"
    using mw_seat_bound shape by (force simp: mw_holds_iff mw_shape_def)
  moreover have "needs_action g s" using needs s(2) .
  ultimately have "\<exists>t. first_needing_from g s = Some t \<and> needs_action g t"
    unfolding first_needing_from_def
    by (intro ring_search_total(2) [where P = "needs_action g" and s = s, OF shape])
      (auto simp: needs_action_def mw_holds_iff)
  then show "\<exists>s t. next_live_after g (mh_button g) = Some s \<and> first_needing_from g s = Some t \<and> needs_action g t"
    using s(1) by blast
  show "\<not> betting_round_complete g"
  proof -
    have "length live \<noteq> 1" "live \<noteq> []" using assms(2) by (auto simp: live_def)
    moreover have "\<forall>s\<in>set live. needs_action g s" using needs by (simp add: live_def)
    ultimately show ?thesis
      by (cases live) (auto simp: betting_round_complete_cases live_def [symmetric] Let_def)
  qed
qed

subsection \<open>Into the showdown\<close>

lemma foldl_table_cards:
  "reveals_of h0 h \<Longrightarrow> set ss \<subseteq> set (eligible_seats h0) \<Longrightarrow> reveals_of h0 (foldl table_cards h ss)"
  by (induction ss arbitrary: h) (auto intro: table_cards_reveals)

definition ends_betting :: "multiway_hand \<Rightarrow> multiway_hand \<Rightarrow> bool" where
  "ends_betting h h' \<longleftrightarrow> same_game h h' \<and>
     (if mh_paced_showdown h then showdown_ok h' else done_ok h')"

lemma begin_showdown_ends:
  assumes "mid_ok h" "2 \<le> pot_eligible_count h" "all_in \<or> mh_phase h = River"
  shows "\<exists>h'. begin_showdown all_in h = Some h' \<and> ends_betting h h'"
proof -
  note shape = mid_shape [OF assms(1)]
  note quiet = assms(1) [unfolded mid_ok_def before_showdown_def]
  define h1 where "h1 = h\<lparr>mh_to_act := None, mh_showdown_evaluations :=
    (if all_in then [] else seat_evaluations h)\<rparr>"
  have eval: "(if \<not> all_in then evaluate_showdown_once (h\<lparr>mh_to_act := None\<rparr>)
      else Some (h\<lparr>mh_to_act := None\<rparr>)) = Some h1"
  proof (cases all_in)
    case True
    then have "h1 = h\<lparr>mh_to_act := None\<rparr>" using quiet by (simp add: h1_def)
    then show ?thesis using True by simp
  next
    case False
    have "seat_evaluations (h\<lparr>mh_to_act := None\<rparr>) = seat_evaluations h"
      by (simp add: seat_evaluations_def)
    then show ?thesis
      using evaluate_showdown_once_evals [of "h\<lparr>mh_to_act := None\<rparr>"] quiet False by (simp add: h1_def)
  qed
  define order where "order = show_order h1"
  have order: "set order = set (eligible_seats h)"
    by (simp add: order_def set_show_order h1_def)
  have "length (eligible_seats h) \<noteq> 0" using assms(2) unfolding pot_eligible_count_length by linarith
  then have "set order \<noteq> {}" by (simp add: order)
  then obtain s ss where order_Cons: "order = s # ss" by (cases order) auto
  define pr where "pr = \<lparr>sd_all_in = all_in, sd_order = order, sd_cursor = 0, sd_mucked = []\<rparr>"
  define pr' where "pr' = pr\<lparr>sd_cursor := (if all_in then length order else 1)\<rparr>"
  define h2 where "h2 = (if all_in then foldl table_cards h1 order else table_cards h1 s)
    \<lparr>mh_showdown_progress := Some pr'\<rparr>"
  have started: "begin_showdown all_in h = (if \<not> mh_paced_showdown h2 then drain_showdown h2 else Some h2)"
  proof -
    have "(if all_in then (foldl table_cards h1 order)
            \<lparr>mh_showdown_progress := Some (pr\<lparr>sd_cursor := length order\<rparr>)\<rparr>
          else case order of
            first # _ \<Rightarrow> (table_cards h1 first) \<lparr>mh_showdown_progress := Some (pr\<lparr>sd_cursor := 1\<rparr>)\<rparr>
          | [] \<Rightarrow> h1\<lparr>mh_showdown_progress := Some pr\<rparr>) = h2"
      by (simp add: h2_def pr'_def order_Cons)
    moreover have "pot_eligible_count h \<noteq> 1" using assms(2) by simp
    ultimately show ?thesis
      by (simp only: begin_showdown_def Let_def eval Option.bind.bind_lunit if_False order_def [symmetric]
          pr_def [symmetric])
  qed
  have rev1: "reveals_of h1 h1"
    using quiet by (simp add: reveals_of_def revealed_in_def mucked_lose_def h1_def)
  define g where "g = (if all_in then foldl table_cards h1 order else table_cards h1 s)"
  have rev: "reveals_of h1 g"
    using rev1 order order_Cons
    by (auto simp: g_def h1_def intro!: foldl_table_cards table_cards_reveals)
  note same = reveals_of_simps [OF rev]
  have h2: "h2 = g\<lparr>mh_showdown_progress := Some pr'\<rparr>" by (simp add: h2_def g_def)
  have muck: "all_in \<Longrightarrow> mh_mucked_hands g = []"
  proof -
    have keep: "mh_mucked_hands (foldl table_cards x xs) = mh_mucked_hands x" for x xs
      by (induction xs arbitrary: x) (simp_all add: table_cards_def)
    show "all_in \<Longrightarrow> mh_mucked_hands g = []"
      using quiet by (simp add: g_def keep h1_def)
  qed
  have board: "length (mh_board h) \<in> {0, 3, 4, 5}" "\<not> all_in \<Longrightarrow> length (mh_board h) = 5"
    using quiet assms(3) by (cases "mh_phase h"; auto)+
  have evals: "seat_evaluations h1 = seat_evaluations h"
    by (simp add: seat_evaluations_def h1_def)
  have "progress_ok h2 pr'"
    using order board muck same evals order_Cons
    by (auto simp: progress_ok_def h2 pr'_def pr_def h1_def)
  moreover have "revealed_in h2" "mucked_lose h2"
    using rev by (simp_all add: reveals_of_def revealed_in_def mucked_lose_def h2)
  ultimately have ok: "showdown_ok h2"
    using assms(2) mid_top_contributor [OF assms(1)] quiet
    by (simp add: showdown_ok_def h2 same) (simp add: h1_def)
  have game: "same_game h h2"
    by (simp add: same_game_def h2 same) (simp add: h1_def)
  show ?thesis
  proof (cases "mh_paced_showdown h2")
    case True
    then show ?thesis using started ok game by (simp add: ends_betting_def same_game_def)
  next
    case False
    then show ?thesis
      using started drain_showdown_ends [OF ok] game by (auto simp: ends_betting_def same_game_def)
  qed
qed

subsection \<open>A win by folds\<close>

definition last_in :: "multiway_hand \<Rightarrow> seat_id" where
  "last_in h = hd (eligible_seats h)"

lemma first_match_filter: "first_match P xs = (case filter P xs of [] \<Rightarrow> None | x # _ \<Rightarrow> Some x)"
  by (induction xs) simp_all

lemma award_fold_returns:
  assumes "money_ok h" "cards_ok h" "eligible_seats h \<noteq> []" "mh_mucked_hands h = []"
  shows "\<exists>h'. award_fold h = Some h' \<and> done_ok h' \<and> same_game h h' \<and> mh_phase h' = HandComplete \<and>
    (\<forall>s. mw_seat h' s = map_option (settled_seat
      (if s = last_in h then seat_total ms_hand_contribution h else 0)) (mw_seat h s)) \<and>
    mh_awards h' = [\<lparr>pa_pot_index = 0, pa_amount = seat_total ms_hand_contribution h,
      pa_eligible = [last_in h], pa_winners = [last_in h],
      pa_payouts = [\<lparr>sp_seat = last_in h, sp_amount = seat_total ms_hand_contribution h\<rparr>]\<rparr>]"
proof -
  define w where "w = last_in h"
  define pot where "pot = seat_total ms_hand_contribution h"
  have shape: "mw_shape h" using assms(1) by (simp add: money_ok_def)
  have found: "first_match (mw_holds h eligible_for_pot) (occupied_seats h) = Some w"
    using assms(3) by (cases "eligible_seats h")
      (simp_all add: first_match_filter eligible_seats_def w_def last_in_def)
  have "w \<in> set (eligible_seats h)" using assms(3) by (simp add: w_def last_in_def)
  then obtain wst where wst: "mw_seat h w = Some wst"
    using eligible_occupied occupied_seatsD by blast
  have bounds: "seat_total ms_stack h + pot < u32_bound"
    using assms(1) by (simp add: money_ok_def pot_def)
  have amount: "u32_sum (map ms_hand_contribution (occupied_states h)) = pot"
    using bounds by (simp add: pot_def seat_total_def u32_simps)
  have fits: "ms_stack wst + pot < u32_bound"
    using seat_total_ge [OF shape wst, of ms_stack] bounds by simp
  define pay where "pay = (\<lambda>s (st :: multiway_seat_state). if s = w then st\<lparr>ms_stack := ms_stack st + pot\<rparr> else st)"
  define h1 where "h1 = h\<lparr>mh_showdown_progress := None, mh_settled_contributions := contribution_snapshot h\<rparr>"
  have "seat_mut h1 w (\<lambda>st. st\<lparr>ms_stack := u32_add (ms_stack st) pot\<rparr>)
      = Some (map_seats (\<lambda>t. if t = w then (\<lambda>st. st\<lparr>ms_stack := u32_add (ms_stack st) pot\<rparr>) else (\<lambda>x. x)) h1)"
    using wst by (intro seat_mut_as_map) (simp add: h1_def)
  also have "\<dots> = Some (map_seats pay h1)"
    using fits wst by (intro arg_cong [of _ _ Some] map_seats_cong) (auto simp: pay_def h1_def u32_simps)
  finally have paid: "seat_mut h1 w (\<lambda>st. st\<lparr>ms_stack := u32_add (ms_stack st) pot\<rparr>) = Some (map_seats pay h1)" .
  define award where "award = \<lparr>pa_pot_index = 0, pa_amount = pot, pa_eligible = [w],
    pa_winners = [w], pa_payouts = [\<lparr>sp_seat = w, sp_amount = pot\<rparr>]\<rparr>"
  define clear where "clear = (\<lambda>st :: multiway_seat_state. st\<lparr>ms_street_contribution := 0,
     ms_hand_contribution := 0, ms_last_action_wager := None\<rparr>)"
  define h2 where "h2 = (map_seats (\<lambda>_. clear) ((map_seats pay h1)\<lparr>mh_awards := [award]\<rparr>))
    \<lparr>mh_to_act := None, mh_phase := HandComplete\<rparr>"
  have clears: "clear_contributions ((map_seats pay h1)\<lparr>mh_awards := [award]\<rparr>)
      = Some (map_seats (\<lambda>_. clear) ((map_seats pay h1)\<lparr>mh_awards := [award]\<rparr>))"
    unfolding clear_contributions_def clear_def using shape
    by (intro update_occupied_map) (simp add: h1_def)
  have result: "award_fold h = Some h2"
    using found amount paid clears
    by (simp add: award_fold_def Let_def h1_def [symmetric] h2_def award_def)
  have seats: "\<forall>s. mw_seat h2 s = map_option (settled_seat (if s = w then pot else 0)) (mw_seat h s)"
    by (auto simp: h2_def h1_def pay_def clear_def settled_seat_def option.map_comp comp_def
        intro!: option.map_cong)
  have occ: "occupied_seats h2 = occupied_seats h"
    by (simp add: h2_def h1_def)
  have "mw_shape h2" using shape by (simp add: h2_def h1_def)
  moreover have "seat_total ms_stack h2 = seat_total ms_stack h + pot"
  proof -
    have w: "w \<in> set (occupied_seats h)" using occupied_seatsI [OF shape wst] .
    have "seat_total ms_stack h2 = (\<Sum>s\<in>set (occupied_seats h). ms_stack (the (mw_seat h s)) + (if s = w then pot else 0))"
      unfolding seat_total_sum occ
      by (intro sum.cong) (auto simp: seats settled_seat_def dest!: occupied_seatsD)
    then show ?thesis using w by (simp add: sum.distrib seat_total_sum)
  qed
  moreover have "seat_total ms_hand_contribution h2 = 0"
    unfolding seat_total_sum occ
    by (intro sum.neutral) (auto simp: seats settled_seat_def dest!: occupied_seatsD)
  ultimately have "money_ok h2"
    using bounds assms(1) by (simp add: money_ok_def pot_def) (simp add: h2_def h1_def)
  moreover have holes: "hole_cards h2 = hole_cards h"
    using spec [OF seats] occ by (rule hole_cards_cong) (simp add: settled_seat_def)
  then have "cards_ok h2"
    using assms(2) by (simp add: cards_ok_def hand_cards_def) (simp add: h2_def h1_def)
  moreover have "\<forall>st\<in>set (occupied_states h2). ms_hand_contribution st = 0 \<and> ms_street_contribution st = 0"
    using seats by (auto simp: set_occupied_states [OF \<open>mw_shape h2\<close>] settled_seat_def)
  ultimately have "done_ok h2"
    using assms(4) by (simp add: done_ok_def) (simp add: h2_def h1_def)
  then show ?thesis
    using result seats holes
    by (simp add: w_def [symmetric] pot_def [symmetric] same_game_def hand_cards_def)
      (simp add: h2_def h1_def award_def)
qed

subsection \<open>The end of a street\<close>

definition next_street_of :: "multiway_hand \<Rightarrow> multiway_hand \<Rightarrow> bool" where
  "next_street_of h h' \<longleftrightarrow> betting_ok h' \<and> same_game h h' \<and> mh_phase h \<noteq> River \<and>
     mh_phase h' = next_phase (mh_phase h) \<and> seat_total ms_stack h' = seat_total ms_stack h"

lemma dealt_street_code:
  assumes "accepts_actions (mh_phase h)" "mh_phase h \<noteq> River"
  shows "(case mh_phase h of
       Preflop \<Rightarrow> (deal_to_board 3 g)\<lparr>mh_phase := Flop\<rparr>
     | Flop \<Rightarrow> (deal_to_board 1 g)\<lparr>mh_phase := Turn\<rparr>
     | _ \<Rightarrow> (deal_to_board 1 g)\<lparr>mh_phase := River\<rparr>)
    = (deal_to_board (street_cards (mh_phase h)) g)\<lparr>mh_phase := next_phase (mh_phase h)\<rparr>"
  using assms by (cases "mh_phase h") (simp_all add: street_cards_def next_phase_def)

lemma advance_street_returns:
  assumes "mid_ok h" "2 \<le> pot_eligible_count h" "betting_round_complete h"
  shows "\<exists>h'. advance_street h = Some h' \<and> (ends_betting h h' \<or> next_street_of h h')"
proof -
  define any_all_in where
    "any_all_in = list_ex (mw_holds h (\<lambda>st. ms_participation st = AllIn)) (occupied_seats h)"
  define locked where "locked \<longleftrightarrow> length (filter (mw_holds h can_act) (occupied_seats h)) \<le> 1"
  have count: "pot_eligible_count h \<noteq> 1" using assms(2) by simp
  show ?thesis
  proof (cases "mh_phase h = River \<or> (locked \<and> any_all_in)")
    case True
    then have "advance_street h = begin_showdown any_all_in h"
      using count by (simp add: advance_street.simps [of h] any_all_in_def locked_def)
    then show ?thesis
      using begin_showdown_ends [OF assms(1,2), of any_all_in] True by auto
  next
    case False
    define r where "r = (map_seats (\<lambda>_. fresh_street_seat) h)\<lparr>mh_current_wager := 0,
      mh_last_full_raise_size := bv_big_blind (mh_blind_values h), mh_to_act := None\<rparr>"
    define g where "g = dealt_street h"
    have phase: "accepts_actions (mh_phase h)" "mh_phase h \<noteq> River"
      using assms(1) False by (simp_all add: mid_ok_def)
    have reset: "reset_street h = Some r"
      unfolding r_def by (rule reset_street_map [OF mid_shape [OF assms(1)]])
    have r_phase: "mh_phase r = mh_phase h" by (simp add: r_def)
    have g: "(deal_to_board (street_cards (mh_phase h)) r)\<lparr>mh_phase := next_phase (mh_phase h)\<rparr> = g"
      by (simp add: g_def dealt_street_def r_def)
    have mid: "mid_ok g"
      unfolding g_def using assms(1,3) phase(2) by (rule dealt_street_mid)
    have "filter (mw_holds g can_act) (occupied_seats g) = filter (mw_holds h can_act) (occupied_seats h)"
      by (auto simp: g_def mw_holds_def dealt_street_seat fresh_street_seat_def can_act_def
          dealt_street_def split: option.splits intro!: filter_cong)
    moreover have "2 \<le> length (filter (mw_holds h can_act) (occupied_seats h))"
      using False by (intro not_locked [OF assms(1,2)]) (simp add: locked_def any_all_in_def)
    ultimately have "2 \<le> length (filter (mw_holds g can_act) (occupied_seats g))" by simp
    moreover have "ms_last_action_wager st = None" if "mw_seat g s = Some st" for s st
      using that by (auto simp: g_def dealt_street_seat fresh_street_seat_def)
    ultimately obtain s t where st: "next_live_after g (mh_button g) = Some s"
        "first_needing_from g s = Some t" "needs_action g t" and unfinished: "\<not> betting_round_complete g"
      using street_opens [OF mid] by blast
    define h' where "h' = g\<lparr>mh_to_act := Some t\<rparr>"
    have "advance_street h = Some h'"
    proof -
      have "(case mh_phase r of Showdown \<Rightarrow> Some r | HandComplete \<Rightarrow> Some r | River \<Rightarrow> resolve_showdown r
          | _ \<Rightarrow> X) = X" for X
        using phase by (cases "mh_phase h") (simp_all add: r_phase)
      then show ?thesis
        using count False unfinished
        by (auto simp: advance_street.simps [of h] any_all_in_def [symmetric] locked_def reset
            Let_def r_phase dealt_street_code [OF phase] g st h'_def)
    qed
    moreover have "next_street_of h h'"
    proof -
      have "mid_ok h'"
        using mid by (simp add: mid_ok_def h'_def before_showdown_def wagers_ok_def leads_def)
      moreover have "pot_eligible_count h' = pot_eligible_count h"
        by (simp add: h'_def g_def dealt_street_eligible)
      moreover have "needs_action h' t" using st(3) by (simp add: h'_def needs_action_def)
      ultimately have "betting_ok h'" using assms(2) by (simp add: betting_ok_def) (simp add: h'_def)
      moreover have "seat_total ms_stack h' = seat_total ms_stack h"
        unfolding h'_def g_def dealt_street_def
        by (simp add: deal_to_board_fields) (rule seat_total_map_eq, simp add: fresh_street_seat_def)
      ultimately show ?thesis
        using phase dealt_street_cards [of h]
        by (simp add: next_street_of_def same_game_def h'_def g_def) (simp add: dealt_street_def)
    qed
    ultimately show ?thesis by blast
  qed
qed

subsection \<open>An accepted action\<close>

text \<open>The chips a seat pays when it has them.\<close>

definition paid_in :: "nat \<Rightarrow> multiway_seat_state \<Rightarrow> multiway_seat_state" where
  "paid_in n st = st\<lparr>ms_stack := ms_stack st - n,
     ms_street_contribution := ms_street_contribution st + n,
     ms_hand_contribution := ms_hand_contribution st + n,
     ms_participation := (if ms_stack st = n then AllIn else ms_participation st)\<rparr>"

lemma pay_chips_paid_in:
  assumes "n \<le> ms_stack st" "ms_stack st + ms_hand_contribution st < u32_bound"
    and "ms_street_contribution st \<le> ms_hand_contribution st"
  shows "pay_chips n st = paid_in n st"
  using assms by (auto simp: pay_chips_def paid_in_def Let_def u32_simps)

lemma prior_paid_in: "prior (paid_in n st) = prior st"
  by (simp add: prior_def paid_in_def)

lemma commit_to_pays:
  assumes "mid_ok h" "mw_seat h s = Some st" "target - ms_street_contribution st \<le> ms_stack st"
  shows "commit_to h s target = Some (mw_set_seat h s (paid_in (target - ms_street_contribution st) st))"
proof -
  have "pay_chips (target - ms_street_contribution st) st = paid_in (target - ms_street_contribution st) st"
    using assms(3) seat_bounded [OF _ assms(2)] mid_seat_wf [OF assms(1,2)] assms(1)
    by (intro pay_chips_paid_in) (auto simp: mid_ok_def seat_wf_def)
  then show ?thesis
    by (simp add: commit_to_def commit_chips_def assms(2) seat_mut_Some saturating_sub_def)
qed

text \<open>The legal actions of the seat to act, with the arithmetic exact.\<close>

definition actor_legal :: "multiway_hand \<Rightarrow> seat_id \<Rightarrow> multiway_seat_state \<Rightarrow> legal_actions" where
  "actor_legal h s st =
    (let W = mh_current_wager h; street = ms_street_contribution st; top = street + ms_stack st;
         big = bv_big_blind (mh_blind_values h);
         others = list_ex (\<lambda>t. t \<noteq> s \<and> mw_holds h can_act t) (occupied_seats h);
         reopened = (case ms_last_action_wager st of None \<Rightarrow> True
           | Some p \<Rightarrow> mh_last_full_raise_size h \<le> W - p);
         raise = u32_saturating_add W (mh_last_full_raise_size h)
     in \<lparr>la_can_fold = (street < W), la_can_check = (W \<le> street),
       la_call_amount = (if street < W \<and> W - street < ms_stack st then Some (W - street) else None),
       la_min_bet_to = (if W = 0 \<and> others \<and> big \<le> top - 1 then Some big else None),
       la_min_raise_to = (if 0 < W \<and> others \<and> reopened \<and> raise \<le> top - 1 then Some raise else None),
       la_all_in_to = top, la_raise_reopened = reopened\<rparr>)"

lemma legal_actions_for_actor:
  assumes "mid_ok h" "mh_to_act h = Some s" "mw_seat h s = Some st" "can_act st"
  shows "legal_actions_for h s = Some (Some (actor_legal h s st))"
proof -
  have "ms_street_contribution st + ms_stack st < u32_bound"
    using seat_bounded [OF _ assms(3)] mid_seat_wf [OF assms(1,3)] assms(1)
    by (auto simp: mid_ok_def seat_wf_def)
  then have "u32_saturating_add (ms_street_contribution st) (ms_stack st) = ms_street_contribution st + ms_stack st"
    by (rule u32_simps)
  then show ?thesis
    using assms
    by (simp add: legal_actions_for_def mid_ok_def amount_to_call_def raise_reopened_for_def
        saturating_sub_def actor_legal_def Let_def cong: option.case_cong)
qed

lemma saturating_minimum: "u32_saturating_add a b \<le> t \<Longrightarrow> t < u32_max \<Longrightarrow> a + b \<le> t"
  by (simp add: u32_saturating_add_def)

definition wagered :: "multiway_hand \<Rightarrow> seat_id \<Rightarrow> multiway_seat_state \<Rightarrow> u32 \<Rightarrow> u32 \<Rightarrow> multiway_hand" where
  "wagered h s st' wager raise_size =
     (mw_set_seat h s st')\<lparr>mh_current_wager := wager, mh_last_full_raise_size := raise_size\<rparr>"

text \<open>
  What each action does: it pays chips, or it is a fold of a seat that owes or a check of a seat
  that does not.
\<close>

definition action_effect ::
  "multiway_hand \<Rightarrow> action \<Rightarrow> multiway_seat_state \<Rightarrow> multiway_seat_state \<Rightarrow> u32 \<Rightarrow> bool" where
  "action_effect h a st st' wager \<longleftrightarrow>
     ms_stack st' < ms_stack st \<or>
     wager = mh_current_wager h \<and> ms_street_contribution st < mh_current_wager h \<and>
       st' = st\<lparr>ms_participation := Folded\<rparr> \<or>
     wager = mh_current_wager h \<and> ms_street_contribution st = mh_current_wager h \<and> st' = st"

lemma set_seat_same: "mw_seat h s = Some st \<Longrightarrow> mw_set_seat h s st = h"
  by (simp add: mw_set_seat_def mw_seat_def list_update_same_conv split: if_splits)

lemma set_seat_twice: "mw_set_seat (mw_set_seat h s a) s b = mw_set_seat h s b"
  by (simp add: mw_set_seat_def)

lemma set_seat_wager_frame:
  "mw_set_seat (h\<lparr>mh_current_wager := w\<rparr>) s st = (mw_set_seat h s st)\<lparr>mh_current_wager := w\<rparr>"
  "mw_set_seat (h\<lparr>mh_last_full_raise_size := l\<rparr>) s st = (mw_set_seat h s st)\<lparr>mh_last_full_raise_size := l\<rparr>"
  by (simp_all add: mw_set_seat_def)

lemma wager_paid:
  assumes "mid_ok h" "mw_seat h s = Some st" "can_act st"
    and "ms_street_contribution st < target" "target \<le> ms_street_contribution st + ms_stack st"
    and "wager = max (mh_current_wager h) target"
    and "st' = paid_in (target - ms_street_contribution st) st"
  shows "seat_step h st st' wager \<and> action_effect h a st st' wager"
proof -
  have live: "ms_participation st = Live" using assms(3) by (simp add: can_act_def)
  have wf: "ms_street_contribution st \<le> ms_hand_contribution st"
    "ms_street_contribution st \<le> mh_current_wager h"
    using mid_seat_wf [OF assms(1,2)] by (simp_all add: seat_wf_def)
  have "ms_stack st' < ms_stack st"
    using assms(4,5,7) by (simp add: paid_in_def)
  moreover have "seat_step h st st' wager"
  proof -
    have "prior st' = prior st" by (simp add: assms(7) prior_paid_in)
    then show ?thesis
      using assms(4-6) wf live unfolding seat_step_def assms(7)
      by (auto simp: paid_in_def eligible_for_pot_def max_def)
  qed
  ultimately show ?thesis by (simp add: action_effect_def)
qed

end
