(* ===== verification/Command_Facts.thy ===== *)
theory Command_Facts
  imports Betting_Facts
begin

text \<open>
  Commands on a multiway hand: an accepted command keeps the invariant and never panics, the
  acting seat always has an accepted command, and the number of accepted commands is bounded.
\<close>

subsection \<open>The effect of an action\<close>

lemma apply_wager_effect:
  assumes "mid_ok h" "mw_seat h s = Some st" "can_act st"
    and "validate_with (actor_legal h s st) (ms_street_contribution st) (mh_current_wager h) a = Inr ()"
  shows "\<exists>st' wager raise_size. apply_wager h s a = Some (wagered h s st' wager raise_size) \<and>
    seat_step h st st' wager \<and> action_effect h a st st' wager \<and> 0 < raise_size \<and> ms_last_action_wager st' = ms_last_action_wager st"
proof -
  let ?W = "mh_current_wager h" and ?L = "mh_last_full_raise_size h" and ?street = "ms_street_contribution st"
  have wf: "?street \<le> ms_hand_contribution st" "?street \<le> ?W"
    using mid_seat_wf [OF assms(1,2)] by (simp_all add: seat_wf_def)
  have pos: "0 < ?L" "0 < bv_big_blind (mh_blind_values h)"
    using assms(1) by (simp_all add: mid_ok_def)
  have bound: "ms_stack st + ms_hand_contribution st < u32_bound"
    using seat_bounded [OF _ assms(2)] assms(1) by (simp add: mid_ok_def)
  have top: "?street + ms_stack st < u32_bound" using bound wf(1) by simp
  have pays: "commit_to h s target = Some (mw_set_seat h s (paid_in (target - ?street) st))"
    if "target \<le> ?street + ms_stack st" for target
    using that by (intro commit_to_pays [OF assms(1,2)]) simp
  have done_by: ?thesis
    if "apply_wager h s a = Some (wagered h s st' wager raise_size)" "seat_step h st st' wager"
      "action_effect h a st st' wager" "0 < raise_size" "ms_last_action_wager st' = ms_last_action_wager st"
    for st' wager raise_size
    using that by blast
  have paid_last: "ms_last_action_wager (paid_in n st) = ms_last_action_wager st" for n
    by (simp add: paid_in_def)
  show ?thesis
  proof (cases a)
    case ActFold
    have owes: "?street < ?W"
      using assms(4) by (simp add: ActFold validate_with_def Let_def actor_legal_def split: if_splits)
    show ?thesis
      using owes wf pos assms(2)
      by (intro done_by [of "st\<lparr>ms_participation := Folded\<rparr>" ?W ?L])
        (simp_all add: ActFold apply_wager_def wagered_def seat_mut_Some seat_step_def action_effect_def
          prior_def Let_def)
  next
    case Check
    have even: "?street = ?W"
      using assms(4) wf(2) by (simp add: Check validate_with_def Let_def actor_legal_def split: if_splits)
    show ?thesis
      using even wf pos assms(2,3)
      by (intro done_by [of st ?W ?L])
        (simp_all add: Check apply_wager_def wagered_def set_seat_same seat_step_def action_effect_def
          Let_def can_act_def)
  next
    case (Call n)
    have n: "n = ?W - ?street" "?street < ?W" "?W - ?street < ms_stack st"
      using assms(4) by (simp_all add: Call validate_with_def Let_def actor_legal_def split: if_splits)
    have target: "u32_add ?street (?W - ?street) = ?W"
      using n top by (simp add: u32_simps)
    have "apply_wager h s a = Some (wagered h s (paid_in (?W - ?street) st) ?W ?L)"
      using n pays [of ?W] by (simp add: Call apply_wager_def assms(2) n(1) target wagered_def)
    moreover have "seat_step h st (paid_in (?W - ?street) st) ?W \<and>
        action_effect h a st (paid_in (?W - ?street) st) ?W"
      using n by (intro wager_paid [OF assms(1-3)]) auto
    ultimately show ?thesis using pos(1) paid_last done_by by blast
  next
    case (Bet target)
    have t: "?W = 0" "bv_big_blind (mh_blind_values h) \<le> target" "target \<le> ?street + ms_stack st - 1"
      using assms(4)
      by (auto simp: Bet validate_with_def Let_def actor_legal_def saturating_sub_def split: if_splits option.splits)
    have range: "?street < target" "target \<le> ?street + ms_stack st" "?W < target"
      using t pos wf(2) by simp_all
    have "apply_wager h s a = Some (wagered h s (paid_in (target - ?street) st) target (target - ?W))"
      using pays [OF range(2)] by (simp add: Bet apply_wager_def wagered_def saturating_sub_def)
    moreover have "seat_step h st (paid_in (target - ?street) st) target \<and>
        action_effect h a st (paid_in (target - ?street) st) target"
      using range by (intro wager_paid [OF assms(1-3)]) auto
    moreover have "0 < target - ?W" using range(3) by simp
    ultimately show ?thesis using paid_last done_by by blast
  next
    case (Raise target)
    have t: "u32_saturating_add ?W ?L \<le> target" "target \<le> ?street + ms_stack st - 1"
      using assms(4)
      by (auto simp: Raise validate_with_def Let_def actor_legal_def saturating_sub_def split: if_splits option.splits)
    have "target < u32_max"
      using t(2) top assms(3) by (simp add: u32_max_def u32_bound_def can_act_def)
    then have "?W + ?L \<le> target" using t(1) by (intro saturating_minimum)
    then have range: "?street < target" "target \<le> ?street + ms_stack st" "?W < target"
      using t pos wf(2) by simp_all
    have "apply_wager h s a = Some (wagered h s (paid_in (target - ?street) st) target (target - ?W))"
      using pays [OF range(2)] by (simp add: Raise apply_wager_def wagered_def saturating_sub_def)
    moreover have "seat_step h st (paid_in (target - ?street) st) target \<and>
        action_effect h a st (paid_in (target - ?street) st) target"
      using range by (intro wager_paid [OF assms(1-3)]) auto
    moreover have "0 < target - ?W" using range(3) by simp
    ultimately show ?thesis using paid_last done_by by blast
  next
    case (ActAllIn target)
    have t: "target = ?street + ms_stack st" "?street < target"
      using assms(4) by (simp_all add: ActAllIn validate_with_def Let_def actor_legal_def split: if_splits)
    define p where "p = paid_in (target - ?street) st"
    have all_in: "p\<lparr>ms_participation := AllIn\<rparr> = p"
      using t by (simp add: p_def paid_in_def)
    have commit: "commit_to h s target = Some (mw_set_seat h s p)"
      using pays [of target] t(1) by (simp add: p_def)
    have len: "s < length (mh_seats h)" by (rule mw_seat_bound [OF assms(2)])
    define raise_size where "raise_size = (if ?W < target \<and>
        (if ?W = 0 then bv_big_blind (mh_blind_values h) \<le> target else ?L \<le> target - ?W)
      then target - ?W else ?L)"
    have "apply_wager h s a = Some (wagered h s p (max ?W target) raise_size)"
      using all_in len
      by (auto simp: ActAllIn apply_wager_def wagered_def Let_def commit u32_sub_exact raise_size_def
          seat_mut_def mw_seat_set_seat set_seat_twice set_seat_wager_frame max_def)
    moreover have "seat_step h st p (max ?W target) \<and> action_effect h a st p (max ?W target)"
      using t by (intro wager_paid [OF assms(1-3), of target]) (auto simp: p_def)
    moreover have "0 < raise_size" using pos by (auto simp: raise_size_def)
    ultimately show ?thesis using paid_last done_by unfolding p_def by blast
  qed
qed

definition after_record :: "u32 \<Rightarrow> multiway_seat_state \<Rightarrow> multiway_seat_state" where
  "after_record wager st =
     (if ms_participation st = Live then st\<lparr>ms_last_action_wager := Some wager\<rparr> else st)"

lemma record_action_wagered:
  assumes "mw_seat h s = Some st"
  shows "\<exists>history. record_action phase s a (wagered h s st' wager raise_size)
    = Some ((wagered h s (after_record wager st') wager raise_size)\<lparr>mh_action_history := history\<rparr>)"
proof -
  have "mw_seat (wagered h s st' wager raise_size) s = Some st'"
    using mw_seat_bound [OF assms] by (simp add: wagered_def mw_seat_set_seat)
  then have "record_action phase s a (wagered h s st' wager raise_size)
      = Some ((wagered h s (after_record wager st') wager raise_size)\<lparr>mh_action_history :=
          mh_action_history h @ [\<lparr>ar_sequence = u32_add (length (mh_action_history h) mod u32_bound) 1,
            ar_phase = phase, ar_seat = s, ar_action = a, ar_wager_after = wager\<rparr>]\<rparr>)"
    by (simp add: record_action_def Let_def after_record_def)
      (simp add: wagered_def set_seat_wager_frame set_seat_twice)
  then show ?thesis by blast
qed

lemma seat_step_record: "seat_step h st st' wager \<Longrightarrow> seat_step h st (after_record wager st') wager"
  by (auto simp: seat_step_def after_record_def prior_def eligible_for_pot_def)

subsection \<open>How many commands a hand accepts\<close>

fun streets_left :: "multiway_phase \<Rightarrow> nat" where
  "streets_left Preflop = 3"
| "streets_left Flop = 2"
| "streets_left Turn = 1"
| "streets_left _ = 0"

definition needing :: "multiway_hand \<Rightarrow> nat" where
  "needing h = length (filter (needs_action h) (occupied_seats h))"

definition pressure :: "multiway_hand \<Rightarrow> nat" where
  "pressure h = (streets_left (mh_phase h) * (mh_initial_total h + 1) + seat_total ms_stack h)
     * (mh_table_size h + 1) + needing h"

definition actions_left :: "multiway_hand \<Rightarrow> nat" where
  "actions_left h = (if mh_to_act h = None then 0 else pressure h)"

lemma needing_bound: "needing h \<le> mh_table_size h"
proof -
  have "length (occupied_seats h) \<le> mh_table_size h"
    using length_filter_le [of "\<lambda>s. mw_seat h s \<noteq> None" "[0..<mh_table_size h]"]
    by (simp add: occupied_seats_def table_size_seats_def)
  then show ?thesis
    unfolding needing_def using length_filter_le order.trans by blast
qed

lemma lex_bound:
  fixes a b n :: nat
  assumes "a < b" "x \<le> n"
  shows "a * (n + 1) + x < b * (n + 1) + y"
proof -
  have "(a + 1) * (n + 1) \<le> b * (n + 1)" using assms(1) by (intro mult_right_mono) auto
  then show ?thesis using assms(2) by simp
qed

lemma fewer_needing:
  assumes "needs_action h s" "s \<in> set (occupied_seats h)" "occupied_seats h' = occupied_seats h"
    and "\<not> needs_action h' s" "\<And>t. t \<noteq> s \<Longrightarrow> needs_action h' t = needs_action h t"
  shows "needing h' < needing h"
proof -
  have "needs_action h' = (\<lambda>t. needs_action h t \<and> t \<noteq> s)"
    using assms(4,5) by (intro ext) metis
  then have "filter (needs_action h') (occupied_seats h)
      = filter (\<lambda>t. t \<noteq> s) (filter (needs_action h) (occupied_seats h))"
    by simp
  moreover have "length (filter (\<lambda>t. t \<noteq> s) (filter (needs_action h) (occupied_seats h)))
      < length (filter (needs_action h) (occupied_seats h))"
    using assms(1,2) by (intro length_filter_less [of s]) auto
  ultimately show ?thesis by (simp add: needing_def assms(3))
qed

text \<open>The state between an action and what it triggers.\<close>

lemma acted:
  assumes "betting_ok h" "mh_to_act h = Some s" "mw_seat h s = Some st"
    and "validate_with (actor_legal h s st) (ms_street_contribution st) (mh_current_wager h) a = Inr ()"
  shows "\<exists>g. do { h1 \<leftarrow> apply_wager h s a; record_action (mh_phase h) s a h1 } = Some g \<and> mid_ok g \<and>
     same_game h g \<and> mh_phase g = mh_phase h \<and> mh_table_size g = mh_table_size h \<and>
     mh_initial_total g = mh_initial_total h \<and> mw_seat g s \<noteq> None \<and>
     (seat_total ms_stack g < seat_total ms_stack h \<or>
      seat_total ms_stack g = seat_total ms_stack h \<and> needing g < needing h)"
proof -
  have mid: "mid_ok h" and needs: "needs_action h s"
    using assms(1,2) by (simp_all add: betting_ok_def)
  have can: "can_act st" using needs by (simp add: needs_action_iff [OF assms(3)])
  obtain st' wager raise_size where eff: "apply_wager h s a = Some (wagered h s st' wager raise_size)"
    "seat_step h st st' wager" "action_effect h a st st' wager" "0 < raise_size"
    using apply_wager_effect [OF mid assms(3) can assms(4)] by blast
  define r where "r = after_record wager st'"
  obtain history where rec: "record_action (mh_phase h) s a (wagered h s st' wager raise_size)
      = Some ((wagered h s r wager raise_size)\<lparr>mh_action_history := history\<rparr>)"
    unfolding r_def using record_action_wagered [OF assms(3)] by blast
  define g where "g = (wagered h s r wager raise_size)\<lparr>mh_action_history := history\<rparr>"
  have step: "seat_step h st r wager"
    unfolding r_def by (rule seat_step_record [OF eff(2)])
  have "mid_ok (wagered h s r wager raise_size)"
    using mid_ok_step [OF mid assms(3) step eff(4)] by (simp add: wagered_def)
  then have "mid_ok g"
    by (simp add: mid_ok_def before_showdown_def wagers_ok_def leads_def g_def)
  moreover have read: "mw_seat g t = (if t = s then Some r else mw_seat h t)" for t
    using mw_seat_bound [OF assms(3)] by (simp add: g_def wagered_def mw_seat_set_seat)
  have shape: "mw_shape h" by (rule mid_shape [OF mid])
  have r_stack: "ms_stack r = ms_stack st'" by (simp add: r_def after_record_def)
  have total: "seat_total ms_stack g + ms_stack st = seat_total ms_stack h + ms_stack st'"
    using seat_total_set_seat [OF shape assms(3), of ms_stack r] by (simp add: g_def wagered_def r_stack)
  have occ: "occupied_seats g = occupied_seats h"
    using assms(3) by (simp add: g_def wagered_def)
  have cards: "hand_cards g = hand_cards h"
    using hand_cards_set_seat [OF assms(3), of r] step by (simp add: g_def wagered_def seat_step_def)
  have "seat_total ms_stack g < seat_total ms_stack h \<or>
      seat_total ms_stack g = seat_total ms_stack h \<and> needing g < needing h"
  proof (cases "ms_stack st' < ms_stack st")
    case True
    then show ?thesis using total by simp
  next
    case False
    then have quiet: "wager = mh_current_wager h"
      "st' = st\<lparr>ms_participation := Folded\<rparr> \<or> ms_street_contribution st = mh_current_wager h \<and> st' = st"
      using eff(3) by (auto simp: action_effect_def)
    then have same: "ms_stack st' = ms_stack st" by auto
    have wager: "mh_current_wager g = mh_current_wager h" by (simp add: g_def wagered_def quiet(1))
    have "needing g < needing h"
    proof (rule fewer_needing [OF needs])
      show "s \<in> set (occupied_seats h)" using occupied_seatsI [OF shape assms(3)] .
      show "\<not> needs_action g s"
        using quiet can by (auto simp: needs_action_def read wager r_def after_record_def can_act_def mw_holds_def)
      show "needs_action g t = needs_action h t" if "t \<noteq> s" for t
        using that by (simp add: needs_action_def mw_holds_def read wager)
    qed (rule occ)
    then show ?thesis using total same by simp
  qed
  ultimately show ?thesis
    using eff(1) rec read [of s] cards occ
    by (intro exI [of _ g]) (simp add: g_def [symmetric] same_game_def, simp add: g_def wagered_def)
qed

text \<open>What an accepted command leads to.\<close>

definition outcome_ok :: "multiway_hand \<Rightarrow> multiway_hand \<Rightarrow> bool" where
  "outcome_ok h h' \<longleftrightarrow> same_game h h' \<and> actions_left h' < actions_left h \<and>
     (betting_ok h' \<or> (if mh_paced_showdown h then showdown_ok h' \<or> done_ok h' else done_ok h'))"

lemma betting_actions_left: "betting_ok h \<Longrightarrow> 0 < actions_left h"
proof -
  assume ok: "betting_ok h"
  then obtain s where s: "mh_to_act h = Some s" "needs_action h s"
    by (auto simp: betting_ok_def split: option.splits)
  have "s \<in> set (occupied_seats h)"
    using s(2) occupied_seatsI mid_shape ok by (auto simp: needs_action_def mw_holds_iff betting_ok_def)
  then have "0 < needing h" using s(2) by (auto simp: needing_def filter_empty_conv)
  then show ?thesis by (simp add: actions_left_def pressure_def s(1))
qed

lemma finished_actions_left: "showdown_ok h \<or> done_ok h \<Longrightarrow> actions_left h = 0"
  by (auto simp: actions_left_def showdown_ok_def done_ok_def)

lemma actions_left_drops:
  assumes "mh_initial_total h' = mh_initial_total h" "mh_table_size h' = mh_table_size h" "mh_to_act h \<noteq> None"
    and "streets_left (mh_phase h') < streets_left (mh_phase h) \<and> seat_total ms_stack h' \<le> mh_initial_total h \<or>
      mh_phase h' = mh_phase h \<and> (seat_total ms_stack h' < seat_total ms_stack h \<or>
        seat_total ms_stack h' = seat_total ms_stack h \<and> needing h' < needing h)"
  shows "actions_left h' < actions_left h"
proof -
  let ?key = "\<lambda>h. streets_left (mh_phase h) * (mh_initial_total h + 1) + seat_total ms_stack h"
  have "?key h' < ?key h \<or> ?key h' = ?key h \<and> needing h' < needing h"
    using assms(1,4) lex_bound [of "streets_left (mh_phase h')" "streets_left (mh_phase h)"
        "seat_total ms_stack h'" "mh_initial_total h" "seat_total ms_stack h"] by auto
  then have "pressure h' < pressure h"
  proof
    assume "?key h' < ?key h"
    then show ?thesis
      unfolding pressure_def assms(2) using needing_bound [of h'] assms(2) by (intro lex_bound) simp_all
  qed (simp add: pressure_def assms(2))
  then show ?thesis using assms(3) by (auto simp: actions_left_def)
qed

subsection \<open>Commands\<close>

lemma mid_eligible: "mid_ok h \<Longrightarrow> eligible_seats h \<noteq> []"
proof
  assume mid: "mid_ok h" and none: "eligible_seats h = []"
  obtain l ld where "mw_seat h l = Some ld" "leads h ld" using mid by (rule mid_leader)
  then have "l \<in> set (eligible_seats h)"
    using set_eligible_seats [OF mid_shape [OF mid]] by (auto simp: leads_def)
  then show False using none by simp
qed

lemma same_game_trans: "same_game a b \<Longrightarrow> same_game b c \<Longrightarrow> same_game a c"
  by (simp add: same_game_def)

lemma stacks_bounded: "money_ok h \<Longrightarrow> seat_total ms_stack h \<le> mh_initial_total h"
  by (simp add: money_ok_def)

lemma outcome_finished:
  assumes "betting_ok h" "same_game h h'"
    and "done_ok h' \<or> (mh_paced_showdown h \<and> showdown_ok h')"
  shows "outcome_ok h h'"
  using assms betting_actions_left [OF assms(1)] finished_actions_left [of h']
  by (auto simp: outcome_ok_def)

lemma apply_validated_action_returns:
  assumes "betting_ok h" "mh_to_act h = Some s" "mw_seat h s = Some st"
    and "validate_with (actor_legal h s st) (ms_street_contribution st) (mh_current_wager h) a = Inr ()"
  shows "\<exists>h'. apply_validated_action h s a = Some h' \<and> outcome_ok h h'"
proof -
  obtain g where g: "do { h1 \<leftarrow> apply_wager h s a; record_action (mh_phase h) s a h1 } = Some g"
    and mid: "mid_ok g" and game: "same_game h g" and phase: "mh_phase g = mh_phase h"
    and table: "mh_table_size g = mh_table_size h" and total: "mh_initial_total g = mh_initial_total h"
    and here: "mw_seat g s \<noteq> None"
    and less: "seat_total ms_stack g < seat_total ms_stack h \<or>
      seat_total ms_stack g = seat_total ms_stack h \<and> needing g < needing h"
    using acted [OF assms] by blast
  have unfold: "apply_validated_action h s a =
      (if pot_eligible_count g = 1 then award_fold g
       else if betting_round_complete g then advance_street g
       else Some (g\<lparr>mh_to_act := next_needing_after g s\<rparr>))"
    using g by (auto simp: apply_validated_action_def split: bind_splits)
  have quiet: "money_ok g" "cards_ok g" "mh_mucked_hands g = []"
    using mid by (simp_all add: mid_ok_def before_showdown_def)
  have paced: "mh_paced_showdown g = mh_paced_showdown h" using game by (simp add: same_game_def)
  show ?thesis
  proof (cases "pot_eligible_count g = 1")
    case True
    obtain h' where h': "award_fold g = Some h'" "done_ok h'" "same_game g h'"
      using award_fold_returns [OF quiet(1,2) mid_eligible [OF mid] quiet(3)] by blast
    then have "outcome_ok h h'"
      using same_game_trans [OF game] by (intro outcome_finished [OF assms(1)]) simp_all
    then show ?thesis using h'(1) True by (simp add: unfold)
  next
    case False
    have "length (eligible_seats g) \<noteq> 0" using mid_eligible [OF mid] by simp
    then have two: "2 \<le> pot_eligible_count g"
      using False unfolding pot_eligible_count_length by linarith
    show ?thesis
    proof (cases "betting_round_complete g")
      case True
      obtain h' where h': "advance_street g = Some h'" "ends_betting g h' \<or> next_street_of g h'"
        using advance_street_returns [OF mid two True] by blast
      have "outcome_ok h h'"
        using h'(2)
      proof
        assume ends: "ends_betting g h'"
        then show ?thesis
          using same_game_trans [OF game, of h'] paced
          by (intro outcome_finished [OF assms(1)]) (auto simp: ends_betting_def split: if_splits)
      next
        assume street: "next_street_of g h'"
        have "streets_left (mh_phase h') < streets_left (mh_phase h)"
          using street mid phase
          by (cases "mh_phase h") (auto simp: next_street_of_def next_phase_def mid_ok_def)
        moreover have "seat_total ms_stack h' \<le> mh_initial_total h"
          using street stacks_bounded [OF quiet(1)] total by (simp add: next_street_of_def)
        ultimately have "actions_left h' < actions_left h"
          using street table total assms(2)
          by (intro actions_left_drops) (simp_all add: next_street_of_def same_game_def)
        then show ?thesis
          using street same_game_trans [OF game, of h'] by (simp add: outcome_ok_def next_street_of_def)
      qed
      then show ?thesis using h'(1) True False by (simp add: unfold)
    next
      case incomplete: False
      obtain t where t: "needs_action g t" using incomplete_needs [OF incomplete] by blast
      have "s < mh_table_size g"
        using here mw_seat_bound mid_shape [OF mid] by (force simp: mw_shape_def)
      then have "\<exists>t. next_needing_after g s = Some t \<and> needs_action g t"
        unfolding next_needing_after_def
        by (intro ring_search_total(1) [where P = "needs_action g" and s = t, OF mid_shape [OF mid] t])
          (auto simp: needs_action_def mw_holds_iff)
      then obtain n where n: "next_needing_after g s = Some n" "needs_action g n" by blast
      define h' where "h' = g\<lparr>mh_to_act := Some n\<rparr>"
      have "mid_ok h'"
        using mid by (simp add: mid_ok_def h'_def before_showdown_def wagers_ok_def leads_def)
      then have "betting_ok h'" using two n(2) by (simp add: betting_ok_def h'_def)
      moreover have "needing h' = needing g" by (simp add: needing_def h'_def)
      then have "actions_left h' < actions_left h"
        using less table total assms(2) phase
        by (intro actions_left_drops) (simp_all add: h'_def)
      ultimately have "outcome_ok h h'"
        using game by (simp add: outcome_ok_def same_game_def h'_def)
      then show ?thesis using False incomplete by (simp add: unfold n(1) h'_def)
    qed
  qed
qed

lemma validate_command_returns:
  assumes "hand_ok h"
  shows "\<exists>r. validate_command h c = Some r \<and> (r = Inr () \<longrightarrow> betting_ok h \<and>
    mh_to_act h = Some (cmd_seat c) \<and> (\<exists>st. mw_seat h (cmd_seat c) = Some st \<and>
      validate_with (actor_legal h (cmd_seat c) st) (ms_street_contribution st) (mh_current_wager h)
        (cmd_action c) = Inr ()))"
proof (cases "betting_ok h")
  case True
  then obtain s where s: "mh_to_act h = Some s" "needs_action h s" and mid: "mid_ok h"
    by (auto simp: betting_ok_def split: option.splits)
  show ?thesis
  proof (cases "cmd_seat c = s \<and> mw_seat h s \<noteq> None")
    case True
    then obtain st where st: "mw_seat h s = Some st" by blast
    have can: "can_act st" using s(2) by (simp add: needs_action_iff [OF st])
    have "validate_action h s (cmd_action c) = Some (validate_with (actor_legal h s st)
        (ms_street_contribution st) (mh_current_wager h) (cmd_action c))"
      using legal_actions_for_actor [OF mid s(1) st can] by (simp add: validate_action_def st)
    then show ?thesis
      using True st can s \<open>betting_ok h\<close> mid
      by (auto simp: validate_command_def mid_ok_def split: sum.splits)
  next
    case False
    then show ?thesis
      using s(1) by (auto simp: validate_command_def split: option.splits)
  qed
next
  case False
  then have "mh_to_act h = None"
    using assms by (auto simp: hand_ok_def showdown_ok_def done_ok_def)
  then show ?thesis by (auto simp: validate_command_def split: option.splits)
qed

text \<open>No command makes a hand panic, and an accepted one keeps the invariant.\<close>

lemma apply_command_outcome:
  assumes "hand_ok h"
  shows "(\<exists>e. apply_command h c = Some (Inl e)) \<or>
    (\<exists>h'. apply_command h c = Some (Inr h') \<and> betting_ok h \<and> mh_to_act h = Some (cmd_seat c) \<and> outcome_ok h h')"
proof -
  obtain r where r: "validate_command h c = Some r" and ok: "r = Inr () \<longrightarrow> betting_ok h \<and>
    mh_to_act h = Some (cmd_seat c) \<and> (\<exists>st. mw_seat h (cmd_seat c) = Some st \<and>
      validate_with (actor_legal h (cmd_seat c) st) (ms_street_contribution st) (mh_current_wager h)
        (cmd_action c) = Inr ())"
    using validate_command_returns [OF assms] by blast
  show ?thesis
  proof (cases r)
    case (Inl e)
    then show ?thesis using r by (simp add: apply_command_def)
  next
    case (Inr u)
    then have betting: "betting_ok h" "mh_to_act h = Some (cmd_seat c)" using ok by simp_all
    obtain st where st: "mw_seat h (cmd_seat c) = Some st"
      "validate_with (actor_legal h (cmd_seat c) st) (ms_street_contribution st) (mh_current_wager h)
        (cmd_action c) = Inr ()"
      using ok Inr by auto
    from apply_validated_action_returns [OF betting st] show ?thesis
      using r Inr betting by (auto simp: apply_command_def)
  qed
qed

text \<open>The seat to act always has an accepted command: to check, or to fold.\<close>

lemma actor_can_act:
  assumes "betting_ok h"
  shows "\<exists>s a h'. mh_to_act h = Some s \<and> a \<in> {Check, ActFold} \<and>
    apply_command h (seat_command_new s a) = Some (Inr h')"
proof -
  obtain s where s: "mh_to_act h = Some s" "needs_action h s" and mid: "mid_ok h"
    using assms by (auto simp: betting_ok_def split: option.splits)
  then obtain st where st: "mw_seat h s = Some st" "can_act st"
    by (auto simp: needs_action_def mw_holds_iff)
  define a where "a = (if mh_current_wager h \<le> ms_street_contribution st then Check else ActFold)"
  have valid: "validate_with (actor_legal h s st) (ms_street_contribution st) (mh_current_wager h) a = Inr ()"
    by (simp add: a_def validate_with_def actor_legal_def Let_def)
  have "validate_action h s a = Some (Inr ())"
    using legal_actions_for_actor [OF mid s(1) st] valid by (simp add: validate_action_def st)
  moreover obtain h' where "apply_validated_action h s a = Some h'"
    using apply_validated_action_returns [OF assms s(1) st(1) valid] by blast
  ultimately have "apply_command h (seat_command_new s a) = Some (Inr h')"
    using mid s st by (simp add: apply_command_def validate_command_def mid_ok_def seat_command_new_def)
  moreover have "a \<in> {Check, ActFold}" by (simp add: a_def)
  ultimately show ?thesis using s(1) by blast
qed

lemma outcome_hand_ok: "outcome_ok h h' \<Longrightarrow> hand_ok h'"
  by (auto simp: outcome_ok_def hand_ok_def split: if_splits)

end
