(* ===== verification/Start_Facts.thy ===== *)
theory Start_Facts
  imports Command_Facts
begin

text \<open>
  The start of a hand: a hand built from checked stacks, a deck of distinct cards that is long
  enough and forced posts that are all live satisfies the invariant. The constructor returns an
  error or such a hand; it never panics.
\<close>

subsection \<open>The seats\<close>

definition occupied_in :: "multiway_seat_state option list \<Rightarrow> nat set" where
  "occupied_in seats = {s. s < length seats \<and> seats ! s \<noteq> None}"

definition stack_sum :: "multiway_seat_state option list \<Rightarrow> nat" where
  "stack_sum seats = sum_list (map (case_option 0 ms_stack) seats)"

definition fresh_seats :: "multiway_seat_state option list \<Rightarrow> bool" where
  "fresh_seats seats \<longleftrightarrow> (\<forall>s<length seats. case seats ! s of None \<Rightarrow> True
     | Some st \<Rightarrow> \<exists>k>0. st = multiway_seat_new k)"

lemma seat_stacks_result:
  assumes "seat_stacks n stacks seen seats total_so_far = Inr (seats', total')"
    and "length seats = n" "fresh_seats seats" "occupied_in seats = seen" "stack_sum seats = total_so_far"
    and "total_so_far < u32_bound"
  shows "length seats' = n \<and> fresh_seats seats' \<and> stack_sum seats' = total' \<and> total' < u32_bound \<and>
    occupied_in seats' = seen \<union> fst ` set stacks \<and> card (occupied_in seats') = card seen + length stacks \<and>
    total' = total_so_far + sum_list (map snd stacks)"
  using assms
proof (induction n stacks seen seats total_so_far rule: seat_stacks.induct)
  case (1 n seen seats total_so_far)
  then show ?case by simp
next
  case (2 n s stack rest seen seats total_so_far)
  have s: "s < length seats" "s \<notin> seen" "0 < stack" and fits: "total_so_far + stack < u32_bound"
    using "2.prems"(1,2)
    by (auto simp: table_contains_def u32_checked_add_def split: if_splits option.splits)
  define seats1 where "seats1 = seats[s := Some (multiway_seat_new stack)]"
  have rest: "seat_stacks n rest (insert s seen) seats1 (total_so_far + stack) = Inr (seats', total')"
    using "2.prems"(1,2) s fits by (simp add: table_contains_def u32_checked_add_def seats1_def)
  have vacant: "seats ! s = None"
    using s(1,2) "2.prems"(4) by (auto simp: occupied_in_def)
  have "length seats1 = n" using "2.prems"(2) by (simp add: seats1_def)
  moreover have "fresh_seats seats1"
    using "2.prems"(3) s by (auto simp: fresh_seats_def seats1_def nth_list_update)
  moreover have "occupied_in seats1 = insert s seen"
    using "2.prems"(4) s(1) by (auto simp: occupied_in_def seats1_def nth_list_update split: if_splits)
  moreover have "stack_sum seats1 = total_so_far + stack"
    using sum_list_map_update [OF s(1), of "case_option 0 ms_stack" "Some (multiway_seat_new stack)"]
      "2.prems"(5) vacant by (simp add: stack_sum_def seats1_def multiway_seat_new_def)
  moreover have "finite seen"
    using "2.prems"(4) by (auto simp: occupied_in_def)
  ultimately show ?case
    using "2.IH"[OF _ _ _ _ rest [unfolded seats1_def]] s fits "2.prems"(2)
    by (auto simp: table_contains_def u32_checked_add_def seats1_def)
qed

text \<open>Exactly which stack lists are accepted.\<close>

lemma seat_stacks_accepts:
  "isl (seat_stacks n stacks seen seats total_so_far) \<longleftrightarrow>
     \<not> ((\<forall>(s, k)\<in>set stacks. s < n \<and> s \<notin> seen \<and> 0 < k) \<and> distinct (map fst stacks) \<and>
        (stacks \<noteq> [] \<longrightarrow> total_so_far + sum_list (map snd stacks) < u32_bound))"
proof (induction n stacks seen seats total_so_far rule: seat_stacks.induct)
  case (2 n s stack rest seen seats total_so_far)
  have fst_mem: "s \<in> fst ` set rest \<longleftrightarrow> (\<exists>k. (s, k) \<in> set rest)" by force
  show ?case
  proof (cases "s < n \<and> s \<notin> seen \<and> 0 < stack \<and> total_so_far + stack < u32_bound")
    case True
    then show ?thesis
      using "2.IH" [of "total_so_far + stack"] fst_mem
      by (auto simp: table_contains_def u32_checked_add_def add.assoc)
  next
    case False
    then show ?thesis
      by (auto simp: table_contains_def u32_checked_add_def split: option.splits)
  qed
qed simp

lemma empty_table:
  "fresh_seats (replicate n None)" "occupied_in (replicate n None) = {}" "stack_sum (replicate n None) = 0"
  by (simp_all add: fresh_seats_def occupied_in_def stack_sum_def sum_list_replicate)

subsection \<open>Dealing\<close>

definition strip_cards :: "multiway_seat_state \<Rightarrow> multiway_seat_state" where
  "strip_cards st = st\<lparr>ms_hole_cards := []\<rparr>"

definition dealt_cards :: "multiway_seat_state option list \<Rightarrow> card multiset" where
  "dealt_cards seats = sum_list (map (\<lambda>x. mset (case_option [] ms_hole_cards x)) seats)"

lemma sum_list_map_update_mset:
  "i < length xs \<Longrightarrow> sum_list (map f (xs[i := v])) + (f (xs ! i) :: 'a multiset) = sum_list (map f xs) + f v"
  by (induction xs arbitrary: i) (auto split: nat.splits simp: ac_simps)

lemma deal_all:
  assumes "\<forall>s\<in>set ss. s \<in> occupied_in seats" "length ss \<le> length (deck_rest d)"
  shows "\<exists>seats' d'. for_m deal_card_to ss (seats, d) = Some (seats', d') \<and>
    map (map_option strip_cards) seats' = map (map_option strip_cards) seats \<and>
    dealt_cards seats' + mset (deck_rest d') = dealt_cards seats + mset (deck_rest d) \<and>
    length (deck_rest d') = length (deck_rest d) - length ss"
  using assms
proof (induction ss arbitrary: seats d)
  case Nil
  then show ?case by simp
next
  case (Cons s ss)
  obtain st where st: "s < length seats" "seats ! s = Some st"
    using Cons.prems(1) by (auto simp: occupied_in_def)
  obtain c cs where rest: "deck_rest d = c # cs"
    using Cons.prems(2) by (cases "deck_rest d") auto
  define d1 where "d1 = d\<lparr>deck_index := deck_index d + 1\<rparr>"
  have deal: "deck_deal d = (Some c, d1)"
    using rest by (simp add: deck_deal_cases d1_def)
  then have rest1: "deck_rest d1 = cs"
    using deck_deal_rest(1) [of d] rest by simp
  define seats1 where "seats1 = seats[s := Some (st\<lparr>ms_hole_cards := ms_hole_cards st @ [c]\<rparr>)]"
  have step: "deal_card_to s (seats, d) = Some (seats1, d1)"
    using st deal by (simp add: deal_card_to_def vec_get_def seats1_def)
  have "map (map_option strip_cards) seats1 = map (map_option strip_cards) seats"
    using st by (simp add: seats1_def map_update strip_cards_def)
      (metis list_update_same_conv length_map nth_map option.simps(9) strip_cards_def)
  moreover have "dealt_cards seats1 + mset (deck_rest d1) = dealt_cards seats + mset (deck_rest d)"
    using sum_list_map_update_mset [OF st(1), of "\<lambda>x. mset (case_option [] ms_hole_cards x)"
        "Some (st\<lparr>ms_hole_cards := ms_hole_cards st @ [c]\<rparr>)"] st(2)
    by (simp add: dealt_cards_def seats1_def rest rest1)
  moreover have "\<forall>s\<in>set ss. s \<in> occupied_in seats1"
    using Cons.prems(1) by (auto simp: occupied_in_def seats1_def nth_list_update)
  ultimately show ?case
    using Cons.IH [of seats1 d1] Cons.prems(2) rest rest1 step by auto
qed

subsection \<open>Antes and blinds\<close>

text \<open>
  Before the first action: nobody has folded, a seat with chips is live and has paid exactly the
  level \<open>ante\<close> outside the street, and only such a seat can have chips on the street.
\<close>

definition posted_seat :: "nat \<Rightarrow> multiway_seat_state \<Rightarrow> bool" where
  "posted_seat ante st \<longleftrightarrow>
     ms_street_contribution st \<le> ms_hand_contribution st \<and> prior st \<le> ante \<and>
     (0 < ms_stack st \<or> 0 < ms_street_contribution st \<longrightarrow> prior st = ante) \<and>
     ms_participation st = (if ms_stack st = 0 then AllIn else Live)"

definition posted :: "nat \<Rightarrow> multiway_hand \<Rightarrow> bool" where
  "posted ante h \<longleftrightarrow> money_ok h \<and> (\<forall>s st. mw_seat h s = Some st \<longrightarrow> posted_seat ante st)"

lemma commit_chips_posted:
  assumes "posted ante h" "mw_seat h s \<noteq> None"
  shows "\<exists>h'. commit_chips h s r = Some h' \<and> posted ante h' \<and> occupied_seats h' = occupied_seats h \<and>
    h' = h\<lparr>mh_seats := mh_seats h'\<rparr> \<and> hand_cards h' = hand_cards h"
proof -
  obtain st where st: "mw_seat h s = Some st" using assms(2) by blast
  have money: "money_ok h" and post: "posted_seat ante st"
    using assms(1) st by (simp_all add: posted_def)
  define n where "n = min r (ms_stack st)"
  have bound: "ms_stack st + ms_hand_contribution st < u32_bound"
    by (rule seat_bounded [OF money st])
  have pay: "pay_chips r st = paid_in n st"
    using post bound
    by (auto simp: pay_chips_def paid_in_def Let_def u32_simps n_def posted_seat_def min_def split: if_splits)
  have post': "posted_seat ante (paid_in n st)"
    using post prior_paid_in [of n st] by (auto simp: posted_seat_def paid_in_def n_def)
  have "money_ok (mw_set_seat h s (paid_in n st))"
    by (rule money_set_seat [OF money st]) (simp add: paid_in_def n_def)
  then have "posted ante (mw_set_seat h s (paid_in n st))"
    using assms(1) post' mw_seat_bound [OF st] by (simp add: posted_def mw_seat_set_seat)
  moreover have "hand_cards (mw_set_seat h s (paid_in n st)) = hand_cards h"
    by (rule hand_cards_set_seat [OF st]) (simp add: paid_in_def)
  ultimately show ?thesis
    using st by (simp add: commit_chips_def seat_mut_Some pay) (simp add: mw_set_seat_def)
qed

lemma antes_posted:
  assumes "money_ok h" "\<And>s st. mw_seat h s = Some st \<Longrightarrow> posted_seat 0 st \<and> ms_street_contribution st = 0 \<and> 0 < ms_stack st"
  shows "\<exists>h'. (if 0 < ante then for_m (\<lambda>s h. commit_dead_chips h s ante) (occupied_seats h) h else Some h) = Some h' \<and>
    posted ante h' \<and> occupied_seats h' = occupied_seats h \<and> h' = h\<lparr>mh_seats := mh_seats h'\<rparr> \<and>
    hand_cards h' = hand_cards h"
proof (cases "0 < ante")
  case False
  then show ?thesis using assms by (simp add: posted_def)
next
  case True
  define h' where "h' = map_seats (\<lambda>_. pay_dead_chips ante) h"
  have shape: "mw_shape h" using assms(1) by (simp add: money_ok_def)
  have run: "for_m (\<lambda>s h. commit_dead_chips h s ante) (occupied_seats h) h = Some h'"
    using update_occupied_map [OF shape, of "pay_dead_chips ante"]
    by (simp add: update_occupied_def commit_dead_chips_def h'_def)
  have seat: "ms_stack (pay_dead_chips ante st) + ms_hand_contribution (pay_dead_chips ante st)
        = ms_stack st + ms_hand_contribution st \<and> posted_seat ante (pay_dead_chips ante st)"
    if "mw_seat h s = Some st" for s st
    using assms(2) [OF that] seat_bounded [OF assms(1) that]
    by (auto simp: pay_dead_chips_def Let_def posted_seat_def prior_def u32_simps min_def split: if_splits)
  have "seat_total ms_stack h' + seat_total ms_hand_contribution h'
      = seat_total ms_stack h + seat_total ms_hand_contribution h"
    unfolding seat_total_add h'_def by (rule seat_total_map_eq) (use seat in blast)
  then have "money_ok h'"
    using assms(1) by (simp add: money_ok_def) (simp add: h'_def)
  then have "posted ante h'"
    using seat by (auto simp: posted_def h'_def)
  moreover have "hand_cards h' = hand_cards h"
    using hole_cards_map_seats [of "\<lambda>_. pay_dead_chips ante" h]
    by (simp add: hand_cards_def h'_def pay_dead_chips_def Let_def)
  ultimately show ?thesis
    using True run by (simp add: h'_def)
qed

lemma post_forced_posted:
  assumes "posted ante h" "\<forall>p\<in>set posts. fp_live p"
  shows "\<exists>r. post_forced posts h = Some r \<and>
    (isl r \<longleftrightarrow> \<not> fp_seat ` set posts \<subseteq> set (occupied_seats h)) \<and>
    (\<forall>h'. r = Inr h' \<longrightarrow> posted ante h' \<and>
    occupied_seats h' = occupied_seats h \<and> h' = h\<lparr>mh_seats := mh_seats h'\<rparr> \<and> hand_cards h' = hand_cards h)"
  using assms
proof (induction posts arbitrary: h)
  case (Cons p posts)
  show ?case
  proof (cases "fp_seat p \<in> set (occupied_seats h)")
    case True
    then have "mw_seat h (fp_seat p) \<noteq> None" by (auto dest: occupied_seatsD)
    then obtain h1 where h1: "commit_chips h (fp_seat p) (fp_amount p) = Some h1" "posted ante h1"
      "occupied_seats h1 = occupied_seats h" "h1 = h\<lparr>mh_seats := mh_seats h1\<rparr>" "hand_cards h1 = hand_cards h"
      using commit_chips_posted [OF Cons.prems(1)] by blast
    then obtain r where r: "post_forced posts h1 = Some r"
      "isl r \<longleftrightarrow> \<not> fp_seat ` set posts \<subseteq> set (occupied_seats h1)" "\<forall>h'. r = Inr h' \<longrightarrow> posted ante h' \<and>
      occupied_seats h' = occupied_seats h1 \<and> h' = h1\<lparr>mh_seats := mh_seats h'\<rparr> \<and> hand_cards h' = hand_cards h1"
      using Cons.IH [OF h1(2)] Cons.prems(2) by auto
    have "h' = h\<lparr>mh_seats := mh_seats h'\<rparr>" if "h' = h1\<lparr>mh_seats := mh_seats h'\<rparr>" for h'
      using that h1(4) by (metis multiway_hand.update_convs(3) multiway_hand.surjective)
    then show ?thesis
      using True h1 r Cons.prems(2) by auto
  qed simp
qed simp

subsection \<open>Opening the betting\<close>

definition top_street :: "multiway_hand \<Rightarrow> nat" where
  "top_street h = Max (insert 0 (set (map ms_street_contribution (occupied_states h))))"

lemma top_street_facts:
  assumes "mw_shape h"
  shows "mw_seat h s = Some st \<Longrightarrow> ms_street_contribution st \<le> top_street h"
    and "0 < top_street h \<Longrightarrow> \<exists>s st. mw_seat h s = Some st \<and> ms_street_contribution st = top_street h"
proof -
  let ?S = "insert 0 (set (map ms_street_contribution (occupied_states h)))"
  show "ms_street_contribution st \<le> top_street h" if "mw_seat h s = Some st"
  proof -
    have "st \<in> set (occupied_states h)" using that set_occupied_states [OF assms] by blast
    then show ?thesis unfolding top_street_def by (intro Max_ge) auto
  qed
  have "top_street h \<in> ?S" unfolding top_street_def by (rule Max_in) auto
  then show "\<exists>s st. mw_seat h s = Some st \<and> ms_street_contribution st = top_street h" if pos: "0 < top_street h"
  proof -
    obtain st where "st \<in> set (occupied_states h)" "ms_street_contribution st = top_street h"
      using pos \<open>top_street h \<in> ?S\<close> by auto
    then show ?thesis using set_occupied_states [OF assms] by blast
  qed
qed

lemma posted_wagers:
  assumes "posted ante h" "mw_seat h s0 = Some st0" "mh_current_wager h = top_street h"
  shows "wagers_ok h"
proof -
  have shape: "mw_shape h" and post: "\<And>s st. mw_seat h s = Some st \<Longrightarrow> posted_seat ante st"
    using assms(1) by (simp_all add: posted_def money_ok_def)
  note top = top_street_facts [OF shape]
  have wf: "seat_wf (mh_current_wager h) st" if "mw_seat h s = Some st" for s st
    using post [OF that] top(1) [OF that] by (simp add: posted_seat_def seat_wf_def assms(3) split: if_splits)
  have eligible: "eligible_for_pot st" if "mw_seat h s = Some st" for s st
    using post [OF that] by (simp add: posted_seat_def eligible_for_pot_def split: if_splits)
  have at_ante: "wagers_ok h"
    if "mw_seat h l = Some ld" "ms_street_contribution ld = top_street h" "prior ld = ante" for l ld
  proof (rule wagers_okI [OF shape wf that(1) eligible [OF that(1)]])
    show "ms_street_contribution ld = mh_current_wager h" by (simp add: that(2) assms(3))
    show "prior st \<le> prior ld \<and> (ms_participation st = Live \<longrightarrow> prior st = prior ld)"
      if "mw_seat h s = Some st" for s st
      using post [OF that] \<open>prior ld = ante\<close> by (auto simp: posted_seat_def split: if_splits)
  qed
  show ?thesis
  proof (cases "0 < top_street h")
    case True
    then obtain l ld where "mw_seat h l = Some ld" "ms_street_contribution ld = top_street h"
      using top(2) by blast
    then show ?thesis using at_ante True post by (fastforce simp: posted_seat_def)
  next
    case False
    then have zero: "ms_street_contribution st = 0" if "mw_seat h s = Some st" for s st
      using top(1) [OF that] by simp
    show ?thesis
    proof (cases "\<exists>s st. mw_seat h s = Some st \<and> 0 < ms_stack st")
      case True
      then show ?thesis using at_ante zero False post by (fastforce simp: posted_seat_def)
    next
      case broke: False
      define P where "P = {prior st | s st. mw_seat h s = Some st}"
      have "P = prior ` set (occupied_states h)"
        by (auto simp: P_def set_occupied_states [OF shape])
      then have fin: "finite P" by simp
      have "P \<noteq> {}" using assms(2) by (auto simp: P_def)
      then have "Max P \<in> P" using fin by (intro Max_in)
      then obtain l ld where ld: "mw_seat h l = Some ld" "prior ld = Max P" by (auto simp: P_def)
      show ?thesis
      proof (rule wagers_okI [OF shape wf ld(1) eligible [OF ld(1)]])
        show "ms_street_contribution ld = mh_current_wager h"
          using zero [OF ld(1)] False by (simp add: assms(3))
        show "prior st \<le> prior ld \<and> (ms_participation st = Live \<longrightarrow> prior st = prior ld)"
          if "mw_seat h s = Some st" for s st
        proof -
          have "prior st \<le> Max P" using that fin by (intro Max_ge) (auto simp: P_def)
          moreover have "ms_participation st \<noteq> Live"
            using broke that post [OF that] by (auto simp: posted_seat_def)
          ultimately show ?thesis by (simp add: ld(2))
        qed
      qed
    qed
  qed
qed

lemma paced_frame [simp]:
  "betting_ok (h\<lparr>mh_paced_showdown := p\<rparr>) = betting_ok h"
  "showdown_ok (h\<lparr>mh_paced_showdown := p\<rparr>) = showdown_ok h"
proof -
  have "mid_ok (h\<lparr>mh_paced_showdown := p\<rparr>) = mid_ok h"
    by (simp add: mid_ok_def before_showdown_def wagers_ok_def leads_def)
  then show "betting_ok (h\<lparr>mh_paced_showdown := p\<rparr>) = betting_ok h"
    by (simp add: betting_ok_def needs_action_def cong: option.case_cong)
  have views: "eligible_seats (h\<lparr>mh_paced_showdown := p\<rparr>) = eligible_seats h"
    "hand_of (h\<lparr>mh_paced_showdown := p\<rparr>) = hand_of h" "hand_pots (h\<lparr>mh_paced_showdown := p\<rparr>) = hand_pots h"
    by (simp_all add: eligible_seats_def hand_of_def fun_eq_iff hand_pots_def)
  then have "progress_ok (h\<lparr>mh_paced_showdown := p\<rparr>) = progress_ok h"
    by (simp add: fun_eq_iff progress_ok_def seat_evaluations_def)
  then show "showdown_ok (h\<lparr>mh_paced_showdown := p\<rparr>) = showdown_ok h"
    using views by (simp add: showdown_ok_def revealed_in_def mucked_lose_def top_contributor_def
        cong: option.case_cong)
qed

lemma open_betting_returns:
  assumes "posted ante h" "cards_ok h" "before_showdown h" "mh_phase h = Preflop" "mh_board h = []"
    and "2 \<le> length (occupied_seats h)" "mh_button h < mh_table_size h" "mh_paced_showdown h"
    and "0 < bv_big_blind (mh_blind_values h)" "0 < mh_last_full_raise_size h" "first < mh_table_size h"
  shows "\<exists>h'. open_betting first h = Some h' \<and> (betting_ok h' \<or> showdown_ok h') \<and>
    same_game (h\<lparr>mh_paced_showdown := False\<rparr>) h'"
proof -
  define h1 where "h1 = h\<lparr>mh_current_wager := top_street h\<rparr>"
  define h2 where "h2 = h1\<lparr>mh_to_act := first_needing_from h1 first\<rparr>"
  have shape: "mw_shape h" using assms(1) by (simp add: posted_def money_ok_def)
  have "posted ante h1" using assms(1) by (simp add: posted_def h1_def)
  moreover have "top_street h1 = top_street h" by (simp add: top_street_def h1_def)
  moreover have "hd (occupied_seats h) \<in> set (occupied_seats h)" using assms(6) by (intro hd_in_set) auto
  then obtain st0 where "mw_seat h1 (hd (occupied_seats h)) = Some st0"
    using occupied_seatsD by (fastforce simp: h1_def)
  ultimately have "wagers_ok h1" by (intro posted_wagers) (simp_all add: h1_def)
  then have mid: "mid_ok h2"
    using assms by (simp add: mid_ok_def posted_def before_showdown_def wagers_ok_def leads_def h1_def h2_def)
  have "filter (mw_holds h eligible_for_pot) (occupied_seats h) = occupied_seats h"
  proof -
    have "mw_holds h eligible_for_pot s" if occ: "s \<in> set (occupied_seats h)" for s
    proof -
      obtain st where st: "mw_seat h s = Some st" using occupied_seatsD [OF occ] by blast
      then have "posted_seat ante st" using assms(1) by (simp add: posted_def)
      then show ?thesis using st by (simp add: posted_seat_def eligible_for_pot_def split: if_splits)
    qed
    then show ?thesis by simp
  qed
  then have two: "2 \<le> pot_eligible_count h2"
    using assms(6) by (simp add: pot_eligible_count_def h2_def h1_def)
  have game: "same_game h h2" by (simp add: same_game_def h2_def h1_def)
  have opened: "open_betting first h = map_option (\<lambda>h. h\<lparr>mh_paced_showdown := False\<rparr>)
      (advance_automatically_if_needed h2)"
    by (simp add: open_betting_def Let_def h2_def h1_def top_street_def map_option_case)
      (auto split: option.splits bind_splits)
  have "\<exists>g. advance_automatically_if_needed h2 = Some g \<and> same_game h2 g \<and> (betting_ok g \<or> showdown_ok g)"
  proof (cases "betting_round_complete h2")
    case True
    obtain g where "advance_street h2 = Some g" "ends_betting h2 g \<or> next_street_of h2 g"
      using advance_street_returns [OF mid two True] by blast
    then show ?thesis
      using True mid assms(8)
      by (auto simp: advance_automatically_if_needed_def mid_ok_def ends_betting_def next_street_of_def
          h2_def h1_def)
  next
    case False
    then obtain s where s: "needs_action h1 s"
      using incomplete_needs by (fastforce simp: h2_def)
    have "\<exists>t. first_needing_from h1 first = Some t \<and> needs_action h1 t"
      unfolding first_needing_from_def using shape assms(11)
      by (intro ring_search_total(2) [where P = "needs_action h1" and s = s, OF _ s])
        (auto simp: needs_action_def mw_holds_iff h1_def)
    then have "betting_ok h2" using mid two by (auto simp: betting_ok_def h2_def)
    then show ?thesis using False by (simp add: advance_automatically_if_needed_def same_game_def)
  qed
  then obtain g where g: "advance_automatically_if_needed h2 = Some g" "same_game h2 g"
    "betting_ok g \<or> showdown_ok g" by blast
  then show ?thesis
    using same_game_trans [OF game g(2)]
    by (intro exI [of _ "g\<lparr>mh_paced_showdown := False\<rparr>"]) (auto simp: opened same_game_def)
qed

subsection \<open>The constructor\<close>

lemma fresh_hand_fields [simp]:
  "mh_seats (fresh_hand n seats b sb bb bl k d) = seats" "mh_table_size (fresh_hand n seats b sb bb bl k d) = n"
  "mh_initial_total (fresh_hand n seats b sb bb bl k d) = k" "mh_button (fresh_hand n seats b sb bb bl k d) = b"
  "mh_board (fresh_hand n seats b sb bb bl k d) = []" "mh_deck (fresh_hand n seats b sb bb bl k d) = d"
  "mh_phase (fresh_hand n seats b sb bb bl k d) = Preflop" "mh_paced_showdown (fresh_hand n seats b sb bb bl k d)"
  "mh_blind_values (fresh_hand n seats b sb bb bl k d) = bl" "mh_small_blind (fresh_hand n seats b sb bb bl k d) = sb"
  "mh_big_blind (fresh_hand n seats b sb bb bl k d) = bb"
  "mh_last_full_raise_size (fresh_hand n seats b sb bb bl k d) = bv_big_blind bl"
  "before_showdown (fresh_hand n seats b sb bb bl k d)"
  by (simp_all add: fresh_hand_def before_showdown_def)

lemma sum_over_seats:
  assumes "length (mh_seats h) = mh_table_size h"
  shows "seat_total g h = sum_list (map (case_option 0 g) (mh_seats h))"
proof -
  have "sum_list (map (case_option 0 g) (mh_seats h))
      = (\<Sum>s\<in>{0..<length (mh_seats h)}. case_option 0 g (mh_seats h ! s))"
    by (simp add: sum_list_sum_nth)
  also have "\<dots> = (\<Sum>s\<in>set (occupied_seats h). g (the (mw_seat h s)))"
    using assms
    by (intro sum.mono_neutral_cong_right)
      (auto simp: occupied_seats_def table_size_seats_def mw_seat_def split: option.splits)
  finally show ?thesis by (simp add: seat_total_sum)
qed

lemma concat_map_vacant:
  "concat (map (\<lambda>s. case_option [] ms_hole_cards (f s)) xs)
    = concat (map (\<lambda>s. ms_hole_cards (the (f s))) (filter (\<lambda>s. f s \<noteq> None) xs))"
  by (induction xs) auto

lemma hole_cards_seats:
  assumes "length (mh_seats h) = mh_table_size h"
  shows "mset (hole_cards h) = dealt_cards (mh_seats h)"
proof -
  have "hole_cards h = concat (map (\<lambda>x. case_option [] ms_hole_cards x) (mh_seats h))"
  proof -
    have "map (\<lambda>s. mw_seat h s) [0..<length (mh_seats h)] = mh_seats h"
      by (intro nth_equalityI) (auto simp: mw_seat_def)
    then have "concat (map (\<lambda>x. case_option [] ms_hole_cards x) (mh_seats h))
        = concat (map (\<lambda>s. case_option [] ms_hole_cards (mw_seat h s)) [0..<length (mh_seats h)])"
      by (metis (no_types, lifting) comp_apply map_eq_conv map_map)
    also have "\<dots> = concat (map (\<lambda>s. ms_hole_cards (the (mw_seat h s)))
        (filter (\<lambda>s. mw_seat h s \<noteq> None) [0..<length (mh_seats h)]))"
      by (rule concat_map_vacant)
    finally show ?thesis
      using assms by (simp add: hole_cards_def occupied_states_map occupied_seats_def table_size_seats_def comp_def)
  qed
  then show ?thesis by (simp add: dealt_cards_def mset_concat comp_def)
qed

lemma occupied_test:
  "vec_get seats s \<noteq> None \<and> vec_get seats s \<noteq> Some None \<longleftrightarrow> s \<in> occupied_in seats"
  by (auto simp: vec_get_def occupied_in_def)

lemma ring_wrapped: "map (seat_wrapped n a) xs = ring_from n xs a"
  by (simp add: ring_from_def seat_wrapped_def)

lemma next_occupied_returns:
  assumes "length seats = n" "b \<in> occupied_in seats" "a < n"
  shows "\<exists>t. next_occupied n seats a = Some t \<and> t \<in> occupied_in seats"
proof -
  have b: "b < n" using assms(1,2) by (simp add: occupied_in_def)
  have "b \<in> set (ring_from n [1..<Suc n] a)"
    using after.candidates_complete [OF assms(3) b] ring_includes_start(1) [OF assms(3)] by blast
  then have "\<exists>x\<in>set (ring_from n [1..<Suc n] a). x \<in> occupied_in seats" using assms(2) by blast
  then obtain t where t: "first_match (\<lambda>s. s \<in> occupied_in seats) (ring_from n [1..<Suc n] a) = Some t"
    using first_match_exists by metis
  then have "t \<in> occupied_in seats" using first_match_SomeD by metis
  then show ?thesis
    using t unfolding next_occupied_def occupied_test ring_wrapped by blast
qed

lemma clockwise_occupied_facts:
  assumes "length seats = n" "b < n"
  shows "set (clockwise_occupied n seats b) \<subseteq> occupied_in seats"
    and "length (clockwise_occupied n seats b) \<le> card (occupied_in seats)"
proof -
  have eq: "clockwise_occupied n seats b = filter (\<lambda>s. s \<in> occupied_in seats) (ring_from n [1..<Suc n] b)"
    unfolding clockwise_occupied_def occupied_test ring_wrapped by (rule refl)
  show sub: "set (clockwise_occupied n seats b) \<subseteq> occupied_in seats" by (auto simp: eq)
  have "distinct (clockwise_occupied n seats b)"
    unfolding eq by (intro distinct_filter after.candidates_distinct assms(2))
  moreover have "finite (occupied_in seats)" by (simp add: occupied_in_def)
  ultimately show "length (clockwise_occupied n seats b) \<le> card (occupied_in seats)"
    using sub by (metis card_mono distinct_card)
qed

lemma blind_positions_returns:
  assumes "length seats = n" "b \<in> occupied_in seats"
  shows "\<exists>sb bb first. blind_positions n seats b players = Some (sb, bb, first) \<and>
    sb \<in> occupied_in seats \<and> bb \<in> occupied_in seats \<and> first \<in> occupied_in seats"
proof -
  have "\<exists>t. next_occupied n seats a = Some t \<and> t \<in> occupied_in seats" if "a \<in> occupied_in seats" for a
    using that assms by (intro next_occupied_returns) (simp_all add: occupied_in_def)
  then show ?thesis
    using assms(2) unfolding blind_positions_def by (metis (no_types, lifting) Option.bind.bind_lunit)
qed

definition unstripped :: "multiway_seat_state option list \<Rightarrow> multiway_seat_state option list \<Rightarrow> bool" where
  "unstripped seats seats' \<longleftrightarrow> map (map_option strip_cards) seats' = map (map_option strip_cards) seats"

lemma strip_stack: "strip_cards a = strip_cards b \<Longrightarrow> ms_stack a = ms_stack b"
  by (drule arg_cong [of _ _ ms_stack]) (simp add: strip_cards_def)

lemma unstripped_facts:
  assumes "unstripped seats seats'" "fresh_seats seats"
  shows "length seats' = length seats" "occupied_in seats' = occupied_in seats"
    and "stack_sum seats' = stack_sum seats" "dealt_cards seats = {#}"
    and "s < length seats \<Longrightarrow> seats' ! s = Some st \<Longrightarrow>
      0 < ms_stack st \<and> ms_street_contribution st = 0 \<and> ms_hand_contribution st = 0 \<and> ms_participation st = Live"
proof -
  show len: "length seats' = length seats"
    using map_eq_imp_length_eq [OF assms(1) [unfolded unstripped_def]] .
  have each: "map_option strip_cards (seats' ! i) = map_option strip_cards (seats ! i)" if "i < length seats" for i
    using arg_cong [OF assms(1) [unfolded unstripped_def], of "\<lambda>xs. xs ! i"] that len by simp
  have "seats' ! i = None \<longleftrightarrow> seats ! i = None" if "i < length seats" for i
    using each [OF that] by (cases "seats' ! i"; cases "seats ! i") auto
  then show "occupied_in seats' = occupied_in seats"
    using len unfolding occupied_in_def by (intro Collect_cong) metis
  have "map (case_option 0 ms_stack) seats' = map (case_option 0 ms_stack) seats"
  proof (rule nth_equalityI)
    show "map (case_option 0 ms_stack) seats' ! i = map (case_option 0 ms_stack) seats ! i"
      if i: "i < length (map (case_option 0 ms_stack) seats')" for i
    proof -
      have "case_option 0 ms_stack (seats' ! i) = case_option 0 ms_stack (seats ! i)"
        using i len each [of i] by (cases "seats' ! i"; cases "seats ! i") (auto dest: strip_stack)
      then show ?thesis using i len by simp
    qed
  qed (simp add: len)
  then show "stack_sum seats' = stack_sum seats" by (simp add: stack_sum_def)
  have "mset (case_option [] ms_hole_cards x) = {#}" if "x \<in> set seats" for x
    using that assms(2)
    by (fastforce simp: in_set_conv_nth fresh_seats_def multiway_seat_new_def split: option.splits)
  then show "dealt_cards seats = {#}"
    unfolding dealt_cards_def by (induction seats) auto
  show "0 < ms_stack st \<and> ms_street_contribution st = 0 \<and> ms_hand_contribution st = 0 \<and> ms_participation st = Live"
    if s: "s < length seats" "seats' ! s = Some st"
  proof -
    obtain st0 where st0: "seats ! s = Some st0" "strip_cards st = strip_cards st0"
      using each [OF s(1)] s(2) by (cases "seats ! s") auto
    then obtain k where "0 < k" "st0 = multiway_seat_new k"
      using assms(2) s(1) by (auto simp: fresh_seats_def split: option.splits)
    then have "strip_cards st = strip_cards (multiway_seat_new k)" "0 < k" using st0(2) by simp_all
    then show ?thesis
      by (cases st) (simp add: strip_cards_def multiway_seat_new_def)
  qed
qed

definition started_ok :: "(seat_id \<times> u32) list \<Rightarrow> deck \<Rightarrow> multiway_hand \<Rightarrow> bool" where
  "started_ok stacks d h \<longleftrightarrow> (betting_ok h \<or> showdown_ok h) \<and> \<not> mh_paced_showdown h \<and>
     mh_initial_total h = sum_list (map snd stacks) \<and> mset (hand_cards h) = mset (deck_rest d) \<and>
     set (occupied_seats h) = fst ` set stacks \<and> mh_button h \<in> fst ` set stacks"

text \<open>The configurations that the constructor accepts.\<close>

definition config_accepted :: "table_size \<Rightarrow> seat_id \<Rightarrow> (seat_id \<times> u32) list \<Rightarrow> forced_post list
    \<Rightarrow> blind_values \<Rightarrow> bool" where
  "config_accepted n button stacks posts blinds \<longleftrightarrow>
     blind_values_new (bv_small_blind blinds) (bv_big_blind blinds) (bv_ante blinds) \<noteq> None \<and>
     2 \<le> length stacks \<and> distinct (map fst stacks) \<and> (\<forall>(s, k)\<in>set stacks. s < n \<and> 0 < k) \<and>
     sum_list (map snd stacks) < u32_bound \<and> button \<in> fst ` set stacks \<and>
     fp_seat ` set posts \<subseteq> fst ` set stacks"

lemma seats_update_twice:
  assumes "h1 = h\<lparr>mh_seats := mh_seats h1\<rparr>" "h2 = h1\<lparr>mh_seats := mh_seats h2\<rparr>"
  shows "h2 = h\<lparr>mh_seats := mh_seats h2\<rparr>"
proof -
  have "h1\<lparr>mh_seats := x\<rparr> = h\<lparr>mh_seats := x\<rparr>" for x
    by (subst assms(1)) simp
  then show ?thesis using assms(2) by simp
qed

lemma posts_and_opens:
  fixes h0 :: multiway_hand
  assumes "money_ok h0" "cards_ok h0" "before_showdown h0" "mh_phase h0 = Preflop" "mh_board h0 = []"
    and fresh: "\<And>s st. mw_seat h0 s = Some st \<Longrightarrow> posted_seat 0 st \<and> ms_street_contribution st = 0 \<and> 0 < ms_stack st"
    and "2 \<le> length (occupied_seats h0)" "mh_button h0 < mh_table_size h0" "mh_paced_showdown h0"
    and "0 < bv_big_blind (mh_blind_values h0)" "0 < mh_last_full_raise_size h0"
    and "first < mh_table_size h0" "mw_seat h0 (mh_small_blind h0) \<noteq> None" "mw_seat h0 (mh_big_blind h0) \<noteq> None"
    and "\<forall>p\<in>set posts. fp_live p"
  shows "\<exists>r. do { h \<leftarrow> post_antes_and_blinds h0; posted \<leftarrow> post_forced posts h;
      case posted of Inl e \<Rightarrow> Some (Inl e) | Inr h \<Rightarrow> map_option Inr (open_betting first h) } = Some r \<and>
    (isl r \<longleftrightarrow> \<not> fp_seat ` set posts \<subseteq> set (occupied_seats h0)) \<and>
    (\<forall>h. r = Inr h \<longrightarrow> (betting_ok h \<or> showdown_ok h) \<and> same_game (h0\<lparr>mh_paced_showdown := False\<rparr>) h)"
proof -
  define ante where "ante = bv_ante (mh_blind_values h0)"
  have "\<exists>h'. (if 0 < ante then for_m (\<lambda>s h. commit_dead_chips h s ante) (occupied_seats h0) h0
      else Some h0) = Some h' \<and> posted ante h' \<and> occupied_seats h' = occupied_seats h0 \<and>
      h' = h0\<lparr>mh_seats := mh_seats h'\<rparr> \<and> hand_cards h' = hand_cards h0"
    by (rule antes_posted [OF assms(1)]) (rule fresh)
  then obtain h1 where h1: "(if 0 < ante then for_m (\<lambda>s h. commit_dead_chips h s ante) (occupied_seats h0) h0
      else Some h0) = Some h1" "posted ante h1" "occupied_seats h1 = occupied_seats h0"
      "h1 = h0\<lparr>mh_seats := mh_seats h1\<rparr>" "hand_cards h1 = hand_cards h0"
    by (elim exE conjE) (rule that)
  have occ: "mw_seat h s \<noteq> None" if "occupied_seats h = occupied_seats h0" "mw_seat h0 s \<noteq> None" for h s
    using that assms(1) occupied_seatsI occupied_seatsD by (metis money_ok_def not_None_eq)
  obtain h2 where h2: "commit_chips h1 (mh_small_blind h0) (bv_small_blind (mh_blind_values h0)) = Some h2"
    "posted ante h2" "occupied_seats h2 = occupied_seats h0" "h2 = h1\<lparr>mh_seats := mh_seats h2\<rparr>"
    "hand_cards h2 = hand_cards h0"
    using commit_chips_posted [OF h1(2) occ [OF h1(3) assms(13)]] h1(3,5) by metis
  obtain h3 where h3: "commit_chips h2 (mh_big_blind h0) (bv_big_blind (mh_blind_values h0)) = Some h3"
    "posted ante h3" "occupied_seats h3 = occupied_seats h0" "h3 = h2\<lparr>mh_seats := mh_seats h3\<rparr>"
    "hand_cards h3 = hand_cards h0"
    using commit_chips_posted [OF h2(2) occ [OF h2(3) assms(14)]] h2(3,5) by metis
  have h30: "h3 = h0\<lparr>mh_seats := mh_seats h3\<rparr>"
    using seats_update_twice [OF seats_update_twice [OF h1(4) h2(4)] h3(4)] .
  have h20: "mh_big_blind h2 = mh_big_blind h0"
    using seats_update_twice [OF h1(4) h2(4)] by (metis multiway_hand.select_convs(7)
      multiway_hand.surjective multiway_hand.update_convs(3))
  have h10: "mh_small_blind h1 = mh_small_blind h0" by (subst h1(4)) simp
  have blinds: "post_antes_and_blinds h0 = Some h3"
    using h2(1) h3(1)
    by (simp only: post_antes_and_blinds_def Let_def ante_def [symmetric] h1(1) Option.bind.bind_lunit h10 h20)
  obtain r where r: "post_forced posts h3 = Some r"
    "isl r \<longleftrightarrow> \<not> fp_seat ` set posts \<subseteq> set (occupied_seats h3)" "\<forall>h'. r = Inr h' \<longrightarrow> posted ante h' \<and>
    occupied_seats h' = occupied_seats h3 \<and> h' = h3\<lparr>mh_seats := mh_seats h'\<rparr> \<and> hand_cards h' = hand_cards h3"
    using post_forced_posted [OF h3(2) assms(15)] by blast
  show ?thesis
  proof (cases r)
    case (Inl e)
    then show ?thesis using blinds r(1,2) h3(3) by simp
  next
    case (Inr h)
    then have post: "posted ante h" and occ_h: "occupied_seats h = occupied_seats h0"
      and cards: "hand_cards h = hand_cards h0" and h: "h = h0\<lparr>mh_seats := mh_seats h\<rparr>"
      using r(3) h3(3,5) seats_update_twice [OF h30] by auto
    have same: "mh_phase h = mh_phase h0" "mh_board h = mh_board h0" "mh_deck h = mh_deck h0"
      "mh_button h = mh_button h0" "mh_table_size h = mh_table_size h0" "mh_initial_total h = mh_initial_total h0"
      "mh_paced_showdown h = mh_paced_showdown h0" "mh_blind_values h = mh_blind_values h0"
      "mh_last_full_raise_size h = mh_last_full_raise_size h0" "before_showdown h = before_showdown h0"
      by (subst h, simp add: before_showdown_def)+
    obtain h' where "open_betting first h = Some h'" "betting_ok h' \<or> showdown_ok h'"
      "same_game (h\<lparr>mh_paced_showdown := False\<rparr>) h'"
      using open_betting_returns [OF post, of first] assms(2-5,7-12) cards
      by (auto simp: same occ_h cards_ok_def)
    then show ?thesis
      using blinds r(1,2) Inr cards same h3(3) occ_h by (simp add: same_game_def)
  qed
qed

lemma with_prepared_deck_returns:
  assumes "valid_size n" "distinct (deck_rest d)" "2 * length stacks + 5 \<le> length (deck_rest d)"
    and "\<forall>p\<in>set posts. fp_live p"
  shows "\<exists>r. with_prepared_deck n button stacks posts blinds d = Some r \<and>
    (isl r \<longleftrightarrow> \<not> config_accepted n button stacks posts blinds) \<and>
    (\<forall>h. r = Inr h \<longrightarrow> started_ok stacks d h)"
proof (cases "blind_values_new (bv_small_blind blinds) (bv_big_blind blinds) (bv_ante blinds) = None
    \<or> length stacks < 2")
  case True
  then show ?thesis by (auto simp: with_prepared_deck_def config_accepted_def)
next
  case valid: False
  then have big: "0 < bv_big_blind blinds"
    by (auto simp: blind_values_new_def split: if_splits)
  show ?thesis
  proof (cases "seat_stacks n stacks {} (replicate n None) 0")
    case (Inl e)
    then have "\<not> config_accepted n button stacks posts blinds"
      using seat_stacks_accepts [of n stacks "{}" "replicate n None" 0]
      by (auto simp: config_accepted_def)
    then show ?thesis using valid Inl by (simp add: with_prepared_deck_def)
  next
    case (Inr res)
    obtain seats tot where res: "res = (seats, tot)" by (cases res)
    have pos: "(0 :: nat) < u32_bound" by (simp add: u32_bound_def)
    note built = seat_stacks_result [OF Inr [unfolded res] length_replicate empty_table pos]
    have "card (occupied_in seats) = card ({} :: nat set) + length stacks" using built by blast
    then have seats: "length seats = n" "fresh_seats seats" "stack_sum seats = tot" "tot < u32_bound"
      "card (occupied_in seats) = length stacks" "tot = sum_list (map snd stacks)"
      using built by simp_all
    have keys: "occupied_in seats = fst ` set stacks" using built by simp
    have stacks_ok: "distinct (map fst stacks) \<and> (\<forall>(s, k)\<in>set stacks. s < n \<and> 0 < k) \<and>
        sum_list (map snd stacks) < u32_bound"
      using seat_stacks_accepts [of n stacks "{}" "replicate n None" 0] valid Inr by auto
    show ?thesis
    proof (cases "button \<in> occupied_in seats")
      case False
      then show ?thesis
        using valid Inr res keys
        by (auto simp: with_prepared_deck_def config_accepted_def simp flip: occupied_test)
    next
      case True
      have button: "button < n" using True seats(1) by (simp add: occupied_in_def)
      define occ where "occ = clockwise_occupied n seats button"
      note ring = clockwise_occupied_facts [OF seats(1) button, folded occ_def]
      obtain seats' d' where dealt: "for_m deal_card_to (occ @ occ) (seats, d) = Some (seats', d')"
        "unstripped seats seats'" "dealt_cards seats' + mset (deck_rest d') = dealt_cards seats + mset (deck_rest d)"
        "length (deck_rest d') = length (deck_rest d) - length (occ @ occ)"
        using deal_all [of "occ @ occ" seats d] ring assms(3) seats(5) unfolding unstripped_def by force
      note un = unstripped_facts [OF dealt(2) seats(2)]
      have button': "button \<in> occupied_in seats'" using True un(2) by simp
      obtain sb bb first where pos: "blind_positions n seats' button (length stacks) = Some (sb, bb, first)"
        "sb \<in> occupied_in seats'" "bb \<in> occupied_in seats'" "first \<in> occupied_in seats'"
        using blind_positions_returns [of seats' n, OF _ button'] un(1) seats(1) by metis
      define h0 where "h0 = fresh_hand n seats' button sb bb blinds tot d'"
      have fields: "length (mh_seats h0) = mh_table_size h0" "mh_seats h0 = seats'" "mh_table_size h0 = n"
        using un(1) seats(1) by (simp_all add: h0_def)
      have read: "mw_seat h0 s = (if s < n then seats' ! s else None)" for s
        using un(1) seats(1) by (simp add: mw_seat_def fields(2))
      have fresh: "0 < ms_stack st \<and> ms_street_contribution st = 0 \<and> ms_hand_contribution st = 0 \<and>
          ms_participation st = Live" if "mw_seat h0 s = Some st" for s st
        using that un(5) seats(1) by (simp add: read split: if_splits)
      have occ_set: "set (occupied_seats h0) = occupied_in seats'"
        using un(1) seats(1) by (auto simp: occupied_seats_def table_size_seats_def fields occupied_in_def read)
      have "seat_total ms_stack h0 = tot"
        using sum_over_seats [OF fields(1)] un(3) seats(3) by (simp add: fields stack_sum_def)
      moreover have "seat_total ms_hand_contribution h0 = 0"
        unfolding seat_total_sum using fresh by (intro sum.neutral) (auto dest!: occupied_seatsD)
      ultimately have money: "money_ok h0"
        using seats(4) assms(1) fields by (simp add: money_ok_def mw_shape_def) (simp add: h0_def)
      have holes: "mset (hand_cards h0) = mset (deck_rest d)"
        using hole_cards_seats [OF fields(1)] dealt(3) un(4)
        by (simp add: hand_cards_def fields) (simp add: h0_def)
      then have "distinct (hand_cards h0)" using assms(2) by (metis mset_eq_imp_distinct_iff)
      moreover have "5 \<le> length (deck_rest (mh_deck h0))"
        using dealt(4) ring(2) seats(5) assms(3) by (simp add: h0_def)
      ultimately have cards: "cards_ok h0" by (simp add: cards_ok_def)
      have "length (occupied_seats h0) = length stacks"
        using distinct_card [OF distinct_occupied, of h0] occ_set un(2) seats(5) by simp
      then have two: "2 \<le> length (occupied_seats h0)" using valid by simp
      have "\<exists>r. do { h \<leftarrow> post_antes_and_blinds h0; posted \<leftarrow> post_forced posts h;
          case posted of Inl e \<Rightarrow> Some (Inl e) | Inr h \<Rightarrow> map_option Inr (open_betting first h) } = Some r \<and>
        (isl r \<longleftrightarrow> \<not> fp_seat ` set posts \<subseteq> set (occupied_seats h0)) \<and>
        (\<forall>h. r = Inr h \<longrightarrow> (betting_ok h \<or> showdown_ok h) \<and> same_game (h0\<lparr>mh_paced_showdown := False\<rparr>) h)"
      proof (rule posts_and_opens [OF money cards _ _ _ _ two])
        show "posted_seat 0 st \<and> ms_street_contribution st = 0 \<and> 0 < ms_stack st"
          if "mw_seat h0 s = Some st" for s st
          using fresh [OF that] by (simp add: posted_seat_def prior_def)
      qed (use pos button big assms(4) seats(1) un(1) in \<open>auto simp: h0_def occupied_in_def mw_seat_def\<close>)
      then obtain r where r: "do { h \<leftarrow> post_antes_and_blinds h0; posted \<leftarrow> post_forced posts h;
          case posted of Inl e \<Rightarrow> Some (Inl e) | Inr h \<Rightarrow> map_option Inr (open_betting first h) } = Some r"
        "isl r \<longleftrightarrow> \<not> fp_seat ` set posts \<subseteq> set (occupied_seats h0)"
        "\<forall>h. r = Inr h \<longrightarrow> (betting_ok h \<or> showdown_ok h) \<and> same_game (h0\<lparr>mh_paced_showdown := False\<rparr>) h"
        by blast
      have "with_prepared_deck n button stacks posts blinds d = Some r"
        using valid Inr res True dealt(1) pos(1) r(1)
        by (auto simp: with_prepared_deck_def Let_def occ_def [symmetric] h0_def [symmetric]
            occupied_in_def vec_get_def)
      moreover have "started_ok stacks d h" if "r = Inr h" for h
      proof -
        have "mh_button h0 \<in> fst ` set stacks" "mh_initial_total h0 = tot"
          using True keys by (simp_all add: h0_def)
        then show ?thesis
          using r(3) that holes seats(6) occ_set un(2) keys
          by (simp add: started_ok_def same_game_def)
      qed
      moreover have "isl r \<longleftrightarrow> \<not> config_accepted n button stacks posts blinds"
        using r(2) occ_set un(2) keys stacks_ok valid True by (auto simp: config_accepted_def)
      ultimately show ?thesis by blast
    qed
  qed
qed

end
