(* ===== verification/Samples.thy ===== *)
theory Samples
  imports Start_Facts "HOL-Library.Code_Target_Nat"
begin

text \<open>
  Concrete hands, played by evaluation of the model: a three-handed hand with an all-in, and a
  hand in which forced posts are dead.
\<close>

definition sample_blinds :: blind_values where
  "sample_blinds = \<lparr>bv_small_blind = 100, bv_big_blind = 200, bv_ante = 0\<rparr>"

definition no_hand :: multiway_hand where
  "no_hand = fresh_hand 2 [] 0 0 0 sample_blinds 0 deck_new"

fun played :: "('e + multiway_hand) option \<Rightarrow> bool" where
  "played (Some (Inr h)) = True"
| "played _ = False"

fun the_hand :: "('e + multiway_hand) option \<Rightarrow> multiway_hand" where
  "the_hand (Some (Inr h)) = h"
| "the_hand _ = no_hand"

lemma playedD: "played r \<Longrightarrow> r = Some (Inr (the_hand r))"
  by (cases r rule: played.cases) simp_all

fun play :: "(seat_id \<times> action) list \<Rightarrow> multiway_hand \<Rightarrow> (command_error + multiway_hand) option" where
  "play [] h = Some (Inr h)"
| "play (c # cs) h = (case apply_command h (seat_command_new (fst c) (snd c)) of
     Some (Inr h') \<Rightarrow> play cs h'
   | Some (Inl e) \<Rightarrow> Some (Inl e)
   | None \<Rightarrow> None)"

definition sample_start :: "(config_error + multiway_hand) option" where
  "sample_start = with_prepared_deck 3 0 [(0, 1000), (1, 600), (2, 1000)] [] sample_blinds deck_new"

definition sample_hand :: multiway_hand where
  "sample_hand = the_hand sample_start"

text \<open>The flop after three calls, and the paced showdown of an all-in before the flop.\<close>

definition sample_flop :: multiway_hand where
  "sample_flop = the_hand (play [(0, Call 200), (1, Call 100), (2, Check)] sample_hand)"

definition sample_showdown :: multiway_hand where
  "sample_showdown = the_hand (play [(0, ActAllIn 1000), (1, ActAllIn 600), (2, ActAllIn 1000)]
     (enable_paced_showdown sample_hand))"

definition dead_posts :: "forced_post list" where
  "dead_posts = concat (map (\<lambda>s. [\<lparr>fp_seat = s, fp_amount = 100, fp_live = False\<rparr>,
     \<lparr>fp_seat = s, fp_amount = 200, fp_live = True\<rparr>]) [3, 0])"

definition dead_start :: "(config_error + multiway_hand) option" where
  "dead_start = with_prepared_deck 4 0 [(0, 1000), (1, 1000), (2, 250), (3, 1000)] dead_posts
     sample_blinds deck_new"

definition dead_hand :: multiway_hand where
  "dead_hand = the_hand (play [(3, Check), (0, Check), (1, Call 100), (2, Check), (1, Check),
     (2, ActAllIn 50), (3, ActFold), (0, ActFold)] (the_hand dead_start))"

lemma sample_started: "played sample_start \<and> mh_to_act sample_hand = Some 0"
  by code_simp

lemma sample_hand_betting: "betting_ok sample_hand"
proof -
  have deck: "distinct (deck_rest deck_new)" "length (deck_rest deck_new) = 52"
    using deck_new_complete by (simp_all add: deck_rest_def deck_new_def)
  have "valid_size 3" by (simp add: valid_size_def MIN_TABLE_SEATS_def MAX_TABLE_SEATS_def)
  then obtain r where r: "sample_start = Some r" "\<forall>h. r = Inr h \<longrightarrow> started_ok [(0, 1000), (1, 600), (2, 1000)] deck_new h"
    unfolding sample_start_def
    using with_prepared_deck_returns [where n = 3 and d = deck_new and button = 0 and blinds = sample_blinds
        and stacks = "[(0, 1000), (1, 600), (2, 1000)]" and posts = "[]"] deck by force
  have "sample_start = Some (Inr sample_hand)"
    unfolding sample_hand_def using sample_started by (intro playedD) simp
  then have "r = Inr sample_hand" using r(1) by (metis option.inject)
  then have "betting_ok sample_hand \<or> showdown_ok sample_hand"
    using r(2) by (simp add: started_ok_def)
  then show ?thesis
    using sample_started by (auto simp: showdown_ok_def)
qed

lemma sample_flop_reached:
  "played (play [(0, Call 200), (1, Call 100), (2, Check)] sample_hand) \<and> mh_phase sample_flop = Flop \<and> mh_to_act sample_flop = Some 1"
  by code_simp

lemma sample_showdown_reached:
  "played (play [(0, ActAllIn 1000), (1, ActAllIn 600), (2, ActAllIn 1000)] (enable_paced_showdown sample_hand))
    \<and> mh_showdown_progress sample_showdown \<noteq> None"
  by code_simp

lemma play_hand_ok:
  "hand_ok h \<Longrightarrow> play cs h = Some (Inr h') \<Longrightarrow> hand_ok h'"
proof (induction cs arbitrary: h)
  case (Cons c cs)
  then show ?case
    using apply_command_outcome [OF Cons.prems(1), of "seat_command_new (fst c) (snd c)"] outcome_hand_ok
    by (auto split: option.splits sum.splits)
qed simp

declare play.simps [simp del]

lemma sample_flop_ok: "hand_ok sample_flop"
  using play_hand_ok [of sample_hand] sample_hand_betting playedD [OF conjunct1 [OF sample_flop_reached]]
  by (auto simp: sample_flop_def hand_ok_def)

lemma enable_paced_ok: "hand_ok h \<Longrightarrow> mh_to_act h \<noteq> None \<Longrightarrow> hand_ok (enable_paced_showdown h)"
  by (auto simp: hand_ok_def enable_paced_showdown_def showdown_ok_def done_ok_def)

lemma sample_showdown_ok: "showdown_ok sample_showdown"
proof -
  have "hand_ok (enable_paced_showdown sample_hand)"
    using sample_hand_betting sample_started by (intro enable_paced_ok) (simp_all add: hand_ok_def)
  then have "hand_ok sample_showdown"
    using play_hand_ok playedD [OF conjunct1 [OF sample_showdown_reached]]
    by (fastforce simp: sample_showdown_def)
  then show ?thesis
    using sample_showdown_reached
    by (auto simp: hand_ok_def betting_ok_def mid_ok_def before_showdown_def done_ok_def)
qed

lemma dead_hand_reached:
  "played dead_start \<and> played (play [(3, Check), (0, Check), (1, Call 100), (2, Check), (1, Check),
     (2, ActAllIn 50), (3, ActFold), (0, ActFold)] (the_hand dead_start)) \<and> mh_to_act dead_hand = Some 1"
  by code_simp

lemma dead_hand_call: "apply_command dead_hand (seat_command_new 1 (Call 50)) = None"
  by code_simp

lemma dead_hand_valid: "validate_command dead_hand (seat_command_new 1 (Call 50)) = Some (Inr ())"
  by code_simp

text \<open>The start of the sample hand with the button and the small blind folded.\<close>

definition fold_seat :: "seat_id \<Rightarrow> multiway_hand \<Rightarrow> multiway_hand" where
  "fold_seat s = map_seats (\<lambda>t st. if t = s then st\<lparr>ms_participation := Folded\<rparr> else st)"

definition folded_sample :: multiway_hand where
  "folded_sample = fold_seat 1 (fold_seat 0 sample_hand)"

lemma fold_seat_ok:
  "money_ok h \<Longrightarrow> money_ok (fold_seat s h)" "cards_ok h \<Longrightarrow> cards_ok (fold_seat s h)"
  "mh_mucked_hands (fold_seat s h) = mh_mucked_hands h"
proof -
  show "money_ok h \<Longrightarrow> money_ok (fold_seat s h)"
    unfolding fold_seat_def by (rule money_map_seats) auto
  have "hole_cards (fold_seat s h) = hole_cards h"
    unfolding fold_seat_def by (rule hole_cards_map_seats) auto
  then show "cards_ok h \<Longrightarrow> cards_ok (fold_seat s h)"
    by (simp add: cards_ok_def hand_cards_def) (simp add: fold_seat_def)
qed (simp add: fold_seat_def)

end
