(* ===== verification/Multiway_Properties.thy ===== *)
theory Multiway_Properties
  imports Samples
begin

text \<open>
  The properties of the multiway engine: the life of a hand from its start to its settlement. Each
  is an application of the component lemmas; the witnesses use the hands of \<open>Samples\<close>.
\<close>

section \<open>The life of a hand\<close>

text \<open>
  C1: a command on a hand that satisfies the invariant never panics. It is rejected, or the seat to
  act has acted and the new hand satisfies the invariant with the same chips, cards and table.
\<close>

theorem command_never_panics:
  assumes "hand_ok h"
  shows "case apply_command h c of
     None \<Rightarrow> False
   | Some (Inl e) \<Rightarrow> True
   | Some (Inr h') \<Rightarrow> mh_to_act h = Some (cmd_seat c) \<and> hand_ok h' \<and> same_game h h'"
  using apply_command_outcome [OF assms, of c]
  by (auto simp: outcome_ok_def hand_ok_def split: if_splits)

theorem command_never_panics_witness:
  "\<exists>h'. apply_command sample_hand (seat_command_new 0 (Call 200)) = Some (Inr h') \<and> hand_ok h'"
proof -
  have "hand_ok sample_hand" using sample_hand_betting by (simp add: hand_ok_def)
  note here = command_never_panics [OF this, of "seat_command_new 0 (Call 200)"]
  have "played (apply_command sample_hand (seat_command_new 0 (Call 200)))" by code_simp
  from playedD [OF this] here show ?thesis by (metis (no_types, lifting) option.simps(5) sum.case(2))
qed

text \<open>
  C2: \<open>with_prepared_deck\<close> never panics: with a deck of distinct cards that has two cards for each
  player and five for the board, and forced posts that are all live, it rejects exactly the
  configurations that are not \<open>config_accepted\<close> (valid blinds, two or more distinct seats of the table
  with chips, no 32-bit overflow, the button and every post at one of them), and for the others it
  returns a hand that satisfies the invariant, holds exactly the configured chips and exactly the
  cards of the deck, seats exactly the configured players and is not paced.
\<close>

theorem hand_starts:
  assumes "valid_size n" "distinct (deck_rest d)" "2 * length stacks + 5 \<le> length (deck_rest d)"
    and "\<forall>p\<in>set posts. fp_live p"
  shows "case with_prepared_deck n button stacks posts blinds d of
     None \<Rightarrow> False
   | Some (Inl e) \<Rightarrow> \<not> config_accepted n button stacks posts blinds
   | Some (Inr h) \<Rightarrow> config_accepted n button stacks posts blinds \<and> hand_ok h \<and>
       mh_initial_total h = sum_list (map snd stacks) \<and> mset (hand_cards h) = mset (deck_rest d) \<and>
       set (occupied_seats h) = fst ` set stacks \<and> \<not> mh_paced_showdown h"
  using with_prepared_deck_returns [OF assms, of button blinds]
  by (auto simp: started_ok_def hand_ok_def split: sum.split)

theorem hand_starts_witness:
  "case with_prepared_deck 3 0 [(0, 1000), (1, 600), (2, 1000)] [] sample_blinds deck_new of
     None \<Rightarrow> False
   | Some (Inl e) \<Rightarrow> False
   | Some (Inr h) \<Rightarrow> hand_ok h \<and> mh_initial_total h = 2600 \<and> set (occupied_seats h) = {0, 1, 2}"
proof -
  have "distinct (deck_rest deck_new)" "length (deck_rest deck_new) = 52"
    using deck_new_complete by (simp_all add: deck_rest_def deck_new_def)
  moreover have "valid_size 3" by (simp add: valid_size_def MIN_TABLE_SEATS_def MAX_TABLE_SEATS_def)
  moreover have "config_accepted 3 0 [(0, 1000), (1, 600), (2, 1000)] [] sample_blinds" by code_simp
  ultimately show ?thesis
    using hand_starts [of 3 deck_new "[(0, 1000), (1, 600), (2, 1000)]" "[]" 0 sample_blinds]
    by (simp split: option.splits sum.splits)
qed

text \<open>
  C3: chips are conserved: on a hand that satisfies the invariant \<open>total_chips\<close> is the total the
  hand was configured with, and it stays so after any accepted command; the 32-bit sums do not
  wrap.
\<close>

theorem chips_conserved:
  assumes "hand_ok h" "apply_command h c = Some (Inr h')"
  shows "total_chips h = mh_initial_total h \<and> total_chips h' = mh_initial_total h"
proof
  have chips: "total_chips g = mh_initial_total g" if "hand_ok g" for g
    using that total_chips_exact [of g]
    by (auto simp: hand_ok_def betting_ok_def mid_ok_def showdown_ok_def done_ok_def money_ok_def)
  show "total_chips h = mh_initial_total h" by (rule chips [OF assms(1)])
  have "hand_ok h'" "same_game h h'"
    using apply_command_outcome [OF assms(1), of c] assms(2)
    by (auto simp: outcome_ok_def hand_ok_def split: if_splits)
  then show "total_chips h' = mh_initial_total h"
    using chips [of h'] by (simp add: same_game_def)
qed

theorem chips_conserved_witness:
  "total_chips (the_hand (apply_command sample_hand (seat_command_new 0 (Call 200)))) = 2600"
proof -
  have ok: "hand_ok sample_hand" using sample_hand_betting by (simp add: hand_ok_def)
  have "played (apply_command sample_hand (seat_command_new 0 (Call 200))) \<and> mh_initial_total sample_hand = 2600"
    by code_simp
  then show ?thesis using chips_conserved [OF ok playedD] by simp
qed

text \<open>
  C4: a hand ends: any sequence of accepted commands is no longer than the bound \<open>actions_left\<close> of
  its first state, which the configured chips and the table size bound.
\<close>

theorem hand_terminates:
  assumes "hand_ok h" "play cs h = Some (Inr h')"
  shows "length cs \<le> actions_left h \<and>
    actions_left h \<le> (4 * mh_initial_total h + 4) * (mh_table_size h + 1)"
proof
  show "length cs \<le> actions_left h"
    using assms
  proof (induction cs arbitrary: h)
    case (Cons c cs)
    from Cons.prems(2) obtain g where g: "apply_command h (seat_command_new (fst c) (snd c)) = Some (Inr g)"
      "play cs g = Some (Inr h')"
      by (auto simp: play.simps split: option.splits sum.splits)
    then have "outcome_ok h g"
      using apply_command_outcome [OF Cons.prems(1), of "seat_command_new (fst c) (snd c)"] by auto
    then have "hand_ok g" "actions_left g < actions_left h"
      using outcome_hand_ok by (auto simp: outcome_ok_def)
    then show ?case using Cons.IH [of g] g(2) by simp
  qed simp
  have "money_ok h"
    using assms(1) by (auto simp: hand_ok_def betting_ok_def mid_ok_def showdown_ok_def done_ok_def)
  then have "seat_total ms_stack h \<le> mh_initial_total h" by (rule stacks_bounded)
  moreover have "streets_left (mh_phase h) \<le> 3" by (cases "mh_phase h") simp_all
  then have "streets_left (mh_phase h) * (mh_initial_total h + 1) \<le> 3 * (mh_initial_total h + 1)"
    by (rule mult_right_mono) simp
  ultimately have "streets_left (mh_phase h) * (mh_initial_total h + 1) + seat_total ms_stack h
      \<le> 4 * mh_initial_total h + 3" by simp
  then have "(streets_left (mh_phase h) * (mh_initial_total h + 1) + seat_total ms_stack h) * (mh_table_size h + 1)
      \<le> (4 * mh_initial_total h + 3) * (mh_table_size h + 1)"
    by (rule mult_right_mono) simp
  then show "actions_left h \<le> (4 * mh_initial_total h + 4) * (mh_table_size h + 1)"
    using needing_bound [of h] by (simp add: actions_left_def pressure_def algebra_simps)
qed

theorem hand_terminates_witness:
  "length [(0 :: nat, Call 200), (1, Call 100), (2, Check)] \<le> actions_left sample_hand"
  using hand_terminates [OF _ playedD [OF conjunct1 [OF sample_flop_reached]]] sample_hand_betting
  by (simp add: hand_ok_def)

text \<open>
  While betting is open the seat to act always has an accepted command: a check when it owes
  nothing, a fold otherwise.
\<close>

theorem actor_always_has_a_move:
  assumes "betting_ok h"
  shows "\<exists>s a h'. mh_to_act h = Some s \<and> a \<in> {Check, ActFold} \<and>
    apply_command h (seat_command_new s a) = Some (Inr h')"
  by (rule actor_can_act [OF assms])

theorem actor_always_has_a_move_witness:
  "\<exists>a h'. a \<in> {Check, ActFold} \<and> apply_command sample_hand (seat_command_new 0 a) = Some (Inr h')"
  using actor_always_has_a_move [OF sample_hand_betting] sample_started by auto

section \<open>Showdown\<close>

text \<open>
  The loop \<open>while self.advance_showdown()\<close> ends: from any state of a showdown, paced or not,
  draining it reaches a settled hand, in which no mucked hand has won a pot.
\<close>

theorem showdown_drains:
  assumes "showdown_ok h"
  shows "\<exists>h'. drain_showdown h = Some h' \<and> done_ok h' \<and> mh_phase h' = Showdown \<and> same_game h h' \<and>
    (\<forall>a\<in>set (mh_awards h'). \<forall>s\<in>set (pa_winners a). s \<notin> set (mh_mucked_hands h'))"
  using drain_showdown_ends [OF assms] by (auto simp: done_ok_def)

theorem showdown_drains_witness:
  "\<exists>h'. drain_showdown sample_showdown = Some h' \<and> done_ok h' \<and> mh_phase h' = Showdown"
  using showdown_drains [OF sample_showdown_ok] by blast

text \<open>
  Each call of \<open>advance_showdown\<close> during a showdown returns \<open>true\<close> and makes progress: the
  measure \<open>showdown_left\<close> drops or the hand is settled; at most six calls are needed to run out the
  board of an all-in.
\<close>

theorem showdown_advances:
  assumes "showdown_ok h"
  shows "\<exists>h'. advance_showdown h = Some (True, h') \<and> same_game h h' \<and>
    (showdown_ok h' \<and> showdown_left h' < showdown_left h \<or> done_ok h' \<and> mh_phase h' = Showdown)"
  by (rule advance_showdown_step [OF assms])

theorem showdown_advances_witness:
  "\<exists>h'. advance_showdown sample_showdown = Some (True, h') \<and> same_game sample_showdown h'"
  using showdown_advances [OF sample_showdown_ok] by blast



text \<open>
  When all other hands are folded, the seat left is paid everything that was contributed, in one
  award, and the hand is complete with all contributions back at zero.
\<close>

theorem fold_win_takes_all:
  assumes "money_ok h" "cards_ok h" "eligible_seats h = [w]" "mh_mucked_hands h = []"
  shows "\<exists>h'. award_fold h = Some h' \<and> mh_phase h' = HandComplete \<and> mh_to_act h' = None \<and>
    map pa_winners (mh_awards h') = [[w]] \<and> map pa_amount (mh_awards h') = [seat_total ms_hand_contribution h] \<and>
    (\<forall>s. mw_seat h' s = map_option
       (settled_seat (if s = w then seat_total ms_hand_contribution h else 0)) (mw_seat h s))"
proof -
  have "last_in h = w" using assms(3) by (simp add: last_in_def)
  moreover obtain h' where "award_fold h = Some h'" "done_ok h'" "mh_phase h' = HandComplete"
    "\<forall>s. mw_seat h' s = map_option (settled_seat
      (if s = last_in h then seat_total ms_hand_contribution h else 0)) (mw_seat h s)"
    "mh_awards h' = [\<lparr>pa_pot_index = 0, pa_amount = seat_total ms_hand_contribution h,
      pa_eligible = [last_in h], pa_winners = [last_in h],
      pa_payouts = [\<lparr>sp_seat = last_in h, sp_amount = seat_total ms_hand_contribution h\<rparr>]\<rparr>]"
    using award_fold_returns [OF assms(1,2) _ assms(4)] assms(3) by auto
  ultimately show ?thesis by (auto simp: done_ok_def)
qed

theorem fold_win_takes_all_witness:
  "\<exists>h'. award_fold folded_sample = Some h' \<and> mh_phase h' = HandComplete \<and>
    map pa_winners (mh_awards h') = [[2]]"
proof -
  have "mid_ok sample_hand" using sample_hand_betting by (simp add: betting_ok_def)
  then have "money_ok folded_sample" "cards_ok folded_sample" "mh_mucked_hands folded_sample = []"
    by (simp_all add: mid_ok_def before_showdown_def folded_sample_def fold_seat_ok)
  moreover have "eligible_seats folded_sample = [2]" by code_simp
  ultimately obtain h' where "award_fold folded_sample = Some h'" "mh_phase h' = HandComplete"
    "map pa_winners (mh_awards h') = [[2]]"
    using fold_win_takes_all [of folded_sample 2] by auto
  then show ?thesis by simp
qed

section \<open>A panic\<close>

text \<open>
  The invariant cannot do without the condition on forced posts. Two late seats each post a dead
  small blind and a live big blind, the big blind moves all in for less, the late seats fold and the
  small blind calls: the pot layer above the all-in has no eligible hand, the source's
  \<open>expect("a showdown pot has an eligible evaluated hand")\<close> fails and the command panics.
\<close>

theorem dead_posts_panic:
  "played dead_start \<and> mh_to_act dead_hand = Some 1 \<and>
   validate_command dead_hand (seat_command_new 1 (Call 50)) = Some (Inr ()) \<and>
   apply_command dead_hand (seat_command_new 1 (Call 50)) = None"
  using dead_hand_reached dead_hand_call dead_hand_valid by blast

end
