(* ===== verification/Lifecycle.thy ===== *)
theory Lifecycle
  imports Multiway
begin

text \<open>
  The roster of a table around its hands (src/src/game/lifecycle.rs): reservations, seating, pending
  transitions, blind obligations and the between-hand boundary. A method that mutates and returns
  \<open>Result\<close> is a function to the result and the state it leaves, error or not; the methods with an
  \<open>expect\<close> return \<^const>\<open>None\<close> for the panic.
\<close>

datatype table_run_state = Waiting | Running | Paused | Closed

datatype pending_transition = PendingSitOut | PendingReturn | PendingLeave

record hand_start =
  hs_number :: u64
  hs_button :: seat_id
  hs_stacks :: "(seat_id \<times> u32) list"
  hs_forced_posts :: "forced_post list"

record between_hand_seat =
  bs_seat :: seat_id
  bs_player :: player_id
  bs_stack :: u32
  bs_participation :: table_participation
  bs_blind_obligation :: blind_obligation

record between_hand_lifecycle =
  bh_table_size :: table_size
  bh_seats :: "between_hand_seat list"
  bh_state :: table_run_state
  bh_last_button :: "seat_id option"
  bh_next_hand_number :: u64

datatype ring_entry_choice = WaitForBigBlind | PostLiveBigBlind

datatype missed_blind = MissedSmall | MissedBig

definition into_hand :: "('g \<Rightarrow> card list \<Rightarrow> card list \<times> 'g) \<Rightarrow> 'g \<Rightarrow> (u64 \<Rightarrow> 'g) \<Rightarrow> hand_start
    \<Rightarrow> table_size \<Rightarrow> u64 option \<Rightarrow> (config_error + multiway_hand) option" where
  "into_hand shuffle production seeded start n deterministic_seed =
    (case deterministic_seed of
       Some seed \<Rightarrow> multiway_new_seeded_with_forced_posts shuffle seeded n (hs_button start)
         (hs_stacks start) (hs_forced_posts start) seed
     | None \<Rightarrow> multiway_new_with_forced_posts shuffle production n (hs_button start)
         (hs_stacks start) (hs_forced_posts start))"

definition into_hand_with_blinds :: "('g \<Rightarrow> card list \<Rightarrow> card list \<times> 'g) \<Rightarrow> 'g \<Rightarrow> (u64 \<Rightarrow> 'g)
    \<Rightarrow> hand_start \<Rightarrow> table_size \<Rightarrow> u64 option \<Rightarrow> blind_values
    \<Rightarrow> (config_error + multiway_hand) option" where
  "into_hand_with_blinds shuffle production seeded start n deterministic_seed blinds =
    (case deterministic_seed of
       Some seed \<Rightarrow> multiway_new_seeded_with_blinds shuffle seeded n (hs_button start)
         (hs_stacks start) (hs_forced_posts start) blinds seed
     | None \<Rightarrow> multiway_new_with_blinds shuffle production n (hs_button start)
         (hs_stacks start) (hs_forced_posts start) blinds)"

datatype lifecycle_error = TableClosed | HandActive | NoActiveHand
  | TooFewEligible nat | InvalidStack
  | LcSeatOutsideTable seat_id | LcSeatOccupied seat_id | LcSeatVacant seat_id
  | SeatNotReserved seat_id | ReservationOwnedByAnotherPlayer seat_id
  | IdentityAlreadyAtTable player_id | PlayerNotSeated player_id
  | MissingHandSeat seat_id | UnexpectedHandSeat seat_id | DuplicateHandSeat seat_id
  | ChipTotalMismatch u32 u32 \<comment> \<open>expected, actual\<close>
  | InvalidCheckpoint

definition lifecycle_error_display :: "lifecycle_error \<Rightarrow> string" where
  "lifecycle_error_display e = (case e of
     TableClosed \<Rightarrow> ''table is closed''
   | HandActive \<Rightarrow> ''operation requires a between-hand boundary''
   | NoActiveHand \<Rightarrow> ''no active hand to complete''
   | TooFewEligible n \<Rightarrow> ''at least two eligible players are required, found '' @ show_nat n
   | InvalidStack \<Rightarrow> ''seat stack must be positive''
   | LcSeatOutsideTable s \<Rightarrow> ''seat '' @ show_nat s @ '' is outside this table''
   | LcSeatOccupied s \<Rightarrow> ''seat '' @ show_nat s @ '' is occupied''
   | LcSeatVacant s \<Rightarrow> ''seat '' @ show_nat s @ '' is vacant''
   | SeatNotReserved s \<Rightarrow> ''seat '' @ show_nat s @ '' has no reservation''
   | ReservationOwnedByAnotherPlayer s \<Rightarrow>
       ''seat '' @ show_nat s @ '' is reserved by another player''
   | IdentityAlreadyAtTable p \<Rightarrow>
       ''player '' @ show_nat p @ '' already occupies or reserves a seat''
   | PlayerNotSeated p \<Rightarrow> ''player '' @ show_nat p @ '' is not seated''
   | MissingHandSeat s \<Rightarrow> ''completed stack report omitted hand seat '' @ show_nat s
   | UnexpectedHandSeat s \<Rightarrow> ''completed stack report included non-hand seat '' @ show_nat s
   | DuplicateHandSeat s \<Rightarrow> ''completed stack report duplicated seat '' @ show_nat s
   | ChipTotalMismatch expected actual \<Rightarrow>
       ''completed hand chip total '' @ show_nat actual
         @ '' does not match starting total '' @ show_nat expected
   | InvalidCheckpoint \<Rightarrow> ''between-hand lifecycle checkpoint is inconsistent'')"

record table_lifecycle =
  lc_table_size :: table_size
  lc_seats :: table_seats
  lc_reservations :: "(seat_id, player_id) btree"
  lc_pending :: "(player_id, pending_transition) btree"
  lc_state :: table_run_state
  lc_active_hand :: "hand_start option"
  lc_last_button :: "seat_id option"
  lc_next_hand_number :: u64

type_synonym 'a lc_result = "(lifecycle_error + 'a) \<times> table_lifecycle"

definition lifecycle_new :: "table_size \<Rightarrow> table_lifecycle" where
  "lifecycle_new n =
     \<lparr>lc_table_size = n, lc_seats = table_seats_new n, lc_reservations = [], lc_pending = [],
      lc_state = Waiting, lc_active_hand = None, lc_last_button = None, lc_next_hand_number = 1\<rparr>"

definition hand_active :: "table_lifecycle \<Rightarrow> bool" where
  "hand_active l \<longleftrightarrow> lc_active_hand l \<noteq> None"

definition between_hand_checkpoint :: "table_lifecycle \<Rightarrow> lifecycle_error + between_hand_lifecycle" where
  "between_hand_checkpoint l =
    (if hand_active l then Inl HandActive
     else if lc_pending l \<noteq> [] then Inl HandActive
     else Inr \<lparr>bh_table_size = lc_table_size l,
       bh_seats = map (\<lambda>(s, st). \<lparr>bs_seat = s, bs_player = ss_player_id st, bs_stack = ss_stack st,
           bs_participation = ss_table_participation st,
           bs_blind_obligation = ss_blind_obligation st\<rparr>) (table_occupied (lc_seats l)),
       bh_state = lc_state l, bh_last_button = lc_last_button l,
       bh_next_hand_number = lc_next_hand_number l\<rparr>)"

definition map_seat_error :: "seat_map_error \<Rightarrow> lifecycle_error" where
  "map_seat_error e = (case e of
     SeatOutsideTable s _ \<Rightarrow> LcSeatOutsideTable s
   | SeatOccupied s \<Rightarrow> LcSeatOccupied s
   | SeatVacant s \<Rightarrow> LcSeatVacant s
   | DuplicatePlayer p \<Rightarrow> IdentityAlreadyAtTable p)"

definition eligible_count :: "table_lifecycle \<Rightarrow> nat" where
  "eligible_count l =
     length (filter (\<lambda>(s, st). eligible_for_next_hand st) (table_occupied (lc_seats l)))"

subsection \<open>Restoring a checkpoint\<close>

fun restore_seats ::
  "table_size \<Rightarrow> between_hand_seat list \<Rightarrow> table_seats \<Rightarrow> lifecycle_error + table_seats" where
  "restore_seats n [] seats = Inr seats"
| "restore_seats n (r # rs) seats =
    (if \<not> table_contains n (bs_seat r) \<or> bs_participation r = Leaving then Inl InvalidCheckpoint
     else case table_occupy seats (bs_seat r)
         ((seat_state_active (bs_player r) (bs_stack r))\<lparr>ss_connection := Disconnected,
            ss_table_participation := bs_participation r,
            ss_blind_obligation := bs_blind_obligation r\<rparr>) of
       Inl e \<Rightarrow> Inl (map_seat_error e)
     | Inr seats' \<Rightarrow> restore_seats n rs seats')"

definition restore_between_hand :: "between_hand_lifecycle \<Rightarrow> lifecycle_error + table_lifecycle" where
  "restore_between_hand c =
    (if bh_next_hand_number c = 0
        \<or> (case bh_last_button c of None \<Rightarrow> False | Some s \<Rightarrow> \<not> table_contains (bh_table_size c) s)
        \<or> bh_state c = Closed
     then Inl InvalidCheckpoint
     else case restore_seats (bh_table_size c) (bh_seats c) (table_seats_new (bh_table_size c)) of
       Inl e \<Rightarrow> Inl e
     | Inr seats \<Rightarrow>
      (let l = \<lparr>lc_table_size = bh_table_size c, lc_seats = seats, lc_reservations = [],
             lc_pending = [], lc_state = bh_state c, lc_active_hand = None,
             lc_last_button = bh_last_button c, lc_next_hand_number = bh_next_hand_number c\<rparr>;
           eligible = eligible_count l;
           occupied = occupied_count (lc_seats l);
           state_valid = (case bh_state c of
               Waiting \<Rightarrow> occupied = 0 \<or> bh_next_hand_number c = 1
             | Running \<Rightarrow> 2 \<le> eligible
             | Paused \<Rightarrow> 0 < occupied \<and> eligible < 2
             | Closed \<Rightarrow> False)
       in if \<not> state_valid then Inl InvalidCheckpoint else Inr l))"

subsection \<open>Reserving and seating\<close>

definition identity_present :: "table_lifecycle \<Rightarrow> player_id \<Rightarrow> bool" where
  "identity_present l player \<longleftrightarrow> seat_for_player (lc_seats l) player \<noteq> None
     \<or> list_ex (\<lambda>(s, owner). owner = player) (lc_reservations l)"

definition refresh_between_hand_state :: "table_lifecycle \<Rightarrow> table_lifecycle" where
  "refresh_between_hand_state l =
    (if lc_state l = Closed \<or> hand_active l then l
     else l\<lparr>lc_state :=
       (if occupied_count (lc_seats l) = 0 then Waiting
        else if lc_state l = Running \<or> lc_state l = Paused
        then (if 2 \<le> eligible_count l then Running else Paused)
        else Waiting)\<rparr>)"

definition reserve :: "table_lifecycle \<Rightarrow> player_id \<Rightarrow> seat_id \<Rightarrow> unit lc_result" where
  "reserve l player s =
    (if lc_state l = Closed then (Inl TableClosed, l)
     else if \<not> table_contains (lc_table_size l) s then (Inl (LcSeatOutsideTable s), l)
     else if identity_present l player then (Inl (IdentityAlreadyAtTable player), l)
     else if table_seat (lc_seats l) s \<noteq> None then (Inl (LcSeatOccupied s), l)
     else if bt_get (lc_reservations l) s \<noteq> None then (Inl (ReservationOwnedByAnotherPlayer s), l)
     else (Inr (), l\<lparr>lc_reservations := bt_insert s player (lc_reservations l)\<rparr>))"

definition cancel_reservation :: "table_lifecycle \<Rightarrow> player_id \<Rightarrow> seat_id \<Rightarrow> unit lc_result" where
  "cancel_reservation l player s =
    (if lc_state l = Closed then (Inl TableClosed, l)
     else case bt_get (lc_reservations l) s of
       None \<Rightarrow> (Inl (SeatNotReserved s), l)
     | Some owner \<Rightarrow>
       (if owner \<noteq> player then (Inl (ReservationOwnedByAnotherPlayer s), l)
        else (Inr (), l\<lparr>lc_reservations := bt_remove s (lc_reservations l)\<rparr>)))"

definition occupy :: "table_lifecycle \<Rightarrow> player_id \<Rightarrow> seat_id \<Rightarrow> u32 \<Rightarrow> unit lc_result" where
  "occupy l player s stack =
    (if lc_state l = Closed then (Inl TableClosed, l)
     else if hand_active l then (Inl HandActive, l)
     else if stack = 0 then (Inl InvalidStack, l)
     else if \<not> table_contains (lc_table_size l) s then (Inl (LcSeatOutsideTable s), l)
     else if seat_for_player (lc_seats l) player \<noteq> None then (Inl (IdentityAlreadyAtTable player), l)
     else case bt_get (lc_reservations l) s of
       None \<Rightarrow> (Inl (SeatNotReserved s), l)
     | Some owner \<Rightarrow>
       (if owner \<noteq> player then (Inl (ReservationOwnedByAnotherPlayer s), l)
        else case table_occupy (lc_seats l) s (seat_state_active player stack) of
          Inl e \<Rightarrow> (Inl (map_seat_error e), l)
        | Inr seats \<Rightarrow> (Inr (), refresh_between_hand_state
            (l\<lparr>lc_seats := seats, lc_reservations := bt_remove s (lc_reservations l)\<rparr>))))"

definition join :: "table_lifecycle \<Rightarrow> player_id \<Rightarrow> seat_id \<Rightarrow> u32 \<Rightarrow> unit lc_result" where
  "join l player s stack =
    (if stack = 0 then (Inl InvalidStack, l)
     else case reserve l player s of
       (Inl e, l) \<Rightarrow> (Inl e, l)
     | (Inr _, l) \<Rightarrow>
       (case occupy l player s stack of
          (Inl e, l) \<Rightarrow> (Inl e, l\<lparr>lc_reservations := bt_remove s (lc_reservations l)\<rparr>)
        | (Inr _, l) \<Rightarrow> (Inr (), l)))"

definition join_with_entry ::
  "table_lifecycle \<Rightarrow> player_id \<Rightarrow> seat_id \<Rightarrow> u32 \<Rightarrow> ring_entry_choice \<Rightarrow> unit lc_result option" where
  "join_with_entry l player s stack entry =
    (case join l player s stack of
       (Inl e, l) \<Rightarrow> Some (Inl e, l)
     | (Inr _, l) \<Rightarrow>
       (if 1 < lc_next_hand_number l then do {
          seats \<leftarrow> table_seat_mut (lc_seats l) s (\<lambda>st. st\<lparr>ss_blind_obligation := OwesBigBlind,
            ss_table_participation := (case entry of
               WaitForBigBlind \<Rightarrow> WaitingForBlind | PostLiveBigBlind \<Rightarrow> Active)\<rparr>);
          Some (Inr (), refresh_between_hand_state (l\<lparr>lc_seats := seats\<rparr>)) }
        else Some (Inr (), l)))"

definition lc_blind_obligation ::
  "table_lifecycle \<Rightarrow> player_id \<Rightarrow> (lifecycle_error + blind_obligation) option" where
  "lc_blind_obligation l player =
    (case seat_for_player (lc_seats l) player of
       None \<Rightarrow> Some (Inl (PlayerNotSeated player))
     | Some s \<Rightarrow> map_option (\<lambda>st. Inr (ss_blind_obligation st)) (table_seat (lc_seats l) s))"

fun add_missed :: "blind_obligation \<Rightarrow> missed_blind \<Rightarrow> blind_obligation" where
  "add_missed Clear MissedSmall = OwesSmallBlind"
| "add_missed Clear MissedBig = OwesBigBlind"
| "add_missed OwesSmallBlind MissedBig = OwesBoth"
| "add_missed OwesBigBlind MissedSmall = OwesBoth"
| "add_missed existing _ = existing"

text \<open>\<open>seat_for_player\<close>, then \<open>seat_mut\<close> with its \<open>expect\<close>, then an assignment.\<close>

definition with_player_seat :: "table_lifecycle \<Rightarrow> player_id \<Rightarrow> (seat_state \<Rightarrow> seat_state)
    \<Rightarrow> (table_lifecycle \<Rightarrow> table_lifecycle) \<Rightarrow> unit lc_result option" where
  "with_player_seat l player f finish =
    (case seat_for_player (lc_seats l) player of
       None \<Rightarrow> Some (Inl (PlayerNotSeated player), l)
     | Some s \<Rightarrow> map_option (\<lambda>seats. (Inr (), finish (l\<lparr>lc_seats := seats\<rparr>)))
         (table_seat_mut (lc_seats l) s f))"

definition record_missed_blind ::
  "table_lifecycle \<Rightarrow> player_id \<Rightarrow> missed_blind \<Rightarrow> unit lc_result option" where
  "record_missed_blind l player missed =
    (if lc_state l = Closed then Some (Inl TableClosed, l)
     else if hand_active l then Some (Inl HandActive, l)
     else with_player_seat l player
       (\<lambda>st. st\<lparr>ss_blind_obligation := add_missed (ss_blind_obligation st) missed\<rparr>) (\<lambda>l. l))"

definition request_return_with_entry ::
  "table_lifecycle \<Rightarrow> player_id \<Rightarrow> ring_entry_choice \<Rightarrow> unit lc_result option" where
  "request_return_with_entry l player entry =
    (if lc_state l = Closed then Some (Inl TableClosed, l)
     else if hand_active l then Some (Inl HandActive, l)
     else with_player_seat l player
       (\<lambda>st. st\<lparr>ss_table_participation :=
          (if ss_blind_obligation st = Clear then Active
           else case entry of WaitForBigBlind \<Rightarrow> WaitingForBlind | PostLiveBigBlind \<Rightarrow> Active)\<rparr>)
       refresh_between_hand_state)"

definition set_connection ::
  "table_lifecycle \<Rightarrow> player_id \<Rightarrow> connection_state \<Rightarrow> unit lc_result option" where
  "set_connection l player connection =
     with_player_seat l player (\<lambda>st. st\<lparr>ss_connection := connection\<rparr>) (\<lambda>l. l)"

subsection \<open>Transitions\<close>

definition apply_transition ::
  "table_lifecycle \<Rightarrow> player_id \<Rightarrow> pending_transition \<Rightarrow> table_lifecycle option" where
  "apply_transition l player transition =
    (case seat_for_player (lc_seats l) player of
       None \<Rightarrow> Some l
     | Some s \<Rightarrow>
       (case transition of
          PendingSitOut \<Rightarrow> map_option (\<lambda>seats. l\<lparr>lc_seats := seats\<rparr>)
            (table_seat_mut (lc_seats l) s (\<lambda>st. st\<lparr>ss_table_participation := SittingOut\<rparr>))
        | PendingReturn \<Rightarrow> map_option (\<lambda>seats. l\<lparr>lc_seats := seats\<rparr>)
            (table_seat_mut (lc_seats l) s (\<lambda>st. st\<lparr>ss_table_participation :=
               (if ss_blind_obligation st = Clear then Active else WaitingForBlind)\<rparr>))
        | PendingLeave \<Rightarrow>
            (case table_vacate (lc_seats l) s of
               Inl e \<Rightarrow> None
             | Inr (_, seats) \<Rightarrow> Some (l\<lparr>lc_seats := seats\<rparr>))))"

definition apply_pending :: "table_lifecycle \<Rightarrow> table_lifecycle option" where
  "apply_pending l =
     for_m (\<lambda>(player, transition) l. apply_transition l player transition) (lc_pending l)
       (l\<lparr>lc_pending := []\<rparr>)"

definition request_transition ::
  "table_lifecycle \<Rightarrow> player_id \<Rightarrow> pending_transition \<Rightarrow> unit lc_result option" where
  "request_transition l player transition =
    (if lc_state l = Closed then Some (Inl TableClosed, l)
     else if seat_for_player (lc_seats l) player = None then Some (Inl (PlayerNotSeated player), l)
     else if hand_active l then
       Some (Inr (),
         if bt_get (lc_pending l) player \<noteq> Some PendingLeave
         then l\<lparr>lc_pending := bt_insert player transition (lc_pending l)\<rparr> else l)
     else map_option (\<lambda>l. (Inr (), refresh_between_hand_state l)) (apply_transition l player transition))"

definition request_sit_out :: "table_lifecycle \<Rightarrow> player_id \<Rightarrow> unit lc_result option" where
  "request_sit_out l player = request_transition l player PendingSitOut"

definition request_return :: "table_lifecycle \<Rightarrow> player_id \<Rightarrow> unit lc_result option" where
  "request_return l player = request_transition l player PendingReturn"

definition request_leave :: "table_lifecycle \<Rightarrow> player_id \<Rightarrow> unit lc_result option" where
  "request_leave l player = request_transition l player PendingLeave"

subsection \<open>The start of a hand\<close>

definition next_button :: "table_lifecycle \<Rightarrow> seat_id option" where
  "next_button l = (case lc_last_button l of
     Some previous \<Rightarrow> next_for_hand (lc_seats l) previous
   | None \<Rightarrow> first_match (seat_satisfies (lc_seats l) eligible_for_next_hand)
       (table_size_seats (lc_table_size l)))"

text \<open>
  One candidate of \<open>promote_natural_big_blind_waiter\<close>: its result says whether the loop stops.
\<close>

definition big_blind_with :: "table_lifecycle \<Rightarrow> seat_id list \<Rightarrow> seat_id option option" where
  "big_blind_with l prospective =
    (let n = lc_table_size l; inside = (\<lambda>s. s \<in> set prospective)
     in case (case lc_last_button l of
          Some previous \<Rightarrow> next_eligible n previous inside
        | None \<Rightarrow> first_match inside (table_size_seats n)) of
       None \<Rightarrow> Some None
     | Some button \<Rightarrow> do {
         first \<leftarrow> next_eligible n button inside;
         if length prospective = 2 then Some (Some first)
         else do {
           big_blind \<leftarrow> next_eligible n first inside;
           Some (Some big_blind) } })"

fun promote_candidates :: "seat_id list \<Rightarrow> table_lifecycle \<Rightarrow> table_lifecycle option" where
  "promote_candidates [] l = Some l"
| "promote_candidates (candidate # rest) l =
    (let prospective = map fst (filter (\<lambda>(s, st). eligible_for_next_hand st \<or> s = candidate)
           (table_occupied (lc_seats l)))
     in if length prospective < 2 then promote_candidates rest l
     else do {
       big_blind \<leftarrow> big_blind_with l prospective;
       if big_blind = Some candidate then do {
         seats \<leftarrow> table_seat_mut (lc_seats l) candidate
           (\<lambda>st. st\<lparr>ss_table_participation := Active, ss_blind_obligation := Clear\<rparr>);
         Some (l\<lparr>lc_seats := seats\<rparr>) }
       else promote_candidates rest l })"

definition promote_natural_big_blind_waiter :: "table_lifecycle \<Rightarrow> table_lifecycle option" where
  "promote_natural_big_blind_waiter l =
     promote_candidates
       (map fst (filter (\<lambda>(s, st). ss_table_participation st = WaitingForBlind)
          (table_occupied (lc_seats l)))) l"

definition posts_for :: "hand_positions \<Rightarrow> seat_id \<Rightarrow> blind_obligation \<Rightarrow> forced_post list" where
  "posts_for positions s owed =
    (let small = (if s \<noteq> hp_small_blind positions
           then [\<lparr>fp_seat = s, fp_amount = SMALL_BLIND, fp_live = False\<rparr>] else []);
         big = (if s \<noteq> hp_big_blind positions
           then [\<lparr>fp_seat = s, fp_amount = BIG_BLIND, fp_live = True\<rparr>] else [])
     in case owed of
          Clear \<Rightarrow> []
        | OwesSmallBlind \<Rightarrow> small
        | OwesBigBlind \<Rightarrow> big
        | OwesBoth \<Rightarrow> small @ big)"

definition collect_posts :: "hand_positions \<Rightarrow> seat_id \<Rightarrow> table_seats \<times> forced_post list
    \<Rightarrow> (table_seats \<times> forced_post list) option" where
  "collect_posts positions s = (\<lambda>(seats, posts). do {
     st \<leftarrow> table_seat seats s;
     seats' \<leftarrow> table_seat_mut seats s
       (\<lambda>st. st\<lparr>ss_blind_obligation := Clear, ss_hand_participation := Live\<rparr>);
     Some (seats', posts @ posts_for positions s (ss_blind_obligation st)) })"

definition begin_hand :: "table_lifecycle \<Rightarrow> hand_start lc_result option" where
  "begin_hand l =
    (if lc_state l = Closed then Some (Inl TableClosed, l)
     else if hand_active l then Some (Inl HandActive, l)
     else do {
       l \<leftarrow> promote_natural_big_blind_waiter l;
       let eligible = eligible_count l;
       if eligible < 2 then
         Some (Inl (TooFewEligible eligible),
           l\<lparr>lc_state := (if occupied_count (lc_seats l) = 0 then Waiting else Paused)\<rparr>)
       else do {
         button \<leftarrow> next_button l;
         let stacks = map (\<lambda>(s, st). (s, ss_stack st))
           (filter (\<lambda>(s, st). eligible_for_next_hand st) (table_occupied (lc_seats l)));
         found \<leftarrow> table_positions (lc_seats l) button;
         positions \<leftarrow> (case found of Inl e \<Rightarrow> None | Inr positions \<Rightarrow> Some positions);
         (seats, forced_posts) \<leftarrow> for_m (collect_posts positions) (map fst stacks) (lc_seats l, []);
         let start = \<lparr>hs_number = lc_next_hand_number l, hs_button = button, hs_stacks = stacks,
           hs_forced_posts = forced_posts\<rparr>;
         Some (Inr start, l\<lparr>lc_seats := seats,
           lc_next_hand_number := u64_add (lc_next_hand_number l) 1,
           lc_last_button := Some button, lc_active_hand := Some start, lc_state := Running\<rparr>) } })"

subsection \<open>The end of a hand\<close>

fun collect_actual :: "(seat_id, u32) btree \<Rightarrow> (seat_id \<times> u32) list \<Rightarrow> (seat_id, u32) btree
    \<Rightarrow> lifecycle_error + (seat_id, u32) btree" where
  "collect_actual expected [] actual = Inr actual"
| "collect_actual expected ((s, stack) # rest) actual =
    (if bt_get actual s \<noteq> None then Inl (DuplicateHandSeat s)
     else if bt_get expected s = None then Inl (UnexpectedHandSeat s)
     else collect_actual expected rest (bt_insert s stack actual))"

fun checked_total :: "u32 list \<Rightarrow> u32 \<Rightarrow> u32 option" where
  "checked_total [] acc = Some acc"
| "checked_total (x # xs) acc =
     (case u32_checked_add acc x of None \<Rightarrow> None | Some acc' \<Rightarrow> checked_total xs acc')"

definition check_report ::
  "hand_start \<Rightarrow> (seat_id \<times> u32) list \<Rightarrow> lifecycle_error + (seat_id, u32) btree" where
  "check_report start final_stacks =
    (let expected = bt_of_list (hs_stacks start) in
     case collect_actual expected final_stacks [] of
       Inl e \<Rightarrow> Inl e
     | Inr actual \<Rightarrow>
       (case first_match (\<lambda>s. bt_get actual s = None) (map fst expected) of
          Some s \<Rightarrow> Inl (MissingHandSeat s)
        | None \<Rightarrow>
          (case checked_total (map snd expected) 0 of
             None \<Rightarrow> Inl (ChipTotalMismatch u32_max u32_max)
           | Some expected_total \<Rightarrow>
             (case checked_total (map snd actual) 0 of
                None \<Rightarrow> Inl (ChipTotalMismatch expected_total u32_max)
              | Some actual_total \<Rightarrow>
                (if actual_total \<noteq> expected_total
                 then Inl (ChipTotalMismatch expected_total actual_total) else Inr actual)))))"

definition settle_seat :: "seat_id \<times> u32 \<Rightarrow> table_seats \<Rightarrow> table_seats option" where
  "settle_seat = (\<lambda>(s, stack) seats. table_seat_mut seats s
     (\<lambda>st. st\<lparr>ss_stack := stack, ss_street_bet := 0, ss_hole_cards := [],
        ss_hand_participation := NotDealt\<rparr>))"

definition complete_hand ::
  "table_lifecycle \<Rightarrow> (seat_id \<times> u32) list \<Rightarrow> unit lc_result option" where
  "complete_hand l final_stacks =
    (case lc_active_hand l of
       None \<Rightarrow> Some (Inl NoActiveHand, l)
     | Some start \<Rightarrow>
       (case check_report start final_stacks of
          Inl e \<Rightarrow> Some (Inl e, l)
        | Inr actual \<Rightarrow> do {
            seats \<leftarrow> for_m settle_seat actual (lc_seats l);
            l \<leftarrow> apply_pending (l\<lparr>lc_seats := seats, lc_active_hand := None\<rparr>);
            Some (Inr (), refresh_between_hand_state l) }))"

definition lifecycle_close :: "table_lifecycle \<Rightarrow> unit lc_result" where
  "lifecycle_close l =
    (if lc_state l = Closed then (Inl TableClosed, l)
     else if hand_active l then (Inl HandActive, l)
     else (Inr (), l\<lparr>lc_state := Closed, lc_reservations := [], lc_pending := []\<rparr>))"

definition final_stacks :: "multiway_hand \<Rightarrow> (seat_id \<times> u32) list option" where
  "final_stacks h = map_m (\<lambda>s. map_option (\<lambda>st. (s, ms_stack st)) (mw_seat h s)) (occupied_seats h)"

end
