(* ===== verification/Table_Facts.thy ===== *)
theory Table_Facts
  imports Table_Seats
begin

text \<open>
  Facts on the seat map: \<open>table_ok\<close> is the invariant of the type (as many seats as the table size, no
  player in two seats), the reads after each update, the lookup by player, and the searches. The
  locale \<open>seat_map\<close> is the interface the lifecycle uses.
\<close>

definition table_ok :: "table_seats \<Rightarrow> bool" where
  "table_ok t \<longleftrightarrow> length (tb_seats t) = tb_size t \<and>
     (\<forall>s s' st st'. table_seat t s = Some st \<longrightarrow> table_seat t s' = Some st' \<longrightarrow>
        ss_player_id st = ss_player_id st' \<longrightarrow> s = s')"

subsection \<open>The occupied seats\<close>

lemma enumerate_map_filter:
  "List.map_filter (\<lambda>(index, o'). map_option (Pair index) o') (enumerate k xs)
    = map (\<lambda>i. (i, the (xs ! (i - k)))) (filter (\<lambda>i. xs ! (i - k) \<noteq> None) [k..<k + length xs])"
proof (induction xs arbitrary: k)
  case (Cons x xs)
  have "filter (\<lambda>i. (x # xs) ! (i - k) \<noteq> None) [Suc k..<Suc k + length xs]
      = filter (\<lambda>i. xs ! (i - Suc k) \<noteq> None) [Suc k..<Suc k + length xs]"
    by (rule filter_cong) (auto simp: nth_Cons' Suc_diff_le)
  moreover have "map (\<lambda>i. (i, the ((x # xs) ! (i - k)))) (filter P [Suc k..<Suc k + length xs])
      = map (\<lambda>i. (i, the (xs ! (i - Suc k)))) (filter P [Suc k..<Suc k + length xs])" for P
    by (rule map_cong) (auto simp: nth_Cons')
  moreover have "[k..<k + length (x # xs)] = k # [Suc k..<Suc k + length xs]"
    by (subst upt_rec) simp
  ultimately show ?case
    using Cons.IH [of "Suc k"] by (cases x) (simp_all add: map_filter_simps)
qed (simp add: map_filter_simps)

lemma table_occupied_alt:
  "table_occupied t = map (\<lambda>s. (s, the (table_seat t s)))
     (filter (\<lambda>s. table_seat t s \<noteq> None) [0..<length (tb_seats t)])"
proof -
  have "table_occupied t = map (\<lambda>s. (s, the (tb_seats t ! s)))
      (filter (\<lambda>s. tb_seats t ! s \<noteq> None) [0..<length (tb_seats t)])"
    unfolding table_occupied_def enumerate_map_filter by simp
  also have "filter (\<lambda>s. tb_seats t ! s \<noteq> None) [0..<length (tb_seats t)]
      = filter (\<lambda>s. table_seat t s \<noteq> None) [0..<length (tb_seats t)]"
    by (rule filter_cong) (auto simp: table_seat_def)
  also have "map (\<lambda>s. (s, the (tb_seats t ! s))) \<dots> = map (\<lambda>s. (s, the (table_seat t s))) \<dots>"
    by (rule map_cong) (auto simp: table_seat_def)
  finally show ?thesis .
qed

lemma table_seat_bound: "table_seat t s = Some st \<Longrightarrow> s < length (tb_seats t)"
  by (simp add: table_seat_def split: if_splits)

lemma occupied_member [simp]: "(s, st) \<in> set (table_occupied t) \<longleftrightarrow> table_seat t s = Some st"
  by (auto simp: table_occupied_alt dest: table_seat_bound)

lemma occupied_sorted: "sorted_wrt (<) (map fst (table_occupied t))"
  by (simp add: table_occupied_alt comp_def sorted_wrt_filter)

lemma occupied_distinct: "distinct (map fst (table_occupied t))"
  using occupied_sorted strict_sorted_iff by blast

lemma occupied_keys: "set (map fst (table_occupied t)) = {s. table_seat t s \<noteq> None}"
proof (rule set_eqI)
  fix s
  have "s \<in> set (map fst (table_occupied t)) \<longleftrightarrow> (\<exists>st. (s, st) \<in> set (table_occupied t))"
    by (auto simp del: occupied_member intro: rev_image_eqI)
  then show "s \<in> set (map fst (table_occupied t)) \<longleftrightarrow> s \<in> {s. table_seat t s \<noteq> None}" by auto
qed

text \<open>The seats that satisfy a predicate, in order: what the filters over \<open>occupied()\<close> compute.\<close>

definition seats_with :: "table_seats \<Rightarrow> (seat_state \<Rightarrow> bool) \<Rightarrow> seat_id list" where
  "seats_with t P = map fst (filter (\<lambda>(s, st). P st) (table_occupied t))"

lemma seats_with_alt: "seats_with t P = filter (seat_satisfies t P) [0..<length (tb_seats t)]"
proof -
  have "seats_with t P = filter (\<lambda>s. P (the (table_seat t s)))
      (filter (\<lambda>s. table_seat t s \<noteq> None) [0..<length (tb_seats t)])"
    by (simp add: seats_with_def table_occupied_alt filter_map comp_def)
  also have "\<dots> = filter (seat_satisfies t P) [0..<length (tb_seats t)]"
    unfolding filter_filter
    by (rule filter_cong) (auto simp: seat_satisfies_def split: option.splits)
  finally show ?thesis .
qed

lemma seats_with_member [simp]: "s \<in> set (seats_with t P) \<longleftrightarrow> seat_satisfies t P s"
  by (auto simp: seats_with_alt seat_satisfies_def dest: table_seat_bound split: option.splits)

lemma seats_with_distinct [simp]: "distinct (seats_with t P)"
  by (simp add: seats_with_alt)

lemma seats_with_sorted: "sorted_wrt (<) (seats_with t P)"
  by (simp add: seats_with_alt sorted_wrt_filter)

lemma seat_satisfies_bound: "seat_satisfies t P s \<Longrightarrow> s < length (tb_seats t)"
  by (auto simp: seat_satisfies_def dest: table_seat_bound split: option.splits)

subsection \<open>Reads after updates\<close>

lemma table_seat_new [simp]: "table_seat (table_seats_new n) s = None"
  by (simp add: table_seat_def table_seats_new_def)

lemma table_ok_new: "table_ok (table_seats_new n)"
  by (auto simp: table_ok_def) (simp add: table_seats_new_def)

lemma table_occupy_Inr:
  "table_occupy t s st = Inr t' \<longleftrightarrow>
     s < length (tb_seats t) \<and> table_seat t s = None \<and>
     (\<forall>s' st'. table_seat t s' = Some st' \<longrightarrow> ss_player_id st' \<noteq> ss_player_id st) \<and>
     t' = t\<lparr>tb_seats := (tb_seats t)[s := Some st]\<rparr>"
proof -
  have "list_ex (\<lambda>o'. case o' of None \<Rightarrow> False | Some occupant \<Rightarrow> ss_player_id occupant = ss_player_id st)
      (tb_seats t) \<longleftrightarrow> (\<exists>s' st'. table_seat t s' = Some st' \<and> ss_player_id st' = ss_player_id st)"
    (is "?l \<longleftrightarrow> ?r")
  proof
    assume ?l
    then obtain st' where "Some st' \<in> set (tb_seats t)" "ss_player_id st' = ss_player_id st"
      by (auto simp: list_ex_iff split: option.splits)
    then obtain i where "i < length (tb_seats t)" "tb_seats t ! i = Some st'"
      "ss_player_id st' = ss_player_id st"
      unfolding in_set_conv_nth by blast
    moreover from this have "table_seat t i = Some st'" by (simp only: table_seat_def if_True)
    ultimately show ?r by blast
  next
    assume ?r
    then obtain i st' where "i < length (tb_seats t)" "tb_seats t ! i = Some st'"
      "ss_player_id st' = ss_player_id st"
      by (auto simp: table_seat_def split: if_splits)
    then have "Some st' \<in> set (tb_seats t)" "ss_player_id st' = ss_player_id st"
      using nth_mem [of i "tb_seats t"] by simp_all
    then show ?l unfolding list_ex_iff by (intro bexI [of _ "Some st'"]) simp_all
  qed
  then show ?thesis
    by (auto simp: table_occupy_def table_index_def table_seat_def)
qed

lemma table_seat_occupy:
  "table_occupy t s st = Inr t' \<Longrightarrow> table_seat t' s' = (if s' = s then Some st else table_seat t s')"
  by (auto simp: table_occupy_Inr table_seat_def)

lemma table_ok_occupy: "table_ok t \<Longrightarrow> table_occupy t s st = Inr t' \<Longrightarrow> table_ok t' \<and> tb_size t' = tb_size t"
  using table_seat_occupy [of t s st t']
  by (fastforce simp: table_ok_def table_occupy_Inr split: if_splits)

lemma table_seat_mut_Some:
  "table_seat_mut t s f = Some t' \<longleftrightarrow>
     (\<exists>st. table_seat t s = Some st \<and> t' = t\<lparr>tb_seats := (tb_seats t)[s := Some (f st)]\<rparr>)"
  by (auto simp: table_seat_mut_def split: option.splits)

lemma table_seat_mut_read:
  "table_seat_mut t s f = Some t' \<Longrightarrow>
     table_seat t' s' = (if s' = s then map_option f (table_seat t s) else table_seat t s')"
  by (auto simp: table_seat_mut_Some table_seat_def split: if_splits)

lemma table_seat_mut_total: "table_seat t s \<noteq> None \<Longrightarrow> \<exists>t'. table_seat_mut t s f = Some t'"
  by (auto simp: table_seat_mut_Some)

lemma table_ok_mut:
  assumes "table_ok t" "table_seat_mut t s f = Some t'" "\<And>st. ss_player_id (f st) = ss_player_id st"
  shows "table_ok t' \<and> tb_size t' = tb_size t"
proof -
  have "length (tb_seats t') = length (tb_seats t)" "tb_size t' = tb_size t"
    using assms(2) by (auto simp: table_seat_mut_Some)
  then show ?thesis
    using assms(1,3) table_seat_mut_read [OF assms(2)]
    by (fastforce simp: table_ok_def split: if_splits)
qed

lemma table_vacate_Inr:
  "table_vacate t s = Inr (st, t') \<longleftrightarrow>
     table_seat t s = Some st \<and> t' = t\<lparr>tb_seats := (tb_seats t)[s := None]\<rparr>"
  by (auto simp: table_vacate_def table_index_def table_seat_def split: option.splits)

lemma table_vacate_total: "table_seat t s = Some st \<Longrightarrow> \<exists>t'. table_vacate t s = Inr (st, t')"
  by (simp add: table_vacate_Inr)

lemma table_seat_vacate:
  "table_vacate t s = Inr (st, t') \<Longrightarrow> table_seat t' s' = (if s' = s then None else table_seat t s')"
  by (auto simp: table_vacate_Inr table_seat_def split: if_splits)

lemma table_ok_vacate: "table_ok t \<Longrightarrow> table_vacate t s = Inr (st, t') \<Longrightarrow> table_ok t' \<and> tb_size t' = tb_size t"
  using table_seat_vacate [of t s st t']
  by (fastforce simp: table_ok_def table_vacate_Inr split: if_splits)

subsection \<open>Lookup by player\<close>

lemma seat_for_player_Some:
  assumes "table_ok t"
  shows "seat_for_player t p = Some s \<longleftrightarrow> (\<exists>st. table_seat t s = Some st \<and> ss_player_id st = p)"
proof
  assume "seat_for_player t p = Some s"
  then obtain e where "first_match (\<lambda>(s, st). ss_player_id st = p) (table_occupied t) = Some e" "fst e = s"
    by (auto simp: seat_for_player_def)
  then show "\<exists>st. table_seat t s = Some st \<and> ss_player_id st = p"
    by (cases e) (auto dest: first_match_SomeD)
next
  assume "\<exists>st. table_seat t s = Some st \<and> ss_player_id st = p"
  then obtain st where st: "table_seat t s = Some st" "ss_player_id st = p" by blast
  then have "\<exists>e\<in>set (table_occupied t). (\<lambda>(s, st). ss_player_id st = p) e"
    by (intro bexI [of _ "(s, st)"]) simp_all
  from first_match_exists [OF this]
  obtain e where e: "first_match (\<lambda>(s, st). ss_player_id st = p) (table_occupied t) = Some e" by blast
  then obtain st' where "table_seat t (fst e) = Some st'" "ss_player_id st' = p"
    by (cases e) (auto dest: first_match_SomeD)
  then have "fst e = s" using assms st unfolding table_ok_def by metis
  then show "seat_for_player t p = Some s" using e by (simp add: seat_for_player_def)
qed

lemma seat_for_player_None:
  "seat_for_player t p = None \<longleftrightarrow> (\<forall>s st. table_seat t s = Some st \<longrightarrow> ss_player_id st \<noteq> p)"
  by (auto simp: seat_for_player_def) (metis occupied_member)

text \<open>
  The interface: lookups by seat and by player after the operations that change the occupants.
\<close>

locale seat_map =
  fixes lookup :: "'t \<Rightarrow> seat_id \<Rightarrow> 'o option"
    and holder :: "'t \<Rightarrow> player_id \<Rightarrow> seat_id option"
    and player_of :: "'o \<Rightarrow> player_id"
    and sit :: "'t \<Rightarrow> seat_id \<Rightarrow> 'o \<Rightarrow> 't option"
    and stand :: "'t \<Rightarrow> seat_id \<Rightarrow> ('o \<times> 't) option"
    and invar :: "'t \<Rightarrow> bool"
  assumes holder_iff: "invar t \<Longrightarrow> holder t p = Some s \<longleftrightarrow> (\<exists>st. lookup t s = Some st \<and> player_of st = p)"
    and sit_lookup: "sit t s st = Some t' \<Longrightarrow> lookup t' s' = (if s' = s then Some st else lookup t s')"
    and sit_vacant: "sit t s st = Some t' \<Longrightarrow> lookup t s = None"
    and sit_invar: "invar t \<Longrightarrow> sit t s st = Some t' \<Longrightarrow> invar t'"
    and stand_lookup: "stand t s = Some (st, t') \<Longrightarrow> lookup t' s' = (if s' = s then None else lookup t s')"
    and stand_occupied: "stand t s = Some (st, t') \<Longrightarrow> lookup t s = Some st"
    and stand_invar: "invar t \<Longrightarrow> stand t s = Some (st, t') \<Longrightarrow> invar t'"
begin

lemma holder_none: "invar t \<Longrightarrow> holder t p = None \<longleftrightarrow> (\<forall>s st. lookup t s = Some st \<longrightarrow> player_of st \<noteq> p)"
  using holder_iff [of t p] by (metis not_None_eq option.distinct(1))

lemma one_seat_each:
  assumes "invar t" "lookup t s = Some st" "lookup t s' = Some st'" "player_of st = player_of st'"
  shows "s = s'"
proof -
  have "holder t (player_of st) = Some s" using assms(1,2) holder_iff by blast
  moreover have "holder t (player_of st) = Some s'" using assms(1,3,4) holder_iff by metis
  ultimately show ?thesis by simp
qed

lemma holder_after_sit:
  assumes "invar t" "sit t s st = Some t'"
  shows "holder t' p = (if p = player_of st then Some s else holder t p)"
proof -
  have t': "invar t'" by (rule sit_invar [OF assms])
  note look = sit_lookup [OF assms(2)]
  show ?thesis
  proof (cases "p = player_of st")
    case True
    then show ?thesis using holder_iff [OF t', of p s] look by simp
  next
    case False
    have "holder t' p = Some s' \<longleftrightarrow> holder t p = Some s'" for s'
      using holder_iff [OF t', of p s'] holder_iff [OF assms(1), of p s'] look [of s']
        sit_vacant [OF assms(2)] False by auto
    then show ?thesis using False by (metis not_None_eq)
  qed
qed

lemma holder_after_stand:
  assumes "invar t" "stand t s = Some (st, t')"
  shows "holder t' p = (if p = player_of st then None else holder t p)"
proof -
  have t': "invar t'" by (rule stand_invar [OF assms])
  note look = stand_lookup [OF assms(2)] and was = stand_occupied [OF assms(2)]
  show ?thesis
  proof (cases "p = player_of st")
    case True
    have "player_of st' \<noteq> p" if "lookup t' s' = Some st'" for s' st'
      using that look [of s'] one_seat_each [OF assms(1) was, of s' st'] True by (auto split: if_splits)
    then show ?thesis using True holder_none [OF t'] by simp
  next
    case False
    have "holder t' p = Some s' \<longleftrightarrow> holder t p = Some s'" for s'
      using holder_iff [OF t', of p s'] holder_iff [OF assms(1), of p s'] look [of s'] was False by auto
    then show ?thesis using False by (metis not_None_eq)
  qed
qed

lemma stand_after_sit:
  assumes "sit t s st = Some t'" "stand t' s = Some (st', t'')"
  shows "st' = st \<and> (\<forall>s'. lookup t'' s' = lookup t s')"
  using stand_occupied [OF assms(2)] stand_lookup [OF assms(2)] sit_lookup [OF assms(1)]
    sit_vacant [OF assms(1)] by simp

end

definition ok_part :: "'e + 'a \<Rightarrow> 'a option" where
  "ok_part r = (case r of Inl _ \<Rightarrow> None | Inr x \<Rightarrow> Some x)"

lemma ok_part_Some [simp]: "ok_part r = Some x \<longleftrightarrow> r = Inr x"
  by (cases r) (simp_all add: ok_part_def)

interpretation tm: seat_map table_seat seat_for_player ss_player_id
  "\<lambda>t s st. ok_part (table_occupy t s st)" "\<lambda>t s. ok_part (table_vacate t s)" table_ok
proof
  fix t t' :: table_seats and s s' p and st :: seat_state
  show "table_ok t \<Longrightarrow> seat_for_player t p = Some s \<longleftrightarrow> (\<exists>st. table_seat t s = Some st \<and> ss_player_id st = p)"
    by (rule seat_for_player_Some)
  show "ok_part (table_occupy t s st) = Some t' \<Longrightarrow>
      table_seat t' s' = (if s' = s then Some st else table_seat t s')"
    by (simp only: ok_part_Some table_seat_occupy)
  show "ok_part (table_occupy t s st) = Some t' \<Longrightarrow> table_seat t s = None"
    by (simp add: table_occupy_Inr)
  show "table_ok t \<Longrightarrow> ok_part (table_occupy t s st) = Some t' \<Longrightarrow> table_ok t'"
    by (simp only: ok_part_Some table_ok_occupy)
  show "ok_part (table_vacate t s) = Some (st, t') \<Longrightarrow>
      table_seat t' s' = (if s' = s then None else table_seat t s')"
    by (simp only: ok_part_Some table_seat_vacate)
  show "ok_part (table_vacate t s) = Some (st, t') \<Longrightarrow> table_seat t s = Some st"
    by (simp add: table_vacate_Inr)
  show "table_ok t \<Longrightarrow> ok_part (table_vacate t s) = Some (st, t') \<Longrightarrow> table_ok t'"
    by (simp only: ok_part_Some table_ok_vacate)
qed

subsection \<open>The next seat clockwise\<close>

lemma next_for_hand_ring:
  "next_for_hand t start = (if start < tb_size t
     then first_match (seat_satisfies t eligible_for_next_hand) (ring_from (tb_size t) [1..<tb_size t] start)
     else None)"
  by (simp add: next_for_hand_def next_eligible_ring)

lemma next_eligible_sound:
  assumes "next_eligible n start P = Some s" shows "start < n \<and> s < n \<and> P s"
proof -
  have "start < n" using assms by (auto simp: next_eligible_ring split: if_splits)
  then show ?thesis using assms others.search_sound [of P n start s] by (simp add: next_eligible_ring)
qed

lemma next_eligible_finds:
  "start < n \<Longrightarrow> s < n \<Longrightarrow> s \<noteq> start \<Longrightarrow> P s \<Longrightarrow> \<exists>t. next_eligible n start P = Some t \<and> t < n \<and> P t"
  using others.search_finds_other [of start n s P] by (simp add: next_eligible_ring)

text \<open>The search returns the nearest seat clockwise.\<close>

definition clockwise_distance :: "table_size \<Rightarrow> seat_id \<Rightarrow> seat_id \<Rightarrow> nat" where
  "clockwise_distance n a b = (b + n - a) mod n"

lemma first_match_first:
  assumes "first_match P xs = Some x"
  shows "\<exists>i<length xs. xs ! i = x \<and> P x \<and> (\<forall>j<i. \<not> P (xs ! j))"
  using assms unfolding first_match_def find_Some_iff by blast

lemma next_eligible_nearest:
  assumes "next_eligible n a P = Some b" "s < n" "s \<noteq> a" "P s"
  shows "clockwise_distance n a b \<le> clockwise_distance n a s"
proof -
  have a: "a < n" using next_eligible_sound [OF assms(1)] by simp
  obtain i where i: "i < n - 1" "(a + Suc i) mod n = b" "\<forall>j<i. \<not> P ((a + Suc j) mod n)"
    using assms(1) a first_match_first [of P "ring_from n [1..<n] a" b]
    by (auto simp: next_eligible_ring ring_from_def)
  define d where "d = clockwise_distance n a s"
  have d: "1 \<le> d" "d < n" "(a + d) mod n = s"
    using ring_offset_bounds [OF a assms(2,3)] ring_reaches [OF a assms(2)]
    by (simp_all add: d_def clockwise_distance_def)
  have "Suc i \<le> d"
  proof (rule ccontr)
    assume "\<not> Suc i \<le> d"
    then have "d - 1 < i" "Suc (d - 1) = d" using d(1) by simp_all
    then show False using i(3) d(3) assms(4) by metis
  qed
  moreover have "clockwise_distance n a b \<le> Suc i"
  proof -
    have "(a + clockwise_distance n a b) mod n = (a + Suc i) mod n"
      using ring_reaches [of a n b] a i(2) by (auto simp: clockwise_distance_def)
    moreover have "clockwise_distance n a b < n" using a by (simp add: clockwise_distance_def)
    ultimately have "clockwise_distance n a b = Suc i" if "Suc i \<le> clockwise_distance n a b"
      using mod_add_inj [of a "Suc i" n "clockwise_distance n a b"] that a by simp
    then show ?thesis by fastforce
  qed
  ultimately show ?thesis by (simp add: d_def)
qed

end
