(* ===== verification/Lifecycle_Facts.thy ===== *)
theory Lifecycle_Facts
  imports Lifecycle Table_Facts
begin

text \<open>
  The invariant of the table lifecycle and what every operation does to it. \<open>roster_ok\<close> is
  \<open>core_ok\<close> (seats, reservations, pending transitions, the hand being played) and \<open>state_ok\<close> (the run
  state fits the eligible players); between hands \<open>refresh_between_hand_state\<close> re-establishes the
  second from the first.
\<close>

definition seat_idle :: "seat_state \<Rightarrow> bool" where
  "seat_idle st \<longleftrightarrow> ss_hole_cards st = [] \<and> ss_street_bet st = 0 \<and> ss_hand_participation st = NotDealt"

definition hand_seats :: "hand_start \<Rightarrow> seat_id list" where
  "hand_seats start = map fst (hs_stacks start)"

definition dealt_in :: "hand_start option \<Rightarrow> seat_id set" where
  "dealt_in active = (case active of None \<Rightarrow> {} | Some start \<Rightarrow> set (hand_seats start))"

definition seats_ok :: "table_seats \<Rightarrow> hand_start option \<Rightarrow> bool" where
  "seats_ok t active \<longleftrightarrow> (\<forall>s st. table_seat t s = Some st \<longrightarrow>
     ss_table_participation st \<noteq> Leaving \<and> (s \<notin> dealt_in active \<longrightarrow> seat_idle st))"

definition reservations_ok :: "table_seats \<Rightarrow> (seat_id, player_id) btree \<Rightarrow> bool" where
  "reservations_ok t rs \<longleftrightarrow> bt_sorted rs \<and> distinct (map snd rs) \<and>
     (\<forall>(s, p)\<in>set rs. s < tb_size t \<and> table_seat t s = None \<and> seat_for_player t p = None)"

definition start_ok :: "table_seats \<Rightarrow> hand_start \<Rightarrow> bool" where
  "start_ok t start \<longleftrightarrow> sorted_wrt (<) (hand_seats start) \<and> 2 \<le> length (hs_stacks start) \<and>
     hs_button start \<in> set (hand_seats start) \<and> fp_seat ` set (hs_forced_posts start) \<subseteq> set (hand_seats start) \<and>
     (\<forall>(s, k)\<in>set (hs_stacks start). 0 < k \<and> (\<exists>st. table_seat t s = Some st \<and> ss_stack st = k))"

definition core_ok :: "table_lifecycle \<Rightarrow> bool" where
  "core_ok l \<longleftrightarrow> valid_size (lc_table_size l) \<and> table_ok (lc_seats l) \<and>
     tb_size (lc_seats l) = lc_table_size l \<and> seats_ok (lc_seats l) (lc_active_hand l) \<and>
     reservations_ok (lc_seats l) (lc_reservations l) \<and>
     bt_sorted (lc_pending l) \<and> (lc_active_hand l = None \<longrightarrow> lc_pending l = []) \<and>
     (\<forall>s. lc_last_button l = Some s \<longrightarrow> s < lc_table_size l) \<and>
     (\<forall>start. lc_active_hand l = Some start \<longrightarrow> start_ok (lc_seats l) start \<and>
        lc_last_button l = Some (hs_button start))"

definition state_ok :: "table_lifecycle \<Rightarrow> bool" where
  "state_ok l \<longleftrightarrow> (case lc_state l of
     Closed \<Rightarrow> lc_active_hand l = None \<and> lc_reservations l = []
   | Waiting \<Rightarrow> lc_active_hand l = None
   | Running \<Rightarrow> lc_active_hand l = None \<longrightarrow> 2 \<le> eligible_count l
   | Paused \<Rightarrow> lc_active_hand l = None \<and> 0 < occupied_count (lc_seats l) \<and> eligible_count l < 2)"

definition roster_ok :: "table_lifecycle \<Rightarrow> bool" where
  "roster_ok l \<longleftrightarrow> core_ok l \<and> state_ok l"

subsection \<open>Counting seats\<close>

lemma eligible_count_alt: "eligible_count l = length (seats_with (lc_seats l) eligible_for_next_hand)"
  by (simp add: eligible_count_def seats_with_def)

lemma occupied_count_alt: "occupied_count t = length (seats_with t (\<lambda>_. True))"
proof -
  have "filter (\<lambda>(s, st). True) (table_occupied t) = table_occupied t"
    by (rule filter_True) auto
  then show ?thesis by (simp add: occupied_count_def seats_with_def)
qed

lemma seats_with_cong:
  assumes "length (tb_seats t') = length (tb_seats t)" "\<And>s. seat_satisfies t' P s = seat_satisfies t P s"
  shows "seats_with t' P = seats_with t P"
proof -
  have "seat_satisfies t' P = seat_satisfies t P" using assms(2) by (rule ext)
  then show ?thesis by (simp add: seats_with_alt assms(1))
qed

lemma occupied_count_pos: "table_seat t s = Some st \<Longrightarrow> 0 < occupied_count t"
  using seats_with_member [of s t "\<lambda>_. True"]
  by (auto simp: occupied_count_alt seat_satisfies_def length_greater_0_conv simp del: seats_with_member)

lemma eligible_le_occupied: "eligible_count l \<le> occupied_count (lc_seats l)"
  by (simp add: eligible_count_def occupied_count_def)

subsection \<open>Refreshing\<close>

lemma refresh_fields [simp]:
  "lc_table_size (refresh_between_hand_state l) = lc_table_size l"
  "lc_seats (refresh_between_hand_state l) = lc_seats l"
  "lc_reservations (refresh_between_hand_state l) = lc_reservations l"
  "lc_pending (refresh_between_hand_state l) = lc_pending l"
  "lc_active_hand (refresh_between_hand_state l) = lc_active_hand l"
  "lc_last_button (refresh_between_hand_state l) = lc_last_button l"
  "lc_next_hand_number (refresh_between_hand_state l) = lc_next_hand_number l"
  by (simp_all add: refresh_between_hand_state_def)

lemma core_ok_refresh [simp]: "core_ok (refresh_between_hand_state l) = core_ok l"
  by (simp add: core_ok_def)

lemma refresh_ok: "core_ok l \<Longrightarrow> lc_state l \<noteq> Closed \<Longrightarrow> lc_active_hand l = None
   \<Longrightarrow> roster_ok (refresh_between_hand_state l)"
  unfolding roster_ok_def core_ok_refresh
  by (cases "lc_state l")
    (auto simp: state_ok_def refresh_between_hand_state_def hand_active_def eligible_count_def)

subsection \<open>Changing the occupants\<close>

text \<open>A change of the seats that seats nobody new keeps the reservations valid.\<close>

lemma reservations_ok_fewer:
  assumes "reservations_ok t rs" "tb_size t' = tb_size t"
    and "\<And>s st. table_seat t' s = Some st \<Longrightarrow> \<exists>st0. table_seat t s = Some st0 \<and> ss_player_id st0 = ss_player_id st"
  shows "reservations_ok t' rs"
proof -
  have "table_seat t' s = None \<and> seat_for_player t' p = None"
    if "(s, p) \<in> set rs" for s p
  proof -
    have "table_seat t s = None" "seat_for_player t p = None"
      using assms(1) that by (auto simp: reservations_ok_def)
    then show ?thesis
      using assms(3) unfolding seat_for_player_None by (metis not_None_eq)
  qed
  then show ?thesis using assms(1,2) by (auto simp: reservations_ok_def)
qed

text \<open>
  An update of one seat that leaves the player, the stack and the cards alone: every setter of the
  lifecycle is one.
\<close>

definition keeps_hand :: "(seat_state \<Rightarrow> seat_state) \<Rightarrow> bool" where
  "keeps_hand f \<longleftrightarrow> (\<forall>st. ss_player_id (f st) = ss_player_id st \<and> ss_stack (f st) = ss_stack st \<and>
     ss_hole_cards (f st) = ss_hole_cards st \<and> ss_street_bet (f st) = ss_street_bet st \<and>
     ss_hand_participation (f st) = ss_hand_participation st \<and>
     (ss_table_participation st \<noteq> Leaving \<longrightarrow> ss_table_participation (f st) \<noteq> Leaving))"

lemma keeps_hand_idle: "keeps_hand f \<Longrightarrow> seat_idle (f st) = seat_idle st"
  by (simp add: keeps_hand_def seat_idle_def)

lemma start_ok_mono:
  assumes "start_ok t start"
    and "\<And>s st. table_seat t s = Some st \<Longrightarrow> \<exists>st'. table_seat t' s = Some st' \<and> ss_stack st' = ss_stack st"
  shows "start_ok t' start"
proof -
  have "0 < k \<and> (\<exists>st. table_seat t' s = Some st \<and> ss_stack st = k)" if "(s, k) \<in> set (hs_stacks start)" for s k
  proof -
    have "0 < k" and "\<exists>st. table_seat t s = Some st \<and> ss_stack st = k"
      using assms(1) that by (auto simp: start_ok_def)
    then show ?thesis using assms(2) by blast
  qed
  then show ?thesis using assms(1) by (auto simp: start_ok_def)
qed

lemma core_ok_mut:
  assumes "core_ok l" "table_seat_mut (lc_seats l) s f = Some t" "keeps_hand f"
  shows "core_ok (l\<lparr>lc_seats := t\<rparr>)"
proof -
  have player: "\<And>st. ss_player_id (f st) = ss_player_id st" and stack: "\<And>st. ss_stack (f st) = ss_stack st"
    using assms(3) by (simp_all add: keeps_hand_def)
  have ok: "table_ok t" "tb_size t = tb_size (lc_seats l)"
    using table_ok_mut [OF _ assms(2) player] assms(1) by (simp_all add: core_ok_def)
  note read = table_seat_mut_read [OF assms(2)]
  have "reservations_ok t (lc_reservations l)"
  proof (rule reservations_ok_fewer [where t = "lc_seats l"])
    show "reservations_ok (lc_seats l) (lc_reservations l)" using assms(1) by (simp add: core_ok_def)
  qed (auto simp: ok(2) read player split: if_splits)
  moreover have "seats_ok t (lc_active_hand l)"
  proof -
    have "seats_ok (lc_seats l) (lc_active_hand l)" using assms(1) by (simp add: core_ok_def)
    moreover have "\<And>st. ss_table_participation st \<noteq> Leaving \<Longrightarrow> ss_table_participation (f st) \<noteq> Leaving"
      using assms(3) by (simp add: keeps_hand_def)
    ultimately show ?thesis
      by (auto simp: seats_ok_def read keeps_hand_idle [OF assms(3)] split: if_splits)
  qed
  moreover have "start_ok t start" if "start_ok (lc_seats l) start" for start
    by (rule start_ok_mono [OF that]) (auto simp: read stack)
  ultimately show ?thesis
    using assms(1) ok by (simp add: core_ok_def)
qed

subsection \<open>The operations between hands\<close>

lemma lifecycle_new_ok: "valid_size n \<Longrightarrow> roster_ok (lifecycle_new n)"
  by (simp add: roster_ok_def core_ok_def state_ok_def lifecycle_new_def table_ok_new seats_ok_def
      reservations_ok_def) (simp add: table_seats_new_def)

lemma core_not_active: "core_ok l \<Longrightarrow> lc_active_hand l = None \<Longrightarrow> lc_pending l = []"
  by (simp add: core_ok_def)

lemma identity_absent:
  "\<not> identity_present l p \<longleftrightarrow> seat_for_player (lc_seats l) p = None \<and> p \<notin> snd ` set (lc_reservations l)"
  by (force simp: identity_present_def list_ex_iff)

lemma set_bt_insert_fresh:
  "bt_get m k = None \<Longrightarrow> mset (bt_insert k v m) = add_mset (k, v) (mset m)"
  by (induction k v m rule: bt_insert.induct) (auto simp: bt_get_def split: if_splits)

lemma state_ok_reservations:
  "lc_state l \<noteq> Closed \<Longrightarrow> state_ok (l\<lparr>lc_reservations := rs\<rparr>) = state_ok l"
  by (simp add: state_ok_def eligible_count_def split: table_run_state.split)

lemma reserve_ok:
  assumes "roster_ok l" "reserve l p s = (r, l')"
  shows "roster_ok l'"
proof (cases "l' = l")
  case False
  then have open_now: "lc_state l \<noteq> Closed" and s: "s < lc_table_size l" "table_seat (lc_seats l) s = None"
    and p: "\<not> identity_present l p" and free: "bt_get (lc_reservations l) s = None"
    and l': "l' = l\<lparr>lc_reservations := bt_insert s p (lc_reservations l)\<rparr>"
    using assms(2) by (auto simp: reserve_def table_contains_def split: if_splits)
  have res: "reservations_ok (lc_seats l) (lc_reservations l)" and size: "tb_size (lc_seats l) = lc_table_size l"
    using assms(1) by (simp_all add: roster_ok_def core_ok_def)
  note fresh = set_bt_insert_fresh [OF free, of p]
  have "set (bt_insert s p (lc_reservations l)) = insert (s, p) (set (lc_reservations l))"
    using fresh by (metis set_mset_add_mset_insert set_mset_mset)
  moreover have "mset (map snd (bt_insert s p (lc_reservations l))) = mset (p # map snd (lc_reservations l))"
    using fresh by (simp add: mset_map)
  then have "distinct (map snd (bt_insert s p (lc_reservations l)))"
    using res p by (metis reservations_ok_def identity_absent distinct.simps(2) list.set_map mset_eq_imp_distinct_iff)
  ultimately have "reservations_ok (lc_seats l) (bt_insert s p (lc_reservations l))"
    using res s p size by (auto simp: reservations_ok_def bt_sorted_insert identity_absent)
  then show ?thesis
    using assms(1) state_ok_reservations [OF open_now] by (simp add: roster_ok_def core_ok_def l')
qed (use assms(1) in simp)

lemma reservations_ok_remove: "reservations_ok t rs \<Longrightarrow> reservations_ok t (bt_remove s rs)"
  unfolding reservations_ok_def
  by (intro conjI bt_sorted_remove) (auto simp: bt_remove_def distinct_map intro: inj_on_subset)

lemma remove_reservation_ok:
  assumes "roster_ok l"
  shows "roster_ok (l\<lparr>lc_reservations := bt_remove s (lc_reservations l)\<rparr>)"
proof -
  have "state_ok (l\<lparr>lc_reservations := bt_remove s (lc_reservations l)\<rparr>)"
    using assms
    by (cases "lc_state l") (simp_all add: roster_ok_def state_ok_def eligible_count_def bt_remove_def)
  then show ?thesis
    using assms by (simp add: roster_ok_def core_ok_def reservations_ok_remove)
qed

lemma cancel_reservation_ok:
  "roster_ok l \<Longrightarrow> cancel_reservation l p s = (r, l') \<Longrightarrow> roster_ok l'"
  by (auto simp: cancel_reservation_def remove_reservation_ok split: if_splits option.splits)

lemma bt_get_member: "bt_get m k = Some v \<Longrightarrow> (k, v) \<in> set m"
  by (simp add: bt_get_def map_of_SomeD)

lemma occupy_ok:
  assumes "roster_ok l" "occupy l p s stack = (r, l')"
  shows "roster_ok l'"
proof (cases "l' = l")
  case False
  obtain seats where cond: "lc_state l \<noteq> Closed" "\<not> hand_active l" "bt_get (lc_reservations l) s = Some p"
    and seats: "table_occupy (lc_seats l) s (seat_state_active p stack) = Inr seats"
    and l': "l' = refresh_between_hand_state
      (l\<lparr>lc_seats := seats, lc_reservations := bt_remove s (lc_reservations l)\<rparr>)"
    using assms(2) False by (auto simp: occupy_def split: if_splits option.splits sum.splits)
  have core: "core_ok l" using assms(1) by (simp add: roster_ok_def)
  have ok: "table_ok seats" "tb_size seats = tb_size (lc_seats l)"
    using table_ok_occupy [OF _ seats] core by (simp_all add: core_ok_def)
  note read = table_seat_occupy [OF seats]
  have res: "reservations_ok (lc_seats l) (lc_reservations l)" using core by (simp add: core_ok_def)
  have "reservations_ok seats (bt_remove s (lc_reservations l))"
  proof -
    have "table_seat seats s' = None \<and> seat_for_player seats p' = None"
      if e: "(s', p') \<in> set (lc_reservations l)" "s' \<noteq> s" for s' p'
    proof -
      have "p' \<noteq> p"
        using res e bt_get_member [OF cond(3)]
          inj_onD [of snd "set (lc_reservations l)" "(s', p')" "(s, p)"]
        by (auto simp: reservations_ok_def distinct_map)
      moreover have "table_seat (lc_seats l) s' = None" "seat_for_player (lc_seats l) p' = None"
        using res e by (auto simp: reservations_ok_def)
      ultimately show ?thesis
        using e(2) unfolding seat_for_player_None by (auto simp: read seat_state_active_def split: if_splits)
    qed
    then show ?thesis
      using reservations_ok_remove [OF res, of s] ok(2) res
      by (auto simp: reservations_ok_def bt_remove_def)
  qed
  moreover have "seats_ok seats (lc_active_hand l)"
    using core by (auto simp: core_ok_def seats_ok_def read seat_state_active_def seat_idle_def split: if_splits)
  ultimately have "core_ok (l\<lparr>lc_seats := seats, lc_reservations := bt_remove s (lc_reservations l)\<rparr>)"
    using core ok cond(2) by (simp add: core_ok_def hand_active_def)
  then show ?thesis
    using refresh_ok [of "l\<lparr>lc_seats := seats, lc_reservations := bt_remove s (lc_reservations l)\<rparr>"] cond
    by (simp add: l' hand_active_def)
qed (use assms(1) in simp)

lemma join_ok:
  assumes "roster_ok l" "join l p s stack = (r, l')"
  shows "roster_ok l'"
proof -
  obtain r1 l1 where r1: "reserve l p s = (r1, l1)" by fastforce
  obtain r2 l2 where r2: "occupy l1 p s stack = (r2, l2)" by fastforce
  have "roster_ok l1" by (rule reserve_ok [OF assms(1) r1])
  moreover from this have "roster_ok l2" using r2 by (rule occupy_ok)
  ultimately show ?thesis
    using assms r1 r2 remove_reservation_ok [of l2 s]
    by (auto simp: join_def split: if_splits sum.splits)
qed

text \<open>A setter that does not change who may be dealt in keeps the run state valid, too.\<close>

lemma roster_ok_mut:
  assumes "roster_ok l" "table_seat_mut (lc_seats l) s f = Some t" "keeps_hand f"
    and "\<And>st. ss_table_participation (f st) = ss_table_participation st"
  shows "roster_ok (l\<lparr>lc_seats := t\<rparr>)"
proof -
  have len: "length (tb_seats t) = length (tb_seats (lc_seats l))"
    using assms(2) by (auto simp: table_seat_mut_Some)
  have same: "seat_satisfies t P x = seat_satisfies (lc_seats l) P x" if "\<And>st. P (f st) = P st" for P x
    using table_seat_mut_read [OF assms(2), of x] that
    by (auto simp: seat_satisfies_def split: if_splits option.splits)
  have "seats_with t eligible_for_next_hand = seats_with (lc_seats l) eligible_for_next_hand"
    using assms(3,4) by (intro seats_with_cong [OF len] same) (simp add: eligible_for_next_hand_def keeps_hand_def)
  then have "eligible_count (l\<lparr>lc_seats := t\<rparr>) = eligible_count l"
    by (simp add: eligible_count_alt)
  moreover have "seats_with t (\<lambda>_. True) = seats_with (lc_seats l) (\<lambda>_. True)"
    by (intro seats_with_cong [OF len] same) simp
  then have "occupied_count t = occupied_count (lc_seats l)"
    by (simp add: occupied_count_alt)
  ultimately have "state_ok (l\<lparr>lc_seats := t\<rparr>)"
    using assms(1) by (cases "lc_state l") (simp_all add: roster_ok_def state_ok_def)
  then show ?thesis
    using core_ok_mut [OF _ assms(2,3)] assms(1) by (simp add: roster_ok_def)
qed

lemma with_player_seat_returns:
  assumes "core_ok l"
  shows "with_player_seat l p f finish = Some (Inl (PlayerNotSeated p), l) \<or>
    (\<exists>s t. seat_for_player (lc_seats l) p = Some s \<and> table_seat_mut (lc_seats l) s f = Some t \<and>
       with_player_seat l p f finish = Some (Inr (), finish (l\<lparr>lc_seats := t\<rparr>)))"
proof (cases "seat_for_player (lc_seats l) p")
  case (Some s)
  have "table_ok (lc_seats l)" using assms by (simp add: core_ok_def)
  then have "table_seat (lc_seats l) s \<noteq> None" using Some by (auto simp: seat_for_player_Some)
  then obtain t where "table_seat_mut (lc_seats l) s f = Some t" using table_seat_mut_total by blast
  then show ?thesis using Some by (simp add: with_player_seat_def)
qed (simp add: with_player_seat_def)

lemma roster_core: "roster_ok l \<Longrightarrow> core_ok l"
  by (simp add: roster_ok_def)

lemma with_player_seat_ok:
  assumes "roster_ok l" "keeps_hand f"
    and "\<And>s t. table_seat_mut (lc_seats l) s f = Some t \<Longrightarrow> core_ok (l\<lparr>lc_seats := t\<rparr>)
      \<Longrightarrow> roster_ok (finish (l\<lparr>lc_seats := t\<rparr>))"
  shows "\<exists>r l'. with_player_seat l p f finish = Some (r, l') \<and> roster_ok l'"
  using with_player_seat_returns [OF roster_core [OF assms(1)], of p f finish] assms
    core_ok_mut [OF roster_core [OF assms(1)] _ assms(2)] by blast

lemma set_connection_ok:
  "roster_ok l \<Longrightarrow> \<exists>r l'. set_connection l p c = Some (r, l') \<and> roster_ok l'"
  unfolding set_connection_def
  by (rule with_player_seat_ok) (auto simp: keeps_hand_def intro: roster_ok_mut)

lemma record_missed_blind_ok:
  assumes "roster_ok l"
  shows "\<exists>r l'. record_missed_blind l p m = Some (r, l') \<and> roster_ok l'"
proof -
  have "\<exists>r l'. with_player_seat l p (\<lambda>st. st\<lparr>ss_blind_obligation := add_missed (ss_blind_obligation st) m\<rparr>)
      (\<lambda>l. l) = Some (r, l') \<and> roster_ok l'"
    by (rule with_player_seat_ok [OF assms]) (auto simp: keeps_hand_def intro: roster_ok_mut [OF assms])
  then show ?thesis using assms by (simp add: record_missed_blind_def)
qed

lemma request_return_with_entry_ok:
  assumes "roster_ok l"
  shows "\<exists>r l'. request_return_with_entry l p entry = Some (r, l') \<and> roster_ok l'"
proof (cases "lc_state l = Closed \<or> hand_active l")
  case False
  then show ?thesis
    using with_player_seat_ok [OF assms, of "\<lambda>st. st\<lparr>ss_table_participation :=
          (if ss_blind_obligation st = Clear then Active
           else case entry of WaitForBigBlind \<Rightarrow> WaitingForBlind | PostLiveBigBlind \<Rightarrow> Active)\<rparr>"
        refresh_between_hand_state p]
    by (auto simp: request_return_with_entry_def keeps_hand_def hand_active_def refresh_ok
        split: ring_entry_choice.split)
qed (use assms in \<open>auto simp: request_return_with_entry_def\<close>)

lemma join_with_entry_ok:
  assumes "roster_ok l"
  shows "\<exists>r l'. join_with_entry l p s stack entry = Some (r, l') \<and> roster_ok l'"
proof -
  obtain r1 l1 where j: "join l p s stack = (r1, l1)" by fastforce
  have ok: "roster_ok l1" by (rule join_ok [OF assms j])
  show ?thesis
  proof (cases r1)
    case (Inl e)
    then show ?thesis using j ok by (simp add: join_with_entry_def)
  next
    case (Inr u)
    obtain l0 where occ: "occupy l0 p s stack = (Inr (), l1)"
      using j Inr by (auto simp: join_def split: if_splits prod.splits sum.splits)
    then obtain seats where seats: "table_occupy (lc_seats l0) s (seat_state_active p stack) = Inr seats"
      and l1: "lc_seats l1 = seats" and cond: "lc_active_hand l1 = None" "lc_state l1 \<noteq> Closed"
      by (auto simp: occupy_def hand_active_def refresh_between_hand_state_def
          split: if_splits option.splits sum.splits)
    have "table_seat (lc_seats l1) s \<noteq> None"
      using table_seat_occupy [OF seats, of s] by (simp add: l1)
    moreover define f :: "seat_state \<Rightarrow> seat_state" where "f = (\<lambda>st. st\<lparr>ss_blind_obligation := OwesBigBlind,
            ss_table_participation := (case entry of
               WaitForBigBlind \<Rightarrow> WaitingForBlind | PostLiveBigBlind \<Rightarrow> Active)\<rparr>)"
    ultimately obtain t where t: "table_seat_mut (lc_seats l1) s f = Some t"
      using table_seat_mut_total by blast
    have "keeps_hand f" by (simp add: keeps_hand_def f_def split: ring_entry_choice.split)
    then have "roster_ok (refresh_between_hand_state (l1\<lparr>lc_seats := t\<rparr>))"
      using core_ok_mut [OF roster_core [OF ok] t] cond by (intro refresh_ok) simp_all
    then show ?thesis
      using j Inr ok t by (auto simp: join_with_entry_def f_def)
  qed
qed

lemma close_ok: "roster_ok l \<Longrightarrow> lifecycle_close l = (r, l') \<Longrightarrow> roster_ok l'"
  by (auto simp: lifecycle_close_def roster_ok_def core_ok_def state_ok_def reservations_ok_def
      hand_active_def split: if_splits)

end
