(* ===== verification/Lifecycle_Hands.thy ===== *)
theory Lifecycle_Hands
  imports Lifecycle_Facts
begin

text \<open>
  The two operations that bound a hand: \<open>begin_hand\<close> with the promotion of a waiting player to the big
  blind, and \<open>complete_hand\<close> with the pending transitions; then every operation together, as the step
  of the roster.
\<close>

subsection \<open>Transitions\<close>

definition after_transition :: "pending_transition \<Rightarrow> seat_state \<Rightarrow> seat_state option" where
  "after_transition tr st = (case tr of
     PendingSitOut \<Rightarrow> Some (st\<lparr>ss_table_participation := SittingOut\<rparr>)
   | PendingReturn \<Rightarrow> Some (st\<lparr>ss_table_participation :=
       (if ss_blind_obligation st = Clear then Active else WaitingForBlind)\<rparr>)
   | PendingLeave \<Rightarrow> None)"

lemma after_transition_keeps:
  "after_transition tr st = Some st' \<Longrightarrow> ss_player_id st' = ss_player_id st \<and> ss_stack st' = ss_stack st \<and>
     seat_idle st' = seat_idle st \<and> ss_table_participation st' \<noteq> Leaving"
  by (cases tr) (auto simp: after_transition_def seat_idle_def split: if_splits)

text \<open>The seat of one player moves, the others stay.\<close>

definition moved :: "player_id \<Rightarrow> pending_transition \<Rightarrow> table_seats \<Rightarrow> table_seats \<Rightarrow> bool" where
  "moved p tr t t' \<longleftrightarrow> table_ok t' \<and> tb_size t' = tb_size t \<and>
     (\<forall>s. table_seat t' s = (case table_seat t s of None \<Rightarrow> None
        | Some st \<Rightarrow> if ss_player_id st = p then after_transition tr st else Some st))"

lemma apply_transition_moves:
  assumes "table_ok (lc_seats l)"
  shows "\<exists>t. apply_transition l p tr = Some (l\<lparr>lc_seats := t\<rparr>) \<and> moved p tr (lc_seats l) t"
proof (cases "seat_for_player (lc_seats l) p")
  case None
  then have "ss_player_id st \<noteq> p" if "table_seat (lc_seats l) s = Some st" for s st
    using that by (auto simp: seat_for_player_None)
  then have "moved p tr (lc_seats l) (lc_seats l)"
    using assms by (auto simp: moved_def split: option.split)
  then show ?thesis
    using None by (intro exI [of _ "lc_seats l"]) (simp add: apply_transition_def)
next
  case (Some s)
  obtain st where st: "table_seat (lc_seats l) s = Some st" "ss_player_id st = p"
    using Some assms by (auto simp: seat_for_player_Some)
  have other: "ss_player_id st' \<noteq> p" if "table_seat (lc_seats l) s' = Some st'" "s' \<noteq> s" for s' st'
    using tm.one_seat_each [OF assms that(1) st(1)] that(2) st(2) by auto
  show ?thesis
  proof (cases "tr = PendingLeave")
    case True
    obtain t where t: "table_vacate (lc_seats l) s = Inr (st, t)"
      using table_vacate_total [OF st(1)] by blast
    have "moved p tr (lc_seats l) t"
      using table_ok_vacate [OF assms t] table_seat_vacate [OF t] st other True
      by (auto simp: moved_def after_transition_def split: option.split)
    then show ?thesis
      using Some True t by (intro exI [of _ t]) (simp add: apply_transition_def)
  next
    case False
    define f :: "seat_state \<Rightarrow> seat_state" where "f = (\<lambda>st. the (after_transition tr st))"
    have f: "after_transition tr st' = Some (f st')" "ss_player_id (f st') = ss_player_id st'" for st'
      using False by (cases tr; simp add: f_def after_transition_def)+
    obtain t where t: "table_seat_mut (lc_seats l) s f = Some t"
      using table_seat_mut_total [of "lc_seats l" s f] st(1) by auto
    have "moved p tr (lc_seats l) t"
      using table_ok_mut [OF assms t] table_seat_mut_read [OF t] st other f
      by (auto simp: moved_def split: option.split)
    moreover have "apply_transition l p tr = Some (l\<lparr>lc_seats := t\<rparr>)"
      using Some t False by (cases tr) (auto simp: apply_transition_def f_def after_transition_def)
    ultimately show ?thesis by blast
  qed
qed

lemma moved_core_ok:
  assumes "core_ok l" "lc_active_hand l = None" "moved p tr (lc_seats l) t"
  shows "core_ok (l\<lparr>lc_seats := t\<rparr>)"
proof -
  have origin: "\<exists>st0. table_seat (lc_seats l) s = Some st0 \<and> ss_player_id st0 = ss_player_id st \<and>
      seat_idle st = seat_idle st0 \<and>
      (ss_table_participation st0 \<noteq> Leaving \<longrightarrow> ss_table_participation st \<noteq> Leaving)"
    if "table_seat t s = Some st" for s st
    using that assms(3) by (auto simp: moved_def split: option.splits if_splits dest: after_transition_keeps)
  have t: "table_ok t" "tb_size t = tb_size (lc_seats l)" using assms(3) by (simp_all add: moved_def)
  have "reservations_ok t (lc_reservations l)"
  proof (rule reservations_ok_fewer [OF _ t(2)])
    show "reservations_ok (lc_seats l) (lc_reservations l)" using assms(1) by (simp add: core_ok_def)
  qed (use origin in blast)
  moreover have "seats_ok (lc_seats l) None" using assms(1,2) by (simp add: core_ok_def)
  then have "seats_ok t None"
    using origin unfolding seats_ok_def dealt_in_def by fastforce
  ultimately show ?thesis using assms(1,2) t by (simp add: core_ok_def)
qed

lemma request_transition_ok:
  assumes "roster_ok l"
  shows "\<exists>r l'. request_transition l p tr = Some (r, l') \<and> roster_ok l'"
proof (cases "lc_state l = Closed \<or> seat_for_player (lc_seats l) p = None")
  case True
  then show ?thesis using assms by (auto simp: request_transition_def)
next
  case open_now: False
  have core: "core_ok l" by (rule roster_core [OF assms])
  show ?thesis
  proof (cases "hand_active l")
    case True
    define l' where "l' = (if bt_get (lc_pending l) p \<noteq> Some PendingLeave
        then l\<lparr>lc_pending := bt_insert p tr (lc_pending l)\<rparr> else l)"
    have "core_ok l'"
      using core True by (auto simp: l'_def core_ok_def bt_sorted_insert hand_active_def)
    moreover have "state_ok l'"
      using assms by (cases "lc_state l") (simp_all add: l'_def roster_ok_def state_ok_def eligible_count_def)
    ultimately show ?thesis
      using True open_now by (auto simp: request_transition_def roster_ok_def l'_def)
  next
    case False
    then have idle: "lc_active_hand l = None" by (simp add: hand_active_def)
    have "table_ok (lc_seats l)" using core by (simp add: core_ok_def)
    then obtain t where t: "apply_transition l p tr = Some (l\<lparr>lc_seats := t\<rparr>)" "moved p tr (lc_seats l) t"
      using apply_transition_moves by blast
    have "roster_ok (refresh_between_hand_state (l\<lparr>lc_seats := t\<rparr>))"
      using moved_core_ok [OF core idle t(2)] idle open_now by (intro refresh_ok) simp_all
    then show ?thesis using False open_now t(1) by (auto simp: request_transition_def)
  qed
qed

text \<open>All pending transitions, in the order of the players.\<close>

definition after_pending :: "(player_id, pending_transition) btree \<Rightarrow> seat_state \<Rightarrow> seat_state option" where
  "after_pending es st = (case bt_get es (ss_player_id st) of
     None \<Rightarrow> Some st | Some tr \<Rightarrow> after_transition tr st)"

lemma apply_all_transitions:
  assumes "core_ok l" "lc_active_hand l = None" "distinct (map fst es)"
  shows "\<exists>t. for_m (\<lambda>(p, tr) l. apply_transition l p tr) es l = Some (l\<lparr>lc_seats := t\<rparr>) \<and>
    core_ok (l\<lparr>lc_seats := t\<rparr>) \<and>
    (\<forall>s. table_seat t s = Option.bind (table_seat (lc_seats l) s) (after_pending es))"
  using assms
proof (induction es arbitrary: l)
  case Nil
  have "after_pending [] = Some" by (rule ext) (simp add: after_pending_def)
  with Nil show ?case by (intro exI [of _ "lc_seats l"]) simp
next
  case (Cons e es)
  obtain p tr where e: "e = (p, tr)" by (cases e)
  have "table_ok (lc_seats l)" using Cons.prems(1) by (simp add: core_ok_def)
  then obtain t1 where t1: "apply_transition l p tr = Some (l\<lparr>lc_seats := t1\<rparr>)" "moved p tr (lc_seats l) t1"
    using apply_transition_moves by blast
  let ?l1 = "l\<lparr>lc_seats := t1\<rparr>"
  have "core_ok ?l1" by (rule moved_core_ok [OF Cons.prems(1,2) t1(2)])
  then obtain t where t: "for_m (\<lambda>(p, tr) l. apply_transition l p tr) es ?l1 = Some (?l1\<lparr>lc_seats := t\<rparr>)"
    "core_ok (?l1\<lparr>lc_seats := t\<rparr>)"
    "\<forall>s. table_seat t s = Option.bind (table_seat t1 s) (after_pending es)"
    using Cons.IH [of ?l1] Cons.prems(2,3) by (auto simp: e)
  have first: "after_pending (e # es) st = (if ss_player_id st = p then after_transition tr st
      else after_pending es st)" for st
    by (simp add: after_pending_def e bt_get_def)
  have late: "after_pending es st' = Some st'" if "after_transition tr st = Some st'" "ss_player_id st = p" for st st'
  proof -
    have "p \<notin> fst ` set es" using Cons.prems(3) by (simp add: e)
    then have "bt_get es (ss_player_id st') = None"
      using after_transition_keeps [OF that(1)] that(2) by (simp add: bt_get_def map_of_eq_None_iff)
    then show ?thesis by (simp add: after_pending_def)
  qed
  have "table_seat t s = Option.bind (table_seat (lc_seats l) s) (after_pending (e # es))" for s
  proof (cases "table_seat (lc_seats l) s")
    case None
    then show ?thesis using t(3) t1(2) by (simp add: moved_def)
  next
    case (Some st)
    then show ?thesis
      using t(3) t1(2) late [of st] by (cases "after_transition tr st") (auto simp: moved_def first)
  qed
  then show ?case
    using t(1,2) t1(1) by (intro exI [of _ t]) (simp add: e)
qed

subsection \<open>The end of a hand\<close>

lemma collect_actual_result:
  assumes "collect_actual expected rep acc = Inr act" "bt_sorted acc"
  shows "bt_sorted act \<and> mset act = mset acc + mset rep \<and> distinct (map fst rep) \<and>
    fst ` set rep \<inter> fst ` set acc = {} \<and> fst ` set rep \<subseteq> fst ` set expected"
  using assms
proof (induction expected rep acc rule: collect_actual.induct)
  case (2 expected s k rest acc)
  then have fresh: "bt_get acc s = None" and known: "bt_get expected s \<noteq> None"
    and rest: "collect_actual expected rest (bt_insert s k acc) = Inr act"
    by (simp_all split: if_splits)
  have ih: "bt_sorted act \<and> mset act = mset (bt_insert s k acc) + mset rest \<and> distinct (map fst rest) \<and>
      fst ` set rest \<inter> fst ` set (bt_insert s k acc) = {} \<and> fst ` set rest \<subseteq> fst ` set expected"
    using "2.IH" fresh known rest "2.prems"(2) by (simp add: bt_sorted_insert)
  have keys: "fst ` set (bt_insert s k acc) = insert s (fst ` set acc)"
    using set_keys_bt_insert [of s k acc] by simp
  have "s \<notin> fst ` set acc" "s \<in> fst ` set expected"
    using fresh known by (auto simp: bt_get_def map_of_eq_None_iff)
  then show ?case
    using ih keys set_bt_insert_fresh [OF fresh, of k] by auto
qed simp

lemma collect_actual_accepts:
  assumes "distinct (map fst rep)" "fst ` set rep \<inter> fst ` set acc = {}" "fst ` set rep \<subseteq> fst ` set expected"
  shows "\<exists>act. collect_actual expected rep acc = Inr act"
  using assms
proof (induction expected rep acc rule: collect_actual.induct)
  case (2 expected s k rest acc)
  have "bt_get acc s = None" "bt_get expected s \<noteq> None"
    using "2.prems" by (auto simp: bt_get_def map_of_eq_None_iff)
  moreover have "fst ` set (bt_insert s k acc) = insert s (fst ` set acc)"
    using set_keys_bt_insert [of s k acc] by simp
  ultimately show ?case using "2.IH" "2.prems" by auto
qed simp

lemma checked_total_Some: "checked_total xs acc = Some r \<longleftrightarrow>
   r = acc + sum_list xs \<and> (xs \<noteq> [] \<longrightarrow> acc + sum_list xs < u32_bound)"
proof (induction xs acc rule: checked_total.induct)
  case (2 x xs acc)
  then show ?case by (cases "xs = []") (auto simp: u32_checked_add_def add.assoc)
qed auto

lemma bt_of_list_sorted: "bt_sorted (bt_of_list xs)"
proof -
  have "bt_sorted m \<Longrightarrow> bt_sorted (fold (\<lambda>(k, v) m. bt_insert k v m) xs m)" for m
    by (induction xs arbitrary: m) (auto simp: bt_sorted_insert)
  then show ?thesis by (simp add: bt_of_list_def)
qed

text \<open>An ordered map is built from its sorted entries unchanged.\<close>

lemma bt_insert_last:
  "\<forall>k'\<in>fst ` set m. k' < k \<Longrightarrow> bt_insert k v m = m @ [(k, v)]"
  by (induction m) auto

lemma bt_of_sorted: "sorted_wrt (<) (map fst xs) \<Longrightarrow> bt_of_list xs = (xs :: ('k::linorder \<times> 'v) list)"
proof -
  have "sorted_wrt (<) (map fst (m @ xs)) \<Longrightarrow> fold (\<lambda>(k, v) m. bt_insert k v m) xs m = m @ xs" for m
  proof (induction xs arbitrary: m)
    case (Cons x xs)
    have "bt_insert (fst x) (snd x) m = m @ [x]"
      using Cons.prems bt_insert_last [of m "fst x" "snd x"] by (simp add: sorted_wrt_append)
    then show ?case using Cons.IH [of "m @ [x]"] Cons.prems by (simp add: case_prod_beta)
  qed simp
  from this [of "[]"] show "sorted_wrt (<) (map fst xs) \<Longrightarrow> bt_of_list xs = xs"
    by (simp add: bt_of_list_def)
qed

text \<open>The reports that \<open>complete_hand\<close> accepts.\<close>

definition report_ok :: "hand_start \<Rightarrow> (seat_id \<times> u32) list \<Rightarrow> bool" where
  "report_ok start rep \<longleftrightarrow> distinct (map fst rep) \<and> fst ` set rep = set (hand_seats start) \<and>
     sum_list (map snd (hs_stacks start)) < u32_bound \<and>
     sum_list (map snd rep) = sum_list (map snd (hs_stacks start))"

lemma check_report_accepts:
  assumes "sorted_wrt (<) (hand_seats start)" "hs_stacks start \<noteq> []"
  shows "(\<exists>act. check_report start rep = Inr act) \<longleftrightarrow> report_ok start rep"
    and "check_report start rep = Inr act \<Longrightarrow> bt_sorted act \<and> mset act = mset rep"
proof -
  have expected: "bt_of_list (hs_stacks start) = hs_stacks start"
    using assms(1) by (intro bt_of_sorted) (simp add: hand_seats_def)
  have result: "report_ok start rep \<and> bt_sorted act \<and> mset act = mset rep" if "check_report start rep = Inr act" for act
  proof -
    have col: "collect_actual (hs_stacks start) rep [] = Inr act"
      and full: "\<forall>s\<in>fst ` set (hs_stacks start). bt_get act s \<noteq> None"
      and sums: "checked_total (map snd (hs_stacks start)) 0 = Some (sum_list (map snd (hs_stacks start)))"
        "checked_total (map snd act) 0 = Some (sum_list (map snd (hs_stacks start)))"
      using that by (auto simp: check_report_def Let_def expected checked_total_Some split: sum.splits option.splits if_splits)
    note res = collect_actual_result [OF col bt_sorted_Nil]
    have "set act = set rep" using res by (metis add_0 mset.simps(1) set_mset_mset)
    then have "fst ` set (hs_stacks start) \<subseteq> fst ` set rep"
      using full by (auto simp: bt_get_def map_of_eq_None_iff)
    moreover have "sum_list (map snd act) = sum_list (map snd rep)"
      using res by (metis add_0 mset.simps(1) mset_map sum_mset_sum_list)
    ultimately show ?thesis
      using res sums assms(2) by (auto simp: report_ok_def hand_seats_def checked_total_Some)
  qed
  show "check_report start rep = Inr act \<Longrightarrow> bt_sorted act \<and> mset act = mset rep"
    using result by blast
  have "\<exists>act. check_report start rep = Inr act" if ok: "report_ok start rep"
  proof -
    obtain act where col: "collect_actual (hs_stacks start) rep [] = Inr act"
      using collect_actual_accepts [of rep "[]" "hs_stacks start"] ok by (auto simp: report_ok_def hand_seats_def)
    note res = collect_actual_result [OF col bt_sorted_Nil]
    have same: "set act = set rep" using res by (metis add_0 mset.simps(1) set_mset_mset)
    then have full: "first_match (\<lambda>s. bt_get act s = None) (map fst (hs_stacks start)) = None"
      using ok unfolding first_match_None_iff by (auto simp: report_ok_def hand_seats_def bt_get_def map_of_eq_None_iff)
    have "sum_list (map snd act) = sum_list (map snd rep)"
      using res by (metis add_0 mset.simps(1) mset_map sum_mset_sum_list)
    then have "checked_total (map snd (hs_stacks start)) 0 = Some (sum_list (map snd (hs_stacks start)))"
      "checked_total (map snd act) 0 = Some (sum_list (map snd (hs_stacks start)))"
      using ok by (simp_all add: checked_total_Some report_ok_def)
    then show ?thesis
      unfolding check_report_def expected Let_def col by (simp add: full)
  qed
  then show "(\<exists>act. check_report start rep = Inr act) \<longleftrightarrow> report_ok start rep" using result by blast
qed

definition settled_roster_seat :: "u32 \<Rightarrow> seat_state \<Rightarrow> seat_state" where
  "settled_roster_seat k st =
     st\<lparr>ss_stack := k, ss_street_bet := 0, ss_hole_cards := [], ss_hand_participation := NotDealt\<rparr>"

definition reported :: "(seat_id \<times> u32) list \<Rightarrow> seat_id \<Rightarrow> seat_state \<Rightarrow> seat_state" where
  "reported rep s st = (case map_of rep s of None \<Rightarrow> st | Some k \<Rightarrow> settled_roster_seat k st)"

lemma reported_simps [simp]:
  "ss_player_id (reported rep s st) = ss_player_id st"
  "ss_table_participation (reported rep s st) = ss_table_participation st"
  "ss_blind_obligation (reported rep s st) = ss_blind_obligation st"
  by (simp_all add: reported_def settled_roster_seat_def split: option.splits)

lemma settle_all:
  assumes "table_ok t" "distinct (map fst es)" "\<forall>s\<in>fst ` set es. table_seat t s \<noteq> None"
  shows "\<exists>t'. for_m settle_seat es t = Some t' \<and> table_ok t' \<and> tb_size t' = tb_size t \<and>
    (\<forall>s. table_seat t' s = map_option (reported es s) (table_seat t s))"
  using assms
proof (induction es arbitrary: t)
  case Nil
  have "map_option (reported [] s) x = x" for s x
    by (cases x) (simp_all add: reported_def)
  then show ?case using Nil by simp
next
  case (Cons e es)
  obtain s k where e: "e = (s, k)" by (cases e)
  obtain t1 where t1: "table_seat_mut t s (settled_roster_seat k) = Some t1"
    using table_seat_mut_total [of t s "settled_roster_seat k"] Cons.prems(3) by (auto simp: e)
  have ok: "table_ok t1" "tb_size t1 = tb_size t"
    using table_ok_mut [OF Cons.prems(1) t1] by (simp_all add: settled_roster_seat_def)
  note read = table_seat_mut_read [OF t1]
  obtain t' where t': "for_m settle_seat es t1 = Some t'" "table_ok t'" "tb_size t' = tb_size t1"
    "\<forall>s. table_seat t' s = map_option (reported es s) (table_seat t1 s)"
  proof -
    have "distinct (map fst es)" using Cons.prems(2) by simp
    moreover have "\<forall>s\<in>fst ` set es. table_seat t1 s \<noteq> None" using Cons.prems(3) by (auto simp: e read)
    ultimately show ?thesis using Cons.IH [OF ok(1)] that by blast
  qed
  have "settle_seat e t = Some t1"
    using t1 unfolding settled_roster_seat_def [abs_def] by (simp add: settle_seat_def e)
  moreover have "map_of es s = None" using Cons.prems(2) by (simp add: e map_of_eq_None_iff)
  then have "table_seat t' x = map_option (reported (e # es) x) (table_seat t x)" for x
    using t'(4) by (cases "table_seat t x") (auto simp: read e reported_def)
  ultimately show ?case using t'(1-3) ok(2) by simp
qed

lemma map_of_mset:
  assumes "mset a = mset b" "distinct (map fst b)"
  shows "map_of a = map_of b"
proof -
  have "mset (map fst a) = mset (map fst b)" using assms(1) by (simp add: mset_map)
  then have "distinct (map fst a)" using assms(2) by (metis mset_eq_imp_distinct_iff)
  moreover have "set a = set b" by (rule mset_eq_setD [OF assms(1)])
  ultimately show ?thesis using assms(2) by (intro map_of_inject_set [THEN iffD2])
qed

lemma complete_hand_result:
  assumes "roster_ok l" "lc_active_hand l = Some start" "report_ok start rep"
  shows "\<exists>t. complete_hand l rep =
      Some (Inr (), refresh_between_hand_state (l\<lparr>lc_seats := t, lc_active_hand := None, lc_pending := []\<rparr>)) \<and>
    core_ok (l\<lparr>lc_seats := t, lc_active_hand := None, lc_pending := []\<rparr>) \<and>
    (\<forall>s. table_seat t s = Option.bind (table_seat (lc_seats l) s)
       (\<lambda>st. after_pending (lc_pending l) (reported rep s st)))"
proof -
  have core: "core_ok l" by (rule roster_core [OF assms(1)])
  then have start: "start_ok (lc_seats l) start" and tab: "table_ok (lc_seats l)"
    and pend: "bt_sorted (lc_pending l)"
    using assms(2) by (simp_all add: core_ok_def)
  have sorted: "sorted_wrt (<) (hand_seats start)" "hs_stacks start \<noteq> []"
    using start by (auto simp: start_ok_def)
  obtain act where act: "check_report start rep = Inr act"
    using check_report_accepts(1) [OF sorted] assms(3) by blast
  then have mset_act: "mset act = mset rep" using check_report_accepts(2) [OF sorted] by blast
  have dist: "distinct (map fst rep)" using assms(3) by (simp add: report_ok_def)
  have same: "map_of act = map_of rep" by (rule map_of_mset [OF mset_act dist])
  have keys: "set act = set rep" by (rule mset_eq_setD [OF mset_act])
  have "mset (map fst act) = mset (map fst rep)" using mset_act by (simp add: mset_map)
  then have "distinct (map fst act)" using dist by (metis mset_eq_imp_distinct_iff)
  moreover have "\<forall>s\<in>fst ` set act. table_seat (lc_seats l) s \<noteq> None"
  proof
    fix s assume "s \<in> fst ` set act"
    then have "s \<in> set (hand_seats start)" using assms(3) by (simp add: keys report_ok_def)
    then obtain k where "(s, k) \<in> set (hs_stacks start)" by (auto simp: hand_seats_def)
    then show "table_seat (lc_seats l) s \<noteq> None" using start by (auto simp: start_ok_def)
  qed
  ultimately obtain t1 where t1: "for_m settle_seat act (lc_seats l) = Some t1" "table_ok t1"
    "tb_size t1 = tb_size (lc_seats l)"
    "\<forall>s. table_seat t1 s = map_option (reported act s) (table_seat (lc_seats l) s)"
    using settle_all [OF tab] by blast
  let ?l1 = "l\<lparr>lc_seats := t1, lc_active_hand := None, lc_pending := []\<rparr>"
  have idle: "seats_ok t1 None"
  proof -
    have ok: "seats_ok (lc_seats l) (Some start)" using core assms(2) by (simp add: core_ok_def)
    have "ss_table_participation st' \<noteq> Leaving \<and> seat_idle st'" if s': "table_seat t1 s = Some st'" for s st'
    proof -
      obtain st where st: "table_seat (lc_seats l) s = Some st" "st' = reported act s st"
        using s' t1(4) by auto
      show ?thesis
      proof (cases "map_of act s")
        case None
        then have "s \<notin> fst ` set act" by (simp add: map_of_eq_None_iff)
        then have "s \<notin> set (hand_seats start)" using assms(3) keys by (simp add: report_ok_def)
        then show ?thesis using ok st None by (simp add: seats_ok_def dealt_in_def reported_def)
      next
        case (Some k)
        then show ?thesis using ok st by (simp add: seats_ok_def reported_def settled_roster_seat_def seat_idle_def)
      qed
    qed
    then show ?thesis by (simp add: seats_ok_def)
  qed
  have "reservations_ok t1 (lc_reservations l)"
  proof (rule reservations_ok_fewer [OF _ t1(3)])
    show "reservations_ok (lc_seats l) (lc_reservations l)" using core by (simp add: core_ok_def)
  qed (use t1(4) in auto)
  then have core1: "core_ok ?l1" using core idle t1(2,3) by (simp add: core_ok_def)
  moreover have "distinct (map fst (lc_pending l))" using bt.distinct_keys [OF pend] .
  ultimately obtain t where t: "for_m (\<lambda>(p, tr) l. apply_transition l p tr) (lc_pending l) ?l1 = Some (?l1\<lparr>lc_seats := t\<rparr>)"
    "core_ok (?l1\<lparr>lc_seats := t\<rparr>)" "\<forall>s. table_seat t s = Option.bind (table_seat t1 s) (after_pending (lc_pending l))"
    using apply_all_transitions [of ?l1 "lc_pending l"] by auto
  have "apply_pending (l\<lparr>lc_seats := t1, lc_active_hand := None\<rparr>) = Some (?l1\<lparr>lc_seats := t\<rparr>)"
    using t(1) by (simp add: apply_pending_def)
  then have "complete_hand l rep = Some (Inr (), refresh_between_hand_state (?l1\<lparr>lc_seats := t\<rparr>))"
    by (simp add: complete_hand_def assms(2) act t1(1))
  moreover have "table_seat t s = Option.bind (table_seat (lc_seats l) s)
       (\<lambda>st. after_pending (lc_pending l) (reported rep s st))" for s
    using t(3) t1(4) by (cases "table_seat (lc_seats l) s") (simp_all add: reported_def same)
  moreover have "?l1\<lparr>lc_seats := t\<rparr> = l\<lparr>lc_seats := t, lc_active_hand := None, lc_pending := []\<rparr>" by simp
  ultimately show ?thesis using t(2) by metis
qed

lemma complete_hand_rejects:
  assumes "roster_ok l" "lc_active_hand l = Some start" "\<not> report_ok start rep"
  shows "\<exists>e. complete_hand l rep = Some (Inl e, l)"
proof -
  have "sorted_wrt (<) (hand_seats start)" "hs_stacks start \<noteq> []"
    using assms(1,2) by (auto simp: roster_ok_def core_ok_def start_ok_def)
  then obtain e where "check_report start rep = Inl e"
    using check_report_accepts(1) [of start rep] assms(3) by (cases "check_report start rep") auto
  then show ?thesis using assms(2) by (simp add: complete_hand_def)
qed

lemma complete_hand_ok:
  assumes "roster_ok l"
  shows "\<exists>r l'. complete_hand l rep = Some (r, l') \<and> roster_ok l'"
proof (cases "lc_active_hand l")
  case None
  then show ?thesis using assms by (simp add: complete_hand_def)
next
  case (Some start)
  then have "lc_state l = Running"
    using assms by (cases "lc_state l") (auto simp: roster_ok_def state_ok_def)
  then show ?thesis
    using complete_hand_result [OF assms Some, of rep] complete_hand_rejects [OF assms Some, of rep] assms
      refresh_ok by (cases "report_ok start rep") fastforce+
qed

end
