(* ===== verification/Lifecycle_Start.thy ===== *)
theory Lifecycle_Start
  imports Lifecycle_Hands
begin

text \<open>
  \<open>begin_hand\<close>: the promotion of a waiting player who would be the big blind, the choice of the button,
  the positions and the forced posts, none of which panics; and the invariant of the roster over
  every operation.
\<close>

lemma two_others: "distinct xs \<Longrightarrow> 2 \<le> length xs \<Longrightarrow> \<exists>x\<in>set xs. x \<noteq> y"
proof (rule ccontr)
  assume "distinct xs" "2 \<le> length xs" "\<not> (\<exists>x\<in>set xs. x \<noteq> y)"
  then have "set xs \<subseteq> {y}" by blast
  then have "card (set xs) \<le> 1" using card_mono [of "{y}" "set xs"] by simp
  then show False using \<open>distinct xs\<close> \<open>2 \<le> length xs\<close> by (simp add: distinct_card)
qed

lemma next_of_two:
  assumes "distinct xs" "2 \<le> length xs" "\<forall>x\<in>set xs. x < n \<and> P x" "a < n"
  shows "\<exists>b. next_eligible n a P = Some b \<and> b < n \<and> P b"
proof -
  obtain x where "x \<in> set xs" "x \<noteq> a" using two_others [OF assms(1,2)] by blast
  then show ?thesis using assms(3,4) by (intro next_eligible_finds) auto
qed

lemma first_of_table: "x < n \<Longrightarrow> P x \<Longrightarrow> \<exists>b. first_match P (table_size_seats n) = Some b \<and> b < n \<and> P b"
  using first_match_exists [of "table_size_seats n" P] first_match_SomeD [of P "table_size_seats n"]
  by (force simp: table_size_seats_def)

definition dealable :: "table_lifecycle \<Rightarrow> seat_id list" where
  "dealable l = seats_with (lc_seats l) eligible_for_next_hand"

lemma core_seat_bound: "core_ok l \<Longrightarrow> table_seat (lc_seats l) s = Some st \<Longrightarrow> s < lc_table_size l"
  by (auto simp: core_ok_def table_ok_def dest: table_seat_bound)

lemma satisfies_bound: "core_ok l \<Longrightarrow> seat_satisfies (lc_seats l) P s \<Longrightarrow> s < lc_table_size l"
  by (auto simp: seat_satisfies_def dest: core_seat_bound split: option.splits)

lemma dealable_members: "core_ok l \<Longrightarrow> \<forall>s\<in>set (dealable l). s < lc_table_size l \<and> seat_satisfies (lc_seats l) eligible_for_next_hand s"
  by (auto simp: dealable_def dest: satisfies_bound)

lemma core_size: "core_ok l \<Longrightarrow> tb_size (lc_seats l) = lc_table_size l"
  by (simp add: core_ok_def)

lemma next_for_hand_returns:
  assumes "core_ok l" "2 \<le> length (dealable l)" "a < lc_table_size l"
  shows "\<exists>b. next_for_hand (lc_seats l) a = Some b \<and> b \<in> set (dealable l)"
  using next_of_two [OF _ assms(2) dealable_members [OF assms(1)] assms(3)]
  by (auto simp: next_for_hand_def core_size [OF assms(1)] dealable_def)

lemma next_button_returns:
  assumes "core_ok l" "2 \<le> length (dealable l)"
  shows "\<exists>b. next_button l = Some b \<and> b \<in> set (dealable l)"
proof (cases "lc_last_button l")
  case None
  obtain s where "s \<in> set (dealable l)" using two_others [of "dealable l" undefined] assms(2)
    by (auto simp: dealable_def)
  then have "s < lc_table_size l" "seat_satisfies (lc_seats l) eligible_for_next_hand s"
    using dealable_members [OF assms(1)] by blast+
  from first_of_table [where P = "seat_satisfies (lc_seats l) eligible_for_next_hand", OF this]
  show ?thesis by (auto simp: next_button_def None dealable_def)
next
  case (Some previous)
  then have "previous < lc_table_size l" using assms(1) by (simp add: core_ok_def)
  from next_for_hand_returns [OF assms this] show ?thesis by (simp add: next_button_def Some)
qed

text \<open>The positions of a hand, in terms of the next dealable seat.\<close>

lemma table_positions_returns:
  assumes "core_ok l" "2 \<le> length (dealable l)" "button \<in> set (dealable l)"
  shows "\<exists>pos. table_positions (lc_seats l) button = Some (Inr pos) \<and> hp_button pos = button \<and>
    (if length (dealable l) = 2 then hp_small_blind pos = button \<and> next_for_hand (lc_seats l) button = Some (hp_big_blind pos)
     else next_for_hand (lc_seats l) button = Some (hp_small_blind pos) \<and>
       next_for_hand (lc_seats l) (hp_small_blind pos) = Some (hp_big_blind pos))"
proof -
  have count: "length (filter (\<lambda>(s, st). eligible_for_next_hand st) (table_occupied (lc_seats l))) = length (dealable l)"
    by (simp add: dealable_def seats_with_def)
  have ok: "seat_satisfies (lc_seats l) eligible_for_next_hand button"
    using assms(3) by (simp add: dealable_def)
  note bound = dealable_members [OF assms(1)]
  obtain b1 where b1: "next_for_hand (lc_seats l) button = Some b1" "b1 \<in> set (dealable l)"
    using next_for_hand_returns [OF assms(1,2)] assms(3) bound by blast
  obtain b2 where b2: "next_for_hand (lc_seats l) b1 = Some b2" "b2 \<in> set (dealable l)"
    using next_for_hand_returns [OF assms(1,2)] b1(2) bound by blast
  obtain b3 where b3: "next_for_hand (lc_seats l) b2 = Some b3"
    using next_for_hand_returns [OF assms(1,2)] b2(2) bound by blast
  show ?thesis
    using ok assms(2) b1(1) b2(1) b3 unfolding table_positions_def Let_def count by simp
qed

subsection \<open>The waiting player who is the big blind\<close>

lemma big_blind_with_returns:
  assumes "core_ok l" "distinct ps" "2 \<le> length ps" "\<forall>s\<in>set ps. s < lc_table_size l"
  shows "\<exists>bb. big_blind_with l ps = Some (Some bb)"
proof -
  let ?n = "lc_table_size l" and ?in = "\<lambda>s. s \<in> set ps"
  have all: "\<forall>s\<in>set ps. s < ?n \<and> ?in s" using assms(4) by blast
  note nxt = next_of_two [OF assms(2,3) all]
  obtain b where b: "(case lc_last_button l of Some previous \<Rightarrow> next_eligible ?n previous ?in
      | None \<Rightarrow> first_match ?in (table_size_seats ?n)) = Some b" "b < ?n"
  proof (cases "lc_last_button l")
    case None
    obtain s where "s \<in> set ps" using two_others [OF assms(2,3)] by blast
    then show ?thesis using first_of_table [of s ?n ?in] assms(4) that None by auto
  next
    case (Some previous)
    then have "previous < ?n" using assms(1) by (simp add: core_ok_def)
    then show ?thesis using nxt that Some by fastforce
  qed
  obtain f where f: "next_eligible ?n b ?in = Some f" "f < ?n" using nxt [OF b(2)] by blast
  obtain g where g: "next_eligible ?n f ?in = Some g" using nxt [OF f(2)] by blast
  show ?thesis
    by (cases "length ps = 2") (simp_all add: big_blind_with_def b(1) f(1) g)
qed

definition prospective_seats :: "table_lifecycle \<Rightarrow> seat_id \<Rightarrow> seat_id list" where
  "prospective_seats l c = map fst (filter (\<lambda>(s, st). eligible_for_next_hand st \<or> s = c) (table_occupied (lc_seats l)))"

definition promote_seat :: "seat_state \<Rightarrow> seat_state" where
  "promote_seat st = st\<lparr>ss_table_participation := Active, ss_blind_obligation := Clear\<rparr>"

definition promoted :: "table_lifecycle \<Rightarrow> table_lifecycle \<Rightarrow> bool" where
  "promoted l l' \<longleftrightarrow> l' = l \<or> (\<exists>c t. seat_satisfies (lc_seats l) (\<lambda>st. ss_table_participation st = WaitingForBlind) c \<and>
     2 \<le> length (prospective_seats l c) \<and> big_blind_with l (prospective_seats l c) = Some (Some c) \<and>
     table_seat_mut (lc_seats l) c promote_seat = Some t \<and> l' = l\<lparr>lc_seats := t\<rparr>)"

lemma prospective_distinct: "distinct (prospective_seats l c)"
  unfolding prospective_seats_def using occupied_distinct [of "lc_seats l"]
  by (metis distinct_map_filter)

lemma prospective_bound: "core_ok l \<Longrightarrow> \<forall>s\<in>set (prospective_seats l c). s < lc_table_size l"
  by (auto simp: prospective_seats_def dest: core_seat_bound)

lemma promote_candidates_returns:
  assumes "core_ok l" "\<forall>c\<in>set cs. seat_satisfies (lc_seats l) (\<lambda>st. ss_table_participation st = WaitingForBlind) c"
  shows "\<exists>l'. promote_candidates cs l = Some l' \<and> promoted l l'"
  using assms(2)
proof (induction cs)
  case (Cons c cs)
  have eq: "promote_candidates (c # cs) l =
    (if length (prospective_seats l c) < 2 then promote_candidates cs l
     else do {
       big_blind \<leftarrow> big_blind_with l (prospective_seats l c);
       if big_blind = Some c then do {
         seats \<leftarrow> table_seat_mut (lc_seats l) c promote_seat; Some (l\<lparr>lc_seats := seats\<rparr>) }
       else promote_candidates cs l })"
    unfolding promote_candidates.simps prospective_seats_def Let_def promote_seat_def [abs_def] by (rule refl)
  show ?case
  proof (cases "length (prospective_seats l c) < 2")
    case False
    then obtain bb where bb: "big_blind_with l (prospective_seats l c) = Some (Some bb)"
      using big_blind_with_returns [OF assms(1) prospective_distinct _ prospective_bound [OF assms(1)], of c] by auto
    have "table_seat (lc_seats l) c \<noteq> None"
      using Cons.prems by (auto simp: seat_satisfies_def split: option.splits)
    then obtain t where t: "table_seat_mut (lc_seats l) c promote_seat = Some t"
      using table_seat_mut_total by blast
    have "bb = c \<Longrightarrow> promoted l (l\<lparr>lc_seats := t\<rparr>)"
      using False bb t Cons.prems unfolding promoted_def by force
    then show ?thesis using eq False bb t Cons by simp
  qed (use eq Cons in simp)
qed (simp add: promoted_def)

lemma promote_returns:
  assumes "core_ok l"
  shows "\<exists>l'. promote_natural_big_blind_waiter l = Some l' \<and> promoted l l'"
  unfolding promote_natural_big_blind_waiter_def
  by (rule promote_candidates_returns [OF assms]) (auto simp: seat_satisfies_def)

lemma promoted_core_ok: "core_ok l \<Longrightarrow> promoted l l' \<Longrightarrow> core_ok l'"
  by (auto simp: promoted_def promote_seat_def keeps_hand_def intro!: core_ok_mut)

subsection \<open>The forced posts\<close>

definition dealt_seat :: "seat_state \<Rightarrow> seat_state" where
  "dealt_seat st = st\<lparr>ss_blind_obligation := Clear, ss_hand_participation := Live\<rparr>"

definition owed_posts :: "hand_positions \<Rightarrow> table_seats \<Rightarrow> seat_id \<Rightarrow> forced_post list" where
  "owed_posts pos t s = (case table_seat t s of None \<Rightarrow> [] | Some st \<Rightarrow> posts_for pos s (ss_blind_obligation st))"

lemma collect_posts_returns:
  assumes "table_ok t" "distinct ss" "\<forall>s\<in>set ss. table_seat t s \<noteq> None"
  shows "\<exists>t'. for_m (collect_posts pos) ss (t, posts) = Some (t', posts @ concat (map (owed_posts pos t) ss)) \<and>
    table_ok t' \<and> tb_size t' = tb_size t \<and>
    (\<forall>s. table_seat t' s = (if s \<in> set ss then map_option dealt_seat (table_seat t s) else table_seat t s))"
  using assms
proof (induction ss arbitrary: t posts)
  case (Cons s ss)
  obtain st where st: "table_seat t s = Some st" using Cons.prems(3) by auto
  then obtain t1 where t1: "table_seat_mut t s dealt_seat = Some t1"
    using table_seat_mut_total [of t s dealt_seat] by auto
  have ok: "table_ok t1" "tb_size t1 = tb_size t"
    using table_ok_mut [OF Cons.prems(1) t1] by (simp_all add: dealt_seat_def)
  note read = table_seat_mut_read [OF t1]
  have "\<forall>s\<in>set ss. table_seat t1 s \<noteq> None" using Cons.prems(2,3) by (auto simp: read)
  then obtain t' where t': "for_m (collect_posts pos) ss (t1, posts @ owed_posts pos t s)
      = Some (t', (posts @ owed_posts pos t s) @ concat (map (owed_posts pos t1) ss))"
    "table_ok t'" "tb_size t' = tb_size t1"
    "\<forall>s. table_seat t' s = (if s \<in> set ss then map_option dealt_seat (table_seat t1 s) else table_seat t1 s)"
    using Cons.IH [OF ok(1)] Cons.prems(2) by fastforce
  have "collect_posts pos s (t, posts) = Some (t1, posts @ owed_posts pos t s)"
    using t1 st unfolding dealt_seat_def [abs_def] by (simp add: collect_posts_def owed_posts_def)
  moreover have owed: "map (owed_posts pos t1) ss = map (owed_posts pos t) ss"
    using Cons.prems(2) by (intro map_cong) (auto simp: owed_posts_def read)
  ultimately show ?case
    using t'(2-4) t'(1) [unfolded owed] ok(2) Cons.prems(2) by (intro exI [of _ t']) (auto simp: read)
qed simp

lemma posts_for_seat: "p \<in> set (posts_for pos s owed) \<Longrightarrow> fp_seat p = s"
  by (cases owed) (auto simp: posts_for_def Let_def split: if_splits)

lemma owed_posts_seats: "fp_seat ` set (concat (map (owed_posts pos t) ss)) \<subseteq> set ss"
  by (auto simp: owed_posts_def split: option.splits dest: posts_for_seat)

subsection \<open>Beginning a hand\<close>

definition dealable_stacks :: "table_lifecycle \<Rightarrow> (seat_id \<times> u32) list" where
  "dealable_stacks l = map (\<lambda>(s, st). (s, ss_stack st))
     (filter (\<lambda>(s, st). eligible_for_next_hand st) (table_occupied (lc_seats l)))"

lemma dealable_stacks_keys: "map fst (dealable_stacks l) = dealable l"
  by (simp add: dealable_stacks_def dealable_def seats_with_def comp_def case_prod_beta)

lemma dealable_stacks_member:
  "(s, k) \<in> set (dealable_stacks l) \<longleftrightarrow>
     (\<exists>st. table_seat (lc_seats l) s = Some st \<and> eligible_for_next_hand st \<and> k = ss_stack st)"
  by (force simp: dealable_stacks_def)

text \<open>The start of a hand from the roster \<open>l1\<close> left by the promotion.\<close>

definition started_from :: "table_lifecycle \<Rightarrow> hand_positions \<Rightarrow> hand_start \<Rightarrow> table_lifecycle \<Rightarrow> bool" where
  "started_from l1 pos start l' \<longleftrightarrow>
     next_button l1 = Some (hs_button start) \<and> hs_number start = lc_next_hand_number l1 \<and>
     hs_stacks start = dealable_stacks l1 \<and>
     table_positions (lc_seats l1) (hs_button start) = Some (Inr pos) \<and>
     hs_forced_posts start = concat (map (owed_posts pos (lc_seats l1)) (dealable l1)) \<and>
     (\<forall>s. table_seat (lc_seats l') s = (if s \<in> set (dealable l1) then map_option dealt_seat (table_seat (lc_seats l1) s)
        else table_seat (lc_seats l1) s)) \<and>
     lc_active_hand l' = Some start"

lemma begin_hand_result:
  assumes "roster_ok l" "lc_state l \<noteq> Closed" "lc_active_hand l = None"
  shows "\<exists>l1. promote_natural_big_blind_waiter l = Some l1 \<and> promoted l l1 \<and> core_ok l1 \<and>
    (if length (dealable l1) < 2
     then begin_hand l = Some (Inl (TooFewEligible (length (dealable l1))),
       l1\<lparr>lc_state := (if occupied_count (lc_seats l1) = 0 then Waiting else Paused)\<rparr>)
     else \<exists>start pos l'. begin_hand l = Some (Inr start, l') \<and> started_from l1 pos start l' \<and> roster_ok l')"
proof -
  obtain l1 where l1: "promote_natural_big_blind_waiter l = Some l1" "promoted l l1"
    using promote_returns [OF roster_core [OF assms(1)]] by blast
  have core: "core_ok l1" by (rule promoted_core_ok [OF roster_core [OF assms(1)] l1(2)])
  have state: "lc_active_hand l1 = None" using l1(2) assms(3) by (auto simp: promoted_def)
  have count: "eligible_count l1 = length (dealable l1)" by (simp add: eligible_count_alt dealable_def)
  show ?thesis
  proof (cases "length (dealable l1) < 2")
    case True
    then have "begin_hand l = Some (Inl (TooFewEligible (length (dealable l1))),
       l1\<lparr>lc_state := (if occupied_count (lc_seats l1) = 0 then Waiting else Paused)\<rparr>)"
      using assms(2,3) l1(1) count by (simp add: begin_hand_def hand_active_def)
    then show ?thesis using l1 core True by simp
  next
    case two: False
    obtain b where b: "next_button l1 = Some b" "b \<in> set (dealable l1)"
      using next_button_returns [OF core] two by auto
    obtain pos where pos: "table_positions (lc_seats l1) b = Some (Inr pos)"
      using table_positions_returns [OF core _ b(2)] two by auto
    let ?posts = "concat (map (owed_posts pos (lc_seats l1)) (dealable l1))"
    have seated: "\<forall>s\<in>set (dealable l1). table_seat (lc_seats l1) s \<noteq> None"
      by (auto simp: dealable_def seat_satisfies_def split: option.splits)
    have tab: "table_ok (lc_seats l1)" using core by (simp add: core_ok_def)
    obtain t where t: "for_m (collect_posts pos) (dealable l1) (lc_seats l1, []) = Some (t, ?posts)"
      "table_ok t" "tb_size t = tb_size (lc_seats l1)"
      "\<forall>s. table_seat t s = (if s \<in> set (dealable l1) then map_option dealt_seat (table_seat (lc_seats l1) s)
        else table_seat (lc_seats l1) s)"
      using collect_posts_returns [OF tab _ seated, of pos "[]"] by (auto simp: dealable_def)
    define start where "start = \<lparr>hs_number = lc_next_hand_number l1, hs_button = b,
      hs_stacks = dealable_stacks l1, hs_forced_posts = ?posts\<rparr>"
    define l' where "l' = l1\<lparr>lc_seats := t, lc_next_hand_number := u64_add (lc_next_hand_number l1) 1,
      lc_last_button := Some b, lc_active_hand := Some start, lc_state := Running\<rparr>"
    have "begin_hand l = Some (Inr start, l')"
      using assms(2,3) two l1(1) b(1) pos t(1)
      by (simp add: begin_hand_def Let_def hand_active_def count dealable_stacks_def [symmetric] dealable_stacks_keys
          start_def l'_def)
    moreover have "started_from l1 pos start l'"
      using b(1) pos t(4) by (simp add: started_from_def start_def l'_def)
    moreover have "roster_ok l'"
    proof -
      have keys: "hand_seats start = dealable l1" by (simp add: hand_seats_def start_def dealable_stacks_keys)
      have "reservations_ok t (lc_reservations l1)"
      proof (rule reservations_ok_fewer [OF _ t(3)])
        show "reservations_ok (lc_seats l1) (lc_reservations l1)" using core by (simp add: core_ok_def)
      qed (auto simp: t(4) dealt_seat_def split: if_splits)
      moreover have "seats_ok t (Some start)"
        using core state t(4) keys by (auto simp: core_ok_def seats_ok_def dealt_in_def dealt_seat_def split: if_splits)
      moreover have "start_ok t start"
      proof -
        have "0 < k \<and> (\<exists>st. table_seat t s = Some st \<and> ss_stack st = k)" if "(s, k) \<in> set (hs_stacks start)" for s k
          using that t(4) by (auto simp: start_def dealable_stacks_member eligible_for_next_hand_def dealt_seat_def)
        moreover have "length (hs_stacks start) = length (dealable l1)"
          by (simp add: start_def flip: dealable_stacks_keys)
        ultimately show ?thesis
          using two b(2) owed_posts_seats [of pos "lc_seats l1" "dealable l1"] seats_with_sorted
          unfolding start_ok_def keys by (auto simp: start_def dealable_def)
      qed
      ultimately show ?thesis
        using core t(2,3) b(2) dealable_members [OF core]
        by (auto simp: roster_ok_def core_ok_def state_ok_def l'_def start_def)
    qed
    ultimately show ?thesis using l1 core two by auto
  qed
qed

lemma begin_hand_ok:
  assumes "roster_ok l"
  shows "\<exists>r l'. begin_hand l = Some (r, l') \<and> roster_ok l'"
proof (cases "lc_state l = Closed \<or> hand_active l")
  case True
  then show ?thesis using assms by (auto simp: begin_hand_def)
next
  case False
  then have open_now: "lc_state l \<noteq> Closed" "lc_active_hand l = None" by (simp_all add: hand_active_def)
  obtain l1 where l1: "promoted l l1" "core_ok l1"
    "if length (dealable l1) < 2
     then begin_hand l = Some (Inl (TooFewEligible (length (dealable l1))),
       l1\<lparr>lc_state := (if occupied_count (lc_seats l1) = 0 then Waiting else Paused)\<rparr>)
     else \<exists>start pos l'. begin_hand l = Some (Inr start, l') \<and> started_from l1 pos start l' \<and> roster_ok l'"
    using begin_hand_result [OF assms open_now] by blast
  show ?thesis
  proof (cases "length (dealable l1) < 2")
    case True
    have "lc_active_hand l1 = None" using l1(1) open_now(2) by (auto simp: promoted_def)
    then have "roster_ok (l1\<lparr>lc_state := (if occupied_count (lc_seats l1) = 0 then Waiting else Paused)\<rparr>)"
      using l1(2) True
      by (simp add: roster_ok_def core_ok_def state_ok_def eligible_count_alt dealable_def)
    then show ?thesis using l1(3) True by auto
  qed (use l1(3) in auto)
qed

end
