(* ===== verification/Roster.thy ===== *)
theory Roster
  imports Lifecycle_Start
begin

text \<open>
  The roster as a transition system: every public operation of \<open>TableLifecycle\<close> is a constructor of
  \<open>roster_op\<close>, \<open>roster_step\<close> runs one, and \<open>roster_reachable\<close> are the states of a table that was created
  or restored from a checkpoint. Then the checkpoint round trip and who is dealt in where.
\<close>

datatype roster_op = OpReserve player_id seat_id | OpCancel player_id seat_id
  | OpOccupy player_id seat_id u32 | OpJoin player_id seat_id u32
  | OpJoinWithEntry player_id seat_id u32 ring_entry_choice
  | OpMissedBlind player_id missed_blind | OpReturnWithEntry player_id ring_entry_choice
  | OpConnection player_id connection_state
  | OpSitOut player_id | OpReturn player_id | OpLeave player_id
  | OpBeginHand | OpCompleteHand "(seat_id \<times> u32) list" | OpClose

fun run_op :: "roster_op \<Rightarrow> table_lifecycle \<Rightarrow> table_lifecycle option" where
  "run_op (OpReserve p s) l = Some (snd (reserve l p s))"
| "run_op (OpCancel p s) l = Some (snd (cancel_reservation l p s))"
| "run_op (OpOccupy p s k) l = Some (snd (occupy l p s k))"
| "run_op (OpJoin p s k) l = Some (snd (join l p s k))"
| "run_op (OpJoinWithEntry p s k entry) l = map_option snd (join_with_entry l p s k entry)"
| "run_op (OpMissedBlind p m) l = map_option snd (record_missed_blind l p m)"
| "run_op (OpReturnWithEntry p entry) l = map_option snd (request_return_with_entry l p entry)"
| "run_op (OpConnection p c) l = map_option snd (set_connection l p c)"
| "run_op (OpSitOut p) l = map_option snd (request_sit_out l p)"
| "run_op (OpReturn p) l = map_option snd (request_return l p)"
| "run_op (OpLeave p) l = map_option snd (request_leave l p)"
| "run_op OpBeginHand l = map_option snd (begin_hand l)"
| "run_op (OpCompleteHand rep) l = map_option snd (complete_hand l rep)"
| "run_op OpClose l = Some (snd (lifecycle_close l))"

inductive roster_step :: "table_lifecycle \<Rightarrow> table_lifecycle \<Rightarrow> bool" where
  step: "run_op op l = Some l' \<Longrightarrow> roster_step l l'"

inductive_cases roster_stepE: "roster_step l l'"

inductive roster_reachable :: "table_lifecycle \<Rightarrow> bool" where
  created: "valid_size n \<Longrightarrow> roster_reachable (lifecycle_new n)"
| restored: "valid_size (bh_table_size c) \<Longrightarrow> restore_between_hand c = Inr l \<Longrightarrow> roster_reachable l"
| stepped: "roster_reachable l \<Longrightarrow> roster_step l l' \<Longrightarrow> roster_reachable l'"

lemma map_snd_result: "\<exists>r l'. x = Some (r, l') \<and> roster_ok l' \<Longrightarrow> \<exists>l'. map_option snd x = Some l' \<and> roster_ok l'"
  by auto

lemma run_op_ok:
  assumes "roster_ok l"
  shows "\<exists>l'. run_op op l = Some l' \<and> roster_ok l'"
proof (cases op)
  case (OpReserve p s)
  then show ?thesis using reserve_ok [OF assms surjective_pairing] by simp
next
  case (OpCancel p s)
  then show ?thesis using cancel_reservation_ok [OF assms surjective_pairing] by simp
next
  case (OpOccupy p s k)
  then show ?thesis using occupy_ok [OF assms surjective_pairing] by simp
next
  case (OpJoin p s k)
  then show ?thesis using join_ok [OF assms surjective_pairing] by simp
next
  case OpClose
  then show ?thesis using close_ok [OF assms surjective_pairing] by simp
qed (use assms in \<open>simp_all only: run_op.simps request_sit_out_def request_return_def request_leave_def
      map_snd_result join_with_entry_ok record_missed_blind_ok request_return_with_entry_ok
      set_connection_ok request_transition_ok begin_hand_ok complete_hand_ok\<close>)

subsection \<open>Restoring a checkpoint\<close>

definition restored_seat :: "between_hand_seat \<Rightarrow> seat_state" where
  "restored_seat r = (seat_state_active (bs_player r) (bs_stack r))\<lparr>ss_connection := Disconnected,
     ss_table_participation := bs_participation r, ss_blind_obligation := bs_blind_obligation r\<rparr>"

lemma restored_seat_idle: "seat_idle (restored_seat r)" "ss_player_id (restored_seat r) = bs_player r"
  "ss_table_participation (restored_seat r) = bs_participation r"
  by (simp_all add: restored_seat_def seat_state_active_def seat_idle_def)

lemma restore_seats_Cons:
  "restore_seats n (r # rs) t =
    (if \<not> table_contains n (bs_seat r) \<or> bs_participation r = Leaving then Inl InvalidCheckpoint
     else case table_occupy t (bs_seat r) (restored_seat r) of
       Inl e \<Rightarrow> Inl (map_seat_error e) | Inr t' \<Rightarrow> restore_seats n rs t')"
  by (simp add: restored_seat_def)

lemma restore_seats_ok:
  assumes "restore_seats n rs t = Inr t'" "table_ok t" "seats_ok t None"
  shows "table_ok t' \<and> tb_size t' = tb_size t \<and> seats_ok t' None"
  using assms
proof (induction rs arbitrary: t)
  case (Cons r rs)
  obtain t1 where t1: "table_occupy t (bs_seat r) (restored_seat r) = Inr t1"
    and part: "bs_participation r \<noteq> Leaving" and rest: "restore_seats n rs t1 = Inr t'"
    using Cons.prems(1) unfolding restore_seats_Cons by (auto split: if_splits sum.splits)
  have ok1: "table_ok t1" "tb_size t1 = tb_size t" using table_ok_occupy [OF Cons.prems(2) t1] by simp_all
  have "seats_ok t1 None"
    using Cons.prems(3) part restored_seat_idle [of r]
    by (auto simp: seats_ok_def table_seat_occupy [OF t1] dealt_in_def split: if_splits)
  then show ?case using Cons.IH [OF rest ok1(1)] ok1(2) by simp
qed simp

lemma restore_ok:
  assumes "restore_between_hand c = Inr l" "valid_size (bh_table_size c)"
  shows "roster_ok l"
proof -
  obtain t where t: "restore_seats (bh_table_size c) (bh_seats c) (table_seats_new (bh_table_size c)) = Inr t"
    and l: "l = \<lparr>lc_table_size = bh_table_size c, lc_seats = t, lc_reservations = [],
             lc_pending = [], lc_state = bh_state c, lc_active_hand = None,
             lc_last_button = bh_last_button c, lc_next_hand_number = bh_next_hand_number c\<rparr>"
    and valid: "bh_state c \<noteq> Closed" "\<forall>s. bh_last_button c = Some s \<longrightarrow> s < bh_table_size c"
      "bh_state c = Running \<longrightarrow> 2 \<le> eligible_count l" "bh_state c = Paused \<longrightarrow> 0 < occupied_count t \<and> eligible_count l < 2"
    using assms(1) by (auto simp: restore_between_hand_def Let_def table_contains_def
        split: if_splits sum.splits option.splits table_run_state.splits)
  have "table_ok t \<and> tb_size t = tb_size (table_seats_new (bh_table_size c)) \<and> seats_ok t None"
    by (rule restore_seats_ok [OF t table_ok_new]) (simp add: seats_ok_def)
  then have "core_ok l"
    using assms(2) valid(2) by (simp add: core_ok_def l reservations_ok_def) (simp add: table_seats_new_def)
  moreover have "state_ok l"
    using valid by (cases "bh_state c") (simp_all add: state_ok_def l)
  ultimately show ?thesis by (simp add: roster_ok_def)
qed

lemma reachable_ok: "roster_reachable l \<Longrightarrow> roster_ok l"
proof (induction rule: roster_reachable.induct)
  case (stepped l l')
  then show ?case using run_op_ok by (metis option.inject roster_stepE)
qed (simp_all add: lifecycle_new_ok restore_ok)

subsection \<open>The checkpoint round trip\<close>

definition disconnected :: "table_seats \<Rightarrow> table_seats" where
  "disconnected t = t\<lparr>tb_seats := map (map_option (\<lambda>st. st\<lparr>ss_connection := Disconnected\<rparr>)) (tb_seats t)\<rparr>"

lemma table_seat_disconnected:
  "table_seat (disconnected t) s = map_option (\<lambda>st. st\<lparr>ss_connection := Disconnected\<rparr>) (table_seat t s)"
  by (simp add: table_seat_def disconnected_def)

lemma table_eqI:
  assumes "tb_size t = tb_size t'" "length (tb_seats t) = length (tb_seats t')" "\<And>s. table_seat t s = table_seat t' s"
  shows "t = t'"
proof -
  have "tb_seats t = tb_seats t'"
  proof (rule nth_equalityI [OF assms(2)])
    fix i assume "i < length (tb_seats t)"
    then show "tb_seats t ! i = tb_seats t' ! i" using assms(2) assms(3) [of i] by (simp add: table_seat_def)
  qed
  then show ?thesis using assms(1) by simp
qed

text \<open>Reading rows back into an empty part of the table.\<close>

lemma restore_rows:
  assumes "distinct (map bs_seat rs)" "distinct (map bs_player rs)"
    and "\<forall>r\<in>set rs. bs_seat r < n \<and> bs_participation r \<noteq> Leaving \<and> table_seat t (bs_seat r) = None"
    and "\<forall>r\<in>set rs. \<forall>s st. table_seat t s = Some st \<longrightarrow> ss_player_id st \<noteq> bs_player r"
    and "length (tb_seats t) = n"
  shows "\<exists>t'. restore_seats n rs t = Inr t' \<and> tb_size t' = tb_size t \<and> length (tb_seats t') = n \<and>
    (\<forall>s. table_seat t' s = (case map_of (map (\<lambda>r. (bs_seat r, r)) rs) s of
        Some r \<Rightarrow> Some (restored_seat r) | None \<Rightarrow> table_seat t s))"
  using assms
proof (induction rs arbitrary: t)
  case (Cons r rs)
  define t1 where "t1 = t\<lparr>tb_seats := (tb_seats t)[bs_seat r := Some (restored_seat r)]\<rparr>"
  have occ: "table_occupy t (bs_seat r) (restored_seat r) = Inr t1"
    using Cons.prems(3-5) by (simp add: table_occupy_Inr t1_def restored_seat_idle)
  note read = table_seat_occupy [OF occ]
  have "\<exists>t'. restore_seats n rs t1 = Inr t' \<and> tb_size t' = tb_size t1 \<and> length (tb_seats t') = n \<and>
    (\<forall>s. table_seat t' s = (case map_of (map (\<lambda>r. (bs_seat r, r)) rs) s of
        Some r \<Rightarrow> Some (restored_seat r) | None \<Rightarrow> table_seat t1 s))"
  proof (rule Cons.IH)
    show "\<forall>r'\<in>set rs. bs_seat r' < n \<and> bs_participation r' \<noteq> Leaving \<and> table_seat t1 (bs_seat r') = None"
    proof
      fix r' assume "r' \<in> set rs"
      moreover from this have "bs_seat r' \<noteq> bs_seat r"
        using Cons.prems(1) by (metis distinct.simps(2) image_eqI list.set_map list.simps(9))
      ultimately show "bs_seat r' < n \<and> bs_participation r' \<noteq> Leaving \<and> table_seat t1 (bs_seat r') = None"
        using Cons.prems(3) by (simp add: read)
    qed
    show "\<forall>r'\<in>set rs. \<forall>s st. table_seat t1 s = Some st \<longrightarrow> ss_player_id st \<noteq> bs_player r'"
    proof (intro ballI allI impI)
      fix r' s st
      assume "r' \<in> set rs" "table_seat t1 s = Some st"
      then show "ss_player_id st \<noteq> bs_player r'"
        using Cons.prems(2,4) by (cases "s = bs_seat r") (auto simp: read restored_seat_idle(2))
    qed
  qed (use Cons.prems in \<open>simp_all add: t1_def\<close>)
  then obtain t' where t': "restore_seats n rs t1 = Inr t'" "tb_size t' = tb_size t1" "length (tb_seats t') = n"
    "\<forall>s. table_seat t' s = (case map_of (map (\<lambda>r. (bs_seat r, r)) rs) s of
        Some r \<Rightarrow> Some (restored_seat r) | None \<Rightarrow> table_seat t1 s)"
    by blast
  have "map_of (map (\<lambda>r. (bs_seat r, r)) rs) (bs_seat r) = None"
    using Cons.prems(1) by (auto simp: map_of_eq_None_iff)
  then have "table_seat t' s = (case map_of (map (\<lambda>r. (bs_seat r, r)) (r # rs)) s of
        Some r \<Rightarrow> Some (restored_seat r) | None \<Rightarrow> table_seat t s)" for s
    using t'(4) by (cases "s = bs_seat r") (simp_all add: read split: option.split)
  moreover have "restore_seats n (r # rs) t = Inr t'"
    unfolding restore_seats_Cons using Cons.prems(3) occ t'(1) by (simp add: table_contains_def)
  moreover have "tb_size t' = tb_size t" using t'(2) by (simp add: t1_def)
  ultimately show ?case using t'(3) by blast
qed simp

definition checkpoint_row :: "seat_id \<times> seat_state \<Rightarrow> between_hand_seat" where
  "checkpoint_row = (\<lambda>(s, st). \<lparr>bs_seat = s, bs_player = ss_player_id st, bs_stack = ss_stack st,
     bs_participation = ss_table_participation st, bs_blind_obligation = ss_blind_obligation st\<rparr>)"

lemma restored_checkpoint_row:
  "seat_idle st \<Longrightarrow> restored_seat (checkpoint_row (s, st)) = st\<lparr>ss_connection := Disconnected\<rparr>"
  by (cases st) (simp add: restored_seat_def checkpoint_row_def seat_state_active_def seat_idle_def)

lemma restore_own_seats:
  assumes "core_ok l" "lc_active_hand l = None"
  shows "restore_seats (lc_table_size l) (map checkpoint_row (table_occupied (lc_seats l)))
     (table_seats_new (lc_table_size l)) = Inr (disconnected (lc_seats l))"
proof -
  let ?t = "lc_seats l" and ?n = "lc_table_size l"
  have tab: "table_ok ?t" and size: "tb_size ?t = ?n" and idle: "seats_ok ?t None"
    using assms by (simp_all add: core_ok_def)
  have len: "length (tb_seats ?t) = ?n" using tab size by (simp add: table_ok_def)
  have "distinct (map bs_seat (map checkpoint_row (table_occupied ?t)))"
    using occupied_distinct [of ?t] by (simp add: checkpoint_row_def comp_def case_prod_beta)
  moreover have "distinct (map bs_player (map checkpoint_row (table_occupied ?t)))"
  proof -
    have "distinct (table_occupied ?t)" using occupied_distinct [of ?t] by (simp add: distinct_map)
    moreover have "inj_on (\<lambda>e. ss_player_id (snd e)) (set (table_occupied ?t))"
    proof (rule inj_onI)
      fix e e' assume e: "e \<in> set (table_occupied ?t)" "e' \<in> set (table_occupied ?t)"
        "ss_player_id (snd e) = ss_player_id (snd e')"
      obtain a st a' st' where "e = (a, st)" "e' = (a', st')" by (cases e; cases e')
      then show "e = e'"
        using e tm.one_seat_each [OF tab, of a st a' st'] by simp
    qed
    ultimately show ?thesis by (simp add: distinct_map checkpoint_row_def comp_def case_prod_beta)
  qed
  moreover have "\<forall>r\<in>set (map checkpoint_row (table_occupied ?t)). bs_seat r < ?n \<and> bs_participation r \<noteq> Leaving \<and>
      table_seat (table_seats_new ?n) (bs_seat r) = None"
    using idle core_seat_bound [OF assms(1)] by (auto simp: checkpoint_row_def seats_ok_def)
  moreover have "\<forall>r\<in>set (map checkpoint_row (table_occupied ?t)). \<forall>s st.
      table_seat (table_seats_new ?n) s = Some st \<longrightarrow> ss_player_id st \<noteq> bs_player r" by simp
  moreover have new: "length (tb_seats (table_seats_new ?n)) = ?n" "tb_size (table_seats_new ?n) = ?n"
    by (simp_all add: table_seats_new_def)
  ultimately obtain t' where t': "restore_seats ?n (map checkpoint_row (table_occupied ?t)) (table_seats_new ?n) = Inr t'"
    "tb_size t' = ?n" "length (tb_seats t') = ?n"
    "\<forall>s. table_seat t' s = (case map_of (map (\<lambda>r. (bs_seat r, r)) (map checkpoint_row (table_occupied ?t))) s of
        Some r \<Rightarrow> Some (restored_seat r) | None \<Rightarrow> None)"
    using restore_rows [of "map checkpoint_row (table_occupied ?t)" ?n "table_seats_new ?n"]
    by (simp only: table_seat_new) blast
  have rows: "map (\<lambda>r. (bs_seat r, r)) (map checkpoint_row (table_occupied ?t))
      = map (\<lambda>(s, st). (s, checkpoint_row (s, st))) (table_occupied ?t)"
    by (auto simp: checkpoint_row_def)
  have "map_of (map (\<lambda>(s, st). (s, checkpoint_row (s, st))) (table_occupied ?t)) s
      = map_option (\<lambda>st. checkpoint_row (s, st)) (table_seat ?t s)" for s
  proof (cases "table_seat ?t s")
    case None
    then have "s \<notin> fst ` set (table_occupied ?t)" using occupied_keys [of ?t] by auto
    then show ?thesis using None by (force simp: map_of_eq_None_iff)
  next
    case (Some st)
    then have "(s, checkpoint_row (s, st)) \<in> set (map (\<lambda>(s, st). (s, checkpoint_row (s, st))) (table_occupied ?t))"
      using imageI [of "(s, st)" "set (table_occupied ?t)" "\<lambda>(s, st). (s, checkpoint_row (s, st))"] by simp
    moreover have "distinct (map fst (map (\<lambda>(s, st). (s, checkpoint_row (s, st))) (table_occupied ?t)))"
      using occupied_distinct [of ?t] by (simp add: comp_def case_prod_beta)
    ultimately show ?thesis using Some by (simp del: set_map)
  qed
  then have "table_seat t' s = table_seat (disconnected ?t) s" for s
    using t'(4) idle restored_checkpoint_row unfolding rows
    by (cases "table_seat ?t s") (auto simp: table_seat_disconnected seats_ok_def dealt_in_def)
  then have "t' = disconnected ?t"
    using t'(2,3) size len by (intro table_eqI) (simp_all add: disconnected_def)
  then show ?thesis using t'(1) by simp
qed

lemma disconnected_counts:
  "occupied_count (disconnected t) = occupied_count t"
  "seats_with (disconnected t) eligible_for_next_hand = seats_with t eligible_for_next_hand"
proof -
  have len: "length (tb_seats (disconnected t)) = length (tb_seats t)" by (simp add: disconnected_def)
  have same: "seat_satisfies (disconnected t) P s = seat_satisfies t P s"
    if "\<And>st. P (st\<lparr>ss_connection := Disconnected\<rparr>) = P st" for P s
    using that by (simp add: seat_satisfies_def table_seat_disconnected split: option.split)
  show "occupied_count (disconnected t) = occupied_count t"
    by (simp add: occupied_count_alt seats_with_cong [OF len same])
  show "seats_with (disconnected t) eligible_for_next_hand = seats_with t eligible_for_next_hand"
    by (intro seats_with_cong [OF len] same) (simp add: eligible_for_next_hand_def)
qed

text \<open>What the source's consistency check accepts of the states the roster reaches.\<close>

definition restorable :: "table_lifecycle \<Rightarrow> bool" where
  "restorable l \<longleftrightarrow> lc_next_hand_number l \<noteq> 0 \<and> lc_state l \<noteq> Closed \<and>
     (lc_state l = Waiting \<longrightarrow> occupied_count (lc_seats l) = 0 \<or> lc_next_hand_number l = 1)"

lemma restore_checkpoint:
  assumes "roster_ok l" "between_hand_checkpoint l = Inr c"
  shows "restore_between_hand c = (if restorable l
    then Inr (l\<lparr>lc_seats := disconnected (lc_seats l), lc_reservations := []\<rparr>) else Inl InvalidCheckpoint)"
proof -
  have idle: "lc_active_hand l = None" and pend: "lc_pending l = []"
    and c: "c = \<lparr>bh_table_size = lc_table_size l, bh_seats = map checkpoint_row (table_occupied (lc_seats l)),
      bh_state = lc_state l, bh_last_button = lc_last_button l, bh_next_hand_number = lc_next_hand_number l\<rparr>"
    using assms(2) by (auto simp: between_hand_checkpoint_def hand_active_def checkpoint_row_def split: if_splits)
  have core: "core_ok l" by (rule roster_core [OF assms(1)])
  have button: "\<not> (case lc_last_button l of None \<Rightarrow> False | Some s \<Rightarrow> \<not> table_contains (lc_table_size l) s)"
    using core by (auto simp: core_ok_def table_contains_def split: option.split)
  have state: "state_ok l" using assms(1) by (simp add: roster_ok_def)
  let ?l = "\<lparr>lc_table_size = lc_table_size l, lc_seats = disconnected (lc_seats l), lc_reservations = [],
             lc_pending = [], lc_state = lc_state l, lc_active_hand = None,
             lc_last_button = lc_last_button l, lc_next_hand_number = lc_next_hand_number l\<rparr>"
  have counts: "eligible_count ?l = eligible_count l" "occupied_count (lc_seats ?l) = occupied_count (lc_seats l)"
    by (simp_all add: eligible_count_alt disconnected_counts)
  have l: "?l = l\<lparr>lc_seats := disconnected (lc_seats l), lc_reservations := []\<rparr>"
    using idle pend by simp
  show ?thesis
    unfolding restore_between_hand_def c
    using button state restore_own_seats [OF core idle] idle counts l
    by (cases "lc_last_button l"; cases "lc_state l") (simp_all add: restorable_def state_ok_def Let_def)
qed

end
