(* ===== verification/Dealing.thy ===== *)
theory Dealing
  imports Roster Samples
begin

text \<open>
  Where the lifecycle and the engine meet: who is dealt in and as what, the hand that a \<open>HandStart\<close>
  becomes, and the report of a finished hand.
\<close>

subsection \<open>A promoted player is the big blind\<close>

lemma sorted_filter_eqI:
  assumes "sorted_wrt (<) xs" "sorted_wrt (<) ys" "set xs = set (ys :: nat list)"
  shows "xs = ys"
  using assms by (meson strict_sorted_equal)

lemma prospective_sorted: "sorted_wrt (<) (prospective_seats l c)"
proof -
  have "prospective_seats l c = map fst (filter (\<lambda>e. eligible_for_next_hand (snd e) \<or> fst e = c) (table_occupied (lc_seats l)))"
    unfolding prospective_seats_def by (rule arg_cong [where f = "map fst"], rule filter_cong) auto
  then show ?thesis
    using occupied_sorted [of "lc_seats l"] by (simp add: sorted_wrt_map sorted_wrt_filter)
qed

lemma prospective_member:
  "s \<in> set (prospective_seats l c) \<longleftrightarrow>
     (\<exists>st. table_seat (lc_seats l) s = Some st \<and> (eligible_for_next_hand st \<or> s = c))"
  by (force simp: prospective_seats_def)

lemma promoted_prospective:
  assumes "table_seat_mut (lc_seats l) c promote_seat = Some t"
    and "seat_satisfies t eligible_for_next_hand c"
  shows "prospective_seats l c = dealable (l\<lparr>lc_seats := t\<rparr>)"
proof (rule sorted_filter_eqI [OF prospective_sorted])
  show "sorted_wrt (<) (dealable (l\<lparr>lc_seats := t\<rparr>))" by (simp add: dealable_def seats_with_sorted)
  note read = table_seat_mut_read [OF assms(1)]
  have c: "table_seat (lc_seats l) c \<noteq> None" using assms(1) by (auto simp: table_seat_mut_Some)
  have "s \<in> set (prospective_seats l c) \<longleftrightarrow> seat_satisfies t eligible_for_next_hand s" for s
  proof (cases "s = c")
    case True
    then show ?thesis using c assms(2) by (simp add: prospective_member)
  next
    case False
    then show ?thesis
      by (cases "table_seat (lc_seats l) s") (simp_all add: prospective_member seat_satisfies_def read)
  qed
  then show "set (prospective_seats l c) = set (dealable (l\<lparr>lc_seats := t\<rparr>))"
    by (intro set_eqI) (simp add: dealable_def)
qed

lemma waiting_player_is_big_blind:
  assumes "promoted l l1" "core_ok l1" "2 \<le> length (dealable l1)" "started_from l1 pos start l'"
    and "seat_satisfies (lc_seats l) (\<lambda>st. ss_table_participation st = WaitingForBlind) s"
    and "s \<in> set (hand_seats start)"
  shows "s = hp_big_blind pos \<and> owed_posts pos (lc_seats l1) s = []"
proof -
  have deal: "s \<in> set (dealable l1)"
    using assms(4,6) by (simp add: started_from_def hand_seats_def dealable_stacks_keys)
  then have elig: "seat_satisfies (lc_seats l1) eligible_for_next_hand s" by (simp add: dealable_def)
  then have "l1 \<noteq> l"
    using assms(5) by (auto simp: seat_satisfies_def eligible_for_next_hand_def split: option.splits)
  then obtain c t where c: "2 \<le> length (prospective_seats l c)"
    "big_blind_with l (prospective_seats l c) = Some (Some c)"
    "table_seat_mut (lc_seats l) c promote_seat = Some t" "l1 = l\<lparr>lc_seats := t\<rparr>"
    using assms(1) by (auto simp: promoted_def)
  note read = table_seat_mut_read [OF c(3)]
  have sc: "s = c"
  proof (rule ccontr)
    assume "s \<noteq> c"
    then show False
      using elig assms(5)
      by (auto simp: seat_satisfies_def c(4) read eligible_for_next_hand_def split: option.splits)
  qed
  have ps: "prospective_seats l c = dealable l1"
    using promoted_prospective [OF c(3)] elig by (simp add: c(4) sc)
  have size: "tb_size (lc_seats l1) = lc_table_size l" using assms(2) by (simp add: core_ok_def c(4))
  have same: "lc_last_button l1 = lc_last_button l" "lc_table_size l1 = lc_table_size l" by (simp_all add: c(4))
  have pred: "seat_satisfies (lc_seats l1) eligible_for_next_hand = (\<lambda>s. s \<in> set (dealable l1))"
    by (rule ext) (simp add: dealable_def)
  have nxt: "next_for_hand (lc_seats l1) a = next_eligible (lc_table_size l) a (\<lambda>s. s \<in> set (dealable l1))" for a
    by (simp add: next_for_hand_def size pred)
  have button: "next_button l1 = Some (hs_button start)" and pos: "table_positions (lc_seats l1) (hs_button start) = Some (Inr pos)"
    using assms(4) by (simp_all add: started_from_def)
  have "(case lc_last_button l of Some previous \<Rightarrow> next_eligible (lc_table_size l) previous (\<lambda>s. s \<in> set (dealable l1))
      | None \<Rightarrow> first_match (\<lambda>s. s \<in> set (dealable l1)) (table_size_seats (lc_table_size l))) = Some (hs_button start)"
    using button same by (simp add: next_button_def nxt pred cong: option.case_cong)
  then have bb: "do { first \<leftarrow> next_for_hand (lc_seats l1) (hs_button start);
         if length (dealable l1) = 2 then Some (Some first)
         else do { big_blind \<leftarrow> next_for_hand (lc_seats l1) first; Some (Some big_blind) } } = Some (Some c)"
    using c(2) unfolding ps big_blind_with_def Let_def nxt by simp
  have b: "hs_button start \<in> set (dealable l1)"
    using next_button_returns [OF assms(2,3)] button by auto
  obtain pos' where "table_positions (lc_seats l1) (hs_button start) = Some (Inr pos')"
    "if length (dealable l1) = 2 then next_for_hand (lc_seats l1) (hs_button start) = Some (hp_big_blind pos')
     else next_for_hand (lc_seats l1) (hs_button start) = Some (hp_small_blind pos') \<and>
       next_for_hand (lc_seats l1) (hp_small_blind pos') = Some (hp_big_blind pos')"
    using table_positions_returns [OF assms(2,3) b] by (auto split: if_splits)
  then have "hp_big_blind pos = c"
    using bb pos by (auto split: if_splits)
  moreover have "owed_posts pos (lc_seats l1) s = []"
    using elig by (auto simp: owed_posts_def c(4) read sc promote_seat_def posts_for_def split: option.splits)
  ultimately show ?thesis by (simp add: sc)
qed

subsection \<open>From a hand start to a hand\<close>

lemma into_hand_deck:
  assumes "\<And>g cs. mset (fst (shuffle g cs)) = mset cs"
  shows "\<exists>d. into_hand shuffle production seeded start n seed =
      with_prepared_deck n (hs_button start) (hs_stacks start) (hs_forced_posts start) blind_values_default d \<and>
    distinct (deck_rest d) \<and> length (deck_rest d) = 52"
proof -
  define g where "g = (case seed of None \<Rightarrow> production | Some s \<Rightarrow> seeded s)"
  define d where "d = fst (shuffle_source_shuffle shuffle \<lparr>source_rng = g\<rparr> deck_new)"
  have "mset (deck_rest d) = mset (deck_cards deck_new)"
    using shuffle_resets [of shuffle g deck_new] assms
    by (simp add: d_def shuffle_source_shuffle_def split_beta)
  then have "distinct (deck_rest d) \<and> length (deck_rest d) = 52"
    using deck_new_complete by (metis mset_eq_imp_distinct_iff mset_eq_length)
  then show ?thesis
    by (intro exI [of _ d]) (simp add: into_hand_def multiway_new_with_forced_posts_def
        multiway_new_seeded_with_forced_posts_def with_shuffle_source_def d_def g_def split: option.split)
qed

lemma start_accepted:
  assumes "core_ok l" "lc_active_hand l = Some start" "sum_list (map snd (hs_stacks start)) < u32_bound"
  shows "config_accepted (lc_table_size l) (hs_button start) (hs_stacks start) (hs_forced_posts start) blind_values_default"
proof -
  have start: "start_ok (lc_seats l) start" using assms(1,2) by (simp add: core_ok_def)
  then have "distinct (map fst (hs_stacks start))"
    unfolding start_ok_def hand_seats_def using strict_sorted_iff by blast
  moreover have "\<forall>(s, k)\<in>set (hs_stacks start). s < lc_table_size l \<and> 0 < k"
    using start core_seat_bound [OF assms(1)] by (auto simp: start_ok_def)
  moreover have "blind_values_new (bv_small_blind blind_values_default) (bv_big_blind blind_values_default)
      (bv_ante blind_values_default) \<noteq> None" by code_simp
  ultimately show ?thesis
    using start assms(3) by (auto simp: config_accepted_def start_ok_def hand_seats_def)
qed

lemma start_length: "core_ok l \<Longrightarrow> lc_active_hand l = Some start \<Longrightarrow> length (hs_stacks start) \<le> 9"
proof -
  assume core: "core_ok l" and act: "lc_active_hand l = Some start"
  then have start: "start_ok (lc_seats l) start" by (simp add: core_ok_def)
  then have "distinct (map fst (hs_stacks start))"
    unfolding start_ok_def hand_seats_def using strict_sorted_iff by blast
  moreover have "fst ` set (hs_stacks start) \<subseteq> {..<lc_table_size l}"
    using start core_seat_bound [OF core] by (auto simp: start_ok_def)
  then have "card (fst ` set (hs_stacks start)) \<le> lc_table_size l"
    using card_mono [of "{..<lc_table_size l}"] by simp
  moreover have "lc_table_size l \<le> 9" using core valid_size_pos by (simp add: core_ok_def)
  ultimately show ?thesis by (metis distinct_card le_trans length_map list.set_map)
qed

lemma into_hand_starts:
  assumes "roster_ok l" "lc_active_hand l = Some start"
    and "\<And>g cs. mset (fst (shuffle g cs)) = mset cs"
    and "sum_list (map snd (hs_stacks start)) < u32_bound" "\<forall>p\<in>set (hs_forced_posts start). fp_live p"
  shows "\<exists>h. into_hand shuffle production seeded start (lc_table_size l) seed = Some (Inr h) \<and> hand_ok h \<and>
    mh_initial_total h = sum_list (map snd (hs_stacks start)) \<and> set (occupied_seats h) = set (hand_seats start)"
proof -
  note core = roster_core [OF assms(1)]
  obtain d where d: "into_hand shuffle production seeded start (lc_table_size l) seed =
      with_prepared_deck (lc_table_size l) (hs_button start) (hs_stacks start) (hs_forced_posts start) blind_values_default d"
    "distinct (deck_rest d)" "length (deck_rest d) = 52"
    using into_hand_deck [of shuffle production seeded start "lc_table_size l" seed, OF assms(3)] by blast
  have "valid_size (lc_table_size l)" using core by (simp add: core_ok_def)
  moreover have "2 * length (hs_stacks start) + 5 \<le> length (deck_rest d)"
    using start_length [OF core assms(2)] d(3) by simp
  ultimately obtain r where "into_hand shuffle production seeded start (lc_table_size l) seed = Some r"
    "isl r \<longleftrightarrow> \<not> config_accepted (lc_table_size l) (hs_button start) (hs_stacks start) (hs_forced_posts start) blind_values_default"
    "\<forall>h. r = Inr h \<longrightarrow> started_ok (hs_stacks start) d h"
    using with_prepared_deck_returns [OF _ d(2) _ assms(5)] d(1) by metis
  then show ?thesis
    using start_accepted [OF core assms(2,4)] by (cases r) (auto simp: started_ok_def hand_ok_def hand_seats_def)
qed

subsection \<open>From a finished hand to the roster\<close>

lemma play_same_game: "hand_ok h \<Longrightarrow> play cs h = Some (Inr h') \<Longrightarrow> same_game h h'"
proof (induction cs arbitrary: h)
  case Nil
  then show ?case by (simp add: play.simps same_game_def)
next
  case (Cons c cs)
  obtain g where g: "apply_command h (seat_command_new (fst c) (snd c)) = Some (Inr g)" "play cs g = Some (Inr h')"
    using Cons.prems(2) by (auto simp: play.simps split: option.splits sum.splits)
  then have "outcome_ok h g"
    using apply_command_outcome [OF Cons.prems(1), of "seat_command_new (fst c) (snd c)"] by auto
  then have "hand_ok g" "same_game h g" using outcome_hand_ok by (auto simp: outcome_ok_def)
  then show ?case using Cons.IH [OF _ g(2)] same_game_trans by blast
qed

lemma final_stacks_returns: "mw_shape h \<Longrightarrow> final_stacks h = Some (map (\<lambda>s. (s, ms_stack (the (mw_seat h s)))) (occupied_seats h))"
  unfolding final_stacks_def by (rule map_m_total) (auto dest!: occupied_seatsD)

lemma done_stacks_total:
  assumes "done_ok h"
  shows "sum_list (map (\<lambda>s. ms_stack (the (mw_seat h s))) (occupied_seats h)) = mh_initial_total h"
proof -
  have money: "money_ok h" using assms by (simp add: done_ok_def)
  have "seat_total ms_hand_contribution h = 0"
    using assms by (simp add: done_ok_def seat_total_def)
  then have "seat_total ms_stack h = mh_initial_total h" using money by (simp add: money_ok_def)
  then show ?thesis by (simp add: seat_total_def occupied_states_map comp_def)
qed

lemma finished_report:
  assumes "lc_active_hand l = Some start" "done_ok h" "set (occupied_seats h) = set (hand_seats start)"
    and "mh_initial_total h = sum_list (map snd (hs_stacks start))" "mh_initial_total h < u32_bound"
  shows "\<exists>rep. final_stacks h = Some rep \<and> report_ok start rep"
proof -
  have "mw_shape h" using assms(2) by (simp add: done_ok_def money_ok_def)
  then show ?thesis
    using final_stacks_returns [of h] done_stacks_total [OF assms(2)] assms(3-5)
    by (auto simp: report_ok_def comp_def image_image)
qed

end
