(* ===== verification/Starvation.thy ===== *)
theory Starvation
  imports Roster
begin

text \<open>
  A table of two players and one who waits for the big blind: the promotion looks for the big blind of a
  hand of three, whose button follows the last one clockwise, and that big blind is always the last
  button again. The waiting player is never dealt in, however long the two play.
\<close>

lemma next_eligible_other: "next_eligible n a P = Some b \<Longrightarrow> b \<noteq> a"
proof
  assume *: "next_eligible n a P = Some b" "b = a"
  then have "a < n" by (auto simp: next_eligible_def table_contains_def split: if_splits)
  obtain i where "1 \<le> i" "i < n" "(a + i) mod n = a"
    using * \<open>a < n\<close> by (auto simp: next_eligible_ring ring_from_def dest!: first_match_SomeD)
  then show False
    using mod_add_inj [of a 0 n i] \<open>a < n\<close> by auto
qed

lemma next_of_three:
  assumes "p < q" "q < r" "r < n" "\<And>s. P s \<longleftrightarrow> s = p \<or> s = q \<or> s = r"
  shows "next_eligible n p P = Some q" "next_eligible n q P = Some r" "next_eligible n r P = Some p"
proof -
  have near: "next_eligible n x P = Some y"
    if h: "x < n" "y < n" "y \<noteq> x" "P y" "\<And>z. P z \<Longrightarrow> z \<noteq> x \<Longrightarrow> z \<noteq> y \<Longrightarrow> clockwise_distance n x y < clockwise_distance n x z"
    for x y
  proof -
    obtain t where t: "next_eligible n x P = Some t" "P t"
      using next_eligible_finds [of x n y P] h by blast
    have "clockwise_distance n x t \<le> clockwise_distance n x y"
      using next_eligible_nearest [OF t(1)] h(2-4) by blast
    then have "t = y" using h(5) [of t] t next_eligible_other [OF t(1)] by fastforce
    then show ?thesis using t(1) by simp
  qed
  have d: "clockwise_distance n x y = (if x \<le> y then y - x else y + n - x)" if "x < n" "y < n" for x y
  proof (cases "x \<le> y")
    case True
    then have "y + n - x = (y - x) + n" by simp
    then have "(y + n - x) mod n = (y - x) mod n" by (simp only: mod_add_self2)
    then show ?thesis using True that by (simp add: clockwise_distance_def)
  next
    case False
    then show ?thesis using that by (simp add: clockwise_distance_def)
  qed
  show "next_eligible n p P = Some q" "next_eligible n q P = Some r" "next_eligible n r P = Some p"
    using assms by (intro near; auto simp: d)+
qed

lemma three_steps_around:
  assumes "distinct [x, y, z]" "x < n" "y < n" "z < n" "\<And>s. P s \<longleftrightarrow> s = x \<or> s = y \<or> s = z"
  shows "\<exists>u v. next_eligible n x P = Some u \<and> next_eligible n u P = Some v \<and> next_eligible n v P = Some x"
proof -
  consider "x < y" "y < z" | "x < z" "z < y" | "y < x" "x < z" | "y < z" "z < x" | "z < x" "x < y" | "z < y" "y < x"
    using assms(1) by fastforce
  then show ?thesis
  proof cases
    case 1 then show ?thesis using next_of_three [of x y z n P] assms by auto
  next
    case 2 then show ?thesis using next_of_three [of x z y n P] assms by auto
  next
    case 3 then show ?thesis using next_of_three [of y x z n P] assms by auto
  next
    case 4 then show ?thesis using next_of_three [of y z x n P] assms by auto
  next
    case 5 then show ?thesis using next_of_three [of z x y n P] assms by auto
  next
    case 6 then show ?thesis using next_of_three [of z y x n P] assms by auto
  qed
qed

definition waiting_seats :: "table_lifecycle \<Rightarrow> seat_id list" where
  "waiting_seats l = seats_with (lc_seats l) (\<lambda>st. ss_table_participation st = WaitingForBlind)"

definition heads_up_with_waiter :: "seat_id \<Rightarrow> table_lifecycle \<Rightarrow> bool" where
  "heads_up_with_waiter w l \<longleftrightarrow> roster_ok l \<and> lc_state l \<noteq> Closed \<and> lc_active_hand l = None \<and>
     length (dealable l) = 2 \<and> waiting_seats l = [w] \<and>
     (\<exists>x\<in>set (dealable l). lc_last_button l = Some x)"

text \<open>Two hands later: begin a hand and complete it with any report that leaves both players chips.\<close>

inductive plays_on :: "table_lifecycle \<Rightarrow> table_lifecycle \<Rightarrow> bool" where
  hand: "begin_hand l = Some (Inr start, l1) \<Longrightarrow> complete_hand l1 rep = Some (Inr (), l2) \<Longrightarrow>
    \<forall>(s, k)\<in>set rep. 0 < k \<Longrightarrow> plays_on l l2"

inductive_cases plays_onE: "plays_on l l'"

lemma promote_waiter_stuck:
  assumes "heads_up_with_waiter w l"
  shows "promote_natural_big_blind_waiter l = Some l"
proof -
  obtain x where x: "x \<in> set (dealable l)" "lc_last_button l = Some x" and core: "core_ok l"
    using assms by (auto simp: heads_up_with_waiter_def roster_ok_def)
  obtain y where y: "y \<in> set (dealable l)" "y \<noteq> x"
    using two_others [of "dealable l" x] assms by (auto simp: heads_up_with_waiter_def dealable_def)
  have "card (set (dealable l)) = 2"
    using assms distinct_card [of "dealable l"] by (simp add: heads_up_with_waiter_def dealable_def)
  then have two: "set (dealable l) = {x, y}"
    using x(1) y card_seteq [of "set (dealable l)" "{x, y}"] by auto
  have "seat_satisfies (lc_seats l) (\<lambda>st. ss_table_participation st = WaitingForBlind) w"
  proof -
    have "w \<in> set (waiting_seats l)" using assms by (simp add: heads_up_with_waiter_def)
    then show ?thesis by (simp add: waiting_seats_def)
  qed
  then obtain st where st: "table_seat (lc_seats l) w = Some st" "ss_table_participation st = WaitingForBlind"
    by (auto simp: seat_satisfies_def split: option.splits)
  have w: "w \<notin> set (dealable l)"
    using st by (auto simp: dealable_def seat_satisfies_def eligible_for_next_hand_def)
  have bounds: "x < lc_table_size l" "y < lc_table_size l" "w < lc_table_size l"
    using dealable_members [OF core] x(1) y(1) core_seat_bound [OF core st(1)] by auto
  let ?ps = "prospective_seats l w"
  have ps: "s \<in> set ?ps \<longleftrightarrow> s = x \<or> s = y \<or> s = w" for s
  proof -
    have "s \<in> set ?ps \<longleftrightarrow> s \<in> set (dealable l) \<or> s = w"
    proof (cases "table_seat (lc_seats l) s")
      case None
      then show ?thesis using st(1) by (auto simp: prospective_seats_def dealable_def seat_satisfies_def)
    next
      case (Some a)
      then show ?thesis by (force simp: prospective_seats_def dealable_def seat_satisfies_def)
    qed
    then show ?thesis using two by simp
  qed
  have "set ?ps = {x, y, w}" using ps by blast
  then have three: "length ?ps = 3"
    using distinct_card [OF prospective_distinct, of l w] y(2) w two by auto
  obtain u v where uv: "next_eligible (lc_table_size l) x (\<lambda>s. s \<in> set ?ps) = Some u"
    "next_eligible (lc_table_size l) u (\<lambda>s. s \<in> set ?ps) = Some v"
    "next_eligible (lc_table_size l) v (\<lambda>s. s \<in> set ?ps) = Some x"
    using three_steps_around [of x y w "lc_table_size l" "\<lambda>s. s \<in> set ?ps"] y(2) w two bounds ps by auto
  have "big_blind_with l ?ps = Some (Some x)"
    by (simp add: big_blind_with_def x(2) uv three)
  moreover have "x \<noteq> w" using w x(1) by auto
  moreover have "map fst (filter (\<lambda>(s, st). ss_table_participation st = WaitingForBlind) (table_occupied (lc_seats l))) = [w]"
    using assms by (simp add: heads_up_with_waiter_def waiting_seats_def seats_with_def)
  ultimately show ?thesis
    using three by (simp add: promote_natural_big_blind_waiter_def prospective_seats_def)
qed

lemma plays_on_keeps_waiter:
  assumes "heads_up_with_waiter w l" "plays_on l l'"
  shows "heads_up_with_waiter w l'"
proof -
  have l: "roster_ok l" "lc_state l \<noteq> Closed" "lc_active_hand l = None" "length (dealable l) = 2" "waiting_seats l = [w]"
    using assms(1) by (simp_all add: heads_up_with_waiter_def)
  obtain start l1 rep where begun: "begin_hand l = Some (Inr start, l1)" and fin: "complete_hand l1 rep = Some (Inr (), l')"
    and pos: "\<forall>(s, k)\<in>set rep. 0 < k"
    using assms(2) by (rule plays_onE)
  obtain pos' where st: "started_from l pos' start l1" and ok1: "roster_ok l1"
    using begin_hand_result [OF l(1-3)] promote_waiter_stuck [OF assms(1)] begun l(4) by auto
  have act: "lc_active_hand l1 = Some start" using st by (simp add: started_from_def)
  have rep: "report_ok start rep"
    using complete_hand_rejects [OF ok1 act, of rep] fin by auto
  have pend: "lc_pending l1 = []" and fields: "lc_last_button l1 = Some (hs_button start)" "lc_state l1 \<noteq> Closed"
  proof -
    have "lc_pending l = []" using core_not_active [OF roster_core [OF l(1)] l(3)] .
    then show "lc_pending l1 = []"
      using begun promote_waiter_stuck [OF assms(1)]
      by (auto simp: begin_hand_def Let_def split: if_splits bind_splits sum.splits option.splits)
    show "lc_last_button l1 = Some (hs_button start)" using ok1 act by (simp add: roster_ok_def core_ok_def)
    show "lc_state l1 \<noteq> Closed" using ok1 act by (auto simp: roster_ok_def state_ok_def)
  qed
  obtain t where t: "complete_hand l1 rep = Some (Inr (),
      refresh_between_hand_state (l1\<lparr>lc_seats := t, lc_active_hand := None, lc_pending := []\<rparr>))"
    "core_ok (l1\<lparr>lc_seats := t, lc_active_hand := None, lc_pending := []\<rparr>)"
    "\<forall>s. table_seat t s = Option.bind (table_seat (lc_seats l1) s)
       (\<lambda>st. after_pending (lc_pending l1) (reported rep s st))"
    using complete_hand_result [OF ok1 act rep] by blast
  have read: "table_seat t s = map_option (reported rep s) (table_seat (lc_seats l1) s)" for s
    using t(3) pend by (cases "table_seat (lc_seats l1) s") (simp_all add: after_pending_def)
  let ?l = "refresh_between_hand_state (l1\<lparr>lc_seats := t, lc_active_hand := None, lc_pending := []\<rparr>)"
  have l': "l' = ?l" using fin t(1) by simp
  have ok: "roster_ok l'" unfolding l' using t(2) fields(2) by (intro refresh_ok) simp_all
  have elig: "seat_satisfies t eligible_for_next_hand s = seat_satisfies (lc_seats l) eligible_for_next_hand s"
    and wait: "seat_satisfies t (\<lambda>st. ss_table_participation st = WaitingForBlind) s
      = seat_satisfies (lc_seats l) (\<lambda>st. ss_table_participation st = WaitingForBlind) s" for s
  proof -
    have seat1: "table_seat (lc_seats l1) s = (if s \<in> set (dealable l) then map_option dealt_seat (table_seat (lc_seats l) s)
        else table_seat (lc_seats l) s)"
      using st by (simp add: started_from_def)
    have "fst ` set (dealable_stacks l) = set (dealable l)" by (metis dealable_stacks_keys list.set_map)
    then have keys: "fst ` set rep = set (dealable l)"
      using rep st by (simp add: report_ok_def started_from_def hand_seats_def dealable_stacks_keys)
    show "seat_satisfies t eligible_for_next_hand s = seat_satisfies (lc_seats l) eligible_for_next_hand s"
    proof (cases "s \<in> set (dealable l)")
      case True
      then obtain k where k: "map_of rep s = Some k"
        using keys by (metis domIff dom_map_of_conv_image_fst not_None_eq)
      then have "0 < k" using pos map_of_SomeD by fastforce
      then show ?thesis
        using True seat1 k by (auto simp: dealable_def seat_satisfies_def read reported_def
            settled_roster_seat_def dealt_seat_def eligible_for_next_hand_def split: option.splits)
    next
      case False
      then have "map_of rep s = None" using keys by (simp add: map_of_eq_None_iff)
      then show ?thesis
        using False seat1 by (simp add: seat_satisfies_def read reported_def option.map_comp split: option.split)
    qed
    show "seat_satisfies t (\<lambda>st. ss_table_participation st = WaitingForBlind) s
      = seat_satisfies (lc_seats l) (\<lambda>st. ss_table_participation st = WaitingForBlind) s"
      using seat1 by (simp add: seat_satisfies_def read dealt_seat_def split: option.split)
  qed
  have len: "length (tb_seats t) = length (tb_seats (lc_seats l))"
  proof -
    have "table_ok t \<and> tb_size t = lc_table_size l1" using t(2) by (simp add: core_ok_def)
    moreover have "lc_table_size l1 = lc_table_size l"
      using begun promote_waiter_stuck [OF assms(1)]
      by (auto simp: begin_hand_def Let_def split: if_splits bind_splits sum.splits option.splits)
    moreover have "table_ok (lc_seats l) \<and> tb_size (lc_seats l) = lc_table_size l"
      using roster_core [OF l(1)] by (simp add: core_ok_def)
    ultimately show ?thesis by (simp add: table_ok_def)
  qed
  have "dealable l' = dealable l" unfolding dealable_def l' refresh_fields
    by (simp add: seats_with_cong [OF len elig])
  moreover have "waiting_seats l' = waiting_seats l" unfolding waiting_seats_def l' refresh_fields
    by (simp add: seats_with_cong [OF len wait])
  moreover have "hs_button start \<in> set (dealable l)"
    using next_button_returns [OF roster_core [OF l(1)]] l(4) st by (auto simp: started_from_def)
  moreover have "lc_state l' \<noteq> Closed"
    using fields(2) by (simp add: l' refresh_between_hand_state_def)
  ultimately show ?thesis
    using ok l(4,5) fields(1) by (simp add: heads_up_with_waiter_def) (simp add: l')
qed

lemma waiter_starves: "plays_on\<^sup>*\<^sup>* l l' \<Longrightarrow> heads_up_with_waiter w l \<Longrightarrow> heads_up_with_waiter w l'"
  by (induction rule: rtranclp_induct) (auto intro: plays_on_keeps_waiter)

end
