(* ===== verification/Lifecycle_Properties.thy ===== *)
theory Lifecycle_Properties
  imports Dealing Starvation
begin

text \<open>
  The properties of the table lifecycle and of its composition with the engine. The samples are tables
  reached by running the operations of the model.
\<close>

definition run_ops :: "roster_op list \<Rightarrow> table_lifecycle \<Rightarrow> table_lifecycle option" where
  "run_ops ops l = for_m run_op ops l"

lemma run_ops_reachable: "roster_reachable l \<Longrightarrow> run_ops ops l = Some l' \<Longrightarrow> roster_reachable l'"
  unfolding run_ops_def
  by (erule for_m_invariant) (auto intro: roster_reachable.stepped roster_step.step)

definition sample_joins :: "roster_op list" where
  "sample_joins = [OpJoin 1 0 1000, OpJoin 2 1 600, OpJoin 3 2 1000]"

definition sample_roster :: table_lifecycle where
  "sample_roster = the (run_ops sample_joins (lifecycle_new 3))"

definition sample_active :: table_lifecycle where
  "sample_active = the (run_op OpBeginHand sample_roster)"

definition sample_hand_start :: hand_start where
  "sample_hand_start = the (lc_active_hand sample_active)"

lemma valid_three: "valid_size 3"
  by (simp add: valid_size_def MIN_TABLE_SEATS_def MAX_TABLE_SEATS_def)

lemma sample_roster_reached: "run_ops sample_joins (lifecycle_new 3) = Some sample_roster"
proof -
  have "run_ops sample_joins (lifecycle_new 3) \<noteq> None" by code_simp
  then show ?thesis by (auto simp: sample_roster_def)
qed

lemma sample_roster_ok: "roster_reachable sample_roster"
  by (rule run_ops_reachable [OF roster_reachable.created [OF valid_three] sample_roster_reached])

lemma sample_active_reached:
  "begin_hand sample_roster = Some (Inr sample_hand_start, sample_active) \<and> lc_active_hand sample_active = Some sample_hand_start"
proof -
  have "(case begin_hand sample_roster of Some (Inr start, l) \<Rightarrow> lc_active_hand l = Some start | _ \<Rightarrow> False)" by code_simp
  then show ?thesis
    by (auto simp: sample_active_def sample_hand_start_def split: option.splits prod.splits sum.splits)
qed

lemma sample_active_ok: "roster_ok sample_active"
  using begin_hand_ok [OF reachable_ok [OF sample_roster_ok]] sample_active_reached by auto

section \<open>The roster\<close>

text \<open>
  C6: no operation of the lifecycle panics. From any table that was created or restored and then run
  through any operations, every operation, with any arguments, returns, and the table satisfies the
  invariant: one seat for each player, reservations only on vacant seats and for absent players, no
  pending transitions between hands, stacks as dealt during a hand, and a run state that fits the
  eligible players.
\<close>

theorem roster_never_panics:
  assumes "roster_reachable l"
  shows "roster_ok l \<and> (\<exists>l'. run_op op l = Some l' \<and> roster_ok l')"
  using reachable_ok [OF assms] run_op_ok by blast

theorem roster_never_panics_witness:
  "\<exists>l'. run_op (OpLeave 2) sample_roster = Some l' \<and> roster_ok l'"
  using roster_never_panics [OF sample_roster_ok, of "OpLeave 2"] by simp




text \<open>A whole hand of the sample table: the first two seats fold and the big blind wins.\<close>

definition sample_dealt :: "(config_error + multiway_hand) option" where
  "sample_dealt = into_hand (\<lambda>g cs. (rev cs, g)) () (\<lambda>_. ()) sample_hand_start (lc_table_size sample_active) None"

definition sample_won :: multiway_hand where
  "sample_won = the_hand (play [(0, ActFold), (1, ActFold)] (the_hand sample_dealt))"

lemma sample_won_reached:
  "played sample_dealt \<and> played (play [(0, ActFold), (1, ActFold)] (the_hand sample_dealt)) \<and>
   mh_phase sample_won = HandComplete \<and> mh_showdown_progress sample_won = None"
  by code_simp


text \<open>
  C9: \<open>complete_hand\<close> accepts exactly the reports that name every hand seat once, no other seat, and
  keep the chip total; a rejected report leaves the table as it is. An accepted report gives every
  seat its reported stack and applies the pending transition of its player, and nothing else changes
  the seats: those who asked to leave are gone, those who asked to sit out sit out.
\<close>

theorem complete_hand_settles:
  assumes "roster_ok l" "lc_active_hand l = Some start"
  shows "if report_ok start rep
    then \<exists>l'. complete_hand l rep = Some (Inr (), l') \<and> lc_active_hand l' = None \<and> lc_pending l' = [] \<and>
      (\<forall>s. table_seat (lc_seats l') s = Option.bind (table_seat (lc_seats l) s)
         (\<lambda>st. after_pending (lc_pending l) (reported rep s st)))
    else \<exists>e. complete_hand l rep = Some (Inl e, l)"
  using complete_hand_result [OF assms, of rep] complete_hand_rejects [OF assms, of rep] by auto

theorem complete_hand_settles_witness:
  "\<exists>e. complete_hand sample_active [(0, 2600), (1, 0)] = Some (Inl e, sample_active)"
proof -
  have "\<not> report_ok sample_hand_start [(0, 2600), (1, 0)]" by code_simp
  then show ?thesis
    using complete_hand_settles [OF sample_active_ok conjunct2 [OF sample_active_reached], of "[(0, 2600), (1, 0)]"] by simp
qed

section \<open>Checkpoints\<close>

text \<open>
  C10: a between-hand checkpoint of a table restores to the same table, with every player disconnected
  and no reservations, exactly when the table is open, its hand number has not wrapped to zero and it
  is not waiting with players after a first hand; otherwise the restore reports an invalid checkpoint.
\<close>

theorem checkpoint_round_trip:
  assumes "roster_reachable l" "between_hand_checkpoint l = Inr c"
  shows "restore_between_hand c = (if restorable l
    then Inr (l\<lparr>lc_seats := disconnected (lc_seats l), lc_reservations := []\<rparr>) else Inl InvalidCheckpoint)"
  by (rule restore_checkpoint [OF reachable_ok [OF assms(1)] assms(2)])

theorem checkpoint_round_trip_witness:
  "\<exists>c. between_hand_checkpoint sample_roster = Inr c \<and>
    restore_between_hand c = Inr (sample_roster\<lparr>lc_seats := disconnected (lc_seats sample_roster)\<rparr>)"
proof -
  have "\<not> isl (between_hand_checkpoint sample_roster) \<and> restorable sample_roster \<and> lc_reservations sample_roster = []"
    by code_simp
  then obtain c where "between_hand_checkpoint sample_roster = Inr c" and r: "restorable sample_roster"
    and n: "lc_reservations sample_roster = []"
    by (cases "between_hand_checkpoint sample_roster") auto
  moreover have "sample_roster\<lparr>lc_seats := x, lc_reservations := []\<rparr> = sample_roster\<lparr>lc_seats := x\<rparr>" for x
    using n by (metis (full_types) table_lifecycle.surjective table_lifecycle.update_convs(2,3))
  ultimately show ?thesis using checkpoint_round_trip [OF sample_roster_ok] by auto
qed

text \<open>
  C11: a table that emptied and filled again cannot be restored: its state is \<open>Waiting\<close> although hands were
  played, the checkpoint is taken without an error, and the restore rejects it.
\<close>

definition refilled_table :: table_lifecycle where
  "refilled_table = the (run_ops [OpJoin 1 0 1000, OpJoin 2 1 1000, OpBeginHand,
     OpCompleteHand [(0, 1100), (1, 900)], OpLeave 1, OpLeave 2, OpJoin 3 0 1000, OpJoin 4 1 1000] (lifecycle_new 2))"


section \<open>Button and blinds\<close>

text \<open>
  The button moves clockwise to the nearest player who is dealt in: after a first hand, the button
  of the next one is at a seat of the hand other than the last button, and no seat of the hand lies
  closer clockwise.
\<close>

theorem button_moves_to_nearest:
  assumes "roster_reachable l" "begin_hand l = Some (Inr start, l')" "lc_last_button l = Some previous"
  shows "hs_button start \<in> fst ` set (hs_stacks start) \<and> hs_button start \<noteq> previous \<and>
    (\<forall>s\<in>fst ` set (hs_stacks start). s \<noteq> previous \<longrightarrow>
       clockwise_distance (lc_table_size l) previous (hs_button start) \<le> clockwise_distance (lc_table_size l) previous s)"
proof -
  have ok: "roster_ok l" by (rule reachable_ok [OF assms(1)])
  then have open_now: "lc_state l \<noteq> Closed" "lc_active_hand l = None"
    using assms(2) by (auto simp: begin_hand_def hand_active_def split: if_splits)
  obtain l1 pos where l1: "promoted l l1" "core_ok l1" "2 \<le> length (dealable l1)" "started_from l1 pos start l'"
    using begin_hand_result [OF ok open_now] assms(2) by (auto split: if_splits)
  have same: "lc_last_button l1 = lc_last_button l" "lc_table_size l1 = lc_table_size l"
    using l1(1) by (auto simp: promoted_def)
  have "fst ` set (dealable_stacks l1) = set (dealable l1)" by (metis dealable_stacks_keys list.set_map)
  then have keys: "fst ` set (hs_stacks start) = set (dealable l1)" using l1(4) by (simp add: started_from_def)
  have btn: "next_eligible (lc_table_size l) previous (seat_satisfies (lc_seats l1) eligible_for_next_hand)
      = Some (hs_button start)"
    using l1(4) assms(3) same core_size [OF l1(2)]
    by (simp add: started_from_def next_button_def next_for_hand_def)
  have "clockwise_distance (lc_table_size l) previous (hs_button start) \<le> clockwise_distance (lc_table_size l) previous s"
    if "s \<in> set (dealable l1)" "s \<noteq> previous" for s
    using next_eligible_nearest [OF btn _ that(2)] dealable_members [OF l1(2)] that(1) same(2) by simp
  then show ?thesis
    using next_eligible_sound [OF btn] next_eligible_other [OF btn] keys by (simp add: dealable_def)
qed

definition second_roster :: table_lifecycle where
  "second_roster = the (run_op (OpCompleteHand [(0, 1100), (1, 500), (2, 1000)]) sample_active)"

lemma second_roster_reached:
  "run_op (OpCompleteHand [(0, 1100), (1, 500), (2, 1000)]) sample_active = Some second_roster \<and>
   lc_last_button second_roster = Some 0"
proof -
  have "run_op (OpCompleteHand [(0, 1100), (1, 500), (2, 1000)]) sample_active \<noteq> None \<and> lc_last_button second_roster = Some 0"
    by code_simp
  then show ?thesis by (auto simp: second_roster_def)
qed

lemma second_roster_ok: "roster_reachable second_roster"
proof -
  have "roster_reachable sample_active"
    by (rule roster_reachable.stepped [OF sample_roster_ok])
      (rule roster_step.step [of OpBeginHand], simp add: sample_active_reached)
  then show ?thesis
    using roster_reachable.stepped roster_step.step second_roster_reached by blast
qed

theorem button_moves_to_nearest_witness:
  "\<exists>start l'. begin_hand second_roster = Some (Inr start, l') \<and> hs_button start \<noteq> 0"
proof -
  have "(case begin_hand second_roster of Some (Inr start, l') \<Rightarrow> True | _ \<Rightarrow> False)" by code_simp
  then obtain start l' where "begin_hand second_roster = Some (Inr start, l')"
    by (auto split: option.splits prod.splits sum.splits)
  then show ?thesis
    using button_moves_to_nearest [OF second_roster_ok _ conjunct2 [OF second_roster_reached]] by blast
qed

text \<open>
  A player who waits for the big blind is never dealt in early: when \<open>begin_hand\<close> deals such a
  player in, the player is the big blind of the positions of the hand and posts nothing extra.
\<close>

theorem waiter_is_dealt_in_as_big_blind:
  assumes "roster_reachable l" "begin_hand l = Some (Inr start, l')"
    and "table_seat (lc_seats l) s = Some st" "ss_table_participation st = WaitingForBlind"
    and "s \<in> fst ` set (hs_stacks start)"
  shows "\<exists>l1 pos. promote_natural_big_blind_waiter l = Some l1 \<and>
    table_positions (lc_seats l1) (hs_button start) = Some (Inr pos) \<and> hp_big_blind pos = s \<and>
    s \<notin> fp_seat ` set (hs_forced_posts start)"
proof -
  have ok: "roster_ok l" by (rule reachable_ok [OF assms(1)])
  then have open_now: "lc_state l \<noteq> Closed" "lc_active_hand l = None"
    using assms(2) by (auto simp: begin_hand_def hand_active_def split: if_splits)
  obtain l1 pos where l1: "promote_natural_big_blind_waiter l = Some l1" "promoted l l1" "core_ok l1"
    "2 \<le> length (dealable l1)" "started_from l1 pos start l'"
    using begin_hand_result [OF ok open_now] assms(2) by (auto split: if_splits)
  have "s = hp_big_blind pos \<and> owed_posts pos (lc_seats l1) s = []"
    using waiting_player_is_big_blind [OF l1(2-5)] assms(3-5) by (simp add: seat_satisfies_def hand_seats_def)
  moreover have "fp_seat p = x" if "p \<in> set (owed_posts pos (lc_seats l1) x)" for p x
    using that by (auto simp: owed_posts_def split: option.splits dest: posts_for_seat)
  ultimately have "s \<notin> fp_seat ` set (hs_forced_posts start)"
    using l1(5) by (fastforce simp: started_from_def)
  then show ?thesis
    using l1 \<open>s = hp_big_blind pos \<and> _\<close> by (auto simp: started_from_def)
qed

text \<open>Three players, and a fourth who joined between the third seat and the first.\<close>

definition waiter_roster :: table_lifecycle where
  "waiter_roster = the (run_ops [OpJoin 1 0 1000, OpJoin 2 1 1000, OpJoin 3 2 1000, OpBeginHand,
     OpCompleteHand [(0, 1000), (1, 1000), (2, 1000)], OpJoinWithEntry 4 3 1000 WaitForBigBlind] (lifecycle_new 4))"

lemma waiter_roster_ok: "roster_reachable waiter_roster"
proof -
  have "run_ops [OpJoin 1 0 1000, OpJoin 2 1 1000, OpJoin 3 2 1000, OpBeginHand,
     OpCompleteHand [(0, 1000), (1, 1000), (2, 1000)], OpJoinWithEntry 4 3 1000 WaitForBigBlind] (lifecycle_new 4) \<noteq> None"
    by code_simp
  then have "run_ops [OpJoin 1 0 1000, OpJoin 2 1 1000, OpJoin 3 2 1000, OpBeginHand,
     OpCompleteHand [(0, 1000), (1, 1000), (2, 1000)], OpJoinWithEntry 4 3 1000 WaitForBigBlind] (lifecycle_new 4)
      = Some waiter_roster"
    by (auto simp: waiter_roster_def)
  moreover have "valid_size 4" by (simp add: valid_size_def MIN_TABLE_SEATS_def MAX_TABLE_SEATS_def)
  ultimately show ?thesis using run_ops_reachable [OF roster_reachable.created] by blast
qed

theorem waiter_is_dealt_in_as_big_blind_witness:
  "\<exists>start l' l1 pos. begin_hand waiter_roster = Some (Inr start, l') \<and>
    promote_natural_big_blind_waiter waiter_roster = Some l1 \<and>
    table_positions (lc_seats l1) (hs_button start) = Some (Inr pos) \<and> hp_big_blind pos = 3"
proof -
  have "(case begin_hand waiter_roster of Some (Inr start, l') \<Rightarrow> 3 \<in> fst ` set (hs_stacks start) | _ \<Rightarrow> False) \<and>
    (case table_seat (lc_seats waiter_roster) 3 of Some st \<Rightarrow> ss_table_participation st = WaitingForBlind | None \<Rightarrow> False)"
    by code_simp
  then obtain start l' st where b: "begin_hand waiter_roster = Some (Inr start, l')" "3 \<in> fst ` set (hs_stacks start)"
    "table_seat (lc_seats waiter_roster) 3 = Some st" "ss_table_participation st = WaitingForBlind"
    by (auto split: option.splits prod.splits sum.splits)
  show ?thesis using waiter_is_dealt_in_as_big_blind [OF waiter_roster_ok b(1,3,4,2)] b(1) by blast
qed

text \<open>
  C12: at a table where two play, a single player who waits for the big blind waits forever: however
  many hands are played, as long as both keep chips, the waiting player is not dealt in.
\<close>

theorem heads_up_waiter_starves:
  assumes "heads_up_with_waiter w l" "plays_on\<^sup>*\<^sup>* l l'"
  shows "w \<notin> set (dealable l') \<and> (\<exists>st. table_seat (lc_seats l') w = Some st \<and>
    ss_table_participation st = WaitingForBlind)"
proof -
  have "waiting_seats l' = [w]" using waiter_starves [OF assms(2,1)] by (simp add: heads_up_with_waiter_def)
  then have "w \<in> set (waiting_seats l')" by simp
  then show ?thesis
    by (auto simp: waiting_seats_def dealable_def seat_satisfies_def eligible_for_next_hand_def split: option.splits)
qed

definition starving_ops :: "roster_op list" where
  "starving_ops = [OpJoin 1 0 1000, OpJoin 2 1 1000, OpBeginHand, OpCompleteHand [(0, 1000), (1, 1000)],
     OpJoinWithEntry 3 2 1000 WaitForBigBlind]"

definition starving_roster :: table_lifecycle where
  "starving_roster = the (run_ops starving_ops (lifecycle_new 3))"

theorem heads_up_waiter_starves_witness:
  "roster_reachable starving_roster \<and> (\<exists>l'. plays_on starving_roster l' \<and> 2 \<notin> set (dealable l'))"
proof -
  have "run_ops starving_ops (lifecycle_new 3) \<noteq> None" by code_simp
  then have "run_ops starving_ops (lifecycle_new 3) = Some starving_roster" by (auto simp: starving_roster_def)
  then have reach: "roster_reachable starving_roster"
    by (rule run_ops_reachable [OF roster_reachable.created [OF valid_three]])
  have "lc_state starving_roster \<noteq> Closed \<and> lc_active_hand starving_roster = None \<and> length (dealable starving_roster) = 2 \<and>
      waiting_seats starving_roster = [2] \<and> 0 \<in> set (dealable starving_roster) \<and> lc_last_button starving_roster = Some 0"
    by code_simp
  then have hu: "heads_up_with_waiter 2 starving_roster"
    using reachable_ok [OF reach] by (auto simp: heads_up_with_waiter_def)
  have "(case begin_hand starving_roster of Some (Inr start, l1) \<Rightarrow>
      (case complete_hand l1 [(0, 900), (1, 1100)] of Some (Inr u, l2) \<Rightarrow> True | _ \<Rightarrow> False) | _ \<Rightarrow> False)" by code_simp
  then obtain start l1 l2 where "begin_hand starving_roster = Some (Inr start, l1)"
    "complete_hand l1 [(0, 900), (1, 1100)] = Some (Inr (), l2)"
    by (auto split: option.splits prod.splits sum.splits)
  then have "plays_on starving_roster l2" by (rule plays_on.hand) simp
  then show ?thesis using heads_up_waiter_starves [OF hu, of l2] reach by blast
qed

text \<open>
  A late player who posts the big blind and is the small blind of the first hand dealt in posts
  both: the hand opens at three small blinds, and the others must call more than the big blind.
\<close>

definition late_start :: "hand_start option" where
  "late_start = Option.bind (run_ops [OpJoin 1 0 1000, OpJoin 2 1 1000, OpBeginHand, OpCompleteHand [(0, 1000), (1, 1000)],
     OpJoinWithEntry 3 2 1000 PostLiveBigBlind, OpBeginHand] (lifecycle_new 3)) lc_active_hand"

theorem late_small_blind_posts_twice:
  "\<exists>start h. late_start = Some start \<and>
    into_hand (\<lambda>g cs. (cs, g)) () (\<lambda>_. ()) start 3 None = Some (Inr h) \<and>
    mh_small_blind h = 2 \<and> map_option ms_street_contribution (mw_seat h 2) = Some 3 \<and>
    mh_current_wager h = 3 \<and> bv_big_blind (mh_blind_values h) = 2"
proof -
  have "(case late_start of None \<Rightarrow> False | Some start \<Rightarrow>
      (case into_hand (\<lambda>g cs. (cs, g)) () (\<lambda>_. ()) start 3 None of
        Some (Inr h) \<Rightarrow> mh_small_blind h = 2 \<and> map_option ms_street_contribution (mw_seat h 2) = Some 3 \<and>
          mh_current_wager h = 3 \<and> bv_big_blind (mh_blind_values h) = 2
      | _ \<Rightarrow> False))" by code_simp
  then show ?thesis by (auto split: option.splits sum.splits)
qed

end
