(* ===== verification/Hand_Spec.thy ===== *)
theory Hand_Spec
  imports Hand_Facts
begin

text \<open>
  The rules of poker as a specification of \<open>evaluate_five\<close>: the category of five cards from the counts of
  their ranks and suits, and the tie breakers, which order the ranks by how often they occur and then
  by their height. Five distinct cards are evaluated to exactly this key.
\<close>

definition same_suit :: "card list \<Rightarrow> bool" where
  "same_suit cards \<longleftrightarrow> (\<exists>s. \<forall>c\<in>set cards. card_suit c = s)"

definition rank_count :: "card list \<Rightarrow> rank \<Rightarrow> nat" where
  "rank_count cards r = count_list (map card_rank cards) r"

definition rank_values :: "card list \<Rightarrow> nat set" where
  "rank_values cards = rank_value ` card_rank ` set cards"

text \<open>Five consecutive ranks, the ace counting low below a two.\<close>

definition straight_to :: "card list \<Rightarrow> rank \<Rightarrow> bool" where
  "straight_to cards high \<longleftrightarrow>
     (6 \<le> rank_value high \<and> rank_values cards = {rank_value high - 4..rank_value high}) \<or>
     (high = Five \<and> rank_values cards = {14, 2, 3, 4, 5})"

definition category :: "card list \<Rightarrow> hand_rank" where
  "category cards =
    (if (\<exists>h. straight_to cards h) \<and> same_suit cards then StraightFlush
     else if \<exists>r. rank_count cards r = 4 then FourOfAKind
     else if (\<exists>r. rank_count cards r = 3) \<and> (\<exists>r. rank_count cards r = 2) then FullHouse
     else if same_suit cards then Flush
     else if \<exists>h. straight_to cards h then Straight
     else if \<exists>r. rank_count cards r = 3 then ThreeOfAKind
     else if \<exists>r r'. r \<noteq> r' \<and> rank_count cards r = 2 \<and> rank_count cards r' = 2 then TwoPair
     else if \<exists>r. rank_count cards r = 2 then OnePair
     else HighCard)"

definition tie_key :: "card list \<Rightarrow> rank \<Rightarrow> nat \<times> rank" where
  "tie_key cards r = (rank_count cards r, r)"

text \<open>The ranks of the cards, each once, the more frequent and then the higher first.\<close>

definition tie_breakers :: "card list \<Rightarrow> rank list \<Rightarrow> bool" where
  "tie_breakers cards ks \<longleftrightarrow> set ks = card_rank ` set cards \<and> sorted_wrt (\<lambda>x y. tie_key cards y < tie_key cards x) ks"

definition poker_key :: "card list \<Rightarrow> hand_rank \<times> rank list \<Rightarrow> bool" where
  "poker_key cards k \<longleftrightarrow> fst k = category cards \<and>
     (if fst k = Straight \<or> fst k = StraightFlush then \<exists>h. snd k = [h] \<and> straight_to cards h
      else tie_breakers cards (snd k))"

text \<open>The specification determines the key.\<close>

lemma tie_breakers_unique:
  assumes "tie_breakers cards xs" "tie_breakers cards ys"
  shows "xs = ys"
proof -
  have "sorted_wrt (<) (map (tie_key cards) (rev xs))" "sorted_wrt (<) (map (tie_key cards) (rev ys))"
    using assms by (simp_all add: tie_breakers_def sorted_wrt_map sorted_wrt_rev)
  moreover have "set (map (tie_key cards) (rev xs)) = set (map (tie_key cards) (rev ys))"
    using assms by (simp add: tie_breakers_def)
  ultimately have "map (tie_key cards) (rev xs) = map (tie_key cards) (rev ys)"
    using strict_sorted_equal by blast
  moreover have "inj (tie_key cards)" by (simp add: inj_def tie_key_def)
  ultimately show ?thesis by (simp add: inj_map_eq_map)
qed

subsection \<open>Straights\<close>

lemma rank_value_less: "r < s \<longleftrightarrow> rank_value r < rank_value s"
  by (simp add: less_rank_def)

lemma descending_ranks:
  fixes rs :: "rank list"
  shows "sorted_wrt (>) (remdups_adj (sort_descending rs))" "set (remdups_adj (sort_descending rs)) = set rs"
proof -
  have "remdups_adj (sort_descending rs) = rev (remdups_adj (sort rs))"
    by (simp add: sort_descending_def remdups_adj_rev)
  then show "sorted_wrt (>) (remdups_adj (sort_descending rs))"
    using strict_remdups_adj [of "sort rs"] by (simp add: sorted_wrt_rev)
qed simp

lemma wheel_card: "card {14, 2, 3, 4, 5 :: nat} = 5"
  by simp

lemma straight_card:
  assumes "(6 \<le> rank_value h \<and> V = {rank_value h - 4..rank_value h}) \<or> V = {14, 2, 3, 4, 5}"
  shows "card V = 5"
  using assms by (auto simp: Suc_diff_le)

text \<open>Five strictly descending values.\<close>

lemma five_values:
  fixes a b c d e :: nat
  assumes "b < a" "c < b" "d < c" "e < d" "2 \<le> e" "a \<le> 14"
  shows "{14, 2, 3, 4, 5} \<subseteq> {a, b, c, d, e} \<longleftrightarrow> a = 14 \<and> b = 5 \<and> c = 4 \<and> d = 3 \<and> e = 2"
    and "{a, b, c, d, e} = {h - 4..h} \<and> 6 \<le> h \<longleftrightarrow> a = h \<and> a = e + 4"
proof -
  show "{14, 2, 3, 4, 5} \<subseteq> {a, b, c, d, e} \<longleftrightarrow> a = 14 \<and> b = 5 \<and> c = 4 \<and> d = 3 \<and> e = 2"
    using assms by auto
  show "{a, b, c, d, e} = {h - 4..h} \<and> 6 \<le> h \<longleftrightarrow> a = h \<and> a = e + 4"
  proof
    assume *: "{a, b, c, d, e} = {h - 4..h} \<and> 6 \<le> h"
    then have eq: "{a, b, c, d, e} = {h - 4..h}" by simp
    have "h \<in> {a, b, c, d, e}" "h - 4 \<in> {a, b, c, d, e}" unfolding eq by simp_all
    moreover have "a \<in> {h - 4..h}" "e \<in> {h - 4..h}" unfolding eq [symmetric] by simp_all
    ultimately have "a = h" "e = h - 4" using assms by auto
    then show "a = h \<and> a = e + 4" using * by simp
  next
    assume *: "a = h \<and> a = e + 4"
    then have "b = e + 3" "c = e + 2" "d = e + 1" using assms by simp_all
    moreover have "{h - 4..h} = {e, e + 1, e + 2, e + 3, e + 4}" using * by auto
    ultimately show "{a, b, c, d, e} = {h - 4..h} \<and> 6 \<le> h" using * assms(5) by auto
  qed
qed

lemma check_straight_iff:
  assumes "sorted_wrt (>) ranks" "length ranks \<le> 5"
  shows "check_straight ranks = Some high \<longleftrightarrow>
     (6 \<le> rank_value high \<and> rank_value ` set ranks = {rank_value high - 4..rank_value high}) \<or>
     (high = Five \<and> rank_value ` set ranks = {14, 2, 3, 4, 5})" (is "_ \<longleftrightarrow> ?spec")
proof (cases "length ranks = 5")
  case False
  have "card (rank_value ` set ranks) \<le> length ranks"
    by (metis card_image_le card_length finite_set le_trans)
  then have "card (rank_value ` set ranks) \<noteq> 5" using False assms(2) by simp
  then have "\<not> ?spec" using straight_card by blast
  then show ?thesis using False assms(2) by (simp add: check_straight_def)
next
  case True
  then obtain a b c d e where r: "ranks = [a, b, c, d, e]"
    by (auto simp: length_Suc_conv eval_nat_numeral)
  define va vb vc vd ve where v: "va = rank_value a" "vb = rank_value b" "vc = rank_value c"
    "vd = rank_value d" "ve = rank_value e"
  have order: "vb < va" "vc < vb" "vd < vc" "ve < vd" "2 \<le> ve" "va \<le> 14"
    using assms(1) rank_value_bounds by (simp_all add: r v rank_value_less)
  have check: "check_straight ranks = (if va = 14 \<and> vb = 5 \<and> vc = 4 \<and> vd = 3 \<and> ve = 2 then Some Five
      else if va = ve + 4 then Some a else None)"
  proof -
    have "14 \<in> set (map rank_value ranks) \<and> 2 \<in> set (map rank_value ranks) \<and> 3 \<in> set (map rank_value ranks)
        \<and> 4 \<in> set (map rank_value ranks) \<and> 5 \<in> set (map rank_value ranks)
        \<longleftrightarrow> {14, 2, 3, 4, 5} \<subseteq> {va, vb, vc, vd, ve}"
      by (auto simp: r v)
    then have wheel: "14 \<in> set (map rank_value ranks) \<and> 2 \<in> set (map rank_value ranks) \<and> 3 \<in> set (map rank_value ranks)
        \<and> 4 \<in> set (map rank_value ranks) \<and> 5 \<in> set (map rank_value ranks)
        \<longleftrightarrow> va = 14 \<and> vb = 5 \<and> vc = 4 \<and> vd = 3 \<and> ve = 2"
      unfolding five_values(1) [OF order] .
    have run: "int (rank_value a) - int (rank_value e) = 4 \<longleftrightarrow> va = ve + 4"
      using order by (simp add: v) linarith
    have windows: "windows5 ranks = [ranks]" "ranks ! 0 = a" "ranks ! 4 = e" "\<not> length ranks < 5"
      using True by (simp_all add: r)
    show ?thesis
      unfolding check_straight_def Let_def wheel windows(1)
      by (cases "va = ve + 4") (simp_all only: run windows first_match_simps if_True if_False simp_thms option.map)
  qed
  have vals: "rank_value ` set ranks = {va, vb, vc, vd, ve}" by (simp add: r v)
  have run: "6 \<le> rank_value high \<and> {va, vb, vc, vd, ve} = {rank_value high - 4..rank_value high}
      \<longleftrightarrow> va = rank_value high \<and> va = ve + 4"
    using five_values(2) [OF order, of "rank_value high"] by blast
  have wheel: "{va, vb, vc, vd, ve} = {14, 2, 3, 4, 5} \<longleftrightarrow> va = 14 \<and> vb = 5 \<and> vc = 4 \<and> vd = 3 \<and> ve = 2"
  proof
    assume "{va, vb, vc, vd, ve} = {14, 2, 3, 4, 5}"
    then have "{14, 2, 3, 4, 5} \<subseteq> {va, vb, vc, vd, ve}" by simp
    then show "va = 14 \<and> vb = 5 \<and> vc = 4 \<and> vd = 3 \<and> ve = 2" unfolding five_values(1) [OF order] .
  next
    assume "va = 14 \<and> vb = 5 \<and> vc = 4 \<and> vd = 3 \<and> ve = 2"
    then show "{va, vb, vc, vd, ve} = {14, 2, 3, 4, 5}" by (simp add: insert_commute)
  qed
  have "a = high \<longleftrightarrow> va = rank_value high" by (simp add: v)
  then show ?thesis
    unfolding check vals run wheel by auto
qed

lemma check_straight_cards:
  assumes "length cards = 5"
  shows "check_straight (remdups_adj (sort_descending (map card_rank cards))) = Some h \<longleftrightarrow> straight_to cards h"
proof -
  let ?rs = "remdups_adj (sort_descending (map card_rank cards))"
  have "length ?rs \<le> 5" using assms by (metis length_map remdups_adj_length sort_descending_simps(2))
  moreover have "rank_value ` set ?rs = rank_values cards"
    by (simp add: rank_values_def)
  ultimately show ?thesis
    using check_straight_iff [of ?rs h] descending_ranks(1) by (simp add: straight_to_def)
qed

subsection \<open>Counts\<close>

lemma flush_iff:
  assumes "length cards = 5"
  shows "list_ex (\<lambda>(s, c). 5 \<le> c) (tally (map card_suit cards)) \<longleftrightarrow> same_suit cards"
proof -
  have "count_list (map card_suit cards) s = 5 \<longleftrightarrow> (\<forall>c\<in>set cards. card_suit c = s)" for s
  proof -
    have "count_list xs s = length xs \<longleftrightarrow> (\<forall>x\<in>set xs. x = s)" for xs
    proof (induction xs)
      case (Cons x xs)
      have "count_list xs s \<le> length xs" by (rule count_le_length)
      with Cons show ?case by auto
    qed simp
    from this [of "map card_suit cards"] show ?thesis using assms by simp
  qed
  moreover have "count_list (map card_suit cards) s \<le> 5" for s
    using count_le_length [of "map card_suit cards" s] assms by simp
  then have "5 \<le> count_list (map card_suit cards) s \<longleftrightarrow> count_list (map card_suit cards) s = 5" for s
    using le_antisym [of "count_list (map card_suit cards) s" 5] by auto
  moreover have "list_ex (\<lambda>(s, c). 5 \<le> c) (tally (map card_suit cards))
      \<longleftrightarrow> (\<exists>s. 5 \<le> count_list (map card_suit cards) s)"
    unfolding list_ex_iff by (force simp: tally_entry)
  ultimately show ?thesis
    unfolding same_suit_def by metis
qed

lemma key_with_count_Some: "key_with_count n (tally ks) = Some k \<Longrightarrow> 0 < n \<and> count_list ks k = n"
  by (auto simp: key_with_count_def tally_entry dest!: first_match_SomeD)

lemma key_with_count_None: "key_with_count n (tally ks) = None \<longleftrightarrow> (\<forall>k. 0 < n \<longrightarrow> count_list ks k \<noteq> n)"
proof -
  have "key_with_count n (tally ks) = None \<longleftrightarrow> (\<forall>k. (k, n) \<notin> set (tally ks))"
    by (auto simp: key_with_count_def)
  then show ?thesis by (auto simp: tally_entry)
qed

lemma three_counts:
  assumes "distinct [a, b, c]"
  shows "count_list ks a + count_list ks b + count_list ks c \<le> length ks"
  using assms by (induction ks) auto

text \<open>Cards of one rank differ in suit, and the other way round.\<close>

lemma rank_count_max:
  assumes "distinct cards" shows "rank_count cards r \<le> 4"
proof -
  have "rank_count cards r = length (filter (\<lambda>c. card_rank c = r) cards)"
    by (simp add: rank_count_def count_list_eq_length_filter filter_map comp_def eq_commute)
  also have "\<dots> = card (set (filter (\<lambda>c. card_rank c = r) cards))"
    using assms by (intro distinct_card [symmetric]) simp
  also have "\<dots> = card (card_suit ` set (filter (\<lambda>c. card_rank c = r) cards))"
    by (rule card_image [symmetric]) (auto intro!: inj_onI card.equality)
  also have "\<dots> \<le> card {Spades, Hearts, Diamonds, Clubs}"
    by (rule card_mono) (auto intro: suit.exhaust)
  finally show ?thesis by simp
qed

lemma same_suit_ranks:
  assumes "distinct cards" "same_suit cards" shows "rank_count cards r \<le> 1"
proof -
  have "inj_on card_rank (set cards)"
    using assms(2) by (auto simp: same_suit_def intro!: inj_onI card.equality)
  then have "distinct (map card_rank cards)" using assms(1) by (simp add: distinct_map)
  moreover have "distinct xs \<Longrightarrow> count_list xs r \<le> 1" for xs
    by (induction xs) (auto simp: count_list_0_iff)
  ultimately show ?thesis by (simp add: rank_count_def)
qed


subsection \<open>Tie breakers\<close>

abbreviation ranks_of :: "card list \<Rightarrow> rank list" where
  "ranks_of cards \<equiv> remdups_adj (sort_descending (map card_rank cards))"

lemma rank_count_pos: "0 < rank_count cards r \<longleftrightarrow> r \<in> card_rank ` set cards"
  by (simp add: rank_count_def count_list_0_iff flip: neq0_conv)

text \<open>Ranks that occur equally often first, the single ones after them.\<close>

lemma tie_breakers_grouped:
  assumes "sorted_wrt (>) hs" "\<And>h. h \<in> set hs \<Longrightarrow> rank_count cards h = n" "1 < n"
    and "\<And>r. r \<in> card_rank ` set cards \<Longrightarrow> r \<notin> set hs \<Longrightarrow> rank_count cards r = 1"
  shows "tie_breakers cards (hs @ filter (\<lambda>r. r \<notin> set hs) (ranks_of cards))"
proof -
  have "set hs \<subseteq> card_rank ` set cards"
    using assms(2,3) rank_count_pos by (metis le_less_trans subsetI zero_le)
  then have "set (hs @ filter (\<lambda>r. r \<notin> set hs) (ranks_of cards)) = card_rank ` set cards"
    by auto
  moreover have "sorted_wrt (\<lambda>x y. tie_key cards y < tie_key cards x) hs"
    by (rule sorted_wrt_mono_rel [OF _ assms(1)]) (simp add: tie_key_def assms(2))
  moreover have "sorted_wrt (\<lambda>x y. tie_key cards y < tie_key cards x) (filter (\<lambda>r. r \<notin> set hs) (ranks_of cards))"
    by (rule sorted_wrt_mono_rel [OF _ sorted_wrt_filter [OF descending_ranks(1)]])
      (auto simp: tie_key_def assms(4))
  moreover have "tie_key cards y < tie_key cards x"
    if "x \<in> set hs" "y \<in> set (filter (\<lambda>r. r \<notin> set hs) (ranks_of cards))" for x y
    using that assms(2,3,4) by (auto simp: tie_key_def)
  ultimately show ?thesis
    by (simp add: tie_breakers_def sorted_wrt_append)
qed

lemma tie_breakers_single:
  assumes "\<And>r. r \<in> card_rank ` set cards \<Longrightarrow> rank_count cards r = 1"
  shows "tie_breakers cards (ranks_of cards)"
  using tie_breakers_grouped [of "[]" cards 2] assms by simp

lemma tie_breakers_one:
  assumes "rank_count cards t = n" "1 < n"
    and "\<And>r. r \<in> card_rank ` set cards \<Longrightarrow> r \<noteq> t \<Longrightarrow> rank_count cards r = 1"
  shows "tie_breakers cards (t # filter (\<lambda>r. r \<noteq> t) (ranks_of cards))"
  using tie_breakers_grouped [of "[t]" cards n] assms by simp

lemma two_counts:
  assumes "length cards = 5" "r \<noteq> r'"
  shows "rank_count cards r + rank_count cards r' \<le> 5"
  using distinct_pair_counts [of r r' "map card_rank cards"] assms by (simp add: rank_count_def)

lemma counts_of_three:
  assumes "length cards = 5" "r \<noteq> r'" "r \<noteq> r''" "r' \<noteq> r''"
  shows "rank_count cards r + rank_count cards r' + rank_count cards r'' \<le> 5"
  using three_counts [of r r' r'' "map card_rank cards"] assms by (simp add: rank_count_def)

lemma full_house_breakers:
  assumes "length cards = 5" "rank_count cards t = 3" "rank_count cards p = 2"
  shows "tie_breakers cards [t, p]"
proof -
  have "r = t \<or> r = p" if "r \<in> card_rank ` set cards" for r
    using counts_of_three [OF assms(1), of t p r] assms(2,3) that rank_count_pos [of cards r] by fastforce
  moreover have "t \<in> card_rank ` set cards" "p \<in> card_rank ` set cards"
    using assms(2,3) by (simp_all flip: rank_count_pos)
  ultimately have "set [t, p] = card_rank ` set cards" by auto
  then show ?thesis
    using assms(2,3) by (simp add: tie_breakers_def tie_key_def)
qed

subsection \<open>Five cards evaluate to their poker key\<close>

text \<open>What the code reads off the counts, with its meaning.\<close>

lemma no_key_iff:
  "0 < n \<Longrightarrow> key_with_count n (tally (map card_rank cards)) = None \<longleftrightarrow> (\<forall>r. rank_count cards r \<noteq> n)"
  by (simp add: key_with_count_None rank_count_def)

lemma some_key: "key_with_count n (tally (map card_rank cards)) = Some r \<Longrightarrow> 0 < n \<and> rank_count cards r = n"
  using key_with_count_Some [of n "map card_rank cards" r] by (simp add: rank_count_def)

definition paired :: "card list \<Rightarrow> rank list" where
  "paired cards = sort_descending (keys_with_count 2 (tally (map card_rank cards)))"

lemma paired_ranks: "set (paired cards) = {r. rank_count cards r = 2}" "sorted_wrt (>) (paired cards)"
proof -
  let ?ks = "keys_with_count 2 (tally (map card_rank cards))"
  show set: "set (paired cards) = {r. rank_count cards r = 2}"
    by (auto simp: paired_def keys_with_count_def tally_entry rank_count_def image_iff)
  have "distinct ?ks"
    using tally_distinct [of "map card_rank cards"]
    by (auto simp: keys_with_count_def intro: distinct_map_filter)
  then have "sorted_wrt (<) (sort ?ks)" by (simp add: strict_sorted_iff)
  then show "sorted_wrt (>) (paired cards)"
    by (simp add: paired_def sort_descending_def sorted_wrt_rev)
qed

lemma paired_two:
  assumes "length cards = 5" "paired cards = high # low # rest"
  shows "rest = []"
proof (cases rest)
  case (Cons third more)
  then have "rank_count cards high = 2" "rank_count cards low = 2" "rank_count cards third = 2"
    using paired_ranks(1) [of cards] assms(2) by auto
  moreover have "high \<noteq> low" "high \<noteq> third" "low \<noteq> third"
    using paired_ranks(2) [of cards] assms(2) Cons by auto
  ultimately show ?thesis using counts_of_three [OF assms(1), of high low third] by simp
qed simp

text \<open>Without a four, a three or (but for the ranks named) a two, a rank occurs once.\<close>

lemma lone_rank:
  assumes "distinct cards" "r \<in> card_rank ` set cards" "rank_count cards r \<notin> {2, 3, 4}"
  shows "rank_count cards r = 1"
proof -
  have "rank_count cards r \<le> 4" "0 < rank_count cards r"
    using assms(1,2) by (simp_all add: rank_count_max rank_count_pos)
  then show ?thesis using assms(3) by auto
qed

lemma quads_breakers:
  assumes "length cards = 5" "rank_count cards t = 4"
  shows "tie_breakers cards (t # filter (\<lambda>r. r \<noteq> t) (ranks_of cards))"
proof (rule tie_breakers_one [OF assms(2)])
  fix r assume "r \<in> card_rank ` set cards" "r \<noteq> t"
  then show "rank_count cards r = 1"
    using two_counts [OF assms(1), of t r] assms(2) rank_count_pos [of cards r] by simp
qed simp

lemma trips_breakers:
  assumes "length cards = 5" "rank_count cards t = 3" "\<forall>r. rank_count cards r \<noteq> 2"
  shows "tie_breakers cards (t # filter (\<lambda>r. r \<noteq> t) (ranks_of cards))"
proof (rule tie_breakers_one [OF assms(2)])
  fix r assume "r \<in> card_rank ` set cards" "r \<noteq> t"
  then have "0 < rank_count cards r" "rank_count cards r \<le> 2"
    using two_counts [OF assms(1), of t r] assms(2) rank_count_pos [of cards r] by simp_all
  then show "rank_count cards r = 1" using assms(3) by (metis One_nat_def Suc_leI le_antisym less_2_cases_iff nat_less_le)
qed simp

lemma pairs_breakers:
  assumes "distinct cards" "paired cards = hs" "\<forall>r. rank_count cards r \<noteq> 3" "\<forall>r. rank_count cards r \<noteq> 4"
  shows "tie_breakers cards (hs @ filter (\<lambda>r. r \<notin> set hs) (ranks_of cards))"
proof (rule tie_breakers_grouped [where n = 2])
  show "sorted_wrt (>) hs" using paired_ranks(2) [of cards] assms(2) by simp
  show "rank_count cards h = 2" if "h \<in> set hs" for h
    using that paired_ranks(1) [of cards] assms(2) by auto
  show "rank_count cards r = 1" if "r \<in> card_rank ` set cards" "r \<notin> set hs" for r
    using lone_rank [OF assms(1) that(1)] that(2) assms(2-4) paired_ranks(1) [of cards] by auto
qed simp

lemma flush_breakers:
  assumes "distinct cards" "same_suit cards"
  shows "tie_breakers cards (ranks_of cards)"
proof (rule tie_breakers_single)
  fix r assume "r \<in> card_rank ` set cards"
  then show "rank_count cards r = 1"
    using same_suit_ranks [OF assms, of r] rank_count_pos [of cards r] by simp
qed

lemma evaluate_unranked:
  assumes five: "length cards = 5" and distinct: "distinct cards"
    and no_sf: "\<not> (same_suit cards \<and> check_straight (ranks_of cards) \<noteq> None)"
    and no4: "key_with_count 4 (tally (map card_rank cards)) = None"
    and no3: "key_with_count 3 (tally (map card_rank cards)) = None"
    and plain: "\<not> same_suit cards" "check_straight (ranks_of cards) = None"
  shows "\<exists>e. evaluate_five cards = Some e \<and> poker_key cards (ev_rank e, ev_kickers e)"
proof -
  note eval = evaluate_five_def evaluate_five_with_def Let_def flush_iff [OF five] paired_def [symmetric]
  have no_run: "\<not> straight_to cards h" for h
    using check_straight_cards [OF five, of h] plain(2) by simp
  have none: "\<forall>r. rank_count cards r \<noteq> 4" "\<forall>r. rank_count cards r \<noteq> 3"
    using no4 no3 by (simp_all add: no_key_iff)
  have pairs: "r \<in> set (paired cards) \<longleftrightarrow> rank_count cards r = 2" for r
    by (simp add: paired_ranks(1))
  have category: "category cards = (if \<exists>r r'. r \<noteq> r' \<and> rank_count cards r = 2 \<and> rank_count cards r' = 2 then TwoPair
      else if \<exists>r. rank_count cards r = 2 then OnePair else HighCard)"
  proof -
    have "(\<exists>r. rank_count cards r = 4) = False" "(\<exists>r. rank_count cards r = 3) = False"
      "(\<exists>h. straight_to cards h) = False" "same_suit cards = False"
      using plain(1) no_run none by simp_all
    then show ?thesis by (simp only: category_def simp_thms if_False)
  qed
  note breakers = pairs_breakers [OF distinct refl none(2,1)]
  consider (zero) "paired cards = []" | (one) r where "paired cards = [r]"
    | (two) high low where "paired cards = [high, low]"
    using paired_two [OF five] by (cases "paired cards"; cases "tl (paired cards)") auto
  then show ?thesis
  proof cases
    case zero
    then have "category cards = HighCard" using pairs by (simp add: category)
    moreover obtain m where "max_rank (map card_rank cards) = Some m"
      using five by (cases cards) (auto simp: max_rank_def)
    ultimately show ?thesis
      using zero plain no4 no3 breakers by (simp add: eval poker_key_def)
  next
    case one
    then have only: "rank_count cards s = 2 \<longleftrightarrow> s = r" for s using pairs [of s] by simp
    have "category cards = OnePair" by (simp add: category only)
    then show ?thesis using one plain no4 no3 breakers by (simp add: eval poker_key_def)
  next
    case two
    moreover have "high \<noteq> low" using paired_ranks(2) [of cards] two by auto
    ultimately have "category cards = TwoPair" using pairs by (auto simp: category)
    then show ?thesis using two plain no4 no3 breakers by (simp add: eval poker_key_def)
  qed
qed

lemma evaluate_without_quads:
  assumes five: "length cards = 5" and distinct: "distinct cards"
    and no_sf: "\<not> (same_suit cards \<and> check_straight (ranks_of cards) \<noteq> None)"
    and no4: "key_with_count 4 (tally (map card_rank cards)) = None"
  shows "\<exists>e. evaluate_five cards = Some e \<and> poker_key cards (ev_rank e, ev_kickers e)"
proof -
  let ?straight = "check_straight (ranks_of cards)"
  let ?trips = "key_with_count 3 (tally (map card_rank cards))"
  let ?pair = "key_with_count 2 (tally (map card_rank cards))"
  note eval = evaluate_five_def evaluate_five_with_def Let_def flush_iff [OF five] paired_def [symmetric]
  have run: "?straight = Some h \<longleftrightarrow> straight_to cards h" for h
    using check_straight_cards [OF five] by simp
  have no_run: "?straight = None \<longleftrightarrow> \<not> (\<exists>h. straight_to cards h)"
    using run by (metis not_None_eq)
  have none4: "\<forall>r. rank_count cards r \<noteq> 4" using no4 by (simp add: no_key_iff)
  note no_sf' = no_sf [unfolded no_run]
  show ?thesis
  proof (cases "?trips \<noteq> None \<and> ?pair \<noteq> None")
    case True
    then obtain t p where tp: "?trips = Some t" "?pair = Some p" by blast
    then have counts: "rank_count cards t = 3" "rank_count cards p = 2" using some_key by blast+
    then have "category cards = FullHouse" using no_sf' none4 by (auto simp: category_def)
    then show ?thesis
      using no_sf no4 tp full_house_breakers [OF five counts] by (simp add: eval poker_key_def)
  next
    case no_house: False
    then have no_house': "\<not> ((\<exists>r. rank_count cards r = 3) \<and> (\<exists>r. rank_count cards r = 2))"
      by (simp add: no_key_iff)
    have skip: "(case ?trips of None \<Rightarrow> x | Some t \<Rightarrow> (case ?pair of None \<Rightarrow> x | Some p \<Rightarrow> f t p)) = x" for f and x :: "hand_evaluation option"
      using no_house by (auto split: option.splits)
    show ?thesis
    proof (cases "same_suit cards")
      case True
      then have "category cards = Flush" using no_sf' none4 no_house' by (simp add: category_def)
      moreover obtain r where "vec_get (ranks_of cards) 0 = Some r"
        using five by (cases "ranks_of cards") (auto simp: vec_get_def)
      ultimately show ?thesis
        using True no_sf no4 flush_breakers [OF distinct True] five
        by (auto simp: eval skip poker_key_def vec_get_def)
    next
      case no_flush: False
      show ?thesis
      proof (cases ?straight)
        case (Some h)
        then have to: "straight_to cards h" using run by simp
        then have "category cards = Straight"
          using no_flush no_house' none4 by (auto simp: category_def)
        then show ?thesis using Some no_flush no4 to by (simp add: eval skip poker_key_def)
      next
        case no_straight: None
        show ?thesis
        proof (cases ?trips)
          case None
          then show ?thesis by (rule evaluate_unranked [OF five distinct no_sf no4 _ no_flush no_straight])
        next
          case (Some t)
          then have t: "rank_count cards t = 3" "\<forall>r. rank_count cards r \<noteq> 2"
            using some_key no_house' by blast+
          then have "category cards = ThreeOfAKind"
            using no_flush no_straight no_house' none4 no_run by (auto simp: category_def)
          moreover have "?pair = None" using t(2) by (simp add: no_key_iff)
          ultimately show ?thesis
            using Some no_flush no_straight no4 trips_breakers [OF five t]
            by (simp add: eval poker_key_def)
        qed
      qed
    qed
  qed
qed

lemma evaluate_five_keyed:
  assumes five: "length cards = 5" and distinct: "distinct cards"
  shows "\<exists>e. evaluate_five cards = Some e \<and> poker_key cards (ev_rank e, ev_kickers e)"
proof -
  let ?straight = "check_straight (ranks_of cards)"
  have run: "?straight = Some h \<longleftrightarrow> straight_to cards h" for h
    using check_straight_cards [OF five] by simp
  then have no_run: "?straight = None \<longleftrightarrow> \<not> (\<exists>h. straight_to cards h)" by (metis not_None_eq)
  have no: "key_with_count 4 (tally (map card_rank cards)) = None \<longleftrightarrow> (\<forall>r. rank_count cards r \<noteq> 4)"
    "key_with_count 3 (tally (map card_rank cards)) = None \<longleftrightarrow> (\<forall>r. rank_count cards r \<noteq> 3)"
    "key_with_count 2 (tally (map card_rank cards)) = None \<longleftrightarrow> (\<forall>r. rank_count cards r \<noteq> 2)"
    by (simp_all add: no_key_iff)
  note eval = evaluate_five_def evaluate_five_with_def Let_def flush_iff [OF five] paired_def [symmetric]
  show ?thesis
  proof (cases "same_suit cards \<and> ?straight \<noteq> None")
    case True
    then obtain h where h: "?straight = Some h" by blast
    then have to: "straight_to cards h" using run by simp
    then have "category cards = StraightFlush" using True by (auto simp: category_def)
    then show ?thesis using True h to by (simp add: eval poker_key_def)
  next
    case no_sf: False
    show ?thesis
    proof (cases "key_with_count 4 (tally (map card_rank cards))")
      case (Some t)
      then have t: "rank_count cards t = 4" using some_key by blast
      then have "category cards = FourOfAKind" using no_sf no_run by (auto simp: category_def)
      then show ?thesis using no_sf Some quads_breakers [OF five t] by (simp add: eval poker_key_def)
    next
      case no4: None
      show ?thesis
        using evaluate_without_quads [OF five distinct no_sf no4] .
    qed
  qed
qed

end
