(* ===== verification/Pots_Law.thy ===== *)
theory Pots_Law
  imports Pots_Facts Hand_Spec
begin

text \<open>
  What the pots and the best hand promise, over the facts of \<open>Pots_Facts\<close> and \<open>Hand_Spec\<close>: the
  side-pot law (a contributor can win from each other seat no more than it put in itself), the shares
  of a pot, and the best hand as the maximum of the poker keys of the five-card choices.
\<close>

subsection \<open>The side-pot law\<close>

definition pots_for :: "pot_build \<Rightarrow> seat_id \<Rightarrow> nat" where
  "pots_for b s = sum_list (map pot_amount (filter (\<lambda>p. s \<in> set (pot_eligible p)) (pb_pots b)))"

definition returned_to :: "pot_build \<Rightarrow> seat_id \<Rightarrow> nat" where
  "returned_to b s = sum_list (map re_amount (filter (\<lambda>r. re_seat r = s) (pb_returned b)))"

lemma layer_pots_for:
  assumes "\<And>a ms. (a, ms) \<in> set ls \<Longrightarrow> set ms \<subseteq> set cs" "inj_on ct_seat (set cs)" "e \<in> set cs" "ct_eligible e"
  shows "sum_list (map pot_amount (filter (\<lambda>p. ct_seat e \<in> set (pot_eligible p)) (layer_pots ls)))
      + sum_list (map re_amount (filter (\<lambda>r. re_seat r = ct_seat e) (layer_returns ls)))
    = sum_list (map fst (filter (\<lambda>(a, ms). e \<in> set ms) ls))"
  using assms(1)
proof (induction ls)
  case (Cons l ls)
  obtain a ms where l: "l = (a, ms)" by (cases l)
  have sub: "set ms \<subseteq> set cs" using Cons.prems [of a ms] l by simp
  have eligible: "ct_seat e \<in> ct_seat ` {c \<in> set ms. ct_eligible c} \<longleftrightarrow> e \<in> set ms"
    using inj_onD [OF assms(2)] sub assms(3,4) by blast
  have single: "ct_seat (ms ! 0) = ct_seat e \<longleftrightarrow> e \<in> set ms" if one: "length ms = 1"
  proof -
    obtain m where "ms = [m]" using one by (cases ms) auto
    then show ?thesis using inj_onD [OF assms(2), of m e] sub assms(3) by auto
  qed
  have IH: "sum_list (map pot_amount (filter (\<lambda>p. ct_seat e \<in> set (pot_eligible p)) (layer_pots ls)))
      + sum_list (map re_amount (filter (\<lambda>r. re_seat r = ct_seat e) (layer_returns ls)))
    = sum_list (map fst (filter (\<lambda>(a, ms). e \<in> set ms) ls))"
    using Cons.IH Cons.prems by auto
  show ?case
    using IH eligible single by (simp add: l layer_pots_def layer_returns_def)
qed (simp add: layer_pots_def layer_returns_def)

lemma side_pots:
  assumes "sum_list (map ct_amount cs) < u32_bound" "distinct (map ct_seat cs)" "e \<in> set cs" "ct_eligible e"
  shows "pots_for (build_pots cs) (ct_seat e) + returned_to (build_pots cs) (ct_seat e)
    = sum_list (map (\<lambda>c. min (ct_amount c) (ct_amount e)) cs)"
proof -
  have sub: "set ms \<subseteq> set cs" if "(a, ms) \<in> set (pot_layers cs)" for a ms
    using layers_amount [OF pot_levels_ascending] that by (simp add: pot_layers_def)
  have "inj_on ct_seat (set cs)" using assms(2) by (simp add: distinct_map)
  from layer_pots_for [OF sub this assms(3,4)]
  have "pots_for (build_pots cs) (ct_seat e) + returned_to (build_pots cs) (ct_seat e)
      = sum_list (map fst (filter (\<lambda>(a, ms). e \<in> set ms) (pot_layers cs)))"
    by (simp add: pots_for_def returned_to_def build_pots_view [OF assms(1)])
  also have "\<dots> = capped_rest 0 (ct_amount e) cs"
    unfolding pot_layers_def by (rule layers_of_member [OF pot_levels_ascending covers_levels assms(3)])
  finally show ?thesis by (simp add: capped_rest_def)
qed

subsection \<open>The best five cards\<close>

lemma poker_key_unique:
  assumes "length cards = 5" "poker_key cards k" "poker_key cards k'"
  shows "k = k'"
proof -
  have ranks: "fst k = fst k'" using assms(2,3) by (simp add: poker_key_def)
  have "snd k = snd k'"
  proof (cases "fst k = Straight \<or> fst k = StraightFlush")
    case True
    then obtain h h' where "snd k = [h]" "straight_to cards h" "snd k' = [h']" "straight_to cards h'"
      using assms(2,3) ranks by (auto simp: poker_key_def)
    then show ?thesis
      using check_straight_cards [OF assms(1), of h] check_straight_cards [OF assms(1), of h'] by simp
  next
    case False
    then show ?thesis
      using assms(2,3) ranks tie_breakers_unique [of cards "snd k" "snd k'"] by (simp add: poker_key_def)
  qed
  with ranks show ?thesis by (simp add: prod_eq_iff)
qed

lemma subseq_distinct: "subseq xs ys \<Longrightarrow> distinct ys \<Longrightarrow> distinct xs"
  by (induction rule: list_emb.induct) (auto dest: list_emb_set)

lemma best_five_keyed:
  assumes "5 \<le> length (hole @ board)" "distinct (hole @ board)"
  shows "\<exists>e five. evaluate_best_five hole board = Some (Some (e, five)) \<and>
    subseq five (hole @ board) \<and> length five = 5 \<and> poker_key five (ev_key e) \<and>
    (\<forall>cs k. subseq cs (hole @ board) \<longrightarrow> length cs = 5 \<longrightarrow> poker_key cs k \<longrightarrow> k \<le> ev_key e)"
proof -
  obtain e five where best: "evaluate_best_five hole board = Some (Some (e, five))"
      "is_best (combinations (hole @ board) 5) (e, five)"
    using evaluate_best_five_returns [OF assms(1)] by auto
  have keyed: "\<exists>e. evaluate_five cs = Some e \<and> poker_key cs (ev_key e)"
    if "subseq cs (hole @ board)" "length cs = 5" for cs
    unfolding ev_key_def
    using evaluate_five_keyed [OF that(2)] subseq_distinct [OF that(1) assms(2)] by blast
  have five: "subseq five (hole @ board)" "length five = 5" "evaluate_five five = Some e"
    using best(2) by (auto simp: is_best_def set_combinations)
  then have "poker_key five (ev_key e)" using keyed [of five] by auto
  moreover have "k \<le> ev_key e" if cs: "subseq cs (hole @ board)" "length cs = 5" "poker_key cs k" for cs k
  proof -
    obtain e' where e': "evaluate_five cs = Some e'" "poker_key cs (ev_key e')" using keyed cs by blast
    have "compare_hands e' e \<noteq> Greater"
      using best(2) e'(1) cs(1,2) by (simp add: is_best_def set_combinations)
    then show ?thesis
      using poker_key_unique [OF cs(2) cs(3) e'(2)] by (simp add: compare_hands_not_greater)
  qed
  ultimately show ?thesis using best(1) five(1,2) by blast
qed

subsection \<open>Awards\<close>

lemma split_pot_nth:
  assumes "winners \<noteq> []" "amount < u32_bound" "i < length winners"
  shows "sp_seat (split_pot amount winners ! i) = winners ! i"
    and "sp_amount (split_pot amount winners ! i)
      = amount div length winners + (if i < amount mod length winners then 1 else 0)"
  using assms by (simp_all add: split_pot_share nth_enumerate_eq)

lemma award_pot_order:
  assumes "award_pot n button evs i p = Some a"
  shows "sorted (map (clockwise_award_key n button) (pa_winners a)) \<and>
    pa_payouts a = split_pot (pot_amount p) (pa_winners a)"
  using assms by (auto simp: award_pot_def pot_winners_def Let_def split: bind_splits if_splits)

end
