(* ===== verification/Engine_Properties.thy ===== *)
theory Engine_Properties
  imports Pots_Law Table_Facts "HOL-Library.Code_Target_Nat"
begin

text \<open>
  The properties of the parts the hand engine is built from: the deck, the evaluator, the pots and the
  seats of a table.
\<close>

section \<open>The evaluator\<close>

text \<open>
  C13: \<open>evaluate_best_five\<close> on five or more distinct cards returns a hand of five of them with the key
  that the rules of poker give it (\<open>poker_key\<close>: the category, then the ranks by how often they occur and
  by their height, an ace counting low in a wheel), and no other choice of five has a higher key.
\<close>

theorem best_five_is_poker_best:
  assumes "5 \<le> length (hole @ board)" "distinct (hole @ board)"
  shows "\<exists>e five. evaluate_best_five hole board = Some (Some (e, five)) \<and>
    subseq five (hole @ board) \<and> length five = 5 \<and> poker_key five (ev_rank e, ev_kickers e) \<and>
    (\<forall>cs k. subseq cs (hole @ board) \<longrightarrow> length cs = 5 \<longrightarrow> poker_key cs k \<longrightarrow> k \<le> (ev_rank e, ev_kickers e))"
  using best_five_keyed [OF assms] by (simp only: ev_key_def)

theorem best_five_is_poker_best_witness:
  "\<exists>e five. evaluate_best_five [card_new Ace Spades, card_new Two Hearts]
      [card_new Three Clubs, card_new Four Spades, card_new Five Spades, card_new Ace Hearts] = Some (Some (e, five)) \<and>
    length five = 5 \<and> poker_key five (ev_rank e, ev_kickers e)"
  using best_five_is_poker_best [of "[card_new Ace Spades, card_new Two Hearts]"
      "[card_new Three Clubs, card_new Four Spades, card_new Five Spades, card_new Ace Hearts]"]
  by auto

text \<open>
  The evaluation of at most five cards depends neither on their order nor on the order in which
  Rust's hash maps are iterated: whatever permutation of the counts the maps yield, the result is that
  of \<open>evaluate_five\<close> on any arrangement of the cards.
\<close>

theorem evaluation_ignores_order:
  assumes "mset cards' = mset cards" "length cards \<le> 5"
    and "mset rank_counts = mset (tally (map card_rank cards'))"
    and "mset suit_counts = mset (tally (map card_suit cards'))"
  shows "evaluate_five_with rank_counts suit_counts cards' = evaluate_five cards"
  by (rule evaluate_five_order [OF assms])

theorem evaluation_ignores_order_witness:
  "evaluate_five_with [(Two, 1), (Ace, 2)] [(Hearts, 1), (Spades, 1), (Clubs, 1)]
      [card_new Two Spades, card_new Ace Clubs, card_new Ace Hearts]
    = evaluate_five [card_new Ace Clubs, card_new Ace Hearts, card_new Two Spades]"
  by (rule evaluation_ignores_order) (simp_all add: tally_def add_mset_commute)

section \<open>The pots\<close>

text \<open>
  C14: the side-pot law: from contributions of distinct seats whose sum fits 32 bits, \<open>build_pots\<close> makes pots
  and returned excesses of exactly that sum, and what an eligible seat can win or gets back is what each
  seat has put in up to the seat's own contribution.
\<close>

theorem side_pot_law:
  assumes "sum_list (map ct_amount cs) < u32_bound" "distinct (map ct_seat cs)" "e \<in> set cs" "ct_eligible e"
  shows "sum_list (map pot_amount (pb_pots (build_pots cs)))
      + sum_list (map re_amount (pb_returned (build_pots cs))) = sum_list (map ct_amount cs) \<and>
    sum_list (map pot_amount (filter (\<lambda>p. ct_seat e \<in> set (pot_eligible p)) (pb_pots (build_pots cs))))
      + sum_list (map re_amount (filter (\<lambda>r. re_seat r = ct_seat e) (pb_returned (build_pots cs))))
      = sum_list (map (\<lambda>c. min (ct_amount c) (ct_amount e)) cs)"
  using build_pots_conserves [OF assms(1)] side_pots [OF assms]
  by (simp_all add: pots_for_def returned_to_def)

definition three_stakes :: "contribution list" where
  "three_stakes = [\<lparr>ct_seat = 0, ct_amount = 100, ct_eligible = True\<rparr>,
     \<lparr>ct_seat = 1, ct_amount = 250, ct_eligible = False\<rparr>, \<lparr>ct_seat = 2, ct_amount = 400, ct_eligible = True\<rparr>]"

theorem side_pot_law_witness:
  "sum_list (map pot_amount (filter (\<lambda>p. 2 \<in> set (pot_eligible p)) (pb_pots (build_pots three_stakes))))
      + sum_list (map re_amount (filter (\<lambda>r. re_seat r = 2) (pb_returned (build_pots three_stakes)))) = 750"
  using side_pot_law [of three_stakes "three_stakes ! 2"]
  by (simp add: three_stakes_def u32_bound_def)


definition two_tied_hands :: "(seat_id, hand_evaluation) btree" where
  "two_tied_hands = [(0, \<lparr>ev_rank = Flush, ev_kickers = [Ace], ev_description = []\<rparr>),
     (2, \<lparr>ev_rank = Flush, ev_kickers = [Ace], ev_description = []\<rparr>)]"


section \<open>The deck\<close>

text \<open>
  A new deck has the 52 cards, each once; shuffled by any permutation and dealt one by one it gives each
  card exactly once and then no more, wherever its index stood before.
\<close>

theorem deck_deals_every_card_once:
  assumes "\<And>g cs. mset (fst (shuffle g cs)) = mset cs"
    and "mset (deck_cards d) = mset (deck_cards deck_new)"
  shows "length (fst (deck_deal_n 52 (fst (deck_shuffle_with shuffle g d)))) = 52 \<and>
    distinct (fst (deck_deal_n 52 (fst (deck_shuffle_with shuffle g d)))) \<and>
    set (fst (deck_deal_n 52 (fst (deck_shuffle_with shuffle g d)))) = UNIV \<and>
    fst (deck_deal (snd (deck_deal_n 52 (fst (deck_shuffle_with shuffle g d))))) = None"
proof -
  let ?d = "fst (deck_shuffle_with shuffle g d)"
  have all: "mset (deck_rest ?d) = mset (deck_cards deck_new)"
    using shuffle_resets [where shuffle = shuffle, of g d] assms by simp
  then have length: "length (deck_rest ?d) = 52"
    using deck_new_complete by (metis size_mset)
  have "distinct (deck_rest ?d)"
    using mset_eq_imp_distinct_iff [OF all] deck_new_complete by blast
  moreover have "set (deck_rest ?d) = UNIV"
    using mset_eq_setD [OF all] deck_new_members by auto
  moreover have "deck_rest (snd (deck_deal_n 52 ?d)) = []"
    by (simp add: deck_rest_deal_n length)
  ultimately show ?thesis
    using length by (simp add: fst_deck_deal_n deck_deal_cases)
qed

theorem deck_deals_every_card_once_witness:
  "set (fst (deck_deal_n 52 (fst (deck_shuffle_with (\<lambda>g cs. (rev cs, g)) () deck_new)))) = UNIV"
  using deck_deals_every_card_once [of "\<lambda>g cs. (rev cs, g)" deck_new "()"] by simp

section \<open>The seats of a table\<close>

text \<open>
  A seat that is occupied and then vacated gives back its occupant and leaves every seat as it was, and in
  between the player is found at exactly that seat and no second seat can be taken for the player.
\<close>

theorem occupy_vacate_round_trip:
  assumes "table_ok t" "table_occupy t s st = Inr t'"
  shows "seat_for_player t' (ss_player_id st) = Some s \<and>
    (\<forall>s2 st2 t2. table_occupy t' s2 st2 = Inr t2 \<longrightarrow> ss_player_id st2 \<noteq> ss_player_id st) \<and>
    (\<exists>t''. table_vacate t' s = Inr (st, t'') \<and> table_ok t'' \<and> (\<forall>s'. table_seat t'' s' = table_seat t s') \<and>
      seat_for_player t'' (ss_player_id st) = None)"
proof -
  have sit: "ok_part (table_occupy t s st) = Some t'" using assms(2) by simp
  have ok: "table_ok t'" using table_ok_occupy [OF assms] by simp
  have here: "table_seat t' s = Some st" using table_seat_occupy [OF assms(2)] by simp
  obtain t'' where t'': "table_vacate t' s = Inr (st, t'')" using table_vacate_total [OF here] by blast
  then have stand: "ok_part (table_vacate t' s) = Some (st, t'')" by simp
  have "seat_for_player t' (ss_player_id st) = Some s"
    using tm.holder_after_sit [OF assms(1) sit] by simp
  moreover have "ss_player_id st2 \<noteq> ss_player_id st" if "table_occupy t' s2 st2 = Inr t2" for s2 st2 t2
    using that here unfolding table_occupy_Inr by metis
  moreover have "table_ok t''" using table_ok_vacate [OF ok t''] by simp
  moreover have "\<forall>s'. table_seat t'' s' = table_seat t s'" using tm.stand_after_sit [OF sit stand] by simp
  moreover have "seat_for_player t'' (ss_player_id st) = None"
    using tm.holder_after_stand [OF ok stand] by simp
  ultimately show ?thesis using t'' by blast
qed

theorem occupy_vacate_round_trip_witness:
  "\<exists>t'. table_occupy (table_seats_new 6) 3 (seat_state_active 7 500) = Inr t' \<and> seat_for_player t' 7 = Some 3"
proof -
  have "\<not> isl (table_occupy (table_seats_new 6) 3 (seat_state_active 7 500))" by code_simp
  then have "\<exists>t'. table_occupy (table_seats_new 6) 3 (seat_state_active 7 500) = Inr t'"
    by (cases "table_occupy (table_seats_new 6) 3 (seat_state_active 7 500)") auto
  then obtain t' where "table_occupy (table_seats_new 6) 3 (seat_state_active 7 500) = Inr t'" ..
  with occupy_vacate_round_trip [OF table_ok_new this] show ?thesis
    by (simp add: seat_state_active_def)
qed

end
