(* ===== verification/Tournament.thy ===== *)
theory Tournament
  imports Multiway_State
begin

text \<open>
  The single-table freezeout (src/src/tournament.rs): the validated configuration, registration, the
  blind clock, eliminations and the payout of the pool. Text is a list of bytes. The loop of
  \<open>tick_between_hands\<close> is a \<^theory_text>\<open>partial_function\<close>: \<^const>\<open>None\<close> when an index is out
  of range or the loop does not end.
\<close>

definition MAX_LEVELS :: nat where
  "MAX_LEVELS = 64"

definition PAYOUT_BASIS_POINTS :: u32 where
  "PAYOUT_BASIS_POINTS = 10000"

record tournament_level =
  tl_small_blind :: u32
  tl_big_blind :: u32
  tl_ante :: u32
  tl_duration_seconds :: u32
  tl_break_after_seconds :: u32

definition level_blinds :: "tournament_level \<Rightarrow> blind_values" where
  "level_blinds l = \<lparr>bv_small_blind = tl_small_blind l, bv_big_blind = tl_big_blind l, bv_ante = tl_ante l\<rparr>"

record payout_plan =
  pp_pool :: u32
  pp_shares_bps :: "u32 list"

record tournament_config =
  tc_name :: string
  tc_entrants :: nat
  tc_starting_stack :: u32
  tc_levels :: "tournament_level list"
  tc_payout :: payout_plan
  tc_join_code :: string

definition recommended :: "nat \<Rightarrow> string \<Rightarrow> tournament_config" where
  "recommended entrants code =
     \<lparr>tc_name = ''Sneaky Freezeout'', tc_entrants = entrants, tc_starting_stack = 3000,
      tc_levels =
       [\<lparr>tl_small_blind = 25, tl_big_blind = 50, tl_ante = 0,
         tl_duration_seconds = 600, tl_break_after_seconds = 0\<rparr>,
        \<lparr>tl_small_blind = 50, tl_big_blind = 100, tl_ante = 10,
         tl_duration_seconds = 600, tl_break_after_seconds = 300\<rparr>,
        \<lparr>tl_small_blind = 100, tl_big_blind = 200, tl_ante = 25,
         tl_duration_seconds = 600, tl_break_after_seconds = 0\<rparr>],
      tc_payout = \<lparr>pp_pool = 1000, pp_shares_bps = [PAYOUT_BASIS_POINTS]\<rparr>,
      tc_join_code = code\<rparr>"

datatype tournament_error = InvalidName | InvalidEntrants | InvalidJoinCode | InvalidStartingStack
  | InvalidLevels | InvalidPayout | ConfigurationLocked | RegistrationFull | RegistrationIncomplete
  | DuplicateRegistration | InvalidSeat | NotRunning | AlreadyComplete | InvalidHandResult
  | DuplicateElimination

definition tournament_error_display :: "tournament_error \<Rightarrow> string" where
  "tournament_error_display e = (case e of
     InvalidName \<Rightarrow> ''tournament name must contain 1-32 bytes''
   | InvalidEntrants \<Rightarrow> ''single-table tournament requires 2-9 entrants''
   | InvalidJoinCode \<Rightarrow> ''private invite verifier must contain 24-96 visible bytes''
   | InvalidStartingStack \<Rightarrow> ''starting stack is outside bounds or below 20 big blinds''
   | InvalidLevels \<Rightarrow> ''blind/ante level schedule is invalid''
   | InvalidPayout \<Rightarrow> ''play-money payout plan is invalid''
   | ConfigurationLocked \<Rightarrow> ''tournament configuration and registration are locked''
   | RegistrationFull \<Rightarrow> ''tournament registration is full''
   | RegistrationIncomplete \<Rightarrow> ''all configured entrants must register before start''
   | DuplicateRegistration \<Rightarrow> ''player or seat is already registered''
   | InvalidSeat \<Rightarrow> ''seat is outside tournament capacity''
   | NotRunning \<Rightarrow> ''tournament is not running''
   | AlreadyComplete \<Rightarrow> ''tournament is already complete''
   | InvalidHandResult \<Rightarrow> ''hand result does not match registered tournament seats''
   | DuplicateElimination \<Rightarrow> ''entrant was eliminated more than once'')"

subsection \<open>Validation\<close>

text \<open>
  \<open>name.trim().is_empty()\<close>: the bytes are the UTF-8 of white space only, by Unicode's list of
  white-space code points.
\<close>

fun blank_bytes :: "nat list \<Rightarrow> bool" where
  "blank_bytes [] = True"
| "blank_bytes (a # bs) =
    (if (9 \<le> a \<and> a \<le> 13) \<or> a = 32 then blank_bytes bs
     else case bs of
       [] \<Rightarrow> False
     | b # cs \<Rightarrow>
       (if a = 194 \<and> (b = 133 \<or> b = 160) then blank_bytes cs
        else case cs of
          [] \<Rightarrow> False
        | c # ds \<Rightarrow>
          (if (a = 225 \<and> b = 154 \<and> c = 128)
              \<or> (a = 226 \<and> b = 128 \<and> ((128 \<le> c \<and> c \<le> 138) \<or> c = 168 \<or> c = 169 \<or> c = 175))
              \<or> (a = 226 \<and> b = 129 \<and> c = 159) \<or> (a = 227 \<and> b = 128 \<and> c = 128)
           then blank_bytes ds else False)))"

definition trim_is_empty :: "string \<Rightarrow> bool" where
  "trim_is_empty text = blank_bytes (map of_char text)"

definition ascii_graphic_or_space :: "char \<Rightarrow> bool" where
  "ascii_graphic_or_space c \<longleftrightarrow> (33 \<le> (of_char c :: nat) \<and> (of_char c :: nat) \<le> 126) \<or> (of_char c :: nat) = 32"

definition triple_less :: "u32 \<times> u32 \<times> u32 \<Rightarrow> u32 \<times> u32 \<times> u32 \<Rightarrow> bool" where
  "triple_less = (\<lambda>(a, b, c) (a', b', c'). a < a' \<or> a = a' \<and> (b < b' \<or> b = b' \<and> c < c'))"

fun levels_valid :: "tournament_level list \<Rightarrow> u32 \<times> u32 \<times> u32 \<Rightarrow> bool" where
  "levels_valid [] prior_level = True"
| "levels_valid (l # ls) prior_level =
    (let this = (tl_small_blind l, tl_big_blind l, tl_ante l) in
     if blind_values_new (tl_small_blind l) (tl_big_blind l) (tl_ante l) = None
        \<or> \<not> (60 \<le> tl_duration_seconds l \<and> tl_duration_seconds l \<le> 7200)
        \<or> 1800 < tl_break_after_seconds l
        \<or> triple_less this prior_level
     then False else levels_valid ls this)"

definition config_validate :: "tournament_config \<Rightarrow> (tournament_error + unit) option" where
  "config_validate c =
    (if \<not> (2 \<le> tc_entrants c \<and> tc_entrants c \<le> 9) then Some (Inl InvalidEntrants)
     else if trim_is_empty (tc_name c) \<or> 32 < length (tc_name c) then Some (Inl InvalidName)
     else if tc_join_code c \<noteq> []
        \<and> (\<not> (4 \<le> length (tc_join_code c) \<and> length (tc_join_code c) \<le> 96)
           \<or> \<not> list_all ascii_graphic_or_space (tc_join_code c)) then Some (Inl InvalidJoinCode)
     else if tc_levels c = [] \<or> MAX_LEVELS < length (tc_levels c) then Some (Inl InvalidLevels)
     else if \<not> levels_valid (tc_levels c) (0, 0, 0) then Some (Inl InvalidLevels)
     else do {
       first \<leftarrow> vec_get (tc_levels c) 0;
       let shares = pp_shares_bps (tc_payout c);
       if \<not> (100 \<le> tc_starting_stack c \<and> tc_starting_stack c \<le> 1000000)
          \<or> tc_starting_stack c < u32_saturating_mul (tl_big_blind first) 20
       then Some (Inl InvalidStartingStack)
       else if \<not> (1 \<le> pp_pool (tc_payout c) \<and> pp_pool (tc_payout c) \<le> 1000000)
          \<or> shares = [] \<or> 3 < length shares \<or> tc_entrants c < length shares \<or> 0 \<in> set shares
          \<or> u32_sum shares \<noteq> PAYOUT_BASIS_POINTS
       then Some (Inl InvalidPayout)
       else Some (Inr ()) })"

definition public_copy :: "tournament_config \<Rightarrow> tournament_config" where
  "public_copy c = c\<lparr>tc_join_code := []\<rparr>"

subsection \<open>The controller\<close>

datatype tournament_status = Registering | TRunning | TBreak | TComplete | TCancelled

record tournament_entrant =
  te_player :: player_id
  te_seat :: seat_id

record tournament_standing =
  ts_player :: player_id
  ts_seat :: seat_id
  ts_place :: nat
  ts_payout :: u32

record tournament_public_state =
  tp_status :: tournament_status
  tp_entrants :: nat
  tp_registered :: nat
  tp_remaining :: nat
  tp_level_number :: nat
  tp_level :: tournament_level
  tp_level_remaining_millis :: u64
  tp_break_remaining_millis :: u64
  tp_hands_completed :: u64
  tp_standings :: "tournament_standing list"
  tp_payout_pool :: u32

record tournament_controller =
  tr_config :: tournament_config
  tr_status :: tournament_status
  tr_entrants :: "(player_id, seat_id) btree"
  tr_remaining :: "player_id list"
  tr_level_index :: nat
  tr_level_elapsed_millis :: u64
  tr_break_remaining_millis :: u64
  tr_hands_completed :: u64
  tr_standings :: "tournament_standing list"

text \<open>A \<open>BTreeSet\<close> is the list of its elements in increasing order.\<close>

fun bset_insert :: "'a::linorder \<Rightarrow> 'a list \<Rightarrow> 'a list" where
  "bset_insert x [] = [x]"
| "bset_insert x (y # ys) = (if x < y then x # y # ys else if x = y then y # ys else y # bset_insert x ys)"

definition bset_remove :: "'a \<Rightarrow> 'a list \<Rightarrow> 'a list" where
  "bset_remove x ys = filter (\<lambda>y. y \<noteq> x) ys"

definition tournament_new :: "tournament_config \<Rightarrow> (tournament_error + tournament_controller) option" where
  "tournament_new c = map_option (\<lambda>r. case r of
       Inl e \<Rightarrow> Inl e
     | Inr _ \<Rightarrow> Inr \<lparr>tr_config = c\<lparr>tc_join_code := []\<rparr>, tr_status = Registering, tr_entrants = [],
         tr_remaining = [], tr_level_index = 0, tr_level_elapsed_millis = 0,
         tr_break_remaining_millis = 0, tr_hands_completed = 0, tr_standings = []\<rparr>)
     (config_validate c)"

definition register :: "tournament_controller \<Rightarrow> tournament_entrant \<Rightarrow> tournament_error + tournament_controller"
  where
  "register t entrant =
    (if tr_status t \<noteq> Registering then Inl ConfigurationLocked
     else if tc_entrants (tr_config t) \<le> length (tr_entrants t) then Inl RegistrationFull
     else if bt_get (tr_entrants t) (te_player entrant) \<noteq> None
        \<or> list_ex (\<lambda>(p, s). s = te_seat entrant) (tr_entrants t) then Inl DuplicateRegistration
     else if tc_entrants (tr_config t) \<le> te_seat entrant then Inl InvalidSeat
     else Inr (t\<lparr>tr_entrants := bt_insert (te_player entrant) (te_seat entrant) (tr_entrants t),
       tr_remaining := bset_insert (te_player entrant) (tr_remaining t)\<rparr>))"

definition unregister :: "tournament_controller \<Rightarrow> player_id \<Rightarrow> tournament_error + tournament_controller"
  where
  "unregister t player =
    (if tr_status t \<noteq> Registering then Inl ConfigurationLocked
     else Inr (t\<lparr>tr_entrants := bt_remove player (tr_entrants t),
       tr_remaining := bset_remove player (tr_remaining t)\<rparr>))"

definition tournament_start :: "tournament_controller \<Rightarrow> tournament_error + tournament_controller" where
  "tournament_start t =
    (if tr_status t \<noteq> Registering then Inl ConfigurationLocked
     else if length (tr_entrants t) \<noteq> tc_entrants (tr_config t) then Inl RegistrationIncomplete
     else Inr (t\<lparr>tr_status := TRunning\<rparr>))"

definition tournament_cancel :: "tournament_controller \<Rightarrow> tournament_error + tournament_controller" where
  "tournament_cancel t =
    (if tr_status t \<noteq> Registering then Inl ConfigurationLocked else Inr (t\<lparr>tr_status := TCancelled\<rparr>))"

definition current_level :: "tournament_controller \<Rightarrow> tournament_level option" where
  "current_level t = vec_get (tc_levels (tr_config t)) (tr_level_index t)"

definition current_blinds :: "tournament_controller \<Rightarrow> blind_values option" where
  "current_blinds t = map_option level_blinds (current_level t)"

definition u64_saturating_mul :: "u64 \<Rightarrow> u64 \<Rightarrow> u64" where
  "u64_saturating_mul a b = min (a * b) (u64_bound - 1)"

definition level_duration :: "tournament_level \<Rightarrow> u64" where
  "level_duration l = u64_saturating_mul (tl_duration_seconds l) 1000"

subsection \<open>The clock\<close>

definition finish_level :: "tournament_level \<Rightarrow> tournament_controller \<Rightarrow> tournament_controller" where
  "finish_level completed t =
    (let t = t\<lparr>tr_level_elapsed_millis := 0,
           tr_level_index := min (tr_level_index t + 1) (length (tc_levels (tr_config t)) - 1)\<rparr>
     in if 0 < tl_break_after_seconds completed
        then t\<lparr>tr_status := TBreak,
          tr_break_remaining_millis := u64_saturating_mul (tl_break_after_seconds completed) 1000\<rparr>
        else t)"

partial_function (option) tick_loop :: "u64 \<Rightarrow> tournament_controller \<Rightarrow> tournament_controller option" where
  "tick_loop left t =
    (if left = 0 then Some t
     else if tr_status t = TBreak then
       (let consumed = min left (tr_break_remaining_millis t);
            t' = t\<lparr>tr_break_remaining_millis := tr_break_remaining_millis t - consumed\<rparr>
        in tick_loop (left - consumed)
          (if tr_break_remaining_millis t' = 0 then t'\<lparr>tr_status := TRunning\<rparr> else t'))
     else do {
       level \<leftarrow> current_level t;
       let duration = level_duration level;
       let consumed = min left (saturating_sub duration (tr_level_elapsed_millis t));
       let t' = t\<lparr>tr_level_elapsed_millis := tr_level_elapsed_millis t + consumed\<rparr>;
       tick_loop (left - consumed)
         (if duration \<le> tr_level_elapsed_millis t' then finish_level level t' else t') })"

declare tick_loop.simps [code]

definition tick_between_hands :: "u64 \<Rightarrow> tournament_controller \<Rightarrow> tournament_controller option" where
  "tick_between_hands elapsed t =
    (if tr_status t \<noteq> TRunning \<and> tr_status t \<noteq> TBreak then Some t else tick_loop elapsed t)"

subsection \<open>Payouts\<close>

record payout_award =
  po_place :: nat
  po_amount :: u32
  po_fraction :: nat

definition payout_awards :: "payout_plan \<Rightarrow> payout_award list option" where
  "payout_awards plan = map_m (\<lambda>(index, share).
      let numerator = pp_pool plan * share in
      if 255 < index + 1 \<or> u32_bound \<le> numerator div PAYOUT_BASIS_POINTS then None
      else Some \<lparr>po_place = index + 1, po_amount = numerator div PAYOUT_BASIS_POINTS,
        po_fraction = numerator mod PAYOUT_BASIS_POINTS\<rparr>)
    (enumerate 0 (pp_shares_bps plan))"

text \<open>\<open>sort_by_key\<close> on the pair of the reversed fraction and the place.\<close>

definition fraction_before :: "payout_award \<Rightarrow> payout_award \<Rightarrow> bool" where
  "fraction_before a b \<longleftrightarrow> po_fraction b < po_fraction a \<or> po_fraction a = po_fraction b \<and> po_place a \<le> po_place b"

fun insert_award :: "payout_award \<Rightarrow> payout_award list \<Rightarrow> payout_award list" where
  "insert_award a [] = [a]"
| "insert_award a (b # bs) = (if fraction_before a b then a # b # bs else b # insert_award a bs)"

definition sort_awards :: "payout_award list \<Rightarrow> payout_award list" where
  "sort_awards awards = foldr insert_award awards []"

fun spread_remainder :: "u32 \<Rightarrow> payout_award list \<Rightarrow> payout_award list" where
  "spread_remainder remainder [] = []"
| "spread_remainder remainder (a # rest) =
    (if remainder = 0 then a # rest
     else a\<lparr>po_amount := u32_add (po_amount a) 1\<rparr> # spread_remainder (remainder - 1) rest)"

definition final_awards :: "payout_plan \<Rightarrow> payout_award list option" where
  "final_awards plan = do {
     awards \<leftarrow> payout_awards plan;
     let assigned = u32_sum (map po_amount awards);
     Some (spread_remainder (u32_sub (pp_pool plan) assigned) (sort_awards awards)) }"

definition payout_of :: "payout_award list \<Rightarrow> nat \<Rightarrow> u32" where
  "payout_of awards place =
    (case first_match (\<lambda>a. po_place a = place) awards of None \<Rightarrow> 0 | Some a \<Rightarrow> po_amount a)"

definition apply_payouts :: "tournament_controller \<Rightarrow> tournament_controller option" where
  "apply_payouts t = map_option (\<lambda>awards.
     t\<lparr>tr_standings := map (\<lambda>st. st\<lparr>ts_payout := payout_of awards (ts_place st)\<rparr>) (tr_standings t)\<rparr>)
     (final_awards (tc_payout (tr_config t)))"

subsection \<open>The end of a hand\<close>

definition busted_seats :: "(seat_id, u32) btree \<Rightarrow> (seat_id, u32) btree \<Rightarrow> (seat_id \<times> u32) list" where
  "busted_seats earlier after =
    sort_key (\<lambda>(s, stack). stack) (filter (\<lambda>(s, stack). 0 < stack \<and> bt_get after s = Some 0) earlier)"

text \<open>
  The loop over the busted seats: an error leaves the eliminations made before it.
\<close>

fun eliminate :: "nat \<Rightarrow> nat \<Rightarrow> (seat_id \<times> u32) list \<Rightarrow> tournament_controller
    \<Rightarrow> (tournament_error + unit) \<times> tournament_controller" where
  "eliminate remaining_before index [] t = (Inr (), t)"
| "eliminate remaining_before index ((s, stack) # rest) t =
    (case first_match (\<lambda>(p, registered). registered = s) (tr_entrants t) of
       None \<Rightarrow> (Inl InvalidHandResult, t)
     | Some (player, _) \<Rightarrow>
       (if player \<notin> set (tr_remaining t) then (Inl DuplicateElimination, t)
        else (let t = t\<lparr>tr_remaining := bset_remove player (tr_remaining t)\<rparr> in
          if 255 < remaining_before - index then (Inl InvalidHandResult, t)
          else eliminate remaining_before (index + 1) rest
            (t\<lparr>tr_standings := tr_standings t @ [\<lparr>ts_player = player, ts_seat = s,
               ts_place = remaining_before - index, ts_payout = 0\<rparr>]\<rparr>))))"

definition crown_winner :: "tournament_controller \<Rightarrow> tournament_controller option" where
  "crown_winner t =
    (case tr_remaining t of
       [winner] \<Rightarrow> do {
         s \<leftarrow> bt_get (tr_entrants t) winner;
         t \<leftarrow> apply_payouts (t\<lparr>tr_standings := tr_standings t @ [\<lparr>ts_player = winner, ts_seat = s,
           ts_place = 1, ts_payout = 0\<rparr>]\<rparr>);
         Some (t\<lparr>tr_status := TComplete\<rparr>) }
     | _ \<Rightarrow> Some t)"

definition tournament_complete_hand :: "tournament_controller \<Rightarrow> (seat_id \<times> u32) list
    \<Rightarrow> (seat_id \<times> u32) list \<Rightarrow> ((tournament_error + unit) \<times> tournament_controller) option" where
  "tournament_complete_hand t starting_stacks final_stacks =
    (if tr_status t = TComplete then Some (Inl AlreadyComplete, t)
     else if tr_status t \<noteq> TRunning \<and> tr_status t \<noteq> TBreak then Some (Inl NotRunning, t)
     else
      (let earlier = bt_of_list starting_stacks; after = bt_of_list final_stacks
       in if length earlier \<noteq> length after \<or> list_ex (\<lambda>(s, k). bt_get after s = None) earlier
          then Some (Inl InvalidHandResult, t)
          else case eliminate (length (tr_remaining t)) 0 (busted_seats earlier after) t of
            (Inl e, t) \<Rightarrow> Some (Inl e, t)
          | (Inr _, t) \<Rightarrow> map_option (Pair (Inr ()))
              (crown_winner (t\<lparr>tr_hands_completed := u64_saturating_add (tr_hands_completed t) 1\<rparr>))))"

definition public_state :: "tournament_controller \<Rightarrow> tournament_public_state option" where
  "public_state t = do {
     level \<leftarrow> current_level t;
     if 255 < length (tr_entrants t) \<or> 255 < length (tr_remaining t) \<or> 255 < tr_level_index t + 1 then None
     else Some \<lparr>tp_status = tr_status t, tp_entrants = tc_entrants (tr_config t),
       tp_registered = length (tr_entrants t), tp_remaining = length (tr_remaining t),
       tp_level_number = tr_level_index t + 1, tp_level = level,
       tp_level_remaining_millis = saturating_sub (level_duration level) (tr_level_elapsed_millis t),
       tp_break_remaining_millis = tr_break_remaining_millis t,
       tp_hands_completed = tr_hands_completed t,
       tp_standings = sort_key ts_place (tr_standings t),
       tp_payout_pool = pp_pool (tc_payout (tr_config t))\<rparr> }"

end
