(* ===== verification/Tournament_Facts.thy ===== *)
theory Tournament_Facts
  imports Tournament
begin

text \<open>
  The payouts: rounding down by basis points and giving the remaining chips to the largest fractions
  pays out exactly the pool, each place at most once.
\<close>

definition plan_ok :: "payout_plan \<Rightarrow> bool" where
  "plan_ok p \<longleftrightarrow> 1 \<le> pp_pool p \<and> pp_pool p \<le> 1000000 \<and> pp_shares_bps p \<noteq> [] \<and> length (pp_shares_bps p) \<le> 3 \<and>
     0 \<notin> set (pp_shares_bps p) \<and> sum_list (pp_shares_bps p) = PAYOUT_BASIS_POINTS"

definition share_award :: "u32 \<Rightarrow> nat \<times> u32 \<Rightarrow> payout_award" where
  "share_award pool = (\<lambda>(index, share). \<lparr>po_place = index + 1, po_amount = pool * share div PAYOUT_BASIS_POINTS,
     po_fraction = pool * share mod PAYOUT_BASIS_POINTS\<rparr>)"

lemma share_bound:
  assumes "plan_ok p" "s \<in> set (pp_shares_bps p)"
  shows "pp_pool p * s div PAYOUT_BASIS_POINTS \<le> pp_pool p"
proof -
  have "s \<le> PAYOUT_BASIS_POINTS"
    using member_le_sum_list [OF assms(2)] assms(1) by (simp add: plan_ok_def)
  then have "pp_pool p * s \<le> pp_pool p * PAYOUT_BASIS_POINTS" by simp
  then show ?thesis
    using div_le_mono [of "pp_pool p * s" _ PAYOUT_BASIS_POINTS] by (fastforce simp: PAYOUT_BASIS_POINTS_def)
qed

lemma payout_awards_returns:
  assumes "plan_ok p"
  shows "payout_awards p = Some (map (share_award (pp_pool p)) (enumerate 0 (pp_shares_bps p)))"
  unfolding payout_awards_def
proof (rule map_m_total)
  fix x assume x: "x \<in> set (enumerate 0 (pp_shares_bps p))"
  obtain i s where is_pair: "x = (i, s)" by (cases x)
  then have "i < 3" "s \<in> set (pp_shares_bps p)"
    using x assms by (auto simp: in_set_enumerate_eq plan_ok_def)
  moreover have "pp_pool p \<le> 1000000" using assms by (simp add: plan_ok_def)
  ultimately have "\<not> (255 < i + 1 \<or> u32_bound \<le> pp_pool p * s div PAYOUT_BASIS_POINTS)"
    using share_bound [OF assms, of s] by (simp add: u32_bound_def)
  then show "(case x of (index, share) \<Rightarrow> let numerator = pp_pool p * share in
      if 255 < index + 1 \<or> u32_bound \<le> numerator div PAYOUT_BASIS_POINTS then None
      else Some \<lparr>po_place = index + 1, po_amount = numerator div PAYOUT_BASIS_POINTS,
        po_fraction = numerator mod PAYOUT_BASIS_POINTS\<rparr>) = Some (share_award (pp_pool p) x)"
    by (simp add: is_pair share_award_def Let_def)
qed

text \<open>Rounding down loses less than one chip a place.\<close>

lemma rounding_loss:
  "sum_list (map po_amount (map (share_award pool) (enumerate k shares))) * PAYOUT_BASIS_POINTS
     \<le> pool * sum_list shares"
  "pool * sum_list shares + length shares
     \<le> (sum_list (map po_amount (map (share_award pool) (enumerate k shares))) + length shares) * PAYOUT_BASIS_POINTS"
proof (induction shares arbitrary: k)
  case (Cons s ss)
  have sum: "sum_list (map po_amount (map (share_award pool) (enumerate k (s # ss))))
      = pool * s div PAYOUT_BASIS_POINTS + sum_list (map po_amount (map (share_award pool) (enumerate (Suc k) ss)))" for k
    by (simp add: share_award_def)
  have "pool * s = pool * s div PAYOUT_BASIS_POINTS * PAYOUT_BASIS_POINTS + pool * s mod PAYOUT_BASIS_POINTS"
    by simp
  moreover have "pool * s mod PAYOUT_BASIS_POINTS + 1 \<le> PAYOUT_BASIS_POINTS"
    by (simp add: PAYOUT_BASIS_POINTS_def Suc_leI)
  ultimately have one: "pool * s div PAYOUT_BASIS_POINTS * PAYOUT_BASIS_POINTS \<le> pool * s"
      "pool * s + 1 \<le> pool * s div PAYOUT_BASIS_POINTS * PAYOUT_BASIS_POINTS + PAYOUT_BASIS_POINTS"
    by linarith+
  case (1 k)
  show ?case
    unfolding sum sum_list.Cons distrib_left distrib_right by (rule add_mono [OF one(1) Cons.IH(1)])
  case (2 k)
  show ?case unfolding sum using one(2) Cons.IH(2) [of "Suc k"] by (simp add: algebra_simps)
qed simp_all

lemma sort_awards_mset: "mset (sort_awards as) = mset as"
proof -
  have "mset (insert_award a bs) = add_mset a (mset bs)" for a bs
    by (induction bs) auto
  then show ?thesis unfolding sort_awards_def by (induction as) auto
qed

lemma spread_remainder_places [simp]: "map po_place (spread_remainder r as) = map po_place as"
  by (induction r as rule: spread_remainder.induct) auto

lemma spread_remainder_sum:
  assumes "r \<le> length as" "\<forall>a\<in>set as. po_amount a + 1 < u32_bound"
  shows "sum_list (map po_amount (spread_remainder r as)) = sum_list (map po_amount as) + r"
  using assms
proof (induction r as rule: spread_remainder.induct)
  case (2 r a rest)
  then show ?case by (cases r) (simp_all add: u32_add_exact)
qed simp

lemma final_awards_exact:
  assumes "plan_ok p"
  shows "\<exists>as. final_awards p = Some as \<and> sum_list (map po_amount as) = pp_pool p \<and>
    mset (map po_place as) = mset [1..<Suc (length (pp_shares_bps p))]"
proof -
  let ?as = "map (share_award (pp_pool p)) (enumerate 0 (pp_shares_bps p))"
  have pool: "pp_pool p \<le> 1000000" and some: "pp_shares_bps p \<noteq> []"
    and whole: "sum_list (pp_shares_bps p) = PAYOUT_BASIS_POINTS"
    using assms by (simp_all add: plan_ok_def)
  have loss: "sum_list (map po_amount ?as) \<le> pp_pool p"
      "pp_pool p < sum_list (map po_amount ?as) + length (pp_shares_bps p)"
    using rounding_loss [where pool = "pp_pool p" and k = 0 and shares = "pp_shares_bps p"] some whole
    by (simp_all add: PAYOUT_BASIS_POINTS_def flip: length_greater_0_conv)
  let ?r = "pp_pool p - sum_list (map po_amount ?as)"
  have "u32_sum (map po_amount ?as) = sum_list (map po_amount ?as)"
    by (rule u32_sum_exact) (use loss pool in \<open>simp add: u32_bound_def\<close>)
  then have final: "final_awards p = Some (spread_remainder ?r (sort_awards ?as))"
    using loss(1) by (simp add: final_awards_def payout_awards_returns [OF assms] u32_sub_exact Let_def)
  have same: "mset (sort_awards ?as) = mset ?as" by (rule sort_awards_mset)
  have "po_amount a + 1 < u32_bound" if "a \<in> set (sort_awards ?as)" for a
  proof -
    have "a \<in> set ?as" using mset_eq_setD [OF same] that by blast
    then obtain i s where "a = share_award (pp_pool p) (i, s)" "s \<in> set (pp_shares_bps p)"
      by (auto simp: in_set_enumerate_eq)
    then show ?thesis using share_bound [OF assms, of s] pool by (simp add: share_award_def u32_bound_def)
  qed
  moreover have "?r \<le> length (sort_awards ?as)"
    using loss(2) arg_cong [OF same, of "size"] by simp
  ultimately have "sum_list (map po_amount (spread_remainder ?r (sort_awards ?as)))
      = sum_list (map po_amount (sort_awards ?as)) + ?r"
    by (intro spread_remainder_sum) auto
  also have "sum_list (map po_amount (sort_awards ?as)) = sum_list (map po_amount ?as)"
    using same by (metis mset_map sum_mset_sum_list)
  finally have "sum_list (map po_amount (spread_remainder ?r (sort_awards ?as))) = pp_pool p"
    using loss(1) by simp
  moreover have "map po_place ?as = [1..<Suc (length (pp_shares_bps p))]"
    by (rule nth_equalityI) (simp_all add: share_award_def nth_enumerate_eq del: upt_Suc)
  then have "mset (map po_place (spread_remainder ?r (sort_awards ?as))) = mset [1..<Suc (length (pp_shares_bps p))]"
    using same by (metis mset_map spread_remainder_places)
  ultimately show ?thesis using final by blast
qed

lemma payout_of_award:
  assumes "distinct (map po_place as)" "a \<in> set as"
  shows "payout_of as (po_place a) = po_amount a"
  using assms by (induction as) (auto simp: payout_of_def split: option.splits)

text \<open>The payouts of the places from one to \<open>n\<close> are the awards.\<close>

lemma payouts_of_places:
  assumes "distinct (map po_place as)" "set (map po_place as) \<subseteq> {1..n}"
  shows "sum_list (map (payout_of as) (rev [1..<Suc n])) = sum_list (map po_amount as)"
proof -
  have "sum_list (map (payout_of as) (rev [1..<Suc n])) = sum (payout_of as) {1..n}"
    by (simp add: sum_list_rev rev_map [symmetric] sum.distinct_set_conv_list [symmetric] atLeastLessThanSuc_atLeastAtMost del: upt_Suc)
  also have "\<dots> = sum (payout_of as) (set (map po_place as))"
  proof (rule sum.mono_neutral_right)
    show "\<forall>i\<in>{1..n} - set (map po_place as). payout_of as i = 0"
    proof
      fix i assume "i \<in> {1..n} - set (map po_place as)"
      then have "first_match (\<lambda>a. po_place a = i) as = None" by auto
      then show "payout_of as i = 0" by (simp only: payout_of_def option.case)
    qed
  qed (use assms(2) in simp_all)
  also have "\<dots> = sum_list (map (payout_of as) (map po_place as))"
    by (rule sum.distinct_set_conv_list [OF assms(1)])
  also have "map (payout_of as) (map po_place as) = map po_amount as"
    using payout_of_award [OF assms(1)] by simp
  finally show ?thesis .
qed

subsection \<open>The clock\<close>

text \<open>
  The clock of the freezeout: the loop of \<open>tick_between_hands\<close> ends, keeps the clock invariant, and
  elapses time additively, so that it does not matter in which portions the time between hands is
  reported.
\<close>

definition on_clock :: "tournament_controller \<Rightarrow> bool" where
  "on_clock t \<longleftrightarrow> tr_status t = TRunning \<or> tr_status t = TBreak"

definition config_levels_ok :: "tournament_config \<Rightarrow> bool" where
  "config_levels_ok c \<longleftrightarrow> tc_levels c \<noteq> [] \<and> length (tc_levels c) \<le> MAX_LEVELS \<and>
     (\<forall>l\<in>set (tc_levels c). 60 \<le> tl_duration_seconds l \<and> tl_duration_seconds l \<le> 7200 \<and>
        tl_break_after_seconds l \<le> 1800)"

text \<open>A level of the schedule is running and has not reached its end; a break has time left.\<close>

definition clock_ok :: "tournament_controller \<Rightarrow> bool" where
  "clock_ok t \<longleftrightarrow> config_levels_ok (tr_config t) \<and> tr_level_index t < length (tc_levels (tr_config t)) \<and>
     tr_level_elapsed_millis t < level_duration (tc_levels (tr_config t) ! tr_level_index t) \<and>
     (tr_status t = TBreak \<longrightarrow> 0 < tr_break_remaining_millis t) \<and>
     tr_break_remaining_millis t \<le> 1800000"

lemma level_duration_exact: "tl_duration_seconds l \<le> 7200 \<Longrightarrow> level_duration l = tl_duration_seconds l * 1000"
  by (simp add: level_duration_def u64_saturating_mul_def u64_bound_def)

lemma current_level_ok: "clock_ok t \<Longrightarrow> current_level t = Some (tc_levels (tr_config t) ! tr_level_index t)"
  by (simp add: clock_ok_def current_level_def vec_get_def)

subsection \<open>One turn of the loop\<close>

text \<open>The time to the next boundary, and the state a portion of time within it leads to.\<close>

definition boundary :: "tournament_controller \<Rightarrow> nat" where
  "boundary t = (if tr_status t = TBreak then tr_break_remaining_millis t
     else level_duration (tc_levels (tr_config t) ! tr_level_index t) - tr_level_elapsed_millis t)"

definition elapse :: "nat \<Rightarrow> tournament_controller \<Rightarrow> tournament_controller" where
  "elapse c t =
    (if tr_status t = TBreak then
       (let t' = t\<lparr>tr_break_remaining_millis := tr_break_remaining_millis t - c\<rparr>
        in if tr_break_remaining_millis t' = 0 then t'\<lparr>tr_status := TRunning\<rparr> else t')
     else
       (let level = tc_levels (tr_config t) ! tr_level_index t;
            t' = t\<lparr>tr_level_elapsed_millis := tr_level_elapsed_millis t + c\<rparr>
        in if level_duration level \<le> tr_level_elapsed_millis t' then finish_level level t' else t'))"

lemma tick_loop_0 [simp]: "tick_loop 0 t = Some t"
  by (simp add: tick_loop.simps)

lemma tick_loop_turn:
  assumes "clock_ok t" "0 < left"
  shows "tick_loop left t = tick_loop (left - min left (boundary t)) (elapse (min left (boundary t)) t)"
  using assms(2) current_level_ok [OF assms(1)]
  by (subst tick_loop.simps) (simp add: boundary_def elapse_def Let_def saturating_sub_def)

lemma boundary_pos: "clock_ok t \<Longrightarrow> 0 < boundary t"
  by (simp add: clock_ok_def boundary_def)

lemma finish_level_clock:
  assumes "clock_ok t" "tr_status t = TRunning"
  shows "clock_ok (finish_level (tc_levels (tr_config t) ! tr_level_index t) (t\<lparr>tr_level_elapsed_millis := e\<rparr>))"
proof -
  let ?levels = "tc_levels (tr_config t)"
  have next_in: "min (tr_level_index t + 1) (length ?levels - 1) < length ?levels"
    using assms(1) by (auto simp: clock_ok_def min_def)
  have all: "60 \<le> tl_duration_seconds l \<and> tl_duration_seconds l \<le> 7200 \<and> tl_break_after_seconds l \<le> 1800"
    if "l \<in> set ?levels" for l
    using assms(1) that by (simp add: clock_ok_def config_levels_ok_def)
  have "0 < level_duration (?levels ! min (tr_level_index t + 1) (length ?levels - 1))"
    using all [OF nth_mem [OF next_in]] by (simp add: level_duration_exact)
  moreover have "u64_saturating_mul (tl_break_after_seconds (?levels ! tr_level_index t)) 1000
      = tl_break_after_seconds (?levels ! tr_level_index t) * 1000 \<and>
      tl_break_after_seconds (?levels ! tr_level_index t) \<le> 1800"
    using all [OF nth_mem, of "tr_level_index t"] assms(1)
    by (simp add: u64_saturating_mul_def u64_bound_def clock_ok_def)
  ultimately show ?thesis
    using assms next_in by (simp add: finish_level_def Let_def clock_ok_def)
qed

lemma elapse_clock:
  assumes "clock_ok t" "on_clock t" "c \<le> boundary t"
  shows "clock_ok (elapse c t) \<and> on_clock (elapse c t)"
proof (cases "tr_status t = TBreak")
  case True
  then show ?thesis
    using assms by (auto simp: elapse_def clock_ok_def on_clock_def Let_def)
next
  case False
  then have running: "tr_status t = TRunning" using assms(2) by (simp add: on_clock_def)
  let ?level = "tc_levels (tr_config t) ! tr_level_index t"
  let ?t' = "t\<lparr>tr_level_elapsed_millis := tr_level_elapsed_millis t + c\<rparr>"
  have "on_clock (finish_level ?level ?t')"
    using running by (simp add: finish_level_def on_clock_def Let_def)
  moreover have "clock_ok ?t' \<and> on_clock ?t'" if "\<not> level_duration ?level \<le> tr_level_elapsed_millis ?t'"
    using that assms running by (simp add: clock_ok_def on_clock_def)
  ultimately show ?thesis
    using False finish_level_clock [OF assms(1) running, of "tr_level_elapsed_millis t + c"]
    by (simp add: elapse_def Let_def)
qed

text \<open>Everything but the clock.\<close>

definition same_field :: "tournament_controller \<Rightarrow> tournament_controller \<Rightarrow> bool" where
  "same_field t t' \<longleftrightarrow> tr_config t' = tr_config t \<and> tr_entrants t' = tr_entrants t \<and>
     tr_remaining t' = tr_remaining t \<and> tr_hands_completed t' = tr_hands_completed t \<and>
     tr_standings t' = tr_standings t"

lemma same_field_trans: "same_field t t' \<Longrightarrow> same_field t' t'' \<Longrightarrow> same_field t t''"
  by (simp add: same_field_def)

lemma elapse_field: "same_field t (elapse c t)"
  by (simp add: same_field_def elapse_def finish_level_def Let_def)

lemma elapse_level: "clock_ok t \<Longrightarrow> tr_level_index t \<le> tr_level_index (elapse c t)"
  by (auto simp: elapse_def finish_level_def clock_ok_def Let_def)

subsection \<open>The loop\<close>

lemma tick_loop_returns:
  assumes "clock_ok t" "on_clock t"
  shows "\<exists>t'. tick_loop left t = Some t' \<and> clock_ok t' \<and> on_clock t' \<and> same_field t t' \<and>
    tr_level_index t \<le> tr_level_index t'"
  using assms
proof (induction left arbitrary: t rule: less_induct)
  case (less left)
  show ?case
  proof (cases "left = 0")
    case True
    then show ?thesis using less.prems by (simp add: same_field_def)
  next
    case False
    define c where "c = min left (boundary t)"
    have c: "0 < c" "c \<le> left" "c \<le> boundary t"
      using boundary_pos [OF less.prems(1)] False by (simp_all add: c_def)
    have next_ok: "clock_ok (elapse c t)" "on_clock (elapse c t)"
      using elapse_clock [OF less.prems c(3)] by simp_all
    then obtain t' where "tick_loop (left - c) (elapse c t) = Some t'" "clock_ok t'" "on_clock t'"
        "same_field (elapse c t) t'" "tr_level_index (elapse c t) \<le> tr_level_index t'"
      using less.IH [of "left - c" "elapse c t"] c by auto
    moreover have "tick_loop left t = tick_loop (left - c) (elapse c t)"
      using tick_loop_turn [OF less.prems(1)] False by (simp add: c_def)
    ultimately show ?thesis
      using same_field_trans [OF elapse_field] elapse_level [OF less.prems(1), of c]
      by (metis le_trans)
  qed
qed

text \<open>A portion that stays short of the boundary.\<close>

lemma elapse_short:
  assumes "clock_ok t" "on_clock t" "c < boundary t"
  shows "boundary (elapse c t) = boundary t - c" and "elapse d (elapse c t) = elapse (c + d) t"
proof -
  have "boundary (elapse c t) = boundary t - c \<and> elapse d (elapse c t) = elapse (c + d) t"
  proof (cases "tr_status t = TBreak")
    case True
    then have "c < tr_break_remaining_millis t" using assms(3) by (simp add: boundary_def)
    with True show ?thesis by (simp add: elapse_def boundary_def Let_def)
  next
    case False
    let ?finish = "level_duration (tc_levels (tr_config t) ! tr_level_index t)"
    have short: "elapse c t = t\<lparr>tr_level_elapsed_millis := tr_level_elapsed_millis t + c\<rparr>"
      using False assms(3) by (simp add: elapse_def boundary_def Let_def)
    have "boundary (elapse c t) = boundary t - c"
      using False by (simp add: short boundary_def)
    moreover have "elapse d (elapse c t) = elapse (c + d) t"
      using False unfolding short by (simp add: elapse_def Let_def add.assoc)
    ultimately show ?thesis ..
  qed
  then show "boundary (elapse c t) = boundary t - c" "elapse d (elapse c t) = elapse (c + d) t" by simp_all
qed

lemma tick_loop_add:
  assumes "clock_ok t" "on_clock t"
  shows "tick_loop (a + b) t = Option.bind (tick_loop a t) (tick_loop b)"
  using assms
proof (induction a arbitrary: t rule: less_induct)
  case (less a)
  show ?case
  proof (cases "a < boundary t")
    case True
    have here: "tick_loop a t = Some (elapse a t)" if "0 < a"
      using tick_loop_turn [OF less.prems(1) that] True by simp
    have there: "clock_ok (elapse a t)"
      using elapse_clock [OF less.prems] True by simp
    have "tick_loop (a + b) t = tick_loop b (elapse a t)" if "0 < a" "0 < b"
    proof -
      have split: "min (a + b) (boundary t) = a + min b (boundary t - a)" using True by simp
      have "tick_loop (a + b) t
          = tick_loop (b - min b (boundary t - a)) (elapse (a + min b (boundary t - a)) t)"
        using tick_loop_turn [OF less.prems(1), of "a + b"] that by (simp add: split)
      also have "\<dots> = tick_loop b (elapse a t)"
        using tick_loop_turn [OF there that(2)] elapse_short [OF less.prems True] by simp
      finally show ?thesis .
    qed
    then show ?thesis using here by (cases "a = 0"; cases "b = 0") simp_all
  next
    case False
    define c where "c = boundary t"
    have c: "0 < c" "c \<le> a" using boundary_pos [OF less.prems(1)] False by (simp_all add: c_def)
    have turn: "tick_loop (a + b') t = tick_loop (a - c + b') (elapse c t)" for b'
    proof -
      have "min (a + b') (boundary t) = c" using c by (simp add: c_def)
      then show ?thesis using tick_loop_turn [OF less.prems(1), of "a + b'"] c by simp
    qed
    have "tick_loop (a - c + b) (elapse c t) = Option.bind (tick_loop (a - c) (elapse c t)) (tick_loop b)"
      using less.IH [of "a - c" "elapse c t"] elapse_clock [OF less.prems, of c] c by (simp add: c_def)
    then show ?thesis using turn [of b] turn [of 0] by simp
  qed
qed

lemma tick_between_returns:
  assumes "clock_ok t"
  shows "\<exists>t'. tick_between_hands elapsed t = Some t' \<and> clock_ok t' \<and> same_field t t' \<and>
    (on_clock t' \<longleftrightarrow> on_clock t) \<and> (\<not> on_clock t \<longrightarrow> t' = t) \<and> tr_level_index t \<le> tr_level_index t'"
  using assms tick_loop_returns [OF assms, of elapsed]
  by (auto simp: tick_between_hands_def on_clock_def same_field_def)

lemma tick_between_add:
  assumes "clock_ok t"
  shows "tick_between_hands (a + b) t = Option.bind (tick_between_hands a t) (tick_between_hands b)"
proof (cases "on_clock t")
  case True
  obtain t' where t': "tick_loop a t = Some t'" "on_clock t'"
    using tick_loop_returns [OF assms True] by blast
  then show ?thesis
    using tick_loop_add [OF assms True, of a b] True by (auto simp: tick_between_hands_def on_clock_def)
qed (simp add: tick_between_hands_def on_clock_def)

subsection \<open>The invariant\<close>

text \<open>
  The invariant of the freezeout and its operations: the registrations, the places handed out so far,
  the clock, and that no operation panics as long as the payout shares really add up to 10000 basis
  points.
\<close>

definition config_ok :: "tournament_config \<Rightarrow> bool" where
  "config_ok c \<longleftrightarrow> 2 \<le> tc_entrants c \<and> tc_entrants c \<le> 9 \<and> config_levels_ok c \<and> plan_ok (tc_payout c) \<and>
     length (pp_shares_bps (tc_payout c)) \<le> tc_entrants c"

subsection \<open>A valid configuration\<close>

lemma levels_valid_durations:
  "levels_valid ls prior \<Longrightarrow> l \<in> set ls \<Longrightarrow>
     60 \<le> tl_duration_seconds l \<and> tl_duration_seconds l \<le> 7200 \<and> tl_break_after_seconds l \<le> 1800"
  by (induction ls prior rule: levels_valid.induct) (auto simp: Let_def split: if_splits)

lemma config_validate_returns: "config_validate c \<noteq> None"
  by (auto simp: config_validate_def vec_get_def Let_def)

lemma config_validate_ok:
  assumes "config_validate c = Some (Inr u)" "sum_list (pp_shares_bps (tc_payout c)) = PAYOUT_BASIS_POINTS"
  shows "config_ok c"
proof -
  have "2 \<le> tc_entrants c" "tc_entrants c \<le> 9" "tc_levels c \<noteq> []" "length (tc_levels c) \<le> MAX_LEVELS"
      "levels_valid (tc_levels c) (0, 0, 0)" "1 \<le> pp_pool (tc_payout c)" "pp_pool (tc_payout c) \<le> 1000000"
      "pp_shares_bps (tc_payout c) \<noteq> []" "length (pp_shares_bps (tc_payout c)) \<le> 3"
      "length (pp_shares_bps (tc_payout c)) \<le> tc_entrants c" "0 \<notin> set (pp_shares_bps (tc_payout c))"
    using assms(1) by (auto simp: config_validate_def Let_def split: if_splits bind_splits)
  then show ?thesis
    using assms(2) levels_valid_durations
    by (auto simp: config_ok_def config_levels_ok_def plan_ok_def)
qed

subsection \<open>The invariant\<close>

abbreviation entered :: "tournament_controller \<Rightarrow> player_id set" where
  "entered t \<equiv> fst ` set (tr_entrants t)"

text \<open>The entrants: at most as many as configured, each with a seat of its own.\<close>

definition entrants_ok :: "tournament_controller \<Rightarrow> bool" where
  "entrants_ok t \<longleftrightarrow> bt_sorted (tr_entrants t) \<and> distinct (map snd (tr_entrants t)) \<and>
     (\<forall>(p, s)\<in>set (tr_entrants t). s < tc_entrants (tr_config t)) \<and>
     length (tr_entrants t) \<le> tc_entrants (tr_config t)"

text \<open>The places given out so far, last place first, when the first \<open>k\<close> places are still open.\<close>

definition standings_ok :: "tournament_controller \<Rightarrow> nat \<Rightarrow> player_id set \<Rightarrow> bool" where
  "standings_ok t k still \<longleftrightarrow>
     map ts_place (tr_standings t) = rev [Suc k..<Suc (tc_entrants (tr_config t))] \<and>
     distinct (map ts_player (tr_standings t)) \<and> ts_player ` set (tr_standings t) = entered t - still \<and>
     (\<forall>st\<in>set (tr_standings t). bt_get (tr_entrants t) (ts_player st) = Some (ts_seat st))"

definition playing_ok :: "tournament_controller \<Rightarrow> bool" where
  "playing_ok t \<longleftrightarrow> length (tr_entrants t) = tc_entrants (tr_config t) \<and> set (tr_remaining t) \<subseteq> entered t \<and>
     standings_ok t (length (tr_remaining t)) (set (tr_remaining t))"

definition prizes_ok :: "tournament_controller \<Rightarrow> bool" where
  "prizes_ok t \<longleftrightarrow> length (tr_remaining t) = 1 \<and> length (tr_entrants t) = tc_entrants (tr_config t) \<and> standings_ok t 0 {} \<and>
     sum_list (map ts_payout (tr_standings t)) = pp_pool (tc_payout (tr_config t))"

definition tour_ok :: "tournament_controller \<Rightarrow> bool" where
  "tour_ok t \<longleftrightarrow> config_ok (tr_config t) \<and> clock_ok t \<and> entrants_ok t \<and> sorted_wrt (<) (tr_remaining t) \<and>
     (case tr_status t of
        Registering \<Rightarrow> set (tr_remaining t) = entered t \<and> tr_standings t = []
      | TCancelled \<Rightarrow> set (tr_remaining t) = entered t \<and> tr_standings t = []
      | TComplete \<Rightarrow> prizes_ok t
      | _ \<Rightarrow> playing_ok t)"

lemma tour_ok_on_clock: "on_clock t \<Longrightarrow> tour_ok t \<longleftrightarrow>
    config_ok (tr_config t) \<and> clock_ok t \<and> entrants_ok t \<and> sorted_wrt (<) (tr_remaining t) \<and> playing_ok t"
  by (auto simp: tour_ok_def on_clock_def)

lemma entrants_length: "entrants_ok t \<Longrightarrow> card (entered t) = length (tr_entrants t)"
  using bt.distinct_keys [of "tr_entrants t"] distinct_card [of "map fst (tr_entrants t)"]
  by (simp add: entrants_ok_def)

lemma distinct_remaining: "sorted_wrt (<) (xs :: nat list) \<Longrightarrow> distinct xs"
  by (simp add: strict_sorted_iff)

lemma set_bset_insert [simp]: "set (bset_insert x ys) = insert x (set ys)"
  by (induction x ys rule: bset_insert.induct) auto

lemma sorted_bset_insert: "sorted_wrt (<) (ys :: 'a::linorder list) \<Longrightarrow> sorted_wrt (<) (bset_insert x ys)"
  by (induction x ys rule: bset_insert.induct) auto

lemma bset_remove_simps:
  "set (bset_remove x ys) = set ys - {x}"
  "sorted_wrt (<) (ys :: 'a::linorder list) \<Longrightarrow> sorted_wrt (<) (bset_remove x ys)"
  by (auto simp: bset_remove_def sorted_wrt_filter)

subsection \<open>Registration\<close>

lemma tournament_new_ok:
  assumes "tournament_new c = Some (Inr t)" "sum_list (pp_shares_bps (tc_payout c)) = PAYOUT_BASIS_POINTS"
  shows "tour_ok t"
proof -
  have u: "config_validate c = Some (Inr ())" using assms(1)
    by (cases "config_validate c"; cases "the (config_validate c)") (auto simp: tournament_new_def)
  have t: "t = \<lparr>tr_config = c\<lparr>tc_join_code := []\<rparr>, tr_status = Registering, tr_entrants = [],
      tr_remaining = [], tr_level_index = 0, tr_level_elapsed_millis = 0,
      tr_break_remaining_millis = 0, tr_hands_completed = 0, tr_standings = []\<rparr>"
    using assms(1) u by (simp add: tournament_new_def)
  have ok: "config_ok c" by (rule config_validate_ok [OF u assms(2)])
  then have "tc_levels c ! 0 \<in> set (tc_levels c)" by (simp add: config_ok_def config_levels_ok_def)
  then have "60 \<le> tl_duration_seconds (tc_levels c ! 0)" "tl_duration_seconds (tc_levels c ! 0) \<le> 7200"
    using ok by (simp_all add: config_ok_def config_levels_ok_def)
  then have "0 < level_duration (tc_levels c ! 0)" by (simp add: level_duration_exact)
  then show ?thesis
    using ok by (simp add: t tour_ok_def config_ok_def config_levels_ok_def clock_ok_def entrants_ok_def)
qed

lemma register_ok:
  assumes "tour_ok t" "register t e = Inr t'"
  shows "tour_ok t'"
proof -
  have reg: "tr_status t = Registering" "length (tr_entrants t) < tc_entrants (tr_config t)"
      "bt_get (tr_entrants t) (te_player e) = None" "te_seat e \<notin> snd ` set (tr_entrants t)"
      "te_seat e < tc_entrants (tr_config t)"
      and t': "t' = t\<lparr>tr_entrants := bt_insert (te_player e) (te_seat e) (tr_entrants t),
        tr_remaining := bset_insert (te_player e) (tr_remaining t)\<rparr>"
    using assms(2) by (auto simp: register_def list_ex_iff split: if_splits)
  have "te_player e \<notin> entered t"
    using reg(3) by (simp add: bt_get_None)
  then have inserted: "mset (bt_insert (te_player e) (te_seat e) (tr_entrants t))
      = add_mset (te_player e, te_seat e) (mset (tr_entrants t))" by (rule mset_bt_insert)
  then have entries: "set (bt_insert (te_player e) (te_seat e) (tr_entrants t))
      = insert (te_player e, te_seat e) (set (tr_entrants t))"
    by (metis set_mset_add_mset_insert set_mset_mset)
  have "length (bt_insert (te_player e) (te_seat e) (tr_entrants t)) = Suc (length (tr_entrants t))"
    using arg_cong [OF inserted, of "size"] by simp
  moreover have "distinct (map snd (bt_insert (te_player e) (te_seat e) (tr_entrants t)))"
  proof -
    have "mset (map snd (bt_insert (te_player e) (te_seat e) (tr_entrants t)))
        = mset (te_seat e # map snd (tr_entrants t))" by (simp add: inserted)
    from mset_eq_imp_distinct_iff [OF this] show ?thesis
      using reg(4) assms(1) by (simp add: tour_ok_def entrants_ok_def)
  qed
  ultimately have "entrants_ok t'"
    using assms(1) reg entries by (auto simp: t' tour_ok_def entrants_ok_def bt_sorted_insert)
  then show ?thesis
    using assms(1) reg(1) entries
    by (simp add: tour_ok_def t' clock_ok_def sorted_bset_insert)
qed

lemma unregister_ok:
  assumes "tour_ok t" "unregister t p = Inr t'"
  shows "tour_ok t'"
proof -
  have reg: "tr_status t = Registering"
      and t': "t' = t\<lparr>tr_entrants := bt_remove p (tr_entrants t), tr_remaining := bset_remove p (tr_remaining t)\<rparr>"
    using assms(2) by (auto simp: unregister_def split: if_splits)
  have members: "set (bt_remove p (tr_entrants t)) = {x \<in> set (tr_entrants t). fst x \<noteq> p}"
    by (auto simp: bt_remove_def)
  have "length (bt_remove p (tr_entrants t)) \<le> length (tr_entrants t)" by (simp add: bt_remove_def)
  moreover have "distinct (map snd (bt_remove p (tr_entrants t)))"
    using assms(1) by (simp add: bt_remove_def tour_ok_def entrants_ok_def distinct_map_filter)
  ultimately have "entrants_ok t'"
    using assms(1) by (auto simp: t' tour_ok_def entrants_ok_def bt_sorted_remove members)
  then show ?thesis
    using assms(1) reg by (auto simp: tour_ok_def t' clock_ok_def bset_remove_simps members)
qed

lemma tournament_start_ok:
  assumes "tour_ok t" "tournament_start t = Inr t'"
  shows "tour_ok t'"
proof -
  have reg: "tr_status t = Registering" "length (tr_entrants t) = tc_entrants (tr_config t)"
      and t': "t' = t\<lparr>tr_status := TRunning\<rparr>"
    using assms(2) by (auto simp: tournament_start_def split: if_splits)
  have all: "set (tr_remaining t) = entered t" "tr_standings t = []" "sorted_wrt (<) (tr_remaining t)"
    using assms(1) reg(1) by (simp_all add: tour_ok_def)
  then have "length (tr_remaining t) = tc_entrants (tr_config t)"
    using entrants_length [of t] distinct_card [OF distinct_remaining [OF all(3)]] reg(2) assms(1)
    by (simp add: tour_ok_def)
  then have "playing_ok t'"
    using reg all by (simp add: t' playing_ok_def standings_ok_def)
  moreover have "entrants_ok t'" "clock_ok t'"
    using assms(1) by (simp_all add: t' tour_ok_def entrants_ok_def clock_ok_def)
  ultimately show ?thesis
    using assms(1) by (simp add: tour_ok_def t')
qed

lemma tournament_cancel_ok:
  assumes "tour_ok t" "tournament_cancel t = Inr t'"
  shows "tour_ok t'"
  using assms by (auto simp: tournament_cancel_def tour_ok_def entrants_ok_def clock_ok_def split: if_splits)

end
