(* ===== verification/Tournament_Play.thy ===== *)
theory Tournament_Play
  imports Tournament_Facts
begin

text \<open>
  The hands of the freezeout: eliminations, the winner and the payouts keep the invariant, and every
  operation returns from every reachable tournament.
\<close>

lemma remaining_bound:
  assumes "entrants_ok t" "playing_ok t" "sorted_wrt (<) (tr_remaining t)"
  shows "length (tr_remaining t) \<le> tc_entrants (tr_config t)"
proof -
  have "card (set (tr_remaining t)) \<le> card (entered t)"
    using assms(2) by (intro card_mono) (simp_all add: playing_ok_def)
  then show ?thesis
    using distinct_card [OF distinct_remaining [OF assms(3)]] entrants_length [OF assms(1)] assms(2)
    by (simp add: playing_ok_def)
qed

lemma places_extend: "0 < k \<Longrightarrow> k \<le> n \<Longrightarrow> rev [k..<Suc n] = rev [Suc k..<Suc n] @ [k]"
  by (simp add: upt_conv_Cons del: upt_Suc)

lemma bset_remove_length:
  fixes x :: "'a::linorder"
  assumes "distinct xs" "x \<in> set xs" shows "length (bset_remove x xs) = length xs - 1"
proof -
  have "length (bset_remove x xs) = card (set xs - {x})"
    using assms(1) distinct_card [of "bset_remove x xs"] bset_remove_simps(1) [of x xs]
    by (simp add: bset_remove_def)
  then show ?thesis using assms by (simp add: distinct_card)
qed

subsection \<open>One place given out\<close>

lemma standings_extend:
  assumes "standings_ok t k still" "p \<in> still" "still \<subseteq> entered t" "bt_get (tr_entrants t) p = Some s"
    and "0 < k" "k \<le> tc_entrants (tr_config t)"
  shows "standings_ok (t\<lparr>tr_remaining := rem, tr_standings := tr_standings t @
      [\<lparr>ts_player = p, ts_seat = s, ts_place = k, ts_payout = 0\<rparr>]\<rparr>) (k - 1) (still - {p})"
proof -
  have "Suc (k - 1) = k" using assms(5) by simp
  moreover have "p \<notin> ts_player ` set (tr_standings t)" using assms(1,2) by (auto simp: standings_ok_def)
  ultimately show ?thesis
    using assms places_extend [OF assms(5,6)]
    by (auto simp: standings_ok_def simp del: upt_Suc)
qed

lemma eliminate_one:
  assumes "entrants_ok t" "playing_ok t" "sorted_wrt (<) (tr_remaining t)"
    and "(p, s) \<in> set (tr_entrants t)" "p \<in> set (tr_remaining t)"
  shows "playing_ok (t\<lparr>tr_remaining := bset_remove p (tr_remaining t), tr_standings := tr_standings t @
      [\<lparr>ts_player = p, ts_seat = s, ts_place = length (tr_remaining t), ts_payout = 0\<rparr>]\<rparr>)"
proof -
  have "bt_get (tr_entrants t) p = Some s"
    using assms(1,4) bt.get_iff_entry [of "tr_entrants t" p s] by (simp add: entrants_ok_def)
  moreover have "0 < length (tr_remaining t)" using assms(5) by (cases "tr_remaining t") auto
  ultimately show ?thesis
    using assms remaining_bound [OF assms(1-3)]
      standings_extend [of t "length (tr_remaining t)" "set (tr_remaining t)" p s "bset_remove p (tr_remaining t)"]
      bset_remove_length [OF distinct_remaining [OF assms(3)] assms(5)]
    by (auto simp: playing_ok_def bset_remove_simps)
qed

lemma eliminate_ok:
  assumes "config_ok (tr_config t)" "entrants_ok t" "playing_ok t" "sorted_wrt (<) (tr_remaining t)"
    and "remaining_before - index = length (tr_remaining t)" "eliminate remaining_before index xs t = (r, t')"
  shows "playing_ok t' \<and> sorted_wrt (<) (tr_remaining t') \<and>
    t' = t\<lparr>tr_remaining := tr_remaining t', tr_standings := tr_standings t'\<rparr>"
  using assms
proof (induction xs arbitrary: index t)
  case (Cons x rest)
  obtain s stack where x: "x = (s, stack)" by (cases x)
  let ?rb = remaining_before
  show ?case
  proof (cases "first_match (\<lambda>(p, registered). registered = s) (tr_entrants t)")
    case None
    then have "eliminate ?rb index (x # rest) t = (Inl InvalidHandResult, t)"
      by (simp only: x eliminate.simps option.case)
    then show ?thesis using Cons.prems by simp
  next
    case (Some e)
    then obtain p where e: "e = (p, s)" "(p, s) \<in> set (tr_entrants t)"
      using first_match_SomeD [OF Some] by (cases e) auto
    show ?thesis
    proof (cases "p \<in> set (tr_remaining t)")
      case False
      then show ?thesis using Cons.prems Some e(1) x by simp
    next
      case True
      let ?t = "t\<lparr>tr_remaining := bset_remove p (tr_remaining t), tr_standings := tr_standings t @
        [\<lparr>ts_player = p, ts_seat = s, ts_place = length (tr_remaining t), ts_payout = 0\<rparr>]\<rparr>"
      have small: "\<not> 255 < ?rb - index"
        using remaining_bound [OF Cons.prems(2-4)] Cons.prems(1,5) by (simp add: config_ok_def)
      then have step: "eliminate ?rb index (x # rest) t = eliminate ?rb (index + 1) rest ?t"
        using Some e(1) True Cons.prems(5) by (simp add: x Let_def)
      have "playing_ok ?t" by (rule eliminate_one [OF Cons.prems(2-4) e(2) True])
      moreover have "?rb - (index + 1) = length (tr_remaining ?t)"
        using bset_remove_length [OF distinct_remaining True] Cons.prems(4,5) by simp
      moreover have "entrants_ok ?t" using Cons.prems(2) by (simp add: entrants_ok_def)
      ultimately have "playing_ok t' \<and> sorted_wrt (<) (tr_remaining t') \<and>
          t' = ?t\<lparr>tr_remaining := tr_remaining t', tr_standings := tr_standings t'\<rparr>"
        using Cons.IH [of ?t "index + 1"] Cons.prems(1,4,6) step by (simp add: bset_remove_simps)
      then show ?thesis by simp
    qed
  qed
qed simp

subsection \<open>The winner\<close>

lemma apply_payouts_exact:
  assumes "config_ok (tr_config t)"
    and "map ts_place (tr_standings t) = rev [1..<Suc (tc_entrants (tr_config t))]"
  shows "\<exists>f. apply_payouts t = Some (t\<lparr>tr_standings := map (\<lambda>st. st\<lparr>ts_payout := f (ts_place st)\<rparr>) (tr_standings t)\<rparr>) \<and>
    sum_list (map f (rev [1..<Suc (tc_entrants (tr_config t))])) = pp_pool (tc_payout (tr_config t))"
proof -
  let ?plan = "tc_payout (tr_config t)" and ?n = "tc_entrants (tr_config t)"
  have plan: "plan_ok ?plan" "length (pp_shares_bps ?plan) \<le> ?n" using assms(1) by (simp_all add: config_ok_def)
  obtain as where as: "final_awards ?plan = Some as" "sum_list (map po_amount as) = pp_pool ?plan"
      "mset (map po_place as) = mset [1..<Suc (length (pp_shares_bps ?plan))]"
    using final_awards_exact [OF plan(1)] by blast
  have "distinct (map po_place as)" using mset_eq_imp_distinct_iff [OF as(3)] by simp
  moreover have "set (map po_place as) \<subseteq> {1..?n}" using mset_eq_setD [OF as(3)] plan(2) by auto
  ultimately have "sum_list (map (payout_of as) (rev [1..<Suc ?n])) = pp_pool ?plan"
    using payouts_of_places as(2) by simp
  then show ?thesis
    using as(1) by (auto simp: apply_payouts_def simp del: upt_Suc intro!: exI [of _ "payout_of as"])
qed

lemma crown_winner_ok:
  assumes "tour_ok t" "on_clock t"
  shows "\<exists>t'. crown_winner t = Some t' \<and> tour_ok t' \<and>
    tr_config t' = tr_config t \<and> tr_entrants t' = tr_entrants t \<and>
    (tr_status t' = TComplete \<longleftrightarrow> length (tr_remaining t) = 1) \<and> (tr_status t' \<noteq> TComplete \<longrightarrow> t' = t)"
proof (cases "length (tr_remaining t) = 1")
  case False
  then have "crown_winner t = Some t" by (auto simp: crown_winner_def split: list.splits)
  then show ?thesis using assms False by (auto simp: on_clock_def)
next
  case True
  then obtain w where w: "tr_remaining t = [w]" by (auto simp: length_Suc_conv)
  have ok: "config_ok (tr_config t)" "clock_ok t" "entrants_ok t" "playing_ok t"
    using assms by (simp_all add: tour_ok_on_clock)
  then have "w \<in> entered t" using w by (simp add: playing_ok_def)
  then obtain s where s: "bt_get (tr_entrants t) w = Some s"
    using ok(3) bt.get_iff_entry by (fastforce simp: entrants_ok_def)
  let ?t = "t\<lparr>tr_standings := tr_standings t @ [\<lparr>ts_player = w, ts_seat = s, ts_place = 1, ts_payout = 0\<rparr>]\<rparr>"
  have standings: "standings_ok ?t 0 {}"
  proof -
    have "standings_ok (t\<lparr>tr_remaining := [], tr_standings := tr_standings ?t\<rparr>) (1 - 1) ({w} - {w})"
      using standings_extend [of t 1 "{w}" w s "[]"] ok w s by (simp add: playing_ok_def config_ok_def)
    then show ?thesis by (simp add: standings_ok_def)
  qed
  then obtain f where f: "apply_payouts ?t = Some (?t\<lparr>tr_standings := map (\<lambda>st. st\<lparr>ts_payout := f (ts_place st)\<rparr>) (tr_standings ?t)\<rparr>)"
      "sum_list (map f (rev [1..<Suc (tc_entrants (tr_config t))])) = pp_pool (tc_payout (tr_config t))"
    using apply_payouts_exact [of ?t] ok(1) by (auto simp: standings_ok_def simp del: upt_Suc)
  define t' where "t' = t\<lparr>tr_standings := map (\<lambda>st. st\<lparr>ts_payout := f (ts_place st)\<rparr>) (tr_standings ?t), tr_status := TComplete\<rparr>"
  have crown: "crown_winner t = Some t'"
    using w s f(1) by (simp add: crown_winner_def t'_def)
  have places: "map ts_place (tr_standings ?t) = rev [Suc 0..<Suc (tc_entrants (tr_config t))]"
    using standings unfolding standings_ok_def by simp
  have "map ts_payout (tr_standings t') = map f (map ts_place (tr_standings ?t))"
    by (simp add: t'_def)
  then have "sum_list (map ts_payout (tr_standings t')) = pp_pool (tc_payout (tr_config t'))"
    unfolding places using f(2) by (simp add: t'_def del: upt_Suc)
  moreover have "standings_ok t' 0 {}"
    using standings by (simp add: standings_ok_def t'_def image_image comp_def image_Un del: upt_Suc)
  ultimately have "prizes_ok t'" using ok(4) w by (simp add: prizes_ok_def t'_def playing_ok_def)
  moreover have "clock_ok t'" "entrants_ok t'" using ok(2,3) by (simp_all add: t'_def clock_ok_def entrants_ok_def)
  ultimately have "tour_ok t'" using ok(1) w by (simp add: tour_ok_def t'_def)
  then show ?thesis using crown True by (simp add: t'_def)
qed

subsection \<open>The end of a hand\<close>

lemma freezeout_hand_ok:
  assumes "tour_ok t"
  shows "\<exists>r t'. tournament_complete_hand t before after = Some (r, t') \<and> tour_ok t' \<and>
    tr_config t' = tr_config t \<and> tr_entrants t' = tr_entrants t"
proof (cases "on_clock t")
  case False
  then show ?thesis using assms by (auto simp: tournament_complete_hand_def on_clock_def)
next
  case True
  note ok = assms [unfolded tour_ok_on_clock [OF True]]
  let ?b = "bt_of_list before" and ?a = "bt_of_list after"
  obtain r t1 where e: "eliminate (length (tr_remaining t)) 0 (busted_seats ?b ?a) t = (r, t1)"
    by (cases "eliminate (length (tr_remaining t)) 0 (busted_seats ?b ?a) t")
  have t1: "playing_ok t1" "sorted_wrt (<) (tr_remaining t1)"
      "t1 = t\<lparr>tr_remaining := tr_remaining t1, tr_standings := tr_standings t1\<rparr>"
    using eliminate_ok [OF _ _ _ _ _ e] ok by auto
  have frame: "tr_config t1 = tr_config t" "tr_entrants t1 = tr_entrants t" "tr_status t1 = tr_status t"
      "tr_level_index t1 = tr_level_index t" "tr_level_elapsed_millis t1 = tr_level_elapsed_millis t"
      "tr_break_remaining_millis t1 = tr_break_remaining_millis t"
    by (subst t1(3), simp)+
  have keep: "tour_ok (t1\<lparr>tr_hands_completed := h\<rparr>)" "on_clock (t1\<lparr>tr_hands_completed := h\<rparr>)" for h
  proof -
    show clock: "on_clock (t1\<lparr>tr_hands_completed := h\<rparr>)" using True frame(3) by (simp add: on_clock_def)
    show "tour_ok (t1\<lparr>tr_hands_completed := h\<rparr>)"
      unfolding tour_ok_on_clock [OF clock] using ok t1(1,2) frame
      by (simp add: clock_ok_def entrants_ok_def playing_ok_def standings_ok_def)
  qed
  have "tour_ok t1" using keep(1) [of "tr_hands_completed t1"] by simp
  moreover obtain t2 where "crown_winner (t1\<lparr>tr_hands_completed := u64_saturating_add (tr_hands_completed t1) 1\<rparr>) = Some t2"
      "tour_ok t2" "tr_config t2 = tr_config t1" "tr_entrants t2 = tr_entrants t1"
    using crown_winner_ok [OF keep] by fastforce
  ultimately show ?thesis
    using True assms frame e
    by (auto simp: tournament_complete_hand_def on_clock_def Let_def split: sum.splits)
qed

subsection \<open>Reachable tournaments\<close>

datatype tour_op = TRegister tournament_entrant | TUnregister player_id | TStart | TCancel
  | TTick u64 | TComplete_Hand "(seat_id \<times> u32) list" "(seat_id \<times> u32) list"

definition after_result :: "'e + 't \<Rightarrow> 't \<Rightarrow> 't" where
  "after_result r t = (case r of Inl _ \<Rightarrow> t | Inr t' \<Rightarrow> t')"

fun run_tour_op :: "tour_op \<Rightarrow> tournament_controller \<Rightarrow> tournament_controller option" where
  "run_tour_op (TRegister e) t = Some (after_result (register t e) t)"
| "run_tour_op (TUnregister p) t = Some (after_result (unregister t p) t)"
| "run_tour_op TStart t = Some (after_result (tournament_start t) t)"
| "run_tour_op TCancel t = Some (after_result (tournament_cancel t) t)"
| "run_tour_op (TTick millis) t = tick_between_hands millis t"
| "run_tour_op (TComplete_Hand before after) t = map_option snd (tournament_complete_hand t before after)"

inductive tour_reachable :: "tournament_config \<Rightarrow> tournament_controller \<Rightarrow> bool" for c where
  created: "tournament_new c = Some (Inr t) \<Longrightarrow> tour_reachable c t"
| stepped: "tour_reachable c t \<Longrightarrow> run_tour_op op t = Some t' \<Longrightarrow> tour_reachable c t'"

lemma tick_tour_ok:
  assumes "tour_ok t"
  shows "\<exists>t'. tick_between_hands left t = Some t' \<and> tour_ok t'"
proof -
  have "clock_ok t" using assms by (simp add: tour_ok_def)
  then obtain t' where t': "tick_between_hands left t = Some t'" "clock_ok t'" "same_field t t'"
      "on_clock t' \<longleftrightarrow> on_clock t" "\<not> on_clock t \<longrightarrow> t' = t"
    using tick_between_returns by blast
  have "tour_ok t'"
  proof (cases "on_clock t")
    case True
    then show ?thesis
      using assms t' by (simp add: tour_ok_on_clock same_field_def entrants_ok_def playing_ok_def standings_ok_def)
  qed (use assms t'(5) in simp)
  with t'(1) show ?thesis by blast
qed

lemma run_tour_op_ok:
  assumes "tour_ok t"
  shows "\<exists>t'. run_tour_op op t = Some t' \<and> tour_ok t'"
proof (cases op)
  case (TComplete_Hand before after)
  then show ?thesis using freezeout_hand_ok [OF assms, of before after] by auto
next
  case (TTick left)
  then show ?thesis using tick_tour_ok [OF assms] by simp
next
  case (TRegister e)
  then show ?thesis using assms register_ok by (cases "register t e") (auto simp: after_result_def)
next
  case (TUnregister p)
  then show ?thesis using assms unregister_ok by (cases "unregister t p") (auto simp: after_result_def)
next
  case TStart
  then show ?thesis using assms tournament_start_ok by (cases "tournament_start t") (auto simp: after_result_def)
next
  case TCancel
  then show ?thesis using assms tournament_cancel_ok by (cases "tournament_cancel t") (auto simp: after_result_def)
qed

lemma tour_reachable_ok:
  assumes "tour_reachable c t" "sum_list (pp_shares_bps (tc_payout c)) = PAYOUT_BASIS_POINTS"
  shows "tour_ok t"
  using assms(1)
proof induction
  case (created t)
  then show ?case using tournament_new_ok assms(2) by blast
next
  case (stepped t op t')
  then show ?case using run_tour_op_ok [of t op] by auto
qed

lemma tour_remaining_bound:
  assumes "tour_ok t" shows "length (tr_remaining t) \<le> 9"
proof -
  have sub: "set (tr_remaining t) \<subseteq> entered t \<Longrightarrow> length (tr_remaining t) \<le> length (tr_entrants t)"
    using card_mono [of "entered t" "set (tr_remaining t)"] entrants_length [of t]
      distinct_card [OF distinct_remaining, of "tr_remaining t"] assms by (simp add: tour_ok_def)
  show ?thesis
    using sub assms by (auto simp: tour_ok_def entrants_ok_def config_ok_def playing_ok_def prizes_ok_def split: tournament_status.splits)
qed

end
