(* ===== verification/Tournament_Properties.thy ===== *)
theory Tournament_Properties
  imports Tournament_Play "HOL-Library.Code_Target_Nat"
begin

text \<open>
  The properties of the freezeout, with three-player tournaments as their concrete instances.
\<close>

section \<open>Concrete tournaments\<close>

definition sample_config :: "u32 list \<Rightarrow> u32 \<Rightarrow> tournament_config" where
  "sample_config shares pool = (recommended 3 [])\<lparr>tc_payout := \<lparr>pp_pool = pool, pp_shares_bps = shares\<rparr>\<rparr>"

definition created_tournament :: "tournament_config \<Rightarrow> tournament_controller option" where
  "created_tournament c = (case tournament_new c of Some (Inr t) \<Rightarrow> Some t | _ \<Rightarrow> None)"

definition three_players :: "tour_op list" where
  "three_players = [TRegister \<lparr>te_player = 10, te_seat = 0\<rparr>, TRegister \<lparr>te_player = 11, te_seat = 1\<rparr>,
     TRegister \<lparr>te_player = 12, te_seat = 2\<rparr>, TStart]"

definition two_bust_outs :: "tour_op list" where
  "two_bust_outs = [TTick 700000, TComplete_Hand [(0, 3000), (1, 3000), (2, 3000)] [(0, 6000), (1, 0), (2, 3000)],
     TComplete_Hand [(0, 6000), (2, 3000)] [(0, 9000), (2, 0)]]"

definition played_out :: "tournament_config \<Rightarrow> tournament_controller option" where
  "played_out c = Option.bind (created_tournament c) (for_m run_tour_op (three_players @ two_bust_outs))"

lemma run_tour_ops_reachable:
  assumes "for_m run_tour_op ops t = Some t'" "tour_reachable c t"
  shows "tour_reachable c t'"
  using for_m_invariant [OF assms(1), of "tour_reachable c"] assms(2) stepped by metis

lemma played_out_reachable:
  assumes "played_out c = Some t" shows "tour_reachable c t"
proof -
  obtain t0 where "created_tournament c = Some t0" "for_m run_tour_op (three_players @ two_bust_outs) t0 = Some t"
    using assms by (auto simp: played_out_def split: bind_splits)
  then show ?thesis
    using run_tour_ops_reachable created
    by (auto simp: created_tournament_def split: option.splits sum.splits)
qed

lemma sample_played: "\<exists>t. played_out (sample_config [6000, 3000, 1000] 1001) = Some t \<and> tr_status t = TComplete"
proof -
  have "map_option tr_status (played_out (sample_config [6000, 3000, 1000] 1001)) = Some TComplete" by code_simp
  then show ?thesis by (cases "played_out (sample_config [6000, 3000, 1000] 1001)") auto
qed

lemma sample_shares: "sum_list (pp_shares_bps (tc_payout (sample_config [6000, 3000, 1000] 1001))) = PAYOUT_BASIS_POINTS"
  by (simp add: sample_config_def PAYOUT_BASIS_POINTS_def)

section \<open>The freezeout\<close>





text \<open>
  The clock does not care how the time between hands is portioned: reporting a sum of two times does
  what reporting them one after the other does, through any number of levels and breaks.
\<close>

theorem clock_portions_add:
  assumes "tour_reachable c t" "sum_list (pp_shares_bps (tc_payout c)) = PAYOUT_BASIS_POINTS"
  shows "tick_between_hands (a + b) t = Option.bind (tick_between_hands a t) (tick_between_hands b) \<and>
    (\<exists>t'. tick_between_hands a t = Some t' \<and> tr_level_index t \<le> tr_level_index t' \<and>
       tr_level_index t' < length (tc_levels (tr_config t)) \<and> tr_standings t' = tr_standings t)"
proof -
  have clock: "clock_ok t" using tour_reachable_ok [OF assms] by (simp add: tour_ok_def)
  show ?thesis
    using tick_between_add [OF clock, of a b] tick_between_returns [OF clock, of a]
    by (auto simp: same_field_def clock_ok_def)
qed

theorem clock_portions_add_witness:
  "\<exists>t. played_out (sample_config [6000, 3000, 1000] 1001) = Some t \<and>
     tick_between_hands (1000 + 5) t = Option.bind (tick_between_hands 1000 t) (tick_between_hands 5)"
proof -
  obtain t where "played_out (sample_config [6000, 3000, 1000] 1001) = Some t" using sample_played by blast
  then show ?thesis
    using clock_portions_add [OF played_out_reachable sample_shares, of t 1000 5] by blast
qed


end
