(* ===== verification/Protocol.thy ===== *)
theory Protocol
  imports Multiway "HOL-Library.Char_ord"
begin

text \<open>
  The protocol authority (src/src/protocol.rs): versioned command envelopes from untrusted controllers, the
  ledger that makes every command take effect at most once, the receipts, and the projection of a hand
  that one audience may see. Text is a list of bytes. The JSON decoder is a parameter of
  \<open>decode_command_json\<close>; the serde attributes are not modelled.
\<close>

subsection \<open>Envelopes\<close>

type_synonym u16 = nat
type_synonym table_id = u64
type_synonym hand_id = u64

definition PROTOCOL_VERSION :: u16 where
  "PROTOCOL_VERSION = 4"

definition MAX_COMMAND_ID_BYTES :: nat where
  "MAX_COMMAND_ID_BYTES = 64"

definition MAX_COMMAND_ENVELOPE_BYTES :: nat where
  "MAX_COMMAND_ENVELOPE_BYTES = 1024"

definition MAX_PUBLIC_ERROR_MESSAGE_BYTES :: nat where
  "MAX_PUBLIC_ERROR_MESSAGE_BYTES = 160"

definition MAX_RECORDED_COMMANDS_PER_HAND :: nat where
  "MAX_RECORDED_COMMANDS_PER_HAND = 256"

datatype command_payload = Act seat_id action | ShowdownPreference seat_id bool

fun payload_seat :: "command_payload \<Rightarrow> seat_id" where
  "payload_seat (Act s a) = s"
| "payload_seat (ShowdownPreference s b) = s"

record command_envelope =
  ce_version :: u16
  ce_command_id :: string
  ce_table_id :: table_id
  ce_hand_id :: hand_id
  ce_expected_revision :: u64
  ce_payload :: command_payload

definition act_for_hand :: "string \<Rightarrow> table_id \<Rightarrow> hand_id \<Rightarrow> u64 \<Rightarrow> seat_id \<Rightarrow> action \<Rightarrow> command_envelope"
  where
  "act_for_hand command_id table_id hand_id expected_revision s a =
     \<lparr>ce_version = PROTOCOL_VERSION, ce_command_id = command_id, ce_table_id = table_id,
      ce_hand_id = hand_id, ce_expected_revision = expected_revision, ce_payload = Act s a\<rparr>"

definition act_envelope :: "string \<Rightarrow> table_id \<Rightarrow> u64 \<Rightarrow> seat_id \<Rightarrow> action \<Rightarrow> command_envelope" where
  "act_envelope command_id table_id expected_revision s a =
     act_for_hand command_id table_id 1 expected_revision s a"

datatype table_event = ShowdownAdvanced
  | ShowdownPreferenceAccepted seat_id
  | ActionAccepted seat_id action multiway_phase "seat_id option" u32 \<comment> \<open>phase, next to act, pot total\<close>

record event_envelope =
  ee_version :: u16
  ee_command_id :: string
  ee_table_id :: table_id
  ee_hand_id :: hand_id
  ee_revision :: u64
  ee_event :: table_event

datatype protocol_error_code = UnsupportedVersion | InvalidCommandId | WrongTable | WrongHand
  | ReservedCommandId | CommandIdConflict | CommandLedgerFull | MessageTooLarge | MalformedMessage
  | StaleRevision | CodeHandNotActive | CodeSeatNotOccupied | CodeSeatNotEligible | CodeOutOfTurn
  | CodeIllegalAction

fun protocol_error_code_name :: "protocol_error_code \<Rightarrow> string" where
  "protocol_error_code_name UnsupportedVersion = ''unsupported_version''"
| "protocol_error_code_name InvalidCommandId = ''invalid_command_id''"
| "protocol_error_code_name WrongTable = ''wrong_table''"
| "protocol_error_code_name WrongHand = ''wrong_hand''"
| "protocol_error_code_name ReservedCommandId = ''reserved_command_id''"
| "protocol_error_code_name CommandIdConflict = ''command_id_conflict''"
| "protocol_error_code_name CommandLedgerFull = ''command_ledger_full''"
| "protocol_error_code_name MessageTooLarge = ''message_too_large''"
| "protocol_error_code_name MalformedMessage = ''malformed_message''"
| "protocol_error_code_name StaleRevision = ''stale_revision''"
| "protocol_error_code_name CodeHandNotActive = ''hand_not_active''"
| "protocol_error_code_name CodeSeatNotOccupied = ''seat_not_occupied''"
| "protocol_error_code_name CodeSeatNotEligible = ''seat_not_eligible''"
| "protocol_error_code_name CodeOutOfTurn = ''out_of_turn''"
| "protocol_error_code_name CodeIllegalAction = ''illegal_action''"

record public_protocol_error =
  pe_code :: protocol_error_code
  pe_message :: string

record error_envelope =
  er_version :: u16
  er_command_id :: "string option"
  er_table_id :: table_id
  er_hand_id :: hand_id
  er_revision :: u64
  er_error :: public_protocol_error

datatype acknowledgement_result = AckAccepted | AckRejected

datatype acknowledgement_delivery = Processed | Replayed

record acknowledgement_envelope =
  ak_version :: u16
  ak_command_id :: "string option"
  ak_table_id :: table_id
  ak_hand_id :: hand_id
  ak_revision :: u64
  ak_result :: acknowledgement_result
  ak_delivery :: acknowledgement_delivery

datatype command_outcome = Accepted event_envelope | Rejected error_envelope

fun outcome_into_result :: "command_outcome \<Rightarrow> error_envelope + event_envelope" where
  "outcome_into_result (Accepted event) = Inr event"
| "outcome_into_result (Rejected error) = Inl error"

fun outcome_revision :: "command_outcome \<Rightarrow> u64" where
  "outcome_revision (Accepted event) = ee_revision event"
| "outcome_revision (Rejected error) = er_revision error"

fun outcome_command_id :: "command_outcome \<Rightarrow> string option" where
  "outcome_command_id (Accepted event) = Some (ee_command_id event)"
| "outcome_command_id (Rejected error) = er_command_id error"

record submission_receipt =
  sr_acknowledgement :: acknowledgement_envelope
  sr_outcome :: command_outcome

subsection \<open>Identifiers and messages\<close>

definition ascii_alphanumeric :: "char \<Rightarrow> bool" where
  "ascii_alphanumeric c \<longleftrightarrow> (let b = of_char c :: nat in
     (48 \<le> b \<and> b \<le> 57) \<or> (65 \<le> b \<and> b \<le> 90) \<or> (97 \<le> b \<and> b \<le> 122))"

definition valid_command_id :: "string \<Rightarrow> bool" where
  "valid_command_id command_id \<longleftrightarrow> command_id \<noteq> [] \<and> length command_id \<le> MAX_COMMAND_ID_BYTES \<and>
     list_all (\<lambda>b. ascii_alphanumeric b \<or> b = CHR ''-'' \<or> b = CHR ''_'') command_id"

definition reserved_server_command_id :: "string \<Rightarrow> bool" where
  "reserved_server_command_id command_id \<longleftrightarrow> take 4 command_id = ''srv-''"

text \<open>A byte that does not continue a UTF-8 sequence starts a character.\<close>

definition is_char_boundary :: "string \<Rightarrow> nat \<Rightarrow> bool" where
  "is_char_boundary text i \<longleftrightarrow> i = 0 \<or> i = length text \<or>
     (i < length text \<and> \<not> (128 \<le> (of_char (text ! i) :: nat) \<and> (of_char (text ! i) :: nat) < 192))"

function boundary_at_most :: "string \<Rightarrow> nat \<Rightarrow> nat" where
  "boundary_at_most text i = (if is_char_boundary text i then i else boundary_at_most text (i - 1))"
  by pat_completeness auto
termination
  by (relation "measure (\<lambda>(text, i). i)") (auto simp: is_char_boundary_def)

declare boundary_at_most.simps [simp del]

definition bounded_public_message :: "string \<Rightarrow> string" where
  "bounded_public_message message =
     (if length message \<le> MAX_PUBLIC_ERROR_MESSAGE_BYTES then message
      else take (boundary_at_most message MAX_PUBLIC_ERROR_MESSAGE_BYTES) message)"

fun domain_error_code :: "command_error \<Rightarrow> protocol_error_code" where
  "domain_error_code HandNotActive = CodeHandNotActive"
| "domain_error_code (SeatNotOccupied s) = CodeSeatNotOccupied"
| "domain_error_code (SeatNotEligible s) = CodeSeatNotEligible"
| "domain_error_code (OutOfTurn expected actual) = CodeOutOfTurn"
| "domain_error_code (IllegalAction e) = CodeIllegalAction"

subsection \<open>Decoding\<close>

definition malformed_command_error :: public_protocol_error where
  "malformed_command_error = \<lparr>pe_code = MalformedMessage,
     pe_message = ''command JSON is malformed or does not match protocol v'' @ show_nat PROTOCOL_VERSION\<rparr>"

definition decode_command_json ::
  "(string \<Rightarrow> command_envelope option) \<Rightarrow> string \<Rightarrow> public_protocol_error + command_envelope" where
  "decode_command_json from_slice bytes =
    (if MAX_COMMAND_ENVELOPE_BYTES < length bytes then
       Inl \<lparr>pe_code = MessageTooLarge,
         pe_message = ''command message exceeds the '' @ show_nat MAX_COMMAND_ENVELOPE_BYTES @ ''-byte limit''\<rparr>
     else if bytes = [] then Inl malformed_command_error
     else case from_slice bytes of None \<Rightarrow> Inl malformed_command_error | Some envelope \<Rightarrow> Inr envelope)"

subsection \<open>Projections\<close>

datatype projection_audience = AudiencePlayer seat_id | AudienceSpectator

datatype projection_kind = KindPlayer seat_id | KindSpectator

datatype projection_error = PlayerSeatNotOccupied seat_id

record projected_seat =
  ps_seat :: seat_id
  ps_stack :: u32
  ps_street_contribution :: u32
  ps_hand_contribution :: u32
  ps_participation :: hand_participation
  ps_hole_cards :: "card list option"

record table_projection =
  pj_showdown :: "showdown_progress option"
  pj_mucked :: "seat_id list"
  pj_shown :: "seat_id list"
  pj_always_show :: bool
  pj_hand_id :: hand_id
  pj_audience :: projection_kind
  pj_table_size :: table_size
  pj_phase :: multiway_phase
  pj_button :: seat_id
  pj_small_blind :: seat_id
  pj_big_blind :: seat_id
  pj_small_blind_amount :: u32
  pj_big_blind_amount :: u32
  pj_ante_amount :: u32
  pj_to_act :: "seat_id option"
  pj_board :: "card list"
  pj_current_wager :: u32
  pj_pot_total :: u32
  pj_seats :: "projected_seat list"
  pj_pots :: "pot list"
  pj_awards :: "pot_award list"
  pj_legal_actions :: "legal_actions option"

definition default_small_blind_amount :: u32 where
  "default_small_blind_amount = 1"

definition default_big_blind_amount :: u32 where
  "default_big_blind_amount = 2"

definition projection_pot_total :: "multiway_hand \<Rightarrow> u32" where
  "projection_pot_total h = (case mh_phase h of
     Showdown \<Rightarrow> u32_sum (map pot_amount (mh_pots h))
   | HandComplete \<Rightarrow> u32_sum (map pa_amount (mh_awards h))
   | _ \<Rightarrow> u32_sum (map ms_hand_contribution (occupied_states h)))"

definition contribution_for :: "multiway_hand \<Rightarrow> seat_id \<Rightarrow> multiway_seat_state \<Rightarrow> u32 \<times> u32" where
  "contribution_for h s state =
    (if mh_phase h = Showdown \<or> mh_phase h = HandComplete then
       (case first_match (\<lambda>entry. ct_seat entry = s) (mh_settled_contributions h) of
          None \<Rightarrow> (0, 0) | Some entry \<Rightarrow> (0, ct_amount entry))
     else (ms_street_contribution state, ms_hand_contribution state))"

definition publicly_revealed :: "multiway_hand \<Rightarrow> seat_id \<Rightarrow> bool" where
  "publicly_revealed h s \<longleftrightarrow> list_ex (\<lambda>shown. rv_seat shown = s) (mh_revealed_hands h)"

definition project_seat :: "multiway_hand \<Rightarrow> projection_audience \<Rightarrow> seat_id \<Rightarrow> projected_seat option" where
  "project_seat h audience s = do {
     state \<leftarrow> mw_seat h s;
     let (street, total) = contribution_for h s state;
     Some \<lparr>ps_seat = s, ps_stack = ms_stack state, ps_street_contribution = street,
       ps_hand_contribution = total, ps_participation = ms_participation state,
       ps_hole_cards = (if audience = AudiencePlayer s \<or> publicly_revealed h s
         then Some (ms_hole_cards state) else None)\<rparr> }"

definition project_for :: "multiway_hand \<Rightarrow> hand_id \<Rightarrow> projection_audience \<Rightarrow> table_projection option" where
  "project_for h hand_id audience = do {
     seats \<leftarrow> map_m (project_seat h audience) (occupied_seats h);
     legal_actions \<leftarrow> (case audience of AudiencePlayer s \<Rightarrow> legal_actions_for h s | AudienceSpectator \<Rightarrow> Some None);
     Some \<lparr>pj_showdown = mh_showdown_progress h, pj_mucked = mh_mucked_hands h,
       pj_shown = map rv_seat (mh_revealed_hands h),
       pj_always_show = (case audience of AudiencePlayer s \<Rightarrow> s \<in> mh_always_show h | AudienceSpectator \<Rightarrow> False),
       pj_hand_id = hand_id,
       pj_audience = (case audience of AudiencePlayer s \<Rightarrow> KindPlayer s | AudienceSpectator \<Rightarrow> KindSpectator),
       pj_table_size = mh_table_size h, pj_phase = mh_phase h, pj_button = mh_button h,
       pj_small_blind = mh_small_blind h, pj_big_blind = mh_big_blind h,
       pj_small_blind_amount = bv_small_blind (mh_blind_values h),
       pj_big_blind_amount = bv_big_blind (mh_blind_values h), pj_ante_amount = bv_ante (mh_blind_values h),
       pj_to_act = mh_to_act h, pj_board = mh_board h, pj_current_wager = mh_current_wager h,
       pj_pot_total = projection_pot_total h, pj_seats = seats, pj_pots = mh_pots h,
       pj_awards = mh_awards h, pj_legal_actions = legal_actions\<rparr> }"

definition project_hand ::
  "multiway_hand \<Rightarrow> hand_id \<Rightarrow> projection_audience \<Rightarrow> (projection_error + table_projection) option" where
  "project_hand h hand_id audience =
    (case audience of
       AudiencePlayer player \<Rightarrow>
         if player \<notin> set (occupied_seats h) then Some (Inl (PlayerSeatNotOccupied player))
         else map_option Inr (project_for h hand_id audience)
     | AudienceSpectator \<Rightarrow> map_option Inr (project_for h hand_id audience))"

subsection \<open>The authority\<close>

record command_fingerprint =
  cf_expected_revision :: u64
  cf_payload :: command_payload

record recorded_command =
  rc_fingerprint :: command_fingerprint
  rc_outcome :: command_outcome

record protocol_authority =
  au_table_id :: table_id
  au_hand_id :: hand_id
  au_revision :: u64
  au_hand :: multiway_hand
  au_recorded_commands :: "(string, recorded_command) btree"

definition authority_new :: "table_id \<Rightarrow> hand_id \<Rightarrow> multiway_hand \<Rightarrow> protocol_authority" where
  "authority_new table_id hand_id h = \<lparr>au_table_id = table_id, au_hand_id = hand_id, au_revision = 0,
     au_hand = h, au_recorded_commands = []\<rparr>"

definition authority_new_paced :: "table_id \<Rightarrow> hand_id \<Rightarrow> multiway_hand \<Rightarrow> protocol_authority" where
  "authority_new_paced table_id hand_id h = authority_new table_id hand_id (enable_paced_showdown h)"

definition authority_advance_showdown ::
  "protocol_authority \<Rightarrow> (event_envelope option \<times> protocol_authority) option" where
  "authority_advance_showdown a0 = do {
     (advanced, h) \<leftarrow> advance_showdown (au_hand a0);
     let a = a0\<lparr>au_hand := h\<rparr>;
     if \<not> advanced then Some (None, a)
     else (let a = a\<lparr>au_revision := u64_add (au_revision a) 1\<rparr> in
       Some (Some \<lparr>ee_version = PROTOCOL_VERSION, ee_command_id = ''srv-showdown-'' @ show_nat (au_revision a),
         ee_table_id = au_table_id a, ee_hand_id = au_hand_id a, ee_revision = au_revision a,
         ee_event = ShowdownAdvanced\<rparr>, a)) }"

definition recorded_command_count :: "protocol_authority \<Rightarrow> nat" where
  "recorded_command_count a = length (au_recorded_commands a)"

definition authority_error ::
  "protocol_authority \<Rightarrow> string option \<Rightarrow> protocol_error_code \<Rightarrow> string \<Rightarrow> error_envelope" where
  "authority_error a command_id code message =
     \<lparr>er_version = PROTOCOL_VERSION, er_command_id = command_id, er_table_id = au_table_id a,
      er_hand_id = au_hand_id a, er_revision = au_revision a,
      er_error = \<lparr>pe_code = code, pe_message = bounded_public_message message\<rparr>\<rparr>"

definition authority_receipt ::
  "protocol_authority \<Rightarrow> command_outcome \<Rightarrow> acknowledgement_delivery \<Rightarrow> submission_receipt" where
  "authority_receipt a outcome delivery =
     \<lparr>sr_acknowledgement = \<lparr>ak_version = PROTOCOL_VERSION, ak_command_id = outcome_command_id outcome,
        ak_table_id = au_table_id a, ak_hand_id = au_hand_id a, ak_revision = outcome_revision outcome,
        ak_result = (case outcome of Accepted _ \<Rightarrow> AckAccepted | Rejected _ \<Rightarrow> AckRejected),
        ak_delivery = delivery\<rparr>,
      sr_outcome = outcome\<rparr>"

text \<open>The domain call of an envelope, and the event of an accepted one.\<close>

definition apply_payload ::
  "multiway_hand \<Rightarrow> command_payload \<Rightarrow> (command_error + multiway_hand) option" where
  "apply_payload h payload = (case payload of
     Act s a \<Rightarrow> apply_command h (seat_command_new s a)
   | ShowdownPreference s always_show \<Rightarrow> Some (set_always_show h s always_show))"

definition accepted_event :: "command_payload \<Rightarrow> multiway_phase \<Rightarrow> multiway_hand \<Rightarrow> table_event" where
  "accepted_event payload action_phase h = (case payload of
     Act s a \<Rightarrow> ActionAccepted s a action_phase (mh_to_act h) (projection_pot_total h)
   | ShowdownPreference s _ \<Rightarrow> ShowdownPreferenceAccepted s)"

text \<open>
  The tail of \<open>submit_from\<close>, for an envelope that passed the checks and is not yet recorded: the
  outcome and the authority before the outcome is recorded.
\<close>

definition decide_outcome ::
  "protocol_authority \<Rightarrow> command_envelope \<Rightarrow> string option \<Rightarrow> (command_outcome \<times> protocol_authority) option" where
  "decide_outcome a envelope echoed_id =
    (if ce_expected_revision envelope \<noteq> au_revision a then
       Some (Rejected (authority_error a echoed_id StaleRevision
         (''expected revision '' @ show_nat (ce_expected_revision envelope)
           @ '' does not match authoritative revision '' @ show_nat (au_revision a))), a)
     else do {
       result \<leftarrow> apply_payload (au_hand a) (ce_payload envelope);
       case result of
         Inl e \<Rightarrow> Some (Rejected (authority_error a echoed_id (domain_error_code e) (command_error_display e)), a)
       | Inr h \<Rightarrow>
         (let a' = a\<lparr>au_hand := h, au_revision := u64_add (au_revision a) 1\<rparr> in
          Some (Accepted \<lparr>ee_version = PROTOCOL_VERSION, ee_command_id = ce_command_id envelope,
            ee_table_id = au_table_id a', ee_hand_id = au_hand_id a', ee_revision = au_revision a',
            ee_event = accepted_event (ce_payload envelope) (mh_phase (au_hand a)) h\<rparr>, a')) })"

definition submit_from ::
  "protocol_authority \<Rightarrow> command_envelope \<Rightarrow> bool \<Rightarrow> (submission_receipt \<times> protocol_authority) option" where
  "submit_from a envelope allow_reserved_command_id =
    (let command_id = ce_command_id envelope;
         echoed_id = (if valid_command_id command_id then Some command_id else None);
         refuse = (\<lambda>i code message.
           Some (authority_receipt a (Rejected (authority_error a i code message)) Processed, a))
     in if ce_version envelope \<noteq> PROTOCOL_VERSION then
          refuse echoed_id UnsupportedVersion (''protocol version '' @ show_nat (ce_version envelope)
            @ '' is unsupported; expected '' @ show_nat PROTOCOL_VERSION)
        else if echoed_id = None then
          refuse None InvalidCommandId (''command ID must contain 1 to '' @ show_nat MAX_COMMAND_ID_BYTES
            @ '' ASCII letters, digits, '' @ [CHR 0x27] @ ''-'' @ [CHR 0x27] @ '' or ''
            @ [CHR 0x27] @ ''_'' @ [CHR 0x27])
        else if \<not> allow_reserved_command_id \<and> reserved_server_command_id command_id then
          refuse echoed_id ReservedCommandId ''command ID uses the reserved server namespace''
        else if ce_table_id envelope \<noteq> au_table_id a then
          refuse echoed_id WrongTable ''command targets a different table''
        else if ce_hand_id envelope \<noteq> au_hand_id a then
          refuse echoed_id WrongHand ''command targets a different hand''
        else
         (let fingerprint = \<lparr>cf_expected_revision = ce_expected_revision envelope, cf_payload = ce_payload envelope\<rparr>
          in case bt_get (au_recorded_commands a) command_id of
            Some recorded \<Rightarrow>
              (if rc_fingerprint recorded = fingerprint
               then Some (authority_receipt a (rc_outcome recorded) Replayed, a)
               else refuse echoed_id CommandIdConflict ''command ID was already used for different intent'')
          | None \<Rightarrow>
              (if MAX_RECORDED_COMMANDS_PER_HAND \<le> length (au_recorded_commands a) then
                 refuse echoed_id CommandLedgerFull ''command ledger is full for this hand''
               else do {
                 (outcome, a) \<leftarrow> decide_outcome a envelope echoed_id;
                 let a = a\<lparr>au_recorded_commands := bt_insert command_id
                   \<lparr>rc_fingerprint = fingerprint, rc_outcome = outcome\<rparr> (au_recorded_commands a)\<rparr>;
                 Some (authority_receipt a outcome Processed, a) })))"

definition submit_with_acknowledgement ::
  "protocol_authority \<Rightarrow> command_envelope \<Rightarrow> (submission_receipt \<times> protocol_authority) option" where
  "submit_with_acknowledgement a envelope = submit_from a envelope False"

definition submit_server_with_acknowledgement ::
  "protocol_authority \<Rightarrow> command_envelope \<Rightarrow> (submission_receipt \<times> protocol_authority) option" where
  "submit_server_with_acknowledgement a envelope = submit_from a envelope True"

definition submit :: "protocol_authority \<Rightarrow> command_envelope
    \<Rightarrow> ((error_envelope + event_envelope) \<times> protocol_authority) option" where
  "submit a envelope = map_option (\<lambda>(receipt, a). (outcome_into_result (sr_outcome receipt), a))
     (submit_with_acknowledgement a envelope)"

record snapshot_envelope =
  sn_version :: u16
  sn_table_id :: table_id
  sn_hand_id :: hand_id
  sn_revision :: u64
  sn_snapshot :: table_projection

definition authority_snapshot ::
  "protocol_authority \<Rightarrow> projection_audience \<Rightarrow> (projection_error + snapshot_envelope) option" where
  "authority_snapshot a audience = map_option (\<lambda>r. case r of
       Inl e \<Rightarrow> Inl e
     | Inr projection \<Rightarrow> Inr \<lparr>sn_version = PROTOCOL_VERSION, sn_table_id = au_table_id a,
         sn_hand_id = au_hand_id a, sn_revision = au_revision a, sn_snapshot = projection\<rparr>)
     (project_hand (au_hand a) (au_hand_id a) audience)"

end
