(* ===== verification/Table_Actor.thy ===== *)
theory Table_Actor
  imports Protocol
begin

text \<open>
  The table actor (src/src/table_actor.rs): one worker owns the protocol authority and serves the requests of
  its mailbox one after the other. A worker is \<^const>\<open>None\<close> when it has stopped; a panic of the authority
  stops it and closes the channel of the caller that waits. A call of a handle is the request, the turn of
  the worker and the answer. Not modelled: the threads and the blocking of a full mailbox.
\<close>

definition TABLE_MAILBOX_CAPACITY :: nat where
  "TABLE_MAILBOX_CAPACITY = 64"

record table_actor_metrics =
  am_processed_commands :: u64
  am_accepted_commands :: u64
  am_rejected_commands :: u64
  am_replayed_commands :: u64
  am_decode_rejections :: u64
  am_snapshot_requests :: u64

definition table_actor_metrics_default :: table_actor_metrics where
  "table_actor_metrics_default = \<lparr>am_processed_commands = 0, am_accepted_commands = 0,
     am_rejected_commands = 0, am_replayed_commands = 0, am_decode_rejections = 0, am_snapshot_requests = 0\<rparr>"

record table_actor_response =
  ar_receipt :: submission_receipt
  ar_snapshot :: snapshot_envelope

datatype table_actor_error = MailboxClosed | ResponseChannelClosed | ProjectionFailed projection_error
  | DecodeFailed public_protocol_error | WorkerPanicked

definition projection_error_debug :: "projection_error \<Rightarrow> string" where
  "projection_error_debug e = (case e of PlayerSeatNotOccupied s \<Rightarrow>
     ''PlayerSeatNotOccupied(SeatId('' @ show_nat s @ ''))'')"

definition table_actor_error_display :: "table_actor_error \<Rightarrow> string" where
  "table_actor_error_display e = (case e of
     MailboxClosed \<Rightarrow> ''table actor mailbox is closed''
   | ResponseChannelClosed \<Rightarrow> ''table actor response channel is closed''
   | ProjectionFailed err \<Rightarrow> ''projection failed: '' @ projection_error_debug err
   | DecodeFailed err \<Rightarrow> protocol_error_code_name (pe_code err) @ '': '' @ pe_message err
   | WorkerPanicked \<Rightarrow> ''table actor worker panicked'')"

subsection \<open>The worker\<close>

record actor_state =
  as_authority :: protocol_authority
  as_metrics :: table_actor_metrics

datatype table_actor_request = ReqAdvanceShowdown
  | ReqSubmit command_envelope projection_audience bool \<comment> \<open>server generated\<close>
  | ReqDecodeRejected public_protocol_error
  | ReqSnapshot projection_audience
  | ReqMetrics
  | ReqShutdown

datatype table_actor_answer = AnsAdvanced "event_envelope option"
  | AnsSubmitted "table_actor_error + table_actor_response"
  | AnsDecodeRejected table_actor_error
  | AnsSnapshot "projection_error + snapshot_envelope"
  | AnsMetrics table_actor_metrics
  | AnsNone

definition count_receipt :: "submission_receipt \<Rightarrow> table_actor_metrics \<Rightarrow> table_actor_metrics" where
  "count_receipt receipt metrics0 =
    (let metrics = metrics0\<lparr>am_processed_commands := u64_add (am_processed_commands metrics0) 1\<rparr>;
         ack = sr_acknowledgement receipt
     in case (ak_delivery ack, ak_result ack) of
          (Replayed, _) \<Rightarrow> metrics\<lparr>am_replayed_commands := u64_add (am_replayed_commands metrics) 1\<rparr>
        | (Processed, AckAccepted) \<Rightarrow> metrics\<lparr>am_accepted_commands := u64_add (am_accepted_commands metrics) 1\<rparr>
        | (Processed, AckRejected) \<Rightarrow> metrics\<lparr>am_rejected_commands := u64_add (am_rejected_commands metrics) 1\<rparr>)"

definition worker_submit :: "command_envelope \<Rightarrow> projection_audience \<Rightarrow> bool \<Rightarrow> actor_state
    \<Rightarrow> ((table_actor_error + table_actor_response) \<times> actor_state) option" where
  "worker_submit command audience server_generated st = do {
     earlier \<leftarrow> authority_snapshot (as_authority st) audience;
     case earlier of
       Inl e \<Rightarrow> Some (Inl (ProjectionFailed e), st)
     | Inr _ \<Rightarrow> do {
         (receipt, a) \<leftarrow> (if server_generated then submit_server_with_acknowledgement (as_authority st) command
           else submit_with_acknowledgement (as_authority st) command);
         let st = st\<lparr>as_authority := a, as_metrics := count_receipt receipt (as_metrics st)\<rparr>;
         after \<leftarrow> authority_snapshot a audience;
         Some ((case after of
             Inl e \<Rightarrow> Inl (ProjectionFailed e)
           | Inr sn \<Rightarrow> Inr \<lparr>ar_receipt = receipt, ar_snapshot = sn\<rparr>), st) } }"

text \<open>One turn of \<open>run_actor\<close>: the answer and the worker, which has stopped after a shutdown.\<close>

definition run_actor_turn ::
  "table_actor_request \<Rightarrow> actor_state \<Rightarrow> (table_actor_answer \<times> actor_state option) option" where
  "run_actor_turn request st = (case request of
     ReqAdvanceShowdown \<Rightarrow> map_option (\<lambda>(event, a). (AnsAdvanced event, Some (st\<lparr>as_authority := a\<rparr>)))
       (authority_advance_showdown (as_authority st))
   | ReqSubmit command audience server_generated \<Rightarrow>
       map_option (\<lambda>(r, st). (AnsSubmitted r, Some st)) (worker_submit command audience server_generated st)
   | ReqDecodeRejected error \<Rightarrow>
       Some (AnsDecodeRejected (DecodeFailed error), Some (st\<lparr>as_metrics := (as_metrics st)
         \<lparr>am_decode_rejections := u64_add (am_decode_rejections (as_metrics st)) 1\<rparr>\<rparr>))
   | ReqSnapshot audience \<Rightarrow>
       (let st = st\<lparr>as_metrics := (as_metrics st)
          \<lparr>am_snapshot_requests := u64_add (am_snapshot_requests (as_metrics st)) 1\<rparr>\<rparr>
        in map_option (\<lambda>r. (AnsSnapshot r, Some st)) (authority_snapshot (as_authority st) audience))
   | ReqMetrics \<Rightarrow> Some (AnsMetrics (as_metrics st), Some st)
   | ReqShutdown \<Rightarrow> Some (AnsNone, None))"

definition actor_spawn :: "protocol_authority \<Rightarrow> actor_state option" where
  "actor_spawn authority = Some \<lparr>as_authority = authority, as_metrics = table_actor_metrics_default\<rparr>"

subsection \<open>Calls of a handle\<close>

definition actor_call :: "table_actor_request \<Rightarrow> actor_state option
    \<Rightarrow> (table_actor_error + table_actor_answer) \<times> actor_state option" where
  "actor_call request worker =
    (case worker of
       None \<Rightarrow> (Inl MailboxClosed, None)
     | Some st \<Rightarrow>
       (case run_actor_turn request st of
          None \<Rightarrow> (Inl ResponseChannelClosed, None)
        | Some (answer, worker') \<Rightarrow> (Inr answer, worker')))"

definition actor_advance_showdown ::
  "actor_state option \<Rightarrow> (table_actor_error + event_envelope option) \<times> actor_state option" where
  "actor_advance_showdown worker = (case actor_call ReqAdvanceShowdown worker of
     (Inr (AnsAdvanced event), worker') \<Rightarrow> (Inr event, worker')
   | (Inr _, worker') \<Rightarrow> (Inl ResponseChannelClosed, worker')
   | (Inl e, worker') \<Rightarrow> (Inl e, worker'))"

definition actor_submit_request :: "command_envelope \<Rightarrow> projection_audience \<Rightarrow> bool \<Rightarrow> actor_state option
    \<Rightarrow> (table_actor_error + table_actor_response) \<times> actor_state option" where
  "actor_submit_request command audience server_generated worker =
    (case actor_call (ReqSubmit command audience server_generated) worker of
       (Inr (AnsSubmitted r), worker') \<Rightarrow> (r, worker')
     | (Inr _, worker') \<Rightarrow> (Inl ResponseChannelClosed, worker')
     | (Inl e, worker') \<Rightarrow> (Inl e, worker'))"

definition actor_submit :: "command_envelope \<Rightarrow> projection_audience \<Rightarrow> actor_state option
    \<Rightarrow> (table_actor_error + table_actor_response) \<times> actor_state option" where
  "actor_submit command audience worker = actor_submit_request command audience False worker"

definition actor_submit_server :: "command_envelope \<Rightarrow> projection_audience \<Rightarrow> actor_state option
    \<Rightarrow> (table_actor_error + table_actor_response) \<times> actor_state option" where
  "actor_submit_server command audience worker = actor_submit_request command audience True worker"

definition actor_submit_json :: "(string \<Rightarrow> command_envelope option) \<Rightarrow> string \<Rightarrow> projection_audience
    \<Rightarrow> actor_state option \<Rightarrow> (table_actor_error + table_actor_response) \<times> actor_state option" where
  "actor_submit_json from_slice bytes audience worker =
    (case decode_command_json from_slice bytes of
       Inr command \<Rightarrow> actor_submit command audience worker
     | Inl error \<Rightarrow>
       (case actor_call (ReqDecodeRejected error) worker of
          (Inr (AnsDecodeRejected e), worker') \<Rightarrow> (Inl e, worker')
        | (Inr _, worker') \<Rightarrow> (Inl ResponseChannelClosed, worker')
        | (Inl e, worker') \<Rightarrow> (Inl e, worker')))"

definition actor_snapshot :: "projection_audience \<Rightarrow> actor_state option
    \<Rightarrow> (table_actor_error + snapshot_envelope) \<times> actor_state option" where
  "actor_snapshot audience worker = (case actor_call (ReqSnapshot audience) worker of
     (Inr (AnsSnapshot (Inr sn)), worker') \<Rightarrow> (Inr sn, worker')
   | (Inr (AnsSnapshot (Inl e)), worker') \<Rightarrow> (Inl (ProjectionFailed e), worker')
   | (Inr _, worker') \<Rightarrow> (Inl ResponseChannelClosed, worker')
   | (Inl e, worker') \<Rightarrow> (Inl e, worker'))"

definition actor_metrics :: "actor_state option \<Rightarrow> (table_actor_error + table_actor_metrics) \<times> actor_state option" where
  "actor_metrics worker = (case actor_call ReqMetrics worker of
     (Inr (AnsMetrics m), worker') \<Rightarrow> (Inr m, worker')
   | (Inr _, worker') \<Rightarrow> (Inl ResponseChannelClosed, worker')
   | (Inl e, worker') \<Rightarrow> (Inl e, worker'))"

definition actor_shutdown :: "actor_state option \<Rightarrow> actor_state option" where
  "actor_shutdown worker = snd (actor_call ReqShutdown worker)"

end
