(* ===== verification/Authorized_Table.thy ===== *)
theory Authorized_Table
  imports Table_Actor
begin

text \<open>
  The authorized table (src/src/authorized_table.rs): the runtime in front of the table actor. A caller names
  an opaque session; the runtime derives the seat and the audience from its private bindings, keeps the
  logical clock and the deadline of the actor, and broadcasts to bounded subscriptions. The runtime's state
  contains the actor's worker, so that a request is one step. A subscription is the buffer of its channel
  and whether the receiver still exists; the wall clock is an argument in milliseconds. Not modelled: the
  threads, the random source of \<open>GuestSessionId::random\<close> (its bytes are an argument), and the buffers
  of subscriptions that the runtime has already dropped.
\<close>

definition AUTHORIZED_RUNTIME_MAILBOX_CAPACITY :: nat where
  "AUTHORIZED_RUNTIME_MAILBOX_CAPACITY = 64"

definition SUBSCRIPTION_BUFFER_CAPACITY :: nat where
  "SUBSCRIPTION_BUFFER_CAPACITY = 4"

definition ACTION_TIMEOUT_TICKS :: u64 where
  "ACTION_TIMEOUT_TICKS = 60"

definition ACTION_WARNING_TICKS :: u64 where
  "ACTION_WARNING_TICKS = 10"

definition MAX_GUEST_SESSION_ID_BYTES :: nat where
  "MAX_GUEST_SESSION_ID_BYTES = 64"

definition u64_sub :: "u64 \<Rightarrow> u64 \<Rightarrow> u64" where
  "u64_sub a b = (if b \<le> a then a - b else u64_bound + a - b)"

subsection \<open>Errors and sessions\<close>

datatype authorized_table_error_code = InvalidSessionId | UnknownSession | SessionAlreadyBound
  | SeatAlreadyOwned | SessionDisconnected | SpectatorCannotAct | UnauthorizedSeat | AtWrongTable
  | AtWrongHand | SubscriptionAlreadyExists | ClockRegression | DeadlineUnavailable | RuntimeClosed
  | InternalAuthorityFailure

fun authorized_code_name :: "authorized_table_error_code \<Rightarrow> string" where
  "authorized_code_name InvalidSessionId = ''invalid_session_id''"
| "authorized_code_name UnknownSession = ''unknown_session''"
| "authorized_code_name SessionAlreadyBound = ''session_already_bound''"
| "authorized_code_name SeatAlreadyOwned = ''seat_already_owned''"
| "authorized_code_name SessionDisconnected = ''session_disconnected''"
| "authorized_code_name SpectatorCannotAct = ''spectator_cannot_act''"
| "authorized_code_name UnauthorizedSeat = ''unauthorized_seat''"
| "authorized_code_name AtWrongTable = ''wrong_table''"
| "authorized_code_name AtWrongHand = ''wrong_hand''"
| "authorized_code_name SubscriptionAlreadyExists = ''subscription_already_exists''"
| "authorized_code_name ClockRegression = ''clock_regression''"
| "authorized_code_name DeadlineUnavailable = ''deadline_unavailable''"
| "authorized_code_name RuntimeClosed = ''runtime_closed''"
| "authorized_code_name InternalAuthorityFailure = ''internal_authority_failure''"

record authorized_table_error =
  at_code :: authorized_table_error_code
  at_message :: string

definition authorized_error :: "authorized_table_error_code \<Rightarrow> string \<Rightarrow> authorized_table_error" where
  "authorized_error code message = \<lparr>at_code = code, at_message = message\<rparr>"

definition error_runtime_closed :: authorized_table_error where
  "error_runtime_closed = authorized_error RuntimeClosed ''authorized table runtime is closed''"

definition error_authority_failure :: authorized_table_error where
  "error_authority_failure =
     authorized_error InternalAuthorityFailure ''table authority could not complete the request''"

definition authorized_error_display :: "authorized_table_error \<Rightarrow> string" where
  "authorized_error_display e = authorized_code_name (at_code e) @ '': '' @ at_message e"

type_synonym guest_session_id = string

definition guest_session_id_new :: "string \<Rightarrow> authorized_table_error + guest_session_id" where
  "guest_session_id_new v =
    (if v = [] \<or> MAX_GUEST_SESSION_ID_BYTES < length v
        \<or> \<not> list_all (\<lambda>b. ascii_alphanumeric b \<or> b = CHR ''-'' \<or> b = CHR ''_'') v
     then Inl (authorized_error InvalidSessionId
       (''guest session ID must contain 1 to '' @ show_nat MAX_GUEST_SESSION_ID_BYTES @ '' safe ASCII bytes''))
     else Inr v)"

definition hex_digit :: "nat \<Rightarrow> char" where
  "hex_digit n = (if n < 10 then char_of (48 + n) else char_of (87 + n))"

definition guest_session_id_random :: "nat list \<Rightarrow> guest_session_id" where
  "guest_session_id_random bytes =
     ''principal-'' @ concat (map (\<lambda>b. [hex_digit (b div 16), hex_digit (b mod 16)]) bytes)"

definition guest_session_id_debug :: "guest_session_id \<Rightarrow> string" where
  "guest_session_id_debug session = ''GuestSessionId(<redacted>)''"

datatype session_role = RolePlayer seat_id | RoleSpectator

fun role_audience :: "session_role \<Rightarrow> projection_audience" where
  "role_audience (RolePlayer s) = AudiencePlayer s"
| "role_audience RoleSpectator = AudienceSpectator"

fun role_seat :: "session_role \<Rightarrow> seat_id option" where
  "role_seat (RolePlayer s) = Some s"
| "role_seat RoleSpectator = None"

subsection \<open>The runtime's state\<close>

record action_deadline =
  dl_seat :: seat_id
  dl_warning_tick :: u64
  dl_due_tick :: u64
  dl_warning_emitted :: bool
  dl_generation :: u64

datatype subscription_reason = ReasonInitial | ReasonActionAccepted
  | ReasonDeadlineWarning seat_id u64
  | ReasonTimeoutAction seat_id action
  | ReasonConnectionStateChanged "seat_id option" bool

record subscription_update =
  su_stream_sequence :: u64
  su_reason :: subscription_reason
  su_event :: "event_envelope option"
  su_snapshot :: snapshot_envelope
  su_deadline :: "action_deadline option"

record authorized_table_response =
  at_receipt :: submission_receipt
  at_snapshot :: snapshot_envelope
  at_deadline :: "action_deadline option"
  at_stream_sequence :: u64

record tick_result =
  tk_now_tick :: u64
  tk_warning_emitted :: bool
  tk_timeout_event :: "event_envelope option"
  tk_timeout_action :: "action option"
  tk_deadline :: "action_deadline option"
  tk_stream_sequence :: u64

record authorized_table_metrics =
  tm_actor :: table_actor_metrics
  tm_active_bindings :: u64
  tm_connected_bindings :: u64
  tm_authorization_rejections :: u64
  tm_disconnects :: u64
  tm_deadline_warnings :: u64
  tm_timeout_actions :: u64
  tm_subscription_requests :: u64
  tm_subscription_deliveries :: u64
  tm_slow_subscribers_dropped :: u64
  tm_stream_sequence :: u64
  tm_now_tick :: u64

record session_binding =
  sb_role :: session_role
  sb_connected :: bool

record subscriber =
  sc_buffer :: "subscription_update list"
  sc_receiver_alive :: bool

record runtime_state =
  rt_table :: "actor_state option"
  rt_table_id :: table_id
  rt_hand_id :: hand_id
  rt_sessions :: "(guest_session_id, session_binding) btree"
  rt_subscribers :: "(guest_session_id, subscriber) btree"
  rt_now_tick :: u64
  rt_deadline :: "action_deadline option"
  rt_deadline_generation :: u64
  rt_stream_sequence :: u64
  rt_authorization_rejections :: u64
  rt_disconnects :: u64
  rt_deadline_warnings :: u64
  rt_timeout_actions :: u64
  rt_subscription_requests :: u64
  rt_subscription_deliveries :: u64
  rt_slow_subscribers_dropped :: u64
  rt_accepted_events :: "event_envelope list"
  rt_next_showdown_step :: "nat option"

text \<open>A result of the runtime together with its state; an early return keeps the changes made so far.\<close>

type_synonym 'a runtime_result = "(authorized_table_error + 'a) \<times> runtime_state"

definition and_then :: "'a runtime_result \<Rightarrow> ('a \<Rightarrow> runtime_state \<Rightarrow> 'b runtime_result) \<Rightarrow> 'b runtime_result" where
  "and_then m f = (case m of (Inl e, st) \<Rightarrow> (Inl e, st) | (Inr x, st) \<Rightarrow> f x st)"

definition authorization_error ::
  "authorized_table_error_code \<Rightarrow> string \<Rightarrow> runtime_state \<Rightarrow> 'a runtime_result" where
  "authorization_error code message st =
     (Inl (authorized_error code message),
      st\<lparr>rt_authorization_rejections := u64_add (rt_authorization_rejections st) 1\<rparr>)"

text \<open>A call of the table actor, whose errors become one public error.\<close>

definition table_snapshot :: "projection_audience \<Rightarrow> authorized_table_error \<Rightarrow> runtime_state
    \<Rightarrow> snapshot_envelope runtime_result" where
  "table_snapshot audience failure st = (case actor_snapshot audience (rt_table st) of
     (Inl _, worker) \<Rightarrow> (Inl failure, st\<lparr>rt_table := worker\<rparr>)
   | (Inr sn, worker) \<Rightarrow> (Inr sn, st\<lparr>rt_table := worker\<rparr>))"

definition table_submit :: "command_envelope \<Rightarrow> projection_audience \<Rightarrow> bool \<Rightarrow> runtime_state
    \<Rightarrow> table_actor_response runtime_result" where
  "table_submit command audience server_generated st =
    (case (if server_generated then actor_submit_server command audience (rt_table st)
           else actor_submit command audience (rt_table st)) of
       (Inl _, worker) \<Rightarrow> (Inl error_authority_failure, st\<lparr>rt_table := worker\<rparr>)
     | (Inr response, worker) \<Rightarrow> (Inr response, st\<lparr>rt_table := worker\<rparr>))"

definition connected_binding :: "guest_session_id \<Rightarrow> runtime_state \<Rightarrow> session_binding runtime_result" where
  "connected_binding session st = (case bt_get (rt_sessions st) session of
     None \<Rightarrow> authorization_error UnknownSession ''guest session is not bound to this table'' st
   | Some binding \<Rightarrow>
       if \<not> sb_connected binding
       then authorization_error SessionDisconnected ''guest session is disconnected'' st
       else (Inr binding, st))"

subsection \<open>Deadlines and broadcasts\<close>

definition reschedule_deadline :: "runtime_state \<Rightarrow> unit runtime_result" where
  "reschedule_deadline st0 = and_then (table_snapshot AudienceSpectator error_authority_failure st0)
     (\<lambda>sn st. case pj_to_act (sn_snapshot sn) of
        None \<Rightarrow> (Inr (), st\<lparr>rt_deadline := None\<rparr>)
      | Some s \<Rightarrow>
        (let st = st\<lparr>rt_deadline_generation := u64_add (rt_deadline_generation st) 1\<rparr>;
             due_tick = u64_add (rt_now_tick st) ACTION_TIMEOUT_TICKS
         in (Inr (), st\<lparr>rt_deadline := Some \<lparr>dl_seat = s,
              dl_warning_tick = u64_sub due_tick ACTION_WARNING_TICKS, dl_due_tick = due_tick,
              dl_warning_emitted = False, dl_generation = rt_deadline_generation st\<rparr>\<rparr>)))"

text \<open>\<open>SyncSender::try_send\<close>: the buffer after it, or the error of a full or closed channel.\<close>

definition try_send :: "subscription_update \<Rightarrow> subscriber \<Rightarrow> subscriber option" where
  "try_send update sub =
     (if \<not> sc_receiver_alive sub \<or> SUBSCRIPTION_BUFFER_CAPACITY \<le> length (sc_buffer sub) then None
      else Some (sub\<lparr>sc_buffer := sc_buffer sub @ [update]\<rparr>))"

text \<open>The loop of \<open>broadcast\<close> over the subscribed sessions; its result are the subscriptions to remove.\<close>

fun deliver_to :: "guest_session_id list \<Rightarrow> u64 \<Rightarrow> subscription_reason \<Rightarrow> event_envelope option
    \<Rightarrow> guest_session_id list \<Rightarrow> runtime_state \<Rightarrow> guest_session_id list runtime_result" where
  "deliver_to [] sequence reason event remove st = (Inr remove, st)"
| "deliver_to (session # sessions) sequence reason event remove st =
    (case bt_get (rt_sessions st) session of
       None \<Rightarrow> deliver_to sessions sequence reason event (remove @ [session]) st
     | Some binding \<Rightarrow>
       (if \<not> sb_connected binding then deliver_to sessions sequence reason event (remove @ [session]) st
        else case table_snapshot (role_audience (sb_role binding)) error_authority_failure st of
          (Inl e, st) \<Rightarrow> (Inl e, st)
        | (Inr sn, st) \<Rightarrow>
          (let update = \<lparr>su_stream_sequence = sequence, su_reason = reason, su_event = event,
                 su_snapshot = sn, su_deadline = rt_deadline st\<rparr>
           in case bt_get (rt_subscribers st) session of
                None \<Rightarrow> deliver_to sessions sequence reason event remove st
              | Some sub \<Rightarrow>
                (case try_send update sub of
                   Some sub \<Rightarrow> deliver_to sessions sequence reason event remove
                     (st\<lparr>rt_subscribers := bt_insert session sub (rt_subscribers st),
                       rt_subscription_deliveries := u64_add (rt_subscription_deliveries st) 1\<rparr>)
                 | None \<Rightarrow> deliver_to sessions sequence reason event (remove @ [session])
                     (st\<lparr>rt_slow_subscribers_dropped := u64_add (rt_slow_subscribers_dropped st) 1\<rparr>)))))"

definition broadcast :: "subscription_reason \<Rightarrow> event_envelope option \<Rightarrow> runtime_state \<Rightarrow> unit runtime_result"
  where
  "broadcast reason event st0 =
    (let st = st0\<lparr>rt_stream_sequence := u64_add (rt_stream_sequence st0) 1\<rparr>;
         sequence = rt_stream_sequence st;
         sessions = map fst (rt_subscribers st)
     in and_then (deliver_to sessions sequence reason event [] st)
       (\<lambda>remove st. (Inr (), st\<lparr>rt_subscribers := fold bt_remove remove (rt_subscribers st)\<rparr>)))"

definition receipt_event :: "submission_receipt \<Rightarrow> event_envelope option" where
  "receipt_event receipt = (case sr_outcome receipt of Accepted event \<Rightarrow> Some event | Rejected _ \<Rightarrow> None)"

definition processed_accepted :: "submission_receipt \<Rightarrow> bool" where
  "processed_accepted receipt \<longleftrightarrow> ak_delivery (sr_acknowledgement receipt) = Processed \<and>
     ak_result (sr_acknowledgement receipt) = AckAccepted"

subsection \<open>Sessions\<close>

definition runtime_bind :: "guest_session_id \<Rightarrow> table_id \<Rightarrow> hand_id \<Rightarrow> session_role \<Rightarrow> runtime_state
    \<Rightarrow> unit runtime_result" where
  "runtime_bind session table_id hand_id role st =
    (if table_id \<noteq> rt_table_id st then
       authorization_error AtWrongTable ''session binding targets a different table'' st
     else if hand_id \<noteq> rt_hand_id st then
       authorization_error AtWrongHand ''session binding targets a different hand'' st
     else if bt_get (rt_sessions st) session \<noteq> None then
       authorization_error SessionAlreadyBound ''guest session already has a table role'' st
     else
      (let insert_binding = (\<lambda>st. (Inr (), st\<lparr>rt_sessions :=
             bt_insert session \<lparr>sb_role = role, sb_connected = True\<rparr> (rt_sessions st)\<rparr>))
       in case role of
            RolePlayer s \<Rightarrow>
              (if list_ex (\<lambda>(i, binding). sb_role binding = RolePlayer s) (rt_sessions st) then
                 authorization_error SeatAlreadyOwned ''player seat already has a guest session owner'' st
               else and_then (table_snapshot (AudiencePlayer s)
                   (authorized_error UnauthorizedSeat ''player seat is not available in this hand'') st)
                 (\<lambda>_ st. insert_binding st))
          | RoleSpectator \<Rightarrow> insert_binding st))"

definition unknown_session :: "runtime_state \<Rightarrow> 'a runtime_result" where
  "unknown_session st = authorization_error UnknownSession ''guest session is not bound to this table'' st"

definition set_connected :: "guest_session_id \<Rightarrow> session_binding \<Rightarrow> bool \<Rightarrow> runtime_state \<Rightarrow> runtime_state" where
  "set_connected session binding connected st =
     st\<lparr>rt_sessions := bt_insert session (binding\<lparr>sb_connected := connected\<rparr>) (rt_sessions st)\<rparr>"

definition runtime_disconnect :: "guest_session_id \<Rightarrow> runtime_state \<Rightarrow> unit runtime_result" where
  "runtime_disconnect session st = (case bt_get (rt_sessions st) session of
     None \<Rightarrow> unknown_session st
   | Some binding \<Rightarrow>
     (if \<not> sb_connected binding then (Inr (), st)
      else
       (let st = set_connected session binding False st;
            st = st\<lparr>rt_subscribers := bt_remove session (rt_subscribers st),
              rt_disconnects := u64_add (rt_disconnects st) 1\<rparr>
        in broadcast (ReasonConnectionStateChanged (role_seat (sb_role binding)) False) None st)))"

definition runtime_reconnect :: "guest_session_id \<Rightarrow> runtime_state \<Rightarrow> unit runtime_result" where
  "runtime_reconnect session st = (case bt_get (rt_sessions st) session of
     None \<Rightarrow> unknown_session st
   | Some binding \<Rightarrow>
     (if sb_connected binding then (Inr (), st)
      else broadcast (ReasonConnectionStateChanged (role_seat (sb_role binding)) True) None
        (set_connected session binding True st)))"

definition runtime_snapshot :: "guest_session_id \<Rightarrow> runtime_state \<Rightarrow> snapshot_envelope runtime_result" where
  "runtime_snapshot session st = and_then (connected_binding session st)
     (\<lambda>binding st. table_snapshot (role_audience (sb_role binding)) error_authority_failure st)"

definition runtime_bound_snapshot :: "guest_session_id \<Rightarrow> runtime_state \<Rightarrow> snapshot_envelope runtime_result" where
  "runtime_bound_snapshot session st = (case bt_get (rt_sessions st) session of
     None \<Rightarrow> unknown_session st
   | Some binding \<Rightarrow> table_snapshot (role_audience (sb_role binding)) error_authority_failure st)"

definition safe_history_material ::
  "runtime_state \<Rightarrow> (snapshot_envelope \<times> event_envelope list) runtime_result" where
  "safe_history_material st = and_then (table_snapshot AudienceSpectator error_authority_failure st)
     (\<lambda>sn st. (Inr (sn, rt_accepted_events st), st))"

definition runtime_subscribe :: "guest_session_id \<Rightarrow> runtime_state \<Rightarrow> unit runtime_result" where
  "runtime_subscribe session st = and_then (connected_binding session st)
     (\<lambda>binding st. if bt_get (rt_subscribers st) session \<noteq> None
       then authorization_error SubscriptionAlreadyExists
         ''guest session already has an active table subscription'' st
       else and_then (table_snapshot (role_audience (sb_role binding)) error_authority_failure st)
         (\<lambda>sn st. case try_send \<lparr>su_stream_sequence = rt_stream_sequence st, su_reason = ReasonInitial,
               su_event = None, su_snapshot = sn, su_deadline = rt_deadline st\<rparr>
               \<lparr>sc_buffer = [], sc_receiver_alive = True\<rparr> of
             None \<Rightarrow> (Inl error_runtime_closed, st)
           | Some sub \<Rightarrow> (Inr (), st\<lparr>rt_subscribers := bt_insert session sub (rt_subscribers st),
               rt_subscription_requests := u64_add (rt_subscription_requests st) 1,
               rt_subscription_deliveries := u64_add (rt_subscription_deliveries st) 1\<rparr>)))"

subsection \<open>Commands and time\<close>

definition runtime_submit :: "guest_session_id \<Rightarrow> command_envelope \<Rightarrow> runtime_state
    \<Rightarrow> authorized_table_response runtime_result" where
  "runtime_submit session command st = and_then (connected_binding session st)
     (\<lambda>binding st. case sb_role binding of
        RoleSpectator \<Rightarrow> authorization_error SpectatorCannotAct
          ''spectator sessions cannot submit gameplay commands'' st
      | RolePlayer s \<Rightarrow>
        (if ce_table_id command \<noteq> rt_table_id st then
           authorization_error AtWrongTable ''command targets a different table'' st
         else if ce_hand_id command \<noteq> rt_hand_id st then
           authorization_error AtWrongHand ''command targets a different hand'' st
         else if payload_seat (ce_payload command) \<noteq> s then
           authorization_error UnauthorizedSeat ''command seat is not owned by this guest session'' st
         else and_then (table_submit command (role_audience (sb_role binding)) False st)
           (\<lambda>response st. and_then
              (if processed_accepted (ar_receipt response) then
                 (let event = receipt_event (ar_receipt response) in
                  and_then (case event of
                      Some e \<Rightarrow> (case ee_event e of ActionAccepted _ _ _ _ _ \<Rightarrow> reschedule_deadline st | _ \<Rightarrow> (Inr (), st))
                    | None \<Rightarrow> (Inr (), st))
                    (\<lambda>_ st. broadcast ReasonActionAccepted event
                      (case event of Some e \<Rightarrow> st\<lparr>rt_accepted_events := rt_accepted_events st @ [e]\<rparr> | None \<Rightarrow> st)))
               else (Inr (), st))
              (\<lambda>_ st. (Inr \<lparr>at_receipt = ar_receipt response, at_snapshot = ar_snapshot response,
                 at_deadline = rt_deadline st, at_stream_sequence = rt_stream_sequence st\<rparr>, st)))))"

definition runtime_tick_result ::
  "bool \<Rightarrow> event_envelope option \<Rightarrow> action option \<Rightarrow> runtime_state \<Rightarrow> tick_result" where
  "runtime_tick_result warned event a st = \<lparr>tk_now_tick = rt_now_tick st, tk_warning_emitted = warned,
     tk_timeout_event = event, tk_timeout_action = a, tk_deadline = rt_deadline st,
     tk_stream_sequence = rt_stream_sequence st\<rparr>"

definition timeout_command_id :: "hand_id \<Rightarrow> u64 \<Rightarrow> string" where
  "timeout_command_id hand_id generation = ''srv-timeout-h'' @ show_nat hand_id @ ''-g'' @ show_nat generation"

definition timeout_action :: "legal_actions \<Rightarrow> action option" where
  "timeout_action legal =
     (if la_can_check legal then Some Check else if la_can_fold legal then Some ActFold else None)"

definition expire_deadline :: "action_deadline \<Rightarrow> runtime_state \<Rightarrow> tick_result runtime_result" where
  "expire_deadline deadline st = and_then (table_snapshot (AudiencePlayer (dl_seat deadline)) error_authority_failure st)
     (\<lambda>private st. case pj_legal_actions (sn_snapshot private) of
        None \<Rightarrow> (Inl (authorized_error DeadlineUnavailable ''deadline actor has no legal action''), st)
      | Some legal \<Rightarrow>
        (case timeout_action legal of
           None \<Rightarrow> (Inl (authorized_error DeadlineUnavailable ''deadline actor can neither check nor fold''), st)
         | Some a \<Rightarrow> and_then
             (table_submit (act_for_hand (timeout_command_id (rt_hand_id st) (dl_generation deadline))
                (rt_table_id st) (rt_hand_id st) (sn_revision private) (dl_seat deadline) a)
                AudienceSpectator True st)
             (\<lambda>response st.
                if ak_result (sr_acknowledgement (ar_receipt response)) \<noteq> AckAccepted
                   \<or> ak_delivery (sr_acknowledgement (ar_receipt response)) \<noteq> Processed
                then (Inl error_authority_failure, st)
                else (case receipt_event (ar_receipt response) of
                  None \<Rightarrow> (Inl error_authority_failure, st)
                | Some event \<Rightarrow>
                  (let st = st\<lparr>rt_accepted_events := rt_accepted_events st @ [event],
                         rt_timeout_actions := u64_add (rt_timeout_actions st) 1\<rparr>
                   in and_then (reschedule_deadline st)
                     (\<lambda>_ st. and_then (broadcast (ReasonTimeoutAction (dl_seat deadline) a) (Some event) st)
                       (\<lambda>_ st. (Inr (runtime_tick_result False (Some event) (Some a) st), st))))))))"

definition runtime_advance_time :: "u64 \<Rightarrow> runtime_state \<Rightarrow> tick_result runtime_result" where
  "runtime_advance_time now_tick st0 =
    (if now_tick < rt_now_tick st0 then
       authorization_error ClockRegression ''authoritative logical time cannot move backwards'' st0
     else
      (let st = st0\<lparr>rt_now_tick := now_tick\<rparr> in
       case rt_deadline st of
         None \<Rightarrow> (Inr (runtime_tick_result False None None st), st)
       | Some deadline \<Rightarrow>
         (if dl_due_tick deadline \<le> now_tick then expire_deadline deadline st
          else if dl_warning_tick deadline \<le> now_tick \<and> \<not> dl_warning_emitted deadline then
            (let st = st\<lparr>rt_deadline := Some (deadline\<lparr>dl_warning_emitted := True\<rparr>),
                   rt_deadline_warnings := u64_add (rt_deadline_warnings st) 1\<rparr>
             in and_then (broadcast (ReasonDeadlineWarning (dl_seat deadline) (u64_sub (dl_due_tick deadline) now_tick)) None st)
               (\<lambda>_ st. (Inr (runtime_tick_result True None None st), st)))
          else (Inr (runtime_tick_result False None None st), st))))"

definition SHOWDOWN_STEP_MILLIS :: nat where
  "SHOWDOWN_STEP_MILLIS = 1500"

definition progress_showdown :: "nat \<Rightarrow> runtime_state \<Rightarrow> unit runtime_result" where
  "progress_showdown now st = and_then (table_snapshot AudienceSpectator error_authority_failure st)
     (\<lambda>sn st. case pj_showdown (sn_snapshot sn) of
        None \<Rightarrow> (Inr (), st\<lparr>rt_next_showdown_step := None\<rparr>)
      | Some _ \<Rightarrow>
        (let due = (case rt_next_showdown_step st of Some due \<Rightarrow> due | None \<Rightarrow> now + SHOWDOWN_STEP_MILLIS);
             st = st\<lparr>rt_next_showdown_step := Some due\<rparr>
         in if now < due then (Inr (), st)
            else (case actor_advance_showdown (rt_table st) of
              (Inl _, worker) \<Rightarrow> (Inl error_authority_failure, st\<lparr>rt_table := worker\<rparr>)
            | (Inr advanced, worker) \<Rightarrow>
              (let st = st\<lparr>rt_table := worker\<rparr> in
               and_then (case advanced of
                   None \<Rightarrow> (Inr (), st)
                 | Some event \<Rightarrow>
                   (let st = st\<lparr>rt_accepted_events := rt_accepted_events st @ [event]\<rparr> in
                    and_then (reschedule_deadline st) (\<lambda>_ st. broadcast ReasonActionAccepted (Some event) st)))
                 (\<lambda>_ st. (Inr (), st\<lparr>rt_next_showdown_step := Some (now + SHOWDOWN_STEP_MILLIS)\<rparr>))))))"

definition runtime_metrics :: "runtime_state \<Rightarrow> authorized_table_metrics \<times> runtime_state" where
  "runtime_metrics st =
    (let (r, worker) = actor_metrics (rt_table st);
         st = st\<lparr>rt_table := worker\<rparr>
     in (\<lparr>tm_actor = (case r of Inr m \<Rightarrow> m | Inl _ \<Rightarrow> table_actor_metrics_default),
          tm_active_bindings = length (rt_sessions st),
          tm_connected_bindings = length (filter (\<lambda>(i, binding). sb_connected binding) (rt_sessions st)),
          tm_authorization_rejections = rt_authorization_rejections st, tm_disconnects = rt_disconnects st,
          tm_deadline_warnings = rt_deadline_warnings st, tm_timeout_actions = rt_timeout_actions st,
          tm_subscription_requests = rt_subscription_requests st,
          tm_subscription_deliveries = rt_subscription_deliveries st,
          tm_slow_subscribers_dropped = rt_slow_subscribers_dropped st,
          tm_stream_sequence = rt_stream_sequence st, tm_now_tick = rt_now_tick st\<rparr>, st))"

subsection \<open>The worker of the runtime\<close>

datatype runtime_request = RtBind guest_session_id table_id hand_id session_role
  | RtSubmit guest_session_id command_envelope | RtSnapshot guest_session_id | RtBoundSnapshot guest_session_id
  | RtSafeHistoryMaterial | RtSubscribe guest_session_id | RtDisconnect guest_session_id
  | RtReconnect guest_session_id | RtAdvanceTime u64 | RtMetrics | RtShutdown

datatype runtime_answer = RaUnit "authorized_table_error + unit"
  | RaSubmitted "authorized_table_error + authorized_table_response"
  | RaSnapshot "authorized_table_error + snapshot_envelope"
  | RaHistory "authorized_table_error + snapshot_envelope \<times> event_envelope list"
  | RaTick "authorized_table_error + tick_result"
  | RaMetrics authorized_table_metrics
  | RaNone

definition runtime_initial :: "protocol_authority \<Rightarrow> runtime_state" where
  "runtime_initial authority = \<lparr>rt_table = actor_spawn authority, rt_table_id = au_table_id authority,
     rt_hand_id = au_hand_id authority, rt_sessions = [], rt_subscribers = [], rt_now_tick = 0,
     rt_deadline = None, rt_deadline_generation = 0, rt_stream_sequence = 0,
     rt_authorization_rejections = 0, rt_disconnects = 0, rt_deadline_warnings = 0, rt_timeout_actions = 0,
     rt_subscription_requests = 0, rt_subscription_deliveries = 0, rt_slow_subscribers_dropped = 0,
     rt_accepted_events = [], rt_next_showdown_step = None\<rparr>"

definition runtime_spawn :: "protocol_authority \<Rightarrow> runtime_state" where
  "runtime_spawn authority = snd (reschedule_deadline (runtime_initial authority))"

definition runtime_answer :: "runtime_request \<Rightarrow> runtime_state \<Rightarrow> runtime_answer \<times> runtime_state" where
  "runtime_answer request st = (case request of
     RtBind session table_id hand_id role \<Rightarrow> map_prod RaUnit id (runtime_bind session table_id hand_id role st)
   | RtSubmit session command \<Rightarrow> map_prod RaSubmitted id (runtime_submit session command st)
   | RtSnapshot session \<Rightarrow> map_prod RaSnapshot id (runtime_snapshot session st)
   | RtBoundSnapshot session \<Rightarrow> map_prod RaSnapshot id (runtime_bound_snapshot session st)
   | RtSafeHistoryMaterial \<Rightarrow> map_prod RaHistory id (safe_history_material st)
   | RtSubscribe session \<Rightarrow> map_prod RaUnit id (runtime_subscribe session st)
   | RtDisconnect session \<Rightarrow> map_prod RaUnit id (runtime_disconnect session st)
   | RtReconnect session \<Rightarrow> map_prod RaUnit id (runtime_reconnect session st)
   | RtAdvanceTime now_tick \<Rightarrow> map_prod RaTick id (runtime_advance_time now_tick st)
   | RtMetrics \<Rightarrow> map_prod RaMetrics id (runtime_metrics st)
   | RtShutdown \<Rightarrow> (RaNone, st))"

text \<open>
  One turn of \<open>run_runtime\<close> at a wall-clock time, with the request that arrived if any did: \<^const>\<open>None\<close> is
  the runtime after its loop has ended.
\<close>

definition runtime_turn :: "nat \<Rightarrow> runtime_request option \<Rightarrow> runtime_state \<Rightarrow> runtime_answer \<times> runtime_state option"
  where
  "runtime_turn now request st = (case progress_showdown now st of
     (Inl _, _) \<Rightarrow> (RaNone, None)
   | (Inr _, st) \<Rightarrow>
     (case request of
        None \<Rightarrow> (RaNone, Some st)
      | Some RtShutdown \<Rightarrow> (RaNone, None)
      | Some r \<Rightarrow> map_prod id Some (runtime_answer r st)))"

text \<open>What the holder of a subscription can do to its channel: take the next update, or drop the receiver.\<close>

definition subscription_recv ::
  "guest_session_id \<Rightarrow> runtime_state \<Rightarrow> (authorized_table_error + subscription_update) option \<times> runtime_state" where
  "subscription_recv session st = (case bt_get (rt_subscribers st) session of
     None \<Rightarrow> (Some (Inl (authorized_error RuntimeClosed ''subscription is closed'')), st)
   | Some sub \<Rightarrow>
     (case sc_buffer sub of
        [] \<Rightarrow> (None, st)
      | update # rest \<Rightarrow> (Some (Inr update), st\<lparr>rt_subscribers :=
          bt_insert session (sub\<lparr>sc_buffer := rest\<rparr>) (rt_subscribers st)\<rparr>)))"

definition subscription_drop :: "guest_session_id \<Rightarrow> runtime_state \<Rightarrow> runtime_state" where
  "subscription_drop session st = (case bt_get (rt_subscribers st) session of
     None \<Rightarrow> st
   | Some sub \<Rightarrow> st\<lparr>rt_subscribers := bt_insert session (sub\<lparr>sc_receiver_alive := False\<rparr>) (rt_subscribers st)\<rparr>)"

end
