(* ===== verification/Protocol_Facts.thy ===== *)
theory Protocol_Facts
  imports Protocol Samples
begin

text \<open>
  The facts of the protocol authority: it never panics on a hand that satisfies the invariant, its
  ledger only grows, a rejected envelope leaves the hand alone, and a projection reads only what its
  audience may see.
\<close>

subsection \<open>The domain calls\<close>

lemma set_always_show_cases:
  "(\<exists>e. set_always_show h s v = Inl e) \<or>
   (\<exists>x. set_always_show h s v = Inr (h\<lparr>mh_always_show := x\<rparr>) \<and> accepts_actions (mh_phase h) \<and>
      mh_showdown_progress h = None)"
  by (auto simp: set_always_show_def)

lemma betting_ok_always_show [simp]: "betting_ok (h\<lparr>mh_always_show := x\<rparr>) \<longleftrightarrow> betting_ok h"
proof -
  have "needs_action (h\<lparr>mh_always_show := x\<rparr>) = needs_action h"
    by (simp add: fun_eq_iff needs_action_def mw_holds_def)
  moreover have "pot_eligible_count (h\<lparr>mh_always_show := x\<rparr>) = pot_eligible_count h" by simp
  moreover have "mid_ok (h\<lparr>mh_always_show := x\<rparr>) \<longleftrightarrow> mid_ok h"
    by (simp add: mid_ok_def money_ok_def cards_ok_def before_showdown_def wagers_ok_def leads_def
        hand_cards_def hole_cards_def)
  ultimately show ?thesis by (simp add: betting_ok_def cong: option.case_cong)
qed

lemma betting_accepting:
  assumes "hand_ok h" "accepts_actions (mh_phase h)" "mh_showdown_progress h = None"
  shows "betting_ok h"
  using assms by (auto simp: hand_ok_def showdown_ok_def done_ok_def)

lemma same_game_refl [simp]: "same_game h h"
  by (simp add: same_game_def)

lemma same_game_always_show [simp]: "same_game h (h\<lparr>mh_always_show := x\<rparr>)"
  by (simp add: same_game_def hand_cards_def hole_cards_def)

lemma apply_payload_returns:
  assumes "hand_ok h"
  shows "(\<exists>e. apply_payload h payload = Some (Inl e)) \<or>
    (\<exists>h'. apply_payload h payload = Some (Inr h') \<and> hand_ok h' \<and> same_game h h')"
proof (cases payload)
  case (Act s a)
  then show ?thesis
    using apply_command_outcome [OF assms, of "seat_command_new s a"] outcome_hand_ok
    by (auto simp: apply_payload_def outcome_ok_def)
next
  case (ShowdownPreference s v)
  then show ?thesis
    using set_always_show_cases [of h s v] betting_accepting [OF assms]
    by (auto simp: apply_payload_def hand_ok_def)
qed

lemma advance_showdown_returns:
  assumes "hand_ok h"
  shows "\<exists>b h'. advance_showdown h = Some (b, h') \<and> hand_ok h' \<and> same_game h h' \<and> (\<not> b \<longrightarrow> h' = h)"
proof (cases "showdown_ok h")
  case True
  then show ?thesis using advance_showdown_step [OF True] by (auto simp: hand_ok_def)
next
  case False
  then have "mh_showdown_progress h = None"
    using assms by (auto simp: hand_ok_def betting_ok_def mid_ok_def before_showdown_def done_ok_def)
  then show ?thesis using advance_showdown_idle assms by auto
qed

subsection \<open>The authority\<close>

text \<open>What the authority may be asked for, in any order.\<close>

datatype authority_op = Submit command_envelope bool | AdvanceShowdown

fun authority_step :: "authority_op \<Rightarrow> protocol_authority \<Rightarrow> protocol_authority option" where
  "authority_step (Submit envelope allow) a = map_option snd (submit_from a envelope allow)"
| "authority_step AdvanceShowdown a = map_option snd (authority_advance_showdown a)"

definition fingerprint_of :: "command_envelope \<Rightarrow> command_fingerprint" where
  "fingerprint_of envelope =
     \<lparr>cf_expected_revision = ce_expected_revision envelope, cf_payload = ce_payload envelope\<rparr>"

text \<open>An envelope that the checks before the ledger let through.\<close>

definition well_addressed :: "protocol_authority \<Rightarrow> command_envelope \<Rightarrow> bool \<Rightarrow> bool" where
  "well_addressed a envelope allow \<longleftrightarrow> ce_version envelope = PROTOCOL_VERSION \<and>
     valid_command_id (ce_command_id envelope) \<and> (allow \<or> \<not> reserved_server_command_id (ce_command_id envelope)) \<and>
     ce_table_id envelope = au_table_id a \<and> ce_hand_id envelope = au_hand_id a"

definition refused :: "protocol_authority \<Rightarrow> submission_receipt \<Rightarrow> bool" where
  "refused a r \<longleftrightarrow> (\<exists>i code message. r = authority_receipt a (Rejected (authority_error a i code message)) Processed)"

text \<open>The four ways an envelope can go.\<close>

lemma submit_from_cases:
  assumes "submit_from a envelope allow = Some (r, a')"
  obtains (refusal) "a' = a" "refused a r"
  | (replay) recorded where "a' = a" "well_addressed a envelope allow"
      "bt_get (au_recorded_commands a) (ce_command_id envelope) = Some recorded"
      "rc_fingerprint recorded = fingerprint_of envelope" "r = authority_receipt a (rc_outcome recorded) Replayed"
  | (decision) outcome b where "well_addressed a envelope allow"
      "bt_get (au_recorded_commands a) (ce_command_id envelope) = None"
      "length (au_recorded_commands a) < MAX_RECORDED_COMMANDS_PER_HAND"
      "decide_outcome a envelope (Some (ce_command_id envelope)) = Some (outcome, b)"
      "a' = b\<lparr>au_recorded_commands := bt_insert (ce_command_id envelope)
         \<lparr>rc_fingerprint = fingerprint_of envelope, rc_outcome = outcome\<rparr> (au_recorded_commands b)\<rparr>"
      "r = authority_receipt a' outcome Processed"
proof (cases "well_addressed a envelope allow")
  case False
  then have "a' = a \<and> refused a r"
    using assms by (auto simp: submit_from_def well_addressed_def refused_def Let_def split: if_splits)
  then show ?thesis using refusal by blast
next
  case True
  then have checks: "ce_version envelope = PROTOCOL_VERSION" "valid_command_id (ce_command_id envelope)"
      "\<not> (\<not> allow \<and> reserved_server_command_id (ce_command_id envelope))"
      "ce_table_id envelope = au_table_id a" "ce_hand_id envelope = au_hand_id a"
    by (auto simp: well_addressed_def)
  show ?thesis
  proof (cases "bt_get (au_recorded_commands a) (ce_command_id envelope)")
    case (Some recorded)
    show ?thesis
    proof (cases "rc_fingerprint recorded = fingerprint_of envelope")
      case same: True
      then have "submit_from a envelope allow = Some (authority_receipt a (rc_outcome recorded) Replayed, a)"
        using checks Some by (auto simp: submit_from_def fingerprint_of_def Let_def)
      then show ?thesis using assms replay [OF _ True Some same] by simp
    next
      case False
      then have "a' = a \<and> refused a r"
        using assms checks Some by (auto simp: submit_from_def refused_def fingerprint_of_def Let_def)
      then show ?thesis using refusal by blast
    qed
  next
    case None
    show ?thesis
    proof (cases "MAX_RECORDED_COMMANDS_PER_HAND \<le> length (au_recorded_commands a)")
      case full: True
      then have "a' = a \<and> refused a r"
        using assms checks None by (auto simp: submit_from_def refused_def Let_def)
      then show ?thesis using refusal by blast
    next
      case False
      obtain outcome b where "decide_outcome a envelope (Some (ce_command_id envelope)) = Some (outcome, b)"
          "a' = b\<lparr>au_recorded_commands := bt_insert (ce_command_id envelope)
             \<lparr>rc_fingerprint = fingerprint_of envelope, rc_outcome = outcome\<rparr> (au_recorded_commands b)\<rparr>"
          "r = authority_receipt a' outcome Processed"
        using assms checks None False
        by (auto simp: submit_from_def fingerprint_of_def Let_def split: bind_splits)
      then show ?thesis using decision [OF True None] False by simp
    qed
  qed
qed

lemma decide_outcome_cases:
  assumes "decide_outcome a envelope i = Some (outcome, b)"
  obtains (rejection) e where "b = a" "outcome = Rejected e"
  | (acceptance) event h where "apply_payload (au_hand a) (ce_payload envelope) = Some (Inr h)"
      "b = a\<lparr>au_hand := h, au_revision := u64_add (au_revision a) 1\<rparr>" "outcome = Accepted event"
      "ce_expected_revision envelope = au_revision a" "ee_revision event = au_revision b"
      "ee_command_id event = ce_command_id envelope"
      "ee_event event = accepted_event (ce_payload envelope) (mh_phase (au_hand a)) h"
proof (cases "ce_expected_revision envelope = au_revision a")
  case False
  then show ?thesis using assms rejection by (auto simp: decide_outcome_def)
next
  case True
  then obtain result where result: "apply_payload (au_hand a) (ce_payload envelope) = Some result"
    using assms by (auto simp: decide_outcome_def split: bind_splits)
  show ?thesis
  proof (cases result)
    case (Inl e)
    then show ?thesis using assms True result rejection by (auto simp: decide_outcome_def)
  next
    case (Inr h)
    then show ?thesis
      using assms True result acceptance [of h] by (auto simp: decide_outcome_def Let_def)
  qed
qed

lemma decide_outcome_ledger:
  assumes "decide_outcome a envelope i = Some (outcome, b)"
  shows "au_recorded_commands b = au_recorded_commands a \<and> au_table_id b = au_table_id a \<and> au_hand_id b = au_hand_id a"
  using assms by (cases rule: decide_outcome_cases) auto

lemma submit_from_known:
  assumes "well_addressed a envelope allow"
    and "bt_get (au_recorded_commands a) (ce_command_id envelope) = Some recorded"
    and "rc_fingerprint recorded = fingerprint_of envelope"
  shows "submit_from a envelope allow = Some (authority_receipt a (rc_outcome recorded) Replayed, a)"
  using assms by (auto simp: submit_from_def well_addressed_def fingerprint_of_def Let_def)

subsection \<open>A ledger that forgets nothing\<close>

locale command_ledger =
  fixes entry_of :: "'s \<Rightarrow> 'k \<Rightarrow> 'v option"
    and step :: "'op \<Rightarrow> 's \<Rightarrow> 's option"
  assumes step_keeps: "step op s = Some s' \<Longrightarrow> entry_of s k = Some v \<Longrightarrow> entry_of s' k = Some v"
begin

lemma all_keep:
  assumes "for_m step ops s = Some s'" "entry_of s k = Some v"
  shows "entry_of s' k = Some v"
  using for_m_invariant [OF assms(1), of "\<lambda>s. entry_of s k = Some v"] assms(2) step_keeps by blast

end

definition ledger_entry :: "protocol_authority \<Rightarrow> string \<Rightarrow> recorded_command option" where
  "ledger_entry a command_id = bt_get (au_recorded_commands a) command_id"

lemma advance_ledger:
  assumes "authority_advance_showdown a = Some (r, a')"
  shows "au_recorded_commands a' = au_recorded_commands a \<and> au_table_id a' = au_table_id a \<and> au_hand_id a' = au_hand_id a"
  using assms by (auto simp: authority_advance_showdown_def Let_def split: bind_splits if_splits prod.splits)

lemma submit_ledger:
  assumes "submit_from a envelope allow = Some (r, a')"
  shows "au_table_id a' = au_table_id a \<and> au_hand_id a' = au_hand_id a \<and>
    (ledger_entry a k = Some v \<longrightarrow> ledger_entry a' k = Some v)"
  using assms
proof (cases rule: submit_from_cases)
  case (decision outcome b)
  then show ?thesis
    using decide_outcome_ledger [OF decision(4)] by (auto simp: ledger_entry_def bt_get_insert)
qed auto

lemma authority_step_addresses:
  "authority_step op a = Some a' \<Longrightarrow> au_table_id a' = au_table_id a \<and> au_hand_id a' = au_hand_id a"
  using submit_ledger advance_ledger by (cases op) auto

interpretation ledger: command_ledger ledger_entry authority_step
proof
  fix op a a' k v
  assume "authority_step op a = Some a'" "ledger_entry a k = Some v"
  then show "ledger_entry a' k = Some v"
    using submit_ledger advance_ledger by (cases op) (auto simp: ledger_entry_def)
qed

text \<open>Any sequence of operations on an authority.\<close>

abbreviation authority_run :: "authority_op list \<Rightarrow> protocol_authority \<Rightarrow> protocol_authority option" where
  "authority_run \<equiv> for_m authority_step"

lemma authority_run_addresses:
  assumes "authority_run ops a = Some a'"
  shows "au_table_id a' = au_table_id a \<and> au_hand_id a' = au_hand_id a"
  using for_m_invariant [OF assms, of "\<lambda>b. au_table_id b = au_table_id a \<and> au_hand_id b = au_hand_id a"]
    authority_step_addresses by metis

subsection \<open>Projections\<close>

lemma mw_seat_map_option [simp]: "(map_option f o' = None) \<longleftrightarrow> o' = None"
  by (cases o') simp_all

lemma occupied_has_seat: "s \<in> set (occupied_seats h) \<Longrightarrow> \<exists>st. mw_seat h s = Some st"
  by (auto simp: occupied_seats_def)

lemma legal_actions_returns: "s \<in> set (occupied_seats h) \<Longrightarrow> legal_actions_for h s \<noteq> None"
  using occupied_has_seat [of s h]
  by (auto simp: legal_actions_for_def amount_to_call_def raise_reopened_for_def Let_def)

lemma project_for_returns:
  assumes "\<And>s. audience = AudiencePlayer s \<Longrightarrow> s \<in> set (occupied_seats h)"
  shows "\<exists>p. project_for h hand_id audience = Some p"
proof -
  have "project_seat h audience s = Some (the (project_seat h audience s))" if "s \<in> set (occupied_seats h)" for s
    using occupied_has_seat [OF that] by (auto simp: project_seat_def split_beta)
  then have seats: "map_m (project_seat h audience) (occupied_seats h)
      = Some (map (\<lambda>s. the (project_seat h audience s)) (occupied_seats h))"
    by (rule map_m_total)
  have "(case audience of AudiencePlayer s \<Rightarrow> legal_actions_for h s | AudienceSpectator \<Rightarrow> Some None) \<noteq> None"
    using legal_actions_returns assms by (cases audience) auto
  then obtain la where "(case audience of AudiencePlayer s \<Rightarrow> legal_actions_for h s | AudienceSpectator \<Rightarrow> Some None) = Some la"
    by blast
  then show ?thesis by (simp add: project_for_def seats)
qed

lemma project_hand_returns:
  "project_hand h hand_id audience \<noteq> None \<and>
   (project_hand h hand_id audience = Some (Inl e) \<longleftrightarrow>
      (\<exists>s. audience = AudiencePlayer s \<and> s \<notin> set (occupied_seats h) \<and> e = PlayerSeatNotOccupied s))"
  using project_for_returns [of audience h hand_id] by (auto simp: project_hand_def split: projection_audience.splits)

lemma authority_snapshot_cases:
  "authority_snapshot a audience = Some (Inl e) \<longleftrightarrow> project_hand (au_hand a) (au_hand_id a) audience = Some (Inl e)"
  "authority_snapshot a audience = Some (Inr sn) \<Longrightarrow>
    project_hand (au_hand a) (au_hand_id a) audience = Some (Inr (sn_snapshot sn))"
proof -
  consider "project_hand (au_hand a) (au_hand_id a) audience = None"
    | x where "project_hand (au_hand a) (au_hand_id a) audience = Some (Inl x)"
    | p where "project_hand (au_hand a) (au_hand_id a) audience = Some (Inr p)"
    by (metis not_None_eq sum.exhaust)
  note cases = this
  show "authority_snapshot a audience = Some (Inl e) \<longleftrightarrow> project_hand (au_hand a) (au_hand_id a) audience = Some (Inl e)"
    by (cases rule: cases) (auto simp: authority_snapshot_def)
  show "project_hand (au_hand a) (au_hand_id a) audience = Some (Inr (sn_snapshot sn))"
    if "authority_snapshot a audience = Some (Inr sn)"
    by (cases rule: cases) (use that in \<open>auto simp: authority_snapshot_def\<close>)
qed

text \<open>
  The hand with everything replaced that an audience may not see: the hole cards of the other seats
  that have not been shown, the deck, the evaluations, and the preferences of the other seats.
\<close>

definition may_see :: "projection_audience \<Rightarrow> multiway_hand \<Rightarrow> seat_id \<Rightarrow> bool" where
  "may_see audience h s \<longleftrightarrow> audience = AudiencePlayer s \<or> s \<in> set (map rv_seat (mh_revealed_hands h))"

definition other_secrets :: "projection_audience \<Rightarrow> (seat_id \<Rightarrow> card list) \<Rightarrow> deck \<Rightarrow> (seat_id, hand_evaluation) btree
    \<Rightarrow> seat_id set \<Rightarrow> multiway_hand \<Rightarrow> multiway_hand" where
  "other_secrets audience holes d evals shows h =
     (map_seats (\<lambda>s st. if may_see audience h s then st else st\<lparr>ms_hole_cards := holes s\<rparr>) h)
       \<lparr>mh_deck := d, mh_showdown_evaluations := evals,
        mh_always_show := {s \<in> mh_always_show h. audience = AudiencePlayer s} \<union> {s \<in> shows. audience \<noteq> AudiencePlayer s}\<rparr>"

lemma other_secrets_seat:
  "mw_seat (other_secrets audience holes d evals shows h) s
    = map_option (\<lambda>st. if may_see audience h s then st else st\<lparr>ms_hole_cards := holes s\<rparr>) (mw_seat h s)"
  by (simp add: other_secrets_def)

lemma other_secrets_fields:
  "mh_revealed_hands (other_secrets audience holes d evals shows h) = mh_revealed_hands h"
  "mh_phase (other_secrets audience holes d evals shows h) = mh_phase h"
  "mh_settled_contributions (other_secrets audience holes d evals shows h) = mh_settled_contributions h"
  "occupied_seats (other_secrets audience holes d evals shows h) = occupied_seats h"
  "mh_to_act (other_secrets audience holes d evals shows h) = mh_to_act h"
  "mh_current_wager (other_secrets audience holes d evals shows h) = mh_current_wager h"
  "mh_last_full_raise_size (other_secrets audience holes d evals shows h) = mh_last_full_raise_size h"
  "mh_blind_values (other_secrets audience holes d evals shows h) = mh_blind_values h"
  "mh_pots (other_secrets audience holes d evals shows h) = mh_pots h"
  "mh_awards (other_secrets audience holes d evals shows h) = mh_awards h"
  by (simp_all add: other_secrets_def)

lemma project_seat_secrets:
  "project_seat (other_secrets audience holes d evals shows h) audience s = project_seat h audience s"
proof (cases "mw_seat h s")
  case (Some st)
  have revealed: "publicly_revealed h s \<longleftrightarrow> s \<in> set (map rv_seat (mh_revealed_hands h))"
    by (auto simp: publicly_revealed_def list_ex_iff)
  have "publicly_revealed (other_secrets audience holes d evals shows h) s \<longleftrightarrow> publicly_revealed h s"
    by (simp add: publicly_revealed_def other_secrets_fields)
  moreover have "contribution_for (other_secrets audience holes d evals shows h) s (st\<lparr>ms_hole_cards := holes s\<rparr>)
      = contribution_for h s st"
    "contribution_for (other_secrets audience holes d evals shows h) s st = contribution_for h s st"
    by (simp_all add: contribution_for_def other_secrets_fields)
  ultimately show ?thesis
    by (auto simp: project_seat_def other_secrets_seat Some may_see_def revealed split_beta)
qed (simp add: project_seat_def other_secrets_seat)

lemma other_secrets_holds:
  assumes "\<And>st cs. P (st\<lparr>ms_hole_cards := cs\<rparr>) \<longleftrightarrow> P st"
  shows "mw_holds (other_secrets audience holes d evals shows h) P s \<longleftrightarrow> mw_holds h P s"
  using assms by (cases "mw_seat h s") (simp_all add: mw_holds_def other_secrets_seat)

lemma legal_actions_secrets:
  "legal_actions_for (other_secrets audience holes d evals shows h) s = legal_actions_for h s"
proof (cases "mw_seat h s")
  case None
  then show ?thesis by (simp add: legal_actions_for_def other_secrets_seat other_secrets_fields)
next
  case (Some st)
  let ?h = "other_secrets audience holes d evals shows h"
  obtain cs where seat: "mw_seat ?h s = Some (st\<lparr>ms_hole_cards := cs\<rparr>)"
    by (cases "may_see audience h s") (auto simp: other_secrets_seat Some intro: that [of "ms_hole_cards st"])
  have act: "mw_holds ?h can_act t \<longleftrightarrow> mw_holds h can_act t" for t
    by (rule other_secrets_holds) (simp add: can_act_def)
  have reads: "amount_to_call ?h s = amount_to_call h s" "raise_reopened_for ?h s = raise_reopened_for h s"
    by (simp_all add: amount_to_call_def raise_reopened_for_def seat Some other_secrets_fields cong: option.case_cong)
  have can: "can_act (st\<lparr>ms_hole_cards := cs\<rparr>) \<longleftrightarrow> can_act st" by (simp add: can_act_def)
  show ?thesis
    unfolding legal_actions_for_def reads other_secrets_fields act seat Some
    by (simp add: can Let_def cong: option.case_cong)
qed

lemma map_map_filter: "map f (List.map_filter g xs) = List.map_filter (\<lambda>x. map_option f (g x)) xs"
  by (induction xs) (simp_all add: List.map_filter_simps split: option.splits)

lemma pot_total_secrets:
  "projection_pot_total (other_secrets audience holes d evals shows h) = projection_pot_total h"
proof -
  let ?h = "other_secrets audience holes d evals shows h"
  have "map ms_hand_contribution (occupied_states ?h) = map ms_hand_contribution (occupied_states h)"
  proof -
    have "map_option ms_hand_contribution (mw_seat ?h s) = map_option ms_hand_contribution (mw_seat h s)" for s
      by (simp add: other_secrets_seat option.map_comp comp_def if_distrib cong: if_cong)
    then show ?thesis by (simp only: occupied_states_def other_secrets_fields map_map_filter)
  qed
  then show ?thesis by (simp add: projection_pot_total_def other_secrets_fields cong: multiway_phase.case_cong)
qed

lemma project_hand_secrets:
  "project_hand (other_secrets audience holes d evals shows h) hand_id audience = project_hand h hand_id audience"
proof -
  have fields: "mh_showdown_progress (other_secrets aud holes d evals shows h) = mh_showdown_progress h"
    "mh_mucked_hands (other_secrets aud holes d evals shows h) = mh_mucked_hands h"
    "mh_table_size (other_secrets aud holes d evals shows h) = mh_table_size h"
    "mh_button (other_secrets aud holes d evals shows h) = mh_button h"
    "mh_small_blind (other_secrets aud holes d evals shows h) = mh_small_blind h"
    "mh_big_blind (other_secrets aud holes d evals shows h) = mh_big_blind h"
    "mh_board (other_secrets aud holes d evals shows h) = mh_board h"
    for aud by (simp_all add: other_secrets_def)
  have own: "s \<in> mh_always_show (other_secrets (AudiencePlayer s) holes d evals shows h) \<longleftrightarrow> s \<in> mh_always_show h" for s
    by (simp add: other_secrets_def)
  have seats: "project_seat (other_secrets aud holes d evals shows h) aud = project_seat h aud" for aud
    by (rule ext) (rule project_seat_secrets)
  show ?thesis
    by (cases audience) (simp_all add: project_hand_def project_for_def seats own other_secrets_fields fields
      legal_actions_secrets pot_total_secrets)
qed

subsection \<open>Messages\<close>

lemma boundary_at_most_facts: "boundary_at_most m i \<le> i \<and> is_char_boundary m (boundary_at_most m i)"
proof (induction m i rule: boundary_at_most.induct)
  case (1 m i)
  show ?case
  proof (cases "is_char_boundary m i")
    case True
    then have "boundary_at_most m i = i" by (simp add: boundary_at_most.simps)
    with True show ?thesis by simp
  next
    case False
    then have "boundary_at_most m i = boundary_at_most m (i - 1)"
      by (simp add: boundary_at_most.simps [of m i])
    with 1 [OF False] show ?thesis using diff_le_self [of i 1] by (metis le_trans)
  qed
qed

lemma bounded_public_message_facts:
  "length (bounded_public_message m) \<le> 160 \<and> (\<exists>rest. m = bounded_public_message m @ rest) \<and>
   is_char_boundary m (length (bounded_public_message m))"
proof (cases "length m \<le> MAX_PUBLIC_ERROR_MESSAGE_BYTES")
  case True
  then show ?thesis
    by (simp add: bounded_public_message_def is_char_boundary_def MAX_PUBLIC_ERROR_MESSAGE_BYTES_def)
next
  case False
  let ?i = "boundary_at_most m MAX_PUBLIC_ERROR_MESSAGE_BYTES"
  have "?i \<le> 160 \<and> is_char_boundary m ?i"
    using boundary_at_most_facts [of m MAX_PUBLIC_ERROR_MESSAGE_BYTES] by (simp add: MAX_PUBLIC_ERROR_MESSAGE_BYTES_def)
  moreover have "bounded_public_message m = take ?i m" "length (take ?i m) = ?i"
    using False calculation by (simp_all add: bounded_public_message_def MAX_PUBLIC_ERROR_MESSAGE_BYTES_def)
  moreover have "m = take ?i m @ drop ?i m" by simp
  ultimately show ?thesis by metis
qed

subsection \<open>No panic\<close>

lemma decide_outcome_returns:
  assumes "hand_ok (au_hand a)"
  shows "\<exists>outcome b. decide_outcome a envelope i = Some (outcome, b) \<and> hand_ok (au_hand b) \<and>
    same_game (au_hand a) (au_hand b)"
  using apply_payload_returns [OF assms, of "ce_payload envelope"] assms
  by (auto simp: decide_outcome_def Let_def)

lemma submit_from_returns:
  assumes "hand_ok (au_hand a)"
  shows "\<exists>r a'. submit_from a envelope allow = Some (r, a') \<and> hand_ok (au_hand a') \<and>
    same_game (au_hand a) (au_hand a')"
proof -
  obtain outcome b where "decide_outcome a envelope (Some (ce_command_id envelope)) = Some (outcome, b)"
      "hand_ok (au_hand b)" "same_game (au_hand a) (au_hand b)"
    using decide_outcome_returns [OF assms] by blast
  then show ?thesis using assms by (auto simp: submit_from_def Let_def split: option.splits)
qed

lemma authority_step_returns:
  assumes "hand_ok (au_hand a)"
  shows "\<exists>a'. authority_step op a = Some a' \<and> hand_ok (au_hand a') \<and> same_game (au_hand a) (au_hand a')"
proof (cases op)
  case (Submit envelope allow)
  then show ?thesis using submit_from_returns [OF assms, of envelope allow] by auto
next
  case AdvanceShowdown
  then show ?thesis
    using advance_showdown_returns [OF assms] by (auto simp: authority_advance_showdown_def Let_def)
qed

subsection \<open>Chips in a projection\<close>

lemma projected_pot: "project_for h hand_id audience = Some p \<Longrightarrow> pj_pot_total p = projection_pot_total h"
  by (auto simp: project_for_def split: bind_splits)

lemma map_m_map:
  assumes "map_m f xs = Some ys" "\<And>x y. x \<in> set xs \<Longrightarrow> f x = Some y \<Longrightarrow> g y = k x"
  shows "map g ys = map k xs"
  using assms by (induction xs arbitrary: ys) (auto split: bind_splits)

lemma projected_stacks:
  assumes "project_for h hand_id audience = Some p"
  shows "map ps_seat (pj_seats p) = occupied_seats h" "sum_list (map ps_stack (pj_seats p)) = sum_list (map ms_stack (occupied_states h))"
proof -
  have seats: "map_m (project_seat h audience) (occupied_seats h) = Some (pj_seats p)"
    using assms by (auto simp: project_for_def split: bind_splits)
  have one: "ps_seat q = s \<and> ps_stack q = ms_stack (the (mw_seat h s))" if "project_seat h audience s = Some q" for s q
    using that by (auto simp: project_seat_def split_beta split: bind_splits)
  have "map ps_seat (pj_seats p) = map (\<lambda>s. s) (occupied_seats h)"
    by (rule map_m_map [OF seats]) (use one in blast)
  then show "map ps_seat (pj_seats p) = occupied_seats h" by simp
  have "map ps_stack (pj_seats p) = map (\<lambda>s. ms_stack (the (mw_seat h s))) (occupied_seats h)"
    by (rule map_m_map [OF seats]) (use one in blast)
  moreover have "map (\<lambda>s. ms_stack (the (mw_seat h s))) xs = map ms_stack (List.map_filter (mw_seat h) xs)"
    if "\<forall>s\<in>set xs. mw_seat h s \<noteq> None" for xs
    using that by (induction xs) (auto simp: List.map_filter_simps)
  ultimately show "sum_list (map ps_stack (pj_seats p)) = sum_list (map ms_stack (occupied_states h))"
    using occupied_has_seat by (fastforce simp: occupied_states_def)
qed

lemma pot_total_betting:
  assumes "money_ok h" "accepts_actions (mh_phase h)"
  shows "projection_pot_total h = seat_total ms_hand_contribution h"
proof -
  have "projection_pot_total h = u32_sum (map ms_hand_contribution (occupied_states h))"
    using assms(2) by (cases "mh_phase h") (simp_all add: projection_pot_total_def)
  also have "\<dots> = sum_list (map ms_hand_contribution (occupied_states h))"
    by (rule u32_sum_exact) (use assms(1) in \<open>simp add: money_ok_def seat_total_def\<close>)
  finally show ?thesis using assms(1) by (simp add: seat_total_def money_ok_def)
qed

end
