(* ===== verification/Authorized_Facts.thy ===== *)
theory Authorized_Facts
  imports Authorized_Table Protocol_Facts
begin

text \<open>
  The invariant of the authorized table: the worker is alive and its hand satisfies the hand invariant,
  every seat has at most one session, subscribers are connected, the deadline is that of the seat to act,
  the reserved command ids in the ledger are those of past timeouts, and the accepted events are numbered by
  the revisions.
\<close>

abbreviation authority_of :: "runtime_state \<Rightarrow> protocol_authority" where
  "authority_of st \<equiv> as_authority (the (rt_table st))"

abbreviation table_hand :: "runtime_state \<Rightarrow> multiway_hand" where
  "table_hand st \<equiv> au_hand (authority_of st)"

subsection \<open>The worker\<close>

definition table_alive :: "runtime_state \<Rightarrow> bool" where
  "table_alive st \<longleftrightarrow> rt_table st \<noteq> None \<and> hand_ok (table_hand st) \<and>
     au_table_id (authority_of st) = rt_table_id st \<and> au_hand_id (authority_of st) = rt_hand_id st"

fun admits :: "projection_audience \<Rightarrow> multiway_hand \<Rightarrow> bool" where
  "admits (AudiencePlayer s) h \<longleftrightarrow> s \<in> set (occupied_seats h)"
| "admits AudienceSpectator h \<longleftrightarrow> True"

lemma authority_snapshot_admits:
  assumes "admits audience (au_hand a)"
  shows "\<exists>p. authority_snapshot a audience = Some (Inr \<lparr>sn_version = PROTOCOL_VERSION, sn_table_id = au_table_id a,
      sn_hand_id = au_hand_id a, sn_revision = au_revision a, sn_snapshot = p\<rparr>) \<and>
    project_for (au_hand a) (au_hand_id a) audience = Some p"
proof -
  obtain p where "project_for (au_hand a) (au_hand_id a) audience = Some p"
    using project_for_returns [of audience "au_hand a" "au_hand_id a"] assms by (cases audience) auto
  then show ?thesis
    using assms by (cases audience) (auto simp: authority_snapshot_def project_hand_def)
qed

lemma authority_snapshot_refuses:
  "\<not> admits audience (au_hand a) \<Longrightarrow> \<exists>e. authority_snapshot a audience = Some (Inl e)"
  by (cases audience) (auto simp: authority_snapshot_def project_hand_def)

text \<open>What a request does to the runtime when it only asks: nothing but counters and subscribers.\<close>

definition quiet :: "runtime_state \<Rightarrow> runtime_state \<Rightarrow> bool" where
  "quiet st st' \<longleftrightarrow> (rt_table st \<noteq> None \<longrightarrow> rt_table st' \<noteq> None \<and> authority_of st' = authority_of st) \<and>
     rt_table_id st' = rt_table_id st \<and> rt_hand_id st' = rt_hand_id st \<and> rt_sessions st' = rt_sessions st \<and>
     rt_now_tick st' = rt_now_tick st \<and> rt_deadline st' = rt_deadline st \<and>
     rt_deadline_generation st' = rt_deadline_generation st \<and> rt_accepted_events st' = rt_accepted_events st"

lemma quiet_refl [simp]: "quiet st st"
  by (simp add: quiet_def)

lemma quiet_trans: "quiet st st' \<Longrightarrow> quiet st' st'' \<Longrightarrow> quiet st st''"
  by (simp add: quiet_def)

lemma quiet_alive: "quiet st st' \<Longrightarrow> table_alive st \<Longrightarrow> table_alive st'"
  by (simp add: quiet_def table_alive_def)

lemma quiet_hand: "quiet st st' \<Longrightarrow> table_alive st \<Longrightarrow> authority_of st' = authority_of st"
  by (simp add: quiet_def table_alive_def)

lemma quiet_fields:
  assumes "quiet st st'" "table_alive st"
  shows "authority_of st' = authority_of st" "rt_hand_id st' = rt_hand_id st" "rt_sessions st' = rt_sessions st"
    "rt_deadline st' = rt_deadline st" "rt_deadline_generation st' = rt_deadline_generation st"
    "rt_accepted_events st' = rt_accepted_events st"
  using assms by (simp_all add: quiet_def table_alive_def)

lemma table_snapshot_runs:
  assumes "table_alive st" "admits audience (table_hand st)"
  shows "\<exists>p w. table_snapshot audience failure st = (Inr \<lparr>sn_version = PROTOCOL_VERSION, sn_table_id = rt_table_id st,
      sn_hand_id = rt_hand_id st, sn_revision = au_revision (authority_of st), sn_snapshot = p\<rparr>, st\<lparr>rt_table := w\<rparr>) \<and>
    project_for (table_hand st) (rt_hand_id st) audience = Some p \<and> quiet st (st\<lparr>rt_table := w\<rparr>)"
proof -
  obtain ac where ac: "rt_table st = Some ac" using assms(1) by (auto simp: table_alive_def)
  obtain p where p: "authority_snapshot (as_authority ac) audience = Some (Inr \<lparr>sn_version = PROTOCOL_VERSION,
      sn_table_id = rt_table_id st, sn_hand_id = rt_hand_id st, sn_revision = au_revision (as_authority ac), sn_snapshot = p\<rparr>)"
      "project_for (au_hand (as_authority ac)) (rt_hand_id st) audience = Some p"
    using authority_snapshot_admits [of audience "as_authority ac"] assms ac by (auto simp: table_alive_def)
  then show ?thesis
    using ac by (auto simp: table_snapshot_def actor_snapshot_def actor_call_def run_actor_turn_def Let_def quiet_def)
qed

lemma table_snapshot_refuses:
  assumes "table_alive st" "\<not> admits audience (table_hand st)"
  shows "\<exists>w. table_snapshot audience failure st = (Inl failure, st\<lparr>rt_table := w\<rparr>) \<and> quiet st (st\<lparr>rt_table := w\<rparr>)"
proof -
  obtain ac where ac: "rt_table st = Some ac" using assms(1) by (auto simp: table_alive_def)
  obtain e where "authority_snapshot (as_authority ac) audience = Some (Inl e)"
    using authority_snapshot_refuses [of audience "as_authority ac"] assms ac by auto
  then show ?thesis
    using ac by (auto simp: table_snapshot_def actor_snapshot_def actor_call_def run_actor_turn_def Let_def quiet_def)
qed

text \<open>A submission through the actor is the submission to the authority.\<close>

lemma table_submit_runs:
  assumes "table_alive st" "admits audience (table_hand st)"
  shows "\<exists>receipt a' m sn. submit_from (authority_of st) command server = Some (receipt, a') \<and>
    table_submit command audience server st
      = (Inr \<lparr>ar_receipt = receipt, ar_snapshot = sn\<rparr>, st\<lparr>rt_table := Some \<lparr>as_authority = a', as_metrics = m\<rparr>\<rparr>) \<and>
    hand_ok (au_hand a') \<and> same_game (table_hand st) (au_hand a') \<and>
    au_table_id a' = rt_table_id st \<and> au_hand_id a' = rt_hand_id st"
proof -
  obtain ac where ac: "rt_table st = Some ac" using assms(1) by (auto simp: table_alive_def)
  let ?a = "as_authority ac"
  obtain receipt a' where r: "submit_from ?a command server = Some (receipt, a')" "hand_ok (au_hand a')"
      "same_game (au_hand ?a) (au_hand a')"
    using submit_from_returns [of ?a command server] assms(1) ac by (auto simp: table_alive_def)
  have "admits audience (au_hand a')"
    using assms(2) r(3) ac by (cases audience) (simp_all add: same_game_def)
  then obtain sn where after: "authority_snapshot a' audience = Some (Inr sn)"
    using authority_snapshot_admits by blast
  obtain sn0 where before: "authority_snapshot ?a audience = Some (Inr sn0)"
    using authority_snapshot_admits [of audience ?a] assms(2) ac by auto
  have "worker_submit command audience server ac
      = Some (Inr \<lparr>ar_receipt = receipt, ar_snapshot = sn\<rparr>,
          \<lparr>as_authority = a', as_metrics = count_receipt receipt (as_metrics ac)\<rparr>)"
    using before after r(1)
    by (cases server; cases ac)
      (simp_all add: worker_submit_def submit_server_with_acknowledgement_def submit_with_acknowledgement_def Let_def)
  then have "table_submit command audience server st = (Inr \<lparr>ar_receipt = receipt, ar_snapshot = sn\<rparr>,
      st\<lparr>rt_table := Some \<lparr>as_authority = a', as_metrics = count_receipt receipt (as_metrics ac)\<rparr>\<rparr>)"
    using ac by (cases server) (simp_all add: table_submit_def actor_submit_def actor_submit_server_def
      actor_submit_request_def actor_call_def run_actor_turn_def)
  moreover have "au_table_id a' = rt_table_id st \<and> au_hand_id a' = rt_hand_id st"
    using submit_ledger [OF r(1)] assms(1) ac by (simp add: table_alive_def)
  ultimately show ?thesis using r ac by auto
qed

text \<open>What a receipt says of the authority.\<close>

lemma receipt_accepted:
  assumes "submit_from a envelope server = Some (r, a')" "processed_accepted r"
  shows "\<exists>event h. receipt_event r = Some event \<and> well_addressed a envelope server \<and>
    bt_get (au_recorded_commands a) (ce_command_id envelope) = None \<and>
    length (au_recorded_commands a) < MAX_RECORDED_COMMANDS_PER_HAND \<and>
    length (au_recorded_commands a') = Suc (length (au_recorded_commands a)) \<and>
    fst ` set (au_recorded_commands a') = insert (ce_command_id envelope) (fst ` set (au_recorded_commands a)) \<and>
    apply_payload (au_hand a) (ce_payload envelope) = Some (Inr h) \<and> au_hand a' = h \<and>
    au_revision a' = u64_add (au_revision a) 1 \<and> ee_revision event = au_revision a' \<and>
    ee_event event = accepted_event (ce_payload envelope) (mh_phase (au_hand a)) h"
  using assms(1)
proof (cases rule: submit_from_cases)
  case (decision outcome b)
  from decision(4) show ?thesis
  proof (cases rule: decide_outcome_cases)
    case (rejection e)
    then show ?thesis using decision(6) assms(2) by (simp add: processed_accepted_def authority_receipt_def)
  next
    case (acceptance event h)
    have "fst ` set (au_recorded_commands a') = insert (ce_command_id envelope) (fst ` set (au_recorded_commands a))"
      using set_keys_bt_insert acceptance(2) decision(5) by (metis (no_types, lifting) list.set_map
        protocol_authority.select_convs(5) protocol_authority.surjective protocol_authority.update_convs(3,4,5))
    then show ?thesis
      using decision acceptance by (simp add: receipt_event_def authority_receipt_def length_bt_insert)
  qed
qed (use assms(2) in \<open>auto simp: processed_accepted_def authority_receipt_def refused_def\<close>)

lemma receipt_not_accepted:
  assumes "submit_from a envelope server = Some (r, a')" "\<not> processed_accepted r"
  shows "au_hand a' = au_hand a \<and> au_revision a' = au_revision a \<and>
    length (au_recorded_commands a) \<le> length (au_recorded_commands a') \<and>
    fst ` set (au_recorded_commands a') \<subseteq> fst ` set (au_recorded_commands a) \<union>
      (if well_addressed a envelope server then {ce_command_id envelope} else {})"
  using assms(1)
proof (cases rule: submit_from_cases)
  case (decision outcome b)
  from decision(4) show ?thesis
  proof (cases rule: decide_outcome_cases)
    case (rejection e)
    have "fst ` set (bt_insert (ce_command_id envelope) v m) = insert (ce_command_id envelope) (fst ` set m)"
      for v and m :: "(string, recorded_command) btree"
      using set_keys_bt_insert [of "ce_command_id envelope" v m] by simp
    then show ?thesis
      using rejection decision by (simp add: length_bt_insert)
  next
    case (acceptance event h)
    then show ?thesis using decision(6) assms(2) by (simp add: processed_accepted_def authority_receipt_def)
  qed
qed auto

subsection \<open>The invariant\<close>

text \<open>Sessions and subscriptions.\<close>

definition sessions_ok :: "runtime_state \<Rightarrow> bool" where
  "sessions_ok st \<longleftrightarrow> bt_sorted (rt_sessions st) \<and> bt_sorted (rt_subscribers st) \<and>
     (\<forall>i b s. bt_get (rt_sessions st) i = Some b \<longrightarrow> sb_role b = RolePlayer s \<longrightarrow> s \<in> set (occupied_seats (table_hand st))) \<and>
     (\<forall>i j b c s. bt_get (rt_sessions st) i = Some b \<longrightarrow> bt_get (rt_sessions st) j = Some c \<longrightarrow>
        sb_role b = RolePlayer s \<longrightarrow> sb_role c = RolePlayer s \<longrightarrow> i = j) \<and>
     (\<forall>i sub. bt_get (rt_subscribers st) i = Some sub \<longrightarrow> (\<exists>b. bt_get (rt_sessions st) i = Some b \<and> sb_connected b))"

text \<open>The deadline of the seat to act, and the command ids of the timeouts so far.\<close>

definition deadline_ok :: "runtime_state \<Rightarrow> bool" where
  "deadline_ok st \<longleftrightarrow> map_option dl_seat (rt_deadline st) = mh_to_act (table_hand st) \<and>
     (\<forall>d. rt_deadline st = Some d \<longrightarrow> dl_generation d = rt_deadline_generation st) \<and>
     rt_deadline_generation st \<le> Suc (length (au_recorded_commands (authority_of st))) \<and>
     length (au_recorded_commands (authority_of st)) \<le> MAX_RECORDED_COMMANDS_PER_HAND \<and>
     (\<forall>i\<in>fst ` set (au_recorded_commands (authority_of st)). reserved_server_command_id i \<longrightarrow>
        (\<exists>g. i = timeout_command_id (rt_hand_id st) g \<and> g \<le> rt_deadline_generation st \<and>
           (rt_deadline st \<noteq> None \<longrightarrow> g < rt_deadline_generation st)))"

text \<open>The history of the hand is numbered by the revisions.\<close>

definition history_ok :: "runtime_state \<Rightarrow> bool" where
  "history_ok st \<longleftrightarrow> au_revision (authority_of st) = length (rt_accepted_events st) mod u64_bound \<and>
     map ee_revision (rt_accepted_events st) = map (\<lambda>i. Suc i mod u64_bound) [0..<length (rt_accepted_events st)]"

definition runtime_ok :: "runtime_state \<Rightarrow> bool" where
  "runtime_ok st \<longleftrightarrow> table_alive st \<and> sessions_ok st \<and> deadline_ok st \<and> history_ok st"

lemma runtime_okD:
  assumes "runtime_ok st"
  shows "table_alive st" "sessions_ok st" "deadline_ok st" "history_ok st"
  using assms by (simp_all add: runtime_ok_def)

lemma quiet_deadline_ok: "quiet st st' \<Longrightarrow> table_alive st \<Longrightarrow> deadline_ok st' \<longleftrightarrow> deadline_ok st"
  by (simp only: deadline_ok_def quiet_fields)

lemma quiet_history_ok: "quiet st st' \<Longrightarrow> table_alive st \<Longrightarrow> history_ok st' \<longleftrightarrow> history_ok st"
  by (simp only: history_ok_def quiet_fields)

text \<open>Fewer subscribers are fine.\<close>

definition subscribers_within :: "runtime_state \<Rightarrow> runtime_state \<Rightarrow> bool" where
  "subscribers_within st st' \<longleftrightarrow> (bt_sorted (rt_subscribers st) \<longrightarrow> bt_sorted (rt_subscribers st')) \<and>
     (\<forall>i. bt_get (rt_subscribers st') i \<noteq> None \<longrightarrow> bt_get (rt_subscribers st) i \<noteq> None)"

lemma subscribers_within_refl [simp]: "subscribers_within st st"
  by (simp add: subscribers_within_def)

lemma subscribers_within_trans: "subscribers_within st st' \<Longrightarrow> subscribers_within st' st'' \<Longrightarrow> subscribers_within st st''"
  by (simp add: subscribers_within_def)

lemma quiet_sessions_ok:
  assumes "quiet st st'" "table_alive st" "subscribers_within st st'" "sessions_ok st"
  shows "sessions_ok st'"
proof -
  have "\<exists>b. bt_get (rt_sessions st) i = Some b \<and> sb_connected b" if sub: "bt_get (rt_subscribers st') i = Some sub" for i sub
  proof -
    have "bt_get (rt_subscribers st) i \<noteq> None" using sub assms(3) unfolding subscribers_within_def by force
    then show ?thesis using assms(4) unfolding sessions_ok_def by force
  qed
  moreover have "bt_sorted (rt_subscribers st')" using assms(3,4) by (simp add: subscribers_within_def sessions_ok_def)
  ultimately show ?thesis
    using assms(4) unfolding sessions_ok_def quiet_fields [OF assms(1,2)] by blast
qed

lemma quiet_runtime_ok:
  assumes "quiet st st'" "subscribers_within st st'" "runtime_ok st"
  shows "runtime_ok st'"
  using assms quiet_sessions_ok [OF assms(1) _ assms(2)] quiet_alive [OF assms(1)]
    quiet_deadline_ok [OF assms(1)] quiet_history_ok [OF assms(1)]
  by (simp add: runtime_ok_def)

subsection \<open>Broadcasts\<close>

definition players_seated :: "runtime_state \<Rightarrow> bool" where
  "players_seated st \<longleftrightarrow> (\<forall>i b s. bt_get (rt_sessions st) i = Some b \<longrightarrow> sb_role b = RolePlayer s \<longrightarrow>
     s \<in> set (occupied_seats (table_hand st)))"

lemma binding_admits: "players_seated st \<Longrightarrow> bt_get (rt_sessions st) i = Some b \<Longrightarrow> admits (role_audience (sb_role b)) (table_hand st)"
  by (cases "sb_role b") (auto simp: players_seated_def)

lemma quiet_players: "quiet st st' \<Longrightarrow> table_alive st \<Longrightarrow> players_seated st' \<longleftrightarrow> players_seated st"
  by (simp only: players_seated_def quiet_fields)

lemma deliver_to_quiet:
  assumes "table_alive st" "players_seated st"
  shows "\<exists>rem st'. deliver_to sessions sequence reason event remove st = (Inr rem, st') \<and> quiet st st' \<and>
    subscribers_within st st'"
  using assms
proof (induction sessions arbitrary: remove st)
  case (Cons session sessions)
  have IH: "\<exists>rem st2. deliver_to sessions sequence reason event remove' st1 = (Inr rem, st2) \<and> quiet st st2 \<and>
      subscribers_within st st2" if q: "quiet st st1" and w: "subscribers_within st st1" for remove' st1
  proof -
    obtain rem st2 where "deliver_to sessions sequence reason event remove' st1 = (Inr rem, st2)" "quiet st1 st2"
        "subscribers_within st1 st2"
      using Cons.IH [of st1 remove'] quiet_alive [OF q] quiet_players [OF q] Cons.prems by blast
    then show ?thesis using quiet_trans [OF q] subscribers_within_trans [OF w] by blast
  qed
  show ?case
  proof (cases "bt_get (rt_sessions st) session")
    case None
    then show ?thesis using IH [of st] by simp
  next
    case (Some binding)
    show ?thesis
    proof (cases "sb_connected binding")
      case False
      then show ?thesis using Some IH [of st] by simp
    next
      case True
      obtain sn w where sn: "table_snapshot (role_audience (sb_role binding)) error_authority_failure st = (Inr sn, st\<lparr>rt_table := w\<rparr>)"
          "quiet st (st\<lparr>rt_table := w\<rparr>)"
        using table_snapshot_runs [OF Cons.prems(1) binding_admits [OF Cons.prems(2) Some]] by blast
      let ?update = "\<lparr>su_stream_sequence = sequence, su_reason = reason, su_event = event,
        su_snapshot = sn, su_deadline = rt_deadline st\<rparr>"
      have within: "subscribers_within st (st\<lparr>rt_table := w\<rparr>)" by (simp add: subscribers_within_def)
      show ?thesis
      proof (cases "bt_get (rt_subscribers st) session")
        case None
        then show ?thesis using Some True sn IH [OF sn(2) within] by simp
      next
        case sub: (Some sub)
        show ?thesis
        proof (cases "try_send ?update sub")
          case None
          have "quiet st (st\<lparr>rt_table := w, rt_slow_subscribers_dropped := u64_add (rt_slow_subscribers_dropped st) 1\<rparr>)"
            using sn(2) by (simp add: quiet_def)
          from IH [OF this] show ?thesis
            using Some True sn sub None by (simp add: Let_def subscribers_within_def)
        next
          case sent: (Some sub')
          have "quiet st (st\<lparr>rt_table := w, rt_subscribers := bt_insert session sub' (rt_subscribers st),
              rt_subscription_deliveries := u64_add (rt_subscription_deliveries st) 1\<rparr>)"
            using sn(2) by (simp add: quiet_def)
          from IH [OF this] show ?thesis
            using Some True sn sub sent
            by (simp add: Let_def subscribers_within_def bt_sorted_insert bt_get_insert)
        qed
      qed
    qed
  qed
qed simp

lemma fold_bt_remove:
  "bt_sorted m \<Longrightarrow> bt_sorted (fold bt_remove ks m)"
  "bt_get (fold bt_remove ks m) k = (if k \<in> set ks then None else bt_get m k)"
  by (induction ks arbitrary: m) (auto simp: bt_sorted_remove bt_get_remove)

lemma broadcast_quiet:
  assumes "table_alive st" "players_seated st"
  shows "\<exists>st'. broadcast reason event st = (Inr (), st') \<and> quiet st st' \<and> subscribers_within st st'"
proof -
  let ?st = "st\<lparr>rt_stream_sequence := u64_add (rt_stream_sequence st) 1\<rparr>"
  have start: "quiet st ?st" "subscribers_within st ?st" by (simp_all add: quiet_def subscribers_within_def)
  obtain rem st' where d: "deliver_to (map fst (rt_subscribers ?st)) (rt_stream_sequence ?st) reason event [] ?st = (Inr rem, st')"
      "quiet ?st st'" "subscribers_within ?st st'"
    using deliver_to_quiet [of ?st] quiet_alive [OF start(1) assms(1)] quiet_players [OF start(1) assms(1)] assms(2) by blast
  let ?st2 = "st'\<lparr>rt_subscribers := fold bt_remove rem (rt_subscribers st')\<rparr>"
  have "quiet st' ?st2" "subscribers_within st' ?st2"
    by (simp_all add: quiet_def subscribers_within_def fold_bt_remove)
  moreover have "broadcast reason event st = (Inr (), ?st2)"
    using d(1) by (simp add: broadcast_def Let_def and_then_def)
  ultimately show ?thesis
    using quiet_trans [OF start(1) quiet_trans [OF d(2)]]
      subscribers_within_trans [OF start(2) subscribers_within_trans [OF d(3)]] by blast
qed

lemma sessions_players: "sessions_ok st \<Longrightarrow> players_seated st"
  by (auto simp: sessions_ok_def players_seated_def)

lemma broadcast_ok:
  assumes "runtime_ok st"
  shows "\<exists>st'. broadcast reason event st = (Inr (), st') \<and> quiet st st' \<and> runtime_ok st'"
  using broadcast_quiet [of st reason event] sessions_players quiet_runtime_ok assms
  by (metis runtime_ok_def)

end
