(* ===== verification/Authorized_Ops.thy ===== *)
theory Authorized_Ops
  imports Authorized_Facts
begin

text \<open>
  The operations of the authorized table keep its invariant; only the owner of a seat, a timeout, or the
  showdown clock changes the authority.
\<close>

subsection \<open>Rescheduling\<close>

lemma projected_to_act: "project_for h hand_id audience = Some p \<Longrightarrow> pj_to_act p = mh_to_act h"
  by (auto simp: project_for_def split: bind_splits)

lemma projected_showdown: "project_for h hand_id audience = Some p \<Longrightarrow> pj_showdown p = mh_showdown_progress h"
  by (auto simp: project_for_def split: bind_splits)

lemma projected_legal: "project_for h hand_id (AudiencePlayer s) = Some p \<Longrightarrow> legal_actions_for h s = Some (pj_legal_actions p)"
  by (auto simp: project_for_def split: bind_splits)

text \<open>A state whose deadline is still that of the hand before the last move.\<close>

definition deadline_due :: "runtime_state \<Rightarrow> bool" where
  "deadline_due st \<longleftrightarrow>
     rt_deadline_generation st + (if mh_to_act (table_hand st) = None then 0 else 1)
       \<le> Suc (length (au_recorded_commands (authority_of st))) \<and>
     length (au_recorded_commands (authority_of st)) \<le> MAX_RECORDED_COMMANDS_PER_HAND \<and>
     (\<forall>i\<in>fst ` set (au_recorded_commands (authority_of st)). reserved_server_command_id i \<longrightarrow>
        (\<exists>g. i = timeout_command_id (rt_hand_id st) g \<and> g \<le> rt_deadline_generation st))"

definition same_table :: "runtime_state \<Rightarrow> runtime_state \<Rightarrow> bool" where
  "same_table st st' \<longleftrightarrow> rt_table st' \<noteq> None \<and> authority_of st' = authority_of st \<and> rt_table_id st' = rt_table_id st \<and>
     rt_hand_id st' = rt_hand_id st \<and> rt_sessions st' = rt_sessions st \<and> rt_subscribers st' = rt_subscribers st \<and>
     rt_accepted_events st' = rt_accepted_events st \<and> rt_now_tick st' = rt_now_tick st \<and>
     rt_timeout_actions st' = rt_timeout_actions st"

lemma reschedule_ok:
  assumes "table_alive st" "deadline_due st"
  shows "\<exists>st'. reschedule_deadline st = (Inr (), st') \<and> same_table st st' \<and> deadline_ok st'"
proof -
  obtain p w where p: "table_snapshot AudienceSpectator error_authority_failure st = (Inr \<lparr>sn_version = PROTOCOL_VERSION,
      sn_table_id = rt_table_id st, sn_hand_id = rt_hand_id st, sn_revision = au_revision (authority_of st), sn_snapshot = p\<rparr>,
      st\<lparr>rt_table := w\<rparr>)" "project_for (table_hand st) (rt_hand_id st) AudienceSpectator = Some p" "quiet st (st\<lparr>rt_table := w\<rparr>)"
    using table_snapshot_runs [OF assms(1), of AudienceSpectator error_authority_failure] by (metis admits.simps(2))
  have w: "w \<noteq> None" "as_authority (the w) = authority_of st"
    using p(3) assms(1) by (simp_all add: quiet_def table_alive_def)
  note to_act = projected_to_act [OF p(2)]
  have small: "rt_deadline_generation st \<le> 257"
    using assms(2) by (simp add: deadline_due_def MAX_RECORDED_COMMANDS_PER_HAND_def split: if_splits)
  show ?thesis
  proof (cases "mh_to_act (table_hand st)")
    case None
    let ?st = "st\<lparr>rt_table := w, rt_deadline := None\<rparr>"
    have "reschedule_deadline st = (Inr (), ?st)"
      using p(1) to_act None by (simp add: reschedule_deadline_def and_then_def)
    moreover have "deadline_ok ?st"
      using assms(2) None w by (simp add: deadline_ok_def deadline_due_def)
    ultimately show ?thesis using w by (simp add: same_table_def)
  next
    case (Some s)
    let ?g = "Suc (rt_deadline_generation st)"
    have g: "u64_add (rt_deadline_generation st) 1 = ?g" using small by (simp add: u64_add_def u64_bound_def)
    let ?due = "u64_add (rt_now_tick st) ACTION_TIMEOUT_TICKS"
    let ?st = "st\<lparr>rt_table := w, rt_deadline_generation := ?g, rt_deadline := Some \<lparr>dl_seat = s,
      dl_warning_tick = u64_sub ?due ACTION_WARNING_TICKS, dl_due_tick = ?due, dl_warning_emitted = False,
      dl_generation = ?g\<rparr>\<rparr>"
    have "reschedule_deadline st = (Inr (), ?st)"
      using p(1) to_act Some g by (simp add: reschedule_deadline_def and_then_def Let_def)
    moreover have "deadline_ok ?st"
      using assms(2) Some w by (fastforce simp: deadline_ok_def deadline_due_def)
    ultimately show ?thesis using w by (simp add: same_table_def)
  qed
qed

lemma same_table_alive: "same_table st st' \<Longrightarrow> table_alive st \<Longrightarrow> table_alive st'"
  by (simp add: same_table_def table_alive_def)

lemma same_table_sessions: "same_table st st' \<Longrightarrow> sessions_ok st \<Longrightarrow> sessions_ok st'"
  unfolding sessions_ok_def same_table_def by simp

subsection \<open>An accepted move\<close>

text \<open>The runtime with a new authority and the event that tells of it.\<close>

lemma history_push:
  assumes "history_ok st" "authority_of st' = a'" "au_revision a' = u64_add (au_revision (authority_of st)) 1"
    and "ee_revision e = au_revision a'" "rt_accepted_events st' = rt_accepted_events st @ [e]"
  shows "history_ok st'"
proof -
  have "au_revision a' = Suc (length (rt_accepted_events st)) mod u64_bound"
    using assms(1,3) by (simp add: history_ok_def u64_add_def mod_Suc_eq)
  then show ?thesis
    using assms(1,2,4,5) by (simp add: history_ok_def)
qed

lemma sessions_new_hand:
  assumes "sessions_ok st" "occupied_seats (table_hand st') = occupied_seats (table_hand st)"
    and "rt_sessions st' = rt_sessions st" "rt_subscribers st' = rt_subscribers st"
  shows "sessions_ok st'"
  using assms(1) unfolding sessions_ok_def assms(2-4) .

lemma pushed_ok:
  assumes "runtime_ok st" "st1 = st\<lparr>rt_table := Some ac\<rparr>" "table_alive st1"
    and "occupied_seats (table_hand st1) = occupied_seats (table_hand st)"
    and "au_revision (as_authority ac) = u64_add (au_revision (authority_of st)) 1" "ee_revision event = au_revision (as_authority ac)"
    and "deadline_due st1"
  shows "\<exists>st2. reschedule_deadline st1 = (Inr (), st2) \<and> same_table st1 st2 \<and>
    (\<forall>n. runtime_ok (st2\<lparr>rt_accepted_events := rt_accepted_events st @ [event], rt_timeout_actions := n\<rparr>))"
proof -
  obtain st2 where st2: "reschedule_deadline st1 = (Inr (), st2)" "same_table st1 st2" "deadline_ok st2"
    using reschedule_ok [OF assms(3,7)] by blast
  have "sessions_ok st1"
    by (rule sessions_new_hand [of st]) (use assms(1,2,4) in \<open>simp_all add: runtime_ok_def\<close>)
  then have sessions: "sessions_ok st2" by (rule same_table_sessions [OF st2(2)])
  have "runtime_ok (st2\<lparr>rt_accepted_events := rt_accepted_events st @ [event], rt_timeout_actions := n\<rparr>)" for n
  proof -
    let ?st3 = "st2\<lparr>rt_accepted_events := rt_accepted_events st @ [event], rt_timeout_actions := n\<rparr>"
    have "sessions_ok ?st3" using sessions by (simp add: sessions_ok_def)
    moreover have "table_alive ?st3" using same_table_alive [OF st2(2) assms(3)] by (simp add: table_alive_def)
    moreover have "deadline_ok ?st3" using st2(3) by (simp add: deadline_ok_def)
    moreover have "history_ok ?st3"
      by (rule history_push [of st _ "as_authority ac" event])
        (use assms(1,2,5,6) st2(2) in \<open>simp_all add: runtime_ok_def same_table_def\<close>)
    ultimately show ?thesis by (simp add: runtime_ok_def)
  qed
  then show ?thesis using st2(1,2) by blast
qed

text \<open>After a move: reschedule, keep the event, tell the subscribers; the first two commute.\<close>

definition publish :: "subscription_reason \<Rightarrow> event_envelope \<Rightarrow> (u64 \<Rightarrow> u64) \<Rightarrow> runtime_state \<Rightarrow> unit runtime_result" where
  "publish reason event bump st = and_then (reschedule_deadline st)
     (\<lambda>_ st. broadcast reason (Some event)
        (st\<lparr>rt_accepted_events := rt_accepted_events st @ [event], rt_timeout_actions := bump (rt_timeout_actions st)\<rparr>))"

lemma publish_id: "publish reason event id st = and_then (reschedule_deadline st)
    (\<lambda>_ st. broadcast reason (Some event) (st\<lparr>rt_accepted_events := rt_accepted_events st @ [event]\<rparr>))"
  by (simp add: publish_def)

lemma reschedule_commutes:
  "reschedule_deadline (st\<lparr>rt_accepted_events := evs, rt_timeout_actions := n\<rparr>)
    = (fst (reschedule_deadline st), (snd (reschedule_deadline st))\<lparr>rt_accepted_events := evs, rt_timeout_actions := n\<rparr>)"
  by (auto simp: reschedule_deadline_def and_then_def table_snapshot_def Let_def split: sum.split prod.split option.split)

lemma publish_ok:
  assumes "runtime_ok st" "st1 = st\<lparr>rt_table := Some ac\<rparr>" "table_alive st1"
    and "occupied_seats (table_hand st1) = occupied_seats (table_hand st)"
    and "au_revision (as_authority ac) = u64_add (au_revision (authority_of st)) 1" "ee_revision event = au_revision (as_authority ac)"
    and "deadline_due st1"
  shows "\<exists>st'. publish reason event bump st1 = (Inr (), st') \<and> runtime_ok st' \<and> authority_of st' = as_authority ac \<and>
    rt_sessions st' = rt_sessions st \<and> rt_now_tick st' = rt_now_tick st \<and>
    rt_accepted_events st' = rt_accepted_events st @ [event]"
proof -
  obtain st2 where st2: "reschedule_deadline st1 = (Inr (), st2)" "same_table st1 st2"
      "\<forall>n. runtime_ok (st2\<lparr>rt_accepted_events := rt_accepted_events st @ [event], rt_timeout_actions := n\<rparr>)"
    using pushed_ok [OF assms] by blast
  let ?st3 = "st2\<lparr>rt_accepted_events := rt_accepted_events st @ [event], rt_timeout_actions := bump (rt_timeout_actions st2)\<rparr>"
  have events: "rt_accepted_events st2 = rt_accepted_events st" using st2(2) assms(2) by (simp add: same_table_def)
  have ok3: "runtime_ok ?st3" using st2(3) by blast
  then obtain st' where st': "broadcast reason (Some event) ?st3 = (Inr (), st')" "quiet ?st3 st'" "runtime_ok st'"
    using broadcast_ok by blast
  have alive3: "table_alive ?st3" using ok3 by (simp add: runtime_ok_def)
  have "publish reason event bump st1 = (Inr (), st')"
    using st2(1) st'(1) events by (simp add: publish_def and_then_def)
  moreover have "authority_of st' = as_authority ac"
    using quiet_hand [OF st'(2) alive3] st2(2) assms(2) by (simp add: same_table_def)
  moreover have "rt_sessions st' = rt_sessions st" "rt_now_tick st' = rt_now_tick st"
      "rt_accepted_events st' = rt_accepted_events st @ [event]"
    using st'(2) st2(2) assms(2) by (simp_all add: quiet_def same_table_def)
  ultimately show ?thesis using st'(3) by blast
qed

text \<open>An accepted command leaves the deadline due.\<close>

lemma accepted_deadline_due:
  assumes "runtime_ok st" "submit_from (authority_of st) command server = Some (r, a')" "processed_accepted r"
    and "server \<longrightarrow> ce_command_id command = timeout_command_id (rt_hand_id st) (rt_deadline_generation st)"
  shows "deadline_due (st\<lparr>rt_table := Some \<lparr>as_authority = a', as_metrics = m\<rparr>\<rparr>)"
proof -
  have facts: "length (au_recorded_commands a') = Suc (length (au_recorded_commands (authority_of st)))"
      "length (au_recorded_commands (authority_of st)) < MAX_RECORDED_COMMANDS_PER_HAND"
      "fst ` set (au_recorded_commands a') = insert (ce_command_id command) (fst ` set (au_recorded_commands (authority_of st)))"
      "well_addressed (authority_of st) command server"
    using receipt_accepted [OF assms(2,3)] by blast+
  have ok: "deadline_ok st" using assms(1) by (simp add: runtime_ok_def)
  have "\<exists>g. i = timeout_command_id (rt_hand_id st) g \<and> g \<le> rt_deadline_generation st"
    if "i \<in> fst ` set (au_recorded_commands a')" "reserved_server_command_id i" for i
  proof (cases "i = ce_command_id command")
    case True
    then show ?thesis using assms(4) facts(4) that(2) by (auto simp: well_addressed_def)
  next
    case False
    then show ?thesis using that ok facts(3) by (auto simp: deadline_ok_def)
  qed
  then show ?thesis
    using ok facts(1,2) by (auto simp: deadline_due_def deadline_ok_def)
qed

subsection \<open>Requests that only ask\<close>

text \<open>The invariant is kept and the authority is the same.\<close>

definition stays :: "runtime_state \<Rightarrow> runtime_state \<Rightarrow> bool" where
  "stays st st' \<longleftrightarrow> runtime_ok st' \<and> authority_of st' = authority_of st"

lemma stays_refl: "runtime_ok st \<Longrightarrow> stays st st"
  by (simp add: stays_def)

lemma stays_trans: "stays st st' \<Longrightarrow> stays st' st'' \<Longrightarrow> stays st st''"
  by (simp add: stays_def)

lemma quiet_stays: "quiet st st' \<Longrightarrow> subscribers_within st st' \<Longrightarrow> runtime_ok st \<Longrightarrow> stays st st'"
  using quiet_runtime_ok quiet_hand by (simp add: stays_def runtime_ok_def)

lemma authorization_error_stays:
  assumes "runtime_ok st"
  shows "stays st (snd (authorization_error code message st))"
  by (rule quiet_stays [OF _ _ assms]) (simp_all add: authorization_error_def quiet_def subscribers_within_def)

lemma broadcast_stays: "runtime_ok st \<Longrightarrow> stays st (snd (broadcast reason event st))"
  using broadcast_ok [of st reason event] by (auto simp: stays_def quiet_hand runtime_ok_def)

lemma table_snapshot_stays:
  assumes "runtime_ok st"
  shows "stays st (snd (table_snapshot audience failure st))"
proof -
  have "\<exists>r w. table_snapshot audience failure st = (r, st\<lparr>rt_table := w\<rparr>) \<and> quiet st (st\<lparr>rt_table := w\<rparr>)"
    using table_snapshot_runs [of st audience failure] table_snapshot_refuses [of st audience failure] assms
    by (cases "admits audience (table_hand st)") (auto simp: runtime_ok_def)
  then show ?thesis
    using quiet_stays [OF _ _ assms] by (auto simp: subscribers_within_def)
qed

lemma and_then_stays:
  assumes "stays st (snd m)" "\<And>x st'. m = (Inr x, st') \<Longrightarrow> stays st st' \<Longrightarrow> stays st (snd (f x st'))"
  shows "stays st (snd (and_then m f))"
  using assms by (cases m) (auto simp: and_then_def split: sum.splits)

lemma connected_binding_cases:
  obtains (stranger) code message where "connected_binding session st = authorization_error code message st"
  | (owner) b where "connected_binding session st = (Inr b, st)" "bt_get (rt_sessions st) session = Some b" "sb_connected b"
proof (cases "bt_get (rt_sessions st) session")
  case None
  then show ?thesis by (intro stranger) (simp add: connected_binding_def)
next
  case (Some b)
  show ?thesis
  proof (cases "sb_connected b")
    case True
    then show ?thesis using Some by (intro owner [of b]) (simp_all add: connected_binding_def)
  next
    case False
    then show ?thesis using Some by (intro stranger) (simp add: connected_binding_def)
  qed
qed

lemma and_then_error [simp]: "and_then (authorization_error code message st) f = authorization_error code message st"
  by (simp add: and_then_def authorization_error_def)

lemma and_then_fine [simp]: "and_then (Inr x, st) f = f x st"
  by (simp add: and_then_def)

lemma runtime_snapshot_stays: "runtime_ok st \<Longrightarrow> stays st (snd (runtime_snapshot session st))"
  by (rule connected_binding_cases [of session st])
    (simp_all add: runtime_snapshot_def authorization_error_stays table_snapshot_stays)

lemma runtime_bound_snapshot_stays: "runtime_ok st \<Longrightarrow> stays st (snd (runtime_bound_snapshot session st))"
  by (simp add: runtime_bound_snapshot_def unknown_session_def authorization_error_stays table_snapshot_stays split: option.split)

lemma safe_history_material_stays: "runtime_ok st \<Longrightarrow> stays st (snd (safe_history_material st))"
  unfolding safe_history_material_def by (rule and_then_stays) (simp_all add: table_snapshot_stays)

lemma runtime_metrics_stays:
  assumes "runtime_ok st"
  shows "stays st (snd (runtime_metrics st))"
proof -
  have "rt_table st \<noteq> None" using assms by (simp add: runtime_ok_def table_alive_def)
  then have "snd (runtime_metrics st) = st"
    by (auto simp: runtime_metrics_def actor_metrics_def actor_call_def run_actor_turn_def Let_def)
  then show ?thesis using stays_refl [OF assms] by simp
qed

subsection \<open>Sessions\<close>

lemma sessions_irrelevant:
  "table_alive (st\<lparr>rt_sessions := m, rt_subscribers := n, rt_disconnects := k\<rparr>) \<longleftrightarrow> table_alive st"
  "deadline_ok (st\<lparr>rt_sessions := m, rt_subscribers := n, rt_disconnects := k\<rparr>) \<longleftrightarrow> deadline_ok st"
  "history_ok (st\<lparr>rt_sessions := m, rt_subscribers := n, rt_disconnects := k\<rparr>) \<longleftrightarrow> history_ok st"
  by (simp_all add: table_alive_def deadline_ok_def history_ok_def)

lemma new_sessions_stay:
  assumes "runtime_ok st" "sessions_ok (st\<lparr>rt_sessions := m, rt_subscribers := n, rt_disconnects := k\<rparr>)"
  shows "stays st (st\<lparr>rt_sessions := m, rt_subscribers := n, rt_disconnects := k\<rparr>)"
  using assms by (simp add: stays_def runtime_ok_def sessions_irrelevant)

lemma new_binding_stays:
  assumes "runtime_ok st" "bt_get (rt_sessions st) session = None" "admits (role_audience role) (table_hand st)"
    and "\<And>s i b. role = RolePlayer s \<Longrightarrow> bt_get (rt_sessions st) i = Some b \<Longrightarrow> sb_role b \<noteq> RolePlayer s"
  shows "stays st (st\<lparr>rt_sessions := bt_insert session \<lparr>sb_role = role, sb_connected = True\<rparr> (rt_sessions st)\<rparr>)"
proof -
  have "sessions_ok (st\<lparr>rt_sessions := bt_insert session \<lparr>sb_role = role, sb_connected = True\<rparr> (rt_sessions st),
      rt_subscribers := rt_subscribers st, rt_disconnects := rt_disconnects st\<rparr>)"
    using assms(1-3) assms(4) unfolding runtime_ok_def sessions_ok_def
    by (auto simp: bt_get_insert bt_sorted_insert)
  from new_sessions_stay [OF assms(1) this] show ?thesis by simp
qed

lemma session_member: "bt_get m k = Some v \<Longrightarrow> (k, v) \<in> set m"
  by (simp add: bt_get_def map_of_SomeD)

lemma runtime_bind_stays:
  assumes "runtime_ok st"
  shows "stays st (snd (runtime_bind session table_id hand_id role st))"
proof -
  note refused = authorization_error_stays [OF assms]
  consider (bad) code message where "runtime_bind session table_id hand_id role st = authorization_error code message st"
    | (spectator) "role = RoleSpectator" "bt_get (rt_sessions st) session = None"
      "runtime_bind session table_id hand_id role st = (Inr (), st\<lparr>rt_sessions :=
        bt_insert session \<lparr>sb_role = role, sb_connected = True\<rparr> (rt_sessions st)\<rparr>)"
    | (player) s where "role = RolePlayer s" "bt_get (rt_sessions st) session = None"
      "\<not> list_ex (\<lambda>(i, binding). sb_role binding = RolePlayer s) (rt_sessions st)"
      "runtime_bind session table_id hand_id role st = and_then (table_snapshot (AudiencePlayer s)
          (authorized_error UnauthorizedSeat ''player seat is not available in this hand'') st)
        (\<lambda>_ st. (Inr (), st\<lparr>rt_sessions := bt_insert session \<lparr>sb_role = role, sb_connected = True\<rparr> (rt_sessions st)\<rparr>))"
  proof -
    let ?result = "runtime_bind session table_id hand_id role st"
    show thesis
    proof (cases "table_id = rt_table_id st \<and> hand_id = rt_hand_id st \<and> bt_get (rt_sessions st) session = None")
      case False
      then have "\<exists>code message. ?result = authorization_error code message st"
        unfolding runtime_bind_def by (simp split del: option.split if_split) (auto split: if_split)
      then show ?thesis using bad by blast
    next
      case fits: True
      show ?thesis
      proof (cases role)
        case (RolePlayer s)
        then show ?thesis
          using fits bad player [of s] by (cases "list_ex (\<lambda>(i, binding). sb_role binding = RolePlayer s) (rt_sessions st)")
            (simp_all add: runtime_bind_def Let_def)
      next
        case RoleSpectator
        then show ?thesis using fits spectator by (simp add: runtime_bind_def Let_def)
      qed
    qed
  qed
  then show ?thesis
  proof cases
    case bad
    then show ?thesis using refused by simp
  next
    case spectator
    then show ?thesis using new_binding_stays [OF assms, of session role] by simp
  next
    case player
    have free: "sb_role b \<noteq> RolePlayer s" if "bt_get (rt_sessions st) i = Some b" for i b
      using player(3) session_member [OF that] by (auto simp: list_ex_iff)
    let ?m = "table_snapshot (AudiencePlayer s) (authorized_error UnauthorizedSeat ''player seat is not available in this hand'') st"
    show ?thesis
      unfolding player(4)
    proof (rule and_then_stays)
      show "stays st (snd ?m)" by (rule table_snapshot_stays [OF assms])
    next
      fix sn st'
      assume m: "?m = (Inr sn, st')" and st': "stays st st'"
      have alive: "table_alive st" using assms by (simp add: runtime_ok_def)
      have seat: "admits (AudiencePlayer s) (table_hand st)"
      proof (rule ccontr)
        assume "\<not> ?thesis"
        from table_snapshot_refuses [OF alive this] obtain w where "?m = (Inl (authorized_error UnauthorizedSeat
            ''player seat is not available in this hand''), st\<lparr>rt_table := w\<rparr>)" by blast
        then show False using m by simp
      qed
      from table_snapshot_runs [OF alive this] obtain sn' w where "?m = (Inr sn', st\<lparr>rt_table := w\<rparr>)" by blast
      then have w: "st' = st\<lparr>rt_table := w\<rparr>" using m by simp
      have "stays st' (st'\<lparr>rt_sessions := bt_insert session \<lparr>sb_role = role, sb_connected = True\<rparr> (rt_sessions st')\<rparr>)"
        by (rule new_binding_stays) (use st' player(1,2) seat free w in \<open>auto simp: stays_def\<close>)
      then show "stays st (snd (Inr (), st'\<lparr>rt_sessions := bt_insert session \<lparr>sb_role = role, sb_connected = True\<rparr> (rt_sessions st')\<rparr>))"
        using stays_trans [OF st'] by simp
    qed
  qed
qed

lemma set_connected_sessions:
  assumes "runtime_ok st" "bt_get (rt_sessions st) session = Some b"
    and "n = (if c then rt_subscribers st else bt_remove session (rt_subscribers st))"
  shows "stays st (st\<lparr>rt_sessions := bt_insert session (b\<lparr>sb_connected := c\<rparr>) (rt_sessions st),
    rt_subscribers := n, rt_disconnects := k\<rparr>)"
proof -
  have ok: "sessions_ok st" using assms(1) by (simp add: runtime_ok_def)
  let ?st = "st\<lparr>rt_sessions := bt_insert session (b\<lparr>sb_connected := c\<rparr>) (rt_sessions st), rt_subscribers := n, rt_disconnects := k\<rparr>"
  have role: "\<exists>d. bt_get (rt_sessions st) i = Some d \<and> sb_role d = sb_role e"
    if "bt_get (rt_sessions ?st) i = Some e" for i e
    using that assms(2) by (auto simp: bt_get_insert split: if_splits)
  have "sessions_ok ?st"
    unfolding sessions_ok_def
  proof (intro conjI allI impI)
    show "bt_sorted (rt_sessions ?st)" using ok by (simp add: sessions_ok_def bt_sorted_insert)
    show "bt_sorted (rt_subscribers ?st)" using ok assms(3) by (simp add: sessions_ok_def bt_sorted_remove)
  next
    fix i e s
    assume "bt_get (rt_sessions ?st) i = Some e" "sb_role e = RolePlayer s"
    then have "s \<in> set (occupied_seats (table_hand st))" using role ok unfolding sessions_ok_def by metis
    then show "s \<in> set (occupied_seats (table_hand ?st))" by simp
  next
    fix i j e e' s
    assume "bt_get (rt_sessions ?st) i = Some e" "bt_get (rt_sessions ?st) j = Some e'" "sb_role e = RolePlayer s" "sb_role e' = RolePlayer s"
    then show "i = j" using role ok unfolding sessions_ok_def by metis
  next
    fix i sub
    assume sub: "bt_get (rt_subscribers ?st) i = Some sub"
    then have "bt_get (rt_subscribers st) i = Some sub" "c \<or> i \<noteq> session"
      using assms(3) by (auto simp: bt_get_remove split: if_splits)
    then show "\<exists>d. bt_get (rt_sessions ?st) i = Some d \<and> sb_connected d"
      using ok unfolding sessions_ok_def by (auto simp: bt_get_insert)
  qed
  then show ?thesis by (rule new_sessions_stay [OF assms(1)])
qed

lemma runtime_disconnect_stays:
  assumes "runtime_ok st"
  shows "stays st (snd (runtime_disconnect session st))"
proof (cases "bt_get (rt_sessions st) session")
  case None
  then show ?thesis by (simp add: runtime_disconnect_def unknown_session_def authorization_error_stays assms)
next
  case (Some b)
  let ?st = "st\<lparr>rt_sessions := bt_insert session (b\<lparr>sb_connected := False\<rparr>) (rt_sessions st),
    rt_subscribers := bt_remove session (rt_subscribers st), rt_disconnects := u64_add (rt_disconnects st) 1\<rparr>"
  have st: "stays st ?st" by (rule set_connected_sessions [OF assms Some]) simp
  then have "stays ?st (snd (broadcast r None ?st))" for r
    by (intro broadcast_stays) (simp add: stays_def)
  from stays_trans [OF st this] show ?thesis
    using Some stays_refl [OF assms] by (simp add: runtime_disconnect_def set_connected_def Let_def)
qed

lemma runtime_reconnect_stays:
  assumes "runtime_ok st"
  shows "stays st (snd (runtime_reconnect session st))"
proof (cases "bt_get (rt_sessions st) session")
  case None
  then show ?thesis by (simp add: runtime_reconnect_def unknown_session_def authorization_error_stays assms)
next
  case (Some b)
  let ?st = "st\<lparr>rt_sessions := bt_insert session (b\<lparr>sb_connected := True\<rparr>) (rt_sessions st),
    rt_subscribers := rt_subscribers st, rt_disconnects := rt_disconnects st\<rparr>"
  have st: "stays st ?st" by (rule set_connected_sessions [OF assms Some]) simp
  then have "stays ?st (snd (broadcast r None ?st))" for r
    by (intro broadcast_stays) (simp add: stays_def)
  from stays_trans [OF st this] show ?thesis
    using Some stays_refl [OF assms] by (simp add: runtime_reconnect_def set_connected_def)
qed

lemma new_subscriber_stays:
  assumes "runtime_ok st" "bt_get (rt_sessions st) session = Some b" "sb_connected b"
  shows "stays st (st\<lparr>rt_subscribers := bt_insert session sub (rt_subscribers st), rt_subscription_requests := k,
    rt_subscription_deliveries := n\<rparr>)"
proof -
  let ?st = "st\<lparr>rt_subscribers := bt_insert session sub (rt_subscribers st), rt_subscription_requests := k, rt_subscription_deliveries := n\<rparr>"
  have "sessions_ok ?st"
    using assms unfolding runtime_ok_def sessions_ok_def by (auto simp: bt_get_insert bt_sorted_insert)
  moreover have "table_alive ?st" "deadline_ok ?st" "history_ok ?st"
    using assms(1) by (simp_all add: runtime_ok_def table_alive_def deadline_ok_def history_ok_def)
  ultimately show ?thesis by (simp add: stays_def runtime_ok_def)
qed

lemma runtime_subscribe_stays:
  assumes "runtime_ok st"
  shows "stays st (snd (runtime_subscribe session st))"
proof (cases rule: connected_binding_cases [of session st])
  case (stranger code message)
  then show ?thesis by (simp add: runtime_subscribe_def authorization_error_stays assms)
next
  case (owner b)
  let ?m = "table_snapshot (role_audience (sb_role b)) error_authority_failure st"
  show ?thesis
  proof (cases "bt_get (rt_subscribers st) session")
    case (Some sub)
    then show ?thesis using owner by (simp add: runtime_subscribe_def authorization_error_stays assms)
  next
    case None
    have "stays st (snd (and_then ?m (\<lambda>sn st. case try_send \<lparr>su_stream_sequence = rt_stream_sequence st, su_reason = ReasonInitial,
               su_event = None, su_snapshot = sn, su_deadline = rt_deadline st\<rparr>
               \<lparr>sc_buffer = [], sc_receiver_alive = True\<rparr> of
             None \<Rightarrow> (Inl error_runtime_closed, st)
           | Some sub \<Rightarrow> (Inr (), st\<lparr>rt_subscribers := bt_insert session sub (rt_subscribers st),
               rt_subscription_requests := u64_add (rt_subscription_requests st) 1,
               rt_subscription_deliveries := u64_add (rt_subscription_deliveries st) 1\<rparr>))))" (is "stays st (snd (and_then ?m ?f))")
    proof (rule and_then_stays)
      show "stays st (snd ?m)" by (rule table_snapshot_stays [OF assms])
    next
      fix sn st'
      assume m: "?m = (Inr sn, st')" and st': "stays st st'"
      have alive: "table_alive st" and seated: "players_seated st"
        using assms sessions_players by (simp_all add: runtime_ok_def)
      have "rt_sessions st' = rt_sessions st"
        using table_snapshot_runs [OF alive binding_admits [OF seated owner(2)], of error_authority_failure] m
        by auto
      then have "bt_get (rt_sessions st') session = Some b" using owner(2) by simp
      from new_subscriber_stays [OF _ this owner(3)] st' show "stays st (snd (?f sn st'))"
        by (auto simp: try_send_def SUBSCRIPTION_BUFFER_CAPACITY_def stays_def)
    qed
    then show ?thesis using owner None by (simp add: runtime_subscribe_def)
  qed
qed

subsection \<open>A command of a session\<close>

definition owns :: "runtime_state \<Rightarrow> guest_session_id \<Rightarrow> seat_id \<Rightarrow> bool" where
  "owns st session s \<longleftrightarrow> (\<exists>b. bt_get (rt_sessions st) session = Some b \<and> sb_connected b \<and> sb_role b = RolePlayer s)"

text \<open>The authority has answered one command and the invariant still holds.\<close>

definition moves :: "runtime_state \<Rightarrow> command_envelope \<Rightarrow> bool \<Rightarrow> runtime_state \<Rightarrow> bool" where
  "moves st command server st' \<longleftrightarrow> runtime_ok st' \<and>
     (\<exists>r. submit_from (authority_of st) command server = Some (r, authority_of st'))"

lemma moves_stays: "moves st command server st' \<Longrightarrow> stays st' st'' \<Longrightarrow> moves st command server st''"
  by (simp add: moves_def stays_def)

lemma submit_ledger_bound:
  assumes "submit_from a envelope server = Some (r, a')" "length (au_recorded_commands a) \<le> MAX_RECORDED_COMMANDS_PER_HAND"
  shows "length (au_recorded_commands a') \<le> MAX_RECORDED_COMMANDS_PER_HAND"
  using assms(1)
proof (cases rule: submit_from_cases)
  case (decision outcome b)
  then show ?thesis using decide_outcome_ledger [OF decision(4)] by (simp add: length_bt_insert)
qed (use assms(2) in auto)

lemma preference_keeps_turn:
  "apply_payload h (ShowdownPreference s v) = Some (Inr h') \<Longrightarrow> mh_to_act h' = mh_to_act h"
  using set_always_show_cases [of h s v] by (auto simp: apply_payload_def)

text \<open>The runtime whose worker has a new authority.\<close>

abbreviation with_worker :: "runtime_state \<Rightarrow> protocol_authority \<Rightarrow> table_actor_metrics \<Rightarrow> runtime_state" where
  "with_worker st a m \<equiv> st\<lparr>rt_table := Some \<lparr>as_authority = a, as_metrics = m\<rparr>\<rparr>"

lemma worker_sessions:
  "sessions_ok st \<Longrightarrow> same_game (table_hand st) (au_hand a) \<Longrightarrow> sessions_ok (with_worker st a m)"
  by (rule sessions_new_hand [of st]) (simp_all add: same_game_def)

lemma deadline_kept:
  assumes "deadline_ok st" "mh_to_act (au_hand a') = mh_to_act (table_hand st)"
    and "length (au_recorded_commands (authority_of st)) \<le> length (au_recorded_commands a')"
    and "length (au_recorded_commands a') \<le> MAX_RECORDED_COMMANDS_PER_HAND"
    and "\<And>i. i \<in> fst ` set (au_recorded_commands a') \<Longrightarrow> reserved_server_command_id i \<Longrightarrow>
      i \<in> fst ` set (au_recorded_commands (authority_of st))"
  shows "deadline_ok ((with_worker st a' m)\<lparr>rt_accepted_events := evs\<rparr>)"
  unfolding deadline_ok_def
proof (intro conjI ballI impI)
  fix i
  assume "i \<in> fst ` set (au_recorded_commands (authority_of ((with_worker st a' m)\<lparr>rt_accepted_events := evs\<rparr>)))"
    and "reserved_server_command_id i"
  then have "i \<in> fst ` set (au_recorded_commands (authority_of st))" "reserved_server_command_id i"
    using assms(5) by simp_all
  then have "\<exists>g. i = timeout_command_id (rt_hand_id st) g \<and> g \<le> rt_deadline_generation st \<and>
      (rt_deadline st \<noteq> None \<longrightarrow> g < rt_deadline_generation st)"
    using assms(1) unfolding deadline_ok_def by blast
  then show "\<exists>g. i = timeout_command_id (rt_hand_id ((with_worker st a' m)\<lparr>rt_accepted_events := evs\<rparr>)) g \<and>
      g \<le> rt_deadline_generation ((with_worker st a' m)\<lparr>rt_accepted_events := evs\<rparr>) \<and>
      (rt_deadline ((with_worker st a' m)\<lparr>rt_accepted_events := evs\<rparr>) \<noteq> None \<longrightarrow>
         g < rt_deadline_generation ((with_worker st a' m)\<lparr>rt_accepted_events := evs\<rparr>))"
    by simp
qed (use assms(1-4) in \<open>simp_all add: deadline_ok_def\<close>)

lemma refused_submission_ok:
  assumes "runtime_ok st" "submit_from (authority_of st) command False = Some (r, a')" "\<not> processed_accepted r"
    and "table_alive (with_worker st a' m)" "same_game (table_hand st) (au_hand a')"
  shows "runtime_ok (with_worker st a' m)"
proof -
  have facts: "au_hand a' = table_hand st" "au_revision a' = au_revision (authority_of st)"
      "length (au_recorded_commands (authority_of st)) \<le> length (au_recorded_commands a')"
      "fst ` set (au_recorded_commands a') \<subseteq> fst ` set (au_recorded_commands (authority_of st)) \<union>
        (if well_addressed (authority_of st) command False then {ce_command_id command} else {})"
    using receipt_not_accepted [OF assms(2,3)] by simp_all
  have ok: "deadline_ok st" "history_ok st" "sessions_ok st" using assms(1) by (simp_all add: runtime_ok_def)
  have "length (au_recorded_commands a') \<le> MAX_RECORDED_COMMANDS_PER_HAND"
    by (rule submit_ledger_bound [OF assms(2)]) (use ok(1) in \<open>simp add: deadline_ok_def\<close>)
  moreover have "i \<in> fst ` set (au_recorded_commands (authority_of st))"
    if "i \<in> fst ` set (au_recorded_commands a')" "reserved_server_command_id i" for i
    using subsetD [OF facts(4) that(1)] that(2) by (auto simp: well_addressed_def split: if_splits)
  ultimately have "deadline_ok ((with_worker st a' m)\<lparr>rt_accepted_events := rt_accepted_events (with_worker st a' m)\<rparr>)"
    using ok(1) facts(1,3) by (intro deadline_kept) simp_all
  then have "deadline_ok (with_worker st a' m)" by simp
  moreover have "history_ok (with_worker st a' m)" using ok(2) facts(2) by (simp add: history_ok_def)
  ultimately show ?thesis
    using assms(4) worker_sessions [OF ok(3) assms(5)] by (simp add: runtime_ok_def)
qed

lemma accepted_preference_ok:
  assumes "runtime_ok st" "submit_from (authority_of st) command False = Some (r, a')" "processed_accepted r"
    and "ce_payload command = ShowdownPreference s v" "receipt_event r = Some event"
    and "table_alive (with_worker st a' m)" "same_game (table_hand st) (au_hand a')"
  shows "runtime_ok ((with_worker st a' m)\<lparr>rt_accepted_events := rt_accepted_events st @ [event]\<rparr>)"
proof -
  let ?st = "(with_worker st a' m)\<lparr>rt_accepted_events := rt_accepted_events st @ [event]\<rparr>"
  have facts: "well_addressed (authority_of st) command False"
      "length (au_recorded_commands (authority_of st)) < MAX_RECORDED_COMMANDS_PER_HAND"
      "length (au_recorded_commands a') = Suc (length (au_recorded_commands (authority_of st)))"
      "fst ` set (au_recorded_commands a') = insert (ce_command_id command) (fst ` set (au_recorded_commands (authority_of st)))"
      "apply_payload (table_hand st) (ce_payload command) = Some (Inr (au_hand a'))"
      "au_revision a' = u64_add (au_revision (authority_of st)) 1" "ee_revision event = au_revision a'"
    using receipt_accepted [OF assms(2,3)] assms(5) by auto
  have ok: "deadline_ok st" "history_ok st" "sessions_ok st" using assms(1) by (simp_all add: runtime_ok_def)
  have "mh_to_act (au_hand a') = mh_to_act (table_hand st)"
    using facts(5) assms(4) preference_keeps_turn by simp
  moreover have "\<not> reserved_server_command_id (ce_command_id command)" using facts(1) by (simp add: well_addressed_def)
  ultimately have "deadline_ok ?st"
    using ok(1) facts(2-4) by (intro deadline_kept) auto
  moreover have "history_ok ?st" by (rule history_push [OF ok(2) _ facts(6,7)]) simp_all
  moreover have "table_alive ?st" using assms(6) by (simp add: table_alive_def)
  moreover have "sessions_ok ?st" using worker_sessions [OF ok(3) assms(7)] by (simp add: sessions_ok_def)
  ultimately show ?thesis by (simp add: runtime_ok_def)
qed

lemma accepted_action_publishes:
  assumes "runtime_ok st" "submit_from (authority_of st) command server = Some (r, a')" "processed_accepted r"
    and "server \<longrightarrow> ce_command_id command = timeout_command_id (rt_hand_id st) (rt_deadline_generation st)"
    and "table_alive (with_worker st a' m)" "same_game (table_hand st) (au_hand a')" "receipt_event r = Some event"
  shows "\<exists>st'. publish reason event bump (with_worker st a' m) = (Inr (), st') \<and> runtime_ok st' \<and> authority_of st' = a' \<and>
    rt_sessions st' = rt_sessions st \<and> rt_now_tick st' = rt_now_tick st \<and>
    rt_accepted_events st' = rt_accepted_events st @ [event]"
proof -
  have facts: "au_revision a' = u64_add (au_revision (authority_of st)) 1" "ee_revision event = au_revision a'"
    using receipt_accepted [OF assms(2,3)] assms(7) by auto
  show ?thesis
    using publish_ok [OF assms(1) refl assms(5) _ _ _ accepted_deadline_due [OF assms(1-4)], of event reason bump]
      facts assms(6) by (simp add: same_game_def)
qed

end
