(* ===== verification/Authorized_Moves.thy ===== *)
theory Authorized_Moves
  imports Authorized_Ops Prelude
begin

text \<open>
  The moves of the authorized table: a command of a session, a timeout, a step of the showdown. Each keeps
  the invariant, and what it does to the authority is one operation of the protocol authority.
\<close>

subsection \<open>Commands\<close>

lemma runtime_submit_moves:
  assumes "runtime_ok st"
  shows "stays st (snd (runtime_submit session command st)) \<or>
    owns st session (payload_seat (ce_payload command)) \<and> moves st command False (snd (runtime_submit session command st))"
proof (cases rule: connected_binding_cases [of session st])
  case (stranger code message)
  then show ?thesis by (simp add: runtime_submit_def authorization_error_stays assms)
next
  case (owner b)
  show ?thesis
  proof (cases "sb_role b")
    case RoleSpectator
    then show ?thesis using owner by (simp add: runtime_submit_def authorization_error_stays assms)
  next
    case (RolePlayer s)
    show ?thesis
    proof (cases "ce_table_id command = rt_table_id st \<and> ce_hand_id command = rt_hand_id st \<and> payload_seat (ce_payload command) = s")
      case False
      then have "\<exists>code message. runtime_submit session command st = authorization_error code message st"
        using owner RolePlayer unfolding runtime_submit_def by (auto simp del: authorization_error_def)
      then show ?thesis by (auto simp: authorization_error_stays assms)
    next
      case fits: True
      have owns: "owns st session (payload_seat (ce_payload command))"
        using owner RolePlayer fits by (auto simp: owns_def)
      have alive: "table_alive st" and seated: "players_seated st"
        using assms sessions_players by (simp_all add: runtime_ok_def)
      have seat: "admits (role_audience (sb_role b)) (table_hand st)" by (rule binding_admits [OF seated owner(2)])
      obtain r a' m sn where sub: "submit_from (authority_of st) command False = Some (r, a')"
          "table_submit command (role_audience (sb_role b)) False st = (Inr \<lparr>ar_receipt = r, ar_snapshot = sn\<rparr>, with_worker st a' m)"
          "hand_ok (au_hand a')" "same_game (table_hand st) (au_hand a')" "au_table_id a' = rt_table_id st" "au_hand_id a' = rt_hand_id st"
        using table_submit_runs [OF alive seat, of command False] by blast
      let ?st = "with_worker st a' m"
      have alive': "table_alive ?st" using sub(3,5,6) by (simp add: table_alive_def)
      show ?thesis
      proof (cases "processed_accepted r")
        case False
        have "runtime_ok ?st" by (rule refused_submission_ok [OF assms sub(1) False alive' sub(4)])
        then have "moves st command False (snd (runtime_submit session command st))"
          using owner RolePlayer fits sub(1,2) False by (simp add: runtime_submit_def moves_def)
        then show ?thesis using owns by blast
      next
        case True
        then obtain event h where event: "receipt_event r = Some event"
            "ee_event event = accepted_event (ce_payload command) (mh_phase (table_hand st)) h"
          using receipt_accepted [OF sub(1)] by blast
        have "moves st command False (snd (runtime_submit session command st))"
        proof (cases "ce_payload command")
          case (Act t a)
          obtain st' where st': "publish ReasonActionAccepted event id ?st = (Inr (), st')" "runtime_ok st'"
              "authority_of st' = a'"
            using accepted_action_publishes [OF assms sub(1) True _ alive' sub(4) event(1)] by blast
          have "runtime_submit session command st = (Inr \<lparr>at_receipt = r, at_snapshot = sn,
              at_deadline = rt_deadline st', at_stream_sequence = rt_stream_sequence st'\<rparr>, st')"
            using owner RolePlayer fits sub(2) True event st'(1) Act
            by (simp add: runtime_submit_def accepted_event_def publish_id)
          then show ?thesis using st'(2,3) sub(1) by (simp add: moves_def)
        next
          case (ShowdownPreference t v)
          let ?st1 = "?st\<lparr>rt_accepted_events := rt_accepted_events st @ [event]\<rparr>"
          have ok: "runtime_ok ?st1"
            by (rule accepted_preference_ok [OF assms sub(1) True ShowdownPreference event(1) alive' sub(4)])
          then obtain st' where st': "broadcast ReasonActionAccepted (Some event) ?st1 = (Inr (), st')" "quiet ?st1 st'" "runtime_ok st'"
            using broadcast_ok by blast
          have "runtime_submit session command st = (Inr \<lparr>at_receipt = r, at_snapshot = sn,
              at_deadline = rt_deadline st', at_stream_sequence = rt_stream_sequence st'\<rparr>, st')"
            using owner RolePlayer fits sub(2) True event st'(1) ShowdownPreference
            by (simp add: runtime_submit_def accepted_event_def)
          moreover have "authority_of st' = a'" using quiet_hand [OF st'(2)] ok by (simp add: runtime_ok_def)
          ultimately show ?thesis using st'(3) sub(1) by (simp add: moves_def)
        qed
        then show ?thesis using owns by blast
      qed
    qed
  qed
qed

subsection \<open>Timeouts\<close>

lemma timeout_command_inject: "timeout_command_id h m = timeout_command_id h n \<longleftrightarrow> m = n"
  by (simp add: timeout_command_id_def show_nat_inject)

lemma digits_are_safe: "c \<in> set (show_nat n) \<Longrightarrow> ascii_alphanumeric c"
  using show_nat_digits [of c n] by (auto simp: ascii_alphanumeric_def digit_char_code)

lemma timeout_command_valid:
  assumes "hand_id < u64_bound" "g < 1000"
  shows "valid_command_id (timeout_command_id hand_id g)" "reserved_server_command_id (timeout_command_id hand_id g)"
proof -
  have "length (show_nat hand_id) \<le> 20" by (rule length_show_nat) (use assms(1) in \<open>simp_all add: u64_bound_def\<close>)
  moreover have "length (show_nat g) \<le> 3" by (rule length_show_nat) (use assms(2) in simp_all)
  ultimately have "length (timeout_command_id hand_id g) \<le> MAX_COMMAND_ID_BYTES"
    by (simp add: timeout_command_id_def MAX_COMMAND_ID_BYTES_def)
  moreover have "ascii_alphanumeric b \<or> b = CHR ''-'' \<or> b = CHR ''_''"
    if "b \<in> set (timeout_command_id hand_id g)" for b
    using that digits_are_safe by (auto simp: timeout_command_id_def ascii_alphanumeric_def)
  ultimately show "valid_command_id (timeout_command_id hand_id g)"
    by (auto simp: valid_command_id_def list_all_iff timeout_command_id_def)
  show "reserved_server_command_id (timeout_command_id hand_id g)"
    by (simp add: reserved_server_command_id_def timeout_command_id_def)
qed

text \<open>The seat to act can always check or fold, and the runtime picks the one it can.\<close>

lemma timeout_action_applies:
  assumes "hand_ok h" "mh_to_act h = Some s"
  shows "\<exists>legal a h'. legal_actions_for h s = Some (Some legal) \<and> timeout_action legal = Some a \<and>
    (a = Check \<and> la_can_check legal \<or> a = ActFold \<and> \<not> la_can_check legal \<and> la_can_fold legal) \<and>
    apply_command h (seat_command_new s a) = Some (Inr h')"
proof -
  have betting: "betting_ok h" using assms by (auto simp: hand_ok_def showdown_ok_def done_ok_def)
  then have s: "needs_action h s" and mid: "mid_ok h" using assms(2) by (simp_all add: betting_ok_def)
  then obtain st where st: "mw_seat h s = Some st" "can_act st" by (auto simp: needs_action_def mw_holds_iff)
  let ?legal = "actor_legal h s st"
  have legal: "legal_actions_for h s = Some (Some ?legal)" by (rule legal_actions_for_actor [OF mid assms(2) st])
  define a where "a = (if la_can_check ?legal then Check else ActFold)"
  have can: "a = Check \<and> la_can_check ?legal \<or> a = ActFold \<and> \<not> la_can_check ?legal \<and> la_can_fold ?legal"
    by (auto simp: a_def actor_legal_def Let_def)
  have valid: "validate_with ?legal (ms_street_contribution st) (mh_current_wager h) a = Inr ()"
    using can by (auto simp: validate_with_def Let_def)
  have "validate_action h s a = Some (Inr ())"
    using legal valid by (simp add: validate_action_def st)
  moreover obtain h' where "apply_validated_action h s a = Some h'"
    using apply_validated_action_returns [OF betting assms(2) st(1) valid] by blast
  ultimately have "apply_command h (seat_command_new s a) = Some (Inr h')"
    using mid assms(2) st by (simp add: apply_command_def validate_command_def mid_ok_def seat_command_new_def)
  moreover have "timeout_action ?legal = Some a" using can by (auto simp: timeout_action_def)
  ultimately show ?thesis using legal can by blast
qed

lemma timeout_submission:
  assumes "runtime_ok st" "rt_deadline st = Some d" "rt_hand_id st < u64_bound"
    and "apply_command (table_hand st) (seat_command_new (dl_seat d) a) = Some (Inr h)"
    and "command = act_for_hand (timeout_command_id (rt_hand_id st) (dl_generation d)) (rt_table_id st) (rt_hand_id st)
      (au_revision (authority_of st)) (dl_seat d) a"
  shows "if length (au_recorded_commands (authority_of st)) < MAX_RECORDED_COMMANDS_PER_HAND
    then \<exists>event a'. submit_from (authority_of st) command True = Some (authority_receipt a' (Accepted event) Processed, a') \<and> au_hand a' = h
    else \<exists>e. submit_from (authority_of st) command True = Some (authority_receipt (authority_of st) (Rejected e) Processed, authority_of st)"
proof -
  let ?a = "authority_of st" and ?g = "rt_deadline_generation st"
  have alive: "table_alive st" and deadline: "deadline_ok st" using assms(1) by (simp_all add: runtime_ok_def)
  have g: "dl_generation d = ?g" "?g < 1000"
    using deadline assms(2) by (auto simp: deadline_ok_def MAX_RECORDED_COMMANDS_PER_HAND_def)
  note valid = timeout_command_valid [OF assms(3) g(2)]
  have "timeout_command_id (rt_hand_id st) ?g \<notin> fst ` set (au_recorded_commands ?a)"
  proof
    assume "timeout_command_id (rt_hand_id st) ?g \<in> fst ` set (au_recorded_commands ?a)"
    then obtain g' where "timeout_command_id (rt_hand_id st) ?g = timeout_command_id (rt_hand_id st) g'" "g' < ?g"
      using deadline valid(2) assms(2) unfolding deadline_ok_def by blast
    then show False by (simp add: timeout_command_inject)
  qed
  then have fresh: "bt_get (au_recorded_commands ?a) (timeout_command_id (rt_hand_id st) ?g) = None"
    by (simp add: bt_get_None)
  have same: "au_table_id ?a = rt_table_id st" "au_hand_id ?a = rt_hand_id st" using alive by (simp_all add: table_alive_def)
  show ?thesis
  proof (cases "length (au_recorded_commands ?a) < MAX_RECORDED_COMMANDS_PER_HAND")
    case True
    then show ?thesis
      using assms(4) same fresh valid g(1)
      by (auto simp: assms(5) submit_from_def decide_outcome_def act_for_hand_def apply_payload_def Let_def)
  next
    case False
    then show ?thesis
      using same fresh valid g(1) by (auto simp: assms(5) submit_from_def act_for_hand_def Let_def)
  qed
qed

lemma publish_pushed:
  assumes "table_alive st" "deadline_due st"
  shows "and_then (reschedule_deadline (st\<lparr>rt_accepted_events := rt_accepted_events st @ [event],
      rt_timeout_actions := bump (rt_timeout_actions st)\<rparr>)) (\<lambda>_. broadcast reason (Some event))
    = publish reason event bump st"
proof -
  obtain st2 where "reschedule_deadline st = (Inr (), st2)" "same_table st st2"
    using reschedule_ok [OF assms] by blast
  then show ?thesis by (simp add: publish_def reschedule_commutes same_table_def)
qed

text \<open>What \<^const>\<open>expire_deadline\<close> does with the answer of the table.\<close>

definition timeout_reply :: "action_deadline \<Rightarrow> action \<Rightarrow> table_actor_response \<Rightarrow> runtime_state \<Rightarrow> tick_result runtime_result" where
  "timeout_reply d a = (\<lambda>response st.
     if ak_result (sr_acknowledgement (ar_receipt response)) \<noteq> AckAccepted
        \<or> ak_delivery (sr_acknowledgement (ar_receipt response)) \<noteq> Processed
     then (Inl error_authority_failure, st)
     else (case receipt_event (ar_receipt response) of
        None \<Rightarrow> (Inl error_authority_failure, st)
      | Some event \<Rightarrow> and_then (and_then (reschedule_deadline (st\<lparr>rt_accepted_events := rt_accepted_events st @ [event],
            rt_timeout_actions := u64_add (rt_timeout_actions st) 1\<rparr>))
          (\<lambda>_. broadcast (ReasonTimeoutAction (dl_seat d) a) (Some event)))
        (\<lambda>_ st. (Inr (runtime_tick_result False (Some event) (Some a) st), st))))"

lemma and_then_assoc: "and_then (and_then m f) g = and_then m (\<lambda>x st. and_then (f x st) g)"
  by (cases m) (auto simp: and_then_def split: sum.splits)

lemma expire_prefix:
  assumes "runtime_ok st" "rt_deadline st = Some d" "rt_hand_id st < u64_bound"
  shows "\<exists>w legal a h. legal_actions_for (table_hand st) (dl_seat d) = Some (Some legal) \<and> timeout_action legal = Some a \<and>
    (a = Check \<and> la_can_check legal \<or> a = ActFold \<and> \<not> la_can_check legal \<and> la_can_fold legal) \<and>
    apply_command (table_hand st) (seat_command_new (dl_seat d) a) = Some (Inr h) \<and> quiet st (st\<lparr>rt_table := w\<rparr>) \<and>
    (let st1 = st\<lparr>rt_table := w\<rparr>; command = act_for_hand (timeout_command_id (rt_hand_id st) (dl_generation d)) (rt_table_id st)
         (rt_hand_id st) (au_revision (authority_of st)) (dl_seat d) a
     in expire_deadline d st = and_then (table_submit command AudienceSpectator True st1)
             (timeout_reply d a))"
proof -
  have alive: "table_alive st" and deadline: "deadline_ok st" using assms(1) by (simp_all add: runtime_ok_def)
  have hand: "hand_ok (table_hand st)" using alive by (simp add: table_alive_def)
  have to_act: "mh_to_act (table_hand st) = Some (dl_seat d)" using deadline assms(2) by (auto simp: deadline_ok_def)
  obtain legal a h where act: "legal_actions_for (table_hand st) (dl_seat d) = Some (Some legal)" "timeout_action legal = Some a"
      "a = Check \<and> la_can_check legal \<or> a = ActFold \<and> \<not> la_can_check legal \<and> la_can_fold legal"
      "apply_command (table_hand st) (seat_command_new (dl_seat d) a) = Some (Inr h)"
    using timeout_action_applies [OF hand to_act] by blast
  have "betting_ok (table_hand st)" using hand to_act by (auto simp: hand_ok_def showdown_ok_def done_ok_def)
  then have mid: "mid_ok (table_hand st)" "needs_action (table_hand st) (dl_seat d)"
    using to_act by (simp_all add: betting_ok_def)
  then have "dl_seat d \<in> set (occupied_seats (table_hand st))"
    using occupied_seatsI mid_shape by (auto simp: needs_action_def mw_holds_iff)
  then have seat: "admits (AudiencePlayer (dl_seat d)) (table_hand st)" by simp
  obtain p w where p: "table_snapshot (AudiencePlayer (dl_seat d)) error_authority_failure st = (Inr \<lparr>sn_version = PROTOCOL_VERSION,
      sn_table_id = rt_table_id st, sn_hand_id = rt_hand_id st, sn_revision = au_revision (authority_of st), sn_snapshot = p\<rparr>,
      st\<lparr>rt_table := w\<rparr>)" "project_for (table_hand st) (rt_hand_id st) (AudiencePlayer (dl_seat d)) = Some p" "quiet st (st\<lparr>rt_table := w\<rparr>)"
    using table_snapshot_runs [OF alive seat, of error_authority_failure] by blast
  have "pj_legal_actions p = Some legal" using projected_legal [OF p(2)] act(1) by simp
  then show ?thesis
    using p(1,3) act by (intro exI [of _ w] exI [of _ legal] exI [of _ a] exI [of _ h])
      (simp add: expire_deadline_def timeout_reply_def and_then_assoc Let_def cong: option.case_cong if_cong)
qed

text \<open>A timeout with room in the ledger plays the seat's check or fold; with a full ledger it does nothing.\<close>

lemma expire_runs:
  assumes "runtime_ok st" "rt_deadline st = Some d" "rt_hand_id st < u64_bound"
    and "length (au_recorded_commands (authority_of st)) < MAX_RECORDED_COMMANDS_PER_HAND"
  shows "\<exists>st' a legal event command r. expire_deadline d st = (Inr (runtime_tick_result False (Some event) (Some a) st'), st') \<and>
    legal_actions_for (table_hand st) (dl_seat d) = Some (Some legal) \<and>
    a = (if la_can_check legal then Check else ActFold) \<and>
    apply_command (table_hand st) (seat_command_new (dl_seat d) a) = Some (Inr (table_hand st')) \<and>
    submit_from (authority_of st) command True = Some (r, authority_of st') \<and> ce_payload command = Act (dl_seat d) a \<and>
    runtime_ok st' \<and> rt_sessions st' = rt_sessions st \<and> rt_now_tick st' = rt_now_tick st \<and>
    rt_accepted_events st' = rt_accepted_events st @ [event]"
proof -
  obtain w legal a h where e: "legal_actions_for (table_hand st) (dl_seat d) = Some (Some legal)" "timeout_action legal = Some a"
      "a = Check \<and> la_can_check legal \<or> a = ActFold \<and> \<not> la_can_check legal \<and> la_can_fold legal"
      "apply_command (table_hand st) (seat_command_new (dl_seat d) a) = Some (Inr h)" "quiet st (st\<lparr>rt_table := w\<rparr>)"
    and run: "let st1 = st\<lparr>rt_table := w\<rparr>; command = act_for_hand (timeout_command_id (rt_hand_id st) (dl_generation d)) (rt_table_id st)
         (rt_hand_id st) (au_revision (authority_of st)) (dl_seat d) a
     in expire_deadline d st = and_then (table_submit command AudienceSpectator True st1)
             (timeout_reply d a)"
    using expire_prefix [OF assms(1-3)] by blast
  let ?st1 = "st\<lparr>rt_table := w\<rparr>"
  let ?command = "act_for_hand (timeout_command_id (rt_hand_id st) (dl_generation d)) (rt_table_id st)
    (rt_hand_id st) (au_revision (authority_of st)) (dl_seat d) a"
  have ok1: "runtime_ok ?st1" by (rule quiet_runtime_ok [OF e(5) _ assms(1)]) (simp add: subscribers_within_def)
  have alive1: "table_alive ?st1" using ok1 by (simp add: runtime_ok_def)
  have same: "authority_of ?st1 = authority_of st" using quiet_hand [OF e(5)] assms(1) by (simp add: runtime_ok_def)
  obtain ev a' where sub: "submit_from (authority_of st) ?command True = Some (authority_receipt a' (Accepted ev) Processed, a')" "au_hand a' = h"
    using timeout_submission [OF assms(1-3) e(4) refl] assms(4) by auto
  let ?r = "authority_receipt a' (Accepted ev) Processed"
  have accepted: "processed_accepted ?r" "receipt_event ?r = Some ev"
    by (simp_all add: processed_accepted_def authority_receipt_def receipt_event_def)
  have sub1: "submit_from (authority_of ?st1) ?command True = Some (?r, a')" using sub(1) by (simp only: same)
  obtain m sn where t: "table_submit ?command AudienceSpectator True ?st1 = (Inr \<lparr>ar_receipt = ?r, ar_snapshot = sn\<rparr>, with_worker ?st1 a' m)"
      "hand_ok (au_hand a')" "same_game (table_hand ?st1) (au_hand a')" "au_table_id a' = rt_table_id ?st1" "au_hand_id a' = rt_hand_id ?st1"
    using table_submit_runs [OF alive1, of AudienceSpectator ?command True] unfolding sub1 by force
  have alive2: "table_alive (with_worker ?st1 a' m)" using t(2,4,5) by (simp add: table_alive_def)
  have gen: "dl_generation d = rt_deadline_generation st" using assms(1,2) by (simp add: runtime_ok_def deadline_ok_def)
  have id: "True \<longrightarrow> ce_command_id ?command = timeout_command_id (rt_hand_id ?st1) (rt_deadline_generation ?st1)"
    by (simp add: act_for_hand_def gen)
  let ?bump = "\<lambda>n. u64_add n 1"
  obtain st' where st': "publish (ReasonTimeoutAction (dl_seat d) a) ev ?bump (with_worker ?st1 a' m) = (Inr (), st')"
      "runtime_ok st'" "authority_of st' = a'" "rt_sessions st' = rt_sessions ?st1" "rt_now_tick st' = rt_now_tick ?st1"
      "rt_accepted_events st' = rt_accepted_events ?st1 @ [ev]"
    using accepted_action_publishes [OF ok1 sub1 accepted(1) id alive2 t(3) accepted(2)] by blast
  have "deadline_due (with_worker ?st1 a' m)" by (rule accepted_deadline_due [OF ok1 sub1 accepted(1) id])
  note pushed = publish_pushed [OF alive2 this, where event = ev and bump = ?bump and reason = "ReasonTimeoutAction (dl_seat d) a"]
  have "expire_deadline d st = (Inr (runtime_tick_result False (Some ev) (Some a) st'), st')"
    using run t(1) accepted st'(1) pushed
    by (simp add: Let_def timeout_reply_def authority_receipt_def)
  moreover have "a = (if la_can_check legal then Check else ActFold)" using e(3) by auto
  moreover have "apply_command (table_hand st) (seat_command_new (dl_seat d) a) = Some (Inr (table_hand st'))"
    using e(4) st'(3) sub(2) by simp
  moreover have "submit_from (authority_of st) ?command True = Some (?r, authority_of st')" "ce_payload ?command = Act (dl_seat d) a"
    using sub(1) st'(3) by (simp_all add: act_for_hand_def)
  ultimately show ?thesis
    using e(1) st'(2,4,5,6) by (intro exI [of _ st'] exI [of _ a] exI [of _ legal] exI [of _ ev]
      exI [of _ ?command] exI [of _ ?r]) simp
qed

lemma expire_full:
  assumes "runtime_ok st" "rt_deadline st = Some d" "rt_hand_id st < u64_bound"
    and "\<not> length (au_recorded_commands (authority_of st)) < MAX_RECORDED_COMMANDS_PER_HAND"
  shows "\<exists>w. expire_deadline d st = (Inl error_authority_failure, st\<lparr>rt_table := w\<rparr>) \<and> quiet st (st\<lparr>rt_table := w\<rparr>)"
proof -
  obtain w a h where e: "apply_command (table_hand st) (seat_command_new (dl_seat d) a) = Some (Inr h)" "quiet st (st\<lparr>rt_table := w\<rparr>)"
    and run: "let st1 = st\<lparr>rt_table := w\<rparr>; command = act_for_hand (timeout_command_id (rt_hand_id st) (dl_generation d)) (rt_table_id st)
         (rt_hand_id st) (au_revision (authority_of st)) (dl_seat d) a
     in expire_deadline d st = and_then (table_submit command AudienceSpectator True st1) (timeout_reply d a)"
    using expire_prefix [OF assms(1-3)] by blast
  let ?st1 = "st\<lparr>rt_table := w\<rparr>"
  let ?command = "act_for_hand (timeout_command_id (rt_hand_id st) (dl_generation d)) (rt_table_id st)
    (rt_hand_id st) (au_revision (authority_of st)) (dl_seat d) a"
  have alive1: "table_alive ?st1" using quiet_alive [OF e(2)] assms(1) by (simp add: runtime_ok_def)
  have same: "authority_of ?st1 = authority_of st" using quiet_hand [OF e(2)] assms(1) by (simp add: runtime_ok_def)
  obtain err where sub: "submit_from (authority_of ?st1) ?command True
      = Some (authority_receipt (authority_of st) (Rejected err) Processed, authority_of st)"
    using timeout_submission [OF assms(1-3) e(1) refl] assms(4) unfolding same by auto
  obtain m sn where t: "table_submit ?command AudienceSpectator True ?st1
      = (Inr \<lparr>ar_receipt = authority_receipt (authority_of st) (Rejected err) Processed, ar_snapshot = sn\<rparr>,
         with_worker ?st1 (authority_of st) m)"
    using table_submit_runs [OF alive1, of AudienceSpectator ?command True] unfolding sub by force
  have "expire_deadline d st = (Inl error_authority_failure, with_worker ?st1 (authority_of st) m)"
    using run t by (simp add: Let_def timeout_reply_def authority_receipt_def)
  then show ?thesis
    by (intro exI [of _ "Some \<lparr>as_authority = authority_of st, as_metrics = m\<rparr>"]) (simp add: quiet_def)
qed

end
