(* ===== verification/Authorized_Runs.thy ===== *)
theory Authorized_Runs
  imports Authorized_Moves
begin

text \<open>
  The turns of the authorized table: advancing the logical clock, the pacing of a showdown, and any sequence
  of requests. The invariant holds from the spawn on, and a full command ledger freezes the hand.
\<close>

subsection \<open>Fields that the invariant does not read\<close>

lemma clock_irrelevant [simp]:
  "runtime_ok (st\<lparr>rt_now_tick := t\<rparr>) \<longleftrightarrow> runtime_ok st"
  "runtime_ok (st\<lparr>rt_next_showdown_step := n\<rparr>) \<longleftrightarrow> runtime_ok st"
  by (simp_all add: runtime_ok_def table_alive_def sessions_ok_def deadline_ok_def history_ok_def)

lemma clock_moves [simp]:
  "moves (st\<lparr>rt_now_tick := t\<rparr>) command server st' \<longleftrightarrow> moves st command server st'"
  "stays (st\<lparr>rt_now_tick := t\<rparr>) st' \<longleftrightarrow> stays st st'"
  "stays (st\<lparr>rt_next_showdown_step := n\<rparr>) st' \<longleftrightarrow> stays st st'"
  "stays st (st'\<lparr>rt_next_showdown_step := n\<rparr>) \<longleftrightarrow> stays st st'"
  by (simp_all add: moves_def stays_def)

lemma warned_deadline_ok:
  "runtime_ok st \<Longrightarrow> rt_deadline st = Some d \<Longrightarrow>
    runtime_ok (st\<lparr>rt_deadline := Some (d\<lparr>dl_warning_emitted := w\<rparr>), rt_deadline_warnings := n\<rparr>)"
  unfolding runtime_ok_def by (auto simp: table_alive_def sessions_ok_def deadline_ok_def history_ok_def)

lemma stays_hand_id: "runtime_ok st \<Longrightarrow> stays st st' \<Longrightarrow> rt_hand_id st' = rt_hand_id st"
  unfolding stays_def runtime_ok_def table_alive_def by metis

lemma moves_hand_id: "runtime_ok st \<Longrightarrow> moves st command server st' \<Longrightarrow> rt_hand_id st' = rt_hand_id st"
  using submit_ledger by (fastforce simp: moves_def runtime_ok_def table_alive_def)

subsection \<open>The logical clock\<close>

definition times_out :: "runtime_state \<Rightarrow> u64 \<Rightarrow> runtime_state \<Rightarrow> bool" where
  "times_out st now_tick st' \<longleftrightarrow> (\<exists>d a command. rt_deadline st = Some d \<and> dl_due_tick d \<le> now_tick \<and> a \<in> {Check, ActFold} \<and>
     ce_payload command = Act (dl_seat d) a \<and> moves st command True st')"

lemma runtime_advance_time_moves:
  assumes "runtime_ok st" "rt_hand_id st < u64_bound"
  shows "stays st (snd (runtime_advance_time now_tick st)) \<or> times_out st now_tick (snd (runtime_advance_time now_tick st))"
proof (cases "now_tick < rt_now_tick st")
  case True
  then show ?thesis by (simp add: runtime_advance_time_def authorization_error_stays assms)
next
  case on: False
  let ?st = "st\<lparr>rt_now_tick := now_tick\<rparr>"
  have ok: "runtime_ok ?st" "rt_hand_id ?st < u64_bound" using assms by simp_all
  show ?thesis
  proof (cases "rt_deadline st")
    case None
    then show ?thesis using on stays_refl [OF ok(1)] by (simp add: runtime_advance_time_def Let_def)
  next
    case (Some d)
    then have d: "rt_deadline ?st = Some d" by simp
    consider "dl_due_tick d \<le> now_tick"
      | "\<not> dl_due_tick d \<le> now_tick" "dl_warning_tick d \<le> now_tick \<and> \<not> dl_warning_emitted d"
      | "\<not> dl_due_tick d \<le> now_tick" "\<not> (dl_warning_tick d \<le> now_tick \<and> \<not> dl_warning_emitted d)"
      by blast
    then show ?thesis
    proof cases
      case 1
      then have run: "runtime_advance_time now_tick st = expire_deadline d ?st"
        using on Some by (simp add: runtime_advance_time_def Let_def)
      show ?thesis
      proof (cases "length (au_recorded_commands (authority_of ?st)) < MAX_RECORDED_COMMANDS_PER_HAND")
        case True
        obtain st' a and legal :: legal_actions and event command r where e: "expire_deadline d ?st = (Inr (runtime_tick_result False (Some event) (Some a) st'), st')"
            "a = (if la_can_check legal then Check else ActFold)" "submit_from (authority_of ?st) command True = Some (r, authority_of st')"
            "ce_payload command = Act (dl_seat d) a" "runtime_ok st'"
          using expire_runs [OF ok(1) d ok(2) True] by blast
        have "a \<in> {Check, ActFold}" using e(2) by simp
        moreover have "moves st command True st'" using e(3,5) by (auto simp: moves_def)
        ultimately have "times_out st now_tick st'" using Some 1 e(4) unfolding times_out_def by blast
        then show ?thesis using run e(1) by simp
      next
        case False
        obtain w where "expire_deadline d ?st = (Inl error_authority_failure, ?st\<lparr>rt_table := w\<rparr>)" "quiet ?st (?st\<lparr>rt_table := w\<rparr>)"
          using expire_full [OF ok(1) d ok(2) False] by blast
        then show ?thesis
          using run quiet_stays [of ?st "?st\<lparr>rt_table := w\<rparr>"] ok(1) by (simp add: subscribers_within_def)
      qed
    next
      case 2
      let ?st2 = "?st\<lparr>rt_deadline := Some (d\<lparr>dl_warning_emitted := True\<rparr>), rt_deadline_warnings := u64_add (rt_deadline_warnings ?st) 1\<rparr>"
      have "runtime_ok ?st2" by (rule warned_deadline_ok [OF ok(1) d])
      moreover from this have "stays st ?st2" by (simp add: stays_def)
      ultimately have "stays st (snd (broadcast r None ?st2))" for r
        using stays_trans [OF _ broadcast_stays] by blast
      moreover obtain st' where "broadcast (ReasonDeadlineWarning (dl_seat d) (u64_sub (dl_due_tick d) now_tick)) None ?st2 = (Inr (), st')"
        using broadcast_ok [OF \<open>runtime_ok ?st2\<close>] by blast
      ultimately have "stays st (snd (runtime_advance_time now_tick st))"
        using 2 on Some by (simp add: runtime_advance_time_def Let_def) (metis snd_conv)
      then show ?thesis by blast
    next
      case 3
      then show ?thesis using on Some stays_refl [OF ok(1)] by (auto simp: runtime_advance_time_def Let_def)
    qed
  qed
qed

subsection \<open>The pacing of a showdown\<close>

definition shows_down :: "runtime_state \<Rightarrow> nat \<Rightarrow> runtime_state \<Rightarrow> bool" where
  "shows_down st now st' \<longleftrightarrow> (\<exists>due e. rt_next_showdown_step st = Some due \<and> due \<le> now \<and> runtime_ok st' \<and>
     mh_showdown_progress (table_hand st) \<noteq> None \<and>
     authority_advance_showdown (authority_of st) = Some (e, authority_of st'))"

lemma actor_advances:
  assumes "table_alive st"
  shows "\<exists>e a'. authority_advance_showdown (authority_of st) = Some (e, a') \<and> hand_ok (au_hand a') \<and>
    same_game (table_hand st) (au_hand a') \<and> au_table_id a' = rt_table_id st \<and> au_hand_id a' = rt_hand_id st \<and>
    au_recorded_commands a' = au_recorded_commands (authority_of st) \<and>
    (case e of None \<Rightarrow> a' = authority_of st
     | Some event \<Rightarrow> au_revision a' = u64_add (au_revision (authority_of st)) 1 \<and> ee_revision event = au_revision a') \<and>
    (\<exists>m. actor_advance_showdown (rt_table st) = (Inr e, Some \<lparr>as_authority = a', as_metrics = m\<rparr>))"
proof -
  obtain ac where ac: "rt_table st = Some ac" using assms by (auto simp: table_alive_def)
  obtain b h where h: "advance_showdown (table_hand st) = Some (b, h)" "hand_ok h" "same_game (table_hand st) h" "\<not> b \<longrightarrow> h = table_hand st"
    using advance_showdown_returns [of "table_hand st"] assms by (auto simp: table_alive_def)
  show ?thesis
    using h ac assms by (cases b; cases ac)
      (simp_all add: authority_advance_showdown_def actor_advance_showdown_def actor_call_def run_actor_turn_def table_alive_def Let_def)
qed

lemma paced_showdown_idle:
  assumes "hand_ok h" "mh_showdown_progress h \<noteq> None" "advance_showdown h = Some (b, h')"
  shows "mh_to_act h = None \<and> mh_to_act h' = None"
proof -
  have "showdown_ok h"
    using assms(1,2) by (auto simp: hand_ok_def betting_ok_def mid_ok_def before_showdown_def done_ok_def)
  then show ?thesis
    using advance_showdown_step [of h] assms(3) by (auto simp: showdown_ok_def done_ok_def)
qed

lemma advance_showdown_of:
  assumes "authority_advance_showdown a = Some (e, a')"
  shows "\<exists>b. advance_showdown (au_hand a) = Some (b, au_hand a')"
proof (cases "advance_showdown (au_hand a)")
  case None
  then show ?thesis using assms by (simp add: authority_advance_showdown_def)
next
  case (Some r)
  obtain b h where "r = (b, h)" by (cases r)
  then show ?thesis using assms Some by (cases b) (auto simp: authority_advance_showdown_def Let_def)
qed

lemma pushed_id: "st\<lparr>rt_accepted_events := e, rt_timeout_actions := rt_timeout_actions st\<rparr> = st\<lparr>rt_accepted_events := e\<rparr>"
  by (cases st) simp

lemma showdown_step_runs:
  assumes "runtime_ok st" "mh_showdown_progress (table_hand st) \<noteq> None"
  shows "\<exists>e worker st'. actor_advance_showdown (rt_table st) = (Inr e, worker) \<and>
    (case e of None \<Rightarrow> (Inr (), st\<lparr>rt_table := worker\<rparr>)
      | Some event \<Rightarrow> and_then (reschedule_deadline (st\<lparr>rt_table := worker, rt_accepted_events := rt_accepted_events st @ [event]\<rparr>))
          (\<lambda>_. broadcast ReasonActionAccepted (Some event))) = (Inr (), st') \<and>
    runtime_ok st' \<and> authority_advance_showdown (authority_of st) = Some (e, authority_of st')"
proof -
  have alive: "table_alive st" using assms(1) by (simp add: runtime_ok_def)
  obtain e a' m where adv: "authority_advance_showdown (authority_of st) = Some (e, a')" "hand_ok (au_hand a')"
      "same_game (table_hand st) (au_hand a')" "au_table_id a' = rt_table_id st" "au_hand_id a' = rt_hand_id st"
      "au_recorded_commands a' = au_recorded_commands (authority_of st)"
      "case e of None \<Rightarrow> a' = authority_of st
        | Some event \<Rightarrow> au_revision a' = u64_add (au_revision (authority_of st)) 1 \<and> ee_revision event = au_revision a'"
      "actor_advance_showdown (rt_table st) = (Inr e, Some \<lparr>as_authority = a', as_metrics = m\<rparr>)"
    using actor_advances [OF alive] by blast
  show ?thesis
  proof (cases e)
    case None
    have "quiet st (with_worker st a' m)" using adv(7) None by (simp add: quiet_def)
    then have "runtime_ok (with_worker st a' m)"
      using quiet_runtime_ok assms(1) by (simp add: subscribers_within_def)
    then show ?thesis using adv(1,8) None by simp
  next
    case (Some event)
    have "\<exists>b. advance_showdown (table_hand st) = Some (b, au_hand a')"
      by (rule advance_showdown_of [OF adv(1)])
    then have "mh_to_act (au_hand a') = None"
      using paced_showdown_idle [OF _ assms(2)] alive by (auto simp: table_alive_def)
    then have due: "deadline_due (with_worker st a' m)"
    proof -
      have "deadline_ok st" using assms(1) by (simp add: runtime_ok_def)
      then show ?thesis
        using adv(6) \<open>mh_to_act (au_hand a') = None\<close> unfolding deadline_due_def deadline_ok_def by auto
    qed
    have alive': "table_alive (with_worker st a' m)" using adv(2,4,5) by (simp add: table_alive_def)
    have seats: "occupied_seats (table_hand (with_worker st a' m)) = occupied_seats (table_hand st)"
      using adv(3) by (simp add: same_game_def)
    obtain st' where st': "publish ReasonActionAccepted event id (with_worker st a' m) = (Inr (), st')" "runtime_ok st'" "authority_of st' = a'"
      using publish_ok [OF assms(1) refl alive' seats _ _ due, of event ReasonActionAccepted id] adv(7) Some by auto
    have "and_then (reschedule_deadline ((with_worker st a' m)\<lparr>rt_accepted_events := rt_accepted_events st @ [event]\<rparr>))
        (\<lambda>_. broadcast ReasonActionAccepted (Some event)) = (Inr (), st')"
      using publish_pushed [OF alive' due, where event = event and bump = id and reason = ReasonActionAccepted] st'(1) by (simp add: pushed_id)
    then show ?thesis using adv(1,8) Some st'(2,3) by simp
  qed
qed

lemma progress_showdown_moves:
  assumes "runtime_ok st"
  shows "\<exists>st'. progress_showdown now st = (Inr (), st') \<and> (stays st st' \<or> shows_down st now st')"
proof -
  have alive: "table_alive st" using assms by (simp add: runtime_ok_def)
  obtain p w where p: "table_snapshot AudienceSpectator error_authority_failure st = (Inr \<lparr>sn_version = PROTOCOL_VERSION,
      sn_table_id = rt_table_id st, sn_hand_id = rt_hand_id st, sn_revision = au_revision (authority_of st), sn_snapshot = p\<rparr>,
      st\<lparr>rt_table := w\<rparr>)" "project_for (table_hand st) (rt_hand_id st) AudienceSpectator = Some p" "quiet st (st\<lparr>rt_table := w\<rparr>)"
    using table_snapshot_runs [OF alive, of AudienceSpectator error_authority_failure] by (metis admits.simps(2))
  let ?st1 = "st\<lparr>rt_table := w\<rparr>"
  have ok1: "stays st ?st1" by (rule quiet_stays [OF p(3) _ assms]) (simp add: subscribers_within_def)
  have showing: "pj_showdown p = mh_showdown_progress (table_hand st)" by (rule projected_showdown [OF p(2)])
  show ?thesis
  proof (cases "mh_showdown_progress (table_hand st)")
    case None
    then show ?thesis using p(1) showing ok1 by (simp add: progress_showdown_def)
  next
    case (Some pr)
    define due where "due = (case rt_next_showdown_step st of Some due \<Rightarrow> due | None \<Rightarrow> now + SHOWDOWN_STEP_MILLIS)"
    let ?st2 = "?st1\<lparr>rt_next_showdown_step := Some due\<rparr>"
    have ok2: "runtime_ok ?st2" "authority_of ?st2 = authority_of st" using ok1 by (simp_all add: stays_def)
    show ?thesis
    proof (cases "now < due")
      case True
      then have "progress_showdown now st = (Inr (), ?st2)"
        using p(1) showing Some by (simp add: progress_showdown_def due_def Let_def)
      then show ?thesis using ok1 by simp
    next
      case False
      then have step: "rt_next_showdown_step st = Some due" "due \<le> now"
        by (auto simp: due_def SHOWDOWN_STEP_MILLIS_def split: option.splits)
      obtain e worker st' where run: "actor_advance_showdown (rt_table ?st2) = (Inr e, worker)"
          "(case e of None \<Rightarrow> (Inr (), ?st2\<lparr>rt_table := worker\<rparr>)
            | Some event \<Rightarrow> and_then (reschedule_deadline (?st2\<lparr>rt_table := worker, rt_accepted_events := rt_accepted_events ?st2 @ [event]\<rparr>))
                (\<lambda>_. broadcast ReasonActionAccepted (Some event))) = (Inr (), st')"
          "runtime_ok st'" "authority_advance_showdown (authority_of ?st2) = Some (e, authority_of st')"
        using showdown_step_runs [OF ok2(1)] Some ok2(2) by auto
      have "progress_showdown now st = (Inr (), st'\<lparr>rt_next_showdown_step := Some (now + SHOWDOWN_STEP_MILLIS)\<rparr>)"
        using p(1) showing Some False run(1,2)
        by (cases e) (auto simp: progress_showdown_def due_def [symmetric] Let_def)
      moreover have "shows_down st now (st'\<lparr>rt_next_showdown_step := Some (now + SHOWDOWN_STEP_MILLIS)\<rparr>)"
        using step run(3,4) ok2(2) Some by (simp add: shows_down_def)
      ultimately show ?thesis by blast
    qed
  qed
qed

subsection \<open>Turns\<close>

text \<open>What a request may have done to the authority.\<close>

definition request_moves :: "runtime_state \<Rightarrow> runtime_request \<Rightarrow> runtime_state \<Rightarrow> bool" where
  "request_moves st request st' \<longleftrightarrow> (case request of
     RtSubmit session command \<Rightarrow> owns st session (payload_seat (ce_payload command)) \<and> moves st command False st'
   | RtAdvanceTime now_tick \<Rightarrow> times_out st now_tick st'
   | _ \<Rightarrow> False)"

lemma runtime_answer_moves:
  assumes "runtime_ok st" "rt_hand_id st < u64_bound"
  shows "stays st (snd (runtime_answer request st)) \<or> request_moves st request (snd (runtime_answer request st))"
  using assms runtime_submit_moves [OF assms(1)] runtime_advance_time_moves [OF assms]
  by (cases request) (simp_all add: runtime_answer_def request_moves_def stays_refl runtime_bind_stays runtime_snapshot_stays
    runtime_bound_snapshot_stays safe_history_material_stays runtime_subscribe_stays runtime_disconnect_stays
    runtime_reconnect_stays runtime_metrics_stays)

lemma moves_runtime_ok: "moves st command server st' \<Longrightarrow> runtime_ok st'"
  by (simp add: moves_def)

lemma stays_ok: "runtime_ok st \<Longrightarrow> stays st st' \<Longrightarrow> runtime_ok st' \<and> rt_hand_id st' = rt_hand_id st"
  using stays_hand_id [of st st'] by (simp add: stays_def)

lemma request_moves_ok:
  assumes "runtime_ok st" "request_moves st request st'"
  shows "runtime_ok st' \<and> rt_hand_id st' = rt_hand_id st"
proof -
  have "\<exists>command server. moves st command server st'"
    using assms(2) by (auto simp: request_moves_def times_out_def split: runtime_request.splits)
  then show ?thesis using moves_runtime_ok moves_hand_id [OF assms(1)] by blast
qed

lemma shows_down_ok:
  assumes "runtime_ok st" "shows_down st now st'"
  shows "runtime_ok st' \<and> rt_hand_id st' = rt_hand_id st"
proof -
  obtain e where "authority_advance_showdown (authority_of st) = Some (e, authority_of st')" "runtime_ok st'"
    using assms(2) by (auto simp: shows_down_def)
  then show ?thesis using advance_ledger assms(1) by (fastforce simp: runtime_ok_def table_alive_def)
qed

lemma runtime_turn_ok:
  assumes "runtime_ok st" "rt_hand_id st < u64_bound" "request \<noteq> Some RtShutdown"
  shows "\<exists>answer st1 st'. runtime_turn now request st = (answer, Some st') \<and> (stays st st1 \<or> shows_down st now st1) \<and>
    (stays st1 st' \<or> (\<exists>r. request = Some r \<and> request_moves st1 r st')) \<and> runtime_ok st1 \<and> runtime_ok st' \<and>
    rt_hand_id st' = rt_hand_id st"
proof -
  obtain st1 where p: "progress_showdown now st = (Inr (), st1)" "stays st st1 \<or> shows_down st now st1"
    using progress_showdown_moves [OF assms(1)] by blast
  have ok1: "runtime_ok st1" "rt_hand_id st1 = rt_hand_id st"
    using p(2) stays_ok [OF assms(1)] shows_down_ok [OF assms(1)] by blast+
  show ?thesis
  proof (cases request)
    case None
    then show ?thesis using p ok1 stays_refl by (auto simp: runtime_turn_def)
  next
    case (Some r)
    have m: "stays st1 (snd (runtime_answer r st1)) \<or> request_moves st1 r (snd (runtime_answer r st1))"
      using runtime_answer_moves ok1 assms(2) by simp
    have "runtime_turn now request st = (fst (runtime_answer r st1), Some (snd (runtime_answer r st1)))"
      using p(1) Some assms(3) by (cases r) (simp_all add: runtime_turn_def map_prod_def split_beta)
    moreover have "runtime_ok (snd (runtime_answer r st1)) \<and> rt_hand_id (snd (runtime_answer r st1)) = rt_hand_id st"
      using m stays_ok [OF ok1(1)] request_moves_ok [OF ok1(1)] ok1(2) by metis
    ultimately show ?thesis using p(2) ok1(1) m Some by blast
  qed
qed

text \<open>Everything that can happen to a runtime but its shutdown: a turn, or the holder of a subscription.\<close>

datatype table_input = Turn nat "runtime_request option" | Receive guest_session_id | DropReceiver guest_session_id

fun input_step :: "table_input \<Rightarrow> runtime_state \<Rightarrow> runtime_state option" where
  "input_step (Turn now request) st = snd (runtime_turn now request st)"
| "input_step (Receive session) st = Some (snd (subscription_recv session st))"
| "input_step (DropReceiver session) st = Some (subscription_drop session st)"

fun shuts_down :: "table_input \<Rightarrow> bool" where
  "shuts_down (Turn now request) \<longleftrightarrow> request = Some RtShutdown"
| "shuts_down _ \<longleftrightarrow> False"

abbreviation runtime_run :: "table_input list \<Rightarrow> runtime_state \<Rightarrow> runtime_state option" where
  "runtime_run \<equiv> for_m input_step"

lemma same_subscriber_stays:
  assumes "runtime_ok st" "bt_get (rt_subscribers st) session = Some sub"
  shows "stays st (st\<lparr>rt_subscribers := bt_insert session sub' (rt_subscribers st)\<rparr>)"
proof (rule quiet_stays [OF _ _ assms(1)])
  show "quiet st (st\<lparr>rt_subscribers := bt_insert session sub' (rt_subscribers st)\<rparr>)" by (simp add: quiet_def)
  show "subscribers_within st (st\<lparr>rt_subscribers := bt_insert session sub' (rt_subscribers st)\<rparr>)"
    using assms(2) by (simp add: subscribers_within_def bt_sorted_insert bt_get_insert)
qed

lemma subscription_stays:
  assumes "runtime_ok st"
  shows "stays st (snd (subscription_recv session st))" "stays st (subscription_drop session st)"
  using stays_refl [OF assms] same_subscriber_stays [OF assms]
  by (auto simp: subscription_recv_def subscription_drop_def split: option.splits list.splits)

lemma input_step_ok:
  assumes "runtime_ok st" "rt_hand_id st < u64_bound" "\<not> shuts_down i"
  shows "\<exists>st'. input_step i st = Some st' \<and> runtime_ok st' \<and> rt_hand_id st' = rt_hand_id st"
proof (cases i)
  case (Turn now request)
  then show ?thesis using runtime_turn_ok [OF assms(1,2), of request now] assms(3) by auto
qed (use subscription_stays [OF assms(1)] stays_ok [OF assms(1)] in auto)

lemma runtime_run_ok:
  assumes "runtime_ok st" "rt_hand_id st < u64_bound" "\<forall>i\<in>set inputs. \<not> shuts_down i"
  shows "\<exists>st'. runtime_run inputs st = Some st' \<and> runtime_ok st' \<and> rt_hand_id st' = rt_hand_id st"
  using for_m_rule [of "\<lambda>st'. runtime_ok st' \<and> rt_hand_id st' = rt_hand_id st" st inputs input_step] input_step_ok assms by force

lemma runtime_spawn_ok:
  assumes "hand_ok h"
  shows "runtime_ok (runtime_spawn (authority_new table_id hand_id h)) \<and>
    authority_of (runtime_spawn (authority_new table_id hand_id h)) = authority_new table_id hand_id h \<and>
    rt_hand_id (runtime_spawn (authority_new table_id hand_id h)) = hand_id"
proof -
  let ?st = "runtime_initial (authority_new table_id hand_id h)"
  have alive: "table_alive ?st"
    using assms by (simp add: table_alive_def runtime_initial_def actor_spawn_def authority_new_def)
  have "deadline_due ?st" by (simp add: deadline_due_def runtime_initial_def actor_spawn_def authority_new_def)
  then obtain st where st: "reschedule_deadline ?st = (Inr (), st)" "same_table ?st st" "deadline_ok st"
    using reschedule_ok [OF alive] by blast
  have "sessions_ok ?st" by (simp add: sessions_ok_def runtime_initial_def)
  then have "sessions_ok st" by (rule same_table_sessions [OF st(2)])
  moreover have "history_ok st"
    using st(2) by (simp add: history_ok_def same_table_def runtime_initial_def actor_spawn_def authority_new_def)
  moreover have "table_alive st" by (rule same_table_alive [OF st(2) alive])
  ultimately have "runtime_ok st" using st(3) by (simp add: runtime_ok_def)
  then show ?thesis
    using st(1,2) by (simp add: runtime_spawn_def same_table_def runtime_initial_def actor_spawn_def authority_new_def)
qed

end
