(* ===== verification/Protocol_Properties.thy ===== *)
theory Protocol_Properties
  imports Protocol_Facts "HOL-Library.Code_Target_Nat"
begin

text \<open>
  The properties of the protocol: commands take effect at most once, the authority runs the hand engine
  and nothing else, it never panics, and projections are private.
\<close>

section \<open>The authority as a sequence of hand moves\<close>

datatype hand_move = MoveCommand command_payload | MoveAdvance

fun make_move :: "hand_move \<Rightarrow> multiway_hand \<Rightarrow> multiway_hand option" where
  "make_move (MoveCommand payload) h = (case apply_payload h payload of Some (Inr h') \<Rightarrow> Some h' | _ \<Rightarrow> None)"
| "make_move MoveAdvance h = (case advance_showdown h of Some (True, h') \<Rightarrow> Some h' | _ \<Rightarrow> None)"

definition commands_in :: "hand_move list \<Rightarrow> nat" where
  "commands_in moves = length (filter (\<lambda>m. m \<noteq> MoveAdvance) moves)"

lemma advance_showdown_False: "advance_showdown h = Some (False, h') \<Longrightarrow> h' = h"
  by (auto simp: advance_showdown_def Let_def split: option.splits if_splits bind_splits)

lemma submit_moves:
  assumes "submit_from a envelope allow = Some (r, a')"
  shows "(au_hand a' = au_hand a \<and> au_revision a' = au_revision a \<and>
      length (au_recorded_commands a) \<le> length (au_recorded_commands a')) \<or>
    (make_move (MoveCommand (ce_payload envelope)) (au_hand a) = Some (au_hand a') \<and>
      au_revision a' = u64_add (au_revision a) 1 \<and>
      length (au_recorded_commands a') = Suc (length (au_recorded_commands a)))"
    and "length (au_recorded_commands a) \<le> MAX_RECORDED_COMMANDS_PER_HAND \<Longrightarrow>
      length (au_recorded_commands a') \<le> MAX_RECORDED_COMMANDS_PER_HAND"
proof -
  have "((au_hand a' = au_hand a \<and> au_revision a' = au_revision a \<and>
      length (au_recorded_commands a) \<le> length (au_recorded_commands a')) \<or>
    (make_move (MoveCommand (ce_payload envelope)) (au_hand a) = Some (au_hand a') \<and>
      au_revision a' = u64_add (au_revision a) 1 \<and>
      length (au_recorded_commands a') = Suc (length (au_recorded_commands a)))) \<and>
    (length (au_recorded_commands a) \<le> MAX_RECORDED_COMMANDS_PER_HAND \<longrightarrow>
      length (au_recorded_commands a') \<le> MAX_RECORDED_COMMANDS_PER_HAND)"
    using assms
  proof (cases rule: submit_from_cases)
    case (decision outcome b)
    have size: "length (au_recorded_commands a') = Suc (length (au_recorded_commands a))"
      using decision(2,5) decide_outcome_ledger [OF decision(4)] by (simp add: length_bt_insert)
    from decision(4) show ?thesis
    proof (cases rule: decide_outcome_cases)
      case (rejection e)
      then show ?thesis using size decision(3,5) by simp
    next
      case (acceptance event h)
      then show ?thesis using size decision(3,5) by simp
    qed
  qed auto
  then show "(au_hand a' = au_hand a \<and> au_revision a' = au_revision a \<and>
      length (au_recorded_commands a) \<le> length (au_recorded_commands a')) \<or>
    (make_move (MoveCommand (ce_payload envelope)) (au_hand a) = Some (au_hand a') \<and>
      au_revision a' = u64_add (au_revision a) 1 \<and>
      length (au_recorded_commands a') = Suc (length (au_recorded_commands a)))"
    "length (au_recorded_commands a) \<le> MAX_RECORDED_COMMANDS_PER_HAND \<Longrightarrow>
      length (au_recorded_commands a') \<le> MAX_RECORDED_COMMANDS_PER_HAND"
    by simp_all
qed

text \<open>What a sequence of operations has done to the hand it started with.\<close>

definition moved_from :: "multiway_hand \<Rightarrow> protocol_authority \<Rightarrow> hand_move list \<Rightarrow> bool" where
  "moved_from h a moves \<longleftrightarrow> for_m make_move moves h = Some (au_hand a) \<and>
     au_revision a = length moves mod u64_bound \<and> commands_in moves \<le> length (au_recorded_commands a) \<and>
     length (au_recorded_commands a) \<le> MAX_RECORDED_COMMANDS_PER_HAND"

lemma moved_further:
  assumes "moved_from h a moves" "make_move m (au_hand a) = Some (au_hand a')"
    and "au_revision a' = u64_add (au_revision a) 1" "length (au_recorded_commands a') \<le> MAX_RECORDED_COMMANDS_PER_HAND"
    and "length (au_recorded_commands a') = (if m = MoveAdvance then 0 else 1) + length (au_recorded_commands a)"
  shows "moved_from h a' (moves @ [m])"
  using assms
  by (auto simp: moved_from_def commands_in_def for_m_append u64_add_def mod_simps split: if_splits)

lemma step_moves:
  assumes "authority_step op a = Some a'" "moved_from h a moves"
  shows "\<exists>moves'. moved_from h a' moves'"
proof (cases op)
  case (Submit envelope allow)
  then obtain r where r: "submit_from a envelope allow = Some (r, a')" using assms(1) by auto
  note sizes = submit_moves [OF r]
  have "length (au_recorded_commands a') \<le> MAX_RECORDED_COMMANDS_PER_HAND"
    using sizes(2) assms(2) by (simp add: moved_from_def)
  then show ?thesis
    using sizes(1) assms(2) moved_further [OF assms(2), of "MoveCommand (ce_payload envelope)" a']
    by (auto simp: moved_from_def)
next
  case AdvanceShowdown
  then obtain r where r: "authority_advance_showdown a = Some (r, a')" using assms(1) by auto
  then obtain b h' where adv: "advance_showdown (au_hand a) = Some (b, h')"
    by (auto simp: authority_advance_showdown_def split: bind_splits)
  show ?thesis
  proof (cases b)
    case True
    then have "a' = a\<lparr>au_hand := h', au_revision := u64_add (au_revision a) 1\<rparr>"
      using r adv by (simp add: authority_advance_showdown_def Let_def)
    then show ?thesis
      using moved_further [OF assms(2), of MoveAdvance a'] adv True assms(2) by (auto simp: moved_from_def)
  next
    case False
    then have "a' = a"
      using r adv advance_showdown_False by (auto simp: authority_advance_showdown_def Let_def)
    then show ?thesis using assms(2) by blast
  qed
qed


definition sample_authority :: protocol_authority where
  "sample_authority = authority_new 7 1 sample_hand"

definition sample_call :: command_envelope where
  "sample_call = act_for_hand ''call-1'' 7 1 0 0 (Call 200)"

definition sample_stale :: command_envelope where
  "sample_stale = act_for_hand ''call-2'' 7 1 0 1 (Call 100)"

definition after_call :: "(submission_receipt \<times> protocol_authority) option" where
  "after_call = submit_from sample_authority sample_call False"

lemma sample_call_accepted:
  "map_option (\<lambda>(r, a). (ak_result (sr_acknowledgement r), au_revision a, length (au_recorded_commands a))) after_call
    = Some (AckAccepted, 1, 1)"
  by code_simp


section \<open>At most once\<close>

text \<open>
  C20: a submission that entered the ledger takes effect exactly once: after any further operations of any
  kind, submitting the same envelope again returns the outcome of the first time, marked as a replay, and
  changes nothing.
\<close>

theorem submission_takes_effect_once:
  assumes "submit_from a envelope allow = Some (r, a')"
    and "recorded_command_count a < recorded_command_count a'"
    and "for_m authority_step ops a' = Some a''"
  shows "\<exists>r'. submit_from a'' envelope allow = Some (r', a'') \<and> sr_outcome r' = sr_outcome r \<and>
    ak_delivery (sr_acknowledgement r') = Replayed \<and> ak_revision (sr_acknowledgement r') = outcome_revision (sr_outcome r)"
  using assms(1)
proof (cases rule: submit_from_cases)
  case (decision outcome b)
  let ?recorded = "\<lparr>rc_fingerprint = fingerprint_of envelope, rc_outcome = outcome\<rparr>"
  have "ledger_entry a' (ce_command_id envelope) = Some ?recorded"
    using decision(5) by (simp add: ledger_entry_def bt_get_insert)
  then have "ledger_entry a'' (ce_command_id envelope) = Some ?recorded"
    using ledger.all_keep [OF assms(3)] by simp
  moreover have "well_addressed a'' envelope allow"
    using decision(1) authority_run_addresses [OF assms(3)] submit_ledger [OF assms(1)]
    by (simp add: well_addressed_def)
  ultimately have "submit_from a'' envelope allow = Some (authority_receipt a'' outcome Replayed, a'')"
    using submit_from_known [of a'' envelope allow ?recorded] by (simp add: ledger_entry_def)
  then show ?thesis using decision(6) by (simp add: authority_receipt_def)
qed (use assms(2) in \<open>simp_all add: recorded_command_count_def\<close>)

theorem submission_takes_effect_once_witness:
  "\<exists>r a r'. after_call = Some (r, a) \<and> submit_from a sample_call False = Some (r', a) \<and> sr_outcome r' = sr_outcome r"
proof -
  obtain r a where after: "after_call = Some (r, a)" "length (au_recorded_commands a) = 1"
    using sample_call_accepted by auto
  then have "recorded_command_count sample_authority < recorded_command_count a"
    by (simp add: recorded_command_count_def sample_authority_def authority_new_def)
  from submission_takes_effect_once [OF after(1) [unfolded after_call_def] this, of "[]" a] after(1) show ?thesis
    by auto
qed

section \<open>No panic, and no leak\<close>

text \<open>
  On a hand that satisfies the invariant no submission and no advance of the showdown panics: the hand
  satisfies the invariant again with the same chips, cards and players, and a snapshot can be taken for every
  audience, refused only for a player without a seat.
\<close>

theorem authority_never_panics:
  assumes "hand_ok (au_hand a)"
  shows "\<exists>a'. authority_step op a = Some a' \<and> hand_ok (au_hand a') \<and> same_game (au_hand a) (au_hand a') \<and>
    authority_snapshot a' audience \<noteq> None \<and>
    (\<forall>e. authority_snapshot a' audience = Some (Inl e) \<longrightarrow>
       (\<exists>s. audience = AudiencePlayer s \<and> s \<notin> set (occupied_seats (au_hand a)) \<and> e = PlayerSeatNotOccupied s))"
proof -
  obtain a' where a': "authority_step op a = Some a'" "hand_ok (au_hand a')" "same_game (au_hand a) (au_hand a')"
    using authority_step_returns [OF assms] by blast
  have "authority_snapshot a' audience \<noteq> None"
    using project_hand_returns [of "au_hand a'" "au_hand_id a'" audience] by (auto simp: authority_snapshot_def)
  moreover have "occupied_seats (au_hand a') = occupied_seats (au_hand a)" using a'(3) by (simp add: same_game_def)
  ultimately show ?thesis
    using a' project_hand_returns [of "au_hand a'" "au_hand_id a'" audience]
    by (auto simp: authority_snapshot_cases(1))
qed

theorem authority_never_panics_witness:
  "\<exists>a'. authority_step (Submit sample_call False) sample_authority = Some a' \<and> hand_ok (au_hand a')"
proof -
  have "hand_ok (au_hand sample_authority)"
    using sample_hand_betting by (simp add: sample_authority_def authority_new_def hand_ok_def)
  from authority_never_panics [OF this, of "Submit sample_call False" AudienceSpectator] show ?thesis by blast
qed

text \<open>
  C21: a projection is private: replacing the hole cards of every seat that is neither the audience's own nor
  shown, the deck, the stored evaluations and the showdown preferences of the other seats by anything else
  leaves what the audience is sent exactly as it is.
\<close>

theorem projection_is_private:
  "authority_snapshot (a\<lparr>au_hand := other_secrets audience holes d evals shows (au_hand a)\<rparr>) audience
    = authority_snapshot a audience"
  by (simp add: authority_snapshot_def project_hand_secrets cong: sum.case_cong)

text \<open>
  While a hand is bet, every projection accounts for every chip: its pot total and the stacks it shows add
  up to the chips the hand was started with, without wrapping.
\<close>

theorem projection_accounts_for_chips:
  assumes "betting_ok (au_hand a)" "authority_snapshot a audience = Some (Inr sn)"
  shows "pj_pot_total (sn_snapshot sn) + sum_list (map ps_stack (pj_seats (sn_snapshot sn))) = mh_initial_total (au_hand a) \<and>
    map ps_seat (pj_seats (sn_snapshot sn)) = occupied_seats (au_hand a)"
proof -
  have "project_hand (au_hand a) (au_hand_id a) audience = Some (Inr (sn_snapshot sn))"
    by (rule authority_snapshot_cases(2) [OF assms(2)])
  then have project: "project_for (au_hand a) (au_hand_id a) audience = Some (sn_snapshot sn)"
    by (auto simp: project_hand_def split: projection_audience.splits if_splits)
  have money: "money_ok (au_hand a)" using assms(1) by (simp add: betting_ok_def mid_ok_def)
  have "pj_pot_total (sn_snapshot sn) = seat_total ms_hand_contribution (au_hand a)"
    using projected_pot [OF project] assms(1) pot_total_betting by (simp add: betting_ok_def mid_ok_def)
  then show ?thesis
    using projected_stacks [OF project] money by (simp add: money_ok_def seat_total_def)
qed

theorem projection_accounts_for_chips_witness:
  "\<exists>sn. authority_snapshot sample_authority AudienceSpectator = Some (Inr sn) \<and>
     pj_pot_total (sn_snapshot sn) + sum_list (map ps_stack (pj_seats (sn_snapshot sn))) = 2600"
proof -
  have ok: "betting_ok (au_hand sample_authority)"
    using sample_hand_betting by (simp add: sample_authority_def authority_new_def)
  have total: "mh_initial_total (au_hand sample_authority) = 2600" by code_simp
  obtain p where "project_for (au_hand sample_authority) (au_hand_id sample_authority) AudienceSpectator = Some p"
    using project_for_returns [of AudienceSpectator] by blast
  then obtain sn where "authority_snapshot sample_authority AudienceSpectator = Some (Inr sn)"
    by (simp add: authority_snapshot_def project_hand_def)
  with projection_accounts_for_chips [OF ok this] total show ?thesis by simp
qed

text \<open>
  The message of an error that the authority reports is at most 160 bytes long, a prefix of the text it was
  given, and never cut inside a UTF-8 character.
\<close>

theorem public_messages_bounded:
  "length (pe_message (er_error (authority_error a command_id code message))) \<le> 160 \<and>
   (\<exists>rest. message = pe_message (er_error (authority_error a command_id code message)) @ rest) \<and>
   is_char_boundary message (length (pe_message (er_error (authority_error a command_id code message))))"
  using bounded_public_message_facts [of message] by (simp add: authority_error_def)

end
