(* ===== verification/Authorized_Samples.thy ===== *)
theory Authorized_Samples
  imports Authorized_Runs Protocol_Properties
begin

text \<open>
  Reachable runtimes, and two of them: a table with a bound session, and one whose ledger a session has filled.
\<close>

subsection \<open>Reachable runtimes\<close>

definition reachable_table :: "runtime_state \<Rightarrow> bool" where
  "reachable_table st \<longleftrightarrow> (\<exists>table_id hand_id h inputs. hand_ok h \<and> hand_id < u64_bound \<and>
     (\<forall>i\<in>set inputs. \<not> shuts_down i) \<and>
     runtime_run inputs (runtime_spawn (authority_new table_id hand_id h)) = Some st)"

lemma reachableI:
  assumes "runtime_run inputs (runtime_spawn (authority_new table_id hand_id h)) = Some st" "hand_ok h"
    and "hand_id < 18446744073709551616" "\<forall>i\<in>set inputs. \<not> shuts_down i"
  shows "reachable_table st"
  using assms unfolding reachable_table_def u64_bound_def by blast

lemma reachable_table_ok:
  assumes "reachable_table st"
  shows "runtime_ok st" "rt_hand_id st < u64_bound"
proof -
  obtain table_id hand_id h inputs where r: "hand_ok h" "hand_id < u64_bound" "\<forall>i\<in>set inputs. \<not> shuts_down i"
      "runtime_run inputs (runtime_spawn (authority_new table_id hand_id h)) = Some st"
    using assms by (auto simp: reachable_table_def)
  have "runtime_ok st \<and> rt_hand_id st = hand_id"
    using runtime_run_ok [of "runtime_spawn (authority_new table_id hand_id h)" inputs] runtime_spawn_ok [OF r(1), of table_id hand_id] r(2-4)
    by auto
  then show "runtime_ok st" "rt_hand_id st < u64_bound" using r(2) by simp_all
qed

lemma reachable_step:
  assumes "reachable_table st" "input_step i st = Some st'" "\<not> shuts_down i"
  shows "reachable_table st'"
proof -
  obtain table_id hand_id h inputs where "hand_ok h" "hand_id < u64_bound" "\<forall>i\<in>set inputs. \<not> shuts_down i"
      "runtime_run inputs (runtime_spawn (authority_new table_id hand_id h)) = Some st"
    using assms(1) by (auto simp: reachable_table_def)
  then show ?thesis
    using assms(2,3) unfolding reachable_table_def
    by (intro exI [of _ table_id] exI [of _ hand_id] exI [of _ h] exI [of _ "inputs @ [i]"]) (simp add: for_m_append)
qed

subsection \<open>A table with a bound session\<close>

definition sample_table :: runtime_state where
  "sample_table = runtime_spawn sample_authority"

definition sample_bind :: table_input where
  "sample_bind = Turn 0 (Some (RtBind ''p'' 7 1 (RolePlayer 0)))"

definition bound_table :: runtime_state where
  "bound_table = the (input_step sample_bind sample_table)"

lemma bound_table_facts:
  "input_step sample_bind sample_table \<noteq> None \<and>
   bt_get (rt_sessions bound_table) ''p'' = Some \<lparr>sb_role = RolePlayer 0, sb_connected = True\<rparr> \<and>
   au_recorded_commands (authority_of bound_table) = [] \<and> au_revision (authority_of bound_table) = 0 \<and>
   au_table_id (authority_of bound_table) = 7 \<and> au_hand_id (authority_of bound_table) = 1 \<and>
   rt_deadline bound_table = Some \<lparr>dl_seat = 0, dl_warning_tick = 50, dl_due_tick = 60,
     dl_warning_emitted = False, dl_generation = 1\<rparr> \<and> rt_now_tick bound_table = 0"
  by code_simp

lemma sample_authority_hand: "sample_authority = authority_new 7 1 sample_hand" "hand_ok sample_hand"
  using sample_hand_betting by (simp_all add: sample_authority_def hand_ok_def)

lemma sample_spawn:
  "runtime_ok (runtime_spawn sample_authority)" "authority_of (runtime_spawn sample_authority) = sample_authority"
  "au_hand sample_authority = sample_hand"
  using runtime_spawn_ok [OF sample_authority_hand(2), of 7 1]
  by (simp_all only: sample_authority_hand(1)) (simp add: authority_new_def)

lemma bound_table_run: "runtime_run [sample_bind] (runtime_spawn (authority_new 7 1 sample_hand)) = Some bound_table"
  using bound_table_facts by (auto simp: bound_table_def sample_table_def sample_authority_hand(1))

lemma bound_table_reachable: "reachable_table bound_table"
  unfolding reachable_table_def using bound_table_run sample_authority_hand(2)
  by (intro exI [of _ 7] exI [of _ 1] exI [of _ sample_hand] exI [of _ "[sample_bind]"])
    (simp add: sample_bind_def u64_bound_def)

lemma owner_calls:
  "mh_to_act (table_hand (snd (runtime_answer (RtSubmit ''p'' sample_call) bound_table))) = Some 1 \<and>
   mh_to_act (table_hand bound_table) = Some 0"
  by code_simp

subsection \<open>A flood of stale commands\<close>

text \<open>
  The session of seat 0 sends commands with a revision of the past and a fresh id each: every one is rejected,
  and every one takes an entry of the ledger.
\<close>

lemma progress_idle:
  assumes "runtime_ok st" "mh_showdown_progress (table_hand st) = None"
  shows "\<exists>w. progress_showdown now st = (Inr (), st\<lparr>rt_table := w, rt_next_showdown_step := None\<rparr>) \<and>
    quiet st (st\<lparr>rt_table := w\<rparr>)"
proof -
  have alive: "table_alive st" using assms(1) by (simp add: runtime_ok_def)
  obtain p w where p: "table_snapshot AudienceSpectator error_authority_failure st = (Inr \<lparr>sn_version = PROTOCOL_VERSION,
      sn_table_id = rt_table_id st, sn_hand_id = rt_hand_id st, sn_revision = au_revision (authority_of st), sn_snapshot = p\<rparr>,
      st\<lparr>rt_table := w\<rparr>)" "project_for (table_hand st) (rt_hand_id st) AudienceSpectator = Some p" "quiet st (st\<lparr>rt_table := w\<rparr>)"
    using table_snapshot_runs [OF alive, of AudienceSpectator error_authority_failure] by (metis admits.simps(2))
  then show ?thesis using projected_showdown [OF p(2)] assms(2) by (auto simp: progress_showdown_def)
qed

definition stale_id :: "nat \<Rightarrow> string" where
  "stale_id n = ''c'' @ show_nat n"

definition stale_command :: "nat \<Rightarrow> command_envelope" where
  "stale_command n = act_for_hand (stale_id n) 7 1 1000 0 Check"

lemma stale_id_inject: "stale_id m = stale_id n \<longleftrightarrow> m = n"
  by (simp add: stale_id_def show_nat_inject)

lemma stale_id_valid:
  assumes "n < 1000"
  shows "valid_command_id (stale_id n)" "\<not> reserved_server_command_id (stale_id n)"
proof -
  have "length (show_nat n) \<le> 3" by (rule length_show_nat) (use assms in simp_all)
  moreover have "ascii_alphanumeric c" if "c \<in> set (show_nat n)" for c using that by (rule digits_are_safe)
  ultimately show "valid_command_id (stale_id n)"
    by (auto simp: valid_command_id_def stale_id_def MAX_COMMAND_ID_BYTES_def list_all_iff ascii_alphanumeric_def)
  show "\<not> reserved_server_command_id (stale_id n)" by (simp add: reserved_server_command_id_def stale_id_def)
qed

definition flooded :: "nat \<Rightarrow> runtime_state \<Rightarrow> bool" where
  "flooded n st \<longleftrightarrow> reachable_table st \<and> bt_get (rt_sessions st) ''p'' = Some \<lparr>sb_role = RolePlayer 0, sb_connected = True\<rparr> \<and>
     table_hand st = sample_hand \<and> au_revision (authority_of st) = 0 \<and>
     au_table_id (authority_of st) = 7 \<and> au_hand_id (authority_of st) = 1 \<and>
     length (au_recorded_commands (authority_of st)) = n \<and>
     fst ` set (au_recorded_commands (authority_of st)) = stale_id ` {..<n}"

lemma stale_submission:
  assumes "flooded n st" "n < MAX_RECORDED_COMMANDS_PER_HAND"
  shows "\<exists>r a'. submit_from (authority_of st) (stale_command n) False = Some (r, a') \<and> \<not> processed_accepted r \<and>
    au_hand a' = sample_hand \<and> au_revision a' = 0 \<and> au_table_id a' = 7 \<and> au_hand_id a' = 1 \<and>
    length (au_recorded_commands a') = Suc n \<and> fst ` set (au_recorded_commands a') = stale_id ` {..<Suc n}"
proof -
  let ?a = "authority_of st"
  have valid: "valid_command_id (stale_id n)" "\<not> reserved_server_command_id (stale_id n)"
    using stale_id_valid [of n] assms(2) by (simp_all add: MAX_RECORDED_COMMANDS_PER_HAND_def)
  have "stale_id n \<notin> stale_id ` {..<n}" by (auto simp: stale_id_inject)
  then have fresh: "bt_get (au_recorded_commands ?a) (stale_id n) = None"
    using assms(1) by (simp add: flooded_def bt_get_None)
  obtain e where e: "decide_outcome ?a (stale_command n) (Some (stale_id n)) = Some (Rejected e, ?a)"
    using assms(1) by (simp add: decide_outcome_def flooded_def stale_command_def act_for_hand_def)
  let ?m = "\<lambda>v. bt_insert (stale_id n) v (au_recorded_commands ?a)"
  have size: "length (?m v) = Suc n" and keys: "fst ` set (?m v) = stale_id ` {..<Suc n}" for v
    using length_bt_insert [OF fresh, of v] set_keys_bt_insert [of "stale_id n" v "au_recorded_commands ?a"] assms(1)
    by (auto simp: flooded_def lessThan_Suc)
  show ?thesis
    using assms fresh valid e size keys
    by (simp add: submit_from_def flooded_def stale_command_def act_for_hand_def Let_def authority_receipt_def processed_accepted_def)
qed

lemma flood_step:
  assumes "flooded n st" "n < MAX_RECORDED_COMMANDS_PER_HAND"
  shows "\<exists>st'. input_step (Turn 0 (Some (RtSubmit ''p'' (stale_command n)))) st = Some st' \<and> flooded (Suc n) st'"
proof -
  have reach: "reachable_table st" using assms(1) by (simp add: flooded_def)
  note ok = reachable_table_ok [OF reach]
  have idle: "mh_showdown_progress (table_hand st) = None"
    using assms(1) sample_hand_betting by (simp add: flooded_def betting_ok_def mid_ok_def before_showdown_def)
  obtain w where w: "progress_showdown 0 st = (Inr (), st\<lparr>rt_table := w, rt_next_showdown_step := None\<rparr>)" "quiet st (st\<lparr>rt_table := w\<rparr>)"
    using progress_idle [OF ok(1) idle] by blast
  let ?st1 = "st\<lparr>rt_table := w, rt_next_showdown_step := None\<rparr>"
  have alive: "table_alive st" using ok(1) by (simp add: runtime_ok_def)
  have stays1: "stays st ?st1" using quiet_stays [OF w(2) _ ok(1)] by (simp add: subscribers_within_def)
  have same: "authority_of ?st1 = authority_of st" and alive1: "table_alive ?st1"
    using stays1 by (simp_all add: stays_def runtime_ok_def)
  have session: "connected_binding ''p'' ?st1 = (Inr \<lparr>sb_role = RolePlayer 0, sb_connected = True\<rparr>, ?st1)"
    using assms(1) by (simp add: flooded_def connected_binding_def)
  have seat: "admits (AudiencePlayer 0) (table_hand ?st1)"
    using binding_admits [of st "''p''" "\<lparr>sb_role = RolePlayer 0, sb_connected = True\<rparr>"] assms(1) sessions_players ok(1) same
    by (simp add: flooded_def runtime_ok_def)
  obtain r a' where r: "submit_from (authority_of ?st1) (stale_command n) False = Some (r, a')" "\<not> processed_accepted r"
      "au_hand a' = sample_hand" "au_revision a' = 0" "au_table_id a' = 7" "au_hand_id a' = 1"
      "length (au_recorded_commands a') = Suc n" "fst ` set (au_recorded_commands a') = stale_id ` {..<Suc n}"
    using stale_submission [OF assms] same by auto
  obtain m sn where t: "table_submit (stale_command n) (AudiencePlayer 0) False ?st1
      = (Inr \<lparr>ar_receipt = r, ar_snapshot = sn\<rparr>, with_worker ?st1 a' m)"
    using table_submit_runs [OF alive1 seat, of "stale_command n" False] unfolding r(1) by force
  have ids: "rt_table_id st = 7" "rt_hand_id st = 1" using alive assms(1) by (auto simp: table_alive_def flooded_def)
  have "snd (runtime_submit ''p'' (stale_command n) ?st1) = with_worker ?st1 a' m"
    using session t r(2) ids by (simp add: runtime_submit_def stale_command_def act_for_hand_def)
  then have step: "input_step (Turn 0 (Some (RtSubmit ''p'' (stale_command n)))) st = Some (with_worker ?st1 a' m)"
    using w(1) by (simp add: runtime_turn_def runtime_answer_def map_prod_def split_beta)
  have "reachable_table (with_worker ?st1 a' m)" by (rule reachable_step [OF reach step]) simp
  then have "flooded (Suc n) (with_worker ?st1 a' m)" using r(3-8) assms(1) by (simp add: flooded_def)
  then show ?thesis using step by blast
qed

lemma flood:
  assumes "n \<le> MAX_RECORDED_COMMANDS_PER_HAND"
  shows "\<exists>st. runtime_run (map (\<lambda>i. Turn 0 (Some (RtSubmit ''p'' (stale_command i)))) [0..<n]) bound_table = Some st \<and> flooded n st"
  using assms
proof (induction n)
  case 0
  have hand: "mh_showdown_progress (table_hand (runtime_spawn sample_authority)) = None"
    using sample_hand_betting by (simp add: sample_spawn betting_ok_def mid_ok_def before_showdown_def)
  obtain w where w: "progress_showdown 0 (runtime_spawn sample_authority)
      = (Inr (), (runtime_spawn sample_authority)\<lparr>rt_table := w, rt_next_showdown_step := None\<rparr>)"
      "quiet (runtime_spawn sample_authority) ((runtime_spawn sample_authority)\<lparr>rt_table := w\<rparr>)"
    using progress_idle [OF sample_spawn(1) hand] by blast
  let ?st = "(runtime_spawn sample_authority)\<lparr>rt_table := w, rt_next_showdown_step := None\<rparr>"
  have st: "stays (runtime_spawn sample_authority) ?st"
    using quiet_stays [OF w(2) _ sample_spawn(1)] by (simp add: subscribers_within_def)
  have "bound_table = snd (runtime_bind ''p'' 7 1 (RolePlayer 0) ?st)"
    using w(1) by (simp add: bound_table_def sample_bind_def sample_table_def runtime_turn_def runtime_answer_def map_prod_def split_beta)
  moreover have "stays ?st (snd (runtime_bind ''p'' 7 1 (RolePlayer 0) ?st))"
    using st by (intro runtime_bind_stays) (simp add: stays_def)
  ultimately have "stays (runtime_spawn sample_authority) bound_table" using stays_trans [OF st] by simp
  then have "table_hand bound_table = sample_hand" by (simp add: stays_def sample_spawn)
  then show ?case using bound_table_facts bound_table_reachable by (simp add: flooded_def)
next
  case (Suc n)
  then obtain st where "runtime_run (map (\<lambda>i. Turn 0 (Some (RtSubmit ''p'' (stale_command i)))) [0..<n]) bound_table = Some st"
      "flooded n st" by auto
  then show ?case using flood_step [of n st] Suc.prems by (auto simp: for_m_append)
qed

end
