(* ===== verification/Authorized_Properties.thy ===== *)
theory Authorized_Properties
  imports Authorized_Samples
begin

text \<open>
  The properties of the authorized table: it serves every sequence of requests, a seat is played by its owner
  or by the clock alone, the clock plays a late seat, and a full command ledger stops the clock.
\<close>

subsection \<open>The hand moves by its owner or by the clock\<close>

lemma moves_hand:
  assumes "moves st command server st'" "table_hand st' \<noteq> table_hand st"
  shows "apply_payload (table_hand st) (ce_payload command) = Some (Inr (table_hand st'))"
proof -
  obtain r where "submit_from (authority_of st) command server = Some (r, authority_of st')"
    using assms(1) by (auto simp: moves_def)
  from submit_moves(1) [OF this] assms(2) show ?thesis by (auto split: option.splits sum.splits)
qed

text \<open>
  C22: on a table that has served any sequence of requests, a request changes the hand in two ways only. It is a
  command of a connected session that is bound to the very seat the command names, and the hand becomes what the
  hand engine makes of the command; or it is an advance of the clock to or past the deadline of the seat to act,
  and the hand becomes what the engine makes of that seat's check or fold.
\<close>

theorem only_the_owner_moves_the_hand:
  assumes "runtime_run inputs (runtime_spawn (authority_new table_id hand_id h)) = Some st" "hand_ok h"
    and "hand_id < 18446744073709551616" "\<forall>i\<in>set inputs. \<not> shuts_down i"
    and "runtime_answer request st = (answer, st')" "table_hand st' \<noteq> table_hand st"
  shows "case request of
      RtSubmit session command \<Rightarrow> (\<exists>b. bt_get (rt_sessions st) session = Some b \<and> sb_connected b \<and>
          sb_role b = RolePlayer (payload_seat (ce_payload command))) \<and>
        apply_payload (table_hand st) (ce_payload command) = Some (Inr (table_hand st'))
    | RtAdvanceTime now_tick \<Rightarrow> (\<exists>d a. rt_deadline st = Some d \<and> dl_due_tick d \<le> now_tick \<and>
          mh_to_act (table_hand st) = Some (dl_seat d) \<and> a \<in> {Check, ActFold} \<and>
          apply_command (table_hand st) (seat_command_new (dl_seat d) a) = Some (Inr (table_hand st')))
    | _ \<Rightarrow> False"
proof -
  have "reachable_table st" by (rule reachableI [OF assms(1-4)])
  note ok = reachable_table_ok [OF this]
  have "\<not> stays st st'" using assms(6) by (auto simp: stays_def)
  then have m: "request_moves st request st'"
    using runtime_answer_moves [OF ok, of request] assms(5) by simp
  show ?thesis
  proof (cases request)
    case (RtSubmit session command)
    then show ?thesis using m moves_hand assms(6) by (auto simp: request_moves_def owns_def)
  next
    case (RtAdvanceTime now_tick)
    then obtain d a command where d: "rt_deadline st = Some d" "dl_due_tick d \<le> now_tick" "a \<in> {Check, ActFold}"
        "ce_payload command = Act (dl_seat d) a" "moves st command True st'"
      using m by (auto simp: request_moves_def times_out_def)
    have "mh_to_act (table_hand st) = Some (dl_seat d)"
      using ok(1) d(1) by (auto simp: runtime_ok_def deadline_ok_def)
    moreover have "apply_command (table_hand st) (seat_command_new (dl_seat d) a) = Some (Inr (table_hand st'))"
      using moves_hand [OF d(5) assms(6)] d(4) by (simp add: apply_payload_def)
    ultimately show ?thesis using RtAdvanceTime d(1-3) by auto
  qed (use m in \<open>simp_all add: request_moves_def\<close>)
qed

theorem only_the_owner_moves_the_hand_witness:
  "\<exists>b. bt_get (rt_sessions bound_table) ''p'' = Some b \<and> sb_role b = RolePlayer (payload_seat (ce_payload sample_call)) \<and>
     apply_payload (table_hand bound_table) (ce_payload sample_call)
       = Some (Inr (table_hand (snd (runtime_answer (RtSubmit ''p'' sample_call) bound_table))))"
proof -
  have "table_hand (snd (runtime_answer (RtSubmit ''p'' sample_call) bound_table)) \<noteq> table_hand bound_table"
  proof
    assume "table_hand (snd (runtime_answer (RtSubmit ''p'' sample_call) bound_table)) = table_hand bound_table"
    then show False using owner_calls by auto
  qed
  then show ?thesis
    using only_the_owner_moves_the_hand [OF bound_table_run sample_authority_hand(2), of "RtSubmit ''p'' sample_call"
      "fst (runtime_answer (RtSubmit ''p'' sample_call) bound_table)" "snd (runtime_answer (RtSubmit ''p'' sample_call) bound_table)"]
    by (auto simp: sample_bind_def)
qed

subsection \<open>The table serves every request\<close>

text \<open>
  C23: a spawned table serves any sequence of requests, clock turns and subscription reads short of its shutdown
  without stopping: afterwards its worker is alive, no two sessions own one seat, only connected sessions are
  subscribed, the deadline names exactly the seat to act, and the accepted events are numbered 1, 2, 3, ... up to
  the revision of the authority.
\<close>

theorem table_serves_every_request:
  assumes "hand_ok h" "hand_id < 18446744073709551616" "\<forall>i\<in>set inputs. \<not> shuts_down i"
  shows "\<exists>st. runtime_run inputs (runtime_spawn (authority_new table_id hand_id h)) = Some st \<and> rt_table st \<noteq> None \<and>
    (\<forall>i j b c s. bt_get (rt_sessions st) i = Some b \<and> bt_get (rt_sessions st) j = Some c \<and>
       sb_role b = RolePlayer s \<and> sb_role c = RolePlayer s \<longrightarrow> i = j) \<and>
    (\<forall>i sub. bt_get (rt_subscribers st) i = Some sub \<longrightarrow> (\<exists>b. bt_get (rt_sessions st) i = Some b \<and> sb_connected b)) \<and>
    map_option dl_seat (rt_deadline st) = mh_to_act (table_hand st) \<and>
    map ee_revision (rt_accepted_events st) = map (\<lambda>i. (i + 1) mod 18446744073709551616) [0..<length (rt_accepted_events st)] \<and>
    au_revision (authority_of st) = length (rt_accepted_events st) mod 18446744073709551616"
proof -
  note spawn = runtime_spawn_ok [OF assms(1), of table_id hand_id]
  obtain st where st: "runtime_run inputs (runtime_spawn (authority_new table_id hand_id h)) = Some st" "runtime_ok st"
    using runtime_run_ok [of "runtime_spawn (authority_new table_id hand_id h)" inputs] spawn assms(2,3) by (auto simp: u64_bound_def)
  have "rt_table st \<noteq> None" "map_option dl_seat (rt_deadline st) = mh_to_act (table_hand st)"
      "map ee_revision (rt_accepted_events st) = map (\<lambda>i. (i + 1) mod 18446744073709551616) [0..<length (rt_accepted_events st)]"
      "au_revision (authority_of st) = length (rt_accepted_events st) mod 18446744073709551616"
    using st(2) by (simp_all add: runtime_ok_def table_alive_def deadline_ok_def history_ok_def u64_bound_def)
  moreover have "sessions_ok st" using st(2) by (simp add: runtime_ok_def)
  then have "\<forall>i j b c s. bt_get (rt_sessions st) i = Some b \<and> bt_get (rt_sessions st) j = Some c \<and>
       sb_role b = RolePlayer s \<and> sb_role c = RolePlayer s \<longrightarrow> i = j"
    "\<forall>i sub. bt_get (rt_subscribers st) i = Some sub \<longrightarrow> (\<exists>b. bt_get (rt_sessions st) i = Some b \<and> sb_connected b)"
    unfolding sessions_ok_def by blast+
  ultimately show ?thesis using st(1) by blast
qed

definition sample_inputs :: "table_input list" where
  "sample_inputs = [sample_bind, Turn 5 (Some (RtSubscribe ''p'')), Turn 9 (Some (RtSubmit ''p'' sample_call)),
     Receive ''p'', DropReceiver ''p'', Turn 12 (Some (RtAdvanceTime 60)), Turn 20 (Some (RtDisconnect ''p''))]"

theorem table_serves_every_request_witness:
  "\<exists>st. runtime_run sample_inputs (runtime_spawn (authority_new 7 1 sample_hand)) = Some st \<and>
     map_option dl_seat (rt_deadline st) = mh_to_act (table_hand st)"
proof -
  have "\<forall>i\<in>set sample_inputs. \<not> shuts_down i" by (simp add: sample_inputs_def sample_bind_def)
  from table_serves_every_request [OF sample_authority_hand(2) _ this, of 1 7] show ?thesis by auto
qed

subsection \<open>Timeouts\<close>

text \<open>
  C24: when the clock of a reachable table is advanced to or past the deadline and fewer than 256 commands are
  recorded, the late seat is played: it checks when its legal actions allow that and folds otherwise, the hand
  becomes what the engine makes of it, the event is appended to the history, and the deadline is that of the
  seat to act next.
\<close>

theorem clock_plays_the_late_seat:
  assumes "runtime_run inputs (runtime_spawn (authority_new table_id hand_id h)) = Some st" "hand_ok h"
    and "hand_id < 18446744073709551616" "\<forall>i\<in>set inputs. \<not> shuts_down i"
    and "rt_deadline st = Some d" "rt_now_tick st \<le> now_tick" "dl_due_tick d \<le> now_tick"
    and "recorded_command_count (authority_of st) < 256"
  shows "\<exists>tick st' legal event a. runtime_advance_time now_tick st = (Inr tick, st') \<and>
    legal_actions_for (table_hand st) (dl_seat d) = Some (Some legal) \<and>
    a = (if la_can_check legal then Check else ActFold) \<and> tk_timeout_action tick = Some a \<and>
    apply_command (table_hand st) (seat_command_new (dl_seat d) a) = Some (Inr (table_hand st')) \<and>
    rt_now_tick st' = now_tick \<and> tk_timeout_event tick = Some event \<and>
    rt_accepted_events st' = rt_accepted_events st @ [event] \<and>
    map_option dl_seat (rt_deadline st') = mh_to_act (table_hand st')"
proof -
  have "reachable_table st" by (rule reachableI [OF assms(1-4)])
  note ok = reachable_table_ok [OF this]
  let ?st = "st\<lparr>rt_now_tick := now_tick\<rparr>"
  have now: "runtime_ok ?st" "rt_deadline ?st = Some d" "rt_hand_id ?st < u64_bound"
      "length (au_recorded_commands (authority_of ?st)) < MAX_RECORDED_COMMANDS_PER_HAND"
    using ok assms(5,8) by (simp_all add: recorded_command_count_def MAX_RECORDED_COMMANDS_PER_HAND_def)
  have run: "runtime_advance_time now_tick st = expire_deadline d ?st"
    using assms(5-7) by (simp add: runtime_advance_time_def Let_def)
  obtain st' a and legal :: legal_actions and event where e:
      "expire_deadline d ?st = (Inr (runtime_tick_result False (Some event) (Some a) st'), st')"
      "legal_actions_for (table_hand ?st) (dl_seat d) = Some (Some legal)" "a = (if la_can_check legal then Check else ActFold)"
      "apply_command (table_hand ?st) (seat_command_new (dl_seat d) a) = Some (Inr (table_hand st'))"
      "runtime_ok st'" "rt_now_tick st' = rt_now_tick ?st" "rt_accepted_events st' = rt_accepted_events ?st @ [event]"
    using expire_runs [OF now] by blast
  moreover have "map_option dl_seat (rt_deadline st') = mh_to_act (table_hand st')"
    using e(5) by (simp add: runtime_ok_def deadline_ok_def)
  ultimately show ?thesis
    using run by (intro exI [of _ "runtime_tick_result False (Some event) (Some a) st'"] exI [of _ st'] exI [of _ legal]
      exI [of _ event] exI [of _ a]) (simp add: runtime_tick_result_def)
qed

theorem clock_plays_the_late_seat_witness:
  "\<exists>tick st'. runtime_advance_time 60 bound_table = (Inr tick, st') \<and>
     rt_accepted_events st' \<noteq> [] \<and> map_option dl_seat (rt_deadline st') = mh_to_act (table_hand st')"
proof -
  have shut: "\<forall>i\<in>set [sample_bind]. \<not> shuts_down i" by (simp add: sample_bind_def)
  obtain d where d: "rt_deadline bound_table = Some d" "dl_due_tick d \<le> 60" using bound_table_facts by simp
  have now: "rt_now_tick bound_table \<le> 60" "recorded_command_count (authority_of bound_table) < 256"
    using bound_table_facts by (simp_all add: recorded_command_count_def)
  from clock_plays_the_late_seat [OF bound_table_run sample_authority_hand(2) _ shut d(1) now(1) d(2) now(2)] show ?thesis
    by auto
qed

subsection \<open>A full ledger\<close>

lemma full_ledger_refuses:
  assumes "submit_from a command server = Some (r, a')" "\<not> length (au_recorded_commands a) < MAX_RECORDED_COMMANDS_PER_HAND"
  shows "a' = a"
  using assms(1) by (cases rule: submit_from_cases) (use assms(2) in simp_all)

definition frozen :: "runtime_state \<Rightarrow> protocol_authority \<Rightarrow> bool" where
  "frozen st a \<longleftrightarrow> reachable_table st \<and> authority_of st = a"

lemma request_frozen:
  assumes "request_moves st r st'" "\<not> length (au_recorded_commands (authority_of st)) < MAX_RECORDED_COMMANDS_PER_HAND"
  shows "authority_of st' = authority_of st"
  using assms full_ledger_refuses
  by (auto simp: request_moves_def moves_def times_out_def split: runtime_request.splits)

lemma input_frozen:
  assumes "frozen st a" "\<not> length (au_recorded_commands a) < MAX_RECORDED_COMMANDS_PER_HAND" "mh_to_act (au_hand a) \<noteq> None"
    and "input_step i st = Some st'" "\<not> shuts_down i"
  shows "frozen st' a"
proof -
  have reach: "reachable_table st" and a: "authority_of st = a" using assms(1) by (simp_all add: frozen_def)
  note ok = reachable_table_ok [OF reach]
  have "hand_ok (table_hand st)" using ok(1) by (simp add: runtime_ok_def table_alive_def)
  then have "mh_showdown_progress (table_hand st) = None"
    using assms(3) a by (auto simp: hand_ok_def betting_ok_def mid_ok_def before_showdown_def done_ok_def showdown_ok_def)
  then have no_show: "\<not> shows_down st now st1" for now st1 by (simp add: shows_down_def)
  have "authority_of st' = a"
  proof (cases i)
    case (Turn now request)
    then have request: "request \<noteq> Some RtShutdown" "snd (runtime_turn now request st) = Some st'" using assms(4,5) by simp_all
    obtain st1 where st1: "stays st st1 \<or> shows_down st now st1"
        "stays st1 st' \<or> (\<exists>r. request = Some r \<and> request_moves st1 r st')"
      using runtime_turn_ok [OF ok request(1), of now] request(2) by (elim exE conjE) (simp add: that)
    then have "authority_of st1 = a" using no_show a by (auto simp: stays_def)
    then show ?thesis using st1(2) request_frozen assms(2) by (auto simp: stays_def)
  qed (use subscription_stays [OF ok(1)] assms(4) a in \<open>auto simp: stays_def\<close>)
  then show ?thesis using reachable_step [OF reach assms(4,5)] by (simp add: frozen_def)
qed

text \<open>
  C25: when the 256 entries of the command ledger are used up while a seat is to act, the hand is stuck: no
  sequence of requests changes the authority any more, and advancing the clock to or past the deadline, which
  should check or fold for the seat, fails with an internal error however often it is repeated.
\<close>

theorem full_ledger_freezes_the_hand:
  assumes "runtime_run inputs (runtime_spawn (authority_new table_id hand_id h)) = Some st" "hand_ok h"
    and "hand_id < 18446744073709551616" "\<forall>i\<in>set (inputs @ later). \<not> shuts_down i"
    and "recorded_command_count (authority_of st) = 256" "mh_to_act (table_hand st) \<noteq> None"
    and "runtime_run later st = Some st'"
  shows "authority_of st' = authority_of st \<and> (\<exists>d. rt_deadline st' = Some d \<and>
    (\<forall>now_tick. rt_now_tick st' \<le> now_tick \<longrightarrow> dl_due_tick d \<le> now_tick \<longrightarrow>
       fst (runtime_advance_time now_tick st') = Inl error_authority_failure))"
proof -
  have reach: "reachable_table st" by (rule reachableI [OF assms(1-3)]) (use assms(4) in simp)
  have full: "\<not> length (au_recorded_commands (authority_of st)) < MAX_RECORDED_COMMANDS_PER_HAND"
    using assms(5) by (simp add: recorded_command_count_def MAX_RECORDED_COMMANDS_PER_HAND_def)
  have "frozen st' (authority_of st)"
  proof (rule for_m_invariant [OF assms(7), of "\<lambda>st'. frozen st' (authority_of st)"])
    show "frozen st (authority_of st)" using reach by (simp add: frozen_def)
    show "frozen s' (authority_of st)" if "i \<in> set later" "frozen s (authority_of st)" "input_step i s = Some s'" for i s s'
      by (rule input_frozen [OF that(2) full assms(6) that(3)]) (use assms(4) that(1) in simp)
  qed
  then have ok: "runtime_ok st'" "rt_hand_id st' < u64_bound" and same: "authority_of st' = authority_of st"
    using reachable_table_ok by (simp_all add: frozen_def)
  obtain d where d: "rt_deadline st' = Some d"
    using ok(1) same assms(6) by (auto simp: runtime_ok_def deadline_ok_def)
  have "fst (runtime_advance_time now_tick st') = Inl error_authority_failure"
    if late: "rt_now_tick st' \<le> now_tick" "dl_due_tick d \<le> now_tick" for now_tick
  proof -
    let ?st = "st'\<lparr>rt_now_tick := now_tick\<rparr>"
    have "\<not> length (au_recorded_commands (authority_of ?st)) < MAX_RECORDED_COMMANDS_PER_HAND" using full same by simp
    then obtain w where "expire_deadline d ?st = (Inl error_authority_failure, ?st\<lparr>rt_table := w\<rparr>)"
      using expire_full [of ?st d] ok d by auto
    then show ?thesis using late d by (simp add: runtime_advance_time_def Let_def)
  qed
  then show ?thesis using d same by blast
qed

lemma flooded_table:
  "\<exists>inputs st. runtime_run inputs (runtime_spawn (authority_new 7 1 sample_hand)) = Some st \<and> flooded 256 st \<and>
     (\<forall>i\<in>set inputs. \<not> shuts_down i)"
proof -
  let ?inputs = "map (\<lambda>i. Turn 0 (Some (RtSubmit ''p'' (stale_command i)))) [0..<256]"
  obtain st where "runtime_run ?inputs bound_table = Some st" "flooded 256 st"
    using flood [of 256] by (auto simp: MAX_RECORDED_COMMANDS_PER_HAND_def)
  moreover have "runtime_run ([sample_bind] @ ?inputs) (runtime_spawn (authority_new 7 1 sample_hand))
      = runtime_run ?inputs bound_table"
    unfolding for_m_append bound_table_run by simp
  ultimately show ?thesis
    by (intro exI [of _ "[sample_bind] @ ?inputs"] exI [of _ st]) (auto simp: sample_bind_def)
qed

theorem full_ledger_freezes_the_hand_witness:
  "\<exists>st d. reachable_table st \<and> mh_to_act (table_hand st) = Some 0 \<and> rt_deadline st = Some d \<and>
     fst (runtime_advance_time (rt_now_tick st + dl_due_tick d) st) = Inl error_authority_failure"
proof -
  obtain inputs st where st: "runtime_run inputs (runtime_spawn (authority_new 7 1 sample_hand)) = Some st" "flooded 256 st"
      "\<forall>i\<in>set inputs. \<not> shuts_down i" using flooded_table by blast
  have "recorded_command_count (authority_of st) = 256" "mh_to_act (table_hand st) = Some 0" "reachable_table st"
    using st(2) sample_started by (simp_all add: flooded_def recorded_command_count_def)
  then show ?thesis
    using full_ledger_freezes_the_hand [OF st(1) sample_authority_hand(2), of "[]" st] st(3) by fastforce
qed

end
