(* ===== verification/Credentials.thy ===== *)
theory Credentials
  imports Authorized_Table
begin

text \<open>
  Credentials (src/src/credentials.rs): the vault of reconnect tokens and the verifiers of access codes. The
  hash functions of the crates sha2 and argon2 are arguments (a digest of a byte string; a digest of a password
  and a salt, or its error), and so are the bytes that the operating system's random source yields and the
  wall clock, in milliseconds since the Unix epoch.
\<close>

definition DEFAULT_CREDENTIAL_CAPACITY :: nat where
  "DEFAULT_CREDENTIAL_CAPACITY = 1024"

definition MAX_CREDENTIAL_CAPACITY :: nat where
  "MAX_CREDENTIAL_CAPACITY = 4096"

definition TOKEN_BYTES :: nat where
  "TOKEN_BYTES = 32"

definition ACCESS_SALT_BYTES :: nat where
  "ACCESS_SALT_BYTES = 16"

definition ACCESS_DOMAIN :: string where
  "ACCESS_DOMAIN = ''terminal-poker/private-access/v1'' @ [char_of (0 :: nat)]"

definition TOKEN_DOMAIN :: string where
  "TOKEN_DOMAIN = ''terminal-poker/reconnect-token/v1'' @ [char_of (0 :: nat)]"

subsection \<open>Hexadecimal and comparison\<close>

definition hex :: "string \<Rightarrow> string" where
  "hex bytes = concat (map (\<lambda>c. let b = of_char c :: nat in [hex_digit (b div 16), hex_digit (b mod 16)]) bytes)"

text \<open>\<open>char::to_digit(16)\<close>.\<close>

definition to_digit16 :: "char \<Rightarrow> nat option" where
  "to_digit16 c = (let b = of_char c :: nat in
     if 48 \<le> b \<and> b \<le> 57 then Some (b - 48)
     else if 97 \<le> b \<and> b \<le> 102 then Some (b - 87)
     else if 65 \<le> b \<and> b \<le> 70 then Some (b - 55)
     else None)"

fun decode_pairs :: "string \<Rightarrow> string option" where
  "decode_pairs (h # l # rest) = do {
     high \<leftarrow> to_digit16 h;
     low \<leftarrow> to_digit16 l;
     bytes \<leftarrow> decode_pairs rest;
     Some (char_of (16 * high + low) # bytes) }"
| "decode_pairs _ = Some []"

definition decode_hex :: "string \<Rightarrow> string option" where
  "decode_hex v = (if length v mod 2 \<noteq> 0 then None else decode_pairs v)"

text \<open>The comparison that looks at every byte whatever the first difference is; a byte past the end counts as zero.\<close>

definition byte_or_zero :: "string \<Rightarrow> nat \<Rightarrow> nat" where
  "byte_or_zero s i = (if i < length s then of_char (s ! i) else 0)"

unbundle bit_operations_syntax

definition constant_time_eq :: "string \<Rightarrow> string \<Rightarrow> bool" where
  "constant_time_eq expected candidate =
     (fold (\<lambda>i difference. difference OR (byte_or_zero expected i XOR byte_or_zero candidate i))
        [0..<max (length expected) (length candidate)]
        (length expected XOR length candidate) = 0)"


subsection \<open>Tokens and grants\<close>

datatype credential_role = RoleGuest | RoleReconnect

record credential_scope =
  cs_table_id :: table_id
  cs_role :: credential_role

type_synonym bearer_token = string

datatype credential_error = CredentialInvalidCapacity | CredentialCapacityReached | CredentialMalformed
  | CredentialUnknownOrExpired | CredentialWrongScope | CredentialInvalidDurableRecord

definition ascii_hexdigit :: "char \<Rightarrow> bool" where
  "ascii_hexdigit c \<longleftrightarrow> to_digit16 c \<noteq> None"

definition bearer_from_client :: "string \<Rightarrow> credential_error + bearer_token" where
  "bearer_from_client v =
    (if length v \<noteq> TOKEN_BYTES * 2 \<or> \<not> list_all ascii_hexdigit v then Inl CredentialMalformed else Inr v)"

definition bearer_debug :: "bearer_token \<Rightarrow> string" where
  "bearer_debug token = ''BearerToken(<redacted>)''"

record reconnect_grant =
  gr_token :: bearer_token
  gr_expires_at_unix_seconds :: u64

record issued_credential =
  ic_grant :: reconnect_grant
  ic_expires_at :: nat
  ic_scope :: credential_scope
  ic_principal :: guest_session_id

definition unix_seconds :: "nat \<Rightarrow> u64" where
  "unix_seconds time = time div 1000"

definition token_verifier :: "(string \<Rightarrow> string) \<Rightarrow> bearer_token \<Rightarrow> string" where
  "token_verifier sha256 token = hex (sha256 (TOKEN_DOMAIN @ token))"

subsection \<open>Access verifiers\<close>

record access_verifier =
  av_algorithm :: string
  av_salt_hex :: string
  av_digest_hex :: string

definition access_digest :: "(string \<Rightarrow> string) \<Rightarrow> string \<Rightarrow> string \<Rightarrow> string" where
  "access_digest sha256 salt code = sha256 (ACCESS_DOMAIN @ salt @ code)"

definition verifier_derive :: "(string \<Rightarrow> string) \<Rightarrow> string \<Rightarrow> string \<Rightarrow> access_verifier" where
  "verifier_derive sha256 salt access_code = \<lparr>av_algorithm = ''sha256-v1'', av_salt_hex = hex salt,
     av_digest_hex = hex (access_digest sha256 salt access_code)\<rparr>"

definition verifier_derive_password ::
  "(string \<Rightarrow> string \<Rightarrow> string option) \<Rightarrow> string \<Rightarrow> string \<Rightarrow> access_verifier option" where
  "verifier_derive_password argon2 salt password = map_option (\<lambda>digest.
     \<lparr>av_algorithm = ''argon2id-v1'', av_salt_hex = hex salt, av_digest_hex = hex digest\<rparr>) (argon2 password salt)"

definition verifier_verify :: "(string \<Rightarrow> string) \<Rightarrow> (string \<Rightarrow> string \<Rightarrow> string option) \<Rightarrow> access_verifier
    \<Rightarrow> string \<Rightarrow> bool" where
  "verifier_verify sha256 argon2 v candidate =
    (if av_algorithm v = ''argon2id-v1'' then
       (if 96 < length candidate then False
        else case decode_hex (av_salt_hex v) of
          None \<Rightarrow> False
        | Some salt \<Rightarrow>
          (if length salt \<noteq> ACCESS_SALT_BYTES then False
           else case argon2 candidate salt of
             None \<Rightarrow> False
           | Some digest \<Rightarrow> constant_time_eq (av_digest_hex v) (hex digest)))
     else if av_algorithm v \<noteq> ''sha256-v1'' then False
     else case decode_hex (av_salt_hex v) of
       None \<Rightarrow> False
     | Some salt \<Rightarrow>
       (if length salt \<noteq> ACCESS_SALT_BYTES then False
        else constant_time_eq (av_digest_hex v) (hex (access_digest sha256 salt candidate))))"

definition verifier_valid :: "access_verifier \<Rightarrow> bool" where
  "verifier_valid v \<longleftrightarrow> av_algorithm v \<in> {''sha256-v1'', ''argon2id-v1''}
     \<and> (case decode_hex (av_salt_hex v) of None \<Rightarrow> False | Some salt \<Rightarrow> length salt = ACCESS_SALT_BYTES)
     \<and> (case decode_hex (av_digest_hex v) of None \<Rightarrow> False | Some digest \<Rightarrow> length digest = 32)"

subsection \<open>The vault\<close>

record durable_credential_record =
  dc_verifier_hex :: string
  dc_expires_at_unix_seconds :: u64
  dc_scope :: credential_scope
  dc_principal_id :: string

record stored_credential =
  st_expires_at :: nat
  st_scope :: credential_scope
  st_principal :: guest_session_id

record credential_vault =
  cv_capacity :: nat
  cv_entries :: "(string, stored_credential) btree"
  cv_issued :: u64
  cv_rejected :: u64
  cv_expired :: u64

type_synonym 'a vault_result = "(credential_error + 'a) \<times> credential_vault"

definition vault_new :: "nat \<Rightarrow> credential_error + credential_vault" where
  "vault_new capacity =
    (if \<not> (1 \<le> capacity \<and> capacity \<le> MAX_CREDENTIAL_CAPACITY) then Inl CredentialInvalidCapacity
     else Inr \<lparr>cv_capacity = capacity, cv_entries = [], cv_issued = 0, cv_rejected = 0, cv_expired = 0\<rparr>)"

definition vault_expire_at :: "nat \<Rightarrow> credential_vault \<Rightarrow> nat \<times> credential_vault" where
  "vault_expire_at now v =
    (let kept = filter (\<lambda>(i, entry). now < st_expires_at entry) (cv_entries v);
         expired = length (cv_entries v) - length kept
     in (expired, v\<lparr>cv_entries := kept, cv_expired := u64_saturating_add (cv_expired v) expired\<rparr>))"

text \<open>\<open>SystemTime::checked_add\<close>, on seconds of 64 bits with their sign.\<close>

definition system_time_add :: "nat \<Rightarrow> nat \<Rightarrow> nat option" where
  "system_time_add now ttl = (if (now + ttl) div 1000 < 9223372036854775808 then Some (now + ttl) else None)"

text \<open>
  The loop that draws random bytes until their verifier is fresh, on the bytes that the random source
  yields; \<^const>\<open>None\<close> when all of them collide and the loop would go on.
\<close>

fun fresh_token :: "(string \<Rightarrow> string) \<Rightarrow> string list \<Rightarrow> (string, stored_credential) btree
    \<Rightarrow> (bearer_token \<times> string) option" where
  "fresh_token sha256 [] entries = None"
| "fresh_token sha256 (bytes # drawn) entries =
    (let token = hex bytes; verifier = token_verifier sha256 token
     in if bt_get entries verifier = None then Some (token, verifier) else fresh_token sha256 drawn entries)"

definition vault_issue :: "(string \<Rightarrow> string) \<Rightarrow> string list \<Rightarrow> nat \<Rightarrow> guest_session_id \<Rightarrow> credential_scope \<Rightarrow> nat
    \<Rightarrow> credential_vault \<Rightarrow> issued_credential vault_result option" where
  "vault_issue sha256 drawn now guest scope ttl v0 =
    (let v = snd (vault_expire_at now v0) in
     if cv_capacity v \<le> length (cv_entries v) then Some (Inl CredentialCapacityReached, v)
     else
      (let expires_at = (case system_time_add now ttl of Some t \<Rightarrow> t | None \<Rightarrow> 0) in
       do {
         (token, verifier) \<leftarrow> fresh_token sha256 drawn (cv_entries v);
         Some (Inr \<lparr>ic_grant = \<lparr>gr_token = token, gr_expires_at_unix_seconds = unix_seconds expires_at\<rparr>,
                 ic_expires_at = expires_at, ic_scope = scope, ic_principal = guest\<rparr>,
               v\<lparr>cv_entries := bt_insert verifier \<lparr>st_expires_at = expires_at, st_scope = scope,
                   st_principal = guest\<rparr> (cv_entries v),
                 cv_issued := u64_saturating_add (cv_issued v) 1\<rparr>) }))"

definition vault_reject :: "credential_error \<Rightarrow> credential_vault \<Rightarrow> 'a vault_result" where
  "vault_reject e v = (Inl e, v\<lparr>cv_rejected := u64_saturating_add (cv_rejected v) 1\<rparr>)"

definition vault_validate :: "(string \<Rightarrow> string) \<Rightarrow> nat \<Rightarrow> bearer_token \<Rightarrow> credential_scope \<Rightarrow> credential_vault
    \<Rightarrow> guest_session_id vault_result" where
  "vault_validate sha256 now token expected v0 =
    (let v = snd (vault_expire_at now v0) in
     case bt_get (cv_entries v) (token_verifier sha256 token) of
       Some stored \<Rightarrow>
         (if st_scope stored = expected then (Inr (st_principal stored), v) else vault_reject CredentialWrongScope v)
     | None \<Rightarrow> vault_reject CredentialUnknownOrExpired v)"

definition vault_authenticate_and_rotate :: "(string \<Rightarrow> string) \<Rightarrow> string list \<Rightarrow> nat \<Rightarrow> bearer_token
    \<Rightarrow> credential_role \<Rightarrow> nat \<Rightarrow> credential_vault \<Rightarrow> issued_credential vault_result option" where
  "vault_authenticate_and_rotate sha256 drawn now token expected_role ttl v0 =
    (let v = snd (vault_expire_at now v0); verifier = token_verifier sha256 token in
     case bt_get (cv_entries v) verifier of
       None \<Rightarrow> Some (vault_reject CredentialUnknownOrExpired v)
     | Some stored \<Rightarrow>
       (if cs_role (st_scope stored) \<noteq> expected_role then Some (vault_reject CredentialWrongScope v)
        else vault_issue sha256 drawn now (st_principal stored) (st_scope stored) ttl
          (v\<lparr>cv_entries := bt_remove verifier (cv_entries v)\<rparr>)))"

definition vault_authenticate :: "(string \<Rightarrow> string) \<Rightarrow> nat \<Rightarrow> bearer_token \<Rightarrow> credential_role \<Rightarrow> credential_vault
    \<Rightarrow> (guest_session_id \<times> credential_scope) vault_result" where
  "vault_authenticate sha256 now token expected_role v0 =
    (let v = snd (vault_expire_at now v0) in
     case bt_get (cv_entries v) (token_verifier sha256 token) of
       Some stored \<Rightarrow>
         (if cs_role (st_scope stored) = expected_role then (Inr (st_principal stored, st_scope stored), v)
          else vault_reject CredentialWrongScope v)
     | None \<Rightarrow> vault_reject CredentialUnknownOrExpired v)"

definition vault_revoke :: "(string \<Rightarrow> string) \<Rightarrow> bearer_token \<Rightarrow> credential_vault \<Rightarrow> bool \<times> credential_vault" where
  "vault_revoke sha256 token v =
    (bt_get (cv_entries v) (token_verifier sha256 token) \<noteq> None,
     v\<lparr>cv_entries := bt_remove (token_verifier sha256 token) (cv_entries v)\<rparr>)"

definition vault_revoke_principal :: "guest_session_id \<Rightarrow> credential_vault \<Rightarrow> nat \<times> credential_vault" where
  "vault_revoke_principal guest v =
    (let kept = filter (\<lambda>(i, entry). st_principal entry \<noteq> guest) (cv_entries v)
     in (length (cv_entries v) - length kept, v\<lparr>cv_entries := kept\<rparr>))"

definition vault_active :: "credential_vault \<Rightarrow> nat" where
  "vault_active v = length (cv_entries v)"

definition durable_records :: "credential_vault \<Rightarrow> durable_credential_record list" where
  "durable_records v = map (\<lambda>(verifier_hex, stored). \<lparr>dc_verifier_hex = verifier_hex,
     dc_expires_at_unix_seconds = unix_seconds (st_expires_at stored), dc_scope = st_scope stored,
     dc_principal_id = st_principal stored\<rparr>) (cv_entries v)"

fun restore_records :: "nat \<Rightarrow> durable_credential_record list \<Rightarrow> credential_vault
    \<Rightarrow> credential_error + credential_vault" where
  "restore_records now [] v = Inr v"
| "restore_records now (r # rs) v =
    (if (case decode_hex (dc_verifier_hex r) of None \<Rightarrow> True | Some bytes \<Rightarrow> length bytes \<noteq> 32)
        \<or> cs_table_id (dc_scope r) = 0
     then Inl CredentialInvalidDurableRecord
     else case guest_session_id_new (dc_principal_id r) of
       Inl _ \<Rightarrow> Inl CredentialInvalidDurableRecord
     | Inr guest \<Rightarrow>
       (case system_time_add 0 (dc_expires_at_unix_seconds r * 1000) of
          None \<Rightarrow> Inl CredentialInvalidDurableRecord
        | Some expires_at \<Rightarrow>
          (if expires_at \<le> now then restore_records now rs v
           else if bt_get (cv_entries v) (dc_verifier_hex r) \<noteq> None then Inl CredentialInvalidDurableRecord
           else restore_records now rs (v\<lparr>cv_entries := bt_insert (dc_verifier_hex r)
             \<lparr>st_expires_at = expires_at, st_scope = dc_scope r, st_principal = guest\<rparr> (cv_entries v)\<rparr>))))"

definition vault_restore :: "nat \<Rightarrow> nat \<Rightarrow> durable_credential_record list
    \<Rightarrow> credential_error + credential_vault" where
  "vault_restore now capacity records =
    (case vault_new capacity of
       Inl e \<Rightarrow> Inl e
     | Inr vault \<Rightarrow>
       (if capacity < length records then Inl CredentialInvalidDurableRecord
        else restore_records now records vault))"

end
