(* ===== verification/Ring_History.thy ===== *)
theory Ring_History
  imports Credentials
begin

text \<open>
  Hand histories that are safe to keep (src/src/ring_history.rs): the history of a finished hand from its public
  terminal projection and its accepted events, the bounded store with its statistics, and the checks of a stored
  document. The JSON of serde and the digest of sha2 are arguments; the file system is not modelled.
\<close>

definition RING_HISTORY_VERSION :: u16 where
  "RING_HISTORY_VERSION = 1"

definition MAX_HISTORY_ACTIONS :: nat where
  "MAX_HISTORY_ACTIONS = 256"

definition MAX_RETAINED_HISTORIES :: nat where
  "MAX_RETAINED_HISTORIES = 512"

definition HISTORY_STORE_VERSION :: u16 where
  "HISTORY_STORE_VERSION = 1"

definition MAX_HISTORY_STORE_BYTES :: nat where
  "MAX_HISTORY_STORE_BYTES = 4 * 1024 * 1024"

definition HISTORY_STORE_FORMAT :: string where
  "HISTORY_STORE_FORMAT = ''terminal-poker-safe-ring-history''"

record safe_ring_action =
  sa_revision :: u64
  sa_seat :: seat_id
  sa_phase :: multiway_phase
  sa_action :: action
  sa_pot_after :: u32

record public_cards =
  pb_seat :: seat_id
  pb_cards :: "card list"

record safe_ring_hand_history =
  sh_version :: u16
  sh_table_id :: table_id
  sh_hand_id :: hand_id
  sh_button :: seat_id
  sh_board :: "card list"
  sh_actions :: "safe_ring_action list"
  sh_publicly_revealed :: "public_cards list"
  sh_awards :: "pot_award list"
  sh_final_stacks :: "(seat_id \<times> u32) list"

datatype history_error = PlayerProjection | HandNotTerminal | WrongTableOrHand | NonMonotonicRevision | TooManyActions

definition history_error_display :: "history_error \<Rightarrow> string" where
  "history_error_display e = (case e of
     PlayerProjection \<Rightarrow> ''history source must be a public spectator projection''
   | HandNotTerminal \<Rightarrow> ''history source hand is not terminal''
   | WrongTableOrHand \<Rightarrow> ''history events belong to another table or hand''
   | NonMonotonicRevision \<Rightarrow> ''history event revisions are not monotonic''
   | TooManyActions \<Rightarrow> ''history contains too many accepted actions'')"

subsection \<open>The history of a hand\<close>

fun history_actions :: "snapshot_envelope \<Rightarrow> u64 \<Rightarrow> event_envelope list
    \<Rightarrow> history_error + safe_ring_action list" where
  "history_actions terminal previous_revision [] = Inr []"
| "history_actions terminal previous_revision (event # events) =
    (if ee_table_id event \<noteq> sn_table_id terminal \<or> ee_hand_id event \<noteq> sn_hand_id terminal then Inl WrongTableOrHand
     else if ee_revision event \<le> previous_revision \<or> sn_revision terminal < ee_revision event
     then Inl NonMonotonicRevision
     else case history_actions terminal (ee_revision event) events of
       Inl e \<Rightarrow> Inl e
     | Inr actions \<Rightarrow>
       (case ee_event event of
          ActionAccepted s a phase to_act pot_total \<Rightarrow>
            Inr (\<lparr>sa_revision = ee_revision event, sa_seat = s, sa_phase = phase, sa_action = a,
              sa_pot_after = pot_total\<rparr> # actions)
        | _ \<Rightarrow> Inr actions))"

definition terminal_phase :: "multiway_phase \<Rightarrow> bool" where
  "terminal_phase phase \<longleftrightarrow> phase = Showdown \<or> phase = HandComplete"

definition from_public_terminal :: "snapshot_envelope \<Rightarrow> event_envelope list
    \<Rightarrow> history_error + safe_ring_hand_history" where
  "from_public_terminal terminal accepted_events =
    (let snapshot = sn_snapshot terminal in
     if pj_audience snapshot \<noteq> KindSpectator then Inl PlayerProjection
     else if \<not> terminal_phase (pj_phase snapshot) then Inl HandNotTerminal
     else if MAX_HISTORY_ACTIONS < length accepted_events then Inl TooManyActions
     else case history_actions terminal 0 accepted_events of
       Inl e \<Rightarrow> Inl e
     | Inr actions \<Rightarrow> Inr \<lparr>sh_version = RING_HISTORY_VERSION, sh_table_id = sn_table_id terminal,
         sh_hand_id = sn_hand_id terminal, sh_button = pj_button snapshot, sh_board = pj_board snapshot,
         sh_actions = actions,
         sh_publicly_revealed = List.map_filter (\<lambda>s. map_option (\<lambda>cards. \<lparr>pb_seat = ps_seat s, pb_cards = cards\<rparr>)
           (ps_hole_cards s)) (pj_seats snapshot),
         sh_awards = pj_awards snapshot,
         sh_final_stacks = map (\<lambda>s. (ps_seat s, ps_stack s)) (pj_seats snapshot)\<rparr>)"

subsection \<open>The store\<close>

record ring_statistics =
  rs_hands :: u64
  rs_showdowns :: u64
  rs_accepted_actions :: u64
  rs_pots_awarded :: u64
  rs_chips_awarded :: u64

definition ring_statistics_default :: ring_statistics where
  "ring_statistics_default = \<lparr>rs_hands = 0, rs_showdowns = 0, rs_accepted_actions = 0, rs_pots_awarded = 0,
     rs_chips_awarded = 0\<rparr>"

record ring_history_store =
  hi_histories :: "safe_ring_hand_history list"
  hi_statistics :: ring_statistics

definition ring_history_store_default :: ring_history_store where
  "ring_history_store_default = \<lparr>hi_histories = [], hi_statistics = ring_statistics_default\<rparr>"

text \<open>The statistics with one more hand; \<open>record\<close> and the check of a document have the same code.\<close>

definition count_history :: "safe_ring_hand_history \<Rightarrow> ring_statistics \<Rightarrow> ring_statistics" where
  "count_history h s = \<lparr>rs_hands = u64_saturating_add (rs_hands s) 1,
     rs_showdowns = u64_saturating_add (rs_showdowns s) (if sh_publicly_revealed h = [] then 0 else 1),
     rs_accepted_actions = u64_saturating_add (rs_accepted_actions s) (length (sh_actions h)),
     rs_pots_awarded = u64_saturating_add (rs_pots_awarded s) (length (sh_awards h)),
     rs_chips_awarded = u64_saturating_add (rs_chips_awarded s)
       (sum_list (map pa_amount (sh_awards h)) mod u64_bound)\<rparr>"

definition history_record :: "safe_ring_hand_history \<Rightarrow> ring_history_store \<Rightarrow> ring_history_store" where
  "history_record h store =
    (let kept = (if length (hi_histories store) = MAX_RETAINED_HISTORIES then tl (hi_histories store)
           else hi_histories store)
     in \<lparr>hi_histories = kept @ [h], hi_statistics = count_history h (hi_statistics store)\<rparr>)"

subsection \<open>Stored documents\<close>

record history_store_payload =
  hp_retention_limit :: nat
  hp_histories :: "safe_ring_hand_history list"
  hp_statistics :: ring_statistics

record history_store_envelope =
  hv_format :: string
  hv_version :: u16
  hv_checksum :: string
  hv_payload :: history_store_payload

datatype history_store_error = HistoryInvalidPath | HistoryTooLarge | HistoryIo | HistoryInvalidDocument

fun identities_fresh :: "safe_ring_hand_history list \<Rightarrow> (table_id \<times> hand_id) set \<Rightarrow> bool" where
  "identities_fresh [] seen = True"
| "identities_fresh (h # hs) seen \<longleftrightarrow>
     \<not> (sh_version h \<noteq> RING_HISTORY_VERSION \<or> MAX_HISTORY_ACTIONS < length (sh_actions h) \<or> 5 < length (sh_board h)
        \<or> list_ex (\<lambda>c. length (pb_cards c) \<noteq> 2) (sh_publicly_revealed h) \<or> (sh_table_id h, sh_hand_id h) \<in> seen)
     \<and> identities_fresh hs (insert (sh_table_id h, sh_hand_id h) seen)"

definition validate_payload :: "history_store_payload \<Rightarrow> history_store_error + unit" where
  "validate_payload payload =
    (if \<not> identities_fresh (hp_histories payload) {} then Inl HistoryInvalidDocument
     else
      (let computed = fold count_history (hp_histories payload) ring_statistics_default;
           stored = hp_statistics payload
       in if rs_hands stored < rs_hands computed \<or> rs_showdowns stored < rs_showdowns computed
             \<or> rs_accepted_actions stored < rs_accepted_actions computed
             \<or> rs_pots_awarded stored < rs_pots_awarded computed
             \<or> rs_chips_awarded stored < rs_chips_awarded computed
          then Inl HistoryInvalidDocument else Inr ()))"

definition history_checksum :: "(history_store_payload \<Rightarrow> string option) \<Rightarrow> (string \<Rightarrow> string)
    \<Rightarrow> history_store_payload \<Rightarrow> string option" where
  "history_checksum to_vec sha256 payload = map_option (\<lambda>canonical. ''sha256:'' @ hex (sha256 canonical)) (to_vec payload)"

text \<open>The document that \<open>save_to_path\<close> writes, and what \<open>load_from_path\<close> makes of the document it read.\<close>

definition history_document :: "(history_store_payload \<Rightarrow> string option) \<Rightarrow> (string \<Rightarrow> string)
    \<Rightarrow> ring_history_store \<Rightarrow> history_store_error + history_store_envelope" where
  "history_document to_vec sha256 store =
    (let payload = \<lparr>hp_retention_limit = MAX_RETAINED_HISTORIES, hp_histories = hi_histories store,
           hp_statistics = hi_statistics store\<rparr>
     in case history_checksum to_vec sha256 payload of
          None \<Rightarrow> Inl HistoryInvalidDocument
        | Some checksum \<Rightarrow> Inr \<lparr>hv_format = HISTORY_STORE_FORMAT, hv_version = HISTORY_STORE_VERSION,
            hv_checksum = checksum, hv_payload = payload\<rparr>)"

definition history_load :: "(history_store_payload \<Rightarrow> string option) \<Rightarrow> (string \<Rightarrow> string)
    \<Rightarrow> history_store_envelope \<Rightarrow> history_store_error + ring_history_store" where
  "history_load to_vec sha256 envelope =
    (let payload = hv_payload envelope in
     if hv_format envelope \<noteq> HISTORY_STORE_FORMAT \<or> hv_version envelope \<noteq> HISTORY_STORE_VERSION
        \<or> hp_retention_limit payload \<noteq> MAX_RETAINED_HISTORIES
        \<or> MAX_RETAINED_HISTORIES < length (hp_histories payload)
     then Inl HistoryInvalidDocument
     else case history_checksum to_vec sha256 payload of
       None \<Rightarrow> Inl HistoryInvalidDocument
     | Some expected \<Rightarrow>
       (if \<not> constant_time_eq (hv_checksum envelope) expected then Inl HistoryInvalidDocument
        else case validate_payload payload of
          Inl e \<Rightarrow> Inl e
        | Inr _ \<Rightarrow> Inr \<lparr>hi_histories = hp_histories payload, hi_statistics = hp_statistics payload\<rparr>))"

end
