(* ===== verification/Lobby.thy ===== *)
theory Lobby
  imports Protocol Tournament
begin

text \<open>
  The public lobby (src/src/lobby.rs): configurations, summaries, the filter of a listing, and the requests and
  responses of the lobby protocol. The JSON attributes of the types belong to serde and are left out.
\<close>

definition LOBBY_PROTOCOL_VERSION :: u16 where
  "LOBBY_PROTOCOL_VERSION = 2"

definition MAX_PUBLIC_TABLE_NAME_BYTES :: nat where
  "MAX_PUBLIC_TABLE_NAME_BYTES = 32"

definition MAX_LOBBY_REQUEST_ID_BYTES :: nat where
  "MAX_LOBBY_REQUEST_ID_BYTES = 64"

definition MIN_PRIVATE_JOIN_CODE_BYTES :: nat where
  "MIN_PRIVATE_JOIN_CODE_BYTES = 24"

definition MAX_PRIVATE_JOIN_CODE_BYTES :: nat where
  "MAX_PRIVATE_JOIN_CODE_BYTES = 96"

datatype table_visibility = VisPublic | VisPasswordProtected | VisUnlisted | VisPrivate

definition default_min_players :: nat where
  "default_min_players = 2"

record public_table_config =
  pc_name :: string
  pc_seats :: table_size
  pc_starting_stack :: u32
  pc_min_players :: nat
  pc_visibility :: table_visibility
  pc_join_code :: "string option"

datatype public_table_status = StatusWaiting | StatusRunning | StatusPaused | StatusClosed

record public_table_summary =
  sm_table_id :: table_id
  sm_name :: string
  sm_seats :: table_size
  sm_starting_stack :: u32
  sm_min_players :: nat
  sm_small_blind :: u32
  sm_big_blind :: u32
  sm_occupied :: nat
  sm_reserved :: nat
  sm_waiting :: nat
  sm_status :: public_table_status
  sm_joinable :: bool
  sm_visibility :: table_visibility
  sm_tournament :: "tournament_public_state option"

record table_health_summary =
  th_table_id :: table_id
  th_status :: public_table_status
  th_hand_id :: "hand_id option"
  th_occupied :: nat
  th_waiting :: nat
  th_stream_sequence :: u64
  th_accepted_commands :: u64
  th_rejected_commands :: u64
  th_authorization_rejections :: u64
  th_disconnects :: u64

record registry_health =
  rh_healthy :: bool
  rh_lobby_revision :: u64
  rh_table_capacity :: nat
  rh_tables :: nat
  rh_routed_sessions :: nat
  rh_waiting_sessions :: nat
  rh_active_capabilities :: nat
  rh_capability_capacity :: nat
  rh_retained_safe_histories :: nat
  rh_last_checkpoint_millis :: u64
  rh_max_checkpoint_millis :: u64
  rh_last_checkpoint_bytes :: nat
  rh_checkpoint_version :: u16
  rh_recovery_boundary :: string
  rh_table_health :: "table_health_summary list"

subsection \<open>The filter of a listing\<close>

record public_table_filter =
  pf_seats :: "table_size option"
  pf_starting_stack :: "u32 option"
  pf_status :: "public_table_status option"
  pf_joinable :: "bool option"

definition is_none_or :: "'a option \<Rightarrow> ('a \<Rightarrow> bool) \<Rightarrow> bool" where
  "is_none_or v P \<longleftrightarrow> (case v of None \<Rightarrow> True | Some x \<Rightarrow> P x)"

definition filter_matches :: "public_table_filter \<Rightarrow> public_table_summary \<Rightarrow> bool" where
  "filter_matches f table \<longleftrightarrow> is_none_or (pf_seats f) (\<lambda>v. v = sm_seats table)
     \<and> is_none_or (pf_starting_stack f) (\<lambda>v. v = sm_starting_stack table)
     \<and> is_none_or (pf_status f) (\<lambda>v. v = sm_status table)
     \<and> is_none_or (pf_joinable f) (\<lambda>v. v = sm_joinable table)"

subsection \<open>Messages\<close>

datatype lobby_request = ReqCreate public_table_config | ReqCreateTournament tournament_config
  | ReqList public_table_filter
  | ReqInspect table_id "string option" \<comment> \<open>access code\<close>
  | ReqJoin table_id "seat_id option" "string option" \<comment> \<open>seat, access code\<close>
  | ReqJoinStatus | ReqCancelWait table_id | ReqHealth

record lobby_envelope =
  le_version :: u16
  le_request_id :: string
  le_payload :: lobby_request

definition lobby_envelope_new :: "string \<Rightarrow> lobby_request \<Rightarrow> lobby_envelope" where
  "lobby_envelope_new request_id payload =
     \<lparr>le_version = LOBBY_PROTOCOL_VERSION, le_request_id = request_id, le_payload = payload\<rparr>"

datatype lobby_result = ResTables "public_table_summary list" | ResTable public_table_summary
  | ResJoined public_table_summary seat_id "hand_id option" bool
  | ResWaiting public_table_summary nat
  | ResWaitCancelled table_id | ResHealth registry_health

record lobby_response =
  lr_version :: u16
  lr_request_id :: string
  lr_lobby_revision :: u64
  lr_result :: lobby_result

record lobby_error =
  ly_version :: u16
  ly_request_id :: "string option"
  ly_lobby_revision :: u64
  ly_code :: string
  ly_message :: string

end
