(* ===== verification/Table_Handle.thy ===== *)
theory Table_Handle
  imports Authorized_Table
begin

text \<open>
  The handle of an authorized table (\<open>AuthorizedTableHandle\<close>, src/src/authorized_table.rs): each call sends one
  request to the worker and waits for its answer. The worker is its state, or \<^const>\<open>None\<close> once its loop has
  ended; a call then reports a closed runtime. The mailbox never refuses a request (\<open>send\<close> waits), so a call
  is one turn of the worker.
\<close>

type_synonym worker = "runtime_state option"

definition handle_request :: "nat \<Rightarrow> runtime_request \<Rightarrow> worker \<Rightarrow> runtime_answer option \<times> worker" where
  "handle_request now request w = (case w of
     None \<Rightarrow> (None, None)
   | Some st \<Rightarrow>
     (case runtime_turn now (Some request) st of
        (answer, None) \<Rightarrow> (None, None)
      | (answer, Some st) \<Rightarrow> (Some answer, Some st)))"

definition handle_unit :: "nat \<Rightarrow> runtime_request \<Rightarrow> worker \<Rightarrow> (authorized_table_error + unit) \<times> worker" where
  "handle_unit now request w = (case handle_request now request w of
     (Some (RaUnit r), w) \<Rightarrow> (r, w)
   | (_, w) \<Rightarrow> (Inl error_runtime_closed, w))"

definition handle_bind :: "nat \<Rightarrow> guest_session_id \<Rightarrow> table_id \<Rightarrow> hand_id \<Rightarrow> session_role \<Rightarrow> worker
    \<Rightarrow> (authorized_table_error + unit) \<times> worker" where
  "handle_bind now session table_id hand_id role = handle_unit now (RtBind session table_id hand_id role)"

definition handle_disconnect :: "nat \<Rightarrow> guest_session_id \<Rightarrow> worker \<Rightarrow> (authorized_table_error + unit) \<times> worker" where
  "handle_disconnect now session = handle_unit now (RtDisconnect session)"

definition handle_reconnect :: "nat \<Rightarrow> guest_session_id \<Rightarrow> worker \<Rightarrow> (authorized_table_error + unit) \<times> worker" where
  "handle_reconnect now session = handle_unit now (RtReconnect session)"

definition handle_subscribe :: "nat \<Rightarrow> guest_session_id \<Rightarrow> worker \<Rightarrow> (authorized_table_error + unit) \<times> worker" where
  "handle_subscribe now session = handle_unit now (RtSubscribe session)"

definition handle_snapshot_request :: "nat \<Rightarrow> runtime_request \<Rightarrow> worker
    \<Rightarrow> (authorized_table_error + snapshot_envelope) \<times> worker" where
  "handle_snapshot_request now request w = (case handle_request now request w of
     (Some (RaSnapshot r), w) \<Rightarrow> (r, w)
   | (_, w) \<Rightarrow> (Inl error_runtime_closed, w))"

definition handle_snapshot :: "nat \<Rightarrow> guest_session_id \<Rightarrow> worker
    \<Rightarrow> (authorized_table_error + snapshot_envelope) \<times> worker" where
  "handle_snapshot now session = handle_snapshot_request now (RtSnapshot session)"

definition handle_bound_snapshot :: "nat \<Rightarrow> guest_session_id \<Rightarrow> worker
    \<Rightarrow> (authorized_table_error + snapshot_envelope) \<times> worker" where
  "handle_bound_snapshot now session = handle_snapshot_request now (RtBoundSnapshot session)"

definition handle_submit :: "nat \<Rightarrow> guest_session_id \<Rightarrow> command_envelope \<Rightarrow> worker
    \<Rightarrow> (authorized_table_error + authorized_table_response) \<times> worker" where
  "handle_submit now session command w = (case handle_request now (RtSubmit session command) w of
     (Some (RaSubmitted r), w) \<Rightarrow> (r, w)
   | (_, w) \<Rightarrow> (Inl error_runtime_closed, w))"

definition handle_safe_history_material :: "nat \<Rightarrow> worker
    \<Rightarrow> (authorized_table_error + snapshot_envelope \<times> event_envelope list) \<times> worker" where
  "handle_safe_history_material now w = (case handle_request now RtSafeHistoryMaterial w of
     (Some (RaHistory r), w) \<Rightarrow> (r, w)
   | (_, w) \<Rightarrow> (Inl error_runtime_closed, w))"

definition handle_advance_time :: "nat \<Rightarrow> u64 \<Rightarrow> worker \<Rightarrow> (authorized_table_error + tick_result) \<times> worker" where
  "handle_advance_time now now_tick w = (case handle_request now (RtAdvanceTime now_tick) w of
     (Some (RaTick r), w) \<Rightarrow> (r, w)
   | (_, w) \<Rightarrow> (Inl error_runtime_closed, w))"

definition handle_metrics :: "nat \<Rightarrow> worker \<Rightarrow> (authorized_table_error + authorized_table_metrics) \<times> worker" where
  "handle_metrics now w = (case handle_request now RtMetrics w of
     (Some (RaMetrics m), w) \<Rightarrow> (Inr m, w)
   | (_, w) \<Rightarrow> (Inl error_runtime_closed, w))"

end
