(* ===== verification/Registry.thy ===== *)
theory Registry
  imports Ring_History Lobby Lifecycle Table_Handle
begin

text \<open>
  The table registry (src/src/table_registry.rs): its errors, its tables, its private routes, and the operations
  that create, list and inspect tables and issue reconnect tokens.

  What lies outside the repository is an argument: the shuffles and their generators, the hash functions, the
  bytes of the operating system's random source, the clocks. \<open>now\<close> is the monotonic clock and \<open>wall\<close> the time of
  day, both in milliseconds, and one operation happens at one time. A thread always starts.
\<close>

definition DEFAULT_TABLE_REGISTRY_CAPACITY :: nat where
  "DEFAULT_TABLE_REGISTRY_CAPACITY = 16"

definition MAX_TABLE_REGISTRY_CAPACITY :: nat where
  "MAX_TABLE_REGISTRY_CAPACITY = 64"

definition MAX_TABLE_WAITING_ENTRIES :: nat where
  "MAX_TABLE_WAITING_ENTRIES = 64"

definition REGISTRY_CHECKPOINT_VERSION :: u16 where
  "REGISTRY_CHECKPOINT_VERSION = 4"

definition RECONNECT_CREDENTIAL_TTL :: nat where
  "RECONNECT_CREDENTIAL_TTL = 5 * 60 * 1000"

definition MAX_REGISTRY_CHECKPOINT_BYTES :: nat where
  "MAX_REGISTRY_CHECKPOINT_BYTES = 1048576"

definition REGISTRY_CHECKPOINT_FORMAT :: string where
  "REGISTRY_CHECKPOINT_FORMAT = ''terminal-poker-registry''"

subsection \<open>Errors\<close>

datatype table_registry_error_code = RegInvalidCapacity | RegUnsupportedVersion | RegInvalidRequestId
  | RegCapacityReached | RegInvalidTableName | RegInvalidStartingStack | RegInvalidTournament | RegUnknownTable
  | RegTableNotJoinable | RegSeatUnavailable | RegSessionAlreadyRouted | RegWaitlistFull | RegSessionNotWaiting
  | RegSessionNotRouted | RegWrongTable | RegTableNotReady | RegHandNotComplete | RegUnsafeCheckpointBoundary
  | RegInvalidCheckpoint | RegCheckpointTooLarge | RegPersistenceFailure | RegTableNotRemovable
  | RegAuthorityFailure

fun registry_code_name :: "table_registry_error_code \<Rightarrow> string" where
  "registry_code_name RegInvalidCapacity = ''invalid_registry_capacity''"
| "registry_code_name RegUnsupportedVersion = ''unsupported_lobby_version''"
| "registry_code_name RegInvalidRequestId = ''invalid_lobby_request_id''"
| "registry_code_name RegCapacityReached = ''table_capacity_reached''"
| "registry_code_name RegInvalidTableName = ''invalid_table_name''"
| "registry_code_name RegInvalidStartingStack = ''invalid_starting_stack''"
| "registry_code_name RegInvalidTournament = ''invalid_tournament''"
| "registry_code_name RegUnknownTable = ''unknown_table''"
| "registry_code_name RegTableNotJoinable = ''table_not_joinable''"
| "registry_code_name RegSeatUnavailable = ''seat_unavailable''"
| "registry_code_name RegSessionAlreadyRouted = ''session_already_routed''"
| "registry_code_name RegWaitlistFull = ''table_waitlist_full''"
| "registry_code_name RegSessionNotWaiting = ''session_not_waiting''"
| "registry_code_name RegSessionNotRouted = ''session_not_routed''"
| "registry_code_name RegWrongTable = ''wrong_table''"
| "registry_code_name RegTableNotReady = ''table_not_ready''"
| "registry_code_name RegHandNotComplete = ''hand_not_complete''"
| "registry_code_name RegUnsafeCheckpointBoundary = ''unsafe_checkpoint_boundary''"
| "registry_code_name RegInvalidCheckpoint = ''invalid_checkpoint''"
| "registry_code_name RegCheckpointTooLarge = ''checkpoint_too_large''"
| "registry_code_name RegPersistenceFailure = ''checkpoint_io_failure''"
| "registry_code_name RegTableNotRemovable = ''table_not_removable''"
| "registry_code_name RegAuthorityFailure = ''table_authority_failure''"

record table_registry_error =
  ge_code :: table_registry_error_code
  ge_message :: string

definition registry_error :: "table_registry_error_code \<Rightarrow> string \<Rightarrow> table_registry_error" where
  "registry_error code message = \<lparr>ge_code = code, ge_message = message\<rparr>"

definition registry_error_display :: "table_registry_error \<Rightarrow> string" where
  "registry_error_display e = registry_code_name (ge_code e) @ '': '' @ ge_message e"

definition unknown_table :: "table_id \<Rightarrow> table_registry_error" where
  "unknown_table t = registry_error RegUnknownTable (''table '' @ show_nat t @ '' does not exist'')"

text \<open>The closures of \<open>map_err\<close>, by the kind of error that they wrap.\<close>

definition lifecycle_failure :: "lifecycle_error \<Rightarrow> table_registry_error" where
  "lifecycle_failure e = registry_error RegAuthorityFailure (lifecycle_error_display e)"

definition authorized_failure :: "authorized_table_error \<Rightarrow> table_registry_error" where
  "authorized_failure e = registry_error RegAuthorityFailure (authorized_error_display e)"

definition tournament_failure :: "tournament_error \<Rightarrow> table_registry_error" where
  "tournament_failure e = registry_error RegInvalidTournament (tournament_error_display e)"

subsection \<open>Services outside the repository\<close>

record 'g services =
  sv_shuffle :: "'g \<Rightarrow> card list \<Rightarrow> card list \<times> 'g"
  sv_production :: "hand_id \<Rightarrow> 'g" \<comment> \<open>the generator that production draws for a hand\<close>
  sv_seeded :: "u64 \<Rightarrow> 'g"
  sv_sha256 :: "string \<Rightarrow> string"
  sv_argon2 :: "string \<Rightarrow> string \<Rightarrow> string option"

subsection \<open>Tables\<close>

record waiting_entry =
  we_session :: guest_session_id
  we_requested_seat :: "seat_id option"

record session_route =
  ro_table_id :: table_id
  ro_player :: player_id
  ro_seat :: seat_id

text \<open>
  \<open>runtime\<close> and \<open>handle\<close> of the code are set and cleared together: one field, whose content is the worker.
\<close>

record registered_table =
  gt_config :: public_table_config
  gt_access_verifier :: "access_verifier option"
  gt_lifecycle :: table_lifecycle
  gt_durable_lifecycle :: table_lifecycle
  gt_deterministic_seed :: "u64 option"
  gt_tournament :: "tournament_controller option"
  gt_hand_id :: "hand_id option"
  gt_seat_sessions :: "(seat_id, guest_session_id) btree"
  gt_waiting :: "waiting_entry list"
  gt_pending_departures :: "guest_session_id list"
  gt_last_activity :: nat
  gt_runtime :: "worker option"

text \<open>\<open>u8::try_from(n).expect(_)\<close>\<close>

definition u8_try_from :: "nat \<Rightarrow> nat option" where
  "u8_try_from n = (if n < 256 then Some n else None)"

definition public_status :: "table_run_state \<Rightarrow> public_table_status" where
  "public_status state = (case state of
     Waiting \<Rightarrow> StatusWaiting | Running \<Rightarrow> StatusRunning | Paused \<Rightarrow> StatusPaused | Closed \<Rightarrow> StatusClosed)"

definition table_blinds :: "registered_table \<Rightarrow> (u32 \<times> u32) option" where
  "table_blinds t = (case gt_tournament t of
     None \<Rightarrow> Some (SMALL_BLIND, BIG_BLIND)
   | Some c \<Rightarrow> map_option (\<lambda>b. (bv_small_blind b, bv_big_blind b)) (current_blinds c))"

definition table_summary :: "registered_table \<Rightarrow> table_id \<Rightarrow> public_table_summary option" where
  "table_summary t table_id = do {
     let l = gt_lifecycle t;
     occupied \<leftarrow> u8_try_from (occupied_count (lc_seats l));
     reserved \<leftarrow> u8_try_from (length (lc_reservations l));
     let status = public_status (lc_state l);
     (small_blind, big_blind) \<leftarrow> table_blinds t;
     waiting \<leftarrow> u8_try_from (length (gt_waiting t));
     tournament \<leftarrow> (case gt_tournament t of None \<Rightarrow> Some None | Some c \<Rightarrow> map_option Some (public_state c));
     Some \<lparr>sm_table_id = table_id, sm_name = pc_name (gt_config t), sm_seats = pc_seats (gt_config t),
       sm_starting_stack = pc_starting_stack (gt_config t), sm_min_players = pc_min_players (gt_config t),
       sm_small_blind = small_blind, sm_big_blind = big_blind, sm_occupied = occupied, sm_reserved = reserved,
       sm_waiting = waiting, sm_status = status,
       sm_joinable = (gt_runtime t = None \<and> status \<noteq> StatusClosed
         \<and> is_none_or (gt_tournament t) (\<lambda>c. tr_status c = Registering)
         \<and> min (occupied + reserved) 255 < pc_seats (gt_config t)),
       sm_visibility = pc_visibility (gt_config t), sm_tournament = tournament\<rparr> }"

definition table_allows :: "'g services \<Rightarrow> registered_table \<Rightarrow> string option \<Rightarrow> bool" where
  "table_allows sv t supplied = (case pc_visibility (gt_config t) of
     VisPublic \<Rightarrow> True
   | _ \<Rightarrow> (case (gt_access_verifier t, supplied) of
       (Some verifier, Some candidate) \<Rightarrow> verifier_verify (sv_sha256 sv) (sv_argon2 sv) verifier candidate
     | _ \<Rightarrow> False))"

definition lifecycle_stacks :: "table_lifecycle \<Rightarrow> (seat_id \<times> u32) list" where
  "lifecycle_stacks l = map (\<lambda>(s, st). (s, ss_stack st)) (table_occupied (lc_seats l))"

subsection \<open>The registry\<close>

record registry =
  rg_max_tables :: nat
  rg_next_table_id :: u64
  rg_next_player_id :: u64
  rg_next_hand_id :: u64
  rg_revision :: u64
  rg_tables :: "(table_id, registered_table) btree"
  rg_sessions :: "(guest_session_id, session_route) btree"
  rg_waiting_sessions :: "(guest_session_id, table_id) btree"
  rg_retired_updates :: "(guest_session_id, subscription_update) btree"
  rg_credentials :: credential_vault
  rg_history :: ring_history_store
  rg_reconnect_ttl :: nat
  rg_last_checkpoint_millis :: u64
  rg_max_checkpoint_millis :: u64
  rg_last_checkpoint_bytes :: nat

text \<open>
  A method of the registry: \<^const>\<open>None\<close> is the panic of an \<open>expect\<close> or of an index; otherwise its result and the
  registry it leaves. An early return with an error keeps the changes made so far.
\<close>

type_synonym 'a registry_result = "((table_registry_error + 'a) \<times> registry) option"

definition reg_ok :: "'a \<Rightarrow> registry \<Rightarrow> 'a registry_result" where
  "reg_ok x r = Some (Inr x, r)"

definition reg_fail :: "table_registry_error \<Rightarrow> registry \<Rightarrow> 'a registry_result" where
  "reg_fail e r = Some (Inl e, r)"

definition reg_then :: "'a registry_result \<Rightarrow> ('a \<Rightarrow> registry \<Rightarrow> 'b registry_result) \<Rightarrow> 'b registry_result" where
  "reg_then m f = (case m of
     None \<Rightarrow> None
   | Some (Inl e, r) \<Rightarrow> Some (Inl e, r)
   | Some (Inr x, r) \<Rightarrow> f x r)"

text \<open>\<open>expect\<close>, \<open>ok_or_else(_)?\<close> and \<open>map_err(_)?\<close> in a method.\<close>

definition reg_expect :: "'a option \<Rightarrow> ('a \<Rightarrow> 'b registry_result) \<Rightarrow> 'b registry_result" where
  "reg_expect v f = (case v of None \<Rightarrow> None | Some x \<Rightarrow> f x)"

definition reg_some :: "table_registry_error \<Rightarrow> 'a option \<Rightarrow> registry \<Rightarrow> ('a \<Rightarrow> 'b registry_result) \<Rightarrow> 'b registry_result" where
  "reg_some e v r f = (case v of None \<Rightarrow> reg_fail e r | Some x \<Rightarrow> f x)"

definition reg_sum :: "('e \<Rightarrow> table_registry_error) \<Rightarrow> 'e + 'a \<Rightarrow> registry \<Rightarrow> ('a \<Rightarrow> 'b registry_result)
    \<Rightarrow> 'b registry_result" where
  "reg_sum wrap v r f = (case v of Inl e \<Rightarrow> reg_fail (wrap e) r | Inr x \<Rightarrow> f x)"

definition bump_revision :: "registry \<Rightarrow> registry" where
  "bump_revision r = r\<lparr>rg_revision := u64_saturating_add (rg_revision r) 1\<rparr>"

definition u64_checked_add :: "u64 \<Rightarrow> u64 \<Rightarrow> u64 option" where
  "u64_checked_add a b = (if a + b < u64_bound then Some (a + b) else None)"

definition put_table :: "table_id \<Rightarrow> registered_table \<Rightarrow> registry \<Rightarrow> registry" where
  "put_table table_id t r = r\<lparr>rg_tables := bt_insert table_id t (rg_tables r)\<rparr>"

text \<open>\<open>tables.get(&table_id).ok_or_else(|| unknown_table(table_id))?\<close>\<close>

definition with_table :: "table_id \<Rightarrow> registry \<Rightarrow> (registered_table \<Rightarrow> 'b registry_result) \<Rightarrow> 'b registry_result" where
  "with_table table_id r f = reg_some (unknown_table table_id) (bt_get (rg_tables r) table_id) r f"

definition registry_new :: "nat \<Rightarrow> table_registry_error + registry" where
  "registry_new max_tables =
    (if \<not> (1 \<le> max_tables \<and> max_tables \<le> MAX_TABLE_REGISTRY_CAPACITY)
     then Inl (registry_error RegInvalidCapacity
       (''registry capacity must be between 1 and '' @ show_nat MAX_TABLE_REGISTRY_CAPACITY))
     else case vault_new DEFAULT_CREDENTIAL_CAPACITY of
       Inl _ \<Rightarrow> Inl (registry_error RegInvalidCapacity ''credential capacity is invalid'')
     | Inr vault \<Rightarrow> Inr \<lparr>rg_max_tables = max_tables, rg_next_table_id = 1, rg_next_player_id = 1,
         rg_next_hand_id = 1, rg_revision = 0, rg_tables = [], rg_sessions = [], rg_waiting_sessions = [],
         rg_retired_updates = [], rg_credentials = vault, rg_history = ring_history_store_default,
         rg_reconnect_ttl = RECONNECT_CREDENTIAL_TTL, rg_last_checkpoint_millis = 0,
         rg_max_checkpoint_millis = 0, rg_last_checkpoint_bytes = 0\<rparr>)"

subsection \<open>Configurations\<close>

definition safe_name_byte :: "char \<Rightarrow> bool" where
  "safe_name_byte c \<longleftrightarrow> ascii_alphanumeric c \<or> c = CHR '' '' \<or> c = CHR ''-'' \<or> c = CHR ''_''"

text \<open>\<open>is_ascii_graphic\<close>; no graphic byte is white space.\<close>

definition ascii_graphic :: "char \<Rightarrow> bool" where
  "ascii_graphic c \<longleftrightarrow> 33 \<le> (of_char c :: nat) \<and> (of_char c :: nat) \<le> 126"

definition code_or_empty :: "public_table_config \<Rightarrow> string" where
  "code_or_empty c = (case pc_join_code c of None \<Rightarrow> [] | Some code \<Rightarrow> code)"

definition validate_config :: "public_table_config \<Rightarrow> table_registry_error + unit" where
  "validate_config c =
    (if pc_name c = [] \<or> MAX_PUBLIC_TABLE_NAME_BYTES < length (pc_name c) \<or> \<not> list_all safe_name_byte (pc_name c)
     then Inl (registry_error RegInvalidTableName
       (''table name must contain 1 to '' @ show_nat MAX_PUBLIC_TABLE_NAME_BYTES @ '' safe ASCII bytes''))
     else if pc_starting_stack c = 0
     then Inl (registry_error RegInvalidStartingStack ''starting stack must be positive'')
     else if pc_min_players c < 2 \<or> pc_seats c < pc_min_players c
     then Inl (registry_error RegInvalidCapacity ''minimum players must be between two and the table seat count'')
     else case pc_visibility c of
       VisPasswordProtected \<Rightarrow>
         (let password = code_or_empty c in
          if \<not> (4 \<le> length password \<and> length password \<le> 96) \<or> \<not> list_all ascii_graphic_or_space password
          then Inl (registry_error RegTableNotJoinable ''Password must contain 4-96 printable characters'')
          else Inr ())
     | VisPublic \<Rightarrow>
         (if pc_join_code c \<noteq> None
          then Inl (registry_error RegTableNotJoinable ''public tables cannot carry a private join credential'')
          else Inr ())
     | _ \<Rightarrow>
         (let code = code_or_empty c in
          if \<not> (MIN_PRIVATE_JOIN_CODE_BYTES \<le> length code \<and> length code \<le> MAX_PRIVATE_JOIN_CODE_BYTES)
             \<or> \<not> list_all ascii_graphic code
          then Inl (registry_error RegTableNotJoinable (''non-public table join credential must contain ''
            @ show_nat MIN_PRIVATE_JOIN_CODE_BYTES @ '' to '' @ show_nat MAX_PRIVATE_JOIN_CODE_BYTES
            @ '' printable non-space bytes''))
          else Inr ()))"

definition validate_stored_config :: "public_table_config \<Rightarrow> access_verifier option \<Rightarrow> table_registry_error + unit" where
  "validate_stored_config c verifier =
    (if pc_visibility c = VisPublic \<and> (verifier \<noteq> None \<or> pc_join_code c \<noteq> None)
     then Inl (registry_error RegInvalidCheckpoint ''public table cannot contain access verifier material'')
     else if pc_visibility c \<noteq> VisPublic \<and> (is_none_or verifier (\<lambda>v. \<not> verifier_valid v) \<or> pc_join_code c \<noteq> None)
     then Inl (registry_error RegInvalidCheckpoint
       ''non-public table requires one valid non-recoverable access verifier'')
     else validate_config (c\<lparr>pc_join_code :=
       (if pc_visibility c = VisPublic then None else Some ''checkpoint-validation-code'')\<rparr>))"

subsection \<open>Creating, listing and inspecting tables\<close>

definition registry_create :: "'g services \<Rightarrow> string \<Rightarrow> nat \<Rightarrow> public_table_config \<Rightarrow> u64 option \<Rightarrow> registry
    \<Rightarrow> public_table_summary registry_result" where
  "registry_create sv salt now config seed r =
     reg_sum id (validate_config config) r (\<lambda>_.
       if rg_max_tables r \<le> length (rg_tables r)
       then reg_fail (registry_error RegCapacityReached ''public table registry is at its configured capacity'') r
       else let table_id = rg_next_table_id r in
         reg_some (registry_error RegCapacityReached ''table identity space is exhausted'')
           (u64_checked_add (rg_next_table_id r) 1) r (\<lambda>following.
         let r = r\<lparr>rg_next_table_id := following\<rparr> in
         reg_expect (case pc_join_code config of
             None \<Rightarrow> Some None
           | Some code \<Rightarrow>
               if pc_visibility config = VisPasswordProtected
               then map_option Some (verifier_derive_password (sv_argon2 sv) salt code)
               else Some (Some (verifier_derive (sv_sha256 sv) salt code))) (\<lambda>access_verifier.
         let lifecycle = lifecycle_new (pc_seats config);
             t = \<lparr>gt_config = config\<lparr>pc_join_code := None\<rparr>, gt_access_verifier = access_verifier,
               gt_lifecycle = lifecycle, gt_durable_lifecycle = lifecycle, gt_deterministic_seed = seed,
               gt_tournament = None, gt_hand_id = None, gt_seat_sessions = [], gt_waiting = [],
               gt_pending_departures = [], gt_last_activity = now, gt_runtime = None\<rparr>
         in reg_expect (table_summary t table_id) (\<lambda>summary.
              reg_ok summary (bump_revision (put_table table_id t r))))))"

definition tournament_table_config :: "tournament_config \<Rightarrow> table_size \<Rightarrow> public_table_config" where
  "tournament_table_config config seats = \<lparr>pc_name = tc_name config, pc_seats = seats,
     pc_starting_stack = tc_starting_stack config, pc_min_players = tc_entrants config,
     pc_visibility = (if tc_join_code config = [] then VisPublic else VisPasswordProtected),
     pc_join_code = (if tc_join_code config = [] then None else Some (tc_join_code config))\<rparr>"

definition create_tournament :: "'g services \<Rightarrow> string \<Rightarrow> nat \<Rightarrow> tournament_config \<Rightarrow> u64 option \<Rightarrow> registry
    \<Rightarrow> public_table_summary registry_result" where
  "create_tournament sv salt now config seed r =
     reg_expect (tournament_new config) (\<lambda>created.
     reg_sum tournament_failure created r (\<lambda>controller.
     reg_sum (\<lambda>e. registry_error RegInvalidTournament (invalid_table_size_display e))
       (table_size_try_from (tc_entrants config)) r (\<lambda>seats.
     reg_then (registry_create sv salt now (tournament_table_config config seats) seed r) (\<lambda>summary r.
     reg_expect (bt_get (rg_tables r) (sm_table_id summary)) (\<lambda>t.
     let t = t\<lparr>gt_tournament := Some controller\<rparr>;
         r = put_table (sm_table_id summary) t r
     in reg_expect (table_summary t (sm_table_id summary)) (\<lambda>summary. reg_ok summary r))))))"

definition registry_list :: "public_table_filter \<Rightarrow> registry \<Rightarrow> public_table_summary list option" where
  "registry_list f r = map_option (filter (filter_matches f))
     (map_m (\<lambda>(table_id, t). table_summary t table_id)
       (filter (\<lambda>(table_id, t). pc_visibility (gt_config t) \<in> {VisPublic, VisPasswordProtected}) (rg_tables r)))"

definition inspect_with_access :: "'g services \<Rightarrow> table_id \<Rightarrow> string option \<Rightarrow> registry
    \<Rightarrow> public_table_summary registry_result" where
  "inspect_with_access sv table_id access_code r = with_table table_id r (\<lambda>t.
     if \<not> table_allows sv t access_code then reg_fail (unknown_table table_id) r
     else reg_expect (table_summary t table_id) (\<lambda>summary. reg_ok summary r))"

definition registry_inspect :: "'g services \<Rightarrow> table_id \<Rightarrow> registry \<Rightarrow> public_table_summary registry_result" where
  "registry_inspect sv table_id r = inspect_with_access sv table_id None r"

text \<open>
  The loop of \<open>health\<close> over the tables. A table without a runtime has the default metrics, which are all zero.
\<close>

definition authorized_metrics_default :: authorized_table_metrics where
  "authorized_metrics_default = \<lparr>tm_actor = table_actor_metrics_default, tm_active_bindings = 0,
     tm_connected_bindings = 0, tm_authorization_rejections = 0, tm_disconnects = 0, tm_deadline_warnings = 0,
     tm_timeout_actions = 0, tm_subscription_requests = 0, tm_subscription_deliveries = 0,
     tm_slow_subscribers_dropped = 0, tm_stream_sequence = 0, tm_now_tick = 0\<rparr>"

definition table_metrics :: "nat \<Rightarrow> registered_table
    \<Rightarrow> (authorized_table_error + authorized_table_metrics) \<times> registered_table" where
  "table_metrics now t = (case gt_runtime t of
     None \<Rightarrow> (Inr authorized_metrics_default, t)
   | Some w \<Rightarrow> (case handle_metrics now w of (m, w) \<Rightarrow> (m, t\<lparr>gt_runtime := Some w\<rparr>)))"

fun health_tables :: "nat \<Rightarrow> (table_id \<times> registered_table) list \<Rightarrow> registry
    \<Rightarrow> table_health_summary list registry_result" where
  "health_tables now [] r = reg_ok [] r"
| "health_tables now ((table_id, t) # rest) r =
     reg_expect (table_summary t table_id) (\<lambda>summary.
     case table_metrics now t of (metrics, t) \<Rightarrow>
     let r = put_table table_id t r in
     reg_sum authorized_failure metrics r (\<lambda>m.
     reg_then (health_tables now rest r) (\<lambda>table_health r.
     reg_ok (\<lparr>th_table_id = table_id, th_status = sm_status summary, th_hand_id = gt_hand_id t,
       th_occupied = sm_occupied summary, th_waiting = sm_waiting summary,
       th_stream_sequence = tm_stream_sequence m,
       th_accepted_commands = am_accepted_commands (tm_actor m),
       th_rejected_commands = am_rejected_commands (tm_actor m),
       th_authorization_rejections = tm_authorization_rejections m,
       th_disconnects = tm_disconnects m\<rparr> # table_health) r)))"

definition registry_health :: "nat \<Rightarrow> registry \<Rightarrow> registry_health registry_result" where
  "registry_health now r = reg_then (health_tables now (rg_tables r) r) (\<lambda>table_health r.
     reg_ok \<lparr>rh_healthy = True, rh_lobby_revision = rg_revision r, rh_table_capacity = rg_max_tables r,
       rh_tables = length (rg_tables r), rh_routed_sessions = length (rg_sessions r),
       rh_waiting_sessions = length (rg_waiting_sessions r),
       rh_active_capabilities = vault_active (rg_credentials r),
       rh_capability_capacity = DEFAULT_CREDENTIAL_CAPACITY,
       rh_retained_safe_histories = length (hi_histories (rg_history r)),
       rh_last_checkpoint_millis = rg_last_checkpoint_millis r,
       rh_max_checkpoint_millis = rg_max_checkpoint_millis r,
       rh_last_checkpoint_bytes = rg_last_checkpoint_bytes r,
       rh_checkpoint_version = REGISTRY_CHECKPOINT_VERSION,
       rh_recovery_boundary = ''latest_validated_between_hand_checkpoint'',
       rh_table_health = table_health\<rparr> r)"

subsection \<open>Reconnect tokens\<close>

definition set_reconnect_ttl :: "nat \<Rightarrow> registry \<Rightarrow> unit registry_result" where
  "set_reconnect_ttl ttl r =
    (if ttl = 0 \<or> 60 * 60 * 1000 < ttl
     then reg_fail (registry_error RegInvalidCapacity
       ''reconnect credential TTL must be between 1 and 3600 seconds'') r
     else reg_ok () (r\<lparr>rg_reconnect_ttl := ttl\<rparr>))"

definition not_routed :: "string \<Rightarrow> table_registry_error" where
  "not_routed message = registry_error RegSessionNotRouted message"

definition issue_reconnect_credential :: "'g services \<Rightarrow> string list \<Rightarrow> nat \<Rightarrow> guest_session_id \<Rightarrow> registry
    \<Rightarrow> reconnect_grant registry_result" where
  "issue_reconnect_credential sv drawn wall session r =
     reg_some (not_routed ''server-issued principal is not routed'') (bt_get (rg_sessions r) session) r (\<lambda>route.
     let scope = \<lparr>cs_table_id = ro_table_id route, cs_role = RoleReconnect\<rparr>;
         vault = snd (vault_revoke_principal session (rg_credentials r))
     in reg_expect (vault_issue (sv_sha256 sv) drawn wall session scope (rg_reconnect_ttl r) vault)
       (\<lambda>(issued, vault).
          let r = r\<lparr>rg_credentials := vault\<rparr> in
          reg_sum (\<lambda>_. registry_error RegCapacityReached ''reconnect credential capacity reached'') issued r
            (\<lambda>issued. reg_ok (ic_grant issued) r)))"

definition reconnect_refused :: "credential_error \<Rightarrow> table_registry_error" where
  "reconnect_refused e = not_routed ''reconnect credential is unknown, expired, revoked, or out of scope''"

text \<open>The end of both reconnections: the principal has a route, to the table that its token names.\<close>

definition check_scope :: "guest_session_id \<Rightarrow> credential_scope \<Rightarrow> registry \<Rightarrow> unit registry_result" where
  "check_scope session scope r =
     reg_some (not_routed ''reconnect credential has no live route'') (bt_get (rg_sessions r) session) r (\<lambda>route.
     if ro_table_id route \<noteq> cs_table_id scope
     then reg_fail (registry_error RegWrongTable ''reconnect credential scope does not match its route'') r
     else reg_ok () r)"

definition authenticate_and_rotate_reconnect :: "'g services \<Rightarrow> string list \<Rightarrow> nat \<Rightarrow> bearer_token \<Rightarrow> registry
    \<Rightarrow> (guest_session_id \<times> reconnect_grant) registry_result" where
  "authenticate_and_rotate_reconnect sv drawn wall token r =
     reg_expect (vault_authenticate_and_rotate (sv_sha256 sv) drawn wall token RoleReconnect (rg_reconnect_ttl r)
         (rg_credentials r)) (\<lambda>(issued, vault).
     let r = r\<lparr>rg_credentials := vault\<rparr> in
     reg_sum reconnect_refused issued r (\<lambda>issued.
     reg_then (check_scope (ic_principal issued) (ic_scope issued) r) (\<lambda>_ r.
     reg_ok (ic_principal issued, ic_grant issued) r)))"

definition identify_reconnect :: "'g services \<Rightarrow> nat \<Rightarrow> bearer_token \<Rightarrow> registry
    \<Rightarrow> guest_session_id registry_result" where
  "identify_reconnect sv wall token r =
    (case vault_authenticate (sv_sha256 sv) wall token RoleReconnect (rg_credentials r) of (found, vault) \<Rightarrow>
     let r = r\<lparr>rg_credentials := vault\<rparr> in
     reg_sum reconnect_refused found r (\<lambda>(session, scope).
     reg_then (check_scope session scope r) (\<lambda>_ r. reg_ok session r)))"

end
