(* ===== verification/Registry_Tables.thy ===== *)
theory Registry_Tables
  imports Registry
begin

text \<open>
  How sessions come to tables and leave them, and how the registry starts and ends the hands of a table
  (src/src/table_registry.rs): admission, the waiting list, routes, the rollover of a completed hand, the breaks
  of a tournament, safe histories, and the removal of idle tables.
\<close>

subsection \<open>A new hand\<close>

text \<open>The loop that binds the sessions of a table to its new worker; a restored table disconnects each at once.\<close>

fun bind_sessions :: "nat \<Rightarrow> table_id \<Rightarrow> hand_id \<Rightarrow> bool \<Rightarrow> (seat_id \<times> guest_session_id) list \<Rightarrow> worker
    \<Rightarrow> (authorized_table_error + unit) \<times> worker" where
  "bind_sessions now table_id hand_id restored [] w = (Inr (), w)"
| "bind_sessions now table_id hand_id restored ((s, session) # rest) w =
    (case handle_bind now session table_id hand_id (RolePlayer s) w of
       (Inl e, w) \<Rightarrow> (Inl e, w)
     | (Inr _, w) \<Rightarrow>
       (if restored then
          (case handle_disconnect now session w of
             (Inl e, w) \<Rightarrow> (Inl e, w)
           | (Inr _, w) \<Rightarrow> bind_sessions now table_id hand_id restored rest w)
        else bind_sessions now table_id hand_id restored rest w))"

definition deal_hand :: "'g services \<Rightarrow> hand_id \<Rightarrow> hand_start \<Rightarrow> table_size \<Rightarrow> u64 option
    \<Rightarrow> tournament_controller option \<Rightarrow> (config_error + multiway_hand) option" where
  "deal_hand sv hand_id start seats seed tournament = (case tournament of
     Some controller \<Rightarrow> do {
       blinds \<leftarrow> current_blinds controller;
       into_hand_with_blinds (sv_shuffle sv) (sv_production sv hand_id) (sv_seeded sv) start seats seed blinds }
   | None \<Rightarrow> into_hand (sv_shuffle sv) (sv_production sv hand_id) (sv_seeded sv) start seats seed)"

text \<open>
  The sequence that four methods have to start a hand: begin it in the lifecycle, take its identity, deal it,
  spawn its worker and bind the sessions. The result is the lifecycle, the next hand identity and the worker.
\<close>

definition prepare_hand :: "'g services \<Rightarrow> nat \<Rightarrow> bool \<Rightarrow> table_id \<Rightarrow> hand_id \<Rightarrow> table_size \<Rightarrow> (hand_start \<Rightarrow> u64 option)
    \<Rightarrow> tournament_controller option \<Rightarrow> (seat_id \<times> guest_session_id) list \<Rightarrow> table_lifecycle
    \<Rightarrow> (table_registry_error + table_lifecycle \<times> u64 \<times> worker) option" where
  "prepare_hand sv now restored table_id hand_id seats seed tournament seat_sessions l = do {
     (begun, l) \<leftarrow> begin_hand l;
     (case begun of
        Inl e \<Rightarrow> Some (Inl (lifecycle_failure e))
      | Inr start \<Rightarrow>
        (case u64_checked_add hand_id 1 of
           None \<Rightarrow> Some (Inl (registry_error RegAuthorityFailure ''hand identity space is exhausted''))
         | Some following \<Rightarrow> do {
             dealt \<leftarrow> deal_hand sv hand_id start seats (seed start) tournament;
             (case dealt of
                Inl e \<Rightarrow> Some (Inl (registry_error RegAuthorityFailure (config_error_display e)))
              | Inr hand \<Rightarrow>
                (case bind_sessions now table_id hand_id restored seat_sessions
                     (Some (runtime_spawn (authority_new_paced table_id hand_id hand))) of
                   (Inl e, w) \<Rightarrow> Some (Inl (authorized_failure e))
                 | (Inr _, w) \<Rightarrow> Some (Inr (l, following, w)))) })) }"

text \<open>\<open>deterministic_seed.map(|seed| seed.wrapping_add(start.number - 1))\<close>\<close>

definition successor_seed :: "u64 option \<Rightarrow> hand_start \<Rightarrow> u64 option" where
  "successor_seed seed start = map_option (\<lambda>seed. u64_add seed (u64_sub (hs_number start) 1)) seed"

subsection \<open>Joining\<close>

definition seat_available :: "table_lifecycle \<Rightarrow> seat_id \<Rightarrow> bool" where
  "seat_available l s \<longleftrightarrow> table_seat (lc_seats l) s = None
     \<and> list_all (\<lambda>(reserved, owner). reserved \<noteq> s) (lc_reservations l)"

definition find_seat :: "table_size \<Rightarrow> table_lifecycle \<Rightarrow> seat_id option \<Rightarrow> seat_id option" where
  "find_seat seats l requested = (case requested of
     Some s \<Rightarrow> if table_contains seats s \<and> seat_available l s then Some s else None
   | None \<Rightarrow> first_match (seat_available l) (table_size_seats seats))"

definition choose_seat :: "table_size \<Rightarrow> table_lifecycle \<Rightarrow> seat_id option \<Rightarrow> table_registry_error + seat_id" where
  "choose_seat seats l requested = (case find_seat seats l requested of
     Some s \<Rightarrow> Inr s
   | None \<Rightarrow> Inl (registry_error RegSeatUnavailable
       (if requested = None then ''table has no available seat''
        else ''requested seat is outside the table or unavailable'')))"

definition enroll :: "nat \<Rightarrow> player_id \<Rightarrow> seat_id \<Rightarrow> tournament_controller option
    \<Rightarrow> (tournament_error + tournament_controller option) option" where
  "enroll min_players player s tournament = (case tournament of
     None \<Rightarrow> Some (Inr None)
   | Some c \<Rightarrow>
     (case register c \<lparr>te_player = player, te_seat = s\<rparr> of
        Inl e \<Rightarrow> Some (Inl e)
      | Inr c \<Rightarrow> do {
          state \<leftarrow> public_state c;
          if tp_registered state = min_players then
            (case tournament_start c of Inl e \<Rightarrow> Some (Inl e) | Inr c \<Rightarrow> Some (Inr (Some c)))
          else Some (Inr (Some c)) }))"

record join_outcome =
  jo_table :: public_table_summary
  jo_seat :: seat_id
  jo_hand_id :: "hand_id option"
  jo_ready :: bool

text \<open>The first hand of a table that is ready with the new player, if it is.\<close>

definition prepare_join :: "'g services \<Rightarrow> nat \<Rightarrow> table_id \<Rightarrow> hand_id \<Rightarrow> table_lifecycle \<Rightarrow> registered_table
    \<Rightarrow> (table_registry_error + (table_lifecycle \<times> u64 \<times> worker) option) option" where
  "prepare_join sv now table_id hand_id lifecycle t =
    (let ready = (case gt_tournament t of
           None \<Rightarrow> pc_min_players (gt_config t) \<le> eligible_count lifecycle
         | Some c \<Rightarrow> tr_status c = TRunning)
     in if ready
        then map_option (map_sum id Some) (prepare_hand sv now False table_id hand_id (pc_seats (gt_config t))
          (\<lambda>start. gt_deterministic_seed t) (gt_tournament t) (gt_seat_sessions t) lifecycle)
        else Some (Inr None))"

definition install_join :: "guest_session_id \<Rightarrow> table_id \<Rightarrow> seat_id \<Rightarrow> player_id \<Rightarrow> u64
    \<Rightarrow> (table_lifecycle \<times> u64 \<times> worker) option \<Rightarrow> registered_table \<Rightarrow> registry \<Rightarrow> join_outcome registry_result" where
  "install_join session table_id s player next_player_id prepared t r =
    (let (t, next_hand_id) = (case prepared of
           None \<Rightarrow> (t, rg_next_hand_id r)
         | Some (lifecycle, following, w) \<Rightarrow> (t\<lparr>gt_lifecycle := lifecycle,
             gt_hand_id := Some (rg_next_hand_id r), gt_runtime := Some w\<rparr>, following));
         r = bump_revision ((put_table table_id t r)\<lparr>rg_next_player_id := next_player_id,
           rg_next_hand_id := next_hand_id,
           rg_retired_updates := bt_remove session (rg_retired_updates r),
           rg_sessions := bt_insert session
             \<lparr>ro_table_id = table_id, ro_player = player, ro_seat = s\<rparr> (rg_sessions r)\<rparr>)
     in reg_expect (table_summary t table_id) (\<lambda>summary.
        reg_ok \<lparr>jo_table = summary, jo_seat = s, jo_hand_id = gt_hand_id t, jo_ready = (gt_runtime t \<noteq> None)\<rparr> r))"

definition registry_join :: "'g services \<Rightarrow> nat \<Rightarrow> guest_session_id \<Rightarrow> table_id \<Rightarrow> seat_id option \<Rightarrow> registry
    \<Rightarrow> join_outcome registry_result" where
  "registry_join sv now session table_id requested_seat r =
    (if bt_get (rg_sessions r) session \<noteq> None
     then reg_fail (registry_error RegSessionAlreadyRouted ''guest session is already assigned to a table'') r
     else let player = rg_next_player_id r in
       reg_some (registry_error RegAuthorityFailure ''player identity space is exhausted'')
         (u64_checked_add (rg_next_player_id r) 1) r (\<lambda>next_player_id.
       with_table table_id r (\<lambda>t.
       if gt_runtime t \<noteq> None \<or> lc_state (gt_lifecycle t) = Closed
       then reg_fail (registry_error RegTableNotJoinable
         ''table is not accepting between-hand joins in this slice'') r
       else let config = gt_config t in
         reg_sum id (choose_seat (pc_seats config) (gt_lifecycle t) requested_seat) r (\<lambda>s.
         case join (gt_lifecycle t) player s (pc_starting_stack config) of (joined, lifecycle) \<Rightarrow>
         reg_sum lifecycle_failure joined r (\<lambda>_.
         reg_expect (enroll (pc_min_players config) player s (gt_tournament t)) (\<lambda>enrolled.
         reg_sum tournament_failure enrolled r (\<lambda>tournament.
         let t = t\<lparr>gt_lifecycle := lifecycle, gt_durable_lifecycle := lifecycle,
               gt_seat_sessions := bt_insert s session (gt_seat_sessions t),
               gt_tournament := tournament, gt_last_activity := now\<rparr>
         in reg_expect (prepare_join sv now table_id (rg_next_hand_id r) lifecycle t) (\<lambda>prepared.
            reg_sum id prepared r (\<lambda>prepared.
            install_join session table_id s player next_player_id prepared t r)))))))))"

subsection \<open>Waiting\<close>

record wait_outcome =
  wo_table :: public_table_summary
  wo_position :: nat

datatype admission_outcome = AdmissionJoined join_outcome | AdmissionWaiting wait_outcome

definition join_or_wait_with_access :: "'g services \<Rightarrow> nat \<Rightarrow> guest_session_id \<Rightarrow> table_id \<Rightarrow> seat_id option
    \<Rightarrow> string option \<Rightarrow> registry \<Rightarrow> admission_outcome registry_result" where
  "join_or_wait_with_access sv now session table_id requested_seat access_code r =
    (if bt_get (rg_sessions r) session \<noteq> None \<or> bt_get (rg_waiting_sessions r) session \<noteq> None
     then reg_fail (registry_error RegSessionAlreadyRouted ''guest session already has a seat or waiting entry'') r
     else with_table table_id r (\<lambda>t.
       if \<not> table_allows sv t access_code then reg_fail (unknown_table table_id) r
       else if \<not> is_none_or (gt_tournament t) (\<lambda>c. tr_status c = Registering)
       then reg_fail (registry_error RegTableNotJoinable ''tournament registration is locked'') r
       else if lc_state (gt_lifecycle t) = Closed
       then reg_fail (registry_error RegTableNotJoinable ''table is closed'') r
       else
        (let l = gt_lifecycle t;
             has_requested_seat = is_none_or requested_seat
               (\<lambda>s. table_contains (pc_seats (gt_config t)) s \<and> seat_available l s);
             has_any_seat = occupied_count (lc_seats l) + length (lc_reservations l) < pc_seats (gt_config t)
         in if gt_runtime t = None \<and> has_requested_seat \<and> has_any_seat
            then reg_then (registry_join sv now session table_id requested_seat r)
              (\<lambda>outcome r. reg_ok (AdmissionJoined outcome) r)
            else if MAX_TABLE_WAITING_ENTRIES \<le> length (gt_waiting t)
            then reg_fail (registry_error RegWaitlistFull ''table waiting list is at its bounded capacity'') r
            else
             (let t = t\<lparr>gt_waiting := gt_waiting t
                    @ [\<lparr>we_session = session, we_requested_seat = requested_seat\<rparr>], gt_last_activity := now\<rparr>;
                  r = bump_revision ((put_table table_id t r)\<lparr>rg_waiting_sessions :=
                    bt_insert session table_id (rg_waiting_sessions r)\<rparr>)
              in reg_expect (table_summary t table_id) (\<lambda>summary.
                 reg_expect (u8_try_from (length (gt_waiting t))) (\<lambda>position.
                 reg_ok (AdmissionWaiting \<lparr>wo_table = summary, wo_position = position\<rparr>) r))))))"

definition join_or_wait :: "'g services \<Rightarrow> nat \<Rightarrow> guest_session_id \<Rightarrow> table_id \<Rightarrow> seat_id option \<Rightarrow> registry
    \<Rightarrow> admission_outcome registry_result" where
  "join_or_wait sv now session table_id requested_seat r =
     join_or_wait_with_access sv now session table_id requested_seat None r"

definition join_status :: "guest_session_id \<Rightarrow> registry \<Rightarrow> join_outcome registry_result" where
  "join_status session r =
     reg_some (not_routed ''guest session has not joined a table'') (bt_get (rg_sessions r) session) r (\<lambda>route.
     with_table (ro_table_id route) r (\<lambda>t.
     reg_expect (table_summary t (ro_table_id route)) (\<lambda>summary.
     reg_ok \<lparr>jo_table = summary, jo_seat = ro_seat route, jo_hand_id = gt_hand_id t,
       jo_ready = (gt_runtime t \<noteq> None)\<rparr> r)))"

text \<open>\<open>iter().position(_)\<close>\<close>

fun waiting_position :: "guest_session_id \<Rightarrow> waiting_entry list \<Rightarrow> nat option" where
  "waiting_position session [] = None"
| "waiting_position session (e # es) =
    (if we_session e = session then Some 0 else map_option Suc (waiting_position session es))"

definition admission_status :: "guest_session_id \<Rightarrow> registry \<Rightarrow> admission_outcome registry_result" where
  "admission_status session r =
    (if bt_get (rg_sessions r) session \<noteq> None
     then reg_then (join_status session r) (\<lambda>outcome r. reg_ok (AdmissionJoined outcome) r)
     else
       reg_some (not_routed ''guest session has not joined or queued'') (bt_get (rg_waiting_sessions r) session) r
         (\<lambda>table_id.
       with_table table_id r (\<lambda>t.
       reg_expect (waiting_position session (gt_waiting t)) (\<lambda>position.
       reg_expect (table_summary t table_id) (\<lambda>summary.
       reg_expect (u8_try_from (position + 1)) (\<lambda>position.
       reg_ok (AdmissionWaiting \<lparr>wo_table = summary, wo_position = position\<rparr>) r))))))"

subsection \<open>Leaving\<close>

definition cancel_registration :: "nat \<Rightarrow> guest_session_id \<Rightarrow> session_route \<Rightarrow> table_id \<Rightarrow> registry
    \<Rightarrow> unit registry_result" where
  "cancel_registration now session route table_id r = with_table table_id r (\<lambda>t.
     if ro_table_id route \<noteq> table_id \<or> gt_runtime t \<noteq> None
        \<or> is_none_or (gt_tournament t) (\<lambda>c. tr_status c \<noteq> Registering)
     then reg_fail (registry_error RegSessionNotWaiting ''registration is already locked'') r
     else
       reg_expect (request_leave (gt_lifecycle t) (ro_player route)) (\<lambda>(left, lifecycle).
       reg_sum lifecycle_failure left r (\<lambda>_.
       reg_expect (gt_tournament t) (\<lambda>controller.
       reg_sum tournament_failure (unregister controller (ro_player route)) r (\<lambda>controller.
       let t = t\<lparr>gt_tournament := Some controller, gt_lifecycle := lifecycle, gt_durable_lifecycle := lifecycle,
             gt_seat_sessions := bt_remove (ro_seat route) (gt_seat_sessions t), gt_last_activity := now\<rparr>
       in reg_ok () (bump_revision ((put_table table_id t r)\<lparr>rg_sessions :=
            bt_remove session (rg_sessions r)\<rparr>)))))))"

definition cancel_wait :: "nat \<Rightarrow> guest_session_id \<Rightarrow> table_id \<Rightarrow> registry \<Rightarrow> unit registry_result" where
  "cancel_wait now session table_id r = (case bt_get (rg_sessions r) session of
     Some route \<Rightarrow> cancel_registration now session route table_id r
   | None \<Rightarrow>
     (if bt_get (rg_waiting_sessions r) session \<noteq> Some table_id
      then reg_fail (registry_error RegSessionNotWaiting ''guest session has no matching waiting entry'') r
      else with_table table_id r (\<lambda>t.
        let t = t\<lparr>gt_waiting := filter (\<lambda>e. we_session e \<noteq> session) (gt_waiting t), gt_last_activity := now\<rparr>
        in reg_ok () (bump_revision ((put_table table_id t r)\<lparr>rg_waiting_sessions :=
             bt_remove session (rg_waiting_sessions r)\<rparr>)))))"

definition cancel_pending_registration :: "nat \<Rightarrow> guest_session_id \<Rightarrow> registry \<Rightarrow> registry option" where
  "cancel_pending_registration now session r =
    (case (case bt_get (rg_waiting_sessions r) session of
             Some table_id \<Rightarrow> Some table_id
           | None \<Rightarrow> map_option ro_table_id (bt_get (rg_sessions r) session)) of
       None \<Rightarrow> Some r
     | Some table_id \<Rightarrow> map_option snd (cancel_wait now session table_id r))"

definition registry_request_leave :: "nat \<Rightarrow> guest_session_id \<Rightarrow> registry \<Rightarrow> unit registry_result" where
  "registry_request_leave now session r =
     reg_some (not_routed ''guest session has not joined a table'') (bt_get (rg_sessions r) session) r (\<lambda>route.
     with_table (ro_table_id route) r (\<lambda>t.
     reg_expect (request_leave (gt_lifecycle t) (ro_player route)) (\<lambda>(left, lifecycle).
     let t = t\<lparr>gt_lifecycle := lifecycle\<rparr> in
     reg_sum lifecycle_failure left (put_table (ro_table_id route) t r) (\<lambda>_.
     let t = t\<lparr>gt_pending_departures := bset_insert session (gt_pending_departures t), gt_last_activity := now\<rparr>
     in reg_ok () (bump_revision (put_table (ro_table_id route) t r))))))"

subsection \<open>Routes\<close>

record table_route =
  tb_table_id :: table_id
  tb_hand_id :: hand_id
  tb_seat :: seat_id

text \<open>The route of a session to its worker; the handle is the worker of that table.\<close>

definition registry_route :: "guest_session_id \<Rightarrow> table_id \<Rightarrow> registry \<Rightarrow> table_route registry_result" where
  "registry_route session requested_table r =
     reg_some (not_routed ''guest session has not joined a table'') (bt_get (rg_sessions r) session) r (\<lambda>binding.
     if ro_table_id binding \<noteq> requested_table
     then reg_fail (registry_error RegWrongTable ''guest session is bound to a different table'') r
     else with_table (ro_table_id binding) r (\<lambda>t.
       reg_some (registry_error RegTableNotReady ''table is waiting for enough eligible players'') (gt_runtime t) r
         (\<lambda>handle. reg_expect (gt_hand_id t) (\<lambda>hand_id.
       reg_ok \<lparr>tb_table_id = ro_table_id binding, tb_hand_id = hand_id, tb_seat = ro_seat binding\<rparr> r))))"

definition route_for_session :: "guest_session_id \<Rightarrow> registry \<Rightarrow> table_route registry_result" where
  "route_for_session session r =
     reg_some (not_routed ''guest session has not joined a table'') (bt_get (rg_sessions r) session) r
       (\<lambda>route. registry_route session (ro_table_id route) r)"

definition player_for_session :: "guest_session_id \<Rightarrow> registry \<Rightarrow> player_id option" where
  "player_for_session session r = map_option ro_player (bt_get (rg_sessions r) session)"

definition tournament_break_pending :: "guest_session_id \<Rightarrow> registry \<Rightarrow> bool" where
  "tournament_break_pending session r =
    (case do { route \<leftarrow> bt_get (rg_sessions r) session; t \<leftarrow> bt_get (rg_tables r) (ro_table_id route); gt_tournament t } of
       None \<Rightarrow> False
     | Some c \<Rightarrow> tr_status c = TBreak)"

definition take_retired_update :: "guest_session_id \<Rightarrow> registry \<Rightarrow> subscription_update option \<times> registry" where
  "take_retired_update session r = (bt_get (rg_retired_updates r) session,
     r\<lparr>rg_retired_updates := bt_remove session (rg_retired_updates r)\<rparr>)"

end
