(* ===== verification/Registry_Hands.thy ===== *)
theory Registry_Hands
  imports Registry_Tables
begin

text \<open>
  The registry between hands (src/src/table_registry.rs): the rollover of a completed hand, safe histories, the
  breaks of a tournament, and the removal of idle tables.
\<close>

subsection \<open>The end of a hand\<close>

text \<open>The terminal snapshots of the bound sessions, up to the first error.\<close>

fun terminal_updates :: "nat \<Rightarrow> u64 \<Rightarrow> (seat_id \<times> guest_session_id) list \<Rightarrow> worker
    \<Rightarrow> (authorized_table_error + (guest_session_id \<times> subscription_update) list) \<times> worker" where
  "terminal_updates now sequence [] w = (Inr [], w)"
| "terminal_updates now sequence ((s, session) # rest) w =
    (case handle_bound_snapshot now session w of
       (Inl e, w) \<Rightarrow> (Inl e, w)
     | (Inr sn, w) \<Rightarrow>
       (case terminal_updates now sequence rest w of
          (Inl e, w) \<Rightarrow> (Inl e, w)
        | (Inr updates, w) \<Rightarrow> (Inr ((session, \<lparr>su_stream_sequence = sequence, su_reason = ReasonInitial,
            su_event = None, su_snapshot = sn, su_deadline = None\<rparr>) # updates), w)))"

text \<open>The lifecycle and the tournament after the hand; \<open>elapsed\<close> is the time since the table's last activity.\<close>

definition settle_tournament :: "nat \<Rightarrow> (seat_id \<times> u32) list \<Rightarrow> (seat_id \<times> u32) list
    \<Rightarrow> tournament_controller option \<Rightarrow> (tournament_error + tournament_controller option) option" where
  "settle_tournament elapsed starting final tournament = (case tournament of
     None \<Rightarrow> Some (Inr None)
   | Some c \<Rightarrow> do {
       c \<leftarrow> tick_between_hands (min elapsed (u64_bound - 1)) c;
       (completed, c) \<leftarrow> tournament_complete_hand c starting final;
       (case completed of Inl e \<Rightarrow> Some (Inl e) | Inr _ \<Rightarrow> Some (Inr (Some c))) })"

definition depart :: "guest_session_id \<Rightarrow> (seat_id, guest_session_id) btree \<times> registry
    \<Rightarrow> (seat_id, guest_session_id) btree \<times> registry" where
  "depart session = (\<lambda>(seat_sessions, r). case bt_get (rg_sessions r) session of
     None \<Rightarrow> (seat_sessions, r)
   | Some route \<Rightarrow> (bt_remove (ro_seat route) seat_sessions,
       r\<lparr>rg_sessions := bt_remove session (rg_sessions r)\<rparr>))"

text \<open>
  The loop that seats the waiting sessions in their order; it stops at the first that has to wait on. The
  result are the lifecycle, the bindings and the sessions that still wait.
\<close>

fun admit_waiting :: "table_id \<Rightarrow> public_table_config \<Rightarrow> waiting_entry list \<Rightarrow> table_lifecycle
    \<Rightarrow> (seat_id, guest_session_id) btree \<Rightarrow> registry
    \<Rightarrow> (table_lifecycle \<times> (seat_id, guest_session_id) btree \<times> waiting_entry list) registry_result" where
  "admit_waiting table_id config [] l seat_sessions r = reg_ok (l, seat_sessions, []) r"
| "admit_waiting table_id config (entry # rest) l seat_sessions r =
    (case find_seat (pc_seats config) l (we_requested_seat entry) of
       None \<Rightarrow> reg_ok (l, seat_sessions, entry # rest) r
     | Some s \<Rightarrow>
       (let player = rg_next_player_id r in
        reg_some (registry_error RegAuthorityFailure ''player identity space is exhausted'')
          (u64_checked_add (rg_next_player_id r) 1) r (\<lambda>next_player_id.
        let r = r\<lparr>rg_next_player_id := next_player_id\<rparr> in
        reg_expect (join_with_entry l player s (pc_starting_stack config) PostLiveBigBlind) (\<lambda>(joined, l).
        reg_sum lifecycle_failure joined r (\<lambda>_.
        admit_waiting table_id config rest l (bt_insert s (we_session entry) seat_sessions)
          (r\<lparr>rg_waiting_sessions := bt_remove (we_session entry) (rg_waiting_sessions r),
             rg_sessions := bt_insert (we_session entry)
               \<lparr>ro_table_id = table_id, ro_player = player, ro_seat = s\<rparr> (rg_sessions r)\<rparr>))))))"

definition rests :: "tournament_controller option \<Rightarrow> bool" where
  "rests tournament = (case tournament of
     None \<Rightarrow> False
   | Some c \<Rightarrow> tr_status c = TBreak \<or> tr_status c = TComplete \<or> tr_status c = TCancelled)"

definition minimum_remaining :: "public_table_config \<Rightarrow> tournament_controller option \<Rightarrow> nat" where
  "minimum_remaining config tournament = (if tournament \<noteq> None then 2 else pc_min_players config)"

text \<open>The table after the reconciliation: it rests without a worker, or it has the next hand.\<close>

definition install_successor :: "'g services \<Rightarrow> nat \<Rightarrow> table_id \<Rightarrow> table_lifecycle
    \<Rightarrow> (seat_id, guest_session_id) btree \<Rightarrow> waiting_entry list \<Rightarrow> tournament_controller option
    \<Rightarrow> registered_table \<Rightarrow> registry \<Rightarrow> hand_id option registry_result" where
  "install_successor sv now table_id lifecycle seat_sessions waiting tournament t r =
    (let settled = t\<lparr>gt_durable_lifecycle := lifecycle, gt_seat_sessions := seat_sessions,
           gt_waiting := waiting, gt_pending_departures := [], gt_tournament := tournament,
           gt_last_activity := now\<rparr>
     in if eligible_count lifecycle < minimum_remaining (gt_config t) tournament \<or> rests tournament
        then reg_ok None (bump_revision (put_table table_id
          (settled\<lparr>gt_lifecycle := lifecycle, gt_hand_id := None, gt_runtime := None\<rparr>) r))
        else
          reg_expect (prepare_hand sv now False table_id (rg_next_hand_id r) (pc_seats (gt_config t))
            (successor_seed (gt_deterministic_seed t)) tournament seat_sessions lifecycle) (\<lambda>prepared.
          reg_sum id prepared r (\<lambda>(lifecycle, following, w).
          reg_ok (Some (rg_next_hand_id r)) (bump_revision ((put_table table_id
            (settled\<lparr>gt_lifecycle := lifecycle, gt_hand_id := Some (rg_next_hand_id r), gt_runtime := Some w\<rparr>) r)
            \<lparr>rg_next_hand_id := following\<rparr>)))))"

definition reconcile :: "'g services \<Rightarrow> nat \<Rightarrow> table_id \<Rightarrow> (seat_id \<times> u32) list \<Rightarrow> registered_table \<Rightarrow> registry
    \<Rightarrow> hand_id option registry_result" where
  "reconcile sv now table_id final t r =
     reg_expect (complete_hand (gt_lifecycle t) final) (\<lambda>(completed, lifecycle).
     reg_sum lifecycle_failure completed r (\<lambda>_.
     reg_expect (settle_tournament (now - gt_last_activity t) (lifecycle_stacks (gt_lifecycle t)) final
       (gt_tournament t)) (\<lambda>settled.
     reg_sum tournament_failure settled r (\<lambda>tournament.
     case fold depart (gt_pending_departures t) (gt_seat_sessions t, r) of (seat_sessions, r) \<Rightarrow>
     let seat_sessions = filter (\<lambda>(s, session). table_seat (lc_seats lifecycle) s \<noteq> None) seat_sessions
     in reg_then (if tournament = None
            then admit_waiting table_id (gt_config t) (gt_waiting t) lifecycle seat_sessions r
            else reg_ok (lifecycle, seat_sessions, gt_waiting t) r)
          (\<lambda>(lifecycle, seat_sessions, waiting) r.
             install_successor sv now table_id lifecycle seat_sessions waiting tournament t r)))))"

definition rollover_completed_hand :: "'g services \<Rightarrow> nat \<Rightarrow> table_id \<Rightarrow> hand_id \<Rightarrow> registry
    \<Rightarrow> hand_id option registry_result" where
  "rollover_completed_hand sv now table_id expected_hand_id r = with_table table_id r (\<lambda>t.
     if gt_hand_id t \<noteq> Some expected_hand_id then reg_ok None r
     else
       reg_some (registry_error RegAuthorityFailure ''running table has no bound player session'')
         (case gt_seat_sessions t of [] \<Rightarrow> None | (s, session) # _ \<Rightarrow> Some session) r (\<lambda>sample_session.
       reg_some (registry_error RegTableNotReady ''table has no runtime'') (gt_runtime t) r (\<lambda>w.
       case handle_bound_snapshot now sample_session w of (terminal, w) \<Rightarrow>
       let r = put_table table_id (t\<lparr>gt_runtime := Some w\<rparr>) r in
       reg_sum authorized_failure terminal r (\<lambda>terminal.
       if sn_hand_id terminal \<noteq> expected_hand_id \<or> \<not> terminal_phase (pj_phase (sn_snapshot terminal))
       then reg_fail (registry_error RegHandNotComplete ''only a terminal authoritative hand can roll over'') r
       else case handle_metrics now w of (metrics, w) \<Rightarrow>
       let r = put_table table_id (t\<lparr>gt_runtime := Some w\<rparr>) r in
       reg_sum authorized_failure metrics r (\<lambda>m.
       case terminal_updates now (tm_stream_sequence m) (gt_seat_sessions t) w of (updates, w) \<Rightarrow>
       let t = t\<lparr>gt_runtime := Some w\<rparr>;
           r = put_table table_id t r
       in reg_sum authorized_failure updates r (\<lambda>updates.
          reconcile sv now table_id (map (\<lambda>p. (ps_seat p, ps_stack p)) (pj_seats (sn_snapshot terminal))) t
            (r\<lparr>rg_retired_updates := fold (\<lambda>(session, update). bt_insert session update) updates
               (rg_retired_updates r)\<rparr>)))))))"

subsection \<open>Safe histories\<close>

definition finalize_safe_history :: "nat \<Rightarrow> table_id \<Rightarrow> hand_id \<Rightarrow> registry \<Rightarrow> unit registry_result" where
  "finalize_safe_history now table_id hand_id r = with_table table_id r (\<lambda>t.
     if gt_hand_id t \<noteq> Some hand_id
     then reg_fail (registry_error RegWrongTable ''safe history finalization targets a different hand'') r
     else
       reg_some (registry_error RegTableNotReady ''safe history requires a running authority'') (gt_runtime t) r
         (\<lambda>w.
       case handle_safe_history_material now w of (material, w) \<Rightarrow>
       let r = put_table table_id (t\<lparr>gt_runtime := Some w\<rparr>) r in
       reg_sum authorized_failure material r (\<lambda>(terminal, events).
       reg_sum (\<lambda>_. registry_error RegAuthorityFailure ''terminal public history construction failed closed'')
         (from_public_terminal terminal events) r (\<lambda>history.
       reg_ok () (r\<lparr>rg_history := history_record history (rg_history r)\<rparr>)))))"

text \<open>The hands that are over, by the public snapshot of each worker.\<close>

fun ready_hands :: "nat \<Rightarrow> (table_id \<times> registered_table) list \<Rightarrow> registry
    \<Rightarrow> (table_id \<times> hand_id) list registry_result" where
  "ready_hands now [] r = reg_ok [] r"
| "ready_hands now ((table_id, t) # rest) r =
    (case (gt_hand_id t, gt_runtime t) of
       (Some hand_id, Some w) \<Rightarrow>
         (case handle_safe_history_material now w of (material, w) \<Rightarrow>
          let r = put_table table_id (t\<lparr>gt_runtime := Some w\<rparr>) r in
          reg_sum authorized_failure material r (\<lambda>(snapshot, events).
          reg_then (ready_hands now rest r) (\<lambda>ready r.
          reg_ok (if terminal_phase (pj_phase (sn_snapshot snapshot)) then (table_id, hand_id) # ready else ready) r)))
     | _ \<Rightarrow> ready_hands now rest r)"

fun finalize_hands :: "'g services \<Rightarrow> nat \<Rightarrow> (table_id \<times> hand_id) list \<Rightarrow> registry \<Rightarrow> unit registry_result" where
  "finalize_hands sv now [] r = reg_ok () r"
| "finalize_hands sv now ((table_id, hand_id) # rest) r =
     reg_then (finalize_safe_history now table_id hand_id r) (\<lambda>_ r.
     reg_then (rollover_completed_hand sv now table_id hand_id r) (\<lambda>_ r.
     finalize_hands sv now rest r))"

definition finalize_ready_hands :: "'g services \<Rightarrow> nat \<Rightarrow> registry \<Rightarrow> nat registry_result" where
  "finalize_ready_hands sv now r = reg_then (ready_hands now (rg_tables r) r) (\<lambda>ready r.
     reg_then (finalize_hands sv now ready r) (\<lambda>_ r. reg_ok (length ready) r))"

subsection \<open>Breaks\<close>

definition start_waiting_tournament_hand :: "'g services \<Rightarrow> nat \<Rightarrow> table_id \<Rightarrow> registry \<Rightarrow> hand_id registry_result" where
  "start_waiting_tournament_hand sv now table_id r = with_table table_id r (\<lambda>t.
     reg_some (registry_error RegInvalidTournament ''successor requires a tournament controller'')
       (gt_tournament t) r (\<lambda>controller.
     reg_expect (current_blinds controller) (\<lambda>_.
     reg_expect (prepare_hand sv now False table_id (rg_next_hand_id r) (pc_seats (gt_config t))
       (successor_seed (gt_deterministic_seed t)) (Some controller) (gt_seat_sessions t) (gt_lifecycle t))
       (\<lambda>prepared.
     reg_sum id prepared r (\<lambda>(lifecycle, following, w).
     reg_ok (rg_next_hand_id r) ((put_table table_id (t\<lparr>gt_lifecycle := lifecycle,
       gt_hand_id := Some (rg_next_hand_id r), gt_runtime := Some w, gt_last_activity := now\<rparr>) r)
       \<lparr>rg_next_hand_id := following\<rparr>))))))"

definition on_break :: "registered_table \<Rightarrow> bool" where
  "on_break t \<longleftrightarrow> gt_runtime t = None \<and> (case gt_tournament t of None \<Rightarrow> False | Some c \<Rightarrow> tr_status c = TBreak)"

fun advance_breaks :: "'g services \<Rightarrow> nat \<Rightarrow> table_id list \<Rightarrow> nat \<Rightarrow> registry \<Rightarrow> nat registry_result" where
  "advance_breaks sv now [] resumed r = reg_ok resumed r"
| "advance_breaks sv now (table_id # rest) resumed r =
     reg_expect (bt_get (rg_tables r) table_id) (\<lambda>t.
     reg_expect (gt_tournament t) (\<lambda>c.
     reg_expect (tick_between_hands (min (now - gt_last_activity t) (u64_bound - 1)) c) (\<lambda>c.
     let r = put_table table_id (t\<lparr>gt_tournament := Some c, gt_last_activity := now\<rparr>) r in
     if tr_status c = TRunning \<and> 2 \<le> eligible_count (gt_lifecycle t)
     then reg_then (start_waiting_tournament_hand sv now table_id r) (\<lambda>_ r.
       advance_breaks sv now rest (resumed + 1) r)
     else advance_breaks sv now rest resumed r)))"

definition advance_tournament_breaks :: "'g services \<Rightarrow> nat \<Rightarrow> registry \<Rightarrow> nat registry_result" where
  "advance_tournament_breaks sv now r =
     reg_then (advance_breaks sv now (map fst (filter (\<lambda>(i, t). on_break t) (rg_tables r))) 0 r) (\<lambda>resumed r.
       reg_ok resumed (if 0 < resumed then bump_revision r else r))"

subsection \<open>Removing tables\<close>

definition close_and_remove :: "table_id \<Rightarrow> registry \<Rightarrow> unit registry_result" where
  "close_and_remove table_id r = with_table table_id r (\<lambda>t.
     if gt_runtime t \<noteq> None \<or> hand_active (gt_lifecycle t) \<or> occupied_count (lc_seats (gt_lifecycle t)) \<noteq> 0
        \<or> lc_reservations (gt_lifecycle t) \<noteq> []
     then reg_fail (registry_error RegTableNotRemovable ''only an empty inactive table can be removed'') r
     else case lifecycle_close (gt_lifecycle t) of
       (Inl e, l) \<Rightarrow> reg_fail (registry_error RegTableNotRemovable (lifecycle_error_display e)) r
     | (Inr _, l) \<Rightarrow> reg_ok () (bump_revision (r\<lparr>rg_tables := bt_remove table_id (rg_tables r)\<rparr>)))"

record expiry_sweep =
  ex_scanned :: nat
  ex_expired :: nat
  ex_retained :: nat

definition table_unused :: "registered_table \<Rightarrow> bool" where
  "table_unused t \<longleftrightarrow> gt_runtime t = None \<and> \<not> hand_active (gt_lifecycle t)
     \<and> occupied_count (lc_seats (gt_lifecycle t)) = 0 \<and> lc_reservations (gt_lifecycle t) = []
     \<and> gt_waiting t = [] \<and> gt_seat_sessions t = [] \<and> gt_pending_departures t = []"

definition expire_inactive_at :: "nat \<Rightarrow> nat \<Rightarrow> registry \<Rightarrow> expiry_sweep \<times> registry" where
  "expire_inactive_at now idle_for r =
    (let scanned = length (rg_tables r);
         expired_ids = map fst (filter (\<lambda>(i, t). table_unused t \<and> idle_for \<le> now - gt_last_activity t) (rg_tables r));
         r = r\<lparr>rg_tables := fold bt_remove expired_ids (rg_tables r)\<rparr>;
         r = (if expired_ids \<noteq> [] then bump_revision r else r)
     in (\<lparr>ex_scanned = scanned, ex_expired = length expired_ids, ex_retained = scanned - length expired_ids\<rparr>, r))"

end
