(* ===== verification/Registry_Checkpoint.thy ===== *)
theory Registry_Checkpoint
  imports Registry_Hands
begin

text \<open>
  Checkpoints of the registry (src/src/table_registry.rs): the payload that is saved, its checksum, and the
  registry that is restored from a document. The JSON of serde is an argument (the canonical bytes of a payload
  and the pretty bytes of an envelope); the file system is not modelled.
\<close>

record checkpoint_table =
  kt_table_id :: table_id
  kt_config :: public_table_config
  kt_access_verifier :: "access_verifier option"
  kt_deterministic_seed :: "u64 option"
  kt_tournament :: "tournament_controller option"
  kt_lifecycle :: between_hand_lifecycle

record checkpoint_session =
  ks_principal_id :: string
  ks_table_id :: table_id
  ks_player_id :: player_id
  ks_seat :: seat_id

record registry_checkpoint_payload =
  kp_max_tables :: nat
  kp_next_table_id :: u64
  kp_next_player_id :: u64
  kp_next_hand_id :: u64
  kp_registry_revision :: u64
  kp_credential_capacity :: nat
  kp_tables :: "checkpoint_table list"
  kp_sessions :: "checkpoint_session list"
  kp_credentials :: "durable_credential_record list"

record registry_checkpoint_envelope =
  kv_format :: string
  kv_version :: u16
  kv_checksum :: string
  kv_payload :: registry_checkpoint_payload

record registry_checkpoint_receipt =
  kr_version :: u16
  kr_checksum :: string
  kr_bytes :: nat
  kr_tables :: nat
  kr_sessions :: nat
  kr_registry_revision :: u64

definition invalid_checkpoint :: "string \<Rightarrow> table_registry_error" where
  "invalid_checkpoint message = registry_error RegInvalidCheckpoint message"

subsection \<open>The checksum\<close>


text \<open>FNV-1a on 64 bits; the product wraps.\<close>

definition fnv1a64 :: "string \<Rightarrow> u64" where
  "fnv1a64 bytes = foldl (\<lambda>hash byte. ((hash XOR of_char byte) * 1099511628211) mod u64_bound)
     14695981039346656037 bytes"


text \<open>\<open>{:016x}\<close>: hexadecimal digits, filled up with zeros.\<close>

fun hex_digits :: "nat \<Rightarrow> nat \<Rightarrow> string" where
  "hex_digits 0 n = []"
| "hex_digits (Suc k) n = hex_digits k (n div 16) @ [hex_digit (n mod 16)]"

definition registry_checksum :: "string \<Rightarrow> string" where
  "registry_checksum bytes = ''fnv1a64:'' @ hex_digits 16 (fnv1a64 bytes)"

subsection \<open>Saving\<close>

definition checkpoint_of_table :: "table_id \<times> registered_table \<Rightarrow> lifecycle_error + checkpoint_table" where
  "checkpoint_of_table = (\<lambda>(table_id, t). map_sum id (\<lambda>lifecycle. \<lparr>kt_table_id = table_id, kt_config = gt_config t,
       kt_access_verifier = gt_access_verifier t, kt_deterministic_seed = gt_deterministic_seed t,
       kt_tournament = gt_tournament t, kt_lifecycle = lifecycle\<rparr>)
     (between_hand_checkpoint (gt_durable_lifecycle t)))"

fun collect_results :: "('e + 'a) list \<Rightarrow> 'e + 'a list" where
  "collect_results [] = Inr []"
| "collect_results (Inl e # rs) = Inl e"
| "collect_results (Inr x # rs) = map_sum id (Cons x) (collect_results rs)"

definition checkpoint_of_session :: "guest_session_id \<times> session_route \<Rightarrow> checkpoint_session" where
  "checkpoint_of_session = (\<lambda>(session, route). \<lparr>ks_principal_id = session, ks_table_id = ro_table_id route,
     ks_player_id = ro_player route, ks_seat = ro_seat route\<rparr>)"

definition checkpoint_payload :: "registry \<Rightarrow> table_registry_error + registry_checkpoint_payload" where
  "checkpoint_payload r = (case collect_results (map checkpoint_of_table (rg_tables r)) of
     Inl e \<Rightarrow> Inl (registry_error RegUnsafeCheckpointBoundary (lifecycle_error_display e))
   | Inr tables \<Rightarrow> Inr \<lparr>kp_max_tables = rg_max_tables r, kp_next_table_id = rg_next_table_id r,
       kp_next_player_id = rg_next_player_id r, kp_next_hand_id = rg_next_hand_id r,
       kp_registry_revision = rg_revision r, kp_credential_capacity = DEFAULT_CREDENTIAL_CAPACITY,
       kp_tables = tables, kp_sessions = map checkpoint_of_session (rg_sessions r),
       kp_credentials = durable_records (rg_credentials r)\<rparr>)"

text \<open>
  \<open>save_checkpoint\<close> up to the publication of the file: the envelope that is written and the receipt of a write
  that took \<open>elapsed\<close> milliseconds.
\<close>

definition save_checkpoint :: "(registry_checkpoint_payload \<Rightarrow> string) \<Rightarrow> (registry_checkpoint_envelope \<Rightarrow> string)
    \<Rightarrow> nat \<Rightarrow> registry \<Rightarrow> (registry_checkpoint_envelope \<times> registry_checkpoint_receipt) registry_result" where
  "save_checkpoint to_vec to_vec_pretty elapsed r =
     reg_sum id (checkpoint_payload r) r (\<lambda>payload.
     let checksum = registry_checksum (to_vec payload);
         envelope = \<lparr>kv_format = REGISTRY_CHECKPOINT_FORMAT, kv_version = REGISTRY_CHECKPOINT_VERSION,
           kv_checksum = checksum, kv_payload = payload\<rparr>;
         bytes = length (to_vec_pretty envelope);
         millis = min elapsed (u64_bound - 1)
     in if MAX_REGISTRY_CHECKPOINT_BYTES < bytes
        then reg_fail (registry_error RegCheckpointTooLarge (''checkpoint is '' @ show_nat bytes
          @ '' bytes; limit is '' @ show_nat MAX_REGISTRY_CHECKPOINT_BYTES)) r
        else reg_ok (envelope, \<lparr>kr_version = REGISTRY_CHECKPOINT_VERSION, kr_checksum = checksum,
            kr_bytes = bytes, kr_tables = length (kp_tables payload), kr_sessions = length (kp_sessions payload),
            kr_registry_revision = rg_revision r\<rparr>)
          (r\<lparr>rg_last_checkpoint_millis := millis,
             rg_max_checkpoint_millis := max (rg_max_checkpoint_millis r) millis,
             rg_last_checkpoint_bytes := bytes\<rparr>))"

subsection \<open>Restoring\<close>

fun restore_tables :: "nat \<Rightarrow> u64 \<Rightarrow> checkpoint_table list \<Rightarrow> (table_id, registered_table) btree
    \<Rightarrow> table_registry_error + (table_id, registered_table) btree" where
  "restore_tables now next_table_id [] tables = Inr tables"
| "restore_tables now next_table_id (k # ks) tables =
    (if kt_table_id k = 0 \<or> next_table_id \<le> kt_table_id k
     then Inl (invalid_checkpoint ''table identity counter regressed'')
     else case validate_stored_config (kt_config k) (kt_access_verifier k) of
       Inl _ \<Rightarrow> Inl (invalid_checkpoint ''restored table configuration is invalid'')
     | Inr _ \<Rightarrow>
       (if bh_table_size (kt_lifecycle k) \<noteq> pc_seats (kt_config k)
        then Inl (invalid_checkpoint ''lifecycle table size differs from public configuration'')
        else case restore_between_hand (kt_lifecycle k) of
          Inl _ \<Rightarrow> Inl (invalid_checkpoint ''restored lifecycle is inconsistent'')
        | Inr lifecycle \<Rightarrow>
          (if bt_get tables (kt_table_id k) \<noteq> None then Inl (invalid_checkpoint ''duplicate table identity'')
           else restore_tables now next_table_id ks (bt_insert (kt_table_id k)
             \<lparr>gt_config = kt_config k, gt_access_verifier = kt_access_verifier k, gt_lifecycle = lifecycle,
              gt_durable_lifecycle = lifecycle, gt_deterministic_seed = kt_deterministic_seed k,
              gt_tournament = kt_tournament k, gt_hand_id = None, gt_seat_sessions = [], gt_waiting = [],
              gt_pending_departures = [], gt_last_activity = now, gt_runtime = None\<rparr> tables))))"

fun restore_sessions :: "u64 \<Rightarrow> checkpoint_session list \<Rightarrow> (table_id, registered_table) btree
    \<Rightarrow> (guest_session_id, session_route) btree
    \<Rightarrow> table_registry_error + (table_id, registered_table) btree \<times> (guest_session_id, session_route) btree" where
  "restore_sessions next_player_id [] tables sessions = Inr (tables, sessions)"
| "restore_sessions next_player_id (k # ks) tables sessions =
    (if ks_player_id k = 0 \<or> next_player_id \<le> ks_player_id k
     then Inl (invalid_checkpoint ''player identity counter regressed'')
     else case guest_session_id_new (ks_principal_id k) of
       Inl _ \<Rightarrow> Inl (invalid_checkpoint ''guest session identity is invalid'')
     | Inr session \<Rightarrow>
       (case bt_get tables (ks_table_id k) of
          None \<Rightarrow> Inl (invalid_checkpoint ''session references an unknown table'')
        | Some t \<Rightarrow>
          (case table_seat (lc_seats (gt_lifecycle t)) (ks_seat k) of
             None \<Rightarrow> Inl (invalid_checkpoint ''session references a vacant seat'')
           | Some occupant \<Rightarrow>
             (if ss_player_id occupant \<noteq> ks_player_id k \<or> bt_get (gt_seat_sessions t) (ks_seat k) \<noteq> None
              then Inl (invalid_checkpoint ''session ownership conflicts with restored lifecycle'')
              else if bt_get sessions session \<noteq> None
              then Inl (invalid_checkpoint ''duplicate guest session identity'')
              else restore_sessions next_player_id ks
                (bt_insert (ks_table_id k) (t\<lparr>gt_seat_sessions :=
                  bt_insert (ks_seat k) session (gt_seat_sessions t)\<rparr>) tables)
                (bt_insert session \<lparr>ro_table_id = ks_table_id k, ro_player = ks_player_id k,
                  ro_seat = ks_seat k\<rparr> sessions)))))"

definition check_restored_table :: "registered_table \<Rightarrow> table_registry_error + unit" where
  "check_restored_table t =
    (if length (gt_seat_sessions t) \<noteq> occupied_count (lc_seats (gt_lifecycle t))
     then Inl (invalid_checkpoint ''every restored occupied seat requires one private session route'')
     else case checked_total (map snd (lifecycle_stacks (gt_lifecycle t))) 0 of
       None \<Rightarrow> Inl (invalid_checkpoint ''restored table chip total overflowed'')
     | Some _ \<Rightarrow> Inr ())"

definition table_ready :: "registered_table \<Rightarrow> bool" where
  "table_ready t = (case gt_tournament t of
     None \<Rightarrow> pc_min_players (gt_config t) \<le> eligible_count (gt_lifecycle t)
   | Some c \<Rightarrow> tr_status c = TRunning \<and> 2 \<le> eligible_count (gt_lifecycle t))"

fun start_restored_tables :: "'g services \<Rightarrow> nat \<Rightarrow> table_id list \<Rightarrow> registry \<Rightarrow> unit registry_result" where
  "start_restored_tables sv now [] r = reg_ok () r"
| "start_restored_tables sv now (table_id # rest) r =
     reg_expect (bt_get (rg_tables r) table_id) (\<lambda>t.
     if \<not> table_ready t then start_restored_tables sv now rest r
     else
       reg_expect (prepare_hand sv now True table_id (rg_next_hand_id r) (pc_seats (gt_config t))
         (successor_seed (gt_deterministic_seed t)) (gt_tournament t) (gt_seat_sessions t) (gt_lifecycle t))
         (\<lambda>prepared.
       reg_sum id prepared r (\<lambda>(lifecycle, following, w).
       start_restored_tables sv now rest ((put_table table_id (t\<lparr>gt_lifecycle := lifecycle,
         gt_hand_id := Some (rg_next_hand_id r), gt_runtime := Some w\<rparr>) r)\<lparr>rg_next_hand_id := following\<rparr>))))"

definition start_restored_hands :: "'g services \<Rightarrow> nat \<Rightarrow> registry \<Rightarrow> unit registry_result" where
  "start_restored_hands sv now r = start_restored_tables sv now (map fst (rg_tables r)) r"

text \<open>
  \<open>load_checkpoint\<close> from the decoded document to the registry before its hands start.
\<close>

definition restore_payload :: "nat \<Rightarrow> nat \<Rightarrow> registry_checkpoint_payload \<Rightarrow> table_registry_error + registry" where
  "restore_payload now wall payload =
    (if \<not> (1 \<le> kp_max_tables payload \<and> kp_max_tables payload \<le> MAX_TABLE_REGISTRY_CAPACITY)
        \<or> kp_max_tables payload < length (kp_tables payload) \<or> kp_next_table_id payload = 0
        \<or> kp_next_player_id payload = 0 \<or> kp_next_hand_id payload = 0
     then Inl (invalid_checkpoint ''registry bounds or counters are invalid'')
     else case restore_tables now (kp_next_table_id payload) (kp_tables payload) [] of
       Inl e \<Rightarrow> Inl e
     | Inr tables \<Rightarrow>
       (case restore_sessions (kp_next_player_id payload) (kp_sessions payload) tables [] of
          Inl e \<Rightarrow> Inl e
        | Inr (tables, sessions) \<Rightarrow>
          (case collect_results (map (check_restored_table \<circ> snd) tables) of
             Inl e \<Rightarrow> Inl e
           | Inr _ \<Rightarrow>
             (case vault_restore wall (kp_credential_capacity payload) (kp_credentials payload) of
                Inl _ \<Rightarrow> Inl (invalid_checkpoint ''credential verifier records are invalid'')
              | Inr credentials \<Rightarrow> Inr \<lparr>rg_max_tables = kp_max_tables payload,
                  rg_next_table_id = kp_next_table_id payload, rg_next_player_id = kp_next_player_id payload,
                  rg_next_hand_id = kp_next_hand_id payload, rg_revision = kp_registry_revision payload,
                  rg_tables = tables, rg_sessions = sessions, rg_waiting_sessions = [],
                  rg_retired_updates = [], rg_credentials = credentials,
                  rg_history = ring_history_store_default, rg_reconnect_ttl = RECONNECT_CREDENTIAL_TTL,
                  rg_last_checkpoint_millis = 0, rg_max_checkpoint_millis = 0,
                  rg_last_checkpoint_bytes = 0\<rparr>))))"

definition load_checkpoint :: "'g services \<Rightarrow> (registry_checkpoint_payload \<Rightarrow> string) \<Rightarrow> nat \<Rightarrow> nat
    \<Rightarrow> registry_checkpoint_envelope \<Rightarrow> (table_registry_error + registry) option" where
  "load_checkpoint sv to_vec now wall envelope =
    (if kv_format envelope \<noteq> REGISTRY_CHECKPOINT_FORMAT \<or> kv_version envelope \<notin> {3, REGISTRY_CHECKPOINT_VERSION}
     then Some (Inl (invalid_checkpoint ''checkpoint format or schema version is unsupported''))
     else if kv_checksum envelope \<noteq> registry_checksum (to_vec (kv_payload envelope))
     then Some (Inl (invalid_checkpoint ''checkpoint checksum does not match payload''))
     else case restore_payload now wall (kv_payload envelope) of
       Inl e \<Rightarrow> Some (Inl e)
     | Inr r \<Rightarrow> map_option (\<lambda>(started, r). case started of Inl e \<Rightarrow> Inl e | Inr _ \<Rightarrow> Inr r)
         (start_restored_hands sv now r))"

end
