(* ===== verification/Registry_Facts.thy ===== *)
theory Registry_Facts
  imports Registry_Checkpoint Tournament_Play Roster Prelude
begin

text \<open>
  The invariant of the registry: the identities it has given out, the place of each session, and the tables.
\<close>

subsection \<open>What a method leaves\<close>

text \<open>Every way a method can return, result and registry, satisfies \<open>Q\<close>.\<close>

named_theorems leaves_simps \<open>postconditions pushed through the steps of a method\<close>

definition leaves :: "(table_registry_error + 'a \<Rightarrow> registry \<Rightarrow> bool) \<Rightarrow> 'a registry_result \<Rightarrow> bool" where
  "leaves Q m \<longleftrightarrow> (\<forall>res r. m = Some (res, r) \<longrightarrow> Q res r)"

lemma leavesD: "leaves Q m \<Longrightarrow> m = Some (res, r) \<Longrightarrow> Q res r"
  by (simp add: leaves_def)

lemma leaves_mono: "leaves P m \<Longrightarrow> (\<And>res r. P res r \<Longrightarrow> Q res r) \<Longrightarrow> leaves Q m"
  by (simp add: leaves_def)

lemma leaves_ok [leaves_simps]: "leaves Q (reg_ok x r) \<longleftrightarrow> Q (Inr x) r"
  by (auto simp: leaves_def reg_ok_def)

lemma leaves_fail [leaves_simps]: "leaves Q (reg_fail e r) \<longleftrightarrow> Q (Inl e) r"
  by (auto simp: leaves_def reg_fail_def)

lemma leaves_then [leaves_simps]:
  "leaves Q (reg_then m f) \<longleftrightarrow> leaves (\<lambda>res r. (\<forall>e. res = Inl e \<longrightarrow> Q (Inl e) r) \<and>
     (\<forall>x. res = Inr x \<longrightarrow> leaves Q (f x r))) m"
  by (cases m) (auto simp: leaves_def reg_then_def split: sum.splits)

lemma leaves_both [leaves_simps]:
  "leaves (\<lambda>res r. ((\<exists>e. res = Inl e) \<longrightarrow> P r) \<and> ((\<exists>x. res = Inr x) \<longrightarrow> P r)) m \<longleftrightarrow> leaves (\<lambda>res. P) m"
proof -
  have "((\<exists>e. res = Inl e) \<longrightarrow> P r) \<and> ((\<exists>x. res = Inr x) \<longrightarrow> P r) \<longleftrightarrow> P r" for res :: "table_registry_error + 'a" and r
    by (cases res) auto
  then show ?thesis by simp
qed

lemma leaves_expect [leaves_simps]: "leaves Q (reg_expect v f) \<longleftrightarrow> (\<forall>x. v = Some x \<longrightarrow> leaves Q (f x))"
  by (cases v) (simp_all add: leaves_def reg_expect_def)

lemma leaves_some [leaves_simps]:
  "leaves Q (reg_some e v r f) \<longleftrightarrow> (v = None \<longrightarrow> Q (Inl e) r) \<and> (\<forall>x. v = Some x \<longrightarrow> leaves Q (f x))"
  by (cases v) (simp_all add: reg_some_def leaves_fail)

lemma leaves_sum [leaves_simps]:
  "leaves Q (reg_sum w v r f) \<longleftrightarrow> (\<forall>e. v = Inl e \<longrightarrow> Q (Inl (w e)) r) \<and> (\<forall>x. v = Inr x \<longrightarrow> leaves Q (f x))"
  by (cases v) (simp_all add: reg_sum_def leaves_fail)

lemma leaves_with_table [leaves_simps]:
  "leaves Q (with_table i r f) \<longleftrightarrow> (bt_get (rg_tables r) i = None \<longrightarrow> Q (Inl (unknown_table i)) r) \<and>
     (\<forall>t. bt_get (rg_tables r) i = Some t \<longrightarrow> leaves Q (f t))"
  by (simp add: with_table_def leaves_some)

lemma leaves_if [leaves_simps]: "leaves Q (if b then m else n) \<longleftrightarrow> (b \<longrightarrow> leaves Q m) \<and> (\<not> b \<longrightarrow> leaves Q n)"
  by simp

lemma leaves_prod [leaves_simps]: "leaves Q (case p of (a, b) \<Rightarrow> f a b) \<longleftrightarrow> leaves Q (f (fst p) (snd p))"
  by (simp add: case_prod_beta)

subsection \<open>Tables\<close>

definition stored_config_ok :: "public_table_config \<Rightarrow> bool" where
  "stored_config_ok c \<longleftrightarrow> pc_name c \<noteq> [] \<and> length (pc_name c) \<le> MAX_PUBLIC_TABLE_NAME_BYTES \<and>
     list_all safe_name_byte (pc_name c) \<and> 0 < pc_starting_stack c \<and> 2 \<le> pc_min_players c \<and>
     pc_min_players c \<le> pc_seats c \<and> valid_size (pc_seats c) \<and> pc_join_code c = None"

text \<open>What holds of a table whatever else the registry holds.\<close>

definition table_sound :: "registered_table \<Rightarrow> bool" where
  "table_sound t \<longleftrightarrow> stored_config_ok (gt_config t) \<and>
     (pc_visibility (gt_config t) = VisPublic \<longleftrightarrow> gt_access_verifier t = None) \<and>
     roster_ok (gt_lifecycle t) \<and> roster_ok (gt_durable_lifecycle t) \<and>
     lc_table_size (gt_lifecycle t) = pc_seats (gt_config t) \<and>
     lc_table_size (gt_durable_lifecycle t) = pc_seats (gt_config t) \<and>
     \<not> hand_active (gt_durable_lifecycle t) \<and>
     (hand_active (gt_lifecycle t) \<longleftrightarrow> gt_runtime t \<noteq> None) \<and> (gt_hand_id t = None \<longleftrightarrow> gt_runtime t = None) \<and>
     (\<forall>c. gt_tournament t = Some c \<longrightarrow> tour_ok c) \<and>
     bt_sorted (gt_seat_sessions t) \<and> length (gt_waiting t) \<le> MAX_TABLE_WAITING_ENTRIES"

definition tables_ok :: "registry \<Rightarrow> bool" where
  "tables_ok r \<longleftrightarrow> bt_sorted (rg_tables r) \<and> length (rg_tables r) \<le> rg_max_tables r \<and>
     rg_max_tables r \<le> MAX_TABLE_REGISTRY_CAPACITY \<and> 0 < rg_next_table_id r \<and>
     (\<forall>i t. bt_get (rg_tables r) i = Some t \<longrightarrow> 0 < i \<and> i < rg_next_table_id r \<and> table_sound t)"

text \<open>A hand identity belongs to one table and is below the counter.\<close>

definition hands_ok :: "registry \<Rightarrow> bool" where
  "hands_ok r \<longleftrightarrow> 0 < rg_next_hand_id r \<and>
     (\<forall>i t h. bt_get (rg_tables r) i = Some t \<longrightarrow> gt_hand_id t = Some h \<longrightarrow> h < rg_next_hand_id r) \<and>
     (\<forall>i j t u. bt_get (rg_tables r) i = Some t \<longrightarrow> bt_get (rg_tables r) j = Some u \<longrightarrow>
        gt_hand_id t \<noteq> None \<longrightarrow> gt_hand_id t = gt_hand_id u \<longrightarrow> i = j)"

text \<open>A player identity belongs to one session and is below the counter.\<close>

definition routes_ok :: "registry \<Rightarrow> bool" where
  "routes_ok r \<longleftrightarrow> bt_sorted (rg_sessions r) \<and> 0 < rg_next_player_id r \<and>
     (\<forall>i route. bt_get (rg_sessions r) i = Some route \<longrightarrow> 0 < ro_player route \<and> ro_player route < rg_next_player_id r \<and>
        ro_table_id route < rg_next_table_id r) \<and>
     (\<forall>i j a b. bt_get (rg_sessions r) i = Some a \<longrightarrow> bt_get (rg_sessions r) j = Some b \<longrightarrow>
        ro_player a = ro_player b \<longrightarrow> i = j)"

text \<open>A waiting session has no seat, and its table still has its entry.\<close>

definition waits_ok :: "registry \<Rightarrow> bool" where
  "waits_ok r \<longleftrightarrow> bt_sorted (rg_waiting_sessions r) \<and>
     (\<forall>i table_id. bt_get (rg_waiting_sessions r) i = Some table_id \<longrightarrow> bt_get (rg_sessions r) i = None \<and>
        table_id < rg_next_table_id r \<and>
        (\<forall>t. bt_get (rg_tables r) table_id = Some t \<longrightarrow> i \<in> we_session ` set (gt_waiting t)))"

definition registry_ok :: "registry \<Rightarrow> bool" where
  "registry_ok r \<longleftrightarrow> tables_ok r \<and> hands_ok r \<and> routes_ok r \<and> waits_ok r"

lemma registry_okD:
  assumes "registry_ok r"
  shows "tables_ok r" "hands_ok r" "routes_ok r" "waits_ok r"
  using assms by (simp_all add: registry_ok_def)

lemma registry_ok_table: "registry_ok r \<Longrightarrow> bt_get (rg_tables r) i = Some t \<Longrightarrow> table_sound t"
  by (simp add: registry_ok_def tables_ok_def)

lemma registry_ok_below: "registry_ok r \<Longrightarrow> bt_get (rg_tables r) i = Some t \<Longrightarrow> 0 < i \<and> i < rg_next_table_id r"
  unfolding registry_ok_def tables_ok_def by blast

subsection \<open>Updates\<close>

lemma put_table_fields [simp]:
  "rg_max_tables (put_table i t r) = rg_max_tables r" "rg_next_table_id (put_table i t r) = rg_next_table_id r"
  "rg_next_player_id (put_table i t r) = rg_next_player_id r" "rg_next_hand_id (put_table i t r) = rg_next_hand_id r"
  "rg_sessions (put_table i t r) = rg_sessions r" "rg_waiting_sessions (put_table i t r) = rg_waiting_sessions r"
  "rg_credentials (put_table i t r) = rg_credentials r" "rg_history (put_table i t r) = rg_history r"
  "rg_retired_updates (put_table i t r) = rg_retired_updates r" "rg_revision (put_table i t r) = rg_revision r"
  "rg_tables (put_table i t r) = bt_insert i t (rg_tables r)"
  by (simp_all add: put_table_def)

lemma bump_revision_fields [simp]:
  "rg_max_tables (bump_revision r) = rg_max_tables r" "rg_next_table_id (bump_revision r) = rg_next_table_id r"
  "rg_next_player_id (bump_revision r) = rg_next_player_id r" "rg_next_hand_id (bump_revision r) = rg_next_hand_id r"
  "rg_sessions (bump_revision r) = rg_sessions r" "rg_waiting_sessions (bump_revision r) = rg_waiting_sessions r"
  "rg_credentials (bump_revision r) = rg_credentials r" "rg_history (bump_revision r) = rg_history r"
  "rg_retired_updates (bump_revision r) = rg_retired_updates r" "rg_tables (bump_revision r) = rg_tables r"
  by (simp_all add: bump_revision_def)

text \<open>The invariant looks at these fields only.\<close>

lemma registry_ok_cong:
  assumes "rg_max_tables r' = rg_max_tables r" "rg_next_table_id r' = rg_next_table_id r"
    and "rg_next_player_id r' = rg_next_player_id r" "rg_next_hand_id r' = rg_next_hand_id r"
    and "rg_tables r' = rg_tables r" "rg_sessions r' = rg_sessions r" "rg_waiting_sessions r' = rg_waiting_sessions r"
  shows "registry_ok r' = registry_ok r"
  by (simp only: registry_ok_def tables_ok_def hands_ok_def routes_ok_def waits_ok_def assms)

lemma tables_ok_cong: "rg_tables r' = rg_tables r \<Longrightarrow> rg_max_tables r' = rg_max_tables r
    \<Longrightarrow> rg_next_table_id r' = rg_next_table_id r \<Longrightarrow> tables_ok r' = tables_ok r"
  by (simp only: tables_ok_def)

lemma hands_ok_cong: "rg_tables r' = rg_tables r \<Longrightarrow> rg_next_hand_id r' = rg_next_hand_id r \<Longrightarrow> hands_ok r' = hands_ok r"
  by (simp only: hands_ok_def)

lemma registry_ok_bump [simp]: "registry_ok (bump_revision r) = registry_ok r"
  by (rule registry_ok_cong) simp_all

text \<open>Another state of a table that is there, with the same hand, no hand, or a new one.\<close>

lemma tables_ok_put:
  assumes "tables_ok r" "bt_get (rg_tables r) i = Some t" "table_sound u"
    and "rg_tables r' = bt_insert i u (rg_tables r)" "rg_max_tables r' = rg_max_tables r"
    and "rg_next_table_id r' = rg_next_table_id r"
  shows "tables_ok r'"
  using assms by (auto simp: tables_ok_def bt_get_insert bt_sorted_insert length_bt_insert_present)

lemma hands_ok_put:
  assumes "hands_ok r" "bt_get (rg_tables r) i = Some t" "rg_tables r' = bt_insert i u (rg_tables r)"
    and "rg_next_hand_id r \<le> rg_next_hand_id r'"
    and "gt_hand_id u \<in> {None, gt_hand_id t} \<or> gt_hand_id u = Some (rg_next_hand_id r) \<and> rg_next_hand_id r < rg_next_hand_id r'"
  shows "hands_ok r'"
  unfolding hands_ok_def assms(3)
proof (intro conjI allI impI)
  show "0 < rg_next_hand_id r'" using assms(1,4) by (simp add: hands_ok_def)
next
  fix j v h
  assume v: "bt_get (bt_insert i u (rg_tables r)) j = Some v" "gt_hand_id v = Some h"
  have old: "k < rg_next_hand_id r" if "bt_get (rg_tables r) m = Some w" "gt_hand_id w = Some k" for m w k
    using that assms(1) unfolding hands_ok_def by blast
  show "h < rg_next_hand_id r'"
  proof (cases "j = i")
    case True
    then have "gt_hand_id u = Some h" using v by (simp add: bt_get_insert)
    then show ?thesis using assms(4,5) old [OF assms(2), of h] by auto
  next
    case False
    then have "bt_get (rg_tables r) j = Some v" using v(1) by (simp add: bt_get_insert)
    from old [OF this v(2)] show ?thesis using assms(4) by simp
  qed
next
  fix j k v w
  assume v: "bt_get (bt_insert i u (rg_tables r)) j = Some v" "bt_get (bt_insert i u (rg_tables r)) k = Some w"
    "gt_hand_id v \<noteq> None" "gt_hand_id v = gt_hand_id w"
  have old: "h < rg_next_hand_id r" if "bt_get (rg_tables r) m = Some x" "gt_hand_id x = Some h" for m x h
    using that assms(1) unfolding hands_ok_def by blast
  have same: "m = n" if "bt_get (rg_tables r) m = Some x" "bt_get (rg_tables r) n = Some y" "gt_hand_id x \<noteq> None"
      "gt_hand_id x = gt_hand_id y" for m n x y
    using that assms(1) unfolding hands_ok_def by blast
  show "j = k"
    using v assms(2,5) same old by (cases "j = i"; cases "k = i") (auto simp: bt_get_insert dest: old)
qed

lemma waits_ok_put:
  assumes "waits_ok r" "rg_tables r' = bt_insert i u (rg_tables r)" "rg_sessions r' = rg_sessions r"
    and "rg_waiting_sessions r' = rg_waiting_sessions r" "rg_next_table_id r' = rg_next_table_id r"
    and "\<And>s. bt_get (rg_waiting_sessions r) s = Some i \<Longrightarrow> s \<in> we_session ` set (gt_waiting u)"
  shows "waits_ok r'"
  using assms by (auto simp: waits_ok_def bt_get_insert split: if_splits)

lemma routes_ok_cong:
  "rg_sessions r' = rg_sessions r \<Longrightarrow> rg_next_player_id r' = rg_next_player_id r
    \<Longrightarrow> rg_next_table_id r' = rg_next_table_id r \<Longrightarrow> routes_ok r' = routes_ok r"
  by (simp add: routes_ok_def)

lemma put_table_ok:
  assumes "registry_ok r" "bt_get (rg_tables r) i = Some t" "table_sound u" "gt_hand_id u \<in> {None, gt_hand_id t}"
    and "gt_waiting u = gt_waiting t"
  shows "registry_ok (put_table i u r)"
proof -
  note ok = registry_okD [OF assms(1)]
  have "tables_ok (put_table i u r)" by (rule tables_ok_put [OF ok(1) assms(2,3)]) simp_all
  moreover have "hands_ok (put_table i u r)" by (rule hands_ok_put [OF ok(2) assms(2)]) (use assms(4) in auto)
  moreover have "waits_ok (put_table i u r)"
    by (rule waits_ok_put [OF ok(4)]) (use ok(4) assms(2,5) in \<open>auto simp: waits_ok_def\<close>)
  moreover have "routes_ok (put_table i u r)" using ok(3) by (simp add: routes_ok_def)
  ultimately show ?thesis by (simp add: registry_ok_def)
qed

subsection \<open>The roster in the registry's hands\<close>

definition same_house :: "table_lifecycle \<Rightarrow> table_lifecycle \<Rightarrow> bool" where
  "same_house l l' \<longleftrightarrow> lc_table_size l' = lc_table_size l \<and> (lc_active_hand l' = None \<longleftrightarrow> lc_active_hand l = None)"

lemma same_house_refl [simp]: "same_house l l"
  by (simp add: same_house_def)

lemma same_house_trans: "same_house l l' \<Longrightarrow> same_house l' l'' \<Longrightarrow> same_house l l''"
  by (simp add: same_house_def)

lemma reserve_house: "reserve l p s = (r, l') \<Longrightarrow> same_house l l'"
  by (auto simp: reserve_def same_house_def split: if_splits)

lemma occupy_house: "occupy l p s k = (r, l') \<Longrightarrow> same_house l l'"
  by (auto simp: occupy_def same_house_def split: if_splits option.splits sum.splits)

lemma join_house:
  assumes "join l p s k = (r, l')"
  shows "same_house l l'"
proof -
  obtain r1 l1 where r1: "reserve l p s = (r1, l1)" by fastforce
  obtain r2 l2 where r2: "occupy l1 p s k = (r2, l2)" by fastforce
  have "same_house l l2" by (rule same_house_trans [OF reserve_house [OF r1] occupy_house [OF r2]])
  then show ?thesis
    using assms r1 r2 reserve_house [OF r1] by (auto simp: join_def same_house_def split: if_splits sum.splits)
qed

lemma join_with_entry_house:
  assumes "join_with_entry l p s k e = Some (r, l')"
  shows "same_house l l'"
proof -
  obtain r1 l1 where r1: "join l p s k = (r1, l1)" by fastforce
  then have "same_house l l1" by (rule join_house)
  then show ?thesis
    using assms r1 by (auto simp: join_with_entry_def same_house_def split: if_splits sum.splits bind_splits)
qed

lemma apply_transition_house: "apply_transition l p tr = Some l' \<Longrightarrow> same_house l l'"
  by (auto simp: apply_transition_def same_house_def split: option.splits pending_transition.splits sum.splits)

lemma request_leave_house: "request_leave l p = Some (r, l') \<Longrightarrow> same_house l l'"
  using apply_transition_house [of l p PendingLeave]
  by (auto simp: request_leave_def request_transition_def same_house_def split: if_splits)

lemma request_leave_ok: "roster_ok l \<Longrightarrow> request_leave l p = Some (r, l') \<Longrightarrow> roster_ok l'"
  using request_transition_ok [of l p PendingLeave] by (auto simp: request_leave_def)

lemma begin_hand_house:
  assumes "begin_hand l = Some (Inr start, l')"
  shows "lc_table_size l' = lc_table_size l" "lc_active_hand l' = Some start"
proof -
  have promoted: "lc_table_size m = lc_table_size l" if "promote_candidates cs l = Some m" for cs m
    using that by (induction cs l rule: promote_candidates.induct) (auto simp: Let_def split: if_splits bind_splits)
  show "lc_table_size l' = lc_table_size l" "lc_active_hand l' = Some start"
    using assms promoted
    by (auto simp: begin_hand_def promote_natural_big_blind_waiter_def Let_def split: if_splits bind_splits sum.splits)
qed

lemma complete_hand_house:
  assumes "complete_hand l rep = Some (Inr (), l')"
  shows "lc_table_size l' = lc_table_size l" "lc_active_hand l' = None"
proof -
  have pending: "lc_table_size m = lc_table_size k \<and> (lc_active_hand k = None \<longrightarrow> lc_active_hand m = None)"
    if "for_m (\<lambda>(p, tr) l. apply_transition l p tr) xs k = Some m" for xs k m
    using that by (induction xs arbitrary: k) (auto split: bind_splits dest!: apply_transition_house simp: same_house_def)
  show "lc_table_size l' = lc_table_size l" "lc_active_hand l' = None"
    using assms by (auto simp: complete_hand_def apply_pending_def split: option.splits sum.splits bind_splits dest!: pending)
qed

text \<open>A prepared hand: the roster plays, and its identity is the old counter.\<close>

lemma prepare_hand_result:
  assumes "prepare_hand sv now restored table_id hand_id n seed tournament sessions l = Some (Inr (l', following, w))"
  obtains start h w0 where "begin_hand l = Some (Inr start, l')" "u64_checked_add hand_id 1 = Some following"
    "deal_hand sv hand_id start n (seed start) tournament = Some (Inr h)"
    "bind_sessions now table_id hand_id restored sessions (Some (runtime_spawn (authority_new_paced table_id hand_id h))) = (Inr (), w)"
  using assms by (auto simp: prepare_hand_def split: bind_splits sum.splits option.splits prod.splits)

lemma prepare_hand_roster:
  assumes "prepare_hand sv now restored table_id hand_id n seed tournament sessions l = Some (Inr (l', following, w))"
    and "roster_ok l"
  shows "roster_ok l'" "lc_table_size l' = lc_table_size l" "hand_active l'" "following = Suc hand_id"
proof -
  obtain start where start: "begin_hand l = Some (Inr start, l')" "u64_checked_add hand_id 1 = Some following"
    using assms(1) by (rule prepare_hand_result)
  show "roster_ok l'" using begin_hand_ok [OF assms(2)] start(1) by auto
  show "lc_table_size l' = lc_table_size l" "hand_active l'" using begin_hand_house [OF start(1)] by (simp_all add: hand_active_def)
  show "following = Suc hand_id" using start(2) by (simp add: u64_checked_add_def split: if_splits)
qed

end
