(* ===== verification/Registry_Invariant.thy ===== *)
theory Registry_Invariant
  imports Registry_Facts
begin

text \<open>Every operation of the registry keeps its invariant, on success and on every error.\<close>

subsection \<open>New tables\<close>

lemma validate_config_ok:
  assumes "validate_config c = Inr ()" "valid_size (pc_seats c)"
  shows "stored_config_ok (c\<lparr>pc_join_code := None\<rparr>)" "pc_visibility c = VisPublic \<longleftrightarrow> pc_join_code c = None"
proof -
  show "stored_config_ok (c\<lparr>pc_join_code := None\<rparr>)"
    using assms by (auto simp: validate_config_def stored_config_ok_def split: if_splits)
  show "pc_visibility c = VisPublic \<longleftrightarrow> pc_join_code c = None"
    using assms(1) by (cases "pc_visibility c"; cases "pc_join_code c")
      (auto simp: validate_config_def code_or_empty_def MIN_PRIVATE_JOIN_CODE_BYTES_def Let_def split: if_splits)
qed

lemma new_table_ok:
  assumes "registry_ok r" "length (rg_tables r) < rg_max_tables r" "table_sound t"
    and "gt_hand_id t = None" "gt_waiting t = []"
  shows "registry_ok (put_table (rg_next_table_id r) t (r\<lparr>rg_next_table_id := Suc (rg_next_table_id r)\<rparr>))"
    (is "registry_ok ?r")
proof -
  note ok = registry_okD [OF assms(1)]
  have fresh: "bt_get (rg_tables r) (rg_next_table_id r) = None"
    using registry_ok_below [OF assms(1), of "rg_next_table_id r"] by (cases "bt_get (rg_tables r) (rg_next_table_id r)") auto
  have "tables_ok ?r"
    using ok(1) assms(2,3) fresh
    by (auto simp: tables_ok_def bt_sorted_insert bt_get_insert length_bt_insert less_Suc_eq)
  moreover have "hands_ok ?r"
    using ok(2) assms(4) unfolding hands_ok_def by (auto simp: bt_get_insert)
  moreover have "routes_ok ?r" using ok(3) by (fastforce simp: routes_ok_def)
  moreover have "waits_ok ?r" using ok(4) by (fastforce simp: waits_ok_def bt_get_insert)
  ultimately show ?thesis by (simp add: registry_ok_def)
qed

text \<open>A created table is there, without a tournament, under the identity that its summary names.\<close>

lemma registry_create_ok:
  assumes "registry_ok r" "valid_size (pc_seats config)"
  shows "leaves (\<lambda>res r'. registry_ok r' \<and> (\<forall>summary. res = Inr summary \<longrightarrow>
      (\<exists>t. bt_get (rg_tables r') (sm_table_id summary) = Some t \<and> gt_hand_id t = None \<and> gt_waiting t = [])))
    (registry_create sv salt now config seed r)"
proof -
  have "registry_ok (bump_revision (put_table (rg_next_table_id r) t (r\<lparr>rg_next_table_id := following\<rparr>)))"
    if "validate_config config = Inr ()" "length (rg_tables r) < rg_max_tables r"
      "u64_checked_add (rg_next_table_id r) 1 = Some following" "v = None \<longleftrightarrow> pc_join_code config = None"
      "t = \<lparr>gt_config = config\<lparr>pc_join_code := None\<rparr>, gt_access_verifier = v,
               gt_lifecycle = lifecycle_new (pc_seats config), gt_durable_lifecycle = lifecycle_new (pc_seats config),
               gt_deterministic_seed = seed, gt_tournament = None, gt_hand_id = None, gt_seat_sessions = [], gt_waiting = [],
               gt_pending_departures = [], gt_last_activity = now, gt_runtime = None\<rparr>" for v t following
  proof -
    have "following = Suc (rg_next_table_id r)" using that(3) by (simp add: u64_checked_add_def split: if_splits)
    moreover have "table_sound t"
      using validate_config_ok [OF that(1) assms(2)] that(4) lifecycle_new_ok [OF assms(2)]
      by (simp add: that(5) table_sound_def lifecycle_new_def hand_active_def)
    ultimately show ?thesis using new_table_ok [OF assms(1) that(2), of t] that(5) by simp
  qed
  then show ?thesis
    using assms(1)
    by (auto simp: registry_create_def leaves_simps Let_def table_summary_def bt_get_insert
        split: option.splits if_splits bind_splits)
qed

lemma create_tournament_ok:
  assumes "registry_ok r" "sum_list (pp_shares_bps (tc_payout config)) = PAYOUT_BASIS_POINTS"
  shows "leaves (\<lambda>res. registry_ok) (create_tournament sv salt now config seed r)"
proof -
  have "leaves (\<lambda>res r. registry_ok r \<and> (\<forall>summary t. res = Inr summary \<longrightarrow>
        bt_get (rg_tables r) (sm_table_id summary) = Some t \<longrightarrow>
        registry_ok (put_table (sm_table_id summary) (t\<lparr>gt_tournament := Some controller\<rparr>) r)))
      (registry_create sv salt now (tournament_table_config config seats) seed r)"
    if "tournament_new config = Some (Inr controller)" "table_size_try_from (tc_entrants config) = Inr seats" for controller seats
  proof (rule leaves_mono [OF registry_create_ok [OF assms(1)]])
    show "valid_size (pc_seats (tournament_table_config config seats))"
      using that(2) by (simp add: tournament_table_config_def table_size_try_from_def valid_size_def split: if_splits)
    have tour: "tour_ok controller" by (rule tournament_new_ok [OF that(1) assms(2)])
    fix res r'
    assume res: "registry_ok r' \<and> (\<forall>summary. res = Inr summary \<longrightarrow>
      (\<exists>t. bt_get (rg_tables r') (sm_table_id summary) = Some t \<and> gt_hand_id t = None \<and> gt_waiting t = []))"
    have "registry_ok (put_table i (t\<lparr>gt_tournament := Some controller\<rparr>) r')" if "bt_get (rg_tables r') i = Some t" for i t
      by (rule put_table_ok [OF _ that]) (use res registry_ok_table [OF _ that] tour in \<open>auto simp: table_sound_def\<close>)
    with res show "registry_ok r' \<and> (\<forall>summary t. res = Inr summary \<longrightarrow>
        bt_get (rg_tables r') (sm_table_id summary) = Some t \<longrightarrow>
        registry_ok (put_table (sm_table_id summary) (t\<lparr>gt_tournament := Some controller\<rparr>) r'))" by blast
  qed
  then show ?thesis
    using assms(1) by (auto simp: create_tournament_def leaves_simps Let_def) (erule leaves_mono, blast)
qed

subsection \<open>Joining\<close>

text \<open>A session with a fresh player identity.\<close>

lemma routes_ok_insert:
  assumes "routes_ok r" "i < rg_next_table_id r" "rg_next_player_id r' = Suc (rg_next_player_id r)"
    and sessions: "rg_sessions r' = bt_insert session \<lparr>ro_table_id = i, ro_player = rg_next_player_id r, ro_seat = s\<rparr> (rg_sessions r)"
    and "rg_next_table_id r' = rg_next_table_id r"
  shows "routes_ok r'"
proof -
  have new: "ro_player c = rg_next_player_id r" "ro_table_id c = i" if "bt_get (rg_sessions r') session = Some c" for c
    using that by (auto simp: sessions bt_get_insert)
  have old: "0 < ro_player c \<and> ro_player c < rg_next_player_id r \<and> ro_table_id c < rg_next_table_id r"
    "bt_get (rg_sessions r) m = Some c" if "bt_get (rg_sessions r') m = Some c" "m \<noteq> session" for m c
  proof -
    show "bt_get (rg_sessions r) m = Some c" using that by (simp add: sessions bt_get_insert)
    then show "0 < ro_player c \<and> ro_player c < rg_next_player_id r \<and> ro_table_id c < rg_next_table_id r"
      using assms(1) unfolding routes_ok_def by blast
  qed
  have same: "j = k" if "bt_get (rg_sessions r) j = Some a" "bt_get (rg_sessions r) k = Some b" "ro_player a = ro_player b" for j k a b
    using that assms(1) unfolding routes_ok_def by blast
  show ?thesis
    unfolding routes_ok_def assms(3,5)
  proof (intro conjI allI impI)
    show "bt_sorted (rg_sessions r')" using assms(1) by (simp add: sessions routes_ok_def bt_sorted_insert)
  next
    fix j a
    assume a: "bt_get (rg_sessions r') j = Some a"
    have "0 < rg_next_player_id r" using assms(1) by (simp add: routes_ok_def)
    then show "0 < ro_player a" "ro_player a < Suc (rg_next_player_id r)" "ro_table_id a < rg_next_table_id r"
      using new [of a] old(1) [OF a] a assms(2) by (cases "j = session"; simp)+
  next
    fix j k a b
    assume a: "bt_get (rg_sessions r') j = Some a" and b: "bt_get (rg_sessions r') k = Some b" and eq: "ro_player a = ro_player b"
    show "j = k"
    proof (cases "j = session"; cases "k = session")
      assume "j \<noteq> session" "k \<noteq> session"
      then show ?thesis using same [OF old(2) [OF a] old(2) [OF b] eq] by blast
    next
      assume "j = session" "k \<noteq> session"
      then show ?thesis using new(1) a old(1) [OF b] eq by simp
    next
      assume "j \<noteq> session" "k = session"
      then show ?thesis using new(1) b old(1) [OF a] eq by simp
    qed simp
  qed simp
qed

text \<open>The registry with a new session at a table that plays no hand.\<close>

lemma joined_ok:
  assumes "registry_ok r" "bt_get (rg_tables r) i = Some t" "bt_get (rg_waiting_sessions r) session = None"
    and "table_sound u" "gt_waiting u = gt_waiting t"
    and "gt_hand_id u = gt_hand_id t \<and> n = rg_next_hand_id r \<or> gt_hand_id u = Some (rg_next_hand_id r) \<and> n = Suc (rg_next_hand_id r)"
    and "rg_tables r' = bt_insert i u (rg_tables r)" "rg_next_hand_id r' = n"
    and "rg_next_player_id r' = Suc (rg_next_player_id r)"
    and "rg_sessions r' = bt_insert session \<lparr>ro_table_id = i, ro_player = rg_next_player_id r, ro_seat = s\<rparr> (rg_sessions r)"
    and "rg_waiting_sessions r' = rg_waiting_sessions r" "rg_next_table_id r' = rg_next_table_id r"
    and "rg_max_tables r' = rg_max_tables r"
  shows "registry_ok r'"
proof -
  note ok = registry_okD [OF assms(1)]
  have "tables_ok r'" by (rule tables_ok_put [OF ok(1) assms(2,4)]) (use assms(7,12,13) in simp_all)
  moreover have "hands_ok r'"
    by (rule hands_ok_put [OF ok(2) assms(2,7)]) (use assms(6,8) in auto)
  moreover have "routes_ok r'"
    by (rule routes_ok_insert [OF ok(3) _ assms(9,10,12)]) (use registry_ok_below [OF assms(1,2)] in simp)
  moreover have "waits_ok r'"
    using ok(4) assms(2,3,5,7,10-12) by (fastforce simp: waits_ok_def bt_get_insert)
  ultimately show ?thesis by (simp add: registry_ok_def)
qed

lemma enroll_ok:
  assumes "enroll n player s tournament = Some (Inr tournament')" "\<forall>c. tournament = Some c \<longrightarrow> tour_ok c"
  shows "\<forall>c. tournament' = Some c \<longrightarrow> tour_ok c"
proof (cases tournament)
  case (Some c)
  then have "tour_ok c" using assms(2) by simp
  then show ?thesis
    using assms(1) Some by (auto simp: enroll_def split: option.splits sum.splits bind_splits if_splits
      intro: tournament_start_ok register_ok dest: register_ok [of c])
qed (use assms(1) in \<open>simp add: enroll_def\<close>)

lemma map_sum_Some [simp]:
  "map_sum id Some z = Inr (Some y) \<longleftrightarrow> z = Inr y" "map_sum id Some z \<noteq> Inr None"
  by (cases z; auto)+

lemma prepare_join_sound:
  assumes "prepare_join sv now table_id hand_id (gt_lifecycle t) t = Some (Inr prepared)" "table_sound t" "gt_runtime t = None"
  shows "case prepared of None \<Rightarrow> True | Some (l, following, w) \<Rightarrow> following = Suc hand_id \<and>
    table_sound (t\<lparr>gt_lifecycle := l, gt_hand_id := Some h, gt_runtime := Some w\<rparr>)"
proof (cases prepared)
  case (Some p)
  obtain l following w where p: "p = (l, following, w)" by (cases p)
  have roster: "roster_ok (gt_lifecycle t)" using assms(2) by (simp add: table_sound_def)
  have "prepare_hand sv now False table_id hand_id (pc_seats (gt_config t)) (\<lambda>start. gt_deterministic_seed t)
      (gt_tournament t) (gt_seat_sessions t) (gt_lifecycle t) = Some (Inr (l, following, w))"
    using assms(1) Some p by (auto simp: prepare_join_def Let_def split: if_splits)
  note facts = prepare_hand_roster [OF this roster]
  show ?thesis
    using facts assms(2) Some p by (simp add: table_sound_def)
qed simp

lemma install_join_ok:
  assumes "registry_ok r" "bt_get (rg_waiting_sessions r) session = None" "bt_get (rg_tables r) i = Some t"
    and "table_sound u" "gt_waiting u = gt_waiting t" "gt_hand_id u = gt_hand_id t"
    and "case prepared of None \<Rightarrow> True | Some (l, following, w) \<Rightarrow> following = Suc (rg_next_hand_id r) \<and>
      table_sound (u\<lparr>gt_lifecycle := l, gt_hand_id := Some (rg_next_hand_id r), gt_runtime := Some w\<rparr>)"
  shows "leaves (\<lambda>res. registry_ok) (install_join session i s (rg_next_player_id r) (Suc (rg_next_player_id r)) prepared u r)"
proof -
  let ?p = "case prepared of None \<Rightarrow> (u, rg_next_hand_id r)
    | Some (l, following, w) \<Rightarrow> (u\<lparr>gt_lifecycle := l, gt_hand_id := Some (rg_next_hand_id r), gt_runtime := Some w\<rparr>, following)"
  have p: "table_sound (fst ?p)" "gt_waiting (fst ?p) = gt_waiting t"
    "gt_hand_id (fst ?p) = gt_hand_id t \<and> snd ?p = rg_next_hand_id r \<or>
     gt_hand_id (fst ?p) = Some (rg_next_hand_id r) \<and> snd ?p = Suc (rg_next_hand_id r)"
    using assms(4-7) by (auto split: option.splits)
  have "registry_ok ((put_table i (fst ?p) r)\<lparr>rg_next_player_id := Suc (rg_next_player_id r), rg_next_hand_id := snd ?p,
      rg_retired_updates := bt_remove session (rg_retired_updates r),
      rg_sessions := bt_insert session \<lparr>ro_table_id = i, ro_player = rg_next_player_id r, ro_seat = s\<rparr> (rg_sessions r)\<rparr>)"
    by (rule joined_ok [OF assms(1,3,2) p, of _ s]) simp_all
  then show ?thesis
    by (simp add: install_join_def leaves_simps Let_def case_prod_beta)
qed

lemma registry_join_ok:
  assumes "registry_ok r" "bt_get (rg_waiting_sessions r) session = None"
  shows "leaves (\<lambda>res. registry_ok) (registry_join sv now session table_id requested r)"
proof -
  have "leaves (\<lambda>res. registry_ok) (install_join session table_id s (rg_next_player_id r) next_player_id prepared u r)"
    if "u64_checked_add (rg_next_player_id r) (Suc 0) = Some next_player_id" "bt_get (rg_tables r) table_id = Some t" "gt_runtime t = None"
      "fst (join (gt_lifecycle t) (rg_next_player_id r) s (pc_starting_stack (gt_config t))) = Inr ()"
      "enroll (pc_min_players (gt_config t)) (rg_next_player_id r) s (gt_tournament t) = Some (Inr tournament)"
      "u = t\<lparr>gt_lifecycle := l, gt_durable_lifecycle := l,
         gt_seat_sessions := bt_insert s session (gt_seat_sessions t), gt_tournament := tournament, gt_last_activity := now\<rparr>"
      "l = snd (join (gt_lifecycle t) (rg_next_player_id r) s (pc_starting_stack (gt_config t)))"
      "prepare_join sv now table_id (rg_next_hand_id r) l u = Some (Inr prepared)"
    for next_player_id t s l tournament u prepared
  proof -
    have sound: "table_sound t" by (rule registry_ok_table [OF assms(1) that(2)])
    have joined: "join (gt_lifecycle t) (rg_next_player_id r) s (pc_starting_stack (gt_config t)) = (Inr (), l)"
      using that(4) unfolding that(7) by (metis prod.collapse)
    have l: "roster_ok l" "same_house (gt_lifecycle t) l"
      using join_ok [OF _ joined] join_house [OF joined] sound by (auto simp: table_sound_def)
    have "\<forall>c. tournament = Some c \<longrightarrow> tour_ok c"
      by (rule enroll_ok [OF that(5)]) (use sound in \<open>simp add: table_sound_def\<close>)
    then have u: "table_sound u" "gt_runtime u = None" "gt_lifecycle u = l"
      using that(3,6) sound l by (simp_all add: table_sound_def same_house_def hand_active_def bt_sorted_insert)
    have "next_player_id = Suc (rg_next_player_id r)" using that(1) by (simp add: u64_checked_add_def split: if_splits)
    then show ?thesis
      using install_join_ok [OF assms that(2) u(1), of prepared s] prepare_join_sound [of sv now table_id "rg_next_hand_id r" u prepared]
        that(6,8) u by simp
  qed
  then show ?thesis
    using assms(1) by (simp add: registry_join_def leaves_simps Let_def)
qed

subsection \<open>Waiting, leaving and removal\<close>

text \<open>The invariant through waiting, leaving, reconnecting and the removal of tables.\<close>

subsection \<open>Waiting\<close>

lemma queued_ok:
  assumes "registry_ok r" "bt_get (rg_tables r) i = Some t" "bt_get (rg_sessions r) session = None"
    and "length (gt_waiting t) < MAX_TABLE_WAITING_ENTRIES"
    and "u = t\<lparr>gt_waiting := gt_waiting t @ [\<lparr>we_session = session, we_requested_seat = seat\<rparr>], gt_last_activity := now\<rparr>"
  shows "registry_ok ((put_table i u r)\<lparr>rg_waiting_sessions := bt_insert session i (rg_waiting_sessions r)\<rparr>)" (is "registry_ok ?r")
proof -
  note ok = registry_okD [OF assms(1)]
  have u: "table_sound u" "gt_hand_id u = gt_hand_id t"
    using registry_ok_table [OF assms(1,2)] assms(4) by (simp_all add: assms(5) table_sound_def)
  have "tables_ok ?r" by (rule tables_ok_put [OF ok(1) assms(2) u(1)]) simp_all
  moreover have "hands_ok ?r" by (rule hands_ok_put [OF ok(2) assms(2)]) (use u(2) in auto)
  moreover have "routes_ok ?r" using ok(3) by (simp add: routes_ok_def)
  moreover have "waits_ok ?r"
  proof -
    have old: "bt_get (rg_sessions r) j = None \<and> k < rg_next_table_id r \<and>
        (\<forall>t. bt_get (rg_tables r) k = Some t \<longrightarrow> j \<in> we_session ` set (gt_waiting t))"
      if "bt_get (rg_waiting_sessions r) j = Some k" for j k
      using that ok(4) unfolding waits_ok_def by blast
    have sorted: "bt_sorted (rg_waiting_sessions r)" using ok(4) by (simp add: waits_ok_def)
    have "bt_get (rg_sessions r) j = None \<and> k < rg_next_table_id r \<and>
        (\<forall>v. bt_get (bt_insert i u (rg_tables r)) k = Some v \<longrightarrow> j \<in> we_session ` set (gt_waiting v))"
      if "bt_get (bt_insert session i (rg_waiting_sessions r)) j = Some k" for j k
    proof (cases "j = session")
      case True
      then show ?thesis using that registry_ok_below [OF assms(1,2)] assms(3) by (auto simp: bt_get_insert assms(5))
    next
      case False
      then have "bt_get (rg_waiting_sessions r) j = Some k" using that by (simp add: bt_get_insert)
      from old [OF this] show ?thesis using assms(2) by (auto simp: bt_get_insert assms(5))
    qed
    then show ?thesis using sorted by (simp add: waits_ok_def bt_sorted_insert)
  qed
  ultimately show ?thesis by (simp add: registry_ok_def)
qed

lemma join_or_wait_ok:
  assumes "registry_ok r"
  shows "leaves (\<lambda>res. registry_ok) (join_or_wait_with_access sv now session table_id seat code r)"
  using assms queued_ok [OF assms]
  by (simp add: join_or_wait_with_access_def leaves_simps Let_def not_le)
    (auto intro!: leaves_mono [OF registry_join_ok [OF assms]])

subsection \<open>Leaving\<close>

text \<open>A session without its seat or its place in the queue.\<close>

lemma routes_ok_remove: "routes_ok r \<Longrightarrow> rg_next_player_id r' = rg_next_player_id r \<Longrightarrow> rg_next_table_id r' = rg_next_table_id r
    \<Longrightarrow> rg_sessions r' = bt_remove session (rg_sessions r) \<Longrightarrow> routes_ok r'"
  unfolding routes_ok_def by (auto simp: bt_get_remove bt_sorted_remove)

lemma waits_ok_fewer:
  assumes "waits_ok r" "rg_tables r' = rg_tables r" "rg_next_table_id r' = rg_next_table_id r"
    and "bt_sorted (rg_waiting_sessions r')"
    and "\<And>i k. bt_get (rg_waiting_sessions r') i = Some k \<Longrightarrow> bt_get (rg_waiting_sessions r) i = Some k \<and> bt_get (rg_sessions r') i = None"
  shows "waits_ok r'"
  using assms unfolding waits_ok_def by (metis (no_types, lifting))

lemma departed_ok:
  assumes "registry_ok r"
  shows "registry_ok (r\<lparr>rg_sessions := bt_remove session (rg_sessions r)\<rparr>)" (is "registry_ok ?r")
proof -
  note ok = registry_okD [OF assms]
  have "routes_ok ?r" by (rule routes_ok_remove [OF ok(3)]) simp_all
  moreover have "waits_ok ?r" using ok(4) by (auto simp: waits_ok_def bt_get_remove)
  moreover have "tables_ok ?r" "hands_ok ?r"
    using ok(1,2) tables_ok_cong [of ?r r] hands_ok_cong [of ?r r] by simp_all
  ultimately show ?thesis by (simp add: registry_ok_def)
qed

lemma put_then_depart: "(put_table i t r)\<lparr>rg_sessions := m\<rparr> = put_table i t (r\<lparr>rg_sessions := m\<rparr>)"
  by (simp add: put_table_def)

lemma cancel_wait_ok:
  assumes "registry_ok r"
  shows "leaves (\<lambda>res. registry_ok) (cancel_wait now session table_id r)"
proof (cases "bt_get (rg_sessions r) session")
  case (Some route)
  have "registry_ok ((put_table table_id u r)\<lparr>rg_sessions := bt_remove session (rg_sessions r)\<rparr>)"
    if "bt_get (rg_tables r) table_id = Some t" "request_leave (gt_lifecycle t) (ro_player route) = Some (left, l)"
      "gt_tournament t = Some c" "unregister c (ro_player route) = Inr c'" "gt_runtime t = None"
      "u = t\<lparr>gt_tournament := Some c', gt_lifecycle := l, gt_durable_lifecycle := l,
         gt_seat_sessions := bt_remove (ro_seat route) (gt_seat_sessions t), gt_last_activity := now\<rparr>"
    for t left l c c' u
  proof -
    have sound: "table_sound t" by (rule registry_ok_table [OF assms that(1)])
    then have "roster_ok l" "same_house (gt_lifecycle t) l" "tour_ok c'"
      using request_leave_ok [OF _ that(2)] request_leave_house [OF that(2)] unregister_ok [OF _ that(4)] that(3)
      by (auto simp: table_sound_def)
    then have "table_sound u"
      using sound that(5) by (simp add: that(6) table_sound_def same_house_def hand_active_def bt_sorted_remove)
    then show ?thesis
      unfolding put_then_depart
      by (intro put_table_ok [OF departed_ok [OF assms], where t = t]) (use that(1,6) in simp_all)
  qed
  then show ?thesis
    using Some assms by (auto simp: cancel_wait_def cancel_registration_def leaves_simps Let_def is_none_or_def)
next
  case None
  have "registry_ok ((put_table table_id u r)\<lparr>rg_waiting_sessions := bt_remove session (rg_waiting_sessions r)\<rparr>)"
    if "bt_get (rg_tables r) table_id = Some t"
      "u = t\<lparr>gt_waiting := filter (\<lambda>e. we_session e \<noteq> session) (gt_waiting t), gt_last_activity := now\<rparr>" for t u
  proof -
    let ?r = "(put_table table_id u r)\<lparr>rg_waiting_sessions := bt_remove session (rg_waiting_sessions r)\<rparr>"
    note ok = registry_okD [OF assms]
    have u: "table_sound u" "gt_hand_id u = gt_hand_id t"
      using registry_ok_table [OF assms that(1)] le_trans [OF length_filter_le] by (auto simp: that(2) table_sound_def)
    have "tables_ok ?r" by (rule tables_ok_put [OF ok(1) that(1) u(1)]) simp_all
    moreover have "hands_ok ?r" by (rule hands_ok_put [OF ok(2) that(1)]) (use u(2) in auto)
    moreover have "routes_ok ?r" using ok(3) by (simp add: routes_ok_def)
    moreover have "waits_ok ?r"
      using ok(4) that(1) by (fastforce simp: waits_ok_def bt_get_insert bt_get_remove bt_sorted_remove that(2) split: if_splits)
    ultimately show ?thesis by (simp add: registry_ok_def)
  qed
  then show ?thesis
    using None assms by (simp add: cancel_wait_def leaves_simps Let_def)
qed

lemma registry_request_leave_ok:
  assumes "registry_ok r"
  shows "leaves (\<lambda>res. registry_ok) (registry_request_leave now session r)"
proof -
  have "registry_ok (put_table i (t\<lparr>gt_lifecycle := l\<rparr>) r)"
    "registry_ok (put_table i (t\<lparr>gt_lifecycle := l, gt_pending_departures := p, gt_last_activity := k\<rparr>) r)"
    if "bt_get (rg_tables r) i = Some t" "request_leave (gt_lifecycle t) player = Some (left, l)" for i t l player left p k
  proof -
    have sound: "table_sound t" by (rule registry_ok_table [OF assms that(1)])
    then have "roster_ok l" "same_house (gt_lifecycle t) l"
      using request_leave_ok [OF _ that(2)] request_leave_house [OF that(2)] by (auto simp: table_sound_def)
    then have u: "table_sound (t\<lparr>gt_lifecycle := l\<rparr>)"
        "table_sound (t\<lparr>gt_lifecycle := l, gt_pending_departures := p, gt_last_activity := k\<rparr>)"
      using sound by (simp_all add: table_sound_def same_house_def hand_active_def)
    show "registry_ok (put_table i (t\<lparr>gt_lifecycle := l\<rparr>) r)"
      by (rule put_table_ok [OF assms that(1) u(1)]) simp_all
    show "registry_ok (put_table i (t\<lparr>gt_lifecycle := l, gt_pending_departures := p, gt_last_activity := k\<rparr>) r)"
      by (rule put_table_ok [OF assms that(1) u(2)]) simp_all
  qed
  moreover have "bump_revision (put_table i u (put_table i t r)) = bump_revision (put_table i u r)" for i t u
  proof -
    have "bt_insert i u (bt_insert i t m) = bt_insert i u m" for m :: "(table_id, registered_table) btree"
      by (induction m) auto
    then show ?thesis by (simp add: put_table_def)
  qed
  ultimately show ?thesis
    using assms by (auto simp: registry_request_leave_def leaves_simps Let_def)
qed

end
