(* ===== verification/Registry_Rollover.thy ===== *)
theory Registry_Rollover
  imports Registry_Invariant
begin

text \<open>The invariant through the rollover of a hand, breaks, health and the removal of tables.\<close>

subsection \<open>Workers\<close>

lemma worker_put_ok:
  assumes "registry_ok r" "bt_get (rg_tables r) i = Some t" "gt_runtime t = Some w0"
  shows "registry_ok (put_table i (t\<lparr>gt_runtime := Some w\<rparr>) r)"
proof (rule put_table_ok [OF assms(1,2)])
  show "table_sound (t\<lparr>gt_runtime := Some w\<rparr>)"
    using registry_ok_table [OF assms(1,2)] assms(3) by (simp add: table_sound_def)
qed simp_all

lemma put_table_twice [simp]: "put_table i u (put_table i t r) = put_table i u r"
proof -
  have "bt_insert i u (bt_insert i t m) = bt_insert i u m" for m :: "(table_id, registered_table) btree"
    by (induction m) auto
  then show ?thesis by (simp add: put_table_def)
qed

subsection \<open>Departures and admissions\<close>

lemma fold_depart:
  assumes "fold depart sessions (m, r) = (m', r')" "registry_ok r" "bt_sorted m"
  shows "registry_ok r' \<and> bt_sorted m' \<and> rg_tables r' = rg_tables r \<and> rg_next_table_id r' = rg_next_table_id r \<and>
    rg_waiting_sessions r' = rg_waiting_sessions r \<and> rg_next_hand_id r' = rg_next_hand_id r \<and>
    rg_max_tables r' = rg_max_tables r"
  using assms
proof (induction sessions arbitrary: m r)
  case (Cons session sessions)
  show ?case
  proof (cases "bt_get (rg_sessions r) session")
    case None
    then have "fold depart sessions (m, r) = (m', r')" using Cons.prems(1) by (simp add: depart_def [of session])
    from Cons.IH [OF this Cons.prems(2,3)] show ?thesis .
  next
    case (Some route)
    let ?r = "r\<lparr>rg_sessions := bt_remove session (rg_sessions r)\<rparr>"
    have "fold depart sessions (bt_remove (ro_seat route) m, ?r) = (m', r')"
      using Cons.prems(1) Some by (simp add: depart_def [of session])
    from Cons.IH [OF this departed_ok [OF Cons.prems(2)] bt_sorted_remove [OF Cons.prems(3)]] show ?thesis by simp
  qed
qed simp

lemma next_player_ok:
  assumes "registry_ok r"
  shows "registry_ok (r\<lparr>rg_next_player_id := Suc (rg_next_player_id r)\<rparr>)" (is "registry_ok ?r")
proof -
  note ok = registry_okD [OF assms]
  have "routes_ok ?r" using ok(3) unfolding routes_ok_def by (auto simp: less_Suc_eq)
  moreover have "tables_ok ?r" "hands_ok ?r" "waits_ok ?r"
    using ok tables_ok_cong [of ?r r] hands_ok_cong [of ?r r] by (simp_all add: waits_ok_def)
  ultimately show ?thesis by (simp add: registry_ok_def)
qed

lemma admitted_ok:
  assumes "registry_ok r" "i < rg_next_table_id r"
  shows "registry_ok (r\<lparr>rg_next_player_id := Suc (rg_next_player_id r),
      rg_waiting_sessions := bt_remove session (rg_waiting_sessions r),
      rg_sessions := bt_insert session \<lparr>ro_table_id = i, ro_player = rg_next_player_id r, ro_seat = s\<rparr> (rg_sessions r)\<rparr>)"
    (is "registry_ok ?r")
proof -
  note ok = registry_okD [OF assms(1)]
  have "routes_ok ?r" by (rule routes_ok_insert [OF ok(3) assms(2)]) simp_all
  moreover have "waits_ok ?r"
    using ok(4) by (auto simp: waits_ok_def bt_get_remove bt_sorted_remove bt_get_insert)
  moreover have "tables_ok ?r" "hands_ok ?r"
    using ok(1,2) tables_ok_cong [of ?r r] hands_ok_cong [of ?r r] by simp_all
  ultimately show ?thesis by (simp add: registry_ok_def)
qed

text \<open>A roster between hands, of a table of a size.\<close>

definition idle_roster :: "table_size \<Rightarrow> table_lifecycle \<Rightarrow> bool" where
  "idle_roster n l \<longleftrightarrow> roster_ok l \<and> lc_table_size l = n \<and> lc_active_hand l = None"

text \<open>What the loop over the waiting sessions leaves.\<close>

definition admission_sound :: "registry \<Rightarrow> table_id \<Rightarrow> table_size
    \<Rightarrow> table_registry_error + table_lifecycle \<times> (seat_id, guest_session_id) btree \<times> waiting_entry list \<Rightarrow> registry \<Rightarrow> bool" where
  "admission_sound r i n res r' \<longleftrightarrow> registry_ok r' \<and> rg_tables r' = rg_tables r \<and> rg_next_hand_id r' = rg_next_hand_id r \<and>
     (\<forall>l m waiting. res = Inr (l, m, waiting) \<longrightarrow> idle_roster n l \<and> bt_sorted m \<and>
        length waiting \<le> MAX_TABLE_WAITING_ENTRIES \<and>
        (\<forall>s. bt_get (rg_waiting_sessions r') s = Some i \<longrightarrow> s \<in> we_session ` set waiting))"

lemma admission_error [simp]: "admission_sound r i n (Inl e) r' \<longleftrightarrow> registry_ok r' \<and> rg_tables r' = rg_tables r \<and>
    rg_next_hand_id r' = rg_next_hand_id r"
  by (simp add: admission_sound_def)

lemma admit_waiting_ok:
  assumes "registry_ok r" "i < rg_next_table_id r" "idle_roster n l" "bt_sorted m"
    and "length waiting \<le> MAX_TABLE_WAITING_ENTRIES"
    and "\<forall>s. bt_get (rg_waiting_sessions r) s = Some i \<longrightarrow> s \<in> we_session ` set waiting"
  shows "leaves (admission_sound r i n) (admit_waiting i config waiting l m r)"
  using assms
proof (induction waiting arbitrary: l m r)
  case Nil
  then show ?case by (simp add: leaves_simps admission_sound_def)
next
  case (Cons entry rest)
  show ?case
  proof (cases "find_seat (pc_seats config) l (we_requested_seat entry)")
    case None
    then show ?thesis using Cons.prems by (simp add: leaves_simps admission_sound_def)
  next
    case (Some s)
    show ?thesis
    proof (cases "u64_checked_add (rg_next_player_id r) 1")
      case None
      then show ?thesis using Some Cons.prems by (simp add: leaves_simps admission_sound_def Let_def)
    next
      case next_id: (Some next_id)
      then have next_id_eq: "next_id = Suc (rg_next_player_id r)" by (simp add: u64_checked_add_def split: if_splits)
      obtain res l' where joined: "join_with_entry l (rg_next_player_id r) s (pc_starting_stack config) PostLiveBigBlind = Some (res, l')"
          "roster_ok l'"
        using join_with_entry_ok Cons.prems(3) unfolding idle_roster_def by blast
      have idle: "idle_roster n l'"
        using join_with_entry_house [OF joined(1)] joined(2) Cons.prems(3) by (simp add: idle_roster_def same_house_def)
      let ?r = "r\<lparr>rg_next_player_id := next_id\<rparr>"
      let ?r' = "?r\<lparr>rg_waiting_sessions := bt_remove (we_session entry) (rg_waiting_sessions ?r),
        rg_sessions := bt_insert (we_session entry) \<lparr>ro_table_id = i, ro_player = rg_next_player_id r, ro_seat = s\<rparr> (rg_sessions ?r)\<rparr>"
      have r: "registry_ok ?r" using next_player_ok [OF Cons.prems(1)] next_id_eq by simp
      have r': "registry_ok ?r'" using admitted_ok [OF Cons.prems(1,2)] next_id_eq by simp
      have rest: "leaves (admission_sound ?r' i n) (admit_waiting i config rest l' (bt_insert s (we_session entry) m) ?r')"
        if "res = Inr ()"
        by (rule Cons.IH [OF r' _ idle]) (use Cons.prems in \<open>auto simp: bt_sorted_insert bt_get_remove\<close>)
      have "leaves (admission_sound r i n) (admit_waiting i config rest l' (bt_insert s (we_session entry) m) ?r')"
        if "res = Inr ()" by (rule leaves_mono [OF rest [OF that]]) (simp add: admission_sound_def)
      then show ?thesis
        using Some next_id joined r by (auto simp: leaves_simps Let_def)
    qed
  qed
qed

subsection \<open>The successor hand\<close>

lemma install_successor_ok:
  assumes "registry_ok r" "bt_get (rg_tables r) i = Some t" "idle_roster (pc_seats (gt_config t)) l" "bt_sorted m"
    and "length waiting \<le> MAX_TABLE_WAITING_ENTRIES" "\<forall>c. tournament = Some c \<longrightarrow> tour_ok c"
    and "\<And>s. bt_get (rg_waiting_sessions r) s = Some i \<Longrightarrow> s \<in> we_session ` set waiting"
  shows "leaves (\<lambda>res. registry_ok) (install_successor sv now i l m waiting tournament t r)"
proof -
  note ok = registry_okD [OF assms(1)]
  have sound: "table_sound t" by (rule registry_ok_table [OF assms(1,2)])
  have put: "registry_ok ((put_table i u r)\<lparr>rg_next_hand_id := n\<rparr>)"
    if sound_u: "table_sound u" and queue: "gt_waiting u = waiting"
      and hand: "gt_hand_id u = None \<and> n = rg_next_hand_id r \<or> gt_hand_id u = Some (rg_next_hand_id r) \<and> n = Suc (rg_next_hand_id r)" for u n
  proof -
    let ?r = "(put_table i u r)\<lparr>rg_next_hand_id := n\<rparr>"
    have "tables_ok ?r" by (rule tables_ok_put [OF ok(1) assms(2) sound_u]) simp_all
    moreover have "hands_ok ?r" by (rule hands_ok_put [OF ok(2) assms(2)]) (use hand in auto)
    moreover have "waits_ok ?r"
    proof (rule waits_ok_put [OF ok(4)])
      show "s \<in> we_session ` set (gt_waiting u)" if "bt_get (rg_waiting_sessions r) s = Some i" for s
        unfolding queue by (rule assms(7) [OF that])
    qed simp_all
    moreover have "routes_ok ?r" using ok(3) routes_ok_cong [of ?r r] by simp
    ultimately show ?thesis by (simp add: registry_ok_def)
  qed
  let ?t = "t\<lparr>gt_durable_lifecycle := l, gt_seat_sessions := m, gt_waiting := waiting, gt_pending_departures := [],
    gt_tournament := tournament, gt_last_activity := now\<rparr>"
  have l: "roster_ok l" using assms(3) by (simp add: idle_roster_def)
  have rest: "table_sound (?t\<lparr>gt_lifecycle := l, gt_hand_id := None, gt_runtime := None\<rparr>)"
    using sound assms(3-6) by (simp add: table_sound_def idle_roster_def hand_active_def)
  have play: "table_sound (?t\<lparr>gt_lifecycle := l', gt_hand_id := Some (rg_next_hand_id r), gt_runtime := Some w\<rparr>) \<and>
      following = Suc (rg_next_hand_id r)"
    if "prepare_hand sv now False i (rg_next_hand_id r) (pc_seats (gt_config t)) (successor_seed (gt_deterministic_seed t))
        tournament m l = Some (Inr (l', following, w))" for l' following w
    using prepare_hand_roster [OF that l] sound assms(3-6) by (simp add: table_sound_def idle_roster_def hand_active_def)
  have "registry_ok (put_table i (?t\<lparr>gt_lifecycle := l, gt_hand_id := None, gt_runtime := None\<rparr>) r)"
    using put [OF rest, of "rg_next_hand_id r"] by (simp add: put_table_def)
  then show ?thesis
    using assms(1) put play
    by (auto simp: install_successor_def leaves_simps Let_def)
qed

lemma settle_tournament_ok:
  assumes "settle_tournament elapsed start final tournament = Some (Inr tournament')" "\<forall>c. tournament = Some c \<longrightarrow> tour_ok c"
  shows "\<forall>c. tournament' = Some c \<longrightarrow> tour_ok c"
proof (cases tournament)
  case (Some c)
  obtain c1 where c1: "tick_between_hands (min elapsed (u64_bound - 1)) c = Some c1" "tour_ok c1"
    using tick_tour_ok assms(2) Some by blast
  obtain res c2 where "tournament_complete_hand c1 start final = Some (res, c2)" "tour_ok c2"
    using freezeout_hand_ok [OF c1(2)] by blast
  then show ?thesis
    using assms(1) Some c1 by (auto simp: settle_tournament_def split: sum.splits)
qed (use assms(1) in \<open>simp add: settle_tournament_def\<close>)

lemma reconcile_ok:
  assumes "registry_ok r" "bt_get (rg_tables r) i = Some t"
  shows "leaves (\<lambda>res. registry_ok) (reconcile sv now i final t r)"
proof -
  have sound: "table_sound t" by (rule registry_ok_table [OF assms])
  have below: "i < rg_next_table_id r" using registry_ok_below [OF assms] by simp
  have waiting: "s \<in> we_session ` set (gt_waiting t)" if "bt_get (rg_waiting_sessions r) s = Some i" for s
    using that assms(2) registry_okD(4) [OF assms(1)] unfolding waits_ok_def by blast
  have finish: "leaves (\<lambda>res. registry_ok) (reg_then (if tournament = None
        then admit_waiting i (gt_config t) (gt_waiting t) l m r'
        else reg_ok (l, m, gt_waiting t) r')
      (\<lambda>(l, m, waiting) r. install_successor sv now i l m waiting tournament t r))"
    if "registry_ok r'" "rg_tables r' = rg_tables r" "rg_next_table_id r' = rg_next_table_id r"
      "rg_waiting_sessions r' = rg_waiting_sessions r"
      "idle_roster (pc_seats (gt_config t)) l" "bt_sorted m" "\<forall>c. tournament = Some c \<longrightarrow> tour_ok c" for r' l m tournament
  proof (cases tournament)
    case None
    have "leaves (admission_sound r' i (pc_seats (gt_config t))) (admit_waiting i (gt_config t) (gt_waiting t) l m r')"
      by (rule admit_waiting_ok) (use that below sound waiting in \<open>simp_all add: table_sound_def\<close>)
    then show ?thesis
      using None that(2) assms(2)
      by (auto simp: leaves_simps admission_sound_def elim!: leaves_mono intro!: install_successor_ok)
  next
    case (Some c)
    then show ?thesis
      using that assms(2) sound waiting
      by (auto simp: leaves_simps table_sound_def intro!: install_successor_ok)
  qed
  have idle: "idle_roster (pc_seats (gt_config t)) l"
    if "complete_hand (gt_lifecycle t) final = Some (Inr (), l)" for l
    using complete_hand_house [OF that] complete_hand_ok [of "gt_lifecycle t" final] sound that
    by (auto simp: idle_roster_def table_sound_def)
  have all: "leaves (\<lambda>res. registry_ok)
     (let m = filter (\<lambda>(s, session). table_seat (lc_seats l) s \<noteq> None)
         (fst (fold depart (gt_pending_departures t) (gt_seat_sessions t, r)))
      in reg_then (if tournament = None
           then admit_waiting i (gt_config t) (gt_waiting t) l m (snd (fold depart (gt_pending_departures t) (gt_seat_sessions t, r)))
           else reg_ok (l, m, gt_waiting t) (snd (fold depart (gt_pending_departures t) (gt_seat_sessions t, r))))
         (\<lambda>(l, m, waiting) r. install_successor sv now i l m waiting tournament t r))"
    if "idle_roster (pc_seats (gt_config t)) l" "\<forall>c. tournament = Some c \<longrightarrow> tour_ok c" for l tournament
  proof -
    obtain m' r' where d: "fold depart (gt_pending_departures t) (gt_seat_sessions t, r) = (m', r')" by fastforce
    have "bt_sorted (gt_seat_sessions t)" using sound by (simp add: table_sound_def)
    note facts = fold_depart [OF d assms(1) this]
    show ?thesis
      unfolding d fst_conv snd_conv Let_def
      by (rule finish) (use facts that in \<open>simp_all add: bt_sorted_filter\<close>)
  qed
  have tour: "\<forall>c. tournament = Some c \<longrightarrow> tour_ok c"
    if "settle_tournament elapsed start final (gt_tournament t) = Some (Inr tournament)" for elapsed start tournament
    by (rule settle_tournament_ok [OF that]) (use sound in \<open>simp add: table_sound_def\<close>)
  show ?thesis
    unfolding reconcile_def leaves_simps
  proof (intro allI impI conjI)
    fix completed u settled tournament
    assume "complete_hand (gt_lifecycle t) final = Some completed" "fst completed = Inr u"
      and settled: "settle_tournament (now - gt_last_activity t) (lifecycle_stacks (gt_lifecycle t)) final (gt_tournament t) = Some settled"
        "settled = Inr tournament"
    then have "idle_roster (pc_seats (gt_config t)) (snd completed)" using idle by (cases completed) simp
    then show "leaves (\<lambda>res. registry_ok)
     (let m = filter (\<lambda>(s, session). table_seat (lc_seats (snd completed)) s \<noteq> None)
         (fst (fold depart (gt_pending_departures t) (gt_seat_sessions t, r)))
      in reg_then (if tournament = None
           then admit_waiting i (gt_config t) (gt_waiting t) (snd completed) m (snd (fold depart (gt_pending_departures t) (gt_seat_sessions t, r)))
           else reg_ok (snd completed, m, gt_waiting t) (snd (fold depart (gt_pending_departures t) (gt_seat_sessions t, r))))
         (\<lambda>(l, m, waiting) r. install_successor sv now i l m waiting tournament t r))"
      using all tour settled by blast
  qed (rule assms(1))+
qed

lemma rollover_completed_hand_ok:
  assumes "registry_ok r"
  shows "leaves (\<lambda>res. registry_ok) (rollover_completed_hand sv now i expected r)"
proof -
  have put: "registry_ok (put_table i (t\<lparr>gt_runtime := Some w\<rparr>) r)"
    if "bt_get (rg_tables r) i = Some t" "gt_runtime t = Some w0" for t w0 w
    by (rule worker_put_ok [OF assms that])
  have "leaves (\<lambda>res. registry_ok) (reconcile sv now i final (t\<lparr>gt_runtime := Some w\<rparr>)
      ((put_table i (t\<lparr>gt_runtime := Some w\<rparr>) r)\<lparr>rg_retired_updates := retired\<rparr>))"
    if t: "bt_get (rg_tables r) i = Some t" "gt_runtime t = Some w0" for t w0 w final retired
  proof (rule reconcile_ok)
    show "registry_ok ((put_table i (t\<lparr>gt_runtime := Some w\<rparr>) r)\<lparr>rg_retired_updates := retired\<rparr>)"
      using put [OF t, of w] by (subst registry_ok_cong [of _ "put_table i (t\<lparr>gt_runtime := Some w\<rparr>) r"]) simp_all
  qed (simp add: bt_get_insert)
  then show ?thesis
    using assms put by (simp add: rollover_completed_hand_def leaves_simps Let_def)
qed

subsection \<open>Histories\<close>

lemma finalize_safe_history_ok:
  assumes "registry_ok r"
  shows "leaves (\<lambda>res. registry_ok) (finalize_safe_history now i h r)"
proof -
  have put: "registry_ok (put_table i (t\<lparr>gt_runtime := Some w\<rparr>) r)"
    "registry_ok ((put_table i (t\<lparr>gt_runtime := Some w\<rparr>) r)\<lparr>rg_history := x\<rparr>)"
    if "bt_get (rg_tables r) i = Some t" "gt_runtime t = Some w0" for t w0 w x
    using worker_put_ok [OF assms that, of w]
    by (simp_all add: registry_ok_cong [of "(put_table i (t\<lparr>gt_runtime := Some w\<rparr>) r)\<lparr>rg_history := x\<rparr>" "put_table i (t\<lparr>gt_runtime := Some w\<rparr>) r"])
  then show ?thesis
    using assms by (simp add: finalize_safe_history_def leaves_simps Let_def)
qed

text \<open>The tables that a loop still has to visit are in the registry as the loop began.\<close>

definition unvisited :: "(table_id \<times> registered_table) list \<Rightarrow> registry \<Rightarrow> bool" where
  "unvisited rest r \<longleftrightarrow> distinct (map fst rest) \<and> (\<forall>(i, t)\<in>set rest. bt_get (rg_tables r) i = Some t)"

lemma unvisited_put: "unvisited ((i, t) # rest) r \<Longrightarrow> unvisited rest (put_table i u r)"
  by (force simp: unvisited_def bt_get_insert)

lemma unvisited_all: "registry_ok r \<Longrightarrow> unvisited (rg_tables r) r"
  by (auto simp: unvisited_def registry_ok_def tables_ok_def bt_get_def bt_sorted_def strict_sorted_iff)

lemma ready_hands_ok:
  "registry_ok r \<Longrightarrow> unvisited rest r \<Longrightarrow> leaves (\<lambda>res. registry_ok) (ready_hands now rest r)"
proof (induction rest arbitrary: r)
  case (Cons p rest)
  obtain i t where p: "p = (i, t)" by (cases p)
  have get: "bt_get (rg_tables r) i = Some t" using Cons.prems(2) by (simp add: p unvisited_def)
  have "leaves (\<lambda>res. registry_ok) (ready_hands now rest (put_table i (t\<lparr>gt_runtime := Some w\<rparr>) r))"
      "registry_ok (put_table i (t\<lparr>gt_runtime := Some w\<rparr>) r)" if "gt_runtime t = Some w0" for w0 w
    using Cons.IH worker_put_ok [OF Cons.prems(1) get that, of w] unvisited_put Cons.prems(2) by (simp_all add: p)
  moreover have "unvisited rest r" using Cons.prems(2) by (auto simp: unvisited_def)
  ultimately show ?case
    using Cons.IH [OF Cons.prems(1)]
    by (auto simp: p leaves_simps Let_def split: option.split)
qed (simp add: leaves_simps)

lemma finalize_hands_ok: "registry_ok r \<Longrightarrow> leaves (\<lambda>res. registry_ok) (finalize_hands sv now hands r)"
proof (induction hands arbitrary: r)
  case (Cons p hands)
  obtain i h where p: "p = (i, h)" by (cases p)
  show ?case
    unfolding p finalize_hands.simps leaves_then
    by (rule leaves_mono [OF finalize_safe_history_ok [OF Cons.prems]])
      (auto intro!: leaves_mono [OF rollover_completed_hand_ok] Cons.IH)
qed (simp add: leaves_simps)

lemma finalize_ready_hands_ok:
  assumes "registry_ok r"
  shows "leaves (\<lambda>res. registry_ok) (finalize_ready_hands sv now r)"
  unfolding finalize_ready_hands_def leaves_then
  by (rule leaves_mono [OF ready_hands_ok [OF assms unvisited_all [OF assms]]])
    (auto intro!: leaves_mono [OF finalize_hands_ok] simp: leaves_simps)

lemma registry_health_ok:
  assumes "registry_ok r"
  shows "leaves (\<lambda>res. registry_ok) (registry_health now r)"
proof -
  have loop: "registry_ok r \<Longrightarrow> unvisited rest r \<Longrightarrow> leaves (\<lambda>res. registry_ok) (health_tables now rest r)" for rest r
  proof (induction rest arbitrary: r)
    case (Cons p rest)
    obtain i t where p: "p = (i, t)" by (cases p)
    have get: "bt_get (rg_tables r) i = Some t" using Cons.prems(2) by (simp add: p unvisited_def)
    have "registry_ok (put_table i (snd (table_metrics now t)) r)"
    proof (cases "gt_runtime t")
      case None
      show ?thesis
        by (rule put_table_ok [OF Cons.prems(1) get])
          (use None registry_ok_table [OF Cons.prems(1) get] in \<open>simp_all add: table_metrics_def\<close>)
    next
      case (Some w)
      then show ?thesis
        using worker_put_ok [OF Cons.prems(1) get Some] by (simp add: table_metrics_def case_prod_beta)
    qed
    moreover from this have "leaves (\<lambda>res. registry_ok) (health_tables now rest (put_table i (snd (table_metrics now t)) r))"
      using Cons.IH unvisited_put Cons.prems(2) by (simp add: p)
    ultimately show ?case
      by (auto simp: p leaves_simps Let_def)
  qed (simp add: leaves_simps)
  show ?thesis
    unfolding registry_health_def leaves_then
    by (rule leaves_mono [OF loop [OF assms unvisited_all [OF assms]]]) (auto simp: leaves_simps)
qed

end
