(* ===== verification/Registry_Restart.thy ===== *)
theory Registry_Restart
  imports Registry_Rollover
begin

text \<open>The invariant through breaks, the removal of tables, reconnect tokens, and a restart from a checkpoint.\<close>

subsection \<open>Breaks\<close>

text \<open>A table that begins a prepared hand.\<close>

lemma begun_ok:
  assumes "registry_ok r" "bt_get (rg_tables r) i = Some t"
    and "prepare_hand sv now restored i (rg_next_hand_id r) n seed tournament m (gt_lifecycle t) = Some (Inr (l, following, w))"
    and "u = t\<lparr>gt_lifecycle := l, gt_hand_id := Some (rg_next_hand_id r), gt_runtime := Some w, gt_last_activity := k\<rparr>"
  shows "registry_ok ((put_table i u r)\<lparr>rg_next_hand_id := following\<rparr>)" (is "registry_ok ?r")
proof -
  note ok = registry_okD [OF assms(1)]
  have sound: "table_sound t" by (rule registry_ok_table [OF assms(1,2)])
  then have "roster_ok (gt_lifecycle t)" by (simp add: table_sound_def)
  note facts = prepare_hand_roster [OF assms(3) this]
  have u: "table_sound u" using sound facts by (simp add: assms(4) table_sound_def)
  have "tables_ok ?r" by (rule tables_ok_put [OF ok(1) assms(2) u]) simp_all
  moreover have "hands_ok ?r" by (rule hands_ok_put [OF ok(2) assms(2)]) (use facts(4) in \<open>auto simp: assms(4)\<close>)
  moreover have "routes_ok ?r" using ok(3) routes_ok_cong [of ?r r] by simp
  moreover have "waits_ok ?r"
    by (rule waits_ok_put [OF ok(4)]) (use ok(4) assms(2) in \<open>auto simp: assms(4) waits_ok_def\<close>)
  ultimately show ?thesis by (simp add: registry_ok_def)
qed

lemma start_waiting_tournament_hand_ok:
  assumes "registry_ok r"
  shows "leaves (\<lambda>res. registry_ok) (start_waiting_tournament_hand sv now i r)"
  using assms
  by (auto simp: start_waiting_tournament_hand_def leaves_simps intro!: begun_ok [OF assms _ _ refl])

lemma advance_breaks_ok: "registry_ok r \<Longrightarrow> leaves (\<lambda>res. registry_ok) (advance_breaks sv now ids resumed r)"
proof (induction ids arbitrary: r resumed)
  case (Cons i ids)
  have put: "registry_ok (put_table i (t\<lparr>gt_tournament := Some c', gt_last_activity := now\<rparr>) r)"
    if t: "bt_get (rg_tables r) i = Some t" "gt_tournament t = Some c" "tick_between_hands left c = Some c'" for t c c' left
  proof (rule put_table_ok [OF Cons.prems t(1)])
    have sound: "table_sound t" by (rule registry_ok_table [OF Cons.prems t(1)])
    then have "tour_ok c'" using tick_tour_ok [of c left] t(2,3) by (auto simp: table_sound_def)
    then show "table_sound (t\<lparr>gt_tournament := Some c', gt_last_activity := now\<rparr>)" using sound by (simp add: table_sound_def)
  qed simp_all
  then show ?case
    by (auto simp: leaves_simps Let_def intro!: leaves_mono [OF start_waiting_tournament_hand_ok] Cons.IH)
qed (simp add: leaves_simps)

lemma advance_tournament_breaks_ok:
  assumes "registry_ok r"
  shows "leaves (\<lambda>res. registry_ok) (advance_tournament_breaks sv now r)"
  unfolding advance_tournament_breaks_def leaves_then
  by (rule leaves_mono [OF advance_breaks_ok [OF assms]]) (auto simp: leaves_simps)

subsection \<open>Removing tables\<close>

lemma fewer_tables_ok:
  assumes "registry_ok r" "bt_sorted m" "length m \<le> length (rg_tables r)"
    and "\<And>i t. bt_get m i = Some t \<Longrightarrow> bt_get (rg_tables r) i = Some t"
  shows "registry_ok (r\<lparr>rg_tables := m\<rparr>)"
proof -
  note ok = registry_okD [OF assms(1)]
  have "tables_ok (r\<lparr>rg_tables := m\<rparr>)" using ok(1) assms(2-4) unfolding tables_ok_def by auto
  moreover have "hands_ok (r\<lparr>rg_tables := m\<rparr>)"
    unfolding hands_ok_def
  proof (intro conjI allI impI)
    show "0 < rg_next_hand_id (r\<lparr>rg_tables := m\<rparr>)" using ok(2) by (simp add: hands_ok_def)
  next
    fix i t h assume "bt_get (rg_tables (r\<lparr>rg_tables := m\<rparr>)) i = Some t" "gt_hand_id t = Some h"
    then show "h < rg_next_hand_id (r\<lparr>rg_tables := m\<rparr>)" using ok(2) assms(4) unfolding hands_ok_def by simp blast
  next
    fix i j t u
    assume "bt_get (rg_tables (r\<lparr>rg_tables := m\<rparr>)) i = Some t" "bt_get (rg_tables (r\<lparr>rg_tables := m\<rparr>)) j = Some u"
      "gt_hand_id t \<noteq> None" "gt_hand_id t = gt_hand_id u"
    then show "i = j" using ok(2) assms(4) [of i t] assms(4) [of j u] unfolding hands_ok_def by simp
  qed
  moreover have "routes_ok (r\<lparr>rg_tables := m\<rparr>)" using ok(3) routes_ok_cong [of "r\<lparr>rg_tables := m\<rparr>" r] by simp
  moreover have "waits_ok (r\<lparr>rg_tables := m\<rparr>)" using ok(4) assms(4) by (auto simp: waits_ok_def)
  ultimately show ?thesis by (simp add: registry_ok_def)
qed

lemma length_bt_remove: "length (bt_remove k m) \<le> length m"
  by (simp add: bt_remove_def)

lemma close_and_remove_ok:
  assumes "registry_ok r"
  shows "leaves (\<lambda>res. registry_ok) (close_and_remove i r)"
proof -
  have "registry_ok (r\<lparr>rg_tables := bt_remove i (rg_tables r)\<rparr>)"
    by (rule fewer_tables_ok [OF assms _ length_bt_remove])
      (use registry_okD(1) [OF assms] in \<open>auto simp: bt_get_remove bt_sorted_remove tables_ok_def split: if_splits\<close>)
  then show ?thesis
    using assms by (auto simp: close_and_remove_def leaves_simps split: sum.split)
qed

lemma bt_get_fold_remove: "bt_get (fold bt_remove ks m) i = (if i \<in> set ks then None else bt_get m i)"
  by (induction ks arbitrary: m) (auto simp: bt_get_remove)

lemma expire_inactive_ok: "registry_ok r \<Longrightarrow> registry_ok (snd (expire_inactive_at now idle r))"
proof -
  assume r: "registry_ok r"
  let ?ids = "map fst (filter (\<lambda>(i, t). table_unused t \<and> idle \<le> now - gt_last_activity t) (rg_tables r))"
  have "bt_sorted (fold bt_remove ks m)" "length (fold bt_remove ks m) \<le> length m" if "bt_sorted m"
    for ks and m :: "(table_id, registered_table) btree"
    using that by (induction ks arbitrary: m) (simp_all add: bt_sorted_remove, meson bt_sorted_remove le_trans length_bt_remove)
  then have "registry_ok (r\<lparr>rg_tables := fold bt_remove ?ids (rg_tables r)\<rparr>)"
    using registry_okD(1) [OF r] by (intro fewer_tables_ok [OF r]) (auto simp: tables_ok_def bt_get_fold_remove split: if_splits)
  then show ?thesis using r by (simp add: expire_inactive_at_def Let_def)
qed

subsection \<open>Reconnect tokens and reads\<close>

lemma credentials_ok [simp]: "registry_ok (r\<lparr>rg_credentials := v\<rparr>) = registry_ok r"
  by (rule registry_ok_cong) simp_all

lemma retired_ok [simp]: "registry_ok (r\<lparr>rg_retired_updates := v\<rparr>) = registry_ok r"
  by (rule registry_ok_cong) simp_all

lemma ttl_ok [simp]: "registry_ok (r\<lparr>rg_reconnect_ttl := v\<rparr>) = registry_ok r"
  by (rule registry_ok_cong) simp_all

lemma reconnect_ok:
  assumes "registry_ok r"
  shows "leaves (\<lambda>res. registry_ok) (issue_reconnect_credential sv drawn wall session r)"
    "leaves (\<lambda>res. registry_ok) (authenticate_and_rotate_reconnect sv drawn wall token r)"
    "leaves (\<lambda>res. registry_ok) (identify_reconnect sv wall token r)"
    "leaves (\<lambda>res. registry_ok) (set_reconnect_ttl ttl r)"
  using assms
  by (auto simp: issue_reconnect_credential_def authenticate_and_rotate_reconnect_def identify_reconnect_def
      set_reconnect_ttl_def check_scope_def leaves_simps Let_def split: prod.splits)

subsection \<open>A restart\<close>

lemma Some_eq_map_pick: "bt_sorted m \<Longrightarrow> (k, v) \<in> set m \<longleftrightarrow> bt_get m k = Some v"
  by (auto simp: bt_get_def bt_sorted_def strict_sorted_iff)

text \<open>What the restored tables are.\<close>

definition restored_from :: "checkpoint_table \<Rightarrow> registered_table \<Rightarrow> bool" where
  "restored_from k t \<longleftrightarrow> gt_config t = kt_config k \<and> gt_access_verifier t = kt_access_verifier k \<and>
     restore_between_hand (kt_lifecycle k) = Inr (gt_lifecycle t) \<and> gt_durable_lifecycle t = gt_lifecycle t \<and>
     bh_table_size (kt_lifecycle k) = pc_seats (kt_config k) \<and>
     gt_deterministic_seed t = kt_deterministic_seed k \<and> gt_tournament t = kt_tournament k \<and> gt_hand_id t = None \<and>
     gt_runtime t = None \<and> gt_waiting t = [] \<and> gt_pending_departures t = [] \<and>
     validate_stored_config (kt_config k) (kt_access_verifier k) = Inr ()"

lemma restore_tables_result:
  assumes "restore_tables now n ks acc = Inr tables" "bt_sorted acc"
  shows "bt_sorted tables \<and> length tables = length acc + length ks \<and>
    (\<forall>i t. bt_get tables i = Some t \<longrightarrow> bt_get acc i = Some t \<or>
      (\<exists>k\<in>set ks. kt_table_id k = i \<and> 0 < i \<and> i < n \<and> restored_from k t \<and> gt_seat_sessions t = []))"
  using assms
proof (induction ks arbitrary: acc)
  case (Cons k ks)
  obtain l where l: "kt_table_id k \<noteq> 0" "kt_table_id k < n" "validate_stored_config (kt_config k) (kt_access_verifier k) = Inr ()"
    "bh_table_size (kt_lifecycle k) = pc_seats (kt_config k)" "restore_between_hand (kt_lifecycle k) = Inr l"
    "bt_get acc (kt_table_id k) = None"
    using Cons.prems(1) by (auto split: if_splits sum.splits)
  let ?t = "\<lparr>gt_config = kt_config k, gt_access_verifier = kt_access_verifier k, gt_lifecycle = l,
              gt_durable_lifecycle = l, gt_deterministic_seed = kt_deterministic_seed k,
              gt_tournament = kt_tournament k, gt_hand_id = None, gt_seat_sessions = [], gt_waiting = [],
              gt_pending_departures = [], gt_last_activity = now, gt_runtime = None\<rparr>"
  have t: "restored_from k ?t" using l by (simp add: restored_from_def)
  have "restore_tables now n ks (bt_insert (kt_table_id k) ?t acc) = Inr tables"
    using Cons.prems(1) l by simp
  from Cons.IH [OF this bt_sorted_insert [OF Cons.prems(2)]] show ?case
    using l t by (fastforce simp: bt_get_insert length_bt_insert split: if_splits)
qed simp

text \<open>The sessions of a checkpoint keep everything of a table but its bindings.\<close>

definition same_but_bindings :: "registered_table \<Rightarrow> registered_table \<Rightarrow> bool" where
  "same_but_bindings t u \<longleftrightarrow> u = t\<lparr>gt_seat_sessions := gt_seat_sessions u\<rparr> \<and> (bt_sorted (gt_seat_sessions t) \<longrightarrow> bt_sorted (gt_seat_sessions u))"

lemma restore_sessions_result:
  assumes "restore_sessions n ks tables sessions = Inr (tables', sessions')" "bt_sorted tables" "bt_sorted sessions"
  shows "bt_sorted tables' \<and> bt_sorted sessions' \<and> length tables' = length tables \<and>
    (\<forall>i u. bt_get tables' i = Some u \<longrightarrow> (\<exists>t. bt_get tables i = Some t \<and> same_but_bindings t u)) \<and>
    (\<forall>s route. bt_get sessions' s = Some route \<longrightarrow> bt_get sessions s = Some route \<or>
      (\<exists>k\<in>set ks. ks_principal_id k = s \<and> route = \<lparr>ro_table_id = ks_table_id k, ro_player = ks_player_id k, ro_seat = ks_seat k\<rparr> \<and>
         0 < ks_player_id k \<and> ks_player_id k < n \<and> bt_get tables (ks_table_id k) \<noteq> None))"
  using assms
proof (induction ks arbitrary: tables sessions)
  case Nil
  then show ?case by (auto simp: same_but_bindings_def)
next
  case (Cons k ks)
  obtain session t occupant where f: "0 < ks_player_id k" "ks_player_id k < n" "guest_session_id_new (ks_principal_id k) = Inr session"
    "bt_get tables (ks_table_id k) = Some t" "table_seat (lc_seats (gt_lifecycle t)) (ks_seat k) = Some occupant"
    "ss_player_id occupant = ks_player_id k" "bt_get (gt_seat_sessions t) (ks_seat k) = None" "bt_get sessions session = None"
    using Cons.prems(1) by (auto split: if_splits sum.splits option.splits)
  have session: "session = ks_principal_id k" using f(3) by (simp add: guest_session_id_new_def split: if_splits)
  let ?u = "t\<lparr>gt_seat_sessions := bt_insert (ks_seat k) session (gt_seat_sessions t)\<rparr>"
  let ?tables = "bt_insert (ks_table_id k) ?u tables"
  let ?route = "\<lparr>ro_table_id = ks_table_id k, ro_player = ks_player_id k, ro_seat = ks_seat k\<rparr>"
  have rest: "restore_sessions n ks ?tables (bt_insert session ?route sessions) = Inr (tables', sessions')"
    using Cons.prems(1) f by simp
  note IH = Cons.IH [OF rest bt_sorted_insert [OF Cons.prems(2)] bt_sorted_insert [OF Cons.prems(3)]]
  have u: "same_but_bindings t ?u" by (simp add: same_but_bindings_def bt_sorted_insert)
  have trans: "same_but_bindings t w" if "same_but_bindings ?u w" for w
    using that u by (auto simp: same_but_bindings_def)
  have refl: "same_but_bindings w w" for w by (simp add: same_but_bindings_def)
  have "\<exists>v. bt_get tables i = Some v \<and> same_but_bindings v w" if w: "bt_get tables' i = Some w" for i w
  proof -
    obtain v where v: "bt_get ?tables i = Some v" "same_but_bindings v w" using IH [THEN conjunct2, THEN conjunct2, THEN conjunct2, THEN conjunct1, rule_format, OF w] by blast
    then show ?thesis using trans f(4) by (cases "i = ks_table_id k") (auto simp: bt_get_insert)
  qed
  moreover have "length tables' = length tables" using IH f(4) Cons.prems(2) by (simp add: length_bt_insert_present)
  moreover have "bt_get sessions s = Some route \<or> (\<exists>j\<in>set (k # ks). ks_principal_id j = s \<and>
      route = \<lparr>ro_table_id = ks_table_id j, ro_player = ks_player_id j, ro_seat = ks_seat j\<rparr> \<and>
      0 < ks_player_id j \<and> ks_player_id j < n \<and> bt_get tables (ks_table_id j) \<noteq> None)" if "bt_get sessions' s = Some route" for s route
  proof -
    have "bt_get (bt_insert session ?route sessions) s = Some route \<or> (\<exists>j\<in>set ks. ks_principal_id j = s \<and>
      route = \<lparr>ro_table_id = ks_table_id j, ro_player = ks_player_id j, ro_seat = ks_seat j\<rparr> \<and>
      0 < ks_player_id j \<and> ks_player_id j < n \<and> bt_get ?tables (ks_table_id j) \<noteq> None)"
      using IH [THEN conjunct2, THEN conjunct2, THEN conjunct2, THEN conjunct2, rule_format, OF that] by blast
    then show ?thesis using f(1,2,4) session by (auto simp: bt_get_insert split: if_splits)
  qed
  ultimately show ?case using IH by blast
qed

lemma validate_stored_ok:
  assumes "validate_stored_config c v = Inr ()" "valid_size (pc_seats c)"
  shows "stored_config_ok c" "pc_visibility c = VisPublic \<longleftrightarrow> v = None"
proof -
  have j: "pc_join_code c = None" and v: "pc_visibility c = VisPublic \<longleftrightarrow> v = None"
    using assms(1) by (cases v; auto simp: validate_stored_config_def is_none_or_def split: if_splits)+
  show "pc_visibility c = VisPublic \<longleftrightarrow> v = None" by (rule v)
  have "validate_config (c\<lparr>pc_join_code := (if pc_visibility c = VisPublic then None else Some ''checkpoint-validation-code'')\<rparr>) = Inr ()"
    using assms(1) by (auto simp: validate_stored_config_def split: if_splits)
  from validate_config_ok(1) [OF this] assms(2) j show "stored_config_ok c"
    by (simp add: stored_config_ok_def)
qed

lemma restore_house:
  "restore_between_hand c = Inr l \<Longrightarrow> lc_table_size l = bh_table_size c \<and> lc_active_hand l = None"
  by (auto simp: restore_between_hand_def Let_def split: if_splits sum.splits)

lemma restored_table_sound:
  assumes "restored_from k t" "valid_size (bh_table_size (kt_lifecycle k))" "\<forall>c. kt_tournament k = Some c \<longrightarrow> tour_ok c"
    and "bt_sorted (gt_seat_sessions t)"
  shows "table_sound t"
proof -
  have k: "validate_stored_config (gt_config t) (gt_access_verifier t) = Inr ()"
    "bh_table_size (kt_lifecycle k) = pc_seats (gt_config t)" "restore_between_hand (kt_lifecycle k) = Inr (gt_lifecycle t)"
    using assms(1) by (simp_all add: restored_from_def)
  have "lc_table_size (gt_lifecycle t) = bh_table_size (kt_lifecycle k)" "lc_active_hand (gt_lifecycle t) = None"
    using restore_house [OF k(3)] by simp_all
  then show ?thesis
    using validate_stored_ok [OF k(1)] restore_ok [OF k(3) assms(2)] assms k(2)
    by (simp add: table_sound_def restored_from_def hand_active_def)
qed

lemma restore_payload_ok:
  assumes "restore_payload now wall p = Inr r" "distinct (map ks_player_id (kp_sessions p))"
    and "\<forall>k\<in>set (kp_tables p). valid_size (bh_table_size (kt_lifecycle k)) \<and> (\<forall>c. kt_tournament k = Some c \<longrightarrow> tour_ok c)"
  shows "registry_ok r"
proof -
  obtain tables tables' sessions v where f: "kp_max_tables p \<le> MAX_TABLE_REGISTRY_CAPACITY" "length (kp_tables p) \<le> kp_max_tables p"
    "0 < kp_next_table_id p" "0 < kp_next_player_id p" "0 < kp_next_hand_id p"
    "restore_tables now (kp_next_table_id p) (kp_tables p) [] = Inr tables"
    "restore_sessions (kp_next_player_id p) (kp_sessions p) tables [] = Inr (tables', sessions)"
    and r: "r = \<lparr>rg_max_tables = kp_max_tables p, rg_next_table_id = kp_next_table_id p, rg_next_player_id = kp_next_player_id p,
      rg_next_hand_id = kp_next_hand_id p, rg_revision = kp_registry_revision p, rg_tables = tables', rg_sessions = sessions,
      rg_waiting_sessions = [], rg_retired_updates = [], rg_credentials = v, rg_history = ring_history_store_default,
      rg_reconnect_ttl = RECONNECT_CREDENTIAL_TTL, rg_last_checkpoint_millis = 0, rg_max_checkpoint_millis = 0,
      rg_last_checkpoint_bytes = 0\<rparr>"
    using assms(1) by (auto simp: restore_payload_def split: if_splits sum.splits prod.splits)
  note t = restore_tables_result [OF f(6) bt_sorted_Nil]
  note u = restore_sessions_result [OF f(7) _ bt_sorted_Nil]
  have origin: "\<exists>x. bt_get tables i = Some x \<and> same_but_bindings x w" if "bt_get tables' i = Some w" for i w
    using u t that by blast
  have source: "\<exists>k\<in>set (kp_tables p). 0 < i \<and> i < kp_next_table_id p \<and> restored_from k x \<and> gt_seat_sessions x = []"
    if "bt_get tables i = Some x" for i x
    using t that by fastforce
  have below: "0 < i \<and> i < kp_next_table_id p \<and> table_sound w \<and> gt_hand_id w = None" if w: "bt_get tables' i = Some w" for i w
  proof -
    obtain x where x: "bt_get tables i = Some x" "same_but_bindings x w" using origin [OF w] by blast
    obtain k where k: "k \<in> set (kp_tables p)" "0 < i" "i < kp_next_table_id p" "restored_from k x" "gt_seat_sessions x = []"
      using source [OF x(1)] by blast
    obtain b where w: "w = x\<lparr>gt_seat_sessions := b\<rparr>" "bt_sorted b" using x(2) k(5) by (auto simp: same_but_bindings_def)
    have "restored_from k w" using k(4) by (simp add: w restored_from_def)
    from restored_table_sound [OF this] assms(3) k w show ?thesis by (simp add: restored_from_def)
  qed
  have "tables_ok r" using t u f below by (simp add: r tables_ok_def)
  moreover have "hands_ok r" using f(5) below by (auto simp: r hands_ok_def)
  moreover have "routes_ok r"
  proof -
    have route: "\<exists>k\<in>set (kp_sessions p). ks_principal_id k = s \<and> route = \<lparr>ro_table_id = ks_table_id k, ro_player = ks_player_id k, ro_seat = ks_seat k\<rparr> \<and>
         0 < ks_player_id k \<and> ks_player_id k < kp_next_player_id p \<and> bt_get tables (ks_table_id k) \<noteq> None"
      if "bt_get sessions s = Some route" for s route
      using u t that by fastforce
    have seen: "i < kp_next_table_id p" if "bt_get tables i \<noteq> None" for i
      using that source by blast
    show ?thesis
      unfolding routes_ok_def
    proof (intro conjI allI impI)
      show "bt_sorted (rg_sessions r)" "0 < rg_next_player_id r" using u t f by (simp_all add: r)
    next
      fix s x assume "bt_get (rg_sessions r) s = Some x"
      then show "0 < ro_player x" "ro_player x < rg_next_player_id r" "ro_table_id x < rg_next_table_id r"
        using route seen by (fastforce simp: r)+
    next
      fix s s' x y
      assume xy: "bt_get (rg_sessions r) s = Some x" "bt_get (rg_sessions r) s' = Some y" "ro_player x = ro_player y"
      then obtain k k' where "k \<in> set (kp_sessions p)" "k' \<in> set (kp_sessions p)" "ks_principal_id k = s" "ks_principal_id k' = s'"
          "ks_player_id k = ks_player_id k'"
        using route [of s x] route [of s' y] by (auto simp: r)
      then show "s = s'" using assms(2) by (metis distinct_map inj_onD)
    qed
  qed
  moreover have "waits_ok r" by (simp add: r waits_ok_def)
  ultimately show ?thesis by (simp add: registry_ok_def)
qed

lemma start_restored_ok: "registry_ok r \<Longrightarrow> leaves (\<lambda>res. registry_ok) (start_restored_tables sv now ids r)"
proof (induction ids arbitrary: r)
  case (Cons i ids)
  have begun: "registry_ok ((put_table i (t\<lparr>gt_lifecycle := l, gt_hand_id := Some (rg_next_hand_id r), gt_runtime := Some w\<rparr>) r)\<lparr>rg_next_hand_id := following\<rparr>)"
    if "bt_get (rg_tables r) i = Some t"
      "prepare_hand sv now True i (rg_next_hand_id r) (pc_seats (gt_config t)) (successor_seed (gt_deterministic_seed t))
         (gt_tournament t) (gt_seat_sessions t) (gt_lifecycle t) = Some (Inr (l, following, w))" for t l following w
    by (rule begun_ok [OF Cons.prems that, of _ "gt_last_activity t"]) simp
  then show ?case
    using Cons.prems by (auto simp: leaves_simps intro!: Cons.IH)
qed (simp add: leaves_simps)

lemma collect_results_Inr: "collect_results rs = Inr xs \<longleftrightarrow> rs = map Inr xs"
proof (induction rs arbitrary: xs rule: collect_results.induct)
  case (2 e rs)
  then show ?case by (cases xs) simp_all
next
  case (3 x rs)
  show ?case
  proof (cases xs)
    case Nil
    then show ?thesis by (cases "collect_results rs") simp_all
  next
    case (Cons y ys)
    then show ?thesis using 3 [of ys] by (cases "collect_results rs") auto
  qed
qed auto

lemma checkpoint_payload_fields:
  assumes "checkpoint_payload r = Inr p"
  shows "map checkpoint_of_table (rg_tables r) = map Inr (kp_tables p)"
    "kp_sessions p = map checkpoint_of_session (rg_sessions r)" "kp_max_tables p = rg_max_tables r"
    "kp_next_table_id p = rg_next_table_id r" "kp_next_player_id p = rg_next_player_id r"
    "kp_next_hand_id p = rg_next_hand_id r" "kp_registry_revision p = rg_revision r"
    "kp_credential_capacity p = DEFAULT_CREDENTIAL_CAPACITY" "kp_credentials p = durable_records (rg_credentials r)"
  using assms unfolding checkpoint_payload_def collect_results_Inr [symmetric] by (auto split: sum.splits)

lemma own_payload_ok:
  assumes "registry_ok r" "checkpoint_payload r = Inr p" "restore_payload now wall p = Inr r1"
  shows "registry_ok r1"
proof -
  note tables = checkpoint_payload_fields [OF assms(2)]
  show ?thesis
  proof (rule restore_payload_ok [OF assms(3)])
    have sorted: "bt_sorted (rg_sessions r)" using registry_okD(3) [OF assms(1)] by (simp add: routes_ok_def)
    have "inj_on (ro_player \<circ> snd) (set (rg_sessions r))"
    proof (rule inj_onI)
      fix x y assume "x \<in> set (rg_sessions r)" "y \<in> set (rg_sessions r)" "(ro_player \<circ> snd) x = (ro_player \<circ> snd) y"
      moreover obtain i a j b where "x = (i, a)" "y = (j, b)" by (metis surj_pair)
      ultimately have g: "bt_get (rg_sessions r) i = Some a" "bt_get (rg_sessions r) j = Some b" "ro_player a = ro_player b" "x = (i, a)" "y = (j, b)"
        using Some_eq_map_pick [OF sorted] by auto
      then have "i = j" using registry_okD(3) [OF assms(1)] unfolding routes_ok_def by blast
      then show "x = y" using g by simp
    qed
    moreover have "distinct (rg_sessions r)" using sorted by (auto simp: bt_sorted_def strict_sorted_iff distinct_map)
    ultimately have "distinct (map (ro_player \<circ> snd) (rg_sessions r))" by (simp add: distinct_map)
    then show "distinct (map ks_player_id (kp_sessions p))"
      by (simp add: tables(2) checkpoint_of_session_def comp_def case_prod_beta)
  next
    have sound: "table_sound t" if "(i, t) \<in> set (rg_tables r)" for i t
      using that registry_okD(1) [OF assms(1)] Some_eq_map_pick [of "rg_tables r"] unfolding tables_ok_def by blast
    show "\<forall>k\<in>set (kp_tables p). valid_size (bh_table_size (kt_lifecycle k)) \<and> (\<forall>c. kt_tournament k = Some c \<longrightarrow> tour_ok c)"
    proof
      fix k assume "k \<in> set (kp_tables p)"
      then have "Inr k \<in> set (map checkpoint_of_table (rg_tables r))" using tables by simp
      then obtain i t where t: "(i, t) \<in> set (rg_tables r)" "checkpoint_of_table (i, t) = Inr k" by auto
      then have "bh_table_size (kt_lifecycle k) = lc_table_size (gt_durable_lifecycle t)" "kt_tournament k = gt_tournament t"
        by (auto simp: checkpoint_of_table_def between_hand_checkpoint_def map_sum_def split: sum.splits if_splits)
      then show "valid_size (bh_table_size (kt_lifecycle k)) \<and> (\<forall>c. kt_tournament k = Some c \<longrightarrow> tour_ok c)"
        using sound [OF t(1)] by (simp add: table_sound_def stored_config_ok_def)
    qed
  qed
qed

lemma load_own_checkpoint_ok:
  assumes "registry_ok r" "checkpoint_payload r = Inr (kv_payload envelope)"
    and "load_checkpoint sv to_vec now wall envelope = Some (Inr r')"
  shows "registry_ok r'"
proof -
  let ?p = "kv_payload envelope"
  obtain r1 where r1: "restore_payload now wall ?p = Inr r1" "start_restored_hands sv now r1 = Some (Inr (), r')"
    using assms(3) by (auto simp: load_checkpoint_def split: if_splits sum.splits) (metis old.unit.exhaust sum.exhaust)+
  have "registry_ok r1" by (rule own_payload_ok [OF assms(1,2) r1(1)])
  from leavesD [OF start_restored_ok [OF this] r1(2) [unfolded start_restored_hands_def]] show ?thesis .
qed

end
