(* ===== verification/Registry_Staff.thy ===== *)
theory Registry_Staff
  imports Registry_Restart Authorized_Runs Dealing
begin

text \<open>
  The tables of a registry with their workers. The registry never lets a player sit out, so its tables hold
  active players only, who owe at most the live big blind of a late entry: every hand that it starts has live
  posts, is accepted or refused by the engine, and its worker keeps the invariant of the authorized table.
\<close>

subsection \<open>Total correctness of a method\<close>

text \<open>The method does not panic, and its result and registry satisfy \<open>Q\<close>.\<close>

named_theorems runs_simps \<open>total correctness pushed through the steps of a method\<close>

definition runs :: "(table_registry_error + 'a \<Rightarrow> registry \<Rightarrow> bool) \<Rightarrow> 'a registry_result \<Rightarrow> bool" where
  "runs Q m \<longleftrightarrow> (\<exists>res r. m = Some (res, r) \<and> Q res r)"

lemma runs_mono: "runs P m \<Longrightarrow> (\<And>res r. P res r \<Longrightarrow> Q res r) \<Longrightarrow> runs Q m"
  by (auto simp: runs_def)

lemma runsD: "runs Q m \<Longrightarrow> \<exists>res r. m = Some (res, r) \<and> Q res r"
  by (simp add: runs_def)

lemma runs_leaves: "runs P m \<Longrightarrow> leaves Q m \<Longrightarrow> runs (\<lambda>res r. P res r \<and> Q res r) m"
  by (auto simp: runs_def leaves_def)

lemma runs_ok [runs_simps]: "runs Q (reg_ok x r) \<longleftrightarrow> Q (Inr x) r"
  by (simp add: runs_def reg_ok_def)

lemma runs_fail [runs_simps]: "runs Q (reg_fail e r) \<longleftrightarrow> Q (Inl e) r"
  by (simp add: runs_def reg_fail_def)

lemma runs_then [runs_simps]:
  "runs Q (reg_then m f) \<longleftrightarrow> runs (\<lambda>res r. (\<forall>e. res = Inl e \<longrightarrow> Q (Inl e) r) \<and>
     (\<forall>x. res = Inr x \<longrightarrow> runs Q (f x r))) m"
proof (cases m)
  case (Some p)
  then show ?thesis by (cases p; cases "fst p") (simp_all add: runs_def reg_then_def)
qed (simp add: runs_def reg_then_def)

lemma runs_expect [runs_simps]: "runs Q (reg_expect v f) \<longleftrightarrow> (\<exists>x. v = Some x \<and> runs Q (f x))"
  by (cases v) (simp_all add: runs_def reg_expect_def)

lemma runs_some [runs_simps]:
  "runs Q (reg_some e v r f) \<longleftrightarrow> (v = None \<longrightarrow> Q (Inl e) r) \<and> (\<forall>x. v = Some x \<longrightarrow> runs Q (f x))"
  by (cases v) (simp_all add: reg_some_def runs_fail)

lemma runs_sum [runs_simps]:
  "runs Q (reg_sum w v r f) \<longleftrightarrow> (\<forall>e. v = Inl e \<longrightarrow> Q (Inl (w e)) r) \<and> (\<forall>x. v = Inr x \<longrightarrow> runs Q (f x))"
  by (cases v) (simp_all add: reg_sum_def runs_fail)

lemma runs_with_table [runs_simps]:
  "runs Q (with_table i r f) \<longleftrightarrow> (bt_get (rg_tables r) i = None \<longrightarrow> Q (Inl (unknown_table i)) r) \<and>
     (\<forall>t. bt_get (rg_tables r) i = Some t \<longrightarrow> runs Q (f t))"
  by (simp add: with_table_def runs_some)

lemma runs_if [runs_simps]: "runs Q (if b then m else n) \<longleftrightarrow> (b \<longrightarrow> runs Q m) \<and> (\<not> b \<longrightarrow> runs Q n)"
  by simp

lemma runs_prod [runs_simps]: "runs Q (case p of (a, b) \<Rightarrow> f a b) \<longleftrightarrow> runs Q (f (fst p) (snd p))"
  by (simp add: case_prod_beta)

text \<open>The same as introduction rules, for goals that a proof closes one by one.\<close>

lemma runs_expectI: "\<exists>x. v = Some x \<Longrightarrow> (\<And>x. v = Some x \<Longrightarrow> runs Q (f x)) \<Longrightarrow> runs Q (reg_expect v f)"
  by (auto simp: runs_expect)

lemma runs_someI: "(v = None \<Longrightarrow> Q (Inl e) r) \<Longrightarrow> (\<And>x. v = Some x \<Longrightarrow> runs Q (f x)) \<Longrightarrow> runs Q (reg_some e v r f)"
  by (simp add: runs_some)

lemma runs_sumI: "(\<And>e. v = Inl e \<Longrightarrow> Q (Inl (w e)) r) \<Longrightarrow> (\<And>x. v = Inr x \<Longrightarrow> runs Q (f x)) \<Longrightarrow> runs Q (reg_sum w v r f)"
  by (simp add: runs_sum)

lemma runs_tableI: "Q (Inl (unknown_table i)) r \<Longrightarrow> (\<And>t. bt_get (rg_tables r) i = Some t \<Longrightarrow> runs Q (f t))
    \<Longrightarrow> runs Q (with_table i r f)"
  by (simp add: runs_with_table)

lemma runs_ifI: "(b \<Longrightarrow> runs Q m) \<Longrightarrow> (\<not> b \<Longrightarrow> runs Q n) \<Longrightarrow> runs Q (if b then m else n)"
  by simp

lemma runs_prodI: "(\<And>a b. p = (a, b) \<Longrightarrow> runs Q (f a b)) \<Longrightarrow> runs Q (case p of (a, b) \<Rightarrow> f a b)"
  by (cases p) simp

lemma runs_failI: "Q (Inl e) r \<Longrightarrow> runs Q (reg_fail e r)"
  by (simp add: runs_fail)

lemma runs_okI: "Q (Inr x) r \<Longrightarrow> runs Q (reg_ok x r)"
  by (simp add: runs_ok)

lemmas runs_intros = runs_expectI runs_someI runs_sumI runs_tableI runs_ifI runs_prodI runs_failI runs_okI

subsection \<open>The house rules of the registry\<close>

definition active_seat :: "seat_state \<Rightarrow> bool" where
  "active_seat st \<longleftrightarrow> ss_table_participation st = Active \<and> ss_blind_obligation st \<in> {Clear, OwesBigBlind}"

definition house_ok :: "table_lifecycle \<Rightarrow> bool" where
  "house_ok l \<longleftrightarrow> (\<forall>s st. table_seat (lc_seats l) s = Some st \<longrightarrow> active_seat st) \<and>
     (\<forall>e\<in>set (lc_pending l). snd e = PendingLeave) \<and>
     (\<forall>start. lc_active_hand l = Some start \<longrightarrow> (\<forall>p\<in>set (hs_forced_posts start). fp_live p))"

lemma house_ok_new: "house_ok (lifecycle_new n)"
  by (simp add: house_ok_def lifecycle_new_def table_seats_new_def table_seat_def)

lemma house_ok_refresh [simp]: "house_ok (refresh_between_hand_state l) = house_ok l"
  by (simp add: house_ok_def refresh_between_hand_state_def)

lemma house_ok_reservations [simp]: "house_ok (l\<lparr>lc_reservations := x\<rparr>) = house_ok l"
  by (simp add: house_ok_def)

lemma house_ok_seats:
  assumes "house_ok l" "\<And>s st. table_seat t s = Some st \<Longrightarrow> active_seat st"
  shows "house_ok (l\<lparr>lc_seats := t\<rparr>)"
  using assms by (simp add: house_ok_def)

lemma occupied_seat_state: "table_occupy t s st = Inr t' \<Longrightarrow> table_seat t' x = (if x = s then Some st else table_seat t x)"
  by (auto simp: table_occupy_Inr table_seat_def)

lemma join_house_ok: "house_ok l \<Longrightarrow> join l p s k = (r, l') \<Longrightarrow> house_ok l'"
  by (auto simp: join_def reserve_def occupy_def occupied_seat_state active_seat_def seat_state_active_def
      intro!: house_ok_seats split: if_splits sum.splits option.splits)
    (auto simp: house_ok_def active_seat_def)

lemma join_entry_house_ok:
  assumes "house_ok l" "join_with_entry l p s k PostLiveBigBlind = Some (r, l')"
  shows "house_ok l'"
proof -
  obtain r1 l1 where j: "join l p s k = (r1, l1)" by fastforce
  have ok: "house_ok l1" by (rule join_house_ok [OF assms(1) j])
  have "house_ok (l1\<lparr>lc_seats := t\<rparr>)"
    if t: "table_seat_mut (lc_seats l1) s (\<lambda>st. st\<lparr>ss_blind_obligation := OwesBigBlind, ss_table_participation := Active\<rparr>) = Some t" for t
  proof (rule house_ok_seats [OF ok])
    fix x st assume "table_seat t x = Some st"
    then show "active_seat st"
      using ok by (auto simp: table_seat_mut_read [OF t] house_ok_def active_seat_def split: if_splits)
  qed
  then show ?thesis
    using assms(2) j ok by (auto simp: join_with_entry_def split: sum.splits if_splits bind_splits)
qed

lemma mem_bt_insert: "e \<in> set (bt_insert k v m) \<Longrightarrow> e = (k, v) \<or> e \<in> set m"
  by (induction m) (auto split: if_splits)

lemma leave_house_ok:
  assumes "house_ok l" "request_leave l p = Some (r, l')"
  shows "house_ok l'"
proof -
  have vacated: "house_ok (l\<lparr>lc_seats := t\<rparr>)" if "table_vacate (lc_seats l) s = Inr (st, t)" for s st t
    using assms(1) table_seat_vacate [OF that]
    by (auto intro!: house_ok_seats [OF assms(1)] simp: house_ok_def split: if_splits)
  have pending: "house_ok (l\<lparr>lc_pending := bt_insert p PendingLeave (lc_pending l)\<rparr>)"
    using assms(1) by (auto simp: house_ok_def dest!: mem_bt_insert)
  show ?thesis
    using assms vacated pending
    by (auto simp: request_leave_def request_transition_def apply_transition_def split: if_splits option.splits sum.splits)
qed

lemma owed_posts_live: "active_seat st \<Longrightarrow> p \<in> set (posts_for pos s (ss_blind_obligation st)) \<Longrightarrow> fp_live p"
  by (auto simp: active_seat_def posts_for_def Let_def split: if_splits)

lemma begin_hand_house_ok:
  assumes "roster_ok l" "house_ok l" "begin_hand l = Some (r, l')"
  shows "house_ok l'" "r = Inr start \<Longrightarrow> hs_stacks start = dealable_stacks l \<and> lc_active_hand l' = Some start"
proof -
  have *: "house_ok l' \<and> (\<forall>start. r = Inr start \<longrightarrow> hs_stacks start = dealable_stacks l \<and> lc_active_hand l' = Some start)"
  proof (cases "lc_state l = Closed \<or> hand_active l")
    case True
    then show ?thesis using assms(2,3) by (auto simp: begin_hand_def split: if_splits)
  next
    case False
    then have open_now: "lc_state l \<noteq> Closed" "lc_active_hand l = None" by (simp_all add: hand_active_def)
    obtain l1 where prom: "promote_natural_big_blind_waiter l = Some l1" and l1: "promoted l l1" "if length (dealable l1) < 2
       then begin_hand l = Some (Inl (TooFewEligible (length (dealable l1))),
         l1\<lparr>lc_state := (if occupied_count (lc_seats l1) = 0 then Waiting else Paused)\<rparr>)
       else \<exists>start pos l'. begin_hand l = Some (Inr start, l') \<and> started_from l1 pos start l' \<and> roster_ok l'"
      using begin_hand_result [OF assms(1) open_now] by blast
    have same: "l1 = l"
      using l1(1) assms(2) by (auto simp: promoted_def house_ok_def active_seat_def seat_satisfies_def split: option.splits)
    show ?thesis
    proof (cases "length (dealable l) < 2")
      case True
      then show ?thesis using l1(2) same assms(2,3) by (auto simp: house_ok_def)
    next
      case False
      then obtain start pos where f: "r = Inr start" "started_from l pos start l'" "roster_ok l'"
        using l1(2) same assms(3) by auto
      have seats: "active_seat st" if "table_seat (lc_seats l') s = Some st" for s st
        using that f(2) assms(2) by (auto simp: started_from_def house_ok_def active_seat_def dealt_seat_def split: if_splits)
      have posts: "fp_live p" if "p \<in> set (hs_forced_posts start)" for p
      proof -
        have "p \<in> set (concat (map (owed_posts pos (lc_seats l)) (dealable l)))"
          using that f(2) unfolding started_from_def by simp
        then obtain s where "p \<in> set (owed_posts pos (lc_seats l) s)" by auto
        then obtain st where "table_seat (lc_seats l) s = Some st" "p \<in> set (posts_for pos s (ss_blind_obligation st))"
          by (cases "table_seat (lc_seats l) s") (simp_all add: owed_posts_def)
        then show ?thesis using owed_posts_live [of st p pos s] assms(2) by (auto simp: house_ok_def)
      qed
      have "lc_pending l' = lc_pending l"
        using assms(3) prom f(1) False same
        by (auto simp: begin_hand_def Let_def split: bind_splits if_splits sum.splits)
      then have "lc_pending l' = []" using open_now(2) roster_core [OF assms(1)] by (simp add: core_ok_def)
      then show ?thesis using f seats posts by (auto simp: house_ok_def started_from_def)
    qed
  qed
  then show "house_ok l'" by blast
  show "r = Inr start \<Longrightarrow> hs_stacks start = dealable_stacks l \<and> lc_active_hand l' = Some start" using * by blast
qed


lemma complete_house_ok:
  assumes "roster_ok l" "house_ok l" "complete_hand l rep = Some (r, l')"
  shows "house_ok l'"
proof (cases "lc_active_hand l")
  case None
  then show ?thesis using assms by (simp add: complete_hand_def)
next
  case (Some start)
  show ?thesis
  proof (cases "report_ok start rep")
    case False
    then have "l' = l" using complete_hand_rejects [OF assms(1) Some False] assms(3) by auto
    then show ?thesis using assms(2) by simp
  next
    case True
    obtain t where t: "l' = refresh_between_hand_state (l\<lparr>lc_seats := t, lc_active_hand := None, lc_pending := []\<rparr>)"
        "\<forall>s. table_seat t s = Option.bind (table_seat (lc_seats l) s) (\<lambda>st. after_pending (lc_pending l) (reported rep s st))"
      using complete_hand_result [OF assms(1) Some True] assms(3) by auto
    have "active_seat st'" if st': "table_seat t s = Some st'" for s st'
    proof -
      obtain st where st: "table_seat (lc_seats l) s = Some st" "after_pending (lc_pending l) (reported rep s st) = Some st'"
        using st' t(2) by (auto split: bind_splits)
      have "active_seat st" using st(1) assms(2) by (auto simp: house_ok_def)
      moreover have "tr = PendingLeave" if "bt_get (lc_pending l) q = Some tr" for q tr
        using that assms(2) by (fastforce simp: house_ok_def bt_get_def dest!: map_of_SomeD)
      ultimately show ?thesis
        using st(2) by (cases "bt_get (lc_pending l) (ss_player_id st)")
          (fastforce simp: after_pending_def active_seat_def after_transition_def)+
    qed
    then show ?thesis by (simp add: t(1) house_ok_def)
  qed
qed

lemma restore_house_ok:
  assumes "restore_between_hand c = Inr l"
    and "\<forall>k\<in>set (bh_seats c). bs_participation k = Active \<and> bs_blind_obligation k \<in> {Clear, OwesBigBlind}"
  shows "house_ok l"
proof -
  have seats: "\<forall>s st. table_seat t' s = Some st \<longrightarrow> active_seat st"
    if "restore_seats n ks t = Inr t'" "\<forall>k\<in>set ks. bs_participation k = Active \<and> bs_blind_obligation k \<in> {Clear, OwesBigBlind}"
      "\<forall>s st. table_seat t s = Some st \<longrightarrow> active_seat st" for n ks t t'
    using that
  proof (induction ks arbitrary: t)
    case (Cons k ks)
    obtain t1 where t1: "table_occupy t (bs_seat k) ((seat_state_active (bs_player k) (bs_stack k))\<lparr>ss_connection := Disconnected,
            ss_table_participation := bs_participation k, ss_blind_obligation := bs_blind_obligation k\<rparr>) = Inr t1"
        "restore_seats n ks t1 = Inr t'"
      using Cons.prems(1) by (auto split: if_splits sum.splits)
    have "\<forall>s st. table_seat t1 s = Some st \<longrightarrow> active_seat st"
      using Cons.prems(2,3) by (auto simp: occupied_seat_state [OF t1(1)] active_seat_def split: if_splits)
    then show ?case using Cons.IH [OF t1(2)] Cons.prems(2) by simp
  qed simp
  obtain t where t: "restore_seats (bh_table_size c) (bh_seats c) (table_seats_new (bh_table_size c)) = Inr t"
      "lc_seats l = t" "lc_pending l = []" "lc_active_hand l = None"
    using assms(1) by (auto simp: restore_between_hand_def Let_def split: if_splits sum.splits)
  have "\<forall>s st. table_seat t s = Some st \<longrightarrow> active_seat st"
    by (rule seats [OF t(1) assms(2)]) (simp add: table_seats_new_def table_seat_def)
  then show ?thesis using t by (simp add: house_ok_def)
qed

lemma checkpoint_house:
  assumes "house_ok l" "between_hand_checkpoint l = Inr c"
  shows "\<forall>k\<in>set (bh_seats c). bs_participation k = Active \<and> bs_blind_obligation k \<in> {Clear, OwesBigBlind}"
  using assms by (fastforce simp: between_hand_checkpoint_def house_ok_def active_seat_def split: if_splits)

subsection \<open>The hand of a table\<close>

definition fair_services :: "'g services \<Rightarrow> bool" where
  "fair_services sv \<longleftrightarrow> (\<forall>g cs. mset (fst (sv_shuffle sv g cs)) = mset cs)"

definition plays_from :: "hand_start \<Rightarrow> multiway_hand \<Rightarrow> bool" where
  "plays_from start h \<longleftrightarrow> hand_ok h \<and> set (occupied_seats h) = set (hand_seats start) \<and>
     mh_initial_total h = sum_list (map snd (hs_stacks start)) \<and> mh_initial_total h < u32_bound"

lemma paced_views [simp]:
  "eligible_seats (h\<lparr>mh_paced_showdown := ps\<rparr>) = eligible_seats h"
  "hand_of (h\<lparr>mh_paced_showdown := ps\<rparr>) = hand_of h"
  "occupied_states (h\<lparr>mh_paced_showdown := ps\<rparr>) = occupied_states h"
  "hand_pots (h\<lparr>mh_paced_showdown := ps\<rparr>) = hand_pots h"
  "seat_evaluations (h\<lparr>mh_paced_showdown := ps\<rparr>) = seat_evaluations h"
  by (simp_all add: eligible_seats_def hand_of_def occupied_states_def hand_pots_def contribution_snapshot_def
      seat_evaluations_def fun_eq_iff)

lemma paced_showdown_ok: "showdown_ok (h\<lparr>mh_paced_showdown := ps\<rparr>) = showdown_ok h"
proof -
  have "progress_ok (h\<lparr>mh_paced_showdown := ps\<rparr>) = progress_ok h" by (simp add: progress_ok_def fun_eq_iff)
  then show ?thesis
    by (simp add: showdown_ok_def top_contributor_def pot_eligible_count_length revealed_in_def mucked_lose_def
        cong: option.case_cong)
qed

lemma paced_hand_ok:
  assumes "betting_ok h \<or> showdown_ok h"
  shows "hand_ok (enable_paced_showdown h)"
  using assms by (auto simp: hand_ok_def enable_paced_showdown_def paced_showdown_ok)

lemma shuffled_deck:
  assumes "fair_services sv"
  shows "distinct (deck_rest (fst (shuffle_source_shuffle (sv_shuffle sv) \<lparr>source_rng = g\<rparr> deck_new)))"
    "length (deck_rest (fst (shuffle_source_shuffle (sv_shuffle sv) \<lparr>source_rng = g\<rparr> deck_new))) = 52"
proof -
  let ?d = "fst (shuffle_source_shuffle (sv_shuffle sv) \<lparr>source_rng = g\<rparr> deck_new)"
  have "mset (deck_rest ?d) = mset (deck_cards deck_new)"
    using shuffle_resets [of "sv_shuffle sv" g deck_new] assms
    by (simp add: fair_services_def shuffle_source_shuffle_def split_beta)
  then show "distinct (deck_rest ?d)" "length (deck_rest ?d) = 52"
    using deck_new_complete by (metis mset_eq_imp_distinct_iff, metis mset_eq_length)
qed

lemma deal_hand_returns:
  assumes "fair_services sv" "roster_ok l" "house_ok l" "lc_active_hand l = Some start"
    and "\<forall>c. tournament = Some c \<longrightarrow> tour_ok c"
  shows "\<exists>res. deal_hand sv hand_id start (lc_table_size l) seed tournament = Some res \<and>
    (\<forall>h. res = Inr h \<longrightarrow> plays_from start (enable_paced_showdown h))"
proof -
  note core = roster_core [OF assms(2)]
  have live: "\<forall>p\<in>set (hs_forced_posts start). fp_live p" using assms(3,4) by (simp add: house_ok_def)
  have size: "valid_size (lc_table_size l)" using core by (simp add: core_ok_def)
  have many: "2 * length (hs_stacks start) + 5 \<le> 52" using start_length [OF core assms(4)] by simp
  have deck: "\<exists>blinds d. deal_hand sv hand_id start (lc_table_size l) seed tournament =
      with_prepared_deck (lc_table_size l) (hs_button start) (hs_stacks start) (hs_forced_posts start) blinds d \<and>
      distinct (deck_rest d) \<and> length (deck_rest d) = 52"
  proof (cases tournament)
    case None
    then show ?thesis
      using into_hand_deck [of "sv_shuffle sv" "sv_production sv hand_id" "sv_seeded sv" start "lc_table_size l" seed] assms(1)
      by (auto simp: deal_hand_def fair_services_def)
  next
    case (Some c)
    then obtain blinds where "current_blinds c = Some blinds"
      using assms(5) by (auto simp: tour_ok_def current_blinds_def current_level_ok)
    then show ?thesis
      using Some shuffled_deck [OF assms(1)]
      by (auto simp: deal_hand_def into_hand_with_blinds_def multiway_new_with_blinds_def multiway_new_seeded_with_blinds_def
          with_shuffle_source_def split: option.split)
  qed
  then obtain blinds d where d: "deal_hand sv hand_id start (lc_table_size l) seed tournament =
      with_prepared_deck (lc_table_size l) (hs_button start) (hs_stacks start) (hs_forced_posts start) blinds d"
      "distinct (deck_rest d)" "length (deck_rest d) = 52" by blast
  obtain res where res: "with_prepared_deck (lc_table_size l) (hs_button start) (hs_stacks start) (hs_forced_posts start) blinds d = Some res"
      "isl res \<longleftrightarrow> \<not> config_accepted (lc_table_size l) (hs_button start) (hs_stacks start) (hs_forced_posts start) blinds"
      "\<forall>h. res = Inr h \<longrightarrow> started_ok (hs_stacks start) d h"
    using with_prepared_deck_returns [OF size d(2) _ live] many d(3) by metis
  have "plays_from start (enable_paced_showdown h)" if "res = Inr h" for h
  proof -
    have "started_ok (hs_stacks start) d h" "sum_list (map snd (hs_stacks start)) < u32_bound"
      using that res(2,3) by (auto simp: config_accepted_def)
    then show ?thesis
      using paced_hand_ok [of h] by (auto simp: plays_from_def started_ok_def hand_seats_def enable_paced_showdown_def occupied_seats_def)
  qed
  then show ?thesis using d(1) res(1) by auto
qed

subsection \<open>The worker of a table\<close>

definition follows :: "runtime_state \<Rightarrow> runtime_state \<Rightarrow> bool" where
  "follows st st' \<longleftrightarrow> runtime_ok st' \<and> rt_hand_id st' = rt_hand_id st \<and> rt_table_id st' = rt_table_id st \<and>
     same_game (table_hand st) (table_hand st')"

lemma same_game_self [simp]: "same_game h h"
  by (simp add: same_game_def)

lemma follows_refl: "runtime_ok st \<Longrightarrow> follows st st"
  by (simp add: follows_def)

lemma follows_trans: "follows a b \<Longrightarrow> follows b c \<Longrightarrow> follows a c"
  by (auto simp: follows_def intro: same_game_trans)

lemma plays_from_follows: "plays_from start (table_hand st) \<Longrightarrow> follows st st' \<Longrightarrow> plays_from start (table_hand st')"
  by (simp add: plays_from_def follows_def same_game_def runtime_ok_def table_alive_def)

lemma stays_follows:
  assumes "runtime_ok st" "stays st st'"
  shows "follows st st'"
proof -
  have "table_alive st" "table_alive st'" using assms by (simp_all add: stays_def runtime_ok_def)
  then have "rt_hand_id st' = rt_hand_id st \<and> rt_table_id st' = rt_table_id st"
    using assms(2) unfolding table_alive_def stays_def by metis
  then show ?thesis using assms(2) by (simp add: follows_def stays_def)
qed

lemma moves_follows:
  assumes "runtime_ok st" "moves st command server st'"
  shows "follows st st'"
proof -
  have alive: "table_alive st" "table_alive st'" using assms by (simp_all add: moves_def runtime_ok_def)
  obtain r where r: "submit_from (authority_of st) command server = Some (r, authority_of st')" "runtime_ok st'"
    using assms(2) by (auto simp: moves_def)
  have "same_game (table_hand st) (table_hand st')"
    using submit_from_returns [of "authority_of st" command server] alive(1) r(1) by (auto simp: table_alive_def)
  moreover have "rt_hand_id st' = rt_hand_id st \<and> rt_table_id st' = rt_table_id st"
    using submit_ledger [OF r(1)] alive by (simp add: table_alive_def)
  ultimately show ?thesis using r(2) by (simp add: follows_def)
qed

lemma request_moves_follows:
  assumes "runtime_ok st" "request_moves st request st'"
  shows "follows st st'"
proof -
  have "\<exists>command server. moves st command server st'"
    using assms(2) by (auto simp: request_moves_def times_out_def split: runtime_request.splits)
  then show ?thesis using moves_follows [OF assms(1)] by blast
qed

lemma shows_down_follows:
  assumes "runtime_ok st" "shows_down st now st'"
  shows "follows st st'"
proof -
  have alive: "table_alive st" "table_alive st'" using assms by (auto simp: shows_down_def runtime_ok_def)
  obtain e where e: "authority_advance_showdown (authority_of st) = Some (e, authority_of st')" "runtime_ok st'"
    using assms(2) by (auto simp: shows_down_def)
  then have "same_game (table_hand st) (table_hand st') \<and> au_table_id (authority_of st') = rt_table_id st \<and>
      au_hand_id (authority_of st') = rt_hand_id st"
    using actor_advances [OF alive(1)] by auto
  then show ?thesis using e(2) alive(2) by (simp add: follows_def table_alive_def)
qed

lemma turn_follows:
  assumes "runtime_ok st" "rt_hand_id st < u64_bound" "request \<noteq> Some RtShutdown"
  shows "\<exists>answer st'. runtime_turn now request st = (answer, Some st') \<and> follows st st'"
proof -
  obtain answer st1 st' where t: "runtime_turn now request st = (answer, Some st')" "stays st st1 \<or> shows_down st now st1"
      "stays st1 st' \<or> (\<exists>r. request = Some r \<and> request_moves st1 r st')" "runtime_ok st1"
    using runtime_turn_ok [OF assms] by blast
  have "follows st st1" using t(2) stays_follows [OF assms(1)] shows_down_follows [OF assms(1)] by blast
  moreover have "follows st1 st'" using t(3) stays_follows [OF t(4)] request_moves_follows [OF t(4)] by blast
  ultimately show ?thesis using t(1) follows_trans by blast
qed

lemma input_follows:
  assumes "runtime_ok st" "rt_hand_id st < u64_bound" "\<not> shuts_down i"
  shows "\<exists>st'. input_step i st = Some st' \<and> follows st st'"
proof (cases i)
  case (Turn now request)
  then show ?thesis using turn_follows [OF assms(1,2), of request now] assms(3) by auto
qed (use subscription_stays [OF assms(1)] stays_follows [OF assms(1)] in auto)

text \<open>A call of the handle: the worker answers and lives on.\<close>

definition busy :: "runtime_state \<Rightarrow> bool" where
  "busy st \<longleftrightarrow> runtime_ok st \<and> rt_hand_id st < u64_bound"

lemma busy_follows: "busy st \<Longrightarrow> follows st st' \<Longrightarrow> busy st'"
  by (simp add: busy_def follows_def)

lemma handle_request_runs:
  assumes "busy st" "request \<noteq> RtShutdown"
  shows "\<exists>answer st'. handle_request now request (Some st) = (Some answer, Some st') \<and> follows st st'"
  using turn_follows [of st "Some request" now] assms by (auto simp: handle_request_def busy_def)

lemma handle_calls_run:
  assumes "busy st"
  shows "\<exists>res st'. handle_bind now session table_id hand_id role (Some st) = (res, Some st') \<and> follows st st'"
    "\<exists>res st'. handle_disconnect now session (Some st) = (res, Some st') \<and> follows st st'"
    "\<exists>res st'. handle_bound_snapshot now session (Some st) = (res, Some st') \<and> follows st st'"
    "\<exists>res st'. handle_safe_history_material now (Some st) = (res, Some st') \<and> follows st st'"
    "\<exists>res st'. handle_metrics now (Some st) = (res, Some st') \<and> follows st st'"
  using handle_request_runs [OF assms, of "RtBind session table_id hand_id role" now]
    handle_request_runs [OF assms, of "RtDisconnect session" now] handle_request_runs [OF assms, of "RtBoundSnapshot session" now]
    handle_request_runs [OF assms, of RtSafeHistoryMaterial now] handle_request_runs [OF assms, of RtMetrics now]
  by (auto simp: handle_bind_def handle_disconnect_def handle_unit_def handle_bound_snapshot_def handle_snapshot_request_def
      handle_safe_history_material_def handle_metrics_def split: runtime_answer.split)

lemma bind_sessions_runs:
  assumes "busy st"
  shows "\<exists>res st'. bind_sessions now table_id hand_id restored sessions (Some st) = (res, Some st') \<and> follows st st'"
  using assms
proof (induction sessions arbitrary: st)
  case Nil
  then show ?case by (simp add: busy_def follows_refl)
next
  case (Cons e sessions)
  obtain s session where e: "e = (s, session)" by (cases e)
  obtain res st1 where b: "handle_bind now session table_id hand_id (RolePlayer s) (Some st) = (res, Some st1)" "follows st st1"
    using handle_calls_run(1) [OF Cons.prems] by blast
  have busy1: "busy st1" by (rule busy_follows [OF Cons.prems b(2)])
  obtain res2 st2 where d: "handle_disconnect now session (Some st1) = (res2, Some st2)" "follows st1 st2"
    using handle_calls_run(2) [OF busy1] by blast
  have "\<exists>res st'. bind_sessions now table_id hand_id restored sessions (Some st1) = (res, Some st') \<and> follows st st'"
    using Cons.IH [OF busy1] follows_trans [OF b(2)] by blast
  moreover have "\<exists>res st'. bind_sessions now table_id hand_id restored sessions (Some st2) = (res, Some st') \<and> follows st st'"
    using Cons.IH [OF busy_follows [OF busy1 d(2)]] follows_trans [OF follows_trans [OF b(2) d(2)]] by blast
  ultimately show ?case
    using b d follows_trans [OF b(2) d(2)] by (cases res; cases res2) (auto simp: e)
qed

end
