(* ===== verification/Registry_Alive.thy ===== *)
theory Registry_Alive
  imports Registry_Staff
begin

text \<open>
  No method of the registry panics, and every table that plays a hand keeps a living worker whose hand is the one
  that its roster has begun.
\<close>

subsection \<open>A staffed table\<close>

text \<open>The worker of a table serves the hand of its roster, under the identities that the registry knows.\<close>

definition serves :: "table_id \<Rightarrow> hand_id option \<Rightarrow> table_lifecycle \<Rightarrow> worker \<Rightarrow> bool" where
  "serves i hand l w \<longleftrightarrow> (\<exists>st start. w = Some st \<and> busy st \<and> rt_table_id st = i \<and> hand = Some (rt_hand_id st) \<and>
     lc_active_hand l = Some start \<and> plays_from start (table_hand st))"

definition staffed :: "table_id \<Rightarrow> registered_table \<Rightarrow> bool" where
  "staffed i t \<longleftrightarrow> house_ok (gt_lifecycle t) \<and> house_ok (gt_durable_lifecycle t) \<and>
     (\<forall>w. gt_runtime t = Some w \<longrightarrow> serves i (gt_hand_id t) (gt_lifecycle t) w)"

definition staffed_all :: "registry \<Rightarrow> bool" where
  "staffed_all r \<longleftrightarrow> (\<forall>i t. bt_get (rg_tables r) i = Some t \<longrightarrow> staffed i t)"

definition alive :: "registry \<Rightarrow> bool" where
  "alive r \<longleftrightarrow> registry_ok r \<and> staffed_all r"

lemma staffed_allD: "staffed_all r \<Longrightarrow> bt_get (rg_tables r) i = Some t \<Longrightarrow> staffed i t"
  by (simp add: staffed_all_def)

lemma staffed_put: "staffed_all r \<Longrightarrow> staffed i u \<Longrightarrow> rg_tables r' = bt_insert i u (rg_tables r) \<Longrightarrow> staffed_all r'"
  by (auto simp: staffed_all_def bt_get_insert)

lemma staffed_cong: "rg_tables r' = rg_tables r \<Longrightarrow> staffed_all r' = staffed_all r"
  by (simp add: staffed_all_def)

lemma aliveD:
  assumes "alive r"
  shows "registry_ok r" "staffed_all r"
  using assms by (simp_all add: alive_def)

lemma alive_table:
  assumes "alive r" "bt_get (rg_tables r) i = Some t"
  shows "table_sound t" "staffed i t"
  using assms registry_ok_table staffed_allD unfolding alive_def by blast+

lemma runs_alive:
  assumes "leaves (\<lambda>res. registry_ok) m" "runs (\<lambda>res. staffed_all) m"
  shows "runs (\<lambda>res. alive) m"
  using assms by (auto simp: runs_def leaves_def alive_def)

lemma serves_follows: "serves i hand l (Some st) \<Longrightarrow> follows st st' \<Longrightarrow> serves i hand l (Some st')"
  using plays_from_follows busy_follows by (auto simp: serves_def follows_def)

lemma staffed_follows:
  assumes "staffed i t" "gt_runtime t = Some (Some st)" "follows st st'"
  shows "staffed i (t\<lparr>gt_runtime := Some (Some st')\<rparr>)"
  using assms serves_follows [OF _ assms(3)] by (simp add: staffed_def)

lemma staffed_worker:
  assumes "staffed i t" "gt_runtime t = Some w"
  obtains st where "w = Some st" "busy st" "rt_table_id st = i" "gt_hand_id t = Some (rt_hand_id st)"
  using assms by (auto simp: staffed_def serves_def)

subsection \<open>Summaries\<close>

lemma public_state_returns:
  assumes "tour_ok c"
  shows "\<exists>s. public_state c = Some s"
proof -
  have "length (tr_entrants c) \<le> 9"
    using assms by (auto simp: tour_ok_def entrants_ok_def config_ok_def)
  moreover have "length (tr_remaining c) \<le> 9" by (rule tour_remaining_bound [OF assms])
  moreover have "tr_level_index c < 64" "clock_ok c"
    using assms by (auto simp: tour_ok_def clock_ok_def config_levels_ok_def MAX_LEVELS_def)
  ultimately show ?thesis by (simp add: public_state_def current_level_ok Let_def)
qed

lemma current_blinds_returns: "tour_ok c \<Longrightarrow> \<exists>b. current_blinds c = Some b"
  by (simp add: tour_ok_def current_blinds_def current_level_ok)

lemma table_bounds:
  assumes "roster_ok l"
  shows "occupied_count (lc_seats l) \<le> 9" "length (lc_reservations l) \<le> 9"
proof -
  have core: "core_ok l" by (rule roster_core [OF assms])
  have size: "lc_table_size l \<le> 9" using core valid_size_pos by (simp add: core_ok_def)
  have "fst ` set (table_occupied (lc_seats l)) \<subseteq> {..<lc_table_size l}"
    using core_seat_bound [OF core] by auto
  then have "card (fst ` set (table_occupied (lc_seats l))) \<le> lc_table_size l" using card_mono [of "{..<lc_table_size l}"] by simp
  moreover have "card (fst ` set (table_occupied (lc_seats l))) = length (table_occupied (lc_seats l))"
    using occupied_distinct [of "lc_seats l"] distinct_card [of "map fst (table_occupied (lc_seats l))"] by simp
  ultimately show "occupied_count (lc_seats l) \<le> 9" using size by (simp add: occupied_count_def)
  have res: "bt_sorted (lc_reservations l)" "\<forall>(s, p)\<in>set (lc_reservations l). s < lc_table_size l"
    using core by (auto simp: core_ok_def reservations_ok_def)
  then have "fst ` set (lc_reservations l) \<subseteq> {..<lc_table_size l}" by auto
  then have "card (fst ` set (lc_reservations l)) \<le> lc_table_size l" using card_mono [of "{..<lc_table_size l}"] by simp
  moreover have "card (fst ` set (lc_reservations l)) = length (lc_reservations l)"
    using bt.distinct_keys [OF res(1)] distinct_card [of "map fst (lc_reservations l)"] by simp
  ultimately show "length (lc_reservations l) \<le> 9" using size by simp
qed

lemma table_summary_returns:
  assumes "table_sound t"
  shows "\<exists>s. table_summary t i = Some s \<and> sm_table_id s = i"
proof -
  have roster: "roster_ok (gt_lifecycle t)" using assms by (simp add: table_sound_def)
  obtain blinds where "table_blinds t = Some blinds"
    using assms current_blinds_returns by (cases "gt_tournament t") (fastforce simp: table_blinds_def table_sound_def)+
  moreover have "\<exists>x. (case gt_tournament t of None \<Rightarrow> Some None | Some c \<Rightarrow> map_option Some (public_state c)) = Some x"
    using assms public_state_returns by (cases "gt_tournament t") (fastforce simp: table_sound_def)+
  moreover have "length (gt_waiting t) \<le> 64" using assms by (simp add: table_sound_def MAX_TABLE_WAITING_ENTRIES_def)
  ultimately show ?thesis
    using table_bounds [OF roster] by (cases blinds) (auto simp: table_summary_def u8_try_from_def Let_def)
qed

subsection \<open>Preparing a hand\<close>

lemma prepare_hand_runs:
  assumes "fair_services sv" "roster_ok l" "house_ok l" "\<forall>c. tournament = Some c \<longrightarrow> tour_ok c" "n = lc_table_size l"
  shows "\<exists>res. prepare_hand sv now restored i hand n seed tournament sessions l = Some res \<and>
    (\<forall>l' following w. res = Inr (l', following, w) \<longrightarrow> house_ok l' \<and> serves i (Some hand) l' w)"
proof -
  obtain begun l' where b: "begin_hand l = Some (begun, l')" "roster_ok l'" using begin_hand_ok [OF assms(2)] by blast
  show ?thesis
  proof (cases begun)
    case (Inl e)
    then show ?thesis using b by (simp add: prepare_hand_def)
  next
    case (Inr start)
    have begin_ok: "house_ok l'" "lc_active_hand l' = Some start"
      using begin_hand_house_ok [OF assms(2,3) b(1)] Inr by blast+
    have size: "n = lc_table_size l'" using begin_hand_house [of l start l'] b(1) Inr assms(5) by simp
    obtain dealt where d: "deal_hand sv hand start n (seed start) tournament = Some dealt"
        "\<forall>h. dealt = Inr h \<longrightarrow> plays_from start (enable_paced_showdown h)"
      using deal_hand_returns [OF assms(1) b(2) begin_ok assms(4), of hand "seed start"] size by blast
    show ?thesis
    proof (cases "u64_checked_add hand 1 = None \<or> isl dealt")
      case True
      then show ?thesis using b Inr d(1) by (cases "u64_checked_add hand 1"; cases dealt) (auto simp: prepare_hand_def)
    next
      case False
      then obtain h following where h: "dealt = Inr h" "u64_checked_add hand 1 = Some following" by (cases dealt) auto
      have plays: "plays_from start (enable_paced_showdown h)" using d(2) h(1) by simp
      let ?st = "runtime_spawn (authority_new_paced i hand h)"
      have "hand_ok (enable_paced_showdown h)" using plays by (simp add: plays_from_def)
      note spawn = runtime_spawn_ok [OF this, of i hand]
      have st: "busy ?st" "rt_table_id ?st = i" "rt_hand_id ?st = hand" "plays_from start (table_hand ?st)"
        using spawn h(2) plays
        by (auto simp: busy_def authority_new_paced_def authority_new_def runtime_ok_def table_alive_def u64_checked_add_def
            split: if_splits)
      obtain res st' where s: "bind_sessions now i hand restored sessions (Some ?st) = (res, Some st')" "follows ?st st'"
        using bind_sessions_runs [OF st(1)] by blast
      have "serves i (Some hand) l' (Some st')"
        using st s(2) begin_ok(2) plays_from_follows [OF st(4) s(2)] busy_follows [OF st(1) s(2)]
        by (simp add: serves_def follows_def)
      then show ?thesis
        using b Inr d(1) h s(1) begin_ok(1) by (cases res) (auto simp: prepare_hand_def)
    qed
  qed
qed

end
