(* ===== verification/Registry_Total.thy ===== *)
theory Registry_Total
  imports Registry_Alive
begin

text \<open>Every method of the registry returns, and its tables stay staffed.\<close>

subsection \<open>Tables and tokens\<close>

lemma staffed_bump [simp]: "staffed_all (bump_revision r) = staffed_all r"
  by (rule staffed_cong) simp

lemma staffed_put_table: "staffed_all r \<Longrightarrow> staffed i u \<Longrightarrow> staffed_all (put_table i u r)"
  by (rule staffed_put) simp_all

lemma new_table_staffed:
  "staffed i \<lparr>gt_config = c, gt_access_verifier = v, gt_lifecycle = lifecycle_new n, gt_durable_lifecycle = lifecycle_new n,
     gt_deterministic_seed = seed, gt_tournament = tournament, gt_hand_id = None, gt_seat_sessions = m, gt_waiting = q,
     gt_pending_departures = p, gt_last_activity = k, gt_runtime = None\<rparr>"
  by (simp add: staffed_def house_ok_new)

lemma new_table_sound:
  assumes "validate_config config = Inr ()" "valid_size (pc_seats config)" "v = None \<longleftrightarrow> pc_join_code config = None"
  shows "table_sound \<lparr>gt_config = config\<lparr>pc_join_code := None\<rparr>, gt_access_verifier = v,
     gt_lifecycle = lifecycle_new (pc_seats config), gt_durable_lifecycle = lifecycle_new (pc_seats config),
     gt_deterministic_seed = seed, gt_tournament = None, gt_hand_id = None, gt_seat_sessions = [], gt_waiting = [],
     gt_pending_departures = [], gt_last_activity = now, gt_runtime = None\<rparr>"
  using validate_config_ok [OF assms(1,2)] assms(3) lifecycle_new_ok [OF assms(2)]
  by (simp add: table_sound_def lifecycle_new_def hand_active_def)

text \<open>The hash of a password is there: the salt has the length that Argon2 wants.\<close>

definition hashes :: "'g services \<Rightarrow> string \<Rightarrow> bool" where
  "hashes sv salt \<longleftrightarrow> (\<forall>password. sv_argon2 sv password salt \<noteq> None)"

lemma registry_create_runs:
  assumes "alive r" "valid_size (pc_seats config)" "hashes sv salt"
  shows "runs (\<lambda>res r'. staffed_all r' \<and> (\<forall>s. res = Inr s \<longrightarrow> bt_get (rg_tables r') (sm_table_id s) \<noteq> None))
    (registry_create sv salt now config seed r)"
proof -
  have verifier: "\<exists>v. (case pc_join_code config of None \<Rightarrow> Some None
        | Some code \<Rightarrow> if pc_visibility config = VisPasswordProtected
            then map_option Some (verifier_derive_password (sv_argon2 sv) salt code)
            else Some (Some (verifier_derive (sv_sha256 sv) salt code))) = Some v \<and> (v = None \<longleftrightarrow> pc_join_code config = None)"
  proof (cases "pc_join_code config")
    case (Some code)
    obtain z where "sv_argon2 sv code salt = Some z" using assms(3) by (auto simp: hashes_def)
    then show ?thesis using Some by (simp add: verifier_derive_password_def)
  qed simp
  have all: "staffed_all r" by (rule aliveD(2) [OF assms(1)])
  show ?thesis
  proof (cases "validate_config config")
    case (Inl e)
    then show ?thesis using all by (simp add: registry_create_def runs_simps)
  next
    case (Inr u)
    from verifier obtain v where vv: "(case pc_join_code config of None \<Rightarrow> Some None
        | Some code \<Rightarrow> if pc_visibility config = VisPasswordProtected
            then map_option Some (verifier_derive_password (sv_argon2 sv) salt code)
            else Some (Some (verifier_derive (sv_sha256 sv) salt code))) = Some v \<and> (v = None \<longleftrightarrow> pc_join_code config = None)" ..
    note v = conjunct1 [OF vv] conjunct2 [OF vv]
    let ?t = "\<lparr>gt_config = config\<lparr>pc_join_code := None\<rparr>, gt_access_verifier = v,
     gt_lifecycle = lifecycle_new (pc_seats config), gt_durable_lifecycle = lifecycle_new (pc_seats config),
     gt_deterministic_seed = seed, gt_tournament = None, gt_hand_id = None, gt_seat_sessions = [], gt_waiting = [],
     gt_pending_departures = [], gt_last_activity = now, gt_runtime = None\<rparr>"
    have "table_sound ?t" by (rule new_table_sound [OF _ assms(2) v(2)]) (simp add: Inr)
    then obtain s where s: "table_summary ?t (rg_next_table_id r) = Some s" "sm_table_id s = rg_next_table_id r"
      using table_summary_returns by blast
    have "staffed_all (put_table (rg_next_table_id r) ?t (r\<lparr>rg_next_table_id := n\<rparr>))" for n
      by (rule staffed_put_table [OF _ new_table_staffed]) (use all in \<open>simp add: staffed_all_def\<close>)
    then show ?thesis
      using all v(1) s Inr by (simp add: registry_create_def runs_simps Let_def bt_get_insert)
  qed
qed

lemma create_tournament_runs:
  assumes "alive r" "sum_list (pp_shares_bps (tc_payout config)) = PAYOUT_BASIS_POINTS" "hashes sv salt"
  shows "runs (\<lambda>res. staffed_all) (create_tournament sv salt now config seed r)"
proof -
  obtain created where created: "tournament_new config = Some created"
  proof -
    have "\<exists>v. config_validate config = Some v"
      by (cases "tc_levels config") (simp_all add: config_validate_def Let_def vec_get_def)
    then show ?thesis using that by (auto simp: tournament_new_def)
  qed
  have "runs (\<lambda>res r'. staffed_all r' \<and> (\<forall>s. res = Inr s \<longrightarrow> (\<exists>t. bt_get (rg_tables r') (sm_table_id s) = Some t \<and>
        (\<exists>x. table_summary (t\<lparr>gt_tournament := Some c\<rparr>) (sm_table_id s) = Some x) \<and> staffed (sm_table_id s) (t\<lparr>gt_tournament := Some c\<rparr>))))
      (registry_create sv salt now (tournament_table_config config seats) seed r)"
    if c: "created = Inr c" "table_size_try_from (tc_entrants config) = Inr seats" for c seats
  proof -
    have tour: "tour_ok c" by (rule tournament_new_ok [OF _ assms(2)]) (simp add: created c(1))
    have size: "valid_size (pc_seats (tournament_table_config config seats))"
      using c(2) by (simp add: tournament_table_config_def table_size_try_from_def valid_size_def split: if_splits)
    show ?thesis
    proof (rule runs_mono [OF runs_leaves [OF registry_create_runs [OF assms(1) size assms(3)]
            registry_create_ok [OF aliveD(1) [OF assms(1)] size]]])
      fix res r'
      assume r': "(staffed_all r' \<and> (\<forall>s. res = Inr s \<longrightarrow> bt_get (rg_tables r') (sm_table_id s) \<noteq> None)) \<and> registry_ok r' \<and>
        (\<forall>summary. res = Inr summary \<longrightarrow> (\<exists>t. bt_get (rg_tables r') (sm_table_id summary) = Some t \<and> gt_hand_id t = None \<and> gt_waiting t = []))"
      have "(\<exists>x. table_summary (t\<lparr>gt_tournament := Some c\<rparr>) i = Some x) \<and> staffed i (t\<lparr>gt_tournament := Some c\<rparr>)"
        if "bt_get (rg_tables r') i = Some t" for i t
        using alive_table [OF _ that] r' tour table_summary_returns [of "t\<lparr>gt_tournament := Some c\<rparr>" i]
        by (auto simp: alive_def table_sound_def staffed_def)
      then show "staffed_all r' \<and> (\<forall>s. res = Inr s \<longrightarrow> (\<exists>t. bt_get (rg_tables r') (sm_table_id s) = Some t \<and>
        (\<exists>x. table_summary (t\<lparr>gt_tournament := Some c\<rparr>) (sm_table_id s) = Some x) \<and> staffed (sm_table_id s) (t\<lparr>gt_tournament := Some c\<rparr>)))"
        using r' by blast
    qed
  qed
  then show ?thesis
    using assms(1) created
    by (auto simp: create_tournament_def runs_simps Let_def alive_def elim!: runs_mono intro!: staffed_put_table)
qed

text \<open>The random source yields a token whose verifier is not in use.\<close>

definition draws_token :: "'g services \<Rightarrow> string list \<Rightarrow> credential_vault \<Rightarrow> bool" where
  "draws_token sv drawn v \<longleftrightarrow> (\<exists>bytes\<in>set drawn. bt_get (cv_entries v) (token_verifier (sv_sha256 sv) (hex bytes)) = None)"

lemma fresh_token_returns:
  "\<exists>bytes\<in>set drawn. bt_get entries (token_verifier sha256 (hex bytes)) = None \<Longrightarrow> \<exists>t. fresh_token sha256 drawn entries = Some t"
  by (induction drawn) (auto simp: Let_def)

lemma vault_issue_returns:
  assumes "draws_token sv drawn v0" "\<And>k. bt_get (cv_entries v0) k = None \<Longrightarrow> bt_get (cv_entries v) k = None"
  shows "\<exists>x. vault_issue (sv_sha256 sv) drawn now guest scope ttl v = Some x"
proof -
  have "\<exists>t. fresh_token (sv_sha256 sv) drawn (filter (\<lambda>(i, e). now < st_expires_at e) (cv_entries v)) = Some t"
    using assms by (intro fresh_token_returns) (auto simp: draws_token_def intro: bt_get_filter_None)
  then show ?thesis by (auto simp: vault_issue_def vault_expire_at_def Let_def)
qed

lemma reconnect_runs:
  assumes "alive r"
  shows "draws_token sv drawn (rg_credentials r) \<Longrightarrow> runs (\<lambda>res. staffed_all) (issue_reconnect_credential sv drawn wall session r)"
    "draws_token sv drawn (rg_credentials r) \<Longrightarrow> runs (\<lambda>res. staffed_all) (authenticate_and_rotate_reconnect sv drawn wall token r)"
    "runs (\<lambda>res. staffed_all) (identify_reconnect sv wall token r)"
    "runs (\<lambda>res. staffed_all) (set_reconnect_ttl ttl r)"
proof -
  have same [simp]: "staffed_all (r\<lparr>rg_credentials := v\<rparr>)" "staffed_all (r\<lparr>rg_reconnect_ttl := n\<rparr>)" "staffed_all r" for v n
    using aliveD(2) [OF assms] staffed_cong [of "r\<lparr>rg_credentials := v\<rparr>" r] staffed_cong [of "r\<lparr>rg_reconnect_ttl := n\<rparr>" r] by simp_all
  show "runs (\<lambda>res. staffed_all) (issue_reconnect_credential sv drawn wall session r)" if "draws_token sv drawn (rg_credentials r)"
  proof -
    have "\<exists>x. vault_issue (sv_sha256 sv) drawn wall session scope (rg_reconnect_ttl r) (snd (vault_revoke_principal session (rg_credentials r))) = Some x" for scope
      by (rule vault_issue_returns [OF that]) (simp add: vault_revoke_principal_def Let_def bt_get_filter_None)
    then show ?thesis by (auto simp: issue_reconnect_credential_def runs_simps Let_def)
  qed
  show "runs (\<lambda>res. staffed_all) (authenticate_and_rotate_reconnect sv drawn wall token r)" if "draws_token sv drawn (rg_credentials r)"
  proof -
    have "\<exists>x. vault_authenticate_and_rotate (sv_sha256 sv) drawn wall token RoleReconnect (rg_reconnect_ttl r) (rg_credentials r) = Some x"
      unfolding vault_authenticate_and_rotate_def Let_def
      by (auto intro!: vault_issue_returns [OF that] bt_get_filter_None
          simp: vault_expire_at_def Let_def bt_get_remove simp del: split_paired_Ex split: option.split)
    then show ?thesis
      by (auto simp: authenticate_and_rotate_reconnect_def check_scope_def runs_simps Let_def)
  qed
  show "runs (\<lambda>res. staffed_all) (identify_reconnect sv wall token r)"
    by (auto simp: identify_reconnect_def check_scope_def runs_simps Let_def split: prod.split)
  show "runs (\<lambda>res. staffed_all) (set_reconnect_ttl ttl r)" by (simp add: set_reconnect_ttl_def runs_simps)
qed

subsection \<open>Joining\<close>

lemma enroll_returns:
  assumes "\<forall>c. tournament = Some c \<longrightarrow> tour_ok c"
  shows "\<exists>x. enroll n player s tournament = Some x"
proof (cases tournament)
  case (Some c)
  show ?thesis
  proof (cases "register c \<lparr>te_player = player, te_seat = s\<rparr>")
    case (Inr c')
    obtain state where "public_state c' = Some state"
      using public_state_returns register_ok [OF _ Inr] assms Some by blast
    then show ?thesis using Some Inr by (auto simp: enroll_def split: sum.split)
  qed (use Some in \<open>simp add: enroll_def\<close>)
qed (simp add: enroll_def)

lemma prepare_join_runs:
  assumes "fair_services sv" "table_sound u" "house_ok (gt_lifecycle u)"
  shows "\<exists>res. prepare_join sv now i hand (gt_lifecycle u) u = Some res \<and>
    (\<forall>l following w. res = Inr (Some (l, following, w)) \<longrightarrow> house_ok l \<and> serves i (Some hand) l w)"
proof -
  have u: "roster_ok (gt_lifecycle u)" "\<forall>c. gt_tournament u = Some c \<longrightarrow> tour_ok c" "pc_seats (gt_config u) = lc_table_size (gt_lifecycle u)"
    using assms(2) by (simp_all add: table_sound_def)
  obtain res where "prepare_hand sv now False i hand (pc_seats (gt_config u)) (\<lambda>start. gt_deterministic_seed u)
      (gt_tournament u) (gt_seat_sessions u) (gt_lifecycle u) = Some res"
    "\<forall>l' following w. res = Inr (l', following, w) \<longrightarrow> house_ok l' \<and> serves i (Some hand) l' w"
    using prepare_hand_runs [OF assms(1) u(1) assms(3) u(2,3), of now False i hand] by blast
  then show ?thesis by (auto simp: prepare_join_def Let_def)
qed

text \<open>A table with a prepared hand, or with none.\<close>

lemma staffed_prepared:
  assumes "staffed i u" "case prepared of None \<Rightarrow> True | Some (l, following, w) \<Rightarrow> house_ok l \<and> serves i (Some hand) l w"
  shows "staffed i (case prepared of None \<Rightarrow> u
    | Some (l, following, w) \<Rightarrow> u\<lparr>gt_lifecycle := l, gt_hand_id := Some hand, gt_runtime := Some w\<rparr>)"
  using assms by (auto simp: staffed_def split: option.split)

lemma install_join_runs:
  assumes "staffed_all r" "staffed i u" "table_sound u"
    and "case prepared of None \<Rightarrow> True | Some (l, following, w) \<Rightarrow> house_ok l \<and> serves i (Some (rg_next_hand_id r)) l w \<and>
      table_sound (u\<lparr>gt_lifecycle := l, gt_hand_id := Some (rg_next_hand_id r), gt_runtime := Some w\<rparr>)"
  shows "runs (\<lambda>res. staffed_all) (install_join session i s player next_player prepared u r)"
proof -
  let ?t = "case prepared of None \<Rightarrow> u
    | Some (l, following, w) \<Rightarrow> u\<lparr>gt_lifecycle := l, gt_hand_id := Some (rg_next_hand_id r), gt_runtime := Some w\<rparr>"
  let ?n = "case prepared of None \<Rightarrow> rg_next_hand_id r | Some (l, following, w) \<Rightarrow> following"
  have p: "(case prepared of None \<Rightarrow> (u, rg_next_hand_id r) | Some (l, following, w) \<Rightarrow>
      (u\<lparr>gt_lifecycle := l, gt_hand_id := Some (rg_next_hand_id r), gt_runtime := Some w\<rparr>, following)) = (?t, ?n)"
    by (simp split: option.split)
  have "staffed i ?t" using staffed_prepared [where prepared = prepared and hand = "rg_next_hand_id r", OF assms(2)] assms(4) by (auto split: option.splits)
  moreover have "table_sound ?t" using assms(3,4) by (auto split: option.splits)
  then obtain summary where "table_summary ?t i = Some summary" using table_summary_returns by blast
  ultimately show ?thesis
    using staffed_put_table [OF assms(1)]
    unfolding install_join_def p by (auto simp: runs_simps Let_def staffed_all_def)
qed

lemma registry_join_runs:
  assumes "alive r" "fair_services sv"
  shows "runs (\<lambda>res. staffed_all) (registry_join sv now session i requested r)"
proof -
  have all: "staffed_all r" by (rule aliveD(2) [OF assms(1)])
  have installs: "\<exists>prepared. prepare_join sv now i (rg_next_hand_id r) l u = Some prepared"
      "prepare_join sv now i (rg_next_hand_id r) l u = Some (Inr p) \<Longrightarrow>
        runs (\<lambda>res. staffed_all) (install_join session i s (rg_next_player_id r) next_player p u r)"
    if t: "bt_get (rg_tables r) i = Some t" "gt_runtime t = None"
      "join (gt_lifecycle t) (rg_next_player_id r) s (pc_starting_stack (gt_config t)) = (Inr (), l)"
      "enroll (pc_min_players (gt_config t)) (rg_next_player_id r) s (gt_tournament t) = Some (Inr tournament)"
      "u = t\<lparr>gt_lifecycle := l, gt_durable_lifecycle := l, gt_seat_sessions := bt_insert s session (gt_seat_sessions t),
         gt_tournament := tournament, gt_last_activity := now\<rparr>" for t s l tournament u p next_player
  proof -
    note table = alive_table [OF assms(1) t(1)]
    have l: "roster_ok l" "same_house (gt_lifecycle t) l" "house_ok l"
      using join_ok [OF _ t(3)] join_house [OF t(3)] join_house_ok [OF _ t(3)] table by (auto simp: table_sound_def staffed_def)
    have "\<forall>c. tournament = Some c \<longrightarrow> tour_ok c"
      by (rule enroll_ok [OF t(4)]) (use table in \<open>simp add: table_sound_def\<close>)
    then have u: "table_sound u" "gt_runtime u = None" "gt_lifecycle u = l" "staffed i u"
      using t(2,5) table l by (simp_all add: table_sound_def same_house_def hand_active_def bt_sorted_insert staffed_def)
    obtain res where res: "prepare_join sv now i (rg_next_hand_id r) l u = Some res"
        "\<forall>l following w. res = Inr (Some (l, following, w)) \<longrightarrow> house_ok l \<and> serves i (Some (rg_next_hand_id r)) l w"
      using prepare_join_runs [OF assms(2) u(1), of now i "rg_next_hand_id r"] u(3) l(3) by auto
    then show "\<exists>prepared. prepare_join sv now i (rg_next_hand_id r) l u = Some prepared" by blast
    show "runs (\<lambda>res. staffed_all) (install_join session i s (rg_next_player_id r) next_player p u r)"
      if p: "prepare_join sv now i (rg_next_hand_id r) l u = Some (Inr p)"
      by (rule install_join_runs [OF all u(4,1)])
        (use prepare_join_sound [of sv now i "rg_next_hand_id r" u p "rg_next_hand_id r"] p res u(1-3) in \<open>cases p; auto\<close>)
  qed
  have enrolls: "\<exists>x. enroll n (rg_next_player_id r) s (gt_tournament t) = Some x" if "bt_get (rg_tables r) i = Some t" for t n s
    by (rule enroll_returns) (use alive_table(1) [OF assms(1) that] in \<open>simp add: table_sound_def\<close>)
  show ?thesis
    unfolding registry_join_def Let_def
    by (intro runs_intros) (use all in \<open>auto intro: installs enrolls\<close>)
qed

subsection \<open>Waiting and leaving\<close>

lemma staffed_fields [simp]:
  "staffed_all (r\<lparr>rg_sessions := m\<rparr>) = staffed_all r" "staffed_all (r\<lparr>rg_waiting_sessions := q\<rparr>) = staffed_all r"
  "staffed_all (r\<lparr>rg_next_player_id := n\<rparr>) = staffed_all r" "staffed_all (r\<lparr>rg_next_hand_id := n\<rparr>) = staffed_all r"
  "staffed_all (r\<lparr>rg_retired_updates := u\<rparr>) = staffed_all r" "staffed_all (r\<lparr>rg_history := h\<rparr>) = staffed_all r"
  "staffed_all (r\<lparr>rg_credentials := v\<rparr>) = staffed_all r" "staffed_all (r\<lparr>rg_reconnect_ttl := n\<rparr>) = staffed_all r"
  by (simp_all add: staffed_all_def)

lemma join_or_wait_runs:
  assumes "alive r" "fair_services sv"
  shows "runs (\<lambda>res. staffed_all) (join_or_wait_with_access sv now session i requested code r)"
proof -
  have all: "staffed_all r" by (rule aliveD(2) [OF assms(1)])
  have waits: "staffed i (t\<lparr>gt_waiting := q, gt_last_activity := now\<rparr>)" "\<exists>s. table_summary (t\<lparr>gt_waiting := gt_waiting t @ [e], gt_last_activity := now\<rparr>) i = Some s"
      "\<exists>k. u8_try_from (Suc (length (gt_waiting t))) = Some k"
    if t: "bt_get (rg_tables r) i = Some t" "length (gt_waiting t) < MAX_TABLE_WAITING_ENTRIES" for t e q
  proof -
    note table = alive_table [OF assms(1) t(1)]
    show "staffed i (t\<lparr>gt_waiting := q, gt_last_activity := now\<rparr>)" using table(2) by (simp add: staffed_def)
    have "table_sound (t\<lparr>gt_waiting := gt_waiting t @ [e], gt_last_activity := now\<rparr>)" using table(1) t(2) by (simp add: table_sound_def)
    then show "\<exists>s. table_summary (t\<lparr>gt_waiting := gt_waiting t @ [e], gt_last_activity := now\<rparr>) i = Some s"
      using table_summary_returns by blast
    show "\<exists>k. u8_try_from (Suc (length (gt_waiting t))) = Some k"
      using t(2) by (simp add: u8_try_from_def MAX_TABLE_WAITING_ENTRIES_def)
  qed
  show ?thesis
    unfolding join_or_wait_with_access_def Let_def
    apply (intro runs_intros)
    using all by (auto simp: runs_simps not_le staffed_put_table waits intro!: runs_mono [OF registry_join_runs [OF assms]])
qed

lemma request_leave_returns: "roster_ok l \<Longrightarrow> \<exists>x. request_leave l p = Some x"
  using request_transition_ok [of l p PendingLeave] by (auto simp: request_leave_def)

lemma cancel_wait_runs:
  assumes "alive r"
  shows "runs (\<lambda>res. staffed_all) (cancel_wait now session i r)"
proof -
  have all: "staffed_all r" by (rule aliveD(2) [OF assms])
  have leaves: "\<exists>x. request_leave (gt_lifecycle t) p = Some x" if "bt_get (rg_tables r) j = Some t" for j t p
    by (rule request_leave_returns) (use alive_table(1) [OF assms that] in \<open>simp add: table_sound_def\<close>)
  have left: "staffed j (t\<lparr>gt_tournament := c, gt_lifecycle := l, gt_durable_lifecycle := l, gt_seat_sessions := m, gt_last_activity := k\<rparr>)"
    if t: "bt_get (rg_tables r) j = Some t" "gt_runtime t = None" "request_leave (gt_lifecycle t) p = Some (x, l)" for j t p x l c m k
    using alive_table(2) [OF assms t(1)] leave_house_ok [OF _ t(3)] t(2) by (simp add: staffed_def)
  have waits: "staffed i (t\<lparr>gt_waiting := q, gt_last_activity := now\<rparr>)" if "bt_get (rg_tables r) i = Some t" for t q
    using alive_table(2) [OF assms that] by (simp add: staffed_def)
  show ?thesis
  proof (cases "bt_get (rg_sessions r) session")
    case None
    show ?thesis
      unfolding cancel_wait_def None option.case Let_def
      by (intro runs_intros) (use all in \<open>auto intro!: staffed_put_table waits\<close>)
  next
    case (Some route)
    show ?thesis
      unfolding cancel_wait_def Some option.case cancel_registration_def Let_def
      by (intro runs_intros) (use all in \<open>auto simp: is_none_or_def simp del: split_paired_Ex split: option.splits intro!: staffed_put_table leaves left\<close>)
  qed
qed

lemma registry_request_leave_runs:
  assumes "alive r"
  shows "runs (\<lambda>res. staffed_all) (registry_request_leave now session r)"
proof -
  have all: "staffed_all r" by (rule aliveD(2) [OF assms])
  have leaves: "\<exists>x. request_leave (gt_lifecycle t) p = Some x" if "bt_get (rg_tables r) i = Some t" for i t p
    by (rule request_leave_returns) (use alive_table(1) [OF assms that] in \<open>simp add: table_sound_def\<close>)
  have left: "staffed i (t\<lparr>gt_lifecycle := l\<rparr>)" "staffed i (t\<lparr>gt_lifecycle := l, gt_pending_departures := d, gt_last_activity := k\<rparr>)"
    if t: "bt_get (rg_tables r) i = Some t" "request_leave (gt_lifecycle t) p = Some (x, l)" for i t p x l d k
  proof -
    have "lc_active_hand l = Some start" if "lc_active_hand (gt_lifecycle t) = Some start" for start
      using t(2) that by (auto simp: request_leave_def request_transition_def hand_active_def split: if_splits)
    then show "staffed i (t\<lparr>gt_lifecycle := l\<rparr>)" "staffed i (t\<lparr>gt_lifecycle := l, gt_pending_departures := d, gt_last_activity := k\<rparr>)"
      using alive_table(2) [OF assms t(1)] leave_house_ok [OF _ t(2)] by (auto simp: staffed_def serves_def)
  qed
  show ?thesis
    unfolding registry_request_leave_def Let_def
    by (intro runs_intros) (use all in \<open>auto simp del: split_paired_Ex intro!: staffed_put_table leaves left\<close>)
qed

end
