(* ===== verification/Registry_Total_Hands.thy ===== *)
theory Registry_Total_Hands
  imports Registry_Total
begin

text \<open>The rollover, the histories, the breaks, the health report and a restart return and keep the tables staffed.\<close>

subsection \<open>The successor hand\<close>

lemma admit_waiting_runs:
  assumes "idle_roster n l" "house_ok l"
  shows "runs (\<lambda>res r'. rg_tables r' = rg_tables r \<and> (\<forall>l' m' q. res = Inr (l', m', q) \<longrightarrow> idle_roster n l' \<and> house_ok l'))
    (admit_waiting i config waiting l m r)"
  using assms
proof (induction waiting arbitrary: l m r)
  case (Cons entry rest)
  show ?case
  proof (cases "find_seat (pc_seats config) l (we_requested_seat entry)")
    case None
    then show ?thesis using Cons.prems by (simp add: runs_simps)
  next
    case (Some s)
    have roster: "roster_ok l" using Cons.prems(1) by (simp add: idle_roster_def)
    obtain res l' where joined: "join_with_entry l (rg_next_player_id r) s (pc_starting_stack config) PostLiveBigBlind = Some (res, l')"
        "roster_ok l'"
      using join_with_entry_ok [OF roster] by blast
    have house: "house_ok l'" by (rule join_entry_house_ok [OF Cons.prems(2) joined(1)])
    have idle: "idle_roster n l'"
      using join_with_entry_house [OF joined(1)] joined(2) Cons.prems(1) by (simp add: idle_roster_def same_house_def)
    show ?thesis
      unfolding admit_waiting.simps Some option.case Let_def joined(1)
      by (intro runs_intros) (auto intro!: runs_mono [OF Cons.IH [OF idle house]])
  qed
qed (simp add: runs_simps)

lemma install_successor_runs:
  assumes "staffed_all r" "fair_services sv" "idle_roster (pc_seats (gt_config t)) l" "house_ok l"
    and "\<forall>c. tournament = Some c \<longrightarrow> tour_ok c"
  shows "runs (\<lambda>res. staffed_all) (install_successor sv now i l m waiting tournament t r)"
proof -
  have roster: "roster_ok l" "pc_seats (gt_config t) = lc_table_size l" using assms(3) by (simp_all add: idle_roster_def)
  obtain res where p: "prepare_hand sv now False i (rg_next_hand_id r) (pc_seats (gt_config t))
        (successor_seed (gt_deterministic_seed t)) tournament m l = Some res"
      "\<forall>l' following w. res = Inr (l', following, w) \<longrightarrow> house_ok l' \<and> serves i (Some (rg_next_hand_id r)) l' w"
    using prepare_hand_runs [OF assms(2) roster(1) assms(4,5) roster(2), of now False i "rg_next_hand_id r"] by blast
  show ?thesis
    unfolding install_successor_def Let_def p(1)
    by (intro runs_intros) (use assms(1,4) p(2) in \<open>auto intro!: staffed_put_table simp: staffed_def\<close>)
qed

lemma settle_tournament_returns:
  assumes "\<forall>c. tournament = Some c \<longrightarrow> tour_ok c"
  shows "\<exists>x. settle_tournament elapsed start final tournament = Some x"
proof (cases tournament)
  case (Some c)
  obtain c1 where c1: "tick_between_hands (min elapsed (u64_bound - 1)) c = Some c1" "tour_ok c1"
    using tick_tour_ok assms Some by blast
  obtain res c2 where "tournament_complete_hand c1 start final = Some (res, c2)"
    using freezeout_hand_ok [OF c1(2)] by blast
  then show ?thesis using Some c1(1) by (cases res) (auto simp: settle_tournament_def)
qed (simp add: settle_tournament_def)

lemma fold_depart_tables: "fold depart sessions (m, r) = (m', r') \<Longrightarrow> rg_tables r' = rg_tables r"
  by (induction sessions arbitrary: m r) (auto simp: depart_def split: option.splits)

lemma reconcile_runs:
  assumes "alive r" "bt_get (rg_tables r) i = Some t" "fair_services sv"
  shows "runs (\<lambda>res. staffed_all) (reconcile sv now i final t r)"
proof -
  note table = alive_table [OF assms(1,2)]
  have roster: "roster_ok (gt_lifecycle t)" and tour: "\<forall>c. gt_tournament t = Some c \<longrightarrow> tour_ok c"
    using table(1) by (simp_all add: table_sound_def)
  obtain res l where fin: "complete_hand (gt_lifecycle t) final = Some (res, l)" "roster_ok l"
    using complete_hand_ok [OF roster] by blast
  have house: "house_ok l" using complete_house_ok [OF roster _ fin(1)] table(2) by (simp add: staffed_def)
  have finish: "runs (\<lambda>res. staffed_all) (reg_then (if tournament = None
        then admit_waiting i (gt_config t) (gt_waiting t) l m r' else reg_ok (l, m, gt_waiting t) r')
      (\<lambda>(l, m, waiting) r. install_successor sv now i l m waiting tournament t r))"
    if r': "staffed_all r'" and tournament: "\<forall>c. tournament = Some c \<longrightarrow> tour_ok c" and completed: "res = Inr ()" for r' m tournament
  proof -
    have idle: "idle_roster (pc_seats (gt_config t)) l"
      using complete_hand_house [of "gt_lifecycle t" final l] fin completed table(1) by (simp add: idle_roster_def table_sound_def)
    have step: "runs (\<lambda>res. staffed_all) (install_successor sv now i k m q tournament t r'')"
      if "idle_roster (pc_seats (gt_config t)) k" "house_ok k" "staffed_all r''" for k m q r''
      by (rule install_successor_runs [OF that(3) assms(3) that(1,2) tournament])
    show ?thesis
    proof (cases "tournament = None")
      case True
      show ?thesis
        unfolding runs_then True simp_thms if_True
        by (rule runs_mono [OF admit_waiting_runs [OF idle house]])
          (use r' step [unfolded True] in \<open>auto simp: staffed_all_def\<close>)
    next
      case False
      then show ?thesis using step [OF idle house r'] by (auto simp: runs_simps)
    qed
  qed
  have finishes: "runs (\<lambda>res. staffed_all)
     (let m = filter (\<lambda>(s, session). table_seat (lc_seats l) s \<noteq> None) m0
      in reg_then (if tournament = None
           then admit_waiting i (gt_config t) (gt_waiting t) l m r' else reg_ok (l, m, gt_waiting t) r')
         (\<lambda>(l, m, waiting) r. install_successor sv now i l m waiting tournament t r))"
    if "fold depart (gt_pending_departures t) (gt_seat_sessions t, r) = (m0, r')" "res = Inr ()"
      "settle_tournament elapsed start final (gt_tournament t) = Some (Inr tournament)" for m0 r' tournament elapsed start
    unfolding Let_def
  proof (rule finish)
    show "staffed_all r'" using fold_depart_tables [OF that(1)] aliveD(2) [OF assms(1)] staffed_cong [of r' r] by simp
    show "\<forall>c. tournament = Some c \<longrightarrow> tour_ok c" by (rule settle_tournament_ok [OF that(3) tour])
  qed (rule that(2))
  show ?thesis
    unfolding reconcile_def fin(1)
    by (intro runs_intros)
      (use aliveD(2) [OF assms(1)] settle_tournament_returns [OF tour] finishes in auto)
qed

lemma worker_put:
  assumes "alive r" "bt_get (rg_tables r) i = Some t" "gt_runtime t = Some (Some st)" "follows st st'"
  shows "alive (put_table i (t\<lparr>gt_runtime := Some (Some st')\<rparr>) r)"
  using worker_put_ok [OF aliveD(1) [OF assms(1)] assms(2,3)]
    staffed_put_table [OF aliveD(2) [OF assms(1)] staffed_follows [OF alive_table(2) [OF assms(1,2)] assms(3,4)]]
  by (simp add: alive_def)

lemma terminal_updates_run:
  assumes "busy st"
  shows "\<exists>res st'. terminal_updates now sequence sessions (Some st) = (res, Some st') \<and> follows st st'"
  using assms
proof (induction sessions arbitrary: st)
  case Nil
  then show ?case by (simp add: busy_def follows_refl)
next
  case (Cons e sessions)
  obtain s session where e: "e = (s, session)" by (cases e)
  obtain res st1 where b: "handle_bound_snapshot now session (Some st) = (res, Some st1)" "follows st st1"
    using handle_calls_run(3) [OF Cons.prems] by blast
  obtain res2 st2 where d: "terminal_updates now sequence sessions (Some st1) = (res2, Some st2)" "follows st1 st2"
    using Cons.IH [OF busy_follows [OF Cons.prems b(2)]] by blast
  show ?case using b d follows_trans [OF b(2) d(2)] by (cases res; cases res2) (auto simp: e)
qed

lemma rollover_runs:
  assumes "alive r" "fair_services sv"
  shows "runs (\<lambda>res. staffed_all) (rollover_completed_hand sv now i expected r)"
proof -
  have all: "staffed_all r" by (rule aliveD(2) [OF assms(1)])
  have start: "\<exists>st. w = Some st \<and> busy st" if "bt_get (rg_tables r) i = Some t" "gt_runtime t = Some w" for t w
    using staffed_worker [OF alive_table(2) [OF assms(1) that(1)] that(2)] by blast
  have put: "alive (put_table i (t\<lparr>gt_runtime := Some (Some st')\<rparr>) r)"
    if "bt_get (rg_tables r) i = Some t" "gt_runtime t = Some (Some st)" "follows st st'" for t st st'
    by (rule worker_put [OF assms(1) that])
  have snapshot: "\<exists>st st1. w = Some st \<and> w1 = Some st1 \<and> busy st1 \<and> follows st st1"
    if t: "bt_get (rg_tables r) i = Some t" "gt_runtime t = Some w" "handle_bound_snapshot now session w = (x1, w1)" for t w session x1 w1
  proof -
    obtain st where st: "w = Some st" "busy st" using start [OF t(1,2)] by blast
    obtain x st1 where 1: "handle_bound_snapshot now session (Some st) = (x, Some st1)" "follows st st1"
      using handle_calls_run(3) [OF st(2)] by blast
    have "w1 = Some st1" using t(3) st(1) 1(1) by simp
    then show ?thesis using st(1) 1(2) busy_follows [OF st(2) 1(2)] by simp
  qed
  have metrics: "\<exists>st st2. w = Some st \<and> w2 = Some st2 \<and> busy st2 \<and> follows st st2"
    if t: "bt_get (rg_tables r) i = Some t" "gt_runtime t = Some w" "handle_bound_snapshot now session w = (x1, w1)"
      "handle_metrics now w1 = (x2, w2)" for t w session x1 w1 x2 w2
  proof -
    obtain st st1 where 1: "w = Some st" "w1 = Some st1" "busy st1" "follows st st1" using snapshot [OF t(1-3)] by blast
    obtain m st2 where 2: "handle_metrics now (Some st1) = (m, Some st2)" "follows st1 st2" using handle_calls_run(5) [OF 1(3)] by blast
    have "w2 = Some st2" using t(4) 1(2) 2(1) by simp
    then show ?thesis using 1(1) busy_follows [OF 1(3) 2(2)] follows_trans [OF 1(4) 2(2)] by simp
  qed
  have updates: "alive (put_table i (t\<lparr>gt_runtime := Some w3\<rparr>) r)"
    if t: "bt_get (rg_tables r) i = Some t" "gt_runtime t = Some w" "handle_bound_snapshot now session w = (x1, w1)"
      "handle_metrics now w1 = (x2, w2)" "terminal_updates now sequence sessions w2 = (x3, w3)" for t w session x1 w1 x2 w2 sequence sessions x3 w3
  proof -
    obtain st st2 where 2: "w = Some st" "w2 = Some st2" "busy st2" "follows st st2" using metrics [OF t(1-4)] by blast
    obtain u st3 where 3: "terminal_updates now sequence sessions (Some st2) = (u, Some st3)" "follows st2 st3"
      using terminal_updates_run [OF 2(3)] by blast
    have "w3 = Some st3" using t(5) 2(2) 3(1) by simp
    then show ?thesis using put [OF t(1) _ follows_trans [OF 2(4) 3(2)]] t(2) 2(1) by simp
  qed
  have s1: "staffed_all (put_table i (t\<lparr>gt_runtime := Some w1\<rparr>) r)"
    if t: "bt_get (rg_tables r) i = Some t" "gt_runtime t = Some w" "handle_bound_snapshot now session w = (x1, w1)" for t w session x1 w1
    using snapshot [OF t] put [OF t(1)] t(2) by (auto simp: alive_def)
  have s2: "staffed_all (put_table i (t\<lparr>gt_runtime := Some w2\<rparr>) r)"
    if t: "bt_get (rg_tables r) i = Some t" "gt_runtime t = Some w" "handle_bound_snapshot now session w = (x1, w1)"
      "handle_metrics now w1 = (x2, w2)" for t w session x1 w1 x2 w2
    using metrics [OF t] put [OF t(1)] t(2) by (auto simp: alive_def)
  have s3: "staffed_all (put_table i (t\<lparr>gt_runtime := Some w3\<rparr>) r)"
    "runs (\<lambda>res. staffed_all) (reconcile sv now i final (t\<lparr>gt_runtime := Some w3\<rparr>)
        ((put_table i (t\<lparr>gt_runtime := Some w3\<rparr>) r)\<lparr>rg_retired_updates := retired\<rparr>))"
    if t: "bt_get (rg_tables r) i = Some t" "gt_runtime t = Some w" "handle_bound_snapshot now session w = (x1, w1)"
      "handle_metrics now w1 = (x2, w2)" "terminal_updates now sequence sessions w2 = (x3, w3)" for t w session x1 w1 x2 w2 sequence sessions x3 w3 final retired
    using updates [OF t] reconcile_runs [OF _ _ assms(2), of "(put_table i (t\<lparr>gt_runtime := Some w3\<rparr>) r)\<lparr>rg_retired_updates := retired\<rparr>" i "t\<lparr>gt_runtime := Some w3\<rparr>"]
    by (simp_all add: alive_def bt_get_insert)
  show ?thesis
    unfolding rollover_completed_hand_def Let_def put_table_twice
    by (intro runs_intros) (rule all | erule (2) s1 | erule (3) s2 | erule (4) s3)+
qed

lemma finalize_safe_history_runs:
  assumes "alive r"
  shows "runs (\<lambda>res. staffed_all) (finalize_safe_history now i h r)"
proof -
  have all: "staffed_all r" by (rule aliveD(2) [OF assms])
  have "staffed_all (put_table i (t\<lparr>gt_runtime := Some (snd (handle_safe_history_material now w))\<rparr>) r)"
    if t: "bt_get (rg_tables r) i = Some t" "gt_runtime t = Some w" for t w
  proof -
    obtain st where st: "w = Some st" "busy st" by (rule staffed_worker [OF alive_table(2) [OF assms t(1)] t(2)])
    obtain m st1 where "handle_safe_history_material now (Some st) = (m, Some st1)" "follows st st1"
      using handle_calls_run(4) [OF st(2)] by blast
    then show ?thesis using worker_put [OF assms t(1), of st st1] t(2) st(1) by (simp add: alive_def)
  qed
  then show ?thesis
    using all by (simp add: finalize_safe_history_def runs_simps Let_def)
qed

text \<open>A loop over tables that it has not visited yet.\<close>

lemma history_put:
  assumes "alive r" "bt_get (rg_tables r) i = Some t" "gt_runtime t = Some w"
  shows "alive (put_table i (t\<lparr>gt_runtime := Some (snd (handle_safe_history_material now w))\<rparr>) r)"
proof -
  obtain st where st: "w = Some st" "busy st" by (rule staffed_worker [OF alive_table(2) [OF assms(1,2)] assms(3)])
  obtain m st1 where "handle_safe_history_material now (Some st) = (m, Some st1)" "follows st st1"
    using handle_calls_run(4) [OF st(2)] by blast
  then show ?thesis using worker_put [OF assms(1,2), of st st1] assms(3) st(1) by simp
qed

lemma ready_hands_runs: "alive r \<Longrightarrow> unvisited rest r \<Longrightarrow> runs (\<lambda>res. staffed_all) (ready_hands now rest r)"
proof (induction rest arbitrary: r)
  case (Cons p rest)
  obtain i t where p: "p = (i, t)" by (cases p)
  have get: "bt_get (rg_tables r) i = Some t" using Cons.prems(2) by (simp add: p unvisited_def)
  have rest: "unvisited rest r" using Cons.prems(2) by (auto simp: unvisited_def)
  have "runs (\<lambda>res. staffed_all) (ready_hands now rest (put_table i (t\<lparr>gt_runtime := Some (snd (handle_safe_history_material now w))\<rparr>) r)) \<and>
      staffed_all (put_table i (t\<lparr>gt_runtime := Some (snd (handle_safe_history_material now w))\<rparr>) r)" if "gt_runtime t = Some w" for w
    using Cons.IH [OF history_put [OF Cons.prems(1) get that]] unvisited_put [OF Cons.prems(2) [unfolded p]]
      history_put [OF Cons.prems(1) get that] by (simp add: alive_def)
  moreover have "runs (\<lambda>res. staffed_all) (ready_hands now rest r)" by (rule Cons.IH [OF Cons.prems(1) rest])
  moreover have "staffed_all r" by (rule aliveD(2) [OF Cons.prems(1)])
  ultimately show ?case
    unfolding p ready_hands.simps Let_def
    by (auto simp: runs_simps split: option.split elim!: runs_mono)
qed (simp add: runs_simps alive_def)

lemma finalize_hands_runs: "alive r \<Longrightarrow> fair_services sv \<Longrightarrow> runs (\<lambda>res. staffed_all) (finalize_hands sv now hands r)"
proof (induction hands arbitrary: r)
  case (Cons p hands)
  obtain i h where p: "p = (i, h)" by (cases p)
  have roll: "runs (\<lambda>res. alive) (rollover_completed_hand sv now i h r')" if "alive r'" for r'
    by (rule runs_alive [OF rollover_completed_hand_ok [OF aliveD(1) [OF that]] rollover_runs [OF that Cons.prems(2)]])
  have fin: "runs (\<lambda>res. alive) (finalize_safe_history now i h r)"
    by (rule runs_alive [OF finalize_safe_history_ok [OF aliveD(1) [OF Cons.prems(1)]] finalize_safe_history_runs [OF Cons.prems(1)]])
  show ?case
    unfolding p finalize_hands.simps runs_then
    by (rule runs_mono [OF fin]) (auto intro!: runs_mono [OF roll] Cons.IH Cons.prems(2) simp: alive_def)
qed (simp add: runs_simps alive_def)

lemma finalize_ready_hands_runs:
  assumes "alive r" "fair_services sv"
  shows "runs (\<lambda>res. staffed_all) (finalize_ready_hands sv now r)"
proof -
  have ready: "runs (\<lambda>res. alive) (ready_hands now (rg_tables r) r)"
    using runs_alive [OF ready_hands_ok ready_hands_runs] unvisited_all aliveD [OF assms(1)] assms(1) by blast
  show ?thesis
    unfolding finalize_ready_hands_def runs_then
    by (rule runs_mono [OF ready]) (auto intro!: runs_mono [OF finalize_hands_runs] assms(2) simp: runs_simps alive_def)
qed

subsection \<open>Breaks\<close>

text \<open>The tables that a loop over breaks has collected.\<close>

definition in_tournament :: "table_id list \<Rightarrow> registry \<Rightarrow> bool" where
  "in_tournament ids r \<longleftrightarrow> (\<forall>i\<in>set ids. \<exists>t. bt_get (rg_tables r) i = Some t \<and> gt_tournament t \<noteq> None)"

lemma in_tournament_put: "in_tournament ids r \<Longrightarrow> gt_tournament u \<noteq> None \<Longrightarrow> rg_tables r' = bt_insert i u (rg_tables r)
    \<Longrightarrow> in_tournament ids r'"
  by (auto simp: in_tournament_def bt_get_insert)

lemma start_waiting_runs:
  assumes "alive r" "fair_services sv" "in_tournament ids r"
  shows "runs (\<lambda>res r'. staffed_all r' \<and> in_tournament ids r') (start_waiting_tournament_hand sv now i r)"
proof -
  have all: "staffed_all r" by (rule aliveD(2) [OF assms(1)])
  have start: "\<exists>b. current_blinds c = Some b" "\<exists>res. prepare_hand sv now False i (rg_next_hand_id r) (pc_seats (gt_config t))
       (successor_seed (gt_deterministic_seed t)) (Some c) (gt_seat_sessions t) (gt_lifecycle t) = Some res"
      "prepare_hand sv now False i (rg_next_hand_id r) (pc_seats (gt_config t))
       (successor_seed (gt_deterministic_seed t)) (Some c) (gt_seat_sessions t) (gt_lifecycle t) = Some (Inr (l, following, w)) \<Longrightarrow>
       staffed i (t\<lparr>gt_lifecycle := l, gt_hand_id := Some (rg_next_hand_id r), gt_runtime := Some w, gt_last_activity := now\<rparr>)"
    if t: "bt_get (rg_tables r) i = Some t" "gt_tournament t = Some c" for t c l following w
  proof -
    note table = alive_table [OF assms(1) t(1)]
    have c: "tour_ok c" using table(1) t(2) by (simp add: table_sound_def)
    then show "\<exists>b. current_blinds c = Some b" by (rule current_blinds_returns)
    have l: "roster_ok (gt_lifecycle t)" "house_ok (gt_lifecycle t)" "pc_seats (gt_config t) = lc_table_size (gt_lifecycle t)"
      using table by (simp_all add: table_sound_def staffed_def)
    have "\<forall>c'. Some c = Some c' \<longrightarrow> tour_ok c'" using c by simp
    from prepare_hand_runs [OF assms(2) l(1,2) this l(3), of now False i "rg_next_hand_id r" "successor_seed (gt_deterministic_seed t)" "gt_seat_sessions t"]
    obtain res where res: "prepare_hand sv now False i (rg_next_hand_id r) (pc_seats (gt_config t))
       (successor_seed (gt_deterministic_seed t)) (Some c) (gt_seat_sessions t) (gt_lifecycle t) = Some res"
      "\<forall>l' following w. res = Inr (l', following, w) \<longrightarrow> house_ok l' \<and> serves i (Some (rg_next_hand_id r)) l' w" by blast
    then show "\<exists>res. prepare_hand sv now False i (rg_next_hand_id r) (pc_seats (gt_config t))
       (successor_seed (gt_deterministic_seed t)) (Some c) (gt_seat_sessions t) (gt_lifecycle t) = Some res" by blast
    show "staffed i (t\<lparr>gt_lifecycle := l, gt_hand_id := Some (rg_next_hand_id r), gt_runtime := Some w, gt_last_activity := now\<rparr>)"
      if prepared: "prepare_hand sv now False i (rg_next_hand_id r) (pc_seats (gt_config t))
       (successor_seed (gt_deterministic_seed t)) (Some c) (gt_seat_sessions t) (gt_lifecycle t) = Some (Inr (l, following, w))"
    proof -
      have "res = Inr (l, following, w)" using res(1) prepared by simp
      then show ?thesis using res(2) table(2) by (simp add: staffed_def)
    qed
  qed
  have put: "in_tournament ids ((put_table i u r)\<lparr>rg_next_hand_id := n\<rparr>)" if "gt_tournament u \<noteq> None" for u n
    by (rule in_tournament_put [OF assms(3) that]) simp
  show ?thesis
    unfolding start_waiting_tournament_hand_def
    by (intro runs_intros) (auto intro!: start staffed_put_table put simp: all assms(3))
qed

lemma advance_breaks_runs:
  "alive r \<Longrightarrow> fair_services sv \<Longrightarrow> in_tournament ids r \<Longrightarrow> runs (\<lambda>res. staffed_all) (advance_breaks sv now ids resumed r)"
proof (induction ids arbitrary: r resumed)
  case (Cons i ids)
  obtain t c where t: "bt_get (rg_tables r) i = Some t" "gt_tournament t = Some c"
    using Cons.prems(3) by (auto simp: in_tournament_def)
  note table = alive_table [OF Cons.prems(1) t(1)]
  have "tour_ok c" using table(1) t(2) by (simp add: table_sound_def)
  then obtain c' where c': "tick_between_hands (min (now - gt_last_activity t) (u64_bound - 1)) c = Some c'" "tour_ok c'"
    using tick_tour_ok by blast
  let ?u = "t\<lparr>gt_tournament := Some c', gt_last_activity := now\<rparr>"
  let ?r = "put_table i ?u r"
  have ok: "registry_ok ?r"
    by (rule put_table_ok [OF aliveD(1) [OF Cons.prems(1)] t(1)]) (use table(1) c'(2) in \<open>simp_all add: table_sound_def\<close>)
  have staffed: "staffed_all ?r"
    by (rule staffed_put_table [OF aliveD(2) [OF Cons.prems(1)]]) (use table(2) in \<open>simp add: staffed_def\<close>)
  have live: "alive ?r" using ok staffed by (simp add: alive_def)
  have ids: "in_tournament ids ?r"
    by (rule in_tournament_put [where r = r]) (use Cons.prems(3) in \<open>simp_all add: in_tournament_def\<close>)
  have "runs (\<lambda>res r'. alive r' \<and> in_tournament ids r') (start_waiting_tournament_hand sv now i ?r)"
    by (rule runs_mono [OF runs_leaves [OF start_waiting_runs [OF live Cons.prems(2) ids] start_waiting_tournament_hand_ok [OF ok]]])
      (simp add: alive_def)
  then have "runs (\<lambda>res. staffed_all) (reg_then (start_waiting_tournament_hand sv now i ?r) (\<lambda>_ r. advance_breaks sv now ids (resumed + 1) r))"
    unfolding runs_then by (rule runs_mono) (auto intro!: Cons.IH Cons.prems(2) simp: alive_def)
  then show ?case
    using Cons.IH [OF live Cons.prems(2) ids] t c'(1) by (simp add: runs_simps Let_def)
qed (simp add: runs_simps alive_def)

lemma advance_tournament_breaks_runs:
  assumes "alive r" "fair_services sv"
  shows "runs (\<lambda>res. staffed_all) (advance_tournament_breaks sv now r)"
proof -
  have sorted: "bt_sorted (rg_tables r)" using registry_okD(1) [OF aliveD(1) [OF assms(1)]] by (simp add: tables_ok_def)
  have "in_tournament (map fst (filter (\<lambda>(i, t). on_break t) (rg_tables r))) r"
    using Some_eq_map_pick [OF sorted] by (fastforce simp: in_tournament_def on_break_def split: option.splits)
  from advance_breaks_runs [OF assms this] show ?thesis
    unfolding advance_tournament_breaks_def runs_then by (rule runs_mono) (auto simp: runs_simps)
qed

end
