(* ===== verification/Registry_Runs.thy ===== *)
theory Registry_Runs
  imports Registry_Total_Hands
begin

text \<open>Removing tables, the reads, the health report and a restart return and keep the tables staffed.\<close>

subsection \<open>Removing tables\<close>

lemma close_and_remove_runs:
  assumes "alive r"
  shows "runs (\<lambda>res. staffed_all) (close_and_remove i r)"
  using aliveD(2) [OF assms]
  by (auto simp: close_and_remove_def runs_simps staffed_all_def bt_get_remove split: sum.split)

lemma expire_inactive_alive: "alive r \<Longrightarrow> alive (snd (expire_inactive_at now idle r))"
  using expire_inactive_ok [of r now idle]
  by (auto simp: alive_def expire_inactive_at_def Let_def staffed_all_def bt_get_fold_remove)

lemma take_retired_alive: "alive r \<Longrightarrow> alive (snd (take_retired_update session r))"
  by (simp add: take_retired_update_def alive_def staffed_all_def)

subsection \<open>Reads\<close>

text \<open>A method that only reads.\<close>

lemma table_summary_expect: "alive r \<Longrightarrow> bt_get (rg_tables r) i = Some t \<Longrightarrow> \<exists>s. table_summary t i = Some s"
  using table_summary_returns alive_table(1) by blast

lemma join_status_runs:
  assumes "alive r"
  shows "runs (\<lambda>res r'. r' = r) (join_status session r)"
  using table_summary_expect [OF assms] by (auto simp: join_status_def runs_simps)

lemma waiting_position_bound: "session \<in> we_session ` set q \<Longrightarrow> \<exists>n. waiting_position session q = Some n \<and> n < length q"
  by (induction q) auto

lemma admission_status_runs:
  assumes "alive r"
  shows "runs (\<lambda>res r'. r' = r) (admission_status session r)"
proof -
  have "\<exists>n. waiting_position session (gt_waiting t) = Some n \<and> n < 255"
    if w: "bt_get (rg_waiting_sessions r) session = Some i" "bt_get (rg_tables r) i = Some t" for i t
  proof -
    have "session \<in> we_session ` set (gt_waiting t)"
      using registry_okD(4) [OF aliveD(1) [OF assms]] w unfolding waits_ok_def by blast
    moreover have "length (gt_waiting t) \<le> 64"
      using alive_table(1) [OF assms w(2)] by (simp add: table_sound_def MAX_TABLE_WAITING_ENTRIES_def)
    ultimately show ?thesis using waiting_position_bound by fastforce
  qed
  then show ?thesis
    using join_status_runs [OF assms] table_summary_expect [OF assms]
    by (fastforce simp: admission_status_def runs_simps u8_try_from_def elim!: runs_mono)
qed

lemma hand_id_there: "alive r \<Longrightarrow> bt_get (rg_tables r) i = Some t \<Longrightarrow> gt_runtime t \<noteq> None \<Longrightarrow> \<exists>h. gt_hand_id t = Some h"
  using alive_table(1) by (fastforce simp: table_sound_def)

lemma registry_route_runs:
  assumes "alive r"
  shows "runs (\<lambda>res r'. r' = r) (registry_route session i r)"
  using hand_id_there [OF assms] by (auto simp: registry_route_def runs_simps)

lemma route_for_session_runs: "alive r \<Longrightarrow> runs (\<lambda>res r'. r' = r) (route_for_session session r)"
  using registry_route_runs by (simp add: route_for_session_def runs_simps)

lemma inspect_runs: "alive r \<Longrightarrow> runs (\<lambda>res r'. r' = r) (inspect_with_access sv i code r)"
  using table_summary_expect by (auto simp: inspect_with_access_def runs_simps Let_def)

lemma registry_list_returns:
  assumes "alive r"
  shows "\<exists>tables. registry_list f r = Some tables"
proof -
  have there: "bt_get (rg_tables r) i = Some t" if "(i, t) \<in> set (rg_tables r)" for i t
    using bt.get_iff_entry [of "rg_tables r"] registry_okD(1) [OF aliveD(1) [OF assms]] that by (simp add: tables_ok_def)
  define tables where "tables = filter (\<lambda>(i, t). pc_visibility (gt_config t) \<in> {VisPublic, VisPasswordProtected}) (rg_tables r)"
  have "\<exists>summary. (\<lambda>(i, t). table_summary t i) e = Some summary" if "e \<in> set tables" for e
    using table_summary_expect [OF assms there] that by (auto simp: tables_def)
  then have "map_m (\<lambda>(i, t). table_summary t i) tables = Some (map (\<lambda>e. the ((\<lambda>(i, t). table_summary t i) e)) tables)"
    by (intro map_m_total) fastforce
  then show ?thesis by (auto simp: registry_list_def tables_def)
qed

subsection \<open>The health report\<close>

lemma registry_health_runs:
  assumes "alive r"
  shows "runs (\<lambda>res. staffed_all) (registry_health now r)"
proof -
  have loop: "alive r \<Longrightarrow> unvisited rest r \<Longrightarrow> runs (\<lambda>res. staffed_all) (health_tables now rest r)" for rest r
  proof (induction rest arbitrary: r)
    case (Cons p rest)
    obtain i t where p: "p = (i, t)" by (cases p)
    have get: "bt_get (rg_tables r) i = Some t" using Cons.prems(2) by (simp add: p unvisited_def)
    note table = alive_table [OF Cons.prems(1) get]
    have live: "alive (put_table i (snd (table_metrics now t)) r)"
    proof (cases "gt_runtime t")
      case None
      have "registry_ok (put_table i t r)" by (rule put_table_ok [OF aliveD(1) [OF Cons.prems(1)] get]) (use table(1) in simp_all)
      then show ?thesis
        using staffed_put_table [OF aliveD(2) [OF Cons.prems(1)] table(2)] None by (simp add: table_metrics_def alive_def)
    next
      case (Some w)
      obtain st where st: "w = Some st" "busy st" by (rule staffed_worker [OF table(2) Some])
      obtain m st1 where "handle_metrics now (Some st) = (m, Some st1)" "follows st st1"
        using handle_calls_run(5) [OF st(2)] by blast
      then show ?thesis using worker_put [OF Cons.prems(1) get, of st st1] Some st(1) by (simp add: table_metrics_def)
    qed
    have "runs (\<lambda>res. staffed_all) (health_tables now rest (put_table i (snd (table_metrics now t)) r))"
      by (rule Cons.IH [OF live]) (use unvisited_put Cons.prems(2) in \<open>simp add: p\<close>)
    then show ?case
      using table_summary_expect [OF Cons.prems(1) get] live
      by (auto simp: p runs_simps Let_def alive_def elim!: runs_mono)
  qed (simp add: runs_simps alive_def)
  show ?thesis
    unfolding registry_health_def runs_then
    by (rule runs_mono [OF loop [OF assms unvisited_all [OF aliveD(1) [OF assms]]]]) (auto simp: runs_simps)
qed

subsection \<open>A restart\<close>

lemma start_restored_runs:
  "alive r \<Longrightarrow> fair_services sv \<Longrightarrow> (\<forall>i\<in>set ids. bt_get (rg_tables r) i \<noteq> None)
   \<Longrightarrow> runs (\<lambda>res. staffed_all) (start_restored_tables sv now ids r)"
proof (induction ids arbitrary: r)
  case (Cons i ids)
  obtain t where t: "bt_get (rg_tables r) i = Some t" using Cons.prems(3) by auto
  note table = alive_table [OF Cons.prems(1) t]
  have l: "roster_ok (gt_lifecycle t)" "house_ok (gt_lifecycle t)" "\<forall>c. gt_tournament t = Some c \<longrightarrow> tour_ok c"
      "pc_seats (gt_config t) = lc_table_size (gt_lifecycle t)"
    using table by (simp_all add: table_sound_def staffed_def)
  let ?next = "\<lambda>l following w. (put_table i (t\<lparr>gt_lifecycle := l, gt_hand_id := Some (rg_next_hand_id r), gt_runtime := Some w\<rparr>) r)\<lparr>rg_next_hand_id := following\<rparr>"
  obtain res where p: "prepare_hand sv now True i (rg_next_hand_id r) (pc_seats (gt_config t))
        (successor_seed (gt_deterministic_seed t)) (gt_tournament t) (gt_seat_sessions t) (gt_lifecycle t) = Some res"
      "\<forall>l' following w. res = Inr (l', following, w) \<longrightarrow> house_ok l' \<and> serves i (Some (rg_next_hand_id r)) l' w"
    using prepare_hand_runs [OF Cons.prems(2) l, of now True i "rg_next_hand_id r"] by blast
  have step: "runs (\<lambda>res. staffed_all) (start_restored_tables sv now ids (?next l' following w))"
    if res: "res = Inr (l', following, w)" for l' following w
  proof (rule Cons.IH)
    have prepared: "prepare_hand sv now True i (rg_next_hand_id r) (pc_seats (gt_config t))
        (successor_seed (gt_deterministic_seed t)) (gt_tournament t) (gt_seat_sessions t) (gt_lifecycle t) = Some (Inr (l', following, w))"
      using p(1) res by simp
    have "registry_ok (?next l' following w)"
      by (rule begun_ok [OF aliveD(1) [OF Cons.prems(1)] t prepared, of _ "gt_last_activity t"]) simp
    moreover have "staffed i (t\<lparr>gt_lifecycle := l', gt_hand_id := Some (rg_next_hand_id r), gt_runtime := Some w\<rparr>)"
      using p(2) res table(2) by (simp add: staffed_def)
    then have "staffed_all (?next l' following w)"
      using staffed_put [OF aliveD(2) [OF Cons.prems(1)]] by simp
    ultimately show "alive (?next l' following w)" by (simp add: alive_def)
    show "\<forall>j\<in>set ids. bt_get (rg_tables (?next l' following w)) j \<noteq> None" using Cons.prems(3) by (simp add: bt_get_insert)
  qed (rule Cons.prems(2))
  have skip: "runs (\<lambda>res. staffed_all) (start_restored_tables sv now ids r)"
    by (rule Cons.IH) (use Cons.prems in simp_all)
  show ?case
    using aliveD(2) [OF Cons.prems(1)] step skip
    by (auto simp: runs_simps t p(1) simp del: split_paired_Ex)
qed (simp add: runs_simps alive_def)

lemma restore_payload_staffed:
  assumes "restore_payload now wall p = Inr r"
    and "\<forall>k\<in>set (kp_tables p). \<forall>b\<in>set (bh_seats (kt_lifecycle k)). bs_participation b = Active \<and> bs_blind_obligation b \<in> {Clear, OwesBigBlind}"
  shows "staffed_all r"
proof -
  obtain tables tables' sessions where f: "restore_tables now (kp_next_table_id p) (kp_tables p) [] = Inr tables"
    "restore_sessions (kp_next_player_id p) (kp_sessions p) tables [] = Inr (tables', sessions)" "rg_tables r = tables'"
    using assms(1) by (auto simp: restore_payload_def split: if_splits sum.splits prod.splits)
  note t = restore_tables_result [OF f(1) bt_sorted_Nil]
  note u = restore_sessions_result [OF f(2) _ bt_sorted_Nil]
  have "staffed i w" if w: "bt_get tables' i = Some w" for i w
  proof -
    obtain x where x: "bt_get tables i = Some x" "same_but_bindings x w" using u t w by blast
    obtain k where k: "k \<in> set (kp_tables p)" "restored_from k x" using t x(1) by fastforce
    have "house_ok (gt_lifecycle x)"
      by (rule restore_house_ok [where c = "kt_lifecycle k"]) (use k assms(2) in \<open>simp_all add: restored_from_def\<close>)
    moreover obtain b where "w = x\<lparr>gt_seat_sessions := b\<rparr>" using x(2) by (auto simp: same_but_bindings_def)
    ultimately show ?thesis using k(2) by (simp add: staffed_def restored_from_def)
  qed
  then show ?thesis by (simp add: staffed_all_def f(3))
qed

text \<open>
  A restart from the registry's own checkpoint returns, and it leaves the registry as staffed as it was.
\<close>

lemma load_own_checkpoint_runs:
  assumes "alive r" "checkpoint_payload r = Inr (kv_payload envelope)" "fair_services sv"
  shows "\<exists>res. load_checkpoint sv to_vec now wall envelope = Some res \<and> (\<forall>r'. res = Inr r' \<longrightarrow> alive r')"
proof -
  let ?p = "kv_payload envelope"
  note tables = checkpoint_payload_fields [OF assms(2)]
  have sorted: "bt_sorted (rg_tables r)" using registry_okD(1) [OF aliveD(1) [OF assms(1)]] by (simp add: tables_ok_def)
  have houses: "\<forall>b\<in>set (bh_seats (kt_lifecycle k)). bs_participation b = Active \<and> bs_blind_obligation b \<in> {Clear, OwesBigBlind}"
    if "k \<in> set (kp_tables ?p)" for k
  proof -
    have "Inr k \<in> set (map checkpoint_of_table (rg_tables r))" using tables that by simp
    then obtain i t where t: "(i, t) \<in> set (rg_tables r)" "checkpoint_of_table (i, t) = Inr k" by auto
    have "house_ok (gt_durable_lifecycle t)"
      using alive_table(2) [OF assms(1)] t(1) Some_eq_map_pick [OF sorted] by (auto simp: staffed_def)
    moreover have "between_hand_checkpoint (gt_durable_lifecycle t) = Inr (kt_lifecycle k)"
      using t(2) by (auto simp: checkpoint_of_table_def map_sum_def split: sum.splits)
    ultimately show ?thesis by (rule checkpoint_house)
  qed
  show ?thesis
  proof (cases "restore_payload now wall ?p")
    case (Inl e)
    then show ?thesis by (simp add: load_checkpoint_def)
  next
    case (Inr r1)
    have ok: "registry_ok r1"
      by (rule own_payload_ok [OF aliveD(1) [OF assms(1)] assms(2) Inr])
    have "alive r1" using ok restore_payload_staffed [OF Inr] houses by (simp add: alive_def)
    moreover have "\<forall>i\<in>set (map fst (rg_tables r1)). bt_get (rg_tables r1) i \<noteq> None"
      using registry_okD(1) [OF ok] Some_eq_map_pick [of "rg_tables r1"] by (fastforce simp: tables_ok_def)
    ultimately have "runs (\<lambda>res. alive) (start_restored_hands sv now r1)"
      unfolding start_restored_hands_def
      by (intro runs_alive start_restored_ok ok start_restored_runs assms(3))
    then obtain res r2 where "start_restored_hands sv now r1 = Some (res, r2)" "alive r2" by (auto simp: runs_def)
    then show ?thesis using Inr by (auto simp: load_checkpoint_def split: sum.split)
  qed
qed

subsection \<open>Runs of the registry\<close>

text \<open>Everything that can happen to the registry, and what holds after any sequence of it.\<close>

subsection \<open>Operations\<close>

text \<open>
  A call of one of the methods of \<open>TableRegistry\<close> that change it, with the values that the caller and the
  environment supply, or a message to the worker of one table. The lobby keeps the registry behind one mutex, so its
  calls follow each other.
\<close>

datatype registry_op =
    OpCreate string public_table_config "u64 option"
  | OpCreateTournament string tournament_config "u64 option"
  | OpJoin guest_session_id table_id "seat_id option"
  | OpJoinOrWait guest_session_id table_id "seat_id option" "string option"
  | OpCancelWait guest_session_id table_id
  | OpCancelPending guest_session_id
  | OpRequestLeave guest_session_id
  | OpRollover table_id hand_id
  | OpFinalizeHistory table_id hand_id
  | OpFinalizeReady
  | OpAdvanceBreaks
  | OpClose table_id
  | OpExpire nat
  | OpHealth
  | OpIssueToken "string list" nat guest_session_id
  | OpRotateToken "string list" nat bearer_token
  | OpIdentify nat bearer_token
  | OpSetTtl nat
  | OpTakeRetired guest_session_id
  | OpWorker table_id table_input

abbreviation after :: "'a registry_result \<Rightarrow> registry option" where
  "after \<equiv> map_option snd"

text \<open>A message reaches the worker through the handle that a client got with its route.\<close>

definition worker_step :: "table_id \<Rightarrow> table_input \<Rightarrow> registry \<Rightarrow> registry option" where
  "worker_step i input r = (case bt_get (rg_tables r) i of
     None \<Rightarrow> Some r
   | Some t \<Rightarrow> (case gt_runtime t of
       Some (Some st) \<Rightarrow> map_option (\<lambda>st'. put_table i (t\<lparr>gt_runtime := Some (Some st')\<rparr>) r) (input_step input st)
     | _ \<Rightarrow> Some r))"

fun registry_step :: "'g services \<Rightarrow> nat \<Rightarrow> registry_op \<Rightarrow> registry \<Rightarrow> registry option" where
  "registry_step sv now (OpCreate salt config seed) r = after (registry_create sv salt now config seed r)"
| "registry_step sv now (OpCreateTournament salt config seed) r = after (create_tournament sv salt now config seed r)"
| "registry_step sv now (OpJoin session i seat) r = after (registry_join sv now session i seat r)"
| "registry_step sv now (OpJoinOrWait session i seat code) r = after (join_or_wait_with_access sv now session i seat code r)"
| "registry_step sv now (OpCancelWait session i) r = after (cancel_wait now session i r)"
| "registry_step sv now (OpCancelPending session) r = cancel_pending_registration now session r"
| "registry_step sv now (OpRequestLeave session) r = after (registry_request_leave now session r)"
| "registry_step sv now (OpRollover i h) r = after (rollover_completed_hand sv now i h r)"
| "registry_step sv now (OpFinalizeHistory i h) r = after (finalize_safe_history now i h r)"
| "registry_step sv now OpFinalizeReady r = after (finalize_ready_hands sv now r)"
| "registry_step sv now OpAdvanceBreaks r = after (advance_tournament_breaks sv now r)"
| "registry_step sv now (OpClose i) r = after (close_and_remove i r)"
| "registry_step sv now (OpExpire idle) r = Some (snd (expire_inactive_at now idle r))"
| "registry_step sv now OpHealth r = after (registry_health now r)"
| "registry_step sv now (OpIssueToken drawn wall session) r = after (issue_reconnect_credential sv drawn wall session r)"
| "registry_step sv now (OpRotateToken drawn wall token) r = after (authenticate_and_rotate_reconnect sv drawn wall token r)"
| "registry_step sv now (OpIdentify wall token) r = after (identify_reconnect sv wall token r)"
| "registry_step sv now (OpSetTtl ttl) r = after (set_reconnect_ttl ttl r)"
| "registry_step sv now (OpTakeRetired session) r = Some (snd (take_retired_update session r))"
| "registry_step sv now (OpWorker i input) r = worker_step i input r"

text \<open>
  What the types of the arguments and the environment grant: a table size and the shares of a payout come from their
  validating constructors, the salt of a table has the length that Argon2 wants, and the random source yields a token
  that is not in use. Nothing asks a worker to shut down, and a session that waits joins through \<open>join_or_wait\<close>, as
  the server does: \<open>join\<close> itself does not look at the waiting sessions.
\<close>

fun valid_op :: "'g services \<Rightarrow> registry_op \<Rightarrow> registry \<Rightarrow> bool" where
  "valid_op sv (OpCreate salt config seed) r \<longleftrightarrow> valid_size (pc_seats config) \<and> hashes sv salt"
| "valid_op sv (OpCreateTournament salt config seed) r \<longleftrightarrow>
     sum_list (pp_shares_bps (tc_payout config)) = PAYOUT_BASIS_POINTS \<and> hashes sv salt"
| "valid_op sv (OpJoin session i seat) r \<longleftrightarrow> bt_get (rg_waiting_sessions r) session = None"
| "valid_op sv (OpIssueToken drawn wall session) r \<longleftrightarrow> draws_token sv drawn (rg_credentials r)"
| "valid_op sv (OpRotateToken drawn wall token) r \<longleftrightarrow> draws_token sv drawn (rg_credentials r)"
| "valid_op sv (OpWorker i input) r \<longleftrightarrow> \<not> shuts_down input"
| "valid_op sv _ r \<longleftrightarrow> True"

text \<open>A registry that the program can come to, over any number of restarts from its own checkpoints.\<close>

inductive registry_reachable :: "'g services \<Rightarrow> registry \<Rightarrow> bool" for sv where
  fresh: "registry_new capacity = Inr r \<Longrightarrow> registry_reachable sv r"
| operate: "registry_reachable sv r \<Longrightarrow> valid_op sv op r \<Longrightarrow> registry_step sv now op r = Some r' \<Longrightarrow> registry_reachable sv r'"
| restart: "registry_reachable sv r \<Longrightarrow> checkpoint_payload r = Inr (kv_payload envelope)
    \<Longrightarrow> load_checkpoint sv to_vec now wall envelope = Some (Inr r') \<Longrightarrow> registry_reachable sv r'"

subsection \<open>Every operation returns\<close>

lemma runs_after: "runs (\<lambda>res. alive) m \<Longrightarrow> \<exists>r'. after m = Some r' \<and> alive r'"
  by (auto simp: runs_def)

lemmas alive_runs = registry_join_runs join_or_wait_runs cancel_wait_runs registry_request_leave_runs rollover_runs
  finalize_safe_history_runs finalize_ready_hands_runs advance_tournament_breaks_runs close_and_remove_runs
  registry_health_runs reconnect_runs

lemmas alive_leaves = registry_join_ok join_or_wait_ok cancel_wait_ok registry_request_leave_ok rollover_completed_hand_ok
  finalize_safe_history_ok finalize_ready_hands_ok advance_tournament_breaks_ok close_and_remove_ok registry_health_ok reconnect_ok

lemma registry_create_alive:
  assumes "alive r" "valid_size (pc_seats config)" "hashes sv salt"
  shows "runs (\<lambda>res. alive) (registry_create sv salt now config seed r)"
  by (rule runs_mono [OF runs_leaves [OF registry_create_runs [OF assms] registry_create_ok [OF aliveD(1) [OF assms(1)] assms(2)]]])
    (simp add: alive_def)

lemma cancel_pending_alive:
  assumes "alive r"
  shows "\<exists>r'. cancel_pending_registration now session r = Some r' \<and> alive r'"
  using assms runs_after [OF runs_alive [OF cancel_wait_ok cancel_wait_runs], OF aliveD(1) [OF assms] assms]
  by (auto simp: cancel_pending_registration_def split: option.split)

lemma worker_step_alive:
  assumes "alive r" "\<not> shuts_down input"
  shows "\<exists>r'. worker_step i input r = Some r' \<and> alive r'"
proof (cases "bt_get (rg_tables r) i")
  case (Some t)
  show ?thesis
  proof (cases "gt_runtime t")
    case (Some w)
    obtain st where st: "w = Some st" "busy st" by (rule staffed_worker [OF alive_table(2) [OF assms(1) \<open>bt_get (rg_tables r) i = Some t\<close>] Some])
    obtain st' where st': "input_step input st = Some st'" "follows st st'"
      using input_follows [OF _ _ assms(2)] st(2) unfolding busy_def by blast
    have "alive (put_table i (t\<lparr>gt_runtime := Some (Some st')\<rparr>) r)"
      by (rule worker_put [OF assms(1) \<open>bt_get (rg_tables r) i = Some t\<close> _ st'(2)]) (simp add: Some st(1))
    then show ?thesis using \<open>bt_get (rg_tables r) i = Some t\<close> Some st(1) st'(1) by (simp add: worker_step_def)
  qed (use assms \<open>bt_get (rg_tables r) i = Some t\<close> in \<open>simp add: worker_step_def\<close>)
qed (use assms in \<open>simp add: worker_step_def\<close>)

theorem registry_step_alive:
  assumes "alive r" "fair_services sv" "valid_op sv op r"
  shows "\<exists>r'. registry_step sv now op r = Some r' \<and> alive r'"
  using assms(3)
proof (cases op)
  case (OpCreate salt config seed)
  then show ?thesis using runs_after [OF registry_create_alive [OF assms(1), of config sv salt now seed]] assms(3) by (simp del: map_option_eq_Some)
next
  case (OpCreateTournament salt config seed)
  then show ?thesis
    using assms(1,3) aliveD(1) [OF assms(1)]
    by (auto intro!: runs_after runs_alive create_tournament_ok create_tournament_runs simp del: map_option_eq_Some)
qed (use assms aliveD(1) [OF assms(1)] in \<open>auto intro!: runs_after runs_alive alive_leaves alive_runs
      simp: cancel_pending_alive worker_step_alive expire_inactive_alive take_retired_alive simp del: map_option_eq_Some\<close>)

lemma registry_new_alive: "registry_new capacity = Inr r \<Longrightarrow> alive r"
  by (auto simp: alive_def registry_new_def staffed_all_def registry_ok_def tables_ok_def hands_ok_def routes_ok_def waits_ok_def
      MAX_TABLE_REGISTRY_CAPACITY_def split: if_splits sum.splits)

theorem reachable_alive:
  assumes "registry_reachable sv r" "fair_services sv"
  shows "alive r"
  using assms(1)
proof induction
  case (operate r op now r')
  then show ?case using registry_step_alive [OF operate.IH assms(2), of op now] by auto
next
  case (restart r envelope to_vec now wall r')
  then show ?case using load_own_checkpoint_runs [OF restart.IH _ assms(2), of envelope to_vec now wall] by auto
qed (rule registry_new_alive)

end
