(* ===== verification/Registry_Samples.thy ===== *)
theory Registry_Samples
  imports Registry_Runs "HOL-Library.Code_Target_Nat"
begin

text \<open>A lobby with a cash table of two seats: the concrete registries of the witnesses.\<close>

subsection \<open>Services\<close>

text \<open>
  A shuffle that keeps the cards where they are, and hash functions that only mark their inputs: whatever the
  environment supplies is a parameter, and these are the least of it.
\<close>

definition sample_services :: "unit services" where
  "sample_services = \<lparr>sv_shuffle = (\<lambda>g cs. (cs, g)), sv_production = (\<lambda>_. ()), sv_seeded = (\<lambda>_. ()),
     sv_sha256 = (\<lambda>bytes. CHR ''h'' # bytes), sv_argon2 = (\<lambda>password salt. Some (salt @ password))\<rparr>"

lemma sample_fair [simp]: "fair_services sample_services"
  by (simp add: fair_services_def sample_services_def)

lemma sample_hashes [simp]: "hashes sample_services salt"
  by (simp add: hashes_def sample_services_def)

subsection \<open>Operations one after the other\<close>

definition registry_steps :: "'g services \<Rightarrow> nat \<Rightarrow> registry_op list \<Rightarrow> registry \<Rightarrow> registry option" where
  "registry_steps sv now ops r = for_m (registry_step sv now) ops r"

definition table_config :: "string \<Rightarrow> u32 \<Rightarrow> public_table_config" where
  "table_config name stack = \<lparr>pc_name = name, pc_seats = 2, pc_starting_stack = stack, pc_min_players = 2,
     pc_visibility = VisPublic, pc_join_code = None\<rparr>"

definition empty_lobby :: registry where
  "empty_lobby = (case registry_new 4 of Inr r \<Rightarrow> r)"

text \<open>Two players sit down and a hand starts; a third one waits.\<close>

definition first_calls :: "registry_op list" where
  "first_calls = [OpCreate ''salt'' (table_config ''Oak'' 200) (Some 7), OpJoinOrWait ''ann'' 1 None None,
     OpJoinOrWait ''bob'' 1 None None, OpJoinOrWait ''eve'' 1 None None]"

definition sample_lobby :: registry where
  "sample_lobby = the (registry_steps sample_services 5 first_calls empty_lobby)"

lemma registry_steps_reachable:
  assumes "registry_reachable sv r" "fair_services sv" "\<And>op s. op \<in> set ops \<Longrightarrow> valid_op sv op s"
  shows "\<exists>r'. registry_steps sv now ops r = Some r' \<and> registry_reachable sv r'"
  using assms(1,3)
proof (induction ops arbitrary: r)
  case (Cons op ops)
  obtain r1 where r1: "registry_step sv now op r = Some r1"
    using registry_step_alive [OF reachable_alive [OF Cons.prems(1) assms(2)] assms(2), of op now] Cons.prems(2) by auto
  have "registry_reachable sv r1" by (rule registry_reachable.operate [OF Cons.prems(1) _ r1]) (simp add: Cons.prems(2))
  from Cons.IH [OF this] Cons.prems(2) show ?case by (auto simp: registry_steps_def r1)
qed (simp add: registry_steps_def)

lemma empty_lobby_reachable: "registry_reachable sample_services empty_lobby"
  by (rule registry_reachable.fresh [of 4])
    (simp add: empty_lobby_def registry_new_def vault_new_def MAX_TABLE_REGISTRY_CAPACITY_def DEFAULT_CREDENTIAL_CAPACITY_def
      MAX_CREDENTIAL_CAPACITY_def)

lemma sample_lobby_run:
  "registry_steps sample_services 5 first_calls empty_lobby = Some sample_lobby" "registry_reachable sample_services sample_lobby"
proof -
  have "valid_op sample_services op s" if "op \<in> set first_calls" for op s
    using that by (auto simp: first_calls_def table_config_def valid_size_def MIN_TABLE_SEATS_def MAX_TABLE_SEATS_def)
  then obtain r where "registry_steps sample_services 5 first_calls empty_lobby = Some r" "registry_reachable sample_services r"
    using registry_steps_reachable [OF empty_lobby_reachable sample_fair] by blast
  then show "registry_steps sample_services 5 first_calls empty_lobby = Some sample_lobby" "registry_reachable sample_services sample_lobby"
    by (simp_all add: sample_lobby_def)
qed

text \<open>The lobby after the four calls.\<close>

definition seating :: "registry \<Rightarrow> (guest_session_id \<times> table_id \<times> player_id \<times> seat_id) list \<times> (guest_session_id \<times> table_id) list
    \<times> (table_id \<times> hand_id option \<times> bool) list" where
  "seating r = (map (\<lambda>(s, route). (s, ro_table_id route, ro_player route, ro_seat route)) (rg_sessions r),
     rg_waiting_sessions r, map (\<lambda>(i, t). (i, gt_hand_id t, gt_runtime t \<noteq> None)) (rg_tables r))"

lemma sample_lobby_seating:
  "seating sample_lobby = ([(''ann'', 1, 1, 0), (''bob'', 1, 2, 1)], [(''eve'', 1)], [(1, Some 1, True)])"
proof -
  have "map_option seating (registry_steps sample_services 5 first_calls empty_lobby)
      = Some ([(''ann'', 1, 1, 0), (''bob'', 1, 2, 1)], [(''eve'', 1)], [(1, Some 1, True)])" by code_simp
  then show ?thesis by (simp add: sample_lobby_run(1))
qed

lemma sample_lobby_maps:
  "bt_get (rg_sessions sample_lobby) ''ann'' = Some \<lparr>ro_table_id = 1, ro_player = 1, ro_seat = 0\<rparr>"
  "bt_get (rg_waiting_sessions sample_lobby) ''eve'' = Some 1"
  "\<exists>t w. bt_get (rg_tables sample_lobby) 1 = Some t \<and> gt_hand_id t = Some 1 \<and> gt_runtime t = Some w"
proof -
  obtain a b t where r: "rg_sessions sample_lobby = [(''ann'', a), (''bob'', b)]" "rg_waiting_sessions sample_lobby = [(''eve'', 1)]"
      "rg_tables sample_lobby = [(1, t)]" "ro_table_id a = 1" "ro_player a = 1" "ro_seat a = 0" "gt_hand_id t = Some 1" "gt_runtime t \<noteq> None"
    using sample_lobby_seating by (fastforce simp: seating_def map_eq_Cons_conv)
  show "bt_get (rg_sessions sample_lobby) ''ann'' = Some \<lparr>ro_table_id = 1, ro_player = 1, ro_seat = 0\<rparr>"
    using r by (cases a) (simp add: bt_get_def)
  show "bt_get (rg_waiting_sessions sample_lobby) ''eve'' = Some 1"
    "\<exists>t w. bt_get (rg_tables sample_lobby) 1 = Some t \<and> gt_hand_id t = Some 1 \<and> gt_runtime t = Some w"
    using r by (simp_all add: bt_get_def)
qed

end
