(* ===== verification/Registry_Queue.thy ===== *)
theory Registry_Queue
  imports Registry_Samples
begin

text \<open>A hand starts only when the seat of every bound session is dealt in.\<close>

lemma bind_needs_seat:
  assumes "busy st" "handle_bind now session i hand (RolePlayer s) (Some st) = (Inr (), w)"
  shows "s \<in> set (occupied_seats (table_hand st))"
proof -
  have st: "runtime_ok st" "rt_hand_id st < u64_bound" using assms(1) by (simp_all add: busy_def)
  obtain st1 where p: "progress_showdown now st = (Inr (), st1)" "stays st st1 \<or> shows_down st now st1"
    using progress_showdown_moves [OF st(1)] by blast
  have follows: "follows st st1" using p(2) stays_follows [OF st(1)] shows_down_follows [OF st(1)] by blast
  have alive: "runtime_ok st1" using follows by (simp add: follows_def)
  have same: "occupied_seats (table_hand st1) = occupied_seats (table_hand st)"
    using follows by (simp add: follows_def same_game_def)
  have "\<exists>st2. runtime_bind session i hand (RolePlayer s) st1 = (Inr (), st2)"
    using assms(2) p(1)
    by (auto simp: handle_bind_def handle_unit_def handle_request_def runtime_turn_def runtime_answer_def map_prod_def
        split: prod.splits sum.splits)
  then have "\<exists>sn st2. table_snapshot (AudiencePlayer s) (authorized_error UnauthorizedSeat ''player seat is not available in this hand'') st1
      = (Inr sn, st2)"
    by (auto simp: runtime_bind_def authorization_error_def and_then_def Let_def split: if_splits prod.splits sum.splits)
  then obtain sn st2 where sn: "table_snapshot (AudiencePlayer s)
      (authorized_error UnauthorizedSeat ''player seat is not available in this hand'') st1 = (Inr sn, st2)" by blast
  have "admits (AudiencePlayer s) (table_hand st1)"
  proof (rule ccontr)
    assume "\<not> admits (AudiencePlayer s) (table_hand st1)"
    then obtain w where "table_snapshot (AudiencePlayer s)
        (authorized_error UnauthorizedSeat ''player seat is not available in this hand'') st1
        = (Inl (authorized_error UnauthorizedSeat ''player seat is not available in this hand''), st1\<lparr>rt_table := w\<rparr>)"
      using table_snapshot_refuses [of st1 "AudiencePlayer s"
        "authorized_error UnauthorizedSeat ''player seat is not available in this hand''"] alive
      unfolding runtime_ok_def by blast
    then show False using sn by simp
  qed
  then show ?thesis using same by simp
qed

lemma bind_sessions_need_seats:
  assumes "busy st" "bind_sessions now i hand restored sessions (Some st) = (Inr (), w)" "(s, session) \<in> set sessions"
  shows "s \<in> set (occupied_seats (table_hand st))"
  using assms
proof (induction sessions arbitrary: st)
  case (Cons e sessions)
  obtain s0 session0 where e: "e = (s0, session0)" by (cases e)
  obtain res st1 where b: "handle_bind now session0 i hand (RolePlayer s0) (Some st) = (res, Some st1)" "follows st st1"
    using handle_calls_run(1) [OF Cons.prems(1)] by blast
  have busy1: "busy st1" by (rule busy_follows [OF Cons.prems(1) b(2)])
  obtain res2 st2 where d: "handle_disconnect now session0 (Some st1) = (res2, Some st2)" "follows st1 st2"
    using handle_calls_run(2) [OF busy1] by blast
  have ok: "res = Inr ()" using Cons.prems(2) b(1) by (cases res) (simp_all add: e)
  show ?case
  proof (cases "(s, session) = e")
    case True
    then show ?thesis using bind_needs_seat [OF Cons.prems(1)] b(1) ok by (auto simp: e)
  next
    case False
    then have rest: "(s, session) \<in> set sessions" using Cons.prems(3) by simp
    show ?thesis
    proof (cases restored)
      case True
      have "bind_sessions now i hand restored sessions (Some st2) = (Inr (), w)"
        using Cons.prems(2) b(1) d(1) ok True by (cases res2) (simp_all add: e)
      from Cons.IH [OF busy_follows [OF busy1 d(2)] this rest] show ?thesis
        using b(2) d(2) by (simp add: follows_def same_game_def)
    next
      case False
      then have "bind_sessions now i hand restored sessions (Some st1) = (Inr (), w)"
        using Cons.prems(2) b(1) ok by (simp add: e)
      from Cons.IH [OF busy1 this rest] show ?thesis using b(2) by (simp add: follows_def same_game_def)
    qed
  qed
qed simp

text \<open>The hand that a table begins is dealt to the seats with chips alone.\<close>

lemma prepared_seats:
  assumes "fair_services sv" "roster_ok l" "house_ok l" "\<forall>c. tournament = Some c \<longrightarrow> tour_ok c" "n = lc_table_size l"
    and "prepare_hand sv now restored i hand n seed tournament sessions l = Some (Inr (l', following, w))"
    and "(s, session) \<in> set sessions"
  shows "\<exists>st. table_seat (lc_seats l) s = Some st \<and> eligible_for_next_hand st"
proof -
  obtain start l1 dealt where b: "begin_hand l = Some (Inr start, l1)" "deal_hand sv hand start n (seed start) tournament = Some (Inr dealt)"
      "bind_sessions now i hand restored sessions (Some (runtime_spawn (authority_new_paced i hand dealt))) = (Inr (), w)"
      "u64_checked_add hand 1 = Some following"
    using assms(6) by (auto simp: prepare_hand_def Let_def split: bind_splits sum.splits option.splits prod.splits)
  have roster: "roster_ok l1" using begin_hand_ok [OF assms(2)] b(1) by auto
  have house: "house_ok l1" "hs_stacks start = dealable_stacks l" "lc_active_hand l1 = Some start"
    using begin_hand_house_ok [OF assms(2,3) b(1)] by blast+
  have size: "n = lc_table_size l1" using begin_hand_house [OF b(1)] assms(5) by simp
  have plays: "plays_from start (enable_paced_showdown dealt)"
    using deal_hand_returns [OF assms(1) roster house(1,3) assms(4), of hand "seed start"] b(2) size by auto
  let ?st = "runtime_spawn (authority_new_paced i hand dealt)"
  have "hand_ok (enable_paced_showdown dealt)" using plays by (simp add: plays_from_def)
  note spawn = runtime_spawn_ok [OF this, of i hand]
  have st: "busy ?st" "plays_from start (table_hand ?st)"
    using spawn b(4) plays
    by (auto simp: busy_def authority_new_paced_def authority_new_def runtime_ok_def table_alive_def u64_checked_add_def
        split: if_splits)
  have "s \<in> set (hand_seats start)" using bind_sessions_need_seats [OF st(1) b(3) assms(7)] st(2) by (simp add: plays_from_def)
  then show ?thesis using house(2) by (auto simp: hand_seats_def dealable_stacks_def)
qed

subsection \<open>The queue\<close>

text \<open>The queue of a table and what a checkpoint of the registry restores.\<close>

subsection \<open>Admission from the queue\<close>

definition sits :: "table_lifecycle \<Rightarrow> seat_id \<Rightarrow> player_id \<Rightarrow> u32 \<Rightarrow> bool" where
  "sits l s player stack \<longleftrightarrow> (\<exists>st. table_seat (lc_seats l) s = Some st \<and> ss_player_id st = player \<and> ss_stack st = stack)"

lemma refresh_seats [simp]: "lc_seats (refresh_between_hand_state l) = lc_seats l"
  by (simp add: refresh_between_hand_state_def)

lemma join_sits:
  "join l p s k = (Inr (), l') \<Longrightarrow> table_seat (lc_seats l) s = None \<and> sits l' s p k \<and>
     (\<forall>x. x \<noteq> s \<longrightarrow> table_seat (lc_seats l') x = table_seat (lc_seats l) x)"
  by (auto simp: join_def reserve_def occupy_def sits_def seat_state_active_def occupied_seat_state
      split: if_splits sum.splits option.splits prod.splits)

lemma join_entry_sits:
  assumes "join_with_entry l p s k PostLiveBigBlind = Some (Inr (), l')"
  shows "table_seat (lc_seats l) s = None \<and> sits l' s p k \<and>
    (\<forall>x. x \<noteq> s \<longrightarrow> table_seat (lc_seats l') x = table_seat (lc_seats l) x)"
proof -
  obtain l1 where j: "join l p s k = (Inr (), l1)"
    using assms by (auto simp: join_with_entry_def split: sum.splits prod.splits)
  show ?thesis
    using join_sits [OF j] assms j table_seat_mut_read
    by (fastforce simp: join_with_entry_def sits_def split: if_splits bind_splits)
qed

lemma join_entry_keeps:
  assumes "join_with_entry l p s k PostLiveBigBlind = Some (Inr (), l')" "sits l x q n"
  shows "sits l' x q n"
  using join_entry_sits [OF assms(1)] assms(2) by (cases "x = s") (auto simp: sits_def)

lemma admit_waiting_keeps:
  "admit_waiting i config waiting l m r = Some (Inr (l', m', rest), r') \<Longrightarrow>
    (sits l x q n \<longrightarrow> sits l' x q n) \<and> (s \<notin> we_session ` set waiting \<longrightarrow> bt_get (rg_sessions r') s = bt_get (rg_sessions r) s)"
proof (induction waiting arbitrary: l m r)
  case (Cons e waiting)
  show ?case
  proof (cases "find_seat (pc_seats config) l (we_requested_seat e)")
    case None
    then show ?thesis using Cons.prems by (auto simp: reg_ok_def)
  next
    case (Some seat)
    let ?r = "r\<lparr>rg_next_player_id := Suc (rg_next_player_id r)\<rparr>"
    let ?r' = "?r\<lparr>rg_waiting_sessions := bt_remove (we_session e) (rg_waiting_sessions r),
        rg_sessions := bt_insert (we_session e) \<lparr>ro_table_id = i, ro_player = rg_next_player_id r, ro_seat = seat\<rparr> (rg_sessions r)\<rparr>"
    obtain l1 where l1: "join_with_entry l (rg_next_player_id r) seat (pc_starting_stack config) PostLiveBigBlind = Some (Inr (), l1)"
        "admit_waiting i config waiting l1 (bt_insert seat (we_session e) m) ?r' = Some (Inr (l', m', rest), r')"
      using Cons.prems Some
      by (auto simp: reg_expect_def reg_sum_def reg_some_def reg_fail_def u64_checked_add_def Let_def
          split: option.splits sum.splits prod.splits if_splits)
    show ?thesis
      using Cons.IH [OF l1(2)] join_entry_keeps [OF l1(1)] by (auto simp: bt_get_insert)
  qed
qed (auto simp: reg_ok_def)

lemma admit_waiting_order:
  assumes "admit_waiting i config waiting l m r = Some (Inr (l', m', rest), r')" "distinct (map we_session waiting)"
  shows "\<exists>admitted. waiting = admitted @ rest \<and>
    (\<forall>e. rest \<noteq> [] \<longrightarrow> hd rest = e \<longrightarrow> find_seat (pc_seats config) l' (we_requested_seat e) = None) \<and>
    rg_next_player_id r' = rg_next_player_id r + length admitted \<and>
    (\<forall>k<length admitted. \<exists>s. (case we_requested_seat (admitted ! k) of None \<Rightarrow> True | Some wish \<Rightarrow> s = wish) \<and>
       bt_get (rg_sessions r') (we_session (admitted ! k)) = Some \<lparr>ro_table_id = i, ro_player = rg_next_player_id r + k, ro_seat = s\<rparr> \<and>
       sits l' s (rg_next_player_id r + k) (pc_starting_stack config))"
  using assms
proof (induction waiting arbitrary: l m r)
  case Nil
  then show ?case by (auto simp: reg_ok_def)
next
  case (Cons e waiting)
  show ?case
  proof (cases "find_seat (pc_seats config) l (we_requested_seat e)")
    case None
    then have "l' = l" "rest = e # waiting" "r' = r" using Cons.prems(1) by (auto simp: reg_ok_def)
    then show ?thesis using None by auto
  next
    case (Some seat)
    let ?r = "r\<lparr>rg_next_player_id := Suc (rg_next_player_id r)\<rparr>"
    let ?route = "\<lparr>ro_table_id = i, ro_player = rg_next_player_id r, ro_seat = seat\<rparr>"
    let ?r' = "?r\<lparr>rg_waiting_sessions := bt_remove (we_session e) (rg_waiting_sessions r),
        rg_sessions := bt_insert (we_session e) ?route (rg_sessions r)\<rparr>"
    obtain l1 where l1: "join_with_entry l (rg_next_player_id r) seat (pc_starting_stack config) PostLiveBigBlind = Some (Inr (), l1)"
        "admit_waiting i config waiting l1 (bt_insert seat (we_session e) m) ?r' = Some (Inr (l', m', rest), r')"
      using Cons.prems(1) Some
      by (auto simp: reg_expect_def reg_sum_def reg_some_def reg_fail_def u64_checked_add_def Let_def
          split: option.splits sum.splits prod.splits if_splits)
    have fresh: "we_session e \<notin> we_session ` set waiting" "distinct (map we_session waiting)" using Cons.prems(2) by auto
    obtain admitted where IH: "waiting = admitted @ rest"
        "\<forall>e. rest \<noteq> [] \<longrightarrow> hd rest = e \<longrightarrow> find_seat (pc_seats config) l' (we_requested_seat e) = None"
        "rg_next_player_id r' = Suc (rg_next_player_id r) + length admitted"
        "\<forall>k<length admitted. \<exists>s. (case we_requested_seat (admitted ! k) of None \<Rightarrow> True | Some wish \<Rightarrow> s = wish) \<and>
         bt_get (rg_sessions r') (we_session (admitted ! k)) = Some \<lparr>ro_table_id = i, ro_player = Suc (rg_next_player_id r) + k, ro_seat = s\<rparr> \<and>
         sits l' s (Suc (rg_next_player_id r) + k) (pc_starting_stack config)"
      using Cons.IH [OF l1(2) fresh(2)] by auto
    have "bt_get (rg_sessions r') (we_session e) = Some ?route"
      using admit_waiting_keeps [OF l1(2), of 0 0 0 "we_session e"] fresh(1) by (simp add: bt_get_insert)
    moreover have "sits l' seat (rg_next_player_id r) (pc_starting_stack config)"
      using admit_waiting_keeps [OF l1(2), of seat "rg_next_player_id r" "pc_starting_stack config" "[]"] join_entry_sits [OF l1(1)] by simp
    moreover have "case we_requested_seat e of None \<Rightarrow> True | Some wish \<Rightarrow> seat = wish"
      using Some by (auto simp: find_seat_def split: option.splits if_splits)
    ultimately show ?thesis
      using IH by (intro exI [of _ "e # admitted"]) (auto simp: nth_Cons split: nat.split)
  qed
qed

subsection \<open>Hidden tables\<close>

lemma filter_bt_remove:
  assumes "bt_sorted m" "bt_get m i = Some v" "\<not> P (i, v)"
  shows "filter P (bt_remove i m) = filter P m"
proof -
  have "x \<in> set m \<Longrightarrow> P x \<Longrightarrow> fst x \<noteq> i" for x
    using Some_eq_map_pick [OF assms(1), of i "snd x"] assms(2,3) by (cases x) auto
  then show ?thesis by (auto simp: bt_remove_def intro!: filter_cong)
qed

end
