(* ===== verification/Registry_Durable.thy ===== *)
theory Registry_Durable
  imports Registry_Queue
begin

text \<open>What a checkpoint of the registry keeps.\<close>

text \<open>
  The durable part of a table: all but its worker, its bindings, its queue and the connections and reservations of
  its roster.
\<close>

definition durable_view :: "registered_table \<Rightarrow> public_table_config \<times> access_verifier option \<times> u64 option
    \<times> tournament_controller option \<times> table_lifecycle" where
  "durable_view t = (gt_config t, gt_access_verifier t, gt_deterministic_seed t, gt_tournament t,
     (gt_durable_lifecycle t)\<lparr>lc_seats := disconnected (lc_seats (gt_durable_lifecycle t)), lc_reservations := []\<rparr>)"

lemma disconnected_twice [simp]: "disconnected (disconnected t) = disconnected t"
  by (simp add: disconnected_def comp_def option.map_comp)

lemma durable_view_bindings [simp]: "durable_view (t\<lparr>gt_seat_sessions := m\<rparr>) = durable_view t"
  by (simp add: durable_view_def)

lemma restore_tables_forward:
  assumes "restore_tables now n ks acc = Inr tables"
  shows "(\<forall>i t. bt_get acc i = Some t \<longrightarrow> bt_get tables i = Some t) \<and>
    (\<forall>k\<in>set ks. \<exists>t. bt_get tables (kt_table_id k) = Some t \<and> restored_from k t \<and> gt_seat_sessions t = [])"
  using assms
proof (induction ks arbitrary: acc)
  case (Cons k ks)
  obtain l where l: "kt_table_id k \<noteq> 0" "kt_table_id k < n" "validate_stored_config (kt_config k) (kt_access_verifier k) = Inr ()"
    "bh_table_size (kt_lifecycle k) = pc_seats (kt_config k)" "restore_between_hand (kt_lifecycle k) = Inr l"
    "bt_get acc (kt_table_id k) = None"
    using Cons.prems by (auto split: if_splits sum.splits)
  let ?t = "\<lparr>gt_config = kt_config k, gt_access_verifier = kt_access_verifier k, gt_lifecycle = l,
              gt_durable_lifecycle = l, gt_deterministic_seed = kt_deterministic_seed k,
              gt_tournament = kt_tournament k, gt_hand_id = None, gt_seat_sessions = [], gt_waiting = [],
              gt_pending_departures = [], gt_last_activity = now, gt_runtime = None\<rparr>"
  have "restore_tables now n ks (bt_insert (kt_table_id k) ?t acc) = Inr tables" using Cons.prems l by simp
  note IH = Cons.IH [OF this]
  have "bt_get tables (kt_table_id k) = Some ?t" using IH by (auto simp: bt_get_insert)
  moreover have "restored_from k ?t" using l by (simp add: restored_from_def)
  moreover have "bt_get tables i = Some t" if "bt_get acc i = Some t" for i t
  proof -
    have "i \<noteq> kt_table_id k" using that l(6) by auto
    then have "bt_get (bt_insert (kt_table_id k) ?t acc) i = Some t" using that by (simp add: bt_get_insert)
    then show ?thesis using IH by blast
  qed
  ultimately show ?case using IH by auto
qed simp

lemma restore_sessions_forward:
  assumes "restore_sessions n ks tables sessions = Inr (tables', sessions')"
  shows "(\<forall>i t. bt_get tables i = Some t \<longrightarrow> (\<exists>u. bt_get tables' i = Some u \<and> durable_view u = durable_view t)) \<and>
    (\<forall>s route. bt_get sessions s = Some route \<longrightarrow> bt_get sessions' s = Some route) \<and>
    (\<forall>k\<in>set ks. bt_get sessions' (ks_principal_id k) =
       Some \<lparr>ro_table_id = ks_table_id k, ro_player = ks_player_id k, ro_seat = ks_seat k\<rparr>)"
  using assms
proof (induction ks arbitrary: tables sessions)
  case (Cons k ks)
  obtain session t occupant where f: "0 < ks_player_id k" "ks_player_id k < n" "guest_session_id_new (ks_principal_id k) = Inr session"
    "bt_get tables (ks_table_id k) = Some t" "table_seat (lc_seats (gt_lifecycle t)) (ks_seat k) = Some occupant"
    "ss_player_id occupant = ks_player_id k" "bt_get (gt_seat_sessions t) (ks_seat k) = None" "bt_get sessions session = None"
    using Cons.prems by (auto split: if_splits sum.splits option.splits)
  have session: "session = ks_principal_id k" using f(3) by (simp add: guest_session_id_new_def split: if_splits)
  let ?u = "t\<lparr>gt_seat_sessions := bt_insert (ks_seat k) session (gt_seat_sessions t)\<rparr>"
  let ?route = "\<lparr>ro_table_id = ks_table_id k, ro_player = ks_player_id k, ro_seat = ks_seat k\<rparr>"
  have rest: "restore_sessions n ks (bt_insert (ks_table_id k) ?u tables) (bt_insert session ?route sessions) = Inr (tables', sessions')"
    using Cons.prems f by simp
  note IH = Cons.IH [OF rest]
  have "\<exists>u. bt_get tables' i = Some u \<and> durable_view u = durable_view x" if x: "bt_get tables i = Some x" for i x
  proof -
    have "\<exists>y. bt_get (bt_insert (ks_table_id k) ?u tables) i = Some y \<and> durable_view y = durable_view x"
      using x f(4) by (auto simp: bt_get_insert)
    then show ?thesis using IH by metis
  qed
  moreover have "bt_get sessions' s = Some route" if "bt_get sessions s = Some route" for s route
  proof -
    have "s \<noteq> session" using that f(8) by auto
    then have "bt_get (bt_insert session ?route sessions) s = Some route" using that by (simp add: bt_get_insert)
    then show ?thesis using IH by blast
  qed
  moreover have "bt_get sessions' (ks_principal_id k) = Some ?route" using IH session by (auto simp: bt_get_insert)
  ultimately show ?case using IH by auto
qed auto

lemma checkpoint_taken:
  assumes "registry_ok r"
  shows "\<exists>p. checkpoint_payload r = Inr p"
proof -
  have sorted: "bt_sorted (rg_tables r)" using registry_okD(1) [OF assms] by (simp add: tables_ok_def)
  have "\<exists>k. checkpoint_of_table e = Inr k" if e: "e \<in> set (rg_tables r)" for e
  proof -
    obtain i t where it: "e = (i, t)" by (cases e)
    have "table_sound t" using registry_ok_table [OF assms] Some_eq_map_pick [OF sorted, of i t] e it by simp
    then have "roster_ok (gt_durable_lifecycle t)" "\<not> hand_active (gt_durable_lifecycle t)" by (simp_all add: table_sound_def)
    then have "lc_pending (gt_durable_lifecycle t) = []"
      using roster_core [of "gt_durable_lifecycle t"] by (simp add: core_ok_def hand_active_def)
    then show ?thesis
      using \<open>\<not> hand_active (gt_durable_lifecycle t)\<close> by (simp add: it checkpoint_of_table_def between_hand_checkpoint_def)
  qed
  then have "map checkpoint_of_table (rg_tables r) = map Inr (map (\<lambda>e. projr (checkpoint_of_table e)) (rg_tables r))"
    by (auto simp: sum.collapse isl_def) (metis sum.sel(2))
  then have "collect_results (map checkpoint_of_table (rg_tables r)) = Inr (map (\<lambda>e. projr (checkpoint_of_table e)) (rg_tables r))"
    by (simp only: collect_results_Inr)
  then show ?thesis by (simp add: checkpoint_payload_def)
qed

lemma checkpoint_table:
  assumes "checkpoint_payload r = Inr p" "registry_ok r" "bt_get (rg_tables r) i = Some t"
  shows "\<exists>k\<in>set (kp_tables p). kt_table_id k = i \<and> checkpoint_of_table (i, t) = Inr k"
proof -
  have sorted: "bt_sorted (rg_tables r)" using registry_okD(1) [OF assms(2)] by (simp add: tables_ok_def)
  have "checkpoint_of_table (i, t) \<in> set (map checkpoint_of_table (rg_tables r))"
    using Some_eq_map_pick [OF sorted] assms(3) by force
  then obtain k where "k \<in> set (kp_tables p)" "checkpoint_of_table (i, t) = Inr k"
    using checkpoint_payload_fields(1) [OF assms(1)] by auto
  moreover from this have "kt_table_id k = i"
    by (auto simp: checkpoint_of_table_def map_sum_def split: sum.splits)
  ultimately show ?thesis by blast
qed

lemma restored_view:
  assumes "checkpoint_of_table (i, t) = Inr k" "restored_from k u" "roster_ok (gt_durable_lifecycle t)"
  shows "durable_view u = durable_view t \<and> restorable (gt_durable_lifecycle t)"
proof -
  have k: "between_hand_checkpoint (gt_durable_lifecycle t) = Inr (kt_lifecycle k)" "kt_config k = gt_config t"
      "kt_access_verifier k = gt_access_verifier t" "kt_deterministic_seed k = gt_deterministic_seed t" "kt_tournament k = gt_tournament t"
    using assms(1) by (auto simp: checkpoint_of_table_def map_sum_def split: sum.splits)
  have u: "restore_between_hand (kt_lifecycle k) = Inr (gt_lifecycle u)" "gt_durable_lifecycle u = gt_lifecycle u"
    using assms(2) by (simp_all add: restored_from_def)
  have "restorable (gt_durable_lifecycle t) \<and> gt_lifecycle u =
      (gt_durable_lifecycle t)\<lparr>lc_seats := disconnected (lc_seats (gt_durable_lifecycle t)), lc_reservations := []\<rparr>"
    using restore_checkpoint [OF assms(3) k(1)] u(1) by (simp split: if_splits)
  then show ?thesis using assms(2) k u(2) by (simp add: durable_view_def restored_from_def)
qed

text \<open>What a restored registry has of the one that was saved.\<close>

lemma restored_registry:
  assumes "registry_ok r" "checkpoint_payload r = Inr p" "restore_payload now wall p = Inr r'"
  shows "map_option durable_view (bt_get (rg_tables r') i) = map_option durable_view (bt_get (rg_tables r) i)"
    "bt_get (rg_sessions r') s = bt_get (rg_sessions r) s"
    "bt_get (rg_tables r) i = Some t \<Longrightarrow> restorable (gt_durable_lifecycle t)"
    "rg_next_table_id r' = rg_next_table_id r" "rg_next_player_id r' = rg_next_player_id r" "rg_next_hand_id r' = rg_next_hand_id r"
proof -
  note fields = checkpoint_payload_fields [OF assms(2)]
  obtain tables where f: "restore_tables now (kp_next_table_id p) (kp_tables p) [] = Inr tables"
    "restore_sessions (kp_next_player_id p) (kp_sessions p) tables [] = Inr (rg_tables r', rg_sessions r')"
    and n: "rg_next_table_id r' = kp_next_table_id p" "rg_next_player_id r' = kp_next_player_id p" "rg_next_hand_id r' = kp_next_hand_id p"
    using assms(3) by (auto simp: restore_payload_def split: if_splits sum.splits prod.splits)
  show "rg_next_table_id r' = rg_next_table_id r" "rg_next_player_id r' = rg_next_player_id r" "rg_next_hand_id r' = rg_next_hand_id r"
    using n fields by simp_all
  note fwd = restore_tables_forward [OF f(1)] restore_sessions_forward [OF f(2)]
  note bwd = restore_tables_result [OF f(1) bt_sorted_Nil]
  have bwd2: "\<forall>i u. bt_get (rg_tables r') i = Some u \<longrightarrow> (\<exists>t. bt_get tables i = Some t \<and> same_but_bindings t u)"
    using restore_sessions_result [OF f(2) _ bt_sorted_Nil] bwd by blast
  have there: "\<exists>u. bt_get (rg_tables r') j = Some u \<and> durable_view u = durable_view x \<and> restorable (gt_durable_lifecycle x)"
    if x: "bt_get (rg_tables r) j = Some x" for j x
  proof -
    obtain k where k: "k \<in> set (kp_tables p)" "kt_table_id k = j" "checkpoint_of_table (j, x) = Inr k"
      using checkpoint_table [OF assms(2,1) x] by blast
    obtain y where y: "bt_get tables j = Some y" "restored_from k y" using fwd(1) k(1,2) by blast
    obtain u where u: "bt_get (rg_tables r') j = Some u" "durable_view u = durable_view y" using fwd(2) y(1) by blast
    have "roster_ok (gt_durable_lifecycle x)" using registry_ok_table [OF assms(1) x] by (simp add: table_sound_def)
    from restored_view [OF k(3) y(2) this] show ?thesis using u by simp
  qed
  have absent: "bt_get (rg_tables r') j = None" if x: "bt_get (rg_tables r) j = None" for j
  proof (rule ccontr)
    assume "bt_get (rg_tables r') j \<noteq> None"
    then obtain y where "bt_get tables j = Some y" using bwd2 by blast
    then obtain k where k: "k \<in> set (kp_tables p)" "kt_table_id k = j" using bwd by fastforce
    then have "Inr k \<in> set (map checkpoint_of_table (rg_tables r))" using fields(1) by simp
    then obtain e where e: "e \<in> set (rg_tables r)" "checkpoint_of_table e = Inr k" by auto
    have "fst e = j" using e(2) k(2) by (cases e) (auto simp: checkpoint_of_table_def map_sum_def split: sum.splits)
    then show False using x e(1) by (auto simp: bt_get_None)
  qed
  show "map_option durable_view (bt_get (rg_tables r') i) = map_option durable_view (bt_get (rg_tables r) i)"
    using there [of i] absent [of i] by (cases "bt_get (rg_tables r) i") auto
  show "restorable (gt_durable_lifecycle t)" if "bt_get (rg_tables r) i = Some t" using there [OF that] by blast
  have sorted: "bt_sorted (rg_sessions r)" using registry_okD(3) [OF assms(1)] by (simp add: routes_ok_def)
  show "bt_get (rg_sessions r') s = bt_get (rg_sessions r) s"
  proof (cases "bt_get (rg_sessions r) s")
    case None
    have "bt_get (rg_sessions r') s = None"
    proof (rule ccontr)
      assume "bt_get (rg_sessions r') s \<noteq> None"
      then obtain k where "k \<in> set (kp_sessions p)" "ks_principal_id k = s"
        using restore_sessions_result [OF f(2) _ bt_sorted_Nil] bwd by fastforce
      then have "s \<in> fst ` set (rg_sessions r)" using fields(2) by (force simp: checkpoint_of_session_def)
      then show False using None by (simp add: bt_get_None)
    qed
    then show ?thesis using None by simp
  next
    case (Some route)
    then have "(s, route) \<in> set (rg_sessions r)" using Some_eq_map_pick [OF sorted] by simp
    then have "checkpoint_of_session (s, route) \<in> set (kp_sessions p)" using fields(2) by simp
    then show ?thesis using fwd(2) Some by (fastforce simp: checkpoint_of_session_def)
  qed
qed

end
