(* ===== verification/Registry_Properties.thy ===== *)
theory Registry_Properties
  imports Registry_Queue Registry_Durable Lifecycle_Properties
begin

text \<open>
  The properties of the table registry over every sequence of its operations and of restarts: it never panics, a
  session has one place, and a table that plays has a living worker whose hand is that of its roster.
\<close>

subsection \<open>The registry always answers\<close>

lemma map_m_returns: "(\<And>x. x \<in> set xs \<Longrightarrow> \<exists>y. f x = Some y) \<Longrightarrow> \<exists>ys. map_m f xs = Some ys"
  using map_m_total [of xs f "\<lambda>x. the (f x)"] by (metis option.sel)

lemma registry_never_panics_step:
  assumes "registry_reachable sv r" "fair_services sv" "valid_op sv op r"
  shows "\<exists>r'. registry_step sv now op r = Some r' \<and> registry_reachable sv r'"
  using registry_step_alive [OF reachable_alive [OF assms(1,2)] assms(2,3), of now] registry_reachable.operate [OF assms(1,3)] by blast



subsection \<open>Sessions and identities\<close>



subsection \<open>Tables that play\<close>

text \<open>
  C27: in every such state the layers of a table that plays agree: its worker lives and answers under the identities of
  the table and of its hand; its roster has begun a hand; the hand of the worker satisfies the invariant of the hand
  engine, has exactly the seats that the roster dealt in, and its chips are together exactly the stacks with which the
  roster began it, at every moment of the hand.
\<close>

theorem running_tables_are_served:
  assumes "registry_reachable sv r" "fair_services sv" "bt_get (rg_tables r) i = Some t" "gt_runtime t = Some w"
  shows "\<exists>st start. w = Some st \<and> rt_table_id st = i \<and> gt_hand_id t = Some (rt_hand_id st) \<and>
    lc_active_hand (gt_lifecycle t) = Some start \<and> hand_ok (table_hand st) \<and>
    set (occupied_seats (table_hand st)) = set (hand_seats start) \<and>
    total_chips (table_hand st) = sum_list (map snd (hs_stacks start))"
proof -
  have "staffed i t" by (rule alive_table(2) [OF reachable_alive [OF assms(1,2)] assms(3)])
  then obtain st start where s: "w = Some st" "rt_table_id st = i" "gt_hand_id t = Some (rt_hand_id st)"
      "lc_active_hand (gt_lifecycle t) = Some start" "plays_from start (table_hand st)"
    using assms(4) by (auto simp: staffed_def serves_def)
  have "total_chips (table_hand st) = mh_initial_total (table_hand st)"
    using s(5) total_chips_exact [of "table_hand st"]
    by (auto simp: plays_from_def hand_ok_def betting_ok_def mid_ok_def showdown_ok_def done_ok_def money_ok_def)
  then show ?thesis using s by (auto simp: plays_from_def)
qed

theorem running_tables_are_served_witness:
  "\<exists>t st start. bt_get (rg_tables sample_lobby) 1 = Some t \<and> gt_runtime t = Some (Some st) \<and> rt_hand_id st = 1 \<and>
     lc_active_hand (gt_lifecycle t) = Some start \<and> total_chips (table_hand st) = sum_list (map snd (hs_stacks start))"
proof -
  obtain t w where t: "bt_get (rg_tables sample_lobby) 1 = Some t" "gt_hand_id t = Some 1" "gt_runtime t = Some w"
    using sample_lobby_maps(3) by blast
  show ?thesis using running_tables_are_served [OF sample_lobby_run(2) sample_fair t(1,3)] t by auto
qed

subsection \<open>Stored tables\<close>

text \<open>
  C29: every stored table is well typed: its configuration passed the checks of \<open>create\<close> (a name of 1 to 64 safe
  bytes, a positive stack, two to all seats as the minimum), it stores no access code in clear, and a verifier exactly
  when it is not public; both rosters are tables of the configured size that satisfy the lifecycle's invariant; a
  tournament satisfies the freezeout's; a runtime, a hand identity and an active hand of the roster are there together
  or not at all; the queue has at most 64 entries.
\<close>

theorem stored_tables_well_typed:
  assumes "registry_reachable sv r" "fair_services sv" "bt_get (rg_tables r) i = Some t"
  shows "stored_config_ok (gt_config t) \<and> (gt_access_verifier t = None \<longleftrightarrow> pc_visibility (gt_config t) = VisPublic) \<and>
    roster_ok (gt_lifecycle t) \<and> roster_ok (gt_durable_lifecycle t) \<and>
    lc_table_size (gt_lifecycle t) = pc_seats (gt_config t) \<and> lc_table_size (gt_durable_lifecycle t) = pc_seats (gt_config t) \<and>
    (\<forall>c. gt_tournament t = Some c \<longrightarrow> tour_ok c) \<and>
    (gt_runtime t = None \<longleftrightarrow> gt_hand_id t = None) \<and> (gt_runtime t = None \<longleftrightarrow> lc_active_hand (gt_lifecycle t) = None) \<and>
    length (gt_waiting t) \<le> 64 \<and> length (rg_tables r) \<le> rg_max_tables r"
  using alive_table(1) [OF reachable_alive [OF assms(1,2)] assms(3)] registry_okD(1) [OF aliveD(1) [OF reachable_alive [OF assms(1,2)]]]
  by (auto simp: table_sound_def tables_ok_def hand_active_def MAX_TABLE_WAITING_ENTRIES_def)

theorem stored_tables_well_typed_witness:
  "\<exists>t. bt_get (rg_tables sample_lobby) 1 = Some t \<and> (gt_access_verifier t = None \<longleftrightarrow> pc_visibility (gt_config t) = VisPublic) \<and>
     stored_config_ok (gt_config t) \<and> lc_active_hand (gt_lifecycle t) \<noteq> None"
proof -
  obtain t w where t: "bt_get (rg_tables sample_lobby) 1 = Some t" "gt_runtime t = Some w" using sample_lobby_maps(3) by blast
  show ?thesis using stored_tables_well_typed [OF sample_lobby_run(2) sample_fair t(1)] t by auto
qed

subsection \<open>A session without chips stops its table\<close>

text \<open>
  C30: a hand can start only if the seat of every session that is bound to the table is dealt in: the loop over the
  sessions binds each to the new worker, which refuses a seat that is not in the hand. So a player who has lost all
  chips and stays connected makes every start of a further hand fail, after a rollover, at a join and after a restart,
  however many others could play; in a tournament of three the first elimination ends the play.
\<close>

theorem busted_session_stops_the_table:
  assumes "roster_ok l" "house_ok l" "fair_services sv" "\<forall>c. tournament = Some c \<longrightarrow> tour_ok c"
    and "table_seat (lc_seats l) s = Some st" "ss_stack st = 0" "(s, session) \<in> set sessions"
  shows "\<exists>e. prepare_hand sv now restored i hand (lc_table_size l) seed tournament sessions l = Some (Inl e)"
proof -
  obtain res where res: "prepare_hand sv now restored i hand (lc_table_size l) seed tournament sessions l = Some res"
    using prepare_hand_runs [OF assms(3,1,2,4) refl] by blast
  show ?thesis
  proof (cases res)
    case (Inr x)
    obtain l' following w where "x = (l', following, w)" by (cases x)
    with res Inr have "prepare_hand sv now restored i hand (lc_table_size l) seed tournament sessions l = Some (Inr (l', following, w))"
      by simp
    from prepared_seats [OF assms(3,1,2,4) refl this assms(7)] show ?thesis
      using assms(5,6) by (simp add: eligible_for_next_hand_def)
  qed (use res in simp)
qed

text \<open>Three players, one of whom lost everything; the other two could go on.\<close>

definition bust_calls :: "roster_op list" where
  "bust_calls = [roster_op.OpJoin 1 0 100, roster_op.OpJoin 2 1 100, roster_op.OpJoin 3 2 100, OpBeginHand,
     OpCompleteHand [(0, 200), (1, 100), (2, 0)]]"

definition bust_roster :: table_lifecycle where
  "bust_roster = the (run_ops bust_calls (lifecycle_new 3))"

lemma house_okI:
  assumes "list_all (\<lambda>x. case x of None \<Rightarrow> True | Some st \<Rightarrow> active_seat st) (tb_seats (lc_seats l))"
    and "lc_pending l = []" "lc_active_hand l = None"
  shows "house_ok l"
  using assms by (auto simp: house_ok_def table_seat_def list_all_length split: if_splits option.splits)

lemma bust_roster_ok:
  "roster_ok bust_roster" "house_ok bust_roster" "lc_table_size bust_roster = 3" "eligible_count bust_roster = 2"
  "\<exists>st. table_seat (lc_seats bust_roster) 2 = Some st \<and> ss_stack st = 0"
proof -
  have "run_ops bust_calls (lifecycle_new 3) \<noteq> None" by code_simp
  then have "run_ops bust_calls (lifecycle_new 3) = Some bust_roster" by (auto simp: bust_roster_def)
  moreover have "valid_size 3" by (simp add: valid_size_def MIN_TABLE_SEATS_def MAX_TABLE_SEATS_def)
  ultimately show "roster_ok bust_roster"
    using run_ops_reachable [OF roster_reachable.created] reachable_ok by blast
  have "list_all (\<lambda>x. case x of None \<Rightarrow> True | Some st \<Rightarrow> active_seat st) (tb_seats (lc_seats bust_roster)) \<and>
      lc_pending bust_roster = [] \<and> lc_active_hand bust_roster = None \<and> lc_table_size bust_roster = 3 \<and>
      eligible_count bust_roster = 2 \<and> map_option ss_stack (table_seat (lc_seats bust_roster) 2) = Some 0" by code_simp
  then show "house_ok bust_roster" "lc_table_size bust_roster = 3" "eligible_count bust_roster = 2"
    "\<exists>st. table_seat (lc_seats bust_roster) 2 = Some st \<and> ss_stack st = 0"
    using house_okI [of bust_roster] by auto
qed

theorem busted_session_stops_the_table_witness:
  "eligible_count bust_roster = 2 \<and>
   (\<exists>e. prepare_hand sample_services 5 False 1 2 3 (\<lambda>start. None) None [(0, ''ann''), (1, ''bob''), (2, ''eve'')] bust_roster = Some (Inl e)) \<and>
   (\<exists>x. prepare_hand sample_services 5 False 1 2 3 (\<lambda>start. None) None [(0, ''ann''), (1, ''bob'')] bust_roster = Some (Inr x))"
proof -
  have "case prepare_hand sample_services 5 False 1 2 3 (\<lambda>start. None) None [(0, ''ann''), (1, ''bob'')] bust_roster of
      Some (Inr x) \<Rightarrow> True | _ \<Rightarrow> False" by code_simp
  then have "\<exists>x. prepare_hand sample_services 5 False 1 2 3 (\<lambda>start. None) None [(0, ''ann''), (1, ''bob'')] bust_roster = Some (Inr x)"
    by (auto split: option.splits sum.splits)
  moreover obtain st where "table_seat (lc_seats bust_roster) 2 = Some st" "ss_stack st = 0" using bust_roster_ok(5) by blast
  then have "\<exists>e. prepare_hand sample_services 5 False 1 2 3 (\<lambda>start. None) None [(0, ''ann''), (1, ''bob''), (2, ''eve'')] bust_roster = Some (Inl e)"
    using busted_session_stops_the_table [OF bust_roster_ok(1,2) sample_fair, of None 2 st "''eve''"
      "[(0, ''ann''), (1, ''bob''), (2, ''eve'')]" 5 False 1 2 "\<lambda>start. None"] bust_roster_ok(3) by simp
  ultimately show ?thesis using bust_roster_ok(4) by blast
qed

subsection \<open>Checkpoints\<close>



subsection \<open>The queue\<close>

text \<open>
  When a hand ends, the queue is served strictly in its order: the entries that are seated are a prefix of it, the
  sessions get consecutive new player identities in that order, each has a route to a seat (the one it asked for, if
  it asked) where the roster has that player with the starting stack; the loop stops at the first entry whose wish
  cannot be met, and that entry keeps all later ones waiting, even when seats are free.
\<close>

theorem queue_is_served_in_order:
  assumes "admit_waiting i config waiting l m r = Some (Inr (l', m', rest), r')" "distinct (map we_session waiting)"
  shows "\<exists>admitted. waiting = admitted @ rest \<and>
    (rest \<noteq> [] \<longrightarrow> find_seat (pc_seats config) l' (we_requested_seat (hd rest)) = None) \<and>
    rg_next_player_id r' = rg_next_player_id r + length admitted \<and>
    (\<forall>k<length admitted. \<exists>s. (case we_requested_seat (admitted ! k) of None \<Rightarrow> True | Some wish \<Rightarrow> s = wish) \<and>
       bt_get (rg_sessions r') (we_session (admitted ! k)) = Some \<lparr>ro_table_id = i, ro_player = rg_next_player_id r + k, ro_seat = s\<rparr> \<and>
       sits l' s (rg_next_player_id r + k) (pc_starting_stack config))"
  using admit_waiting_order [OF assms] by blast

text \<open>Eve sits down at seat 0, Fay wants that seat and waits, and so does Gil, though seat 1 is free.\<close>

definition sample_queue :: "waiting_entry list" where
  "sample_queue = [\<lparr>we_session = ''eve'', we_requested_seat = None\<rparr>, \<lparr>we_session = ''fay'', we_requested_seat = Some 0\<rparr>,
     \<lparr>we_session = ''gil'', we_requested_seat = None\<rparr>]"

lemma admitted_case: "(case m of Some (Inr (a, b, c), d) \<Rightarrow> P a b c d | _ \<Rightarrow> False) \<Longrightarrow> \<exists>a b c d. m = Some (Inr (a, b, c), d) \<and> P a b c d"
  by (cases m; cases "fst (the m)") auto

theorem queue_is_served_in_order_witness:
  "\<exists>l' m' r'. admit_waiting 1 (table_config ''Oak'' 200) sample_queue (lifecycle_new 2) [] empty_lobby = Some (Inr (l', m', tl sample_queue), r') \<and>
     bt_get (rg_sessions r') ''eve'' = Some \<lparr>ro_table_id = 1, ro_player = 1, ro_seat = 0\<rparr> \<and> find_seat 2 l' None = Some 1"
proof -
  have "case admit_waiting 1 (table_config ''Oak'' 200) sample_queue (lifecycle_new 2) [] empty_lobby of
      Some (Inr (l', m', rest), r') \<Rightarrow> rest = tl sample_queue \<and> find_seat 2 l' None = Some 1 \<and>
        map_option ro_seat (bt_get (rg_sessions r') ''eve'') = Some 0 \<and> rg_next_player_id empty_lobby = 1
    | _ \<Rightarrow> False" by code_simp
  from admitted_case [OF this] obtain l' m' rest r' where run: "admit_waiting 1 (table_config ''Oak'' 200) sample_queue (lifecycle_new 2) [] empty_lobby
      = Some (Inr (l', m', rest), r')" "rest = tl sample_queue" "find_seat 2 l' None = Some 1" "rg_next_player_id empty_lobby = 1"
      "map_option ro_seat (bt_get (rg_sessions r') ''eve'') = Some 0"
    by blast
  note run = run(1) [unfolded run(2)] run(3-5)
  have "distinct (map we_session sample_queue)" by (simp add: sample_queue_def)
  from queue_is_served_in_order [OF run(1) this] obtain admitted where a: "sample_queue = admitted @ tl sample_queue"
      "\<forall>k<length admitted. \<exists>s. bt_get (rg_sessions r') (we_session (admitted ! k)) = Some \<lparr>ro_table_id = 1, ro_player = 1 + k, ro_seat = s\<rparr>"
    unfolding run(3) by blast
  have "length admitted = 1" using arg_cong [OF a(1), of length] by (simp add: sample_queue_def)
  moreover from this have "admitted ! 0 = hd sample_queue"
    using arg_cong [OF a(1), of hd] by (cases admitted) simp_all
  ultimately have "\<exists>s. bt_get (rg_sessions r') ''eve'' = Some \<lparr>ro_table_id = 1, ro_player = 1, ro_seat = s\<rparr>"
    using a(2) by (fastforce simp: sample_queue_def)
  then show ?thesis using run by auto
qed

subsection \<open>Hidden tables\<close>


definition hidden_lobby :: registry where
  "hidden_lobby = the (registry_step sample_services 5 (OpCreate ''sixteen-byte-slt'' \<lparr>pc_name = ''Den'', pc_seats = 2,
     pc_starting_stack = 200, pc_min_players = 2, pc_visibility = VisUnlisted, pc_join_code = Some ''a-code-of-more-than-24-bytes''\<rparr> None) empty_lobby)"


end
