(* ===== verification/Credential_Facts.thy ===== *)
theory Credential_Facts
  imports Ring_History Prelude
begin

text \<open>
  Facts on credentials: hexadecimal digits, the comparison in constant time, what an access verifier accepts, and
  the tokens of the vault.
\<close>

subsection \<open>Hexadecimal\<close>

lemma to_digit16_hex: "n < 16 \<Longrightarrow> to_digit16 (hex_digit n) = Some n"
  by (simp add: hex_digit_def to_digit16_def)

lemma hex_Cons: "hex (c # cs) = hex_digit (of_char c div 16) # hex_digit (of_char c mod 16) # hex cs"
  by (simp add: hex_def Let_def)

lemma hex_Nil [simp]: "hex [] = []"
  by (simp add: hex_def)

lemma length_hex [simp]: "length (hex bytes) = 2 * length bytes"
  by (induction bytes) (simp_all add: hex_Cons)

lemma decode_pairs_hex: "decode_pairs (hex bytes) = Some bytes"
proof (induction bytes)
  case (Cons c bytes)
  have "(of_char c :: nat) < 256" by simp
  then have "(of_char c :: nat) div 16 < 16" by (rule less_mult_imp_div_less [of _ 16 16, simplified])
  moreover have "char_of (16 * ((of_char c :: nat) div 16) + of_char c mod 16) = c" by (simp add: mult_div_mod_eq)
  ultimately show ?case using Cons.IH by (simp add: hex_Cons to_digit16_hex)
qed simp

text \<open>Decoding takes back what \<^const>\<open>hex\<close> wrote.\<close>

lemma decode_hex_hex [simp]: "decode_hex (hex bytes) = Some bytes"
  by (simp add: decode_hex_def decode_pairs_hex)

lemma hex_inject [simp]: "hex a = hex b \<longleftrightarrow> a = b"
  by (metis decode_hex_hex option.inject)

subsection \<open>Comparison in constant time\<close>

lemma or_zero_nat: "(a OR b :: nat) = 0 \<longleftrightarrow> a = 0 \<and> b = 0"
  by (auto simp: bit_eq_iff bit_or_iff)

lemma xor_zero_nat: "(a XOR b :: nat) = 0 \<longleftrightarrow> a = b"
  by (auto simp: bit_eq_iff bit_xor_iff)

lemma fold_or_zero: "fold (\<lambda>i d. d OR f i) xs (d :: nat) = 0 \<longleftrightarrow> d = 0 \<and> (\<forall>i\<in>set xs. f i = 0)"
  by (induction xs arbitrary: d) (auto simp: or_zero_nat)

text \<open>Every byte is looked at, and the verdict is that of the plain comparison.\<close>

lemma constant_time_eq_iff [simp]: "constant_time_eq expected candidate \<longleftrightarrow> expected = candidate"
proof -
  have "constant_time_eq expected candidate \<longleftrightarrow> length expected = length candidate \<and>
      (\<forall>i < max (length expected) (length candidate). byte_or_zero expected i = byte_or_zero candidate i)"
    by (auto simp: constant_time_eq_def fold_or_zero xor_zero_nat)
  also have "\<dots> \<longleftrightarrow> expected = candidate" by (auto simp: byte_or_zero_def list_eq_iff_nth_eq)
  finally show ?thesis .
qed

subsection \<open>Access verifiers\<close>

lemma derived_verifier:
  assumes "length salt = ACCESS_SALT_BYTES"
  shows "verifier_verify sha256 argon2 (verifier_derive sha256 salt code) candidate \<longleftrightarrow>
    sha256 (ACCESS_DOMAIN @ salt @ candidate) = sha256 (ACCESS_DOMAIN @ salt @ code)"
  using assms by (auto simp: verifier_verify_def verifier_derive_def access_digest_def)

lemma derived_password:
  assumes "length salt = ACCESS_SALT_BYTES" "argon2 code salt = Some digest"
  shows "\<exists>v. verifier_derive_password argon2 salt code = Some v \<and>
    (verifier_verify sha256 argon2 v candidate \<longleftrightarrow> length candidate \<le> 96 \<and> argon2 candidate salt = Some digest)"
  using assms by (auto simp: verifier_verify_def verifier_derive_password_def split: option.split)

subsection \<open>The vault\<close>

text \<open>The vault is sorted and within its capacity.\<close>

definition vault_ok :: "credential_vault \<Rightarrow> bool" where
  "vault_ok v \<longleftrightarrow> bt_sorted (cv_entries v) \<and> length (cv_entries v) \<le> cv_capacity v"

lemma vault_expired:
  assumes "bt_sorted (cv_entries v)"
  shows "bt_get (cv_entries (snd (vault_expire_at now v))) k =
    (case bt_get (cv_entries v) k of None \<Rightarrow> None | Some e \<Rightarrow> if now < st_expires_at e then Some e else None)"
  by (cases "bt_get (cv_entries v) k") (simp_all add: vault_expire_at_def Let_def bt_get_filter [OF assms])

lemma vault_expire_ok: "vault_ok v \<Longrightarrow> vault_ok (snd (vault_expire_at now v))"
  by (auto simp: vault_ok_def vault_expire_at_def Let_def bt_sorted_filter intro: order_trans [OF length_filter_le])

lemma fresh_token_verifier:
  "fresh_token sha256 drawn entries = Some (token, verifier) \<Longrightarrow> verifier = token_verifier sha256 token \<and> bt_get entries verifier = None"
  by (induction drawn) (auto simp: Let_def split: if_splits)

text \<open>A token that was issued authenticates its principal until it expires.\<close>

lemma vault_issued:
  assumes "vault_issue sha256 drawn now guest scope ttl v = Some (Inr issued, v')" "vault_ok v"
  shows "vault_ok v' \<and> bt_get (cv_entries v') (token_verifier sha256 (gr_token (ic_grant issued))) =
      Some \<lparr>st_expires_at = ic_expires_at issued, st_scope = scope, st_principal = guest\<rparr> \<and>
    ic_scope issued = scope \<and> ic_principal issued = guest \<and>
    (\<forall>k. k \<noteq> token_verifier sha256 (gr_token (ic_grant issued)) \<longrightarrow>
       bt_get (cv_entries v') k = bt_get (cv_entries (snd (vault_expire_at now v))) k) \<and>
    bt_get (cv_entries (snd (vault_expire_at now v))) (token_verifier sha256 (gr_token (ic_grant issued))) = None"
proof -
  let ?v = "snd (vault_expire_at now v)"
  let ?expires = "case system_time_add now ttl of Some t \<Rightarrow> t | None \<Rightarrow> 0"
  have ok: "vault_ok ?v" by (rule vault_expire_ok [OF assms(2)])
  have room: "length (cv_entries ?v) < cv_capacity ?v" using assms(1) by (auto simp: vault_issue_def Let_def split: if_splits)
  obtain token verifier where t: "fresh_token sha256 drawn (cv_entries ?v) = Some (token, verifier)"
      "issued = \<lparr>ic_grant = \<lparr>gr_token = token, gr_expires_at_unix_seconds = unix_seconds ?expires\<rparr>,
         ic_expires_at = ?expires, ic_scope = scope, ic_principal = guest\<rparr>"
      "v' = ?v\<lparr>cv_entries := bt_insert verifier \<lparr>st_expires_at = ?expires, st_scope = scope, st_principal = guest\<rparr> (cv_entries ?v),
         cv_issued := u64_saturating_add (cv_issued ?v) 1\<rparr>"
    using assms(1) room by (auto simp: vault_issue_def Let_def bind_eq_Some_conv)
  note fresh = fresh_token_verifier [OF t(1)]
  have "vault_ok v'"
    using ok room by (auto simp: t(3) vault_ok_def bt_sorted_insert intro: order_trans [OF length_bt_insert_le])
  then show ?thesis using fresh by (auto simp: t(2,3) bt_get_insert)
qed

lemma vault_new_ok: "vault_new capacity = Inr v \<Longrightarrow> vault_ok v"
  by (auto simp: vault_new_def vault_ok_def split: if_splits)

lemma vault_remove_ok: "vault_ok v \<Longrightarrow> vault_ok (v\<lparr>cv_entries := bt_remove k (cv_entries v)\<rparr>)"
  by (auto simp: vault_ok_def bt_sorted_filter bt_remove_def intro: order_trans [OF length_filter_le])

lemma vault_revoke_ok:
  assumes "vault_ok v"
  shows "vault_ok (snd (vault_revoke sha256 token v))" "vault_ok (snd (vault_revoke_principal guest v))"
  using assms vault_remove_ok [OF assms]
  by (auto simp: vault_revoke_def vault_revoke_principal_def Let_def vault_ok_def bt_sorted_filter intro: order_trans [OF length_filter_le])

lemma vault_authenticate_ok:
  assumes "vault_ok v"
  shows "vault_ok (snd (vault_authenticate sha256 now token role v))" "vault_ok (snd (vault_validate sha256 now token scope v))"
  using vault_expire_ok [OF assms, of now]
  by (auto simp: vault_authenticate_def vault_validate_def vault_reject_def Let_def vault_ok_def split: option.split)

text \<open>What an accepted rotation was given and what it leaves.\<close>

lemma vault_rotated:
  assumes "vault_authenticate_and_rotate sha256 drawn now token role ttl v = Some (Inr issued, v')" "vault_ok v"
  obtains stored where "bt_get (cv_entries v) (token_verifier sha256 token) = Some stored" "now < st_expires_at stored"
    "cs_role (st_scope stored) = role" "ic_principal issued = st_principal stored" "ic_scope issued = st_scope stored"
    "vault_ok v'" "bt_get (cv_entries v') (token_verifier sha256 (gr_token (ic_grant issued))) =
      Some \<lparr>st_expires_at = ic_expires_at issued, st_scope = st_scope stored, st_principal = st_principal stored\<rparr>"
    "\<And>k. k \<noteq> token_verifier sha256 (gr_token (ic_grant issued)) \<Longrightarrow> bt_get (cv_entries v') k =
      (if k = token_verifier sha256 token then None else bt_get (cv_entries (snd (vault_expire_at now v))) k)"
proof -
  let ?v = "snd (vault_expire_at now v)" and ?old = "token_verifier sha256 token"
  have ok: "vault_ok ?v" by (rule vault_expire_ok [OF assms(2)])
  have sorted: "bt_sorted (cv_entries v)" "bt_sorted (cv_entries ?v)" using assms(2) ok by (simp_all add: vault_ok_def)
  obtain stored where s: "bt_get (cv_entries ?v) ?old = Some stored" "cs_role (st_scope stored) = role"
      "vault_issue sha256 drawn now (st_principal stored) (st_scope stored) ttl (?v\<lparr>cv_entries := bt_remove ?old (cv_entries ?v)\<rparr>)
         = Some (Inr issued, v')"
    using assms(1) by (auto simp: vault_authenticate_and_rotate_def vault_reject_def Let_def split: option.splits if_splits)
  have old: "bt_get (cv_entries v) ?old = Some stored" "now < st_expires_at stored"
    using s(1) vault_expired [OF sorted(1), of now ?old] by (auto split: option.splits if_splits)
  note new = vault_issued [OF s(3) vault_remove_ok [OF ok]]
  have again: "bt_get (cv_entries (snd (vault_expire_at now (?v\<lparr>cv_entries := bt_remove ?old (cv_entries ?v)\<rparr>)))) k =
      (if k = ?old then None else bt_get (cv_entries ?v) k)" for k
    using vault_expired [of "?v\<lparr>cv_entries := bt_remove ?old (cv_entries ?v)\<rparr>" now k] bt_sorted_remove [OF sorted(2)]
      vault_expired [OF sorted(1), of now k] by (auto simp: bt_get_remove split: option.splits if_splits)
  show thesis by (rule that [OF old s(2)]) (use new again in auto)
qed

end
