(* ===== verification/Credential_Properties.thy ===== *)
theory Credential_Properties
  imports Credential_Facts "HOL-Library.Code_Target_Nat"
begin

text \<open>
  The properties of the credentials and of the stored histories: an access code opens its table and nothing else
  does, a rotated token is spent, and a stored history is read back exactly when no hand is in it twice.
\<close>

subsection \<open>Access codes\<close>

text \<open>
  The verifier of a private table holds no code, and yet it accepts exactly the candidates whose digest under
  its salt is that of the code: the code itself always, another one only as a collision of SHA-256 (or of Argon2,
  where a candidate longer than 96 bytes is refused before it is hashed). The comparison that looks at every byte
  and the hexadecimal coding of salt and digest lose nothing. A verifier with a digest of 32 bytes passes the check
  of a restored checkpoint.
\<close>

theorem verifier_accepts_exactly_the_code:
  assumes "length salt = ACCESS_SALT_BYTES"
  shows "(verifier_verify sha256 argon2 (verifier_derive sha256 salt code) candidate \<longleftrightarrow>
       access_digest sha256 salt candidate = access_digest sha256 salt code) \<and>
     (\<forall>v. verifier_derive_password argon2 salt code = Some v \<longrightarrow>
       (verifier_verify sha256 argon2 v candidate \<longleftrightarrow> length candidate \<le> 96 \<and> argon2 candidate salt = argon2 code salt)) \<and>
     (length (access_digest sha256 salt code) = 32 \<longrightarrow> verifier_valid (verifier_derive sha256 salt code))"
  using assms
  by (auto simp: derived_verifier access_digest_def verifier_derive_password_def verifier_verify_def verifier_valid_def
      verifier_derive_def split: option.splits)

theorem verifier_accepts_exactly_the_code_witness:
  "verifier_verify (\<lambda>bytes. rev bytes) (\<lambda>password salt. Some (salt @ password))
     (verifier_derive (\<lambda>bytes. rev bytes) ''sixteen-byte-slt'' ''open sesame'') ''open sesame'' \<and>
   \<not> verifier_verify (\<lambda>bytes. rev bytes) (\<lambda>password salt. Some (salt @ password))
     (verifier_derive (\<lambda>bytes. rev bytes) ''sixteen-byte-slt'' ''open sesame'') ''open'' \<and>
   verifier_verify (\<lambda>bytes. rev bytes) (\<lambda>password salt. Some (salt @ password))
     (the (verifier_derive_password (\<lambda>password salt. Some (salt @ password)) ''sixteen-byte-slt'' ''pass'')) ''pass''"
proof -
  have salt: "length ''sixteen-byte-slt'' = ACCESS_SALT_BYTES" by (simp add: ACCESS_SALT_BYTES_def)
  show ?thesis
    using verifier_accepts_exactly_the_code [OF salt, of "\<lambda>bytes. rev bytes" "\<lambda>password salt. Some (salt @ password)" "''open sesame''" "''open sesame''"]
      verifier_accepts_exactly_the_code [OF salt, of "\<lambda>bytes. rev bytes" "\<lambda>password salt. Some (salt @ password)" "''open sesame''" "''open''"]
      verifier_accepts_exactly_the_code [OF salt, of "\<lambda>bytes. rev bytes" "\<lambda>password salt. Some (salt @ password)" "''pass''" "''pass''"]
    by (simp add: access_digest_def verifier_derive_password_def)
qed

subsection \<open>Reconnect tokens\<close>

text \<open>
  C33: a reconnect token is good for one rotation. The rotation is granted only for a token that is known and has
  not expired and has the expected role; the grant names the same principal and the same scope; from then on the old
  token is unknown at every later time, the new one authenticates that principal until it expires, every other token
  is as good as it was, and the vault stays within its capacity. The one assumption on the random source is that the
  new token is not the old one again.
\<close>

theorem rotated_token_is_spent:
  assumes "vault_authenticate_and_rotate sha256 drawn now token role ttl v = Some (Inr issued, v')" "vault_ok v"
    and "token_verifier sha256 (gr_token (ic_grant issued)) \<noteq> token_verifier sha256 token"
  shows "fst (vault_authenticate sha256 now token role v) = Inr (ic_principal issued, ic_scope issued) \<and>
     cs_role (ic_scope issued) = role \<and> vault_ok v' \<and>
     (\<forall>later \<ge> now. fst (vault_authenticate sha256 later token role' v') = Inl CredentialUnknownOrExpired \<and>
        fst (vault_authenticate sha256 later (gr_token (ic_grant issued)) role v') =
          (if later < ic_expires_at issued then Inr (ic_principal issued, ic_scope issued) else Inl CredentialUnknownOrExpired) \<and>
        (token_verifier sha256 other \<notin> {token_verifier sha256 token, token_verifier sha256 (gr_token (ic_grant issued))} \<longrightarrow>
         fst (vault_authenticate sha256 later other role' v') = fst (vault_authenticate sha256 later other role' v)))"
proof -
  obtain stored where s: "bt_get (cv_entries v) (token_verifier sha256 token) = Some stored" "now < st_expires_at stored"
    "cs_role (st_scope stored) = role" "ic_principal issued = st_principal stored" "ic_scope issued = st_scope stored"
    "vault_ok v'" "bt_get (cv_entries v') (token_verifier sha256 (gr_token (ic_grant issued))) =
      Some \<lparr>st_expires_at = ic_expires_at issued, st_scope = st_scope stored, st_principal = st_principal stored\<rparr>"
    and rest: "\<And>k. k \<noteq> token_verifier sha256 (gr_token (ic_grant issued)) \<Longrightarrow> bt_get (cv_entries v') k =
      (if k = token_verifier sha256 token then None else bt_get (cv_entries (snd (vault_expire_at now v))) k)"
    by (rule vault_rotated [OF assms(1,2)]) blast
  have sorted: "bt_sorted (cv_entries v)" "bt_sorted (cv_entries v')" using assms(2) s(6) by (simp_all add: vault_ok_def)
  note expired = vault_expired [OF sorted(1)] vault_expired [OF sorted(2)]
  show ?thesis
    using s rest [of "token_verifier sha256 token"] rest [of "token_verifier sha256 other"] assms(3)
    by (auto simp: vault_authenticate_def vault_reject_def Let_def expired split: option.splits if_splits)
qed

definition sample_vault :: credential_vault where
  "sample_vault = \<lparr>cv_capacity = 2, cv_entries = [(token_verifier (\<lambda>b. b) ''old'', \<lparr>st_expires_at = 90,
     st_scope = \<lparr>cs_table_id = 1, cs_role = RoleReconnect\<rparr>, st_principal = ''ann''\<rparr>)], cv_issued = 1, cv_rejected = 0, cv_expired = 0\<rparr>"

definition rotated_vault :: "(issued_credential \<times> credential_vault) option" where
  "rotated_vault = (case vault_authenticate_and_rotate (\<lambda>b. b) [''x''] 10 ''old'' RoleReconnect 50 sample_vault of
     Some (Inr issued, v) \<Rightarrow> Some (issued, v) | _ \<Rightarrow> None)"

theorem rotated_token_is_spent_witness:
  "case rotated_vault of None \<Rightarrow> False | Some (issued, v') \<Rightarrow>
     fst (vault_authenticate (\<lambda>b. b) 20 ''old'' RoleReconnect v') = Inl CredentialUnknownOrExpired \<and>
     fst (vault_authenticate (\<lambda>b. b) 20 (gr_token (ic_grant issued)) RoleReconnect v') = Inr (''ann'', \<lparr>cs_table_id = 1, cs_role = RoleReconnect\<rparr>)"
proof -
  have ok: "vault_ok sample_vault" by (simp add: vault_ok_def sample_vault_def bt_sorted_def)
  have run: "case vault_authenticate_and_rotate (\<lambda>b. b) [''x''] 10 ''old'' RoleReconnect 50 sample_vault of
      Some (Inr issued, v') \<Rightarrow> token_verifier (\<lambda>b. b) (gr_token (ic_grant issued)) \<noteq> token_verifier (\<lambda>b. b) ''old'' \<and>
        20 < ic_expires_at issued \<and> ic_principal issued = ''ann'' \<and> ic_scope issued = \<lparr>cs_table_id = 1, cs_role = RoleReconnect\<rparr>
    | _ \<Rightarrow> False" by code_simp
  then obtain issued v' where r: "vault_authenticate_and_rotate (\<lambda>b. b) [''x''] 10 ''old'' RoleReconnect 50 sample_vault = Some (Inr issued, v')"
      "token_verifier (\<lambda>b. b) (gr_token (ic_grant issued)) \<noteq> token_verifier (\<lambda>b. b) ''old''"
      "20 < ic_expires_at issued" "ic_principal issued = ''ann''" "ic_scope issued = \<lparr>cs_table_id = 1, cs_role = RoleReconnect\<rparr>"
    by (auto split: option.splits prod.splits sum.splits)
  show ?thesis
    using rotated_token_is_spent [OF r(1) ok r(2), of RoleReconnect "''z''"] r by (simp add: rotated_vault_def)
qed

subsection \<open>Stored histories\<close>

definition history_well_formed :: "safe_ring_hand_history \<Rightarrow> bool" where
  "history_well_formed h \<longleftrightarrow> sh_version h = RING_HISTORY_VERSION \<and> length (sh_actions h) \<le> MAX_HISTORY_ACTIONS \<and>
     length (sh_board h) \<le> 5 \<and> (\<forall>c\<in>set (sh_publicly_revealed h). length (pb_cards c) = 2)"

definition history_identity :: "safe_ring_hand_history \<Rightarrow> table_id \<times> hand_id" where
  "history_identity h = (sh_table_id h, sh_hand_id h)"

lemma identities_fresh_iff:
  "list_all history_well_formed hs \<Longrightarrow>
   identities_fresh hs seen \<longleftrightarrow> distinct (map history_identity hs) \<and> history_identity ` set hs \<inter> seen = {}"
  by (induction hs arbitrary: seen) (auto simp: history_well_formed_def history_identity_def list_ex_iff)

text \<open>Statistics that are at least those of another, in every field.\<close>

definition at_least :: "ring_statistics \<Rightarrow> ring_statistics \<Rightarrow> bool" where
  "at_least s u \<longleftrightarrow> rs_hands u \<le> rs_hands s \<and> rs_showdowns u \<le> rs_showdowns s \<and> rs_accepted_actions u \<le> rs_accepted_actions s \<and>
     rs_pots_awarded u \<le> rs_pots_awarded s \<and> rs_chips_awarded u \<le> rs_chips_awarded s"

lemma at_least_count: "at_least s u \<Longrightarrow> at_least (count_history h s) (count_history h u)"
  by (auto simp: at_least_def count_history_def u64_saturating_add_def min_def)

lemma at_least_fold: "at_least s u \<Longrightarrow> at_least (fold count_history hs s) (fold count_history hs u)"
  by (induction hs arbitrary: s u) (auto intro: at_least_count)

lemma at_least_default: "at_least s ring_statistics_default"
  by (simp add: at_least_def ring_statistics_default_def)

text \<open>The store keeps the latest hands and counts all of them.\<close>

lemma record_all:
  "length (hi_histories store) \<le> MAX_RETAINED_HISTORIES \<Longrightarrow> fold history_record hs store =
     \<lparr>hi_histories = drop (length (hi_histories store) + length hs - MAX_RETAINED_HISTORIES) (hi_histories store @ hs),
      hi_statistics = fold count_history hs (hi_statistics store)\<rparr>"
proof (induction hs arbitrary: store)
  case (Cons h hs)
  have "length (hi_histories (history_record h store)) \<le> MAX_RETAINED_HISTORIES"
    using Cons.prems by (auto simp: history_record_def Let_def MAX_RETAINED_HISTORIES_def)
  note IH = Cons.IH [OF this]
  show ?case
  proof (cases "length (hi_histories store) = MAX_RETAINED_HISTORIES")
    case True
    then have "hi_histories store \<noteq> []" by (auto simp: MAX_RETAINED_HISTORIES_def)
    then show ?thesis
      using IH True by (auto simp: history_record_def Let_def drop_Suc tl_append2 MAX_RETAINED_HISTORIES_def)
  next
    case False
    then show ?thesis using IH Cons.prems by (simp add: history_record_def Let_def)
  qed
qed simp

text \<open>
  C34: A store that recorded any sequence of hands keeps the latest 512 of them and the statistics of all of them. The
  document that it writes is read back to the same store exactly when no two of the kept histories have the same table
  and hand identity; otherwise its own document is refused. A server that restarts with its history but without a
  registry checkpoint numbers its tables and hands from 1 again, so it writes such a document, and the next start
  ignores the whole history.
\<close>

theorem stored_history_read_back:
  assumes "store = fold history_record hs ring_history_store_default" "list_all history_well_formed hs"
    and "history_document to_vec sha256 store = Inr document"
  shows "hi_histories store = drop (length hs - MAX_RETAINED_HISTORIES) hs \<and>
    history_load to_vec sha256 document = (if distinct (map history_identity (hi_histories store)) then Inr store
      else Inl HistoryInvalidDocument)"
proof -
  let ?n = "length hs - MAX_RETAINED_HISTORIES"
  have store: "store = \<lparr>hi_histories = drop ?n hs, hi_statistics = fold count_history hs ring_statistics_default\<rparr>"
    using record_all [of ring_history_store_default hs] assms(1) by (simp add: ring_history_store_default_def)
  have "fold count_history hs ring_statistics_default =
      fold count_history (drop ?n hs) (fold count_history (take ?n hs) ring_statistics_default)"
    by (metis append_take_drop_id comp_apply fold_append)
  then have stats: "at_least (hi_statistics store) (fold count_history (drop ?n hs) ring_statistics_default)"
    by (simp add: store at_least_fold at_least_default)
  have wf: "list_all history_well_formed (drop ?n hs)" using assms(2) by (auto simp: list_all_iff dest: in_set_dropD)
  let ?p = "\<lparr>hp_retention_limit = MAX_RETAINED_HISTORIES, hp_histories = hi_histories store, hp_statistics = hi_statistics store\<rparr>"
  obtain checksum where c: "history_checksum to_vec sha256 ?p = Some checksum"
      "document = \<lparr>hv_format = HISTORY_STORE_FORMAT, hv_version = HISTORY_STORE_VERSION, hv_checksum = checksum, hv_payload = ?p\<rparr>"
    using assms(3) by (auto simp: history_document_def Let_def split: option.splits)
  have kept: "hi_histories store = drop ?n hs" "length (hi_histories store) \<le> MAX_RETAINED_HISTORIES" by (simp_all add: store)
  have "identities_fresh (hi_histories store) {} \<longleftrightarrow> distinct (map history_identity (hi_histories store))"
    using identities_fresh_iff [OF wf, of "{}"] by (simp add: kept(1))
  then have "validate_payload ?p = (if distinct (map history_identity (hi_histories store)) then Inr () else Inl HistoryInvalidDocument)"
    using stats by (simp add: validate_payload_def Let_def kept(1) at_least_def not_less)
  then show ?thesis
    using c(1) kept by (simp add: c(2) history_load_def Let_def)
qed

definition sample_history :: "hand_id \<Rightarrow> safe_ring_hand_history" where
  "sample_history h = \<lparr>sh_version = 1, sh_table_id = 1, sh_hand_id = h, sh_button = 0, sh_board = [], sh_actions = [],
     sh_publicly_revealed = [], sh_awards = [], sh_final_stacks = []\<rparr>"

definition sample_store :: "hand_id list \<Rightarrow> ring_history_store" where
  "sample_store hands = fold history_record (map sample_history hands) ring_history_store_default"

text \<open>Two hands are read back; after a restart without a checkpoint, the first hand of the first table is there twice.\<close>

theorem stored_history_read_back_witness:
  "map_sum id (history_load (\<lambda>p. Some ''json'') (\<lambda>b. b)) (history_document (\<lambda>p. Some ''json'') (\<lambda>b. b) (sample_store [1, 2]))
     = Inr (Inr (sample_store [1, 2])) \<and>
   map_sum id (history_load (\<lambda>p. Some ''json'') (\<lambda>b. b)) (history_document (\<lambda>p. Some ''json'') (\<lambda>b. b) (sample_store [1, 2, 1]))
     = Inr (Inl HistoryInvalidDocument)"
proof -
  have wf: "list_all history_well_formed (map sample_history hands)" for hands
    by (simp add: list_all_iff history_well_formed_def sample_history_def RING_HISTORY_VERSION_def)
  have "\<exists>d. history_document (\<lambda>p. Some ''json'') (\<lambda>b. b) store = Inr d" for store
    by (simp add: history_document_def Let_def history_checksum_def)
  then obtain d e where d: "history_document (\<lambda>p. Some ''json'') (\<lambda>b. b) (sample_store [1, 2]) = Inr d"
      "history_document (\<lambda>p. Some ''json'') (\<lambda>b. b) (sample_store [1, 2, 1]) = Inr e" by metis
  note loaded = stored_history_read_back [OF sample_store_def wf d(1)] stored_history_read_back [OF sample_store_def wf d(2)]
  have kept: "hi_histories (sample_store [1, 2]) = map sample_history [1, 2]"
      "hi_histories (sample_store [1, 2, 1]) = map sample_history [1, 2, 1]"
    using loaded by (simp_all add: MAX_RETAINED_HISTORIES_def)
  show ?thesis
    using loaded unfolding kept d by (simp add: history_identity_def sample_history_def)
qed

end
