(* ===== verification/Wire.thy ===== *)
theory Wire
  imports Protocol
begin

text \<open>
  The framing of the byte stream between a client and the server (src/src/network_transport.rs): a frame is the
  length of its payload in four bytes, the most significant first, and the payload. serde's JSON is an argument: \<open>ser\<close>
  yields the bytes of a message or an error text, \<open>de\<close> a message or an error text. A stream is a state with its
  reads, writes and flushes as arguments; the clock is part of that state.
\<close>

definition WIRE_VERSION :: u16 where
  "WIRE_VERSION = 5"

definition MAX_WIRE_FRAME_BYTES :: nat where
  "MAX_WIRE_FRAME_BYTES = 64 * 1024"

definition MAX_WIRE_BUFFER_BYTES :: nat where
  "MAX_WIRE_BUFFER_BYTES = (MAX_WIRE_FRAME_BYTES + 4) * 4"

definition WRITE_TIMEOUT :: nat where
  "WRITE_TIMEOUT = 5 * 1000"

subsection \<open>Errors\<close>

datatype io_error = IoInterrupted | IoWouldBlock | IoWriteZero | IoUnexpectedEof | IoTimedOut | IoBrokenPipe
  | IoConnectionAborted | IoConnectionReset | IoFailure string

fun io_display :: "io_error \<Rightarrow> string" where
  "io_display IoInterrupted = ''operation interrupted''"
| "io_display IoWouldBlock = ''operation would block''"
| "io_display IoWriteZero = ''peer accepted zero bytes''"
| "io_display IoUnexpectedEof = ''peer closed before connect''"
| "io_display IoTimedOut = ''peer did not send connect in time''"
| "io_display IoBrokenPipe = ''broken pipe''"
| "io_display IoConnectionAborted = ''connection aborted''"
| "io_display IoConnectionReset = ''connection reset''"
| "io_display (IoFailure message) = message"

datatype transport_error = TransportIo io_error | EmptyFrame | FrameTooLarge nat | BufferLimitExceeded
  | TruncatedFrame | MalformedJson string | WriteTimedOut

fun transport_error_display :: "transport_error \<Rightarrow> string" where
  "transport_error_display (TransportIo e) = ''transport I/O failed: '' @ io_display e"
| "transport_error_display EmptyFrame = ''zero-length wire frames are not allowed''"
| "transport_error_display (FrameTooLarge n) =
     ''wire frame length '' @ show_nat n @ '' exceeds '' @ show_nat MAX_WIRE_FRAME_BYTES @ '' bytes''"
| "transport_error_display BufferLimitExceeded =
     ''undecoded wire buffer exceeds '' @ show_nat MAX_WIRE_BUFFER_BYTES @ '' bytes''"
| "transport_error_display TruncatedFrame = ''peer closed with a partial wire frame''"
| "transport_error_display (MalformedJson message) = ''wire JSON is malformed: '' @ message"
| "transport_error_display WriteTimedOut = ''wire write exceeded the bounded timeout''"

subsection \<open>The header of a frame\<close>

text \<open>\<open>u32::to_be_bytes\<close> and \<open>u32::from_be_bytes\<close>.\<close>

definition to_be_bytes :: "u32 \<Rightarrow> string" where
  "to_be_bytes n = map char_of [n div 16777216, n div 65536, n div 256, n]"

definition from_be_bytes :: "string \<Rightarrow> u32" where
  "from_be_bytes bytes = foldl (\<lambda>n c. n * 256 + of_char c) 0 bytes"

subsection \<open>The decoder\<close>

record frame_decoder =
  fd_buffer :: string

definition frame_decoder_default :: frame_decoder where
  "frame_decoder_default = \<lparr>fd_buffer = []\<rparr>"

text \<open>The length that the first four bytes announce.\<close>

definition announced :: "string \<Rightarrow> nat" where
  "announced buffer = from_be_bytes (take 4 buffer)"

definition validate_announced_length :: "frame_decoder \<Rightarrow> transport_error + unit" where
  "validate_announced_length d =
    (if length (fd_buffer d) < 4 then Inr ()
     else let n = announced (fd_buffer d) in
       if n = 0 then Inl EmptyFrame
       else if MAX_WIRE_FRAME_BYTES < n then Inl (FrameTooLarge n)
       else Inr ())"

text \<open>The sum of the two lengths saturates in the code; neither is near the size of the address space.\<close>

definition decoder_push :: "string \<Rightarrow> frame_decoder \<Rightarrow> (transport_error + unit) \<times> frame_decoder" where
  "decoder_push bytes d =
    (if MAX_WIRE_BUFFER_BYTES < length (fd_buffer d) + length bytes then (Inl BufferLimitExceeded, d)
     else let d = d\<lparr>fd_buffer := fd_buffer d @ bytes\<rparr> in (validate_announced_length d, d))"

definition decode_next :: "(string \<Rightarrow> string + 'm) \<Rightarrow> frame_decoder
    \<Rightarrow> (transport_error + 'm option) \<times> frame_decoder" where
  "decode_next de d =
    (case validate_announced_length d of
       Inl e \<Rightarrow> (Inl e, d)
     | Inr _ \<Rightarrow>
         if length (fd_buffer d) < 4 then (Inr None, d)
         else let n = announced (fd_buffer d) in
           if length (fd_buffer d) < 4 + n then (Inr None, d)
           else let payload = take n (drop 4 (fd_buffer d));
                    d = d\<lparr>fd_buffer := drop (4 + n) (fd_buffer d)\<rparr>
                in (case de payload of
                      Inl message \<Rightarrow> Inl (MalformedJson message)
                    | Inr m \<Rightarrow> Inr (Some m), d))"

text \<open>The loop of \<open>finish\<close>; \<open>cursor\<close> is where the next frame starts.\<close>

function finish_from :: "string \<Rightarrow> nat \<Rightarrow> transport_error + unit" where
  "finish_from buffer cursor =
    (if cursor < length buffer then
       if length buffer - cursor < 4 then Inl TruncatedFrame
       else let n = announced (drop cursor buffer) in
         if n = 0 then Inl EmptyFrame
         else if MAX_WIRE_FRAME_BYTES < n then Inl (FrameTooLarge n)
         else if length buffer - cursor - 4 < n then Inl TruncatedFrame
         else finish_from buffer (cursor + (4 + n))
     else Inr ())"
  by pat_completeness auto

termination
  by (relation "measure (\<lambda>(buffer, cursor). length buffer - cursor)") (auto simp: Let_def)

declare finish_from.simps [simp del]

definition decoder_finish :: "frame_decoder \<Rightarrow> transport_error + unit" where
  "decoder_finish d = finish_from (fd_buffer d) 0"

definition buffered_len :: "frame_decoder \<Rightarrow> nat" where
  "buffered_len d = length (fd_buffer d)"

subsection \<open>Encoding\<close>

definition encode_frame :: "('m \<Rightarrow> string + string) \<Rightarrow> 'm \<Rightarrow> transport_error + string" where
  "encode_frame ser message =
    (case ser message of
       Inl e \<Rightarrow> Inl (MalformedJson e)
     | Inr payload \<Rightarrow>
         if payload = [] then Inl EmptyFrame
         else if MAX_WIRE_FRAME_BYTES < length payload then Inl (FrameTooLarge (length payload))
         else Inr (to_be_bytes (length payload) @ payload))"

subsection \<open>Reading and writing\<close>

text \<open>
  \<open>read\<close> yields at most 4096 bytes, none at the end of the stream. The loop runs until the stream would block, ends or
  fails; \<^const>\<open>None\<close> is a stream that never does.
\<close>

datatype read_status = ReadOpen | ReadClosed

partial_function (option) read_available :: "('s \<Rightarrow> (io_error + string) \<times> 's) \<Rightarrow> 's \<Rightarrow> frame_decoder
    \<Rightarrow> ((transport_error + read_status) \<times> 's \<times> frame_decoder) option" where
  "read_available read s d =
    (case read s of (r, s) \<Rightarrow>
     case r of
       Inr bytes \<Rightarrow>
         if bytes = [] then
           Some (case decoder_finish d of Inl e \<Rightarrow> Inl e | Inr _ \<Rightarrow> Inr ReadClosed, s, d)
         else (case decoder_push bytes d of (pushed, d) \<Rightarrow>
           case pushed of
             Inl e \<Rightarrow> Some (Inl e, s, d)
           | Inr _ \<Rightarrow> read_available read s d)
     | Inl e \<Rightarrow>
         if e = IoInterrupted then read_available read s d
         else if e = IoWouldBlock then Some (Inr ReadOpen, s, d)
         else Some (Inl (TransportIo e), s, d))"

text \<open>
  \<open>elapsed\<close> is the time since the write began, \<open>pause\<close> a millisecond of sleep.
\<close>

record 's stream_writer =
  sw_write :: "string \<Rightarrow> 's \<Rightarrow> (io_error + nat) \<times> 's"
  sw_flush :: "'s \<Rightarrow> (io_error + unit) \<times> 's"
  sw_elapsed :: "'s \<Rightarrow> nat"
  sw_pause :: "'s \<Rightarrow> 's"

partial_function (option) write_frame :: "'s stream_writer \<Rightarrow> string \<Rightarrow> nat \<Rightarrow> 's
    \<Rightarrow> ((transport_error + unit) \<times> 's) option" where
  "write_frame w frame written s =
    (if written < length frame then
       case sw_write w (drop written frame) s of (r, s) \<Rightarrow>
       case r of
         Inr taken \<Rightarrow> if taken = 0 then Some (Inl (TransportIo IoWriteZero), s)
           else write_frame w frame (written + taken) s
       | Inl e \<Rightarrow>
           if e = IoInterrupted then write_frame w frame written s
           else if e = IoWouldBlock then
             if WRITE_TIMEOUT \<le> sw_elapsed w s then Some (Inl WriteTimedOut, s)
             else write_frame w frame written (sw_pause w s)
           else Some (Inl (TransportIo e), s)
     else Some (Inr (), s))"

partial_function (option) flush_frame :: "'s stream_writer \<Rightarrow> 's \<Rightarrow> ((transport_error + unit) \<times> 's) option" where
  "flush_frame w s =
    (case sw_flush w s of (r, s) \<Rightarrow>
     case r of
       Inr _ \<Rightarrow> Some (Inr (), s)
     | Inl e \<Rightarrow>
         if e = IoWouldBlock then
           if WRITE_TIMEOUT \<le> sw_elapsed w s then Some (Inl WriteTimedOut, s)
           else flush_frame w (sw_pause w s)
         else Some (Inl (TransportIo e), s))"

definition write_message :: "('m \<Rightarrow> string + string) \<Rightarrow> 's stream_writer \<Rightarrow> 'm \<Rightarrow> 's
    \<Rightarrow> ((transport_error + unit) \<times> 's) option" where
  "write_message ser w message s =
    (case encode_frame ser message of
       Inl e \<Rightarrow> Some (Inl e, s)
     | Inr frame \<Rightarrow> Option.bind (write_frame w frame 0 s) (\<lambda>(r, s).
         case r of Inl e \<Rightarrow> Some (Inl e, s) | Inr _ \<Rightarrow> flush_frame w s))"

subsection \<open>The loop of a connection over the frames that have arrived\<close>

text \<open>
  \<open>while let Some(message) = decoder.decode_next()?\<close>: the messages in order, the error that ended the loop if any,
  and the decoder.
\<close>

lemma decode_next_shrinks:
  assumes "decode_next de d = (Inr (Some m), d')"
  shows "length (fd_buffer d') < length (fd_buffer d)"
  using assms by (auto simp: decode_next_def Let_def split: if_splits sum.splits)

function decode_all :: "(string \<Rightarrow> string + 'm) \<Rightarrow> frame_decoder
    \<Rightarrow> 'm list \<times> transport_error option \<times> frame_decoder" where
  "decode_all de d =
    (case decode_next de d of
       (Inl e, d') \<Rightarrow> ([], Some e, d')
     | (Inr None, d') \<Rightarrow> ([], None, d')
     | (Inr (Some m), d') \<Rightarrow> (case decode_all de d' of (ms, e, d'') \<Rightarrow> (m # ms, e, d'')))"
  by pat_completeness auto

termination
  by (relation "measure (\<lambda>(de, d). length (fd_buffer d))") (auto dest!: sym [THEN decode_next_shrinks])

declare decode_all.simps [simp del]

text \<open>A connection reads a chunk, then serves the messages that it completes; an error ends it.\<close>

fun receive :: "(string \<Rightarrow> string + 'm) \<Rightarrow> string list \<Rightarrow> frame_decoder
    \<Rightarrow> 'm list \<times> transport_error option \<times> frame_decoder" where
  "receive de [] d = ([], None, d)"
| "receive de (chunk # chunks) d =
    (case decoder_push chunk d of
       (Inl e, d) \<Rightarrow> ([], Some e, d)
     | (Inr _, d) \<Rightarrow> (case decode_all de d of
           (ms, Some e, d) \<Rightarrow> (ms, Some e, d)
         | (ms, None, d) \<Rightarrow> (case receive de chunks d of (ms', e, d) \<Rightarrow> (ms @ ms', e, d))))"

subsection \<open>Facts on frames\<close>

text \<open>
  Facts on frames: the header, one step of the decoder on a longer buffer, and that the messages a connection serves
  do not depend on how the bytes were cut into chunks.
\<close>

subsection \<open>The header\<close>

lemma length_to_be_bytes [simp]: "length (to_be_bytes n) = 4"
  by (simp add: to_be_bytes_def)

lemma from_to_be_bytes:
  assumes "n < u32_bound"
  shows "from_be_bytes (to_be_bytes n) = n"
proof -
  have digits: "x div 256 * 256 + x mod 256 = x" for x :: nat
    by simp
  have shifts: "n div 65536 = n div 256 div 256" "n div 16777216 = n div 256 div 256 div 256"
    by (simp_all add: div_mult2_eq [symmetric])
  have "n div 16777216 mod 256 = n div 256 div 256 div 256"
    using assms by (simp add: shifts(2) [symmetric] u32_bound_def)
  then show ?thesis
    unfolding from_be_bytes_def to_be_bytes_def by (simp add: shifts digits)
qed

lemma announced_append [simp]: "4 \<le> length a \<Longrightarrow> announced (a @ b) = announced a"
  by (simp add: announced_def)

definition wire_frame :: "string \<Rightarrow> string" where
  "wire_frame payload = to_be_bytes (length payload) @ payload"

definition fits_frame :: "string \<Rightarrow> bool" where
  "fits_frame payload \<longleftrightarrow> payload \<noteq> [] \<and> length payload \<le> MAX_WIRE_FRAME_BYTES"

lemma announced_frame: "fits_frame p \<Longrightarrow> announced (wire_frame p @ b) = length p"
  by (simp add: announced_def wire_frame_def fits_frame_def MAX_WIRE_FRAME_BYTES_def from_to_be_bytes u32_bound_def)

lemma encode_frame_Inr: "encode_frame ser m = Inr f \<longleftrightarrow> (\<exists>p. ser m = Inr p \<and> fits_frame p \<and> f = wire_frame p)"
  by (auto simp: encode_frame_def fits_frame_def wire_frame_def split: sum.split)

subsection \<open>One step of the decoder\<close>

definition in_buffer :: "string \<Rightarrow> frame_decoder" where
  "in_buffer b = \<lparr>fd_buffer = b\<rparr>"

lemma in_buffer [simp]: "fd_buffer (in_buffer b) = b" "in_buffer (fd_buffer d) = d" "in_buffer a = in_buffer b \<longleftrightarrow> a = b"
  "d\<lparr>fd_buffer := b\<rparr> = in_buffer b"
  by (simp_all add: in_buffer_def)

lemma validate_append:
  "validate_announced_length (in_buffer a) = Inl e \<Longrightarrow> validate_announced_length (in_buffer (a @ b)) = Inl e"
  by (auto simp: validate_announced_length_def Let_def split: if_splits)

text \<open>What the decoder has decided stays decided when more bytes arrive.\<close>

lemma decode_next_append:
  "decode_next de (in_buffer a) = (Inl e, in_buffer r) \<Longrightarrow> decode_next de (in_buffer (a @ b)) = (Inl e, in_buffer (r @ b))"
  "decode_next de (in_buffer a) = (Inr (Some m), in_buffer r) \<Longrightarrow>
     decode_next de (in_buffer (a @ b)) = (Inr (Some m), in_buffer (r @ b))"
  by (auto simp: decode_next_def validate_announced_length_def Let_def split: if_splits sum.splits)

lemma decode_next_frame:
  assumes "fits_frame p"
  shows "decode_next de (in_buffer (wire_frame p @ b)) =
    (case de p of Inl message \<Rightarrow> Inl (MalformedJson message) | Inr m \<Rightarrow> Inr (Some m), in_buffer b)"
  using assms announced_frame [OF assms, of b]
  by (simp add: decode_next_def validate_announced_length_def fits_frame_def wire_frame_def split: sum.split)

lemma decode_next_waiting:
  "decode_next de d = (Inr None, d') \<Longrightarrow> d' = d \<and> length (fd_buffer d) < MAX_WIRE_FRAME_BYTES + 4"
  by (auto simp: decode_next_def validate_announced_length_def Let_def MAX_WIRE_FRAME_BYTES_def split: if_splits sum.splits)

lemma decode_next_invalid: "validate_announced_length d = Inl e \<Longrightarrow> decode_next de d = (Inl e, d)"
  by (simp add: decode_next_def)

subsection \<open>All messages of a buffer\<close>

lemma decode_all_cases:
  "decode_next de d = (Inl e, d') \<Longrightarrow> decode_all de d = ([], Some e, d')"
  "decode_next de d = (Inr None, d') \<Longrightarrow> decode_all de d = ([], None, d')"
  "decode_next de d = (Inr (Some m), d') \<Longrightarrow> decode_all de d = (case decode_all de d' of (ms, e, d'') \<Rightarrow> (m # ms, e, d''))"
  by (simp_all add: decode_all.simps [of de d])

lemma decode_next_outcomes:
  obtains e b where "decode_next de d = (Inl e, in_buffer b)"
  | "decode_next de d = (Inr None, d)"
  | m b where "decode_next de d = (Inr (Some m), in_buffer b)"
proof -
  obtain r d' where "decode_next de d = (r, d')" by fastforce
  then show ?thesis
    using that decode_next_waiting [of de d d'] in_buffer(2) [of d'] by (metis not_Some_eq old.sum.exhaust)
qed

lemma decode_all_drained: "decode_all de d = (ms, None, d') \<Longrightarrow> decode_next de d' = (Inr None, d')"
proof (induction de d arbitrary: ms rule: decode_all.induct)
  case (1 de d)
  show ?case
  proof (cases rule: decode_next_outcomes [of de d])
    case (3 m b)
    then show ?thesis using 1 by (auto simp: decode_all_cases split: prod.splits)
  qed (use 1 in \<open>auto simp: decode_all_cases\<close>)
qed

lemma decode_all_append:
  assumes "decode_all de (in_buffer a) = (ms, e, r)"
  shows "case e of
      Some err \<Rightarrow> \<exists>r'. decode_all de (in_buffer (a @ b)) = (ms, Some err, r')
    | None \<Rightarrow> decode_all de (in_buffer (a @ b)) =
        (case decode_all de (in_buffer (fd_buffer r @ b)) of (ms', e', r') \<Rightarrow> (ms @ ms', e', r'))"
  using assms
proof (induction "length a" arbitrary: a ms e r rule: less_induct)
  case less
  show ?case
  proof (cases rule: decode_next_outcomes [of de "in_buffer a"])
    case (1 err c)
    then show ?thesis
      using less.prems decode_all_cases(1) [OF decode_next_append(1) [OF 1], of b] by (auto simp: decode_all_cases)
  next
    case 2
    then show ?thesis using less.prems by (auto simp: decode_all_cases split: prod.splits)
  next
    case (3 m c)
    obtain ms' e' r' where rest: "decode_all de (in_buffer c) = (ms', e', r')" by (metis prod_cases3)
    have "length c < length a" using decode_next_shrinks [OF 3] by simp
    from less.hyps [OF this rest] show ?thesis
      using less.prems rest decode_all_cases(3) [OF 3] decode_all_cases(3) [OF decode_next_append(2) [OF 3], of b]
      by (auto split: option.splits prod.splits)
  qed
qed

lemma push_accepts:
  assumes "length (fd_buffer d) < MAX_WIRE_FRAME_BYTES + 4" "length chunk \<le> 3 * (MAX_WIRE_FRAME_BYTES + 4)"
  shows "decoder_push chunk d = (validate_announced_length (in_buffer (fd_buffer d @ chunk)), in_buffer (fd_buffer d @ chunk))"
  using assms by (simp add: decoder_push_def MAX_WIRE_BUFFER_BYTES_def Let_def)

lemma receive_is_decode_all:
  assumes "decode_next de d = (Inr None, d)" "\<forall>c\<in>set chunks. length c \<le> 3 * (MAX_WIRE_FRAME_BYTES + 4)"
    and "decode_all de (in_buffer (fd_buffer d @ concat chunks)) = (ms, e, r)"
  shows "\<exists>r'. receive de chunks d = (ms, e, r') \<and> (e = None \<longrightarrow> r' = r)"
  using assms
proof (induction chunks arbitrary: d ms)
  case Nil
  then show ?case by (auto simp: decode_all_cases)
next
  case (Cons c cs)
  define a where "a = fd_buffer d @ c"
  have push: "decoder_push c d = (validate_announced_length (in_buffer a), in_buffer a)"
    using push_accepts decode_next_waiting [OF Cons.prems(1)] Cons.prems(2) by (simp add: a_def)
  obtain ms1 e1 r1 where front: "decode_all de (in_buffer a) = (ms1, e1, r1)" by (metis prod_cases3)
  show ?case
  proof (cases "validate_announced_length (in_buffer a)")
    case (Inl err)
    have "decode_all de (in_buffer (a @ concat cs)) = ([], Some err, in_buffer (a @ concat cs))"
      by (rule decode_all_cases(1) [OF decode_next_invalid [OF validate_append [OF Inl]]])
    then show ?thesis using Cons.prems(3) Inl push by (auto simp: a_def)
  next
    case (Inr u)
    show ?thesis
    proof (cases e1)
      case None
      obtain ms2 e2 r2 where behind: "decode_all de (in_buffer (fd_buffer r1 @ concat cs)) = (ms2, e2, r2)" by (metis prod_cases3)
      have whole: "ms = ms1 @ ms2" "e = e2" "r = r2"
        using decode_all_append [OF front, of "concat cs"] Cons.prems(3) None behind by (simp_all add: a_def)
      obtain r' where "receive de cs r1 = (ms2, e2, r') \<and> (e2 = None \<longrightarrow> r' = r2)"
        using Cons.IH [OF decode_all_drained, of "in_buffer a" ms1 r1 ms2] front None behind Cons.prems(2) whole(2,3) by auto
      then show ?thesis using push Inr front None whole by simp
    next
      case (Some err)
      then show ?thesis using decode_all_append [OF front, of "concat cs"] Cons.prems(3) push Inr front by (auto simp: a_def)
    qed
  qed
qed

subsection \<open>Whole frames\<close>

lemma decode_all_frames:
  assumes "list_all2 (\<lambda>p m. fits_frame p \<and> de p = Inr m) ps ms"
  shows "decode_all de (in_buffer (concat (map wire_frame ps))) = (ms, None, frame_decoder_default)"
  using assms
proof (induction ps ms rule: list_all2_induct)
  case Nil
  show ?case by (simp add: decode_all.simps decode_next_def validate_announced_length_def frame_decoder_default_def in_buffer_def)
next
  case (Cons p ps m ms)
  then show ?case using decode_all_cases(3) [of de "in_buffer (wire_frame p @ concat (map wire_frame ps))"]
    by (simp add: decode_next_frame)
qed

lemma finish_shift: "finish_from (a @ b) (length a + k) = finish_from b k"
proof (induction "length b - k" arbitrary: k rule: less_induct)
  case less
  show ?case
    using less.hyps [of "k + (4 + announced (drop k b))"]
    by (subst (1 2) finish_from.simps) (auto simp: Let_def add.assoc)
qed

lemma finish_frame:
  assumes "fits_frame p"
  shows "finish_from (wire_frame p @ b) 0 = finish_from b 0"
proof -
  have "finish_from (wire_frame p @ b) 0 = finish_from (wire_frame p @ b) (4 + length p)"
    using assms announced_frame [OF assms, of b]
    by (subst finish_from.simps) (auto simp: fits_frame_def wire_frame_def Let_def)
  then show ?thesis using finish_shift [of "wire_frame p" b 0] by (simp add: wire_frame_def)
qed

lemma finish_frames: "list_all fits_frame ps \<Longrightarrow> finish_from (concat (map wire_frame ps) @ b) 0 = finish_from b 0"
  by (induction ps) (simp_all add: finish_frame)

subsection \<open>The end of the stream\<close>

lemma to_from_be_bytes:
  assumes "length b = 4"
  shows "to_be_bytes (from_be_bytes b) = b"
proof -
  obtain c1 c2 c3 c4 where b: "b = [c1, c2, c3, c4]"
    using assms by (auto simp: length_Suc_conv numeral_eq_Suc)
  have step: "(n * 256 + of_char c) div 256 = n" "char_of (n * 256 + of_char c :: nat) = c" for n :: nat and c :: char
    using nat_of_char_less_256 [of c] by (simp_all add: char_of_eq_iff take_bit_eq_mod)
  have shifts: "n div 65536 = n div 256 div 256" "n div 16777216 = n div 256 div 256 div 256" for n :: nat
    by (simp_all add: div_mult2_eq [symmetric])
  show ?thesis
    by (simp only: b to_be_bytes_def from_be_bytes_def foldl.simps list.map shifts step)
qed

theorem finish_accepts_whole_frames:
  "finish_from b 0 = Inr () \<longleftrightarrow> (\<exists>ps. list_all fits_frame ps \<and> b = concat (map wire_frame ps))" (is "_ \<longleftrightarrow> ?whole b")
proof
  show "finish_from b 0 = Inr () \<Longrightarrow> ?whole b"
  proof (induction "length b" arbitrary: b rule: less_induct)
    case less
    show ?case
    proof (cases "b = []")
      case False
      define p where "p = take (announced b) (drop 4 b)"
      have head: "4 \<le> length b" "0 < announced b" "announced b \<le> MAX_WIRE_FRAME_BYTES" "announced b \<le> length b - 4"
        using less.prems False by (subst (asm) finish_from.simps, auto simp: Let_def split: if_splits)+
      then have p: "length p = announced b" "fits_frame p"
        by (auto simp: p_def fits_frame_def)
      define r where "r = drop (4 + announced b) b"
      have "take 4 b = to_be_bytes (length p)"
        using head(1) p(1) to_from_be_bytes [of "take 4 b"] by (simp add: announced_def)
      then have b: "b = wire_frame p @ r"
        using append_take_drop_id [of 4 b] append_take_drop_id [of "announced b" "drop 4 b"]
        by (simp add: wire_frame_def p_def r_def add.commute)
      have "finish_from r 0 = Inr ()"
        using less.prems finish_frame [OF p(2), of r] b by simp
      moreover have "length r < length b"
        using head(1) by (simp add: r_def)
      ultimately obtain ps where "list_all fits_frame ps" "r = concat (map wire_frame ps)"
        using less.hyps by blast
      then have "list_all fits_frame (p # ps) \<and> b = concat (map wire_frame (p # ps))"
        using p(2) b by simp
      then show ?thesis by blast
    qed (auto intro: exI [of _ "[]"])
  qed
  show "?whole b \<Longrightarrow> finish_from b 0 = Inr ()"
    using finish_frames [of _ "[]"] by (auto simp: finish_from.simps [of "[]"])
qed

end
