(* ===== verification/Admission.thy ===== *)
theory Admission
  imports Prelude
begin

text \<open>
  The admission windows of the server (src/src/admission.rs): each address may pass \<open>limit\<close> times from the moment it
  is first seen until \<open>window\<close> has gone by. Addresses are the elements of any linear order, instants and durations
  are milliseconds.
\<close>

definition MAX_ADMISSION_ENTRIES :: nat where
  "MAX_ADMISSION_ENTRIES = 1024"

record 'ip admission =
  ad_entries :: "('ip, nat \<times> u32) btree" \<comment> \<open>since, count\<close>
  ad_limit :: u32
  ad_window :: nat

definition admission_new :: "u32 \<Rightarrow> nat \<Rightarrow> 'ip admission" where
  "admission_new limit window = \<lparr>ad_entries = [], ad_limit = limit, ad_window = window\<rparr>"

text \<open>\<open>now.saturating_duration_since(since) < window\<close>\<close>

definition window_open :: "nat \<Rightarrow> nat \<Rightarrow> nat \<Rightarrow> bool" where
  "window_open window now since \<longleftrightarrow> now - since < window"

definition admission_allow :: "'ip::linorder \<Rightarrow> nat \<Rightarrow> 'ip admission \<Rightarrow> bool \<times> 'ip admission" where
  "admission_allow ip now a =
    (let entries = filter (\<lambda>(_, since, _). window_open (ad_window a) now since) (ad_entries a);
         a = a\<lparr>ad_entries := entries\<rparr>
     in if bt_get entries ip = None \<and> MAX_ADMISSION_ENTRIES \<le> length entries then (False, a)
        else let (since, used) = (case bt_get entries ip of None \<Rightarrow> (now, 0) | Some e \<Rightarrow> e);
                 a = a\<lparr>ad_entries := bt_insert ip (since, used) entries\<rparr>
          in if ad_limit a \<le> used then (False, a)
             else (True, a\<lparr>ad_entries := bt_insert ip (since, u32_add used 1) entries\<rparr>))"

text \<open>The calls of a server, one after the other: who was let in, and the windows at the end.\<close>

fun admission_run :: "('ip::linorder \<times> nat) list \<Rightarrow> 'ip admission \<Rightarrow> bool list \<times> 'ip admission" where
  "admission_run [] a = ([], a)"
| "admission_run ((ip, now) # calls) a =
     (case admission_allow ip now a of (ok, a) \<Rightarrow>
      case admission_run calls a of (oks, a) \<Rightarrow> (ok # oks, a))"

text \<open>How often an address was let in.\<close>

definition passes :: "'ip \<Rightarrow> ('ip \<times> nat) list \<Rightarrow> bool list \<Rightarrow> nat" where
  "passes ip calls oks = length (filter (\<lambda>((j, _), ok). j = ip \<and> ok) (zip calls oks))"

subsection \<open>Sequences of calls\<close>

text \<open>
  The windows in any sequence of calls: their number is bounded, and what one address can still pass before the end of
  an interval that is shorter than a window.
\<close>

definition admission_ok :: "'ip::linorder admission \<Rightarrow> bool" where
  "admission_ok a \<longleftrightarrow> bt_sorted (ad_entries a) \<and> length (ad_entries a) \<le> MAX_ADMISSION_ENTRIES \<and> ad_limit a < u32_bound"

lemma admission_update [simp]:
  "ad_limit (a\<lparr>ad_entries := e\<rparr>) = ad_limit a" "ad_window (a\<lparr>ad_entries := e\<rparr>) = ad_window a"
  "ad_entries (a\<lparr>ad_entries := e\<rparr>) = e"
  by (cases a; simp)+

lemma length_bt_insert_room:
  "bt_sorted m \<Longrightarrow> length m \<le> n \<Longrightarrow> bt_get m k = None \<longrightarrow> length m < n \<Longrightarrow> length (bt_insert k v m) \<le> n"
  by (cases "bt_get m k") (simp_all add: length_bt_insert length_bt_insert_present)

lemma admission_new_ok: "limit < u32_bound \<Longrightarrow> admission_ok (admission_new limit window)"
  by (simp add: admission_ok_def admission_new_def bt_sorted_def)

text \<open>The windows that are still open at a call, and what the call does to them.\<close>

definition still_open :: "nat \<Rightarrow> 'ip::linorder admission \<Rightarrow> ('ip, nat \<times> u32) btree" where
  "still_open now a = filter (\<lambda>(_, since, _). window_open (ad_window a) now since) (ad_entries a)"

lemma still_open:
  assumes "admission_ok a"
  shows "bt_sorted (still_open now a)" "length (still_open now a) \<le> MAX_ADMISSION_ENTRIES"
    "bt_get (still_open now a) ip = (case bt_get (ad_entries a) ip of None \<Rightarrow> None
       | Some (since, used) \<Rightarrow> if window_open (ad_window a) now since then Some (since, used) else None)"
  using assms by (auto simp: still_open_def admission_ok_def bt_sorted_filter bt_get_filter intro: order_trans [OF length_filter_le]
      split: option.split)

lemma admission_allow_cases:
  assumes "admission_allow ip now a = (ok, a')"
  obtains (full) "bt_get (still_open now a) ip = None" "MAX_ADMISSION_ENTRIES \<le> length (still_open now a)" "\<not> ok"
      "a' = a\<lparr>ad_entries := still_open now a\<rparr>"
  | (spent) since used where "case bt_get (still_open now a) ip of None \<Rightarrow> (since, used) = (now, 0) | Some e \<Rightarrow> (since, used) = e"
      "bt_get (still_open now a) ip = None \<longrightarrow> length (still_open now a) < MAX_ADMISSION_ENTRIES"
      "ad_limit a \<le> used" "\<not> ok" "a' = a\<lparr>ad_entries := bt_insert ip (since, used) (still_open now a)\<rparr>"
  | (passed) since used where "case bt_get (still_open now a) ip of None \<Rightarrow> (since, used) = (now, 0) | Some e \<Rightarrow> (since, used) = e"
      "bt_get (still_open now a) ip = None \<longrightarrow> length (still_open now a) < MAX_ADMISSION_ENTRIES"
      "used < ad_limit a" "ok" "a' = a\<lparr>ad_entries := bt_insert ip (since, u32_add used 1) (still_open now a)\<rparr>"
proof (cases "bt_get (still_open now a) ip")
  case None
  then show ?thesis using assms that by (auto simp: admission_allow_def still_open_def [symmetric] Let_def split: if_splits)
next
  case (Some e)
  then show ?thesis using assms that by (cases e) (auto simp: admission_allow_def still_open_def [symmetric] Let_def split: if_splits)
qed

lemma admission_allow_ok:
  assumes "admission_allow ip now a = (ok, a')" "admission_ok a"
  shows "admission_ok a' \<and> ad_limit a' = ad_limit a \<and> ad_window a' = ad_window a"
  using assms(1)
proof (cases rule: admission_allow_cases)
  case full
  then show ?thesis using assms(2) still_open [OF assms(2), of now] by (simp add: admission_ok_def)
next
  case (spent since used)
  then show ?thesis using assms(2) still_open [OF assms(2), of now] length_bt_insert_room [of "still_open now a"]
    by (simp add: admission_ok_def bt_sorted_insert)
next
  case (passed since used)
  then show ?thesis using assms(2) still_open [OF assms(2), of now] length_bt_insert_room [of "still_open now a"]
    by (simp add: admission_ok_def bt_sorted_insert)
qed

lemma admission_run_ok:
  "admission_run calls a = (oks, a') \<Longrightarrow> admission_ok a \<Longrightarrow>
     admission_ok a' \<and> ad_limit a' = ad_limit a \<and> ad_window a' = ad_window a \<and> length oks = length calls"
proof (induction calls arbitrary: a oks)
  case (Cons c cs)
  obtain j now where c: "c = (j, now)" by fastforce
  obtain ok b where allow: "admission_allow j now a = (ok, b)" by fastforce
  obtain oks' where "oks = ok # oks'" "admission_run cs b = (oks', a')"
    using Cons.prems(1) c allow by (auto split: prod.splits)
  then show ?case using Cons.IH admission_allow_ok [OF allow Cons.prems(2)] by simp
qed simp

text \<open>
  What an address may still pass between \<open>t\<close> and the end of a window that begins at \<open>t\<close>: a window that began at \<open>t\<close>
  or later lasts to the end; an older one may give way to one more.
\<close>

definition room_after :: "nat \<Rightarrow> 'ip \<Rightarrow> 'ip admission \<Rightarrow> nat" where
  "room_after t ip a = (case bt_get (ad_entries a) ip of
     None \<Rightarrow> ad_limit a
   | Some (since, used) \<Rightarrow> ad_limit a - used + (if since < t then ad_limit a else 0))"

lemma admission_allow_room:
  assumes "admission_allow jp now a = (ok, a')" "admission_ok a" "t \<le> now" "now < t + ad_window a"
  shows "(if jp = ip \<and> ok then 1 else 0) + room_after t ip a' \<le> room_after t ip a"
proof -
  have lasts: "window_open (ad_window a) now since" if "t \<le> since" for since
    using that assms(3,4) by (simp add: window_open_def)
  have kept: "ad_limit a < u32_bound"
    using assms(2) by (simp add: admission_ok_def)
  have others: "room_after t ip (a\<lparr>ad_entries := still_open now a\<rparr>) \<le> room_after t ip a"
    using lasts by (auto simp: room_after_def still_open(3) [OF assms(2)] not_less split: option.split)
  show ?thesis
    using assms(1)
  proof (cases rule: admission_allow_cases)
    case full
    then show ?thesis using others by simp
  next
    case (spent since used)
    then show ?thesis using others assms(3)
      by (cases "bt_get (still_open now a) jp") (auto simp: room_after_def bt_get_insert cong: option.case_cong if_cong)
  next
    case (passed since used)
    then show ?thesis using others assms(3) kept
      by (cases "bt_get (still_open now a) jp") (auto simp: room_after_def bt_get_insert u32_add_exact cong: option.case_cong if_cong)
  qed
qed

lemma admission_run_room:
  assumes "admission_run calls a = (oks, a')" "admission_ok a" "\<forall>(j, now)\<in>set calls. t \<le> now \<and> now < t + ad_window a"
  shows "passes ip calls oks + room_after t ip a' \<le> room_after t ip a"
  using assms
proof (induction calls arbitrary: a oks)
  case (Cons c cs)
  obtain j now where c: "c = (j, now)" by fastforce
  obtain ok b where allow: "admission_allow j now a = (ok, b)" by fastforce
  obtain oks' where oks: "oks = ok # oks'" and run: "admission_run cs b = (oks', a')"
    using Cons.prems(1) c allow by (auto split: prod.splits)
  note b = admission_allow_ok [OF allow Cons.prems(2)]
  have "passes ip cs oks' + room_after t ip a' \<le> room_after t ip b"
    by (rule Cons.IH [OF run]) (use b Cons.prems(3) in auto)
  moreover have "(if j = ip \<and> ok then 1 else 0) + room_after t ip b \<le> room_after t ip a"
    by (rule admission_allow_room [OF allow Cons.prems(2)]) (use Cons.prems(3) c in auto)
  ultimately show ?case by (auto simp: passes_def oks c split: if_splits)
qed (simp add: passes_def)

lemma room_bound: "room_after t ip a \<le> 2 * ad_limit a"
  by (auto simp: room_after_def split: option.split)

end
