(* ===== verification/Network_Server.thy ===== *)
theory Network_Server
  imports Registry_Hands Wire Admission
begin

text \<open>
  The server of many tables (src/src/network_server.rs, with the messages of src/src/network_transport.rs): what it
  does with each message of each connection. One step is one turn of a connection's thread, or of the accepting loop,
  under the locks that the code takes; the sockets and the threads themselves are left out. A peer is the address of a
  connection, \<open>now\<close> and \<open>wall\<close> are the clocks, \<open>drawn\<close> the bytes of the random source, \<open>salt\<close> that of a new table.
\<close>

subsection \<open>Messages\<close>

datatype client_message = CliConnect u16 string "bearer_token option" \<comment> \<open>version, label, reconnect\<close>
  | CliLobby lobby_envelope | CliCommand command_envelope | CliSnapshotRequest | CliClose

record public_wire_error =
  pw_code :: string
  pw_message :: string

definition wire_error :: "string \<Rightarrow> string \<Rightarrow> public_wire_error" where
  "wire_error code message = \<lparr>pw_code = code, pw_message = message\<rparr>"

datatype server_message = SrvLobbyWelcome u16 u64 nat "public_table_summary list"
  | SrvLobby lobby_response | SrvLobbyError lobby_error
  | SrvWelcome subscription_update "reconnect_grant option"
  | SrvResponse authorized_table_response | SrvUpdate subscription_update
  | SrvError public_wire_error | SrvGoodbye

abbreviation refuse :: "string \<Rightarrow> string \<Rightarrow> server_message list" where
  "refuse code message \<equiv> [SrvError (wire_error code message)]"

subsection \<open>The state of the server\<close>

datatype 'ip connection_phase = PhRouting "bearer_token option" | PhLobby "'ip admission" | PhBound table_route

text \<open>
  Of the configuration and the server, what decides a step: the listener, the certificates and the paths of the files
  are left out, and the locks are the steps themselves. \<open>cn_guarded\<close>: the guard that gives up a pending
  registration at the end of the connection.
\<close>

record 'ip connection =
  cn_peer :: 'ip
  cn_guest :: guest_session_id
  cn_phase :: "'ip connection_phase"
  cn_guarded :: bool

record 'ip server =
  sr_registry :: registry
  sr_active :: "(guest_session_id, unit) btree"
  sr_connections :: "(nat, 'ip connection) btree"
  sr_completed_hands :: nat
  sr_seed_offset :: u64
  sr_admission :: "'ip admission"
  sr_request_budget :: "'ip admission"

record server_config =
  sg_secure :: bool \<comment> \<open>with TLS\<close>
  sg_seed_base :: "u64 option"
  sg_max_connections :: nat
  sg_idle_ttl :: nat

definition CONNECT_TIMEOUT :: nat where
  "CONNECT_TIMEOUT = 5 * 1000"

definition server_new :: "registry \<Rightarrow> 'ip server" where
  "server_new r = \<lparr>sr_registry = r, sr_active = [], sr_connections = [], sr_completed_hands = 0, sr_seed_offset = 0,
     sr_admission = admission_new 30 (10 * 1000), sr_request_budget = admission_new 60 (10 * 1000)\<rparr>"

definition with_registry :: "registry \<Rightarrow> 'ip server \<Rightarrow> 'ip server" where
  "with_registry r s = s\<lparr>sr_registry := r\<rparr>"

definition put_connection :: "nat \<Rightarrow> 'ip connection \<Rightarrow> 'ip server \<Rightarrow> 'ip server" where
  "put_connection c cn s = s\<lparr>sr_connections := bt_insert c cn (sr_connections s)\<rparr>"

text \<open>
  A step of a connection: \<^const>\<open>None\<close> is a panic, otherwise the messages written to it, the phase it goes on in
  (\<^const>\<open>None\<close>: its thread returns), and the registry.
\<close>

type_synonym 'ip turn = "(server_message list \<times> 'ip connection_phase option \<times> registry) option"

text \<open>
  A call through the handle of a route. The worker of a hand ends when its table rolls over, so the handle is that of
  the table's worker as long as the table plays the hand of the route, and closed afterwards.
\<close>

definition route_worker :: "table_route \<Rightarrow> registry \<Rightarrow> worker" where
  "route_worker route r = Option.bind (bt_get (rg_tables r) (tb_table_id route)) (\<lambda>t.
     if gt_hand_id t = Some (tb_hand_id route) then Option.bind (gt_runtime t) id else None)"

definition put_worker :: "table_route \<Rightarrow> worker \<Rightarrow> registry \<Rightarrow> registry" where
  "put_worker route w r = (case bt_get (rg_tables r) (tb_table_id route) of
     None \<Rightarrow> r
   | Some t \<Rightarrow> if gt_hand_id t = Some (tb_hand_id route) \<and> gt_runtime t \<noteq> None
       then put_table (tb_table_id route) (t\<lparr>gt_runtime := Some w\<rparr>) r else r)"

definition call_route :: "table_route \<Rightarrow> (worker \<Rightarrow> 'a \<times> worker) \<Rightarrow> registry \<Rightarrow> 'a \<times> registry" where
  "call_route route f r = (case f (route_worker route r) of (x, w) \<Rightarrow> (x, put_worker route w r))"

text \<open>The two ends of a subscription: the next update of its channel, and the drop of its receiver.\<close>

definition handle_recv :: "guest_session_id \<Rightarrow> worker
    \<Rightarrow> (authorized_table_error + subscription_update) option \<times> worker" where
  "handle_recv guest w = (case w of
     None \<Rightarrow> (None, None) | Some st \<Rightarrow> map_prod id Some (subscription_recv guest st))"

definition handle_drop :: "guest_session_id \<Rightarrow> worker \<Rightarrow> unit \<times> worker" where
  "handle_drop guest w = ((), map_option (subscription_drop guest) w)"

subsection \<open>A request to the lobby\<close>

definition admission_result :: "admission_outcome \<Rightarrow> lobby_result" where
  "admission_result outcome = (case outcome of
     AdmissionJoined joined \<Rightarrow> ResJoined (jo_table joined) (jo_seat joined) (jo_hand_id joined) (jo_ready joined)
   | AdmissionWaiting waiting \<Rightarrow> ResWaiting (wo_table waiting) (wo_position waiting))"

definition lobby_dispatch :: "'g services \<Rightarrow> string \<Rightarrow> nat \<Rightarrow> u64 option \<Rightarrow> guest_session_id \<Rightarrow> lobby_request \<Rightarrow> registry
    \<Rightarrow> lobby_result registry_result" where
  "lobby_dispatch sv salt now seed guest payload r = (case payload of
     ReqCreate config \<Rightarrow>
       reg_then (registry_create sv salt now config seed r) (\<lambda>table r. reg_ok (ResTable table) r)
   | ReqCreateTournament config \<Rightarrow>
       reg_then (create_tournament sv salt now config seed r) (\<lambda>table r. reg_ok (ResTable table) r)
   | ReqList f \<Rightarrow> reg_expect (registry_list f r) (\<lambda>tables. reg_ok (ResTables tables) r)
   | ReqInspect i code \<Rightarrow>
       reg_then (inspect_with_access sv i code r) (\<lambda>table r. reg_ok (ResTable table) r)
   | ReqJoin i seat code \<Rightarrow>
       reg_then (join_or_wait_with_access sv now guest i seat code r) (\<lambda>outcome r. reg_ok (admission_result outcome) r)
   | ReqJoinStatus \<Rightarrow>
       reg_then (admission_status guest r) (\<lambda>outcome r. reg_ok (admission_result outcome) r)
   | ReqCancelWait i \<Rightarrow>
       reg_then (cancel_wait now guest i r) (\<lambda>_ r. reg_ok (ResWaitCancelled i) r)
   | ReqHealth \<Rightarrow>
       reg_then (registry_health now r) (\<lambda>health r. reg_ok (ResHealth health) r))"

definition safe_request_id :: "string \<Rightarrow> bool" where
  "safe_request_id v \<longleftrightarrow> v \<noteq> [] \<and> length v \<le> MAX_LOBBY_REQUEST_ID_BYTES \<and>
     list_all (\<lambda>b. ascii_alphanumeric b \<or> b = CHR ''-'' \<or> b = CHR ''_'') v"

text \<open>A creation with a deterministic base draws the next offset, whether it succeeds or not.\<close>

definition draw_seed :: "u64 option \<Rightarrow> lobby_request \<Rightarrow> u64 \<Rightarrow> u64 option \<times> u64" where
  "draw_seed base payload offset = (case payload of
     ReqCreate _ \<Rightarrow> (case base of None \<Rightarrow> (None, offset) | Some b \<Rightarrow> (Some (u64_saturating_add b offset), u64_add offset 1))
   | ReqCreateTournament _ \<Rightarrow> (case base of None \<Rightarrow> (None, offset) | Some b \<Rightarrow> (Some (u64_saturating_add b offset), u64_add offset 1))
   | _ \<Rightarrow> (None, offset))"

definition apply_lobby_request :: "'g services \<Rightarrow> string \<Rightarrow> nat \<Rightarrow> u64 option \<Rightarrow> guest_session_id \<Rightarrow> lobby_envelope
    \<Rightarrow> u64 \<Rightarrow> registry \<Rightarrow> (lobby_response \<times> table_route option) registry_result \<times> u64" where
  "apply_lobby_request sv salt now base guest request offset r =
    (if le_version request \<noteq> LOBBY_PROTOCOL_VERSION
     then (reg_fail (registry_error RegUnsupportedVersion ''server supports only lobby protocol version 2'') r, offset)
     else if \<not> safe_request_id (le_request_id request)
     then (reg_fail (registry_error RegInvalidRequestId ''lobby request ID is invalid'') r, offset)
     else case draw_seed base (le_payload request) offset of (seed, offset) \<Rightarrow>
       (reg_then (lobby_dispatch sv salt now seed guest (le_payload request) r) (\<lambda>result r.
        reg_then (case result of
            ResJoined _ _ _ ready \<Rightarrow>
              if ready then reg_then (route_for_session guest r) (\<lambda>route r. reg_ok (Some route) r) else reg_ok None r
          | _ \<Rightarrow> reg_ok None r) (\<lambda>route r.
        reg_ok (\<lparr>lr_version = LOBBY_PROTOCOL_VERSION, lr_request_id = le_request_id request,
            lr_lobby_revision = rg_revision r, lr_result = result\<rparr>, route) r)), offset))"

subsection \<open>A connection at a table\<close>

text \<open>The subscription is dropped before the guard that disconnects the guest.\<close>

definition leave_table :: "nat \<Rightarrow> guest_session_id \<Rightarrow> table_route \<Rightarrow> registry \<Rightarrow> registry" where
  "leave_table now guest route r =
     snd (call_route route (handle_disconnect now guest)
       (snd (call_route route (handle_drop guest) r)))"

text \<open>
  The start of \<open>run_multi_bound_connection\<close>. A failed subscription ends the thread with the guard in place, which
  disconnects the guest again.
\<close>

definition bind_connection :: "'g services \<Rightarrow> string list \<Rightarrow> nat \<Rightarrow> nat \<Rightarrow> guest_session_id \<Rightarrow> table_route
    \<Rightarrow> reconnect_grant option \<Rightarrow> registry \<Rightarrow> 'ip turn" where
  "bind_connection sv drawn wall now guest route grant r =
    (case call_route route (handle_reconnect now guest) r of
       (Inl e, r) \<Rightarrow> Some (refuse (authorized_code_name (at_code e)) (at_message e), None, r)
     | (Inr _, r) \<Rightarrow>
    (case call_route route (handle_subscribe now guest) r of
       (Inl e, r) \<Rightarrow> Some (refuse (authorized_code_name (at_code e)) (at_message e), None,
           snd (call_route route (handle_disconnect now guest) r))
     | (Inr _, r) \<Rightarrow>
    (case call_route route (handle_recv guest) r of
       (Some (Inr initial), r) \<Rightarrow>
         (case grant of
            Some g \<Rightarrow> Some ([SrvWelcome initial (Some g)], Some (PhBound route), r)
          | None \<Rightarrow>
             Option.bind (issue_reconnect_credential sv drawn wall guest r) (\<lambda>(issued, r).
               case issued of
                 Inr g \<Rightarrow> Some ([SrvWelcome initial (Some g)], Some (PhBound route), r)
               | Inl _ \<Rightarrow> Some ([], None, leave_table now guest route r)))
     | (_, r) \<Rightarrow> Some ([], None, leave_table now guest route r))))"

definition bound_message :: "nat \<Rightarrow> guest_session_id \<Rightarrow> table_route \<Rightarrow> client_message \<Rightarrow> registry \<Rightarrow> 'ip turn" where
  "bound_message now guest route message r = (case message of
     CliCommand command \<Rightarrow>
       if ce_table_id command \<noteq> tb_table_id route
       then Some (refuse ''wrong_table'' ''session is routed to a different table'', Some (PhBound route), r)
       else (case call_route route (handle_submit now guest command) r of
           (Inr response, r) \<Rightarrow> Some ([SrvResponse response], Some (PhBound route), r)
         | (Inl e, r) \<Rightarrow> Some (refuse (authorized_code_name (at_code e)) (at_message e), Some (PhBound route), r))
   | CliSnapshotRequest \<Rightarrow>
       (case call_route route (handle_snapshot now guest) r of
          (Inl e, r) \<Rightarrow> Some (refuse (authorized_code_name (at_code e)) (at_message e), Some (PhBound route), r)
        | (Inr sn, r) \<Rightarrow>
            (case call_route route (handle_metrics now) r of
               (Inl _, r) \<Rightarrow> Some ([], None, r)
             | (Inr m, r) \<Rightarrow> Some ([SrvUpdate \<lparr>su_stream_sequence = tm_stream_sequence m, su_reason = ReasonInitial,
                 su_event = None, su_snapshot = sn, su_deadline = None\<rparr>], Some (PhBound route), r)))
   | CliLobby _ \<Rightarrow>
       Some (refuse ''already_joined'' ''lobby commands are unavailable after joining a table'', Some (PhBound route), r)
   | CliConnect _ _ _ \<Rightarrow>
       Some (refuse ''already_connected'' ''connect is valid only once'', Some (PhBound route), r)
   | CliClose \<Rightarrow> Some ([SrvGoodbye], None, r))"

text \<open>One update of the loop over \<open>try_recv\<close>.\<close>

definition deliver_update :: "guest_session_id \<Rightarrow> table_route \<Rightarrow> registry \<Rightarrow> 'ip turn" where
  "deliver_update guest route r =
    (case call_route route (handle_recv guest) r of
       (Some (Inr update), r) \<Rightarrow> Some ([SrvUpdate update], Some (PhBound route), r)
     | (_, r) \<Rightarrow> Some ([], Some (PhBound route), r))"

subsection \<open>Connections\<close>

text \<open>
  The connections of the server from their first message to their end, the accepting loop, and the sweeps of that loop
  (src/src/network_server.rs). The files that the sweep of finished hands writes are left out.
\<close>

subsection \<open>Accepting\<close>

datatype accepted = AcDropped | AcRejected "server_message list" | AcOpened

text \<open>\<open>running\<close> is the number of threads that have not returned, \<open>loopback\<close> whether the peer is on this host.\<close>

definition accept_peer :: "server_config \<Rightarrow> nat \<Rightarrow> bool \<Rightarrow> nat \<Rightarrow> 'ip::linorder \<Rightarrow> 'ip server \<Rightarrow> accepted \<times> 'ip server" where
  "accept_peer cfg running loopback now peer s =
    (if sg_max_connections cfg \<le> running then (AcDropped, s)
     else case (if sg_secure cfg then admission_allow peer now (sr_admission s) else (True, sr_admission s)) of
       (allowed, admission) \<Rightarrow>
       let s = s\<lparr>sr_admission := admission\<rparr>
       in if \<not> allowed then (AcDropped, s)
          else if \<not> loopback \<and> \<not> sg_secure cfg then (AcDropped, s)
          else if sg_max_connections cfg \<le> length (sr_active s) then
            (if sg_secure cfg then AcDropped
             else AcRejected (refuse ''connection_limit'' ''multi-table connection limit reached''), s)
          else (AcOpened, s))"

subsection \<open>The first message\<close>

text \<open>
  The start of \<open>handle_multi_table_connection\<close>, for the connection with the number \<open>c\<close>: a principal from a reconnect
  token, or the fresh one \<open>fresh\<close>.
\<close>

definition open_session :: "nat \<Rightarrow> 'ip \<Rightarrow> guest_session_id \<Rightarrow> bearer_token option \<Rightarrow> 'ip server
    \<Rightarrow> server_message list \<times> 'ip server" where
  "open_session c peer guest token s =
    (if bt_get (sr_active s) guest \<noteq> None
     then (refuse ''duplicate_active_session'' ''guest session already has an active connection'', s)
     else ([], put_connection c \<lparr>cn_peer = peer, cn_guest = guest, cn_phase = PhRouting token, cn_guarded = False\<rparr>
       (s\<lparr>sr_active := bt_insert guest () (sr_active s)\<rparr>)))"

definition first_message :: "'g services \<Rightarrow> nat \<Rightarrow> nat \<Rightarrow> 'ip \<Rightarrow> guest_session_id \<Rightarrow> client_message \<Rightarrow> 'ip server
    \<Rightarrow> (server_message list \<times> 'ip server) option" where
  "first_message sv wall c peer fresh message s = (case message of
     CliConnect version label reconnect \<Rightarrow>
       if version \<noteq> WIRE_VERSION
       then Some (refuse ''unsupported_wire_version'' ''server supports only wire version 3'', s)
       else (case reconnect of
           None \<Rightarrow> Some (open_session c peer fresh None s)
         | Some token \<Rightarrow>
             Option.bind (identify_reconnect sv wall token (sr_registry s)) (\<lambda>(found, r).
               let s = with_registry r s in
               case found of
                 Inl e \<Rightarrow> Some (refuse ''reconnect_rejected'' (ge_message e), s)
               | Inr owner \<Rightarrow> Some (open_session c peer owner (Some token) s)))
   | _ \<Rightarrow> Some (refuse ''connect_required'' ''first message must be connect'', s))"

subsection \<open>Finding the table\<close>

definition enter_lobby :: "guest_session_id \<Rightarrow> bearer_token option \<Rightarrow> registry \<Rightarrow> 'ip turn" where
  "enter_lobby guest token r =
    (if token \<noteq> None
     then Some (refuse ''reconnect_rejected'' ''reconnect credential no longer has a routed successor'', None, r)
     else case take_retired_update guest r of
       (Some update, r) \<Rightarrow> Some ([SrvWelcome update None], None, r)
     | (None, r) \<Rightarrow>
         do { capacity \<leftarrow> u8_try_from (rg_max_tables r);
              tables \<leftarrow> registry_list \<lparr>pf_seats = None, pf_starting_stack = None, pf_status = None, pf_joinable = None\<rparr> r;
              Some ([SrvLobbyWelcome LOBBY_PROTOCOL_VERSION (rg_revision r) capacity tables],
                Some (PhLobby (admission_new 30 (10 * 1000))), r) })"

text \<open>
  One turn of the loop over \<open>route_for_session\<close>; \<open>late\<close> when it has waited for \<^const>\<open>CONNECT_TIMEOUT\<close>.
\<close>

definition terminal_material :: "authorized_table_error + snapshot_envelope \<times> event_envelope list \<Rightarrow> bool" where
  "terminal_material material = (case material of
     Inl _ \<Rightarrow> True | Inr (sn, _) \<Rightarrow> pj_phase (sn_snapshot sn) \<in> {Showdown, HandComplete})"

definition route_turn :: "'g services \<Rightarrow> string list \<Rightarrow> nat \<Rightarrow> nat \<Rightarrow> bool \<Rightarrow> guest_session_id \<Rightarrow> bearer_token option
    \<Rightarrow> registry \<Rightarrow> 'ip turn" where
  "route_turn sv drawn wall now late guest token r = Option.bind (route_for_session guest r) (\<lambda>(found, r).
     case found of
       Inl _ \<Rightarrow>
         if tournament_break_pending guest r then Some ([], Some (PhRouting token), r)
         else enter_lobby guest token r
     | Inr route \<Rightarrow>
         (case call_route route (handle_safe_history_material now) r of (material, r) \<Rightarrow>
          if \<not> terminal_material material then
            (case token of
               None \<Rightarrow> bind_connection sv drawn wall now guest route None r
             | Some t \<Rightarrow>
                 Option.bind (authenticate_and_rotate_reconnect sv drawn wall t r) (\<lambda>(rotated, r).
                   case rotated of
                     Inl e \<Rightarrow> Some (refuse ''reconnect_rejected'' (ge_message e), None, r)
                   | Inr (authenticated, grant) \<Rightarrow>
                       if authenticated = guest then bind_connection sv drawn wall now guest route (Some grant) r
                       else Some (refuse ''reconnect_rejected''
                         ''reconnect credential principal changed during authentication'', None, r)))
          else if late then Some (refuse ''route_transition_timeout''
            ''successor hand route was not ready within five seconds'', None, r)
          else Some ([], Some (PhRouting token), r)))"

subsection \<open>Messages in the lobby\<close>

text \<open>Waiting has a budget of the connection; every other request spends that of the peer.\<close>

definition spend_budget :: "server_config \<Rightarrow> nat \<Rightarrow> 'ip::linorder \<Rightarrow> lobby_request \<Rightarrow> 'ip admission \<Rightarrow> 'ip admission
    \<Rightarrow> bool \<times> 'ip admission \<times> 'ip admission" where
  "spend_budget cfg now peer payload waiting budget =
    (if \<not> sg_secure cfg then (True, waiting, budget)
     else if payload = ReqJoinStatus
     then (case admission_allow peer now waiting of (ok, waiting) \<Rightarrow> (ok, waiting, budget))
     else (case admission_allow peer now budget of (ok, budget) \<Rightarrow> (ok, waiting, budget)))"

definition lobby_failure :: "string \<Rightarrow> table_registry_error \<Rightarrow> registry \<Rightarrow> server_message" where
  "lobby_failure request_id e r = SrvLobbyError \<lparr>ly_version = LOBBY_PROTOCOL_VERSION,
     ly_request_id = Some request_id, ly_lobby_revision = rg_revision r,
     ly_code = registry_code_name (ge_code e), ly_message = ge_message e\<rparr>"

definition lobby_message :: "'g services \<Rightarrow> server_config \<Rightarrow> string \<Rightarrow> string list \<Rightarrow> nat \<Rightarrow> nat \<Rightarrow> 'ip::linorder
    \<Rightarrow> guest_session_id \<Rightarrow> 'ip admission \<Rightarrow> client_message \<Rightarrow> 'ip server
    \<Rightarrow> (server_message list \<times> 'ip connection_phase option \<times> 'ip server) option" where
  "lobby_message sv cfg salt drawn wall now peer guest waiting message s = (case message of
     CliLobby request \<Rightarrow>
       (case spend_budget cfg now peer (le_payload request) waiting (sr_request_budget s) of (allowed, waiting, budget) \<Rightarrow>
        let s = s\<lparr>sr_request_budget := budget\<rparr> in
        if \<not> allowed then Some (refuse ''rate_limited'' ''Too many requests; please wait and retry'', None, s)
        else case apply_lobby_request sv salt now (sg_seed_base cfg) guest request (sr_seed_offset s) (sr_registry s) of
          (applied, offset) \<Rightarrow>
          let s = s\<lparr>sr_seed_offset := offset\<rparr> in
          Option.bind applied (\<lambda>(answer, r). case answer of
              Inl e \<Rightarrow> Some ([lobby_failure (le_request_id request) e r], Some (PhLobby waiting), with_registry r s)
            | Inr (response, None) \<Rightarrow> Some ([SrvLobby response], Some (PhLobby waiting), with_registry r s)
            | Inr (response, Some route) \<Rightarrow>
                map_option (\<lambda>(messages, phase, r). (SrvLobby response # messages, phase, with_registry r s))
                  (bind_connection sv drawn wall now guest route None r)))
   | CliConnect _ _ _ \<Rightarrow> Some (refuse ''already_connected'' ''connect is valid only once'', Some (PhLobby waiting), s)
   | CliClose \<Rightarrow> Some ([SrvGoodbye], None, s)
   | _ \<Rightarrow> Some (refuse ''table_join_required'' ''join a ready table before requesting table authority'',
       Some (PhLobby waiting), s))"

subsection \<open>The end of a connection\<close>

text \<open>
  The guards in the order in which they are dropped: the subscription and the seat, a pending registration, and the
  entry of the active sessions.
\<close>

definition end_connection :: "nat \<Rightarrow> nat \<Rightarrow> 'ip connection \<Rightarrow> 'ip server \<Rightarrow> 'ip server option" where
  "end_connection now c cn s =
    (let guest = cn_guest cn;
         r = (case cn_phase cn of PhBound route \<Rightarrow> leave_table now guest route (sr_registry s) | _ \<Rightarrow> sr_registry s)
     in map_option (\<lambda>r. s\<lparr>sr_registry := r, sr_active := bt_remove guest (sr_active s),
          sr_connections := bt_remove c (sr_connections s)\<rparr>)
        (if cn_guarded cn then cancel_pending_registration now guest r else Some r))"

text \<open>A turn goes on in its new phase, or the thread returns. The lobby puts the guard of the registration in place.\<close>

definition continue_connection :: "nat \<Rightarrow> nat \<Rightarrow> 'ip connection \<Rightarrow> server_message list \<times> 'ip connection_phase option \<times> 'ip server
    \<Rightarrow> (server_message list \<times> 'ip server) option" where
  "continue_connection now c cn result = (case result of
     (messages, Some phase, s) \<Rightarrow> Some (messages, put_connection c
        (cn\<lparr>cn_phase := phase, cn_guarded := cn_guarded cn \<or> (case phase of PhLobby _ \<Rightarrow> True | _ \<Rightarrow> False)\<rparr>) s)
   | (messages, None, s) \<Rightarrow> map_option (Pair messages) (end_connection now c cn s))"

definition lift_turn :: "'ip server \<Rightarrow> 'ip turn \<Rightarrow> (server_message list \<times> 'ip connection_phase option \<times> 'ip server) option" where
  "lift_turn s m = map_option (\<lambda>(messages, phase, r). (messages, phase, with_registry r s)) m"

subsection \<open>The steps of the server\<close>

datatype 'ip server_op =
    SvAccept nat bool 'ip \<comment> \<open>running threads, whether the peer is on this host\<close>
  | SvFirst nat 'ip guest_session_id client_message
  | SvRoute nat bool
  | SvMessage nat client_message
  | SvDeliver nat
  | SvEnd nat \<comment> \<open>the peer closed, or the stream failed\<close>
  | SvFinalize | SvHousekeep

text \<open>The values of one step that come from outside.\<close>

record environment =
  en_now :: nat
  en_wall :: nat
  en_salt :: string
  en_drawn :: "string list"

definition connection_op :: "'g services \<Rightarrow> server_config \<Rightarrow> environment \<Rightarrow> 'ip::linorder connection \<Rightarrow> 'ip server_op
    \<Rightarrow> 'ip server \<Rightarrow> (server_message list \<times> 'ip connection_phase option \<times> 'ip server) option" where
  "connection_op sv cfg en cn op s = (case (cn_phase cn, op) of
     (PhRouting token, SvRoute _ late) \<Rightarrow>
       lift_turn s (route_turn sv (en_drawn en) (en_wall en) (en_now en) late (cn_guest cn) token (sr_registry s))
   | (PhLobby waiting, SvMessage _ message) \<Rightarrow>
       lobby_message sv cfg (en_salt en) (en_drawn en) (en_wall en) (en_now en) (cn_peer cn) (cn_guest cn) waiting message s
   | (PhBound route, SvMessage _ message) \<Rightarrow>
       lift_turn s (bound_message (en_now en) (cn_guest cn) route message (sr_registry s))
   | (PhBound route, SvDeliver _) \<Rightarrow> lift_turn s (deliver_update (cn_guest cn) route (sr_registry s))
   | (phase, SvEnd _) \<Rightarrow> Some ([], None, s)
   | (phase, _) \<Rightarrow> Some ([], Some phase, s))"

fun op_connection :: "'ip server_op \<Rightarrow> nat option" where
  "op_connection (SvRoute c _) = Some c"
| "op_connection (SvMessage c _) = Some c"
| "op_connection (SvDeliver c) = Some c"
| "op_connection (SvEnd c) = Some c"
| "op_connection _ = None"

text \<open>
  \<^const>\<open>Inl\<close> is the error that ends the accepting loop, and with it the server. The sweep of the breaks ignores an
  error; the expiry follows it.
\<close>

definition finalize_step :: "'g services \<Rightarrow> nat \<Rightarrow> 'ip server \<Rightarrow> (table_registry_error + 'ip server) option" where
  "finalize_step sv now s = map_option (\<lambda>(finished, r). case finished of
       Inl e \<Rightarrow> Inl e
     | Inr n \<Rightarrow> Inr (s\<lparr>sr_registry := r, sr_completed_hands := sr_completed_hands s + n\<rparr>))
     (finalize_ready_hands sv now (sr_registry s))"

definition housekeeping :: "'g services \<Rightarrow> server_config \<Rightarrow> nat \<Rightarrow> 'ip server \<Rightarrow> 'ip server option" where
  "housekeeping sv cfg now s = map_option (\<lambda>(_, r). with_registry (snd (expire_inactive_at now (sg_idle_ttl cfg) r)) s)
     (advance_tournament_breaks sv now (sr_registry s))"

definition server_step :: "'g services \<Rightarrow> server_config \<Rightarrow> environment \<Rightarrow> 'ip::linorder server_op \<Rightarrow> 'ip server
    \<Rightarrow> (table_registry_error + server_message list \<times> 'ip server) option" where
  "server_step sv cfg en op s = (case op of
     SvAccept running loopback peer \<Rightarrow>
       (case accept_peer cfg running loopback (en_now en) peer s of
          (AcRejected messages, s) \<Rightarrow> Some (Inr (messages, s)) | (_, s) \<Rightarrow> Some (Inr ([], s)))
   | SvFirst c peer fresh message \<Rightarrow>
       if bt_get (sr_connections s) c \<noteq> None then Some (Inr ([], s))
       else map_option Inr (first_message sv (en_wall en) c peer fresh message s)
   | SvFinalize \<Rightarrow> map_option (map_sum id (Pair [])) (finalize_step sv (en_now en) s)
   | SvHousekeep \<Rightarrow> map_option (\<lambda>s. Inr ([], s)) (housekeeping sv cfg (en_now en) s)
   | _ \<Rightarrow>
       (case do { c \<leftarrow> op_connection op; cn \<leftarrow> bt_get (sr_connections s) c; Some (c, cn) } of
          None \<Rightarrow> Some (Inr ([], s))
        | Some (c, cn) \<Rightarrow> map_option Inr (Option.bind (connection_op sv cfg en cn op s)
            (continue_connection (en_now en) c cn))))"

end
