(* ===== verification/Network_Facts.thy ===== *)
theory Network_Facts
  imports Network_Server Registry_Runs
begin

text \<open>
  Every turn of a connection and every sweep returns and leaves a reachable registry; an open connection is the only
  one of its guest.
\<close>

subsection \<open>Methods and calls from a reachable registry\<close>

text \<open>A method or a turn that returns and leaves a reachable registry.\<close>

definition lands :: "'g services \<Rightarrow> 'a registry_result \<Rightarrow> bool" where
  "lands sv m \<longleftrightarrow> runs (\<lambda>res. registry_reachable sv) m"

definition turn_lands :: "'g services \<Rightarrow> 'ip turn \<Rightarrow> bool" where
  "turn_lands sv m \<longleftrightarrow> (\<exists>messages phase r. m = Some (messages, phase, r) \<and> registry_reachable sv r)"

lemma turn_lands_Some [simp]: "turn_lands sv (Some (messages, phase, r)) \<longleftrightarrow> registry_reachable sv r"
  by (simp add: turn_lands_def)

lemma lands_bind:
  assumes "lands sv m" "\<And>res r. m = Some (res, r) \<Longrightarrow> registry_reachable sv r \<Longrightarrow> turn_lands sv (f (res, r))"
  shows "turn_lands sv (Option.bind m f)"
  using assms by (auto simp: lands_def runs_def)

lemma lands_operation:
  assumes "registry_reachable sv r" "fair_services sv" "valid_op sv op r" "registry_step sv now op r = after m"
  shows "lands sv m"
proof -
  obtain r' where "after m = Some r'"
    using registry_step_alive [OF reachable_alive [OF assms(1,2)] assms(2,3), of now] assms(4) by auto
  moreover have "registry_reachable sv r'"
    by (rule registry_reachable.operate [OF assms(1,3), of now]) (simp only: assms(4) calculation)
  ultimately show ?thesis by (auto simp: lands_def runs_def)
qed

lemma lands_read: "registry_reachable sv r \<Longrightarrow> fair_services sv \<Longrightarrow> (alive r \<Longrightarrow> runs (\<lambda>res r'. r' = r) m) \<Longrightarrow> lands sv m"
  using reachable_alive by (auto simp: lands_def runs_def)

lemma call_route_lands:
  assumes "registry_reachable sv r" "fair_services sv" "\<And>st. snd (f (Some st)) = input_step input st" "\<not> shuts_down input"
  shows "registry_reachable sv (snd (call_route route f r))"
proof (cases "bt_get (rg_tables r) (tb_table_id route)")
  case (Some t)
  show ?thesis
  proof (cases "gt_hand_id t = Some (tb_hand_id route) \<and> gt_runtime t \<noteq> None")
    case True
    then obtain w where w: "gt_runtime t = Some w" by blast
    obtain st where st: "w = Some st"
      by (rule staffed_worker [OF alive_table(2) [OF reachable_alive [OF assms(1,2)] Some] w])
    obtain r' where step: "worker_step (tb_table_id route) input r = Some r'"
      using worker_step_alive [OF reachable_alive [OF assms(1,2)] assms(4)] by blast
    then have "snd (call_route route f r) = r'"
      using Some True w st assms(3) [of st]
      by (auto simp: call_route_def route_worker_def put_worker_def worker_step_def split: prod.split option.splits)
    moreover have "registry_reachable sv r'"
      by (rule registry_reachable.operate [OF assms(1), of "OpWorker (tb_table_id route) input"]) (simp_all add: assms(4) step)
    ultimately show ?thesis by simp
  qed (use assms(1) Some in \<open>auto simp: call_route_def put_worker_def split: prod.split\<close>)
qed (use assms(1) in \<open>simp add: call_route_def put_worker_def split: prod.split\<close>)

lemma handle_turns:
  "snd (handle_request now request (Some st)) = snd (runtime_turn now (Some request) st)"
  "snd (handle_reconnect now session (Some st)) = snd (runtime_turn now (Some (RtReconnect session)) st)"
  "snd (handle_subscribe now session (Some st)) = snd (runtime_turn now (Some (RtSubscribe session)) st)"
  "snd (handle_disconnect now session (Some st)) = snd (runtime_turn now (Some (RtDisconnect session)) st)"
  "snd (handle_snapshot now session (Some st)) = snd (runtime_turn now (Some (RtSnapshot session)) st)"
  "snd (handle_submit now session command (Some st)) = snd (runtime_turn now (Some (RtSubmit session command)) st)"
  "snd (handle_safe_history_material now (Some st)) = snd (runtime_turn now (Some RtSafeHistoryMaterial) st)"
  "snd (handle_metrics now (Some st)) = snd (runtime_turn now (Some RtMetrics) st)"
  by (auto simp: handle_request_def handle_reconnect_def handle_subscribe_def handle_disconnect_def handle_unit_def
      handle_snapshot_def handle_snapshot_request_def handle_submit_def handle_safe_history_material_def
      handle_metrics_def split: prod.split option.split runtime_answer.split)

text \<open>The calls that a connection makes.\<close>

definition plain_call :: "(worker \<Rightarrow> 'a \<times> worker) \<Rightarrow> bool" where
  "plain_call f \<longleftrightarrow> (\<exists>input. \<not> shuts_down input \<and> (\<forall>st. snd (f (Some st)) = input_step input st))"

lemma plain_turn:
  "(\<And>st. snd (f (Some st)) = snd (runtime_turn now (Some request) st)) \<Longrightarrow> request \<noteq> RtShutdown \<Longrightarrow> plain_call f"
  unfolding plain_call_def by (rule exI [of _ "Turn now (Some request)"]) simp

lemma plain_calls [simp]:
  "plain_call (handle_reconnect now session)" "plain_call (handle_subscribe now session)"
  "plain_call (handle_disconnect now session)" "plain_call (handle_snapshot now session)"
  "plain_call (handle_submit now session command)" "plain_call (handle_safe_history_material now)"
  "plain_call (handle_metrics now)" "plain_call (handle_recv session)" "plain_call (handle_drop session)"
proof -
  show "plain_call (handle_recv session)"
    unfolding plain_call_def by (rule exI [of _ "Receive session"]) (simp add: handle_recv_def)
  show "plain_call (handle_drop session)"
    unfolding plain_call_def by (rule exI [of _ "DropReceiver session"]) (simp add: handle_drop_def)
qed (rule plain_turn, rule handle_turns, simp)+

lemma call_lands:
  assumes "call_route route f r = (x, r')" "registry_reachable sv r" "fair_services sv" "plain_call f"
  shows "registry_reachable sv r' \<and> rg_credentials r' = rg_credentials r"
proof
  obtain input where "\<not> shuts_down input" "\<And>st. snd (f (Some st)) = input_step input st"
    using assms(4) unfolding plain_call_def by blast
  then have "registry_reachable sv (snd (call_route route f r))"
    using call_route_lands [OF assms(2,3)] by blast
  then show "registry_reachable sv r'" by (simp add: assms(1))
  show "rg_credentials r' = rg_credentials r"
    using assms(1) by (auto simp: call_route_def put_worker_def put_table_def split: prod.splits option.splits if_splits)
qed

lemma call_reachable:
  "registry_reachable sv r \<Longrightarrow> fair_services sv \<Longrightarrow> plain_call f \<Longrightarrow> registry_reachable sv (snd (call_route route f r))"
  using call_lands [OF prod.collapse [symmetric]] by blast

subsection \<open>A connection at a table\<close>

lemma leave_table_lands:
  assumes "registry_reachable sv r" "fair_services sv"
  shows "registry_reachable sv (leave_table now guest route r)"
  by (simp add: leave_table_def call_reachable assms)

lemma bind_connection_lands:
  assumes "registry_reachable sv r" "fair_services sv" "grant = None \<Longrightarrow> draws_token sv drawn (rg_credentials r)"
  shows "turn_lands sv (bind_connection sv drawn wall now guest route grant r)"
proof -
  obtain a1 r1 where c1: "call_route route (handle_reconnect now guest) r = (a1, r1)" by fastforce
  note l1 = call_lands [OF c1 assms(1,2) plain_calls(1)]
  obtain a2 r2 where c2: "call_route route (handle_subscribe now guest) r1 = (a2, r2)" by fastforce
  note l2 = call_lands [OF c2 conjunct1 [OF l1] assms(2) plain_calls(2)]
  obtain a3 r3 where c3: "call_route route (handle_recv guest) r2 = (a3, r3)" by fastforce
  note l3 = call_lands [OF c3 conjunct1 [OF l2] assms(2) plain_calls(8)]
  have issue: "lands sv (issue_reconnect_credential sv drawn wall guest r3)" if "grant = None"
    using assms(3) [OF that] l1 l2 l3 assms(2)
    by (intro lands_operation [of _ _ "OpIssueToken drawn wall guest"]) auto
  have gone: "registry_reachable sv (snd (call_route route (handle_disconnect now guest) r2))"
    by (simp add: call_reachable l2 assms(2))
  show ?thesis
    using l1 l2 l3 issue gone leave_table_lands [OF _ assms(2)]
    by (auto simp: bind_connection_def c1 c2 c3 lands_def runs_def split: sum.split option.split)
qed

lemma bound_message_lands:
  assumes "registry_reachable sv r" "fair_services sv"
  shows "turn_lands sv (bound_message now guest route message r)"
proof -
  obtain a1 r1 where c1: "call_route route (handle_snapshot now guest) r = (a1, r1)" by fastforce
  note l1 = call_lands [OF c1 assms plain_calls(4)]
  obtain a2 r2 where c2: "call_route route (handle_metrics now) r1 = (a2, r2)" by fastforce
  note l2 = call_lands [OF c2 conjunct1 [OF l1] assms(2) plain_calls(7)]
  have "registry_reachable sv r'" if "call_route route (handle_submit now guest command) r = (a, r')" for command a r'
    using call_lands [OF that assms plain_calls(5)] by blast
  then show ?thesis
    using l1 l2 assms(1) by (auto simp: bound_message_def c1 c2 split: sum.split client_message.split prod.split)
qed

lemma deliver_update_lands:
  assumes "registry_reachable sv r" "fair_services sv"
  shows "turn_lands sv (deliver_update guest route r)"
  using call_lands [OF _ assms plain_calls(8)]
  by (auto simp: deliver_update_def split: prod.split option.split sum.split)

subsection \<open>Requests to the lobby\<close>

fun valid_request :: "'g services \<Rightarrow> string \<Rightarrow> lobby_request \<Rightarrow> bool" where
  "valid_request sv salt (ReqCreate config) \<longleftrightarrow> valid_size (pc_seats config) \<and> hashes sv salt"
| "valid_request sv salt (ReqCreateTournament config) \<longleftrightarrow>
     sum_list (pp_shares_bps (tc_payout config)) = PAYOUT_BASIS_POINTS \<and> hashes sv salt"
| "valid_request sv salt _ \<longleftrightarrow> True"

abbreviation keeps_vault :: "registry \<Rightarrow> 'a registry_result \<Rightarrow> bool" where
  "keeps_vault r m \<equiv> leaves (\<lambda>res r'. rg_credentials r' = rg_credentials r) m"

lemma vault_frame [simp]:
  "rg_credentials (put_table i t r) = rg_credentials r" "rg_credentials (bump_revision r) = rg_credentials r"
  by (simp_all add: put_table_def bump_revision_def)

lemma registry_create_vault: "keeps_vault r (registry_create sv salt now config seed r)"
  by (auto simp: registry_create_def leaves_simps Let_def)

lemma create_tournament_vault: "keeps_vault r (create_tournament sv salt now config seed r)"
  by (auto simp: create_tournament_def leaves_simps Let_def intro!: leaves_mono [OF registry_create_vault])

lemma registry_join_vault: "keeps_vault r (registry_join sv now session i seat r)"
  by (auto simp: registry_join_def install_join_def leaves_simps Let_def split: prod.split option.split)

lemma join_or_wait_vault: "keeps_vault r (join_or_wait_with_access sv now session i seat code r)"
  using registry_join_vault by (auto simp: join_or_wait_with_access_def leaves_simps Let_def elim!: leaves_mono)

lemma cancel_wait_vault: "keeps_vault r (cancel_wait now session i r)"
  by (auto simp: cancel_wait_def cancel_registration_def leaves_simps Let_def split: option.split)

lemma health_tables_vault: "keeps_vault r (health_tables now ts r)"
proof (induction ts arbitrary: r)
  case (Cons e ts)
  obtain i t where e: "e = (i, t)" by fastforce
  have "keeps_vault r (health_tables now ts (put_table i t' r))" for t'
    using Cons.IH [of "put_table i t' r"] by simp
  then show ?case by (auto simp: e leaves_simps Let_def elim!: leaves_mono)
qed (simp add: leaves_simps)

lemma lobby_dispatch_vault: 
  assumes "alive r"
  shows "keeps_vault r (lobby_dispatch sv salt now seed guest payload r)"
proof (cases payload)
  case (ReqCreate config)
  then show ?thesis using registry_create_vault by (auto simp: lobby_dispatch_def leaves_simps elim!: leaves_mono)
next
  case (ReqCreateTournament config)
  then show ?thesis using create_tournament_vault by (auto simp: lobby_dispatch_def leaves_simps elim!: leaves_mono)
next
  case (ReqInspect i code)
  then show ?thesis
    using runsD [OF inspect_runs [OF assms, of sv i code]] by (auto simp: lobby_dispatch_def leaves_def reg_then_def reg_ok_def split: sum.splits)
next
  case (ReqJoin i seat code)
  then show ?thesis using join_or_wait_vault by (auto simp: lobby_dispatch_def leaves_simps elim!: leaves_mono)
next
  case ReqJoinStatus
  then show ?thesis
    using runsD [OF admission_status_runs [OF assms, of guest]] by (auto simp: lobby_dispatch_def leaves_def reg_then_def reg_ok_def split: sum.splits)
next
  case (ReqCancelWait i)
  then show ?thesis by (auto simp: lobby_dispatch_def leaves_simps intro!: leaves_mono [OF cancel_wait_vault])
next
  case ReqHealth
  then show ?thesis using health_tables_vault
    by (auto simp: lobby_dispatch_def registry_health_def leaves_simps elim!: leaves_mono)
qed (simp add: lobby_dispatch_def leaves_simps)

lemma lands_then_ok: "lands sv m \<Longrightarrow> lands sv (reg_then m (\<lambda>x r. reg_ok (g x) r))"
  by (auto simp: lands_def runs_def reg_then_def reg_ok_def split: sum.splits)

lemma lobby_dispatch_lands:
  assumes "registry_reachable sv r" "fair_services sv" "valid_request sv salt payload"
  shows "lands sv (lobby_dispatch sv salt now seed guest payload r)"
proof (cases payload)
  case (ReqCreate config)
  then show ?thesis
    using assms by (auto simp: lobby_dispatch_def intro!: lands_then_ok lands_operation [of sv r "OpCreate salt config seed" now])
next
  case (ReqCreateTournament config)
  then show ?thesis
    using assms by (auto simp: lobby_dispatch_def intro!: lands_then_ok lands_operation [of sv r "OpCreateTournament salt config seed" now])
next
  case (ReqList f)
  then show ?thesis
    using assms(1) registry_list_returns [OF reachable_alive [OF assms(1,2)], of f] by (auto simp: lobby_dispatch_def lands_def runs_simps)
next
  case (ReqInspect i code)
  then show ?thesis by (simp add: lobby_dispatch_def lands_then_ok [OF lands_read [OF assms(1,2) inspect_runs]])
next
  case (ReqJoin i seat code)
  then show ?thesis
    using assms by (auto simp: lobby_dispatch_def intro!: lands_then_ok lands_operation [of sv r "OpJoinOrWait guest i seat code" now])
next
  case ReqJoinStatus
  then show ?thesis by (simp add: lobby_dispatch_def lands_then_ok [OF lands_read [OF assms(1,2) admission_status_runs]])
next
  case (ReqCancelWait i)
  then show ?thesis
    using assms by (auto simp: lobby_dispatch_def intro!: lands_then_ok lands_operation [of sv r "OpCancelWait guest i" now])
next
  case ReqHealth
  then show ?thesis
    using assms by (auto simp: lobby_dispatch_def intro!: lands_then_ok lands_operation [of sv r OpHealth now])
qed

lemma apply_lobby_request_lands:
  assumes "registry_reachable sv r" "fair_services sv" "valid_request sv salt (le_payload request)"
  shows "runs (\<lambda>res r'. registry_reachable sv r' \<and> rg_credentials r' = rg_credentials r)
    (fst (apply_lobby_request sv salt now base guest request offset r))"
proof -
  obtain seed offset' where draw: "draw_seed base (le_payload request) offset = (seed, offset')" by fastforce
  have d: "runs (\<lambda>res r'. registry_reachable sv r' \<and> rg_credentials r' = rg_credentials r)
      (lobby_dispatch sv salt now seed guest (le_payload request) r)"
    using runs_leaves [OF lobby_dispatch_lands [OF assms, of now seed guest, unfolded lands_def]
        lobby_dispatch_vault [OF reachable_alive [OF assms(1,2)]]] by simp
  have route: "runs (\<lambda>res r2. r2 = r') (route_for_session guest r')" if "registry_reachable sv r'" for r'
    by (rule route_for_session_runs [OF reachable_alive [OF that assms(2)]])
  show ?thesis
    using assms(1) draw
    by (auto simp: apply_lobby_request_def runs_simps intro!: runs_mono [OF d] runs_mono [OF route] split: lobby_result.split)
qed

end
