(* ===== verification/Network_Runs.thy ===== *)
theory Network_Runs
  imports Network_Facts
begin

text \<open>The server over any sequence of its steps: its registry stays reachable, and a guest has one open connection.\<close>

subsection \<open>Turns\<close>

lemma enter_lobby_lands:
  assumes "registry_reachable sv r" "fair_services sv"
  shows "turn_lands sv (enter_lobby guest token r)"
proof -
  have "registry_reachable sv (snd (take_retired_update guest r))"
    by (rule registry_reachable.operate [OF assms(1), of "OpTakeRetired guest"]) simp_all
  moreover have "rg_max_tables r < 256"
    using registry_okD(1) [OF aliveD(1) [OF reachable_alive [OF assms]]] by (simp add: tables_ok_def MAX_TABLE_REGISTRY_CAPACITY_def)
  moreover have "\<exists>tables. registry_list f (snd (take_retired_update guest r)) = Some tables" for f
    using registry_list_returns [OF reachable_alive [OF assms], of f] by (simp add: take_retired_update_def registry_list_def)
  ultimately show ?thesis
    using assms(1)
    by (auto simp: enter_lobby_def u8_try_from_def take_retired_update_def turn_lands_def registry_list_def split: option.split)
qed

lemma route_turn_lands:
  assumes "registry_reachable sv r" "fair_services sv" "draws_token sv drawn (rg_credentials r)"
  shows "turn_lands sv (route_turn sv drawn wall now late guest token r :: 'b turn)"
proof -
  obtain found where found: "route_for_session guest r = Some (found, r)"
    using runsD [OF route_for_session_runs [OF reachable_alive [OF assms(1,2)]]] by blast
  show ?thesis
  proof (cases found)
    case (Inl e)
    then show ?thesis using assms(1) by (simp add: route_turn_def found enter_lobby_lands [OF assms(1,2)])
  next
    case (Inr route)
    obtain material r1 where c1: "call_route route (handle_safe_history_material now) r = (material, r1)" by fastforce
    note l1 = call_lands [OF c1 assms(1,2) plain_calls(6)]
    have rotate: "lands sv (authenticate_and_rotate_reconnect sv drawn wall t r1)" for t
      using l1 assms(2,3) by (intro lands_operation [of sv r1 "OpRotateToken drawn wall t"]) auto
    have bind: "turn_lands sv (bind_connection sv drawn wall now guest route grant r' :: 'b turn)"
      if "registry_reachable sv r'" "grant = None \<Longrightarrow> r' = r1" for grant r'
      using that l1 assms(3) by (intro bind_connection_lands [OF that(1) assms(2)]) auto
    show ?thesis
      using l1 Inr by (auto simp: route_turn_def found c1 split: option.split sum.split intro!: lands_bind [OF rotate] bind)
  qed
qed

definition same_connections :: "'ip server \<Rightarrow> 'ip server \<Rightarrow> bool" where
  "same_connections s s' \<longleftrightarrow> sr_active s' = sr_active s \<and> sr_connections s' = sr_connections s"

definition server_lands :: "'g services \<Rightarrow> 'ip server \<Rightarrow> (server_message list \<times> 'ip connection_phase option \<times> 'ip server) option \<Rightarrow> bool" where
  "server_lands sv s m \<longleftrightarrow>
     (\<exists>messages phase s'. m = Some (messages, phase, s') \<and> registry_reachable sv (sr_registry s') \<and> same_connections s s')"

lemma server_frame [simp]:
  "sr_registry (with_registry r s) = r" "sr_active (with_registry r s) = sr_active s"
  "sr_connections (with_registry r s) = sr_connections s"
  by (simp_all add: with_registry_def)

lemma lift_turn_lands: "turn_lands sv m \<Longrightarrow> server_lands sv s (lift_turn s m)"
  by (auto simp: turn_lands_def server_lands_def lift_turn_def same_connections_def)

lemma lobby_message_lands:
  assumes "registry_reachable sv (sr_registry s)" "fair_services sv" "draws_token sv drawn (rg_credentials (sr_registry s))"
    and "\<And>request. message = CliLobby request \<Longrightarrow> valid_request sv salt (le_payload request)"
  shows "server_lands sv s (lobby_message sv cfg salt drawn wall now (peer :: 'b::linorder) guest waiting message s)"
proof (cases message)
  case (CliLobby request)
  obtain allowed waiting' budget where spent:
      "spend_budget cfg now peer (le_payload request) waiting (sr_request_budget s) = (allowed, waiting', budget)" by (metis prod_cases3)
  obtain applied offset where answered:
      "apply_lobby_request sv salt now (sg_seed_base cfg) guest request (sr_seed_offset s) (sr_registry s) = (applied, offset)" by fastforce
  obtain answer r where r: "applied = Some (answer, r)" "registry_reachable sv r" "rg_credentials r = rg_credentials (sr_registry s)"
    using runsD [OF apply_lobby_request_lands [OF assms(1,2) assms(4) [OF CliLobby], of now "sg_seed_base cfg" guest "sr_seed_offset s"]]
      answered by auto
  have "turn_lands sv (bind_connection sv drawn wall now guest route None r :: 'b turn)" for route
    by (rule bind_connection_lands [OF r(2) assms(2)]) (simp add: r(3) assms(3))
  then have bound: "\<exists>messages (phase :: 'b connection_phase option) r'. bind_connection sv drawn wall now guest route None r =
      Some (messages, phase, r') \<and> registry_reachable sv r'" for route
    by (simp add: turn_lands_def)
  note simps = lobby_message_def spent answered r(1) server_lands_def same_connections_def Let_def
  show ?thesis
  proof (cases answer)
    case (Inr x)
    obtain response route where x: "x = (response, route)" by fastforce
    show ?thesis
    proof (cases route)
      case (Some route)
      then show ?thesis using assms(1) bound [of route] by (auto simp: simps CliLobby Inr x)
    qed (use assms(1) r(2) in \<open>simp add: simps CliLobby Inr x\<close>)
  qed (use assms(1) r(2) in \<open>simp add: simps CliLobby\<close>)
qed (use assms(1) in \<open>simp_all add: lobby_message_def server_lands_def same_connections_def\<close>)

subsection \<open>The open connections\<close>

text \<open>The active sessions are the guests of the open connections, each of one.\<close>

definition guest_at :: "'ip server \<Rightarrow> nat \<Rightarrow> guest_session_id option" where
  "guest_at s c = map_option cn_guest (bt_get (sr_connections s) c)"

definition is_active :: "'ip server \<Rightarrow> guest_session_id \<Rightarrow> bool" where
  "is_active s g \<longleftrightarrow> bt_get (sr_active s) g \<noteq> None"

definition connections_ok :: "'ip server \<Rightarrow> bool" where
  "connections_ok s \<longleftrightarrow> bt_sorted (sr_connections s) \<and> bt_sorted (sr_active s) \<and>
     (\<forall>g. is_active s g \<longleftrightarrow> (\<exists>c. guest_at s c = Some g)) \<and>
     (\<forall>c d g. guest_at s c = Some g \<longrightarrow> guest_at s d = Some g \<longrightarrow> c = d)"

definition server_ok :: "'g services \<Rightarrow> 'ip server \<Rightarrow> bool" where
  "server_ok sv s \<longleftrightarrow> registry_reachable sv (sr_registry s) \<and> connections_ok s"

lemma connections_ok_cong: "connections_ok s \<Longrightarrow> same_connections s s' \<Longrightarrow> connections_ok s'"
  by (simp add: connections_ok_def same_connections_def guest_at_def is_active_def)

lemma connections_ok_open:
  assumes "connections_ok s" "bt_get (sr_connections s) c = None" "\<not> is_active s (cn_guest cn)"
  shows "connections_ok (put_connection c cn (s\<lparr>sr_active := bt_insert (cn_guest cn) () (sr_active s)\<rparr>))" (is "connections_ok ?s")
proof -
  have views: "guest_at ?s d = (if d = c then Some (cn_guest cn) else guest_at s d)"
    "is_active ?s g \<longleftrightarrow> g = cn_guest cn \<or> is_active s g" for d g
    by (simp_all add: guest_at_def is_active_def put_connection_def bt_get_insert)
  have fresh: "guest_at s c = None" "\<And>d. guest_at s d \<noteq> Some (cn_guest cn)"
    using assms by (auto simp: guest_at_def connections_ok_def is_active_def)
  have "bt_sorted (sr_connections ?s)" "bt_sorted (sr_active ?s)"
    using assms(1) by (simp_all add: connections_ok_def put_connection_def bt_sorted_insert)
  moreover have "is_active ?s g \<longleftrightarrow> (\<exists>d. guest_at ?s d = Some g)" for g
  proof (cases "g = cn_guest cn")
    case False
    have "(\<exists>d. guest_at ?s d = Some g) \<longleftrightarrow> (\<exists>d. guest_at s d = Some g)"
      using False fresh(1) by (auto simp: views) (metis option.distinct(1))
    then show ?thesis using False assms(1) by (simp add: views(2) connections_ok_def)
  qed (auto simp: views intro: exI [of _ c])
  moreover have "d = e" if "guest_at ?s d = Some g" "guest_at ?s e = Some g" for d e g
    using that assms(1) fresh(2) unfolding views connections_ok_def by (metis option.inject)
  ultimately show ?thesis unfolding connections_ok_def by blast
qed

lemma connections_ok_continue:
  assumes "connections_ok s" "bt_get (sr_connections s) c = Some cn" "cn_guest cn' = cn_guest cn"
  shows "connections_ok (put_connection c cn' s)"
proof -
  have "guest_at (put_connection c cn' s) = guest_at s" "is_active (put_connection c cn' s) = is_active s"
    using assms(2,3) by (auto simp: guest_at_def is_active_def put_connection_def bt_get_insert)
  moreover have "bt_sorted (sr_connections (put_connection c cn' s))" "sr_active (put_connection c cn' s) = sr_active s"
    using assms(1) by (simp_all add: connections_ok_def put_connection_def bt_sorted_insert)
  ultimately show ?thesis using assms(1) unfolding connections_ok_def by simp
qed

lemma connections_ok_end:
  assumes "connections_ok s" "bt_get (sr_connections s) c = Some cn"
  shows "connections_ok (s\<lparr>sr_registry := r, sr_active := bt_remove (cn_guest cn) (sr_active s),
    sr_connections := bt_remove c (sr_connections s)\<rparr>)" (is "connections_ok ?s")
proof -
  have views: "guest_at ?s d = (if d = c then None else guest_at s d)"
    "is_active ?s g \<longleftrightarrow> g \<noteq> cn_guest cn \<and> is_active s g" for d g
    by (simp_all add: guest_at_def is_active_def bt_get_remove)
  have here: "guest_at s c = Some (cn_guest cn)"
    using assms(2) by (simp add: guest_at_def)
  have "bt_sorted (sr_connections ?s)" "bt_sorted (sr_active ?s)"
    using assms(1) by (simp_all add: connections_ok_def bt_sorted_remove)
  moreover have "is_active ?s g \<longleftrightarrow> (\<exists>d. guest_at ?s d = Some g)" for g
    using assms(1) here unfolding views connections_ok_def by (metis option.distinct(1) option.inject)
  moreover have "d = e" if "guest_at ?s d = Some g" "guest_at ?s e = Some g" for d e g
    using that assms(1) unfolding views connections_ok_def by (metis option.distinct(1))
  ultimately show ?thesis unfolding connections_ok_def by blast
qed

subsection \<open>The steps of the server\<close>

text \<open>What the types of a message and the environment grant, as for the operations of the registry.\<close>

definition valid_server_op :: "'g services \<Rightarrow> environment \<Rightarrow> 'ip server_op \<Rightarrow> 'ip server \<Rightarrow> bool" where
  "valid_server_op sv en op s \<longleftrightarrow> draws_token sv (en_drawn en) (rg_credentials (sr_registry s)) \<and>
     (\<forall>c request. op = SvMessage c (CliLobby request) \<longrightarrow> valid_request sv (en_salt en) (le_payload request))"

lemma first_message_ok:
  assumes "server_ok sv s" "fair_services sv" "bt_get (sr_connections s) c = None"
  shows "\<exists>messages s'. first_message sv wall c peer fresh message s = Some (messages, s') \<and> server_ok sv s'"
proof -
  have session: "\<exists>messages s'. open_session c peer guest token s1 = (messages, s') \<and> server_ok sv s'"
    if "server_ok sv s1" "bt_get (sr_connections s1) c = None" for guest token s1
  proof (cases "bt_get (sr_active s1) guest")
    case None
    then show ?thesis
      using that connections_ok_open [of s1 c "\<lparr>cn_peer = peer, cn_guest = guest, cn_phase = PhRouting token, cn_guarded = False\<rparr>"]
      by (simp add: open_session_def server_ok_def is_active_def) (simp add: put_connection_def)
  qed (use that in \<open>simp add: open_session_def\<close>)
  have identify: "\<exists>found r. identify_reconnect sv wall token (sr_registry s) = Some (found, r) \<and> registry_reachable sv r" for token
    using lands_operation [of sv "sr_registry s" "OpIdentify wall token" _ "identify_reconnect sv wall token (sr_registry s)"] assms(1,2) by (auto simp: lands_def runs_def server_ok_def)
  show ?thesis
  proof (cases message)
    case (CliConnect version label reconnect)
    show ?thesis
    proof (cases reconnect)
      case None
      then show ?thesis using assms(1) session [OF assms(1,3)] CliConnect by (auto simp: first_message_def)
    next
      case (Some token)
      obtain found r where r: "identify_reconnect sv wall token (sr_registry s) = Some (found, r)" "registry_reachable sv r"
        using identify by blast
      then have "server_ok sv (with_registry r s)" "bt_get (sr_connections (with_registry r s)) c = None"
        using assms(1,3) connections_ok_cong [of s "with_registry r s"] by (simp_all add: server_ok_def same_connections_def)
      then show ?thesis
        using assms(1) session r(1) Some CliConnect by (cases found) (auto simp: first_message_def)
    qed
  qed (use assms(1) in \<open>simp_all add: first_message_def\<close>)
qed

lemma end_connection_ok:
  assumes "server_ok sv s" "fair_services sv" "bt_get (sr_connections s) c = Some cn"
  shows "\<exists>s'. end_connection now c cn s = Some s' \<and> server_ok sv s'"
proof -
  define r where "r = (case cn_phase cn of PhBound route \<Rightarrow> leave_table now (cn_guest cn) route (sr_registry s) | _ \<Rightarrow> sr_registry s)"
  have r: "registry_reachable sv r"
    using assms(1) leave_table_lands [OF _ assms(2)] by (simp add: r_def server_ok_def split: connection_phase.split)
  obtain r' where "cancel_pending_registration now (cn_guest cn) r = Some r'"
    using cancel_pending_alive [OF reachable_alive [OF r assms(2)]] by blast
  moreover from this have "registry_reachable sv r'"
    by (intro registry_reachable.operate [OF r, of "OpCancelPending (cn_guest cn)" now]) simp_all
  ultimately show ?thesis
    using r assms(1) connections_ok_end [OF _ assms(3)]
    by (simp add: end_connection_def Let_def r_def [symmetric] server_ok_def)
qed

lemma continue_connection_ok:
  assumes "server_lands sv s m" "connections_ok s" "fair_services sv" "bt_get (sr_connections s) c = Some cn"
  shows "\<exists>messages s'. Option.bind m (continue_connection now c cn) = Some (messages, s') \<and> server_ok sv s'"
proof -
  obtain messages phase s1 where m: "m = Some (messages, phase, s1)" "registry_reachable sv (sr_registry s1)" "same_connections s s1"
    using assms(1) by (auto simp: server_lands_def)
  have s1: "server_ok sv s1" "bt_get (sr_connections s1) c = Some cn"
    using m(2,3) assms(2,4) connections_ok_cong by (auto simp: server_ok_def same_connections_def)
  show ?thesis
  proof (cases phase)
    case None
    then show ?thesis using end_connection_ok [OF s1(1) assms(3) s1(2), of now] by (auto simp: m(1) continue_connection_def)
  next
    case (Some ph)
    then show ?thesis using s1 connections_ok_continue [OF _ s1(2)]
      by (simp add: m(1) continue_connection_def server_ok_def put_connection_def)
  qed
qed

lemma connection_op_lands:
  assumes "server_ok sv s" "fair_services sv" "valid_server_op sv en op s"
  shows "server_lands sv s (connection_op sv cfg en cn op s)"
proof -
  have ok: "registry_reachable sv (sr_registry s)" "draws_token sv (en_drawn en) (rg_credentials (sr_registry s))"
    using assms by (simp_all add: server_ok_def valid_server_op_def)
  have stay: "server_lands sv s (Some (messages, phase, s))" for messages phase
    using ok(1) by (simp add: server_lands_def same_connections_def)
  show ?thesis
    using assms(3) ok stay
    by (auto simp: connection_op_def valid_server_op_def split: connection_phase.split server_op.split
        intro!: lift_turn_lands route_turn_lands lobby_message_lands bound_message_lands deliver_update_lands assms(2))
qed

lemma finalize_step_ok:
  assumes "server_ok sv s" "fair_services sv"
  shows "\<exists>res. finalize_step sv now s = Some res \<and> (\<forall>s'. res = Inr s' \<longrightarrow> server_ok sv s')"
proof -
  obtain finished r where r: "finalize_ready_hands sv now (sr_registry s) = Some (finished, r)" "registry_reachable sv r"
    using lands_operation [of sv "sr_registry s" OpFinalizeReady now "finalize_ready_hands sv now (sr_registry s)"] assms by (auto simp: lands_def runs_def server_ok_def)
  have "server_ok sv (s\<lparr>sr_registry := r, sr_completed_hands := n\<rparr>)" for n
    using assms(1) r(2) connections_ok_cong [of s "s\<lparr>sr_registry := r, sr_completed_hands := n\<rparr>"]
    by (simp add: server_ok_def same_connections_def)
  then show ?thesis using r(1) by (cases finished) (simp_all add: finalize_step_def)
qed

lemma housekeeping_ok:
  assumes "server_ok sv s" "fair_services sv"
  shows "\<exists>s'. housekeeping sv cfg now s = Some s' \<and> server_ok sv s'"
proof -
  obtain res r where r: "advance_tournament_breaks sv now (sr_registry s) = Some (res, r)" "registry_reachable sv r"
    using lands_operation [of sv "sr_registry s" OpAdvanceBreaks now "advance_tournament_breaks sv now (sr_registry s)"] assms by (auto simp: lands_def runs_def server_ok_def)
  have "registry_reachable sv (snd (expire_inactive_at now (sg_idle_ttl cfg) r))"
    by (rule registry_reachable.operate [OF r(2), of "OpExpire (sg_idle_ttl cfg)" now]) simp_all
  then show ?thesis
    using assms(1) r(1) connections_ok_cong [of s]
    by (auto simp: housekeeping_def server_ok_def same_connections_def split: prod.split)
qed

theorem server_step_ok:
  assumes "server_ok sv s" "fair_services sv" "valid_server_op sv en op s"
  shows "\<exists>res. server_step sv cfg en op s = Some res \<and> (\<forall>messages s'. res = Inr (messages, s') \<longrightarrow> server_ok sv s')"
proof -
  have connection: "\<exists>res. (case do { c \<leftarrow> op_connection op; cn \<leftarrow> bt_get (sr_connections s) c; Some (c, cn) } of
          None \<Rightarrow> Some (Inr ([], s))
        | Some (c, cn) \<Rightarrow> map_option Inr (Option.bind (connection_op sv cfg en cn op s)
            (continue_connection (en_now en) c cn))) = Some res \<and>
        (\<forall>messages s'. res = Inr (messages, s') \<longrightarrow> server_ok sv s')"
  proof (cases "do { c \<leftarrow> op_connection op; cn \<leftarrow> bt_get (sr_connections s) c; Some (c, cn) }")
    case (Some e)
    then obtain c cn where e: "e = (c, cn)" "bt_get (sr_connections s) c = Some cn" by (auto split: bind_splits)
    obtain messages s' where "Option.bind (connection_op sv cfg en cn op s) (continue_connection (en_now en) c cn) = Some (messages, s')"
        "server_ok sv s'"
      using continue_connection_ok [OF connection_op_lands [OF assms], of c] e(2) assms(1,2) unfolding server_ok_def by blast
    then show ?thesis using Some e(1) by simp
  qed (use assms(1) in simp)
  have step: "server_step sv cfg en op s = (case do { c \<leftarrow> op_connection op; cn \<leftarrow> bt_get (sr_connections s) c; Some (c, cn) } of
          None \<Rightarrow> Some (Inr ([], s))
        | Some (c, cn) \<Rightarrow> map_option Inr (Option.bind (connection_op sv cfg en cn op s)
            (continue_connection (en_now en) c cn)))" if "op_connection op \<noteq> None"
    using that by (cases op; hypsubst) (simp_all add: server_step_def)
  have "?thesis" if "op_connection op \<noteq> None"
    unfolding step [OF that] by (rule connection)
  then show ?thesis
  proof (cases op)
    case (SvAccept running loopback peer)
    obtain outcome s' where a: "accept_peer cfg running loopback (en_now en) peer s = (outcome, s')" by fastforce
    then have "same_connections s s'" "sr_registry s' = sr_registry s"
      by (auto simp: accept_peer_def same_connections_def Let_def split: if_splits prod.splits)
    then have "server_ok sv s'" using assms(1) connections_ok_cong by (auto simp: server_ok_def)
    then show ?thesis using SvAccept a by (cases outcome) (simp_all add: server_step_def)
  next
    case (SvFirst c peer fresh message)
    then show ?thesis
      using assms(1) first_message_ok [OF assms(1,2), of c "en_wall en" peer fresh message] by (auto simp: server_step_def)
  next
    case SvFinalize
    obtain res where "finalize_step sv (en_now en) s = Some res" "\<forall>s'. res = Inr s' \<longrightarrow> server_ok sv s'"
      using finalize_step_ok [OF assms(1,2)] by blast
    then show ?thesis using SvFinalize by (cases res) (simp_all add: server_step_def)
  next
    case SvHousekeep
    then show ?thesis using housekeeping_ok [OF assms(1,2), of cfg "en_now en"] by (auto simp: server_step_def)
  qed simp_all
qed

subsection \<open>Reachable servers\<close>

inductive server_reachable :: "'g services \<Rightarrow> server_config \<Rightarrow> 'ip::linorder server \<Rightarrow> bool" for sv cfg where
  started: "registry_reachable sv r \<Longrightarrow> server_reachable sv cfg (server_new r)"
| stepped: "server_reachable sv cfg s \<Longrightarrow> valid_server_op sv en op s
    \<Longrightarrow> server_step sv cfg en op s = Some (Inr (messages, s')) \<Longrightarrow> server_reachable sv cfg s'"

theorem server_reachable_ok:
  assumes "server_reachable sv cfg s" "fair_services sv"
  shows "server_ok sv s"
  using assms(1)
proof induction
  case (started r)
  then show ?case by (simp add: server_ok_def connections_ok_def server_new_def guest_at_def is_active_def bt_sorted_def bt_get_def)
next
  case (stepped s en op messages s')
  then show ?case using server_step_ok [OF stepped.IH assms(2), of en op cfg] by auto
qed

end
