(* ===== verification/Heads_Up.thy ===== *)
theory Heads_Up
  imports Table_Seats Commands Hand_Eval
begin

text \<open>
  The offline heads-up game (src/src/game/state.rs): two seats with one button, blinds of 1 and 2, the
  four streets, the fold, the showdown and the session statistics. A method is a function of the
  game; \<^const>\<open>None\<close> is a panic (an \<open>expect\<close>, an index out of range). The shuffle belongs to the
  \<open>rand\<close> crate and is an argument. Not modelled: \<open>pot_odds\<close> and \<open>session_profit_bb\<close>, floating-point
  values for display.
\<close>

subsection \<open>The state\<close>

datatype game_phase = PhasePreflop | PhaseFlop | PhaseTurn | PhaseRiver | PhaseShowdown
  | PhaseHandComplete | PhaseSessionEnd | PhaseSummary

datatype street = StreetPreflop | StreetFlop | StreetTurn | StreetRiver

definition street_of_phase :: "game_phase \<Rightarrow> street option" where
  "street_of_phase p = (case p of
     PhasePreflop \<Rightarrow> Some StreetPreflop
   | PhaseFlop \<Rightarrow> Some StreetFlop
   | PhaseTurn \<Rightarrow> Some StreetTurn
   | PhaseRiver \<Rightarrow> Some StreetRiver
   | _ \<Rightarrow> None)"

record seat_session_stats =
  st_hands_won :: u32
  st_biggest_pot_won :: u32
  st_biggest_pot_lost :: u32

definition seat_session_stats_default :: seat_session_stats where
  "seat_session_stats_default = \<lparr>st_hands_won = 0, st_biggest_pot_won = 0, st_biggest_pot_lost = 0\<rparr>"

record seat_hand_evaluation =
  he_seat :: seat_id
  he_hand :: hand_evaluation

record showdown_result =
  sr_winner :: "seat_id option"
  sr_hands :: "seat_hand_evaluation list"
  sr_pot_won :: u32

definition hand_for :: "showdown_result \<Rightarrow> seat_id \<Rightarrow> hand_evaluation option" where
  "hand_for r s = map_option he_hand (first_match (\<lambda>e. he_seat e = s) (sr_hands r))"

record 'g game_state =
  gs_phase :: game_phase
  gs_deck :: deck
  gs_seats :: table_seats
  gs_board :: "card list"
  gs_pot :: u32
  gs_to_act :: seat_id
  gs_button :: seat_id
  gs_last_aggressor :: "seat_id option"
  gs_preflop_aggressor :: "seat_id option"
  gs_last_raise_size :: u32
  gs_hand_number :: u32
  gs_hands_played :: u32
  gs_last_action :: "(seat_id \<times> action) option"
  gs_showdown_result :: "showdown_result option"
  gs_actions_this_street :: nat
  gs_starting_stacks :: "u32 list"
  gs_seat_stats :: "seat_session_stats list"
  gs_shuffle_source :: "'g shuffle_source"

subsection \<open>Reads\<close>

definition game_seat :: "'g game_state \<Rightarrow> seat_id \<Rightarrow> seat_state option" where
  "game_seat g s = table_seat (gs_seats g) s"

definition game_seat_mut ::
  "'g game_state \<Rightarrow> seat_id \<Rightarrow> (seat_state \<Rightarrow> seat_state) \<Rightarrow> 'g game_state option" where
  "game_seat_mut g s f = map_option (\<lambda>t. g\<lparr>gs_seats := t\<rparr>) (table_seat_mut (gs_seats g) s f)"

definition game_seat_stats :: "'g game_state \<Rightarrow> seat_id \<Rightarrow> seat_session_stats option" where
  "game_seat_stats g s = vec_get (gs_seat_stats g) s"

definition max_bet :: "'g game_state \<Rightarrow> u32" where
  "max_bet g = Max (insert 0 (set (map (\<lambda>(s, st). ss_street_bet st) (table_occupied (gs_seats g)))))"

definition game_amount_to_call :: "'g game_state \<Rightarrow> seat_id \<Rightarrow> u32 option" where
  "game_amount_to_call g s =
     map_option (\<lambda>st. saturating_sub (max_bet g) (ss_street_bet st)) (game_seat g s)"

definition game_available_actions :: "'g game_state \<Rightarrow> available_actions option" where
  "game_available_actions g = do {
     st \<leftarrow> game_seat g (gs_to_act g);
     to_call \<leftarrow> game_amount_to_call g (gs_to_act g);
     let min_raise_to = u32_add (max_bet g) (max (gs_last_raise_size g) BIG_BLIND);
     Some (available_actions_new to_call min_raise_to (ss_stack st) BIG_BLIND) }"

definition is_turn :: "'g game_state \<Rightarrow> seat_id \<Rightarrow> bool" where
  "is_turn g s \<longleftrightarrow> gs_to_act g = s \<and>
     gs_phase g \<notin> {PhaseShowdown, PhaseHandComplete, PhaseSessionEnd, PhaseSummary}"

definition heads_up_seats :: "'g game_state \<Rightarrow> (seat_id \<times> seat_id) option" where
  "heads_up_seats g = (case map fst (table_occupied (gs_seats g)) of
     [first, second] \<Rightarrow> Some (first, second) | _ \<Rightarrow> None)"

subsection \<open>Validation\<close>

definition validate_game_action :: "'g game_state \<Rightarrow> seat_id \<Rightarrow> action \<Rightarrow> (action_error + unit) option" where
  "validate_game_action g s a = do {
     to_call \<leftarrow> game_amount_to_call g s;
     st \<leftarrow> game_seat g s;
     let stack = ss_stack st;
     let maximum_total = u32_saturating_add (ss_street_bet st) stack;
     let minimum_raise_to = u32_saturating_add (max_bet g) (max (gs_last_raise_size g) BIG_BLIND);
     let maximum = saturating_sub maximum_total 1;
     Some (case a of
       ActFold \<Rightarrow> if 0 < to_call then Inr () else Inl FoldNotAllowed
     | Check \<Rightarrow> if to_call = 0 then Inr () else Inl CheckNotAllowed
     | Call actual \<Rightarrow>
         (if to_call = 0 \<or> stack \<le> to_call then Inl CallNotAllowed
          else if actual = to_call then Inr () else Inl (InvalidCall to_call actual))
     | Bet actual \<Rightarrow>
         (if 0 < to_call then Inl BetNotAllowed
          else (let minimum = (if max_bet g = 0 then BIG_BLIND else minimum_raise_to)
            in if minimum \<le> actual \<and> actual \<le> maximum then Inr ()
               else Inl (BetOutOfRange minimum maximum actual)))
     | Raise actual \<Rightarrow>
         (if to_call = 0 then Inl RaiseNotAllowed
          else if minimum_raise_to \<le> actual \<and> actual \<le> maximum then Inr ()
          else Inl (RaiseOutOfRange minimum_raise_to maximum actual))
     | ActAllIn actual \<Rightarrow>
         (if actual = maximum_total \<and> 0 < stack then Inr ()
          else Inl (InvalidAllIn maximum_total actual))) }"

definition validate_game_command :: "'g game_state \<Rightarrow> seat_command \<Rightarrow> (command_error + unit) option" where
  "validate_game_command g c =
    (if gs_phase g \<notin> {PhasePreflop, PhaseFlop, PhaseTurn, PhaseRiver} then Some (Inl HandNotActive)
     else case game_seat g (cmd_seat c) of
       None \<Rightarrow> Some (Inl (SeatNotOccupied (cmd_seat c)))
     | Some state \<Rightarrow>
       (if \<not> eligible_to_act state then Some (Inl (SeatNotEligible (cmd_seat c)))
        else if cmd_seat c \<noteq> gs_to_act g then Some (Inl (OutOfTurn (gs_to_act g) (cmd_seat c)))
        else map_option (\<lambda>r. case r of Inl e \<Rightarrow> Inl (IllegalAction e) | Inr u \<Rightarrow> Inr u)
          (validate_game_action g (cmd_seat c) (cmd_action c))))"

subsection \<open>Chips\<close>

definition add_chips :: "'g game_state \<Rightarrow> seat_id \<Rightarrow> u32 \<Rightarrow> 'g game_state option" where
  "add_chips g s amount = do {
     st \<leftarrow> game_seat g s;
     let actual = min amount (ss_stack st);
     g \<leftarrow> game_seat_mut g s (\<lambda>st. st\<lparr>ss_stack := u32_sub (ss_stack st) actual,
       ss_street_bet := u32_add (ss_street_bet st) actual\<rparr>);
     Some (g\<lparr>gs_pot := u32_add (gs_pot g) actual\<rparr>) }"

definition post_blind :: "'g game_state \<Rightarrow> seat_id \<Rightarrow> u32 \<Rightarrow> 'g game_state option" where
  "post_blind g s blind = do {
     g \<leftarrow> add_chips g s blind;
     st \<leftarrow> game_seat g s;
     if ss_stack st = 0 then game_seat_mut g s (\<lambda>st. st\<lparr>ss_hand_participation := AllIn\<rparr>) else Some g }"

definition return_uncalled_heads_up_excess :: "'g game_state \<Rightarrow> 'g game_state option" where
  "return_uncalled_heads_up_excess g = do {
     (first, second) \<leftarrow> heads_up_seats g;
     first_state \<leftarrow> game_seat g first;
     second_state \<leftarrow> game_seat g second;
     let first_bet = ss_street_bet first_state;
     let second_bet = ss_street_bet second_state;
     if first_bet = second_bet then Some g
     else do {
       let effective = min first_bet second_bet;
       let excess_seat = (if effective < first_bet then first else second);
       excess_state \<leftarrow> game_seat g excess_seat;
       let excess = u32_sub (ss_street_bet excess_state) effective;
       g \<leftarrow> game_seat_mut g excess_seat (\<lambda>st. st\<lparr>ss_stack := u32_add (ss_stack st) excess,
         ss_street_bet := u32_sub (ss_street_bet st) excess\<rparr>);
       Some (g\<lparr>gs_pot := u32_sub (gs_pot g) excess\<rparr>) } }"

definition award_chips :: "u32 \<Rightarrow> seat_state \<Rightarrow> seat_state" where
  "award_chips amount st = st\<lparr>ss_stack := u32_add (ss_stack st) amount\<rparr>"

definition record_result_for ::
  "seat_id \<Rightarrow> u32 \<Rightarrow> seat_id \<Rightarrow> 'g game_state \<Rightarrow> 'g game_state option" where
  "record_result_for winner pot s g = do {
     stats \<leftarrow> vec_get (gs_seat_stats g) s;
     let stats = (if s = winner
       then stats\<lparr>st_hands_won := u32_add (st_hands_won stats) 1,
         st_biggest_pot_won := max (st_biggest_pot_won stats) pot\<rparr>
       else stats\<lparr>st_biggest_pot_lost := max (st_biggest_pot_lost stats) pot\<rparr>);
     Some (g\<lparr>gs_seat_stats := (gs_seat_stats g)[s := stats]\<rparr>) }"

definition record_result :: "'g game_state \<Rightarrow> seat_id \<Rightarrow> u32 \<Rightarrow> 'g game_state option" where
  "record_result g winner pot = do {
     (first, second) \<leftarrow> heads_up_seats g;
     for_m (record_result_for winner pot) [first, second] g }"

subsection \<open>The end of a hand\<close>

definition handle_fold :: "'g game_state \<Rightarrow> seat_id \<Rightarrow> 'g game_state option" where
  "handle_fold g folder = do {
     g \<leftarrow> game_seat_mut g folder (\<lambda>st. st\<lparr>ss_hand_participation := Folded\<rparr>);
     winner \<leftarrow> next_for_pot (gs_seats g) folder;
     let pot = gs_pot g;
     g \<leftarrow> game_seat_mut g winner (award_chips pot);
     g \<leftarrow> record_result g winner pot;
     Some (g\<lparr>gs_pot := 0, gs_hands_played := u32_add (gs_hands_played g) 1,
       gs_phase := PhaseHandComplete\<rparr>) }"

definition game_resolve_showdown :: "'g game_state \<Rightarrow> 'g game_state option" where
  "game_resolve_showdown g = do {
     (first, second) \<leftarrow> heads_up_seats g;
     first_state \<leftarrow> game_seat g first;
     second_state \<leftarrow> game_seat g second;
     first_eval \<leftarrow> evaluate_hand (ss_hole_cards first_state) (gs_board g);
     second_eval \<leftarrow> evaluate_hand (ss_hole_cards second_state) (gs_board g);
     let winner = (case cmp (ev_rank first_eval) (ev_rank second_eval) of
         Greater \<Rightarrow> Some first
       | Less \<Rightarrow> Some second
       | Equal \<Rightarrow> (case cmp (ev_kickers first_eval) (ev_kickers second_eval) of
           Greater \<Rightarrow> Some first | Less \<Rightarrow> Some second | Equal \<Rightarrow> None));
     let pot = gs_pot g;
     g \<leftarrow> (case winner of
         Some w \<Rightarrow> do {
           g \<leftarrow> game_seat_mut g w (award_chips pot);
           record_result g w pot }
       | None \<Rightarrow> do {
           let half = pot div 2;
           let remainder = pot mod 2;
           odd_chip_seat \<leftarrow> next_for_pot (gs_seats g) (gs_button g);
           g \<leftarrow> game_seat_mut g first
             (award_chips (u32_add half (of_bool (first = odd_chip_seat) * remainder)));
           game_seat_mut g second
             (award_chips (u32_add half (of_bool (second = odd_chip_seat) * remainder))) });
     Some (g\<lparr>gs_showdown_result := Some \<lparr>sr_winner = winner,
         sr_hands = [\<lparr>he_seat = first, he_hand = first_eval\<rparr>, \<lparr>he_seat = second, he_hand = second_eval\<rparr>],
         sr_pot_won = pot\<rparr>,
       gs_pot := 0, gs_hands_played := u32_add (gs_hands_played g) 1, gs_phase := PhaseShowdown\<rparr>) }"

definition game_deal_to_board :: "nat \<Rightarrow> 'g game_state \<Rightarrow> 'g game_state" where
  "game_deal_to_board n g = (let (cards, d) = deck_deal_n n (gs_deck g)
     in g\<lparr>gs_board := gs_board g @ cards, gs_deck := d\<rparr>)"

definition advance_phase :: "'g game_state \<Rightarrow> 'g game_state option" where
  "advance_phase g0 = do {
     g \<leftarrow> return_uncalled_heads_up_excess g0;
     g \<leftarrow> for_m (\<lambda>s g. game_seat_mut g s (\<lambda>st. st\<lparr>ss_street_bet := 0\<rparr>))
       (map fst (table_occupied (gs_seats g))) g;
     let g = g\<lparr>gs_last_aggressor := None, gs_actions_this_street := 0\<rparr>;
     let first_postflop = (\<lambda>g. case next_to_act (gs_seats g) (gs_button g) of
         Some s \<Rightarrow> g\<lparr>gs_to_act := s\<rparr> | None \<Rightarrow> g);
     case gs_phase g of
       PhasePreflop \<Rightarrow> Some (first_postflop ((game_deal_to_board 3 g)\<lparr>gs_phase := PhaseFlop\<rparr>))
     | PhaseFlop \<Rightarrow> Some (first_postflop ((game_deal_to_board 1 g)\<lparr>gs_phase := PhaseTurn\<rparr>))
     | PhaseTurn \<Rightarrow> Some (first_postflop ((game_deal_to_board 1 g)\<lparr>gs_phase := PhaseRiver\<rparr>))
     | PhaseRiver \<Rightarrow> game_resolve_showdown g
     | _ \<Rightarrow> Some g }"

subsection \<open>Actions\<close>

definition is_betting_round_complete :: "'g game_state \<Rightarrow> bool option" where
  "is_betting_round_complete g = do {
     (first, second) \<leftarrow> heads_up_seats g;
     first_state \<leftarrow> game_seat g first;
     second_state \<leftarrow> game_seat g second;
     let first_stack = ss_stack first_state;
     let second_stack = ss_stack second_state;
     let first_bet = ss_street_bet first_state;
     let second_bet = ss_street_bet second_state;
     if first_stack = 0 \<and> second_stack = 0 then Some True
     else if first_stack = 0 \<or> second_stack = 0 then
       (let (all_in_bet, other_bet) = (if first_stack = 0 then (first_bet, second_bet)
          else (second_bet, first_bet))
        in if all_in_bet \<le> other_bet then Some True else Some (first_bet = second_bet))
     else if first_bet \<noteq> second_bet then Some False
     else if gs_phase g = PhasePreflop \<and> gs_last_aggressor g = None then
       (case table_positions (gs_seats g) (gs_button g) of
          Some (Inr pos) \<Rightarrow> Some (case gs_last_action g of
            Some (actor, a) \<Rightarrow> actor = hp_big_blind pos \<and> a = Check | None \<Rightarrow> False)
        | _ \<Rightarrow> None)
     else if gs_last_aggressor g = None then Some (2 \<le> gs_actions_this_street g)
     else Some True }"

definition note_aggression :: "seat_id \<Rightarrow> u32 \<Rightarrow> u32 \<Rightarrow> 'g game_state \<Rightarrow> 'g game_state" where
  "note_aggression s amount old_max g =
    (let g = g\<lparr>gs_last_aggressor := Some s, gs_last_raise_size := u32_sub amount old_max\<rparr>
     in if gs_phase g = PhasePreflop then g\<lparr>gs_preflop_aggressor := Some s\<rparr> else g)"

definition raise_bet_to :: "'g game_state \<Rightarrow> seat_id \<Rightarrow> u32 \<Rightarrow> 'g game_state option" where
  "raise_bet_to g s amount = do {
     st \<leftarrow> game_seat g s;
     let to_add = u32_sub amount (ss_street_bet st);
     let old_max = max_bet g;
     g \<leftarrow> add_chips g s to_add;
     Some (note_aggression s amount old_max g) }"

definition go_all_in :: "'g game_state \<Rightarrow> seat_id \<Rightarrow> u32 \<Rightarrow> 'g game_state option" where
  "go_all_in g s amount = do {
     st \<leftarrow> game_seat g s;
     let to_add = u32_sub amount (ss_street_bet st);
     let old_max = max_bet g;
     g \<leftarrow> add_chips g s to_add;
     g \<leftarrow> game_seat_mut g s (\<lambda>st. st\<lparr>ss_hand_participation := AllIn\<rparr>);
     Some (if old_max < amount then note_aggression s amount old_max g else g) }"

definition continue_round :: "'g game_state \<Rightarrow> seat_id \<Rightarrow> 'g game_state option" where
  "continue_round g s = do {
     complete \<leftarrow> is_betting_round_complete g;
     if complete then advance_phase g
     else do {
       other \<leftarrow> next_to_act (gs_seats g) s;
       Some (g\<lparr>gs_to_act := other\<rparr>) } }"

definition apply_game_action :: "'g game_state \<Rightarrow> seat_id \<Rightarrow> action \<Rightarrow> 'g game_state option" where
  "apply_game_action g0 s a =
    (let g = g0\<lparr>gs_last_action := Some (s, a),
         gs_actions_this_street := (gs_actions_this_street g0 + 1) mod 256\<rparr>
     in case a of
       ActFold \<Rightarrow> handle_fold g s
     | Check \<Rightarrow> continue_round g s
     | Call amount \<Rightarrow> do { g \<leftarrow> add_chips g s amount; continue_round g s }
     | Bet amount \<Rightarrow> do { g \<leftarrow> raise_bet_to g s amount; continue_round g s }
     | Raise amount \<Rightarrow> do { g \<leftarrow> raise_bet_to g s amount; continue_round g s }
     | ActAllIn amount \<Rightarrow> do { g \<leftarrow> go_all_in g s amount; continue_round g s })"

definition apply_game_command ::
  "'g game_state \<Rightarrow> seat_command \<Rightarrow> (command_error + 'g game_state) option" where
  "apply_game_command g c = do {
     verdict \<leftarrow> validate_game_command g c;
     case verdict of
       Inl e \<Rightarrow> Some (Inl e)
     | Inr _ \<Rightarrow> map_option Inr (apply_game_action g (cmd_seat c) (cmd_action c)) }"

subsection \<open>The start of a hand and of a session\<close>

definition deal_hole_cards :: "seat_id \<Rightarrow> 'g game_state \<Rightarrow> 'g game_state option" where
  "deal_hole_cards s g = (let (cards, d) = deck_deal_n 2 (gs_deck g)
     in game_seat_mut (g\<lparr>gs_deck := d\<rparr>) s (\<lambda>st. st\<lparr>ss_hole_cards := cards, ss_street_bet := 0,
          ss_hand_participation := Live\<rparr>))"

definition start_new_hand ::
  "('g \<Rightarrow> card list \<Rightarrow> card list \<times> 'g) \<Rightarrow> 'g game_state \<Rightarrow> 'g game_state option" where
  "start_new_hand shuffle g0 = do {
     button \<leftarrow> next_for_hand (gs_seats g0) (gs_button g0);
     let (d, src) = shuffle_source_shuffle shuffle (gs_shuffle_source g0) deck_new;
     let g = g0\<lparr>gs_hand_number := u32_add (gs_hand_number g0) 1, gs_button := button,
       gs_phase := PhasePreflop, gs_deck := d, gs_shuffle_source := src, gs_board := [], gs_pot := 0,
       gs_last_aggressor := None, gs_preflop_aggressor := None, gs_last_raise_size := BIG_BLIND,
       gs_last_action := None, gs_showdown_result := None, gs_actions_this_street := 0\<rparr>;
     let dealt_seats = map fst (filter (\<lambda>(s, st). eligible_for_next_hand st) (table_occupied (gs_seats g)));
     g \<leftarrow> for_m deal_hole_cards dealt_seats g;
     case table_positions (gs_seats g) (gs_button g) of
       Some (Inr pos) \<Rightarrow> do {
         g \<leftarrow> post_blind g (hp_small_blind pos) SMALL_BLIND;
         g \<leftarrow> post_blind g (hp_big_blind pos) BIG_BLIND;
         Some (g\<lparr>gs_to_act := hp_first_preflop pos\<rparr>) }
     | _ \<Rightarrow> None }"

definition game_with_shuffle_source :: "('g \<Rightarrow> card list \<Rightarrow> card list \<times> 'g) \<Rightarrow> u32
    \<Rightarrow> 'g shuffle_source \<Rightarrow> 'g game_state option" where
  "game_with_shuffle_source shuffle starting_stack_bb src = do {
     let starting_stack = u32_mul starting_stack_bb BIG_BLIND;
     table_size \<leftarrow> (case table_size_try_from 2 of Inl _ \<Rightarrow> None | Inr n \<Rightarrow> Some n);
     first_seat \<leftarrow> (case seat_id_new 0 of Inl _ \<Rightarrow> None | Inr s \<Rightarrow> Some s);
     second_seat \<leftarrow> (case seat_id_new 1 of Inl _ \<Rightarrow> None | Inr s \<Rightarrow> Some s);
     seats \<leftarrow> (case table_occupy (table_seats_new table_size) first_seat
         (seat_state_active 1 starting_stack) of Inl _ \<Rightarrow> None | Inr t \<Rightarrow> Some t);
     seats \<leftarrow> (case table_occupy seats second_seat
         (seat_state_active 2 starting_stack) of Inl _ \<Rightarrow> None | Inr t \<Rightarrow> Some t);
     start_new_hand shuffle
       \<lparr>gs_phase = PhasePreflop, gs_deck = deck_new, gs_seats = seats, gs_board = [], gs_pot = 0,
        gs_to_act = first_seat, gs_button = second_seat, gs_last_aggressor = None,
        gs_preflop_aggressor = None, gs_last_raise_size = BIG_BLIND, gs_hand_number = 0,
        gs_hands_played = 0, gs_last_action = None, gs_showdown_result = None,
        gs_actions_this_street = 0, gs_starting_stacks = replicate 2 starting_stack,
        gs_seat_stats = replicate 2 seat_session_stats_default, gs_shuffle_source = src\<rparr> }"

definition game_new :: "('g \<Rightarrow> card list \<Rightarrow> card list \<times> 'g) \<Rightarrow> 'g \<Rightarrow> u32 \<Rightarrow> 'g game_state option" where
  "game_new shuffle production starting_stack_bb =
     game_with_shuffle_source shuffle starting_stack_bb \<lparr>source_rng = production\<rparr>"

definition game_new_seeded_for_review :: "('g \<Rightarrow> card list \<Rightarrow> card list \<times> 'g) \<Rightarrow> (u64 \<Rightarrow> 'g) \<Rightarrow> u32
    \<Rightarrow> u64 \<Rightarrow> 'g game_state option" where
  "game_new_seeded_for_review shuffle seeded starting_stack_bb seed =
     game_with_shuffle_source shuffle starting_stack_bb \<lparr>source_rng = seeded seed\<rparr>"

end
