(* ===== verification/Heads_Up_Facts.thy ===== *)
theory Heads_Up_Facts
  imports Heads_Up Table_Facts Hand_Facts
begin

text \<open>
  Facts on the heads-up game: its table read from one seat's side (\<open>pair_at\<close>), each operation as an
  update of the two seats, the invariant \<open>game_betting\<close> of a hand in play with the state \<open>game_over\<close>
  that ends it, and the bound \<open>game_left\<close> on what is left of a hand.
\<close>

subsection \<open>Two seats\<close>

text \<open>The table with \<open>a\<close> at the seat \<open>s\<close> and \<open>b\<close> at the other one.\<close>

definition pair_at :: "seat_id \<Rightarrow> seat_state \<Rightarrow> seat_state \<Rightarrow> table_seats" where
  "pair_at s a b = \<lparr>tb_size = 2, tb_seats = (if s = 0 then [Some a, Some b] else [Some b, Some a])\<rparr>"

definition other_seat :: "seat_id \<Rightarrow> seat_id" where
  "other_seat s = 1 - s"

lemma two_seats: "s < 2 \<Longrightarrow> (s = 0 \<Longrightarrow> P) \<Longrightarrow> (s = Suc 0 \<Longrightarrow> P) \<Longrightarrow> P"
  by linarith

lemma other_seat_simps [simp]:
  "other_seat s < 2" "s < 2 \<Longrightarrow> other_seat (other_seat s) = s" "s < 2 \<Longrightarrow> other_seat s \<noteq> s"
  "s < 2 \<Longrightarrow> s \<noteq> other_seat s"
  by (auto simp: other_seat_def) presburger+

lemma other_seat_iff: "s < 2 \<Longrightarrow> t < 2 \<Longrightarrow> t \<noteq> s \<longleftrightarrow> t = other_seat s"
  by (auto simp: other_seat_def elim!: two_seats)

lemma pair_swap: "s < 2 \<Longrightarrow> pair_at (other_seat s) b a = pair_at s a b"
  by (auto simp: pair_at_def other_seat_def)

lemma pair_seat [simp]:
  "s < 2 \<Longrightarrow> table_seat (pair_at s a b) s = Some a"
  "s < 2 \<Longrightarrow> table_seat (pair_at s a b) (other_seat s) = Some b"
  "table_seat (pair_at s a b) t = None \<longleftrightarrow> 2 \<le> t"
  by (auto simp: pair_at_def other_seat_def table_seat_def nth_Cons' elim!: two_seats)

lemma pair_mut [simp]:
  "s < 2 \<Longrightarrow> table_seat_mut (pair_at s a b) s f = Some (pair_at s (f a) b)"
  "s < 2 \<Longrightarrow> table_seat_mut (pair_at s a b) (other_seat s) f = Some (pair_at s a (f b))"
  by (auto simp: pair_at_def other_seat_def table_seat_mut_def table_seat_def elim!: two_seats)

lemma pair_occupied:
  "table_occupied (pair_at s a b) = (if s = 0 then [(0, a), (Suc 0, b)] else [(0, b), (Suc 0, a)])"
  by (simp add: pair_at_def table_occupied_def map_filter_simps)

lemma pair_seats [simp]: "map fst (table_occupied (pair_at s a b)) = [0, Suc 0]"
  by (simp add: pair_occupied)

lemma pair_next:
  assumes "s < 2"
  shows "next_eligible (tb_size (pair_at s a b)) s (seat_satisfies (pair_at s a b) P) =
      (if P b then Some (other_seat s) else None)"
    and "next_eligible (tb_size (pair_at s a b)) (other_seat s) (seat_satisfies (pair_at s a b) P) =
      (if P a then Some s else None)"
proof -
  have "[1..<2] = [Suc 0]" by (simp add: upt_rec)
  then show "next_eligible (tb_size (pair_at s a b)) s (seat_satisfies (pair_at s a b) P) =
      (if P b then Some (other_seat s) else None)"
    "next_eligible (tb_size (pair_at s a b)) (other_seat s) (seat_satisfies (pair_at s a b) P) =
      (if P a then Some s else None)"
    using assms by (auto simp: next_eligible_def table_contains_def pair_at_def other_seat_def
        seat_satisfies_def table_seat_def first_match_def elim!: two_seats)
qed

lemma pair_next_simps [simp]:
  assumes "s < 2"
  shows "next_for_hand (pair_at s a b) s = (if eligible_for_next_hand b then Some (other_seat s) else None)"
    and "next_for_hand (pair_at s a b) (other_seat s) = (if eligible_for_next_hand a then Some s else None)"
    and "next_to_act (pair_at s a b) s = (if eligible_to_act b then Some (other_seat s) else None)"
    and "next_to_act (pair_at s a b) (other_seat s) = (if eligible_to_act a then Some s else None)"
    and "next_for_pot (pair_at s a b) s = (if seat_eligible_for_pot b then Some (other_seat s) else None)"
    and "next_for_pot (pair_at s a b) (other_seat s) = (if seat_eligible_for_pot a then Some s else None)"
  using pair_next [OF assms] by (simp_all add: next_for_hand_def next_to_act_def next_for_pot_def)

lemma pair_positions:
  assumes "s < 2" "eligible_for_next_hand a" "eligible_for_next_hand b"
  shows "table_positions (pair_at s a b) s = Some (Inr \<lparr>hp_button = s, hp_small_blind = s,
    hp_big_blind = other_seat s, hp_first_preflop = s, hp_first_postflop = other_seat s\<rparr>)"
  using assms by (simp add: table_positions_def pair_occupied seat_satisfies_def)

subsection \<open>Operations on the two seats\<close>

lemma game_seat_pair [simp]:
  "gs_seats g = pair_at s a b \<Longrightarrow> s < 2 \<Longrightarrow> game_seat g s = Some a"
  "gs_seats g = pair_at s a b \<Longrightarrow> s < 2 \<Longrightarrow> game_seat g (other_seat s) = Some b"
  by (simp_all add: game_seat_def)

lemma game_seat_mut_pair [simp]:
  "gs_seats g = pair_at s a b \<Longrightarrow> s < 2 \<Longrightarrow> game_seat_mut g s f = Some (g\<lparr>gs_seats := pair_at s (f a) b\<rparr>)"
  "gs_seats g = pair_at s a b \<Longrightarrow> s < 2 \<Longrightarrow>
    game_seat_mut g (other_seat s) f = Some (g\<lparr>gs_seats := pair_at s a (f b)\<rparr>)"
  by (simp_all add: game_seat_mut_def)

lemma max_bet_pair: "gs_seats g = pair_at s a b \<Longrightarrow> max_bet g = max (ss_street_bet a) (ss_street_bet b)"
  by (auto simp: max_bet_def pair_occupied max.commute)

lemma heads_up_seats_pair [simp]: "gs_seats g = pair_at s a b \<Longrightarrow> heads_up_seats g = Some (0, Suc 0)"
  by (simp add: heads_up_seats_def)

definition pay :: "u32 \<Rightarrow> seat_state \<Rightarrow> seat_state" where
  "pay n st = st\<lparr>ss_stack := u32_sub (ss_stack st) (min n (ss_stack st)),
     ss_street_bet := u32_add (ss_street_bet st) (min n (ss_stack st))\<rparr>"

lemma add_chips_pair:
  "gs_seats g = pair_at s a b \<Longrightarrow> s < 2 \<Longrightarrow> add_chips g s n =
     Some (g\<lparr>gs_seats := pair_at s (pay n a) b, gs_pot := u32_add (gs_pot g) (min n (ss_stack a))\<rparr>)"
  by (simp add: add_chips_def pay_def Let_def)

definition refund :: "seat_state \<Rightarrow> seat_state \<Rightarrow> seat_state" where
  "refund a b = (if ss_street_bet b < ss_street_bet a
     then a\<lparr>ss_stack := u32_add (ss_stack a) (ss_street_bet a - ss_street_bet b),
       ss_street_bet := ss_street_bet b\<rparr> else a)"

lemma return_excess_pair:
  assumes "gs_seats g = pair_at s a b" "s < 2"
  shows "return_uncalled_heads_up_excess g = Some (if ss_street_bet a = ss_street_bet b then g
    else g\<lparr>gs_seats := pair_at s (refund a b) (refund b a), gs_pot := u32_sub (gs_pot g)
      (max (ss_street_bet a) (ss_street_bet b) - min (ss_street_bet a) (ss_street_bet b))\<rparr>)"
proof -
  have zero: "return_uncalled_heads_up_excess g = Some (if ss_street_bet a = ss_street_bet b then g
      else g\<lparr>gs_seats := pair_at 0 (refund a b) (refund b a), gs_pot := u32_sub (gs_pot g)
        (max (ss_street_bet a) (ss_street_bet b) - min (ss_street_bet a) (ss_street_bet b))\<rparr>)"
    if pair: "gs_seats g = pair_at 0 a b" for a b
  proof -
    note reads = game_seat_pair [OF pair] game_seat_mut_pair [OF pair] heads_up_seats_pair [OF pair]
    show ?thesis
      using reads by (auto simp: return_uncalled_heads_up_excess_def refund_def other_seat_def Let_def
          u32_sub_def min_def max_def)
  qed
  show ?thesis
  proof (cases "s = 0")
    case True
    then show ?thesis using zero assms by simp
  next
    case False
    then have s: "pair_at s x y = pair_at 0 y x" for x y by (simp add: pair_at_def)
    show ?thesis
      using zero [of b a] assms(1) unfolding s by (simp add: max.commute min.commute eq_commute)
  qed
qed

definition take_bets :: "seat_state \<Rightarrow> seat_state \<Rightarrow> seat_state" where
  "take_bets a b = (refund a b)\<lparr>ss_street_bet := 0\<rparr>"

lemma clear_bets_pair:
  "gs_seats g = pair_at s a b \<Longrightarrow> for_m (\<lambda>s g. game_seat_mut g s (\<lambda>st. st\<lparr>ss_street_bet := 0\<rparr>)) [0, Suc 0] g
     = Some (g\<lparr>gs_seats := pair_at s (a\<lparr>ss_street_bet := 0\<rparr>) (b\<lparr>ss_street_bet := 0\<rparr>)\<rparr>)"
  by (auto simp: game_seat_mut_def table_seat_mut_def table_seat_def pair_at_def)

definition round_complete :: "'g game_state \<Rightarrow> seat_state \<Rightarrow> seat_state \<Rightarrow> bool" where
  "round_complete g a b =
    (if ss_stack a = 0 \<and> ss_stack b = 0 then True
     else if ss_stack a = 0 then ss_street_bet a \<le> ss_street_bet b
     else if ss_stack b = 0 then ss_street_bet b \<le> ss_street_bet a
     else if ss_street_bet a \<noteq> ss_street_bet b then False
     else if gs_last_aggressor g = None then
       (if gs_phase g = PhasePreflop then gs_last_action g = Some (other_seat (gs_button g), Check)
        else 2 \<le> gs_actions_this_street g)
     else True)"

lemma round_complete_swap: "round_complete g b a = round_complete g a b"
  by (auto simp: round_complete_def)

lemma round_complete_first:
  assumes "gs_seats g = pair_at 0 a b" "gs_button g < 2"
    and "ss_table_participation a = Active" "ss_table_participation b = Active"
  shows "is_betting_round_complete g = Some (round_complete g a b)"
proof -
  have reads: "game_seat g 0 = Some a" "game_seat g (Suc 0) = Some b" "heads_up_seats g = Some (0, Suc 0)"
    using game_seat_pair [OF assms(1)] heads_up_seats_pair [OF assms(1)] by (simp_all add: other_seat_def)
  show ?thesis
  proof (cases "ss_stack a = 0 \<or> ss_stack b = 0")
    case True
    then show ?thesis using reads by (auto simp: is_betting_round_complete_def round_complete_def Let_def)
  next
    case False
    then have elig: "eligible_for_next_hand a" "eligible_for_next_hand b"
      using assms(3,4) by (auto simp: eligible_for_next_hand_def)
    obtain pos where pos: "table_positions (gs_seats g) (gs_button g) = Some (Inr pos)"
      "hp_big_blind pos = other_seat (gs_button g)"
    proof (rule two_seats [OF assms(2)])
      assume "gs_button g = 0"
      then show thesis using that pair_positions [OF _ elig, of 0] assms(1) by simp
    next
      assume button: "gs_button g = Suc 0"
      have "pair_at 0 a b = pair_at (Suc 0) b a" by (simp add: pair_at_def)
      then show thesis using that pair_positions [OF _ elig(2,1), of "Suc 0"] assms(1) button by simp
    qed
    have verdict: "(case gs_last_action g of None \<Rightarrow> False | Some (actor, act) \<Rightarrow> actor = t \<and> act = Check)
        \<longleftrightarrow> gs_last_action g = Some (t, Check)" for t
      by (cases "gs_last_action g") auto
    show ?thesis
      using False reads pos by (simp add: is_betting_round_complete_def round_complete_def Let_def verdict)
  qed
qed

lemma is_betting_round_complete_pair:
  assumes "gs_seats g = pair_at s a b" "s < 2" "gs_button g < 2"
    and "ss_table_participation a = Active" "ss_table_participation b = Active"
  shows "is_betting_round_complete g = Some (round_complete g a b)"
proof (cases "s = 0")
  case True
  then show ?thesis using round_complete_first assms by blast
next
  case False
  then have "gs_seats g = pair_at 0 b a" using assms(1) by (simp add: pair_at_def)
  then show ?thesis using round_complete_first [of g b a] assms(3-5) by (simp add: round_complete_swap [of g b a])
qed

lemma record_result_pair:
  assumes "gs_seats g = pair_at s a b" "length (gs_seat_stats g) = 2"
  shows "\<exists>stats. length stats = 2 \<and> record_result g w pot = Some (g\<lparr>gs_seat_stats := stats\<rparr>)"
proof -
  have one: "\<exists>stats. length stats = length (gs_seat_stats h) \<and>
      record_result_for w pot s h = Some (h\<lparr>gs_seat_stats := stats\<rparr>)"
    if "s < length (gs_seat_stats h)" for s and h :: "'a game_state"
    using that by (auto simp: record_result_for_def vec_get_def Let_def
        intro!: exI [of _ "(gs_seat_stats h)[s := x]" for x])
  obtain stats where first: "length stats = 2" "record_result_for w pot 0 g = Some (g\<lparr>gs_seat_stats := stats\<rparr>)"
    using one [of 0 g] assms(2) by auto
  obtain stats' where "length stats' = 2"
    "record_result_for w pot (Suc 0) (g\<lparr>gs_seat_stats := stats\<rparr>) = Some (g\<lparr>gs_seat_stats := stats'\<rparr>)"
    using one [of "Suc 0" "g\<lparr>gs_seat_stats := stats\<rparr>"] first(1) by auto
  then show ?thesis
    using first heads_up_seats_pair [OF assms(1)] by (auto simp: record_result_def)
qed

subsection \<open>The invariant\<close>

text \<open>
  The chips of the session: the two stacks and the pot hold \<open>T\<close>.
\<close>

definition duel_at :: "nat \<Rightarrow> 'g game_state \<Rightarrow> seat_id \<Rightarrow> seat_state \<Rightarrow> seat_state \<Rightarrow> bool" where
  "duel_at T g s a b \<longleftrightarrow> s < 2 \<and> gs_seats g = pair_at s a b \<and>
     ss_table_participation a = Active \<and> ss_table_participation b = Active \<and>
     ss_stack a + ss_stack b + gs_pot g = T \<and> T < u32_bound \<and>
     length (gs_seat_stats g) = 2 \<and> gs_button g < 2"

definition game_cards :: "'g game_state \<Rightarrow> card list" where
  "game_cards g = concat (map (\<lambda>(s, st). ss_hole_cards st) (table_occupied (gs_seats g))) @
     gs_board g @ deck_rest (gs_deck g)"

fun game_board_size :: "game_phase \<Rightarrow> nat" where
  "game_board_size PhasePreflop = 0"
| "game_board_size PhaseFlop = 3"
| "game_board_size PhaseTurn = 4"
| "game_board_size PhaseRiver = 5"
| "game_board_size _ = 5"

definition full_deck :: "'g game_state \<Rightarrow> seat_state \<Rightarrow> seat_state \<Rightarrow> bool" where
  "full_deck g a b \<longleftrightarrow> mset (game_cards g) = mset (deck_cards deck_new) \<and>
     length (ss_hole_cards a) = 2 \<and> length (ss_hole_cards b) = 2 \<and>
     length (gs_board g) = game_board_size (gs_phase g)"

text \<open>
  Both seats are in the hand; an empty stack is all in, and a seat that is all in has chips only when
  the uncalled part of its wager came back, which leaves the other seat with none.
\<close>

definition standing :: "seat_state \<Rightarrow> seat_state \<Rightarrow> bool" where
  "standing a b \<longleftrightarrow> seat_eligible_for_pot a \<and> seat_eligible_for_pot b \<and>
     (ss_stack a = 0 \<longrightarrow> ss_hand_participation a = AllIn) \<and>
     (ss_stack b = 0 \<longrightarrow> ss_hand_participation b = AllIn) \<and>
     (0 < ss_stack a \<and> 0 < ss_stack b \<longrightarrow> ss_hand_participation a = Live \<and> ss_hand_participation b = Live)"

definition in_play :: "game_phase \<Rightarrow> bool" where
  "in_play p \<longleftrightarrow> p \<in> {PhasePreflop, PhaseFlop, PhaseTurn, PhaseRiver}"

text \<open>
  The three states of a hand in play, for the seat to act \<open>a\<close> and the other seat \<open>b\<close>: the seat can act;
  the board is to be dealt out because a stack is empty; or the button posted its last chip as the
  small blind and nobody can act.
\<close>

definition game_turn :: "'g game_state \<Rightarrow> seat_state \<Rightarrow> seat_state \<Rightarrow> bool" where
  "game_turn g a b \<longleftrightarrow> eligible_to_act a \<and>
     (gs_last_aggressor g = None \<and> ss_street_bet a < ss_street_bet b \<longrightarrow>
        gs_phase g = PhasePreflop \<and> gs_to_act g = gs_button g) \<and>
     (0 < ss_stack b \<and> ss_street_bet a = ss_street_bet b \<longrightarrow> gs_last_aggressor g = None \<and>
        (if gs_phase g = PhasePreflop then gs_to_act g = other_seat (gs_button g)
         else gs_actions_this_street g \<le> 1))"

definition game_runout :: "'g game_state \<Rightarrow> seat_state \<Rightarrow> seat_state \<Rightarrow> bool" where
  "game_runout g a b \<longleftrightarrow> gs_phase g \<noteq> PhasePreflop \<and> (ss_stack a = 0 \<or> ss_stack b = 0) \<and>
     ss_street_bet a = 0 \<and> ss_street_bet b = 0"

definition game_stuck :: "'g game_state \<Rightarrow> seat_state \<Rightarrow> bool" where
  "game_stuck g a \<longleftrightarrow> gs_phase g = PhasePreflop \<and> ss_stack a = 0 \<and> gs_to_act g = gs_button g"

definition game_betting :: "nat \<Rightarrow> 'g game_state \<Rightarrow> seat_state \<Rightarrow> seat_state \<Rightarrow> bool" where
  "game_betting T g a b \<longleftrightarrow> duel_at T g (gs_to_act g) a b \<and> full_deck g a b \<and> standing a b \<and>
     in_play (gs_phase g) \<and> ss_street_bet a \<le> ss_street_bet b \<and>
     ss_street_bet a + ss_street_bet b \<le> gs_pot g \<and>
     (game_turn g a b \<or> game_runout g a b \<or> game_stuck g a)"

definition game_over :: "nat \<Rightarrow> 'g game_state \<Rightarrow> bool" where
  "game_over T g \<longleftrightarrow> (\<exists>a b. duel_at T g 0 a b) \<and> gs_pot g = 0 \<and>
     gs_phase g \<in> {PhaseShowdown, PhaseHandComplete}"

text \<open>What is left of a hand: streets, then chips, then the first check of a street.\<close>

fun game_streets_left :: "game_phase \<Rightarrow> nat" where
  "game_streets_left PhasePreflop = 3"
| "game_streets_left PhaseFlop = 2"
| "game_streets_left PhaseTurn = 1"
| "game_streets_left _ = 0"

definition game_stacks :: "'g game_state \<Rightarrow> nat" where
  "game_stacks g = sum_list (map (\<lambda>(s, st). ss_stack st) (table_occupied (gs_seats g)))"

definition game_left :: "'g game_state \<Rightarrow> nat" where
  "game_left g =
    (if in_play (gs_phase g)
     then Suc (game_streets_left (gs_phase g) * (2 * (game_stacks g + gs_pot g) + 3) + 2 * game_stacks g +
       (if gs_actions_this_street g = 0 then 1 else 0))
     else 0)"

lemma duel_swap: "duel_at T g s a b \<Longrightarrow> duel_at T g (other_seat s) b a"
  by (auto simp: duel_at_def pair_swap)

lemma standing_swap: "standing a b \<Longrightarrow> standing b a"
  by (auto simp: standing_def)

lemma duel_any_seat: "duel_at T g s a b \<Longrightarrow> t < 2 \<Longrightarrow> \<exists>a b. duel_at T g t a b"
  using duel_swap [of T g s a b] other_seat_iff [of s t] unfolding duel_at_def by blast

lemma duelD:
  assumes "duel_at T g s a b"
  shows "s < 2" "gs_seats g = pair_at s a b" "ss_table_participation a = Active"
    "ss_table_participation b = Active" "ss_stack a + ss_stack b + gs_pot g = T" "T < u32_bound"
    "length (gs_seat_stats g) = 2" "gs_button g < 2"
  using assms by (simp_all add: duel_at_def)

lemma game_stacks_pair: "gs_seats g = pair_at s a b \<Longrightarrow> game_stacks g = ss_stack a + ss_stack b"
  by (simp add: game_stacks_def pair_occupied)

lemma game_cards_pair:
  "gs_seats g = pair_at s a b \<Longrightarrow> mset (game_cards g) =
     mset (ss_hole_cards a) + mset (ss_hole_cards b) + mset (gs_board g) + mset (deck_rest (gs_deck g))"
  by (simp add: game_cards_def pair_occupied ac_simps)

lemma full_deck_swap: "full_deck g a b \<Longrightarrow> full_deck g b a"
  by (simp add: full_deck_def)

lemma full_deck_rest:
  assumes "duel_at T g s a b" "full_deck g a b"
  shows "length (deck_rest (gs_deck g)) + game_board_size (gs_phase g) = 48"
proof -
  have "size (mset (game_cards g)) = 52"
    using assms(2) deck_new_complete by (simp add: full_deck_def)
  then show ?thesis
    using assms(2) game_cards_pair [OF duelD(2) [OF assms(1)]] by (simp add: full_deck_def)
qed

lemma game_cards_cong:
  assumes "gs_seats g = pair_at s a b" "gs_seats h = pair_at s a' b'"
    and "ss_hole_cards a' = ss_hole_cards a" "ss_hole_cards b' = ss_hole_cards b"
    and "gs_board h = gs_board g" "gs_deck h = gs_deck g"
  shows "mset (game_cards h) = mset (game_cards g)"
  using game_cards_pair [OF assms(1)] game_cards_pair [OF assms(2)] assms(3-6) by simp

lemma game_deal_fields [simp]:
  "gs_seats (game_deal_to_board n g) = gs_seats g" "gs_pot (game_deal_to_board n g) = gs_pot g"
  "gs_button (game_deal_to_board n g) = gs_button g" "gs_phase (game_deal_to_board n g) = gs_phase g"
  "gs_seat_stats (game_deal_to_board n g) = gs_seat_stats g" "gs_to_act (game_deal_to_board n g) = gs_to_act g"
  "gs_last_aggressor (game_deal_to_board n g) = gs_last_aggressor g"
  "gs_actions_this_street (game_deal_to_board n g) = gs_actions_this_street g"
  by (simp_all add: game_deal_to_board_def split_beta)

lemma game_deal_cards:
  "mset (gs_board (game_deal_to_board n g)) + mset (deck_rest (gs_deck (game_deal_to_board n g))) =
     mset (gs_board g) + mset (deck_rest (gs_deck g))"
  "n \<le> length (deck_rest (gs_deck g)) \<Longrightarrow> length (gs_board (game_deal_to_board n g)) = length (gs_board g) + n"
proof -
  have "mset (take n (deck_rest (gs_deck g))) + mset (drop n (deck_rest (gs_deck g))) = mset (deck_rest (gs_deck g))"
    by (metis append_take_drop_id mset_append)
  then show "mset (gs_board (game_deal_to_board n g)) + mset (deck_rest (gs_deck (game_deal_to_board n g))) =
     mset (gs_board g) + mset (deck_rest (gs_deck g))"
    by (simp add: game_deal_to_board_def split_beta fst_deck_deal_n deck_rest_deal_n)
qed (simp add: game_deal_to_board_def split_beta fst_deck_deal_n)

subsection \<open>The end of a hand\<close>

lemma award_sel [simp]:
  "ss_stack (award_chips n a) = u32_add (ss_stack a) n" "ss_street_bet (award_chips n a) = ss_street_bet a"
  "ss_table_participation (award_chips n a) = ss_table_participation a"
  by (simp_all add: award_chips_def)

lemma record_result_over:
  assumes "gs_seats g = pair_at s a b" "length (gs_seat_stats g) = 2"
  obtains stats where "length stats = 2" "record_result g w pot = Some (g\<lparr>gs_seat_stats := stats\<rparr>)"
  using record_result_pair [OF assms] by blast

lemma handle_fold_over:
  assumes "duel_at T g s a b" "seat_eligible_for_pot b"
  shows "\<exists>g'. handle_fold g s = Some g' \<and> game_over T g' \<and> gs_phase g' = PhaseHandComplete"
proof -
  note d = duelD [OF assms(1)]
  define a' b' where "a' = a\<lparr>ss_hand_participation := Folded\<rparr>" and "b' = award_chips (gs_pot g) b"
  define g1 where "g1 = g\<lparr>gs_seats := pair_at s a' b'\<rparr>"
  obtain stats where stats: "length stats = 2"
    "record_result g1 (other_seat s) (gs_pot g) = Some (g1\<lparr>gs_seat_stats := stats\<rparr>)"
    by (rule record_result_over [of g1 s a' b']) (simp_all add: g1_def d)
  define g' where "g' = g1\<lparr>gs_seat_stats := stats, gs_pot := 0,
    gs_hands_played := u32_add (gs_hands_played g1) 1, gs_phase := PhaseHandComplete\<rparr>"
  have "handle_fold g s = Some g'"
    using d(1,2) assms(2) stats(2) by (simp add: handle_fold_def a'_def b'_def g1_def g'_def Let_def)
  moreover have "ss_stack b + gs_pot g < u32_bound" using d(5,6) by linarith
  then have "duel_at T g' s a' b'"
    using d stats(1) by (simp add: duel_at_def a'_def b'_def g1_def g'_def u32_simps)
  then have "game_over T g'"
    using duel_any_seat [of T g' s a' b' 0] by (simp add: game_over_def g'_def)
  ultimately show ?thesis by (simp add: g'_def)
qed

lemma award_zero: "ss_stack b < u32_bound \<Longrightarrow> award_chips 0 b = b"
  by (simp add: award_chips_def u32_simps)

lemma showdown_split:
  assumes "gs_seats g = pair_at 0 a b" "seat_eligible_for_pot a" "seat_eligible_for_pot b" "gs_button g < 2"
    and "gs_pot g < u32_bound"
  defines "na \<equiv> gs_pot g div 2 + (if gs_button g = 0 then 0 else gs_pot g mod 2)"
    and "nb \<equiv> gs_pot g div 2 + (if gs_button g = 0 then gs_pot g mod 2 else 0)"
  shows "(do {
      odd_chip_seat \<leftarrow> next_for_pot (gs_seats g) (gs_button g);
      g1 \<leftarrow> game_seat_mut g 0
        (award_chips (u32_add (gs_pot g div 2) (of_bool (0 = odd_chip_seat) * (gs_pot g mod 2))));
      game_seat_mut g1 (Suc 0)
        (award_chips (u32_add (gs_pot g div 2) (of_bool (Suc 0 = odd_chip_seat) * (gs_pot g mod 2)))) })
    = Some (g\<lparr>gs_seats := pair_at 0 (award_chips na a) (award_chips nb b)\<rparr>)"
proof -
  have small: "gs_pot g div 2 + gs_pot g mod 2 < u32_bound" "gs_pot g div 2 < u32_bound"
    using assms(5) by linarith+
  have one: "other_seat 0 = Suc 0" "other_seat (Suc 0) = 0" by (simp_all add: other_seat_def)
  show ?thesis
  proof (rule two_seats [OF assms(4)])
    assume button: "gs_button g = 0"
    then have "next_for_pot (gs_seats g) (gs_button g) = Some (Suc 0)"
      using assms(1,3) pair_next_simps(5) [of 0 a b] one by simp
    then show ?thesis
      using button small game_seat_mut_pair(1) [of g 0 a b] assms(1)
        game_seat_mut_pair(2) [of "g\<lparr>gs_seats := pair_at 0 (award_chips na a) b\<rparr>" 0 "award_chips na a" b] one
      by (simp add: na_def nb_def u32_simps)
  next
    assume button: "gs_button g = Suc 0"
    then have "next_for_pot (gs_seats g) (gs_button g) = Some 0"
      using assms(1,2) pair_next_simps(6) [of 0 a b] one by simp
    then show ?thesis
      using button small game_seat_mut_pair(1) [of g 0 a b] assms(1)
        game_seat_mut_pair(2) [of "g\<lparr>gs_seats := pair_at 0 (award_chips na a) b\<rparr>" 0 "award_chips na a" b] one
      by (simp add: na_def nb_def u32_simps)
  qed
qed

lemma showdown_win:
  assumes "gs_seats g = pair_at 0 a b" "length (gs_seat_stats g) = 2" "w < 2"
    and "ss_stack a < u32_bound" "ss_stack b < u32_bound"
  obtains stats g1 where "length stats = 2" "game_seat_mut g w (award_chips n) = Some g1"
    "record_result g1 w n = Some (g\<lparr>gs_seats :=
      pair_at 0 (award_chips (if w = 0 then n else 0) a) (award_chips (if w = 0 then 0 else n) b),
      gs_seat_stats := stats\<rparr>)"
proof -
  define t where "t = pair_at 0 (award_chips (if w = 0 then n else 0) a) (award_chips (if w = 0 then 0 else n) b)"
  have "game_seat_mut g w (award_chips n) = Some (g\<lparr>gs_seats := t\<rparr>)"
    using assms(1,3) game_seat_mut_pair [OF assms(1)]
    by (auto simp: t_def other_seat_def award_zero assms(4,5) elim!: two_seats)
  moreover obtain stats where "length stats = 2"
    "record_result (g\<lparr>gs_seats := t\<rparr>) w n = Some (g\<lparr>gs_seats := t, gs_seat_stats := stats\<rparr>)"
    by (rule record_result_over [of "g\<lparr>gs_seats := t\<rparr>"]) (simp_all add: t_def assms(2))
  ultimately show thesis using that by (simp add: t_def)
qed

text \<open>
  What the showdown pays to the two seats: the whole pot to the better hand, and halves when the hands
  are equal, with an odd chip for the seat after the button.
\<close>

definition showdown_pays :: "ordering \<Rightarrow> seat_id \<Rightarrow> u32 \<Rightarrow> u32 \<times> u32" where
  "showdown_pays order button pot = (case order of
     Greater \<Rightarrow> (pot, 0)
   | Less \<Rightarrow> (0, pot)
   | Equal \<Rightarrow> (pot div 2 + (if button = 0 then 0 else pot mod 2),
       pot div 2 + (if button = 0 then pot mod 2 else 0)))"

lemma showdown_pays_all: "showdown_pays order button pot = (na, nb) \<Longrightarrow> na + nb = pot"
proof -
  have "pot div 2 + pot mod 2 + pot div 2 = pot" "pot div 2 + (pot div 2 + pot mod 2) = pot" by presburger+
  then show "showdown_pays order button pot = (na, nb) \<Longrightarrow> na + nb = pot"
    by (cases order) (auto simp: showdown_pays_def)
qed

lemma game_showdown_result:
  assumes "gs_seats g = pair_at 0 a b" "length (gs_seat_stats g) = 2" "gs_button g < 2"
    and "seat_eligible_for_pot a" "seat_eligible_for_pot b"
    and "evaluate_hand (ss_hole_cards a) (gs_board g) = Some ea"
      "evaluate_hand (ss_hole_cards b) (gs_board g) = Some eb"
    and bound: "ss_stack a < u32_bound" "ss_stack b < u32_bound" "gs_pot g < u32_bound"
    and "showdown_pays (compare_hands ea eb) (gs_button g) (gs_pot g) = (na, nb)"
  shows "\<exists>g'. game_resolve_showdown g = Some g' \<and> gs_pot g' = 0 \<and> gs_phase g' = PhaseShowdown \<and>
    gs_seats g' = pair_at 0 (award_chips na a) (award_chips nb b) \<and> gs_button g' = gs_button g \<and>
    length (gs_seat_stats g') = 2"
proof -
  have zero: "(0 :: nat) < 2" by simp
  note reads = game_seat_pair [OF assms(1) zero] heads_up_seats_pair [OF assms(1)]
  have one: "other_seat 0 = Suc 0" by (simp add: other_seat_def)
  consider w where "compare_hands ea eb = (if w = 0 then Greater else Less)" "w < (2 :: nat)"
    | "compare_hands ea eb = Equal"
  proof (cases "compare_hands ea eb")
    case Less
    then show thesis using that(1) [of 1] by simp
  next
    case Equal
    then show thesis by (rule that(2))
  next
    case Greater
    then show thesis using that(1) [of 0] by simp
  qed
  then show ?thesis
  proof cases
    case 1
    obtain stats g1 where stats: "length stats = 2" "game_seat_mut g w (award_chips (gs_pot g)) = Some g1"
      "record_result g1 w (gs_pot g) =
        Some (g\<lparr>gs_seats := pair_at 0 (award_chips (if w = 0 then gs_pot g else 0) a)
          (award_chips (if w = 0 then 0 else gs_pot g) b), gs_seat_stats := stats\<rparr>)"
      by (rule showdown_win [OF assms(1,2) 1(2) bound(1,2)])
    show ?thesis
      using reads one stats assms(6,7,11) 1
      by (auto simp: game_resolve_showdown_def Let_def compare_hands_def then_with_def showdown_pays_def
          assms(3) elim!: two_seats split: if_splits ordering.splits)
  next
    case 2
    define na nb where "na = gs_pot g div 2 + (if gs_button g = 0 then 0 else gs_pot g mod 2)"
      and "nb = gs_pot g div 2 + (if gs_button g = 0 then gs_pot g mod 2 else 0)"
    obtain odd g1 where split: "next_for_pot (gs_seats g) (gs_button g) = Some odd"
      "game_seat_mut g 0 (award_chips (u32_add (gs_pot g div 2) (of_bool (0 = odd) * (gs_pot g mod 2)))) = Some g1"
      "game_seat_mut g1 (Suc 0) (award_chips (u32_add (gs_pot g div 2) (of_bool (Suc 0 = odd) * (gs_pot g mod 2))))
        = Some (g\<lparr>gs_seats := pair_at 0 (award_chips na a) (award_chips nb b)\<rparr>)"
      using showdown_split [OF assms(1,4,5,3) bound(3)] unfolding bind_eq_Some_conv na_def nb_def by blast
    show ?thesis
      using reads one split assms(6,7,11) 2 assms(2) na_def nb_def
      by (auto simp: game_resolve_showdown_def Let_def compare_hands_def then_with_def showdown_pays_def
          split: if_splits ordering.splits)
  qed
qed

lemma showdown_over:
  assumes "duel_at T g s a b" "seat_eligible_for_pot a" "seat_eligible_for_pot b"
  shows "\<exists>g'. game_resolve_showdown g = Some g' \<and> game_over T g' \<and> gs_phase g' = PhaseShowdown"
proof -
  have zero: ?thesis if duel: "duel_at T g 0 x y" and elig: "seat_eligible_for_pot x" "seat_eligible_for_pot y" for x y
  proof -
    obtain ex ey where evals: "evaluate_hand (ss_hole_cards x) (gs_board g) = Some ex"
      "evaluate_hand (ss_hole_cards y) (gs_board g) = Some ey" using evaluate_hand_returns by metis
    obtain nx ny where pays: "showdown_pays (compare_hands ex ey) (gs_button g) (gs_pot g) = (nx, ny)"
      by (cases "showdown_pays (compare_hands ex ey) (gs_button g) (gs_pot g)")
    have all: "nx + ny = gs_pot g" by (rule showdown_pays_all [OF pays])
    note d = duelD [OF duel]
    have bound: "ss_stack x < u32_bound" "ss_stack y < u32_bound" "gs_pot g < u32_bound" using d(5,6) by linarith+
    obtain g' where g': "game_resolve_showdown g = Some g'" "gs_pot g' = 0" "gs_phase g' = PhaseShowdown"
      "gs_seats g' = pair_at 0 (award_chips nx x) (award_chips ny y)" "gs_button g' = gs_button g"
      "length (gs_seat_stats g') = 2"
      using game_showdown_result [OF d(2,7,8) elig evals bound pays] by blast
    have "ss_stack x + nx < u32_bound" "ss_stack y + ny < u32_bound" using all d(5,6) by linarith+
    then have "duel_at T g' 0 (award_chips nx x) (award_chips ny y)"
      using d all g' by (simp add: duel_at_def u32_simps)
    then show ?thesis using g' by (auto simp: game_over_def)
  qed
  show ?thesis
  proof (rule two_seats [OF duelD(1) [OF assms(1)]])
    assume "s = 0"
    then show ?thesis using zero assms by blast
  next
    assume "s = Suc 0"
    then have "duel_at T g 0 b a" using duel_swap [OF assms(1)] by (simp add: other_seat_def)
    then show ?thesis using zero assms(2,3) by blast
  qed
qed

subsection \<open>The end of a street\<close>

lemma take_bets_sel [simp]:
  "ss_street_bet (take_bets a b) = 0" "ss_table_participation (take_bets a b) = ss_table_participation a"
  "ss_hand_participation (take_bets a b) = ss_hand_participation a"
  "ss_hole_cards (take_bets a b) = ss_hole_cards a"
  "seat_eligible_for_pot (take_bets a b) = seat_eligible_for_pot a"
  by (simp_all add: take_bets_def refund_def seat_eligible_for_pot_def)

lemma take_bets_stack:
  "ss_stack a + ss_street_bet a < u32_bound \<Longrightarrow>
     ss_stack (take_bets a b) = ss_stack a + (ss_street_bet a - ss_street_bet b)"
  by (auto simp: take_bets_def refund_def u32_simps)

text \<open>The game after the bets of the street are taken: what is uncalled goes back.\<close>

definition street_closed :: "'g game_state \<Rightarrow> seat_id \<Rightarrow> seat_state \<Rightarrow> seat_state \<Rightarrow> 'g game_state" where
  "street_closed g s a b = g\<lparr>gs_seats := pair_at s (take_bets a b) (take_bets b a),
     gs_pot := gs_pot g - (max (ss_street_bet a) (ss_street_bet b) - min (ss_street_bet a) (ss_street_bet b)),
     gs_last_aggressor := None, gs_actions_this_street := 0\<rparr>"

definition point_to_act :: "'g game_state \<Rightarrow> 'g game_state" where
  "point_to_act g = (case next_to_act (gs_seats g) (gs_button g) of
     Some s \<Rightarrow> g\<lparr>gs_to_act := s\<rparr> | None \<Rightarrow> g)"

lemma advance_phase_pair:
  assumes "gs_seats g = pair_at s a b" "s < 2" "ss_street_bet a + ss_street_bet b \<le> gs_pot g"
  shows "advance_phase g = (let h = street_closed g s a b in case gs_phase g of
      PhasePreflop \<Rightarrow> Some (point_to_act ((game_deal_to_board 3 h)\<lparr>gs_phase := PhaseFlop\<rparr>))
    | PhaseFlop \<Rightarrow> Some (point_to_act ((game_deal_to_board 1 h)\<lparr>gs_phase := PhaseTurn\<rparr>))
    | PhaseTurn \<Rightarrow> Some (point_to_act ((game_deal_to_board 1 h)\<lparr>gs_phase := PhaseRiver\<rparr>))
    | PhaseRiver \<Rightarrow> game_resolve_showdown h
    | _ \<Rightarrow> Some h)"
proof -
  define g1 where "g1 = g\<lparr>gs_seats := pair_at s (refund a b) (refund b a), gs_pot := gs_pot g -
    (max (ss_street_bet a) (ss_street_bet b) - min (ss_street_bet a) (ss_street_bet b))\<rparr>"
  have "ss_street_bet a = ss_street_bet b \<Longrightarrow> g = g1"
    using assms(1) by (simp add: g1_def refund_def)
  moreover have "max (ss_street_bet a) (ss_street_bet b) - min (ss_street_bet a) (ss_street_bet b) \<le> gs_pot g"
    using assms(3) by linarith
  ultimately have "return_uncalled_heads_up_excess g = Some g1"
    using return_excess_pair [OF assms(1,2)] by (auto simp: g1_def u32_simps)
  moreover define g2 where "g2 = g1\<lparr>gs_seats := pair_at s (take_bets a b) (take_bets b a)\<rparr>"
  have seats: "gs_seats g1 = pair_at s (refund a b) (refund b a)" by (simp add: g1_def)
  have "for_m (\<lambda>s g. game_seat_mut g s (\<lambda>st. st\<lparr>ss_street_bet := 0\<rparr>)) [0, Suc 0] g1 = Some g2"
    unfolding clear_bets_pair [OF seats] g2_def take_bets_def by simp
  moreover have closed: "g2\<lparr>gs_last_aggressor := None, gs_actions_this_street := 0\<rparr> = street_closed g s a b"
    by (simp add: g2_def g1_def street_closed_def)
  have "gs_phase g = gs_phase g2" by (simp add: g1_def g2_def)
  ultimately show ?thesis
    by (simp del: for_m.simps add: advance_phase_def Let_def closed [symmetric] pair_seats seats point_to_act_def
        cong: game_phase.case_cong)
qed

lemma point_to_act_cases:
  assumes "gs_seats g = pair_at s a b" "s < 2" "gs_button g < 2"
  shows "point_to_act g =
    (if gs_button g = s then (if eligible_to_act b then g\<lparr>gs_to_act := other_seat s\<rparr> else g)
     else (if eligible_to_act a then g\<lparr>gs_to_act := s\<rparr> else g))"
  using assms other_seat_iff [of s "gs_button g"] by (auto simp: point_to_act_def)

lemma duel_cong:
  assumes "duel_at T g s a b" "gs_seats h = pair_at s a' b'" "ss_table_participation a' = Active"
    and "ss_table_participation b' = Active" "ss_stack a' + ss_stack b' + gs_pot h = T"
    and "length (gs_seat_stats h) = 2" "gs_button h = gs_button g"
  shows "duel_at T h s a' b'"
  using assms by (simp add: duel_at_def)

text \<open>A street ends when the smaller bet, if the bets differ, is of a seat that has no chips.\<close>

definition bets_settled :: "seat_state \<Rightarrow> seat_state \<Rightarrow> bool" where
  "bets_settled a b \<longleftrightarrow> (ss_street_bet b < ss_street_bet a \<longrightarrow> ss_stack b = 0) \<and>
     (ss_street_bet a < ss_street_bet b \<longrightarrow> ss_stack a = 0)"

lemma street_closed_ok:
  assumes "duel_at T g s a b" "standing a b" "full_deck g a b" "bets_settled a b"
    and "ss_street_bet a + ss_street_bet b \<le> gs_pot g"
  shows "duel_at T (street_closed g s a b) s (take_bets a b) (take_bets b a)"
    and "standing (take_bets a b) (take_bets b a)"
    and "full_deck (street_closed g s a b) (take_bets a b) (take_bets b a)"
proof -
  note d = duelD [OF assms(1)]
  have bound: "ss_stack a + ss_street_bet a < u32_bound" "ss_stack b + ss_street_bet b < u32_bound"
    using d(5,6) assms(5) by linarith+
  note stacks = take_bets_stack [OF bound(1), of b] take_bets_stack [OF bound(2), of a]
  have fields: "gs_seats (street_closed g s a b) = pair_at s (take_bets a b) (take_bets b a)"
    "length (gs_seat_stats (street_closed g s a b)) = 2" "gs_button (street_closed g s a b) = gs_button g"
    "gs_board (street_closed g s a b) = gs_board g" "gs_deck (street_closed g s a b) = gs_deck g"
    "gs_phase (street_closed g s a b) = gs_phase g"
    using d(7) by (simp_all add: street_closed_def)
  have "ss_stack (take_bets a b) + ss_stack (take_bets b a) + gs_pot (street_closed g s a b) = T"
    using stacks d(5) assms(5) by (simp add: street_closed_def max_def min_def)
  then show "duel_at T (street_closed g s a b) s (take_bets a b) (take_bets b a)"
    using d fields by (intro duel_cong [OF assms(1)]) simp_all
  show "standing (take_bets a b) (take_bets b a)"
    using assms(2,4) by (auto simp: standing_def stacks bets_settled_def)
  show "full_deck (street_closed g s a b) (take_bets a b) (take_bets b a)"
    using assms(3) fields game_cards_cong [OF d(2) fields(1)] by (simp add: full_deck_def)
qed

lemma next_street_ok:
  assumes "duel_at T h s a b" "standing a b" "full_deck h a b" "ss_street_bet a = 0" "ss_street_bet b = 0"
    and "gs_last_aggressor h = None" "gs_actions_this_street h = 0" "gs_to_act h = s"
    and "game_board_size p = game_board_size (gs_phase h) + n" "n + game_board_size (gs_phase h) \<le> 48"
    and "p \<in> {PhaseFlop, PhaseTurn, PhaseRiver}"
  defines "g' \<equiv> point_to_act ((game_deal_to_board n h)\<lparr>gs_phase := p\<rparr>)"
  shows "(\<exists>a' b'. game_betting T g' a' b' \<and> (game_turn g' a' b' \<or> game_runout g' a' b')) \<and>
    gs_phase g' = p \<and> game_stacks g' = game_stacks h \<and> gs_pot g' = gs_pot h \<and> gs_actions_this_street g' = 0"
proof -
  define k where "k = (game_deal_to_board n h)\<lparr>gs_phase := p\<rparr>"
  note d = duelD [OF assms(1)]
  have fields: "gs_seats k = pair_at s a b" "gs_button k = gs_button h" "gs_pot k = gs_pot h" "gs_phase k = p"
    "gs_last_aggressor k = None" "gs_actions_this_street k = 0" "gs_to_act k = s"
    "gs_seat_stats k = gs_seat_stats h"
    using d assms(6-8) by (simp_all add: k_def)
  have duel: "duel_at T k s a b"
    using d fields by (simp add: duel_at_def)
  have "n \<le> length (deck_rest (gs_deck h))"
    using full_deck_rest [OF assms(1,3)] assms(10) by linarith
  then have deck: "full_deck k a b"
    using assms(3,9) game_deal_cards [of n h] game_cards_pair [OF d(2)] game_cards_pair [OF fields(1)]
    by (simp add: full_deck_def k_def add.assoc)
  have play: "in_play p" "p \<noteq> PhasePreflop" using assms(11) by (auto simp: in_play_def)
  have keep: "gs_phase g' = p" "gs_seats g' = gs_seats k" "gs_pot g' = gs_pot h" "gs_actions_this_street g' = 0"
    using fields by (simp_all add: g'_def k_def [symmetric] point_to_act_def split: option.split)
  have betting: "game_betting T g' x y \<and> (game_turn g' x y \<or> game_runout g' x y)"
    if g': "g' = k\<lparr>gs_to_act := t\<rparr>" and xy: "duel_at T k t x y" "standing x y" "full_deck k x y"
      "ss_street_bet x = 0" "ss_street_bet y = 0" and act: "eligible_to_act x \<or> ss_stack x = 0 \<or> ss_stack y = 0"
    for t x y
  proof -
    have "full_deck g' x y" using xy(3) by (simp add: full_deck_def game_cards_def g')
    moreover have "duel_at T g' t x y" using xy(1) by (simp add: duel_at_def g')
    moreover have "game_turn g' x y \<or> game_runout g' x y"
      using act xy(4,5) play fields by (auto simp: game_turn_def game_runout_def g')
    ultimately show ?thesis
      using xy play fields by (auto simp: game_betting_def g')
  qed
  have elig: "eligible_to_act x" if "standing x y" "0 < ss_stack x" "0 < ss_stack y" for x y
    using that by (simp add: standing_def eligible_to_act_def)
  have to: "g' = (if gs_button k = s then (if eligible_to_act b then k\<lparr>gs_to_act := other_seat s\<rparr> else k)
     else (if eligible_to_act a then k\<lparr>gs_to_act := s\<rparr> else k))"
    using point_to_act_cases [OF fields(1) d(1)] d(8) fields(2) by (simp add: g'_def k_def)
  have self: "k = k\<lparr>gs_to_act := s\<rparr>" using fields(7) by simp
  have "\<exists>a' b'. game_betting T g' a' b' \<and> (game_turn g' a' b' \<or> game_runout g' a' b')"
  proof (cases "gs_button k = s \<and> eligible_to_act b")
    case True
    then have g': "g' = k\<lparr>gs_to_act := other_seat s\<rparr>" using to by simp
    have "game_betting T g' b a \<and> (game_turn g' b a \<or> game_runout g' b a)"
      by (rule betting [OF g' duel_swap [OF duel] standing_swap [OF assms(2)] full_deck_swap [OF deck]])
        (use True assms(4,5) in simp_all)
    then show ?thesis by blast
  next
    case False
    then have g': "g' = k\<lparr>gs_to_act := s\<rparr>" using to self by (auto split: if_splits)
    have "eligible_to_act a \<or> ss_stack a = 0 \<or> ss_stack b = 0"
      using elig [OF assms(2)] by auto
    then have "game_betting T g' a b \<and> (game_turn g' a b \<or> game_runout g' a b)"
      by (rule betting [OF g' duel assms(2) deck assms(4,5)])
    then show ?thesis by blast
  qed
  moreover have "game_stacks g' = game_stacks h"
    using keep(2) fields(1) d(2) by (simp add: game_stacks_def)
  ultimately show ?thesis using keep by simp
qed

text \<open>What an accepted step leads to: a hand in which somebody can act or the board runs out, or its end.\<close>

definition game_goes_on :: "nat \<Rightarrow> 'g game_state \<Rightarrow> bool" where
  "game_goes_on T g \<longleftrightarrow> (\<exists>a b. game_betting T g a b \<and> (game_turn g a b \<or> game_runout g a b)) \<or> game_over T g"

lemma game_left_bound:
  "in_play (gs_phase g) \<Longrightarrow> game_streets_left (gs_phase g) * (2 * (game_stacks g + gs_pot g) + 3) < game_left g"
  by (simp add: game_left_def)

lemma game_over_left: "game_over T g \<Longrightarrow> game_left g = 0"
  by (auto simp: game_over_def game_left_def in_play_def)

lemma advance_phase_ok:
  assumes "duel_at T g s a b" "standing a b" "full_deck g a b" "bets_settled a b" "in_play (gs_phase g)"
    and "ss_street_bet a + ss_street_bet b \<le> gs_pot g" "gs_to_act g = s"
  shows "\<exists>g'. advance_phase g = Some g' \<and> game_goes_on T g' \<and>
    game_left g' \<le> game_streets_left (gs_phase g) * (2 * T + 3)"
proof -
  note d = duelD [OF assms(1)]
  define h where "h = street_closed g s a b"
  note closed = street_closed_ok [OF assms(1-4,6), folded h_def]
  have fields: "gs_last_aggressor h = None" "gs_actions_this_street h = 0" "gs_to_act h = s"
    "gs_phase h = gs_phase g"
    using assms(7) by (simp_all add: h_def street_closed_def)
  have sum: "game_stacks h + gs_pot h = T"
    using duelD(2,5) [OF closed(1)] by (simp add: game_stacks_pair)
  have deal: "\<exists>g'. Some (point_to_act ((game_deal_to_board n h)\<lparr>gs_phase := p\<rparr>)) = Some g' \<and> game_goes_on T g' \<and>
      game_left g' \<le> game_streets_left (gs_phase g) * (2 * T + 3)"
    if p: "game_board_size p = game_board_size (gs_phase g) + n" "n + game_board_size (gs_phase g) \<le> 48"
      "p \<in> {PhaseFlop, PhaseTurn, PhaseRiver}" "game_streets_left (gs_phase g) = Suc (game_streets_left p)" for p n
  proof -
    define g' where "g' = point_to_act ((game_deal_to_board n h)\<lparr>gs_phase := p\<rparr>)"
    have street: "(\<exists>a' b'. game_betting T g' a' b' \<and> (game_turn g' a' b' \<or> game_runout g' a' b')) \<and>
        gs_phase g' = p \<and> game_stacks g' = game_stacks h \<and> gs_pot g' = gs_pot h \<and> gs_actions_this_street g' = 0"
      unfolding g'_def
      by (rule next_street_ok [OF closed(1,2,3) _ _ fields(1-3)]) (use p fields in simp_all)
    then have "game_left g' \<le> game_streets_left (gs_phase g) * (2 * T + 3)"
      using sum p by (simp add: game_left_def)
    then show ?thesis using street by (auto simp: g'_def [symmetric] game_goes_on_def)
  qed
  have adv: "advance_phase g = (case gs_phase g of
      PhasePreflop \<Rightarrow> Some (point_to_act ((game_deal_to_board 3 h)\<lparr>gs_phase := PhaseFlop\<rparr>))
    | PhaseFlop \<Rightarrow> Some (point_to_act ((game_deal_to_board 1 h)\<lparr>gs_phase := PhaseTurn\<rparr>))
    | PhaseTurn \<Rightarrow> Some (point_to_act ((game_deal_to_board 1 h)\<lparr>gs_phase := PhaseRiver\<rparr>))
    | PhaseRiver \<Rightarrow> game_resolve_showdown h
    | _ \<Rightarrow> Some h)"
    unfolding h_def using advance_phase_pair [OF d(2,1) assms(6)] by (simp only: Let_def)
  have river: "\<exists>g'. game_resolve_showdown h = Some g' \<and> game_goes_on T g' \<and>
      game_left g' \<le> game_streets_left (gs_phase g) * (2 * T + 3)"
  proof -
    have "seat_eligible_for_pot (take_bets a b)" "seat_eligible_for_pot (take_bets b a)"
      using assms(2) by (simp_all add: standing_def)
    from showdown_over [OF closed(1) this] show ?thesis
      by (metis game_goes_on_def game_over_left le0)
  qed
  show ?thesis
    using assms(5) river deal [of PhaseFlop 3] deal [of PhaseTurn 1] deal [of PhaseRiver 1]
    by (cases "gs_phase g") (simp_all add: in_play_def adv)
qed

subsection \<open>Actions\<close>

lemma continue_round_ok:
  assumes "duel_at T g s a b" "standing a b" "full_deck g a b" "in_play (gs_phase g)"
    and "ss_street_bet a + ss_street_bet b \<le> gs_pot g" "gs_to_act g = s" "0 < ss_stack b \<Longrightarrow> eligible_to_act b"
    and covers: "ss_street_bet a < ss_street_bet b \<Longrightarrow> ss_stack a = 0"
    and aggression: "ss_street_bet b < ss_street_bet a \<Longrightarrow> gs_last_aggressor g \<noteq> None"
    and quiet: "gs_last_aggressor g = None \<Longrightarrow> ss_street_bet a = ss_street_bet b \<Longrightarrow> 0 < ss_stack a \<Longrightarrow>
      0 < ss_stack b \<Longrightarrow> gs_phase g = PhasePreflop \<Longrightarrow>
      s = gs_button g \<or> gs_last_action g = Some (other_seat (gs_button g), Check)"
    and less: "\<not> round_complete g a b \<Longrightarrow> game_left g < n" "game_streets_left (gs_phase g) * (2 * T + 3) < n"
  shows "\<exists>g'. continue_round g s = Some g' \<and> game_goes_on T g' \<and> game_left g' < n"
proof (cases "round_complete g a b")
  case True
  note d = duelD [OF assms(1)]
  have "is_betting_round_complete g = Some True"
    using is_betting_round_complete_pair [OF d(2,1,8,3,4)] True by simp
  then have step: "continue_round g s = advance_phase g" by (simp add: continue_round_def)
  have "bets_settled a b"
    using True covers by (auto simp: bets_settled_def round_complete_def split: if_splits)
  from advance_phase_ok [OF assms(1-3) this assms(4-6)] show ?thesis
    using step less(2) by (metis le_less_trans)
next
  case False
  note d = duelD [OF assms(1)]
  have incomplete: "is_betting_round_complete g = Some False"
    using is_betting_round_complete_pair [OF d(2,1,8,3,4)] False by simp
  have live: "0 < ss_stack b"
    using False covers by (auto simp: round_complete_def split: if_splits)
  then have elig: "eligible_to_act b" by (rule assms(7))
  define g' where "g' = g\<lparr>gs_to_act := other_seat s\<rparr>"
  have step: "continue_round g s = Some g'"
    using incomplete d(1,2) elig by (simp add: continue_round_def g'_def)
  have more: "ss_street_bet b \<le> ss_street_bet a"
    using False covers by (cases "ss_street_bet a < ss_street_bet b") (auto simp: round_complete_def split: if_splits)
  have "duel_at T g' (gs_to_act g') b a"
    using duel_swap [OF assms(1)] by (simp add: duel_at_def g'_def)
  moreover have "full_deck g' b a"
    using full_deck_swap [OF assms(3)] by (simp add: full_deck_def game_cards_def g'_def)
  moreover have "game_turn g' b a"
    using elig aggression quiet False more live d(1,8) other_seat_iff [of s "gs_button g"]
    by (auto simp: game_turn_def g'_def round_complete_def split: if_splits)
  ultimately have "game_betting T g' b a \<and> game_turn g' b a"
    using standing_swap [OF assms(2)] assms(4,5) more by (auto simp: game_betting_def g'_def)
  moreover have "game_left g' = game_left g"
    by (simp add: game_left_def game_stacks_def g'_def)
  ultimately show ?thesis using step less(1) [OF False] by (auto simp: game_goes_on_def)
qed

text \<open>A wager of \<open>n\<close> chips by the seat to act, and what follows.\<close>

lemma wager_ok:
  assumes "game_betting T g a b" "eligible_to_act a" "0 < n" "n \<le> ss_stack a"
    and a': "ss_stack a' = ss_stack a - n" "ss_street_bet a' = ss_street_bet a + n"
      "ss_hole_cards a' = ss_hole_cards a" "ss_table_participation a' = ss_table_participation a"
      "ss_hand_participation a' = (if n = ss_stack a then AllIn else Live)"
    and g': "gs_seats g' = pair_at (gs_to_act g) a' b" "gs_pot g' = gs_pot g + n" "gs_phase g' = gs_phase g"
      "gs_board g' = gs_board g" "gs_deck g' = gs_deck g" "gs_seat_stats g' = gs_seat_stats g"
      "gs_button g' = gs_button g" "gs_to_act g' = gs_to_act g"
    and covers: "ss_street_bet a + n < ss_street_bet b \<Longrightarrow> n = ss_stack a"
    and aggression: "ss_street_bet b < ss_street_bet a + n \<Longrightarrow> gs_last_aggressor g' \<noteq> None"
      "gs_last_aggressor g \<noteq> None \<Longrightarrow> gs_last_aggressor g' \<noteq> None"
  shows "\<exists>g''. continue_round g' (gs_to_act g) = Some g'' \<and> game_goes_on T g'' \<and> game_left g'' < game_left g"
proof -
  have b: "duel_at T g (gs_to_act g) a b" "full_deck g a b" "standing a b" "in_play (gs_phase g)"
    "ss_street_bet a \<le> ss_street_bet b" "ss_street_bet a + ss_street_bet b \<le> gs_pot g"
    "game_turn g a b \<or> game_runout g a b \<or> game_stuck g a"
    using assms(1) by (simp_all add: game_betting_def)
  note d = duelD [OF b(1)]
  have a: "0 < ss_stack a" "ss_hand_participation a = Live" using assms(2) by (simp_all add: eligible_to_act_def)
  have duel: "duel_at T g' (gs_to_act g) a' b"
    using d assms(4) a' g' by (intro duel_cong [OF b(1)]) simp_all
  have stand: "standing a' b"
    using b(3) a a' assms(4) by (auto simp: standing_def seat_eligible_for_pot_def)
  have deck: "full_deck g' a' b"
    using b(2) g' a' game_cards_cong [OF d(2) g'(1)] by (simp add: full_deck_def)
  have elig: "0 < ss_stack b \<Longrightarrow> eligible_to_act b"
    using b(3) a by (simp add: standing_def eligible_to_act_def)
  have sum: "game_stacks g' + n = game_stacks g" "game_stacks g + gs_pot g = T"
    using game_stacks_pair [OF d(2)] game_stacks_pair [OF g'(1)] a' assms(4) d(5) by simp_all
  have left: "game_left g' < game_left g"
  proof -
    have "game_stacks g' + gs_pot g' = game_stacks g + gs_pot g" using sum g'(2) by simp
    moreover have "2 * game_stacks g' + 2 \<le> 2 * game_stacks g" using sum(1) assms(3) by linarith
    ultimately show ?thesis using b(4) g'(3) by (simp add: game_left_def)
  qed
  show ?thesis
  proof (rule continue_round_ok [OF duel stand deck])
    show "in_play (gs_phase g')" "gs_to_act g' = gs_to_act g" using b(4) g' by simp_all
    show "ss_street_bet a' + ss_street_bet b \<le> gs_pot g'" using a' g' b(6) by simp
    show "0 < ss_stack b \<Longrightarrow> eligible_to_act b" by (rule elig)
    show "ss_street_bet a' < ss_street_bet b \<Longrightarrow> ss_stack a' = 0" using covers a' by simp
    show "ss_street_bet b < ss_street_bet a' \<Longrightarrow> gs_last_aggressor g' \<noteq> None" using aggression(1) a' by simp
    show "gs_last_aggressor g' = None \<Longrightarrow> ss_street_bet a' = ss_street_bet b \<Longrightarrow> 0 < ss_stack a' \<Longrightarrow>
        0 < ss_stack b \<Longrightarrow> gs_phase g' = PhasePreflop \<Longrightarrow>
        gs_to_act g = gs_button g' \<or> gs_last_action g' = Some (other_seat (gs_button g'), Check)"
      using b(7) aggression(2) a' g' a assms(3)
      by (auto simp: game_turn_def game_runout_def game_stuck_def)
    show "game_left g' < game_left g" by (rule left)
    show "game_streets_left (gs_phase g') * (2 * T + 3) < game_left g"
      using game_left_bound [OF b(4)] sum(2) g'(3) by simp
  qed
qed

lemma check_ok:
  assumes "game_betting T g a b" "eligible_to_act a" "ss_street_bet a = ss_street_bet b"
    and g': "g' = g\<lparr>gs_last_action := Some (gs_to_act g, Check),
      gs_actions_this_street := (gs_actions_this_street g + 1) mod 256\<rparr>"
  shows "\<exists>g''. continue_round g' (gs_to_act g) = Some g'' \<and> game_goes_on T g'' \<and> game_left g'' < game_left g"
proof -
  have b: "duel_at T g (gs_to_act g) a b" "full_deck g a b" "standing a b" "in_play (gs_phase g)"
    "ss_street_bet a + ss_street_bet b \<le> gs_pot g"
    "game_turn g a b \<or> game_runout g a b \<or> game_stuck g a"
    using assms(1) by (simp_all add: game_betting_def)
  note d = duelD [OF b(1)]
  have a: "0 < ss_stack a" "ss_hand_participation a = Live" using assms(2) by (simp_all add: eligible_to_act_def)
  have duel: "duel_at T g' (gs_to_act g) a b" using b(1) by (simp add: duel_at_def g')
  have deck: "full_deck g' a b" using b(2) by (simp add: full_deck_def game_cards_def g')
  have sum: "game_stacks g' = game_stacks g" "game_stacks g + gs_pot g = T"
    using game_stacks_pair [OF d(2)] d(5) by (simp_all add: g' game_stacks_def)
  have turn: "0 < ss_stack b \<Longrightarrow> gs_last_aggressor g = None \<and>
      (if gs_phase g = PhasePreflop then gs_to_act g = other_seat (gs_button g)
       else gs_actions_this_street g \<le> 1)"
    using b(6) a assms(3) by (auto simp: game_turn_def game_runout_def game_stuck_def)
  show ?thesis
  proof (rule continue_round_ok [OF duel b(3) deck])
    show "in_play (gs_phase g')" "gs_to_act g' = gs_to_act g" "ss_street_bet a + ss_street_bet b \<le> gs_pot g'"
      using b(4,5) g' by simp_all
    show "0 < ss_stack b \<Longrightarrow> eligible_to_act b" using b(3) a by (simp add: standing_def eligible_to_act_def)
    show "ss_street_bet a < ss_street_bet b \<Longrightarrow> ss_stack a = 0"
      "ss_street_bet b < ss_street_bet a \<Longrightarrow> gs_last_aggressor g' \<noteq> None" using assms(3) by simp_all
    show "gs_last_aggressor g' = None \<Longrightarrow> ss_street_bet a = ss_street_bet b \<Longrightarrow> 0 < ss_stack a \<Longrightarrow>
        0 < ss_stack b \<Longrightarrow> gs_phase g' = PhasePreflop \<Longrightarrow>
        gs_to_act g = gs_button g' \<or> gs_last_action g' = Some (other_seat (gs_button g'), Check)"
      using turn by (simp add: g')
    show "game_streets_left (gs_phase g') * (2 * T + 3) < game_left g"
      using game_left_bound [OF b(4)] sum(2) g' by simp
    show "game_left g' < game_left g" if "\<not> round_complete g' a b"
    proof -
      have "0 < ss_stack b" using that assms(3) by (auto simp: round_complete_def split: if_splits)
      note t = turn [OF this]
      then have "gs_phase g \<noteq> PhasePreflop"
        using that assms(3) by (auto simp: round_complete_def g' split: if_splits)
      then have "gs_actions_this_street g \<le> 1" "\<not> 2 \<le> (gs_actions_this_street g + 1) mod 256"
        using that assms(3) t a \<open>0 < ss_stack b\<close> by (auto simp: round_complete_def g' split: if_splits)
      then have "gs_actions_this_street g = 0" by (cases "gs_actions_this_street g = 1") simp_all
      then show ?thesis using b(4) sum by (simp add: game_left_def g')
    qed
  qed
qed

text \<open>What the validation of an action ensures.\<close>

lemma validated_action:
  assumes "game_betting T g a b" "validate_game_action g (gs_to_act g) act = Some (Inr ())"
  shows "case act of
      ActFold \<Rightarrow> True
    | Check \<Rightarrow> ss_street_bet a = ss_street_bet b
    | Call n \<Rightarrow> n = ss_street_bet b - ss_street_bet a \<and> 0 < n \<and> n < ss_stack a
    | Bet n \<Rightarrow> ss_street_bet b < n \<and> n < ss_street_bet a + ss_stack a
    | Raise n \<Rightarrow> ss_street_bet b < n \<and> n < ss_street_bet a + ss_stack a
    | ActAllIn n \<Rightarrow> n = ss_street_bet a + ss_stack a \<and> 0 < ss_stack a"
proof -
  have b: "duel_at T g (gs_to_act g) a b" "ss_street_bet a \<le> ss_street_bet b"
    "ss_street_bet a + ss_street_bet b \<le> gs_pot g" using assms(1) by (simp_all add: game_betting_def)
  note d = duelD [OF b(1)]
  have top: "max_bet g = ss_street_bet b" using max_bet_pair [OF d(2)] b(2) by simp
  have owed: "game_amount_to_call g (gs_to_act g) = Some (ss_street_bet b - ss_street_bet a)"
    using d(1,2) by (simp add: game_amount_to_call_def top saturating_sub_def)
  have bound: "ss_street_bet a + ss_stack a < u32_bound" using d(5,6) b(3) by linarith
  then have maxi: "u32_saturating_add (ss_street_bet a) (ss_stack a) = ss_street_bet a + ss_stack a"
    by (rule u32_saturating_add_exact)
  have mini: "ss_street_bet b < n \<and> n < ss_street_bet a + ss_stack a"
    if "u32_saturating_add (ss_street_bet b) (max (gs_last_raise_size g) BIG_BLIND) \<le> n"
      "n \<le> ss_street_bet a + ss_stack a - 1" for n
    using that bound by (auto simp: u32_saturating_add_def u32_max_def u32_bound_def BIG_BLIND_def min_def max_def
        split: if_splits)
  note reads = game_seat_pair(1) [OF d(2,1)]
  define valid where "valid = validate_game_action g (gs_to_act g) act"
  note verdict = valid_def [unfolded validate_game_action_def owed reads bind.bind_lunit Let_def top maxi
      saturating_sub_def, symmetric]
  have ok: "valid = Some (Inr ())" using assms(2) by (simp add: valid_def)
  show ?thesis
  proof (cases act)
    case (Bet n)
    then have "ss_street_bet a = ss_street_bet b" "n \<le> ss_street_bet a + ss_stack a - 1"
      "(if ss_street_bet b = 0 then BIG_BLIND
        else u32_saturating_add (ss_street_bet b) (max (gs_last_raise_size g) BIG_BLIND)) \<le> n"
      using ok verdict b(2) by (simp_all split: if_splits)
    then show ?thesis using mini [of n] Bet by (auto simp: BIG_BLIND_def split: if_splits)
  next
    case (Raise n)
    then have "n \<le> ss_street_bet a + ss_stack a - 1"
      "u32_saturating_add (ss_street_bet b) (max (gs_last_raise_size g) BIG_BLIND) \<le> n"
      using ok verdict by (simp_all split: if_splits)
    then show ?thesis using mini [of n] Raise by simp
  qed (use ok verdict b(2) in \<open>auto split: if_splits\<close>)
qed

lemma apply_game_action_ok:
  assumes "game_betting T g a b" "eligible_to_act a" "validate_game_action g (gs_to_act g) act = Some (Inr ())"
  shows "\<exists>g'. apply_game_action g (gs_to_act g) act = Some g' \<and> game_goes_on T g' \<and> game_left g' < game_left g"
proof -
  have b: "duel_at T g (gs_to_act g) a b" "standing a b" "in_play (gs_phase g)" "ss_street_bet a \<le> ss_street_bet b"
    "ss_street_bet a + ss_street_bet b \<le> gs_pot g"
    using assms(1) by (simp_all add: game_betting_def)
  note d = duelD [OF b(1)] and valid = validated_action [OF assms(1,3)]
  have live: "ss_hand_participation a = Live" using assms(2) by (simp add: eligible_to_act_def)
  have bound: "gs_pot g + ss_stack a < u32_bound" "ss_street_bet a + ss_stack a < u32_bound"
    using d(5,6) b(5) by linarith+
  define g1 where "g1 = g\<lparr>gs_last_action := Some (gs_to_act g, act),
    gs_actions_this_street := (gs_actions_this_street g + 1) mod 256\<rparr>"
  have seats: "gs_seats g1 = pair_at (gs_to_act g) a b" using d(2) by (simp add: g1_def)
  have top: "max_bet g1 = ss_street_bet b" using max_bet_pair [OF seats] b(4) by simp
  have pay: "add_chips g1 (gs_to_act g) n = Some (g1\<lparr>gs_seats := pair_at (gs_to_act g)
      (a\<lparr>ss_stack := ss_stack a - n, ss_street_bet := ss_street_bet a + n\<rparr>) b, gs_pot := gs_pot g + n\<rparr>)"
    if "n \<le> ss_stack a" for n
  proof -
    have "gs_pot g + n < u32_bound" "ss_street_bet a + n < u32_bound" using bound that by linarith+
    then show ?thesis
      using add_chips_pair [OF seats d(1)] that by (simp add: pay_def u32_simps g1_def)
  qed
  have raise: "\<exists>g'. Option.bind (raise_bet_to g1 (gs_to_act g) n) (\<lambda>g. continue_round g (gs_to_act h)) = Some g' \<and>
      game_goes_on T g' \<and> game_left g' < game_left g"
    if n: "ss_street_bet b < n" "n < ss_street_bet a + ss_stack a" and h: "h = g" for n h
  proof -
    have n': "0 < n - ss_street_bet a" "n - ss_street_bet a < ss_stack a" "u32_sub n (ss_street_bet a) = n - ss_street_bet a"
      "ss_street_bet a + (n - ss_street_bet a) = n"
      using n b(4) by (auto simp: u32_sub_def)
    define g2 where "g2 = note_aggression (gs_to_act g) n (ss_street_bet b) (g1\<lparr>gs_seats := pair_at (gs_to_act g)
      (a\<lparr>ss_stack := ss_stack a - (n - ss_street_bet a), ss_street_bet := n\<rparr>) b, gs_pot := gs_pot g + (n - ss_street_bet a)\<rparr>)"
    have "raise_bet_to g1 (gs_to_act g) n = Some g2"
      using pay [of "n - ss_street_bet a"] n' game_seat_pair(1) [OF seats d(1)]
      by (simp add: raise_bet_to_def top g2_def)
    moreover have "\<exists>g'. continue_round g2 (gs_to_act g) = Some g' \<and> game_goes_on T g' \<and> game_left g' < game_left g"
      by (rule wager_ok [OF assms(1,2) n'(1) less_imp_le [OF n'(2)],
            where a' = "a\<lparr>ss_stack := ss_stack a - (n - ss_street_bet a), ss_street_bet := n\<rparr>"])
        (use n n' live in \<open>simp_all add: g2_def g1_def note_aggression_def Let_def\<close>)
    ultimately show ?thesis by (simp add: h)
  qed
  show ?thesis
  proof (cases act)
    case ActFold
    have "duel_at T g1 (gs_to_act g) a b" using b(1) by (simp add: duel_at_def g1_def)
    from handle_fold_over [OF this] obtain g' where g': "handle_fold g1 (gs_to_act g) = Some g'" "game_over T g'"
      using b(2) by (auto simp: standing_def)
    moreover have "game_left g' < game_left g"
      using game_over_left [OF g'(2)] b(3) by (simp add: game_left_def)
    ultimately show ?thesis
      using ActFold by (simp add: apply_game_action_def g1_def game_goes_on_def)
  next
    case Check
    then show ?thesis
      using check_ok [OF assms(1,2) _ refl] valid by (simp add: apply_game_action_def g1_def)
  next
    case (Call n)
    have n: "n = ss_street_bet b - ss_street_bet a" "0 < n" "n < ss_stack a"
      using valid unfolding Call action.case by blast+
    define g2 where "g2 = g1\<lparr>gs_seats := pair_at (gs_to_act g)
      (a\<lparr>ss_stack := ss_stack a - n, ss_street_bet := ss_street_bet a + n\<rparr>) b, gs_pot := gs_pot g + n\<rparr>"
    have "\<exists>g'. continue_round g2 (gs_to_act g) = Some g' \<and> game_goes_on T g' \<and> game_left g' < game_left g"
      by (rule wager_ok [OF assms(1,2) n(2) less_imp_le [OF n(3)],
            where a' = "a\<lparr>ss_stack := ss_stack a - n, ss_street_bet := ss_street_bet a + n\<rparr>"])
        (use n live b(4) in \<open>simp_all add: g2_def g1_def\<close>)
    then show ?thesis
      using pay [OF less_imp_le [OF n(3)]] Call by (simp add: apply_game_action_def g1_def g2_def Let_def)
  next
    case (Bet n)
    then show ?thesis using raise [of n g] valid by (simp add: apply_game_action_def g1_def Let_def)
  next
    case (Raise n)
    then show ?thesis using raise [of n g] valid by (simp add: apply_game_action_def g1_def Let_def)
  next
    case (ActAllIn n)
    then have n: "n = ss_street_bet a + ss_stack a" "0 < ss_stack a" using valid by simp_all
    define a' where "a' = a\<lparr>ss_stack := 0, ss_street_bet := n, ss_hand_participation := AllIn\<rparr>"
    define g2 where "g2 = g1\<lparr>gs_pot := gs_pot g + ss_stack a, gs_seats := pair_at (gs_to_act g) a' b\<rparr>"
    define g3 where "g3 = (if ss_street_bet b < n then note_aggression (gs_to_act g) n (ss_street_bet b) g2 else g2)"
    have "go_all_in g1 (gs_to_act g) n = Some g3"
      using pay [of "ss_stack a"] n game_seat_pair(1) [OF seats d(1)] d(1)
      by (simp add: go_all_in_def top g3_def g2_def a'_def u32_simps)
    moreover have "\<exists>g'. continue_round g3 (gs_to_act g) = Some g' \<and> game_goes_on T g' \<and> game_left g' < game_left g"
      by (rule wager_ok [OF assms(1,2) n(2) order_refl, where a' = a'])
        (use n in \<open>auto simp: g3_def g2_def g1_def a'_def note_aggression_def Let_def\<close>)
    ultimately show ?thesis using ActAllIn by (simp add: apply_game_action_def g1_def Let_def)
  qed
qed

text \<open>Any command on a hand in play.\<close>

lemma apply_game_command_ok:
  assumes "game_betting T g a b"
  shows "case apply_game_command g c of
     None \<Rightarrow> False
   | Some (Inl e) \<Rightarrow> True
   | Some (Inr g') \<Rightarrow> cmd_seat c = gs_to_act g \<and> eligible_to_act a \<and> game_goes_on T g' \<and> game_left g' < game_left g"
proof (cases "validate_game_command g c")
  case None
  have "duel_at T g (gs_to_act g) a b" using assms by (simp add: game_betting_def)
  note d = duelD [OF this]
  have "validate_game_action g (gs_to_act g) act \<noteq> None" for act
    using game_seat_pair(1) [OF d(2,1)] by (simp add: validate_game_action_def game_amount_to_call_def Let_def)
  then have "validate_game_command g c \<noteq> None"
    by (auto simp: validate_game_command_def split: option.splits)
  then show ?thesis using None by simp
next
  case (Some verdict)
  show ?thesis
  proof (cases verdict)
    case (Inl e)
    then show ?thesis using Some by (simp add: apply_game_command_def)
  next
    case (Inr u)
    have "duel_at T g (gs_to_act g) a b" using assms by (simp add: game_betting_def)
    note d = duelD [OF this]
    have seat: "cmd_seat c = gs_to_act g" "eligible_to_act a"
      using Some Inr game_seat_pair(1) [OF d(2,1)]
      by (auto simp: validate_game_command_def split: if_splits option.splits sum.splits)
    have "validate_game_action g (gs_to_act g) (cmd_action c) = Some (Inr ())"
    proof (cases "validate_game_action g (gs_to_act g) (cmd_action c)")
      case None
      then show ?thesis
        using Some Inr seat game_seat_pair(1) [OF d(2,1)] by (simp add: validate_game_command_def split: if_splits)
    next
      case result: (Some z)
      show ?thesis
      proof (cases z)
        case Inl
        then show ?thesis using Some result \<open>verdict = Inr u\<close> seat game_seat_pair(1) [OF d(2,1)]
          by (simp add: validate_game_command_def split: if_splits)
      qed (use result in simp)
    qed
    note seat = seat this
    from apply_game_action_ok [OF assms seat(2,3)] show ?thesis
      using Some Inr seat by (auto simp: apply_game_command_def)
  qed
qed

subsection \<open>The start of a hand\<close>

definition dealt :: "card list \<Rightarrow> seat_state \<Rightarrow> seat_state" where
  "dealt cards st = st\<lparr>ss_hole_cards := cards, ss_street_bet := 0, ss_hand_participation := Live\<rparr>"

definition blinded :: "u32 \<Rightarrow> seat_state \<Rightarrow> seat_state" where
  "blinded n st = (if ss_stack (pay n st) = 0 then (pay n st)\<lparr>ss_hand_participation := AllIn\<rparr> else pay n st)"

lemma deal_pair:
  assumes "gs_seats g = pair_at 0 a b"
  defines "rest \<equiv> deck_rest (gs_deck g)"
  shows "\<exists>d. for_m deal_hole_cards [0, Suc 0] g = Some (g\<lparr>gs_deck := d, gs_seats :=
      pair_at 0 (dealt (take 2 rest) a) (dealt (take 2 (drop 2 rest)) b)\<rparr>) \<and> deck_rest d = drop 4 rest"
proof -
  define d1 where "d1 = snd (deck_deal_n 2 (gs_deck g))"
  define g1 where "g1 = g\<lparr>gs_deck := d1, gs_seats := pair_at 0 (dealt (take 2 rest) a) b\<rparr>"
  have "deal_hole_cards 0 g = Some g1"
    using game_seat_mut_pair(1) [of "g\<lparr>gs_deck := d1\<rparr>" 0 a b] assms(1)
    by (simp add: deal_hole_cards_def split_beta d1_def [symmetric] g1_def dealt_def fst_deck_deal_n rest_def)
  moreover define d2 where "d2 = snd (deck_deal_n 2 d1)"
  have r1: "deck_rest d1 = drop 2 rest" by (simp add: d1_def rest_def deck_rest_deal_n)
  have "deal_hole_cards (Suc 0) g1 = Some (g\<lparr>gs_deck := d2, gs_seats :=
      pair_at 0 (dealt (take 2 rest) a) (dealt (take 2 (drop 2 rest)) b)\<rparr>)"
    using game_seat_mut_pair(2) [of "g1\<lparr>gs_deck := d2\<rparr>" 0 "dealt (take 2 rest) a" b]
    by (simp add: deal_hole_cards_def split_beta g1_def d2_def [symmetric] dealt_def fst_deck_deal_n r1 other_seat_def)
  moreover have "deck_rest d2 = drop 4 rest" by (simp add: d2_def deck_rest_deal_n r1)
  ultimately show ?thesis by auto
qed

lemma post_blind_pair:
  assumes "gs_seats g = pair_at s a b" "s < 2"
  shows "post_blind g s n = Some (g\<lparr>gs_pot := u32_add (gs_pot g) (min n (ss_stack a)),
    gs_seats := pair_at s (blinded n a) b\<rparr>)"
proof -
  define g1 where "g1 = g\<lparr>gs_seats := pair_at s (pay n a) b, gs_pot := u32_add (gs_pot g) (min n (ss_stack a))\<rparr>"
  have "add_chips g s n = Some g1" using add_chips_pair [OF assms] by (simp add: g1_def)
  moreover have seats: "gs_seats g1 = pair_at s (pay n a) b" by (simp add: g1_def)
  note game_seat_pair(1) [OF seats assms(2)] game_seat_mut_pair(1) [OF seats assms(2)]
  ultimately show ?thesis by (simp add: post_blind_def blinded_def g1_def)
qed

lemma blinded_sel [simp]:
  "ss_hole_cards (blinded n a) = ss_hole_cards a"
  "ss_table_participation (blinded n a) = ss_table_participation a"
  by (simp_all add: blinded_def pay_def)

lemma blinded_chips:
  assumes "ss_street_bet a = 0" "n < u32_bound"
  shows "ss_stack (blinded n a) = ss_stack a - n" "ss_street_bet (blinded n a) = min n (ss_stack a)"
    "ss_hand_participation (blinded n a) = (if ss_stack a \<le> n then AllIn else ss_hand_participation a)"
proof -
  have "min n (ss_stack a) < u32_bound" using assms(2) by linarith
  then show "ss_stack (blinded n a) = ss_stack a - n" "ss_street_bet (blinded n a) = min n (ss_stack a)"
    "ss_hand_participation (blinded n a) = (if ss_stack a \<le> n then AllIn else ss_hand_participation a)"
    using assms(1) by (simp_all add: blinded_def pay_def u32_simps)
qed

text \<open>Between two hands, both seats have chips, and the pot is empty.\<close>

definition hand_ready :: "nat \<Rightarrow> 'g game_state \<Rightarrow> seat_state \<Rightarrow> seat_state \<Rightarrow> bool" where
  "hand_ready T g a b \<longleftrightarrow> duel_at T g (other_seat (gs_button g)) a b \<and> gs_pot g = 0 \<and>
     0 < ss_stack a \<and> 0 < ss_stack b"

text \<open>
  The new button \<open>a\<close> posts the small blind and acts first. It can act unless the blind was its last
  chip.
\<close>

lemma start_new_hand_ok:
  assumes "hand_ready T g a b" "\<And>r cs. mset (fst (shuffle r cs)) = mset cs"
  shows "\<exists>g' a' b'. start_new_hand shuffle g = Some g' \<and> game_betting T g' a' b' \<and>
    gs_to_act g' = other_seat (gs_button g) \<and> gs_button g' = other_seat (gs_button g) \<and>
    ss_stack a' = ss_stack a - 1 \<and> gs_phase g' = PhasePreflop"
proof -
  define s where "s = other_seat (gs_button g)"
  have ready: "duel_at T g s a b" "gs_pot g = 0" "0 < ss_stack a" "0 < ss_stack b"
    using assms(1) by (simp_all add: hand_ready_def s_def)
  note d = duelD [OF ready(1)]
  have s: "gs_button g = other_seat s" using d(8) by (simp add: s_def)
  have elig: "eligible_for_next_hand a" "eligible_for_next_hand b"
    using ready d by (simp_all add: eligible_for_next_hand_def)
  define dk where "dk = fst (shuffle_source_shuffle shuffle (gs_shuffle_source g) deck_new)"
  define src where "src = snd (shuffle_source_shuffle shuffle (gs_shuffle_source g) deck_new)"
  have deck: "mset (deck_rest dk) = mset (deck_cards deck_new)"
    using shuffle_resets [of shuffle] assms(2) by (simp add: dk_def shuffle_source_shuffle_def split_beta)
  define g0 where "g0 = g\<lparr>gs_hand_number := u32_add (gs_hand_number g) (Suc 0), gs_button := s,
    gs_phase := PhasePreflop, gs_deck := dk, gs_shuffle_source := src, gs_board := [], gs_pot := 0,
    gs_last_aggressor := None, gs_preflop_aggressor := None, gs_last_raise_size := BIG_BLIND,
    gs_last_action := None, gs_showdown_result := None, gs_actions_this_street := 0\<rparr>"
  have button: "next_for_hand (gs_seats g) (gs_button g) = Some s"
    using d elig by (simp add: s)
  define x y where "x = (if s = 0 then a else b)" and "y = (if s = 0 then b else a)"
  have xy: "pair_at s a b = pair_at 0 x y" by (simp add: pair_at_def x_def y_def)
  have who: "map fst (filter (\<lambda>(s, st). eligible_for_next_hand st) (table_occupied (pair_at s a b))) = [0, Suc 0]"
    using elig by (simp add: pair_occupied)
  obtain dk' where deal: "for_m deal_hole_cards [0, Suc 0] g0 = Some (g0\<lparr>gs_deck := dk', gs_seats :=
      pair_at 0 (dealt (take 2 (deck_rest dk)) x) (dealt (take 2 (drop 2 (deck_rest dk))) y)\<rparr>)"
    "deck_rest dk' = drop 4 (deck_rest dk)"
    using deal_pair [of g0 x y] d(2) xy by (auto simp: g0_def)
  define hx hy where "hx = (if s = 0 then take 2 (deck_rest dk) else take 2 (drop 2 (deck_rest dk)))"
    and "hy = (if s = 0 then take 2 (drop 2 (deck_rest dk)) else take 2 (deck_rest dk))"
  have dealt_seats: "pair_at 0 (dealt (take 2 (deck_rest dk)) x) (dealt (take 2 (drop 2 (deck_rest dk))) y) =
      pair_at s (dealt hx a) (dealt hy b)"
    by (simp add: pair_at_def x_def y_def hx_def hy_def)
  define g1 where "g1 = g0\<lparr>gs_deck := dk', gs_seats := pair_at s (dealt hx a) (dealt hy b)\<rparr>"
  have g1_button: "gs_button g1 = s" by (simp add: g1_def g0_def)
  have positions: "table_positions (gs_seats g1) s = Some (Inr \<lparr>hp_button = s, hp_small_blind = s,
      hp_big_blind = other_seat s, hp_first_preflop = s, hp_first_postflop = other_seat s\<rparr>)"
    using pair_positions [OF d(1), of "dealt hx a" "dealt hy b"] elig
    by (simp add: g1_def dealt_def eligible_for_next_hand_def)
  define a' b' where "a' = blinded SMALL_BLIND (dealt hx a)" and "b' = blinded BIG_BLIND (dealt hy b)"
  have bound: "SMALL_BLIND < u32_bound" "BIG_BLIND < u32_bound" "ss_stack a < u32_bound" "ss_stack b < u32_bound"
    using d(5,6) by (simp_all add: SMALL_BLIND_def BIG_BLIND_def u32_bound_def)
  have zero: "ss_street_bet (dealt hx a) = 0" "ss_street_bet (dealt hy b) = 0" by (simp_all add: dealt_def)
  note chips = blinded_chips [OF zero(1) bound(1), folded a'_def] blinded_chips [OF zero(2) bound(2), folded b'_def]
  define g2 where "g2 = g1\<lparr>gs_pot := 1, gs_seats := pair_at s a' (dealt hy b)\<rparr>"
  define g3 where "g3 = g2\<lparr>gs_pot := 1 + min BIG_BLIND (ss_stack b), gs_seats := pair_at s a' b'\<rparr>"
  have small: "post_blind g1 s SMALL_BLIND = Some g2"
  proof -
    have "min SMALL_BLIND (ss_stack a) = 1" using ready(3) by (simp add: SMALL_BLIND_def)
    then show ?thesis
      using post_blind_pair [of g1 s "dealt hx a" "dealt hy b" SMALL_BLIND] d(1)
      by (simp add: g1_def g2_def g0_def a'_def dealt_def u32_add_def u32_bound_def)
  qed
  have big: "post_blind g2 (other_seat s) BIG_BLIND = Some g3"
    using post_blind_pair [of g2 "other_seat s" "dealt hy b" a' BIG_BLIND] d(1) bound
    by (simp add: g2_def g3_def pair_swap b'_def dealt_def u32_add_def u32_bound_def BIG_BLIND_def)
  define g' where "g' = g3\<lparr>gs_to_act := s\<rparr>"
  have step: "start_new_hand shuffle g = Some g'"
    using button deal(1) positions small big g1_button
    by (simp add: start_new_hand_def split_beta dk_def [symmetric] src_def [symmetric] g0_def [symmetric]
        who d(2) dealt_seats g1_def [symmetric] g'_def del: for_m.simps)
  have fields: "gs_seats g' = pair_at s a' b'" "gs_pot g' = 1 + min BIG_BLIND (ss_stack b)" "gs_to_act g' = s"
    "gs_button g' = s" "gs_phase g' = PhasePreflop" "gs_board g' = []" "gs_deck g' = dk'"
    "gs_last_aggressor g' = None" "gs_seat_stats g' = gs_seat_stats g"
    by (simp_all add: g'_def g3_def g2_def g1_def g0_def)
  have stacks: "ss_stack a' = ss_stack a - 1" "ss_stack b' = ss_stack b - 2"
    "ss_street_bet a' = 1" "ss_street_bet b' = min 2 (ss_stack b)"
    using chips ready(3) by (simp_all add: dealt_def SMALL_BLIND_def BIG_BLIND_def)
  have duel: "duel_at T g' s a' b'"
    using d ready(2-4) stacks fields by (auto simp: duel_at_def a'_def b'_def dealt_def BIG_BLIND_def)
  have part: "ss_hand_participation a' = (if ss_stack a \<le> 1 then AllIn else Live)"
    "ss_hand_participation b' = (if ss_stack b \<le> 2 then AllIn else Live)"
    using chips by (simp_all add: dealt_def SMALL_BLIND_def BIG_BLIND_def)
  have "standing a' b'"
    using part stacks by (auto simp: standing_def seat_eligible_for_pot_def)
  moreover have "full_deck g' a' b'"
  proof -
    have len: "length (deck_rest dk) = 52"
      using deck deck_new_complete by (metis mset_eq_length)
    have cut: "deck_rest dk = take 2 (deck_rest dk) @ take 2 (drop 2 (deck_rest dk)) @ drop 4 (deck_rest dk)"
      by (metis add_2_eq_Suc' append_take_drop_id drop_drop numeral_2_eq_2 numeral_Bit0)
    have "mset (ss_hole_cards a') + mset (ss_hole_cards b') + mset (drop 4 (deck_rest dk)) = mset (deck_rest dk)"
      by (subst cut) (simp add: a'_def b'_def dealt_def hx_def hy_def)
    then show ?thesis
      using deck len game_cards_pair [OF fields(1)] fields deal(2)
      by (simp add: full_deck_def a'_def b'_def dealt_def hx_def hy_def)
  qed
  moreover have "game_turn g' a' b' \<or> game_stuck g' a'"
    using fields stacks part ready(4) by (auto simp: game_turn_def game_stuck_def eligible_to_act_def)
  ultimately have "game_betting T g' a' b'"
    using duel fields stacks ready(4) by (auto simp: game_betting_def in_play_def BIG_BLIND_def)
  then show ?thesis
    using step fields stacks by (intro exI [of _ g'] exI [of _ a'] exI [of _ b']) (simp add: s_def)
qed

end
