(* ===== verification/Heads_Up_Properties.thy ===== *)
theory Heads_Up_Properties
  imports Heads_Up_Facts "HOL-Library.Code_Target_Nat"
begin

text \<open>
  The sessions of the heads-up game and their properties. \<open>heads_up_session\<close> follows the offline
  client (src/src/ui/app.rs): any command may come at any moment, \<open>advance_phase\<close> deals the board out while
  a stack is empty and no bet is open, and the next hand starts when a hand is over and both seats have
  chips.
\<close>

section \<open>Sessions\<close>

definition game_chips :: "'g game_state \<Rightarrow> nat" where
  "game_chips g = game_stacks g + gs_pot g"

definition hand_finished :: "'g game_state \<Rightarrow> bool" where
  "hand_finished g \<longleftrightarrow> gs_phase g \<in> {PhaseShowdown, PhaseHandComplete}"

definition runout_due :: "'g game_state \<Rightarrow> bool" where
  "runout_due g \<longleftrightarrow> gs_phase g \<in> {PhaseFlop, PhaseTurn, PhaseRiver} \<and>
     list_ex (\<lambda>(s, st). ss_stack st = 0) (table_occupied (gs_seats g)) \<and> max_bet g = 0"

definition all_have_chips :: "'g game_state \<Rightarrow> bool" where
  "all_have_chips g \<longleftrightarrow> list_all (\<lambda>(s, st). 0 < ss_stack st) (table_occupied (gs_seats g))"

text \<open>A step within a hand, and the states of a session.\<close>

inductive hand_step :: "'g game_state \<Rightarrow> 'g game_state \<Rightarrow> bool" where
  commanded: "apply_game_command g c = Some (Inr g') \<Longrightarrow> hand_step g g'"
| dealt_out: "runout_due g \<Longrightarrow> advance_phase g = Some g' \<Longrightarrow> hand_step g g'"

inductive heads_up_session ::
    "('g \<Rightarrow> card list \<Rightarrow> card list \<times> 'g) \<Rightarrow> u32 \<Rightarrow> 'g game_state \<Rightarrow> bool"
  for shuffle :: "'g \<Rightarrow> card list \<Rightarrow> card list \<times> 'g" and bb :: u32 where
  opened: "game_with_shuffle_source shuffle bb src = Some g \<Longrightarrow> heads_up_session shuffle bb g"
| played: "heads_up_session shuffle bb g \<Longrightarrow> hand_step g g' \<Longrightarrow> heads_up_session shuffle bb g'"
| next_hand: "heads_up_session shuffle bb g \<Longrightarrow> hand_finished g \<Longrightarrow> all_have_chips g \<Longrightarrow>
    start_new_hand shuffle g = Some g' \<Longrightarrow> heads_up_session shuffle bb g'"

inductive_simps hand_step_iff: "hand_step g g'"

text \<open>The invariant of a session.\<close>

definition session_ok :: "nat \<Rightarrow> 'g game_state \<Rightarrow> bool" where
  "session_ok T g \<longleftrightarrow> (\<exists>a b. game_betting T g a b) \<or> game_over T g"

lemma goes_on_ok: "game_goes_on T g \<Longrightarrow> session_ok T g"
  by (auto simp: game_goes_on_def session_ok_def)

lemma session_ok_chips: "session_ok T g \<Longrightarrow> game_chips g = T"
  using duelD(2,5) by (fastforce simp: session_ok_def game_betting_def game_over_def game_chips_def game_stacks_pair)

lemma over_no_command: "game_over T g \<Longrightarrow> apply_game_command g c = Some (Inl HandNotActive)"
  by (auto simp: game_over_def apply_game_command_def validate_game_command_def)

lemma runout_due_pair:
  "gs_seats g = pair_at s a b \<Longrightarrow> runout_due g \<longleftrightarrow> gs_phase g \<in> {PhaseFlop, PhaseTurn, PhaseRiver} \<and>
     (ss_stack a = 0 \<or> ss_stack b = 0) \<and> ss_street_bet a = 0 \<and> ss_street_bet b = 0"
  by (auto simp: runout_due_def pair_occupied max_bet_pair)

lemma runout_advances:
  assumes "session_ok T g" "runout_due g"
  shows "\<exists>g'. advance_phase g = Some g' \<and> game_goes_on T g' \<and> game_left g' < game_left g"
proof -
  have "\<not> game_over T g" using assms(2) by (auto simp: game_over_def runout_due_def)
  then obtain a b where betting: "game_betting T g a b" using assms(1) by (auto simp: session_ok_def)
  then have duel: "duel_at T g (gs_to_act g) a b" by (simp add: game_betting_def)
  have bets: "ss_street_bet a = 0" "ss_street_bet b = 0"
    using assms(2) runout_due_pair [OF duelD(2) [OF duel]] by simp_all
  have play: "in_play (gs_phase g)" using betting by (simp add: game_betting_def)
  have "game_stacks g + gs_pot g = T" using duelD(2,5) [OF duel] by (simp add: game_stacks_pair)
  then have "game_streets_left (gs_phase g) * (2 * T + 3) < game_left g" using game_left_bound [OF play] by simp
  moreover have "bets_settled a b" using bets by (simp add: bets_settled_def)
  ultimately show ?thesis
    using advance_phase_ok [OF duel _ _ _ play] betting bets by (fastforce simp: game_betting_def)
qed

lemma hand_step_ok:
  assumes "session_ok T g" "hand_step g g'"
  shows "session_ok T g' \<and> game_left g' < game_left g"
proof -
  consider c where "apply_game_command g c = Some (Inr g')" | "runout_due g" "advance_phase g = Some g'"
    using assms(2) unfolding hand_step_iff by blast
  then show ?thesis
  proof cases
    case 1
    then have "\<not> game_over T g" using over_no_command [of T g c] by auto
    then obtain a b where "game_betting T g a b" using assms(1) by (auto simp: session_ok_def)
    from apply_game_command_ok [OF this, of c] show ?thesis using 1 goes_on_ok by auto
  next
    case 2
    then show ?thesis using runout_advances [OF assms(1)] goes_on_ok by auto
  qed
qed

lemma next_hand_ready:
  assumes "session_ok T g" "hand_finished g" "all_have_chips g"
  shows "\<exists>a b. hand_ready T g a b"
proof -
  have over: "game_over T g"
    using assms(1,2) by (auto simp: session_ok_def game_betting_def in_play_def hand_finished_def)
  then obtain a b where "duel_at T g 0 a b" by (auto simp: game_over_def)
  then obtain x y where duel: "duel_at T g (other_seat (gs_button g)) x y"
    using duel_any_seat [of T g 0 a b "other_seat (gs_button g)"] by auto
  have "0 < ss_stack x" "0 < ss_stack y"
    using assms(3) duelD(2) [OF duel] by (auto simp: all_have_chips_def pair_occupied split: if_splits)
  then show ?thesis using over duel by (auto simp: hand_ready_def game_over_def)
qed

lemma opened_ok:
  assumes "game_with_shuffle_source shuffle bb src = Some g" "\<And>r cs. mset (fst (shuffle r cs)) = mset cs"
    and "0 < bb" "4 * bb < u32_bound"
  shows "session_ok (4 * bb) g"
proof -
  define st where "st p = seat_state_active p (2 * bb)" for p
  have mul: "u32_mul bb BIG_BLIND = 2 * bb" using assms(4) by (simp add: u32_mul_def BIG_BLIND_def mult.commute)
  define t1 where "t1 = \<lparr>tb_size = 2, tb_seats = [Some (st 1), None]\<rparr>"
  have "table_occupy (table_seats_new 2) 0 (st 1) = Inr t1"
    by (simp add: table_occupy_def table_index_def table_seats_new_def t1_def numeral_2_eq_2)
  moreover have "table_occupy t1 (Suc 0) (st 2) = Inr (pair_at 0 (st 1) (st 2))"
    by (simp add: table_occupy_def table_index_def t1_def pair_at_def st_def seat_state_active_def)
  moreover have "(case table_size_try_from 2 of Inl _ \<Rightarrow> None | Inr n \<Rightarrow> Some n) = Some 2"
    "(case seat_id_new 0 of Inl _ \<Rightarrow> None | Inr s \<Rightarrow> Some s) = Some 0"
    "(case seat_id_new (Suc 0) of Inl _ \<Rightarrow> None | Inr s \<Rightarrow> Some s) = Some (Suc 0)"
    by (simp_all add: table_size_try_from_def seat_id_new_def MIN_TABLE_SEATS_def MAX_TABLE_SEATS_def)
  ultimately obtain g0 where g0: "start_new_hand shuffle g0 = Some g" "gs_seats g0 = pair_at 0 (st 1) (st 2)"
    "gs_button g0 = Suc 0" "gs_pot g0 = 0" "length (gs_seat_stats g0) = 2"
    using assms(1) by (simp add: game_with_shuffle_source_def mul Let_def st_def [symmetric])
  have "hand_ready (4 * bb) g0 (st 1) (st 2)"
    using g0 assms(3,4) by (simp add: hand_ready_def duel_at_def other_seat_def st_def seat_state_active_def)
  then show ?thesis using start_new_hand_ok [of "4 * bb" g0 "st 1" "st 2" shuffle] assms(2) g0(1)
    by (auto simp: session_ok_def)
qed

lemma session_reached:
  assumes "heads_up_session shuffle bb g" "\<And>r cs. mset (fst (shuffle r cs)) = mset cs"
    and "0 < bb" "4 * bb < u32_bound"
  shows "session_ok (4 * bb) g"
  using assms(1)
proof induction
  case (opened src g)
  then show ?case using opened_ok assms(2-4) by blast
next
  case (played g g')
  then show ?case using hand_step_ok by blast
next
  case (next_hand g g')
  from next_hand_ready [OF next_hand.IH next_hand.hyps(2,3)]
  obtain a b where "hand_ready (4 * bb) g a b" by blast
  from start_new_hand_ok [OF this, of shuffle] show ?case
    using assms(2) next_hand.hyps(4) by (auto simp: session_ok_def)
qed

text \<open>The seat to act checks when it owes nothing, and folds otherwise.\<close>

lemma actor_moves:
  assumes "game_betting T g a b" "eligible_to_act a"
  shows "\<exists>act\<in>{Check, ActFold}. \<exists>g'. apply_game_command g (seat_command_new (gs_to_act g) act) = Some (Inr g')"
proof -
  have b: "duel_at T g (gs_to_act g) a b" "ss_street_bet a \<le> ss_street_bet b" "in_play (gs_phase g)"
    using assms(1) by (simp_all add: game_betting_def)
  note d = duelD [OF b(1)]
  define act where "act = (if ss_street_bet a = ss_street_bet b then Check else ActFold)"
  note reads = game_seat_pair(1) [OF d(2,1)]
  have top: "max_bet g = ss_street_bet b" using max_bet_pair [OF d(2)] b(2) by simp
  have valid: "validate_game_action g (gs_to_act g) act = Some (Inr ())"
    using reads b(2) by (simp add: validate_game_action_def game_amount_to_call_def top act_def saturating_sub_def Let_def)
  have "validate_game_command g (seat_command_new (gs_to_act g) act) = Some (Inr ())"
    using reads b(3) assms(2) valid by (auto simp: validate_game_command_def seat_command_new_def in_play_def)
  moreover obtain g' where "apply_game_action g (gs_to_act g) act = Some g'"
    using apply_game_action_ok [OF assms valid] by blast
  ultimately have "apply_game_command g (seat_command_new (gs_to_act g) act) = Some (Inr g')"
    by (simp add: apply_game_command_def seat_command_new_def)
  then show ?thesis by (auto simp: act_def split: if_splits)
qed

lemma two_occupied:
  assumes "table_occupied t = [(0, a), (1, b)]" "tb_size t = 2" "length (tb_seats t) = 2"
  shows "t = pair_at 0 a b"
proof -
  obtain x y where xy: "tb_seats t = [x, y]"
    using assms(3) by (auto simp: numeral_2_eq_2 length_Suc_conv)
  then have "x = Some a \<and> y = Some b"
    using assms(1) by (cases x; cases y) (auto simp: table_occupied_def map_filter_simps)
  then show ?thesis using xy assms(2) by (cases t) (simp add: pair_at_def)
qed

section \<open>Sample sessions\<close>

definition keep_order :: "unit \<Rightarrow> card list \<Rightarrow> card list \<times> unit" where
  "keep_order r cs = (cs, r)"

lemma keep_order_permutes: "mset (fst (keep_order r cs)) = mset cs"
  by (simp add: keep_order_def)

definition play_all :: "(seat_id \<times> action) list \<Rightarrow> 'g game_state \<Rightarrow> 'g game_state option" where
  "play_all = for_m (\<lambda>(s, a) g. case apply_game_command g (seat_command_new s a) of
     Some (Inr g') \<Rightarrow> Some g' | _ \<Rightarrow> None)"

lemma played_all:
  assumes "play_all moves g = Some g'" "heads_up_session shuffle bb g"
  shows "heads_up_session shuffle bb g'"
  using assms
proof (induction moves arbitrary: g)
  case (Cons m moves)
  obtain s a where m: "m = (s, a)" by force
  from Cons.prems(1) obtain h where h: "apply_game_command g (seat_command_new s a) = Some (Inr h)"
    "play_all moves h = Some g'"
    by (auto simp: play_all_def m split: option.splits sum.splits)
  show ?case by (rule Cons.IH [OF h(2) played [OF Cons.prems(2) commanded [OF h(1)]]])
qed (simp add: play_all_def)

lemma played_steps: "play_all moves g = Some g' \<Longrightarrow> (hand_step ^^ length moves) g g'"
proof (induction moves arbitrary: g)
  case (Cons m moves)
  obtain s a where m: "m = (s, a)" by force
  from Cons.prems obtain h where h: "apply_game_command g (seat_command_new s a) = Some (Inr h)"
    "play_all moves h = Some g'"
    by (auto simp: play_all_def m split: option.splits sum.splits)
  show ?case using relpowp_Suc_I2 [OF commanded [OF h(1)] Cons.IH [OF h(2)]] by simp
qed (simp add: play_all_def)

text \<open>
  Four chips each. The first button folds its small blind; the second goes all in and the first gives
  up its big blind: it is left with three chips, then one, and has the button again.
\<close>

definition sample_opening :: "unit game_state option" where
  "sample_opening = game_with_shuffle_source keep_order 2 \<lparr>source_rng = ()\<rparr>"

definition sample_first_hand :: "unit game_state option" where
  "sample_first_hand = Option.bind sample_opening (play_all [(0, ActFold)])"

definition sample_second_hand :: "unit game_state option" where
  "sample_second_hand = Option.bind sample_first_hand (start_new_hand keep_order)"

definition sample_last_chip :: "unit game_state option" where
  "sample_last_chip = Option.bind sample_second_hand (play_all [(1, ActAllIn 5), (0, ActFold)])"

definition holds_in :: "('a \<Rightarrow> bool) \<Rightarrow> 'a option \<Rightarrow> bool" where
  "holds_in P r = (case r of None \<Rightarrow> False | Some x \<Rightarrow> P x)"

lemma holds_inD: "holds_in P r \<Longrightarrow> \<exists>x. r = Some x \<and> P x"
  by (auto simp: holds_in_def split: option.splits)

lemma sample_first_finished: "holds_in (\<lambda>g. hand_finished g \<and> all_have_chips g) sample_first_hand"
  by code_simp

lemma sample_last_finished: "holds_in (\<lambda>g. hand_finished g \<and> all_have_chips g \<and>
    next_for_hand (gs_seats g) (gs_button g) = Some 0 \<and> map_option ss_stack (game_seat g 0) = Some SMALL_BLIND)
    sample_last_chip"
  by code_simp

lemma sample_second_betting: "holds_in (\<lambda>g. \<not> hand_finished g \<and> \<not> runout_due g \<and> gs_phase g = PhasePreflop \<and>
    map_option ss_stack (game_seat g (gs_button g)) = Some 4) sample_second_hand"
  by code_simp

lemma sample_second_session: "sample_second_hand = Some g \<Longrightarrow> heads_up_session keep_order 2 g"
proof -
  assume g: "sample_second_hand = Some g"
  then obtain g1 where g1: "sample_first_hand = Some g1" "start_new_hand keep_order g1 = Some g"
    unfolding sample_second_hand_def bind_eq_Some_conv by blast
  then obtain g0 where g0: "sample_opening = Some g0" "play_all [(0, ActFold)] g0 = Some g1"
    unfolding sample_first_hand_def bind_eq_Some_conv by blast
  have "heads_up_session keep_order 2 g0"
    using g0(1) unfolding sample_opening_def by (rule opened)
  then have "heads_up_session keep_order 2 g1" by (rule played_all [OF g0(2)])
  moreover have "hand_finished g1 \<and> all_have_chips g1"
    using sample_first_finished unfolding holds_in_def g1(1) by simp
  ultimately show ?thesis using g1(2) next_hand by blast
qed

lemma sample_last_session: "sample_last_chip = Some g \<Longrightarrow> heads_up_session keep_order 2 g"
  using sample_second_session played_all by (fastforce simp: sample_last_chip_def bind_eq_Some_conv)

lemma sample_stakes: "0 < (2 :: u32)" "4 * 2 < u32_bound"
  by (simp_all add: u32_bound_def)

section \<open>Properties\<close>



text \<open>
  C39: a heads-up hand goes on until it is finished: in every reachable state the hand is over, the board is
  due to be dealt out, or the seat to act has an accepted check or fold, unless the button posted its last
  chip as the small blind.
\<close>

theorem heads_up_hand_goes_on:
  assumes "heads_up_session shuffle bb g" "\<And>r cs. mset (fst (shuffle r cs)) = mset cs"
    and "0 < bb" "4 * bb < u32_bound"
  shows "hand_finished g \<or> runout_due g \<or>
    (\<exists>a\<in>{Check, ActFold}. \<exists>g'. apply_game_command g (seat_command_new (gs_to_act g) a) = Some (Inr g')) \<or>
    (gs_phase g = PhasePreflop \<and> gs_to_act g = gs_button g \<and>
      map_option ss_stack (game_seat g (gs_button g)) = Some 0)"
proof (cases "\<exists>x y. game_betting (4 * bb) g x y")
  case True
  then obtain x y where betting: "game_betting (4 * bb) g x y" by blast
  then have duel: "duel_at (4 * bb) g (gs_to_act g) x y" by (simp add: game_betting_def)
  note d = duelD [OF duel]
  consider "game_turn g x y" | "game_runout g x y" | "game_stuck g x"
    using betting by (auto simp: game_betting_def)
  then show ?thesis
  proof cases
    case 1
    then show ?thesis using actor_moves [OF betting] by (auto simp: game_turn_def)
  next
    case 2
    then show ?thesis
      using betting runout_due_pair [OF d(2)] by (auto simp: game_runout_def game_betting_def in_play_def)
  next
    case 3
    then show ?thesis using game_seat_pair(1) [OF d(2,1)] by (simp add: game_stuck_def)
  qed
next
  case False
  then show ?thesis
    using session_reached [OF assms] by (auto simp: session_ok_def game_over_def hand_finished_def)
qed

theorem heads_up_hand_goes_on_witness:
  "holds_in (\<lambda>g. \<exists>a\<in>{Check, ActFold}. \<exists>g'. apply_game_command g (seat_command_new (gs_to_act g) a) = Some (Inr g'))
     sample_second_hand"
proof -
  obtain g where g: "sample_second_hand = Some g" "\<not> hand_finished g" "\<not> runout_due g" "gs_phase g = PhasePreflop"
    "map_option ss_stack (game_seat g (gs_button g)) = Some 4"
    using holds_inD [OF sample_second_betting] by blast
  from heads_up_hand_goes_on [OF sample_second_session [OF g(1)] keep_order_permutes sample_stakes]
  show ?thesis using g(2-5) unfolding holds_in_def g(1) by simp
qed

text \<open>
  C40: a button that holds exactly one chip stalls the session: the next hand starts, its small blind takes
  the chip, and the seat to act is the all-in button. Every command of either seat is rejected, the board is
  not dealt out, and the hand never finishes.
\<close>

theorem one_chip_button_stalls:
  assumes "heads_up_session shuffle bb g" "\<And>r cs. mset (fst (shuffle r cs)) = mset cs"
    and "0 < bb" "4 * bb < u32_bound"
    and "hand_finished g" "all_have_chips g" "next_for_hand (gs_seats g) (gs_button g) = Some b"
    and "map_option ss_stack (game_seat g b) = Some SMALL_BLIND"
  shows "\<exists>g'. start_new_hand shuffle g = Some g' \<and> \<not> hand_finished g' \<and> (\<forall>g''. \<not> hand_step g' g'')"
proof -
  have ok: "session_ok (4 * bb) g" by (rule session_reached [OF assms(1-4)])
  obtain x y where ready: "hand_ready (4 * bb) g x y"
    using next_hand_ready [OF ok assms(5,6)] by blast
  then have duel: "duel_at (4 * bb) g (other_seat (gs_button g)) x y" "0 < ss_stack x" by (simp_all add: hand_ready_def)
  note d = duelD [OF duel(1)]
  have "next_for_hand (gs_seats g) (gs_button g) = Some (other_seat (gs_button g))"
    using pair_next_simps(2) [OF d(1), of x y] d(2,3,8) duel(2) by (simp add: eligible_for_next_hand_def)
  then have "ss_stack x = 1"
    using assms(7,8) game_seat_pair(1) [OF d(2,1)] by (simp add: SMALL_BLIND_def)
  then obtain g' a' b' where g': "start_new_hand shuffle g = Some g'" "game_betting (4 * bb) g' a' b'"
    "ss_stack a' = 0" "gs_phase g' = PhasePreflop"
    using start_new_hand_ok [of "4 * bb" g x y shuffle, OF ready assms(2)] by auto
  have "\<not> hand_step g' g''" for g''
  proof
    assume "hand_step g' g''"
    then consider c where "apply_game_command g' c = Some (Inr g'')" | "runout_due g'"
      unfolding hand_step_iff by blast
    then show False
    proof cases
      case 1
      then show ?thesis using apply_game_command_ok [OF g'(2), of c] g'(3) by (simp add: eligible_to_act_def)
    next
      case 2
      then show ?thesis using g'(4) by (simp add: runout_due_def)
    qed
  qed
  then show ?thesis using g'(1,4) by (auto simp: hand_finished_def)
qed

theorem one_chip_button_stalls_witness:
  "holds_in (\<lambda>g. \<exists>g'. start_new_hand keep_order g = Some g' \<and> (\<forall>g''. \<not> hand_step g' g'')) sample_last_chip"
proof -
  obtain g where g: "sample_last_chip = Some g" "hand_finished g" "all_have_chips g"
    "next_for_hand (gs_seats g) (gs_button g) = Some 0" "map_option ss_stack (game_seat g 0) = Some SMALL_BLIND"
    using holds_inD [OF sample_last_finished] by blast
  from one_chip_button_stalls [OF sample_last_session [OF g(1)] keep_order_permutes sample_stakes g(2-5)]
  show ?thesis unfolding holds_in_def g(1) by auto
qed

text \<open>
  A heads-up hand ends: no more than \<open>32 * bb + 11\<close> accepted commands and dealt streets follow each other
  before the hand is over, where \<open>bb\<close> is the starting stack in big blinds.
\<close>

theorem heads_up_hand_ends:
  assumes "heads_up_session shuffle bb g" "\<And>r cs. mset (fst (shuffle r cs)) = mset cs"
    and "0 < bb" "4 * bb < u32_bound" "(hand_step ^^ n) g g'"
  shows "n \<le> 32 * bb + 11"
proof -
  have ok: "session_ok (4 * bb) g" by (rule session_reached [OF assms(1-4)])
  have "session_ok T g \<Longrightarrow> (hand_step ^^ n) g g' \<Longrightarrow> n \<le> game_left g" for T n g
  proof (induction n arbitrary: g)
    case (Suc n)
    obtain h where h: "hand_step g h" "(hand_step ^^ n) h g'" by (rule relpowp_Suc_E2 [OF Suc.prems(2)])
    note step = hand_step_ok [OF Suc.prems(1) h(1)]
    then show ?case using Suc.IH [of h] h(2) by simp
  qed simp
  from this [OF ok assms(5)] have "n \<le> game_left g" .
  moreover have "game_left g \<le> 8 * game_chips g + 11"
  proof -
    have "game_streets_left (gs_phase g) \<le> 3" by (cases "gs_phase g") simp_all
    then have "game_streets_left (gs_phase g) * (2 * game_chips g + 3) \<le> 3 * (2 * game_chips g + 3)"
      by (rule mult_right_mono) simp
    then show ?thesis by (simp add: game_left_def game_chips_def)
  qed
  ultimately show ?thesis using session_ok_chips [OF ok] by simp
qed

theorem heads_up_hand_ends_witness:
  "length [(1 :: seat_id, ActAllIn 5), (0, ActFold)] \<le> 32 * 2 + 11"
proof -
  obtain g' where "sample_last_chip = Some g'" using holds_inD [OF sample_last_finished] by blast
  then obtain g where g: "sample_second_hand = Some g" "play_all [(1, ActAllIn 5), (0, ActFold)] g = Some g'"
    unfolding sample_last_chip_def bind_eq_Some_conv by blast
  show ?thesis
    by (rule heads_up_hand_ends [OF sample_second_session [OF g(1)] keep_order_permutes sample_stakes played_steps [OF g(2)]])
qed

text \<open>
  A heads-up showdown pays the whole pot to the better hand, and splits it between equal hands, with an
  odd chip for the seat after the button; nothing wraps.
\<close>

theorem heads_up_showdown_pays:
  assumes "table_occupied (gs_seats g) = [(0, a), (1, b)]" "tb_size (gs_seats g) = 2" "length (tb_seats (gs_seats g)) = 2"
    and "seat_eligible_for_pot a" "seat_eligible_for_pot b" "gs_button g < 2" "length (gs_seat_stats g) = 2"
    and "ss_stack a + ss_stack b + gs_pot g < u32_bound"
    and "evaluate_hand (ss_hole_cards a) (gs_board g) = Some ea" "evaluate_hand (ss_hole_cards b) (gs_board g) = Some eb"
  shows "\<exists>g' na nb. game_resolve_showdown g = Some g' \<and> na + nb = gs_pot g \<and> gs_pot g' = 0 \<and>
    map (\<lambda>(s, st). ss_stack st) (table_occupied (gs_seats g')) = [ss_stack a + na, ss_stack b + nb] \<and>
    (compare_hands ea eb = Greater \<longrightarrow> nb = 0) \<and> (compare_hands ea eb = Less \<longrightarrow> na = 0) \<and>
    (compare_hands ea eb = Equal \<longrightarrow> (if gs_button g = 0 then nb = na + gs_pot g mod 2 else na = nb + gs_pot g mod 2))"
proof -
  obtain na nb where pays: "showdown_pays (compare_hands ea eb) (gs_button g) (gs_pot g) = (na, nb)"
    by (cases "showdown_pays (compare_hands ea eb) (gs_button g) (gs_pot g)")
  have all: "na + nb = gs_pot g" by (rule showdown_pays_all [OF pays])
  have seats: "gs_seats g = pair_at 0 a b" by (rule two_occupied [OF assms(1-3)])
  obtain g' where g': "game_resolve_showdown g = Some g'" "gs_pot g' = 0"
    "gs_seats g' = pair_at 0 (award_chips na a) (award_chips nb b)"
    using game_showdown_result [OF seats assms(7,6,4,5,9,10) _ _ _ pays] assms(8) by auto
  have "ss_stack a + na < u32_bound" "ss_stack b + nb < u32_bound" using all assms(8) by linarith+
  then have "map (\<lambda>(s, st). ss_stack st) (table_occupied (gs_seats g')) = [ss_stack a + na, ss_stack b + nb]"
    by (simp add: g'(3) pair_occupied u32_simps)
  moreover have "(compare_hands ea eb = Greater \<longrightarrow> nb = 0) \<and> (compare_hands ea eb = Less \<longrightarrow> na = 0) \<and>
    (compare_hands ea eb = Equal \<longrightarrow> (if gs_button g = 0 then nb = na + gs_pot g mod 2 else na = nb + gs_pot g mod 2))"
    using pays by (auto simp: showdown_pays_def)
  ultimately show ?thesis using g'(1,2) all by (intro exI [of _ g'] exI [of _ na] exI [of _ nb] conjI) blast+
qed

text \<open>Both go all in before the flop, and the board is dealt out.\<close>

definition sample_river :: "unit game_state option" where
  "sample_river = do {
     g \<leftarrow> sample_opening;
     g \<leftarrow> play_all [(0, ActAllIn 4), (1, ActAllIn 4)] g;
     g \<leftarrow> advance_phase g;
     advance_phase g }"

definition two_hands_tie :: "'g game_state \<Rightarrow> seat_state \<Rightarrow> seat_state \<Rightarrow> bool" where
  "two_hands_tie g a b \<longleftrightarrow> seat_eligible_for_pot a \<and> seat_eligible_for_pot b \<and>
     (case (evaluate_hand (ss_hole_cards a) (gs_board g), evaluate_hand (ss_hole_cards b) (gs_board g)) of
        (Some ea, Some eb) \<Rightarrow> compare_hands ea eb = Equal | _ \<Rightarrow> False)"

definition tied_at_river :: "'g game_state \<Rightarrow> bool" where
  "tied_at_river g \<longleftrightarrow> gs_phase g = PhaseRiver \<and> gs_pot g = 8 \<and> gs_button g = 0 \<and>
     length (gs_seat_stats g) = 2 \<and> tb_size (gs_seats g) = 2 \<and>
     (case tb_seats (gs_seats g) of
        [Some a, Some b] \<Rightarrow> ss_stack a = 0 \<and> ss_stack b = 0 \<and> two_hands_tie g a b
      | _ \<Rightarrow> False)"

lemma two_seats_case: "(case xs of [Some a, Some b] \<Rightarrow> P a b | _ \<Rightarrow> False) \<longleftrightarrow> (\<exists>a b. xs = [Some a, Some b] \<and> P a b)"
  by (cases xs; cases "hd xs"; cases "tl xs"; cases "hd (tl xs)"; cases "tl (tl xs)"; simp)

lemma sample_river_tied: "holds_in tied_at_river sample_river"
  by code_simp

theorem heads_up_showdown_pays_witness:
  "holds_in (\<lambda>g. \<exists>g'. game_resolve_showdown g = Some g' \<and>
     map (\<lambda>(s, st). ss_stack st) (table_occupied (gs_seats g')) = [4, 4]) sample_river"
proof -
  obtain g where g: "sample_river = Some g" "tied_at_river g"
    using holds_inD [OF sample_river_tied] by blast
  then obtain a b where ab: "tb_seats (gs_seats g) = [Some a, Some b]" "ss_stack a = 0" "ss_stack b = 0"
    "two_hands_tie g a b" "gs_pot g = 8" "gs_button g = 0" "length (gs_seat_stats g) = 2" "tb_size (gs_seats g) = 2"
    by (auto simp: tied_at_river_def two_seats_case)
  then obtain ea eb where e: "seat_eligible_for_pot a" "seat_eligible_for_pot b" "compare_hands ea eb = Equal"
    "evaluate_hand (ss_hole_cards a) (gs_board g) = Some ea" "evaluate_hand (ss_hole_cards b) (gs_board g) = Some eb"
    by (auto simp: two_hands_tie_def split: option.splits)
  have "table_occupied (gs_seats g) = [(0, a), (1, b)]"
    using ab(1) by (simp add: table_occupied_def map_filter_simps)
  moreover have "gs_button g < 2" "length (tb_seats (gs_seats g)) = 2" "ss_stack a + ss_stack b + gs_pot g < u32_bound"
    using ab by (simp_all add: u32_bound_def)
  ultimately have "\<exists>g' na nb. game_resolve_showdown g = Some g' \<and> na + nb = gs_pot g \<and> gs_pot g' = 0 \<and>
      map (\<lambda>(s, st). ss_stack st) (table_occupied (gs_seats g')) = [ss_stack a + na, ss_stack b + nb] \<and>
      (compare_hands ea eb = Greater \<longrightarrow> nb = 0) \<and> (compare_hands ea eb = Less \<longrightarrow> na = 0) \<and>
      (compare_hands ea eb = Equal \<longrightarrow> (if gs_button g = 0 then nb = na + gs_pot g mod 2 else na = nb + gs_pot g mod 2))"
    using heads_up_showdown_pays [of g a b ea eb] ab(7,8) e by blast
  then show ?thesis using ab e(3) unfolding holds_in_def g(1) by auto
qed

end
