(* ===== verification/Spec2Isabelle.thy ===== *)
theory Spec2Isabelle
  imports Multiway_Properties Lifecycle_Properties Engine_Properties Tournament_Properties
    Authorized_Properties Registry_Properties Credential_Properties Network_Properties
    Heads_Up_Properties
begin

text \<open>
  A verification development for OpenFelt, a No-Limit Texas Hold'em engine and play-money server in Rust. All paths
  below are relative to the repository's \<open>src/\<close> directory.

  \<^bold>\<open>The program.\<close> A hand of poker is one value, \<open>MultiwayHand\<close>: seats, stacks, board, pot and the seat to act.
  A command either changes it or is refused. A table's roster, \<open>TableLifecycle\<close>, decides who is dealt into the next
  hand, starts it, and takes the final stacks back; a tournament, \<open>TournamentController\<close>, adds a blind clock,
  eliminations and payouts. For play over a network the hand belongs to a \<open>ProtocolAuthority\<close>, which reads versioned
  command envelopes, records each in a ledger so that it takes effect at most once, and projects the hand to an
  audience. The authority belongs to one worker (\<open>table_actor.rs\<close>), in front of which \<open>authorized_table.rs\<close> binds
  sessions to seats and keeps deadlines, timeouts, showdown pacing and subscriptions. The \<open>TableRegistry\<close> owns all
  tables, routes and waiting lists, rolls a table from one hand to the next, keeps reconnect tokens and safe
  histories, and saves and restores checkpoints. The server of many tables (\<open>network_server.rs\<close>) accepts connections
  within admission windows (\<open>admission.rs\<close>), decodes their frames (\<open>network_transport.rs\<close>), applies their requests to
  the registry under one lock, and passes their commands to the worker of their table. The offline client plays an
  older game of two seats, \<open>GameState\<close>.

  \<^bold>\<open>Conventions.\<close> A \<open>u32\<close> or \<open>u64\<close> is a natural number; the release profile compiles without overflow checks, so the
  wrap-around of \<open>+\<close>, \<open>-\<close> and \<open>*\<close> is written out (\<open>u32_add\<close>, \<open>u32_sub\<close>, \<open>u64_add\<close>, ...) and the saturating and
  checked forms are separate functions. A Rust panic is \<open>None\<close> of the option monad, a returned error is \<open>Inl\<close>, and a
  method that changes its receiver returns the new value with its result, also on an error. A \<open>BTreeMap\<close> is a sorted
  association list (\<open>bt_get\<close>, \<open>bt_insert\<close>, \<open>bt_remove\<close>). Text is a list of bytes. The shuffle of the \<open>rand\<close> crate,
  SHA-256, Argon2, the bytes of the operating system's random source, the clocks, and serde's JSON are arguments of
  the definitions that use them; what is asked of them is a hypothesis where it is needed (the shuffle permutes the
  cards; a random token is not in use).

  \<^bold>\<open>The theories.\<close>

  \<^item> \<open>Prelude\<close>: integers, ordered maps (locale \<open>ordered_map\<close>), decimal numerals, three-way comparison, the rule
    collections.

  \<^item> \<open>Deck\<close> (\<open>game/deck.rs\<close>), \<open>Seat\<close> (\<open>game/seat.rs\<close>, with the locale \<open>clockwise\<close> for the searches around the
    table), \<open>Table_Seats\<close> (\<open>game/table.rs\<close>) and \<open>Table_Facts\<close> (its invariant and the locale \<open>seat_map\<close>), \<open>Commands\<close>
    (\<open>game/actions.rs\<close>, \<open>game/command.rs\<close>).

  \<^item> \<open>Hand_Eval\<close> (\<open>game/hand.rs\<close>); \<open>Hand_Facts\<close> (total preorder of hands, locale \<open>comparator\<close>; the choices of five;
    the iteration order of a hash map does not matter), \<open>Hand_Spec\<close> (the rules of poker as an abstract specification,
    and that the evaluator refines it).

  \<^item> \<open>Multiway_State\<close>, \<open>Multiway\<close>, \<open>Pots\<close> (\<open>game/multiway.rs\<close>) and \<open>Showdown\<close> (\<open>game/multiway/showdown.rs\<close>): the
    authoritative hand. \<open>Hand_Invariant\<close> defines \<open>hand_ok\<close>; \<open>Start_Facts\<close>, \<open>Betting_Facts\<close>, \<open>Showdown_Facts\<close> and
    \<open>Command_Facts\<close> show that the constructor establishes it and every command keeps it without a panic;
    \<open>Pots_Facts\<close> and \<open>Pots_Law\<close> hold what the side pots promise; \<open>Multiway_Views\<close> the frame lemmas; \<open>Samples\<close> concrete
    hands.

  \<^item> \<open>Lifecycle\<close> (\<open>game/lifecycle.rs\<close>); \<open>Lifecycle_Facts\<close>, \<open>Lifecycle_Start\<close>, \<open>Lifecycle_Hands\<close> (the invariant
    \<open>roster_ok\<close>), \<open>Roster\<close> (the operations as a transition system), \<open>Dealing\<close> (where the roster and the engine meet),
    \<open>Starvation\<close> (two players and one who waits for the big blind).

  \<^item> \<open>Tournament\<close> (\<open>tournament.rs\<close>); \<open>Tournament_Facts\<close> (the payouts, the clock, registration), \<open>Tournament_Play\<close>
    (eliminations and the winner).

  \<^item> \<open>Protocol\<close> (\<open>protocol.rs\<close>) and \<open>Protocol_Facts\<close> (locale \<open>command_ledger\<close>: a ledger that grows only and answers a
    recorded key with what it recorded).

  \<^item> \<open>Table_Actor\<close> (\<open>table_actor.rs\<close>), \<open>Authorized_Table\<close> and \<open>Table_Handle\<close> (\<open>authorized_table.rs\<close>);
    \<open>Authorized_Facts\<close> (the invariant \<open>runtime_ok\<close>), \<open>Authorized_Moves\<close>, \<open>Authorized_Ops\<close>, \<open>Authorized_Runs\<close>,
    \<open>Authorized_Samples\<close>.

  \<^item> \<open>Lobby\<close> (\<open>lobby.rs\<close>), \<open>Credentials\<close> (\<open>credentials.rs\<close>) with \<open>Credential_Facts\<close>, \<open>Ring_History\<close>
    (\<open>ring_history.rs\<close>).

  \<^item> \<open>Registry\<close>, \<open>Registry_Tables\<close>, \<open>Registry_Hands\<close>, \<open>Registry_Checkpoint\<close> (\<open>table_registry.rs\<close>);
    \<open>Registry_Facts\<close> to \<open>Registry_Restart\<close> show that every method keeps \<open>registry_ok\<close> (identities, places of
    sessions, tables); \<open>Registry_Alive\<close>, \<open>Registry_Staff\<close>, \<open>Registry_Total\<close>, \<open>Registry_Total_Hands\<close> and
    \<open>Registry_Runs\<close> show that every method returns and every playing table keeps its worker, over all sequences of
    calls, worker messages and restarts; \<open>Registry_Samples\<close> has the concrete lobby; \<open>Registry_Queue\<close> and
    \<open>Registry_Durable\<close> treat the binding of sessions, the waiting list, and what a checkpoint keeps.

  \<^item> \<open>Wire\<close> (\<open>network_transport.rs\<close>: frames, the decoder, the read and write loops, and that cutting a stream into
    chunks changes nothing), \<open>Admission\<close> (\<open>admission.rs\<close>), \<open>Network_Server\<close> (\<open>network_server.rs\<close>: a step of the
    server is one turn of a connection or of the accepting loop), \<open>Network_Facts\<close> and \<open>Network_Runs\<close> (every step returns
    and leaves a registry that its own operations can come to; one open connection per guest).

  \<^item> \<open>Heads_Up\<close> (\<open>game/state.rs\<close>: the offline two-seat game) and \<open>Heads_Up_Facts\<close> (the table read from one seat's
    side, the invariant \<open>game_betting\<close> of a hand in play, and the bound \<open>game_left\<close> on what is left of it).

  \<^item> \<open>Multiway_Properties\<close>, \<open>Engine_Properties\<close>, \<open>Lifecycle_Properties\<close>, \<open>Tournament_Properties\<close>,
    \<open>Protocol_Properties\<close>, \<open>Authorized_Properties\<close>, \<open>Registry_Properties\<close>, \<open>Credential_Properties\<close>,
    \<open>Network_Properties\<close>, \<open>Heads_Up_Properties\<close> (with the sessions of the offline game): the properties, numbered
    C1 to C40, each followed by its witness. Theorems of these theories without a number are supporting results of
    the same kind.

  \<^bold>\<open>Loops.\<close> These loops of the code need not end by their shape: a street that is run out because nobody can act
  (\<open>advance_street\<close>), the reveals of a showdown (\<open>drain_showdown\<close>), the blind clock (\<open>tick_loop\<close>), the draw of a
  token that is not in use, and the loops over a socket. The first three are partial functions whose \<open>None\<close> includes not returning; that they
  return is part of the properties (a street is one of four, a reveal makes a finite progress measure smaller, every
  level has a positive duration). The draw runs over the list of the bytes drawn; that a fresh token is among them is
  a hypothesis. The reads and writes of a socket (\<open>read_available\<close>, \<open>write_frame\<close>, \<open>flush_frame\<close>) end when the
  peer or the clock lets them; no property is stated of them. No property rests on fuel.

  \<^bold>\<open>What the properties show.\<close> Of a hand: no command panics when the forced posts are live, chips are conserved, the
  number of commands is bounded, the showdown ends, pays the best hands and never mucks a winner; with dead forced
  posts a legal command can panic. Of the evaluator and the pots: the best five under the rules, the law of side pots,
  fair shares. Of the roster: every operation returns, the hands it starts are accepted by the engine and their
  reports by the roster, checkpoints restore exactly when the table is restorable, and one waiting player at a
  two-handed table is never dealt in. Of the tournament: it never panics with honest shares, ranks every entrant once
  and pays exactly its pool. Of the authority and its runtime: submissions take effect at most once, a projection is
  private, only the owner of a seat or the clock moves a hand, and a full ledger stops it. Of the registry: it never
  panics over any sequence of calls and restarts, a session has one place, running tables are served, a player
  without chips stops the table, checkpoints round-trip. Of the credentials: a rotated token is spent, and a history is
  read back exactly when no hand is in it twice. Of the server: it never panics, frames arrive however they are cut,
  and the admission windows bound the bursts of one address. Of the offline game: it never panics, keeps its chips,
  and every hand goes on and ends, but a button with one chip stalls the session.

  \<^bold>\<open>Not modelled.\<close> Sockets, TLS, threads and the blocking of full mailboxes; the client of the network and the older
  server of one table; the JSON of serde; files and their atomic
  replacement; the terminal user interfaces, the command lines and the printed demonstrations; the statistics,
  local profiles and the training environment, which are floating point or files; the solver, the model providers and
  the coaching texts of the trainer; \<open>strength()\<close> of the evaluator and two reads of the offline game, which are floating point; the randomised self-test
  of the engine (\<open>game/campaign.rs\<close>).
\<close>

end
